(* ===== verification/Prelude.thy ===== *)
theory Prelude
  imports Main "HOL-Library.Word" "HOL-Library.Code_Target_Nat"
begin

text \<open>
  Shared vocabulary of the development: the machine integer types of the Rust
  sources, their checked and saturating arithmetic, \<open>Result\<close> with its \<open>?\<close>
  operator, slice access, little-endian byte conversion and the binary search
  of sorted slices, with the lemmas the components use about them.

  Conventions. \<open>u8\<close>, \<open>u16\<close>, \<open>u32\<close> and \<open>u64\<close> are words of that width; a
  signed Rust integer of the same width is the same word, read with \<open>sint\<close>.
  A \<open>usize\<close> is a natural number: the sources run on a 64-bit host, where a
  conversion from \<open>u32\<close> to \<open>usize\<close> cannot fail and a slice is shorter than
  \<open>2 ^ 63\<close> elements. \<open>Result<T, E>\<close> is the sum \<open>'e + 't\<close>, \<open>Inl\<close> for \<open>Err\<close> and
  \<open>Inr\<close> for \<open>Ok\<close>.
\<close>

unbundle bit_operations_syntax

named_theorems result_simps \<open>inversion of Result-valued operations that returned Ok\<close>
named_theorems le_simps \<open>little-endian byte conversion\<close>

type_synonym u8 = "8 word"
type_synonym u16 = "16 word"
type_synonym u32 = "32 word"
type_synonym u64 = "64 word"
type_synonym usize = nat

section \<open>Results\<close>

type_synonym ('e, 'a) result = "'e + 'a"

text \<open>The \<open>?\<close> operator: continue with the value of \<open>Ok\<close>, return \<open>Err\<close> unchanged.\<close>

definition and_then :: "('e, 'a) result \<Rightarrow> ('a \<Rightarrow> ('e, 'b) result) \<Rightarrow> ('e, 'b) result" where
  "and_then r f = (case r of Inl e \<Rightarrow> Inl e | Inr x \<Rightarrow> f x)"

lemma and_then_simps [simp]:
  "and_then (Inl e) f = Inl e"
  "and_then (Inr x) f = f x"
  by (simp_all add: and_then_def)

lemma and_then_eq_Inr [simp, result_simps]:
  "and_then r f = Inr y \<longleftrightarrow> (\<exists>x. r = Inr x \<and> f x = Inr y)"
  by (cases r) auto

lemma and_then_eq_Inl:
  "and_then r f = Inl e \<longleftrightarrow> r = Inl e \<or> (\<exists>x. r = Inr x \<and> f x = Inl e)"
  by (cases r) auto

text \<open>A guard that returns an error when its condition holds.\<close>

definition err_if :: "bool \<Rightarrow> 'e \<Rightarrow> ('e, unit) result" where
  "err_if b e = (if b then Inl e else Inr ())"

lemma err_if_eq_Inr [simp, result_simps]: "err_if b e = Inr u \<longleftrightarrow> \<not> b"
  by (simp add: err_if_def)

lemma err_if_simps [simp]:
  "err_if True e = Inl e" "err_if False e = Inr ()"
  by (simp_all add: err_if_def)

lemma err_if_eq_Inl: "err_if b e = Inl e' \<longleftrightarrow> b \<and> e' = e"
  by (auto simp: err_if_def)

text \<open>\<open>Option::ok_or\<close>.\<close>

definition ok_or :: "'a option \<Rightarrow> 'e \<Rightarrow> ('e, 'a) result" where
  "ok_or x e = (case x of None \<Rightarrow> Inl e | Some v \<Rightarrow> Inr v)"

lemma ok_or_simps [simp]: "ok_or None e = Inl e" "ok_or (Some v) e = Inr v"
  by (simp_all add: ok_or_def)

lemma ok_or_eq_Inr [simp, result_simps]: "ok_or x e = Inr v \<longleftrightarrow> x = Some v"
  by (cases x) auto

text \<open>\<open>Result::map_err\<close>.\<close>

definition map_err :: "('e \<Rightarrow> 'f) \<Rightarrow> ('e, 'a) result \<Rightarrow> ('f, 'a) result" where
  "map_err f r = (case r of Inl e \<Rightarrow> Inl (f e) | Inr x \<Rightarrow> Inr x)"

lemma map_err_simps [simp]: "map_err f (Inl e) = Inl (f e)" "map_err f (Inr x) = Inr x"
  by (simp_all add: map_err_def)

lemma map_err_eq_Inr [simp, result_simps]: "map_err f r = Inr x \<longleftrightarrow> r = Inr x"
  by (cases r) auto

text \<open>A loop over a slice whose body may fail: the first error ends it.\<close>

primrec try_for_each :: "('a \<Rightarrow> ('e, unit) result) \<Rightarrow> 'a list \<Rightarrow> ('e, unit) result" where
  "try_for_each f [] = Inr ()"
| "try_for_each f (x # xs) = and_then (f x) (\<lambda>_. try_for_each f xs)"

lemma try_for_each_eq_Inr [simp, result_simps]:
  "try_for_each f xs = Inr u \<longleftrightarrow> (\<forall>x \<in> set xs. f x = Inr ())"
  by (induction xs) auto

text \<open>A loop that also collects the value of every iteration.\<close>

primrec try_map :: "('a \<Rightarrow> ('e, 'b) result) \<Rightarrow> 'a list \<Rightarrow> ('e, 'b list) result" where
  "try_map f [] = Inr []"
| "try_map f (x # xs) = and_then (f x) (\<lambda>y. and_then (try_map f xs) (\<lambda>ys. Inr (y # ys)))"

lemma try_map_eq_Inr:
  "try_map f xs = Inr ys \<longleftrightarrow>
     length ys = length xs \<and> (\<forall>i < length xs. f (xs ! i) = Inr (ys ! i))"
proof (induction xs arbitrary: ys)
  case Nil
  then show ?case by auto
next
  case (Cons x xs)
  show ?case
  proof (cases ys)
    case Nil
    then show ?thesis by auto
  next
    case (Cons y ys')
    then show ?thesis
      using Cons.IH [of ys'] by (auto simp: All_less_Suc2)
  qed
qed

lemma try_map_length: "try_map f xs = Inr ys \<Longrightarrow> length ys = length xs"
  by (simp add: try_map_eq_Inr)

lemma try_map_nth: "try_map f xs = Inr ys \<Longrightarrow> i < length xs \<Longrightarrow> f (xs ! i) = Inr (ys ! i)"
  by (simp add: try_map_eq_Inr)

lemma try_map_eq_Inl:
  "try_map f xs = Inl e \<Longrightarrow> \<exists>x \<in> set xs. f x = Inl e"
  by (induction xs) (auto simp: and_then_eq_Inl)

text \<open>A loop that threads a state through fallible steps.\<close>

primrec try_fold :: "('s \<Rightarrow> 'a \<Rightarrow> ('e, 's) result) \<Rightarrow> 'a list \<Rightarrow> 's \<Rightarrow> ('e, 's) result" where
  "try_fold f [] s = Inr s"
| "try_fold f (x # xs) s = and_then (f s x) (try_fold f xs)"

lemma try_fold_append:
  "try_fold f (xs @ ys) s = and_then (try_fold f xs s) (try_fold f ys)"
  by (induction xs arbitrary: s) (auto simp: and_then_def split: sum.splits)

lemma try_for_each_eq_Inl: "try_for_each f xs = Inl e \<Longrightarrow> \<exists>x \<in> set xs. f x = Inl e"
  by (induction xs) (auto simp: and_then_eq_Inl)

lemma try_fold_eq_Inl:
  "try_fold f xs s = Inl e \<Longrightarrow> \<exists>ys x zs s'. xs = ys @ x # zs \<and> try_fold f ys s = Inr s' \<and> f s' x = Inl e"
proof (induction xs arbitrary: s)
  case (Cons x xs)
  show ?case
  proof (cases "f s x")
    case (Inl e')
    then show ?thesis using Cons.prems by (intro exI [of _ "[]"] exI [of _ x] exI [of _ xs] exI [of _ s]) simp
  next
    case (Inr s')
    then have "try_fold f xs s' = Inl e" using Cons.prems by simp
    from Cons.IH [OF this] obtain ys y zs t where "xs = ys @ y # zs" "try_fold f ys s' = Inr t" "f t y = Inl e"
      by blast
    then have "x # xs = (x # ys) @ y # zs" "try_fold f (x # ys) s = Inr t" using Inr by simp_all
    then show ?thesis using \<open>f t y = Inl e\<close> by blast
  qed
qed simp

section \<open>Checked integer operations\<close>

definition checked_add :: "'a::len word \<Rightarrow> 'a word \<Rightarrow> 'a word option" where
  "checked_add a b = (if unat a + unat b < 2 ^ LENGTH('a) then Some (a + b) else None)"

lemma checked_add_Some:
  "checked_add a b = Some c \<longleftrightarrow> unat a + unat b < 2 ^ LENGTH('a) \<and> c = a + b"
  for a b :: "'a::len word"
  by (auto simp: checked_add_def)

lemma unat_checked_add:
  "checked_add a b = Some c \<Longrightarrow> unat c = unat a + unat b"
  for a b :: "'a::len word"
  by (auto simp: checked_add_Some unat_word_ariths)

definition saturating_add :: "'a::len word \<Rightarrow> 'a word \<Rightarrow> 'a word" where
  "saturating_add a b = (case checked_add a b of None \<Rightarrow> - 1 | Some c \<Rightarrow> c)"

lemma unat_saturating_add:
  "unat a + unat b < 2 ^ LENGTH('a) \<Longrightarrow> unat (saturating_add a b) = unat a + unat b"
  for a b :: "'a::len word"
  by (simp add: saturating_add_def checked_add_def unat_word_ariths)

definition saturating_sub :: "'a::len word \<Rightarrow> 'a word \<Rightarrow> 'a word" where
  "saturating_sub a b = (if b \<le> a then a - b else 0)"

lemma unat_saturating_sub: "unat (saturating_sub a b) = unat a - unat b"
  by (auto simp: saturating_sub_def unat_sub word_le_nat_alt)

definition u32_try_from :: "nat \<Rightarrow> u32 option" where
  "u32_try_from n = (if n < 2 ^ 32 then Some (word_of_nat n) else None)"

lemma u32_try_from_Some: "u32_try_from n = Some w \<longleftrightarrow> n < 2 ^ 32 \<and> w = word_of_nat n"
  by (auto simp: u32_try_from_def)

lemma unat_word_of_nat_u32: "n < 2 ^ 32 \<Longrightarrow> unat (word_of_nat n :: u32) = n"
  by (simp add: unat_of_nat)

lemma unat_u32_try_from: "u32_try_from n = Some w \<Longrightarrow> unat w = n"
  by (simp add: u32_try_from_Some unat_word_of_nat_u32)

lemma unat_u32_bound [simp]: "unat (w :: u32) < 4294967296"
  using unsigned_less [of w] by simp

lemma unat_u8_bound [simp]: "unat (w :: u8) < 256"
  using unsigned_less [of w] by simp

lemma unat_u16_bound [simp]: "unat (w :: u16) < 65536"
  using unsigned_less [of w] by simp

lemma unat_ucast_u8_u32 [simp]: "unat (ucast (w :: u8) :: u32) = unat w"
  by (simp add: unsigned_ucast_eq take_bit_nat_eq_self_iff less_trans [OF unat_u8_bound])

lemma unat_ucast_u16_u32 [simp]: "unat (ucast (w :: u16) :: u32) = unat w"
  by (simp add: unsigned_ucast_eq take_bit_nat_eq_self_iff less_trans [OF unat_u16_bound])

lemma u32_add_eqI: "unat a + unat b = unat c \<Longrightarrow> a + b = (c :: u32)"
  by (simp add: word_unat_eq_iff unat_word_ariths)

lemma word_of_nat_unat_u32 [simp]: "word_of_nat (unat (w :: u32)) = w"
  by simp

section \<open>Slices\<close>

text \<open>
  Whether \<^verbatim>\<open>Vec::try_reserve\<close> succeeds is decided outside the program, so every
  operation that grows a vector takes the allocator as an argument: \<open>alloc n k\<close> holds
  when a vector of \<open>n\<close> elements can be grown by \<open>k\<close> more.
\<close>

type_synonym allocator = "usize \<Rightarrow> usize \<Rightarrow> bool"

text \<open>\<open>slice.get(i)\<close>: \<open>None\<close> outside the slice.\<close>

definition get :: "'a list \<Rightarrow> nat \<Rightarrow> 'a option" where
  "get xs i = (if i < length xs then Some (xs ! i) else None)"

lemma get_eq_Some [simp]: "get xs i = Some x \<longleftrightarrow> i < length xs \<and> xs ! i = x"
  by (auto simp: get_def)

lemma get_eq_None [simp]: "get xs i = None \<longleftrightarrow> length xs \<le> i"
  by (auto simp: get_def)

lemma get_code [code]:
  "get [] i = None"
  "get (x # xs) i = (if i = 0 then Some x else get xs (i - 1))"
  by (auto simp: get_def)

lemma enumerate_split:
  assumes "List.enumerate 0 xs = ys @ (i, x) # zs"
  shows "i < length xs" "x = xs ! i" "ys = List.enumerate 0 (take i xs)"
proof -
  let ?k = "length ys"
  have k: "?k < length xs" using arg_cong [OF assms, of length] by simp
  have "List.enumerate 0 xs ! ?k = (i, x)" using assms by simp
  then have ix: "i = ?k" "x = xs ! ?k" using k by (auto simp: nth_enumerate_eq)
  then show "i < length xs" "x = xs ! i" using k by simp_all
  have "take ?k (List.enumerate 0 xs) = ys" using assms by simp
  then show "ys = List.enumerate 0 (take i xs)" using ix using k by (simp add: enumerate_eq_zip take_zip)
qed

text \<open>
  \<open>slice::binary_search_by_key\<close> on the half-open window \<open>lo\<close> to \<open>hi\<close>:
  the middle element decides which half can hold the key.
\<close>

function binary_search :: "('a \<Rightarrow> 'k::linorder) \<Rightarrow> 'k \<Rightarrow> 'a list \<Rightarrow> nat \<Rightarrow> nat \<Rightarrow> nat option" where
  "binary_search key k xs lo hi =
     (if lo < hi then
        (let mid = lo + (hi - lo) div 2
         in if key (xs ! mid) = k then Some mid
            else if key (xs ! mid) < k then binary_search key k xs (mid + 1) hi
            else binary_search key k xs lo mid)
      else None)"
  by pat_completeness auto
termination
  by (relation "measure (\<lambda>(key, k, xs, lo, hi). hi - lo)") (auto simp: Let_def)

declare binary_search.simps [simp del]

definition binary_search_by_key :: "('a \<Rightarrow> 'k::linorder) \<Rightarrow> 'k \<Rightarrow> 'a list \<Rightarrow> nat option" where
  "binary_search_by_key key k xs = binary_search key k xs 0 (length xs)"

lemma binary_search_sound:
  "binary_search key k xs lo hi = Some i \<Longrightarrow> lo \<le> i \<and> i < hi \<and> key (xs ! i) = k"
proof (induction key k xs lo hi rule: binary_search.induct)
  case (1 key k xs lo hi)
  let ?mid = "lo + (hi - lo) div 2"
  show ?case
  proof (cases "lo < hi \<and> key (xs ! ?mid) \<noteq> k")
    case True
    then show ?thesis
      using 1 by (force simp: binary_search.simps [of key k xs lo hi] Let_def split: if_splits)
  next
    case False
    then show ?thesis
      using "1.prems" by (auto simp: binary_search.simps [of key k xs lo hi] Let_def split: if_splits)
  qed
qed

lemma binary_search_complete:
  assumes "sorted_wrt (\<lambda>a b. key a < key b) xs" and "hi \<le> length xs"
    and "lo \<le> i" and "i < hi" and "key (xs ! i) = k"
  shows "binary_search key k xs lo hi = Some i"
  using assms
proof (induction key k xs lo hi rule: binary_search.induct)
  case (1 key k xs lo hi)
  let ?mid = "lo + (hi - lo) div 2"
  have mid: "?mid < length xs" "lo < hi" using "1.prems" by auto
  have mono: "a < b \<Longrightarrow> b < length xs \<Longrightarrow> key (xs ! a) < key (xs ! b)" for a b
    using sorted_wrt_nth_less [OF "1.prems"(1)] by simp
  consider "i = ?mid" | "i < ?mid" | "?mid < i" by linarith
  then show ?case
  proof cases
    case 1
    then show ?thesis
      using "1.prems" mid by (simp add: binary_search.simps [of key k xs lo hi] Let_def)
  next
    case 2
    then have "k < key (xs ! ?mid)" using mono [of i ?mid] "1.prems" mid by simp
    then show ?thesis
      using "1.IH"(2) [OF mid(2) refl] "1.prems" 2 mid
      by (auto simp: binary_search.simps [of key k xs lo hi] Let_def)
  next
    case 3
    then have "key (xs ! ?mid) < k" using mono [of ?mid i] "1.prems" by simp
    then show ?thesis
      using "1.IH"(1) [OF mid(2) refl] "1.prems" 3 mid
      by (auto simp: binary_search.simps [of key k xs lo hi] Let_def)
  qed
qed

lemma binary_search_by_key_sound:
  "binary_search_by_key key k xs = Some i \<Longrightarrow> i < length xs \<and> key (xs ! i) = k"
  by (auto simp: binary_search_by_key_def dest: binary_search_sound)

lemma binary_search_by_key_iff:
  assumes "sorted_wrt (\<lambda>a b. key a < key b) xs"
  shows "binary_search_by_key key k xs = Some i \<longleftrightarrow> i < length xs \<and> key (xs ! i) = k"
  using binary_search_by_key_sound binary_search_complete [OF assms, of "length xs" 0 i k]
  by (auto simp: binary_search_by_key_def)

section \<open>Little-endian bytes\<close>

definition u16_to_le_bytes :: "u16 \<Rightarrow> u8 list" where
  "u16_to_le_bytes w = [ucast w, ucast (drop_bit 8 w)]"

definition u32_to_le_bytes :: "u32 \<Rightarrow> u8 list" where
  "u32_to_le_bytes w =
     [ucast w, ucast (drop_bit 8 w), ucast (drop_bit 16 w), ucast (drop_bit 24 w)]"

definition u16_from_le_bytes :: "u8 \<Rightarrow> u8 \<Rightarrow> u16" where
  "u16_from_le_bytes b0 b1 = ucast b0 OR push_bit 8 (ucast b1)"

definition u32_from_le_bytes :: "u8 \<Rightarrow> u8 \<Rightarrow> u8 \<Rightarrow> u8 \<Rightarrow> u32" where
  "u32_from_le_bytes b0 b1 b2 b3 =
     ucast b0 OR push_bit 8 (ucast b1) OR push_bit 16 (ucast b2) OR push_bit 24 (ucast b3)"

lemma length_to_le_bytes [simp]:
  "length (u16_to_le_bytes w) = 2" "length (u32_to_le_bytes v) = 4"
  by (simp_all add: u16_to_le_bytes_def u32_to_le_bytes_def)

lemma u16_le_roundtrip [simp, le_simps]:
  "u16_from_le_bytes (ucast w) (ucast (drop_bit 8 w)) = w"
  unfolding u16_from_le_bytes_def
  by (rule bit_word_eqI) (auto simp: bit_simps)

lemma u32_le_roundtrip [simp, le_simps]:
  "u32_from_le_bytes (ucast w) (ucast (drop_bit 8 w)) (ucast (drop_bit 16 w)) (ucast (drop_bit 24 w)) = w"
  unfolding u32_from_le_bytes_def
proof (rule bit_word_eqI)
  fix n assume "n < LENGTH(32)"
  then consider "n < 8" | "8 \<le> n" "n < 16" | "16 \<le> n" "n < 24" | "24 \<le> n" "n < 32"
    by fastforce
  then show "bit (ucast (ucast w :: u8) OR push_bit 8 (ucast (ucast (drop_bit 8 w) :: u8))
      OR push_bit 16 (ucast (ucast (drop_bit 16 w) :: u8))
      OR push_bit 24 (ucast (ucast (drop_bit 24 w) :: u8)) :: u32) n = bit w n"
    by cases (auto simp: bit_simps)
qed

lemma not_bit_u8_high [simp]: "8 \<le> n \<Longrightarrow> \<not> bit (b :: u8) n"
  using bit_imp_le_length [of b n] by auto

lemma u16_from_le_inverse [simp, le_simps]:
  "u16_to_le_bytes (u16_from_le_bytes b0 b1) = [b0, b1]"
  unfolding u16_to_le_bytes_def u16_from_le_bytes_def
  by (auto intro!: bit_word_eqI simp: bit_simps)

lemma u32_from_le_inverse [simp, le_simps]:
  "u32_to_le_bytes (u32_from_le_bytes b0 b1 b2 b3) = [b0, b1, b2, b3]"
  unfolding u32_to_le_bytes_def u32_from_le_bytes_def
  by (auto intro!: bit_word_eqI simp: bit_simps)

section \<open>Encoders and decoders\<close>

text \<open>
  The contract of an encoder with its decoder: valid data survive the round trip, and a canonical
  encoding accepts nothing but encoded valid data.
\<close>

locale encoding =
  fixes valid :: "'a \<Rightarrow> bool" and encode :: "'a \<Rightarrow> 'b" and decode :: "'b \<Rightarrow> ('e, 'a) result"
  assumes decode_encode: "valid x \<Longrightarrow> decode (encode x) = Inr x"
begin

lemma encode_injective: "valid x \<Longrightarrow> valid y \<Longrightarrow> encode x = encode y \<Longrightarrow> x = y"
  using decode_encode by (metis sum.inject(2))

lemma encode_accepted: "valid x \<Longrightarrow> decode (encode x) \<noteq> Inl e"
  by (simp add: decode_encode)

end

locale canonical_encoding = encoding +
  assumes decode_canonical: "decode y = Inr x \<Longrightarrow> valid x \<and> encode x = y"
begin

lemma decodes_to_iff: "decode y = Inr x \<longleftrightarrow> valid x \<and> encode x = y"
  using decode_encode decode_canonical by blast

lemma accepted_iff: "(\<exists>x. decode y = Inr x) \<longleftrightarrow> y \<in> encode ` {x. valid x}"
  by (auto simp: decodes_to_iff)

lemma same_result_same_input: "decode y = Inr x \<Longrightarrow> decode z = Inr x \<Longrightarrow> y = z"
  using decode_canonical by blast

end

end
