(* ===== verification/Opcodes.thy ===== *)
theory Opcodes
  imports Prelude
begin

text \<open>
  The opcode schema of \<^verbatim>\<open>crates/fusor-bytecode/src/lib.rs\<close> and its table
  \<^verbatim>\<open>opcode_table.rs\<close>: operand formats, the final opcodes with their bytes and
  metadata, the temporary compiler opcodes, and the stack effects.

  The Rust enum \<open>FinalOpcode\<close> has 249 variants. Here the variants are grouped into
  twelve small enumerations, one per consecutive section of the table, and
  \<open>final_opcode\<close> is their disjoint sum; \<open>Op_X\<close> abbreviates the variant
  \<^verbatim>\<open>FinalOpcode::X\<close>, \<open>Fmt_X\<close> the variant \<^verbatim>\<open>OperandFormat::X\<close> and \<open>Tmp_X\<close> the
  variant \<^verbatim>\<open>TemporaryOpcode::X\<close>. The mnemonic column of the table only feeds
  \<^verbatim>\<open>Display\<close> implementations and is left out.
\<close>

section \<open>Operand formats\<close>

datatype operand_format =
  Fmt_None | Fmt_NoneInt | Fmt_NoneLoc | Fmt_NoneArg | Fmt_NoneVarRef | Fmt_U8 | Fmt_I8
  | Fmt_Loc8 | Fmt_Const8 | Fmt_Label8 | Fmt_U16 | Fmt_I16 | Fmt_Label16 | Fmt_NPop | Fmt_NPopX
  | Fmt_NPopU16 | Fmt_Loc | Fmt_Arg | Fmt_VarRef | Fmt_U32 | Fmt_I32 | Fmt_Const | Fmt_Label
  | Fmt_Atom | Fmt_AtomU8 | Fmt_AtomU16 | Fmt_AtomLabelU8 | Fmt_AtomLabelU16 | Fmt_LabelU16

primrec operand_width :: "operand_format \<Rightarrow> u8" where
  "operand_width Fmt_None = 0"
| "operand_width Fmt_NoneInt = 0"
| "operand_width Fmt_NoneLoc = 0"
| "operand_width Fmt_NoneArg = 0"
| "operand_width Fmt_NoneVarRef = 0"
| "operand_width Fmt_U8 = 1"
| "operand_width Fmt_I8 = 1"
| "operand_width Fmt_Loc8 = 1"
| "operand_width Fmt_Const8 = 1"
| "operand_width Fmt_Label8 = 1"
| "operand_width Fmt_U16 = 2"
| "operand_width Fmt_I16 = 2"
| "operand_width Fmt_Label16 = 2"
| "operand_width Fmt_NPop = 2"
| "operand_width Fmt_NPopX = 0"
| "operand_width Fmt_NPopU16 = 4"
| "operand_width Fmt_Loc = 2"
| "operand_width Fmt_Arg = 2"
| "operand_width Fmt_VarRef = 2"
| "operand_width Fmt_U32 = 4"
| "operand_width Fmt_I32 = 4"
| "operand_width Fmt_Const = 4"
| "operand_width Fmt_Label = 4"
| "operand_width Fmt_Atom = 4"
| "operand_width Fmt_AtomU8 = 5"
| "operand_width Fmt_AtomU16 = 6"
| "operand_width Fmt_AtomLabelU8 = 9"
| "operand_width Fmt_AtomLabelU16 = 10"
| "operand_width Fmt_LabelU16 = 6"

text \<open>\<^verbatim>\<open>OperandFormat::instruction_size\<close>: the operands and the opcode byte.\<close>

definition format_instruction_size :: "operand_format \<Rightarrow> u8" where
  "format_instruction_size f = operand_width f + 1"

record opcode_metadata =
  instruction_size :: u8
  base_pops :: u8
  base_pushes :: u8
  operand_format :: operand_format

definition opcode_metadata_new :: "u8 \<Rightarrow> u8 \<Rightarrow> u8 \<Rightarrow> operand_format \<Rightarrow> opcode_metadata" where
  "opcode_metadata_new sz pop psh fmt =
     \<lparr>instruction_size = sz, base_pops = pop, base_pushes = psh, operand_format = fmt\<rparr>"

section \<open>Final opcodes\<close>

text \<open>\<open>push_op\<close>: the reserved sentinel and the value pushes.\<close>

datatype push_op =
  Invalid' | PushI32' | PushConst' | FClosure' | PushAtomValue' | PrivateSymbol' | Undefined'
  | Null' | PushThis' | PushFalse' | PushTrue' | Object' | SpecialObject' | Rest'

text \<open>\<open>stack_op\<close>: operand-stack shuffles.\<close>

datatype stack_op =
  Drop' | Nip' | Nip1' | Dup' | Dup1' | Dup2' | Dup3' | Insert2' | Insert3' | Insert4' | Perm3'
  | Perm4' | Perm5' | Swap' | Swap2' | Rot3l' | Rot3r' | Rot4l' | Rot5l'

text \<open>\<open>call_op\<close>: calls, returns, throws, eval and import.\<close>

datatype call_op =
  CallConstructor' | Call' | TailCall' | CallMethod' | TailCallMethod' | ArrayFrom' | Apply'
  | Return' | ReturnUndef' | CheckCtorReturn' | CheckCtor' | InitCtor' | CheckBrand' | AddBrand'
  | ReturnAsync' | Throw' | ThrowError' | Eval' | ApplyEval' | RegExp' | GetSuper' | Import'
  | ImportDefer'

text \<open>\<open>prop_op\<close>: global variables, fields, elements and definitions.\<close>

datatype prop_op =
  GetVarUndef' | GetVar' | PutVar' | PutVarInit' | GetRefValue' | PutRefValue' | GetField'
  | GetField2' | PutField' | GetPrivateField' | PutPrivateField' | DefinePrivateField'
  | GetArrayEl' | GetArrayEl2' | GetArrayEl3' | PutArrayEl' | GetSuperValue' | PutSuperValue'
  | DefineField' | SetName' | SetNameComputed' | SetProto' | SetHomeObject' | DefineArrayEl'
  | Append' | CopyDataProperties' | DefineMethod' | DefineMethodComputed' | DefineClass'
  | DefineClassComputed'

text \<open>\<open>slot_op\<close>: locals, arguments and captured variables.\<close>

datatype slot_op =
  GetLoc' | PutLoc' | SetLoc' | GetArg' | PutArg' | SetArg' | GetVarRef' | PutVarRef'
  | SetVarRef' | SetLocUninitialized' | GetLocCheck' | PutLocCheck' | SetLocCheck'
  | PutLocCheckInit' | GetLocCheckThis' | GetVarRefCheck' | PutVarRefCheck'
  | PutVarRefCheckInit' | CloseLoc'

text \<open>\<open>control_op\<close>: branches, handlers and references.\<close>

datatype control_op =
  IfFalse' | IfTrue' | Goto' | Catch' | Gosub' | Ret' | NipCatch' | ToObject' | ToPropKey'
  | WithGetVar' | WithPutVar' | WithDeleteVar' | WithMakeRef' | WithGetRef' | MakeLocRef'
  | MakeArgRef' | MakeVarRefRef' | MakeVarRef'

text \<open>\<open>iter_op\<close>: iteration and suspension.\<close>

datatype iter_op =
  ForInStart' | ForOfStart' | ForAwaitOfStart' | ForInNext' | ForOfNext' | ForAwaitOfNext'
  | IteratorCheckObject' | IteratorGetValueDone' | IteratorClose' | IteratorNext'
  | IteratorCall' | InitialYield' | Yield' | YieldStar' | AsyncYieldStar' | Await'

text \<open>\<open>unary_op\<close>: unary operators.\<close>

datatype unary_op =
  Neg' | Plus' | Dec' | Inc' | PostDec' | PostInc' | DecLoc' | IncLoc' | AddLoc' | Not' | Lnot'
  | Typeof' | Delete' | DeleteVar'

text \<open>\<open>binary_op\<close>: binary operators, \<open>push_bigint_i32\<close> and \<open>nop\<close>.\<close>

datatype binary_op =
  Mul' | Div' | Mod' | Add' | Sub' | Pow' | Shl' | Sar' | Shr' | Lt' | Lte' | Gt' | Gte'
  | InstanceOf' | In' | Eq' | Neq' | StrictEq' | StrictNeq' | And' | Xor' | Or'
  | IsUndefinedOrNull' | PrivateIn' | PushBigIntI32' | Nop'

text \<open>\<open>short_push_op\<close>: short value pushes and 8-bit local access.\<close>

datatype short_push_op =
  PushMinus1' | Push0' | Push1' | Push2' | Push3' | Push4' | Push5' | Push6' | Push7' | PushI8'
  | PushI16' | PushConst8' | FClosure8' | PushEmptyString' | GetLoc8' | PutLoc8' | SetLoc8'

text \<open>\<open>short_slot_op\<close>: slot accesses with the index in the opcode.\<close>

datatype short_slot_op =
  GetLoc0' | GetLoc1' | GetLoc2' | GetLoc3' | PutLoc0' | PutLoc1' | PutLoc2' | PutLoc3'
  | SetLoc0' | SetLoc1' | SetLoc2' | SetLoc3' | GetArg0' | GetArg1' | GetArg2' | GetArg3'
  | PutArg0' | PutArg1' | PutArg2' | PutArg3' | SetArg0' | SetArg1' | SetArg2' | SetArg3'
  | GetVarRef0' | GetVarRef1' | GetVarRef2' | GetVarRef3' | PutVarRef0' | PutVarRef1'
  | PutVarRef2' | PutVarRef3' | SetVarRef0' | SetVarRef1' | SetVarRef2' | SetVarRef3'

text \<open>\<open>short_misc_op\<close>: short branches, short calls and the appended Fusor opcodes.\<close>

datatype short_misc_op =
  GetLength' | IfFalse8' | IfTrue8' | Goto8' | Goto16' | Call0' | Call1' | Call2' | Call3'
  | IsUndefined' | IsNull' | TypeofIsUndefined' | TypeofIsFunction' | TailApply' | TailEval'
  | TailApplyEval' | ImportMeta'

datatype final_opcode =
  PushOp push_op | StackOp stack_op | CallOp call_op | PropOp prop_op | SlotOp slot_op
  | ControlOp control_op | IterOp iter_op | UnaryOp unary_op | BinaryOp binary_op
  | ShortPushOp short_push_op | ShortSlotOp short_slot_op | ShortMiscOp short_misc_op

abbreviation "Op_Invalid \<equiv> PushOp Invalid'"
abbreviation "Op_PushI32 \<equiv> PushOp PushI32'"
abbreviation "Op_PushConst \<equiv> PushOp PushConst'"
abbreviation "Op_FClosure \<equiv> PushOp FClosure'"
abbreviation "Op_PushAtomValue \<equiv> PushOp PushAtomValue'"
abbreviation "Op_PrivateSymbol \<equiv> PushOp PrivateSymbol'"
abbreviation "Op_Undefined \<equiv> PushOp Undefined'"
abbreviation "Op_Null \<equiv> PushOp Null'"
abbreviation "Op_PushThis \<equiv> PushOp PushThis'"
abbreviation "Op_PushFalse \<equiv> PushOp PushFalse'"
abbreviation "Op_PushTrue \<equiv> PushOp PushTrue'"
abbreviation "Op_Object \<equiv> PushOp Object'"
abbreviation "Op_SpecialObject \<equiv> PushOp SpecialObject'"
abbreviation "Op_Rest \<equiv> PushOp Rest'"
abbreviation "Op_Drop \<equiv> StackOp Drop'"
abbreviation "Op_Nip \<equiv> StackOp Nip'"
abbreviation "Op_Nip1 \<equiv> StackOp Nip1'"
abbreviation "Op_Dup \<equiv> StackOp Dup'"
abbreviation "Op_Dup1 \<equiv> StackOp Dup1'"
abbreviation "Op_Dup2 \<equiv> StackOp Dup2'"
abbreviation "Op_Dup3 \<equiv> StackOp Dup3'"
abbreviation "Op_Insert2 \<equiv> StackOp Insert2'"
abbreviation "Op_Insert3 \<equiv> StackOp Insert3'"
abbreviation "Op_Insert4 \<equiv> StackOp Insert4'"
abbreviation "Op_Perm3 \<equiv> StackOp Perm3'"
abbreviation "Op_Perm4 \<equiv> StackOp Perm4'"
abbreviation "Op_Perm5 \<equiv> StackOp Perm5'"
abbreviation "Op_Swap \<equiv> StackOp Swap'"
abbreviation "Op_Swap2 \<equiv> StackOp Swap2'"
abbreviation "Op_Rot3l \<equiv> StackOp Rot3l'"
abbreviation "Op_Rot3r \<equiv> StackOp Rot3r'"
abbreviation "Op_Rot4l \<equiv> StackOp Rot4l'"
abbreviation "Op_Rot5l \<equiv> StackOp Rot5l'"
abbreviation "Op_CallConstructor \<equiv> CallOp CallConstructor'"
abbreviation "Op_Call \<equiv> CallOp Call'"
abbreviation "Op_TailCall \<equiv> CallOp TailCall'"
abbreviation "Op_CallMethod \<equiv> CallOp CallMethod'"
abbreviation "Op_TailCallMethod \<equiv> CallOp TailCallMethod'"
abbreviation "Op_ArrayFrom \<equiv> CallOp ArrayFrom'"
abbreviation "Op_Apply \<equiv> CallOp Apply'"
abbreviation "Op_Return \<equiv> CallOp Return'"
abbreviation "Op_ReturnUndef \<equiv> CallOp ReturnUndef'"
abbreviation "Op_CheckCtorReturn \<equiv> CallOp CheckCtorReturn'"
abbreviation "Op_CheckCtor \<equiv> CallOp CheckCtor'"
abbreviation "Op_InitCtor \<equiv> CallOp InitCtor'"
abbreviation "Op_CheckBrand \<equiv> CallOp CheckBrand'"
abbreviation "Op_AddBrand \<equiv> CallOp AddBrand'"
abbreviation "Op_ReturnAsync \<equiv> CallOp ReturnAsync'"
abbreviation "Op_Throw \<equiv> CallOp Throw'"
abbreviation "Op_ThrowError \<equiv> CallOp ThrowError'"
abbreviation "Op_Eval \<equiv> CallOp Eval'"
abbreviation "Op_ApplyEval \<equiv> CallOp ApplyEval'"
abbreviation "Op_RegExp \<equiv> CallOp RegExp'"
abbreviation "Op_GetSuper \<equiv> CallOp GetSuper'"
abbreviation "Op_Import \<equiv> CallOp Import'"
abbreviation "Op_ImportDefer \<equiv> CallOp ImportDefer'"
abbreviation "Op_GetVarUndef \<equiv> PropOp GetVarUndef'"
abbreviation "Op_GetVar \<equiv> PropOp GetVar'"
abbreviation "Op_PutVar \<equiv> PropOp PutVar'"
abbreviation "Op_PutVarInit \<equiv> PropOp PutVarInit'"
abbreviation "Op_GetRefValue \<equiv> PropOp GetRefValue'"
abbreviation "Op_PutRefValue \<equiv> PropOp PutRefValue'"
abbreviation "Op_GetField \<equiv> PropOp GetField'"
abbreviation "Op_GetField2 \<equiv> PropOp GetField2'"
abbreviation "Op_PutField \<equiv> PropOp PutField'"
abbreviation "Op_GetPrivateField \<equiv> PropOp GetPrivateField'"
abbreviation "Op_PutPrivateField \<equiv> PropOp PutPrivateField'"
abbreviation "Op_DefinePrivateField \<equiv> PropOp DefinePrivateField'"
abbreviation "Op_GetArrayEl \<equiv> PropOp GetArrayEl'"
abbreviation "Op_GetArrayEl2 \<equiv> PropOp GetArrayEl2'"
abbreviation "Op_GetArrayEl3 \<equiv> PropOp GetArrayEl3'"
abbreviation "Op_PutArrayEl \<equiv> PropOp PutArrayEl'"
abbreviation "Op_GetSuperValue \<equiv> PropOp GetSuperValue'"
abbreviation "Op_PutSuperValue \<equiv> PropOp PutSuperValue'"
abbreviation "Op_DefineField \<equiv> PropOp DefineField'"
abbreviation "Op_SetName \<equiv> PropOp SetName'"
abbreviation "Op_SetNameComputed \<equiv> PropOp SetNameComputed'"
abbreviation "Op_SetProto \<equiv> PropOp SetProto'"
abbreviation "Op_SetHomeObject \<equiv> PropOp SetHomeObject'"
abbreviation "Op_DefineArrayEl \<equiv> PropOp DefineArrayEl'"
abbreviation "Op_Append \<equiv> PropOp Append'"
abbreviation "Op_CopyDataProperties \<equiv> PropOp CopyDataProperties'"
abbreviation "Op_DefineMethod \<equiv> PropOp DefineMethod'"
abbreviation "Op_DefineMethodComputed \<equiv> PropOp DefineMethodComputed'"
abbreviation "Op_DefineClass \<equiv> PropOp DefineClass'"
abbreviation "Op_DefineClassComputed \<equiv> PropOp DefineClassComputed'"
abbreviation "Op_GetLoc \<equiv> SlotOp GetLoc'"
abbreviation "Op_PutLoc \<equiv> SlotOp PutLoc'"
abbreviation "Op_SetLoc \<equiv> SlotOp SetLoc'"
abbreviation "Op_GetArg \<equiv> SlotOp GetArg'"
abbreviation "Op_PutArg \<equiv> SlotOp PutArg'"
abbreviation "Op_SetArg \<equiv> SlotOp SetArg'"
abbreviation "Op_GetVarRef \<equiv> SlotOp GetVarRef'"
abbreviation "Op_PutVarRef \<equiv> SlotOp PutVarRef'"
abbreviation "Op_SetVarRef \<equiv> SlotOp SetVarRef'"
abbreviation "Op_SetLocUninitialized \<equiv> SlotOp SetLocUninitialized'"
abbreviation "Op_GetLocCheck \<equiv> SlotOp GetLocCheck'"
abbreviation "Op_PutLocCheck \<equiv> SlotOp PutLocCheck'"
abbreviation "Op_SetLocCheck \<equiv> SlotOp SetLocCheck'"
abbreviation "Op_PutLocCheckInit \<equiv> SlotOp PutLocCheckInit'"
abbreviation "Op_GetLocCheckThis \<equiv> SlotOp GetLocCheckThis'"
abbreviation "Op_GetVarRefCheck \<equiv> SlotOp GetVarRefCheck'"
abbreviation "Op_PutVarRefCheck \<equiv> SlotOp PutVarRefCheck'"
abbreviation "Op_PutVarRefCheckInit \<equiv> SlotOp PutVarRefCheckInit'"
abbreviation "Op_CloseLoc \<equiv> SlotOp CloseLoc'"
abbreviation "Op_IfFalse \<equiv> ControlOp IfFalse'"
abbreviation "Op_IfTrue \<equiv> ControlOp IfTrue'"
abbreviation "Op_Goto \<equiv> ControlOp Goto'"
abbreviation "Op_Catch \<equiv> ControlOp Catch'"
abbreviation "Op_Gosub \<equiv> ControlOp Gosub'"
abbreviation "Op_Ret \<equiv> ControlOp Ret'"
abbreviation "Op_NipCatch \<equiv> ControlOp NipCatch'"
abbreviation "Op_ToObject \<equiv> ControlOp ToObject'"
abbreviation "Op_ToPropKey \<equiv> ControlOp ToPropKey'"
abbreviation "Op_WithGetVar \<equiv> ControlOp WithGetVar'"
abbreviation "Op_WithPutVar \<equiv> ControlOp WithPutVar'"
abbreviation "Op_WithDeleteVar \<equiv> ControlOp WithDeleteVar'"
abbreviation "Op_WithMakeRef \<equiv> ControlOp WithMakeRef'"
abbreviation "Op_WithGetRef \<equiv> ControlOp WithGetRef'"
abbreviation "Op_MakeLocRef \<equiv> ControlOp MakeLocRef'"
abbreviation "Op_MakeArgRef \<equiv> ControlOp MakeArgRef'"
abbreviation "Op_MakeVarRefRef \<equiv> ControlOp MakeVarRefRef'"
abbreviation "Op_MakeVarRef \<equiv> ControlOp MakeVarRef'"
abbreviation "Op_ForInStart \<equiv> IterOp ForInStart'"
abbreviation "Op_ForOfStart \<equiv> IterOp ForOfStart'"
abbreviation "Op_ForAwaitOfStart \<equiv> IterOp ForAwaitOfStart'"
abbreviation "Op_ForInNext \<equiv> IterOp ForInNext'"
abbreviation "Op_ForOfNext \<equiv> IterOp ForOfNext'"
abbreviation "Op_ForAwaitOfNext \<equiv> IterOp ForAwaitOfNext'"
abbreviation "Op_IteratorCheckObject \<equiv> IterOp IteratorCheckObject'"
abbreviation "Op_IteratorGetValueDone \<equiv> IterOp IteratorGetValueDone'"
abbreviation "Op_IteratorClose \<equiv> IterOp IteratorClose'"
abbreviation "Op_IteratorNext \<equiv> IterOp IteratorNext'"
abbreviation "Op_IteratorCall \<equiv> IterOp IteratorCall'"
abbreviation "Op_InitialYield \<equiv> IterOp InitialYield'"
abbreviation "Op_Yield \<equiv> IterOp Yield'"
abbreviation "Op_YieldStar \<equiv> IterOp YieldStar'"
abbreviation "Op_AsyncYieldStar \<equiv> IterOp AsyncYieldStar'"
abbreviation "Op_Await \<equiv> IterOp Await'"
abbreviation "Op_Neg \<equiv> UnaryOp Neg'"
abbreviation "Op_Plus \<equiv> UnaryOp Plus'"
abbreviation "Op_Dec \<equiv> UnaryOp Dec'"
abbreviation "Op_Inc \<equiv> UnaryOp Inc'"
abbreviation "Op_PostDec \<equiv> UnaryOp PostDec'"
abbreviation "Op_PostInc \<equiv> UnaryOp PostInc'"
abbreviation "Op_DecLoc \<equiv> UnaryOp DecLoc'"
abbreviation "Op_IncLoc \<equiv> UnaryOp IncLoc'"
abbreviation "Op_AddLoc \<equiv> UnaryOp AddLoc'"
abbreviation "Op_Not \<equiv> UnaryOp Not'"
abbreviation "Op_Lnot \<equiv> UnaryOp Lnot'"
abbreviation "Op_Typeof \<equiv> UnaryOp Typeof'"
abbreviation "Op_Delete \<equiv> UnaryOp Delete'"
abbreviation "Op_DeleteVar \<equiv> UnaryOp DeleteVar'"
abbreviation "Op_Mul \<equiv> BinaryOp Mul'"
abbreviation "Op_Div \<equiv> BinaryOp Div'"
abbreviation "Op_Mod \<equiv> BinaryOp Mod'"
abbreviation "Op_Add \<equiv> BinaryOp Add'"
abbreviation "Op_Sub \<equiv> BinaryOp Sub'"
abbreviation "Op_Pow \<equiv> BinaryOp Pow'"
abbreviation "Op_Shl \<equiv> BinaryOp Shl'"
abbreviation "Op_Sar \<equiv> BinaryOp Sar'"
abbreviation "Op_Shr \<equiv> BinaryOp Shr'"
abbreviation "Op_Lt \<equiv> BinaryOp Lt'"
abbreviation "Op_Lte \<equiv> BinaryOp Lte'"
abbreviation "Op_Gt \<equiv> BinaryOp Gt'"
abbreviation "Op_Gte \<equiv> BinaryOp Gte'"
abbreviation "Op_InstanceOf \<equiv> BinaryOp InstanceOf'"
abbreviation "Op_In \<equiv> BinaryOp In'"
abbreviation "Op_Eq \<equiv> BinaryOp Eq'"
abbreviation "Op_Neq \<equiv> BinaryOp Neq'"
abbreviation "Op_StrictEq \<equiv> BinaryOp StrictEq'"
abbreviation "Op_StrictNeq \<equiv> BinaryOp StrictNeq'"
abbreviation "Op_And \<equiv> BinaryOp And'"
abbreviation "Op_Xor \<equiv> BinaryOp Xor'"
abbreviation "Op_Or \<equiv> BinaryOp Or'"
abbreviation "Op_IsUndefinedOrNull \<equiv> BinaryOp IsUndefinedOrNull'"
abbreviation "Op_PrivateIn \<equiv> BinaryOp PrivateIn'"
abbreviation "Op_PushBigIntI32 \<equiv> BinaryOp PushBigIntI32'"
abbreviation "Op_Nop \<equiv> BinaryOp Nop'"
abbreviation "Op_PushMinus1 \<equiv> ShortPushOp PushMinus1'"
abbreviation "Op_Push0 \<equiv> ShortPushOp Push0'"
abbreviation "Op_Push1 \<equiv> ShortPushOp Push1'"
abbreviation "Op_Push2 \<equiv> ShortPushOp Push2'"
abbreviation "Op_Push3 \<equiv> ShortPushOp Push3'"
abbreviation "Op_Push4 \<equiv> ShortPushOp Push4'"
abbreviation "Op_Push5 \<equiv> ShortPushOp Push5'"
abbreviation "Op_Push6 \<equiv> ShortPushOp Push6'"
abbreviation "Op_Push7 \<equiv> ShortPushOp Push7'"
abbreviation "Op_PushI8 \<equiv> ShortPushOp PushI8'"
abbreviation "Op_PushI16 \<equiv> ShortPushOp PushI16'"
abbreviation "Op_PushConst8 \<equiv> ShortPushOp PushConst8'"
abbreviation "Op_FClosure8 \<equiv> ShortPushOp FClosure8'"
abbreviation "Op_PushEmptyString \<equiv> ShortPushOp PushEmptyString'"
abbreviation "Op_GetLoc8 \<equiv> ShortPushOp GetLoc8'"
abbreviation "Op_PutLoc8 \<equiv> ShortPushOp PutLoc8'"
abbreviation "Op_SetLoc8 \<equiv> ShortPushOp SetLoc8'"
abbreviation "Op_GetLoc0 \<equiv> ShortSlotOp GetLoc0'"
abbreviation "Op_GetLoc1 \<equiv> ShortSlotOp GetLoc1'"
abbreviation "Op_GetLoc2 \<equiv> ShortSlotOp GetLoc2'"
abbreviation "Op_GetLoc3 \<equiv> ShortSlotOp GetLoc3'"
abbreviation "Op_PutLoc0 \<equiv> ShortSlotOp PutLoc0'"
abbreviation "Op_PutLoc1 \<equiv> ShortSlotOp PutLoc1'"
abbreviation "Op_PutLoc2 \<equiv> ShortSlotOp PutLoc2'"
abbreviation "Op_PutLoc3 \<equiv> ShortSlotOp PutLoc3'"
abbreviation "Op_SetLoc0 \<equiv> ShortSlotOp SetLoc0'"
abbreviation "Op_SetLoc1 \<equiv> ShortSlotOp SetLoc1'"
abbreviation "Op_SetLoc2 \<equiv> ShortSlotOp SetLoc2'"
abbreviation "Op_SetLoc3 \<equiv> ShortSlotOp SetLoc3'"
abbreviation "Op_GetArg0 \<equiv> ShortSlotOp GetArg0'"
abbreviation "Op_GetArg1 \<equiv> ShortSlotOp GetArg1'"
abbreviation "Op_GetArg2 \<equiv> ShortSlotOp GetArg2'"
abbreviation "Op_GetArg3 \<equiv> ShortSlotOp GetArg3'"
abbreviation "Op_PutArg0 \<equiv> ShortSlotOp PutArg0'"
abbreviation "Op_PutArg1 \<equiv> ShortSlotOp PutArg1'"
abbreviation "Op_PutArg2 \<equiv> ShortSlotOp PutArg2'"
abbreviation "Op_PutArg3 \<equiv> ShortSlotOp PutArg3'"
abbreviation "Op_SetArg0 \<equiv> ShortSlotOp SetArg0'"
abbreviation "Op_SetArg1 \<equiv> ShortSlotOp SetArg1'"
abbreviation "Op_SetArg2 \<equiv> ShortSlotOp SetArg2'"
abbreviation "Op_SetArg3 \<equiv> ShortSlotOp SetArg3'"
abbreviation "Op_GetVarRef0 \<equiv> ShortSlotOp GetVarRef0'"
abbreviation "Op_GetVarRef1 \<equiv> ShortSlotOp GetVarRef1'"
abbreviation "Op_GetVarRef2 \<equiv> ShortSlotOp GetVarRef2'"
abbreviation "Op_GetVarRef3 \<equiv> ShortSlotOp GetVarRef3'"
abbreviation "Op_PutVarRef0 \<equiv> ShortSlotOp PutVarRef0'"
abbreviation "Op_PutVarRef1 \<equiv> ShortSlotOp PutVarRef1'"
abbreviation "Op_PutVarRef2 \<equiv> ShortSlotOp PutVarRef2'"
abbreviation "Op_PutVarRef3 \<equiv> ShortSlotOp PutVarRef3'"
abbreviation "Op_SetVarRef0 \<equiv> ShortSlotOp SetVarRef0'"
abbreviation "Op_SetVarRef1 \<equiv> ShortSlotOp SetVarRef1'"
abbreviation "Op_SetVarRef2 \<equiv> ShortSlotOp SetVarRef2'"
abbreviation "Op_SetVarRef3 \<equiv> ShortSlotOp SetVarRef3'"
abbreviation "Op_GetLength \<equiv> ShortMiscOp GetLength'"
abbreviation "Op_IfFalse8 \<equiv> ShortMiscOp IfFalse8'"
abbreviation "Op_IfTrue8 \<equiv> ShortMiscOp IfTrue8'"
abbreviation "Op_Goto8 \<equiv> ShortMiscOp Goto8'"
abbreviation "Op_Goto16 \<equiv> ShortMiscOp Goto16'"
abbreviation "Op_Call0 \<equiv> ShortMiscOp Call0'"
abbreviation "Op_Call1 \<equiv> ShortMiscOp Call1'"
abbreviation "Op_Call2 \<equiv> ShortMiscOp Call2'"
abbreviation "Op_Call3 \<equiv> ShortMiscOp Call3'"
abbreviation "Op_IsUndefined \<equiv> ShortMiscOp IsUndefined'"
abbreviation "Op_IsNull \<equiv> ShortMiscOp IsNull'"
abbreviation "Op_TypeofIsUndefined \<equiv> ShortMiscOp TypeofIsUndefined'"
abbreviation "Op_TypeofIsFunction \<equiv> ShortMiscOp TypeofIsFunction'"
abbreviation "Op_TailApply \<equiv> ShortMiscOp TailApply'"
abbreviation "Op_TailEval \<equiv> ShortMiscOp TailEval'"
abbreviation "Op_TailApplyEval \<equiv> ShortMiscOp TailApplyEval'"
abbreviation "Op_ImportMeta \<equiv> ShortMiscOp ImportMeta'"

text \<open>The discriminant of each variant, its position in the table.\<close>

primrec push_op_byte :: "push_op \<Rightarrow> u8" where
  "push_op_byte Invalid' = 0"
| "push_op_byte PushI32' = 1"
| "push_op_byte PushConst' = 2"
| "push_op_byte FClosure' = 3"
| "push_op_byte PushAtomValue' = 4"
| "push_op_byte PrivateSymbol' = 5"
| "push_op_byte Undefined' = 6"
| "push_op_byte Null' = 7"
| "push_op_byte PushThis' = 8"
| "push_op_byte PushFalse' = 9"
| "push_op_byte PushTrue' = 10"
| "push_op_byte Object' = 11"
| "push_op_byte SpecialObject' = 12"
| "push_op_byte Rest' = 13"

primrec stack_op_byte :: "stack_op \<Rightarrow> u8" where
  "stack_op_byte Drop' = 14"
| "stack_op_byte Nip' = 15"
| "stack_op_byte Nip1' = 16"
| "stack_op_byte Dup' = 17"
| "stack_op_byte Dup1' = 18"
| "stack_op_byte Dup2' = 19"
| "stack_op_byte Dup3' = 20"
| "stack_op_byte Insert2' = 21"
| "stack_op_byte Insert3' = 22"
| "stack_op_byte Insert4' = 23"
| "stack_op_byte Perm3' = 24"
| "stack_op_byte Perm4' = 25"
| "stack_op_byte Perm5' = 26"
| "stack_op_byte Swap' = 27"
| "stack_op_byte Swap2' = 28"
| "stack_op_byte Rot3l' = 29"
| "stack_op_byte Rot3r' = 30"
| "stack_op_byte Rot4l' = 31"
| "stack_op_byte Rot5l' = 32"

primrec call_op_byte :: "call_op \<Rightarrow> u8" where
  "call_op_byte CallConstructor' = 33"
| "call_op_byte Call' = 34"
| "call_op_byte TailCall' = 35"
| "call_op_byte CallMethod' = 36"
| "call_op_byte TailCallMethod' = 37"
| "call_op_byte ArrayFrom' = 38"
| "call_op_byte Apply' = 39"
| "call_op_byte Return' = 40"
| "call_op_byte ReturnUndef' = 41"
| "call_op_byte CheckCtorReturn' = 42"
| "call_op_byte CheckCtor' = 43"
| "call_op_byte InitCtor' = 44"
| "call_op_byte CheckBrand' = 45"
| "call_op_byte AddBrand' = 46"
| "call_op_byte ReturnAsync' = 47"
| "call_op_byte Throw' = 48"
| "call_op_byte ThrowError' = 49"
| "call_op_byte Eval' = 50"
| "call_op_byte ApplyEval' = 51"
| "call_op_byte RegExp' = 52"
| "call_op_byte GetSuper' = 53"
| "call_op_byte Import' = 54"
| "call_op_byte ImportDefer' = 55"

primrec prop_op_byte :: "prop_op \<Rightarrow> u8" where
  "prop_op_byte GetVarUndef' = 56"
| "prop_op_byte GetVar' = 57"
| "prop_op_byte PutVar' = 58"
| "prop_op_byte PutVarInit' = 59"
| "prop_op_byte GetRefValue' = 60"
| "prop_op_byte PutRefValue' = 61"
| "prop_op_byte GetField' = 62"
| "prop_op_byte GetField2' = 63"
| "prop_op_byte PutField' = 64"
| "prop_op_byte GetPrivateField' = 65"
| "prop_op_byte PutPrivateField' = 66"
| "prop_op_byte DefinePrivateField' = 67"
| "prop_op_byte GetArrayEl' = 68"
| "prop_op_byte GetArrayEl2' = 69"
| "prop_op_byte GetArrayEl3' = 70"
| "prop_op_byte PutArrayEl' = 71"
| "prop_op_byte GetSuperValue' = 72"
| "prop_op_byte PutSuperValue' = 73"
| "prop_op_byte DefineField' = 74"
| "prop_op_byte SetName' = 75"
| "prop_op_byte SetNameComputed' = 76"
| "prop_op_byte SetProto' = 77"
| "prop_op_byte SetHomeObject' = 78"
| "prop_op_byte DefineArrayEl' = 79"
| "prop_op_byte Append' = 80"
| "prop_op_byte CopyDataProperties' = 81"
| "prop_op_byte DefineMethod' = 82"
| "prop_op_byte DefineMethodComputed' = 83"
| "prop_op_byte DefineClass' = 84"
| "prop_op_byte DefineClassComputed' = 85"

primrec slot_op_byte :: "slot_op \<Rightarrow> u8" where
  "slot_op_byte GetLoc' = 86"
| "slot_op_byte PutLoc' = 87"
| "slot_op_byte SetLoc' = 88"
| "slot_op_byte GetArg' = 89"
| "slot_op_byte PutArg' = 90"
| "slot_op_byte SetArg' = 91"
| "slot_op_byte GetVarRef' = 92"
| "slot_op_byte PutVarRef' = 93"
| "slot_op_byte SetVarRef' = 94"
| "slot_op_byte SetLocUninitialized' = 95"
| "slot_op_byte GetLocCheck' = 96"
| "slot_op_byte PutLocCheck' = 97"
| "slot_op_byte SetLocCheck' = 98"
| "slot_op_byte PutLocCheckInit' = 99"
| "slot_op_byte GetLocCheckThis' = 100"
| "slot_op_byte GetVarRefCheck' = 101"
| "slot_op_byte PutVarRefCheck' = 102"
| "slot_op_byte PutVarRefCheckInit' = 103"
| "slot_op_byte CloseLoc' = 104"

primrec control_op_byte :: "control_op \<Rightarrow> u8" where
  "control_op_byte IfFalse' = 105"
| "control_op_byte IfTrue' = 106"
| "control_op_byte Goto' = 107"
| "control_op_byte Catch' = 108"
| "control_op_byte Gosub' = 109"
| "control_op_byte Ret' = 110"
| "control_op_byte NipCatch' = 111"
| "control_op_byte ToObject' = 112"
| "control_op_byte ToPropKey' = 113"
| "control_op_byte WithGetVar' = 114"
| "control_op_byte WithPutVar' = 115"
| "control_op_byte WithDeleteVar' = 116"
| "control_op_byte WithMakeRef' = 117"
| "control_op_byte WithGetRef' = 118"
| "control_op_byte MakeLocRef' = 119"
| "control_op_byte MakeArgRef' = 120"
| "control_op_byte MakeVarRefRef' = 121"
| "control_op_byte MakeVarRef' = 122"

primrec iter_op_byte :: "iter_op \<Rightarrow> u8" where
  "iter_op_byte ForInStart' = 123"
| "iter_op_byte ForOfStart' = 124"
| "iter_op_byte ForAwaitOfStart' = 125"
| "iter_op_byte ForInNext' = 126"
| "iter_op_byte ForOfNext' = 127"
| "iter_op_byte ForAwaitOfNext' = 128"
| "iter_op_byte IteratorCheckObject' = 129"
| "iter_op_byte IteratorGetValueDone' = 130"
| "iter_op_byte IteratorClose' = 131"
| "iter_op_byte IteratorNext' = 132"
| "iter_op_byte IteratorCall' = 133"
| "iter_op_byte InitialYield' = 134"
| "iter_op_byte Yield' = 135"
| "iter_op_byte YieldStar' = 136"
| "iter_op_byte AsyncYieldStar' = 137"
| "iter_op_byte Await' = 138"

primrec unary_op_byte :: "unary_op \<Rightarrow> u8" where
  "unary_op_byte Neg' = 139"
| "unary_op_byte Plus' = 140"
| "unary_op_byte Dec' = 141"
| "unary_op_byte Inc' = 142"
| "unary_op_byte PostDec' = 143"
| "unary_op_byte PostInc' = 144"
| "unary_op_byte DecLoc' = 145"
| "unary_op_byte IncLoc' = 146"
| "unary_op_byte AddLoc' = 147"
| "unary_op_byte Not' = 148"
| "unary_op_byte Lnot' = 149"
| "unary_op_byte Typeof' = 150"
| "unary_op_byte Delete' = 151"
| "unary_op_byte DeleteVar' = 152"

primrec binary_op_byte :: "binary_op \<Rightarrow> u8" where
  "binary_op_byte Mul' = 153"
| "binary_op_byte Div' = 154"
| "binary_op_byte Mod' = 155"
| "binary_op_byte Add' = 156"
| "binary_op_byte Sub' = 157"
| "binary_op_byte Pow' = 158"
| "binary_op_byte Shl' = 159"
| "binary_op_byte Sar' = 160"
| "binary_op_byte Shr' = 161"
| "binary_op_byte Lt' = 162"
| "binary_op_byte Lte' = 163"
| "binary_op_byte Gt' = 164"
| "binary_op_byte Gte' = 165"
| "binary_op_byte InstanceOf' = 166"
| "binary_op_byte In' = 167"
| "binary_op_byte Eq' = 168"
| "binary_op_byte Neq' = 169"
| "binary_op_byte StrictEq' = 170"
| "binary_op_byte StrictNeq' = 171"
| "binary_op_byte And' = 172"
| "binary_op_byte Xor' = 173"
| "binary_op_byte Or' = 174"
| "binary_op_byte IsUndefinedOrNull' = 175"
| "binary_op_byte PrivateIn' = 176"
| "binary_op_byte PushBigIntI32' = 177"
| "binary_op_byte Nop' = 178"

primrec short_push_op_byte :: "short_push_op \<Rightarrow> u8" where
  "short_push_op_byte PushMinus1' = 179"
| "short_push_op_byte Push0' = 180"
| "short_push_op_byte Push1' = 181"
| "short_push_op_byte Push2' = 182"
| "short_push_op_byte Push3' = 183"
| "short_push_op_byte Push4' = 184"
| "short_push_op_byte Push5' = 185"
| "short_push_op_byte Push6' = 186"
| "short_push_op_byte Push7' = 187"
| "short_push_op_byte PushI8' = 188"
| "short_push_op_byte PushI16' = 189"
| "short_push_op_byte PushConst8' = 190"
| "short_push_op_byte FClosure8' = 191"
| "short_push_op_byte PushEmptyString' = 192"
| "short_push_op_byte GetLoc8' = 193"
| "short_push_op_byte PutLoc8' = 194"
| "short_push_op_byte SetLoc8' = 195"

primrec short_slot_op_byte :: "short_slot_op \<Rightarrow> u8" where
  "short_slot_op_byte GetLoc0' = 196"
| "short_slot_op_byte GetLoc1' = 197"
| "short_slot_op_byte GetLoc2' = 198"
| "short_slot_op_byte GetLoc3' = 199"
| "short_slot_op_byte PutLoc0' = 200"
| "short_slot_op_byte PutLoc1' = 201"
| "short_slot_op_byte PutLoc2' = 202"
| "short_slot_op_byte PutLoc3' = 203"
| "short_slot_op_byte SetLoc0' = 204"
| "short_slot_op_byte SetLoc1' = 205"
| "short_slot_op_byte SetLoc2' = 206"
| "short_slot_op_byte SetLoc3' = 207"
| "short_slot_op_byte GetArg0' = 208"
| "short_slot_op_byte GetArg1' = 209"
| "short_slot_op_byte GetArg2' = 210"
| "short_slot_op_byte GetArg3' = 211"
| "short_slot_op_byte PutArg0' = 212"
| "short_slot_op_byte PutArg1' = 213"
| "short_slot_op_byte PutArg2' = 214"
| "short_slot_op_byte PutArg3' = 215"
| "short_slot_op_byte SetArg0' = 216"
| "short_slot_op_byte SetArg1' = 217"
| "short_slot_op_byte SetArg2' = 218"
| "short_slot_op_byte SetArg3' = 219"
| "short_slot_op_byte GetVarRef0' = 220"
| "short_slot_op_byte GetVarRef1' = 221"
| "short_slot_op_byte GetVarRef2' = 222"
| "short_slot_op_byte GetVarRef3' = 223"
| "short_slot_op_byte PutVarRef0' = 224"
| "short_slot_op_byte PutVarRef1' = 225"
| "short_slot_op_byte PutVarRef2' = 226"
| "short_slot_op_byte PutVarRef3' = 227"
| "short_slot_op_byte SetVarRef0' = 228"
| "short_slot_op_byte SetVarRef1' = 229"
| "short_slot_op_byte SetVarRef2' = 230"
| "short_slot_op_byte SetVarRef3' = 231"

primrec short_misc_op_byte :: "short_misc_op \<Rightarrow> u8" where
  "short_misc_op_byte GetLength' = 232"
| "short_misc_op_byte IfFalse8' = 233"
| "short_misc_op_byte IfTrue8' = 234"
| "short_misc_op_byte Goto8' = 235"
| "short_misc_op_byte Goto16' = 236"
| "short_misc_op_byte Call0' = 237"
| "short_misc_op_byte Call1' = 238"
| "short_misc_op_byte Call2' = 239"
| "short_misc_op_byte Call3' = 240"
| "short_misc_op_byte IsUndefined' = 241"
| "short_misc_op_byte IsNull' = 242"
| "short_misc_op_byte TypeofIsUndefined' = 243"
| "short_misc_op_byte TypeofIsFunction' = 244"
| "short_misc_op_byte TailApply' = 245"
| "short_misc_op_byte TailEval' = 246"
| "short_misc_op_byte TailApplyEval' = 247"
| "short_misc_op_byte ImportMeta' = 248"

primrec encoded_byte :: "final_opcode \<Rightarrow> u8" where
  "encoded_byte (PushOp x) = push_op_byte x"
| "encoded_byte (StackOp x) = stack_op_byte x"
| "encoded_byte (CallOp x) = call_op_byte x"
| "encoded_byte (PropOp x) = prop_op_byte x"
| "encoded_byte (SlotOp x) = slot_op_byte x"
| "encoded_byte (ControlOp x) = control_op_byte x"
| "encoded_byte (IterOp x) = iter_op_byte x"
| "encoded_byte (UnaryOp x) = unary_op_byte x"
| "encoded_byte (BinaryOp x) = binary_op_byte x"
| "encoded_byte (ShortPushOp x) = short_push_op_byte x"
| "encoded_byte (ShortSlotOp x) = short_slot_op_byte x"
| "encoded_byte (ShortMiscOp x) = short_misc_op_byte x"

text \<open>One row of the table per variant: size, pops, pushes, operand format.\<close>

primrec push_op_row :: "push_op \<Rightarrow> opcode_metadata" where
  "push_op_row Invalid' = opcode_metadata_new 1 0 0 Fmt_None"
| "push_op_row PushI32' = opcode_metadata_new 5 0 1 Fmt_I32"
| "push_op_row PushConst' = opcode_metadata_new 5 0 1 Fmt_Const"
| "push_op_row FClosure' = opcode_metadata_new 5 0 1 Fmt_Const"
| "push_op_row PushAtomValue' = opcode_metadata_new 5 0 1 Fmt_Atom"
| "push_op_row PrivateSymbol' = opcode_metadata_new 5 0 1 Fmt_Atom"
| "push_op_row Undefined' = opcode_metadata_new 1 0 1 Fmt_None"
| "push_op_row Null' = opcode_metadata_new 1 0 1 Fmt_None"
| "push_op_row PushThis' = opcode_metadata_new 1 0 1 Fmt_None"
| "push_op_row PushFalse' = opcode_metadata_new 1 0 1 Fmt_None"
| "push_op_row PushTrue' = opcode_metadata_new 1 0 1 Fmt_None"
| "push_op_row Object' = opcode_metadata_new 1 0 1 Fmt_None"
| "push_op_row SpecialObject' = opcode_metadata_new 2 0 1 Fmt_U8"
| "push_op_row Rest' = opcode_metadata_new 3 0 1 Fmt_U16"

primrec stack_op_row :: "stack_op \<Rightarrow> opcode_metadata" where
  "stack_op_row Drop' = opcode_metadata_new 1 1 0 Fmt_None"
| "stack_op_row Nip' = opcode_metadata_new 1 2 1 Fmt_None"
| "stack_op_row Nip1' = opcode_metadata_new 1 3 2 Fmt_None"
| "stack_op_row Dup' = opcode_metadata_new 1 1 2 Fmt_None"
| "stack_op_row Dup1' = opcode_metadata_new 1 2 3 Fmt_None"
| "stack_op_row Dup2' = opcode_metadata_new 1 2 4 Fmt_None"
| "stack_op_row Dup3' = opcode_metadata_new 1 3 6 Fmt_None"
| "stack_op_row Insert2' = opcode_metadata_new 1 2 3 Fmt_None"
| "stack_op_row Insert3' = opcode_metadata_new 1 3 4 Fmt_None"
| "stack_op_row Insert4' = opcode_metadata_new 1 4 5 Fmt_None"
| "stack_op_row Perm3' = opcode_metadata_new 1 3 3 Fmt_None"
| "stack_op_row Perm4' = opcode_metadata_new 1 4 4 Fmt_None"
| "stack_op_row Perm5' = opcode_metadata_new 1 5 5 Fmt_None"
| "stack_op_row Swap' = opcode_metadata_new 1 2 2 Fmt_None"
| "stack_op_row Swap2' = opcode_metadata_new 1 4 4 Fmt_None"
| "stack_op_row Rot3l' = opcode_metadata_new 1 3 3 Fmt_None"
| "stack_op_row Rot3r' = opcode_metadata_new 1 3 3 Fmt_None"
| "stack_op_row Rot4l' = opcode_metadata_new 1 4 4 Fmt_None"
| "stack_op_row Rot5l' = opcode_metadata_new 1 5 5 Fmt_None"

primrec call_op_row :: "call_op \<Rightarrow> opcode_metadata" where
  "call_op_row CallConstructor' = opcode_metadata_new 3 2 1 Fmt_NPop"
| "call_op_row Call' = opcode_metadata_new 3 1 1 Fmt_NPop"
| "call_op_row TailCall' = opcode_metadata_new 3 1 0 Fmt_NPop"
| "call_op_row CallMethod' = opcode_metadata_new 3 2 1 Fmt_NPop"
| "call_op_row TailCallMethod' = opcode_metadata_new 3 2 0 Fmt_NPop"
| "call_op_row ArrayFrom' = opcode_metadata_new 3 0 1 Fmt_NPop"
| "call_op_row Apply' = opcode_metadata_new 3 3 1 Fmt_U16"
| "call_op_row Return' = opcode_metadata_new 1 1 0 Fmt_None"
| "call_op_row ReturnUndef' = opcode_metadata_new 1 0 0 Fmt_None"
| "call_op_row CheckCtorReturn' = opcode_metadata_new 1 1 2 Fmt_None"
| "call_op_row CheckCtor' = opcode_metadata_new 1 0 0 Fmt_None"
| "call_op_row InitCtor' = opcode_metadata_new 1 0 1 Fmt_None"
| "call_op_row CheckBrand' = opcode_metadata_new 1 2 2 Fmt_None"
| "call_op_row AddBrand' = opcode_metadata_new 1 2 0 Fmt_None"
| "call_op_row ReturnAsync' = opcode_metadata_new 1 1 0 Fmt_None"
| "call_op_row Throw' = opcode_metadata_new 1 1 0 Fmt_None"
| "call_op_row ThrowError' = opcode_metadata_new 6 0 0 Fmt_AtomU8"
| "call_op_row Eval' = opcode_metadata_new 5 1 1 Fmt_NPopU16"
| "call_op_row ApplyEval' = opcode_metadata_new 3 2 1 Fmt_U16"
| "call_op_row RegExp' = opcode_metadata_new 1 2 1 Fmt_None"
| "call_op_row GetSuper' = opcode_metadata_new 1 1 1 Fmt_None"
| "call_op_row Import' = opcode_metadata_new 1 2 1 Fmt_None"
| "call_op_row ImportDefer' = opcode_metadata_new 1 2 1 Fmt_None"

primrec prop_op_row :: "prop_op \<Rightarrow> opcode_metadata" where
  "prop_op_row GetVarUndef' = opcode_metadata_new 3 0 1 Fmt_VarRef"
| "prop_op_row GetVar' = opcode_metadata_new 3 0 1 Fmt_VarRef"
| "prop_op_row PutVar' = opcode_metadata_new 3 1 0 Fmt_VarRef"
| "prop_op_row PutVarInit' = opcode_metadata_new 3 1 0 Fmt_VarRef"
| "prop_op_row GetRefValue' = opcode_metadata_new 1 2 3 Fmt_None"
| "prop_op_row PutRefValue' = opcode_metadata_new 1 3 0 Fmt_None"
| "prop_op_row GetField' = opcode_metadata_new 5 1 1 Fmt_Atom"
| "prop_op_row GetField2' = opcode_metadata_new 5 1 2 Fmt_Atom"
| "prop_op_row PutField' = opcode_metadata_new 5 2 0 Fmt_Atom"
| "prop_op_row GetPrivateField' = opcode_metadata_new 1 2 1 Fmt_None"
| "prop_op_row PutPrivateField' = opcode_metadata_new 1 3 0 Fmt_None"
| "prop_op_row DefinePrivateField' = opcode_metadata_new 2 3 1 Fmt_U8"
| "prop_op_row GetArrayEl' = opcode_metadata_new 1 2 1 Fmt_None"
| "prop_op_row GetArrayEl2' = opcode_metadata_new 1 2 2 Fmt_None"
| "prop_op_row GetArrayEl3' = opcode_metadata_new 1 2 3 Fmt_None"
| "prop_op_row PutArrayEl' = opcode_metadata_new 1 3 0 Fmt_None"
| "prop_op_row GetSuperValue' = opcode_metadata_new 1 3 1 Fmt_None"
| "prop_op_row PutSuperValue' = opcode_metadata_new 1 4 0 Fmt_None"
| "prop_op_row DefineField' = opcode_metadata_new 5 2 1 Fmt_Atom"
| "prop_op_row SetName' = opcode_metadata_new 5 1 1 Fmt_Atom"
| "prop_op_row SetNameComputed' = opcode_metadata_new 1 2 2 Fmt_None"
| "prop_op_row SetProto' = opcode_metadata_new 1 2 1 Fmt_None"
| "prop_op_row SetHomeObject' = opcode_metadata_new 1 2 2 Fmt_None"
| "prop_op_row DefineArrayEl' = opcode_metadata_new 1 3 2 Fmt_None"
| "prop_op_row Append' = opcode_metadata_new 1 3 2 Fmt_None"
| "prop_op_row CopyDataProperties' = opcode_metadata_new 2 3 3 Fmt_U8"
| "prop_op_row DefineMethod' = opcode_metadata_new 6 2 1 Fmt_AtomU8"
| "prop_op_row DefineMethodComputed' = opcode_metadata_new 2 3 1 Fmt_U8"
| "prop_op_row DefineClass' = opcode_metadata_new 6 2 2 Fmt_AtomU8"
| "prop_op_row DefineClassComputed' = opcode_metadata_new 6 3 3 Fmt_AtomU8"

primrec slot_op_row :: "slot_op \<Rightarrow> opcode_metadata" where
  "slot_op_row GetLoc' = opcode_metadata_new 3 0 1 Fmt_Loc"
| "slot_op_row PutLoc' = opcode_metadata_new 3 1 0 Fmt_Loc"
| "slot_op_row SetLoc' = opcode_metadata_new 3 1 1 Fmt_Loc"
| "slot_op_row GetArg' = opcode_metadata_new 3 0 1 Fmt_Arg"
| "slot_op_row PutArg' = opcode_metadata_new 3 1 0 Fmt_Arg"
| "slot_op_row SetArg' = opcode_metadata_new 3 1 1 Fmt_Arg"
| "slot_op_row GetVarRef' = opcode_metadata_new 3 0 1 Fmt_VarRef"
| "slot_op_row PutVarRef' = opcode_metadata_new 3 1 0 Fmt_VarRef"
| "slot_op_row SetVarRef' = opcode_metadata_new 3 1 1 Fmt_VarRef"
| "slot_op_row SetLocUninitialized' = opcode_metadata_new 3 0 0 Fmt_Loc"
| "slot_op_row GetLocCheck' = opcode_metadata_new 3 0 1 Fmt_Loc"
| "slot_op_row PutLocCheck' = opcode_metadata_new 3 1 0 Fmt_Loc"
| "slot_op_row SetLocCheck' = opcode_metadata_new 3 1 1 Fmt_Loc"
| "slot_op_row PutLocCheckInit' = opcode_metadata_new 3 1 0 Fmt_Loc"
| "slot_op_row GetLocCheckThis' = opcode_metadata_new 3 0 1 Fmt_Loc"
| "slot_op_row GetVarRefCheck' = opcode_metadata_new 3 0 1 Fmt_VarRef"
| "slot_op_row PutVarRefCheck' = opcode_metadata_new 3 1 0 Fmt_VarRef"
| "slot_op_row PutVarRefCheckInit' = opcode_metadata_new 3 1 0 Fmt_VarRef"
| "slot_op_row CloseLoc' = opcode_metadata_new 3 0 0 Fmt_Loc"

primrec control_op_row :: "control_op \<Rightarrow> opcode_metadata" where
  "control_op_row IfFalse' = opcode_metadata_new 5 1 0 Fmt_Label"
| "control_op_row IfTrue' = opcode_metadata_new 5 1 0 Fmt_Label"
| "control_op_row Goto' = opcode_metadata_new 5 0 0 Fmt_Label"
| "control_op_row Catch' = opcode_metadata_new 5 0 1 Fmt_Label"
| "control_op_row Gosub' = opcode_metadata_new 5 0 0 Fmt_Label"
| "control_op_row Ret' = opcode_metadata_new 1 1 0 Fmt_None"
| "control_op_row NipCatch' = opcode_metadata_new 1 2 1 Fmt_None"
| "control_op_row ToObject' = opcode_metadata_new 1 1 1 Fmt_None"
| "control_op_row ToPropKey' = opcode_metadata_new 1 1 1 Fmt_None"
| "control_op_row WithGetVar' = opcode_metadata_new 10 1 0 Fmt_AtomLabelU8"
| "control_op_row WithPutVar' = opcode_metadata_new 10 2 1 Fmt_AtomLabelU8"
| "control_op_row WithDeleteVar' = opcode_metadata_new 10 1 0 Fmt_AtomLabelU8"
| "control_op_row WithMakeRef' = opcode_metadata_new 10 1 0 Fmt_AtomLabelU8"
| "control_op_row WithGetRef' = opcode_metadata_new 10 1 0 Fmt_AtomLabelU8"
| "control_op_row MakeLocRef' = opcode_metadata_new 7 0 2 Fmt_AtomU16"
| "control_op_row MakeArgRef' = opcode_metadata_new 7 0 2 Fmt_AtomU16"
| "control_op_row MakeVarRefRef' = opcode_metadata_new 7 0 2 Fmt_AtomU16"
| "control_op_row MakeVarRef' = opcode_metadata_new 5 0 2 Fmt_Atom"

primrec iter_op_row :: "iter_op \<Rightarrow> opcode_metadata" where
  "iter_op_row ForInStart' = opcode_metadata_new 1 1 1 Fmt_None"
| "iter_op_row ForOfStart' = opcode_metadata_new 1 1 3 Fmt_None"
| "iter_op_row ForAwaitOfStart' = opcode_metadata_new 1 1 3 Fmt_None"
| "iter_op_row ForInNext' = opcode_metadata_new 1 1 3 Fmt_None"
| "iter_op_row ForOfNext' = opcode_metadata_new 2 3 5 Fmt_U8"
| "iter_op_row ForAwaitOfNext' = opcode_metadata_new 1 3 4 Fmt_None"
| "iter_op_row IteratorCheckObject' = opcode_metadata_new 1 1 1 Fmt_None"
| "iter_op_row IteratorGetValueDone' = opcode_metadata_new 1 2 3 Fmt_None"
| "iter_op_row IteratorClose' = opcode_metadata_new 1 3 0 Fmt_None"
| "iter_op_row IteratorNext' = opcode_metadata_new 1 4 4 Fmt_None"
| "iter_op_row IteratorCall' = opcode_metadata_new 2 4 5 Fmt_U8"
| "iter_op_row InitialYield' = opcode_metadata_new 1 0 0 Fmt_None"
| "iter_op_row Yield' = opcode_metadata_new 1 1 2 Fmt_None"
| "iter_op_row YieldStar' = opcode_metadata_new 1 1 2 Fmt_None"
| "iter_op_row AsyncYieldStar' = opcode_metadata_new 1 1 2 Fmt_None"
| "iter_op_row Await' = opcode_metadata_new 1 1 1 Fmt_None"

primrec unary_op_row :: "unary_op \<Rightarrow> opcode_metadata" where
  "unary_op_row Neg' = opcode_metadata_new 1 1 1 Fmt_None"
| "unary_op_row Plus' = opcode_metadata_new 1 1 1 Fmt_None"
| "unary_op_row Dec' = opcode_metadata_new 1 1 1 Fmt_None"
| "unary_op_row Inc' = opcode_metadata_new 1 1 1 Fmt_None"
| "unary_op_row PostDec' = opcode_metadata_new 1 1 2 Fmt_None"
| "unary_op_row PostInc' = opcode_metadata_new 1 1 2 Fmt_None"
| "unary_op_row DecLoc' = opcode_metadata_new 2 0 0 Fmt_Loc8"
| "unary_op_row IncLoc' = opcode_metadata_new 2 0 0 Fmt_Loc8"
| "unary_op_row AddLoc' = opcode_metadata_new 2 1 0 Fmt_Loc8"
| "unary_op_row Not' = opcode_metadata_new 1 1 1 Fmt_None"
| "unary_op_row Lnot' = opcode_metadata_new 1 1 1 Fmt_None"
| "unary_op_row Typeof' = opcode_metadata_new 1 1 1 Fmt_None"
| "unary_op_row Delete' = opcode_metadata_new 1 2 1 Fmt_None"
| "unary_op_row DeleteVar' = opcode_metadata_new 5 0 1 Fmt_Atom"

primrec binary_op_row :: "binary_op \<Rightarrow> opcode_metadata" where
  "binary_op_row Mul' = opcode_metadata_new 1 2 1 Fmt_None"
| "binary_op_row Div' = opcode_metadata_new 1 2 1 Fmt_None"
| "binary_op_row Mod' = opcode_metadata_new 1 2 1 Fmt_None"
| "binary_op_row Add' = opcode_metadata_new 1 2 1 Fmt_None"
| "binary_op_row Sub' = opcode_metadata_new 1 2 1 Fmt_None"
| "binary_op_row Pow' = opcode_metadata_new 1 2 1 Fmt_None"
| "binary_op_row Shl' = opcode_metadata_new 1 2 1 Fmt_None"
| "binary_op_row Sar' = opcode_metadata_new 1 2 1 Fmt_None"
| "binary_op_row Shr' = opcode_metadata_new 1 2 1 Fmt_None"
| "binary_op_row Lt' = opcode_metadata_new 1 2 1 Fmt_None"
| "binary_op_row Lte' = opcode_metadata_new 1 2 1 Fmt_None"
| "binary_op_row Gt' = opcode_metadata_new 1 2 1 Fmt_None"
| "binary_op_row Gte' = opcode_metadata_new 1 2 1 Fmt_None"
| "binary_op_row InstanceOf' = opcode_metadata_new 1 2 1 Fmt_None"
| "binary_op_row In' = opcode_metadata_new 1 2 1 Fmt_None"
| "binary_op_row Eq' = opcode_metadata_new 1 2 1 Fmt_None"
| "binary_op_row Neq' = opcode_metadata_new 1 2 1 Fmt_None"
| "binary_op_row StrictEq' = opcode_metadata_new 1 2 1 Fmt_None"
| "binary_op_row StrictNeq' = opcode_metadata_new 1 2 1 Fmt_None"
| "binary_op_row And' = opcode_metadata_new 1 2 1 Fmt_None"
| "binary_op_row Xor' = opcode_metadata_new 1 2 1 Fmt_None"
| "binary_op_row Or' = opcode_metadata_new 1 2 1 Fmt_None"
| "binary_op_row IsUndefinedOrNull' = opcode_metadata_new 1 1 1 Fmt_None"
| "binary_op_row PrivateIn' = opcode_metadata_new 1 2 1 Fmt_None"
| "binary_op_row PushBigIntI32' = opcode_metadata_new 5 0 1 Fmt_I32"
| "binary_op_row Nop' = opcode_metadata_new 1 0 0 Fmt_None"

primrec short_push_op_row :: "short_push_op \<Rightarrow> opcode_metadata" where
  "short_push_op_row PushMinus1' = opcode_metadata_new 1 0 1 Fmt_NoneInt"
| "short_push_op_row Push0' = opcode_metadata_new 1 0 1 Fmt_NoneInt"
| "short_push_op_row Push1' = opcode_metadata_new 1 0 1 Fmt_NoneInt"
| "short_push_op_row Push2' = opcode_metadata_new 1 0 1 Fmt_NoneInt"
| "short_push_op_row Push3' = opcode_metadata_new 1 0 1 Fmt_NoneInt"
| "short_push_op_row Push4' = opcode_metadata_new 1 0 1 Fmt_NoneInt"
| "short_push_op_row Push5' = opcode_metadata_new 1 0 1 Fmt_NoneInt"
| "short_push_op_row Push6' = opcode_metadata_new 1 0 1 Fmt_NoneInt"
| "short_push_op_row Push7' = opcode_metadata_new 1 0 1 Fmt_NoneInt"
| "short_push_op_row PushI8' = opcode_metadata_new 2 0 1 Fmt_I8"
| "short_push_op_row PushI16' = opcode_metadata_new 3 0 1 Fmt_I16"
| "short_push_op_row PushConst8' = opcode_metadata_new 2 0 1 Fmt_Const8"
| "short_push_op_row FClosure8' = opcode_metadata_new 2 0 1 Fmt_Const8"
| "short_push_op_row PushEmptyString' = opcode_metadata_new 1 0 1 Fmt_None"
| "short_push_op_row GetLoc8' = opcode_metadata_new 2 0 1 Fmt_Loc8"
| "short_push_op_row PutLoc8' = opcode_metadata_new 2 1 0 Fmt_Loc8"
| "short_push_op_row SetLoc8' = opcode_metadata_new 2 1 1 Fmt_Loc8"

primrec short_slot_op_row :: "short_slot_op \<Rightarrow> opcode_metadata" where
  "short_slot_op_row GetLoc0' = opcode_metadata_new 1 0 1 Fmt_NoneLoc"
| "short_slot_op_row GetLoc1' = opcode_metadata_new 1 0 1 Fmt_NoneLoc"
| "short_slot_op_row GetLoc2' = opcode_metadata_new 1 0 1 Fmt_NoneLoc"
| "short_slot_op_row GetLoc3' = opcode_metadata_new 1 0 1 Fmt_NoneLoc"
| "short_slot_op_row PutLoc0' = opcode_metadata_new 1 1 0 Fmt_NoneLoc"
| "short_slot_op_row PutLoc1' = opcode_metadata_new 1 1 0 Fmt_NoneLoc"
| "short_slot_op_row PutLoc2' = opcode_metadata_new 1 1 0 Fmt_NoneLoc"
| "short_slot_op_row PutLoc3' = opcode_metadata_new 1 1 0 Fmt_NoneLoc"
| "short_slot_op_row SetLoc0' = opcode_metadata_new 1 1 1 Fmt_NoneLoc"
| "short_slot_op_row SetLoc1' = opcode_metadata_new 1 1 1 Fmt_NoneLoc"
| "short_slot_op_row SetLoc2' = opcode_metadata_new 1 1 1 Fmt_NoneLoc"
| "short_slot_op_row SetLoc3' = opcode_metadata_new 1 1 1 Fmt_NoneLoc"
| "short_slot_op_row GetArg0' = opcode_metadata_new 1 0 1 Fmt_NoneArg"
| "short_slot_op_row GetArg1' = opcode_metadata_new 1 0 1 Fmt_NoneArg"
| "short_slot_op_row GetArg2' = opcode_metadata_new 1 0 1 Fmt_NoneArg"
| "short_slot_op_row GetArg3' = opcode_metadata_new 1 0 1 Fmt_NoneArg"
| "short_slot_op_row PutArg0' = opcode_metadata_new 1 1 0 Fmt_NoneArg"
| "short_slot_op_row PutArg1' = opcode_metadata_new 1 1 0 Fmt_NoneArg"
| "short_slot_op_row PutArg2' = opcode_metadata_new 1 1 0 Fmt_NoneArg"
| "short_slot_op_row PutArg3' = opcode_metadata_new 1 1 0 Fmt_NoneArg"
| "short_slot_op_row SetArg0' = opcode_metadata_new 1 1 1 Fmt_NoneArg"
| "short_slot_op_row SetArg1' = opcode_metadata_new 1 1 1 Fmt_NoneArg"
| "short_slot_op_row SetArg2' = opcode_metadata_new 1 1 1 Fmt_NoneArg"
| "short_slot_op_row SetArg3' = opcode_metadata_new 1 1 1 Fmt_NoneArg"
| "short_slot_op_row GetVarRef0' = opcode_metadata_new 1 0 1 Fmt_NoneVarRef"
| "short_slot_op_row GetVarRef1' = opcode_metadata_new 1 0 1 Fmt_NoneVarRef"
| "short_slot_op_row GetVarRef2' = opcode_metadata_new 1 0 1 Fmt_NoneVarRef"
| "short_slot_op_row GetVarRef3' = opcode_metadata_new 1 0 1 Fmt_NoneVarRef"
| "short_slot_op_row PutVarRef0' = opcode_metadata_new 1 1 0 Fmt_NoneVarRef"
| "short_slot_op_row PutVarRef1' = opcode_metadata_new 1 1 0 Fmt_NoneVarRef"
| "short_slot_op_row PutVarRef2' = opcode_metadata_new 1 1 0 Fmt_NoneVarRef"
| "short_slot_op_row PutVarRef3' = opcode_metadata_new 1 1 0 Fmt_NoneVarRef"
| "short_slot_op_row SetVarRef0' = opcode_metadata_new 1 1 1 Fmt_NoneVarRef"
| "short_slot_op_row SetVarRef1' = opcode_metadata_new 1 1 1 Fmt_NoneVarRef"
| "short_slot_op_row SetVarRef2' = opcode_metadata_new 1 1 1 Fmt_NoneVarRef"
| "short_slot_op_row SetVarRef3' = opcode_metadata_new 1 1 1 Fmt_NoneVarRef"

primrec short_misc_op_row :: "short_misc_op \<Rightarrow> opcode_metadata" where
  "short_misc_op_row GetLength' = opcode_metadata_new 1 1 1 Fmt_None"
| "short_misc_op_row IfFalse8' = opcode_metadata_new 2 1 0 Fmt_Label8"
| "short_misc_op_row IfTrue8' = opcode_metadata_new 2 1 0 Fmt_Label8"
| "short_misc_op_row Goto8' = opcode_metadata_new 2 0 0 Fmt_Label8"
| "short_misc_op_row Goto16' = opcode_metadata_new 3 0 0 Fmt_Label16"
| "short_misc_op_row Call0' = opcode_metadata_new 1 1 1 Fmt_NPopX"
| "short_misc_op_row Call1' = opcode_metadata_new 1 1 1 Fmt_NPopX"
| "short_misc_op_row Call2' = opcode_metadata_new 1 1 1 Fmt_NPopX"
| "short_misc_op_row Call3' = opcode_metadata_new 1 1 1 Fmt_NPopX"
| "short_misc_op_row IsUndefined' = opcode_metadata_new 1 1 1 Fmt_None"
| "short_misc_op_row IsNull' = opcode_metadata_new 1 1 1 Fmt_None"
| "short_misc_op_row TypeofIsUndefined' = opcode_metadata_new 1 1 1 Fmt_None"
| "short_misc_op_row TypeofIsFunction' = opcode_metadata_new 1 1 1 Fmt_None"
| "short_misc_op_row TailApply' = opcode_metadata_new 3 3 0 Fmt_U16"
| "short_misc_op_row TailEval' = opcode_metadata_new 5 1 0 Fmt_NPopU16"
| "short_misc_op_row TailApplyEval' = opcode_metadata_new 3 2 0 Fmt_U16"
| "short_misc_op_row ImportMeta' = opcode_metadata_new 1 0 1 Fmt_None"

primrec opcode_row :: "final_opcode \<Rightarrow> opcode_metadata" where
  "opcode_row (PushOp x) = push_op_row x"
| "opcode_row (StackOp x) = stack_op_row x"
| "opcode_row (CallOp x) = call_op_row x"
| "opcode_row (PropOp x) = prop_op_row x"
| "opcode_row (SlotOp x) = slot_op_row x"
| "opcode_row (ControlOp x) = control_op_row x"
| "opcode_row (IterOp x) = iter_op_row x"
| "opcode_row (UnaryOp x) = unary_op_row x"
| "opcode_row (BinaryOp x) = binary_op_row x"
| "opcode_row (ShortPushOp x) = short_push_op_row x"
| "opcode_row (ShortSlotOp x) = short_slot_op_row x"
| "opcode_row (ShortMiscOp x) = short_misc_op_row x"

definition ALL_FINAL_OPCODES :: "final_opcode list" where
  "ALL_FINAL_OPCODES =
     [Op_Invalid, Op_PushI32, Op_PushConst, Op_FClosure, Op_PushAtomValue, Op_PrivateSymbol
      , Op_Undefined, Op_Null, Op_PushThis, Op_PushFalse, Op_PushTrue, Op_Object
      , Op_SpecialObject, Op_Rest] @
     [Op_Drop, Op_Nip, Op_Nip1, Op_Dup, Op_Dup1, Op_Dup2, Op_Dup3, Op_Insert2, Op_Insert3
      , Op_Insert4, Op_Perm3, Op_Perm4, Op_Perm5, Op_Swap, Op_Swap2, Op_Rot3l, Op_Rot3r
      , Op_Rot4l, Op_Rot5l] @
     [Op_CallConstructor, Op_Call, Op_TailCall, Op_CallMethod, Op_TailCallMethod, Op_ArrayFrom
      , Op_Apply, Op_Return, Op_ReturnUndef, Op_CheckCtorReturn, Op_CheckCtor, Op_InitCtor
      , Op_CheckBrand, Op_AddBrand, Op_ReturnAsync, Op_Throw, Op_ThrowError, Op_Eval
      , Op_ApplyEval, Op_RegExp, Op_GetSuper, Op_Import, Op_ImportDefer] @
     [Op_GetVarUndef, Op_GetVar, Op_PutVar, Op_PutVarInit, Op_GetRefValue, Op_PutRefValue
      , Op_GetField, Op_GetField2, Op_PutField, Op_GetPrivateField, Op_PutPrivateField
      , Op_DefinePrivateField, Op_GetArrayEl, Op_GetArrayEl2, Op_GetArrayEl3, Op_PutArrayEl
      , Op_GetSuperValue, Op_PutSuperValue, Op_DefineField, Op_SetName, Op_SetNameComputed
      , Op_SetProto, Op_SetHomeObject, Op_DefineArrayEl, Op_Append, Op_CopyDataProperties
      , Op_DefineMethod, Op_DefineMethodComputed, Op_DefineClass, Op_DefineClassComputed] @
     [Op_GetLoc, Op_PutLoc, Op_SetLoc, Op_GetArg, Op_PutArg, Op_SetArg, Op_GetVarRef
      , Op_PutVarRef, Op_SetVarRef, Op_SetLocUninitialized, Op_GetLocCheck, Op_PutLocCheck
      , Op_SetLocCheck, Op_PutLocCheckInit, Op_GetLocCheckThis, Op_GetVarRefCheck
      , Op_PutVarRefCheck, Op_PutVarRefCheckInit, Op_CloseLoc] @
     [Op_IfFalse, Op_IfTrue, Op_Goto, Op_Catch, Op_Gosub, Op_Ret, Op_NipCatch, Op_ToObject
      , Op_ToPropKey, Op_WithGetVar, Op_WithPutVar, Op_WithDeleteVar, Op_WithMakeRef
      , Op_WithGetRef, Op_MakeLocRef, Op_MakeArgRef, Op_MakeVarRefRef, Op_MakeVarRef] @
     [Op_ForInStart, Op_ForOfStart, Op_ForAwaitOfStart, Op_ForInNext, Op_ForOfNext
      , Op_ForAwaitOfNext, Op_IteratorCheckObject, Op_IteratorGetValueDone, Op_IteratorClose
      , Op_IteratorNext, Op_IteratorCall, Op_InitialYield, Op_Yield, Op_YieldStar
      , Op_AsyncYieldStar, Op_Await] @
     [Op_Neg, Op_Plus, Op_Dec, Op_Inc, Op_PostDec, Op_PostInc, Op_DecLoc, Op_IncLoc, Op_AddLoc
      , Op_Not, Op_Lnot, Op_Typeof, Op_Delete, Op_DeleteVar] @
     [Op_Mul, Op_Div, Op_Mod, Op_Add, Op_Sub, Op_Pow, Op_Shl, Op_Sar, Op_Shr, Op_Lt, Op_Lte
      , Op_Gt, Op_Gte, Op_InstanceOf, Op_In, Op_Eq, Op_Neq, Op_StrictEq, Op_StrictNeq, Op_And
      , Op_Xor, Op_Or, Op_IsUndefinedOrNull, Op_PrivateIn, Op_PushBigIntI32, Op_Nop] @
     [Op_PushMinus1, Op_Push0, Op_Push1, Op_Push2, Op_Push3, Op_Push4, Op_Push5, Op_Push6
      , Op_Push7, Op_PushI8, Op_PushI16, Op_PushConst8, Op_FClosure8, Op_PushEmptyString
      , Op_GetLoc8, Op_PutLoc8, Op_SetLoc8] @
     [Op_GetLoc0, Op_GetLoc1, Op_GetLoc2, Op_GetLoc3, Op_PutLoc0, Op_PutLoc1, Op_PutLoc2
      , Op_PutLoc3, Op_SetLoc0, Op_SetLoc1, Op_SetLoc2, Op_SetLoc3, Op_GetArg0, Op_GetArg1
      , Op_GetArg2, Op_GetArg3, Op_PutArg0, Op_PutArg1, Op_PutArg2, Op_PutArg3, Op_SetArg0
      , Op_SetArg1, Op_SetArg2, Op_SetArg3, Op_GetVarRef0, Op_GetVarRef1, Op_GetVarRef2
      , Op_GetVarRef3, Op_PutVarRef0, Op_PutVarRef1, Op_PutVarRef2, Op_PutVarRef3, Op_SetVarRef0
      , Op_SetVarRef1, Op_SetVarRef2, Op_SetVarRef3] @
     [Op_GetLength, Op_IfFalse8, Op_IfTrue8, Op_Goto8, Op_Goto16, Op_Call0, Op_Call1, Op_Call2
      , Op_Call3, Op_IsUndefined, Op_IsNull, Op_TypeofIsUndefined, Op_TypeofIsFunction
      , Op_TailApply, Op_TailEval, Op_TailApplyEval, Op_ImportMeta]"

definition FINAL_OPCODE_METADATA :: "opcode_metadata list" where
  "FINAL_OPCODE_METADATA = map opcode_row ALL_FINAL_OPCODES"

definition FINAL_OPCODE_COUNT :: nat where
  "FINAL_OPCODE_COUNT = length ALL_FINAL_OPCODES"

definition FIRST_SHORT_OPCODE_BYTE :: u8 where
  "FIRST_SHORT_OPCODE_BYTE = encoded_byte Op_PushMinus1"

text \<open>\<^verbatim>\<open>FinalOpcode::metadata\<close>: the row at the opcode's byte.\<close>

definition metadata :: "final_opcode \<Rightarrow> opcode_metadata" where
  "metadata op = FINAL_OPCODE_METADATA ! unat (encoded_byte op)"

definition is_short :: "final_opcode \<Rightarrow> bool" where
  "is_short op \<longleftrightarrow> FIRST_SHORT_OPCODE_BYTE \<le> encoded_byte op"

definition from_table_byte :: "u8 \<Rightarrow> final_opcode option" where
  "from_table_byte b = get ALL_FINAL_OPCODES (unat b)"

datatype final_opcode_decode_error = ReservedInvalid | Unknown u8

definition final_opcode_decode :: "u8 \<Rightarrow> (final_opcode_decode_error, final_opcode) result" where
  "final_opcode_decode b =
     (case from_table_byte b of
        Some op \<Rightarrow> (if op = Op_Invalid then Inl ReservedInvalid else Inr op)
      | None \<Rightarrow> Inl (Unknown b))"

primrec final_opcode_decode_error_byte :: "final_opcode_decode_error \<Rightarrow> u8" where
  "final_opcode_decode_error_byte ReservedInvalid = 0"
| "final_opcode_decode_error_byte (Unknown b) = b"

section \<open>Temporary compiler opcodes\<close>

datatype temporary_opcode =
  Tmp_EnterScope | Tmp_LeaveScope | Tmp_Label | Tmp_ScopeGetVarUndef | Tmp_ScopeGetVar
  | Tmp_ScopePutVar | Tmp_ScopeDeleteVar | Tmp_ScopeMakeRef | Tmp_ScopeGetRef
  | Tmp_ScopePutVarInit | Tmp_ScopeGetVarCheckThis | Tmp_ScopeGetPrivateField
  | Tmp_ScopeGetPrivateField2 | Tmp_ScopePutPrivateField | Tmp_ScopeInPrivateField
  | Tmp_GetFieldOptChain | Tmp_GetArrayElOptChain | Tmp_SetClassName | Tmp_LineNum

primrec temporary_discriminant :: "temporary_opcode \<Rightarrow> u8" where
  "temporary_discriminant Tmp_EnterScope = 0"
| "temporary_discriminant Tmp_LeaveScope = 1"
| "temporary_discriminant Tmp_Label = 2"
| "temporary_discriminant Tmp_ScopeGetVarUndef = 3"
| "temporary_discriminant Tmp_ScopeGetVar = 4"
| "temporary_discriminant Tmp_ScopePutVar = 5"
| "temporary_discriminant Tmp_ScopeDeleteVar = 6"
| "temporary_discriminant Tmp_ScopeMakeRef = 7"
| "temporary_discriminant Tmp_ScopeGetRef = 8"
| "temporary_discriminant Tmp_ScopePutVarInit = 9"
| "temporary_discriminant Tmp_ScopeGetVarCheckThis = 10"
| "temporary_discriminant Tmp_ScopeGetPrivateField = 11"
| "temporary_discriminant Tmp_ScopeGetPrivateField2 = 12"
| "temporary_discriminant Tmp_ScopePutPrivateField = 13"
| "temporary_discriminant Tmp_ScopeInPrivateField = 14"
| "temporary_discriminant Tmp_GetFieldOptChain = 15"
| "temporary_discriminant Tmp_GetArrayElOptChain = 16"
| "temporary_discriminant Tmp_SetClassName = 17"
| "temporary_discriminant Tmp_LineNum = 18"

primrec temporary_row :: "temporary_opcode \<Rightarrow> opcode_metadata" where
  "temporary_row Tmp_EnterScope = opcode_metadata_new 3 0 0 Fmt_U16"
| "temporary_row Tmp_LeaveScope = opcode_metadata_new 3 0 0 Fmt_U16"
| "temporary_row Tmp_Label = opcode_metadata_new 5 0 0 Fmt_Label"
| "temporary_row Tmp_ScopeGetVarUndef = opcode_metadata_new 7 0 1 Fmt_AtomU16"
| "temporary_row Tmp_ScopeGetVar = opcode_metadata_new 7 0 1 Fmt_AtomU16"
| "temporary_row Tmp_ScopePutVar = opcode_metadata_new 7 1 0 Fmt_AtomU16"
| "temporary_row Tmp_ScopeDeleteVar = opcode_metadata_new 7 0 1 Fmt_AtomU16"
| "temporary_row Tmp_ScopeMakeRef = opcode_metadata_new 11 0 2 Fmt_AtomLabelU16"
| "temporary_row Tmp_ScopeGetRef = opcode_metadata_new 7 0 2 Fmt_AtomU16"
| "temporary_row Tmp_ScopePutVarInit = opcode_metadata_new 7 0 2 Fmt_AtomU16"
| "temporary_row Tmp_ScopeGetVarCheckThis = opcode_metadata_new 7 0 1 Fmt_AtomU16"
| "temporary_row Tmp_ScopeGetPrivateField = opcode_metadata_new 7 1 1 Fmt_AtomU16"
| "temporary_row Tmp_ScopeGetPrivateField2 = opcode_metadata_new 7 1 2 Fmt_AtomU16"
| "temporary_row Tmp_ScopePutPrivateField = opcode_metadata_new 7 2 0 Fmt_AtomU16"
| "temporary_row Tmp_ScopeInPrivateField = opcode_metadata_new 7 1 1 Fmt_AtomU16"
| "temporary_row Tmp_GetFieldOptChain = opcode_metadata_new 5 1 1 Fmt_Atom"
| "temporary_row Tmp_GetArrayElOptChain = opcode_metadata_new 1 2 1 Fmt_None"
| "temporary_row Tmp_SetClassName = opcode_metadata_new 5 1 1 Fmt_U32"
| "temporary_row Tmp_LineNum = opcode_metadata_new 5 0 0 Fmt_U32"

definition ALL_TEMPORARY_OPCODES :: "temporary_opcode list" where
  "ALL_TEMPORARY_OPCODES =
     [Tmp_EnterScope, Tmp_LeaveScope, Tmp_Label, Tmp_ScopeGetVarUndef, Tmp_ScopeGetVar
      , Tmp_ScopePutVar, Tmp_ScopeDeleteVar, Tmp_ScopeMakeRef, Tmp_ScopeGetRef
      , Tmp_ScopePutVarInit, Tmp_ScopeGetVarCheckThis, Tmp_ScopeGetPrivateField
      , Tmp_ScopeGetPrivateField2, Tmp_ScopePutPrivateField, Tmp_ScopeInPrivateField
      , Tmp_GetFieldOptChain, Tmp_GetArrayElOptChain, Tmp_SetClassName, Tmp_LineNum]"

definition TEMPORARY_OPCODE_METADATA :: "opcode_metadata list" where
  "TEMPORARY_OPCODE_METADATA = map temporary_row ALL_TEMPORARY_OPCODES"

definition TEMPORARY_OPCODE_START :: u8 where
  "TEMPORARY_OPCODE_START = encoded_byte Op_Nop + 1"

definition TEMPORARY_OPCODE_END_EXCLUSIVE :: u8 where
  "TEMPORARY_OPCODE_END_EXCLUSIVE =
     TEMPORARY_OPCODE_START + temporary_discriminant Tmp_LineNum + 1"

definition temporary_encoded_byte :: "temporary_opcode \<Rightarrow> u8" where
  "temporary_encoded_byte t = TEMPORARY_OPCODE_START + temporary_discriminant t"

definition temporary_metadata :: "temporary_opcode \<Rightarrow> opcode_metadata" where
  "temporary_metadata t = TEMPORARY_OPCODE_METADATA ! unat (temporary_discriminant t)"

datatype temporary_opcode_decode_error = TemporaryOpcodeDecodeError u8

text \<open>\<^verbatim>\<open>TemporaryOpcode::decode\<close>: \<^verbatim>\<open>checked_sub\<close> fails below the first temporary byte.\<close>

definition temporary_opcode_decode ::
  "u8 \<Rightarrow> (temporary_opcode_decode_error, temporary_opcode) result" where
  "temporary_opcode_decode b =
     (if b < TEMPORARY_OPCODE_START then Inl (TemporaryOpcodeDecodeError b)
      else ok_or (get ALL_TEMPORARY_OPCODES (unat (b - TEMPORARY_OPCODE_START)))
             (TemporaryOpcodeDecodeError b))"

section \<open>Stack effects\<close>

datatype argument_count_source = Src_None | Src_FirstU16Operand | Src_Opcode

definition argument_count_source :: "final_opcode \<Rightarrow> argument_count_source" where
  "argument_count_source op =
     (case operand_format (metadata op) of
        Fmt_NPop \<Rightarrow> Src_FirstU16Operand
      | Fmt_NPopU16 \<Rightarrow> Src_FirstU16Operand
      | Fmt_NPopX \<Rightarrow> Src_Opcode
      | _ \<Rightarrow> Src_None)"

record stack_effect =
  pops :: u32
  pushes :: u32

definition base_stack_effect :: "opcode_metadata \<Rightarrow> stack_effect" where
  "base_stack_effect m = \<lparr>pops = ucast (base_pops m), pushes = ucast (base_pushes m)\<rparr>"

definition with_additional_pops :: "stack_effect \<Rightarrow> u32 \<Rightarrow> stack_effect" where
  "with_additional_pops e n = e\<lparr>pops := pops e + n\<rparr>"

definition net_change :: "stack_effect \<Rightarrow> int" where
  "net_change e = uint (pushes e) - uint (pops e)"

datatype stack_effect_error =
  MissingArgumentCount final_opcode
| UnexpectedArgumentCount final_opcode u16
| InvalidImplicitArgumentOpcode final_opcode

definition stack_effect :: "final_opcode \<Rightarrow> u16 option \<Rightarrow> (stack_effect_error, stack_effect) result" where
  "stack_effect op argument_count =
     (let m = metadata op; base = base_stack_effect m
      in case operand_format m of
           Fmt_NPop \<Rightarrow>
             and_then (ok_or argument_count (MissingArgumentCount op))
               (\<lambda>count. Inr (with_additional_pops base (ucast count)))
         | Fmt_NPopU16 \<Rightarrow>
             and_then (ok_or argument_count (MissingArgumentCount op))
               (\<lambda>count. Inr (with_additional_pops base (ucast count)))
         | Fmt_NPopX \<Rightarrow>
             (case argument_count of
                Some count \<Rightarrow> Inl (UnexpectedArgumentCount op count)
              | None \<Rightarrow>
                  if op = Op_Call0 then Inr (with_additional_pops base 0)
                  else if op = Op_Call1 then Inr (with_additional_pops base 1)
                  else if op = Op_Call2 then Inr (with_additional_pops base 2)
                  else if op = Op_Call3 then Inr (with_additional_pops base 3)
                  else Inl (InvalidImplicitArgumentOpcode op))
         | _ \<Rightarrow>
             (case argument_count of
                Some count \<Rightarrow> Inl (UnexpectedArgumentCount op count)
              | None \<Rightarrow> Inr base))"

section \<open>The table is consistent\<close>

lemma length_ALL_FINAL_OPCODES: "length ALL_FINAL_OPCODES = 249"
  by (simp add: ALL_FINAL_OPCODES_def)

lemma map_encoded_byte_ALL: "map encoded_byte ALL_FINAL_OPCODES = map word_of_nat [0..<249]"
  by (simp add: ALL_FINAL_OPCODES_def upt_rec)

lemma in_ALL_FINAL_OPCODES: "op \<in> set ALL_FINAL_OPCODES"
proof (cases op)
  case (PushOp x) then show ?thesis by (cases x) (simp_all add: ALL_FINAL_OPCODES_def)
next
  case (StackOp x) then show ?thesis by (cases x) (simp_all add: ALL_FINAL_OPCODES_def)
next
  case (CallOp x) then show ?thesis by (cases x) (simp_all add: ALL_FINAL_OPCODES_def)
next
  case (PropOp x) then show ?thesis by (cases x) (simp_all add: ALL_FINAL_OPCODES_def)
next
  case (SlotOp x) then show ?thesis by (cases x) (simp_all add: ALL_FINAL_OPCODES_def)
next
  case (ControlOp x) then show ?thesis by (cases x) (simp_all add: ALL_FINAL_OPCODES_def)
next
  case (IterOp x) then show ?thesis by (cases x) (simp_all add: ALL_FINAL_OPCODES_def)
next
  case (UnaryOp x) then show ?thesis by (cases x) (simp_all add: ALL_FINAL_OPCODES_def)
next
  case (BinaryOp x) then show ?thesis by (cases x) (simp_all add: ALL_FINAL_OPCODES_def)
next
  case (ShortPushOp x) then show ?thesis by (cases x) (simp_all add: ALL_FINAL_OPCODES_def)
next
  case (ShortSlotOp x) then show ?thesis by (cases x) (simp_all add: ALL_FINAL_OPCODES_def)
next
  case (ShortMiscOp x) then show ?thesis by (cases x) (simp_all add: ALL_FINAL_OPCODES_def)
qed

lemma nth_ALL_encoded_byte:
  assumes "i < 249"
  shows "unat (encoded_byte (ALL_FINAL_OPCODES ! i)) = i"
proof -
  have "encoded_byte (ALL_FINAL_OPCODES ! i) = map encoded_byte ALL_FINAL_OPCODES ! i"
    using assms by (simp add: length_ALL_FINAL_OPCODES)
  also have "\<dots> = word_of_nat i"
    using assms by (simp add: map_encoded_byte_ALL del: upt_rec_numeral)
  finally show ?thesis using assms by (simp add: unat_of_nat)
qed

text \<open>A property that holds of every entry of the table holds of every opcode.\<close>

lemma final_opcode_table_induct: "list_all P ALL_FINAL_OPCODES \<Longrightarrow> P op"
  using in_ALL_FINAL_OPCODES [of op] by (auto simp: list_all_iff)

lemma ex_table_index: "\<exists>i < 249. op = ALL_FINAL_OPCODES ! i"
  using in_ALL_FINAL_OPCODES [of op] by (auto simp: in_set_conv_nth length_ALL_FINAL_OPCODES)

lemma encoded_byte_less [simp]: "unat (encoded_byte op) < 249"
  using ex_table_index [of op] nth_ALL_encoded_byte by auto

lemma ALL_nth_encoded_byte [simp]: "ALL_FINAL_OPCODES ! unat (encoded_byte op) = op"
  using ex_table_index [of op] nth_ALL_encoded_byte by auto

lemma metadata_row [simp, code]: "metadata op = opcode_row op"
  by (simp add: metadata_def FINAL_OPCODE_METADATA_def length_ALL_FINAL_OPCODES)

lemma encoded_byte_inject [simp]: "encoded_byte a = encoded_byte b \<longleftrightarrow> a = b"
  by (metis ALL_nth_encoded_byte)

lemma from_table_byte_eq: "from_table_byte b = Some op \<longleftrightarrow> encoded_byte op = b"
proof
  assume "from_table_byte b = Some op"
  then have "unat b < 249" "op = ALL_FINAL_OPCODES ! unat b"
    by (auto simp: from_table_byte_def length_ALL_FINAL_OPCODES)
  then show "encoded_byte op = b"
    using nth_ALL_encoded_byte [of "unat b"] by (simp add: unsigned_word_eqI)
qed (auto simp: from_table_byte_def length_ALL_FINAL_OPCODES)

lemma final_opcode_decode_eq_Inr [simp, result_simps]:
  "final_opcode_decode b = Inr op \<longleftrightarrow> encoded_byte op = b \<and> op \<noteq> Op_Invalid"
proof (cases "from_table_byte b")
  case None
  then show ?thesis
    using from_table_byte_eq [of b op] by (auto simp: final_opcode_decode_def)
next
  case (Some a)
  then have "encoded_byte op = b \<longleftrightarrow> op = a"
    using encoded_byte_inject [of op a] by (simp add: from_table_byte_eq)
  with Some show ?thesis by (auto simp: final_opcode_decode_def simp del: encoded_byte.simps)
qed

interpretation opcode_code: canonical_encoding "\<lambda>op. op \<noteq> Op_Invalid" encoded_byte final_opcode_decode
  by unfold_locales simp_all

lemma row_size: "instruction_size (opcode_row op) = operand_width (operand_format (opcode_row op)) + 1"
  by (rule final_opcode_table_induct)
     (simp add: ALL_FINAL_OPCODES_def opcode_metadata_new_def)

lemma unat_row_size:
  "unat (instruction_size (opcode_row op)) = unat (operand_width (operand_format (opcode_row op))) + 1"
  by (rule final_opcode_table_induct)
     (simp add: ALL_FINAL_OPCODES_def opcode_metadata_new_def)

lemma operand_width_le: "unat (operand_width f) \<le> 10"
  by (cases f) simp_all

lemma row_NPopX: "operand_format (opcode_row op) = Fmt_NPopX \<longleftrightarrow>
    op \<in> {Op_Call0, Op_Call1, Op_Call2, Op_Call3}"
  by (rule final_opcode_table_induct)
     (simp add: ALL_FINAL_OPCODES_def opcode_metadata_new_def)

section \<open>Properties of the schema\<close>

text \<open>
  The opcode byte table is a bijection between the executable opcodes and the
  accepted bytes: a byte decodes to an opcode exactly when it is that opcode's
  encoded byte and the opcode is not the reserved sentinel, and every other byte
  is rejected with the error that names it.
\<close>

theorem final_opcode_decode_roundtrip:
  "(final_opcode_decode b = Inr op \<longleftrightarrow> encoded_byte op = b \<and> op \<noteq> Op_Invalid) \<and>
   (final_opcode_decode b = Inl e \<longleftrightarrow>
      (if b = 0 then e = ReservedInvalid else 249 \<le> unat b \<and> e = Unknown b))"
proof -
  have None: "from_table_byte b = None \<longleftrightarrow> 249 \<le> unat b"
    by (simp add: from_table_byte_def length_ALL_FINAL_OPCODES)
  have Invalid: "from_table_byte b = Some Op_Invalid \<longleftrightarrow> b = 0"
    using from_table_byte_eq [of b Op_Invalid] by auto
  have "final_opcode_decode b = Inl e \<longleftrightarrow>
      (if b = 0 then e = ReservedInvalid else 249 \<le> unat b \<and> e = Unknown b)"
    using None Invalid by (auto simp: final_opcode_decode_def split: option.splits if_splits)
  then show ?thesis using opcode_code.decodes_to_iff [of b op] by blast
qed

text \<open>
  The table is self-consistent: for every opcode the declared instruction size
  is the width of its operand format plus the opcode byte, no encoded operand
  exceeds the ten bytes of the encoder's buffer, and the temporary opcodes start
  exactly where the short opcodes do.
\<close>

theorem opcode_table_consistent:
  "instruction_size (metadata op) = format_instruction_size (operand_format (metadata op)) \<and>
   unat (instruction_size (metadata op)) = unat (operand_width (operand_format (metadata op))) + 1 \<and>
   unat (operand_width (operand_format (metadata op))) \<le> 10 \<and>
   TEMPORARY_OPCODE_START = FIRST_SHORT_OPCODE_BYTE"
  using unat_row_size [of op]
  by (simp add: row_size [of op] format_instruction_size_def operand_width_le
      TEMPORARY_OPCODE_START_def FIRST_SHORT_OPCODE_BYTE_def)

text \<open>
  Stack effects resolve exactly when the argument count is supplied where the
  operands carry it and only there; the resolved effect is the table's base effect
  with the argument count (or the arity of \<open>call0\<close> to \<open>call3\<close>) added to the pops, and
  the addition cannot wrap. The error for a malformed implicit-count row is
  unreachable.
\<close>

theorem stack_effect_resolves:
  "stack_effect op argc =
     (if argument_count_source op = Src_FirstU16Operand
      then (case argc of
              None \<Rightarrow> Inl (MissingArgumentCount op)
            | Some n \<Rightarrow> Inr \<lparr>pops = word_of_nat (unat (base_pops (metadata op)) + unat n),
                               pushes = ucast (base_pushes (metadata op))\<rparr>)
      else (case argc of
              Some n \<Rightarrow> Inl (UnexpectedArgumentCount op n)
            | None \<Rightarrow> Inr \<lparr>pops = word_of_nat (unat (base_pops (metadata op)) +
                               (if op = Op_Call1 then 1 else if op = Op_Call2 then 2
                                else if op = Op_Call3 then 3 else 0)),
                            pushes = ucast (base_pushes (metadata op))\<rparr>)) \<and>
   unat (base_pops (metadata op)) + 65535 < 2 ^ 32"
proof -
  have bound: "unat (base_pops (metadata op)) + 65535 < 2 ^ 32"
    using less_trans [OF unat_u8_bound [of "base_pops (metadata op)"], of 4294901761] by simp
  have calls: "op \<in> {Op_Call1, Op_Call2, Op_Call3} \<Longrightarrow> operand_format (opcode_row op) = Fmt_NPopX"
    using row_NPopX [of op] by auto
  show ?thesis
  proof (cases "operand_format (opcode_row op) = Fmt_NPopX")
    case True
    then have "op \<in> {Op_Call0, Op_Call1, Op_Call2, Op_Call3}" using row_NPopX by simp
    with bound show ?thesis
      by (auto simp: stack_effect_def argument_count_source_def base_stack_effect_def
          with_additional_pops_def opcode_metadata_new_def Let_def split: option.splits)
  next
    case False
    with calls have "op \<noteq> Op_Call1" "op \<noteq> Op_Call2" "op \<noteq> Op_Call3" by auto
    with bound False show ?thesis
      by (auto simp: stack_effect_def argument_count_source_def base_stack_effect_def
          with_additional_pops_def Let_def split: option.splits operand_format.splits)
  qed
qed

end
