(* ===== verification/Codec.thy ===== *)
theory Codec
  imports Opcodes
begin

text \<open>
  The instruction codec of \<^verbatim>\<open>crates/fusor-bytecode/src/codec.rs\<close>: typed operands,
  their little-endian encoding into a fixed buffer, checked decoding, the decoding
  iterator and the bounded builder.

  \<open>Opd_X\<close> is the variant \<^verbatim>\<open>Operands::X\<close>. Signed operand fields (\<open>i8\<close>, \<open>i16\<close>, \<open>i32\<close>)
  are words read with \<open>sint\<close>. The newtypes \<^verbatim>\<open>BytecodePc\<close> and \<^verbatim>\<open>AtomPoolIndex\<close> are
  \<open>u32\<close>.
\<close>

type_synonym bytecode_pc = u32
type_synonym atom_pool_index = u32

definition MAX_ENCODED_OPERAND_BYTES :: nat where
  "MAX_ENCODED_OPERAND_BYTES = 10"

section \<open>Operands\<close>

datatype operands =
  Opd_None | Opd_NoneInt | Opd_NoneLoc | Opd_NoneArg | Opd_NoneVarRef
| Opd_U8 u8 | Opd_I8 u8 | Opd_Loc8 u8 | Opd_Const8 u8 | Opd_Label8 u8
| Opd_U16 u16 | Opd_I16 u16 | Opd_Label16 u16
| Opd_NPop u16 | Opd_NPopX | Opd_NPopU16 u16 u16
| Opd_Loc u16 | Opd_Arg u16 | Opd_VarRef u16
| Opd_U32 u32 | Opd_I32 u32 | Opd_Const u32 | Opd_Label u32
| Opd_Atom atom_pool_index | Opd_AtomU8 atom_pool_index u8 | Opd_AtomU16 atom_pool_index u16
| Opd_AtomLabelU8 atom_pool_index u32 u8 | Opd_AtomLabelU16 atom_pool_index u32 u16
| Opd_LabelU16 u32 u16

primrec operands_format :: "operands \<Rightarrow> operand_format" where
  "operands_format Opd_None = Fmt_None"
| "operands_format Opd_NoneInt = Fmt_NoneInt"
| "operands_format Opd_NoneLoc = Fmt_NoneLoc"
| "operands_format Opd_NoneArg = Fmt_NoneArg"
| "operands_format Opd_NoneVarRef = Fmt_NoneVarRef"
| "operands_format (Opd_U8 _) = Fmt_U8"
| "operands_format (Opd_I8 _) = Fmt_I8"
| "operands_format (Opd_Loc8 _) = Fmt_Loc8"
| "operands_format (Opd_Const8 _) = Fmt_Const8"
| "operands_format (Opd_Label8 _) = Fmt_Label8"
| "operands_format (Opd_U16 _) = Fmt_U16"
| "operands_format (Opd_I16 _) = Fmt_I16"
| "operands_format (Opd_Label16 _) = Fmt_Label16"
| "operands_format (Opd_NPop _) = Fmt_NPop"
| "operands_format Opd_NPopX = Fmt_NPopX"
| "operands_format (Opd_NPopU16 _ _) = Fmt_NPopU16"
| "operands_format (Opd_Loc _) = Fmt_Loc"
| "operands_format (Opd_Arg _) = Fmt_Arg"
| "operands_format (Opd_VarRef _) = Fmt_VarRef"
| "operands_format (Opd_U32 _) = Fmt_U32"
| "operands_format (Opd_I32 _) = Fmt_I32"
| "operands_format (Opd_Const _) = Fmt_Const"
| "operands_format (Opd_Label _) = Fmt_Label"
| "operands_format (Opd_Atom _) = Fmt_Atom"
| "operands_format (Opd_AtomU8 _ _) = Fmt_AtomU8"
| "operands_format (Opd_AtomU16 _ _) = Fmt_AtomU16"
| "operands_format (Opd_AtomLabelU8 _ _ _) = Fmt_AtomLabelU8"
| "operands_format (Opd_AtomLabelU16 _ _ _) = Fmt_AtomLabelU16"
| "operands_format (Opd_LabelU16 _ _) = Fmt_LabelU16"

definition dynamic_argument_count :: "operands \<Rightarrow> u16 option" where
  "dynamic_argument_count o1 =
     (case o1 of Opd_NPop n \<Rightarrow> Some n | Opd_NPopU16 n _ \<Rightarrow> Some n | _ \<Rightarrow> None)"

definition atom_pool_index :: "operands \<Rightarrow> atom_pool_index option" where
  "atom_pool_index o1 =
     (case o1 of
        Opd_Atom index \<Rightarrow> Some index
      | Opd_AtomU8 index _ \<Rightarrow> Some index
      | Opd_AtomU16 index _ \<Rightarrow> Some index
      | Opd_AtomLabelU8 index _ _ \<Rightarrow> Some index
      | Opd_AtomLabelU16 index _ _ \<Rightarrow> Some index
      | _ \<Rightarrow> None)"

section \<open>Operand encoding\<close>

datatype operand_encode_error =
  BufferCapacityExceeded operand_format usize
| SchemaWidthMismatch operand_format u8 u8

record encoded_operands =
  eo_bytes :: "u8 list"
  eo_len :: u8

definition encoded_operands_new :: encoded_operands where
  "encoded_operands_new = \<lparr>eo_bytes = replicate MAX_ENCODED_OPERAND_BYTES 0, eo_len = 0\<rparr>"

definition eo_as_bytes :: "encoded_operands \<Rightarrow> u8 list" where
  "eo_as_bytes eo =
     (if unat (eo_len eo) \<le> length (eo_bytes eo) then take (unat (eo_len eo)) (eo_bytes eo) else [])"

fun push_bytes ::
  "operand_format \<Rightarrow> u8 list \<Rightarrow> encoded_operands \<Rightarrow> (operand_encode_error, encoded_operands) result" where
  "push_bytes format [] eo = Inr eo"
| "push_bytes format (byte # bs) eo =
     (let index = unat (eo_len eo)
      in if index < length (eo_bytes eo)
         then and_then
                (ok_or (checked_add (eo_len eo) 1)
                   (BufferCapacityExceeded format MAX_ENCODED_OPERAND_BYTES))
                (\<lambda>len. push_bytes format bs
                   (eo\<lparr>eo_bytes := (eo_bytes eo)[index := byte], eo_len := len\<rparr>))
         else Inl (BufferCapacityExceeded format MAX_ENCODED_OPERAND_BYTES))"

text \<open>The \<open>match\<close> of \<^verbatim>\<open>Operands::encode\<close>: the fields in order, little endian.\<close>

definition push_operand_fields ::
  "operands \<Rightarrow> encoded_operands \<Rightarrow> (operand_encode_error, encoded_operands) result" where
  "push_operand_fields o1 eo =
     (let fmt = operands_format o1; push = push_bytes fmt
      in case o1 of
           Opd_None \<Rightarrow> Inr eo | Opd_NoneInt \<Rightarrow> Inr eo | Opd_NoneLoc \<Rightarrow> Inr eo
         | Opd_NoneArg \<Rightarrow> Inr eo | Opd_NoneVarRef \<Rightarrow> Inr eo | Opd_NPopX \<Rightarrow> Inr eo
         | Opd_U8 v \<Rightarrow> push [v] eo | Opd_Loc8 v \<Rightarrow> push [v] eo | Opd_Const8 v \<Rightarrow> push [v] eo
         | Opd_I8 v \<Rightarrow> push [v] eo | Opd_Label8 v \<Rightarrow> push [v] eo
         | Opd_U16 v \<Rightarrow> push (u16_to_le_bytes v) eo
         | Opd_Loc v \<Rightarrow> push (u16_to_le_bytes v) eo
         | Opd_Arg v \<Rightarrow> push (u16_to_le_bytes v) eo
         | Opd_VarRef v \<Rightarrow> push (u16_to_le_bytes v) eo
         | Opd_NPop v \<Rightarrow> push (u16_to_le_bytes v) eo
         | Opd_I16 v \<Rightarrow> push (u16_to_le_bytes v) eo
         | Opd_Label16 v \<Rightarrow> push (u16_to_le_bytes v) eo
         | Opd_NPopU16 n scope \<Rightarrow>
             and_then (push (u16_to_le_bytes n) eo) (push (u16_to_le_bytes scope))
         | Opd_U32 v \<Rightarrow> push (u32_to_le_bytes v) eo
         | Opd_Const v \<Rightarrow> push (u32_to_le_bytes v) eo
         | Opd_Atom v \<Rightarrow> push (u32_to_le_bytes v) eo
         | Opd_I32 v \<Rightarrow> push (u32_to_le_bytes v) eo
         | Opd_Label v \<Rightarrow> push (u32_to_le_bytes v) eo
         | Opd_AtomU8 a v \<Rightarrow> and_then (push (u32_to_le_bytes a) eo) (push [v])
         | Opd_AtomU16 a v \<Rightarrow> and_then (push (u32_to_le_bytes a) eo) (push (u16_to_le_bytes v))
         | Opd_AtomLabelU8 a l v \<Rightarrow>
             and_then (push (u32_to_le_bytes a) eo)
               (\<lambda>eo1. and_then (push (u32_to_le_bytes l) eo1) (push [v]))
         | Opd_AtomLabelU16 a l v \<Rightarrow>
             and_then (push (u32_to_le_bytes a) eo)
               (\<lambda>eo1. and_then (push (u32_to_le_bytes l) eo1) (push (u16_to_le_bytes v)))
         | Opd_LabelU16 l v \<Rightarrow> and_then (push (u32_to_le_bytes l) eo) (push (u16_to_le_bytes v)))"

definition operands_encode :: "operands \<Rightarrow> (operand_encode_error, encoded_operands) result" where
  "operands_encode o1 =
     and_then (push_operand_fields o1 encoded_operands_new)
       (\<lambda>output. let expected = operand_width (operands_format o1)
                  in if eo_len output \<noteq> expected
                     then Inl (SchemaWidthMismatch (operands_format o1) expected (eo_len output))
                     else Inr output)"

section \<open>Operand decoding\<close>

datatype operand_decode_error = LengthMismatch operand_format u8 usize

definition read_u8 :: "u8 list \<Rightarrow> nat \<Rightarrow> u8 option" where
  "read_u8 bs offset = get bs offset"

definition read_u16 :: "u8 list \<Rightarrow> nat \<Rightarrow> u16 option" where
  "read_u16 bs offset =
     (case (read_u8 bs offset, read_u8 bs (offset + 1)) of
        (Some b0, Some b1) \<Rightarrow> Some (u16_from_le_bytes b0 b1)
      | _ \<Rightarrow> None)"

definition read_u32 :: "u8 list \<Rightarrow> nat \<Rightarrow> u32 option" where
  "read_u32 bs offset =
     (case (read_u8 bs offset, read_u8 bs (offset + 1), read_u8 bs (offset + 2), read_u8 bs (offset + 3)) of
        (Some b0, Some b1, Some b2, Some b3) \<Rightarrow> Some (u32_from_le_bytes b0 b1 b2 b3)
      | _ \<Rightarrow> None)"

text \<open>
  \<^verbatim>\<open>Operands::decode\<close>. The readers \<^verbatim>\<open>read_i16\<close> and \<^verbatim>\<open>read_i32\<close> build the same word
  as \<^verbatim>\<open>read_u16\<close> and \<^verbatim>\<open>read_u32\<close>; only its reading differs.
\<close>

definition operands_decode :: "operand_format \<Rightarrow> u8 list \<Rightarrow> (operand_decode_error, operands) result" where
  "operands_decode fmt bs =
     (let expected = operand_width fmt; malformed = LengthMismatch fmt expected (length bs);
          u8_at = (\<lambda>i. ok_or (read_u8 bs i) malformed);
          u16_at = (\<lambda>i. ok_or (read_u16 bs i) malformed);
          u32_at = (\<lambda>i. ok_or (read_u32 bs i) malformed)
      in if length bs \<noteq> unat expected then Inl malformed
         else case fmt of
           Fmt_None \<Rightarrow> Inr Opd_None
         | Fmt_NoneInt \<Rightarrow> Inr Opd_NoneInt
         | Fmt_NoneLoc \<Rightarrow> Inr Opd_NoneLoc
         | Fmt_NoneArg \<Rightarrow> Inr Opd_NoneArg
         | Fmt_NoneVarRef \<Rightarrow> Inr Opd_NoneVarRef
         | Fmt_U8 \<Rightarrow> and_then (u8_at 0) (\<lambda>v. Inr (Opd_U8 v))
         | Fmt_I8 \<Rightarrow> and_then (u8_at 0) (\<lambda>v. Inr (Opd_I8 v))
         | Fmt_Loc8 \<Rightarrow> and_then (u8_at 0) (\<lambda>v. Inr (Opd_Loc8 v))
         | Fmt_Const8 \<Rightarrow> and_then (u8_at 0) (\<lambda>v. Inr (Opd_Const8 v))
         | Fmt_Label8 \<Rightarrow> and_then (u8_at 0) (\<lambda>v. Inr (Opd_Label8 v))
         | Fmt_U16 \<Rightarrow> and_then (u16_at 0) (\<lambda>v. Inr (Opd_U16 v))
         | Fmt_I16 \<Rightarrow> and_then (u16_at 0) (\<lambda>v. Inr (Opd_I16 v))
         | Fmt_Label16 \<Rightarrow> and_then (u16_at 0) (\<lambda>v. Inr (Opd_Label16 v))
         | Fmt_NPop \<Rightarrow> and_then (u16_at 0) (\<lambda>v. Inr (Opd_NPop v))
         | Fmt_NPopX \<Rightarrow> Inr Opd_NPopX
         | Fmt_NPopU16 \<Rightarrow>
             and_then (u16_at 0) (\<lambda>n. and_then (u16_at 2) (\<lambda>scope. Inr (Opd_NPopU16 n scope)))
         | Fmt_Loc \<Rightarrow> and_then (u16_at 0) (\<lambda>v. Inr (Opd_Loc v))
         | Fmt_Arg \<Rightarrow> and_then (u16_at 0) (\<lambda>v. Inr (Opd_Arg v))
         | Fmt_VarRef \<Rightarrow> and_then (u16_at 0) (\<lambda>v. Inr (Opd_VarRef v))
         | Fmt_U32 \<Rightarrow> and_then (u32_at 0) (\<lambda>v. Inr (Opd_U32 v))
         | Fmt_I32 \<Rightarrow> and_then (u32_at 0) (\<lambda>v. Inr (Opd_I32 v))
         | Fmt_Const \<Rightarrow> and_then (u32_at 0) (\<lambda>v. Inr (Opd_Const v))
         | Fmt_Label \<Rightarrow> and_then (u32_at 0) (\<lambda>v. Inr (Opd_Label v))
         | Fmt_Atom \<Rightarrow> and_then (u32_at 0) (\<lambda>v. Inr (Opd_Atom v))
         | Fmt_AtomU8 \<Rightarrow>
             and_then (u32_at 0) (\<lambda>a. and_then (u8_at 4) (\<lambda>v. Inr (Opd_AtomU8 a v)))
         | Fmt_AtomU16 \<Rightarrow>
             and_then (u32_at 0) (\<lambda>a. and_then (u16_at 4) (\<lambda>v. Inr (Opd_AtomU16 a v)))
         | Fmt_AtomLabelU8 \<Rightarrow>
             and_then (u32_at 0) (\<lambda>a. and_then (u32_at 4) (\<lambda>l. and_then (u8_at 8)
               (\<lambda>v. Inr (Opd_AtomLabelU8 a l v))))
         | Fmt_AtomLabelU16 \<Rightarrow>
             and_then (u32_at 0) (\<lambda>a. and_then (u32_at 4) (\<lambda>l. and_then (u16_at 8)
               (\<lambda>v. Inr (Opd_AtomLabelU16 a l v))))
         | Fmt_LabelU16 \<Rightarrow>
             and_then (u32_at 0) (\<lambda>l. and_then (u16_at 4) (\<lambda>v. Inr (Opd_LabelU16 l v))))"

section \<open>Instructions\<close>

record instruction =
  i_opcode :: final_opcode
  i_operands :: operands

datatype instruction_error =
  ReservedOpcode
| OperandFormatMismatch final_opcode operand_format operand_format

definition instruction_new :: "final_opcode \<Rightarrow> operands \<Rightarrow> (instruction_error, instruction) result" where
  "instruction_new op o1 =
     (if op = Op_Invalid then Inl ReservedOpcode
      else let expected = operand_format (metadata op); actual = operands_format o1
           in if expected \<noteq> actual then Inl (OperandFormatMismatch op expected actual)
              else Inr \<lparr>i_opcode = op, i_operands = o1\<rparr>)"

definition encoded_size :: "instruction \<Rightarrow> u8" where
  "encoded_size i = instruction_size (metadata (i_opcode i))"

text \<open>
  \<^verbatim>\<open>Instruction::stack_effect\<close>: \<open>define_class\<close> with the heritage bit consumes one value
  more than its table row.
\<close>

definition instruction_stack_effect :: "instruction \<Rightarrow> (stack_effect_error, stack_effect) result" where
  "instruction_stack_effect i =
     (case i_operands i of
        Opd_AtomU8 _ v \<Rightarrow>
          (if i_opcode i = Op_DefineClass \<and> v AND 1 \<noteq> 0
           then Inr \<lparr>pops = 3, pushes = 2\<rparr>
           else stack_effect (i_opcode i) (dynamic_argument_count (i_operands i)))
      | _ \<Rightarrow> stack_effect (i_opcode i) (dynamic_argument_count (i_operands i)))"

section \<open>Checked decoding\<close>

record decoded_instruction =
  d_pc :: bytecode_pc
  d_instruction :: instruction
  d_next_pc :: bytecode_pc

datatype decode_error =
  PcNotRepresentable bytecode_pc
| PcOutOfBounds bytecode_pc usize
| MissingOpcode bytecode_pc u8 usize
| InvalidOpcode bytecode_pc u8 final_opcode_decode_error
| TruncatedOperands bytecode_pc final_opcode u8 usize
| OperandDecoding bytecode_pc final_opcode operand_decode_error
| NextPcOverflow bytecode_pc u8

definition decode_instruction ::
  "u8 list \<Rightarrow> bytecode_pc \<Rightarrow> (decode_error, decoded_instruction) result" where
  "decode_instruction bytecode p =
     (let index = unat p
      in if length bytecode < index then Inl (PcOutOfBounds p (length bytecode))
         else
          let remaining = length bytecode - index
          in case get bytecode index of
               None \<Rightarrow> Inl (MissingOpcode p 1 remaining)
             | Some opcode_byte \<Rightarrow>
                 and_then (map_err (InvalidOpcode p opcode_byte) (final_opcode_decode opcode_byte))
                   (\<lambda>op.
                      let m = metadata op;
                          expected_operands = operand_width (operand_format m);
                          operand_start = index + 1;
                          remaining_operands = length bytecode - operand_start
                      in if remaining_operands < unat expected_operands
                         then Inl (TruncatedOperands p op expected_operands remaining_operands)
                         else
                           let operand_bytes = take (unat expected_operands) (drop operand_start bytecode)
                           in and_then
                                (map_err (OperandDecoding p op)
                                   (operands_decode (operand_format m) operand_bytes))
                                (\<lambda>o1.
                                   and_then
                                     (ok_or (checked_add p (ucast (instruction_size m)))
                                        (NextPcOverflow p (instruction_size m)))
                                     (\<lambda>next.
                                        Inr \<lparr>d_pc = p,
                                             d_instruction = \<lparr>i_opcode = op, i_operands = o1\<rparr>,
                                             d_next_pc = next\<rparr>))))"

text \<open>The iterator \<^verbatim>\<open>InstructionDecoder\<close>.\<close>

record instruction_decoder =
  dec_bytecode :: "u8 list"
  dec_next_pc :: bytecode_pc
  dec_finished :: bool

definition instruction_decoder_new :: "u8 list \<Rightarrow> instruction_decoder" where
  "instruction_decoder_new bytecode =
     \<lparr>dec_bytecode = bytecode, dec_next_pc = 0, dec_finished = False\<rparr>"

definition decoder_next ::
  "instruction_decoder \<Rightarrow> (decode_error, decoded_instruction) result option \<times> instruction_decoder" where
  "decoder_next d =
     (if dec_finished d then (None, d)
      else if unat (dec_next_pc d) = length (dec_bytecode d) then (None, d\<lparr>dec_finished := True\<rparr>)
      else case decode_instruction (dec_bytecode d) (dec_next_pc d) of
             Inr decoded \<Rightarrow> (Some (Inr decoded), d\<lparr>dec_next_pc := d_next_pc decoded\<rparr>)
           | Inl e \<Rightarrow> (Some (Inl e), d\<lparr>dec_finished := True\<rparr>))"

section \<open>The bounded builder\<close>

datatype encode_error =
  EncInvalidInstruction bytecode_pc instruction_error
| EncOperandEncoding bytecode_pc final_opcode operand_encode_error
| EncSchemaSizeMismatch bytecode_pc final_opcode u8 u8
| EncPcOverflow bytecode_pc u8
| EncLengthOverflow u32 u8
| EncByteLimitExceeded bytecode_pc u8 u32 u32
| EncAllocationFailed bytecode_pc u8

record bytecode_builder =
  bb_bytes :: "u8 list"
  bb_next_pc :: bytecode_pc
  bb_encoded_len :: u32
  bb_byte_limit :: u32

definition with_origin_and_byte_limit :: "bytecode_pc \<Rightarrow> u32 \<Rightarrow> bytecode_builder" where
  "with_origin_and_byte_limit origin byte_limit =
     \<lparr>bb_bytes = [], bb_next_pc = origin, bb_encoded_len = 0, bb_byte_limit = byte_limit\<rparr>"

definition push_instruction ::
  "allocator \<Rightarrow> bytecode_builder \<Rightarrow> instruction \<Rightarrow> (encode_error, bytecode_builder \<times> bytecode_pc) result" where
  "push_instruction alloc b i =
     (let p = bb_next_pc b; op = i_opcode i; declared_size = instruction_size (metadata op)
      in and_then (map_err (EncOperandEncoding p op) (operands_encode (i_operands i)))
          (\<lambda>enc. and_then (ok_or (checked_add (eo_len enc) 1)
                            (EncSchemaSizeMismatch p op declared_size (- 1)))
          (\<lambda>actual_size.
            if actual_size \<noteq> declared_size
            then Inl (EncSchemaSizeMismatch p op declared_size actual_size)
            else and_then (ok_or (checked_add p (ucast actual_size)) (EncPcOverflow p actual_size))
          (\<lambda>next. and_then (ok_or (checked_add (bb_encoded_len b) (ucast actual_size))
                             (EncLengthOverflow (bb_encoded_len b) actual_size))
          (\<lambda>next_len.
            if bb_byte_limit b < next_len
            then Inl (EncByteLimitExceeded p actual_size (bb_encoded_len b) (bb_byte_limit b))
            else if \<not> alloc (length (bb_bytes b)) (unat actual_size)
            then Inl (EncAllocationFailed p actual_size)
            else Inr (b\<lparr>bb_bytes := bb_bytes b @ encoded_byte op # eo_as_bytes enc,
                        bb_next_pc := next, bb_encoded_len := next_len\<rparr>, p))))))"

text \<open>\<^verbatim>\<open>BytecodeBuilder::push\<close>.\<close>

definition builder_push ::
  "allocator \<Rightarrow> bytecode_builder \<Rightarrow> final_opcode \<Rightarrow> operands \<Rightarrow>
     (encode_error, bytecode_builder \<times> bytecode_pc) result" where
  "builder_push alloc b op o1 =
     and_then (map_err (EncInvalidInstruction (bb_next_pc b)) (instruction_new op o1))
       (push_instruction alloc b)"

section \<open>Correctness of the operand codec\<close>

text \<open>The bytes an operand value stands for: its fields in order, little endian.\<close>

primrec payload :: "operands \<Rightarrow> u8 list" where
  "payload Opd_None = []"
| "payload Opd_NoneInt = []"
| "payload Opd_NoneLoc = []"
| "payload Opd_NoneArg = []"
| "payload Opd_NoneVarRef = []"
| "payload (Opd_U8 v) = [v]"
| "payload (Opd_I8 v) = [v]"
| "payload (Opd_Loc8 v) = [v]"
| "payload (Opd_Const8 v) = [v]"
| "payload (Opd_Label8 v) = [v]"
| "payload (Opd_U16 v) = u16_to_le_bytes v"
| "payload (Opd_I16 v) = u16_to_le_bytes v"
| "payload (Opd_Label16 v) = u16_to_le_bytes v"
| "payload (Opd_NPop v) = u16_to_le_bytes v"
| "payload Opd_NPopX = []"
| "payload (Opd_NPopU16 n s) = u16_to_le_bytes n @ u16_to_le_bytes s"
| "payload (Opd_Loc v) = u16_to_le_bytes v"
| "payload (Opd_Arg v) = u16_to_le_bytes v"
| "payload (Opd_VarRef v) = u16_to_le_bytes v"
| "payload (Opd_U32 v) = u32_to_le_bytes v"
| "payload (Opd_I32 v) = u32_to_le_bytes v"
| "payload (Opd_Const v) = u32_to_le_bytes v"
| "payload (Opd_Label v) = u32_to_le_bytes v"
| "payload (Opd_Atom v) = u32_to_le_bytes v"
| "payload (Opd_AtomU8 a v) = u32_to_le_bytes a @ [v]"
| "payload (Opd_AtomU16 a v) = u32_to_le_bytes a @ u16_to_le_bytes v"
| "payload (Opd_AtomLabelU8 a l v) = u32_to_le_bytes a @ u32_to_le_bytes l @ [v]"
| "payload (Opd_AtomLabelU16 a l v) = u32_to_le_bytes a @ u32_to_le_bytes l @ u16_to_le_bytes v"
| "payload (Opd_LabelU16 l v) = u32_to_le_bytes l @ u16_to_le_bytes v"

lemma length_payload: "length (payload o1) = unat (operand_width (operands_format o1))"
  by (cases o1) simp_all

text \<open>\<open>push_bytes\<close> appends while the ten-byte buffer has room.\<close>

definition eo_holds :: "encoded_operands \<Rightarrow> u8 list \<Rightarrow> bool" where
  "eo_holds eo bs \<longleftrightarrow>
     length (eo_bytes eo) = 10 \<and> unat (eo_len eo) = length bs \<and> length bs \<le> 10 \<and>
     take (length bs) (eo_bytes eo) = bs"

lemma eo_holds_new: "eo_holds encoded_operands_new []"
  by (simp add: eo_holds_def encoded_operands_new_def MAX_ENCODED_OPERAND_BYTES_def)

lemma eo_holds_as_bytes: "eo_holds eo bs \<Longrightarrow> eo_as_bytes eo = bs"
  by (simp add: eo_holds_def eo_as_bytes_def)

lemma push_bytes_holds:
  "eo_holds eo as \<Longrightarrow> length as + length bs \<le> 10 \<Longrightarrow>
     \<exists>eo'. push_bytes f bs eo = Inr eo' \<and> eo_holds eo' (as @ bs)"
proof (induction bs arbitrary: eo as)
  case Nil
  then show ?case by simp
next
  case (Cons b bs)
  let ?i = "unat (eo_len eo)"
  let ?eo = "eo\<lparr>eo_bytes := (eo_bytes eo)[?i := b], eo_len := eo_len eo + 1\<rparr>"
  from Cons.prems have i: "?i = length as" "?i < 10" "length (eo_bytes eo) = 10"
    by (auto simp: eo_holds_def)
  then have add: "checked_add (eo_len eo) 1 = Some (eo_len eo + 1)"
    by (simp add: checked_add_Some)
  then have "unat (eo_len eo + 1) = ?i + 1" using unat_checked_add by fastforce
  then have "eo_holds ?eo (as @ [b])"
    using Cons.prems i by (auto simp: eo_holds_def take_Suc_conv_app_nth)
  from Cons.IH [OF this] Cons.prems show ?case
    using i add by (auto simp: Let_def)
qed

lemma push_bytes_append:
  "push_bytes f (as @ bs) eo = and_then (push_bytes f as eo) (push_bytes f bs)"
  by (induction f as eo rule: push_bytes.induct) (auto simp: Let_def and_then_def split: sum.splits)

lemma push_operand_fields_payload:
  "push_operand_fields o1 eo = push_bytes (operands_format o1) (payload o1) eo"
  by (cases o1) (simp_all add: push_operand_fields_def push_bytes_append [abs_def] Let_def)

lemma operands_encode_payload:
  "\<exists>eo. operands_encode o1 = Inr eo \<and> eo_as_bytes eo = payload o1 \<and>
     unat (eo_len eo) = length (payload o1)"
proof -
  obtain eo where eo: "push_operand_fields o1 encoded_operands_new = Inr eo" "eo_holds eo (payload o1)"
    using push_bytes_holds [OF eo_holds_new, of "payload o1"] operand_width_le
    by (auto simp: push_operand_fields_payload length_payload)
  then have len: "unat (eo_len eo) = length (payload o1)" by (simp add: eo_holds_def)
  then have "eo_len eo = operand_width (operands_format o1)"
    by (simp add: length_payload unsigned_word_eqI)
  with eo len show ?thesis by (simp add: operands_encode_def eo_holds_as_bytes)
qed

lemma operands_decode_payload: "operands_decode (operands_format o1) (payload o1) = Inr o1"
  by (cases o1)
     (simp_all add: operands_decode_def read_u8_def read_u16_def read_u32_def get_def
        u16_to_le_bytes_def u32_to_le_bytes_def Let_def)

lemma list_length_cases:
  "length bs = Suc 0 \<longleftrightarrow> (\<exists>a. bs = [a])"
  "length bs = 2 \<longleftrightarrow> (\<exists>a b. bs = [a, b])"
  "length bs = 4 \<longleftrightarrow> (\<exists>a b c d. bs = [a, b, c, d])"
  "length bs = 5 \<longleftrightarrow> (\<exists>a b c d e. bs = [a, b, c, d, e])"
  "length bs = 6 \<longleftrightarrow> (\<exists>a b c d e f. bs = [a, b, c, d, e, f])"
  "length bs = 9 \<longleftrightarrow> (\<exists>a b c d e f g h i. bs = [a, b, c, d, e, f, g, h, i])"
  "length bs = 10 \<longleftrightarrow> (\<exists>a b c d e f g h i j. bs = [a, b, c, d, e, f, g, h, i, j])"
  by (auto simp: length_Suc_conv eval_nat_numeral)

lemma operands_decode_inverse:
  "operands_decode f bs = Inr o1 \<Longrightarrow> operands_format o1 = f \<and> payload o1 = bs"
  by (cases f)
     (auto simp: operands_decode_def read_u8_def read_u16_def read_u32_def get_def
        list_length_cases Let_def split: if_splits)

lemma operands_decode_length: "length bs = unat (operand_width f) \<Longrightarrow> \<exists>o1. operands_decode f bs = Inr o1"
  by (cases f)
     (auto simp: operands_decode_def read_u8_def read_u16_def read_u32_def get_def
        list_length_cases Let_def)

interpretation operand_code: canonical_encoding "\<lambda>o1. operands_format o1 = f" payload "operands_decode f" for f
  using operands_decode_payload operands_decode_inverse by unfold_locales blast+

text \<open>
  Operand encoding and decoding are inverse. Every operand value encodes without
  error to exactly the bytes of its format, decoding those bytes gives the value
  back; and decoding accepts a byte string exactly when it has the format's width,
  with a result that re-encodes to the same bytes.
\<close>

theorem operands_codec_roundtrip:
  "(\<exists>eo. operands_encode o1 = Inr eo \<and>
       length (eo_as_bytes eo) = unat (operand_width (operands_format o1)) \<and>
       operands_decode (operands_format o1) (eo_as_bytes eo) = Inr o1) \<and>
   ((\<exists>o2. operands_decode f bs = Inr o2) \<longleftrightarrow> length bs = unat (operand_width f)) \<and>
   (operands_decode f bs = Inr o2 \<longleftrightarrow>
      operands_format o2 = f \<and> (\<exists>eo. operands_encode o2 = Inr eo \<and> eo_as_bytes eo = bs))"
proof (intro conjI)
  show "\<exists>eo. operands_encode o1 = Inr eo \<and>
       length (eo_as_bytes eo) = unat (operand_width (operands_format o1)) \<and>
       operands_decode (operands_format o1) (eo_as_bytes eo) = Inr o1"
    using operands_encode_payload [of o1] by (auto simp: length_payload operands_decode_payload)
  show "(\<exists>o2. operands_decode f bs = Inr o2) \<longleftrightarrow> length bs = unat (operand_width f)"
    using operands_decode_inverse operands_decode_length length_payload by metis
  show "operands_decode f bs = Inr o2 \<longleftrightarrow>
      operands_format o2 = f \<and> (\<exists>eo. operands_encode o2 = Inr eo \<and> eo_as_bytes eo = bs)"
    using operands_encode_payload [of o2] by (auto simp: operand_code.decodes_to_iff)
qed

section \<open>Correctness of instruction decoding\<close>

text \<open>An instruction the constructor \<^verbatim>\<open>Instruction::new\<close> can make, and its bytes.\<close>

definition valid_instruction :: "instruction \<Rightarrow> bool" where
  "valid_instruction i \<longleftrightarrow>
     i_opcode i \<noteq> Op_Invalid \<and> operands_format (i_operands i) = operand_format (metadata (i_opcode i))"

definition instruction_bytes :: "instruction \<Rightarrow> u8 list" where
  "instruction_bytes i = encoded_byte (i_opcode i) # payload (i_operands i)"

lemma instruction_new_valid:
  "instruction_new op o1 = Inr i \<longleftrightarrow>
     i = \<lparr>i_opcode = op, i_operands = o1\<rparr> \<and> valid_instruction i"
  by (auto simp: instruction_new_def valid_instruction_def Let_def)

lemma length_instruction_bytes:
  "valid_instruction i \<Longrightarrow> length (instruction_bytes i) = unat (encoded_size i)"
  by (simp add: instruction_bytes_def encoded_size_def valid_instruction_def length_payload unat_row_size)

lemma instruction_bytes_nonempty [simp]: "instruction_bytes i \<noteq> []"
  by (simp add: instruction_bytes_def)

lemma unat_size_u32: "unat (ucast (instruction_size (opcode_row op)) :: u32) = unat (instruction_size (opcode_row op))"
  by (simp add: unat_ucast_u8_u32)

lemma decode_instruction_eq_Inr:
  "decode_instruction bs p = Inr d \<longleftrightarrow>
     d_pc d = p \<and> valid_instruction (d_instruction d) \<and>
     unat p + length (instruction_bytes (d_instruction d)) < 2 ^ 32 \<and>
     unat (d_next_pc d) = unat p + length (instruction_bytes (d_instruction d)) \<and>
     unat p \<le> length bs \<and>
     (\<exists>rest. drop (unat p) bs = instruction_bytes (d_instruction d) @ rest)"
  (is "?L \<longleftrightarrow> ?R")
proof
  assume ?L
  then obtain op o1 nx where
    d: "d = \<lparr>d_pc = p, d_instruction = \<lparr>i_opcode = op, i_operands = o1\<rparr>, d_next_pc = nx\<rparr>"
    and p: "unat p < length bs" and op: "encoded_byte op = bs ! unat p" "op \<noteq> Op_Invalid"
    and dec: "operands_decode (operand_format (opcode_row op))
        (take (unat (operand_width (operand_format (opcode_row op)))) (drop (unat p + 1) bs)) = Inr o1"
    and nx: "checked_add p (ucast (instruction_size (opcode_row op))) = Some nx"
    by (auto simp: decode_instruction_def Let_def split: if_splits option.splits)
  let ?w = "unat (operand_width (operand_format (opcode_row op)))"
  from operands_decode_inverse [OF dec]
  have o1: "operands_format o1 = operand_format (opcode_row op)"
    "payload o1 = take ?w (drop (unat p + 1) bs)" by auto
  then have len: "length (instruction_bytes (d_instruction d)) = unat (instruction_size (opcode_row op))"
    using length_payload [of o1] by (simp add: d instruction_bytes_def unat_row_size)
  have "drop (unat p) bs = instruction_bytes (d_instruction d) @ drop (unat p + 1 + ?w) bs"
    using p op o1(2) Cons_nth_drop_Suc [of "unat p" bs] append_take_drop_id [of ?w "drop (unat p + 1) bs"]
    by (simp add: d instruction_bytes_def add.commute)
  then show ?R
    using d op o1(1) p nx len unat_checked_add [OF nx]
    by (auto simp: valid_instruction_def checked_add_Some unat_size_u32)
next
  assume R: ?R
  define i where "i = d_instruction d"
  obtain rest where drop: "drop (unat p) bs = instruction_bytes i @ rest" using R i_def by blast
  have v: "valid_instruction i" using R i_def by simp
  then have fmt: "operands_format (i_operands i) = operand_format (opcode_row (i_opcode i))"
    and ninv: "i_opcode i \<noteq> Op_Invalid" by (simp_all add: valid_instruction_def)
  let ?w = "unat (operand_width (operand_format (opcode_row (i_opcode i))))"
  have plen: "length (payload (i_operands i)) = ?w" using length_payload fmt by metis
  have p: "unat p < length bs" using drop by (metis append_is_Nil_conv drop_all instruction_bytes_nonempty not_le)
  have byte: "bs ! unat p = encoded_byte (i_opcode i)"
    using drop p hd_drop_conv_nth [of "unat p" bs] by (simp add: instruction_bytes_def)
  have tl: "drop (unat p + 1) bs = payload (i_operands i) @ rest"
    using drop by (metis Cons_nth_drop_Suc append_Cons instruction_bytes_def list.sel(3) p Suc_eq_plus1)
  have size: "unat (instruction_size (opcode_row (i_opcode i))) = length (instruction_bytes i)"
    using length_instruction_bytes [OF v] by (simp add: encoded_size_def)
  have nx: "checked_add p (ucast (instruction_size (opcode_row (i_opcode i)))) = Some (d_next_pc d)"
    using R size by (auto simp: checked_add_Some unat_size_u32 i_def intro!: u32_add_eqI [symmetric])
  have rem: "\<not> length bs - (unat p + 1) < ?w"
    using tl plen by (metis length_append length_drop not_add_less1)
  have "operands_decode (operand_format (opcode_row (i_opcode i))) (take ?w (drop (unat p + 1) bs)) =
      Inr (i_operands i)"
    using tl plen operands_decode_payload [of "i_operands i"] fmt by simp
  with p byte rem nx ninv show ?L
    using R by (cases d) (auto simp: decode_instruction_def Let_def get_def i_def)
qed

text \<open>\<open>laid_out p ds\<close>: the instructions \<open>ds\<close> stand one after the other from position \<open>p\<close>.\<close>

fun laid_out :: "nat \<Rightarrow> decoded_instruction list \<Rightarrow> bool" where
  "laid_out p [] \<longleftrightarrow> True"
| "laid_out p (d # ds) \<longleftrightarrow>
     unat (d_pc d) = p \<and> valid_instruction (d_instruction d) \<and>
     unat (d_next_pc d) = p + length (instruction_bytes (d_instruction d)) \<and>
     laid_out (unat (d_next_pc d)) ds"

abbreviation stream_bytes :: "decoded_instruction list \<Rightarrow> u8 list" where
  "stream_bytes ds \<equiv> concat (map (instruction_bytes \<circ> d_instruction) ds)"

lemma decode_instruction_progress:
  assumes "decode_instruction bs p = Inr d"
  shows "unat p < unat (d_next_pc d)" and "unat (d_next_pc d) \<le> length bs"
proof -
  obtain rest where R: "unat (d_next_pc d) = unat p + length (instruction_bytes (d_instruction d))"
    "unat p \<le> length bs" "drop (unat p) bs = instruction_bytes (d_instruction d) @ rest"
    using assms by (auto simp: decode_instruction_eq_Inr)
  then show "unat p < unat (d_next_pc d)" by simp
  have "length bs - unat p = length (instruction_bytes (d_instruction d)) + length rest"
    using R(3) by (metis length_append length_drop)
  with R show "unat (d_next_pc d) \<le> length bs" by simp
qed

lemma decode_instruction_shrinks:
  "decode_instruction bs p = Inr d \<Longrightarrow> length bs - unat (d_next_pc d) < length bs - unat p"
  using decode_instruction_progress [of bs p d] by linarith

text \<open>Collecting a decoder's items into a \<^verbatim>\<open>Result<Vec<_>, _>\<close>.\<close>

function decoder_collect ::
  "instruction_decoder \<Rightarrow> (decode_error, decoded_instruction list) result" where
  "decoder_collect d =
     (case decoder_next d of
        (None, _) \<Rightarrow> Inr []
      | (Some (Inl e), _) \<Rightarrow> Inl e
      | (Some (Inr i), d') \<Rightarrow> and_then (decoder_collect d') (\<lambda>is. Inr (i # is)))"
  by pat_completeness auto
termination
  by (relation "measure (\<lambda>d. length (dec_bytecode d) - unat (dec_next_pc d))")
     (auto simp: decoder_next_def split: if_splits sum.splits
        dest: decode_instruction_shrinks)

declare decoder_collect.simps [simp del]

lemma decoder_collect_unfold:
  "decoder_collect \<lparr>dec_bytecode = bs, dec_next_pc = p, dec_finished = False\<rparr> =
     (if unat p = length bs then Inr []
      else and_then (decode_instruction bs p)
             (\<lambda>i. and_then (decoder_collect \<lparr>dec_bytecode = bs, dec_next_pc = d_next_pc i,
                                              dec_finished = False\<rparr>)
                    (\<lambda>is. Inr (i # is))))"
  by (subst decoder_collect.simps) (auto simp: decoder_next_def split: sum.splits)

lemma decoder_collect_sound:
  "decoder_collect \<lparr>dec_bytecode = bs, dec_next_pc = p, dec_finished = False\<rparr> = Inr ds \<Longrightarrow>
     unat p \<le> length bs \<and> laid_out (unat p) ds \<and> drop (unat p) bs = stream_bytes ds"
proof (induction ds arbitrary: p)
  case Nil
  then show ?case
    by (auto simp: decoder_collect_unfold [of bs p] split: if_splits)
next
  case (Cons d ds)
  then have dec: "decode_instruction bs p = Inr d"
    and rest: "decoder_collect \<lparr>dec_bytecode = bs, dec_next_pc = d_next_pc d, dec_finished = False\<rparr> = Inr ds"
    by (auto simp: decoder_collect_unfold [of bs p] split: if_splits)
  from dec obtain tail where d: "d_pc d = p" "valid_instruction (d_instruction d)"
    "unat (d_next_pc d) = unat p + length (instruction_bytes (d_instruction d))" "unat p \<le> length bs"
    and drop: "drop (unat p) bs = instruction_bytes (d_instruction d) @ tail"
    by (auto simp: decode_instruction_eq_Inr)
  have "drop (unat (d_next_pc d)) bs = tail"
    using drop d(3) by (metis add.commute append_eq_conv_conj drop_drop)
  with Cons.IH [OF rest] d drop show ?case by auto
qed

lemma decoder_collect_complete:
  "unat p \<le> length bs \<Longrightarrow> laid_out (unat p) ds \<Longrightarrow> drop (unat p) bs = stream_bytes ds \<Longrightarrow>
     decoder_collect \<lparr>dec_bytecode = bs, dec_next_pc = p, dec_finished = False\<rparr> = Inr ds"
proof (induction ds arbitrary: p)
  case Nil
  then show ?case by (simp add: decoder_collect_unfold [of bs p])
next
  case (Cons d ds)
  let ?n = "length (instruction_bytes (d_instruction d))"
  have d: "d_pc d = p" "valid_instruction (d_instruction d)" "unat (d_next_pc d) = unat p + ?n"
    using Cons.prems(2) by (auto simp: word_unat_eq_iff)
  have dec: "decode_instruction bs p = Inr d"
    using Cons.prems d unat_u32_bound [of "d_next_pc d"] by (auto simp: decode_instruction_eq_Inr)
  have "drop (unat (d_next_pc d)) bs = stream_bytes ds"
    using Cons.prems(3) d(3) by (metis (no_types, lifting) add.commute append_eq_conv_conj
        comp_apply concat.simps(2) drop_drop list.simps(9))
  moreover have "unat (d_next_pc d) \<le> length bs" using decode_instruction_progress [OF dec] by simp
  moreover have "laid_out (unat (d_next_pc d)) ds" using Cons.prems(2) by (metis laid_out.simps(2))
  ultimately have "decoder_collect \<lparr>dec_bytecode = bs, dec_next_pc = d_next_pc d, dec_finished = False\<rparr> = Inr ds"
    by (intro Cons.IH)
  moreover have "unat p \<noteq> length bs" using decode_instruction_progress [OF dec] by simp
  ultimately show ?case using dec by (simp add: decoder_collect_unfold [of bs p])
qed

lemma decoder_collect_new_iff:
  "decoder_collect (instruction_decoder_new bs) = Inr ds \<longleftrightarrow> laid_out 0 ds \<and> bs = stream_bytes ds"
  using decoder_collect_sound [of bs 0 ds] decoder_collect_complete [of 0 bs ds]
  by (auto simp: instruction_decoder_new_def)

text \<open>
  C40. A decoded stream is exactly its instructions: when the decoder accepts a byte
  string, re-encoding the decoded instructions one after the other gives the same
  bytes, every instruction is well formed, the positions start at zero and each
  instruction ends where the next one starts. Conversely every such layout decodes.
\<close>

theorem decoder_canonical:
  "decoder_collect (instruction_decoder_new bs) = Inr ds \<longleftrightarrow> laid_out 0 ds \<and> bs = stream_bytes ds"
  by (rule decoder_collect_new_iff)


section \<open>Correctness of the builder\<close>

text \<open>The builder's invariant, relative to the position of its first byte.\<close>

definition builder_inv :: "bytecode_pc \<Rightarrow> bytecode_builder \<Rightarrow> bool" where
  "builder_inv origin b \<longleftrightarrow>
     unat (bb_next_pc b) = unat origin + length (bb_bytes b) \<and>
     unat (bb_encoded_len b) = length (bb_bytes b) \<and>
     length (bb_bytes b) \<le> unat (bb_byte_limit b)"

text \<open>Pushing a whole program, as a client of the builder does.\<close>

primrec builder_push_all ::
  "allocator \<Rightarrow> bytecode_builder \<Rightarrow> (final_opcode \<times> operands) list \<Rightarrow> (encode_error, bytecode_builder) result" where
  "builder_push_all alloc b [] = Inr b"
| "builder_push_all alloc b (x # xs) =
     and_then (builder_push alloc b (fst x) (snd x)) (\<lambda>(b', _). builder_push_all alloc b' xs)"

abbreviation to_instruction :: "final_opcode \<times> operands \<Rightarrow> instruction" where
  "to_instruction x \<equiv> \<lparr>i_opcode = fst x, i_operands = snd x\<rparr>"

abbreviation program_bytes :: "(final_opcode \<times> operands) list \<Rightarrow> u8 list" where
  "program_bytes xs \<equiv> concat (map (instruction_bytes \<circ> to_instruction) xs)"

lemma push_instruction_valid:
  assumes "valid_instruction i"
  defines "n \<equiv> length (instruction_bytes i)"
  shows "push_instruction alloc b i = Inr (b', p) \<longleftrightarrow>
     p = bb_next_pc b \<and> unat (bb_next_pc b) + n < 2 ^ 32 \<and> unat (bb_encoded_len b) + n < 2 ^ 32 \<and>
     unat (bb_encoded_len b) + n \<le> unat (bb_byte_limit b) \<and> alloc (length (bb_bytes b)) n \<and>
     b' = b\<lparr>bb_bytes := bb_bytes b @ instruction_bytes i,
            bb_next_pc := bb_next_pc b + word_of_nat n,
            bb_encoded_len := bb_encoded_len b + word_of_nat n\<rparr>"
proof -
  obtain eo where eo: "operands_encode (i_operands i) = Inr eo" "eo_as_bytes eo = payload (i_operands i)"
    "unat (eo_len eo) = length (payload (i_operands i))"
    using operands_encode_payload by blast
  let ?sz = "instruction_size (opcode_row (i_opcode i))"
  have sz: "unat ?sz = n" using length_instruction_bytes [OF assms(1)] by (simp add: encoded_size_def n_def)
  then have ucast: "(ucast ?sz :: u32) = word_of_nat n"
    by (metis unat_ucast_u8_u32 word_of_nat_unat_u32)
  have nlen: "n = Suc (length (payload (i_operands i)))" by (simp add: n_def instruction_bytes_def)
  then have "unat (eo_len eo) + unat (1 :: u8) < 2 ^ LENGTH(8)" using sz eo(3) unat_u8_bound [of ?sz] by simp
  then have add: "checked_add (eo_len eo) 1 = Some (eo_len eo + 1)" by (simp add: checked_add_Some)
  then have "unat (eo_len eo + 1) = unat ?sz" using unat_checked_add sz nlen eo(3) by fastforce
  then have size: "eo_len eo + 1 = ?sz" by (simp add: word_unat_eq_iff)
  have un: "unat (word_of_nat n :: u32) = n" using ucast sz unat_ucast_u8_u32 by metis
  have cmp: "unat (bb_encoded_len b) + n < 2 ^ 32 \<Longrightarrow>
     bb_byte_limit b < bb_encoded_len b + word_of_nat n \<longleftrightarrow> \<not> unat (bb_encoded_len b) + n \<le> unat (bb_byte_limit b)"
    by (simp add: word_less_nat_alt unat_word_ariths un not_le)
  show ?thesis
    using eo add size sz ucast un cmp
    by (auto simp: push_instruction_def Let_def checked_add_Some instruction_bytes_def)
qed

lemma push_instruction_inv:
  assumes "builder_inv origin b" "valid_instruction i" "push_instruction alloc b i = Inr (b', p)"
  shows "builder_inv origin b'" "bb_bytes b' = bb_bytes b @ instruction_bytes i"
    "bb_byte_limit b' = bb_byte_limit b"
proof -
  let ?n = "length (instruction_bytes i)"
  note r = assms(3) [unfolded push_instruction_valid [OF assms(2)]]
  have "?n < 2 ^ 32" using r by auto
  then have "unat (word_of_nat ?n :: u32) = ?n" by (rule unat_word_of_nat_u32)
  then show "builder_inv origin b'" using assms(1) r by (simp add: builder_inv_def unat_word_ariths)
  show "bb_bytes b' = bb_bytes b @ instruction_bytes i" "bb_byte_limit b' = bb_byte_limit b"
    using r by simp_all
qed

lemma builder_push_eq_Inr:
  "builder_push alloc b op o1 = Inr r \<longleftrightarrow>
     valid_instruction (to_instruction (op, o1)) \<and> push_instruction alloc b (to_instruction (op, o1)) = Inr r"
  by (auto simp: builder_push_def instruction_new_valid)

lemma builder_push_all_Inr:
  "builder_inv origin b \<Longrightarrow> builder_push_all alloc b xs = Inr b' \<Longrightarrow>
     builder_inv origin b' \<and> bb_bytes b' = bb_bytes b @ program_bytes xs \<and>
     bb_byte_limit b' = bb_byte_limit b \<and> (\<forall>x \<in> set xs. valid_instruction (to_instruction x))"
proof (induction xs arbitrary: b)
  case Nil
  then show ?case by simp
next
  case (Cons x xs)
  then obtain c p where step: "valid_instruction (to_instruction x)"
    "push_instruction alloc b (to_instruction x) = Inr (c, p)" and rest: "builder_push_all alloc c xs = Inr b'"
    by (auto simp: builder_push_eq_Inr)
  from Cons.IH [OF push_instruction_inv(1) [OF Cons.prems(1) step] rest]
  show ?case using push_instruction_inv(2,3) [OF Cons.prems(1) step] step(1) by auto
qed

lemma builder_push_all_total:
  "builder_inv origin b \<Longrightarrow> \<forall>x \<in> set xs. valid_instruction (to_instruction x) \<Longrightarrow>
     length (bb_bytes b) + length (program_bytes xs) \<le> unat (bb_byte_limit b) \<Longrightarrow>
     unat origin + length (bb_bytes b) + length (program_bytes xs) < 2 ^ 32 \<Longrightarrow>
     \<exists>b'. builder_push_all (\<lambda>_ _. True) b xs = Inr b'"
proof (induction xs arbitrary: b)
  case Nil
  then show ?case by simp
next
  case (Cons x xs)
  let ?i = "to_instruction x"
  have v: "valid_instruction ?i" using Cons.prems(2) by simp
  have lim: "unat (bb_byte_limit b) < 2 ^ 32" by simp
  obtain c p where step: "push_instruction (\<lambda>_ _. True) b ?i = Inr (c, p)"
    using Cons.prems(1,3,4) lim by (simp add: push_instruction_valid [OF v] builder_inv_def)
  note inv = push_instruction_inv [OF Cons.prems(1) v step]
  have "\<exists>b'. builder_push_all (\<lambda>_ _. True) c xs = Inr b'"
    using Cons.prems(2-4) inv by (intro Cons.IH) simp_all
  then show ?case using v step    using builder_push_eq_Inr [of "\<lambda>_ _. True" b "fst x" "snd x" "(c, p)"] by auto
qed

text \<open>The decoded form of a pushed program: positions are the running byte offsets.\<close>

primrec decoded_from :: "nat \<Rightarrow> (final_opcode \<times> operands) list \<Rightarrow> decoded_instruction list" where
  "decoded_from p [] = []"
| "decoded_from p (x # xs) =
     (let q = p + length (instruction_bytes (to_instruction x))
      in \<lparr>d_pc = word_of_nat p, d_instruction = to_instruction x, d_next_pc = word_of_nat q\<rparr>
           # decoded_from q xs)"

lemma stream_decoded_from: "stream_bytes (decoded_from p xs) = program_bytes xs"
  by (induction xs arbitrary: p) (simp_all add: Let_def)

lemma laid_out_decoded_from:
  "\<forall>x \<in> set xs. valid_instruction (to_instruction x) \<Longrightarrow> p + length (program_bytes xs) < 2 ^ 32 \<Longrightarrow>
     laid_out p (decoded_from p xs)"
  by (induction xs arbitrary: p) (simp_all add: Let_def unat_word_of_nat_u32 del: of_nat_add)

text \<open>
  Builder and decoder are inverse. A program pushed through the builder succeeds
  exactly when every instruction is well formed and the encoding fits the byte limit
  (for an allocator that never refuses); on success of any allocator the bytes stay
  within the limit and decode to exactly the pushed opcodes and operands, each at its
  byte offset.
\<close>

theorem builder_decoder_roundtrip:
  "((\<exists>b. builder_push_all (\<lambda>_ _. True) (with_origin_and_byte_limit 0 limit) xs = Inr b) \<longleftrightarrow>
      list_all (\<lambda>x. valid_instruction (to_instruction x)) xs \<and> length (program_bytes xs) \<le> unat limit) \<and>
   (case builder_push_all alloc (with_origin_and_byte_limit 0 limit) xs of
      Inl e \<Rightarrow> True
    | Inr b \<Rightarrow> length (bb_bytes b) \<le> unat limit \<and>
        decoder_collect (instruction_decoder_new (bb_bytes b)) = Inr (decoded_from 0 xs))"
proof -
  let ?b = "with_origin_and_byte_limit 0 limit"
  have inv: "builder_inv 0 ?b" by (simp add: builder_inv_def with_origin_and_byte_limit_def)
  have lim: "unat limit < 2 ^ 32" by simp
  have sound: "builder_push_all al ?b xs = Inr b \<Longrightarrow>
      (\<forall>x \<in> set xs. valid_instruction (to_instruction x)) \<and> bb_bytes b = program_bytes xs \<and>
      length (program_bytes xs) \<le> unat limit" for al b
    using builder_push_all_Inr [OF inv, of al xs b]
    by (auto simp: builder_inv_def with_origin_and_byte_limit_def)
  have dec: "decoder_collect (instruction_decoder_new (bb_bytes b)) = Inr (decoded_from 0 xs)"
    if ok: "builder_push_all alloc ?b xs = Inr b" for b
  proof -
    have "length (program_bytes xs) < 2 ^ 32" using sound [OF ok] lim le_less_trans by metis
    then have "laid_out 0 (decoded_from 0 xs)" using sound [OF ok] by (intro laid_out_decoded_from) simp_all
    then show ?thesis using sound [OF ok] by (simp add: decoder_collect_new_iff stream_decoded_from)
  qed
  have total: "\<exists>b. builder_push_all (\<lambda>_ _. True) ?b xs = Inr b"
    if "\<forall>x \<in> set xs. valid_instruction (to_instruction x)" "length (program_bytes xs) \<le> unat limit"
    using builder_push_all_total [OF inv that(1)] that(2) le_less_trans [OF that(2) lim]
    by (simp add: with_origin_and_byte_limit_def)
  have "(\<exists>b. builder_push_all (\<lambda>_ _. True) ?b xs = Inr b) \<longleftrightarrow>
      list_all (\<lambda>x. valid_instruction (to_instruction x)) xs \<and> length (program_bytes xs) \<le> unat limit"
  proof
    assume "\<exists>b. builder_push_all (\<lambda>_ _. True) ?b xs = Inr b"
    then obtain b where "builder_push_all (\<lambda>_ _. True) ?b xs = Inr b" ..
    from sound [OF this] show "list_all (\<lambda>x. valid_instruction (to_instruction x)) xs \<and>
        length (program_bytes xs) \<le> unat limit"
      unfolding list_all_iff by metis
  next
    assume "list_all (\<lambda>x. valid_instruction (to_instruction x)) xs \<and> length (program_bytes xs) \<le> unat limit"
    then show "\<exists>b. builder_push_all (\<lambda>_ _. True) ?b xs = Inr b"
      by (intro total) (simp_all add: list_all_iff)
  qed
  then show ?thesis
    using sound [of alloc] dec by (cases "builder_push_all alloc ?b xs") simp_all
qed

end
