(* ===== verification/Function_Header.thy ===== *)
theory Function_Header
  imports Prelude
begin

text \<open>
  Function execution metadata, \<^verbatim>\<open>crates/fusor-bytecode/src/function.rs\<close>: function
  kinds and the requirements an opcode or flag puts on them, the raw header with the
  constructors the compiler uses, and the validated header with its flag accessors.
  Validation itself is \<^verbatim>\<open>validate_function_header\<close> in theory \<open>Verifier_Header\<close>.
\<close>

definition FUNCTION_KIND_SHIFT :: nat where
  "FUNCTION_KIND_SHIFT = 4"

definition FUNCTION_KIND_MASK :: u16 where
  "FUNCTION_KIND_MASK = push_bit FUNCTION_KIND_SHIFT 3"

definition SERIALIZED_FUNCTION_FLAGS_MASK :: u16 where
  "SERIALIZED_FUNCTION_FLAGS_MASK = 0x1fff"

definition JS_MODE_MASK :: u8 where
  "JS_MODE_MASK = 1"

section \<open>Function kinds\<close>

datatype function_kind = Kind_Normal | Kind_Generator | Kind_Async | Kind_AsyncGenerator

definition from_serialized_flags :: "u16 \<Rightarrow> function_kind" where
  "from_serialized_flags flags =
     (let v = flags AND FUNCTION_KIND_MASK
      in if v = 0 then Kind_Normal
         else if v = push_bit FUNCTION_KIND_SHIFT 1 then Kind_Generator
         else if v = push_bit FUNCTION_KIND_SHIFT 2 then Kind_Async
         else Kind_AsyncGenerator)"

datatype function_kind_requirement =
  Req_Normal | Req_Generator | Req_SynchronousGenerator | Req_Async | Req_AsyncGenerator | Req_NonNormal

definition accepts :: "function_kind_requirement \<Rightarrow> function_kind \<Rightarrow> bool" where
  "accepts r kind =
     (case r of
        Req_Normal \<Rightarrow> kind = Kind_Normal
      | Req_Generator \<Rightarrow> kind \<in> {Kind_Generator, Kind_AsyncGenerator}
      | Req_SynchronousGenerator \<Rightarrow> kind = Kind_Generator
      | Req_Async \<Rightarrow> kind \<in> {Kind_Async, Kind_AsyncGenerator}
      | Req_AsyncGenerator \<Rightarrow> kind = Kind_AsyncGenerator
      | Req_NonNormal \<Rightarrow> kind \<noteq> Kind_Normal)"

datatype function_header_flag = HasPrototype | DerivedClassConstructor

datatype function_bit_field = SerializedFlags | JsMode

section \<open>Direct-eval capabilities\<close>

type_synonym direct_eval_capabilities = u8

definition CAP_NEW_TARGET :: u8 where "CAP_NEW_TARGET = push_bit 0 1"
definition CAP_SUPER_PROPERTY :: u8 where "CAP_SUPER_PROPERTY = push_bit 1 1"
definition CAP_SUPER_CALL :: u8 where "CAP_SUPER_CALL = push_bit 2 1"
definition CAP_INSTANCE_ELEMENTS :: u8 where "CAP_INSTANCE_ELEMENTS = push_bit 3 1"

definition direct_eval_capabilities_new :: "bool \<Rightarrow> bool \<Rightarrow> bool \<Rightarrow> direct_eval_capabilities" where
  "direct_eval_capabilities_new new_target super_property super_call =
     ((if new_target then CAP_NEW_TARGET else 0)
      OR (if super_property then CAP_SUPER_PROPERTY else 0))
      OR (if super_call then CAP_SUPER_CALL else 0)"

definition allows_new_target :: "direct_eval_capabilities \<Rightarrow> bool" where
  "allows_new_target c \<longleftrightarrow> c AND CAP_NEW_TARGET \<noteq> 0"

definition allows_super_property :: "direct_eval_capabilities \<Rightarrow> bool" where
  "allows_super_property c \<longleftrightarrow> c AND CAP_SUPER_PROPERTY \<noteq> 0"

definition allows_super_call :: "direct_eval_capabilities \<Rightarrow> bool" where
  "allows_super_call c \<longleftrightarrow> c AND CAP_SUPER_CALL \<noteq> 0"

definition with_instance_elements :: "direct_eval_capabilities \<Rightarrow> bool \<Rightarrow> direct_eval_capabilities" where
  "with_instance_elements c yes =
     (if yes then c OR CAP_INSTANCE_ELEMENTS else c AND NOT CAP_INSTANCE_ELEMENTS)"

definition has_instance_elements :: "direct_eval_capabilities \<Rightarrow> bool" where
  "has_instance_elements c \<longleftrightarrow> c AND CAP_INSTANCE_ELEMENTS \<noteq> 0"

section \<open>Raw headers\<close>

record unverified_function_header =
  uh_serialized_flags :: u16
  uh_js_mode :: u8
  uh_defined_argument_count :: u32
  uh_variable_reference_count :: u32

definition STRIPPED_ORDINARY_SOURCE_FLAGS :: u16 where
  "STRIPPED_ORDINARY_SOURCE_FLAGS = push_bit 0 1 OR push_bit 1 1 OR push_bit 6 1 OR push_bit 9 1"

definition ORDINARY_SOURCE_FLAGS :: u16 where
  "ORDINARY_SOURCE_FLAGS = STRIPPED_ORDINARY_SOURCE_FLAGS OR push_bit 10 1"

definition ORDINARY_ARROW_FLAGS :: u16 where
  "ORDINARY_ARROW_FLAGS = push_bit 1 1 OR push_bit 6 1 OR push_bit 10 1"

definition ASYNC_ARROW_FLAGS :: u16 where
  "ASYNC_ARROW_FLAGS = ORDINARY_ARROW_FLAGS OR push_bit FUNCTION_KIND_SHIFT 2"

definition ORDINARY_METHOD_FLAGS :: u16 where
  "ORDINARY_METHOD_FLAGS = push_bit 1 1 OR push_bit 6 1 OR push_bit 8 1 OR push_bit 9 1 OR push_bit 10 1"

definition CLASS_CONSTRUCTOR_FLAGS :: u16 where
  "CLASS_CONSTRUCTOR_FLAGS = push_bit 1 1 OR push_bit 3 1 OR push_bit 6 1 OR push_bit 8 1 OR push_bit 9 1 OR push_bit 10 1"

definition DERIVED_CLASS_CONSTRUCTOR_FLAGS :: u16 where
  "DERIVED_CLASS_CONSTRUCTOR_FLAGS = CLASS_CONSTRUCTOR_FLAGS OR push_bit 2 1 OR push_bit 7 1"

definition GENERATOR_SOURCE_FLAGS :: u16 where
  "GENERATOR_SOURCE_FLAGS = push_bit 1 1 OR push_bit 4 1 OR push_bit 6 1 OR push_bit 9 1 OR push_bit 10 1"

definition GENERATOR_METHOD_FLAGS :: u16 where
  "GENERATOR_METHOD_FLAGS = push_bit 1 1 OR push_bit 4 1 OR push_bit 6 1 OR push_bit 8 1 OR push_bit 9 1 OR push_bit 10 1"

definition ASYNC_SOURCE_FLAGS :: u16 where
  "ASYNC_SOURCE_FLAGS = push_bit 1 1 OR push_bit 4 2 OR push_bit 6 1 OR push_bit 9 1 OR push_bit 10 1"

definition ASYNC_METHOD_FLAGS :: u16 where
  "ASYNC_METHOD_FLAGS = push_bit 1 1 OR push_bit 4 2 OR push_bit 6 1 OR push_bit 8 1 OR push_bit 9 1 OR push_bit 10 1"

definition ASYNC_GENERATOR_SOURCE_FLAGS :: u16 where
  "ASYNC_GENERATOR_SOURCE_FLAGS = push_bit 1 1 OR push_bit 4 3 OR push_bit 6 1 OR push_bit 9 1 OR push_bit 10 1"

definition ASYNC_GENERATOR_METHOD_FLAGS :: u16 where
  "ASYNC_GENERATOR_METHOD_FLAGS = push_bit 1 1 OR push_bit 4 3 OR push_bit 6 1 OR push_bit 8 1 OR push_bit 9 1 OR push_bit 10 1"

definition DYNAMIC_FUNCTION_SCRIPT_FLAGS :: u16 where
  "DYNAMIC_FUNCTION_SCRIPT_FLAGS = push_bit 10 1"

lemmas header_flag_consts =
  STRIPPED_ORDINARY_SOURCE_FLAGS_def
  ORDINARY_SOURCE_FLAGS_def
  ORDINARY_ARROW_FLAGS_def
  ASYNC_ARROW_FLAGS_def
  ORDINARY_METHOD_FLAGS_def
  CLASS_CONSTRUCTOR_FLAGS_def
  DERIVED_CLASS_CONSTRUCTOR_FLAGS_def
  GENERATOR_SOURCE_FLAGS_def
  GENERATOR_METHOD_FLAGS_def
  ASYNC_SOURCE_FLAGS_def
  ASYNC_METHOD_FLAGS_def
  ASYNC_GENERATOR_SOURCE_FLAGS_def
  ASYNC_GENERATOR_METHOD_FLAGS_def
  DYNAMIC_FUNCTION_SCRIPT_FLAGS_def
  FUNCTION_KIND_SHIFT_def FUNCTION_KIND_MASK_def SERIALIZED_FUNCTION_FLAGS_MASK_def JS_MODE_MASK_def

definition function_header_new :: "u16 \<Rightarrow> u8 \<Rightarrow> u32 \<Rightarrow> u32 \<Rightarrow> unverified_function_header" where
  "function_header_new flags mode defined references =
     \<lparr>uh_serialized_flags = flags, uh_js_mode = mode, uh_defined_argument_count = defined,
      uh_variable_reference_count = references\<rparr>"

definition strict_mode :: "bool \<Rightarrow> u8" where
  "strict_mode strict = (if strict then 1 else 0)"

text \<open>The constructors of compiler headers, one per source function form.\<close>

definition stripped_ordinary_source_function_with_variable_references :: "bool \<Rightarrow> u32 \<Rightarrow> u32 \<Rightarrow> unverified_function_header" where
  "stripped_ordinary_source_function_with_variable_references strict =
     function_header_new STRIPPED_ORDINARY_SOURCE_FLAGS (strict_mode strict)"

definition ordinary_source_function_with_variable_references :: "bool \<Rightarrow> u32 \<Rightarrow> u32 \<Rightarrow> unverified_function_header" where
  "ordinary_source_function_with_variable_references strict =
     function_header_new ORDINARY_SOURCE_FLAGS (strict_mode strict)"

definition ordinary_arrow_with_variable_references :: "bool \<Rightarrow> u32 \<Rightarrow> u32 \<Rightarrow> unverified_function_header" where
  "ordinary_arrow_with_variable_references strict =
     function_header_new ORDINARY_ARROW_FLAGS (strict_mode strict)"

definition async_arrow_with_variable_references :: "bool \<Rightarrow> u32 \<Rightarrow> u32 \<Rightarrow> unverified_function_header" where
  "async_arrow_with_variable_references strict =
     function_header_new ASYNC_ARROW_FLAGS (strict_mode strict)"

definition ordinary_method_with_variable_references :: "bool \<Rightarrow> u32 \<Rightarrow> u32 \<Rightarrow> unverified_function_header" where
  "ordinary_method_with_variable_references strict =
     function_header_new ORDINARY_METHOD_FLAGS (strict_mode strict)"

definition class_constructor_with_variable_references :: "bool \<Rightarrow> u32 \<Rightarrow> u32 \<Rightarrow> unverified_function_header" where
  "class_constructor_with_variable_references strict =
     function_header_new CLASS_CONSTRUCTOR_FLAGS (strict_mode strict)"

definition derived_class_constructor_with_variable_references :: "bool \<Rightarrow> u32 \<Rightarrow> u32 \<Rightarrow> unverified_function_header" where
  "derived_class_constructor_with_variable_references strict =
     function_header_new DERIVED_CLASS_CONSTRUCTOR_FLAGS (strict_mode strict)"

definition generator_source_function_with_variable_references :: "bool \<Rightarrow> u32 \<Rightarrow> u32 \<Rightarrow> unverified_function_header" where
  "generator_source_function_with_variable_references strict =
     function_header_new GENERATOR_SOURCE_FLAGS (strict_mode strict)"

definition generator_method_with_variable_references :: "bool \<Rightarrow> u32 \<Rightarrow> u32 \<Rightarrow> unverified_function_header" where
  "generator_method_with_variable_references strict =
     function_header_new GENERATOR_METHOD_FLAGS (strict_mode strict)"

definition async_source_function_with_variable_references :: "bool \<Rightarrow> u32 \<Rightarrow> u32 \<Rightarrow> unverified_function_header" where
  "async_source_function_with_variable_references strict =
     function_header_new ASYNC_SOURCE_FLAGS (strict_mode strict)"

definition async_method_with_variable_references :: "bool \<Rightarrow> u32 \<Rightarrow> u32 \<Rightarrow> unverified_function_header" where
  "async_method_with_variable_references strict =
     function_header_new ASYNC_METHOD_FLAGS (strict_mode strict)"

definition async_generator_source_function_with_variable_references :: "bool \<Rightarrow> u32 \<Rightarrow> u32 \<Rightarrow> unverified_function_header" where
  "async_generator_source_function_with_variable_references strict =
     function_header_new ASYNC_GENERATOR_SOURCE_FLAGS (strict_mode strict)"

definition async_generator_method_with_variable_references :: "bool \<Rightarrow> u32 \<Rightarrow> u32 \<Rightarrow> unverified_function_header" where
  "async_generator_method_with_variable_references strict =
     function_header_new ASYNC_GENERATOR_METHOD_FLAGS (strict_mode strict)"

definition stripped_ordinary_source_function :: "bool \<Rightarrow> u32 \<Rightarrow> unverified_function_header" where
  "stripped_ordinary_source_function strict defined =
     stripped_ordinary_source_function_with_variable_references strict defined 0"

definition ordinary_source_function :: "bool \<Rightarrow> u32 \<Rightarrow> unverified_function_header" where
  "ordinary_source_function strict defined =
     ordinary_source_function_with_variable_references strict defined 0"

definition dynamic_function_script :: "u32 \<Rightarrow> unverified_function_header" where
  "dynamic_function_script references = function_header_new DYNAMIC_FUNCTION_SCRIPT_FLAGS 0 0 references"

definition global_script :: "bool \<Rightarrow> u32 \<Rightarrow> unverified_function_header" where
  "global_script strict references =
     function_header_new DYNAMIC_FUNCTION_SCRIPT_FLAGS (strict_mode strict) 0 references"

definition module_header :: "u32 \<Rightarrow> unverified_function_header" where
  "module_header references = function_header_new DYNAMIC_FUNCTION_SCRIPT_FLAGS 1 0 references"

definition async_module :: "u32 \<Rightarrow> unverified_function_header" where
  "async_module references =
     function_header_new (DYNAMIC_FUNCTION_SCRIPT_FLAGS OR push_bit 4 2) 1 0 references"

definition direct_eval_script ::
  "bool \<Rightarrow> u32 \<Rightarrow> direct_eval_capabilities \<Rightarrow> unverified_function_header" where
  "direct_eval_script strict references caps =
     (let f0 = DYNAMIC_FUNCTION_SCRIPT_FLAGS;
          f1 = (if allows_new_target caps then f0 OR push_bit 6 1 else f0);
          f2 = (if allows_super_call caps then f1 OR push_bit 7 1 else f1);
          f3 = (if allows_super_property caps then f2 OR push_bit 8 1 else f2);
          f4 = (if has_instance_elements caps then f3 OR push_bit 12 1 else f3)
      in function_header_new f4 (strict_mode strict) 0 references)"

definition with_simple_parameter_list ::
  "unverified_function_header \<Rightarrow> bool \<Rightarrow> unverified_function_header" where
  "with_simple_parameter_list h simple =
     (let bit1 = push_bit 1 1; flags = uh_serialized_flags h
      in h\<lparr>uh_serialized_flags := (if simple then flags OR bit1 else flags AND NOT bit1)\<rparr>)"

section \<open>Validated headers\<close>

type_synonym function_header_flags = u16
type_synonym function_mode = u8

definition flags_has_bit :: "function_header_flags \<Rightarrow> nat \<Rightarrow> bool" where
  "flags_has_bit f b \<longleftrightarrow> f AND push_bit b 1 \<noteq> 0"

definition has_prototype :: "function_header_flags \<Rightarrow> bool" where
  "has_prototype f = flags_has_bit f 0"

definition has_simple_parameter_list :: "function_header_flags \<Rightarrow> bool" where
  "has_simple_parameter_list f = flags_has_bit f 1"

definition is_derived_class_constructor :: "function_header_flags \<Rightarrow> bool" where
  "is_derived_class_constructor f = flags_has_bit f 2"

definition needs_home_object :: "function_header_flags \<Rightarrow> bool" where
  "needs_home_object f = flags_has_bit f 3"

definition new_target_allowed :: "function_header_flags \<Rightarrow> bool" where
  "new_target_allowed f = flags_has_bit f 6"

definition super_call_allowed :: "function_header_flags \<Rightarrow> bool" where
  "super_call_allowed f = flags_has_bit f 7"

definition super_allowed :: "function_header_flags \<Rightarrow> bool" where
  "super_allowed f = flags_has_bit f 8"

definition arguments_allowed :: "function_header_flags \<Rightarrow> bool" where
  "arguments_allowed f = flags_has_bit f 9"

definition has_debug :: "function_header_flags \<Rightarrow> bool" where
  "has_debug f = flags_has_bit f 10"

definition is_eval :: "function_header_flags \<Rightarrow> bool" where
  "is_eval f = flags_has_bit f 11"

definition direct_eval_has_instance_elements :: "function_header_flags \<Rightarrow> bool" where
  "direct_eval_has_instance_elements f = flags_has_bit f 12"

definition mode_is_strict :: "function_mode \<Rightarrow> bool" where
  "mode_is_strict m \<longleftrightarrow> m AND push_bit 0 1 \<noteq> 0"

record verified_function_header =
  vh_flags :: function_header_flags
  vh_mode :: function_mode
  vh_kind :: function_kind
  vh_defined_argument_count :: u32
  vh_variable_reference_count :: u32

section \<open>Bit-level facts\<close>

lemma flags_has_bit_iff: "flags_has_bit f b \<longleftrightarrow> bit f b"
proof -
  have "f AND push_bit b 1 \<noteq> 0 \<longleftrightarrow> bit f b"
    by (metis and_exp_eq_0_iff_not_bit push_bit_of_1)
  then show ?thesis by (simp add: flags_has_bit_def)
qed

lemma kind_from_bits:
  "from_serialized_flags f =
     (if bit f 5 then if bit f 4 then Kind_AsyncGenerator else Kind_Async
      else if bit f 4 then Kind_Generator else Kind_Normal)"
proof -
  have mask: "f AND FUNCTION_KIND_MASK = (if bit f 4 then 16 else 0) OR (if bit f 5 then 32 else 0)"
  proof (rule bit_word_eqI)
    fix n assume "n < LENGTH(16)"
    then have "n \<in> {..<16}" by simp
    then have "n \<in> {0, 1, 2, 3, 4, 5, 6, 7, 8, 9, 10, 11, 12, 13, 14, 15}" by (simp add: lessThan_nat_numeral lessThan_Suc, blast)
    then show "bit (f AND FUNCTION_KIND_MASK) n = bit ((if bit f 4 then 16 else 0) OR (if bit f 5 then 32 else 0) :: u16) n"
      by (auto simp: FUNCTION_KIND_MASK_def FUNCTION_KIND_SHIFT_def bit_simps)
  qed
  show ?thesis
    by (simp add: from_serialized_flags_def mask FUNCTION_KIND_SHIFT_def)
qed

end
