(* ===== verification/Verifier_Header.thy ===== *)
theory Verifier_Header
  imports Codec Function_Header
begin

text \<open>
  The data the staged verifier works on and its first two stages, from
  \<^verbatim>\<open>crates/fusor-bytecode/src/verifier/\<close>: resource limits (\<^verbatim>\<open>limits.rs\<close>), the structured
  errors (\<^verbatim>\<open>error.rs\<close>), index domains, capture and constant layouts (\<^verbatim>\<open>model.rs\<close>),
  limit and header validation (\<^verbatim>\<open>header.rs\<close>) and layout validation (\<^verbatim>\<open>layouts.rs\<close>).

  \<open>VE_X\<close> is the variant \<^verbatim>\<open>VerificationErrorKind::X\<close>. Its \<open>u64\<close> fields are naturals and
  its \<open>i64\<close> fields integers; \<^verbatim>\<open>usize_to_u64\<close> is the identity on a 64-bit host.
\<close>

section \<open>Limits\<close>

definition MAX_FUNCTION_INDEX_ENTRIES :: u32 where
  "MAX_FUNCTION_INDEX_ENTRIES = 65534"

definition MAX_OPERAND_STACK_DEPTH :: u32 where
  "MAX_OPERAND_STACK_DEPTH = 65534"

record verification_limits =
  max_bytecode_bytes_per_function :: u32
  max_instructions_per_function :: u32
  max_constants_per_function :: u32
  max_atom_pool_entries :: u32
  max_transfer_evaluations :: u64
  max_stack_depth :: u32

definition UNTRUSTED :: verification_limits where
  "UNTRUSTED =
     \<lparr>max_bytecode_bytes_per_function = 16 * 1024 * 1024,
      max_instructions_per_function = 4194304,
      max_constants_per_function = 262144,
      max_atom_pool_entries = 1048576,
      max_transfer_evaluations = 33554432,
      max_stack_depth = MAX_OPERAND_STACK_DEPTH\<rparr>"

datatype verification_resource =
  BytecodeBytes | Instructions | Constants | AtomPoolEntries | TransferEvaluations | StackDepth
| InstructionBoundaryWords | WorklistEntries | CompilerCaptures

section \<open>Model data\<close>

record function_index_domains =
  atom_pool_len :: u32
  constant_pool_len :: u32
  argument_count :: u32
  local_count :: u32
  closure_var_count :: u32

datatype compiler_captured_binding = Cap_Argument u32 | Cap_FunctionLocal u32 | Cap_ScopedLocal u32

datatype captured_binding_identity = Id_Argument u32 | Id_Local u32

primrec binding_identity :: "compiler_captured_binding \<Rightarrow> captured_binding_identity" where
  "binding_identity (Cap_Argument i) = Id_Argument i"
| "binding_identity (Cap_FunctionLocal i) = Id_Local i"
| "binding_identity (Cap_ScopedLocal i) = Id_Local i"

record compiler_capture_layout =
  ccl_bindings :: "compiler_captured_binding list"
  ccl_mapped_arguments :: "u32 list option"

definition binding_for_variable_reference ::
  "compiler_capture_layout \<Rightarrow> u32 \<Rightarrow> compiler_captured_binding option" where
  "binding_for_variable_reference l i = get (ccl_bindings l) (unat i)"

datatype compiler_constant_kind = Const_Value | Const_Function

record compiler_constant_layout =
  ccl_kinds :: "compiler_constant_kind list"

definition constant_kind :: "compiler_constant_layout \<Rightarrow> u32 \<Rightarrow> compiler_constant_kind option" where
  "constant_kind l i = get (ccl_kinds l) (unat i)"

record unverified_function_body =
  ub_bytecode :: "u8 list"
  ub_expected_stack_size :: u32
  ub_domains :: function_index_domains
  ub_function_header :: unverified_function_header

record unverified_compiler_function_body =
  cb_bytecode :: "u8 list"
  cb_domains :: function_index_domains
  cb_function_header :: unverified_function_header
  cb_capture_layout :: "compiler_capture_layout option"
  cb_constant_layout :: "compiler_constant_layout option"

section \<open>Errors\<close>

datatype function_count_domain =
  Cnt_Arguments | Cnt_Locals | Cnt_VariableReferences | Cnt_ClosureVariables | Cnt_ExpectedStackSize

datatype operand_index_domain = Dom_AtomPool | Dom_ConstantPool | Dom_Local | Dom_Argument | Dom_ClosureVariable

datatype secondary_operand_field =
  SpecialObjectKind | RestFirstArgument | ApplyMagic | ThrowErrorKind | DefineMethodFlags
| DefinePrivateFieldKind | DefineClassFlags | IsWith | IteratorCallFlags

datatype control_flow_edge =
  Edge_Fallthrough | Edge_Branch | Edge_Jump | Edge_CatchHandler | Edge_FinallySubroutine
| Edge_FinallyContinuation | Edge_WithBinding

datatype invalid_target_reason = OutsideBytecode | NotInstructionBoundary | CatchTargetZero

datatype unsupported_feature =
  ConstantPoolTyping | RawFunctionStack | EvalScopeMetadata | CapturedBindingMetadata | CatchMarkers
| FinallyReturnAddresses | WithEnvironmentBranches | IteratorMarkers | PackedStackOffsets

datatype verification_error_kind =
  VE_EmptyBytecode
| VE_LimitExceeded verification_resource nat nat
| VE_AllocationFailed verification_resource nat
| VE_MetadataCountOutOfRange function_count_domain u32 u32
| VE_DisallowedFunctionBits function_bit_field u16 u16 u16
| VE_DefinedArgumentCountOutOfRange u32 u32
| VE_VariableReferenceCountOutOfRange u32 u32 u32
| VE_CompilerCaptureCountMismatch u32 nat
| VE_MissingCompilerCaptureLayout u32
| VE_CompilerConstantCountMismatch u32 nat
| VE_MissingCompilerConstantLayout u32
| VE_CompilerConstantKindMismatch u32 compiler_constant_kind compiler_constant_kind
| VE_CompilerCaptureIndexOutOfBounds compiler_captured_binding u32
| VE_DuplicateCompilerCapture compiler_captured_binding
| VE_CompilerMappedArgumentIndexOutOfBounds u32 u32
| VE_CompilerMappedArgumentsNotAscending u32 u32
| VE_CloseLocRequiresScopedCapture u32
| VE_FunctionFlagNotAllowedForKind function_header_flag function_kind function_kind_requirement
| VE_ConflictingFunctionFlags function_header_flag function_header_flag
| VE_InvalidStackLimit u32 u32
| VE_Decode decode_error
| VE_IndexOutOfBounds operand_index_domain u32 u32
| VE_InvalidSecondaryOperand secondary_operand_field u32
| VE_ControlFlowTargetOverflow control_flow_edge int int
| VE_InvalidControlFlowTarget control_flow_edge int u32 invalid_target_reason
| VE_MissingControlFlowOperand operand_format
| VE_UnsupportedOpcodeSemantics unsupported_feature
| VE_OpcodeNotAllowedForFunctionKind function_kind function_kind_requirement
| VE_StackEffect stack_effect_error
| VE_StackUnderflow u32 u32
| VE_StackLimitExceeded nat u32
| VE_InconsistentStackAtJoin bytecode_pc u32 u32 bytecode_pc
| VE_NonEmptyCompilerExitStack u32
| VE_SerializedStackSizeMismatch u32 u32

datatype function_path = ROOT

record verification_error =
  ve_function_path :: function_path
  ve_pc :: "bytecode_pc option"
  ve_opcode :: "final_opcode option"
  ve_kind :: verification_error_kind

definition error_root :: "verification_error_kind \<Rightarrow> verification_error" where
  "error_root kind = \<lparr>ve_function_path = ROOT, ve_pc = None, ve_opcode = None, ve_kind = kind\<rparr>"

definition error_at_instruction :: "decoded_instruction \<Rightarrow> verification_error_kind \<Rightarrow> verification_error" where
  "error_at_instruction d kind =
     \<lparr>ve_function_path = ROOT, ve_pc = Some (d_pc d), ve_opcode = Some (i_opcode (d_instruction d)),
      ve_kind = kind\<rparr>"

primrec decode_error_location :: "decode_error \<Rightarrow> bytecode_pc \<times> final_opcode option" where
  "decode_error_location (PcNotRepresentable p) = (p, None)"
| "decode_error_location (PcOutOfBounds p _) = (p, None)"
| "decode_error_location (MissingOpcode p _ _) = (p, None)"
| "decode_error_location (InvalidOpcode p _ _) = (p, None)"
| "decode_error_location (TruncatedOperands p op _ _) = (p, Some op)"
| "decode_error_location (OperandDecoding p op _) = (p, Some op)"
| "decode_error_location (NextPcOverflow p _) = (p, None)"

definition error_from_decode :: "decode_error \<Rightarrow> verification_error" where
  "error_from_decode source =
     (case decode_error_location source of
        (p, op) \<Rightarrow> \<lparr>ve_function_path = ROOT, ve_pc = Some p, ve_opcode = op, ve_kind = VE_Decode source\<rparr>)"

type_synonym 'a verified = "(verification_error, 'a) result"

section \<open>Limits, counts and the header\<close>

definition check_structural_count :: "function_count_domain \<Rightarrow> u32 \<Rightarrow> unit verified" where
  "check_structural_count domain v =
     err_if (MAX_FUNCTION_INDEX_ENTRIES < v)
       (error_root (VE_MetadataCountOutOfRange domain v MAX_FUNCTION_INDEX_ENTRIES))"

definition check_limit :: "verification_resource \<Rightarrow> nat \<Rightarrow> nat \<Rightarrow> unit verified" where
  "check_limit resource observed limit =
     err_if (limit < observed) (error_root (VE_LimitExceeded resource limit observed))"

definition validate_limits_and_counts ::
  "usize \<Rightarrow> function_index_domains \<Rightarrow> unverified_function_header \<Rightarrow> u32 option \<Rightarrow>
     verification_limits \<Rightarrow> unit verified" where
  "validate_limits_and_counts bytecode_len domains header expected_stack_size limits =
     and_then (err_if (MAX_OPERAND_STACK_DEPTH < max_stack_depth limits)
                 (error_root (VE_InvalidStackLimit (max_stack_depth limits) MAX_OPERAND_STACK_DEPTH))) (\<lambda>_.
     and_then (check_limit BytecodeBytes bytecode_len (unat (max_bytecode_bytes_per_function limits))) (\<lambda>_.
     and_then (check_limit Constants (unat (constant_pool_len domains))
                 (unat (max_constants_per_function limits))) (\<lambda>_.
     and_then (check_limit AtomPoolEntries (unat (atom_pool_len domains))
                 (unat (max_atom_pool_entries limits))) (\<lambda>_.
     and_then (check_structural_count Cnt_Arguments (argument_count domains)) (\<lambda>_.
     and_then (check_structural_count Cnt_Locals (local_count domains)) (\<lambda>_.
     and_then (check_structural_count Cnt_VariableReferences (uh_variable_reference_count header)) (\<lambda>_.
     and_then (check_structural_count Cnt_ClosureVariables (closure_var_count domains)) (\<lambda>_.
       case expected_stack_size of
         None \<Rightarrow> Inr ()
       | Some expected \<Rightarrow>
           and_then (check_structural_count Cnt_ExpectedStackSize expected) (\<lambda>_.
           check_limit StackDepth (unat expected) (unat (max_stack_depth limits)))))))))))"

definition validate_function_header ::
  "unverified_function_header \<Rightarrow> function_index_domains \<Rightarrow> verified_function_header verified" where
  "validate_function_header header domains =
     (let serialized_flags = uh_serialized_flags header;
          unknown_flags = serialized_flags AND NOT SERIALIZED_FUNCTION_FLAGS_MASK;
          js_mode = uh_js_mode header;
          unknown_mode = js_mode AND NOT JS_MODE_MASK;
          defined = uh_defined_argument_count header;
          references = uh_variable_reference_count header;
          kind = from_serialized_flags serialized_flags;
          invalid_flag =
            (if has_prototype serialized_flags then Some HasPrototype
             else if is_derived_class_constructor serialized_flags then Some DerivedClassConstructor
             else None)
      in and_then (err_if (unknown_flags \<noteq> 0)
             (error_root (VE_DisallowedFunctionBits SerializedFlags serialized_flags
                SERIALIZED_FUNCTION_FLAGS_MASK unknown_flags))) (\<lambda>_.
         and_then (err_if (unknown_mode \<noteq> 0)
             (error_root (VE_DisallowedFunctionBits JsMode (ucast js_mode) (ucast JS_MODE_MASK)
                (ucast unknown_mode)))) (\<lambda>_.
         and_then (err_if (argument_count domains < defined)
             (error_root (VE_DefinedArgumentCountOutOfRange defined (argument_count domains)))) (\<lambda>_.
         and_then (err_if (unat (argument_count domains) + unat (local_count domains) < unat references)
             (error_root (VE_VariableReferenceCountOutOfRange references (argument_count domains)
                (local_count domains)))) (\<lambda>_.
         and_then (err_if (has_prototype serialized_flags \<and> is_derived_class_constructor serialized_flags)
             (error_root (VE_ConflictingFunctionFlags HasPrototype DerivedClassConstructor))) (\<lambda>_.
         and_then
           (if kind \<noteq> Kind_Normal
            then (case invalid_flag of
                    None \<Rightarrow> Inr ()
                  | Some flag \<Rightarrow> Inl (error_root (VE_FunctionFlagNotAllowedForKind flag kind Req_Normal)))
            else Inr ()) (\<lambda>_.
           Inr \<lparr>vh_flags = serialized_flags, vh_mode = js_mode, vh_kind = kind,
                vh_defined_argument_count = defined, vh_variable_reference_count = references\<rparr>)))))))"

section \<open>Compiler layouts\<close>

definition validate_compiler_constant_layout ::
  "compiler_constant_layout \<Rightarrow> function_index_domains \<Rightarrow> compiler_constant_layout verified" where
  "validate_compiler_constant_layout layout domains =
     (let entries = length (ccl_kinds layout)
      in if entries \<noteq> unat (constant_pool_len domains)
         then Inl (error_root (VE_CompilerConstantCountMismatch (constant_pool_len domains) entries))
         else Inr layout)"

record validated_capture_layout =
  vcl_layout :: compiler_capture_layout
  vcl_bindings_by_identity :: "captured_binding_identity \<Rightarrow> compiler_captured_binding option"

definition is_scoped_local :: "validated_capture_layout \<Rightarrow> u32 \<Rightarrow> bool" where
  "is_scoped_local v local =
     (case vcl_bindings_by_identity v (Id_Local local) of
        Some (Cap_ScopedLocal _) \<Rightarrow> True
      | _ \<Rightarrow> False)"

definition check_captured_binding :: "function_index_domains \<Rightarrow> compiler_captured_binding \<Rightarrow> unit verified" where
  "check_captured_binding domains binding =
     (let (index, len) =
            (case binding of
               Cap_Argument i \<Rightarrow> (i, argument_count domains)
             | Cap_FunctionLocal i \<Rightarrow> (i, local_count domains)
             | Cap_ScopedLocal i \<Rightarrow> (i, local_count domains))
      in err_if (len \<le> index) (error_root (VE_CompilerCaptureIndexOutOfBounds binding len)))"

text \<open>The loop over the mapped arguments, with \<open>previous\<close> as its accumulator.\<close>

fun check_mapped_arguments :: "function_index_domains \<Rightarrow> u32 option \<Rightarrow> u32 list \<Rightarrow> unit verified" where
  "check_mapped_arguments domains previous [] = Inr ()"
| "check_mapped_arguments domains previous (index # rest) =
     (if argument_count domains \<le> index
      then Inl (error_root (VE_CompilerMappedArgumentIndexOutOfBounds index (argument_count domains)))
      else case previous of
             None \<Rightarrow> check_mapped_arguments domains (Some index) rest
           | Some p \<Rightarrow>
               (if index \<le> p then Inl (error_root (VE_CompilerMappedArgumentsNotAscending p index))
                else check_mapped_arguments domains (Some index) rest))"

text \<open>The loop that fills the hash map and rejects a second insertion under one identity.\<close>

fun insert_bindings ::
  "(captured_binding_identity \<Rightarrow> compiler_captured_binding option) \<Rightarrow> compiler_captured_binding list \<Rightarrow>
     (captured_binding_identity \<Rightarrow> compiler_captured_binding option) verified" where
  "insert_bindings m [] = Inr m"
| "insert_bindings m (b # bs) =
     (if m (binding_identity b) \<noteq> None then Inl (error_root (VE_DuplicateCompilerCapture b))
      else insert_bindings (m(binding_identity b \<mapsto> b)) bs)"

definition validate_compiler_capture_layout ::
  "allocator \<Rightarrow> compiler_capture_layout \<Rightarrow> function_index_domains \<Rightarrow> verified_function_header \<Rightarrow>
     validated_capture_layout verified" where
  "validate_compiler_capture_layout alloc layout domains header =
     (let capture_count = length (ccl_bindings layout)
      in and_then (err_if (capture_count \<noteq> unat (vh_variable_reference_count header))
             (error_root (VE_CompilerCaptureCountMismatch (vh_variable_reference_count header) capture_count))) (\<lambda>_.
         and_then (try_for_each (check_captured_binding domains) (ccl_bindings layout)) (\<lambda>_.
         and_then (case ccl_mapped_arguments layout of
                     None \<Rightarrow> Inr ()
                   | Some mapped \<Rightarrow> check_mapped_arguments domains None mapped) (\<lambda>_.
         and_then (err_if (\<not> alloc 0 capture_count)
             (error_root (VE_AllocationFailed CompilerCaptures capture_count))) (\<lambda>_.
         and_then (insert_bindings Map.empty (ccl_bindings layout)) (\<lambda>m.
           Inr \<lparr>vcl_layout = layout, vcl_bindings_by_identity = m\<rparr>))))))"

section \<open>What the header stage accepts\<close>

lemma and_NOT_mask_eq_0: "(x :: 'a::len word) AND NOT m = 0 \<longleftrightarrow> (\<forall>n. bit x n \<longrightarrow> bit m n)"
proof
  assume eq: "x AND NOT m = 0"
  show "\<forall>n. bit x n \<longrightarrow> bit m n"
  proof (intro allI impI)
    fix n assume b: "bit x n"
    have "\<not> bit (x AND NOT m) n" using eq by simp
    then show "bit m n" using b bit_imp_le_length [OF b] by (simp add: bit_simps)
  qed
next
  assume "\<forall>n. bit x n \<longrightarrow> bit m n"
  then show "x AND NOT m = 0" by (auto intro!: bit_word_eqI simp: bit_simps)
qed

lemma flags_in_mask:
  "(f :: u16) AND NOT SERIALIZED_FUNCTION_FLAGS_MASK = 0 \<longleftrightarrow> \<not> bit f 13 \<and> \<not> bit f 14 \<and> \<not> bit f 15"
proof -
  have m: "bit SERIALIZED_FUNCTION_FLAGS_MASK n \<longleftrightarrow> n < 13" for n
  proof -
    have e: "SERIALIZED_FUNCTION_FLAGS_MASK = mask 13"
      by (simp add: SERIALIZED_FUNCTION_FLAGS_MASK_def mask_eq_exp_minus_1)
    show ?thesis unfolding e bit_mask_iff by auto
  qed
  have "(\<forall>n. bit f n \<longrightarrow> n < 13) \<longleftrightarrow> \<not> bit f 13 \<and> \<not> bit f 14 \<and> \<not> bit f 15" (is "?L \<longleftrightarrow> ?R")
  proof
    assume R: ?R
    show ?L
    proof (intro allI impI)
      fix n assume b: "bit f n"
      then have "n < 16" using bit_imp_le_length [OF b] by simp
      moreover have "n \<noteq> 13" "n \<noteq> 14" "n \<noteq> 15" using R b by auto
      ultimately show "n < 13" by simp
    qed
  qed auto
  then show ?thesis by (simp add: and_NOT_mask_eq_0 m)
qed

lemma mode_in_mask: "(m :: u8) AND NOT JS_MODE_MASK = 0 \<longleftrightarrow> m = 0 \<or> m = 1"
proof
  assume "m AND NOT JS_MODE_MASK = 0"
  then have "\<forall>n. bit m n \<longrightarrow> bit JS_MODE_MASK n" by (simp only: and_NOT_mask_eq_0)
  then have b: "bit m n \<Longrightarrow> n = 0" for n by (simp add: JS_MODE_MASK_def bit_1_iff)
  show "m = 0 \<or> m = 1"
  proof (cases "bit m 0")
    case True
    then have "m = 1" using b by (auto intro!: bit_word_eqI simp: bit_1_iff)
    then show ?thesis by simp
  next
    case False
    then have "m = 0" using b by (auto intro!: bit_word_eqI)
    then show ?thesis by simp
  qed
qed (auto simp: JS_MODE_MASK_def)

text \<open>
  Header validation accepts exactly the well-formed headers and changes nothing:
  no bit outside the thirteen defined ones, mode zero or one, at most as many defined
  arguments as arguments, at most as many variable references as bindings; never both a
  prototype and the derived-constructor flag, and neither of the two unless the function
  kind is normal. The result carries the same flags, mode and counts and the kind encoded
  in bits four and five.
\<close>

theorem validate_function_header_exact:
  "validate_function_header h domains = Inr v \<longleftrightarrow>
     (let f = uh_serialized_flags h in
       \<not> bit f 13 \<and> \<not> bit f 14 \<and> \<not> bit f 15 \<and> (uh_js_mode h = 0 \<or> uh_js_mode h = 1) \<and>
       uh_defined_argument_count h \<le> argument_count domains \<and>
       unat (uh_variable_reference_count h) \<le> unat (argument_count domains) + unat (local_count domains) \<and>
       \<not> (bit f 0 \<and> bit f 2) \<and> \<not> ((bit f 4 \<or> bit f 5) \<and> (bit f 0 \<or> bit f 2)) \<and>
       v = \<lparr>vh_flags = f, vh_mode = uh_js_mode h,
            vh_kind = (if bit f 5 then if bit f 4 then Kind_AsyncGenerator else Kind_Async
                       else if bit f 4 then Kind_Generator else Kind_Normal),
            vh_defined_argument_count = uh_defined_argument_count h,
            vh_variable_reference_count = uh_variable_reference_count h\<rparr>)"
  by (auto simp: validate_function_header_def Let_def flags_in_mask mode_in_mask has_prototype_def
      is_derived_class_constructor_def flags_has_bit_iff kind_from_bits not_less split: if_splits)

text \<open>The header forms the compiler emits, with the kind each must validate to.\<close>

definition compiler_headers :: "bool \<Rightarrow> u32 \<Rightarrow> u32 \<Rightarrow> direct_eval_capabilities \<Rightarrow>
    (unverified_function_header \<times> function_kind) list" where
  "compiler_headers strict defined references caps =
     [(stripped_ordinary_source_function_with_variable_references strict defined references, Kind_Normal),
      (ordinary_source_function_with_variable_references strict defined references, Kind_Normal),
      (ordinary_arrow_with_variable_references strict defined references, Kind_Normal),
      (async_arrow_with_variable_references strict defined references, Kind_Async),
      (ordinary_method_with_variable_references strict defined references, Kind_Normal),
      (class_constructor_with_variable_references strict defined references, Kind_Normal),
      (derived_class_constructor_with_variable_references strict defined references, Kind_Normal),
      (generator_source_function_with_variable_references strict defined references, Kind_Generator),
      (generator_method_with_variable_references strict defined references, Kind_Generator),
      (async_source_function_with_variable_references strict defined references, Kind_Async),
      (async_method_with_variable_references strict defined references, Kind_Async),
      (async_generator_source_function_with_variable_references strict defined references, Kind_AsyncGenerator),
      (async_generator_method_with_variable_references strict defined references, Kind_AsyncGenerator),
      (global_script strict references, Kind_Normal),
      (dynamic_function_script references, Kind_Normal),
      (module_header references, Kind_Normal),
      (async_module references, Kind_Async),
      (direct_eval_script strict references caps, Kind_Normal)]"

lemmas header_constructors =
  stripped_ordinary_source_function_with_variable_references_def
  ordinary_source_function_with_variable_references_def ordinary_arrow_with_variable_references_def
  async_arrow_with_variable_references_def ordinary_method_with_variable_references_def
  class_constructor_with_variable_references_def derived_class_constructor_with_variable_references_def
  generator_source_function_with_variable_references_def generator_method_with_variable_references_def
  async_source_function_with_variable_references_def async_method_with_variable_references_def
  async_generator_source_function_with_variable_references_def
  async_generator_method_with_variable_references_def global_script_def dynamic_function_script_def
  module_header_def async_module_def

text \<open>
  Every header constructor of the compiler passes validation, whatever the flags
  it combines, as long as the argument and reference counts fit the frame; and it
  validates to the kind its source form has.
\<close>

theorem compiler_headers_validate:
  assumes "defined \<le> argument_count domains"
    and "unat references \<le> unat (argument_count domains) + unat (local_count domains)"
  shows "list_all (\<lambda>(h, k). \<exists>v. validate_function_header h domains = Inr v \<and> vh_kind v = k)
           (compiler_headers strict defined references caps)"
proof -
  have m: "strict_mode strict = 0 \<or> strict_mode strict = 1" by (simp add: strict_mode_def)
  have v: "\<exists>v. validate_function_header (function_header_new f mode d references) domains = Inr v \<and> vh_kind v = k"
    if "f AND NOT SERIALIZED_FUNCTION_FLAGS_MASK = 0" "mode = 0 \<or> mode = 1" "d \<le> argument_count domains"
      "\<not> (bit f 0 \<and> bit f 2)" "from_serialized_flags f = k" "k \<noteq> Kind_Normal \<Longrightarrow> \<not> bit f 0 \<and> \<not> bit f 2"
    for f mode d k
    using that assms(2)
    by (auto simp: validate_function_header_def Let_def mode_in_mask has_prototype_def function_header_new_def
      is_derived_class_constructor_def flags_has_bit_iff not_less)
  have eval: "\<exists>v. validate_function_header (direct_eval_script strict references caps) domains = Inr v \<and>
      vh_kind v = Kind_Normal"
    unfolding direct_eval_script_def Let_def
    by (rule v) (auto simp: header_flag_consts strict_mode_def from_serialized_flags_def)
  show ?thesis
    unfolding compiler_headers_def list.pred_inject(2) prod.case header_constructors
    by (intro conjI eval list.pred_inject(1); rule v)
       (auto simp: header_flag_consts strict_mode_def from_serialized_flags_def assms(1))
qed


theorem compiler_headers_validate_witness:
  "list_all (\<lambda>(h, k). \<exists>v. validate_function_header h
       \<lparr>atom_pool_len = 0, constant_pool_len = 0, argument_count = 2, local_count = 1, closure_var_count = 0\<rparr> =
          Inr v \<and> vh_kind v = k)
     (compiler_headers True 2 3 7)"
  using compiler_headers_validate [of 2 "\<lparr>atom_pool_len = 0, constant_pool_len = 0, argument_count = 2,
      local_count = 1, closure_var_count = 0\<rparr>" 3 True 7] by simp

section \<open>What the layout stage accepts\<close>

definition binding_in_frame :: "function_index_domains \<Rightarrow> compiler_captured_binding \<Rightarrow> bool" where
  "binding_in_frame domains b =
     (case b of
        Cap_Argument i \<Rightarrow> i < argument_count domains
      | Cap_FunctionLocal i \<Rightarrow> i < local_count domains
      | Cap_ScopedLocal i \<Rightarrow> i < local_count domains)"

lemma check_captured_binding_iff: "check_captured_binding domains b = Inr u \<longleftrightarrow> binding_in_frame domains b"
  by (cases b) (auto simp: check_captured_binding_def binding_in_frame_def not_le)

lemma check_mapped_arguments_iff:
  "check_mapped_arguments domains previous xs = Inr u \<longleftrightarrow>
     sorted_wrt (<) (case previous of None \<Rightarrow> xs | Some p \<Rightarrow> p # xs) \<and>
     list_all (\<lambda>i. i < argument_count domains) xs"
proof (induction domains previous xs rule: check_mapped_arguments.induct)
  case (2 domains previous index rest)
  then show ?case
    by (cases previous) (auto simp: not_le not_less intro: less_trans)
qed (auto split: option.splits)

lemma insert_bindings_iff:
  "insert_bindings m bs = Inr m' \<longleftrightarrow>
     distinct (map binding_identity bs) \<and> (\<forall>b \<in> set bs. m (binding_identity b) = None) \<and>
     m' = m ++ map_of (map (\<lambda>b. (binding_identity b, b)) bs)"
proof (induction bs arbitrary: m)
  case (Cons b bs)
  let ?L = "map (\<lambda>b. (binding_identity b, b)) bs"
  let ?k = "binding_identity b"
  have ext: "m(?k \<mapsto> b) ++ map_of ?L = m ++ (map_of ?L)(?k \<mapsto> b)" if "?k \<notin> binding_identity ` set bs"
  proof -
    have "map_of ?L ?k = None" using that by (simp add: map_of_eq_None_iff image_image)
    then show ?thesis by (intro ext) (simp add: map_add_def split: option.splits)
  qed
  have fresh: "(\<forall>c \<in> set bs. (m(?k \<mapsto> b)) (binding_identity c) = None) \<longleftrightarrow>
      ?k \<notin> binding_identity ` set bs \<and> (\<forall>c \<in> set bs. m (binding_identity c) = None)"
    by (auto simp: image_iff split: if_splits)
  have "insert_bindings m (b # bs) = Inr m' \<longleftrightarrow> m ?k = None \<and> insert_bindings (m(?k \<mapsto> b)) bs = Inr m'"
    by simp
  also have "\<dots> \<longleftrightarrow> m ?k = None \<and> distinct (map binding_identity bs) \<and>
      (?k \<notin> binding_identity ` set bs \<and> (\<forall>c \<in> set bs. m (binding_identity c) = None)) \<and>
      m' = m(?k \<mapsto> b) ++ map_of ?L"
    by (simp only: Cons.IH fresh)
  also have "\<dots> \<longleftrightarrow> m ?k = None \<and> distinct (map binding_identity bs) \<and>
      (?k \<notin> binding_identity ` set bs \<and> (\<forall>c \<in> set bs. m (binding_identity c) = None)) \<and>
      m' = m ++ (map_of ?L)(?k \<mapsto> b)"
    using ext by (intro conj_cong refl) simp
  finally show ?case by (simp only: list.map map_of.simps fst_conv snd_conv distinct.simps
      list.set set_map ball_simps insert_iff) blast
qed auto

text \<open>
  Capture-layout validation accepts exactly the layouts in which every declared
  variable reference has one binding, every binding lies in its frame domain, no two
  bindings are the same argument or local, and the mapped arguments are strictly
  ascending argument positions. The map it builds sends each identity to its binding.
\<close>

theorem validate_capture_layout_exact:
  "validate_compiler_capture_layout alloc l domains h = Inr v \<longleftrightarrow>
     length (ccl_bindings l) = unat (vh_variable_reference_count h) \<and>
     list_all (binding_in_frame domains) (ccl_bindings l) \<and>
     (case ccl_mapped_arguments l of
        None \<Rightarrow> True
      | Some xs \<Rightarrow> sorted_wrt (<) xs \<and> list_all (\<lambda>i. i < argument_count domains) xs) \<and>
     alloc 0 (length (ccl_bindings l)) \<and> distinct (map binding_identity (ccl_bindings l)) \<and>
     v = \<lparr>vcl_layout = l,
          vcl_bindings_by_identity = map_of (map (\<lambda>b. (binding_identity b, b)) (ccl_bindings l))\<rparr>"
  by (auto simp: validate_compiler_capture_layout_def Let_def check_captured_binding_iff insert_bindings_iff
      check_mapped_arguments_iff list_all_iff split: option.splits)

lemma is_scoped_local_iff:
  assumes "validate_compiler_capture_layout alloc l domains h = Inr v"
  shows "is_scoped_local v i \<longleftrightarrow> Cap_ScopedLocal i \<in> set (ccl_bindings l)"
proof -
  let ?L = "map (\<lambda>b. (binding_identity b, b)) (ccl_bindings l)"
  have v: "vcl_bindings_by_identity v = map_of ?L" and d: "distinct (map fst ?L)"
    using assms by (auto simp: validate_compiler_capture_layout_def Let_def insert_bindings_iff comp_def)
  have lookup: "map_of ?L (Id_Local i) = Some b \<longleftrightarrow> b \<in> set (ccl_bindings l) \<and> binding_identity b = Id_Local i" for b
    using d by (auto simp: map_of_eq_Some_iff image_iff)
  have "is_scoped_local v i \<longleftrightarrow> (\<exists>j. map_of ?L (Id_Local i) = Some (Cap_ScopedLocal j))"
    unfolding is_scoped_local_def v by (simp split: option.split compiler_captured_binding.split)
  then show ?thesis unfolding lookup by auto
qed

lemma validate_limits_and_counts_iff:
  "validate_limits_and_counts n domains h expected limits = Inr () \<longleftrightarrow>
     max_stack_depth limits \<le> 65534 \<and> n \<le> unat (max_bytecode_bytes_per_function limits) \<and>
     constant_pool_len domains \<le> max_constants_per_function limits \<and>
     atom_pool_len domains \<le> max_atom_pool_entries limits \<and>
     argument_count domains \<le> 65534 \<and> local_count domains \<le> 65534 \<and>
     uh_variable_reference_count h \<le> 65534 \<and> closure_var_count domains \<le> 65534 \<and>
     (case expected of None \<Rightarrow> True | Some e \<Rightarrow> e \<le> 65534 \<and> e \<le> max_stack_depth limits)"
  unfolding validate_limits_and_counts_def check_limit_def check_structural_count_def
    MAX_OPERAND_STACK_DEPTH_def MAX_FUNCTION_INDEX_ENTRIES_def and_then_eq_Inr err_if_eq_Inr not_less
  by (cases expected) (simp_all only: option.case and_then_eq_Inr err_if_eq_Inr word_le_nat_alt not_less simp_thms ex_simps)

end
