(* ===== verification/Verifier_Static.thy ===== *)
theory Verifier_Static
  imports Verifier_Header
begin

text \<open>
  The structural stages of the verifier, from \<^verbatim>\<open>crates/fusor-bytecode/src/verifier/\<close>:
  complete predecoding with its instruction-boundary bitmap (\<^verbatim>\<open>predecode.rs\<close>), target
  resolution (\<^verbatim>\<open>targets.rs\<close>), operand validation (\<^verbatim>\<open>operands.rs\<close>), the capability
  partition of the opcodes (\<^verbatim>\<open>opcode_semantics.rs\<close>) and static control flow
  (\<^verbatim>\<open>static_control_flow.rs\<close>).
\<close>

section \<open>Predecoding\<close>

record predecoded_body =
  pb_instructions :: "decoded_instruction list"
  pb_bitmap :: "u64 list"

text \<open>
  \<^verbatim>\<open>allocate_boundary_bitmap\<close>. The addition of 63 cannot overflow a 64-bit \<open>usize\<close> for a
  slice length, so only the reservation can fail.
\<close>

definition allocate_boundary_bitmap :: "allocator \<Rightarrow> usize \<Rightarrow> u64 list verified" where
  "allocate_boundary_bitmap alloc bytecode_len =
     (let word_count = (bytecode_len + 63) div 64
      in if alloc 0 word_count then Inr (replicate word_count 0)
         else Inl (error_root (VE_AllocationFailed InstructionBoundaryWords word_count)))"

definition mark_instruction_start :: "u64 list \<Rightarrow> usize \<Rightarrow> bytecode_pc \<Rightarrow> u64 list verified" where
  "mark_instruction_start bitmap bytecode_len p =
     (let offset = unat p; i = offset div 64
      in case get bitmap i of
           None \<Rightarrow> Inl (error_from_decode (PcOutOfBounds p bytecode_len))
         | Some w \<Rightarrow> Inr (bitmap[i := w OR push_bit (offset mod 64) 1]))"

definition is_instruction_start :: "u64 list \<Rightarrow> usize \<Rightarrow> bytecode_pc \<Rightarrow> bool" where
  "is_instruction_start bitmap bytecode_len p =
     (let offset = unat p
      in if bytecode_len \<le> offset then False
         else case get bitmap (offset div 64) of
                None \<Rightarrow> False
              | Some w \<Rightarrow> w AND push_bit (offset mod 64) 1 \<noteq> 0)"

text \<open>
  The loop of \<^verbatim>\<open>predecode_complete\<close> over the decoder: \<open>instructions\<close> and \<open>bitmap\<close> are the
  vectors built so far.
\<close>

function predecode_loop ::
  "allocator \<Rightarrow> u32 \<Rightarrow> instruction_decoder \<Rightarrow> decoded_instruction list \<Rightarrow> u64 list \<Rightarrow>
     predecoded_body verified" where
  "predecode_loop alloc max_instructions stream instructions bitmap =
     (case decoder_next stream of
        (None, _) \<Rightarrow> Inr \<lparr>pb_instructions = instructions, pb_bitmap = bitmap\<rparr>
      | (Some (Inl e), _) \<Rightarrow> Inl (error_from_decode e)
      | (Some (Inr decoded), stream') \<Rightarrow>
          (let observed = length instructions + 1
           in if unat max_instructions < observed
              then Inl (error_at_instruction decoded
                          (VE_LimitExceeded Instructions (unat max_instructions) observed))
              else and_then (mark_instruction_start bitmap (length (dec_bytecode stream)) (d_pc decoded))
                    (\<lambda>bitmap'.
                       if alloc (length instructions) 1
                       then predecode_loop alloc max_instructions stream' (instructions @ [decoded]) bitmap'
                       else Inl (error_at_instruction decoded (VE_AllocationFailed Instructions 1)))))"
  by pat_completeness auto
termination
  by (relation "measure (\<lambda>(_, _, d, _, _). length (dec_bytecode d) - unat (dec_next_pc d))")
     (auto simp: decoder_next_def split: if_splits sum.splits dest: decode_instruction_shrinks)

declare predecode_loop.simps [simp del]

definition predecode_complete :: "allocator \<Rightarrow> u8 list \<Rightarrow> u32 \<Rightarrow> predecoded_body verified" where
  "predecode_complete alloc bytecode max_instructions =
     and_then (allocate_boundary_bitmap alloc (length bytecode))
       (\<lambda>bitmap. predecode_loop alloc max_instructions (instruction_decoder_new bytecode) [] bitmap)"

section \<open>Targets\<close>

type_synonym instruction_index = u32

definition require_encoded_target ::
  "decoded_instruction \<Rightarrow> instruction_index option \<Rightarrow> instruction_index verified" where
  "require_encoded_target decoded target =
     ok_or target (error_at_instruction decoded
       (VE_MissingControlFlowOperand (operand_format (metadata (i_opcode (d_instruction decoded))))))"

definition decoded_instruction_index_at ::
  "decoded_instruction list \<Rightarrow> u64 list \<Rightarrow> usize \<Rightarrow> bytecode_pc \<Rightarrow> instruction_index option" where
  "decoded_instruction_index_at instructions bitmap bytecode_len p =
     (if \<not> is_instruction_start bitmap bytecode_len p then None
      else case binary_search_by_key d_pc p instructions of
             None \<Rightarrow> None
           | Some index \<Rightarrow> u32_try_from index)"

definition resolve_target ::
  "decoded_instruction \<Rightarrow> control_flow_edge \<Rightarrow> int \<Rightarrow> decoded_instruction list \<Rightarrow> u64 list \<Rightarrow> usize \<Rightarrow>
     instruction_index verified" where
  "resolve_target decoded edge target instructions bitmap bytecode_len =
     (let invalid = (\<lambda>len reason. error_at_instruction decoded
                       (VE_InvalidControlFlowTarget edge target len reason))
      in and_then (ok_or (u32_try_from bytecode_len)
                    (error_root (VE_LimitExceeded BytecodeBytes (2 ^ 32 - 1) bytecode_len)))
           (\<lambda>len.
              if target < 0 \<or> uint len \<le> target then Inl (invalid len OutsideBytecode)
              else if i_opcode (d_instruction decoded) = Op_Catch \<and> target = 0
              then Inl (invalid len CatchTargetZero)
              else ok_or (decoded_instruction_index_at instructions bitmap bytecode_len (word_of_int target))
                     (invalid len NotInstructionBoundary)))"

text \<open>
  \<^verbatim>\<open>relative_target_spec\<close>: the edge kind, the distance of the target base from the
  instruction and the signed displacement.
\<close>

definition relative_target_spec ::
  "decoded_instruction \<Rightarrow> (control_flow_edge \<times> int \<times> int) option verified" where
  "relative_target_spec decoded =
     (let op = i_opcode (d_instruction decoded); o1 = i_operands (d_instruction decoded);
          missing = (\<lambda>expected. Inl (error_at_instruction decoded (VE_MissingControlFlowOperand expected)));
          label8 = (\<lambda>edge. case o1 of Opd_Label8 v \<Rightarrow> Inr (Some (edge, 1, sint v)) | _ \<Rightarrow> missing Fmt_Label8);
          label16 = (\<lambda>edge. case o1 of Opd_Label16 v \<Rightarrow> Inr (Some (edge, 1, sint v)) | _ \<Rightarrow> missing Fmt_Label16);
          label = (\<lambda>edge. case o1 of Opd_Label v \<Rightarrow> Inr (Some (edge, 1, sint v)) | _ \<Rightarrow> missing Fmt_Label)
      in if op \<in> {Op_IfFalse8, Op_IfTrue8} then label8 Edge_Branch
         else if op \<in> {Op_IfFalse, Op_IfTrue} then label Edge_Branch
         else if op = Op_Goto8 then label8 Edge_Jump
         else if op = Op_Goto16 then label16 Edge_Jump
         else if op = Op_Goto then label Edge_Jump
         else if op = Op_Catch then label Edge_CatchHandler
         else if op = Op_Gosub then label Edge_FinallySubroutine
         else if op \<in> {Op_WithGetVar, Op_WithPutVar, Op_WithDeleteVar, Op_WithMakeRef, Op_WithGetRef}
         then (case o1 of
                 Opd_AtomLabelU8 _ l _ \<Rightarrow> Inr (Some (Edge_WithBinding, 5, sint l))
               | _ \<Rightarrow> missing Fmt_AtomLabelU8)
         else Inr None)"

text \<open>
  \<^verbatim>\<open>resolve_relative_target\<close>. The two \<open>i64\<close> additions stay far inside the \<open>i64\<close> range for
  a \<open>u32\<close> position and an \<open>i32\<close> displacement; the checks are kept.
\<close>

definition i64_checked_add :: "int \<Rightarrow> int \<Rightarrow> int option" where
  "i64_checked_add a b = (if - (2 ^ 63) \<le> a + b \<and> a + b < 2 ^ 63 then Some (a + b) else None)"

definition resolve_relative_target ::
  "decoded_instruction \<Rightarrow> decoded_instruction list \<Rightarrow> u64 list \<Rightarrow> usize \<Rightarrow>
     instruction_index option verified" where
  "resolve_relative_target decoded instructions bitmap bytecode_len =
     and_then (relative_target_spec decoded)
       (\<lambda>spec. case spec of
          None \<Rightarrow> Inr None
        | Some (edge, base_delta, displacement) \<Rightarrow>
            (let p = uint (d_pc decoded)
             in and_then (ok_or (i64_checked_add p base_delta)
                           (error_at_instruction decoded (VE_ControlFlowTargetOverflow edge p base_delta)))
                 (\<lambda>base. and_then (ok_or (i64_checked_add base displacement)
                           (error_at_instruction decoded (VE_ControlFlowTargetOverflow edge base displacement)))
                 (\<lambda>target. and_then (resolve_target decoded edge target instructions bitmap bytecode_len)
                 (\<lambda>index. Inr (Some index))))))"

definition validate_gosub_continuation ::
  "decoded_instruction \<Rightarrow> decoded_instruction list \<Rightarrow> u64 list \<Rightarrow> usize \<Rightarrow> unit verified" where
  "validate_gosub_continuation decoded instructions bitmap bytecode_len =
     (if i_opcode (d_instruction decoded) \<noteq> Op_Gosub then Inr ()
      else and_then (resolve_target decoded Edge_FinallyContinuation (uint (d_next_pc decoded))
                       instructions bitmap bytecode_len) (\<lambda>_. Inr ()))"

definition resolve_fallthrough ::
  "decoded_instruction \<Rightarrow> decoded_instruction list \<Rightarrow> u64 list \<Rightarrow> usize \<Rightarrow> instruction_index verified" where
  "resolve_fallthrough decoded instructions bitmap bytecode_len =
     resolve_target decoded Edge_Fallthrough (uint (d_next_pc decoded)) instructions bitmap bytecode_len"

section \<open>Operands\<close>

definition validate_index ::
  "decoded_instruction \<Rightarrow> operand_index_domain \<Rightarrow> u32 \<Rightarrow> u32 \<Rightarrow> unit verified" where
  "validate_index decoded domain index len =
     err_if (len \<le> index) (error_at_instruction decoded (VE_IndexOutOfBounds domain index len))"

definition implied_local_index :: "final_opcode \<Rightarrow> u32 option" where
  "implied_local_index op =
     (if op \<in> {Op_GetLoc0, Op_PutLoc0, Op_SetLoc0} then Some 0
      else if op \<in> {Op_GetLoc1, Op_PutLoc1, Op_SetLoc1} then Some 1
      else if op \<in> {Op_GetLoc2, Op_PutLoc2, Op_SetLoc2} then Some 2
      else if op \<in> {Op_GetLoc3, Op_PutLoc3, Op_SetLoc3} then Some 3
      else None)"

definition implied_argument_index :: "final_opcode \<Rightarrow> u32 option" where
  "implied_argument_index op =
     (if op \<in> {Op_GetArg0, Op_PutArg0, Op_SetArg0} then Some 0
      else if op \<in> {Op_GetArg1, Op_PutArg1, Op_SetArg1} then Some 1
      else if op \<in> {Op_GetArg2, Op_PutArg2, Op_SetArg2} then Some 2
      else if op \<in> {Op_GetArg3, Op_PutArg3, Op_SetArg3} then Some 3
      else None)"

definition implied_closure_variable_index :: "final_opcode \<Rightarrow> u32 option" where
  "implied_closure_variable_index op =
     (if op \<in> {Op_GetVarRef0, Op_PutVarRef0, Op_SetVarRef0} then Some 0
      else if op \<in> {Op_GetVarRef1, Op_PutVarRef1, Op_SetVarRef1} then Some 1
      else if op \<in> {Op_GetVarRef2, Op_PutVarRef2, Op_SetVarRef2} then Some 2
      else if op \<in> {Op_GetVarRef3, Op_PutVarRef3, Op_SetVarRef3} then Some 3
      else None)"

definition validate_operand_indices ::
  "decoded_instruction \<Rightarrow> function_index_domains \<Rightarrow> unit verified" where
  "validate_operand_indices decoded domains =
     (let op = i_opcode (d_instruction decoded); o1 = i_operands (d_instruction decoded);
          check = validate_index decoded;
          implied = (\<lambda>index fmt domain len.
             and_then (ok_or index (error_at_instruction decoded (VE_MissingControlFlowOperand fmt)))
               (\<lambda>i. check domain i len))
      in and_then (case atom_pool_index o1 of
                     None \<Rightarrow> Inr ()
                   | Some index \<Rightarrow> check Dom_AtomPool index (atom_pool_len domains))
          (\<lambda>_. case o1 of
             Opd_Const index \<Rightarrow> check Dom_ConstantPool index (constant_pool_len domains)
           | Opd_Const8 index \<Rightarrow> check Dom_ConstantPool (ucast index) (constant_pool_len domains)
           | Opd_Loc index \<Rightarrow> check Dom_Local (ucast index) (local_count domains)
           | Opd_Loc8 index \<Rightarrow> check Dom_Local (ucast index) (local_count domains)
           | Opd_Arg index \<Rightarrow> check Dom_Argument (ucast index) (argument_count domains)
           | Opd_VarRef index \<Rightarrow> check Dom_ClosureVariable (ucast index) (closure_var_count domains)
           | Opd_AtomU16 _ v \<Rightarrow>
               (if op = Op_MakeLocRef then check Dom_Local (ucast v) (local_count domains)
                else if op = Op_MakeArgRef then check Dom_Argument (ucast v) (argument_count domains)
                else if op = Op_MakeVarRefRef then check Dom_ClosureVariable (ucast v) (closure_var_count domains)
                else Inr ())
           | Opd_NoneLoc \<Rightarrow> implied (implied_local_index op) Fmt_NoneLoc Dom_Local (local_count domains)
           | Opd_NoneArg \<Rightarrow> implied (implied_argument_index op) Fmt_NoneArg Dom_Argument (argument_count domains)
           | Opd_NoneVarRef \<Rightarrow>
               implied (implied_closure_variable_index op) Fmt_NoneVarRef Dom_ClosureVariable
                 (closure_var_count domains)
           | _ \<Rightarrow> Inr ()))"

definition validate_secondary_operands ::
  "decoded_instruction \<Rightarrow> function_index_domains \<Rightarrow> unit verified" where
  "validate_secondary_operands decoded domains =
     (let op = i_opcode (d_instruction decoded);
          invalid = (\<lambda>bad field v. err_if bad
             (error_at_instruction decoded (VE_InvalidSecondaryOperand field v)))
      in case i_operands (d_instruction decoded) of
           Opd_U8 v \<Rightarrow>
             (if op = Op_SpecialObject then invalid (6 < v) SpecialObjectKind (ucast v)
              else if op = Op_DefineMethodComputed
              then invalid (v AND NOT 7 \<noteq> 0 \<or> v AND 3 = 3) DefineMethodFlags (ucast v)
              else if op = Op_DefinePrivateField then invalid (3 < v) DefinePrivateFieldKind (ucast v)
              else if op = Op_IteratorCall then invalid (2 < v) IteratorCallFlags (ucast v)
              else Inr ())
         | Opd_U16 v \<Rightarrow>
             (if op = Op_Rest then invalid (argument_count domains < ucast v) RestFirstArgument (ucast v)
              else if op = Op_Apply then invalid (2 < v) ApplyMagic (ucast v)
              else Inr ())
         | Opd_AtomU8 _ v \<Rightarrow>
             (if op = Op_ThrowError then invalid (4 < v) ThrowErrorKind (ucast v)
              else if op = Op_DefineMethod
              then invalid (v AND NOT 7 \<noteq> 0 \<or> v AND 3 = 3) DefineMethodFlags (ucast v)
              else if op \<in> {Op_DefineClass, Op_DefineClassComputed}
              then invalid (3 < v) DefineClassFlags (ucast v)
              else Inr ())
         | Opd_AtomLabelU8 _ _ v \<Rightarrow>
             (if op \<in> {Op_WithGetVar, Op_WithPutVar, Op_WithDeleteVar, Op_WithMakeRef, Op_WithGetRef}
              then invalid (1 < v) IsWith (ucast v)
              else Inr ())
         | _ \<Rightarrow> Inr ())"

definition validate_compiler_constant_kind ::
  "decoded_instruction \<Rightarrow> compiler_constant_layout \<Rightarrow> unit verified" where
  "validate_compiler_constant_kind decoded layout =
     (let op = i_opcode (d_instruction decoded);
          missing = error_at_instruction decoded (VE_MissingControlFlowOperand (operand_format (metadata op)));
          request = (case i_operands (d_instruction decoded) of
              Opd_Const index \<Rightarrow>
                (if op = Op_PushConst then Inr (index, Const_Value)
                 else if op = Op_FClosure then Inr (index, Const_Function) else Inl missing)
            | Opd_Const8 index \<Rightarrow>
                (if op = Op_PushConst8 then Inr (ucast index, Const_Value)
                 else if op = Op_FClosure8 then Inr (ucast index, Const_Function) else Inl missing)
            | _ \<Rightarrow> Inl missing)
      in and_then request (\<lambda>(index, expected).
         and_then (ok_or (constant_kind layout index)
             (error_at_instruction decoded (VE_IndexOutOfBounds Dom_ConstantPool index
                (case u32_try_from (length (ccl_kinds layout)) of None \<Rightarrow> - 1 | Some n \<Rightarrow> n)))) (\<lambda>actual.
           if expected = Const_Value \<and> actual = Const_Function
           then Inl (error_at_instruction decoded (VE_UnsupportedOpcodeSemantics RawFunctionStack))
           else err_if (actual \<noteq> expected)
                  (error_at_instruction decoded (VE_CompilerConstantKindMismatch index expected actual)))))"

definition validate_compiler_close_loc ::
  "decoded_instruction \<Rightarrow> validated_capture_layout \<Rightarrow> unit verified" where
  "validate_compiler_close_loc decoded layout =
     (case i_operands (d_instruction decoded) of
        Opd_Loc local \<Rightarrow>
          err_if (\<not> is_scoped_local layout (ucast local))
            (error_at_instruction decoded (VE_CloseLocRequiresScopedCapture (ucast local)))
      | _ \<Rightarrow> Inl (error_at_instruction decoded (VE_MissingControlFlowOperand Fmt_Loc)))"

section \<open>The capability partition\<close>

datatype successor_shape = Shape_Fallthrough | Shape_Branch | Shape_Jump | Shape_Terminate

datatype opcode_semantics =
  Sem_Invalid | Sem_Ordinary | Sem_Conditional | Sem_Jump | Sem_Terminate
| Sem_Unsupported unsupported_feature successor_shape

primrec successor_shape_of :: "opcode_semantics \<Rightarrow> successor_shape option" where
  "successor_shape_of Sem_Invalid = None"
| "successor_shape_of Sem_Ordinary = Some Shape_Fallthrough"
| "successor_shape_of Sem_Conditional = Some Shape_Branch"
| "successor_shape_of Sem_Jump = Some Shape_Jump"
| "successor_shape_of Sem_Terminate = Some Shape_Terminate"
| "successor_shape_of (Sem_Unsupported _ shape) = Some shape"

text \<open>
  \<^verbatim>\<open>opcode_semantics\<close>. The source lists the ordinary opcodes one by one; they are exactly
  the remaining ones, so they are the default here.
\<close>

definition opcode_semantics_of :: "final_opcode \<Rightarrow> opcode_semantics" where
  "opcode_semantics_of op =
     (if op = Op_Invalid then Sem_Invalid
      else if op \<in> {Op_IfFalse, Op_IfTrue, Op_IfFalse8, Op_IfTrue8, Op_Catch, Op_Gosub, Op_WithGetVar,
                    Op_WithDeleteVar, Op_WithMakeRef, Op_WithGetRef} then Sem_Conditional
      else if op \<in> {Op_Goto, Op_Goto8, Op_Goto16} then Sem_Jump
      else if op \<in> {Op_TailCall, Op_TailCallMethod, Op_TailApply, Op_TailEval, Op_TailApplyEval, Op_Return,
                    Op_ReturnUndef, Op_ReturnAsync, Op_Throw, Op_ThrowError, Op_Ret} then Sem_Terminate
      else if op \<in> {Op_PushConst, Op_FClosure, Op_PushConst8, Op_FClosure8}
      then Sem_Unsupported ConstantPoolTyping Shape_Fallthrough
      else if op = Op_DefineClassComputed then Sem_Unsupported RawFunctionStack Shape_Fallthrough
      else if op \<in> {Op_Eval, Op_ApplyEval} then Sem_Unsupported EvalScopeMetadata Shape_Fallthrough
      else if op \<in> {Op_CloseLoc, Op_MakeLocRef, Op_MakeArgRef, Op_MakeVarRefRef, Op_MakeVarRef}
      then Sem_Unsupported CapturedBindingMetadata Shape_Fallthrough
      else if op = Op_WithPutVar then Sem_Unsupported WithEnvironmentBranches Shape_Branch
      else if op \<in> {Op_ForOfStart, Op_ForAwaitOfStart, Op_ForOfNext, Op_ForAwaitOfNext,
                    Op_IteratorGetValueDone, Op_IteratorClose, Op_IteratorNext, Op_IteratorCall}
      then Sem_Unsupported IteratorMarkers Shape_Fallthrough
      else if op = Op_CopyDataProperties then Sem_Unsupported PackedStackOffsets Shape_Fallthrough
      else Sem_Ordinary)"

section \<open>Static control flow\<close>

datatype verified_successors =
  Succ_Fallthrough instruction_index
| Succ_Branch instruction_index instruction_index
| Succ_Jump instruction_index
| Succ_Terminate

record verified_instruction =
  vi_decoded :: decoded_instruction
  vi_entry_stack_depth :: "u32 option"
  vi_successors :: verified_successors

text \<open>The accessors of \<^verbatim>\<open>VerifiedSuccessors\<close>.\<close>

definition succ_fallthrough :: "verified_successors \<Rightarrow> instruction_index option" where
  "succ_fallthrough s =
     (case s of Succ_Fallthrough i \<Rightarrow> Some i | Succ_Branch _ i \<Rightarrow> Some i | _ \<Rightarrow> None)"

definition succ_branch_target :: "verified_successors \<Rightarrow> instruction_index option" where
  "succ_branch_target s = (case s of Succ_Branch taken _ \<Rightarrow> Some taken | _ \<Rightarrow> None)"

definition succ_jump_target :: "verified_successors \<Rightarrow> instruction_index option" where
  "succ_jump_target s = (case s of Succ_Jump i \<Rightarrow> Some i | _ \<Rightarrow> None)"

definition resolve_static_successors ::
  "decoded_instruction \<Rightarrow> opcode_semantics \<Rightarrow> instruction_index option \<Rightarrow> decoded_instruction list \<Rightarrow>
     u64 list \<Rightarrow> usize \<Rightarrow> verified_successors verified" where
  "resolve_static_successors current semantics target instructions bitmap bytecode_len =
     (case successor_shape_of semantics of
        None \<Rightarrow> Inl (error_at_instruction current
                  (VE_Decode (InvalidOpcode (d_pc current) (encoded_byte Op_Invalid) ReservedInvalid)))
      | Some Shape_Fallthrough \<Rightarrow>
          and_then (resolve_fallthrough current instructions bitmap bytecode_len)
            (\<lambda>i. Inr (Succ_Fallthrough i))
      | Some Shape_Branch \<Rightarrow>
          and_then (require_encoded_target current target) (\<lambda>taken.
          and_then (resolve_fallthrough current instructions bitmap bytecode_len) (\<lambda>not_taken.
            Inr (Succ_Branch taken not_taken)))
      | Some Shape_Jump \<Rightarrow>
          and_then (require_encoded_target current target) (\<lambda>i. Inr (Succ_Jump i))
      | Some Shape_Terminate \<Rightarrow> Inr Succ_Terminate)"

definition function_kind_requirement_of :: "final_opcode \<Rightarrow> function_kind_requirement option" where
  "function_kind_requirement_of op =
     (if op \<in> {Op_TailCall, Op_TailCallMethod, Op_TailApply, Op_TailEval, Op_TailApplyEval, Op_Return,
               Op_ReturnUndef} then Some Req_Normal
      else if op \<in> {Op_InitialYield, Op_Yield} then Some Req_Generator
      else if op = Op_YieldStar then Some Req_SynchronousGenerator
      else if op = Op_AsyncYieldStar then Some Req_AsyncGenerator
      else if op = Op_Await then Some Req_Async
      else if op = Op_ReturnAsync then Some Req_NonNormal
      else None)"

definition validate_function_kind_opcode :: "decoded_instruction \<Rightarrow> function_kind \<Rightarrow> unit verified" where
  "validate_function_kind_opcode decoded kind =
     (case function_kind_requirement_of (i_opcode (d_instruction decoded)) of
        None \<Rightarrow> Inr ()
      | Some r \<Rightarrow> err_if (\<not> accepts r kind)
          (error_at_instruction decoded (VE_OpcodeNotAllowedForFunctionKind kind r)))"

text \<open>The body of the first loop of \<^verbatim>\<open>validate_static_semantics\<close>.\<close>

definition structural_instruction ::
  "function_index_domains \<Rightarrow> decoded_instruction list \<Rightarrow> u64 list \<Rightarrow> usize \<Rightarrow> decoded_instruction \<Rightarrow>
     verified_instruction verified" where
  "structural_instruction domains decoded bitmap bytecode_len current =
     and_then (validate_operand_indices current domains) (\<lambda>_.
     and_then (validate_secondary_operands current domains) (\<lambda>_.
     and_then (resolve_relative_target current decoded bitmap bytecode_len) (\<lambda>target.
     and_then (validate_gosub_continuation current decoded bitmap bytecode_len) (\<lambda>_.
     and_then (resolve_static_successors current (opcode_semantics_of (i_opcode (d_instruction current)))
                 target decoded bitmap bytecode_len) (\<lambda>successors.
       Inr \<lparr>vi_decoded = current, vi_entry_stack_depth = None, vi_successors = successors\<rparr>)))))"

text \<open>The body of its second loop, the capability and function-kind checks.\<close>

definition check_capability ::
  "function_kind \<Rightarrow> validated_capture_layout option \<Rightarrow> compiler_constant_layout option \<Rightarrow> bool \<Rightarrow>
     verified_instruction \<Rightarrow> unit verified" where
  "check_capability kind captures constants compiler_generated v =
     (let decoded = vi_decoded v; op = i_opcode (d_instruction decoded);
          unsupported = (\<lambda>feature. Inl (error_at_instruction decoded (VE_UnsupportedOpcodeSemantics feature)))
      in and_then
          (case opcode_semantics_of op of
             Sem_Unsupported feature _ \<Rightarrow>
               (if op = Op_CloseLoc then
                  (case captures of
                     Some layout \<Rightarrow> validate_compiler_close_loc decoded layout
                   | None \<Rightarrow> unsupported feature)
                else if op \<in> {Op_PushConst, Op_FClosure, Op_PushConst8, Op_FClosure8} then
                  (case constants of
                     Some layout \<Rightarrow> validate_compiler_constant_kind decoded layout
                   | None \<Rightarrow> unsupported feature)
                else if compiler_generated \<and>
                  op \<in> {Op_ForOfStart, Op_ForAwaitOfStart, Op_ForOfNext, Op_ForAwaitOfNext,
                        Op_IteratorGetValueDone, Op_IteratorClose, Op_IteratorNext, Op_IteratorCall,
                        Op_CopyDataProperties, Op_Eval, Op_ApplyEval, Op_MakeVarRefRef}
                then Inr ()
                else unsupported feature)
           | _ \<Rightarrow> Inr ())
          (\<lambda>_. validate_function_kind_opcode decoded kind))"

definition validate_static_semantics ::
  "allocator \<Rightarrow> decoded_instruction list \<Rightarrow> u64 list \<Rightarrow> usize \<Rightarrow> function_index_domains \<Rightarrow> function_kind \<Rightarrow>
     validated_capture_layout option \<Rightarrow> compiler_constant_layout option \<Rightarrow> bool \<Rightarrow>
     verified_instruction list verified" where
  "validate_static_semantics alloc decoded bitmap bytecode_len domains kind captures constants compiler_generated =
     and_then (err_if (\<not> alloc 0 (length decoded))
                 (error_root (VE_AllocationFailed Instructions (length decoded)))) (\<lambda>_.
     and_then (try_map (structural_instruction domains decoded bitmap bytecode_len) decoded) (\<lambda>vs.
     and_then (try_for_each (check_capability kind captures constants compiler_generated) vs) (\<lambda>_.
       Inr vs)))"

section \<open>The boundary map\<close>

text \<open>
  What the predecoder and the target resolver rely on: a map of in-range positions that
  starts empty, can be marked at every in-range position, and afterwards tests true
  exactly at the marked positions.
\<close>

locale boundary_map =
  fixes initial :: 'm
    and mark :: "'m \<Rightarrow> 'k \<Rightarrow> ('e, 'm) result"
    and test :: "'m \<Rightarrow> 'k \<Rightarrow> bool"
    and in_range :: "'k \<Rightarrow> bool"
    and wf :: "'m \<Rightarrow> bool"
  assumes wf_initial: "wf initial"
    and test_initial: "\<not> test initial k"
    and mark_ok: "wf m \<Longrightarrow> in_range k \<Longrightarrow> \<exists>m'. mark m k = Inr m'"
    and mark_wf: "wf m \<Longrightarrow> in_range k \<Longrightarrow> mark m k = Inr m' \<Longrightarrow> wf m'"
    and test_mark: "wf m \<Longrightarrow> in_range k \<Longrightarrow> mark m k = Inr m' \<Longrightarrow> test m' j \<longleftrightarrow> test m j \<or> j = k"
begin

lemma marks_ok:
  "wf m \<Longrightarrow> list_all in_range ks \<Longrightarrow> \<exists>m'. try_fold mark ks m = Inr m' \<and> wf m'"
proof (induction ks arbitrary: m)
  case Nil
  then show ?case by simp
next
  case (Cons k ks)
  then obtain m1 where m1: "mark m k = Inr m1" using mark_ok [of m k] by auto
  moreover have "wf m1" using mark_wf [OF Cons.prems(1) _ m1] Cons.prems(2) by simp
  ultimately show ?case using Cons.IH [of m1] Cons.prems(2) by auto
qed

lemma test_marks:
  "wf m \<Longrightarrow> list_all in_range ks \<Longrightarrow> try_fold mark ks m = Inr m' \<Longrightarrow> test m' j \<longleftrightarrow> test m j \<or> j \<in> set ks"
proof (induction ks arbitrary: m)
  case Nil
  then show ?case by simp
next
  case (Cons k ks)
  then obtain m1 where m1: "mark m k = Inr m1" "try_fold mark ks m1 = Inr m'" by auto
  have "wf m1" using mark_wf [OF Cons.prems(1) _ m1(1)] Cons.prems(2) by simp
  then show ?case
    using Cons.IH [OF _ _ m1(2)] Cons.prems test_mark [OF Cons.prems(1) _ m1(1)] by auto
qed

lemma test_exactly:
  "list_all in_range ks \<Longrightarrow> try_fold mark ks initial = Inr m' \<Longrightarrow> test m' j \<longleftrightarrow> j \<in> set ks"
  using test_marks [OF wf_initial] test_initial by blast

end

text \<open>The bitmap of 64-bit words keeps that promise for the positions of the bytecode.\<close>

lemma test_bit_word: "(w :: u64) AND 2 ^ n = 0 \<longleftrightarrow> \<not> bit w n"
  by (rule and_exp_eq_0_iff_not_bit)

lemma set_bit_word: "n < 64 \<Longrightarrow> bit ((w :: u64) OR 2 ^ n) k \<longleftrightarrow> bit w k \<or> k = n"
  by (auto simp: bit_simps)

lemma bitmap_index: "n < len \<Longrightarrow> n div 64 < (len + 63) div (64 :: nat)"
  by linarith

interpretation bitmap: boundary_map
  "replicate ((len + 63) div 64) (0 :: u64)"
  "\<lambda>m p. mark_instruction_start m len p"
  "\<lambda>m p. is_instruction_start m len p"
  "\<lambda>p. unat p < len"
  "\<lambda>m. length m = (len + 63) div 64"
  for len :: usize
proof (unfold_locales, goal_cases)
  case 2
  then show ?case by (simp add: is_instruction_start_def get_def Let_def)
next
  case (3 m k)
  then show ?case by (simp add: mark_instruction_start_def get_def Let_def bitmap_index)
next
  case (4 m k m')
  then show ?case by (auto simp: mark_instruction_start_def get_def Let_def split: if_splits)
next
  case (5 m k m' j)
  let ?i = "unat k div 64"
  have i: "?i < length m" using 5(1,2) by (simp add: bitmap_index)
  have m': "m' = m[?i := m ! ?i OR push_bit (unat k mod 64) 1]"
    using 5(3) i by (auto simp: mark_instruction_start_def get_def Let_def)
  have eq: "j = k \<longleftrightarrow> unat j div 64 = ?i \<and> unat j mod 64 = unat k mod 64"
    by (metis div_mod_decomp word_unat_eq_iff)
  show ?case
  proof (cases "unat j < len \<and> unat j div 64 = ?i")
    case True
    then show ?thesis
      using i 5(2) eq by (auto simp: is_instruction_start_def get_def Let_def m' test_bit_word set_bit_word)
  next
    case False
    then show ?thesis
      using i 5(2) eq by (auto simp: is_instruction_start_def get_def Let_def m')
  qed
qed simp

section \<open>Predecoding is decoding with a boundary map\<close>

lemma predecode_loop_unfold:
  "predecode_loop alloc mx \<lparr>dec_bytecode = bs, dec_next_pc = p, dec_finished = False\<rparr> acc bm =
     (if unat p = length bs then Inr \<lparr>pb_instructions = acc, pb_bitmap = bm\<rparr>
      else and_then (map_err error_from_decode (decode_instruction bs p)) (\<lambda>d.
        if unat mx < length acc + 1
        then Inl (error_at_instruction d (VE_LimitExceeded Instructions (unat mx) (length acc + 1)))
        else and_then (mark_instruction_start bm (length bs) (d_pc d)) (\<lambda>bm'.
          if alloc (length acc) 1
          then predecode_loop alloc mx \<lparr>dec_bytecode = bs, dec_next_pc = d_next_pc d, dec_finished = False\<rparr>
                 (acc @ [d]) bm'
          else Inl (error_at_instruction d (VE_AllocationFailed Instructions 1)))))"
  by (subst predecode_loop.simps) (auto simp: decoder_next_def Let_def split: sum.splits)

lemma predecode_loop_sound:
  "predecode_loop alloc mx \<lparr>dec_bytecode = bs, dec_next_pc = p, dec_finished = False\<rparr> acc bm = Inr pb \<Longrightarrow>
   length acc \<le> unat mx \<Longrightarrow>
     \<exists>ds. decoder_collect \<lparr>dec_bytecode = bs, dec_next_pc = p, dec_finished = False\<rparr> = Inr ds \<and>
       pb_instructions pb = acc @ ds \<and> length (acc @ ds) \<le> unat mx \<and>
       try_fold (\<lambda>m p. mark_instruction_start m (length bs) p) (map d_pc ds) bm = Inr (pb_bitmap pb)"
proof (induction "length bs - unat p" arbitrary: p acc bm rule: less_induct)
  case less
  show ?case
  proof (cases "unat p = length bs")
    case True
    then show ?thesis
      using less.prems by (auto simp: predecode_loop_unfold [of alloc mx bs p] decoder_collect_unfold [of bs p])
  next
    case False
    with less.prems obtain d bm' where d: "decode_instruction bs p = Inr d" "length acc + 1 \<le> unat mx"
      "mark_instruction_start bm (length bs) (d_pc d) = Inr bm'"
      and rest: "predecode_loop alloc mx \<lparr>dec_bytecode = bs, dec_next_pc = d_next_pc d, dec_finished = False\<rparr>
          (acc @ [d]) bm' = Inr pb"
      by (auto simp: predecode_loop_unfold [of alloc mx bs p] not_less split: if_splits)
    from less.hyps [OF decode_instruction_shrinks [OF d(1)] rest] d(2)
    obtain ds where "decoder_collect \<lparr>dec_bytecode = bs, dec_next_pc = d_next_pc d, dec_finished = False\<rparr> = Inr ds"
      "pb_instructions pb = (acc @ [d]) @ ds" "length ((acc @ [d]) @ ds) \<le> unat mx"
      "try_fold (\<lambda>m p. mark_instruction_start m (length bs) p) (map d_pc ds) bm' = Inr (pb_bitmap pb)"
      by auto
    then show ?thesis
      using False d by (intro exI [of _ "d # ds"]) (simp add: decoder_collect_unfold [of bs p])
  qed
qed

lemma predecode_loop_complete:
  "decoder_collect \<lparr>dec_bytecode = bs, dec_next_pc = p, dec_finished = False\<rparr> = Inr ds \<Longrightarrow>
   length (acc @ ds) \<le> unat mx \<Longrightarrow>
   try_fold (\<lambda>m p. mark_instruction_start m (length bs) p) (map d_pc ds) bm = Inr bm' \<Longrightarrow>
     predecode_loop (\<lambda>_ _. True) mx \<lparr>dec_bytecode = bs, dec_next_pc = p, dec_finished = False\<rparr> acc bm =
       Inr \<lparr>pb_instructions = acc @ ds, pb_bitmap = bm'\<rparr>"
proof (induction ds arbitrary: p acc bm)
  case Nil
  then show ?case
    by (auto simp: predecode_loop_unfold [of _ mx bs p] decoder_collect_unfold [of bs p] split: if_splits)
next
  case (Cons d ds)
  then show ?case
    by (auto simp: predecode_loop_unfold [of _ mx bs p] decoder_collect_unfold [of bs p] split: if_splits)
qed

section \<open>Streams laid out one after the other\<close>

lemma laid_out_Cons:
  "laid_out p (d # ds) \<longleftrightarrow>
     unat (d_pc d) = p \<and> valid_instruction (d_instruction d) \<and>
     unat (d_next_pc d) = p + length (instruction_bytes (d_instruction d)) \<and>
     laid_out (p + length (instruction_bytes (d_instruction d))) ds"
  by auto

lemma length_instruction_bytes_pos: "0 < length (instruction_bytes i)"
  by simp

declare laid_out.simps(2) [simp del] laid_out_Cons [simp]

lemma laid_out_bounds:
  "laid_out p ds \<Longrightarrow> d \<in> set ds \<Longrightarrow>
     p \<le> unat (d_pc d) \<and> unat (d_pc d) < unat (d_next_pc d) \<and>
     unat (d_next_pc d) \<le> p + length (stream_bytes ds)"
proof (induction ds arbitrary: p)
  case (Cons d' ds)
  show ?case
  proof (cases "d = d'")
    case False
    then have "d \<in> set ds" using Cons.prems(2) by simp
    from Cons.IH [OF _ this, of "p + length (instruction_bytes (d_instruction d'))"] Cons.prems(1)
    show ?thesis by auto
  qed (use Cons.prems in auto)
qed simp

lemma laid_out_length: "laid_out p ds \<Longrightarrow> p < 2 ^ 32 \<Longrightarrow> p + length (stream_bytes ds) < 2 ^ 32"
proof (induction ds arbitrary: p)
  case (Cons d ds)
  let ?q = "p + length (instruction_bytes (d_instruction d))"
  have q: "?q = unat (d_next_pc d)" "laid_out ?q ds" using Cons.prems(1) by simp_all
  have "?q < 2 ^ 32" unfolding q(1) by simp
  from Cons.IH [OF q(2) this] show ?case by simp
qed simp

lemma laid_out_sorted: "laid_out p ds \<Longrightarrow> sorted_wrt (\<lambda>a b. d_pc a < d_pc b) ds"
proof (induction ds arbitrary: p)
  case (Cons d ds)
  let ?q = "p + length (instruction_bytes (d_instruction d))"
  have q: "laid_out ?q ds" "unat (d_pc d) = p" using Cons.prems by simp_all
  have "d_pc d < d_pc e" if "e \<in> set ds" for e
    unfolding word_less_nat_alt using laid_out_bounds [OF q(1) that] q(2)
      length_instruction_bytes_pos [of "d_instruction d"] by linarith
  with Cons.IH [OF q(1)] show ?case by simp
qed simp

lemma laid_out_valid: "laid_out p ds \<Longrightarrow> d \<in> set ds \<Longrightarrow> valid_instruction (d_instruction d)"
  by (induction ds arbitrary: p) auto

lemma laid_out_first: "laid_out 0 (d # ds) \<Longrightarrow> d_pc d = 0"
  by (simp add: unat_eq_0)

text \<open>
  \<open>predecoded bs ds bm\<close>: \<open>ds\<close> are the instructions of \<open>bs\<close> and \<open>bm\<close> marks exactly their
  positions. This is what the later stages rely on.
\<close>

definition predecoded :: "u8 list \<Rightarrow> decoded_instruction list \<Rightarrow> u64 list \<Rightarrow> bool" where
  "predecoded bs ds bm \<longleftrightarrow>
     laid_out 0 ds \<and> bs = stream_bytes ds \<and> length ds < 2 ^ 32 \<and>
     (\<forall>p. is_instruction_start bm (length bs) p \<longleftrightarrow> p \<in> d_pc ` set ds)"

lemma predecoded_length: "predecoded bs ds bm \<Longrightarrow> length bs < 2 ^ 32"
  using laid_out_length [of 0 ds] by (simp add: predecoded_def)

lemma predecode_complete_predecoded:
  assumes "predecode_complete alloc bs mx = Inr pb"
  shows "predecoded bs (pb_instructions pb) (pb_bitmap pb)" "length (pb_instructions pb) \<le> unat mx"
    "decoder_collect (instruction_decoder_new bs) = Inr (pb_instructions pb)"
proof -
  let ?bm0 = "replicate ((length bs + 63) div 64) (0 :: u64)"
  have "predecode_loop alloc mx (instruction_decoder_new bs) [] ?bm0 = Inr pb"
    using assms by (auto simp: predecode_complete_def allocate_boundary_bitmap_def Let_def split: if_splits)
  from predecode_loop_sound [OF this [unfolded instruction_decoder_new_def]]
  obtain ds where ds: "decoder_collect (instruction_decoder_new bs) = Inr ds" "pb_instructions pb = ds"
    "length ds \<le> unat mx"
    and marks: "try_fold (\<lambda>m p. mark_instruction_start m (length bs) p) (map d_pc ds) ?bm0 = Inr (pb_bitmap pb)"
    by (auto simp: instruction_decoder_new_def)
  have lay: "laid_out 0 ds" "bs = stream_bytes ds" using ds(1) by (simp_all add: decoder_collect_new_iff)
  have range: "list_all (\<lambda>p. unat p < length bs) (map d_pc ds)"
    using laid_out_bounds [OF lay(1)] lay(2) by (fastforce simp: list_all_iff)
  have "length ds < 2 ^ 32" using le_less_trans [OF ds(3) unat_u32_bound [of mx]] by simp
  with lay show "predecoded bs (pb_instructions pb) (pb_bitmap pb)"
    using bitmap.test_exactly [OF range marks] ds(2) unfolding predecoded_def by simp
  show "length (pb_instructions pb) \<le> unat mx"
    "decoder_collect (instruction_decoder_new bs) = Inr (pb_instructions pb)"
    using ds by simp_all
qed

lemma predecode_complete_total:
  assumes "decoder_collect (instruction_decoder_new bs) = Inr ds" and "length ds \<le> unat mx"
  shows "\<exists>bm. predecode_complete (\<lambda>_ _. True) bs mx = Inr \<lparr>pb_instructions = ds, pb_bitmap = bm\<rparr>"
proof -
  let ?bm0 = "replicate ((length bs + 63) div 64) (0 :: u64)"
  have lay: "laid_out 0 ds" "bs = stream_bytes ds" using assms(1) by (simp_all add: decoder_collect_new_iff)
  have range: "list_all (\<lambda>p. unat p < length bs) (map d_pc ds)"
    using laid_out_bounds [OF lay(1)] lay(2) by (fastforce simp: list_all_iff)
  obtain bm where "try_fold (\<lambda>m p. mark_instruction_start m (length bs) p) (map d_pc ds) ?bm0 = Inr bm"
    using bitmap.marks_ok [OF _ range, of ?bm0] by auto
  from predecode_loop_complete [OF assms(1) [unfolded instruction_decoder_new_def] _ this, of "[]"] assms(2)
  show ?thesis
    by (simp add: predecode_complete_def allocate_boundary_bitmap_def instruction_decoder_new_def)
qed

text \<open>
  Predecoding is complete and exact. With an allocator that never refuses, it succeeds
  exactly on the byte strings that decode completely into at most the permitted number of
  instructions; whenever it succeeds it returns those instructions in order, and its bitmap
  marks the positions of the instructions and no other position.
\<close>

theorem predecode_complete_exact:
  "((\<exists>pb. predecode_complete (\<lambda>_ _. True) bs mx = Inr pb \<and> pb_instructions pb = ds) \<longleftrightarrow>
      decoder_collect (instruction_decoder_new bs) = Inr ds \<and> length ds \<le> unat mx) \<and>
   (case predecode_complete alloc bs mx of
      Inl e \<Rightarrow> True
    | Inr pb \<Rightarrow>
        decoder_collect (instruction_decoder_new bs) = Inr (pb_instructions pb) \<and>
        length (pb_instructions pb) \<le> unat mx \<and>
        is_instruction_start (pb_bitmap pb) (length bs) p = (p \<in> d_pc ` set (pb_instructions pb)))"
proof -
  have "(\<exists>pb. predecode_complete (\<lambda>_ _. True) bs mx = Inr pb \<and> pb_instructions pb = ds) \<longleftrightarrow>
      decoder_collect (instruction_decoder_new bs) = Inr ds \<and> length ds \<le> unat mx"
    using predecode_complete_predecoded [of "\<lambda>_ _. True" bs mx] predecode_complete_total [of bs ds mx]
    by (metis predecoded_body.select_convs(1))
  then show ?thesis
    using predecode_complete_predecoded [of alloc bs mx] by (auto simp: predecoded_def split: sum.split)
qed

section \<open>Target resolution\<close>

lemma decoded_instruction_index_at_iff:
  assumes "predecoded bs ds bm"
  shows "decoded_instruction_index_at ds bm (length bs) p = Some i \<longleftrightarrow> unat i < length ds \<and> d_pc (ds ! unat i) = p"
proof -
  have lay: "laid_out 0 ds" and len: "length ds < 2 ^ 32" using assms by (simp_all add: predecoded_def)
  have start: "is_instruction_start bm (length bs) p \<longleftrightarrow> p \<in> d_pc ` set ds"
    using assms unfolding predecoded_def by blast
  note search = binary_search_by_key_iff [OF laid_out_sorted [OF lay], of p]
  show ?thesis
  proof
    assume "decoded_instruction_index_at ds bm (length bs) p = Some i"
    then obtain n where "binary_search_by_key d_pc p ds = Some n" "u32_try_from n = Some i"
      by (auto simp: decoded_instruction_index_at_def split: if_splits option.splits)
    then show "unat i < length ds \<and> d_pc (ds ! unat i) = p"
      using unat_u32_try_from search by auto
  next
    assume i: "unat i < length ds \<and> d_pc (ds ! unat i) = p"
    then have "binary_search_by_key d_pc p ds = Some (unat i)" using search by simp
    moreover have "is_instruction_start bm (length bs) p" using i start by auto
    moreover have "u32_try_from (unat i) = Some i" by (simp add: u32_try_from_Some)
    ultimately show "decoded_instruction_index_at ds bm (length bs) p = Some i"
      by (simp add: decoded_instruction_index_at_def)
  qed
qed

lemma resolve_target_iff:
  assumes pre: "predecoded bs ds bm"
  shows "resolve_target d edge t ds bm (length bs) = Inr i \<longleftrightarrow>
     \<not> (i_opcode (d_instruction d) = Op_Catch \<and> t = 0) \<and>
     unat i < length ds \<and> uint (d_pc (ds ! unat i)) = t"
proof -
  have len: "length bs < 2 ^ 32" using predecoded_length [OF pre] .
  then have u: "u32_try_from (length bs) = Some (word_of_nat (length bs))" by (simp add: u32_try_from_def)
  have ulen: "uint (word_of_nat (length bs) :: u32) = int (length bs)"
    using unat_word_of_nat_u32 [OF len] by (simp add: uint_nat)
  have inb: "unat (d_pc (ds ! unat i)) < length bs" if "unat i < length ds"
    using laid_out_bounds [of 0 ds "ds ! unat i"] pre that by (force simp: predecoded_def)
  have wint: "0 \<le> t \<Longrightarrow> t < int (length bs) \<Longrightarrow> p = (word_of_int t :: u32) \<longleftrightarrow> uint p = t" for p
  proof -
    assume "0 \<le> t" "t < int (length bs)"
    then have "take_bit 32 t = t" using len by (simp add: take_bit_int_eq_self_iff)
    then show ?thesis by (auto simp: word_uint_eq_iff uint_word_of_int_eq)
  qed
  show ?thesis
  proof (cases "0 \<le> t \<and> t < int (length bs)")
    case True
    then have "p = (word_of_int t :: u32) \<longleftrightarrow> uint p = t" for p using wint by blast
    then show ?thesis
      using True by (simp add: resolve_target_def u ulen decoded_instruction_index_at_iff [OF pre])
  next
    case False
    moreover have "\<not> (unat i < length ds \<and> uint (d_pc (ds ! unat i)) = t)"
    proof
      assume a: "unat i < length ds \<and> uint (d_pc (ds ! unat i)) = t"
      then have "int (unat (d_pc (ds ! unat i))) < int (length bs)" using inb by (simp only: of_nat_less_iff)
      then show False using a False by auto
    qed
    ultimately show ?thesis by (auto simp: resolve_target_def u ulen)
  qed
qed

end
