(* ===== verification/Verifier_Stack.thy ===== *)
theory Verifier_Stack
  imports Verifier_Static
begin

text \<open>
  The ordinary-stack dataflow of \<^verbatim>\<open>crates/fusor-bytecode/src/verifier/stack.rs\<close> and the
  pipeline that combines every stage, \<^verbatim>\<open>pipeline.rs\<close>.

  The worklist loop is a recursive function on the state of the loop; it terminates
  because each iteration removes one worklist entry and each new entry is paid for by an
  instruction that receives its entry depth. Depths computed in \<open>u64\<close> are naturals: a sum
  of two \<open>u32\<close> values and a small constant cannot overflow \<open>u64\<close>.
\<close>

section \<open>Propagation\<close>

definition reserve_worklist_entry ::
  "allocator \<Rightarrow> instruction_index list \<Rightarrow> decoded_instruction \<Rightarrow> unit verified" where
  "reserve_worklist_entry alloc worklist decoded =
     err_if (\<not> alloc (length worklist) 1)
       (error_at_instruction decoded (VE_AllocationFailed WorklistEntries 1))"

definition propagate_stack_depth ::
  "allocator \<Rightarrow> verified_instruction list \<Rightarrow> instruction_index list \<Rightarrow> instruction_index \<Rightarrow> u32 \<Rightarrow>
     decoded_instruction \<Rightarrow> bool \<Rightarrow> (verified_instruction list \<times> instruction_index list) verified" where
  "propagate_stack_depth alloc instructions worklist target incoming_depth source defer_gosub_join =
     (let position = unat target
      in case get instructions position of
           None \<Rightarrow> Inl (error_at_instruction source
                     (VE_LimitExceeded Instructions (length instructions) (unat target + 1)))
         | Some v \<Rightarrow>
             (case vi_entry_stack_depth v of
                None \<Rightarrow>
                  and_then (reserve_worklist_entry alloc worklist source) (\<lambda>_.
                    Inr (instructions[position := v\<lparr>vi_entry_stack_depth := Some incoming_depth\<rparr>],
                         worklist @ [target]))
              | Some established \<Rightarrow>
                  if established = incoming_depth then Inr (instructions, worklist)
                  else if defer_gosub_join then Inr (instructions, worklist)
                  else Inl (error_at_instruction source
                         (VE_InconsistentStackAtJoin (d_pc (vi_decoded v)) established incoming_depth
                            (d_pc source)))))"

section \<open>One transfer\<close>

record analysis =
  an_instructions :: "verified_instruction list"
  an_worklist :: "instruction_index list"
  an_computed_max :: u32
  an_evaluations :: u64

definition bounded_depth :: "decoded_instruction \<Rightarrow> u32 \<Rightarrow> nat \<Rightarrow> u32 verified" where
  "bounded_depth decoded limit depth =
     (if unat limit < depth
      then Inl (error_at_instruction decoded (VE_StackLimitExceeded depth limit))
      else ok_or (u32_try_from depth) (error_at_instruction decoded (VE_StackLimitExceeded depth limit)))"

definition with_branch_values :: "final_opcode \<Rightarrow> nat" where
  "with_branch_values op =
     (if op \<in> {Op_WithGetVar, Op_WithDeleteVar} then 1
      else if op \<in> {Op_WithMakeRef, Op_WithGetRef} then 2
      else 0)"

text \<open>The condition under which a compiler-generated terminal may leave values behind.\<close>

definition exit_may_be_nonempty :: "function_kind \<Rightarrow> bool \<Rightarrow> final_opcode \<Rightarrow> bool" where
  "exit_may_be_nonempty kind has_gosub op \<longleftrightarrow>
     op \<in> {Op_Throw, Op_ThrowError, Op_TailCall, Op_TailCallMethod, Op_TailApply, Op_TailEval, Op_TailApplyEval} \<or>
     op = Op_Ret \<or>
     kind \<in> {Kind_Generator, Kind_AsyncGenerator} \<and> op = Op_ReturnAsync \<or>
     has_gosub \<and> op \<in> {Op_Return, Op_ReturnUndef, Op_Throw}"

text \<open>
  The body of the worklist loop for the entry at \<open>current\<close> with its depth. The maximum is
  returned with the updated vectors.
\<close>

definition transfer_depths ::
  "verification_limits \<Rightarrow> decoded_instruction \<Rightarrow> u32 \<Rightarrow> u32 \<Rightarrow> (u32 \<times> u32 \<times> u32) verified" where
  "transfer_depths limits decoded entry_depth computed_max =
     (let op = i_opcode (d_instruction decoded); limit = max_stack_depth limits
      in and_then (map_err (\<lambda>e. error_at_instruction decoded (VE_StackEffect e))
                     (instruction_stack_effect (d_instruction decoded))) (\<lambda>effect.
         and_then (err_if (entry_depth < pops effect)
                     (error_at_instruction decoded (VE_StackUnderflow (pops effect) entry_depth))) (\<lambda>_.
         and_then (bounded_depth decoded limit (unat (entry_depth - pops effect) + unat (pushes effect)))
           (\<lambda>output_depth.
         let max1 = max computed_max output_depth
         in and_then (if op = Op_Gosub
                      then and_then (bounded_depth decoded limit (unat output_depth + 1))
                             (\<lambda>depth. Inr (Some depth, max max1 depth))
                      else Inr (None, max1)) (\<lambda>(finally_depth, max2).
            and_then (if with_branch_values op \<noteq> 0
                      then and_then (bounded_depth decoded limit (unat output_depth + with_branch_values op))
                             (\<lambda>depth. Inr (Some depth, max max2 depth))
                      else Inr (None, max2)) (\<lambda>(with_depth, max3).
              let taken_depth = (case finally_depth of
                      Some d \<Rightarrow> d
                    | None \<Rightarrow> (case with_depth of Some d \<Rightarrow> d | None \<Rightarrow> output_depth))
              in Inr (output_depth, taken_depth, max3)))))))"

text \<open>The match on the successors at the end of the loop body.\<close>

definition propagate_successors ::
  "allocator \<Rightarrow> bool \<Rightarrow> bool \<Rightarrow> function_kind \<Rightarrow> verified_instruction \<Rightarrow> u32 \<Rightarrow> u32 \<Rightarrow>
     verified_instruction list \<Rightarrow> instruction_index list \<Rightarrow>
     (verified_instruction list \<times> instruction_index list) verified" where
  "propagate_successors alloc require_empty_exits has_gosub kind current output_depth taken_depth
      instructions worklist =
     (let decoded = vi_decoded current; op = i_opcode (d_instruction decoded)
      in case vi_successors current of
           Succ_Fallthrough s \<Rightarrow>
             propagate_stack_depth alloc instructions worklist s output_depth decoded False
         | Succ_Jump s \<Rightarrow>
             propagate_stack_depth alloc instructions worklist s output_depth decoded False
         | Succ_Branch taken not_taken \<Rightarrow>
             and_then (propagate_stack_depth alloc instructions worklist taken taken_depth decoded
                         (require_empty_exits \<and> op = Op_Gosub)) (\<lambda>(instructions, worklist).
             propagate_stack_depth alloc instructions worklist not_taken output_depth decoded False)
         | Succ_Terminate \<Rightarrow>
             if require_empty_exits \<and> output_depth \<noteq> 0 \<and> \<not> exit_may_be_nonempty kind has_gosub op
             then Inl (error_at_instruction decoded (VE_NonEmptyCompilerExitStack output_depth))
             else Inr (instructions, worklist))"

definition evaluate_entry ::
  "allocator \<Rightarrow> verification_limits \<Rightarrow> bool \<Rightarrow> bool \<Rightarrow> function_kind \<Rightarrow> verified_instruction \<Rightarrow> u32 \<Rightarrow>
     analysis \<Rightarrow> analysis verified" where
  "evaluate_entry alloc limits require_empty_exits has_gosub kind current entry_depth st =
     (let decoded = vi_decoded current
      in and_then (ok_or (checked_add (an_evaluations st) 1)
             (error_at_instruction decoded (VE_LimitExceeded TransferEvaluations
                (unat (max_transfer_evaluations limits)) (2 ^ 64 - 1)))) (\<lambda>evaluations.
         and_then (err_if (max_transfer_evaluations limits < evaluations)
             (error_at_instruction decoded (VE_LimitExceeded TransferEvaluations
                (unat (max_transfer_evaluations limits)) (unat evaluations)))) (\<lambda>_.
         and_then (transfer_depths limits decoded entry_depth (an_computed_max st))
           (\<lambda>(output_depth, taken_depth, computed_max).
         and_then (propagate_successors alloc require_empty_exits has_gosub kind current output_depth taken_depth
                     (an_instructions st) (an_worklist st)) (\<lambda>(instructions, worklist).
           Inr \<lparr>an_instructions = instructions, an_worklist = worklist, an_computed_max = computed_max,
                an_evaluations = evaluations\<rparr>)))))"

section \<open>The worklist\<close>

definition undecided :: "verified_instruction list \<Rightarrow> nat" where
  "undecided vs = length (filter (\<lambda>v. vi_entry_stack_depth v = None) vs)"

lemma undecided_update:
  assumes "i < length vs" "vi_entry_stack_depth (vs ! i) = None"
  shows "undecided vs = Suc (undecided (vs[i := (vs ! i)\<lparr>vi_entry_stack_depth := Some d\<rparr>]))"
proof -
  have "vs = take i vs @ vs ! i # drop (Suc i) vs" using assms(1) by (rule id_take_nth_drop)
  then have "undecided vs = undecided (take i vs @ vs ! i # drop (Suc i) vs)" by simp
  then show ?thesis using assms by (simp add: undecided_def upd_conv_take_nth_drop)
qed

lemma propagate_budget:
  "propagate_stack_depth alloc vs wl t d src defer = Inr (vs', wl') \<Longrightarrow>
     undecided vs' + length wl' = undecided vs + length wl"
  using undecided_update [of "unat t" vs d]
  by (auto simp: propagate_stack_depth_def Let_def get_def split: if_splits option.splits)

lemma propagate_successors_budget:
  "propagate_successors alloc re hg kind v out tk vs wl = Inr (vs', wl') \<Longrightarrow>
     undecided vs' + length wl' = undecided vs + length wl"
  by (cases "vi_successors v")
     (auto simp: propagate_successors_def Let_def split: if_splits dest!: propagate_budget)

lemma evaluate_entry_budget:
  "evaluate_entry alloc limits re hg kind v d st = Inr st' \<Longrightarrow>
     undecided (an_instructions st') + length (an_worklist st') =
     undecided (an_instructions st) + length (an_worklist st)"
  by (auto simp: evaluate_entry_def Let_def dest!: propagate_successors_budget)

function analysis_loop ::
  "allocator \<Rightarrow> verification_limits \<Rightarrow> bool \<Rightarrow> bool \<Rightarrow> function_kind \<Rightarrow> analysis \<Rightarrow> analysis verified" where
  "analysis_loop alloc limits require_empty_exits has_gosub kind st =
     (case an_worklist st of
        [] \<Rightarrow> Inr st
      | index # rest \<Rightarrow>
          (let st1 = st\<lparr>an_worklist := rest\<rparr>
           in case get (an_instructions st) (unat index) of
                None \<Rightarrow> Inl (error_root (VE_LimitExceeded Instructions (length (an_instructions st))
                          (unat index + 1)))
              | Some current \<Rightarrow>
                  (case vi_entry_stack_depth current of
                     None \<Rightarrow> analysis_loop alloc limits require_empty_exits has_gosub kind st1
                   | Some entry_depth \<Rightarrow>
                       (case evaluate_entry alloc limits require_empty_exits has_gosub kind current
                               entry_depth st1 of
                          Inl e \<Rightarrow> Inl e
                        | Inr st2 \<Rightarrow> analysis_loop alloc limits require_empty_exits has_gosub kind st2))))"
  by pat_completeness auto
termination
  by (relation "measure (\<lambda>(_, _, _, _, _, st). undecided (an_instructions st) + length (an_worklist st))")
     (auto dest!: evaluate_entry_budget)

declare analysis_loop.simps [simp del]

record stack_certificate =
  sc_instructions :: "verified_instruction list"
  sc_computed_stack_size :: u32
  sc_transfer_evaluations :: u64

definition analyze_ordinary_stack ::
  "allocator \<Rightarrow> verified_instruction list \<Rightarrow> function_kind \<Rightarrow> verification_limits \<Rightarrow> bool \<Rightarrow>
     stack_certificate verified" where
  "analyze_ordinary_stack alloc instructions kind limits require_empty_exits =
     (case instructions of
        [] \<Rightarrow> Inl (error_root VE_EmptyBytecode)
      | entry # rest \<Rightarrow>
          (let started = entry\<lparr>vi_entry_stack_depth := Some 0\<rparr> # rest;
               has_gosub = list_ex (\<lambda>v. i_opcode (d_instruction (vi_decoded v)) = Op_Gosub) started
           in and_then (reserve_worklist_entry alloc [] (vi_decoded entry)) (\<lambda>_.
              and_then (analysis_loop alloc limits require_empty_exits has_gosub kind
                 \<lparr>an_instructions = started, an_worklist = [0], an_computed_max = 0, an_evaluations = 0\<rparr>) (\<lambda>st.
                Inr \<lparr>sc_instructions = an_instructions st, sc_computed_stack_size = an_computed_max st,
                     sc_transfer_evaluations = an_evaluations st\<rparr>))))"

section \<open>The pipeline\<close>

record verified_control_flow =
  vc_bytecode :: "u8 list"
  vc_instructions :: "verified_instruction list"
  vc_bitmap :: "u64 list"
  vc_computed_stack_size :: u32
  vc_transfer_evaluations :: u64
  vc_domains :: function_index_domains
  vc_function_header :: verified_function_header
  vc_capture_layout :: "compiler_capture_layout option"
  vc_constant_layout :: "compiler_constant_layout option"

datatype stack_verification_mode = Mode_Serialized u32 | Mode_CompilerGenerated

primrec mode_expected_stack_size :: "stack_verification_mode \<Rightarrow> u32 option" where
  "mode_expected_stack_size (Mode_Serialized expected) = Some expected"
| "mode_expected_stack_size Mode_CompilerGenerated = None"

primrec requires_empty_exits :: "stack_verification_mode \<Rightarrow> bool" where
  "requires_empty_exits (Mode_Serialized _) = False"
| "requires_empty_exits Mode_CompilerGenerated = True"

text \<open>\<open>Option::map(f).transpose()\<close>.\<close>

definition transpose_map :: "('a \<Rightarrow> 'b verified) \<Rightarrow> 'a option \<Rightarrow> 'b option verified" where
  "transpose_map f x = (case x of None \<Rightarrow> Inr None | Some v \<Rightarrow> and_then (f v) (\<lambda>y. Inr (Some y)))"

definition verify_control_flow_common ::
  "allocator \<Rightarrow> u8 list \<Rightarrow> function_index_domains \<Rightarrow> unverified_function_header \<Rightarrow>
     stack_verification_mode \<Rightarrow> compiler_capture_layout option \<Rightarrow> compiler_constant_layout option \<Rightarrow>
     verification_limits \<Rightarrow> verified_control_flow verified" where
  "verify_control_flow_common alloc bytecode domains header mode captures constants limits =
     and_then (validate_limits_and_counts (length bytecode) domains header
                 (mode_expected_stack_size mode) limits) (\<lambda>_.
     and_then (err_if (bytecode = []) (error_root VE_EmptyBytecode)) (\<lambda>_.
     and_then (predecode_complete alloc bytecode (max_instructions_per_function limits)) (\<lambda>pb.
     and_then (validate_function_header header domains) (\<lambda>vheader.
     and_then (err_if (requires_empty_exits mode \<and> captures = None \<and> vh_variable_reference_count vheader \<noteq> 0)
                 (error_root (VE_MissingCompilerCaptureLayout (vh_variable_reference_count vheader)))) (\<lambda>_.
     and_then (transpose_map (\<lambda>layout. validate_compiler_capture_layout alloc layout domains vheader)
                 captures) (\<lambda>vcaptures.
     and_then (err_if (requires_empty_exits mode \<and> constants = None \<and> constant_pool_len domains \<noteq> 0)
                 (error_root (VE_MissingCompilerConstantLayout (constant_pool_len domains)))) (\<lambda>_.
     and_then (transpose_map (\<lambda>layout. validate_compiler_constant_layout layout domains) constants)
       (\<lambda>vconstants.
     and_then (validate_static_semantics alloc (pb_instructions pb) (pb_bitmap pb) (length bytecode) domains
                 (vh_kind vheader) vcaptures vconstants (requires_empty_exits mode)) (\<lambda>structural.
     and_then (analyze_ordinary_stack alloc structural (vh_kind vheader) limits
                 (requires_empty_exits mode)) (\<lambda>certificate.
       Inr \<lparr>vc_bytecode = bytecode, vc_instructions = sc_instructions certificate,
            vc_bitmap = pb_bitmap pb, vc_computed_stack_size = sc_computed_stack_size certificate,
            vc_transfer_evaluations = sc_transfer_evaluations certificate, vc_domains = domains,
            vc_function_header = vheader, vc_capture_layout = map_option vcl_layout vcaptures,
            vc_constant_layout = vconstants\<rparr>))))))))))"

definition verify_control_flow ::
  "allocator \<Rightarrow> unverified_function_body \<Rightarrow> verification_limits \<Rightarrow> verified_control_flow verified" where
  "verify_control_flow alloc body limits =
     (let expected = ub_expected_stack_size body
      in and_then (verify_control_flow_common alloc (ub_bytecode body) (ub_domains body)
                     (ub_function_header body) (Mode_Serialized expected) None None limits) (\<lambda>verified.
         if vc_computed_stack_size verified \<noteq> expected
         then Inl (error_root (VE_SerializedStackSizeMismatch expected (vc_computed_stack_size verified)))
         else Inr verified))"

definition verify_compiler_control_flow ::
  "allocator \<Rightarrow> unverified_compiler_function_body \<Rightarrow> verification_limits \<Rightarrow> verified_control_flow verified" where
  "verify_compiler_control_flow alloc body limits =
     verify_control_flow_common alloc (cb_bytecode body) (cb_domains body) (cb_function_header body)
       Mode_CompilerGenerated (cb_capture_layout body) (cb_constant_layout body) limits"

text \<open>The lookups of \<^verbatim>\<open>VerifiedControlFlow\<close>.\<close>

definition vc_is_instruction_start :: "verified_control_flow \<Rightarrow> bytecode_pc \<Rightarrow> bool" where
  "vc_is_instruction_start v p = is_instruction_start (vc_bitmap v) (length (vc_bytecode v)) p"

definition instruction_index_at ::
  "verified_instruction list \<Rightarrow> u64 list \<Rightarrow> usize \<Rightarrow> bytecode_pc \<Rightarrow> instruction_index option" where
  "instruction_index_at instructions bitmap bytecode_len p =
     (if \<not> is_instruction_start bitmap bytecode_len p then None
      else case binary_search_by_key (d_pc \<circ> vi_decoded) p instructions of
             None \<Rightarrow> None
           | Some index \<Rightarrow> u32_try_from index)"

definition vc_instruction_index_at :: "verified_control_flow \<Rightarrow> bytecode_pc \<Rightarrow> instruction_index option" where
  "vc_instruction_index_at v p =
     instruction_index_at (vc_instructions v) (vc_bitmap v) (length (vc_bytecode v)) p"

definition vc_instruction :: "verified_control_flow \<Rightarrow> instruction_index \<Rightarrow> verified_instruction option" where
  "vc_instruction v i = get (vc_instructions v) (unat i)"

end
