(* ===== verification/Verifier_Soundness.thy ===== *)
theory Verifier_Soundness
  imports Verifier_Stack
begin

text \<open>
  What a control-flow certificate guarantees. The reference is a machine on the raw bytes
  whose state is a byte position and the number of ordinary values on the operand stack: it
  decodes the instruction at its position, applies the instruction's stack effect, and moves
  to the next instruction or to the encoded target. The lemmas relate the result of the
  pipeline to the states this machine reaches; theory \<open>Verifier_Guarantees\<close> states the
  guarantees.
\<close>

section \<open>The nominal machine\<close>

definition branch_extra :: "final_opcode \<Rightarrow> nat" where
  "branch_extra op = (if op = Op_Gosub then 1 else with_branch_values op)"

text \<open>The heights after an instruction: on its fall-through or jump edge, and on its taken edge.\<close>

definition nominal_effect :: "instruction \<Rightarrow> nat \<Rightarrow> (nat \<times> nat) option" where
  "nominal_effect i h =
     (case instruction_stack_effect i of
        Inl e \<Rightarrow> None
      | Inr effect \<Rightarrow>
          if unat (pops effect) \<le> h
          then let out = h - unat (pops effect) + unat (pushes effect)
               in Some (out, out + branch_extra (i_opcode i))
          else None)"

definition encoded_target :: "decoded_instruction \<Rightarrow> int option" where
  "encoded_target d =
     (case i_operands (d_instruction d) of
        Opd_Label v \<Rightarrow> Some (uint (d_pc d) + 1 + sint v)
      | Opd_Label8 v \<Rightarrow> Some (uint (d_pc d) + 1 + sint v)
      | Opd_Label16 v \<Rightarrow> Some (uint (d_pc d) + 1 + sint v)
      | Opd_AtomLabelU8 _ l _ \<Rightarrow> Some (uint (d_pc d) + 5 + sint l)
      | _ \<Rightarrow> None)"

definition shape_of :: "decoded_instruction \<Rightarrow> successor_shape option" where
  "shape_of d = successor_shape_of (opcode_semantics_of (i_opcode (d_instruction d)))"

definition instruction_at :: "u8 list \<Rightarrow> int \<Rightarrow> decoded_instruction option" where
  "instruction_at bs p =
     (if 0 \<le> p \<and> p < int (length bs)
      then case decode_instruction bs (word_of_int p) of Inl e \<Rightarrow> None | Inr d \<Rightarrow> Some d
      else None)"

inductive nominal_step :: "u8 list \<Rightarrow> int \<times> nat \<Rightarrow> int \<times> nat \<Rightarrow> bool" for bs where
  step_next: "instruction_at bs p = Some d \<Longrightarrow> nominal_effect (d_instruction d) h = Some (out, tk) \<Longrightarrow>
     shape_of d = Some Shape_Fallthrough \<or> shape_of d = Some Shape_Branch \<Longrightarrow>
     nominal_step bs (p, h) (uint (d_next_pc d), out)"
| step_jump: "instruction_at bs p = Some d \<Longrightarrow> nominal_effect (d_instruction d) h = Some (out, tk) \<Longrightarrow>
     shape_of d = Some Shape_Jump \<Longrightarrow> encoded_target d = Some t \<Longrightarrow> nominal_step bs (p, h) (t, out)"
| step_taken: "instruction_at bs p = Some d \<Longrightarrow> nominal_effect (d_instruction d) h = Some (out, tk) \<Longrightarrow>
     shape_of d = Some Shape_Branch \<Longrightarrow> encoded_target d = Some t \<Longrightarrow> nominal_step bs (p, h) (t, tk)"

inductive_cases nominal_stepE: "nominal_step bs (p, h) s"

abbreviation nominal_reachable :: "u8 list \<Rightarrow> int \<times> nat \<Rightarrow> bool" where
  "nominal_reachable bs \<equiv> (nominal_step bs)\<^sup>*\<^sup>* (0, 0)"

section \<open>Structural facts\<close>

definition points_to :: "decoded_instruction list \<Rightarrow> instruction_index \<Rightarrow> int \<Rightarrow> bool" where
  "points_to ds i t \<longleftrightarrow> unat i < length ds \<and> uint (d_pc (ds ! unat i)) = t"

definition linked :: "decoded_instruction list \<Rightarrow> decoded_instruction \<Rightarrow> verified_successors \<Rightarrow> bool" where
  "linked ds d s =
     (case s of
        Succ_Fallthrough i \<Rightarrow> shape_of d = Some Shape_Fallthrough \<and> points_to ds i (uint (d_next_pc d))
      | Succ_Branch taken n \<Rightarrow> shape_of d = Some Shape_Branch \<and> points_to ds n (uint (d_next_pc d)) \<and>
          (\<exists>t. encoded_target d = Some t \<and> points_to ds taken t)
      | Succ_Jump i \<Rightarrow> shape_of d = Some Shape_Jump \<and> (\<exists>t. encoded_target d = Some t \<and> points_to ds i t)
      | Succ_Terminate \<Rightarrow> shape_of d = Some Shape_Terminate)"

lemma relative_target_spec_encoded:
  "relative_target_spec d = Inr (Some (edge, base, x)) \<Longrightarrow> encoded_target d = Some (uint (d_pc d) + base + x)"
  by (auto simp: relative_target_spec_def encoded_target_def Let_def split: if_splits operands.splits)

lemma i64_checked_add_SomeD: "i64_checked_add a b = Some c \<Longrightarrow> c = a + b"
  by (auto simp: i64_checked_add_def split: if_splits)

lemma resolve_relative_target_points:
  assumes "predecoded bs ds bm" "resolve_relative_target d ds bm (length bs) = Inr (Some i)"
  shows "\<exists>t. encoded_target d = Some t \<and> points_to ds i t"
proof -
  obtain edge base x where spec: "relative_target_spec d = Inr (Some (edge, base, x))"
    and r: "resolve_target d edge (uint (d_pc d) + base + x) ds bm (length bs) = Inr i"
    using assms(2) by (auto simp: resolve_relative_target_def Let_def dest!: i64_checked_add_SomeD
        split: option.split_asm)
  then show ?thesis
    using relative_target_spec_encoded [OF spec] by (simp add: resolve_target_iff [OF assms(1)] points_to_def)
qed

lemma resolve_fallthrough_points:
  "predecoded bs ds bm \<Longrightarrow> resolve_fallthrough d ds bm (length bs) = Inr i \<Longrightarrow>
     points_to ds i (uint (d_next_pc d))"
  by (simp add: resolve_fallthrough_def resolve_target_iff points_to_def)

lemma structural_instruction_linked:
  assumes pre: "predecoded bs ds bm" and ok: "structural_instruction domains ds bm (length bs) d = Inr v"
  shows "vi_decoded v = d" "vi_entry_stack_depth v = None" "linked ds d (vi_successors v)"
proof -
  obtain target s where target: "resolve_relative_target d ds bm (length bs) = Inr target"
    and s: "resolve_static_successors d (opcode_semantics_of (i_opcode (d_instruction d))) target ds bm (length bs) = Inr s"
    and v: "v = \<lparr>vi_decoded = d, vi_entry_stack_depth = None, vi_successors = s\<rparr>"
    using ok by (auto simp: structural_instruction_def)
  have "linked ds d s"
    using s target resolve_relative_target_points [OF pre] resolve_fallthrough_points [OF pre]
    by (auto simp: resolve_static_successors_def linked_def shape_of_def require_encoded_target_def
        split: option.splits successor_shape.splits)
  then show "vi_decoded v = d" "vi_entry_stack_depth v = None" "linked ds d (vi_successors v)"
    using v by simp_all
qed

lemma static_semantics_linked:
  assumes pre: "predecoded bs ds bm"
    and ok: "validate_static_semantics alloc ds bm (length bs) domains kind caps consts cg = Inr vs"
  shows "map vi_decoded vs = ds" "\<forall>v \<in> set vs. vi_entry_stack_depth v = None \<and> linked ds (vi_decoded v) (vi_successors v)"
proof -
  have m: "try_map (structural_instruction domains ds bm (length bs)) ds = Inr vs"
    using ok by (auto simp: validate_static_semantics_def)
  note nth = try_map_nth [OF m] and len = try_map_length [OF m]
  show "map vi_decoded vs = ds"
    using len structural_instruction_linked(1) [OF pre nth] by (intro nth_equalityI) simp_all
  show "\<forall>v \<in> set vs. vi_entry_stack_depth v = None \<and> linked ds (vi_decoded v) (vi_successors v)"
    using len structural_instruction_linked [OF pre nth] by (metis in_set_conv_nth)
qed

section \<open>Depth arithmetic\<close>

lemma bounded_depth_iff:
  "bounded_depth d limit n = Inr w \<longleftrightarrow> n \<le> unat limit \<and> w = word_of_nat n"
proof -
  have "n \<le> unat limit \<Longrightarrow> n < 2 ^ 32" using le_less_trans [OF _ unat_u32_bound [of limit]] by simp
  then show ?thesis by (auto simp: bounded_depth_def not_less u32_try_from_Some)
qed

lemma unat_max: "unat (max a b) = max (unat a) (unat b)"
  by (simp add: max_def word_le_nat_alt)

lemma transfer_depths_nominal:
  assumes "transfer_depths limits d h mx = Inr (out, tk, mx')"
  shows "nominal_effect (d_instruction d) (unat h) = Some (unat out, unat tk)"
    "unat out \<le> unat (max_stack_depth limits)" "unat tk \<le> unat (max_stack_depth limits)"
    "mx' = max (max mx out) tk"
proof -
  let ?op = "i_opcode (d_instruction d)" and ?lim = "unat (max_stack_depth limits)"
  obtain e where e: "instruction_stack_effect (d_instruction d) = Inr e" "\<not> h < pops e"
    and out: "unat (h - pops e) + unat (pushes e) \<le> ?lim"
      "out = word_of_nat (unat (h - pops e) + unat (pushes e))"
    and tk: "if ?op = Op_Gosub then unat out + 1 \<le> ?lim \<and> tk = word_of_nat (unat out + 1) \<and> mx' = max (max mx out) tk
       else if with_branch_values ?op \<noteq> 0
       then unat out + with_branch_values ?op \<le> ?lim \<and> tk = word_of_nat (unat out + with_branch_values ?op) \<and>
            mx' = max (max mx out) tk
       else tk = out \<and> mx' = max mx out"
    using assms by (auto simp: transfer_depths_def Let_def bounded_depth_iff with_branch_values_def
        split: if_splits)
  have small: "n \<le> ?lim \<Longrightarrow> unat (word_of_nat n :: u32) = n" for n
    using le_less_trans [OF _ unat_u32_bound [of "max_stack_depth limits"], of n]
    by (intro unat_word_of_nat_u32) simp
  have sub: "unat (h - pops e) = unat h - unat (pops e)" "unat (pops e) \<le> unat h"
    using e(2) by (simp_all add: unat_sub word_le_nat_alt not_less)
  have "unat out = unat (h - pops e) + unat (pushes e)" unfolding out(2) by (rule small [OF out(1)])
  then have uout: "unat out = unat h - unat (pops e) + unat (pushes e)" by (simp only: sub(1))
  then show bound: "unat out \<le> ?lim" using out(1) by (simp only: sub(1))
  have tk': "unat out + branch_extra ?op \<le> ?lim" "tk = word_of_nat (unat out + branch_extra ?op)"
    using tk bound by (simp_all add: branch_extra_def split: if_splits)
  have utk: "unat tk = unat out + branch_extra ?op" unfolding tk'(2) by (rule small [OF tk'(1)])
  show "unat tk \<le> ?lim" unfolding utk by (rule tk'(1))
  show "nominal_effect (d_instruction d) (unat h) = Some (unat out, unat tk)"
    using e(1) sub uout utk by (simp add: nominal_effect_def)
  show "mx' = max (max mx out) tk" using tk by (auto split: if_splits)
qed

section \<open>Invariants of the worklist\<close>

abbreviation depth_at :: "verified_instruction list \<Rightarrow> nat \<Rightarrow> u32 option" where
  "depth_at vs i \<equiv> vi_entry_stack_depth (vs ! i)"

text \<open>\<open>grows vs vs'\<close>: the vector keeps its instructions and its established depths.\<close>

definition grows :: "verified_instruction list \<Rightarrow> verified_instruction list \<Rightarrow> bool" where
  "grows vs vs' \<longleftrightarrow> length vs' = length vs \<and>
     (\<forall>i < length vs. vi_decoded (vs' ! i) = vi_decoded (vs ! i) \<and> vi_successors (vs' ! i) = vi_successors (vs ! i) \<and>
        (depth_at vs i \<noteq> None \<longrightarrow> depth_at vs' i = depth_at vs i))"

lemma grows_refl [simp]: "grows vs vs"
  by (simp add: grows_def)

lemma grows_trans: "grows a b \<Longrightarrow> grows b c \<Longrightarrow> grows a c"
  by (simp add: grows_def)

lemma grows_decoded: "grows vs vs' \<Longrightarrow> map vi_decoded vs' = map vi_decoded vs"
  by (intro nth_equalityI) (simp_all add: grows_def)

text \<open>The edges an instruction with output depths \<open>out\<close> and \<open>tk\<close> propagates along.\<close>

definition edges :: "verified_instruction \<Rightarrow> u32 \<Rightarrow> u32 \<Rightarrow> (instruction_index \<times> u32) list" where
  "edges v out tk =
     (case vi_successors v of
        Succ_Fallthrough s \<Rightarrow> [(s, out)]
      | Succ_Jump s \<Rightarrow> [(s, out)]
      | Succ_Branch taken n \<Rightarrow> [(taken, tk), (n, out)]
      | Succ_Terminate \<Rightarrow> [])"

text \<open>\<open>arrived defer vs t d\<close>: depth \<open>d\<close> is established at \<open>t\<close>, or the join is deferred.\<close>

definition arrived :: "bool \<Rightarrow> verified_instruction list \<Rightarrow> instruction_index \<Rightarrow> u32 \<Rightarrow> bool" where
  "arrived defer vs t d \<longleftrightarrow> unat t < length vs \<and>
     (depth_at vs (unat t) = Some d \<or> defer \<and> depth_at vs (unat t) \<noteq> None)"

lemma arrived_grows: "arrived defer vs t d \<Longrightarrow> grows vs vs' \<Longrightarrow> arrived defer vs' t d"
  by (auto simp: arrived_def grows_def)

text \<open>
  \<open>pushed es vs wl vs' wl'\<close>: propagation along edges \<open>es\<close> only decides undecided targets of
  \<open>es\<close>, with the edge's depth, and puts exactly those on the worklist.
\<close>

definition pushed ::
  "(instruction_index \<times> u32) list \<Rightarrow> verified_instruction list \<Rightarrow> instruction_index list \<Rightarrow>
     verified_instruction list \<Rightarrow> instruction_index list \<Rightarrow> bool" where
  "pushed es vs wl vs' wl' \<longleftrightarrow> grows vs vs' \<and> set wl \<subseteq> set wl' \<and>
     (\<forall>t \<in> set wl'. t \<in> set wl \<or> unat t < length vs \<and> depth_at vs' (unat t) \<noteq> None) \<and>
     (\<forall>i < length vs. depth_at vs' i = depth_at vs i \<or>
        (\<exists>(t, d) \<in> set es. unat t = i \<and> depth_at vs' i = Some d \<and> t \<in> set wl'))"

lemma pushed_refl: "pushed es vs wl vs wl"
  by (simp add: pushed_def)

lemma pushed_mono: "pushed es vs wl vs' wl' \<Longrightarrow> set es \<subseteq> set es' \<Longrightarrow> pushed es' vs wl vs' wl'"
  unfolding pushed_def by (simp, meson subsetD)

lemma pushed_trans:
  assumes "pushed es vs wl vs1 wl1" "pushed es vs1 wl1 vs2 wl2"
  shows "pushed es vs wl vs2 wl2"
proof -
  have g: "grows vs vs1" "grows vs1 vs2" "grows vs vs2"
    using assms grows_trans by (auto simp: pushed_def)
  then have len: "length vs1 = length vs" by (simp add: grows_def)
  have "depth_at vs2 i = depth_at vs i \<or> (\<exists>(t, d) \<in> set es. unat t = i \<and> depth_at vs2 i = Some d \<and> t \<in> set wl2)"
    if i: "i < length vs" for i
  proof (cases "depth_at vs1 i = depth_at vs i")
    case True
    have "depth_at vs2 i = depth_at vs1 i \<or>
        (\<exists>(t, d) \<in> set es. unat t = i \<and> depth_at vs2 i = Some d \<and> t \<in> set wl2)"
      using assms(2) i len unfolding pushed_def by simp
    with True show ?thesis by simp
  next
    case False
    then obtain t d where t: "(t, d) \<in> set es" "unat t = i" "depth_at vs1 i = Some d" "t \<in> set wl1"
      using assms(1) i by (auto simp: pushed_def)
    then have "depth_at vs2 i = Some d" "t \<in> set wl2" using g(2) assms(2) i len by (auto simp: grows_def pushed_def)
    then show ?thesis using t by blast
  qed
  moreover have "t \<in> set wl \<or> unat t < length vs \<and> depth_at vs2 (unat t) \<noteq> None" if "t \<in> set wl2" for t
  proof -
    have "t \<in> set wl1 \<or> unat t < length vs \<and> depth_at vs2 (unat t) \<noteq> None"
      using assms(2) that len unfolding pushed_def by simp
    moreover have "t \<in> set wl1 \<Longrightarrow> t \<in> set wl \<or> unat t < length vs \<and> depth_at vs1 (unat t) \<noteq> None"
      using assms(1) unfolding pushed_def by simp
    moreover have "unat t < length vs \<Longrightarrow> depth_at vs1 (unat t) \<noteq> None \<Longrightarrow> depth_at vs2 (unat t) \<noteq> None"
      using g(2) len unfolding grows_def by simp
    ultimately show ?thesis by blast
  qed
  ultimately show ?thesis using g(3) assms unfolding pushed_def by blast
qed

lemma propagate_pushed:
  assumes "propagate_stack_depth alloc vs wl t d src defer = Inr (vs', wl')"
  shows "pushed [(t, d)] vs wl vs' wl'" "arrived defer vs' t d"
proof -
  have t: "unat t < length vs"
    using assms by (auto simp: propagate_stack_depth_def Let_def get_def split: if_splits)
  show "arrived defer vs' t d"
    using assms t by (auto simp: propagate_stack_depth_def Let_def get_def arrived_def split: if_splits option.splits)
  show "pushed [(t, d)] vs wl vs' wl'"
    using assms t by (auto simp: propagate_stack_depth_def Let_def get_def pushed_def grows_def nth_list_update
        split: if_splits option.splits)
qed

lemma propagate_successors_pushed:
  assumes "propagate_successors alloc re hg kind v out tk vs wl = Inr (vs', wl')"
  defines "op \<equiv> i_opcode (d_instruction (vi_decoded v))"
  shows "pushed (edges v out tk) vs wl vs' wl'"
    "list_all (\<lambda>(t, d). arrived (re \<and> op = Op_Gosub) vs' t d) (edges v out tk)"
    "vi_successors v = Succ_Terminate \<Longrightarrow> re \<Longrightarrow> out = 0 \<or> exit_may_be_nonempty kind hg op"
proof -
  have weaken: "arrived False vs t d \<Longrightarrow> arrived b vs t d" for b vs t d by (auto simp: arrived_def)
  have "pushed (edges v out tk) vs wl vs' wl' \<and>
      list_all (\<lambda>(t, d). arrived (re \<and> op = Op_Gosub) vs' t d) (edges v out tk)"
  proof (cases "vi_successors v")
    case (Succ_Branch taken n)
    let ?defer = "re \<and> op = Op_Gosub"
    obtain vs1 wl1 where p1: "propagate_stack_depth alloc vs wl taken tk (vi_decoded v) ?defer = Inr (vs1, wl1)"
      and p2: "propagate_stack_depth alloc vs1 wl1 n out (vi_decoded v) False = Inr (vs', wl')"
      using assms(1) Succ_Branch by (auto simp: propagate_successors_def Let_def op_def)
    have es: "edges v out tk = [(taken, tk), (n, out)]" using Succ_Branch by (simp add: edges_def)
    have "pushed (edges v out tk) vs wl vs1 wl1" "pushed (edges v out tk) vs1 wl1 vs' wl'"
      using propagate_pushed(1) [OF p1] propagate_pushed(1) [OF p2] by (auto simp: es elim!: pushed_mono)
    moreover have "arrived ?defer vs' taken tk"
      using arrived_grows [OF propagate_pushed(2) [OF p1]] propagate_pushed(1) [OF p2] by (simp add: pushed_def)
    moreover have "arrived ?defer vs' n out" using weaken [OF propagate_pushed(2) [OF p2]] .
    ultimately show ?thesis using pushed_trans es by (metis list.pred_inject prod.case)
  qed (use assms(1) in \<open>auto simp: propagate_successors_def Let_def edges_def pushed_refl
        split: if_splits dest: propagate_pushed weaken\<close>)
  then show "pushed (edges v out tk) vs wl vs' wl'"
    "list_all (\<lambda>(t, d). arrived (re \<and> op = Op_Gosub) vs' t d) (edges v out tk)" by simp_all
  show "vi_successors v = Succ_Terminate \<Longrightarrow> re \<Longrightarrow> out = 0 \<or> exit_may_be_nonempty kind hg op"
    using assms(1) by (auto simp: propagate_successors_def Let_def op_def split: if_splits)
qed

lemma evaluate_entry_Inr:
  "evaluate_entry alloc limits re hg kind v h st = Inr st2 \<Longrightarrow>
     \<exists>out tk.
       transfer_depths limits (vi_decoded v) h (an_computed_max st) = Inr (out, tk, an_computed_max st2) \<and>
       propagate_successors alloc re hg kind v out tk (an_instructions st) (an_worklist st) =
         Inr (an_instructions st2, an_worklist st2) \<and>
       unat (an_evaluations st2) = unat (an_evaluations st) + 1 \<and>
       an_evaluations st2 \<le> max_transfer_evaluations limits"
  by (auto simp: evaluate_entry_def Let_def not_less dest: unat_checked_add)

text \<open>An invariant of one transfer is an invariant of the loop, which ends with an empty worklist.\<close>

lemma analysis_loop_invariant:
  assumes "analysis_loop alloc limits re hg kind st = Inr st'" and "P st"
    and step: "\<And>st index rest v h st2. P st \<Longrightarrow> an_worklist st = index # rest \<Longrightarrow>
      unat index < length (an_instructions st) \<Longrightarrow> v = an_instructions st ! unat index \<Longrightarrow>
      vi_entry_stack_depth v = Some h \<Longrightarrow>
      evaluate_entry alloc limits re hg kind v h (st\<lparr>an_worklist := rest\<rparr>) = Inr st2 \<Longrightarrow> P st2"
    and skip: "\<And>st index rest. P st \<Longrightarrow> an_worklist st = index # rest \<Longrightarrow>
      depth_at (an_instructions st) (unat index) = None \<Longrightarrow> unat index < length (an_instructions st) \<Longrightarrow>
      P (st\<lparr>an_worklist := rest\<rparr>)"
  shows "P st' \<and> an_worklist st' = []"
  using assms(1,2)
proof (induction "undecided (an_instructions st) + length (an_worklist st)" arbitrary: st rule: less_induct)
  case less
  show ?case
  proof (cases "an_worklist st")
    case Nil
    then show ?thesis using less.prems by (simp add: analysis_loop.simps)
  next
    case (Cons index rest)
    let ?st1 = "st\<lparr>an_worklist := rest\<rparr>" and ?v = "an_instructions st ! unat index"
    have idx: "unat index < length (an_instructions st)"
      using less.prems(1) Cons
      by (cases "get (an_instructions st) (unat index)") (auto simp: analysis_loop.simps [of _ _ _ _ _ st] Let_def)
    note loop = less.prems(1) [unfolded analysis_loop.simps [of alloc limits re hg kind st]]
    show ?thesis
    proof (cases "vi_entry_stack_depth ?v")
      case None
      have "analysis_loop alloc limits re hg kind ?st1 = Inr st'"
        using loop Cons idx None by (simp add: get_def)
      then show ?thesis
        using less.hyps [of ?st1] skip [OF less.prems(2) Cons None idx] Cons by simp
    next
      case (Some h)
      then obtain st2 where ev: "evaluate_entry alloc limits re hg kind ?v h ?st1 = Inr st2"
        and rest: "analysis_loop alloc limits re hg kind st2 = Inr st'"
        using loop Cons idx by (auto simp: get_def split: sum.splits)
      then show ?thesis
        using less.hyps [of st2] step [OF less.prems(2) Cons idx refl Some ev] evaluate_entry_budget [OF ev] Cons
        by simp
    qed
  qed
qed

definition settled ::
  "bool \<Rightarrow> bool \<Rightarrow> function_kind \<Rightarrow> verified_instruction list \<Rightarrow> u32 \<Rightarrow> verified_instruction \<Rightarrow> u32 \<Rightarrow> bool" where
  "settled re hg kind vs mx v h \<longleftrightarrow>
     (\<exists>out tk. nominal_effect (d_instruction (vi_decoded v)) (unat h) = Some (unat out, unat tk) \<and>
        out \<le> mx \<and> tk \<le> mx \<and>
        list_all (\<lambda>(t, d). arrived (re \<and> i_opcode (d_instruction (vi_decoded v)) = Op_Gosub) vs t d) (edges v out tk) \<and>
        (vi_successors v = Succ_Terminate \<and> re \<longrightarrow>
           out = 0 \<or> exit_may_be_nonempty kind hg (i_opcode (d_instruction (vi_decoded v)))))"

lemma settled_mono:
  assumes "settled re hg kind vs mx v h" "grows vs vs'" "mx \<le> mx'"
    "vi_decoded v' = vi_decoded v" "vi_successors v' = vi_successors v"
  shows "settled re hg kind vs' mx' v' h"
proof -
  obtain out tk where s: "nominal_effect (d_instruction (vi_decoded v)) (unat h) = Some (unat out, unat tk)"
    "out \<le> mx" "tk \<le> mx"
    "list_all (\<lambda>(t, d). arrived (re \<and> i_opcode (d_instruction (vi_decoded v)) = Op_Gosub) vs t d) (edges v out tk)"
    "vi_successors v = Succ_Terminate \<and> re \<longrightarrow>
       out = 0 \<or> exit_may_be_nonempty kind hg (i_opcode (d_instruction (vi_decoded v)))"
    using assms(1) unfolding settled_def by blast
  have "list_all (\<lambda>(t, d). arrived (re \<and> i_opcode (d_instruction (vi_decoded v)) = Op_Gosub) vs' t d) (edges v' out tk)"
    using s(4) arrived_grows [OF _ assms(2)] assms(5) by (auto simp: list_all_iff edges_def)
  moreover have "out \<le> mx'" "tk \<le> mx'" using s(2,3) assms(3) by auto
  ultimately show ?thesis
    unfolding settled_def assms(4,5) using s(1,5) by blast
qed

definition sound_inv ::
  "bool \<Rightarrow> bool \<Rightarrow> function_kind \<Rightarrow> verification_limits \<Rightarrow> verified_instruction list \<Rightarrow> analysis \<Rightarrow> bool" where
  "sound_inv re hg kind limits vs0 st \<longleftrightarrow>
     grows vs0 (an_instructions st) \<and> an_computed_max st \<le> max_stack_depth limits \<and>
     unat (an_evaluations st) + undecided (an_instructions st) + length (an_worklist st) = length vs0 \<and>
     (\<forall>t \<in> set (an_worklist st). unat t < length vs0 \<and> depth_at (an_instructions st) (unat t) \<noteq> None) \<and>
     (\<forall>i < length vs0. \<forall>h. depth_at (an_instructions st) i = Some h \<longrightarrow>
        i \<in> unat ` set (an_worklist st) \<or>
        settled re hg kind (an_instructions st) (an_computed_max st) (an_instructions st ! i) h)"

lemma sound_inv_step:
  assumes inv: "sound_inv re hg kind limits vs0 st" and wl: "an_worklist st = index # rest"
    and v: "v = an_instructions st ! unat index" and h: "vi_entry_stack_depth v = Some h"
    and ev: "evaluate_entry alloc limits re hg kind v h (st\<lparr>an_worklist := rest\<rparr>) = Inr st2"
  shows "sound_inv re hg kind limits vs0 st2"
proof -
  let ?vs = "an_instructions st" and ?vs2 = "an_instructions st2"
  let ?mx = "an_computed_max st" and ?mx2 = "an_computed_max st2"
  have g0: "grows vs0 ?vs" and len: "length ?vs = length vs0" and idx: "unat index < length vs0"
    using inv wl by (auto simp: sound_inv_def grows_def)
  obtain out tk where t: "transfer_depths limits (vi_decoded v) h ?mx = Inr (out, tk, ?mx2)"
    and p: "propagate_successors alloc re hg kind v out tk ?vs rest = Inr (?vs2, an_worklist st2)"
    and evs: "unat (an_evaluations st2) = unat (an_evaluations st) + 1"
    using evaluate_entry_Inr [OF ev] by auto
  note tr = transfer_depths_nominal [OF t] and pp = propagate_successors_pushed [OF p]
  have g: "grows ?vs ?vs2" and sub: "set rest \<subseteq> set (an_worklist st2)" using pp(1) by (simp_all add: pushed_def)
  have mx: "?mx \<le> ?mx2" "out \<le> ?mx2" "tk \<le> ?mx2" unfolding tr(4) by (auto simp: le_max_iff_disj)
  have vsame: "vi_decoded (?vs2 ! unat index) = vi_decoded v" "vi_successors (?vs2 ! unat index) = vi_successors v"
    using g idx len v by (simp_all add: grows_def)
  have "settled re hg kind ?vs2 ?mx2 v h"
    unfolding settled_def using tr(1) mx pp(2,3) by blast
  then have here: "settled re hg kind ?vs2 ?mx2 (?vs2 ! unat index) h"
    using settled_mono [OF _ grows_refl order_refl vsame] by blast
  have "i \<in> unat ` set (an_worklist st2) \<or> settled re hg kind ?vs2 ?mx2 (?vs2 ! i) k"
    if i: "i < length vs0" and k: "depth_at ?vs2 i = Some k" for i k
  proof (cases "depth_at ?vs i")
    case None
    then show ?thesis using pp(1) i k len by (fastforce simp: pushed_def)
  next
    case (Some k')
    then have eq: "depth_at ?vs i = Some k" using g i k len by (simp add: grows_def)
    then consider "i = unat index" | "i \<in> unat ` set rest" | "settled re hg kind ?vs ?mx (?vs ! i) k"
      using inv i wl unfolding sound_inv_def by auto
    then show ?thesis
    proof cases
      case 1
      then show ?thesis using here eq v h by simp
    next
      case 2
      then show ?thesis using sub by blast
    next
      case 3
      then show ?thesis
        using settled_mono [OF 3 g mx(1)] g i len by (simp add: grows_def)
    qed
  qed
  moreover have "\<forall>t \<in> set (an_worklist st2). unat t < length vs0 \<and> depth_at ?vs2 (unat t) \<noteq> None"
  proof
    fix t assume "t \<in> set (an_worklist st2)"
    then consider "t \<in> set rest" | "unat t < length ?vs" "depth_at ?vs2 (unat t) \<noteq> None"
      using pp(1) unfolding pushed_def by blast
    then show "unat t < length vs0 \<and> depth_at ?vs2 (unat t) \<noteq> None"
      using inv wl g len by cases (auto simp: sound_inv_def grows_def)
  qed
  moreover have "grows vs0 ?vs2" using grows_trans [OF g0 g] .
  moreover have "?mx2 \<le> max_stack_depth limits"
    using tr(2,3,4) inv by (simp add: sound_inv_def word_le_nat_alt unat_max)
  moreover have "unat (an_evaluations st2) + undecided ?vs2 + length (an_worklist st2) = length vs0"
    using evs evaluate_entry_budget [OF ev] inv wl by (simp add: sound_inv_def)
  ultimately show ?thesis by (simp add: sound_inv_def)
qed

lemma analysis_loop_sound:
  assumes "analysis_loop alloc limits re hg kind st = Inr st'" "sound_inv re hg kind limits vs0 st"
  shows "sound_inv re hg kind limits vs0 st' \<and> an_worklist st' = []"
proof (rule analysis_loop_invariant [where P = "sound_inv re hg kind limits vs0", OF assms], goal_cases)
  case 1
  then show ?case using sound_inv_step by blast
next
  case 2
  then show ?case by (auto simp: sound_inv_def)
qed

section \<open>Edges of the certificate are steps of the machine\<close>

lemma edge_is_step:
  assumes l: "linked ds (vi_decoded v) (vi_successors v)"
    and at: "instruction_at bs (uint (d_pc (vi_decoded v))) = Some (vi_decoded v)"
    and ef: "nominal_effect (d_instruction (vi_decoded v)) h = Some (unat out, unat tk)"
    and e: "(t, d) \<in> set (edges v out tk)"
  shows "unat t < length ds \<and> nominal_step bs (uint (d_pc (vi_decoded v)), h) (uint (d_pc (ds ! unat t)), unat d)"
  using l e at ef by (auto simp: linked_def edges_def points_to_def
      split: verified_successors.splits intro: nominal_step.intros)

lemma step_is_edge:
  assumes l: "linked ds (vi_decoded v) (vi_successors v)"
    and at: "instruction_at bs (uint (d_pc (vi_decoded v))) = Some (vi_decoded v)"
    and ef: "nominal_effect (d_instruction (vi_decoded v)) h = Some (unat out, unat tk)"
    and s: "nominal_step bs (uint (d_pc (vi_decoded v)), h) (p', h')"
  shows "\<exists>(t, d) \<in> set (edges v out tk). unat t < length ds \<and> p' = uint (d_pc (ds ! unat t)) \<and> h' = unat d"
  using s by (rule nominal_stepE)
    (use l at ef in \<open>auto simp: linked_def edges_def points_to_def split: verified_successors.splits\<close>)

text \<open>\<open>grounded bs vs\<close>: the vector's instructions stand in \<open>bs\<close> where they say and are linked.\<close>

definition grounded :: "u8 list \<Rightarrow> verified_instruction list \<Rightarrow> bool" where
  "grounded bs vs \<longleftrightarrow> (\<forall>v \<in> set vs.
     instruction_at bs (uint (d_pc (vi_decoded v))) = Some (vi_decoded v) \<and>
     linked (map vi_decoded vs) (vi_decoded v) (vi_successors v))"

lemma grounded_grows: "grounded bs vs \<Longrightarrow> grows vs vs' \<Longrightarrow> grounded bs vs'"
  using grows_decoded [of vs vs'] by (auto simp: grounded_def all_set_conv_all_nth grows_def)

lemma nominal_effect_le: "nominal_effect i h = Some (out, tk) \<Longrightarrow> out \<le> tk"
  by (auto simp: nominal_effect_def Let_def split: sum.splits if_splits)

definition attained :: "u8 list \<Rightarrow> u32 \<Rightarrow> bool" where
  "attained bs mx \<longleftrightarrow> mx = 0 \<or> (\<exists>p h d out. nominal_reachable bs (p, h) \<and> instruction_at bs p = Some d \<and>
     nominal_effect (d_instruction d) h = Some (out, unat mx))"

definition reach_inv :: "u8 list \<Rightarrow> verified_instruction list \<Rightarrow> analysis \<Rightarrow> bool" where
  "reach_inv bs vs0 st \<longleftrightarrow> grows vs0 (an_instructions st) \<and> attained bs (an_computed_max st) \<and>
     (\<forall>i < length vs0. \<forall>h. depth_at (an_instructions st) i = Some h \<longrightarrow>
        nominal_reachable bs (uint (d_pc (vi_decoded (an_instructions st ! i))), unat h))"

lemma reach_inv_step:
  assumes gr: "grounded bs vs0" and inv: "reach_inv bs vs0 st"
    and idx: "unat index < length (an_instructions st)"
    and v: "v = an_instructions st ! unat index" and h: "vi_entry_stack_depth v = Some h"
    and ev: "evaluate_entry alloc limits re hg kind v h (st\<lparr>an_worklist := rest\<rparr>) = Inr st2"
  shows "reach_inv bs vs0 st2"
proof -
  let ?vs = "an_instructions st" and ?vs2 = "an_instructions st2"
  have g0: "grows vs0 ?vs" and len: "length ?vs = length vs0" using inv by (auto simp: reach_inv_def grows_def)
  have at: "instruction_at bs (uint (d_pc (vi_decoded v))) = Some (vi_decoded v)"
    and l: "linked (map vi_decoded ?vs) (vi_decoded v) (vi_successors v)"
    using grounded_grows [OF gr g0] idx v by (auto simp: grounded_def)
  have here: "nominal_reachable bs (uint (d_pc (vi_decoded v)), unat h)"
    using inv idx len v h by (simp add: reach_inv_def)
  obtain out tk where t: "transfer_depths limits (vi_decoded v) h (an_computed_max st) = Inr (out, tk, an_computed_max st2)"
    and p: "propagate_successors alloc re hg kind v out tk ?vs rest = Inr (?vs2, an_worklist st2)"
    using evaluate_entry_Inr [OF ev] by auto
  note tr = transfer_depths_nominal [OF t] and pp = propagate_successors_pushed [OF p]
  have g: "grows ?vs ?vs2" using pp(1) by (simp add: pushed_def)
  have "out \<le> tk" using nominal_effect_le [OF tr(1)] by (simp add: word_le_nat_alt)
  then have "an_computed_max st2 = an_computed_max st \<or> an_computed_max st2 = tk"
    unfolding tr(4) by (auto simp: max_def)
  then have att: "attained bs (an_computed_max st2)"
    using inv here at tr(1) unfolding reach_inv_def attained_def by metis
  have "nominal_reachable bs (uint (d_pc (vi_decoded (?vs2 ! i))), unat k)"
    if i: "i < length vs0" and k: "depth_at ?vs2 i = Some k" for i k
  proof -
    have same: "vi_decoded (?vs2 ! i) = vi_decoded (?vs ! i)" using g i len by (simp add: grows_def)
    have "depth_at ?vs2 i = depth_at ?vs i \<or>
        (\<exists>(t, d) \<in> set (edges v out tk). unat t = i \<and> depth_at ?vs2 i = Some d \<and> t \<in> set (an_worklist st2))"
      using pp(1) i len unfolding pushed_def by simp
    then consider "depth_at ?vs2 i = depth_at ?vs i" | t where "(t, k) \<in> set (edges v out tk)" "unat t = i"
      using k by auto
    then show ?thesis
    proof cases
      case 1
      then show ?thesis using inv i k unfolding reach_inv_def same by simp
    next
      case 2
      then have "nominal_step bs (uint (d_pc (vi_decoded v)), unat h) (uint (d_pc (vi_decoded (?vs2 ! i))), unat k)"
        using edge_is_step [OF l at tr(1) 2(1)] i len same by simp
      then show ?thesis using here by (simp add: rtranclp.rtrancl_into_rtrancl)
    qed
  qed
  then show ?thesis using att grows_trans [OF g0 g] by (simp add: reach_inv_def)
qed

lemma analysis_loop_reach:
  assumes "analysis_loop alloc limits re hg kind st = Inr st'" "reach_inv bs vs0 st" and gr: "grounded bs vs0"
  shows "reach_inv bs vs0 st' \<and> an_worklist st' = []"
proof (rule analysis_loop_invariant [where P = "reach_inv bs vs0", OF assms(1,2)], goal_cases)
  case 1
  then show ?case using reach_inv_step [OF gr] by blast
next
  case 2
  then show ?case by (auto simp: reach_inv_def)
qed

section \<open>The stack certificate\<close>

text \<open>What the dataflow establishes on a grounded vector, in one place.\<close>

definition certified :: "bool \<Rightarrow> function_kind \<Rightarrow> verification_limits \<Rightarrow> u8 list \<Rightarrow> verified_instruction list \<Rightarrow>
    u32 \<Rightarrow> u64 \<Rightarrow> bool" where
  "certified re kind limits bs vs mx evaluations \<longleftrightarrow>
     vs \<noteq> [] \<and> grounded bs vs \<and> d_pc (vi_decoded (vs ! 0)) = 0 \<and> depth_at vs 0 = Some 0 \<and>
     mx \<le> max_stack_depth limits \<and> attained bs mx \<and>
     unat evaluations + undecided vs = length vs \<and>
     (\<forall>i < length vs. \<forall>h. depth_at vs i = Some h \<longrightarrow>
        nominal_reachable bs (uint (d_pc (vi_decoded (vs ! i))), unat h) \<and>
        settled re (list_ex (\<lambda>v. i_opcode (d_instruction (vi_decoded v)) = Op_Gosub) vs) kind vs mx (vs ! i) h)"

lemma list_ex_map_decoded: "list_ex (\<lambda>v. P (vi_decoded v)) vs \<longleftrightarrow> list_ex P (map vi_decoded vs)"
  by (induction vs) auto

lemma analyze_certified:
  assumes ok: "analyze_ordinary_stack alloc vs kind limits re = Inr c"
    and gr: "grounded bs vs" and none: "\<forall>v \<in> set vs. vi_entry_stack_depth v = None"
    and first: "vs \<noteq> [] \<Longrightarrow> d_pc (vi_decoded (vs ! 0)) = 0"
  shows "certified re kind limits bs (sc_instructions c) (sc_computed_stack_size c) (sc_transfer_evaluations c)"
    "map vi_decoded (sc_instructions c) = map vi_decoded vs"
proof -
  obtain e rest where vs: "vs = e # rest" using ok by (cases vs) (simp_all add: analyze_ordinary_stack_def)
  define vs0 where "vs0 = e\<lparr>vi_entry_stack_depth := Some 0\<rparr> # rest"
  define hg where "hg = list_ex (\<lambda>v. i_opcode (d_instruction (vi_decoded v)) = Op_Gosub) vs0"
  define st0 where "st0 = \<lparr>an_instructions = vs0, an_worklist = [0 :: u32], an_computed_max = 0, an_evaluations = 0\<rparr>"
  obtain st where loop: "analysis_loop alloc limits re hg kind st0 = Inr st"
    and c: "c = \<lparr>sc_instructions = an_instructions st, sc_computed_stack_size = an_computed_max st,
      sc_transfer_evaluations = an_evaluations st\<rparr>"
    using ok by (auto simp: analyze_ordinary_stack_def vs Let_def vs0_def hg_def st0_def)
  have g: "grows vs vs0" using none by (auto simp: grows_def vs vs0_def nth_Cons split: nat.splits)
  note gr0 = grounded_grows [OF gr g]
  have dep: "depth_at vs0 i = (if i = 0 then Some 0 else None)" if "i < length vs0" for i
    using none that by (cases i) (auto simp: vs vs0_def)
  have und: "undecided vs0 = length rest" using none by (simp add: undecided_def vs vs0_def)
  have pc0: "d_pc (vi_decoded (vs0 ! 0)) = 0" using first by (simp add: vs vs0_def)
  have "sound_inv re hg kind limits vs0 st0"
    using dep und by (auto simp: sound_inv_def st0_def vs0_def)
  then have s: "sound_inv re hg kind limits vs0 st" "an_worklist st = []"
    using analysis_loop_sound [OF loop] by auto
  have "reach_inv bs vs0 st0"
    using dep pc0 by (auto simp: reach_inv_def st0_def attained_def split: if_splits)
  then have r: "reach_inv bs vs0 st" using analysis_loop_reach [OF loop _ gr0] by blast
  have g2: "grows vs0 (an_instructions st)" using s(1) by (simp add: sound_inv_def)
  have hg2: "list_ex (\<lambda>v. i_opcode (d_instruction (vi_decoded v)) = Op_Gosub) (an_instructions st) = hg"
    unfolding hg_def list_ex_map_decoded [of "\<lambda>d. i_opcode (d_instruction d) = Op_Gosub"] grows_decoded [OF g2] ..
  have nonempty: "0 < length vs0" by (simp add: vs0_def)
  have len: "length (an_instructions st) = length vs0" using g2 by (simp add: grows_def)
  show "map vi_decoded (sc_instructions c) = map vi_decoded vs"
    using grows_decoded [OF g2] grows_decoded [OF g] by (simp add: c)
  have d0: "depth_at (an_instructions st) 0 = Some 0" "vi_decoded (an_instructions st ! 0) = vi_decoded (vs0 ! 0)"
    using g2 dep [OF nonempty] nonempty unfolding grows_def by auto
  show "certified re kind limits bs (sc_instructions c) (sc_computed_stack_size c) (sc_transfer_evaluations c)"
    unfolding certified_def c stack_certificate.simps hg2
    using s r grounded_grows [OF gr0 g2] d0 pc0 nonempty len by (auto simp: sound_inv_def reach_inv_def)
qed

section \<open>From the pipeline to the certificate\<close>

lemma laid_out_drop:
  "laid_out p ds \<Longrightarrow> d \<in> set ds \<Longrightarrow>
     \<exists>rest. drop (unat (d_pc d) - p) (stream_bytes ds) = instruction_bytes (d_instruction d) @ rest"
proof (induction ds arbitrary: p)
  case (Cons e ds)
  show ?case
  proof (cases "d = e")
    case True
    then show ?thesis using Cons.prems by auto
  next
    case False
    let ?n = "length (instruction_bytes (d_instruction e))"
    have l: "laid_out (p + ?n) ds" and d: "d \<in> set ds" using Cons.prems False by simp_all
    have "unat (d_pc d) - p = ?n + (unat (d_pc d) - (p + ?n))" using laid_out_bounds [OF l d] by simp
    then show ?thesis using Cons.IH [OF l d] by simp
  qed
qed simp

lemma laid_out_next:
  "laid_out p ds \<Longrightarrow> d \<in> set ds \<Longrightarrow>
     unat (d_next_pc d) = unat (d_pc d) + length (instruction_bytes (d_instruction d))"
  by (induction ds arbitrary: p) auto

lemma predecoded_instruction_at:
  assumes pre: "predecoded bs ds bm" and d: "d \<in> set ds"
  shows "instruction_at bs (uint (d_pc d)) = Some d"
proof -
  have l: "laid_out 0 ds" and bs: "bs = stream_bytes ds" using pre by (auto simp: predecoded_def)
  note b = laid_out_bounds [OF l d, unfolded bs [symmetric]]
  obtain rest where drop: "drop (unat (d_pc d)) bs = instruction_bytes (d_instruction d) @ rest"
    using laid_out_drop [OF l d] bs by auto
  have n: "unat (d_next_pc d) = unat (d_pc d) + length (instruction_bytes (d_instruction d))"
    using laid_out_next [OF l d] .
  have "decode_instruction bs (d_pc d) = Inr d"
    using drop n b laid_out_valid [OF l d] unat_u32_bound [of "d_next_pc d"]
    by (auto simp: decode_instruction_eq_Inr)
  moreover have "int (unat (d_pc d)) < int (length bs)" using b by linarith
  ultimately show ?thesis by (simp add: instruction_at_def)
qed

lemma predecoded_grounded:
  assumes pre: "predecoded bs ds bm"
    and ok: "validate_static_semantics alloc ds bm (length bs) domains kind caps consts cg = Inr vs"
  shows "grounded bs vs"
  using static_semantics_linked [OF pre ok] predecoded_instruction_at [OF pre]
  by (auto simp: grounded_def)

lemma transpose_map_Inr: "transpose_map f x = Inr y \<longleftrightarrow>
    (case x of None \<Rightarrow> y = None | Some v \<Rightarrow> (\<exists>w. f v = Inr w \<and> y = Some w))"
  by (auto simp: transpose_map_def split: option.splits)

lemma check_capability_kind:
  "check_capability kind caps consts cg v = Inr () \<Longrightarrow> validate_function_kind_opcode (vi_decoded v) kind = Inr ()"
  unfolding check_capability_def Let_def and_then_eq_Inr by blast

text \<open>Everything a successful run of the pipeline has established.\<close>

definition passed ::
  "allocator \<Rightarrow> u8 list \<Rightarrow> function_index_domains \<Rightarrow> stack_verification_mode \<Rightarrow> verification_limits \<Rightarrow>
     verified_control_flow \<Rightarrow> bool" where
  "passed alloc bs domains mode limits v \<longleftrightarrow>
     vc_bytecode v = bs \<and> vc_domains v = domains \<and> bs \<noteq> [] \<and> max_stack_depth limits \<le> 65534 \<and>
     predecoded bs (map vi_decoded (vc_instructions v)) (vc_bitmap v) \<and>
     length (vc_instructions v) \<le> unat (max_instructions_per_function limits) \<and>
     certified (requires_empty_exits mode) (vh_kind (vc_function_header v)) limits bs (vc_instructions v)
       (vc_computed_stack_size v) (vc_transfer_evaluations v) \<and>
     (\<forall>d \<in> vi_decoded ` set (vc_instructions v).
        validate_operand_indices d domains = Inr () \<and> validate_secondary_operands d domains = Inr () \<and>
        validate_function_kind_opcode d (vh_kind (vc_function_header v)) = Inr ())"

lemma verify_common_passed:
  assumes "verify_control_flow_common alloc bs domains header mode caps consts limits = Inr v"
  shows "passed alloc bs domains mode limits v"
proof -
  obtain pb vh vcaps vconsts vs c where
    lim: "validate_limits_and_counts (length bs) domains header (mode_expected_stack_size mode) limits = Inr ()"
    and ne: "bs \<noteq> []"
    and pb: "predecode_complete alloc bs (max_instructions_per_function limits) = Inr pb"
    and vs: "validate_static_semantics alloc (pb_instructions pb) (pb_bitmap pb) (length bs) domains
        (vh_kind vh) vcaps vconsts (requires_empty_exits mode) = Inr vs"
    and c: "analyze_ordinary_stack alloc vs (vh_kind vh) limits (requires_empty_exits mode) = Inr c"
    and v: "v = \<lparr>vc_bytecode = bs, vc_instructions = sc_instructions c,
            vc_bitmap = pb_bitmap pb, vc_computed_stack_size = sc_computed_stack_size c,
            vc_transfer_evaluations = sc_transfer_evaluations c, vc_domains = domains,
            vc_function_header = vh, vc_capture_layout = map_option vcl_layout vcaps,
            vc_constant_layout = vconsts\<rparr>"
    using assms unfolding verify_control_flow_common_def and_then_eq_Inr err_if_eq_Inr by fastforce
  let ?ds = "pb_instructions pb"
  note pre = predecode_complete_predecoded(1) [OF pb]
  note lnk = static_semantics_linked [OF pre vs]
  have "?ds \<noteq> []" using pre ne by (auto simp: predecoded_def)
  then have first: "d_pc (vi_decoded (vs ! 0)) = 0"
    using lnk(1) pre laid_out_first by (cases ?ds; cases vs) (auto simp: predecoded_def)
  note cert = analyze_certified [OF c predecoded_grounded [OF pre vs] _ first]
  have none: "\<forall>v \<in> set vs. vi_entry_stack_depth v = None" using lnk(2) by blast
  have dec: "map vi_decoded (sc_instructions c) = ?ds" using cert(2) [OF none] lnk(1) by simp
  then have len: "length (sc_instructions c) = length ?ds" by (metis length_map)
  have m: "try_map (structural_instruction domains ?ds (pb_bitmap pb) (length bs)) ?ds = Inr vs"
    and cap: "\<forall>v \<in> set vs. check_capability (vh_kind vh) vcaps vconsts (requires_empty_exits mode) v = Inr ()"
    using vs by (auto simp: validate_static_semantics_def)
  have "validate_operand_indices d domains = Inr () \<and> validate_secondary_operands d domains = Inr () \<and>
      validate_function_kind_opcode d (vh_kind vh) = Inr ()" if mem: "d \<in> set ?ds" for d
  proof -
    obtain i where i: "i < length ?ds" "d = ?ds ! i" using mem by (metis in_set_conv_nth)
    have s: "structural_instruction domains ?ds (pb_bitmap pb) (length bs) d = Inr (vs ! i)"
      using try_map_nth [OF m i(1)] i(2) by simp
    have "vi_decoded (vs ! i) = d" using structural_instruction_linked(1) [OF pre s] .
    moreover have "vs ! i \<in> set vs" using i(1) try_map_length [OF m] by simp
    ultimately have "validate_function_kind_opcode d (vh_kind vh) = Inr ()"
      using cap check_capability_kind [of "vh_kind vh" vcaps vconsts "requires_empty_exits mode" "vs ! i"] by simp
    then show ?thesis using s unfolding structural_instruction_def and_then_eq_Inr by simp
  qed
  moreover have "vi_decoded ` set (sc_instructions c) = set ?ds" using dec by (metis set_map)
  ultimately show ?thesis
    using lim ne pre cert(1) [OF none] len dec predecode_complete_predecoded(2) [OF pb]
    by (simp add: passed_def v validate_limits_and_counts_iff)
qed

end
