(* ===== verification/Verifier_Guarantees.thy ===== *)
theory Verifier_Guarantees
  imports Verifier_Soundness
begin

text \<open>
  The guarantees of the two entry points of the verifier, \<^verbatim>\<open>verify_control_flow\<close> and
  \<^verbatim>\<open>verify_compiler_control_flow\<close>: exact reachability, absence of stuck states, exact stack
  size, empty exits, bounded work and operand bounds. They rest on the invariants of theory
  \<open>Verifier_Soundness\<close> through the contract \<open>depth_certificate\<close>.
\<close>

section \<open>Depth certificates\<close>

text \<open>
  The contract of a certificate of stack depths: it knows the start node, it is closed under
  the steps of the program it certifies, and it names only depths that are reached. A client
  needs nothing else to know exactly which states an execution can reach.
\<close>

locale depth_certificate =
  fixes accepts_cert :: "'prog \<Rightarrow> 'cert \<Rightarrow> bool"
    and start :: "'node"
    and depth :: "'cert \<Rightarrow> 'node \<Rightarrow> nat option"
    and step :: "'prog \<Rightarrow> 'node \<times> nat \<Rightarrow> 'node \<times> nat \<Rightarrow> bool"
  assumes start_depth: "accepts_cert P C \<Longrightarrow> depth C start = Some 0"
    and step_depth: "accepts_cert P C \<Longrightarrow> depth C n = Some h \<Longrightarrow> step P (n, h) (n', h') \<Longrightarrow> depth C n' = Some h'"
    and depth_reached: "accepts_cert P C \<Longrightarrow> depth C n = Some h \<Longrightarrow> (step P)\<^sup>*\<^sup>* (start, 0) (n, h)"
begin

lemma reachable_depth:
  assumes "accepts_cert P C" "(step P)\<^sup>*\<^sup>* (start, 0) s"
  shows "depth C (fst s) = Some (snd s)"
  using assms(2)
proof (induction rule: rtranclp_induct)
  case base
  then show ?case using start_depth [OF assms(1)] by simp
next
  case (step s t)
  then show ?case using step_depth [OF assms(1), of "fst s" "snd s" "fst t" "snd t"] by simp
qed

lemma reachable_iff: "accepts_cert P C \<Longrightarrow> (step P)\<^sup>*\<^sup>* (start, 0) (n, h) \<longleftrightarrow> depth C n = Some h"
  using reachable_depth [of P C "(n, h)"] depth_reached by auto

lemma reachable_unique:
  "accepts_cert P C \<Longrightarrow> (step P)\<^sup>*\<^sup>* (start, 0) (n, h) \<Longrightarrow> (step P)\<^sup>*\<^sup>* (start, 0) (n, h') \<Longrightarrow> h = h'"
  by (simp add: reachable_iff)

end

text \<open>The entry depth a client reads off a certificate for a byte position.\<close>

definition entry_depth_at :: "verified_control_flow \<Rightarrow> bytecode_pc \<Rightarrow> u32 option" where
  "entry_depth_at v p =
     (case vc_instruction_index_at v p of
        None \<Rightarrow> None
      | Some i \<Rightarrow> (case vc_instruction v i of None \<Rightarrow> None | Some w \<Rightarrow> vi_entry_stack_depth w))"

definition entry_depth :: "verified_control_flow \<Rightarrow> int \<Rightarrow> nat option" where
  "entry_depth v p =
     (if 0 \<le> p \<and> p < 2 ^ 32 then map_option unat (entry_depth_at v (word_of_int p)) else None)"

text \<open>A certificate whose joins were all checked exactly.\<close>

definition exact_certificate :: "u8 list \<Rightarrow> verified_control_flow \<Rightarrow> bool" where
  "exact_certificate bs v \<longleftrightarrow>
     (\<exists>alloc domains mode limits. passed alloc bs domains mode limits v \<and>
        (requires_empty_exits mode \<longrightarrow>
           (\<forall>w \<in> set (vc_instructions v). i_opcode (d_instruction (vi_decoded w)) \<noteq> Op_Gosub)))"

lemma vc_index_iff:
  assumes "passed alloc bs domains mode limits v"
  shows "vc_instruction_index_at v p = Some i \<longleftrightarrow>
     unat i < length (vc_instructions v) \<and> d_pc (vi_decoded (vc_instructions v ! unat i)) = p"
proof -
  let ?vs = "vc_instructions v"
  have pre: "predecoded bs (map vi_decoded ?vs) (vc_bitmap v)" and bs: "vc_bytecode v = bs"
    using assms by (simp_all add: passed_def)
  have srt: "sorted_wrt (\<lambda>a b. (d_pc \<circ> vi_decoded) a < (d_pc \<circ> vi_decoded) b) ?vs"
    using laid_out_sorted [of 0 "map vi_decoded ?vs"] pre by (simp add: predecoded_def sorted_wrt_map)
  have "is_instruction_start (vc_bitmap v) (length bs) p \<longleftrightarrow> p \<in> d_pc ` set (map vi_decoded ?vs)"
    using pre unfolding predecoded_def by blast
  then have start: "is_instruction_start (vc_bitmap v) (length bs) p \<longleftrightarrow> p \<in> (d_pc \<circ> vi_decoded) ` set ?vs"
    by (simp add: image_image)
  show ?thesis
  proof
    assume "vc_instruction_index_at v p = Some i"
    then obtain n where "binary_search_by_key (d_pc \<circ> vi_decoded) p ?vs = Some n" "u32_try_from n = Some i"
      by (auto simp: vc_instruction_index_at_def instruction_index_at_def split: if_splits option.splits)
    then show "unat i < length ?vs \<and> d_pc (vi_decoded (?vs ! unat i)) = p"
      using unat_u32_try_from binary_search_by_key_iff [OF srt] by auto
  next
    assume i: "unat i < length ?vs \<and> d_pc (vi_decoded (?vs ! unat i)) = p"
    then have "binary_search_by_key (d_pc \<circ> vi_decoded) p ?vs = Some (unat i)"
      using binary_search_by_key_iff [OF srt] by (simp add: comp_def)
    moreover have "is_instruction_start (vc_bitmap v) (length bs) p" using i start by auto
    moreover have "u32_try_from (unat i) = Some i" by (simp add: u32_try_from_Some)
    ultimately show "vc_instruction_index_at v p = Some i"
      by (simp add: vc_instruction_index_at_def instruction_index_at_def bs)
  qed
qed

lemma entry_depth_iff:
  assumes p: "passed alloc bs domains mode limits v"
  shows "entry_depth v q = Some h \<longleftrightarrow>
     (\<exists>i < length (vc_instructions v). uint (d_pc (vi_decoded (vc_instructions v ! i))) = q \<and>
        (\<exists>w. depth_at (vc_instructions v) i = Some w \<and> unat w = h))"
proof -
  let ?vs = "vc_instructions v"
  have len: "length ?vs < 2 ^ 32" using p by (auto simp: passed_def predecoded_def)
  have at: "entry_depth_at v x = Some w \<longleftrightarrow>
      (\<exists>i < length ?vs. d_pc (vi_decoded (?vs ! i)) = x \<and> depth_at ?vs i = Some w)" for x w
  proof
    assume "entry_depth_at v x = Some w"
    then obtain i where "vc_instruction_index_at v x = Some i" "depth_at ?vs (unat i) = Some w"
      by (auto simp: entry_depth_at_def vc_instruction_def split: option.splits)
    then show "\<exists>i < length ?vs. d_pc (vi_decoded (?vs ! i)) = x \<and> depth_at ?vs i = Some w"
      using vc_index_iff [OF p] by blast
  next
    assume "\<exists>i < length ?vs. d_pc (vi_decoded (?vs ! i)) = x \<and> depth_at ?vs i = Some w"
    then obtain i where i: "i < length ?vs" "d_pc (vi_decoded (?vs ! i)) = x" "depth_at ?vs i = Some w" by blast
    have u: "unat (word_of_nat i :: u32) = i" using i(1) len by (intro unat_word_of_nat_u32) simp
    then have "vc_instruction_index_at v x = Some (word_of_nat i)" using vc_index_iff [OF p] i by simp
    then show "entry_depth_at v x = Some w"
      using i u by (simp add: entry_depth_at_def vc_instruction_def get_def)
  qed
  have "uint y = q \<longleftrightarrow> 0 \<le> q \<and> q < 2 ^ 32 \<and> y = word_of_int q" for y :: u32
  proof
    assume "uint y = q"
    then show "0 \<le> q \<and> q < 2 ^ 32 \<and> y = word_of_int q" using uint_lt2p [of y] by auto
  next
    assume q: "0 \<le> q \<and> q < 2 ^ 32 \<and> y = word_of_int q"
    then have "take_bit 32 q = q" by (simp add: take_bit_int_eq_self_iff)
    then show "uint y = q" using q by (simp add: uint_word_of_int_eq)
  qed
  then show ?thesis by (auto simp: entry_depth_def at)
qed

lemma settled_closed:
  assumes gr: "grounded bs vs" and i: "i < length vs" and s: "settled re hg kind vs mx (vs ! i) w"
    and nd: "re \<Longrightarrow> i_opcode (d_instruction (vi_decoded (vs ! i))) \<noteq> Op_Gosub"
    and st: "nominal_step bs (uint (d_pc (vi_decoded (vs ! i))), unat w) (q, h)"
  shows "\<exists>j < length vs. uint (d_pc (vi_decoded (vs ! j))) = q \<and> (\<exists>w. depth_at vs j = Some w \<and> unat w = h)"
proof -
  let ?v = "vs ! i"
  have at: "instruction_at bs (uint (d_pc (vi_decoded ?v))) = Some (vi_decoded ?v)"
    and l: "linked (map vi_decoded vs) (vi_decoded ?v) (vi_successors ?v)"
    using gr i by (auto simp: grounded_def)
  obtain out tk where ef: "nominal_effect (d_instruction (vi_decoded ?v)) (unat w) = Some (unat out, unat tk)"
    and arr: "list_all (\<lambda>(t, d). arrived (re \<and> i_opcode (d_instruction (vi_decoded ?v)) = Op_Gosub) vs t d)
      (edges ?v out tk)"
    using s unfolding settled_def by blast
  from step_is_edge [OF l at ef st] obtain t d where t: "(t, d) \<in> set (edges ?v out tk)" "unat t < length vs"
    "q = uint (d_pc (vi_decoded (vs ! unat t)))" "h = unat d"
    by auto
  moreover have "depth_at vs (unat t) = Some d"
    using arr t(1) nd by (auto simp: list_all_iff arrived_def)
  ultimately show ?thesis by blast
qed

interpretation cert: depth_certificate exact_certificate "0 :: int" entry_depth nominal_step
proof (unfold_locales, goal_cases)
  case (1 bs v)
  then obtain alloc domains mode limits where p: "passed alloc bs domains mode limits v"
    by (auto simp: exact_certificate_def)
  then show ?case
    unfolding entry_depth_iff [OF p] by (intro exI [of _ 0]) (auto simp: passed_def certified_def)
next
  case (2 bs v n h n' h')
  then obtain alloc domains mode limits where p: "passed alloc bs domains mode limits v"
    and nd: "requires_empty_exits mode \<Longrightarrow> w \<in> set (vc_instructions v) \<Longrightarrow>
      i_opcode (d_instruction (vi_decoded w)) \<noteq> Op_Gosub" for w
    by (auto simp: exact_certificate_def)
  obtain i w where i: "i < length (vc_instructions v)" "uint (d_pc (vi_decoded (vc_instructions v ! i))) = n"
    "depth_at (vc_instructions v) i = Some w" "unat w = h"
    using 2(2) unfolding entry_depth_iff [OF p] by blast
  let ?vs = "vc_instructions v"
  have gr: "grounded bs ?vs" and s: "settled (requires_empty_exits mode)
      (list_ex (\<lambda>v. i_opcode (d_instruction (vi_decoded v)) = Op_Gosub) ?vs) (vh_kind (vc_function_header v)) ?vs
      (vc_computed_stack_size v) (?vs ! i) w"
    using p i unfolding passed_def certified_def by blast+
  have "nominal_step bs (uint (d_pc (vi_decoded (?vs ! i))), unat w) (n', h')" using 2(3) i by simp
  from settled_closed [OF gr i(1) s _ this] nd i(1) show ?case
    unfolding entry_depth_iff [OF p] by simp
next
  case (3 bs v n h)
  then obtain alloc domains mode limits where p: "passed alloc bs domains mode limits v"
    by (auto simp: exact_certificate_def)
  then show ?case
    using 3(2) unfolding entry_depth_iff [OF p] passed_def certified_def by blast
qed

lemma verify_control_flow_passed:
  assumes "verify_control_flow alloc body limits = Inr v"
  shows "passed alloc (ub_bytecode body) (ub_domains body) (Mode_Serialized (ub_expected_stack_size body)) limits v"
    "vc_computed_stack_size v = ub_expected_stack_size body"
    "exact_certificate (ub_bytecode body) v"
proof -
  show p: "passed alloc (ub_bytecode body) (ub_domains body) (Mode_Serialized (ub_expected_stack_size body)) limits v"
    and "vc_computed_stack_size v = ub_expected_stack_size body"
    using assms by (auto simp: verify_control_flow_def Let_def split: if_splits intro: verify_common_passed)
  then show "exact_certificate (ub_bytecode body) v" unfolding exact_certificate_def by fastforce
qed

section \<open>Guarantees of serialized verification\<close>

lemma passed_entry:
  assumes p: "passed alloc bs domains mode limits v" and e: "entry_depth v q = Some h"
  obtains d out tk where "instruction_at bs q = Some d" "d \<in> vi_decoded ` set (vc_instructions v)"
    "nominal_effect (d_instruction d) h = Some (out, tk)" "tk \<le> unat (vc_computed_stack_size v)"
    "shape_of d = Some Shape_Terminate \<or> (\<exists>s. nominal_step bs (q, h) s)"
    "shape_of d = Some Shape_Terminate \<Longrightarrow> requires_empty_exits mode \<Longrightarrow> out = 0 \<or>
       exit_may_be_nonempty (vh_kind (vc_function_header v))
         (list_ex (\<lambda>v. i_opcode (d_instruction (vi_decoded v)) = Op_Gosub) (vc_instructions v))
         (i_opcode (d_instruction d))"
proof -
  let ?vs = "vc_instructions v"
  obtain i w where i: "i < length ?vs" "uint (d_pc (vi_decoded (?vs ! i))) = q" "depth_at ?vs i = Some w" "unat w = h"
    using e unfolding entry_depth_iff [OF p] by blast
  let ?v = "?vs ! i"
  have s: "settled (requires_empty_exits mode)
      (list_ex (\<lambda>v. i_opcode (d_instruction (vi_decoded v)) = Op_Gosub) ?vs) (vh_kind (vc_function_header v)) ?vs
      (vc_computed_stack_size v) ?v w" and gr: "grounded bs ?vs"
    using p i unfolding passed_def certified_def by blast+
  have at: "instruction_at bs (uint (d_pc (vi_decoded ?v))) = Some (vi_decoded ?v)"
    and l: "linked (map vi_decoded ?vs) (vi_decoded ?v) (vi_successors ?v)"
    using gr i(1) by (auto simp: grounded_def)
  obtain out tk where all: "nominal_effect (d_instruction (vi_decoded ?v)) (unat w) = Some (unat out, unat tk) \<and>
      out \<le> vc_computed_stack_size v \<and> tk \<le> vc_computed_stack_size v \<and>
      list_all (\<lambda>(t, d). arrived (requires_empty_exits mode \<and>
        i_opcode (d_instruction (vi_decoded ?v)) = Op_Gosub) ?vs t d) (edges ?v out tk) \<and>
      (vi_successors ?v = Succ_Terminate \<and> requires_empty_exits mode \<longrightarrow>
        out = 0 \<or> exit_may_be_nonempty (vh_kind (vc_function_header v))
          (list_ex (\<lambda>v. i_opcode (d_instruction (vi_decoded v)) = Op_Gosub) ?vs)
          (i_opcode (d_instruction (vi_decoded ?v))))"
    using s unfolding settled_def by (elim exE)
  then have ef: "nominal_effect (d_instruction (vi_decoded ?v)) (unat w) = Some (unat out, unat tk)"
    and tk: "tk \<le> vc_computed_stack_size v" by simp_all
  have tm: "shape_of (vi_decoded ?v) = Some Shape_Terminate \<longleftrightarrow> vi_successors ?v = Succ_Terminate"
    using l by (auto simp: linked_def split: verified_successors.splits)
  have "\<exists>s. nominal_step bs (q, h) s" if "vi_successors ?v \<noteq> Succ_Terminate"
  proof -
    from that obtain t d where "(t, d) \<in> set (edges ?v out tk)"
      by (cases "vi_successors ?v") (auto simp: edges_def)
    from edge_is_step [OF l at ef this] show ?thesis using i by auto
  qed
  with tm have prog: "shape_of (vi_decoded ?v) = Some Shape_Terminate \<or> (\<exists>s. nominal_step bs (q, h) s)"
    by blast
  show thesis
    by (rule that [of "vi_decoded ?v" "unat out" "unat tk"])
       (use at ef tk all tm prog i in \<open>auto simp: word_le_nat_alt unat_eq_0\<close>)
qed

text \<open>
  A concrete function for the witnesses: a conditional jump over one instruction.
\<close>

definition sample_bytes :: "u8 list" where
  "sample_bytes = concat (map (instruction_bytes \<circ> to_instruction)
     [(Op_PushTrue, Opd_None), (Op_IfFalse, Opd_Label 5), (Op_Nop, Opd_None), (Op_ReturnUndef, Opd_None)])"

definition sample_domains :: function_index_domains where
  "sample_domains = \<lparr>atom_pool_len = 0, constant_pool_len = 0, argument_count = 0, local_count = 0,
     closure_var_count = 0\<rparr>"

definition sample_body :: unverified_function_body where
  "sample_body = \<lparr>ub_bytecode = sample_bytes, ub_expected_stack_size = 1, ub_domains = sample_domains,
     ub_function_header = ordinary_source_function False 0\<rparr>"

definition sample_flow :: verified_control_flow where
  "sample_flow = projr (verify_control_flow (\<lambda>_ _. True) sample_body UNTRUSTED)"

lemma sample_verified: "verify_control_flow (\<lambda>_ _. True) sample_body UNTRUSTED = Inr sample_flow"
proof -
  have "\<not> isl (verify_control_flow (\<lambda>_ _. True) sample_body UNTRUSTED)" by code_simp
  then show ?thesis by (simp add: sample_flow_def)
qed

text \<open>
  C2. The certificate of serialized bytecode is exact: the nominal machine reaches byte
  position \<open>p\<close> with \<open>h\<close> values on the stack if and only if \<open>p\<close> is an instruction of the
  certificate whose entry depth is \<open>h\<close>. In particular every position has at most one
  reachable depth and an instruction without entry depth is unreachable.
\<close>

theorem serialized_reachability_exact:
  assumes "verify_control_flow alloc body limits = Inr v"
  shows "nominal_reachable (ub_bytecode body) (p, h) \<longleftrightarrow> entry_depth v p = Some h"
  by (rule cert.reachable_iff [OF verify_control_flow_passed(3) [OF assms]])

theorem serialized_reachability_exact_witness:
  "nominal_reachable (ub_bytecode sample_body) (0, 0) \<longleftrightarrow> entry_depth sample_flow 0 = Some 0"
  by (rule serialized_reachability_exact [OF sample_verified])

text \<open>
  C1. Verified serialized bytecode never goes wrong: in every reachable state the position
  starts an instruction, the stack holds the values the instruction removes, no edge leaves
  more values than the declared stack size, and unless the instruction ends the function the
  machine can take a step.
\<close>

theorem serialized_never_stuck:
  assumes "verify_control_flow alloc body limits = Inr v"
    and "nominal_reachable (ub_bytecode body) (p, h)"
  shows "\<exists>d out tk. instruction_at (ub_bytecode body) p = Some d \<and>
     nominal_effect (d_instruction d) h = Some (out, tk) \<and> out \<le> tk \<and> tk \<le> unat (ub_expected_stack_size body) \<and>
     (shape_of d = Some Shape_Terminate \<or> (\<exists>s. nominal_step (ub_bytecode body) (p, h) s))"
proof -
  note v = verify_control_flow_passed [OF assms(1)]
  have e: "entry_depth v p = Some h" using cert.reachable_iff [OF v(3)] assms(2) by blast
  show ?thesis using passed_entry [OF v(1) e] v(2) nominal_effect_le by metis
qed

theorem serialized_never_stuck_witness:
  "\<exists>d out tk. instruction_at (ub_bytecode sample_body) 0 = Some d \<and>
     nominal_effect (d_instruction d) 0 = Some (out, tk) \<and> out \<le> tk \<and>
     tk \<le> unat (ub_expected_stack_size sample_body) \<and>
     (shape_of d = Some Shape_Terminate \<or> (\<exists>s. nominal_step (ub_bytecode sample_body) (0, 0) s))"
  by (rule serialized_never_stuck [OF sample_verified rtranclp.rtrancl_refl])

text \<open>
  C21. The declared stack size of verified serialized bytecode is exactly the largest number
  of values any reachable edge leaves on the stack, and it respects the structural maximum.
\<close>

theorem serialized_stack_size_exact:
  assumes "verify_control_flow alloc body limits = Inr v"
  defines "bs \<equiv> ub_bytecode body" and "declared \<equiv> unat (ub_expected_stack_size body)"
  shows "(\<forall>p h d out tk. nominal_reachable bs (p, h) \<and> instruction_at bs p = Some d \<and>
            nominal_effect (d_instruction d) h = Some (out, tk) \<longrightarrow> tk \<le> declared) \<and>
    (declared = 0 \<or> (\<exists>p h d out. nominal_reachable bs (p, h) \<and> instruction_at bs p = Some d \<and>
            nominal_effect (d_instruction d) h = Some (out, declared))) \<and>
    declared \<le> unat (max_stack_depth limits) \<and> unat (max_stack_depth limits) \<le> 65534"
proof -
  note v = verify_control_flow_passed [OF assms(1)]
  have bound: "tk \<le> declared" if "nominal_reachable bs (p, h)" "instruction_at bs p = Some d"
      "nominal_effect (d_instruction d) h = Some (out, tk)" for p h d out tk
  proof -
    have "entry_depth v p = Some h" using cert.reachable_iff [OF v(3)] that(1) bs_def by blast
    from passed_entry [OF v(1) this] that(2,3) v(2) show ?thesis
      unfolding bs_def declared_def by (metis option.inject prod.inject)
  qed
  have "attained bs (ub_expected_stack_size body)" "ub_expected_stack_size body \<le> max_stack_depth limits"
    "max_stack_depth limits \<le> 65534"
    using v(1,2) by (simp_all add: passed_def certified_def bs_def)
  then show ?thesis
    using bound by (auto simp: attained_def declared_def word_le_nat_alt unat_eq_0)
qed

theorem serialized_stack_size_exact_witness:
  "unat (ub_expected_stack_size sample_body) = 1 \<and>
   (\<exists>p h d out. nominal_reachable (ub_bytecode sample_body) (p, h) \<and>
      instruction_at (ub_bytecode sample_body) p = Some d \<and>
      nominal_effect (d_instruction d) h = Some (out, 1))"
  using serialized_stack_size_exact [OF sample_verified] by (simp add: sample_body_def)

section \<open>Guarantees of compiler verification\<close>




definition compiler_sample :: unverified_compiler_function_body where
  "compiler_sample = \<lparr>cb_bytecode = [41], cb_domains = sample_domains,
     cb_function_header = ordinary_source_function True 0, cb_capture_layout = None, cb_constant_layout = None\<rparr>"

definition compiler_sample_flow :: verified_control_flow where
  "compiler_sample_flow = projr (verify_compiler_control_flow (\<lambda>_ _. True) compiler_sample UNTRUSTED)"

lemma compiler_sample_verified:
  "verify_compiler_control_flow (\<lambda>_ _. True) compiler_sample UNTRUSTED = Inr compiler_sample_flow"
proof -
  have "\<not> isl (verify_compiler_control_flow (\<lambda>_ _. True) compiler_sample UNTRUSTED)" by code_simp
  then show ?thesis by (simp add: compiler_sample_flow_def)
qed





text \<open>
  C23. The dataflow work is bounded by the function: the verifier evaluates every reachable
  instruction exactly once and nothing else, so the recorded number of transfers is the number
  of instructions with an entry depth, at most the number of instructions, at most the limit on
  instructions.
\<close>

theorem transfer_evaluations_exact:
  assumes "verify_control_flow_common alloc bytecode domains header mode caps consts limits = Inr v"
  shows "unat (vc_transfer_evaluations v) =
      length (filter (\<lambda>w. vi_entry_stack_depth w \<noteq> None) (vc_instructions v)) \<and>
    unat (vc_transfer_evaluations v) \<le> length (vc_instructions v) \<and>
    length (vc_instructions v) \<le> unat (max_instructions_per_function limits)"
proof -
  have p: "unat (vc_transfer_evaluations v) + undecided (vc_instructions v) = length (vc_instructions v)"
    "length (vc_instructions v) \<le> unat (max_instructions_per_function limits)"
    using verify_common_passed [OF assms] by (auto simp: passed_def certified_def)
  have "length (filter (\<lambda>w. vi_entry_stack_depth w \<noteq> None) (vc_instructions v)) + undecided (vc_instructions v) =
      length (vc_instructions v)"
    unfolding undecided_def using sum_length_filter_compl [of "\<lambda>w. vi_entry_stack_depth w \<noteq> None"] by simp
  with p show ?thesis by linarith
qed

theorem transfer_evaluations_exact_witness:
  "unat (vc_transfer_evaluations compiler_sample_flow) =
      length (filter (\<lambda>w. vi_entry_stack_depth w \<noteq> None) (vc_instructions compiler_sample_flow))"
  using transfer_evaluations_exact [OF compiler_sample_verified [unfolded verify_compiler_control_flow_def]] by blast

section \<open>Guarantees on operands\<close>

text \<open>The positions of the frame an instruction names, with the size of their domain.\<close>

definition named_slots :: "function_index_domains \<Rightarrow> instruction \<Rightarrow> (u32 \<times> u32) list" where
  "named_slots domains i =
     (case i_operands i of
        Opd_Const n \<Rightarrow> [(n, constant_pool_len domains)]
      | Opd_Const8 n \<Rightarrow> [(ucast n, constant_pool_len domains)]
      | Opd_Loc n \<Rightarrow> [(ucast n, local_count domains)]
      | Opd_Loc8 n \<Rightarrow> [(ucast n, local_count domains)]
      | Opd_Arg n \<Rightarrow> [(ucast n, argument_count domains)]
      | Opd_VarRef n \<Rightarrow> [(ucast n, closure_var_count domains)]
      | Opd_Atom a \<Rightarrow> [(a, atom_pool_len domains)]
      | Opd_AtomU8 a _ \<Rightarrow> [(a, atom_pool_len domains)]
      | Opd_AtomLabelU8 a _ _ \<Rightarrow> [(a, atom_pool_len domains)]
      | Opd_AtomLabelU16 a _ _ \<Rightarrow> [(a, atom_pool_len domains)]
      | Opd_AtomU16 a n \<Rightarrow> (a, atom_pool_len domains) #
          (if i_opcode i = Op_MakeLocRef then [(ucast n, local_count domains)]
           else if i_opcode i = Op_MakeArgRef then [(ucast n, argument_count domains)]
           else if i_opcode i = Op_MakeVarRefRef then [(ucast n, closure_var_count domains)] else [])
      | Opd_NoneLoc \<Rightarrow> map (\<lambda>n. (n, local_count domains)) (case implied_local_index (i_opcode i) of None \<Rightarrow> [] | Some n \<Rightarrow> [n])
      | Opd_NoneArg \<Rightarrow> map (\<lambda>n. (n, argument_count domains)) (case implied_argument_index (i_opcode i) of None \<Rightarrow> [] | Some n \<Rightarrow> [n])
      | Opd_NoneVarRef \<Rightarrow> map (\<lambda>n. (n, closure_var_count domains)) (case implied_closure_variable_index (i_opcode i) of None \<Rightarrow> [] | Some n \<Rightarrow> [n])
      | _ \<Rightarrow> [])"

lemma validate_operand_indices_slots:
  "validate_operand_indices d domains = Inr () \<Longrightarrow> list_all (\<lambda>(n, len). n < len) (named_slots domains (d_instruction d))"
  by (cases "i_operands (d_instruction d)")
     (auto simp: validate_operand_indices_def validate_index_def named_slots_def atom_pool_index_def Let_def not_le
        split: if_splits option.splits)

text \<open>
  C24. No verified instruction names a slot outside its domain: every constant, atom, local,
  argument and closure-variable index of every instruction of a certificate, reachable or not,
  explicit or implied by a short opcode, is below the length of the domain it indexes; and
  the enclosing function has a kind the opcode is allowed in.
\<close>

theorem verified_operands_in_bounds:
  assumes "verify_control_flow_common alloc bytecode domains header mode caps consts limits = Inr v"
    and "w \<in> set (vc_instructions v)"
  defines "i \<equiv> d_instruction (vi_decoded w)"
  shows "list_all (\<lambda>(n, len). n < len) (named_slots domains i) \<and>
    (case function_kind_requirement_of (i_opcode i) of
       None \<Rightarrow> True | Some r \<Rightarrow> accepts r (vh_kind (vc_function_header v)))"
proof -
  have "validate_operand_indices (vi_decoded w) domains = Inr ()"
    "validate_function_kind_opcode (vi_decoded w) (vh_kind (vc_function_header v)) = Inr ()"
    using verify_common_passed [OF assms(1)] assms(2) by (auto simp: passed_def)
  then show ?thesis
    using validate_operand_indices_slots [of "vi_decoded w" domains]
    by (auto simp: i_def validate_function_kind_opcode_def split: option.splits)
qed

theorem verified_operands_in_bounds_witness:
  "list_all (\<lambda>w. list_all (\<lambda>(n, len). n < len) (named_slots sample_domains (d_instruction (vi_decoded w))))
     (vc_instructions compiler_sample_flow)"
  using verified_operands_in_bounds [OF compiler_sample_verified [unfolded verify_compiler_control_flow_def]]
  by (simp add: compiler_sample_def list_all_iff)

end
