(* ===== verification/Assembler.thy ===== *)
theory Assembler
  imports Codec
begin

text \<open>
  The symbolic assembler of \<^verbatim>\<open>fusor-bytecode/src/assembler.rs\<close>: labels owned by one
  assembler, branch kinds with their encodable widths, goto threading, branch
  relaxation and final emission through the bounded builder.

  Sizes (\<open>u8\<close>), byte positions (\<open>u64\<close>) and the evaluation counter (\<open>u64\<close>) are natural
  numbers with the checks of the source written out; label numbers are \<open>u32\<close> words and
  displacements (\<open>i64\<close>) are integers. The owner identity, an \<^verbatim>\<open>Arc\<close> compared by address,
  is a number that \<open>with_limits\<close> receives. A slice access out of range, where the source
  panics, is the extra error \<open>AE_Panic\<close>.
\<close>

section \<open>Labels, branches and items\<close>

record assembler_label =
  al_identity :: nat
  al_index :: u32

datatype branch_kind = BK_IfFalse | BK_IfTrue | BK_Goto | BK_Catch | BK_Gosub

primrec long_opcode :: "branch_kind \<Rightarrow> final_opcode" where
  "long_opcode BK_IfFalse = Op_IfFalse"
| "long_opcode BK_IfTrue = Op_IfTrue"
| "long_opcode BK_Goto = Op_Goto"
| "long_opcode BK_Catch = Op_Catch"
| "long_opcode BK_Gosub = Op_Gosub"

definition supports_width :: "branch_kind \<Rightarrow> nat \<Rightarrow> bool" where
  "supports_width kind w =
     (case kind of
        BK_IfFalse \<Rightarrow> w = 2 \<or> w = 5
      | BK_IfTrue \<Rightarrow> w = 2 \<or> w = 5
      | BK_Goto \<Rightarrow> w = 2 \<or> w = 3 \<or> w = 5
      | BK_Catch \<Rightarrow> w = 5
      | BK_Gosub \<Rightarrow> w = 5)"

primrec branch_minimum_size :: "branch_kind \<Rightarrow> nat" where
  "branch_minimum_size BK_IfFalse = 2"
| "branch_minimum_size BK_IfTrue = 2"
| "branch_minimum_size BK_Goto = 2"
| "branch_minimum_size BK_Catch = 5"
| "branch_minimum_size BK_Gosub = 5"

datatype assembly_item =
  Item_Instruction instruction
| Item_Branch branch_kind u32
| Item_WithBranch final_opcode atom_pool_index u8 u32

datatype branch_target_state = BT_Unknown | BT_Resolving | BT_Terminal u32 | BT_Cycle

primrec minimum_size :: "assembly_item \<Rightarrow> nat" where
  "minimum_size (Item_Instruction i) = unat (encoded_size i)"
| "minimum_size (Item_Branch kind l) = branch_minimum_size kind"
| "minimum_size (Item_WithBranch op atom v l) = 10"

section \<open>Limits, errors and the assembler state\<close>

record assembler_limits =
  max_bytecode_bytes :: u32
  max_instructions :: u32
  max_relaxation_evaluations :: u64

definition assembler_limits_default :: assembler_limits where
  "assembler_limits_default =
     \<lparr>max_bytecode_bytes = - 1, max_instructions = - 1, max_relaxation_evaluations = - 1\<rparr>"

datatype assembler_resource = AR_Instructions | AR_RelaxationEvaluations

datatype assembler_error =
  AE_LimitExceeded assembler_resource u32 nat nat
| AE_TooManyLabels
| AE_TooManyInstructions
| AE_AllocationFailed string nat
| AE_ForeignLabel
| AE_UnknownLabel u32
| AE_DuplicateLabel u32
| AE_UnboundLabel u32
| AE_TargetAtEnd u32
| AE_SymbolicBranchRequired final_opcode
| AE_InvalidInstruction u32 instruction_error
| AE_EncodedLengthOutOfRange nat
| AE_BranchDisplacementOutOfRange u32 u32 int
| AE_Encoding u32 encode_error
| AE_LayoutMismatch u32 bytecode_pc bytecode_pc
| AE_Panic

type_synonym 'a assembled = "(assembler_error, 'a) result"

definition error_instruction_index :: "assembler_error \<Rightarrow> u32 option" where
  "error_instruction_index e =
     (case e of
        AE_LimitExceeded _ i _ _ \<Rightarrow> Some i
      | AE_InvalidInstruction i _ \<Rightarrow> Some i
      | AE_BranchDisplacementOutOfRange i _ _ \<Rightarrow> Some i
      | AE_Encoding i _ \<Rightarrow> Some i
      | AE_LayoutMismatch i _ _ \<Rightarrow> Some i
      | _ \<Rightarrow> None)"

definition error_label_index :: "assembler_error \<Rightarrow> u32 option" where
  "error_label_index e =
     (case e of
        AE_UnknownLabel l \<Rightarrow> Some l
      | AE_DuplicateLabel l \<Rightarrow> Some l
      | AE_UnboundLabel l \<Rightarrow> Some l
      | AE_TargetAtEnd l \<Rightarrow> Some l
      | AE_BranchDisplacementOutOfRange _ l _ \<Rightarrow> Some l
      | _ \<Rightarrow> None)"

record assembled_bytecode =
  ab_bytecode :: "u8 list"
  ab_instruction_pcs :: "bytecode_pc list"

record bytecode_assembler =
  as_identity :: nat
  as_items :: "assembly_item list"
  as_label_bindings :: "usize option list"
  as_limits :: assembler_limits

definition with_limits :: "nat \<Rightarrow> assembler_limits \<Rightarrow> bytecode_assembler" where
  "with_limits identity limits =
     \<lparr>as_identity = identity, as_items = [], as_label_bindings = [], as_limits = limits\<rparr>"

definition assembler_new :: "nat \<Rightarrow> bytecode_assembler" where
  "assembler_new identity = with_limits identity assembler_limits_default"

definition assembler_with_byte_limit :: "nat \<Rightarrow> u32 \<Rightarrow> bytecode_assembler" where
  "assembler_with_byte_limit identity byte_limit =
     with_limits identity
       \<lparr>max_bytecode_bytes = byte_limit, max_instructions = - 1, max_relaxation_evaluations = - 1\<rparr>"

text \<open>Slice indexing, with the panic of an index out of range as an error.\<close>

definition idx :: "'a list \<Rightarrow> nat \<Rightarrow> 'a assembled" where
  "idx xs i = ok_or (get xs i) AE_Panic"

definition u64_checked_add :: "nat \<Rightarrow> nat \<Rightarrow> nat option" where
  "u64_checked_add a b = (if a + b < 2 ^ 64 then Some (a + b) else None)"

definition usize_to_u64 :: "usize \<Rightarrow> nat" where
  "usize_to_u64 n = (if n < 2 ^ 64 then n else 2 ^ 64 - 1)"

section \<open>Building the plan\<close>

definition new_label :: "allocator \<Rightarrow> bytecode_assembler \<Rightarrow> (assembler_label \<times> bytecode_assembler) assembled" where
  "new_label alloc a =
     and_then (ok_or (u32_try_from (length (as_label_bindings a))) AE_TooManyLabels)
       (\<lambda>index. and_then (err_if (\<not> alloc (length (as_label_bindings a)) 1)
                            (AE_AllocationFailed ''label'' 1))
       (\<lambda>_. Inr (\<lparr>al_identity = as_identity a, al_index = index\<rparr>,
                 a\<lparr>as_label_bindings := as_label_bindings a @ [None]\<rparr>)))"

definition resolve_label :: "bytecode_assembler \<Rightarrow> assembler_label \<Rightarrow> usize option assembled" where
  "resolve_label a label =
     and_then (err_if (as_identity a \<noteq> al_identity label) AE_ForeignLabel)
       (\<lambda>_. ok_or (get (as_label_bindings a) (unat (al_index label))) (AE_UnknownLabel (al_index label)))"

definition bind :: "bytecode_assembler \<Rightarrow> assembler_label \<Rightarrow> bytecode_assembler assembled" where
  "bind a label =
     and_then (resolve_label a label)
       (\<lambda>binding. and_then (err_if (binding \<noteq> None) (AE_DuplicateLabel (al_index label)))
       (\<lambda>_. Inr (a\<lparr>as_label_bindings :=
                    (as_label_bindings a)[unat (al_index label) := Some (length (as_items a))]\<rparr>)))"

definition next_instruction_index :: "bytecode_assembler \<Rightarrow> u32 assembled" where
  "next_instruction_index a =
     and_then (ok_or (u32_try_from (length (as_items a))) AE_TooManyInstructions)
       (\<lambda>instruction_index.
          let observed = unat instruction_index + 1; limit = unat (max_instructions (as_limits a))
          in and_then (err_if (limit < observed)
                         (AE_LimitExceeded AR_Instructions instruction_index limit observed))
               (\<lambda>_. Inr instruction_index))"

definition push_item :: "allocator \<Rightarrow> bytecode_assembler \<Rightarrow> assembly_item \<Rightarrow> bytecode_assembler assembled" where
  "push_item alloc a item =
     and_then (err_if (\<not> alloc (length (as_items a)) 1) (AE_AllocationFailed ''instruction'' 1))
       (\<lambda>_. Inr (a\<lparr>as_items := as_items a @ [item]\<rparr>))"

definition contains_symbolic_label :: "operand_format \<Rightarrow> bool" where
  "contains_symbolic_label format \<longleftrightarrow>
     format \<in> {Fmt_Label8, Fmt_Label16, Fmt_Label, Fmt_AtomLabelU8, Fmt_AtomLabelU16, Fmt_LabelU16}"

definition assembler_push ::
  "allocator \<Rightarrow> bytecode_assembler \<Rightarrow> final_opcode \<Rightarrow> operands \<Rightarrow> (u32 \<times> bytecode_assembler) assembled" where
  "assembler_push alloc a op o1 =
     and_then (next_instruction_index a)
       (\<lambda>instruction_index.
          and_then (map_err (AE_InvalidInstruction instruction_index) (instruction_new op o1))
       (\<lambda>instruction.
          and_then (err_if (contains_symbolic_label (operand_format (metadata (i_opcode instruction))))
                      (AE_SymbolicBranchRequired op))
       (\<lambda>_. and_then (push_item alloc a (Item_Instruction instruction))
       (\<lambda>a'. Inr (instruction_index, a')))))"

definition assembler_branch ::
  "allocator \<Rightarrow> bytecode_assembler \<Rightarrow> branch_kind \<Rightarrow> assembler_label \<Rightarrow> (u32 \<times> bytecode_assembler) assembled" where
  "assembler_branch alloc a kind target =
     and_then (resolve_label a target)
       (\<lambda>_. and_then (next_instruction_index a)
       (\<lambda>instruction_index. and_then (push_item alloc a (Item_Branch kind (al_index target)))
       (\<lambda>a'. Inr (instruction_index, a'))))"

abbreviation with_opcodes :: "final_opcode set" where
  "with_opcodes \<equiv> {Op_WithGetVar, Op_WithPutVar, Op_WithDeleteVar, Op_WithMakeRef, Op_WithGetRef}"

definition with_branch ::
  "allocator \<Rightarrow> bytecode_assembler \<Rightarrow> final_opcode \<Rightarrow> atom_pool_index \<Rightarrow> u8 \<Rightarrow> assembler_label \<Rightarrow>
     (u32 \<times> bytecode_assembler) assembled" where
  "with_branch alloc a op atom v target =
     and_then (resolve_label a target)
       (\<lambda>_. and_then (next_instruction_index a)
       (\<lambda>instruction_index.
          and_then (err_if (op \<notin> with_opcodes)
                      (AE_InvalidInstruction instruction_index
                         (OperandFormatMismatch op (operand_format (metadata op)) Fmt_AtomLabelU8)))
       (\<lambda>_. and_then (map_err (AE_InvalidInstruction instruction_index)
                        (instruction_new op (Opd_AtomLabelU8 atom 0 v)))
       (\<lambda>_. and_then (push_item alloc a (Item_WithBranch op atom v (al_index target)))
       (\<lambda>a'. Inr (instruction_index, a'))))))"

section \<open>Label validation\<close>

definition target_position :: "bytecode_assembler \<Rightarrow> u32 \<Rightarrow> usize assembled" where
  "target_position a label_index =
     ok_or (Option.bind (get (as_label_bindings a) (unat label_index)) id) (AE_UnknownLabel label_index)"

definition item_label :: "assembly_item \<Rightarrow> u32 option" where
  "item_label item =
     (case item of Item_Instruction _ \<Rightarrow> None | Item_Branch _ l \<Rightarrow> Some l | Item_WithBranch _ _ _ l \<Rightarrow> Some l)"

fun check_binding :: "nat \<times> usize option \<Rightarrow> unit assembled" where
  "check_binding (index, None) =
     and_then (ok_or (u32_try_from index) AE_TooManyLabels) (\<lambda>i. Inl (AE_UnboundLabel i))"
| "check_binding (index, Some position) = Inr ()"

definition validate_bound_labels :: "bytecode_assembler \<Rightarrow> unit assembled" where
  "validate_bound_labels a =
     and_then (try_for_each check_binding (List.enumerate 0 (as_label_bindings a)))
       (\<lambda>_. try_for_each
         (\<lambda>item. case item_label item of
            None \<Rightarrow> Inr ()
          | Some l \<Rightarrow> and_then (target_position a l)
              (\<lambda>target. err_if (target = length (as_items a)) (AE_TargetAtEnd l)))
         (as_items a))"

section \<open>Goto threading\<close>

definition label_goto_target :: "bytecode_assembler \<Rightarrow> nat \<Rightarrow> u32 option" where
  "label_goto_target a label_index =
     (case Option.bind (get (as_label_bindings a) label_index) id of
        None \<Rightarrow> None
      | Some position \<Rightarrow>
          (case get (as_items a) position of
             Some (Item_Branch BK_Goto target) \<Rightarrow> Some target
           | _ \<Rightarrow> None))"

text \<open>Draining the path: every label on it gets the same final state.\<close>

definition settle_path :: "nat list \<Rightarrow> branch_target_state \<Rightarrow> branch_target_state list \<Rightarrow> branch_target_state list" where
  "settle_path path v states = fold (\<lambda>label st. st[label := v]) path states"

text \<open>The inner loop of \<^verbatim>\<open>thread_redundant_goto_targets\<close>; each round resolves one more label.\<close>

lemma count_unknown_update:
  "c < length states \<Longrightarrow> states ! c = BT_Unknown \<Longrightarrow>
     length (filter (\<lambda>s. s = BT_Unknown) (states[c := BT_Resolving])) <
     length (filter (\<lambda>s. s = BT_Unknown) states)"
proof (induction states arbitrary: c)
  case (Cons s states)
  then show ?case by (cases c) auto
qed simp

function resolve_chain ::
  "bytecode_assembler \<Rightarrow> nat \<Rightarrow> branch_target_state list \<Rightarrow> nat list \<Rightarrow> branch_target_state list assembled" where
  "resolve_chain a current states path =
     (case get states current of
        None \<Rightarrow> Inl AE_Panic
      | Some BT_Unknown \<Rightarrow>
          (case label_goto_target a current of
             None \<Rightarrow> and_then (ok_or (u32_try_from current) AE_TooManyLabels)
               (\<lambda>terminal. Inr (settle_path (path @ [current]) (BT_Terminal terminal)
                                  (states[current := BT_Resolving])))
           | Some next_label \<Rightarrow>
               resolve_chain a (unat next_label) (states[current := BT_Resolving]) (path @ [current]))
      | Some BT_Resolving \<Rightarrow> Inr (settle_path path BT_Cycle states)
      | Some BT_Cycle \<Rightarrow> Inr (settle_path path BT_Cycle states)
      | Some (BT_Terminal terminal) \<Rightarrow> Inr (settle_path path (BT_Terminal terminal) states))"
  by pat_completeness auto
termination
  by (relation "measure (\<lambda>(a, c, states, path). length (filter (\<lambda>s. s = BT_Unknown) states))")
     (auto dest: count_unknown_update)

declare resolve_chain.simps [simp del]

definition resolve_start ::
  "bytecode_assembler \<Rightarrow> branch_target_state list \<Rightarrow> nat \<Rightarrow> branch_target_state list assembled" where
  "resolve_start a states start =
     and_then (idx states start)
       (\<lambda>st. if st = BT_Unknown then resolve_chain a start states [] else Inr states)"

definition rewrite_item :: "branch_target_state list \<Rightarrow> assembly_item \<Rightarrow> assembly_item assembled" where
  "rewrite_item states item =
     (case item of
        Item_Branch kind label_index \<Rightarrow>
          (if kind \<in> {BK_IfFalse, BK_IfTrue, BK_Goto}
           then and_then (idx states (unat label_index))
             (\<lambda>st. Inr (case st of
                          BT_Terminal target \<Rightarrow>
                            if target \<noteq> label_index then Item_Branch kind target else item
                        | _ \<Rightarrow> item))
           else Inr item)
      | _ \<Rightarrow> Inr item)"

definition thread_redundant_goto_targets :: "allocator \<Rightarrow> bytecode_assembler \<Rightarrow> bytecode_assembler assembled" where
  "thread_redundant_goto_targets alloc a =
     (let label_count = length (as_label_bindings a); requested = usize_to_u64 label_count
      in and_then (err_if (\<not> alloc 0 label_count) (AE_AllocationFailed ''branch target state'' requested))
          (\<lambda>_. and_then (err_if (\<not> alloc 0 label_count) (AE_AllocationFailed ''branch target path'' requested))
          (\<lambda>_. and_then (try_fold (resolve_start a) [0..<label_count] (replicate label_count BT_Unknown))
          (\<lambda>states. and_then (try_map (rewrite_item states) (as_items a))
          (\<lambda>items. Inr (a\<lparr>as_items := items\<rparr>))))))"

section \<open>Branch relaxation\<close>

definition populate_instruction_positions :: "nat list \<Rightarrow> nat list assembled" where
  "populate_instruction_positions widths =
     try_fold (\<lambda>positions w.
         and_then (ok_or (u64_checked_add (last positions) w) (AE_EncodedLengthOutOfRange (2 ^ 64 - 1)))
           (\<lambda>next_position. Inr (positions @ [next_position])))
       widths [0]"

definition in_i64 :: "int \<Rightarrow> bool" where
  "in_i64 x \<longleftrightarrow> - (2 ^ 63) \<le> x \<and> x < 2 ^ 63"

definition signed_displacement :: "nat \<Rightarrow> nat \<Rightarrow> int assembled" where
  "signed_displacement source_pc target_pc =
     and_then (ok_or (u64_checked_add source_pc 1) (AE_EncodedLengthOutOfRange source_pc))
       (\<lambda>base. let displacement = int target_pc - int base
               in and_then (err_if (\<not> in_i64 displacement)
                              (AE_EncodedLengthOutOfRange (max source_pc target_pc)))
                    (\<lambda>_. Inr displacement))"

definition i8_try_from :: "int \<Rightarrow> u8 option" where
  "i8_try_from x = (if - (2 ^ 7) \<le> x \<and> x < 2 ^ 7 then Some (word_of_int x) else None)"

definition i16_try_from :: "int \<Rightarrow> u16 option" where
  "i16_try_from x = (if - (2 ^ 15) \<le> x \<and> x < 2 ^ 15 then Some (word_of_int x) else None)"

definition i32_try_from :: "int \<Rightarrow> u32 option" where
  "i32_try_from x = (if - (2 ^ 31) \<le> x \<and> x < 2 ^ 31 then Some (word_of_int x) else None)"

definition displacement_fits :: "nat \<Rightarrow> int \<Rightarrow> bool" where
  "displacement_fits candidate displacement =
     (if candidate = 2 then i8_try_from displacement \<noteq> None
      else if candidate = 3 then i16_try_from displacement \<noteq> None
      else if candidate = 5 then i32_try_from displacement \<noteq> None
      else False)"

text \<open>The position the target has once the branch itself has grown by \<open>added\<close> bytes.\<close>

definition grown_target :: "nat \<Rightarrow> nat \<Rightarrow> nat list \<Rightarrow> nat \<Rightarrow> nat assembled" where
  "grown_target source_position target_position' positions added =
     and_then (idx positions target_position')
       (\<lambda>target. if source_position < target_position'
                 then ok_or (u64_checked_add target added) (AE_EncodedLengthOutOfRange target)
                 else Inr target)"

primrec fitting_candidate ::
  "branch_kind \<Rightarrow> nat \<Rightarrow> nat \<Rightarrow> nat \<Rightarrow> nat list \<Rightarrow> nat list \<Rightarrow> nat option assembled" where
  "fitting_candidate kind current_size source_position target_position' positions [] = Inr None"
| "fitting_candidate kind current_size source_position target_position' positions (candidate # cs) =
     (if candidate < current_size \<or> \<not> supports_width kind candidate
      then fitting_candidate kind current_size source_position target_position' positions cs
      else and_then (grown_target source_position target_position' positions (candidate - current_size))
        (\<lambda>candidate_target. and_then (idx positions source_position)
        (\<lambda>source. and_then (signed_displacement source candidate_target)
        (\<lambda>displacement.
           if displacement_fits candidate displacement then Inr (Some candidate)
           else fitting_candidate kind current_size source_position target_position' positions cs))))"

definition required_branch_size ::
  "branch_kind \<Rightarrow> nat \<Rightarrow> nat \<Rightarrow> nat \<Rightarrow> nat list \<Rightarrow> u32 \<Rightarrow> u32 \<Rightarrow> nat assembled" where
  "required_branch_size kind current_size source_position target_position' positions
      instruction_index label_index =
     and_then (fitting_candidate kind current_size source_position target_position' positions [2, 3, 5])
       (\<lambda>r. case r of
          Some candidate \<Rightarrow> Inr candidate
        | None \<Rightarrow>
            (let widest = unat (instruction_size (metadata (long_opcode kind)))
             in and_then (grown_target source_position target_position' positions (widest - current_size))
                 (\<lambda>widest_target. and_then (idx positions source_position)
                 (\<lambda>source. and_then (signed_displacement source widest_target)
                 (\<lambda>displacement.
                    Inl (AE_BranchDisplacementOutOfRange instruction_index label_index displacement))))))"

definition charge_relaxation_pass :: "bytecode_assembler \<Rightarrow> nat \<Rightarrow> nat assembled" where
  "charge_relaxation_pass a completed =
     (let requested = usize_to_u64 (length (as_items a));
          limit = unat (max_relaxation_evaluations (as_limits a));
          remaining = limit - completed
      in if remaining < requested
         then and_then (ok_or (u32_try_from remaining) AE_TooManyInstructions)
           (\<lambda>denied_index. Inl (AE_LimitExceeded AR_RelaxationEvaluations denied_index limit
                                  (min (limit + 1) (2 ^ 64 - 1))))
         else Inr (completed + requested))"

text \<open>One visit of a relaxation pass: widen the branch at \<open>position\<close> when it does not fit.\<close>

definition relax_item ::
  "bytecode_assembler \<Rightarrow> nat list \<Rightarrow> nat list \<times> bool \<Rightarrow> nat \<times> assembly_item \<Rightarrow> (nat list \<times> bool) assembled" where
  "relax_item a positions st entry =
     (case (st, entry) of
        ((widths, changed), (position, Item_Branch kind label_index)) \<Rightarrow>
          and_then (target_position a label_index)
            (\<lambda>target. and_then (idx widths position)
            (\<lambda>width. and_then (ok_or (u32_try_from position) AE_TooManyInstructions)
            (\<lambda>instruction_index.
               and_then (required_branch_size kind width position target positions
                           instruction_index label_index)
            (\<lambda>desired. Inr (if width < desired then (widths[position := desired], True)
                            else (widths, changed))))))
      | _ \<Rightarrow> Inr st)"

definition relax_pass ::
  "bytecode_assembler \<Rightarrow> nat list \<Rightarrow> nat list \<Rightarrow> (nat list \<times> bool) assembled" where
  "relax_pass a positions widths =
     try_fold (relax_item a positions) (List.enumerate 0 (as_items a)) (widths, False)"


lemma fitting_candidate_mem:
  "fitting_candidate kind w s t ps cs = Inr (Some c) \<Longrightarrow> c \<in> set cs \<and> w \<le> c \<and> supports_width kind c"
  by (induction cs) (auto split: if_splits)

lemma required_branch_size_candidate:
  "required_branch_size kind w s t ps i l = Inr c \<Longrightarrow>
     fitting_candidate kind w s t ps [2, 3, 5] = Inr (Some c)"
  unfolding required_branch_size_def
  by (cases "fitting_candidate kind w s t ps [2, 3, 5]")
     (auto simp: Let_def simp del: fitting_candidate.simps split: option.splits)

lemma required_branch_size_bounds:
  "required_branch_size kind w s t ps i l = Inr c \<Longrightarrow> w \<le> c \<and> c \<le> 5 \<and> supports_width kind c"
  by (drule required_branch_size_candidate, drule fitting_candidate_mem) auto

text \<open>The room left for widening: every pass that changes a width uses some of it.\<close>

definition widening_room :: "nat list \<Rightarrow> nat" where
  "widening_room widths = sum_list (map (\<lambda>w. 5 - w) widths)"

lemma widening_room_update:
  "i < length ws \<Longrightarrow> ws ! i < w \<Longrightarrow> w \<le> 5 \<Longrightarrow> widening_room (ws[i := w]) < widening_room ws"
proof (induction ws arbitrary: i)
  case (Cons x ws)
  then show ?case by (cases i) (auto simp: widening_room_def)
qed simp

lemma relax_item_eq_Inr:
  "relax_item a positions (widths, changed) (p, item) = Inr (widths', changed') \<longleftrightarrow>
     (case item of
        Item_Branch kind l \<Rightarrow>
          (\<exists>t d. target_position a l = Inr t \<and> p < length widths \<and> p < 2 ^ 32 \<and>
             required_branch_size kind (widths ! p) p t positions (word_of_nat p) l = Inr d \<and>
             (widths', changed') = (if widths ! p < d then (widths[p := d], True) else (widths, changed)))
      | _ \<Rightarrow> widths' = widths \<and> changed' = changed)"
  by (cases item) (auto simp: relax_item_def idx_def u32_try_from_Some)

lemma relax_item_room:
  assumes "relax_item a positions (widths, changed) (p, item) = Inr (widths', changed')"
  shows "(widths', changed') = (widths, changed) \<or> changed' \<and> widening_room widths' < widening_room widths"
proof (cases item)
  case (Item_Branch kind l)
  then obtain t d where d: "p < length widths"
    "required_branch_size kind (widths ! p) p t positions (word_of_nat p) l = Inr d"
    "(widths', changed') = (if widths ! p < d then (widths[p := d], True) else (widths, changed))"
    using assms unfolding relax_item_eq_Inr by auto
  with required_branch_size_bounds [OF d(2)] widening_room_update [OF d(1)] show ?thesis
    by (simp split: if_splits)
qed (use assms in \<open>simp_all add: relax_item_eq_Inr\<close>)

lemma relax_fold_room:
  "try_fold (relax_item a positions) es (widths, changed) = Inr (widths', changed') \<Longrightarrow>
     (widths', changed') = (widths, changed) \<or> changed' \<and> widening_room widths' < widening_room widths"
proof (induction es arbitrary: widths changed)
  case Nil
  then show ?case by simp
next
  case (Cons e es)
  then obtain ws ch where step: "relax_item a positions (widths, changed) e = Inr (ws, ch)"
    and rest: "try_fold (relax_item a positions) es (ws, ch) = Inr (widths', changed')" by auto
  have "(ws, ch) = (widths, changed) \<or> ch \<and> widening_room ws < widening_room widths"
    using relax_item_room [of a positions widths changed "fst e" "snd e" ws ch] step by simp
  with Cons.IH [OF rest] show ?case by (elim disjE conjE) simp_all
qed

lemma relax_pass_room:
  "relax_pass a positions widths = Inr (widths', True) \<Longrightarrow> widening_room widths' < widening_room widths"
  using relax_fold_room [of a positions "List.enumerate 0 (as_items a)" widths False widths' True]
  by (auto simp: relax_pass_def)

function relaxation_loop ::
  "bytecode_assembler \<Rightarrow> nat list \<Rightarrow> nat \<Rightarrow> (nat list \<times> nat list) assembled" where
  "relaxation_loop a widths relaxation_evaluations =
     and_then (charge_relaxation_pass a relaxation_evaluations)
       (\<lambda>evaluations. and_then (populate_instruction_positions widths)
       (\<lambda>positions.
          case relax_pass a positions widths of
            Inl e \<Rightarrow> Inl e
          | Inr (widths', changed) \<Rightarrow>
              if changed then relaxation_loop a widths' evaluations else Inr (widths', positions)))"
  by pat_completeness auto
termination
  by (relation "measure (\<lambda>(a, widths, _). widening_room widths)") (auto dest: relax_pass_room)

declare relaxation_loop.simps [simp del]

definition is_branch :: "assembly_item \<Rightarrow> bool" where
  "is_branch item = (case item of Item_Branch _ _ \<Rightarrow> True | _ \<Rightarrow> False)"

definition relaxed_layout :: "allocator \<Rightarrow> bytecode_assembler \<Rightarrow> (nat list \<times> nat list) assembled" where
  "relaxed_layout alloc a =
     (let n = length (as_items a); widths = map minimum_size (as_items a)
      in and_then (err_if (\<not> alloc 0 n) (AE_AllocationFailed ''instruction width'' (usize_to_u64 n)))
          (\<lambda>_. and_then (err_if (\<not> alloc 0 (n + 1))
                          (AE_AllocationFailed ''instruction position''
                             (min (usize_to_u64 n + 1) (2 ^ 64 - 1))))
          (\<lambda>_. if \<not> list_ex is_branch (as_items a)
               then and_then (populate_instruction_positions widths) (\<lambda>positions. Inr (widths, positions))
               else relaxation_loop a widths 0)))"

section \<open>Emission\<close>

definition with_branch_displacement :: "nat \<Rightarrow> nat \<Rightarrow> u32 \<Rightarrow> u32 \<Rightarrow> u32 assembled" where
  "with_branch_displacement source_pc target_pc instruction_index label_index =
     and_then (ok_or (u64_checked_add source_pc 5) (AE_EncodedLengthOutOfRange source_pc))
       (\<lambda>base. let displacement = int target_pc - int base
               in ok_or (i32_try_from displacement)
                    (AE_BranchDisplacementOutOfRange instruction_index label_index
                       (if in_i64 displacement then displacement
                        else if displacement < 0 then - (2 ^ 63) else 2 ^ 63 - 1)))"

definition branch_instruction :: "branch_kind \<Rightarrow> nat \<Rightarrow> int \<Rightarrow> u32 \<Rightarrow> u32 \<Rightarrow> instruction assembled" where
  "branch_instruction kind isize displacement instruction_index label_index =
     (let err = AE_BranchDisplacementOutOfRange instruction_index label_index displacement;
          label8 = (\<lambda>op. and_then (ok_or (i8_try_from displacement) err) (\<lambda>v. Inr (op, Opd_Label8 v)));
          label16 = (\<lambda>op. and_then (ok_or (i16_try_from displacement) err) (\<lambda>v. Inr (op, Opd_Label16 v)));
          label = (\<lambda>op. and_then (ok_or (i32_try_from displacement) err) (\<lambda>v. Inr (op, Opd_Label v)))
      in and_then
           (if kind = BK_IfFalse \<and> isize = 2 then label8 Op_IfFalse8
            else if kind = BK_IfFalse \<and> isize = 5 then label Op_IfFalse
            else if kind = BK_IfTrue \<and> isize = 2 then label8 Op_IfTrue8
            else if kind = BK_IfTrue \<and> isize = 5 then label Op_IfTrue
            else if kind = BK_Goto \<and> isize = 2 then label8 Op_Goto8
            else if kind = BK_Goto \<and> isize = 3 then label16 Op_Goto16
            else if kind = BK_Goto \<and> isize = 5 then label Op_Goto
            else if kind = BK_Catch \<and> isize = 5 then label Op_Catch
            else if kind = BK_Gosub \<and> isize = 5 then label Op_Gosub
            else Inl err)
           (\<lambda>(op, o1). map_err (AE_InvalidInstruction instruction_index) (instruction_new op o1)))"

text \<open>The final instruction of one item, once the layout is fixed.\<close>

definition item_instruction ::
  "bytecode_assembler \<Rightarrow> nat list \<Rightarrow> nat list \<Rightarrow> nat \<Rightarrow> u32 \<Rightarrow> assembly_item \<Rightarrow> instruction assembled" where
  "item_instruction a widths positions position instruction_index item =
     (case item of
        Item_Instruction instruction \<Rightarrow> Inr instruction
      | Item_Branch kind label_index \<Rightarrow>
          and_then (target_position a label_index)
            (\<lambda>target. and_then (idx positions position)
            (\<lambda>source_pc. and_then (idx positions target)
            (\<lambda>target_pc. and_then (signed_displacement source_pc target_pc)
            (\<lambda>displacement. and_then (idx widths position)
            (\<lambda>width. branch_instruction kind width displacement instruction_index label_index)))))
      | Item_WithBranch op atom v label_index \<Rightarrow>
          and_then (target_position a label_index)
            (\<lambda>target. and_then (idx positions position)
            (\<lambda>source_pc. and_then (idx positions target)
            (\<lambda>target_pc. and_then (with_branch_displacement source_pc target_pc instruction_index label_index)
            (\<lambda>displacement. map_err (AE_InvalidInstruction instruction_index)
                (instruction_new op (Opd_AtomLabelU8 atom displacement v)))))))"

definition emit_item ::
  "allocator \<Rightarrow> bytecode_assembler \<Rightarrow> nat list \<Rightarrow> nat list \<Rightarrow> nat \<Rightarrow>
     bytecode_builder \<times> bytecode_pc list \<Rightarrow> nat \<times> assembly_item \<Rightarrow>
     (bytecode_builder \<times> bytecode_pc list) assembled" where
  "emit_item alloc a widths positions encoded_bytes st entry =
     (case (st, entry) of
        ((builder, pcs), (position, item)) \<Rightarrow>
          and_then (ok_or (u32_try_from position) AE_TooManyInstructions)
            (\<lambda>instruction_index. and_then (idx positions position)
            (\<lambda>pos. and_then (ok_or (u32_try_from pos) (AE_EncodedLengthOutOfRange encoded_bytes))
            (\<lambda>expected. and_then (item_instruction a widths positions position instruction_index item)
            (\<lambda>instruction. and_then (map_err (AE_Encoding instruction_index)
                                      (push_instruction alloc builder instruction))
            (\<lambda>(builder', actual).
               if actual \<noteq> expected
               then Inl (AE_LayoutMismatch instruction_index expected actual)
               else Inr (builder', pcs @ [actual])))))))"

definition assembler_finish :: "allocator \<Rightarrow> bytecode_assembler \<Rightarrow> assembled_bytecode assembled" where
  "assembler_finish alloc a0 =
     and_then (validate_bound_labels a0)
       (\<lambda>_. and_then (thread_redundant_goto_targets alloc a0)
       (\<lambda>a. and_then (relaxed_layout alloc a)
       (\<lambda>(widths, positions).
          if positions = [] then Inl (AE_EncodedLengthOutOfRange 0)
          else let encoded_bytes = last positions
               in and_then (err_if (2 ^ 32 - 1 < encoded_bytes) (AE_EncodedLengthOutOfRange encoded_bytes))
                   (\<lambda>_. and_then (err_if (\<not> alloc 0 (length (as_items a)))
                                   (AE_AllocationFailed ''instruction PC'' (usize_to_u64 (length (as_items a)))))
                   (\<lambda>_. and_then (try_fold (emit_item alloc a widths positions encoded_bytes)
                                   (List.enumerate 0 (as_items a))
                                   (with_origin_and_byte_limit 0 (max_bytecode_bytes (as_limits a)), []))
                   (\<lambda>(builder, instruction_pcs).
                      Inr \<lparr>ab_bytecode = bb_bytes builder, ab_instruction_pcs = instruction_pcs\<rparr>))))))"

end
