(* ===== verification/Assembler_Labels.thy ===== *)
theory Assembler_Labels
  imports Assembler
begin

text \<open>
  Labels and goto threading of the assembler: the invariant every public operation keeps,
  when a plan's labels validate, and that threading replaces the label of a conditional or
  unconditional branch by the label its chain of gotos settles on, and by nothing else.
\<close>

section \<open>Well-formed plans\<close>

text \<open>
  The invariant of an assembler: instructions are valid and carry no raw label, label numbers
  exist, bindings stand at or before the end of the plan.
\<close>

primrec item_ok :: "nat \<Rightarrow> assembly_item \<Rightarrow> bool" where
  "item_ok labels (Item_Instruction i) \<longleftrightarrow>
     valid_instruction i \<and> \<not> contains_symbolic_label (operand_format (metadata (i_opcode i)))"
| "item_ok labels (Item_Branch kind l) \<longleftrightarrow> unat l < labels"
| "item_ok labels (Item_WithBranch op atom v l) \<longleftrightarrow> op \<in> with_opcodes \<and> unat l < labels"

primrec binding_ok :: "nat \<Rightarrow> usize option \<Rightarrow> bool" where
  "binding_ok n None \<longleftrightarrow> True"
| "binding_ok n (Some p) \<longleftrightarrow> p \<le> n"

definition assembler_inv :: "bytecode_assembler \<Rightarrow> bool" where
  "assembler_inv a \<longleftrightarrow>
     list_all (item_ok (length (as_label_bindings a))) (as_items a) \<and>
     list_all (binding_ok (length (as_items a))) (as_label_bindings a) \<and>
     length (as_items a) \<le> unat (max_instructions (as_limits a)) \<and>
     length (as_label_bindings a) \<le> 2 ^ 32"

lemma item_ok_Suc: "item_ok n it \<Longrightarrow> item_ok (Suc n) it"
  by (cases it) auto

lemma binding_ok_Suc: "binding_ok n b \<Longrightarrow> binding_ok (Suc n) b"
  by (cases b) auto

lemma resolve_label_eq_Inr:
  "resolve_label a l = Inr b \<longleftrightarrow>
     al_identity l = as_identity a \<and> unat (al_index l) < length (as_label_bindings a) \<and>
     as_label_bindings a ! unat (al_index l) = b"
  by (auto simp: resolve_label_def)

lemma next_instruction_index_eq_Inr:
  "next_instruction_index a = Inr i \<longleftrightarrow>
     length (as_items a) < unat (max_instructions (as_limits a)) \<and> i = word_of_nat (length (as_items a))"
proof -
  have "n < unat (w :: u32) \<Longrightarrow> n < 2 ^ 32" for n w by (erule less_trans) simp
  then show ?thesis
    by (auto simp: next_instruction_index_def u32_try_from_Some Let_def unat_word_of_nat_u32)
qed

lemma push_item_eq_Inr:
  "push_item alloc a item = Inr a' \<longleftrightarrow>
     alloc (length (as_items a)) 1 \<and> a' = a\<lparr>as_items := as_items a @ [item]\<rparr>"
  by (auto simp: push_item_def)

text \<open>One call of a public operation that succeeds, and the assemblers such calls produce.\<close>

inductive assembler_step :: "bytecode_assembler \<Rightarrow> bytecode_assembler \<Rightarrow> bool" where
  step_label: "new_label alloc a = Inr (l, a') \<Longrightarrow> assembler_step a a'"
| step_bind: "bind a l = Inr a' \<Longrightarrow> assembler_step a a'"
| step_push: "assembler_push alloc a op o1 = Inr (n, a') \<Longrightarrow> assembler_step a a'"
| step_branch: "assembler_branch alloc a kind l = Inr (n, a') \<Longrightarrow> assembler_step a a'"
| step_with: "with_branch alloc a op atom v l = Inr (n, a') \<Longrightarrow> assembler_step a a'"

definition assembling :: "bytecode_assembler \<Rightarrow> bool" where
  "assembling a \<longleftrightarrow> (\<exists>identity limits. assembler_step\<^sup>*\<^sup>* (with_limits identity limits) a)"

lemma inv_push_item:
  assumes "assembler_inv a" "item_ok (length (as_label_bindings a)) it"
    "length (as_items a) < unat (max_instructions (as_limits a))"
  shows "assembler_inv (a\<lparr>as_items := as_items a @ [it]\<rparr>)"
  using assms by (simp add: assembler_inv_def) (metis (no_types) binding_ok_Suc list.pred_mono_strong)

text \<open>A step adds a label, binds an unbound label at the end, or appends one item.\<close>

lemma assembler_step_cases:
  assumes "assembler_step a a'"
  obtains
    (label) "a' = a\<lparr>as_label_bindings := as_label_bindings a @ [None]\<rparr>" "length (as_label_bindings a) < 2 ^ 32"
  | (bind) n where "a' = a\<lparr>as_label_bindings := (as_label_bindings a)[n := Some (length (as_items a))]\<rparr>"
      "n < length (as_label_bindings a)" "as_label_bindings a ! n = None"
  | (item) it where "a' = a\<lparr>as_items := as_items a @ [it]\<rparr>" "item_ok (length (as_label_bindings a)) it"
      "length (as_items a) < unat (max_instructions (as_limits a))"
  using assms
proof (cases rule: assembler_step.cases)
  case (step_label alloc l)
  then show thesis by (intro label) (auto simp: new_label_def u32_try_from_Some)
next
  case (step_bind l)
  then show thesis by (intro bind [of "unat (al_index l)"]) (auto simp: bind_def resolve_label_eq_Inr)
next
  case (step_push alloc op o1 n)
  then obtain i where "valid_instruction i" "\<not> contains_symbolic_label (operand_format (metadata (i_opcode i)))"
    "a' = a\<lparr>as_items := as_items a @ [Item_Instruction i]\<rparr>"
    "length (as_items a) < unat (max_instructions (as_limits a))"
    unfolding assembler_push_def
    by (auto simp: next_instruction_index_eq_Inr push_item_eq_Inr instruction_new_valid)
  then show thesis by (intro item [of "Item_Instruction i"]) simp_all
next
  case (step_branch alloc kind l n)
  then show thesis
    by (intro item [of "Item_Branch kind (al_index l)"])
       (auto simp: assembler_branch_def next_instruction_index_eq_Inr push_item_eq_Inr resolve_label_eq_Inr)
next
  case (step_with alloc op atom v l n)
  then have "a' = a\<lparr>as_items := as_items a @ [Item_WithBranch op atom v (al_index l)]\<rparr>" "op \<in> with_opcodes"
    "unat (al_index l) < length (as_label_bindings a)" "length (as_items a) < unat (max_instructions (as_limits a))"
    unfolding with_branch_def by (auto simp: next_instruction_index_eq_Inr push_item_eq_Inr resolve_label_eq_Inr)
  then show thesis by (intro item [of "Item_WithBranch op atom v (al_index l)"]) simp_all
qed

lemma assembler_step_inv:
  assumes "assembler_step a a'" "assembler_inv a"
  shows "assembler_inv a'"
  using assms(1)
proof (cases rule: assembler_step_cases)
  case label
  have "list_all (item_ok (Suc (length (as_label_bindings a)))) (as_items a)"
    using assms(2) item_ok_Suc unfolding assembler_inv_def by (metis (no_types) list.pred_mono_strong)
  then show ?thesis using assms(2) label by (simp add: assembler_inv_def)
next
  case (bind n)
  then show ?thesis
    using assms(2) by (auto simp: assembler_inv_def list_all_iff dest!: set_update_subset_insert [THEN subsetD])
next
  case (item it)
  then show ?thesis using inv_push_item assms(2) by simp
qed

lemma assembling_inv: "assembling a \<Longrightarrow> assembler_inv a"
proof -
  have "assembler_step\<^sup>*\<^sup>* b a \<Longrightarrow> assembler_inv b \<Longrightarrow> assembler_inv a" for b
    by (induction rule: rtranclp_induct) (auto intro: assembler_step_inv)
  moreover have "assembler_inv (with_limits identity limits)" for identity limits
    by (simp add: assembler_inv_def with_limits_def)
  ultimately show "assembling a \<Longrightarrow> assembler_inv a" by (auto simp: assembling_def)
qed

lemma target_position_eq_Inr:
  "target_position a l = Inr p \<longleftrightarrow>
     unat l < length (as_label_bindings a) \<and> as_label_bindings a ! unat l = Some p"
  by (auto simp: target_position_def bind_eq_Some_conv)

lemma check_binding_iff:
  "(\<forall>x \<in> set (List.enumerate 0 bindings). check_binding x = Inr ()) \<longleftrightarrow> None \<notin> set bindings"
proof (induction bindings rule: rev_induct)
  case (snoc b bs)
  then show ?case by (cases b) (auto simp: enumerate_append_eq and_then_def ok_or_def split: sum.splits option.splits)
qed simp

lemma validate_bound_labels_iff:
  assumes "assembler_inv a"
  shows "validate_bound_labels a = Inr () \<longleftrightarrow>
    None \<notin> set (as_label_bindings a) \<and>
    (\<forall>it \<in> set (as_items a). \<forall>l. item_label it = Some l \<longrightarrow>
       as_label_bindings a ! unat l \<noteq> Some (length (as_items a)))"
proof -
  have lbl: "item_label it = Some l \<Longrightarrow> it \<in> set (as_items a) \<Longrightarrow> unat l < length (as_label_bindings a)" for it l
    using assms by (cases it) (auto simp: item_label_def assembler_inv_def list_all_iff)
  have t: "(case item_label it of None \<Rightarrow> Inr () | Some l \<Rightarrow> and_then (target_position a l)
              (\<lambda>target. err_if (target = length (as_items a)) (AE_TargetAtEnd l))) = Inr () \<longleftrightarrow>
      (\<forall>l. item_label it = Some l \<longrightarrow> as_label_bindings a ! unat l \<noteq> Some (length (as_items a)))"
    if it: "it \<in> set (as_items a)" and none: "None \<notin> set (as_label_bindings a)" for it
  proof (cases "item_label it")
    case (Some l)
    then have "unat l < length (as_label_bindings a)" using lbl it by blast
    moreover from this obtain p where "as_label_bindings a ! unat l = Some p"
      using none by (metis nth_mem option.exhaust)
    ultimately show ?thesis using Some by (auto simp: target_position_eq_Inr)
  qed simp
  show ?thesis
    unfolding validate_bound_labels_def and_then_eq_Inr try_for_each_eq_Inr check_binding_iff using t by auto
qed

section \<open>Goto threading\<close>

text \<open>
  A label settles on another when following the gotos it names ends there. The relation is a
  function on labels that settle, and undefined on labels that lead into a cycle of gotos.
\<close>

definition goto_step :: "bytecode_assembler \<Rightarrow> nat \<Rightarrow> nat \<Rightarrow> bool" where
  "goto_step a l l' \<longleftrightarrow> map_option unat (label_goto_target a l) = Some l'"

definition settles :: "bytecode_assembler \<Rightarrow> nat \<Rightarrow> nat \<Rightarrow> bool" where
  "settles a l t \<longleftrightarrow> (goto_step a)\<^sup>*\<^sup>* l t \<and> label_goto_target a t = None"

lemma goto_step_det: "goto_step a l x \<Longrightarrow> goto_step a l y \<Longrightarrow> x = y"
  by (auto simp: goto_step_def)

lemma settles_step: "goto_step a l l' \<Longrightarrow> settles a l t \<longleftrightarrow> settles a l' t"
  unfolding settles_def
  by (metis converse_rtranclpE converse_rtranclp_into_rtranclp goto_step_def goto_step_det
      option.distinct(1) option.simps(8))

lemma settles_steps: "(goto_step a)\<^sup>*\<^sup>* l l' \<Longrightarrow> settles a l t \<longleftrightarrow> settles a l' t"
  by (induction rule: rtranclp_induct) (auto simp: settles_step)

lemma cycle_steps:
  "(goto_step a)\<^sup>*\<^sup>* c x \<Longrightarrow> (goto_step a)\<^sup>+\<^sup>+ c c \<Longrightarrow> (goto_step a)\<^sup>+\<^sup>+ x x"
proof (induction rule: rtranclp_induct)
  case (step y z)
  then obtain w where "goto_step a y w" "(goto_step a)\<^sup>*\<^sup>* w y" by (meson tranclpD)
  with step.hyps(2) goto_step_det have "(goto_step a)\<^sup>*\<^sup>* z y" by metis
  with step.hyps(2) show ?case by (metis rtranclp_into_tranclp1)
qed

lemma cycle_never_settles: "(goto_step a)\<^sup>+\<^sup>+ c c \<Longrightarrow> \<not> settles a c t"
  unfolding settles_def by (metis cycle_steps goto_step_def option.distinct(1) option.simps(8) tranclpD)

lemma chain_reaches:
  "successively (goto_step a) (path @ [c]) \<Longrightarrow> x \<in> set path \<Longrightarrow> (goto_step a)\<^sup>+\<^sup>+ x c"
proof (induction path arbitrary: x)
  case (Cons y path)
  note IH = Cons.IH
  show ?case
  proof (cases path)
    case Nil
    then show ?thesis using Cons.prems by auto
  next
    case (Cons z rest)
    then have "goto_step a y z" "successively (goto_step a) (path @ [c])" using Cons.prems by auto
    moreover from this have "(goto_step a)\<^sup>+\<^sup>+ z c" using IH [of z] \<open>path = z # rest\<close> by simp
    ultimately show ?thesis
      using IH Cons.prems(2) by (auto intro: tranclp_into_tranclp2)
  qed
qed simp

lemma chain_extend:
  "successively (goto_step a) (path @ [c]) \<Longrightarrow> goto_step a c d \<Longrightarrow>
     successively (goto_step a) ((path @ [c]) @ [d])"
  by (subst successively_append_iff) auto

lemma settle_path_nth [simp]:
  "length (settle_path path v states) = length states"
  "l < length states \<Longrightarrow> settle_path path v states ! l = (if l \<in> set path then v else states ! l)"
proof -
  have *: "length (settle_path path v states) = length states \<and>
    (l < length states \<longrightarrow> settle_path path v states ! l = (if l \<in> set path then v else states ! l))"
    by (induction path arbitrary: states) (auto simp: settle_path_def nth_list_update)
  then show "length (settle_path path v states) = length states" by simp
  from * show "l < length states \<Longrightarrow> settle_path path v states ! l = (if l \<in> set path then v else states ! l)"
    by simp
qed

text \<open>What a final state of a label says, and the invariant of the search.\<close>

primrec state_ok :: "bytecode_assembler \<Rightarrow> nat \<Rightarrow> branch_target_state \<Rightarrow> bool" where
  "state_ok a l BT_Unknown \<longleftrightarrow> True"
| "state_ok a l BT_Resolving \<longleftrightarrow> False"
| "state_ok a l (BT_Terminal t) \<longleftrightarrow> settles a l (unat t)"
| "state_ok a l BT_Cycle \<longleftrightarrow> (\<nexists>t. settles a l t)"

definition closed_gotos :: "bytecode_assembler \<Rightarrow> nat \<Rightarrow> bool" where
  "closed_gotos a n \<longleftrightarrow> n \<le> 2 ^ 32 \<and> (\<forall>l l'. goto_step a l l' \<longrightarrow> l' < n)"

definition search_inv :: "bytecode_assembler \<Rightarrow> nat list \<Rightarrow> branch_target_state list \<Rightarrow> bool" where
  "search_inv a path states \<longleftrightarrow>
     (\<forall>l < length states. if l \<in> set path then states ! l = BT_Resolving else state_ok a l (states ! l))"

lemma search_inv_settle:
  assumes "search_inv a path states" "\<forall>l \<in> set path. state_ok a l v"
  shows "search_inv a [] (settle_path path v states)"
  using assms by (auto simp: search_inv_def split: if_splits)

lemma resolve_chain_correct:
  assumes "closed_gotos a (length states)" "search_inv a path states" "current < length states"
    "successively (goto_step a) (path @ [current])"
  shows "\<exists>states'. resolve_chain a current states path = Inr states' \<and> length states' = length states \<and>
    search_inv a [] states' \<and> states' ! current \<noteq> BT_Unknown \<and>
    (\<forall>l < length states. states ! l \<noteq> BT_Unknown \<longrightarrow> states' ! l \<noteq> BT_Unknown)"
  using assms
proof (induction a current states path rule: resolve_chain.induct)
  case (1 a current states path)
  have reach: "(goto_step a)\<^sup>+\<^sup>+ l current" if "l \<in> set path" for l
    using chain_reaches [OF "1.prems"(4) that] .
  then have same: "settles a l t \<longleftrightarrow> settles a current t" if "l \<in> set path" for l t
    using settles_steps that by (metis tranclp_into_rtranclp)
  note cur = \<open>current < length states\<close>
  have get: "get states current = Some (states ! current)" using cur by simp
  have inv_cur: "if current \<in> set path then states ! current = BT_Resolving
      else state_ok a current (states ! current)"
    using "1.prems"(2) cur by (simp add: search_inv_def)
  show ?case
  proof (cases "states ! current")
    case BT_Unknown
    let ?st = "states[current := BT_Resolving]"
    have npath: "current \<notin> set path" using inv_cur BT_Unknown by auto
    have inv': "search_inv a (path @ [current]) ?st"
      using "1.prems"(2) npath cur by (auto simp: search_inv_def nth_list_update split: if_splits)
    show ?thesis
    proof (cases "label_goto_target a current")
      case None
      have lt: "current < 2 ^ 32" using cur "1.prems"(1) by (simp add: closed_gotos_def)
      have "settles a current current" using None by (simp add: settles_def)
      then have "search_inv a [] (settle_path (path @ [current]) (BT_Terminal (word_of_nat current)) ?st)"
        using same lt by (intro search_inv_settle [OF inv']) (auto simp: unat_word_of_nat_u32)
      then show ?thesis
        using cur BT_Unknown None lt
        by (simp add: resolve_chain.simps [of a current states path] get_def u32_try_from_def nth_list_update)
    next
      case (Some w)
      then have step: "goto_step a current (unat w)" by (simp add: goto_step_def)
      then have w: "unat w < length ?st" using "1.prems"(1) by (auto simp: closed_gotos_def)
      have "\<exists>states'. resolve_chain a (unat w) ?st (path @ [current]) = Inr states' \<and>
          length states' = length ?st \<and> search_inv a [] states' \<and> states' ! unat w \<noteq> BT_Unknown \<and>
          (\<forall>l < length ?st. ?st ! l \<noteq> BT_Unknown \<longrightarrow> states' ! l \<noteq> BT_Unknown)"
        using BT_Unknown "1.prems"(1)
        by (intro "1.IH" [OF get _ Some] inv' w chain_extend [OF "1.prems"(4) step]) simp_all
      then show ?thesis
        using cur BT_Unknown Some
        by (auto simp: resolve_chain.simps [of a current states path] get_def nth_list_update)
    qed
  next
    case BT_Resolving
    then have "current \<in> set path" using inv_cur by (auto split: if_splits)
    then have "\<not> settles a current t" for t using reach cycle_never_settles by blast
    then have "search_inv a [] (settle_path path BT_Cycle states)"
      using same by (intro search_inv_settle [OF "1.prems"(2)]) auto
    then show ?thesis
      using cur BT_Resolving \<open>current \<in> set path\<close>
      by (simp add: resolve_chain.simps [of a current states path] get_def)
  next
    case BT_Cycle
    then have "\<not> settles a current t" for t using inv_cur by (auto split: if_splits)
    then have "search_inv a [] (settle_path path BT_Cycle states)"
      using same by (intro search_inv_settle [OF "1.prems"(2)]) auto
    then show ?thesis
      using cur BT_Cycle by (simp add: resolve_chain.simps [of a current states path] get_def)
  next
    case (BT_Terminal t)
    then have "settles a current (unat t)" using inv_cur by (auto split: if_splits)
    then have "search_inv a [] (settle_path path (BT_Terminal t) states)"
      using same by (intro search_inv_settle [OF "1.prems"(2)]) auto
    then show ?thesis
      using cur BT_Terminal by (simp add: resolve_chain.simps [of a current states path] get_def)
  qed
qed

lemma resolve_start_correct:
  assumes "closed_gotos a (length states)" "search_inv a [] states" "start < length states"
  shows "\<exists>states'. resolve_start a states start = Inr states' \<and> length states' = length states \<and>
    search_inv a [] states' \<and> states' ! start \<noteq> BT_Unknown \<and>
    (\<forall>l < length states. states ! l \<noteq> BT_Unknown \<longrightarrow> states' ! l \<noteq> BT_Unknown)"
  using resolve_chain_correct [OF assms(1,2,3)] assms
  by (cases "states ! start = BT_Unknown") (auto simp: resolve_start_def idx_def)

lemma resolve_all_correct:
  assumes "closed_gotos a n" "k \<le> n"
  shows "\<exists>states. try_fold (resolve_start a) [0..<k] (replicate n BT_Unknown) = Inr states \<and>
    length states = n \<and> search_inv a [] states \<and> (\<forall>l < k. states ! l \<noteq> BT_Unknown)"
  using assms(2)
proof (induction k)
  case 0
  then show ?case by (simp add: search_inv_def)
next
  case (Suc k)
  then obtain states where s: "try_fold (resolve_start a) [0..<k] (replicate n BT_Unknown) = Inr states"
    "length states = n" "search_inv a [] states" "\<forall>l < k. states ! l \<noteq> BT_Unknown" by auto
  obtain states' where "resolve_start a states k = Inr states'" "length states' = n"
    "search_inv a [] states'" "states' ! k \<noteq> BT_Unknown"
    "\<forall>l < n. states ! l \<noteq> BT_Unknown \<longrightarrow> states' ! l \<noteq> BT_Unknown"
    using resolve_start_correct [of a states k] assms(1) s Suc.prems by auto
  then show ?case
    using s Suc.prems by (auto simp: try_fold_append less_Suc_eq)
qed

text \<open>
  The label an item refers to after threading: conditional and unconditional branches go
  straight to where their label settles; handlers, subroutines and labels on a cycle of gotos
  keep their label.
\<close>

definition threaded_label :: "bytecode_assembler \<Rightarrow> branch_kind \<Rightarrow> u32 \<Rightarrow> u32 \<Rightarrow> bool" where
  "threaded_label a kind l l' \<longleftrightarrow>
     (if kind \<in> {BK_IfFalse, BK_IfTrue, BK_Goto} \<and> (\<exists>t. settles a (unat l) t)
      then settles a (unat l) (unat l') else l' = l)"

definition threaded_item :: "bytecode_assembler \<Rightarrow> assembly_item \<Rightarrow> assembly_item \<Rightarrow> bool" where
  "threaded_item a it it' \<longleftrightarrow>
     (case it of
        Item_Branch kind l \<Rightarrow> (\<exists>l'. it' = Item_Branch kind l' \<and> threaded_label a kind l l')
      | _ \<Rightarrow> it' = it)"

lemma settles_unique: "settles a l t \<Longrightarrow> settles a l t' \<Longrightarrow> t = t'"
  by (metis converse_rtranclpE goto_step_def option.distinct(1) option.simps(8) settles_def settles_steps)

lemma settles_closed: "closed_gotos a n \<Longrightarrow> l < n \<Longrightarrow> settles a l t \<Longrightarrow> t < n"
  unfolding settles_def closed_gotos_def by (metis rtranclp.cases)

lemma rewrite_item_threads:
  assumes cl: "closed_gotos a (length states)" and inv: "search_inv a [] states"
    and known: "\<forall>l < length states. states ! l \<noteq> BT_Unknown" and ok: "item_ok (length states) it"
  shows "\<exists>it'. rewrite_item states it = Inr it' \<and> threaded_item a it it' \<and> item_ok (length states) it'"
proof (cases it)
  case (Item_Branch kind l)
  then have l: "unat l < length states" using ok by simp
  then have st: "state_ok a (unat l) (states ! unat l)" "states ! unat l \<noteq> BT_Unknown"
    using inv known by (auto simp: search_inv_def)
  show ?thesis
  proof (cases "states ! unat l")
    case (BT_Terminal t)
    then have s: "settles a (unat l) (unat t)" using st by simp
    then show ?thesis
      using Item_Branch BT_Terminal l settles_closed [OF cl l s]
      by (auto simp: rewrite_item_def idx_def threaded_item_def threaded_label_def get_def)
  next
    case BT_Cycle
    then show ?thesis
      using Item_Branch l st by (auto simp: rewrite_item_def idx_def threaded_item_def threaded_label_def get_def)
  qed (use st in simp_all)
qed (use ok in \<open>simp_all add: rewrite_item_def threaded_item_def\<close>)

lemma assembler_inv_closed_gotos: "assembler_inv a \<Longrightarrow> closed_gotos a (length (as_label_bindings a))"
  by (auto simp: assembler_inv_def closed_gotos_def goto_step_def label_goto_target_def list_all_length get_def
      split: option.splits assembly_item.splits branch_kind.splits if_splits)

lemma thread_redundant_goto_targets_Inr:
  assumes inv: "assembler_inv a" and ok: "thread_redundant_goto_targets alloc a = Inr a'"
  shows "as_label_bindings a' = as_label_bindings a" "as_limits a' = as_limits a"
    "length (as_items a') = length (as_items a)"
    "\<And>i. i < length (as_items a) \<Longrightarrow> threaded_item a (as_items a ! i) (as_items a' ! i)"
    "assembler_inv a'"
proof -
  let ?n = "length (as_label_bindings a)"
  note cl = assembler_inv_closed_gotos [OF inv]
  obtain states where st: "try_fold (resolve_start a) [0..<?n] (replicate ?n BT_Unknown) = Inr states"
    "length states = ?n" "search_inv a [] states" "\<forall>l < ?n. states ! l \<noteq> BT_Unknown"
    using resolve_all_correct [OF cl order_refl] by blast
  obtain items where m: "try_map (rewrite_item states) (as_items a) = Inr items" and a': "a' = a\<lparr>as_items := items\<rparr>"
    using ok st(1) unfolding thread_redundant_goto_targets_def by (auto simp: Let_def)
  have len: "length items = length (as_items a)" by (rule try_map_length [OF m])
  have item: "threaded_item a (as_items a ! i) (items ! i) \<and> item_ok ?n (items ! i)"
    if "i < length (as_items a)" for i
  proof -
    have "item_ok (length states) (as_items a ! i)"
      using inv that st(2) by (simp add: assembler_inv_def list_all_length)
    from rewrite_item_threads [OF _ st(3) _ this] cl st try_map_nth [OF m that] show ?thesis by auto
  qed
  show "as_label_bindings a' = as_label_bindings a" "as_limits a' = as_limits a"
    "length (as_items a') = length (as_items a)"
    using a' len by simp_all
  show "threaded_item a (as_items a ! i) (as_items a' ! i)" if "i < length (as_items a)" for i
    using item [OF that] a' by simp
  show "assembler_inv a'"
    using inv item len unfolding a' assembler_inv_def by (simp add: list_all_length)
qed

lemma thread_redundant_goto_targets_total:
  assumes inv: "assembler_inv a" and alloc: "alloc 0 (length (as_label_bindings a))"
  shows "\<exists>a'. thread_redundant_goto_targets alloc a = Inr a'"
proof -
  let ?n = "length (as_label_bindings a)"
  note cl = assembler_inv_closed_gotos [OF inv]
  obtain states where st: "try_fold (resolve_start a) [0..<?n] (replicate ?n BT_Unknown) = Inr states"
    "length states = ?n" "search_inv a [] states" "\<forall>l < ?n. states ! l \<noteq> BT_Unknown"
    using resolve_all_correct [OF cl order_refl] by blast
  have "\<exists>it'. rewrite_item states it = Inr it'" if "it \<in> set (as_items a)" for it
    using rewrite_item_threads [OF _ st(3), of it] cl st inv that
    by (auto simp: assembler_inv_def list_all_iff)
  then have "\<nexists>e. try_map (rewrite_item states) (as_items a) = Inl e"
    using try_map_eq_Inl by fastforce
  then obtain items where "try_map (rewrite_item states) (as_items a) = Inr items"
    by (cases "try_map (rewrite_item states) (as_items a)") auto
  then show ?thesis using st(1) alloc by (simp add: thread_redundant_goto_targets_def Let_def)
qed

end
