(* ===== verification/Assembler_Layout.thy ===== *)
theory Assembler_Layout
  imports Assembler_Labels
begin

text \<open>
  Branch relaxation: byte offsets of a choice of widths, valid layouts, one pass of the
  relaxation loop, that the loop ends in the least valid layout, and how many passes it can
  need.
\<close>

section \<open>Layouts\<close>

text \<open>The byte position of item \<open>i\<close> under given widths, and the vector of all of them.\<close>

definition offset :: "nat list \<Rightarrow> nat \<Rightarrow> nat" where
  "offset ws i = (\<Sum>j<i. ws ! j)"

definition offsets :: "nat list \<Rightarrow> nat list" where
  "offsets ws = map (offset ws) [0..<Suc (length ws)]"

lemma offset_Suc [simp]: "offset ws (Suc i) = offset ws i + ws ! i" "offset ws 0 = 0"
  by (simp_all add: offset_def)

lemma offset_append: "i \<le> length ws \<Longrightarrow> offset (ws @ vs) i = offset ws i"
  by (simp add: offset_def nth_append)

lemma offsets_simps [simp]:
  "length (offsets ws) = Suc (length ws)" "i \<le> length ws \<Longrightarrow> offsets ws ! i = offset ws i"
  "offsets ws \<noteq> []" "last (offsets ws) = offset ws (length ws)"
  by (simp_all add: offsets_def nth_append last_map)

lemma offset_mono: "i \<le> j \<Longrightarrow> offset ws i \<le> offset ws j"
  unfolding offset_def by (rule sum_mono2) auto

lemma populate_instruction_positions_eq:
  "populate_instruction_positions ws =
     (if offset ws (length ws) < 2 ^ 64 then Inr (offsets ws) else Inl (AE_EncodedLengthOutOfRange (2 ^ 64 - 1)))"
proof (induction ws rule: rev_induct)
  case Nil
  then show ?case by (simp add: populate_instruction_positions_def offsets_def)
next
  case (snoc w ws)
  have "offsets (ws @ [w]) = offsets ws @ [offset ws (length ws) + w]"
    by (simp add: offsets_def offset_append)
  then show ?case
    using snoc by (auto simp: populate_instruction_positions_def try_fold_append u64_checked_add_def offset_append)
qed

text \<open>The displacement a branch at \<open>s\<close> needs to reach \<open>t\<close> once it has grown by \<open>added\<close> bytes.\<close>

definition reach :: "nat list \<Rightarrow> nat \<Rightarrow> nat \<Rightarrow> nat \<Rightarrow> int" where
  "reach ws s t added =
     int (offset ws t) + int (if s < t then added else 0) - int (offset ws s) - 1"

lemma grown_target_offsets:
  "t \<le> length ws \<Longrightarrow> grown_target s t (offsets ws) added = Inr x \<Longrightarrow>
     x = offset ws t + (if s < t then added else 0)"
  by (auto simp: grown_target_def idx_def u64_checked_add_def split: if_splits)

lemma signed_displacement_Inr:
  "signed_displacement p q = Inr d \<Longrightarrow> d = int q - int p - 1"
  by (auto simp: signed_displacement_def u64_checked_add_def Let_def split: if_splits)

lemma fitting_candidate_Some:
  assumes "fitting_candidate kind w s t (offsets ws) cs = Inr (Some c)" "sorted cs"
    "s \<le> length ws" "t \<le> length ws"
  shows "displacement_fits c (reach ws s t (c - w)) \<and>
    (\<forall>c' \<in> set cs. w \<le> c' \<and> supports_width kind c' \<and> displacement_fits c' (reach ws s t (c' - w)) \<longrightarrow> c \<le> c')"
  using assms(1,2)
proof (induction cs)
  case (Cons x cs)
  show ?case
  proof (cases "x < w \<or> \<not> supports_width kind x")
    case True
    then show ?thesis using Cons by auto
  next
    case False
    then obtain d where r: "d = reach ws s t (x - w)"
      "(if displacement_fits x d then Inr (Some x)
        else fitting_candidate kind w s t (offsets ws) cs) = (Inr (Some c) :: nat option assembled)"
      using Cons.prems(1) assms(3,4)
      by (auto simp: idx_def reach_def dest!: grown_target_offsets [OF assms(4)] signed_displacement_Inr)
    show ?thesis
    proof (cases "displacement_fits x d")
      case True
      then show ?thesis using r Cons.prems(2) by auto
    next
      case False
      then show ?thesis using r Cons by auto
    qed
  qed
qed simp

lemma required_branch_size_spec:
  assumes "required_branch_size kind w s t (offsets ws) i l = Inr c" "s \<le> length ws" "t \<le> length ws"
  shows "w \<le> c" "c \<in> {2, 3, 5}" "supports_width kind c" "displacement_fits c (reach ws s t (c - w))"
    "\<And>c'. w \<le> c' \<Longrightarrow> supports_width kind c' \<Longrightarrow> displacement_fits c' (reach ws s t (c' - w)) \<Longrightarrow> c \<le> c'"
proof -
  note f = required_branch_size_candidate [OF assms(1)]
  show "w \<le> c" "c \<in> {2, 3, 5}" "supports_width kind c" using fitting_candidate_mem [OF f] by auto
  note spec = fitting_candidate_Some [OF f _ assms(2,3)]
  show "displacement_fits c (reach ws s t (c - w))" using spec by simp
  show "c \<le> c'" if "w \<le> c'" "supports_width kind c'" "displacement_fits c' (reach ws s t (c' - w))" for c'
    using spec that by (auto simp: displacement_fits_def split: if_splits)
qed

section \<open>One relaxation pass\<close>

definition visited :: "bytecode_assembler \<Rightarrow> nat list \<Rightarrow> nat \<Rightarrow> nat \<Rightarrow> assembly_item \<Rightarrow> nat \<Rightarrow> bool" where
  "visited a ps w i it w' =
     (case it of
        Item_Branch kind l \<Rightarrow> (\<exists>t. target_position a l = Inr t \<and>
          required_branch_size kind w i t ps (word_of_nat i) l = Inr w')
      | _ \<Rightarrow> w' = w)"

lemma relax_item_visited:
  assumes "relax_item a ps (ws, ch) (i, it) = Inr (ws', ch')" "i < length ws"
  shows "visited a ps (ws ! i) i it (ws' ! i)" "ws' = ws[i := ws' ! i]" "ch' \<longleftrightarrow> ch \<or> ws' \<noteq> ws"
proof -
  have "visited a ps (ws ! i) i it (ws' ! i) \<and> ws' = ws[i := ws' ! i] \<and> (ch' \<longleftrightarrow> ch \<or> ws' \<noteq> ws)"
  proof (cases it)
    case (Item_Branch kind l)
    then obtain t d where d: "target_position a l = Inr t"
      "required_branch_size kind (ws ! i) i t ps (word_of_nat i) l = Inr d"
      "(ws', ch') = (if ws ! i < d then (ws[i := d], True) else (ws, ch))"
      using assms unfolding relax_item_eq_Inr by auto
    moreover have "ws ! i < d \<Longrightarrow> ws[i := d] \<noteq> ws" using assms(2) by (metis nat_neq_iff nth_list_update_eq)
    moreover have "ws ! i \<le> d" using required_branch_size_bounds [OF d(2)] by simp
    ultimately show ?thesis using assms(2) by (auto simp: Item_Branch visited_def split: if_splits)
  qed (use assms in \<open>simp_all add: relax_item_eq_Inr visited_def\<close>)
  then show "visited a ps (ws ! i) i it (ws' ! i)" "ws' = ws[i := ws' ! i]" "ch' \<longleftrightarrow> ch \<or> ws' \<noteq> ws" by simp_all
qed

lemma relax_fold_visited:
  "try_fold (relax_item a ps) (List.enumerate 0 its) (ws, False) = Inr (ws', ch) \<Longrightarrow> length its \<le> length ws \<Longrightarrow>
     length ws' = length ws \<and> (\<forall>i < length its. visited a ps (ws ! i) i (its ! i) (ws' ! i)) \<and>
     (\<forall>i. length its \<le> i \<longrightarrow> ws' ! i = ws ! i) \<and> (\<forall>i. ws ! i \<le> ws' ! i) \<and> (ch \<longleftrightarrow> ws' \<noteq> ws)"
proof (induction its arbitrary: ws' ch rule: rev_induct)
  case Nil
  then show ?case by simp
next
  case (snoc it its)
  let ?i = "length its"
  from snoc.prems obtain us c where u: "try_fold (relax_item a ps) (List.enumerate 0 its) (ws, False) = Inr (us, c)"
    and step: "relax_item a ps (us, c) (?i, it) = Inr (ws', ch)"
    by (auto simp: enumerate_append_eq try_fold_append)
  from snoc.IH [OF u] snoc.prems(2)
  have IH: "length us = length ws" "\<forall>i < ?i. visited a ps (ws ! i) i (its ! i) (us ! i)"
    "\<forall>i. ?i \<le> i \<longrightarrow> us ! i = ws ! i" "\<forall>i. ws ! i \<le> us ! i" "c \<longleftrightarrow> us \<noteq> ws" by auto
  have i: "?i < length us" using IH(1) snoc.prems(2) by simp
  note v = relax_item_visited [OF step i]
  have other: "j \<noteq> ?i \<Longrightarrow> ws' ! j = us ! j" for j using v(2) by (metis nth_list_update_neq)
  have len: "length ws' = length ws" using v(2) IH(1) by (metis length_list_update)
  have vi: "visited a ps (ws ! ?i) ?i it (ws' ! ?i)" using v(1) IH(3) by simp
  have le: "ws ! ?i \<le> ws' ! ?i"
    using vi required_branch_size_bounds by (cases it) (fastforce simp: visited_def)+
  have "ws' \<noteq> us \<Longrightarrow> ws' \<noteq> ws" using v(2) IH(3) i by (metis le_refl list_update_id nth_list_update_eq)
  moreover have "us \<noteq> ws \<Longrightarrow> ws' \<noteq> ws"
  proof -
    assume "us \<noteq> ws"
    then obtain j where "j < length ws" "us ! j \<noteq> ws ! j" using IH(1) by (metis nth_equalityI)
    then show "ws' \<noteq> ws" using other [of j] IH(3) by (metis order_refl)
  qed
  ultimately have ch: "ch \<longleftrightarrow> ws' \<noteq> ws" using v(3) IH(5) by auto
  show ?case
  proof (intro conjI allI impI)
    show "length ws' = length ws" by (rule len)
    show "visited a ps (ws ! j) j ((its @ [it]) ! j) (ws' ! j)" if "j < length (its @ [it])" for j
      using that vi IH(2) other [of j] by (cases "j = ?i") (auto simp: nth_append)
    show "ws' ! j = ws ! j" if "length (its @ [it]) \<le> j" for j using that other [of j] IH(3) by simp
    show "ws ! j \<le> ws' ! j" for j using le other [of j] IH(4) by (cases "j = ?i") auto
    show "ch = (ws' \<noteq> ws)" by (rule ch)
  qed
qed

lemma relax_pass_visited:
  assumes "relax_pass a ps ws = Inr (ws', ch)" "length ws = length (as_items a)"
  shows "length ws' = length ws" "\<And>i. i < length ws \<Longrightarrow> visited a ps (ws ! i) i (as_items a ! i) (ws' ! i)"
    "\<And>i. ws ! i \<le> ws' ! i" "ch \<longleftrightarrow> ws' \<noteq> ws"
  using relax_fold_visited [of a ps "as_items a" ws ws' ch] assms by (simp_all add: relax_pass_def)

section \<open>Valid layouts\<close>

text \<open>
  A choice of widths is a valid layout of a plan when every branch has a width its kind can
  encode and reaches its label with it, and every other item has its own size.
\<close>

definition item_fits :: "bytecode_assembler \<Rightarrow> nat list \<Rightarrow> nat \<Rightarrow> assembly_item \<Rightarrow> bool" where
  "item_fits a ws i it =
     (case it of
        Item_Branch kind l \<Rightarrow> supports_width kind (ws ! i) \<and>
          (\<exists>t. target_position a l = Inr t \<and> displacement_fits (ws ! i) (reach ws i t 0))
      | _ \<Rightarrow> ws ! i = minimum_size it)"

definition valid_layout :: "bytecode_assembler \<Rightarrow> nat list \<Rightarrow> bool" where
  "valid_layout a ws \<longleftrightarrow>
     length ws = length (as_items a) \<and> (\<forall>i < length ws. item_fits a ws i (as_items a ! i))"

text \<open>The widths a relaxation can be working on, relative to any valid layout above them.\<close>

definition item_width :: "assembly_item \<Rightarrow> nat \<Rightarrow> bool" where
  "item_width it w = (case it of Item_Branch kind l \<Rightarrow> supports_width kind w | _ \<Rightarrow> w = minimum_size it)"

definition candidate_widths :: "bytecode_assembler \<Rightarrow> nat list \<Rightarrow> bool" where
  "candidate_widths a ws \<longleftrightarrow>
     length ws = length (as_items a) \<and> (\<forall>i < length ws. item_width (as_items a ! i) (ws ! i))"

lemma candidate_widths_minimum: "candidate_widths a (map minimum_size (as_items a))"
proof -
  have "item_width it (minimum_size it)" for it
    by (cases it) (auto simp: item_width_def supports_width_def split: branch_kind.splits)
  then show ?thesis by (simp add: candidate_widths_def)
qed

lemma supports_minimum: "supports_width kind w \<Longrightarrow> branch_minimum_size kind \<le> w"
  by (cases kind) (auto simp: supports_width_def)

lemma minimum_le_valid:
  "valid_layout a vs \<Longrightarrow> i < length (as_items a) \<Longrightarrow> map minimum_size (as_items a) ! i \<le> vs ! i"
  by (cases "as_items a ! i") (auto simp: valid_layout_def item_fits_def supports_minimum)

lemma target_position_le: "assembler_inv a \<Longrightarrow> target_position a l = Inr t \<Longrightarrow> t \<le> length (as_items a)"
  by (auto simp: assembler_inv_def target_position_eq_Inr list_all_length)

lemma visited_width:
  assumes "assembler_inv a" "length ws = length (as_items a)" "i < length ws"
    "item_width (as_items a ! i) (ws ! i)" "visited a (offsets ws) (ws ! i) i (as_items a ! i) w'"
  shows "item_width (as_items a ! i) w'"
  using assms by (auto simp: visited_def item_width_def split: assembly_item.splits
      dest!: required_branch_size_bounds)

lemma candidate_widths_pass:
  assumes "assembler_inv a" "candidate_widths a ws" "relax_pass a (offsets ws) ws = Inr (ws', ch)"
  shows "candidate_widths a ws'"
proof -
  note c = assms(2) [unfolded candidate_widths_def]
  note v = relax_pass_visited [OF assms(3)]
  show ?thesis
    using c v(1,2) visited_width [OF assms(1)] unfolding candidate_widths_def by metis
qed

lemma fixpoint_valid:
  assumes "assembler_inv a" "candidate_widths a ws" "relax_pass a (offsets ws) ws = Inr (ws', False)"
  shows "valid_layout a ws" "ws' = ws"
proof -
  have len: "length ws = length (as_items a)" using assms(2) by (simp add: candidate_widths_def)
  note v = relax_pass_visited [OF assms(3) len]
  show eq: "ws' = ws" using v(4) by simp
  have "item_fits a ws i (as_items a ! i)" if i: "i < length ws" for i
  proof (cases "as_items a ! i")
    case (Item_Branch kind l)
    then obtain t where t: "target_position a l = Inr t"
      "required_branch_size kind (ws ! i) i t (offsets ws) (word_of_nat i) l = Inr (ws ! i)"
      using v(2) [OF i] eq by (auto simp: visited_def)
    then show ?thesis
      using required_branch_size_spec [OF t(2)] i len target_position_le [OF assms(1) t(1)]
      by (auto simp: Item_Branch item_fits_def)
  qed (use assms(2) i in \<open>auto simp: candidate_widths_def item_fits_def item_width_def split: assembly_item.splits\<close>)
  then show "valid_layout a ws" using len by (simp add: valid_layout_def)
qed

section \<open>The relaxed layout is the least\<close>

lemma displacement_fits_between:
  "displacement_fits c x \<Longrightarrow> x \<le> y \<and> y \<le> 0 \<or> 0 \<le> y \<and> y \<le> x \<Longrightarrow> displacement_fits c y"
  by (auto simp: displacement_fits_def i8_try_from_def i16_try_from_def i32_try_from_def split: if_splits)

lemma offset_diff: "i \<le> j \<Longrightarrow> int (offset ws j) - int (offset ws i) = (\<Sum>k = i..<j. int (ws ! k))"
proof (induction j)
  case (Suc j)
  then show ?case by (cases "i = Suc j") (auto simp: le_Suc_eq)
qed simp

lemma offset_diff_mono:
  assumes "\<And>k. k < n \<Longrightarrow> ws ! k \<le> vs ! k" "i \<le> j" "j \<le> n"
  shows "int (offset ws j) - int (offset ws i) \<le> int (offset vs j) - int (offset vs i)"
  unfolding offset_diff [OF assms(2)] using assms by (intro sum_mono) auto

lemma reach_below_valid:
  assumes le: "\<And>k. k < n \<Longrightarrow> ws ! k \<le> vs ! k" and st: "s < n" "t \<le> n"
    and fits: "displacement_fits (vs ! s) (reach vs s t 0)"
  shows "displacement_fits (vs ! s) (reach ws s t (vs ! s - ws ! s))"
proof (cases "s < t")
  case True
  have split: "int (offset us t) - int (offset us s) = int (us ! s) + (int (offset us t) - int (offset us (Suc s)))" for us
    by simp
  have d: "int (offset ws t) - int (offset ws (Suc s)) \<le> int (offset vs t) - int (offset vs (Suc s))"
    using True st by (intro offset_diff_mono le) auto
  have nn: "offset ws (Suc s) \<le> offset ws t" using True by (intro offset_mono) simp
  have sz: "2 \<le> vs ! s" using fits by (auto simp: displacement_fits_def split: if_splits)
  show ?thesis
    using displacement_fits_between [OF fits, of "reach ws s t (vs ! s - ws ! s)"] True d nn sz
      split [of ws] split [of vs] le [OF st(1)]
    by (simp add: reach_def of_nat_diff del: offset_Suc)
next
  case False
  have "int (offset ws s) - int (offset ws t) \<le> int (offset vs s) - int (offset vs t)"
    using False st by (intro offset_diff_mono le) auto
  moreover have "offset ws t \<le> offset ws s" using False by (intro offset_mono) simp
  ultimately show ?thesis
    using displacement_fits_between [OF fits, of "reach ws s t (vs ! s - ws ! s)"] False
    by (simp add: reach_def)
qed

lemma pass_below_valid:
  assumes inv: "assembler_inv a" and len: "length ws = length (as_items a)" and v: "valid_layout a vs"
    and le: "\<And>k. k < length ws \<Longrightarrow> ws ! k \<le> vs ! k"
    and pass: "relax_pass a (offsets ws) ws = Inr (ws', ch)" and i: "i < length ws"
  shows "ws' ! i \<le> vs ! i"
proof (cases "as_items a ! i")
  case (Item_Branch kind l)
  then obtain t where t: "target_position a l = Inr t"
    "required_branch_size kind (ws ! i) i t (offsets ws) (word_of_nat i) l = Inr (ws' ! i)"
    using relax_pass_visited(2) [OF pass len i] by (auto simp: visited_def)
  then have fits: "supports_width kind (vs ! i)" "displacement_fits (vs ! i) (reach vs i t 0)"
    using v i len Item_Branch by (auto simp: valid_layout_def item_fits_def)
  have tl: "t \<le> length ws" using target_position_le [OF inv t(1)] len by simp
  from required_branch_size_spec(5) [OF t(2) _ tl le [OF i] fits(1)] i
    reach_below_valid [OF le i tl fits(2)]
  show ?thesis by simp
qed (use relax_pass_visited(2) [OF pass len i] le [OF i] in \<open>simp_all add: visited_def\<close>)

lemma relaxation_loop_least:
  assumes "assembler_inv a"
  shows "candidate_widths a ws \<Longrightarrow> relaxation_loop a ws n = Inr (us, ps) \<Longrightarrow>
    valid_layout a us \<and> ps = offsets us \<and> offset us (length us) < 2 ^ 64 \<and>
    (\<forall>vs. valid_layout a vs \<and> (\<forall>i < length ws. ws ! i \<le> vs ! i) \<longrightarrow> (\<forall>i < length us. us ! i \<le> vs ! i))"
  using assms
proof (induction a ws n rule: relaxation_loop.induct)
  case (1 a ws n)
  note len = \<open>candidate_widths a ws\<close> [unfolded candidate_widths_def, THEN conjunct1]
  obtain m q where ch: "charge_relaxation_pass a n = Inr m" and q: "populate_instruction_positions ws = Inr q"
    and r: "(case relax_pass a q ws of Inl e \<Rightarrow> Inl e
      | Inr (ws', changed) \<Rightarrow> if changed then relaxation_loop a ws' m else Inr (ws', q)) = Inr (us, ps)"
    using "1.prems"(2) unfolding relaxation_loop.simps [of a ws n] and_then_eq_Inr by blast
  have sum: "offset ws (length ws) < 2 ^ 64" and qeq: "q = offsets ws"
    using q by (auto simp: populate_instruction_positions_eq split: if_splits)
  obtain ws' ch where pass: "relax_pass a (offsets ws) ws = Inr (ws', ch)"
    using r qeq by (cases "relax_pass a q ws") auto
  then have res: "(if ch then relaxation_loop a ws' m else Inr (ws', offsets ws)) = Inr (us, ps)"
    using r unfolding qeq by simp
  have pop: "populate_instruction_positions ws = Inr (offsets ws)"
    using sum by (simp add: populate_instruction_positions_eq)
  show ?case
  proof (cases ch)
    case False
    then have "ws' = ws" "us = ws" "ps = offsets ws" "valid_layout a ws"
      using fixpoint_valid [OF "1.prems"(3,1)] pass res by auto
    then show ?thesis using sum by simp
  next
    case True
    have IH: "valid_layout a us \<and> ps = offsets us \<and> offset us (length us) < 2 ^ 64 \<and>
      (\<forall>vs. valid_layout a vs \<and> (\<forall>i < length ws'. ws' ! i \<le> vs ! i) \<longrightarrow> (\<forall>i < length us. us ! i \<le> vs ! i))"
      using res True candidate_widths_pass [OF "1.prems"(3,1) pass] "1.prems"(3)
      by (intro "1.IH" [OF pass refl]) simp_all
    moreover have "\<forall>i < length ws'. ws' ! i \<le> vs ! i" if "valid_layout a vs" "\<forall>i < length ws. ws ! i \<le> vs ! i" for vs
      using pass_below_valid [OF "1.prems"(3) len that(1) _ pass] that(2) relax_pass_visited(1) [OF pass len] by simp
    ultimately show ?thesis by blast
  qed
qed

lemma no_branch_valid:
  assumes "\<not> list_ex is_branch (as_items a)"
  shows "valid_layout a (map minimum_size (as_items a))"
proof -
  have "item_fits a (map minimum_size (as_items a)) i (as_items a ! i)" if "i < length (as_items a)" for i
    using assms that by (auto simp: item_fits_def list_ex_length is_branch_def split: assembly_item.splits)
  then show ?thesis by (simp add: valid_layout_def)
qed

lemma relaxed_layout_spec:
  assumes inv: "assembler_inv a" and ok: "relaxed_layout alloc a = Inr (ws, ps)"
  shows "valid_layout a ws" "ps = offsets ws" "offset ws (length ws) < 2 ^ 64"
    "\<And>vs i. valid_layout a vs \<Longrightarrow> i < length ws \<Longrightarrow> ws ! i \<le> vs ! i"
proof -
  let ?m = "map minimum_size (as_items a)"
  have "valid_layout a ws \<and> ps = offsets ws \<and> offset ws (length ws) < 2 ^ 64 \<and>
    (\<forall>vs i. valid_layout a vs \<longrightarrow> i < length ws \<longrightarrow> ws ! i \<le> vs ! i)"
  proof (cases "list_ex is_branch (as_items a)")
    case True
    then have loop: "relaxation_loop a ?m 0 = Inr (ws, ps)"
      using ok by (auto simp: relaxed_layout_def Let_def)
    note s = relaxation_loop_least [OF inv candidate_widths_minimum loop]
    have "ws ! i \<le> vs ! i" if "valid_layout a vs" "i < length ws" for vs i
      using s minimum_le_valid [OF that(1)] that by simp
    then show ?thesis using s by blast
  next
    case False
    then have "ws = ?m" "ps = offsets ?m" "offset ?m (length ?m) < 2 ^ 64"
      using ok by (auto simp: relaxed_layout_def Let_def populate_instruction_positions_eq split: if_splits)
    then show ?thesis
      using no_branch_valid [OF False] minimum_le_valid [of a] by auto
  qed
  then show "valid_layout a ws" "ps = offsets ws" "offset ws (length ws) < 2 ^ 64"
    "\<And>vs i. valid_layout a vs \<Longrightarrow> i < length ws \<Longrightarrow> ws ! i \<le> vs ! i" by blast+
qed

section \<open>Convergence\<close>

text \<open>
  A branch can be widened at most twice (two, three, five bytes), so the passes that change
  something are at most twice the branches.
\<close>

definition widenings_left :: "nat \<Rightarrow> nat" where
  "widenings_left w = (if w < 3 then 2 else if w < 5 then 1 else 0)"

definition pending :: "bytecode_assembler \<Rightarrow> nat list \<Rightarrow> nat" where
  "pending a ws = (\<Sum>i < length (as_items a). if is_branch (as_items a ! i) then widenings_left (ws ! i) else 0)"

definition branch_count :: "bytecode_assembler \<Rightarrow> nat" where
  "branch_count a = length (filter is_branch (as_items a))"

lemma pending_le: "pending a ws \<le> 2 * branch_count a"
proof -
  have "pending a ws \<le> (\<Sum>i < length (as_items a). if is_branch (as_items a ! i) then 2 else 0)"
    unfolding pending_def by (rule sum_mono) (simp add: widenings_left_def)
  also have "\<dots> = 2 * branch_count a"
    by (simp add: branch_count_def length_filter_conv_card sum.If_cases) (rule arg_cong [where f = card], auto)
  finally show ?thesis .
qed

lemma supports_width_range: "supports_width kind w \<Longrightarrow> w \<in> {2, 3, 5}"
  by (cases kind) (auto simp: supports_width_def)

lemma pending_decreases:
  assumes inv: "assembler_inv a" and c: "candidate_widths a ws"
    and pass: "relax_pass a (offsets ws) ws = Inr (ws', True)"
  shows "pending a ws' < pending a ws"
proof -
  have len: "length ws = length (as_items a)" using c by (simp add: candidate_widths_def)
  note v = relax_pass_visited [OF pass len]
  have c': "candidate_widths a ws'" by (rule candidate_widths_pass [OF inv c pass])
  have mono: "(if is_branch (as_items a ! i) then widenings_left (ws' ! i) else 0)
      \<le> (if is_branch (as_items a ! i) then widenings_left (ws ! i) else 0)" for i
    using v(3) [of i] by (auto simp: widenings_left_def)
  obtain j where j: "j < length ws" "ws' ! j \<noteq> ws ! j"
    using v(1,4) by (metis nth_equalityI)
  then have lt: "ws ! j < ws' ! j" using v(3) [of j] by simp
  obtain kind l where b: "as_items a ! j = Item_Branch kind l"
    using v(2) [OF j(1)] j(2) by (auto simp: visited_def split: assembly_item.splits)
  have "item_width (as_items a ! j) (ws ! j)" "item_width (as_items a ! j) (ws' ! j)"
    using c c' j(1) v(1) unfolding candidate_widths_def by simp_all
  then have "ws ! j \<in> {2, 3, 5}" "ws' ! j \<in> {2, 3, 5}"
    using b supports_width_range by (simp_all add: item_width_def)
  with lt have "widenings_left (ws' ! j) < widenings_left (ws ! j)" by (auto simp: widenings_left_def)
  then show ?thesis
    unfolding pending_def using mono j(1) len b
    by (intro sum_strict_mono_ex1) (auto simp: is_branch_def)
qed

text \<open>With every label bound and the widest encoding below two gigabytes no pass can fail.\<close>

primrec widest_size :: "assembly_item \<Rightarrow> nat" where
  "widest_size (Item_Instruction i) = unat (encoded_size i)"
| "widest_size (Item_Branch kind l) = 5"
| "widest_size (Item_WithBranch op atom v l) = 10"

definition widest_encoding :: "bytecode_assembler \<Rightarrow> nat" where
  "widest_encoding a = sum_list (map widest_size (as_items a))"

definition all_bound :: "bytecode_assembler \<Rightarrow> bool" where
  "all_bound a \<longleftrightarrow> None \<notin> set (as_label_bindings a)"

lemma bound_target: "all_bound a \<Longrightarrow> unat l < length (as_label_bindings a) \<Longrightarrow> \<exists>t. target_position a l = Inr t"
  unfolding all_bound_def target_position_eq_Inr by (metis nth_mem option.exhaust)

lemma item_width_le_widest: "item_width it w \<Longrightarrow> w \<le> widest_size it"
  by (cases it) (auto simp: item_width_def dest: supports_width_range)

lemma offset_le_widest:
  assumes "candidate_widths a ws" "i \<le> length ws"
  shows "offset ws i \<le> widest_encoding a"
proof -
  have "offset ws i \<le> offset ws (length ws)" by (rule offset_mono [OF assms(2)])
  also have "\<dots> \<le> (\<Sum>j < length ws. map widest_size (as_items a) ! j)"
    unfolding offset_def using assms(1) item_width_le_widest
    by (intro sum_mono) (auto simp: candidate_widths_def)
  also have "\<dots> = widest_encoding a"
    using assms(1) by (simp add: widest_encoding_def candidate_widths_def sum_list_sum_nth atLeast0LessThan)
  finally show ?thesis .
qed

lemma small_displacement:
  "p < 2 ^ 31 \<Longrightarrow> q < 2 ^ 31 + 5 \<Longrightarrow> signed_displacement p q = Inr (int q - int p - 1)"
  by (auto simp: signed_displacement_def u64_checked_add_def Let_def in_i64_def)

lemma fitting_candidate_total:
  assumes "\<And>i. i \<le> length ws \<Longrightarrow> offset ws i < 2 ^ 31 - 5" "s \<le> length ws" "t \<le> length ws"
    and "set cs \<subseteq> {2, 3, 5}" "5 \<in> set cs" "w \<le> 5" "supports_width kind 5"
  shows "\<exists>c. fitting_candidate kind w s t (offsets ws) cs = Inr (Some c)"
  using assms(4,5)
proof (induction cs)
  case (Cons x cs)
  have st: "offset ws s < 2 ^ 31 - 5" "offset ws t < 2 ^ 31 - 5" using assms(1-3) by auto
  have x: "x \<le> 5" using Cons.prems(1) by auto
  let ?q = "offset ws t + (if s < t then x - w else 0)"
  have q: "?q < 2 ^ 31 + 5" "grown_target s t (offsets ws) (x - w) = Inr ?q"
    using st x assms(3) by (auto simp: grown_target_def idx_def u64_checked_add_def get_def)
  have d: "signed_displacement (offset ws s) ?q = Inr (int ?q - int (offset ws s) - 1)"
    using st by (intro small_displacement q(1)) simp
  have five: "displacement_fits 5 (int ?q - int (offset ws s) - 1)"
    using st x by (auto simp: displacement_fits_def i32_try_from_def)
  show ?case
  proof (cases "x < w \<or> \<not> supports_width kind x")
    case True
    then have "x \<noteq> 5" using assms(6,7) by auto
    then show ?thesis using Cons True by simp
  next
    case False
    show ?thesis
    proof (cases "displacement_fits x (int ?q - int (offset ws s) - 1)")
      case True
      then show ?thesis using False q(2) d assms(2) by (simp add: idx_def get_def)
    next
      case nofit: False
      then have "x \<noteq> 5" using five by auto
      then show ?thesis using Cons False q(2) d nofit assms(2) by (simp add: idx_def get_def)
    qed
  qed
qed simp

lemma item_index_u32:
  assumes "assembler_inv a" "i < length (as_items a)"
  shows "i < 2 ^ 32"
proof -
  have "i < unat (max_instructions (as_limits a))" using assms by (simp add: assembler_inv_def)
  also have "\<dots> < 2 ^ 32" by simp
  finally show ?thesis .
qed

lemma relax_item_total:
  assumes inv: "assembler_inv a" and bound: "all_bound a"
    and ps: "length ws = length (as_items a)" "\<And>i. i \<le> length ws \<Longrightarrow> offset ws i < 2 ^ 31 - 5"
    and us: "length us = length ws" "item_width (as_items a ! i) (us ! i)"
    and i: "i < length (as_items a)"
  shows "\<exists>r. relax_item a (offsets ws) (us, ch) (i, as_items a ! i) = Inr r"
proof (cases "as_items a ! i")
  case (Item_Branch kind l)
  have l: "unat l < length (as_label_bindings a)"
    using inv i Item_Branch by (auto simp: assembler_inv_def list_all_length dest: spec [of _ i])
  then obtain t where t: "target_position a l = Inr t"
    using bound_target [OF bound] by blast
  have i32: "i < 2 ^ 32"
    by (rule item_index_u32 [OF inv i])
  have sup: "us ! i \<le> 5" "supports_width kind 5"
    using us(2) Item_Branch
    by (cases kind; auto simp: item_width_def supports_width_def)+
  obtain c where "fitting_candidate kind (us ! i) i t (offsets ws) [2, 3, 5] = Inr (Some c)"
    using fitting_candidate_total [OF ps(2), of i t "[2, 3, 5]" "us ! i" kind] sup i ps(1)
      target_position_le [OF inv t] by auto
  then have "required_branch_size kind (us ! i) i t (offsets ws) (word_of_nat i) l = Inr c"
    by (simp add: required_branch_size_def del: fitting_candidate.simps)
  then show ?thesis
    using t i i32 us(1) ps(1) by (simp add: Item_Branch relax_item_def idx_def get_def u32_try_from_def)
qed (simp_all add: relax_item_def)

lemma relax_pass_total:
  assumes inv: "assembler_inv a" and bound: "all_bound a" and c: "candidate_widths a ws"
    and small: "widest_encoding a < 2 ^ 31 - 5"
  shows "\<exists>ws' ch. relax_pass a (offsets ws) ws = Inr (ws', ch)"
proof -
  have len: "length ws = length (as_items a)" using c by (simp add: candidate_widths_def)
  have ps: "offset ws i < 2 ^ 31 - 5" if "i \<le> length ws" for i
    using offset_le_widest [OF c that] small by linarith
  have "\<exists>us ch. try_fold (relax_item a (offsets ws)) (List.enumerate 0 (take k (as_items a))) (ws, False) = Inr (us, ch)"
    if "k \<le> length (as_items a)" for k
    using that
  proof (induction k)
    case (Suc k)
    then obtain us ch where u: "try_fold (relax_item a (offsets ws)) (List.enumerate 0 (take k (as_items a))) (ws, False) = Inr (us, ch)"
      by auto
    note v = relax_fold_visited [OF u]
    have us: "length us = length ws" "us ! k = ws ! k" using v len Suc.prems by auto
    then have w: "item_width (as_items a ! k) (us ! k)" using c Suc.prems len by (simp add: candidate_widths_def)
    obtain r where "relax_item a (offsets ws) (us, ch) (k, as_items a ! k) = Inr r"
      using relax_item_total [OF inv bound len ps us(1) w, of ch] Suc.prems by auto
    then show ?case
      using u Suc.prems by (cases r) (simp add: take_Suc_conv_app_nth enumerate_append_eq try_fold_append)
  qed auto
  from this [of "length (as_items a)"] show ?thesis by (simp add: relax_pass_def)
qed

lemma charge_relaxation_pass_ok:
  "length (as_items a) < 2 ^ 64 \<Longrightarrow> n + length (as_items a) \<le> unat (max_relaxation_evaluations (as_limits a)) \<Longrightarrow>
     charge_relaxation_pass a n = Inr (n + length (as_items a))"
  by (simp add: charge_relaxation_pass_def Let_def usize_to_u64_def not_less)

lemma relaxation_loop_total:
  assumes "assembler_inv a" "all_bound a" "widest_encoding a < 2 ^ 31 - 5" "candidate_widths a ws"
    "n + length (as_items a) * (pending a ws + 1) \<le> unat (max_relaxation_evaluations (as_limits a))"
  shows "\<exists>us ps. relaxation_loop a ws n = Inr (us, ps)"
  using assms
proof (induction a ws n rule: relaxation_loop.induct)
  case (1 a ws n)
  let ?k = "length (as_items a)"
  have "?k \<le> unat (max_instructions (as_limits a))" using "1.prems"(1) by (simp add: assembler_inv_def)
  also have "\<dots> < 2 ^ 32" by simp
  finally have k64: "?k < 2 ^ 64" by simp
  have "n + ?k \<le> unat (max_relaxation_evaluations (as_limits a))" using "1.prems"(5) by simp
  note ch = charge_relaxation_pass_ok [OF k64 this]
  have "offset ws (length ws) < 2 ^ 64"
    using offset_le_widest [OF "1.prems"(4) order_refl] "1.prems"(3) by simp
  then have pop: "populate_instruction_positions ws = Inr (offsets ws)"
    by (simp add: populate_instruction_positions_eq)
  obtain ws' c where pass: "relax_pass a (offsets ws) ws = Inr (ws', c)"
    using relax_pass_total [OF "1.prems"(1,2,4,3)] by blast
  show ?case
  proof (cases c)
    case True
    have dec: "pending a ws' + 1 \<le> pending a ws"
      using pending_decreases [OF "1.prems"(1,4)] pass True by simp
    have "(n + ?k) + ?k * (pending a ws' + 1) \<le> n + ?k * (pending a ws + 1)"
      using mult_le_mono2 [OF dec, of ?k] by (simp add: algebra_simps)
    then have "\<exists>us ps. relaxation_loop a ws' (n + ?k) = Inr (us, ps)"
      using True "1.prems" candidate_widths_pass [OF "1.prems"(1,4) pass]
      by (intro "1.IH" [OF pass refl]) simp_all
    then show ?thesis using ch pop pass True by (simp add: relaxation_loop.simps [of a ws n])
  next
    case False
    then show ?thesis using ch pop pass by (simp add: relaxation_loop.simps [of a ws n])
  qed
qed

end
