(* ===== verification/Assembler_Emission.thy ===== *)
theory Assembler_Emission
  imports Assembler_Layout Verifier_Soundness
begin

text \<open>
  Emission of a laid-out plan through the builder: the instruction every item becomes, where its
  encoded target points, when emission succeeds and which errors it can report.
\<close>

section \<open>Emission\<close>

primrec branch_opcodes :: "branch_kind \<Rightarrow> final_opcode set" where
  "branch_opcodes BK_IfFalse = {Op_IfFalse, Op_IfFalse8}"
| "branch_opcodes BK_IfTrue = {Op_IfTrue, Op_IfTrue8}"
| "branch_opcodes BK_Goto = {Op_Goto, Op_Goto8, Op_Goto16}"
| "branch_opcodes BK_Catch = {Op_Catch}"
| "branch_opcodes BK_Gosub = {Op_Gosub}"

lemma signed_try_from:
  "i8_try_from x = Some v8 \<Longrightarrow> sint v8 = x"
  "i16_try_from x = Some v16 \<Longrightarrow> sint v16 = x"
  "i32_try_from x = Some v32 \<Longrightarrow> sint v32 = x"
  by (auto simp: i8_try_from_def i16_try_from_def i32_try_from_def signed_of_int signed_take_bit_int_eq_self
      split: if_splits)

lemma branch_instruction_Inr:
  assumes "branch_instruction kind w disp i l = Inr ins"
  shows "valid_instruction ins" "i_opcode ins \<in> branch_opcodes kind" "unat (encoded_size ins) = w"
    "\<And>p n. encoded_target \<lparr>d_pc = p, d_instruction = ins, d_next_pc = n\<rparr> = Some (uint p + 1 + disp)"
proof -
  obtain op o1 where v: "valid_instruction ins" "ins = \<lparr>i_opcode = op, i_operands = o1\<rparr>" and
    "kind = BK_IfFalse \<and> w = 2 \<and> op = Op_IfFalse8 \<and> (\<exists>v. o1 = Opd_Label8 v \<and> sint v = disp) \<or>
     kind = BK_IfFalse \<and> w = 5 \<and> op = Op_IfFalse \<and> (\<exists>v. o1 = Opd_Label v \<and> sint v = disp) \<or>
     kind = BK_IfTrue \<and> w = 2 \<and> op = Op_IfTrue8 \<and> (\<exists>v. o1 = Opd_Label8 v \<and> sint v = disp) \<or>
     kind = BK_IfTrue \<and> w = 5 \<and> op = Op_IfTrue \<and> (\<exists>v. o1 = Opd_Label v \<and> sint v = disp) \<or>
     kind = BK_Goto \<and> w = 2 \<and> op = Op_Goto8 \<and> (\<exists>v. o1 = Opd_Label8 v \<and> sint v = disp) \<or>
     kind = BK_Goto \<and> w = 3 \<and> op = Op_Goto16 \<and> (\<exists>v. o1 = Opd_Label16 v \<and> sint v = disp) \<or>
     kind = BK_Goto \<and> w = 5 \<and> op = Op_Goto \<and> (\<exists>v. o1 = Opd_Label v \<and> sint v = disp) \<or>
     kind = BK_Catch \<and> w = 5 \<and> op = Op_Catch \<and> (\<exists>v. o1 = Opd_Label v \<and> sint v = disp) \<or>
     kind = BK_Gosub \<and> w = 5 \<and> op = Op_Gosub \<and> (\<exists>v. o1 = Opd_Label v \<and> sint v = disp)"
    using assms unfolding branch_instruction_def Let_def
    by (simp add: instruction_new_valid split: if_split_asm)
       (elim exE conjE; auto dest: signed_try_from)+
  then show "valid_instruction ins" "i_opcode ins \<in> branch_opcodes kind" "unat (encoded_size ins) = w"
    "\<And>p n. encoded_target \<lparr>d_pc = p, d_instruction = ins, d_next_pc = n\<rparr> = Some (uint p + 1 + disp)"
    by (auto simp: encoded_size_def encoded_target_def opcode_metadata_new_def)
qed


lemma with_instruction:
  assumes "op \<in> with_opcodes"
  shows "valid_instruction \<lparr>i_opcode = op, i_operands = Opd_AtomLabelU8 atom d v\<rparr>"
    "unat (encoded_size \<lparr>i_opcode = op, i_operands = Opd_AtomLabelU8 atom d v\<rparr>) = 10"
  using assms by (auto simp: valid_instruction_def encoded_size_def opcode_metadata_new_def)

text \<open>The instruction an item becomes: its size is its width and it reaches its label.\<close>

definition item_emitted :: "bytecode_assembler \<Rightarrow> nat list \<Rightarrow> nat \<Rightarrow> assembly_item \<Rightarrow> instruction \<Rightarrow> bool" where
  "item_emitted a ws i it ins =
     (valid_instruction ins \<and> unat (encoded_size ins) = ws ! i \<and>
      (case it of
         Item_Instruction ins' \<Rightarrow> ins = ins'
       | Item_Branch kind l \<Rightarrow> i_opcode ins \<in> branch_opcodes kind \<and>
           (\<exists>t. target_position a l = Inr t \<and>
             (\<forall>p n. uint p = int (offset ws i) \<longrightarrow>
                encoded_target \<lparr>d_pc = p, d_instruction = ins, d_next_pc = n\<rparr> = Some (int (offset ws t))))
       | Item_WithBranch op atom v l \<Rightarrow> i_opcode ins = op \<and>
           (\<exists>t d. target_position a l = Inr t \<and> i_operands ins = Opd_AtomLabelU8 atom d v \<and>
             (\<forall>p n. uint p = int (offset ws i) \<longrightarrow>
                encoded_target \<lparr>d_pc = p, d_instruction = ins, d_next_pc = n\<rparr> = Some (int (offset ws t))))))"

lemma with_branch_displacement_Inr:
  "with_branch_displacement p q i l = Inr d \<Longrightarrow> sint d = int q - int p - 5"
  by (auto simp: with_branch_displacement_def u64_checked_add_def Let_def dest: signed_try_from split: if_splits)

lemma item_instruction_emitted:
  assumes inv: "assembler_inv a" and v: "valid_layout a ws" and i: "i < length (as_items a)"
    and ok: "item_instruction a ws (offsets ws) i n (as_items a ! i) = Inr ins"
  shows "item_emitted a ws i (as_items a ! i) ins"
proof -
  have len: "length ws = length (as_items a)" using v by (simp add: valid_layout_def)
  have item: "item_ok (length (as_label_bindings a)) (as_items a ! i)" "item_fits a ws i (as_items a ! i)"
    using inv v i len by (auto simp: assembler_inv_def list_all_length valid_layout_def)
  show ?thesis
  proof (cases "as_items a ! i")
    case (Item_Instruction ins')
    then show ?thesis using ok item by (simp add: item_instruction_def item_emitted_def item_fits_def)
  next
    case (Item_Branch kind l)
    then obtain t disp where t: "target_position a l = Inr t"
      "signed_displacement (offset ws i) (offset ws t) = Inr disp"
      and b: "branch_instruction kind (ws ! i) disp n l = Inr ins"
      using ok i len by (auto simp: item_instruction_def idx_def target_position_le [OF inv])
    show ?thesis
      using branch_instruction_Inr [OF b] t(1) signed_displacement_Inr [OF t(2)]
      by (simp add: Item_Branch item_emitted_def)
  next
    case (Item_WithBranch op atom v l)
    then obtain t d where t: "target_position a l = Inr t"
      "with_branch_displacement (offset ws i) (offset ws t) n l = Inr d"
      and ins: "ins = \<lparr>i_opcode = op, i_operands = Opd_AtomLabelU8 atom d v\<rparr>"
      using ok i len
      by (auto simp: item_instruction_def idx_def instruction_new_valid target_position_le [OF inv])
    show ?thesis
      using with_instruction [of op atom d v] item with_branch_displacement_Inr [OF t(2)] t(1)
      by (simp add: Item_WithBranch item_emitted_def ins item_fits_def encoded_target_def)
  qed
qed

lemma length_concat_offset:
  assumes "\<And>j. j < length ins \<Longrightarrow> valid_instruction (ins ! j) \<and> unat (encoded_size (ins ! j)) = ws ! j" "i \<le> length ins"
  shows "length (concat (map instruction_bytes (take i ins))) = offset ws i"
  using assms(2)
proof (induction i)
  case (Suc i)
  then show ?case using assms(1) [of i] by (simp add: take_Suc_conv_app_nth length_instruction_bytes)
qed simp

lemma emit_fold_Inr:
  assumes inv: "assembler_inv a" and v: "valid_layout a ws"
    and b0: "builder_inv 0 b0" "bb_bytes b0 = []"
  shows "k \<le> length (as_items a) \<Longrightarrow>
    try_fold (emit_item alloc a ws (offsets ws) e) (List.enumerate 0 (take k (as_items a))) (b0, []) = Inr (b, pcs) \<Longrightarrow>
    \<exists>ins. length ins = k \<and> (\<forall>i < k. item_emitted a ws i (as_items a ! i) (ins ! i)) \<and>
      bb_bytes b = concat (map instruction_bytes ins) \<and> builder_inv 0 b \<and>
      bb_byte_limit b = bb_byte_limit b0 \<and> length pcs = k \<and> (\<forall>i < k. unat (pcs ! i) = offset ws i)"
proof (induction k arbitrary: b pcs)
  case 0
  then show ?case using b0 by simp
next
  case (Suc k)
  let ?it = "as_items a ! k"
  have k: "k < length (as_items a)" using Suc.prems by simp
  obtain b1 pcs1 where r1: "try_fold (emit_item alloc a ws (offsets ws) e) (List.enumerate 0 (take k (as_items a))) (b0, []) = Inr (b1, pcs1)"
    and step: "emit_item alloc a ws (offsets ws) e (b1, pcs1) (k, ?it) = Inr (b, pcs)"
    using Suc.prems k by (auto simp: take_Suc_conv_app_nth enumerate_append_eq try_fold_append)
  from Suc.IH [OF _ r1] k obtain ins where ins: "length ins = k"
    "\<forall>i < k. item_emitted a ws i (as_items a ! i) (ins ! i)" "bb_bytes b1 = concat (map instruction_bytes ins)"
    "builder_inv 0 b1" "bb_byte_limit b1 = bb_byte_limit b0" "length pcs1 = k" "\<forall>i < k. unat (pcs1 ! i) = offset ws i"
    by auto
  have len: "length ws = length (as_items a)" using v by (simp add: valid_layout_def)
  obtain n instr p where ins1: "item_instruction a ws (offsets ws) k n ?it = Inr instr"
    and push: "push_instruction alloc b1 instr = Inr (b, p)" and pcs: "pcs = pcs1 @ [p]"
    and exp: "u32_try_from (offset ws k) = Some p"
    using step k len by (auto simp: emit_item_def idx_def split: if_splits)
  note em = item_instruction_emitted [OF inv v k ins1]
  have val: "valid_instruction instr" using em by (simp add: item_emitted_def)
  note pi = push_instruction_inv [OF ins(4) val push]
  have "\<forall>i < Suc k. item_emitted a ws i (as_items a ! i) ((ins @ [instr]) ! i)"
    using ins(1,2) em by (auto simp: less_Suc_eq nth_append)
  moreover have "\<forall>i < Suc k. unat (pcs ! i) = offset ws i"
    using ins(6,7) unat_u32_try_from [OF exp] by (auto simp: pcs less_Suc_eq nth_append)
  ultimately show ?case
    using ins pi pcs by (intro exI [of _ "ins @ [instr]"]) simp
qed

section \<open>Destinations\<close>

text \<open>
  Where a branch of the plan is meant to go: to the instruction its label is bound to, or, for
  conditional and unconditional branches, further along the gotos found there, up to an
  instruction that is not a goto.
\<close>

definition goto_hop :: "bytecode_assembler \<Rightarrow> nat \<Rightarrow> nat \<Rightarrow> bool" where
  "goto_hop a p q \<longleftrightarrow>
     p < length (as_items a) \<and> (\<exists>l. as_items a ! p = Item_Branch BK_Goto l \<and> target_position a l = Inr q)"

definition branch_destination :: "bytecode_assembler \<Rightarrow> branch_kind \<Rightarrow> u32 \<Rightarrow> nat \<Rightarrow> bool" where
  "branch_destination a kind l q \<longleftrightarrow>
     (\<exists>p. target_position a l = Inr p \<and>
       (q = p \<or> kind \<in> {BK_IfFalse, BK_IfTrue, BK_Goto} \<and> (goto_hop a)\<^sup>*\<^sup>* p q \<and> (\<nexists>r. goto_hop a q r)))"

lemma goto_step_position:
  assumes "goto_step a l l'" "assembler_inv a" "all_bound a"
  shows "\<exists>p q w. as_label_bindings a ! l = Some p \<and> l < length (as_label_bindings a) \<and> unat w = l' \<and>
    target_position a w = Inr q \<and> goto_hop a p q \<and> Item_Branch BK_Goto w \<in> set (as_items a)"
proof -
  obtain w p where l: "unat w = l'" "l < length (as_label_bindings a)" "as_label_bindings a ! l = Some p"
    "p < length (as_items a)" "as_items a ! p = Item_Branch BK_Goto w"
    using assms(1) unfolding goto_step_def label_goto_target_def
    by (auto simp: bind_eq_Some_conv split: option.splits assembly_item.splits branch_kind.splits)
  have "unat w < length (as_label_bindings a)"
    using assembler_inv_closed_gotos [OF assms(2)] assms(1) l(1) by (auto simp: closed_gotos_def)
  then obtain q where q: "target_position a w = Inr q"
    using bound_target [OF assms(3)] by blast
  have "Item_Branch BK_Goto w \<in> set (as_items a)" using l(4,5) by (metis nth_mem)
  moreover have "goto_hop a p q" using l q by (auto simp: goto_hop_def)
  ultimately show ?thesis using l q by blast
qed

lemma validated_targets:
  assumes inv: "assembler_inv a" and ok: "validate_bound_labels a = Inr ()"
  shows "all_bound a"
    and "\<And>it l. it \<in> set (as_items a) \<Longrightarrow> item_label it = Some l \<Longrightarrow>
       \<exists>q. target_position a l = Inr q \<and> q < length (as_items a)"
proof -
  have b: "None \<notin> set (as_label_bindings a)"
    and u: "\<And>it l. it \<in> set (as_items a) \<Longrightarrow> item_label it = Some l \<Longrightarrow>
       as_label_bindings a ! unat l \<noteq> Some (length (as_items a))"
    using ok unfolding validate_bound_labels_iff [OF inv] by auto
  show "all_bound a" using b by (simp add: all_bound_def)
  show "\<exists>q. target_position a l = Inr q \<and> q < length (as_items a)"
    if it: "it \<in> set (as_items a)" "item_label it = Some l" for it l
  proof -
    have l: "unat l < length (as_label_bindings a)"
      using inv it by (cases it) (auto simp: item_label_def assembler_inv_def list_all_iff)
    then obtain q where q: "as_label_bindings a ! unat l = Some q" using b by (metis nth_mem option.exhaust)
    then have t: "target_position a l = Inr q" using l by (simp add: target_position_eq_Inr)
    then show ?thesis using target_position_le [OF inv t] u [OF it] q by auto
  qed
qed

lemma steps_hops:
  assumes inv: "assembler_inv a" and ok: "validate_bound_labels a = Inr ()"
    and "(goto_step a)\<^sup>*\<^sup>* l l'" "l' \<noteq> l" "as_label_bindings a ! l = Some p"
  shows "\<exists>q. as_label_bindings a ! l' = Some q \<and> q < length (as_items a) \<and> (goto_hop a)\<^sup>*\<^sup>* p q"
  using assms(3)
proof (cases rule: rtranclp.cases)
  case (rtrancl_into_rtrancl m)
  have hop: "\<exists>p' q. as_label_bindings a ! x = Some p' \<and> as_label_bindings a ! y = Some q \<and> goto_hop a p' q \<and>
      q < length (as_items a)" if st: "goto_step a x y" for x y
  proof -
    obtain p' q w where h: "as_label_bindings a ! x = Some p'" "unat w = y" "target_position a w = Inr q"
      "goto_hop a p' q" "Item_Branch BK_Goto w \<in> set (as_items a)"
      using goto_step_position [OF st inv validated_targets(1) [OF inv ok]] by blast
    have "q < length (as_items a)"
      using validated_targets(2) [OF inv ok h(5)] h(3) by (auto simp: item_label_def)
    then show ?thesis using h by (auto simp: target_position_eq_Inr)
  qed
  have pre: "\<exists>q. as_label_bindings a ! m' = Some q \<and> (goto_hop a)\<^sup>*\<^sup>* p q" if "(goto_step a)\<^sup>*\<^sup>* l m'" for m'
    using that
  proof (induction rule: rtranclp_induct)
    case (step y z)
    then show ?case using hop [OF step.hyps(2)] by (metis option.inject rtranclp.rtrancl_into_rtrancl)
  qed (use assms(5) in auto)
  obtain q1 where "as_label_bindings a ! m = Some q1" "(goto_hop a)\<^sup>*\<^sup>* p q1"
    using pre [OF rtrancl_into_rtrancl(1)] by blast
  moreover obtain q where "as_label_bindings a ! l' = Some q" "goto_hop a q1 q" "q < length (as_items a)"
    using hop [OF rtrancl_into_rtrancl(2)] calculation by auto
  ultimately show ?thesis by (metis rtranclp.rtrancl_into_rtrancl)
qed (use assms(4) in simp)

lemma threaded_destination:
  assumes inv: "assembler_inv a" and ok: "validate_bound_labels a = Inr ()"
    and it: "Item_Branch kind l \<in> set (as_items a)" and th: "threaded_label a kind l l'"
  shows "\<exists>q. target_position a l' = Inr q \<and> q < length (as_items a) \<and> branch_destination a kind l q"
proof -
  obtain p where p: "target_position a l = Inr p" "p < length (as_items a)"
    using validated_targets(2) [OF inv ok it] by (auto simp: item_label_def)
  show ?thesis
  proof (cases "l' = l")
    case True
    then show ?thesis using p by (auto simp: branch_destination_def)
  next
    case False
    then have k: "kind \<in> {BK_IfFalse, BK_IfTrue, BK_Goto}" and s: "settles a (unat l) (unat l')"
      using th by (auto simp: threaded_label_def split: if_splits)
    have ne: "unat l' \<noteq> unat l" using False by (simp add: word_unat_eq_iff)
    have bl: "as_label_bindings a ! unat l = Some p" "unat l < length (as_label_bindings a)"
      using p by (auto simp: target_position_eq_Inr)
    obtain q where q: "as_label_bindings a ! unat l' = Some q" "q < length (as_items a)" "(goto_hop a)\<^sup>*\<^sup>* p q"
      using steps_hops [OF inv ok _ ne bl(1)] s by (auto simp: settles_def)
    have l': "unat l' < length (as_label_bindings a)"
      by (rule settles_closed [OF assembler_inv_closed_gotos [OF inv] bl(2) s])
    have "\<not> goto_hop a q r" for r
    proof
      assume "goto_hop a q r"
      then have "label_goto_target a (unat l') \<noteq> None"
        using q l' by (auto simp: goto_hop_def label_goto_target_def get_def)
      then show False using s by (simp add: settles_def)
    qed
    then show ?thesis using q l' p k by (auto simp: branch_destination_def target_position_eq_Inr)
  qed
qed

section \<open>What the assembler emits\<close>

definition emitted :: "bytecode_assembler \<Rightarrow> decoded_instruction list \<Rightarrow> nat \<Rightarrow> bool" where
  "emitted a ds i =
     (let d = ds ! i
      in case as_items a ! i of
           Item_Instruction ins \<Rightarrow> d_instruction d = ins
         | Item_Branch kind l \<Rightarrow> i_opcode (d_instruction d) \<in> branch_opcodes kind \<and>
             (\<exists>q < length ds. branch_destination a kind l q \<and> encoded_target d = Some (uint (d_pc (ds ! q))))
         | Item_WithBranch op atom v l \<Rightarrow> i_opcode (d_instruction d) = op \<and>
             (\<exists>x. i_operands (d_instruction d) = Opd_AtomLabelU8 atom x v) \<and>
             (\<exists>q < length ds. target_position a l = Inr q \<and> encoded_target d = Some (uint (d_pc (ds ! q)))))"

text \<open>The decoded form of a sequence of instructions placed by their widths.\<close>

definition placed :: "nat list \<Rightarrow> instruction list \<Rightarrow> nat \<Rightarrow> decoded_instruction" where
  "placed ws ins i = \<lparr>d_pc = word_of_nat (offset ws i), d_instruction = ins ! i,
     d_next_pc = word_of_nat (offset ws (Suc i))\<rparr>"

lemma laid_out_placed:
  assumes "\<And>i. i < n \<Longrightarrow> valid_instruction (ins ! i) \<and> unat (encoded_size (ins ! i)) = ws ! i"
    and "offset ws n < 2 ^ 32" "k \<le> n"
  shows "laid_out (offset ws k) (map (placed ws ins) [k..<n])"
  using assms(3)
proof (induction rule: inc_induct)
  case (step k)
  have small: "offset ws i < 2 ^ 32" if "i \<le> n" for i
    using offset_mono [OF that, of ws] assms(2) by simp
  have "unat (word_of_nat (offset ws k) :: u32) = offset ws k"
    "unat (word_of_nat (offset ws (Suc k)) :: u32) = offset ws (Suc k)"
    using small [of k] small [of "Suc k"] step.hyps by (simp_all only: unat_word_of_nat_u32)
  then show ?case
    using step assms(1) [of k] by (simp add: upt_conv_Cons placed_def length_instruction_bytes)
qed simp

lemma stream_placed: "length ins = n \<Longrightarrow> stream_bytes (map (placed ws ins) [0..<n]) = concat (map instruction_bytes ins)"
proof -
  assume n: "length ins = n"
  have "map (instruction_bytes \<circ> d_instruction) (map (placed ws ins) [0..<n]) = map instruction_bytes (map ((!) ins) [0..<n])"
    by (simp add: placed_def)
  also have "map ((!) ins) [0..<n] = ins" using n map_nth by metis
  finally show ?thesis by (rule arg_cong [where f = concat])
qed

lemma placed_target:
  assumes "\<forall>p n. uint p = int (offset ws i) \<longrightarrow>
      encoded_target \<lparr>d_pc = p, d_instruction = ins ! i, d_next_pc = n\<rparr> = Some (int (offset ws q))"
    "offset ws i < 2 ^ 32" "offset ws q < 2 ^ 32"
  shows "encoded_target (placed ws ins i) = Some (uint (d_pc (placed ws ins q)))"
proof -
  have "uint (word_of_nat (offset ws j) :: u32) = int (offset ws j)" if "offset ws j < 2 ^ 32" for j
    by (simp only: uint_nat unat_word_of_nat_u32 [OF that])
  then show ?thesis using assms by (simp add: placed_def)
qed

lemma emitted_placed:
  assumes inv: "assembler_inv a" and val: "validate_bound_labels a = Inr ()" and i: "i < length (as_items a)"
    and th: "threaded_item a (as_items a ! i) (as_items a' ! i)" "as_label_bindings a' = as_label_bindings a"
    and em: "item_emitted a' ws i (as_items a' ! i) (ins ! i)"
    and small: "\<And>j. j < length (as_items a) \<Longrightarrow> offset ws j < 2 ^ 32"
  shows "emitted a (map (placed ws ins) [0..<length (as_items a)]) i"
proof -
  let ?n = "length (as_items a)" and ?ds = "map (placed ws ins) [0..<length (as_items a)]"
  have tp: "target_position a' l = target_position a l" for l using th(2) by (simp add: target_position_def)
  have mem: "as_items a ! i \<in> set (as_items a)" using i by simp
  have pl: "?ds ! j = placed ws ins j" if "j < ?n" for j using that by simp
  have ins: "d_instruction (?ds ! i) = ins ! i" using i by (simp add: placed_def)
  have tgt: "encoded_target (?ds ! i) = Some (uint (d_pc (?ds ! q)))"
    if q: "q < ?n" "\<forall>p n. uint p = int (offset ws i) \<longrightarrow>
       encoded_target \<lparr>d_pc = p, d_instruction = ins ! i, d_next_pc = n\<rparr> = Some (int (offset ws q))" for q
    using placed_target [OF q(2)] small i q(1) pl by simp
  show ?thesis
  proof (cases "as_items a ! i")
    case (Item_Instruction ins')
    then show ?thesis using em th(1) ins by (simp add: emitted_def item_emitted_def threaded_item_def)
  next
    case (Item_Branch kind l)
    then obtain l' where l': "as_items a' ! i = Item_Branch kind l'" "threaded_label a kind l l'"
      using th(1) by (auto simp: threaded_item_def)
    obtain q where q: "target_position a l' = Inr q" "q < ?n" "branch_destination a kind l q"
      using threaded_destination [OF inv val _ l'(2)] mem Item_Branch by auto
    have "encoded_target (?ds ! i) = Some (uint (d_pc (?ds ! q)))"
      using em q(1) tp by (intro tgt [OF q(2)]) (auto simp: item_emitted_def l'(1))
    then show ?thesis
      using em q ins unfolding emitted_def Let_def Item_Branch by (auto simp: item_emitted_def l'(1))
  next
    case (Item_WithBranch op atom v l)
    then have a'i: "as_items a' ! i = Item_WithBranch op atom v l" using th(1) by (simp add: threaded_item_def)
    obtain q where q: "target_position a l = Inr q" "q < ?n"
      using validated_targets(2) [OF inv val mem] Item_WithBranch by (auto simp: item_label_def)
    have "encoded_target (?ds ! i) = Some (uint (d_pc (?ds ! q)))"
      using em q(1) tp by (intro tgt [OF q(2)]) (auto simp: item_emitted_def a'i)
    then show ?thesis
      using em q ins unfolding emitted_def Let_def Item_WithBranch by (auto simp: item_emitted_def a'i)
  qed
qed

lemma finish_steps:
  assumes "assembler_finish alloc a = Inr out"
  obtains a' ws ps b where "validate_bound_labels a = Inr ()" "thread_redundant_goto_targets alloc a = Inr a'"
    "relaxed_layout alloc a' = Inr (ws, ps)" "ps \<noteq> []" "last ps \<le> 2 ^ 32 - 1"
    "try_fold (emit_item alloc a' ws ps (last ps)) (List.enumerate 0 (as_items a'))
       (with_origin_and_byte_limit 0 (max_bytecode_bytes (as_limits a')), []) = Inr (b, ab_instruction_pcs out)"
    "ab_bytecode out = bb_bytes b"
proof -
  obtain a' lay where f: "validate_bound_labels a = Inr ()" "thread_redundant_goto_targets alloc a = Inr a'"
    "relaxed_layout alloc a' = Inr lay"
    and r: "(case lay of (widths, positions) \<Rightarrow>
          if positions = [] then Inl (AE_EncodedLengthOutOfRange 0)
          else let encoded_bytes = last positions
               in and_then (err_if (2 ^ 32 - 1 < encoded_bytes) (AE_EncodedLengthOutOfRange encoded_bytes))
                   (\<lambda>_. and_then (err_if (\<not> alloc 0 (length (as_items a')))
                                   (AE_AllocationFailed ''instruction PC'' (usize_to_u64 (length (as_items a')))))
                   (\<lambda>_. and_then (try_fold (emit_item alloc a' widths positions encoded_bytes)
                                   (List.enumerate 0 (as_items a'))
                                   (with_origin_and_byte_limit 0 (max_bytecode_bytes (as_limits a')), []))
                   (\<lambda>(builder, instruction_pcs).
                      Inr \<lparr>ab_bytecode = bb_bytes builder, ab_instruction_pcs = instruction_pcs\<rparr>)))) = Inr out"
    using assms unfolding assembler_finish_def and_then_eq_Inr by auto
  obtain ws ps where lay: "lay = (ws, ps)" by (cases lay)
  from r lay have "ps \<noteq> []" "last ps \<le> 2 ^ 32 - 1" "\<exists>b. try_fold (emit_item alloc a' ws ps (last ps))
      (List.enumerate 0 (as_items a')) (with_origin_and_byte_limit 0 (max_bytecode_bytes (as_limits a')), []) =
      Inr (b, ab_instruction_pcs out) \<and> ab_bytecode out = bb_bytes b"
    by (auto simp: Let_def not_less split: if_splits)
  with f lay that show thesis by blast
qed

lemma finish_emits:
  assumes inv: "assembler_inv a" and fin: "assembler_finish alloc a = Inr out"
  shows "\<exists>ds. decoder_collect (instruction_decoder_new (ab_bytecode out)) = Inr ds \<and>
    ab_instruction_pcs out = map d_pc ds \<and> length ds = length (as_items a) \<and>
    length (ab_bytecode out) \<le> unat (max_bytecode_bytes (as_limits a)) \<and>
    (\<forall>i < length ds. emitted a ds i)"
proof -
  obtain a' ws ps b where val: "validate_bound_labels a = Inr ()"
    and th: "thread_redundant_goto_targets alloc a = Inr a'" and lay: "relaxed_layout alloc a' = Inr (ws, ps)"
    and last: "last ps \<le> 2 ^ 32 - 1"
    and em: "try_fold (emit_item alloc a' ws ps (last ps)) (List.enumerate 0 (as_items a'))
       (with_origin_and_byte_limit 0 (max_bytecode_bytes (as_limits a')), []) = Inr (b, ab_instruction_pcs out)"
    and bytes: "ab_bytecode out = bb_bytes b"
    by (rule finish_steps [OF fin])
  note t = thread_redundant_goto_targets_Inr [OF inv th]
  note l = relaxed_layout_spec [OF t(5) lay]
  let ?n = "length (as_items a)" and ?b0 = "with_origin_and_byte_limit 0 (max_bytecode_bytes (as_limits a'))"
  have len: "length ws = ?n" using l(1) t(3) by (simp add: valid_layout_def)
  have b0: "builder_inv 0 ?b0" "bb_bytes ?b0 = []" "bb_byte_limit ?b0 = max_bytecode_bytes (as_limits a)"
    using t(2) by (simp_all add: builder_inv_def with_origin_and_byte_limit_def)
  obtain ins where ins: "length ins = ?n" "\<forall>i < ?n. item_emitted a' ws i (as_items a' ! i) (ins ! i)"
    "bb_bytes b = concat (map instruction_bytes ins)" "builder_inv 0 b"
    "bb_byte_limit b = max_bytecode_bytes (as_limits a)" "length (ab_instruction_pcs out) = ?n"
    "\<forall>i < ?n. unat (ab_instruction_pcs out ! i) = offset ws i"
    using emit_fold_Inr [OF t(5) l(1) b0(1,2), of ?n alloc "last ps" b "ab_instruction_pcs out"] em l(2) b0(3) t(3)
    by auto
  let ?ds = "map (placed ws ins) [0..<?n]"
  have small: "offset ws i < 2 ^ 32" if "i \<le> ?n" for i
    using offset_mono [of i ?n ws] that last l(2) len by simp
  have "laid_out 0 ?ds"
    using laid_out_placed [of ?n ins ws 0] ins(2) small by (simp add: item_emitted_def)
  moreover have "ab_bytecode out = stream_bytes ?ds" using stream_placed [OF ins(1)] ins(3) bytes by (simp only:)
  ultimately have "decoder_collect (instruction_decoder_new (ab_bytecode out)) = Inr ?ds"
    by (simp only: decoder_collect_new_iff)
  moreover have "ab_instruction_pcs out = map d_pc ?ds"
    using ins(6,7) by (intro nth_equalityI) (simp_all add: placed_def, metis word_of_nat_unat_u32)
  moreover have "emitted a ?ds i" if "i < ?n" for i
    using that ins(2) t(4) small by (intro emitted_placed [OF inv val that _ t(1)]) auto
  moreover have "length (ab_bytecode out) \<le> unat (max_bytecode_bytes (as_limits a))"
    using ins(4,5) bytes by (simp add: builder_inv_def)
  ultimately show ?thesis by (intro exI [of _ ?ds]) simp
qed

section \<open>When assembly succeeds\<close>

lemma relaxed_layout_total:
  assumes "assembler_inv a" "all_bound a" "widest_encoding a < 2 ^ 31 - 5"
    "length (as_items a) * (2 * branch_count a + 1) \<le> unat (max_relaxation_evaluations (as_limits a))"
  shows "\<exists>ws ps. relaxed_layout (\<lambda>_ _. True) a = Inr (ws, ps)"
proof (cases "list_ex is_branch (as_items a)")
  case True
  let ?m = "map minimum_size (as_items a)"
  have "length (as_items a) * (pending a ?m + 1) \<le> length (as_items a) * (2 * branch_count a + 1)"
    using pending_le by (intro mult_le_mono2 add_le_mono1)
  then have "0 + length (as_items a) * (pending a ?m + 1) \<le> unat (max_relaxation_evaluations (as_limits a))"
    using assms(4) by linarith
  then have "\<exists>us ps. relaxation_loop a ?m 0 = Inr (us, ps)"
    by (rule relaxation_loop_total [OF assms(1-3) candidate_widths_minimum])
  then show ?thesis using True by (simp add: relaxed_layout_def Let_def)
next
  case False
  have "offset (map minimum_size (as_items a)) (length (as_items a)) < 2 ^ 64"
    using offset_le_widest [OF candidate_widths_minimum, of "length (as_items a)" a] assms(3) by simp
  then show ?thesis using False by (simp add: relaxed_layout_def Let_def populate_instruction_positions_eq)
qed

lemma branch_instruction_total:
  assumes "supports_width kind w" "displacement_fits w disp"
  shows "\<exists>ins. branch_instruction kind w disp i l = Inr ins"
  using assms
  by (cases kind)
     (auto simp: supports_width_def displacement_fits_def branch_instruction_def Let_def instruction_new_valid
        valid_instruction_def opcode_metadata_new_def)

lemma valid_layout_candidate: "valid_layout a ws \<Longrightarrow> candidate_widths a ws"
  by (auto simp: valid_layout_def candidate_widths_def item_fits_def item_width_def split: assembly_item.splits)

lemma item_instruction_total:
  assumes inv: "assembler_inv a" and bound: "all_bound a" and v: "valid_layout a ws"
    and small: "\<And>i. i \<le> length ws \<Longrightarrow> offset ws i < 2 ^ 31 - 5" and i: "i < length (as_items a)"
  shows "\<exists>ins. item_instruction a ws (offsets ws) i n (as_items a ! i) = Inr ins"
proof -
  have len: "length ws = length (as_items a)" using v by (simp add: valid_layout_def)
  have item: "item_ok (length (as_label_bindings a)) (as_items a ! i)" "item_fits a ws i (as_items a ! i)"
    using inv v i len by (auto simp: assembler_inv_def list_all_length valid_layout_def)
  have disp: "signed_displacement (offset ws i) (offset ws t) = Inr (reach ws i t 0)" if "t \<le> length ws" for t
    using small_displacement [of "offset ws i" "offset ws t"] small [of i] small [OF that] i len
    by (simp add: reach_def)
  show ?thesis
  proof (cases "as_items a ! i")
    case (Item_Branch kind l)
    then obtain t where t: "target_position a l = Inr t" "supports_width kind (ws ! i)"
      "displacement_fits (ws ! i) (reach ws i t 0)"
      using item by (auto simp: item_fits_def)
    then show ?thesis
      using disp [of t] target_position_le [OF inv t(1)] i len branch_instruction_total [OF t(2,3)]
      by (simp add: Item_Branch item_instruction_def idx_def get_def)
  next
    case (Item_WithBranch op atom v l)
    then obtain t where t: "target_position a l = Inr t"
      using item bound_target [OF bound, of l] by auto
    have tl: "t \<le> length ws" using target_position_le [OF inv t] len by simp
    have "\<exists>d. with_branch_displacement (offset ws i) (offset ws t) n l = Inr d"
      using small [of i] small [OF tl] i len
      by (simp add: with_branch_displacement_def u64_checked_add_def Let_def i32_try_from_def)
    then show ?thesis
      using t tl i len with_instruction item
      by (auto simp: Item_WithBranch item_instruction_def idx_def get_def instruction_new_valid)
  qed (simp add: item_instruction_def)
qed

lemma emit_fold_total:
  assumes inv: "assembler_inv a" and bound: "all_bound a" and v: "valid_layout a ws"
    and small: "\<And>i. i \<le> length ws \<Longrightarrow> offset ws i < 2 ^ 31 - 5"
    and limit: "offset ws (length ws) \<le> unat (bb_byte_limit b0)"
    and b0: "builder_inv 0 b0" "bb_bytes b0 = []"
  shows "k \<le> length (as_items a) \<Longrightarrow>
    \<exists>b pcs. try_fold (emit_item (\<lambda>_ _. True) a ws (offsets ws) e) (List.enumerate 0 (take k (as_items a))) (b0, []) = Inr (b, pcs)"
proof (induction k)
  case (Suc k)
  let ?it = "as_items a ! k"
  have k: "k < length (as_items a)" and len: "length ws = length (as_items a)"
    using Suc.prems v by (simp_all add: valid_layout_def)
  from Suc obtain b pcs where r: "try_fold (emit_item (\<lambda>_ _. True) a ws (offsets ws) e)
      (List.enumerate 0 (take k (as_items a))) (b0, []) = Inr (b, pcs)" by auto
  obtain ins where ins: "length ins = k" "\<forall>i < k. item_emitted a ws i (as_items a ! i) (ins ! i)"
    "bb_bytes b = concat (map instruction_bytes ins)" "builder_inv 0 b" "bb_byte_limit b = bb_byte_limit b0"
    using emit_fold_Inr [OF inv v b0 _ r] k by auto
  have bl: "length (bb_bytes b) = offset ws k"
    using length_concat_offset [of ins ws k] ins by (simp add: item_emitted_def)
  then have npc: "unat (bb_next_pc b) = offset ws k" "unat (bb_encoded_len b) = offset ws k"
    using ins(4) by (simp_all add: builder_inv_def)
  obtain instr where it: "item_instruction a ws (offsets ws) k (word_of_nat k) ?it = Inr instr"
    using item_instruction_total [OF inv bound v small k] by blast
  have em: "valid_instruction instr" "length (instruction_bytes instr) = ws ! k"
    using item_instruction_emitted [OF inv v k it] by (simp_all add: item_emitted_def length_instruction_bytes)
  have next_off: "offset ws (Suc k) < 2 ^ 31 - 5" "offset ws (Suc k) \<le> unat (bb_byte_limit b)"
    using small [of "Suc k"] offset_mono [of "Suc k" "length ws" ws] limit ins(5) k len by simp_all
  then obtain b' p where push: "push_instruction (\<lambda>_ _. True) b instr = Inr (b', p)" "p = bb_next_pc b"
    using npc em(2) by (simp add: push_instruction_valid [OF em(1)])
  have "u32_try_from (offset ws k) = Some p"
    using push(2) npc(1) small [of k] k len by (simp add: u32_try_from_Some flip: npc(1))
  then have "emit_item (\<lambda>_ _. True) a ws (offsets ws) e (b, pcs) (k, ?it) = Inr (b', pcs @ [p])"
    using it push(1) item_index_u32 [OF inv k] k len
    by (simp add: emit_item_def idx_def get_def u32_try_from_def [of k])
  then show ?case
    using r k by (simp add: take_Suc_conv_app_nth enumerate_append_eq try_fold_append)
qed simp


lemma widest_encoding_threaded:
  assumes "assembler_inv a" "thread_redundant_goto_targets alloc a = Inr a'"
  shows "widest_encoding a' = widest_encoding a" "branch_count a' = branch_count a"
proof -
  note t = thread_redundant_goto_targets_Inr [OF assms]
  have same: "widest_size (as_items a' ! i) = widest_size (as_items a ! i) \<and>
      is_branch (as_items a' ! i) = is_branch (as_items a ! i)" if "i < length (as_items a)" for i
    using t(4) [OF that] by (auto simp: threaded_item_def is_branch_def split: assembly_item.splits)
  have "map widest_size (as_items a') = map widest_size (as_items a)"
    using t(3) same by (intro nth_equalityI) auto
  then show "widest_encoding a' = widest_encoding a" by (simp add: widest_encoding_def)
  have "{i. i < length (as_items a') \<and> is_branch (as_items a' ! i)} = {i. i < length (as_items a) \<and> is_branch (as_items a ! i)}"
    using t(3) same by auto
  then show "branch_count a' = branch_count a" by (simp add: branch_count_def length_filter_conv_card)
qed

lemma finish_total:
  assumes inv: "assembler_inv a" and val: "validate_bound_labels a = Inr ()"
    and size: "widest_encoding a \<le> unat (max_bytecode_bytes (as_limits a))" "widest_encoding a < 2 ^ 31 - 5"
    and budget: "length (as_items a) * (2 * branch_count a + 1) \<le> unat (max_relaxation_evaluations (as_limits a))"
  shows "\<exists>out. assembler_finish (\<lambda>_ _. True) a = Inr out"
proof -
  obtain a' where th: "thread_redundant_goto_targets (\<lambda>_ _. True) a = Inr a'"
    using thread_redundant_goto_targets_total [OF inv, of "\<lambda>_ _. True"] by auto
  note t = thread_redundant_goto_targets_Inr [OF inv th] and w = widest_encoding_threaded [OF inv th]
  have bound: "all_bound a'" using validated_targets(1) [OF inv val] t(1) by (simp add: all_bound_def)
  obtain ws ps where lay: "relaxed_layout (\<lambda>_ _. True) a' = Inr (ws, ps)"
    using relaxed_layout_total [OF t(5) bound] size(2) budget w t(2,3) by auto
  note l = relaxed_layout_spec [OF t(5) lay]
  have len: "length ws = length (as_items a')" using l(1) by (simp add: valid_layout_def)
  have off: "offset ws i \<le> widest_encoding a" if "i \<le> length ws" for i
    using offset_le_widest [OF valid_layout_candidate [OF l(1)] that] w by simp
  then have small: "offset ws i < 2 ^ 31 - 5" if "i \<le> length ws" for i using size(2) that le_less_trans by blast
  let ?b0 = "with_origin_and_byte_limit 0 (max_bytecode_bytes (as_limits a'))"
  have b0: "builder_inv 0 ?b0" "bb_bytes ?b0 = []" "bb_byte_limit ?b0 = max_bytecode_bytes (as_limits a)"
    using t(2) by (simp_all add: builder_inv_def with_origin_and_byte_limit_def)
  have "offset ws (length ws) \<le> unat (bb_byte_limit ?b0)" using off [of "length ws"] size(1) b0(3) by simp
  from emit_fold_total [OF t(5) bound l(1) small this b0(1,2), where k = "length (as_items a')" and e = "last ps"]
  obtain b pcs where em: "try_fold (emit_item (\<lambda>_ _. True) a' ws (offsets ws) (last ps)) (List.enumerate 0 (as_items a')) (?b0, [])
      = Inr (b, pcs)" by auto
  have "last ps < 2 ^ 32" using small [of "length ws"] l(2) by simp
  then show ?thesis
    using val th lay em l(2) by (simp add: assembler_finish_def Let_def)
qed

section \<open>How assembly fails\<close>

text \<open>
  The failures that are reported to the caller: exhausted limits or memory, labels that are
  missing or point past the end, and distances or sizes beyond the encoding. All other
  constructors stand for internal inconsistencies.
\<close>

definition reportable :: "assembler_error \<Rightarrow> bool" where
  "reportable e =
     (case e of
        AE_LimitExceeded r _ _ _ \<Rightarrow> r = AR_RelaxationEvaluations
      | AE_AllocationFailed _ _ \<Rightarrow> True
      | AE_UnboundLabel _ \<Rightarrow> True
      | AE_TargetAtEnd _ \<Rightarrow> True
      | AE_EncodedLengthOutOfRange _ \<Rightarrow> True
      | AE_BranchDisplacementOutOfRange _ _ _ \<Rightarrow> True
      | AE_Encoding _ (EncByteLimitExceeded _ _ _ _) \<Rightarrow> True
      | AE_Encoding _ (EncAllocationFailed _ _) \<Rightarrow> True
      | _ \<Rightarrow> False)"

lemma validate_bound_labels_fails:
  assumes inv: "assembler_inv a" and err: "validate_bound_labels a = Inl e"
  shows "reportable e"
proof -
  let ?bs = "List.enumerate 0 (as_label_bindings a)"
  show ?thesis
  proof (cases "try_for_each check_binding ?bs")
    case (Inl e')
    then have "e' = e" using err by (simp add: validate_bound_labels_def)
    then obtain i b where ib: "(i, b) \<in> set ?bs" "check_binding (i, b) = Inl e" using try_for_each_eq_Inl [OF Inl] by auto
    have "i < 2 ^ 32" using ib(1) inv by (auto simp: in_set_enumerate_eq assembler_inv_def)
    then show ?thesis using ib(2) by (cases b) (auto simp: u32_try_from_def reportable_def)
  next
    case (Inr u)
    then have none: "None \<notin> set (as_label_bindings a)"
      using check_binding_iff by simp
    obtain it where it: "it \<in> set (as_items a)" "(case item_label it of None \<Rightarrow> Inr ()
        | Some l \<Rightarrow> and_then (target_position a l)
              (\<lambda>target. err_if (target = length (as_items a)) (AE_TargetAtEnd l))) = Inl e"
      using err Inr try_for_each_eq_Inl unfolding validate_bound_labels_def by fastforce
    then obtain l where l: "item_label it = Some l" by (auto split: option.splits)
    have "unat l < length (as_label_bindings a)"
      using inv it(1) l by (cases it) (auto simp: item_label_def assembler_inv_def list_all_iff)
    then obtain t where "target_position a l = Inr t" using bound_target none by (auto simp: all_bound_def)
    then show ?thesis using it(2) l by (auto simp: err_if_eq_Inl reportable_def)
  qed
qed

lemma thread_fails:
  assumes inv: "assembler_inv a" and err: "thread_redundant_goto_targets alloc a = Inl e"
  shows "reportable e"
proof (cases "alloc 0 (length (as_label_bindings a))")
  case True
  then show ?thesis using thread_redundant_goto_targets_total [of a alloc] inv err by simp
next
  case False
  then show ?thesis using err by (auto simp: thread_redundant_goto_targets_def Let_def reportable_def)
qed

lemma grown_target_fails:
  "t \<le> length ws \<Longrightarrow> grown_target s t (offsets ws) k = Inl e \<Longrightarrow> reportable e"
  by (auto simp: grown_target_def idx_def get_def ok_or_def reportable_def split: if_splits option.splits)

lemma signed_displacement_fails: "signed_displacement p q = Inl e \<Longrightarrow> reportable e"
  by (auto simp: signed_displacement_def and_then_eq_Inl err_if_eq_Inl Let_def ok_or_def reportable_def
      split: option.splits)

lemma fitting_candidate_fails:
  assumes "s \<le> length ws" "t \<le> length ws"
  shows "fitting_candidate kind w s t (offsets ws) cs = Inl e \<Longrightarrow> reportable e"
  using assms
  by (induction cs)
     (auto simp: and_then_eq_Inl idx_def get_def dest: grown_target_fails signed_displacement_fails split: if_splits)

lemma required_branch_size_fails:
  assumes "s \<le> length ws" "t \<le> length ws" and err: "required_branch_size kind w s t (offsets ws) i l = Inl e"
  shows "reportable e"
proof (cases "fitting_candidate kind w s t (offsets ws) [2, 3, 5]")
  case (Inl e')
  then show ?thesis
    using err fitting_candidate_fails [OF assms(1,2) Inl] by (simp add: required_branch_size_def del: fitting_candidate.simps)
next
  case (Inr r)
  then have "r = None" using err by (cases r) (simp_all add: required_branch_size_def del: fitting_candidate.simps)
  then show ?thesis
    using err Inr assms(1,2)
    by (auto simp: required_branch_size_def Let_def and_then_eq_Inl idx_def get_def reportable_def
        simp del: fitting_candidate.simps dest: grown_target_fails signed_displacement_fails)
qed


lemma relax_pass_fails:
  assumes inv: "assembler_inv a" and bound: "all_bound a" and len: "length ws = length (as_items a)"
    and err: "relax_pass a (offsets ws) ws = Inl e"
  shows "reportable e"
proof -
  obtain ys i it zs us ch where split: "List.enumerate 0 (as_items a) = ys @ (i, it) # zs"
    and pre: "try_fold (relax_item a (offsets ws)) ys (ws, False) = Inr (us, ch)"
    and fail: "relax_item a (offsets ws) (us, ch) (i, it) = Inl e"
    using try_fold_eq_Inl [OF err [unfolded relax_pass_def]] by (metis prod.exhaust)
  note en = enumerate_split [OF split]
  have us: "length us = length ws" using relax_fold_visited [OF pre [unfolded en(3)]] len by simp
  show ?thesis
  proof (cases it)
    case (Item_Branch kind l)
    then have "unat l < length (as_label_bindings a)"
      using inv en(1,2) by (auto simp: assembler_inv_def list_all_length dest: spec [of _ i])
    then obtain t where t: "target_position a l = Inr t" using bound_target [OF bound] by blast
    then have "required_branch_size kind (us ! i) i t (offsets ws) (word_of_nat i) l = Inl e"
      using fail us len en(1) item_index_u32 [OF inv en(1)]
      by (auto simp: Item_Branch relax_item_def idx_def get_def u32_try_from_def and_then_eq_Inl)
    then show ?thesis
      using en(1) len target_position_le [OF inv t] by (intro required_branch_size_fails) auto
  qed (use fail in \<open>simp_all add: relax_item_def\<close>)
qed

lemma charge_relaxation_pass_fails:
  assumes "assembler_inv a" "charge_relaxation_pass a n = Inl e"
  shows "reportable e"
proof -
  have "length (as_items a) \<le> unat (max_instructions (as_limits a))" using assms(1) by (simp add: assembler_inv_def)
  also have "\<dots> < 2 ^ 32" by simp
  finally have k: "length (as_items a) < 2 ^ 32" .
  then have "m < usize_to_u64 (length (as_items a)) \<Longrightarrow> u32_try_from m = Some (word_of_nat m)" for m
    by (simp add: usize_to_u64_def u32_try_from_def)
  then show ?thesis
    using assms(2) by (auto simp: charge_relaxation_pass_def Let_def reportable_def split: if_splits)
qed

lemma relaxation_loop_fails:
  assumes "assembler_inv a" "all_bound a"
  shows "candidate_widths a ws \<Longrightarrow> relaxation_loop a ws n = Inl e \<Longrightarrow> reportable e"
  using assms
proof (induction a ws n rule: relaxation_loop.induct)
  case (1 a ws n)
  note len = \<open>candidate_widths a ws\<close> [unfolded candidate_widths_def, THEN conjunct1]
  show ?case
  proof (cases "charge_relaxation_pass a n")
    case (Inl e')
    then show ?thesis
      using "1.prems"(2) charge_relaxation_pass_fails [OF "1.prems"(3)] by (simp add: relaxation_loop.simps [of a ws n])
  next
    case charged: (Inr m)
    show ?thesis
    proof (cases "offset ws (length ws) < 2 ^ 64")
      case False
      then show ?thesis
        using "1.prems"(2) charged
        by (auto simp: relaxation_loop.simps [of a ws n] populate_instruction_positions_eq reportable_def)
    next
      case True
      then have pop: "populate_instruction_positions ws = Inr (offsets ws)"
        by (simp add: populate_instruction_positions_eq)
      show ?thesis
      proof (cases "relax_pass a (offsets ws) ws")
        case (Inl e')
        then show ?thesis
          using "1.prems"(2) charged pop relax_pass_fails [OF "1.prems"(3,4) len]
          by (simp add: relaxation_loop.simps [of a ws n])
      next
        case (Inr r)
        obtain ws' c where r: "r = (ws', c)" by (cases r)
        then have c: c "relaxation_loop a ws' m = Inl e"
          using "1.prems"(2) charged pop Inr by (auto simp: relaxation_loop.simps [of a ws n] split: if_splits)
        show ?thesis
          using Inr r c candidate_widths_pass [OF "1.prems"(3,1)] "1.prems"(3,4)
          by (intro "1.IH" [OF Inr [unfolded r] refl]) simp_all
      qed
    qed
  qed
qed

lemma relaxed_layout_fails:
  assumes "assembler_inv a" "all_bound a" "relaxed_layout alloc a = Inl e"
  shows "reportable e"
  using assms relaxation_loop_fails [OF assms(1,2) candidate_widths_minimum, of 0 e]
  by (auto simp: relaxed_layout_def Let_def and_then_eq_Inl err_if_eq_Inl populate_instruction_positions_eq
      reportable_def split: if_splits)


lemma push_instruction_fails:
  assumes v: "valid_instruction i" and err: "push_instruction alloc b i = Inl e"
    and room: "unat (bb_next_pc b) + length (instruction_bytes i) < 2 ^ 32"
      "unat (bb_encoded_len b) + length (instruction_bytes i) < 2 ^ 32"
  shows "reportable (AE_Encoding n e)"
proof -
  obtain eo where eo: "operands_encode (i_operands i) = Inr eo" "eo_as_bytes eo = payload (i_operands i)"
    "unat (eo_len eo) = length (payload (i_operands i))"
    using operands_encode_payload by blast
  let ?sz = "instruction_size (opcode_row (i_opcode i))"
  have sz: "unat ?sz = length (instruction_bytes i)"
    using length_instruction_bytes [OF v] by (simp add: encoded_size_def)
  then have "unat (eo_len eo) + unat (1 :: u8) = unat ?sz" using eo(3) by (simp add: instruction_bytes_def)
  then have add: "checked_add (eo_len eo) 1 = Some (eo_len eo + 1)" "eo_len eo + 1 = ?sz"
    using unat_u8_bound [of ?sz]
    by (simp_all add: checked_add_Some word_unat_eq_iff unat_word_ariths del: unat_u8_bound)
  have "checked_add (bb_next_pc b) (ucast ?sz) = Some (bb_next_pc b + ucast ?sz)"
    "checked_add (bb_encoded_len b) (ucast ?sz) = Some (bb_encoded_len b + ucast ?sz)"
    using room sz by (simp_all add: checked_add_Some)
  then show ?thesis
    using err eo(1) add by (auto simp: push_instruction_def Let_def reportable_def split: if_splits)
qed

lemma item_instruction_fails:
  assumes inv: "assembler_inv a" and bound: "all_bound a" and v: "valid_layout a ws" and i: "i < length (as_items a)"
    and err: "item_instruction a ws (offsets ws) i n (as_items a ! i) = Inl e"
  shows "reportable e"
proof -
  have len: "length ws = length (as_items a)" using v by (simp add: valid_layout_def)
  have item: "item_ok (length (as_label_bindings a)) (as_items a ! i)" "item_fits a ws i (as_items a ! i)"
    using inv v i len by (auto simp: assembler_inv_def list_all_length valid_layout_def)
  show ?thesis
  proof (cases "as_items a ! i")
    case (Item_Branch kind l)
    then obtain t where t: "target_position a l = Inr t" "supports_width kind (ws ! i)"
      "displacement_fits (ws ! i) (reach ws i t 0)"
      using item by (auto simp: item_fits_def)
    have tl: "t \<le> length ws" using target_position_le [OF inv t(1)] len by simp
    show ?thesis
    proof (cases "signed_displacement (offset ws i) (offset ws t)")
      case (Inl e')
      then show ?thesis
        using err t tl i len signed_displacement_fails [OF Inl]
        by (simp add: Item_Branch item_instruction_def idx_def get_def)
    next
      case (Inr d)
      then have "d = reach ws i t 0" using signed_displacement_Inr [OF Inr] by (simp add: reach_def)
      then show ?thesis
        using err Inr t tl i len branch_instruction_total [OF t(2,3), of n l]
        by (simp add: Item_Branch item_instruction_def idx_def get_def)
    qed
  next
    case (Item_WithBranch op atom v l)
    then obtain t where t: "target_position a l = Inr t"
      using item bound_target [OF bound, of l] by auto
    have tl: "t \<le> length ws" using target_position_le [OF inv t] len by simp
    have op: "op \<in> with_opcodes" using item Item_WithBranch by simp
    have ins: "instruction_new op (Opd_AtomLabelU8 atom d v) = Inr \<lparr>i_opcode = op, i_operands = Opd_AtomLabelU8 atom d v\<rparr>" for d
      using with_instruction(1) [OF op] by (simp add: instruction_new_valid)
    have "with_branch_displacement (offset ws i) (offset ws t) n l = Inl e"
      using err t tl i len ins
      by (auto simp: Item_WithBranch item_instruction_def idx_def get_def and_then_eq_Inl)
    then show ?thesis
      by (auto simp: with_branch_displacement_def and_then_eq_Inl Let_def ok_or_def reportable_def split: option.splits)
  qed (use err in \<open>simp add: item_instruction_def\<close>)
qed


lemma emit_fold_fails:
  assumes inv: "assembler_inv a" and bound: "all_bound a" and v: "valid_layout a ws"
    and small: "offset ws (length ws) \<le> 2 ^ 32 - 1" and b0: "builder_inv 0 b0" "bb_bytes b0 = []"
    and err: "try_fold (emit_item alloc a ws (offsets ws) x) (List.enumerate 0 (as_items a)) (b0, []) = Inl e"
  shows "reportable e"
proof -
  obtain ys k it zs b pcs where split: "List.enumerate 0 (as_items a) = ys @ (k, it) # zs"
    and pre: "try_fold (emit_item alloc a ws (offsets ws) x) ys (b0, []) = Inr (b, pcs)"
    and fail: "emit_item alloc a ws (offsets ws) x (b, pcs) (k, it) = Inl e"
    using try_fold_eq_Inl [OF err] by (metis prod.exhaust)
  note en = enumerate_split [OF split]
  have len: "length ws = length (as_items a)" using v by (simp add: valid_layout_def)
  obtain ins where ins: "length ins = k" "\<forall>i < k. item_emitted a ws i (as_items a ! i) (ins ! i)"
    "bb_bytes b = concat (map instruction_bytes ins)" "builder_inv 0 b"
    using emit_fold_Inr [OF inv v b0 _ pre [unfolded en(3)]] en(1) by auto
  have "length (bb_bytes b) = offset ws k"
    using length_concat_offset [of ins ws k] ins by (simp add: item_emitted_def)
  then have npc: "unat (bb_next_pc b) = offset ws k" "unat (bb_encoded_len b) = offset ws k"
    using ins(4) by (simp_all add: builder_inv_def)
  have le: "offset ws k < 2 ^ 32" "offset ws (Suc k) < 2 ^ 32"
    using offset_mono [of k "length ws" ws] offset_mono [of "Suc k" "length ws" ws] small en(1) len by simp_all
  have exp: "u32_try_from (offset ws k) = Some (bb_next_pc b)"
    using le(1) npc(1) unfolding u32_try_from_Some by (metis word_of_nat_unat_u32)
  have k32: "u32_try_from k = Some (word_of_nat k)" using item_index_u32 [OF inv en(1)] by (simp add: u32_try_from_def)
  show ?thesis
  proof (cases "item_instruction a ws (offsets ws) k (word_of_nat k) it")
    case (Inl e')
    then show ?thesis
      using fail k32 exp en len item_instruction_fails [OF inv bound v en(1), of "word_of_nat k" e']
      by (simp add: emit_item_def idx_def get_def)
  next
    case (Inr instr)
    note em = item_instruction_emitted [OF inv v en(1) Inr [unfolded en(2)]]
    have val: "valid_instruction instr" "length (instruction_bytes instr) = ws ! k"
      using em by (simp_all add: item_emitted_def length_instruction_bytes)
    show ?thesis
    proof (cases "push_instruction alloc b instr")
      case (Inl e')
      then have "e = AE_Encoding (word_of_nat k) e'"
        using fail k32 exp en(1) len Inr by (simp add: emit_item_def idx_def get_def)
      then show ?thesis using push_instruction_fails [OF val(1) Inl] npc le(2) val(2) by simp
    next
      case pushed: (Inr r)
      obtain b' p where r: "r = (b', p)" by (cases r)
      then have "p = bb_next_pc b" using pushed push_instruction_valid [OF val(1)] by blast
      then show ?thesis using fail k32 exp en(1) len Inr pushed r by (simp add: emit_item_def idx_def get_def)
    qed
  qed
qed

lemma finish_fails:
  assumes inv: "assembler_inv a" and err: "assembler_finish alloc a = Inl e"
  shows "reportable e"
proof (cases "validate_bound_labels a")
  case (Inl e')
  then show ?thesis using err validate_bound_labels_fails [OF inv Inl] by (simp add: assembler_finish_def)
next
  case val: (Inr u)
  show ?thesis
  proof (cases "thread_redundant_goto_targets alloc a")
    case (Inl e')
    then show ?thesis using err val thread_fails [OF inv Inl] by (simp add: assembler_finish_def)
  next
    case th: (Inr a')
    note t = thread_redundant_goto_targets_Inr [OF inv th]
    have bound: "all_bound a'" using validated_targets(1) [OF inv] val t(1) by (simp add: all_bound_def)
    show ?thesis
    proof (cases "relaxed_layout alloc a'")
      case (Inl e')
      then show ?thesis
        using err val th relaxed_layout_fails [OF t(5) bound Inl] by (simp add: assembler_finish_def)
    next
      case (Inr r)
      obtain ws ps where r: "r = (ws, ps)" by (cases r)
      note l = relaxed_layout_spec [OF t(5) Inr [unfolded r]]
      let ?b0 = "with_origin_and_byte_limit 0 (max_bytecode_bytes (as_limits a'))"
      have b0: "builder_inv 0 ?b0" "bb_bytes ?b0 = []" by (simp_all add: builder_inv_def with_origin_and_byte_limit_def)
      have "2 ^ 32 - 1 < last ps \<and> e = AE_EncodedLengthOutOfRange (last ps) \<or>
          e = AE_AllocationFailed ''instruction PC'' (usize_to_u64 (length (as_items a'))) \<or>
          last ps \<le> 2 ^ 32 - 1 \<and> try_fold (emit_item alloc a' ws ps (last ps)) (List.enumerate 0 (as_items a')) (?b0, []) = Inl e"
        using err val th Inr r l(2) by (auto simp: assembler_finish_def Let_def and_then_eq_Inl err_if_eq_Inl)
      then show ?thesis
        using emit_fold_fails [OF t(5) bound l(1) _ b0, of alloc "last ps" e] l(2) by (auto simp: reportable_def)
    qed
  qed
qed

end
