(* ===== verification/Assembler_Guarantees.thy ===== *)
theory Assembler_Guarantees
  imports Assembler_Emission
begin

text \<open>
  What the assembler promises its callers, stated over the plans its public operations can
  build.
\<close>

section \<open>Guarantees of the assembler\<close>

text \<open>A small plan for the witnesses: a conditional branch to a goto that skips one instruction.\<close>

definition sample_run :: "bytecode_assembler assembled" where
  "sample_run =
     (let al = (\<lambda>_ _. True)
      in and_then (new_label al (assembler_new 0)) (\<lambda>(l0, a).
         and_then (new_label al a) (\<lambda>(l1, a).
         and_then (assembler_push al a Op_PushTrue Opd_None) (\<lambda>(_, a).
         and_then (assembler_branch al a BK_IfFalse l0) (\<lambda>(_, a).
         and_then (assembler_push al a Op_Nop Opd_None) (\<lambda>(_, a).
         and_then (bind a l0) (\<lambda>a.
         and_then (assembler_branch al a BK_Goto l1) (\<lambda>(_, a).
         and_then (assembler_push al a Op_Nop Opd_None) (\<lambda>(_, a).
         and_then (bind a l1) (\<lambda>a.
         and_then (assembler_push al a Op_ReturnUndef Opd_None) (\<lambda>(_, a). Inr a)))))))))))"

definition sample_plan :: bytecode_assembler where
  "sample_plan = projr sample_run"

definition sample_output :: assembled_bytecode where
  "sample_output = projr (assembler_finish (\<lambda>_ _. True) sample_plan)"

lemma sample_plan_run: "sample_run = Inr sample_plan"
proof -
  have "\<not> isl sample_run" by code_simp
  then show ?thesis by (simp add: sample_plan_def)
qed

lemma assembler_steps_step: "assembler_step\<^sup>*\<^sup>* a b \<Longrightarrow> assembler_step b c \<Longrightarrow> assembler_step\<^sup>*\<^sup>* a c"
  by (rule rtranclp.rtrancl_into_rtrancl)

lemmas assembler_steps =
  assembler_steps_step [OF _ step_label] assembler_steps_step [OF _ step_bind]
  assembler_steps_step [OF _ step_push] assembler_steps_step [OF _ step_branch]
  assembler_steps_step [OF _ step_with]

lemma sample_plan_steps: "assembler_step\<^sup>*\<^sup>* (assembler_new 0) sample_plan"
proof -
  have "assembler_step\<^sup>*\<^sup>* (assembler_new 0) (assembler_new 0) \<Longrightarrow> sample_run = Inr a \<Longrightarrow>
      assembler_step\<^sup>*\<^sup>* (assembler_new 0) a" for a
    unfolding sample_run_def Let_def
    by (clarsimp simp del: rtranclp.rtrancl_refl, (drule (1) assembler_steps)+, assumption)
  then show ?thesis using sample_plan_run by blast
qed

lemma sample_plan_assembling: "assembling sample_plan"
  using sample_plan_steps unfolding assembling_def assembler_new_def by blast

definition sample_threaded :: bytecode_assembler where
  "sample_threaded = projr (thread_redundant_goto_targets (\<lambda>_ _. True) sample_plan)"

lemma sample_plan_threaded: "thread_redundant_goto_targets (\<lambda>_ _. True) sample_plan = Inr sample_threaded"
proof -
  have "\<not> isl (thread_redundant_goto_targets (\<lambda>_ _. True) sample_plan)" by code_simp
  then show ?thesis by (simp add: sample_threaded_def)
qed

lemma sample_plan_finish: "assembler_finish (\<lambda>_ _. True) sample_plan = Inr sample_output"
proof -
  have "\<not> isl (assembler_finish (\<lambda>_ _. True) sample_plan)" by code_simp
  then show ?thesis by (simp add: sample_output_def)
qed


text \<open>
  C3. The assembler emits the plan. When assembly succeeds, the bytes decode to exactly one
  instruction per planned item, the reported positions are the positions of those instructions,
  and the code is within the byte limit. An ordinary item is emitted unchanged; a branch is
  emitted with an opcode of its kind whose encoded target is the start of an instruction the
  plan sends it to (the one its label is bound to or, for plain branches, the one the gotos found
  there lead to); a \<open>with\<close> branch keeps its opcode, atom and flag and its encoded target is the
  instruction its label is bound to.
\<close>

theorem assembler_emits_plan:
  assumes "assembling a" and "assembler_finish alloc a = Inr out"
  shows "\<exists>ds. decoder_collect (instruction_decoder_new (ab_bytecode out)) = Inr ds \<and>
    ab_instruction_pcs out = map d_pc ds \<and> length ds = length (as_items a) \<and>
    length (ab_bytecode out) \<le> unat (max_bytecode_bytes (as_limits a)) \<and>
    (\<forall>i < length ds. emitted a ds i)"
  by (rule finish_emits [OF assembling_inv [OF assms(1)] assms(2)])

theorem assembler_emits_plan_witness:
  "ab_bytecode sample_output = [10, 233, 5, 178, 235, 2, 178, 41] \<and>
   (\<exists>ds. decoder_collect (instruction_decoder_new (ab_bytecode sample_output)) = Inr ds \<and>
      ab_instruction_pcs sample_output = map d_pc ds \<and> length ds = length (as_items sample_plan) \<and>
      emitted sample_plan ds 1)"
proof -
  have "ab_bytecode sample_output = [10, 233, 5, 178, 235, 2, 178, 41]" "length (as_items sample_plan) = 6"
    by code_simp+
  then show ?thesis
    using assembler_emits_plan [OF sample_plan_assembling sample_plan_finish] by auto
qed

text \<open>
  C16. Branch relaxation finds the least layout. After goto threading of a plan whose labels
  validate, the widths it returns form a valid layout (every branch has a width its kind can
  encode and reaches its label with it, every other item its own size), the positions are the running
  byte offsets, and no valid layout has a smaller width for any item.
\<close>

theorem relaxed_layout_least:
  assumes "assembling a" and "thread_redundant_goto_targets alloc a = Inr a'"
    and "relaxed_layout alloc a' = Inr (ws, ps)"
  shows "valid_layout a' ws \<and> ps = offsets ws \<and>
    (\<forall>vs. valid_layout a' vs \<longrightarrow> (\<forall>i < length ws. ws ! i \<le> vs ! i))"
proof -
  have "assembler_inv a'" using thread_redundant_goto_targets_Inr(5) [OF assembling_inv] assms by blast
  from relaxed_layout_spec [OF this assms(3)] show ?thesis by blast
qed

theorem relaxed_layout_least_witness:
  "valid_layout sample_threaded [1, 2, 1, 2, 1, 1]"
proof -
  have "relaxed_layout (\<lambda>_ _. True) sample_threaded = Inr ([1, 2, 1, 2, 1, 1], [0, 1, 3, 4, 6, 7, 8])"
    by code_simp
  from relaxed_layout_least [OF sample_plan_assembling sample_plan_threaded this] show ?thesis by blast
qed

text \<open>
  C17. Assembly succeeds on every reasonable plan. When every label is bound and used labels do
  not point past the end, the plan in its widest form is below two gigabytes and within the byte
  limit, and the relaxation limit allows one visit of every item in one more pass than twice the
  number of branches, then assembly returns code (given memory): relaxation always settles within
  that many passes.
\<close>

theorem assembler_completes:
  assumes "assembling a" and "validate_bound_labels a = Inr ()"
    and "widest_encoding a \<le> unat (max_bytecode_bytes (as_limits a))" "widest_encoding a < 2 ^ 31 - 5"
    and "length (as_items a) * (2 * branch_count a + 1) \<le> unat (max_relaxation_evaluations (as_limits a))"
  shows "\<exists>out. assembler_finish (\<lambda>_ _. True) a = Inr out"
  by (rule finish_total [OF assembling_inv [OF assms(1)] assms(2-5)])

theorem assembler_completes_witness:
  "\<exists>out. assembler_finish (\<lambda>_ _. True) sample_plan = Inr out"
proof (rule assembler_completes [OF sample_plan_assembling])
  show "validate_bound_labels sample_plan = Inr ()" by code_simp
  show "widest_encoding sample_plan \<le> unat (max_bytecode_bytes (as_limits sample_plan))" by code_simp
  show "widest_encoding sample_plan < 2 ^ 31 - 5" by code_simp
  show "length (as_items sample_plan) * (2 * branch_count sample_plan + 1)
      \<le> unat (max_relaxation_evaluations (as_limits sample_plan))" by code_simp
qed

text \<open>
  C36. Assembly fails only for reasons of its input or its resources: a label that is unbound or
  points past the end, an exhausted relaxation or byte limit, refused memory, a code size or
  branch distance beyond the encoding. It never panics on an index, never reports an invalid
  instruction, an unknown label, too many items, or a disagreement between layout and encoder.
\<close>

theorem assembler_failures:
  assumes "assembling a" and "assembler_finish alloc a = Inl e"
  shows "reportable e"
  by (rule finish_fails [OF assembling_inv [OF assms(1)] assms(2)])

theorem assembler_failures_witness:
  "reportable (AE_AllocationFailed ''branch target state'' 2)"
proof (rule assembler_failures [OF sample_plan_assembling])
  show "assembler_finish (\<lambda>_ _. False) sample_plan = Inl (AE_AllocationFailed ''branch target state'' 2)"
    by code_simp
qed

text \<open>
  Goto threading changes nothing but the labels of conditional and unconditional branches,
  and replaces such a label exactly when the gotos it leads to end: by the label they end at.
  Labels that lead into a cycle of gotos, exception handlers, finally subroutines and \<open>with\<close>
  branches are left alone.
\<close>

theorem goto_threading_exact:
  assumes "assembling a" and "thread_redundant_goto_targets alloc a = Inr a'"
  shows "as_label_bindings a' = as_label_bindings a \<and> length (as_items a') = length (as_items a) \<and>
    (\<forall>i < length (as_items a). threaded_item a (as_items a ! i) (as_items a' ! i))"
  using thread_redundant_goto_targets_Inr [OF assembling_inv [OF assms(1)] assms(2)] by blast

theorem goto_threading_exact_witness:
  "as_items sample_threaded ! 1 = Item_Branch BK_IfFalse 1 \<and>
   threaded_item sample_plan (Item_Branch BK_IfFalse 0) (Item_Branch BK_IfFalse 1)"
proof -
  have v: "as_items sample_plan ! 1 = Item_Branch BK_IfFalse 0" "1 < length (as_items sample_plan)"
    "as_items sample_threaded ! 1 = Item_Branch BK_IfFalse 1" by code_simp+
  show ?thesis using goto_threading_exact [OF sample_plan_assembling sample_plan_threaded] v by metis
qed

text \<open>
  A plan only grows, and labels are bound once: whatever operations follow, the items
  already planned stay in place, a bound label keeps its position, and the limits and the owner
  stay the same.
\<close>

theorem plan_grows:
  assumes "assembler_step\<^sup>*\<^sup>* a b"
  shows "as_identity b = as_identity a \<and> as_limits b = as_limits a \<and>
    take (length (as_items a)) (as_items b) = as_items a \<and>
    (case target_position a l of Inl e \<Rightarrow> True | Inr p \<Rightarrow> target_position b l = Inr p)"
  using assms
proof (induction rule: rtranclp_induct)
  case base
  then show ?case by (simp split: sum.split)
next
  case (step b c)
  have "as_identity c = as_identity b \<and> as_limits c = as_limits b \<and>
      take (length (as_items b)) (as_items c) = as_items b \<and>
      (target_position b l = Inr p \<longrightarrow> target_position c l = Inr p)" for p
    using step.hyps(2)
    by (cases rule: assembler_step_cases) (auto simp: target_position_eq_Inr nth_append nth_list_update)
  moreover have "length (as_items a) \<le> length (as_items b)"
    using step.IH by (metis length_take min.absorb_iff2 min.commute)
  ultimately show ?case
    using step.IH by (auto simp: min_def split: sum.splits) (metis min.absorb1 take_take)+
qed

theorem plan_grows_witness:
  "as_identity sample_plan = 0 \<and> as_limits sample_plan = assembler_limits_default"
  using plan_grows [OF sample_plan_steps] by (simp add: assembler_new_def with_limits_def)

end
