(* ===== verification/Arena.thy ===== *)
theory Arena
  imports Prelude
begin

text \<open>
  The generational arena of \<^verbatim>\<open>fusor-runtime/src/arena.rs\<close>, which owns the objects, functions and
  other records of a runtime. Ids carry the identity of the runtime, a slot index and the
  generation of the slot; vacant slots form a free list through the slots themselves. The
  marker type parameter of the source only separates arenas at compile time and is left out.
\<close>

section \<open>Ids and slots\<close>

record id =
  id_runtime :: nat
  id_index :: usize
  id_generation :: u32

definition id_ZERO :: id where
  "id_ZERO = \<lparr>id_runtime = 0, id_index = 0, id_generation = 0\<rparr>"

datatype 'v slot_state = Occupied 'v | Vacant "usize option" | Retired

record 'v slot =
  slot_generation :: u32
  slot_state :: "'v slot_state"

record 'v arena =
  ar_runtime :: nat
  ar_slots :: "'v slot list"
  ar_free_head :: "usize option"
  ar_live_len :: usize
  ar_free_len :: usize
  ar_retired_len :: usize

section \<open>Operations\<close>

definition id_from_index :: "'v arena \<Rightarrow> usize \<Rightarrow> id" where
  "id_from_index a index = \<lparr>id_runtime = ar_runtime a, id_index = index, id_generation = 0\<rparr>"

definition arena_new :: "nat \<Rightarrow> 'v arena" where
  "arena_new runtime =
     \<lparr>ar_runtime = runtime, ar_slots = [], ar_free_head = None, ar_live_len = 0, ar_free_len = 0,
      ar_retired_len = 0\<rparr>"

text \<open>\<^verbatim>\<open>try_reserve\<close> only asks for memory; whether it is granted is the allocator's decision.\<close>

definition try_reserve :: "allocator \<Rightarrow> 'v arena \<Rightarrow> usize \<Rightarrow> bool" where
  "try_reserve alloc a additional = alloc (length (ar_slots a)) (additional - ar_free_len a)"

text \<open>
  \<^verbatim>\<open>try_insert\<close>: \<open>Inl ()\<close> is the allocation failure. The source declares a head of the free
  list that is not vacant unreachable; the model keeps that branch as \<open>None\<close>.
\<close>

definition try_insert :: "allocator \<Rightarrow> 'v arena \<Rightarrow> 'v \<Rightarrow> (unit, id \<times> 'v arena) result option" where
  "try_insert alloc a v =
     (case ar_free_head a of
        Some index \<Rightarrow>
          (case get (ar_slots a) index of
             Some slot \<Rightarrow>
               (case slot_state slot of
                  Vacant next \<Rightarrow>
                    Some (Inr (\<lparr>id_runtime = ar_runtime a, id_index = index, id_generation = slot_generation slot\<rparr>,
                      a\<lparr>ar_slots := (ar_slots a)[index := slot\<lparr>slot_state := Occupied v\<rparr>],
                        ar_free_head := next, ar_free_len := ar_free_len a - 1,
                        ar_live_len := ar_live_len a + 1\<rparr>))
                | _ \<Rightarrow> None)
           | None \<Rightarrow> None)
      | None \<Rightarrow>
          if \<not> alloc (length (ar_slots a)) 1 then Some (Inl ())
          else Some (Inr (\<lparr>id_runtime = ar_runtime a, id_index = length (ar_slots a), id_generation = 0\<rparr>,
            a\<lparr>ar_slots := ar_slots a @ [\<lparr>slot_generation = 0, slot_state = Occupied v\<rparr>],
              ar_live_len := ar_live_len a + 1\<rparr>)))"

definition arena_get :: "'v arena \<Rightarrow> id \<Rightarrow> 'v option" where
  "arena_get a i =
     (if id_runtime i \<noteq> ar_runtime a then None
      else case get (ar_slots a) (id_index i) of
             None \<Rightarrow> None
           | Some slot \<Rightarrow>
               if slot_generation slot \<noteq> id_generation i then None
               else (case slot_state slot of Occupied v \<Rightarrow> Some v | Vacant _ \<Rightarrow> None | Retired \<Rightarrow> None))"

definition arena_contains :: "'v arena \<Rightarrow> id \<Rightarrow> bool" where
  "arena_contains a i \<longleftrightarrow> arena_get a i \<noteq> None"

text \<open>\<^verbatim>\<open>get_mut\<close> followed by a write through the reference it returns.\<close>

definition arena_set :: "'v arena \<Rightarrow> id \<Rightarrow> 'v \<Rightarrow> 'v arena option" where
  "arena_set a i v =
     (if id_runtime i \<noteq> ar_runtime a then None
      else case get (ar_slots a) (id_index i) of
             None \<Rightarrow> None
           | Some slot \<Rightarrow>
               if slot_generation slot \<noteq> id_generation i then None
               else (case slot_state slot of
                       Occupied _ \<Rightarrow>
                         Some (a\<lparr>ar_slots := (ar_slots a)[id_index i := slot\<lparr>slot_state := Occupied v\<rparr>]\<rparr>)
                     | Vacant _ \<Rightarrow> None | Retired \<Rightarrow> None))"

definition arena_remove :: "'v arena \<Rightarrow> id \<Rightarrow> ('v \<times> 'v arena) option" where
  "arena_remove a i =
     (if id_runtime i \<noteq> ar_runtime a then None
      else case get (ar_slots a) (id_index i) of
             None \<Rightarrow> None
           | Some slot \<Rightarrow>
               if slot_generation slot \<noteq> id_generation i then None
               else (case slot_state slot of
                       Occupied v \<Rightarrow>
                         (case checked_add (slot_generation slot) 1 of
                            Some next_generation \<Rightarrow>
                              Some (v, a\<lparr>ar_slots := (ar_slots a)[id_index i :=
                                           \<lparr>slot_generation = next_generation, slot_state = Vacant (ar_free_head a)\<rparr>],
                                         ar_live_len := ar_live_len a - 1,
                                         ar_free_head := Some (id_index i), ar_free_len := ar_free_len a + 1\<rparr>)
                          | None \<Rightarrow>
                              Some (v, a\<lparr>ar_slots := (ar_slots a)[id_index i := slot\<lparr>slot_state := Retired\<rparr>],
                                         ar_live_len := ar_live_len a - 1,
                                         ar_retired_len := ar_retired_len a + 1\<rparr>))
                     | Vacant _ \<Rightarrow> None | Retired \<Rightarrow> None))"

definition slot_entry :: "nat \<Rightarrow> nat \<times> 'v slot \<Rightarrow> (id \<times> 'v) option" where
  "slot_entry runtime x =
     (case slot_state (snd x) of
        Occupied v \<Rightarrow> Some (\<lparr>id_runtime = runtime, id_index = fst x, id_generation = slot_generation (snd x)\<rparr>, v)
      | Vacant _ \<Rightarrow> None
      | Retired \<Rightarrow> None)"

definition arena_iter :: "'v arena \<Rightarrow> (id \<times> 'v) list" where
  "arena_iter a = List.map_filter (slot_entry (ar_runtime a)) (List.enumerate 0 (ar_slots a))"

definition is_pristine_prefix :: "'v arena \<Rightarrow> usize \<Rightarrow> bool" where
  "is_pristine_prefix a end_index \<longleftrightarrow>
     (if length (ar_slots a) < end_index then False
      else list_all (\<lambda>slot. slot_generation slot = 0 \<and>
             (case slot_state slot of Occupied _ \<Rightarrow> True | _ \<Rightarrow> False)) (take end_index (ar_slots a)))"

definition is_dense_pristine :: "'v arena \<Rightarrow> bool" where
  "is_dense_pristine a \<longleftrightarrow>
     ar_live_len a = length (ar_slots a) \<and> is_pristine_prefix a (length (ar_slots a))"

section \<open>Snapshot restoration\<close>

text \<open>Padding up to the recorded index: every new slot becomes the head of the free list.\<close>

primrec pad_holes :: "nat \<Rightarrow> 'v arena \<Rightarrow> 'v arena" where
  "pad_holes 0 a = a"
| "pad_holes (Suc n) a =
     pad_holes n (a\<lparr>ar_slots := ar_slots a @ [\<lparr>slot_generation = 0, slot_state = Vacant (ar_free_head a)\<rparr>],
                    ar_free_head := Some (length (ar_slots a)), ar_free_len := ar_free_len a + 1\<rparr>)"

text \<open>
  The walk along the free list. Its outer option is the one of \<open>partial_function\<close>: \<open>None\<close> would
  be a walk that does not end. The inner result is \<open>Inl ()\<close> where the source returns early and
  otherwise the pair \<^verbatim>\<open>(previous, cursor)\<close> at the end of the loop.
\<close>

partial_function (option) find_in_free_list ::
  "'v slot list \<Rightarrow> usize \<Rightarrow> usize option \<Rightarrow> usize option \<Rightarrow>
     (unit, usize option \<times> usize option) result option" where
  [code]: "find_in_free_list slots index previous cursor =
     (case cursor of
        None \<Rightarrow> Some (Inr (previous, cursor))
      | Some current \<Rightarrow>
          if current = index then Some (Inr (previous, cursor))
          else case get slots current of
                 None \<Rightarrow> Some (Inl ())
               | Some slot \<Rightarrow>
                   (case slot_state slot of
                      Vacant next \<Rightarrow> find_in_free_list slots index (Some current) next
                    | _ \<Rightarrow> Some (Inl ())))"

definition restore_insert ::
  "allocator \<Rightarrow> 'v arena \<Rightarrow> usize \<Rightarrow> 'v \<Rightarrow> (id \<times> 'v arena) option option" where
  "restore_insert alloc a index v =
     (let new_id = \<lparr>id_runtime = ar_runtime a, id_index = index, id_generation = 0\<rparr>
      in if length (ar_slots a) \<le> index then
           if \<not> alloc (length (ar_slots a)) (index - length (ar_slots a)) then Some None
           else let b = pad_holes (index - length (ar_slots a)) a
                in Some (Some (new_id, b\<lparr>ar_slots := ar_slots b @ [\<lparr>slot_generation = 0, slot_state = Occupied v\<rparr>],
                                         ar_live_len := ar_live_len b + 1\<rparr>))
         else case slot_state (ar_slots a ! index) of
                Vacant next \<Rightarrow>
                  (case find_in_free_list (ar_slots a) index None (ar_free_head a) of
                     None \<Rightarrow> None
                   | Some (Inl ()) \<Rightarrow> Some None
                   | Some (Inr (previous, cursor)) \<Rightarrow>
                       if cursor \<noteq> Some index then Some None
                       else let occupy = (\<lambda>b. b\<lparr>ar_slots := (ar_slots b)[index :=
                                                  \<lparr>slot_generation = 0, slot_state = Occupied v\<rparr>],
                                                ar_free_len := ar_free_len b - 1,
                                                ar_live_len := ar_live_len b + 1\<rparr>)
                            in case previous of
                                 None \<Rightarrow> Some (Some (new_id, occupy (a\<lparr>ar_free_head := next\<rparr>)))
                               | Some p \<Rightarrow>
                                   (case slot_state (ar_slots a ! p) of
                                      Vacant _ \<Rightarrow>
                                        Some (Some (new_id, occupy (a\<lparr>ar_slots := (ar_slots a)[p :=
                                          (ar_slots a ! p)\<lparr>slot_state := Vacant next\<rparr>]\<rparr>)))
                                    | _ \<Rightarrow> Some None))
              | _ \<Rightarrow> Some None)"


section \<open>The contract of a generational store\<close>

text \<open>
  What clients rely on: a partial map from ids to values in which insertion picks an id that was
  never issued before. \<open>issued\<close> is the set of ids handed out so far.
\<close>

locale generational_store =
  fixes invar :: "'s \<Rightarrow> bool"
    and lookup :: "'s \<Rightarrow> 'id \<Rightarrow> 'v option"
    and issued :: "'s \<Rightarrow> 'id set"
    and insert_value :: "'s \<Rightarrow> 'v \<Rightarrow> 'id \<times> 's \<Rightarrow> bool"
    and update_value :: "'s \<Rightarrow> 'id \<Rightarrow> 'v \<Rightarrow> 's option"
    and remove_value :: "'s \<Rightarrow> 'id \<Rightarrow> ('v \<times> 's) option"
  assumes lookup_issued: "invar s \<Longrightarrow> lookup s i = Some v \<Longrightarrow> i \<in> issued s"
    and insert_law: "invar s \<Longrightarrow> insert_value s v (i, s') \<Longrightarrow>
      invar s' \<and> i \<notin> issued s \<and> issued s' = insert i (issued s) \<and> lookup s' = (lookup s)(i := Some v)"
    and update_law: "invar s \<Longrightarrow> update_value s i v = Some s' \<Longrightarrow>
      invar s' \<and> lookup s i \<noteq> None \<and> issued s' = issued s \<and> lookup s' = (lookup s)(i := Some v)"
    and remove_law: "invar s \<Longrightarrow> remove_value s i = Some (v, s') \<Longrightarrow>
      invar s' \<and> lookup s i = Some v \<and> issued s' = issued s \<and> lookup s' = (lookup s)(i := None)"
    and update_None: "update_value s i v = None \<longleftrightarrow> lookup s i = None"
    and remove_None: "remove_value s i = None \<longleftrightarrow> lookup s i = None"
begin

text \<open>One mutation through the interface.\<close>

inductive store_step :: "'s \<Rightarrow> 's \<Rightarrow> bool" where
  do_insert: "insert_value s v (i, s') \<Longrightarrow> store_step s s'"
| do_update: "update_value s i v = Some s' \<Longrightarrow> store_step s s'"
| do_remove: "remove_value s i = Some (v, s') \<Longrightarrow> store_step s s'"

lemma step_invar: "store_step s s' \<Longrightarrow> invar s \<Longrightarrow> invar s'"
  by (cases rule: store_step.cases) (auto dest: insert_law update_law remove_law)

lemma step_issued: "store_step s s' \<Longrightarrow> invar s \<Longrightarrow> issued s \<subseteq> issued s'"
  by (cases rule: store_step.cases) (auto dest: insert_law update_law remove_law)

lemma step_dead:
  assumes "store_step s s'" "invar s" "i \<in> issued s" "lookup s i = None"
  shows "lookup s' i = None"
  using assms(1)
proof (cases rule: store_step.cases)
  case (do_insert v j)
  then show ?thesis using insert_law [OF assms(2) do_insert] assms(3,4) by auto
next
  case (do_update j v)
  then show ?thesis using update_law [OF assms(2) do_update] assms(4) by auto
next
  case (do_remove j v)
  then show ?thesis using remove_law [OF assms(2) do_remove] assms(4) by auto
qed

lemma dead_forever:
  assumes "store_step\<^sup>*\<^sup>* s s'" "invar s" "i \<in> issued s" "lookup s i = None"
  shows "lookup s' i = None"
proof -
  have "invar s' \<and> i \<in> issued s' \<and> lookup s' i = None"
    using assms(1)
  proof (induction rule: rtranclp_induct)
    case (step t u)
    then show ?case using step_invar step_issued step_dead by blast
  qed (use assms in simp)
  then show ?thesis by simp
qed

end

section \<open>The invariant of the arena\<close>

primrec free_chain :: "'v slot list \<Rightarrow> usize option \<Rightarrow> usize list \<Rightarrow> bool" where
  "free_chain slots head [] \<longleftrightarrow> head = None"
| "free_chain slots head (i # is) \<longleftrightarrow>
     head = Some i \<and> i < length slots \<and> (\<exists>n. slot_state (slots ! i) = Vacant n \<and> free_chain slots n is)"

definition is_occupied :: "'v slot \<Rightarrow> bool" where
  "is_occupied slot \<longleftrightarrow> (case slot_state slot of Occupied _ \<Rightarrow> True | _ \<Rightarrow> False)"

definition is_vacant :: "'v slot \<Rightarrow> bool" where
  "is_vacant slot \<longleftrightarrow> (case slot_state slot of Vacant _ \<Rightarrow> True | _ \<Rightarrow> False)"

definition count :: "('a \<Rightarrow> bool) \<Rightarrow> 'a list \<Rightarrow> nat" where
  "count P xs = length (filter P xs)"

definition vacants :: "'v slot list \<Rightarrow> usize set" where
  "vacants slots = {i. i < length slots \<and> is_vacant (slots ! i)}"

definition arena_ok :: "'v arena \<Rightarrow> usize list \<Rightarrow> bool" where
  "arena_ok a fs \<longleftrightarrow>
     free_chain (ar_slots a) (ar_free_head a) fs \<and> distinct fs \<and>
     set fs = vacants (ar_slots a) \<and>
     ar_free_len a = length fs \<and> ar_live_len a = count is_occupied (ar_slots a) \<and>
     ar_retired_len a = count (\<lambda>s. slot_state s = Retired) (ar_slots a)"

definition arena_inv :: "'v arena \<Rightarrow> bool" where
  "arena_inv a \<longleftrightarrow> (\<exists>fs. arena_ok a fs)"

lemma count_append [simp]: "count P (xs @ ys) = count P xs + count P ys"
  by (simp add: count_def)

lemma count_simps [simp]: "count P [] = 0" "count P (x # xs) = (if P x then 1 else 0) + count P xs"
  by (simp_all add: count_def)

lemma count_update:
  "i < length xs \<Longrightarrow> count P (xs[i := x]) + (if P (xs ! i) then 1 else 0) = count P xs + (if P x then 1 else 0)"
proof (induction xs arbitrary: i)
  case (Cons y xs)
  then show ?case by (cases i) auto
qed simp

lemma count_pos: "i < length xs \<Longrightarrow> P (xs ! i) \<Longrightarrow> 0 < count P xs"
  by (auto simp: count_def filter_empty_conv)

lemma vacants_update:
  "k < length slots \<Longrightarrow>
     vacants (slots[k := s]) = (if is_vacant s then insert k (vacants slots) else vacants slots - {k})"
  unfolding vacants_def by (auto simp: nth_list_update split: if_splits)

lemma vacants_append: "vacants (slots @ [s]) = (if is_vacant s then insert (length slots) (vacants slots) else vacants slots)"
  unfolding vacants_def by (auto simp: nth_append less_Suc_eq split: if_splits)

lemma slot_kind_simps [simp]:
  "is_vacant (s\<lparr>slot_state := st\<rparr>) \<longleftrightarrow> (\<exists>n. st = Vacant n)"
  "is_occupied (s\<lparr>slot_state := st\<rparr>) \<longleftrightarrow> (\<exists>v. st = Occupied v)"
  "is_vacant \<lparr>slot_generation = g, slot_state = st\<rparr> \<longleftrightarrow> (\<exists>n. st = Vacant n)"
  "is_occupied \<lparr>slot_generation = g, slot_state = st\<rparr> \<longleftrightarrow> (\<exists>v. st = Occupied v)"
  by (auto simp: is_vacant_def is_occupied_def split: slot_state.splits)

lemma slot_kind_state:
  "slot_state s = Vacant n \<Longrightarrow> is_vacant s \<and> \<not> is_occupied s"
  "slot_state s = Occupied v \<Longrightarrow> \<not> is_vacant s \<and> is_occupied s"
  by (simp_all add: is_vacant_def is_occupied_def)

text \<open>Replacing one slot changes each count by what the old and the new slot contribute.\<close>

lemma counts_update:
  assumes "k < length slots"
  shows "count is_occupied (slots[k := s]) =
      count is_occupied slots + (if is_occupied s then 1 else 0) - (if is_occupied (slots ! k) then 1 else 0)"
    "count (\<lambda>s. slot_state s = Retired) (slots[k := s]) = count (\<lambda>s. slot_state s = Retired) slots +
      (if slot_state s = Retired then 1 else 0) - (if slot_state (slots ! k) = Retired then 1 else 0)"
  using count_update [OF assms, of is_occupied s] count_update [OF assms, of "\<lambda>s. slot_state s = Retired" s]
  by (auto split: if_splits)

lemma free_chain_update: "free_chain slots head fs \<Longrightarrow> i \<notin> set fs \<Longrightarrow> free_chain (slots[i := s]) head fs"
  by (induction fs arbitrary: head) (auto simp: nth_list_update)

lemma free_chain_append: "free_chain slots head fs \<Longrightarrow> free_chain (slots @ ss) head fs"
  by (induction fs arbitrary: head) (auto simp: nth_append)

end
