(* ===== verification/Arena_Store.thy ===== *)
theory Arena_Store
  imports Arena
begin

text \<open>
  The arena meets the contract of a generational store, its counts stay exact, and snapshot
  restoration is total; the last section states this for callers.
\<close>

section \<open>The arena is a generational store\<close>

definition slot_value :: "'v slot \<Rightarrow> u32 \<Rightarrow> 'v option" where
  "slot_value s g =
     (if slot_generation s = g then case slot_state s of Occupied v \<Rightarrow> Some v | _ \<Rightarrow> None else None)"

lemma slot_value_Some: "slot_value s g = Some v \<longleftrightarrow> slot_generation s = g \<and> slot_state s = Occupied v"
  by (auto simp: slot_value_def split: slot_state.splits)

lemma arena_get_slot:
  "arena_get a i =
     (if id_runtime i = ar_runtime a \<and> id_index i < length (ar_slots a)
      then slot_value (ar_slots a ! id_index i) (id_generation i) else None)"
  by (auto simp: arena_get_def slot_value_def get_def split: slot_state.splits)

definition arena_issued :: "'v arena \<Rightarrow> id set" where
  "arena_issued a =
     {i. id_runtime i = ar_runtime a \<and> id_index i < length (ar_slots a) \<and>
         (let s = ar_slots a ! id_index i
          in id_generation i < slot_generation s \<or> id_generation i = slot_generation s \<and> \<not> is_vacant s)}"

lemma arena_get_issued:
  assumes "arena_get a i = Some v"
  shows "i \<in> arena_issued a"
proof -
  have "id_runtime i = ar_runtime a" "id_index i < length (ar_slots a)"
    "slot_generation (ar_slots a ! id_index i) = id_generation i" "slot_state (ar_slots a ! id_index i) = Occupied v"
    using assms unfolding arena_get_slot by (simp_all add: slot_value_Some split: if_split_asm)
  then show ?thesis by (simp add: arena_issued_def Let_def slot_kind_state)
qed

lemma try_insert_cases:
  assumes "arena_ok a fs" "try_insert alloc a v = Some (Inr (i, a'))"
  obtains
    (reuse) k rest nxt where "fs = k # rest" "k < length (ar_slots a)" "slot_state (ar_slots a ! k) = Vacant nxt"
      "free_chain (ar_slots a) nxt rest"
      "i = \<lparr>id_runtime = ar_runtime a, id_index = k, id_generation = slot_generation (ar_slots a ! k)\<rparr>"
      "a' = a\<lparr>ar_slots := (ar_slots a)[k := (ar_slots a ! k)\<lparr>slot_state := Occupied v\<rparr>],
              ar_free_head := nxt, ar_free_len := ar_free_len a - 1, ar_live_len := ar_live_len a + 1\<rparr>"
  | (grow) "fs = []" "i = \<lparr>id_runtime = ar_runtime a, id_index = length (ar_slots a), id_generation = 0\<rparr>"
      "a' = a\<lparr>ar_slots := ar_slots a @ [\<lparr>slot_generation = 0, slot_state = Occupied v\<rparr>],
              ar_live_len := ar_live_len a + 1\<rparr>"
proof (cases fs)
  case Nil
  then show thesis
    using assms grow by (auto simp: try_insert_def arena_ok_def split: if_splits)
next
  case (Cons k rest)
  then show thesis
    using assms reuse by (auto simp: try_insert_def arena_ok_def get_def)
qed

lemma try_insert_ok:
  assumes ok: "arena_ok a fs" and ins: "try_insert alloc a v = Some (Inr (i, a'))"
  shows "arena_ok a' (tl fs)"
  using ok ins
proof (cases rule: try_insert_cases)
  case (reuse k rest nxt)
  note o = ok [unfolded arena_ok_def]
  have "free_chain ((ar_slots a)[k := (ar_slots a ! k)\<lparr>slot_state := Occupied v\<rparr>]) nxt rest"
    using o reuse by (intro free_chain_update) auto
  moreover have "set rest = vacants (ar_slots a) - {k}" using o reuse(1) by auto
  ultimately show ?thesis
    using o reuse(1-3) slot_kind_state(1) [OF reuse(3)]
    by (simp add: arena_ok_def reuse(6) vacants_update counts_update)
next
  case grow
  then show ?thesis using ok by (simp add: arena_ok_def vacants_append)
qed


lemma try_insert_law:
  assumes inv: "arena_inv a" and ins: "try_insert alloc a v = Some (Inr (i, a'))"
  shows "arena_inv a' \<and> i \<notin> arena_issued a \<and> arena_issued a' = insert i (arena_issued a) \<and>
    arena_get a' = (arena_get a)(i := Some v)"
proof -
  obtain fs where ok: "arena_ok a fs" using inv by (auto simp: arena_inv_def)
  have "i \<notin> arena_issued a \<and> arena_issued a' = insert i (arena_issued a) \<and> arena_get a' = (arena_get a)(i := Some v)"
    using ok ins
  proof (cases rule: try_insert_cases)
    case (reuse k rest nxt)
    then have "is_vacant (ar_slots a ! k)" by (simp add: is_vacant_def)
    then have "arena_get a' j = ((arena_get a)(i := Some v)) j" for j
      using reuse by (cases j) (auto simp: arena_get_slot slot_value_def nth_list_update split: slot_state.splits)
    moreover have "j \<in> arena_issued a' \<longleftrightarrow> j = i \<or> j \<in> arena_issued a" for j
      using reuse by (cases j) (auto simp: arena_issued_def is_vacant_def nth_list_update Let_def)
    moreover have "i \<notin> arena_issued a" using reuse by (simp add: arena_issued_def is_vacant_def)
    ultimately show ?thesis by auto
  next
    case grow
    then have "arena_get a' j = ((arena_get a)(i := Some v)) j" for j
      by (cases j) (auto simp: arena_get_slot slot_value_def nth_append)
    moreover have "j \<in> arena_issued a' \<longleftrightarrow> j = i \<or> j \<in> arena_issued a" for j
      using grow by (cases j) (auto simp: arena_issued_def is_vacant_def nth_append Let_def)
    moreover have "i \<notin> arena_issued a" using grow by (simp add: arena_issued_def)
    ultimately show ?thesis by auto
  qed
  then show ?thesis using try_insert_ok [OF ok ins] by (auto simp: arena_inv_def)
qed

lemma arena_set_law:
  assumes inv: "arena_inv a" and set: "arena_set a i v = Some a'"
  shows "arena_inv a' \<and> arena_get a i \<noteq> None \<and> arena_issued a' = arena_issued a \<and>
    arena_get a' = (arena_get a)(i := Some v)"
proof -
  let ?k = "id_index i"
  let ?s = "(ar_slots a ! ?k)\<lparr>slot_state := Occupied v\<rparr>"
  obtain u where k: "id_runtime i = ar_runtime a" "?k < length (ar_slots a)"
    "slot_generation (ar_slots a ! ?k) = id_generation i" "slot_state (ar_slots a ! ?k) = Occupied u"
    and a': "a' = a\<lparr>ar_slots := (ar_slots a)[?k := ?s]\<rparr>"
    using set by (auto simp: arena_set_def get_def split: if_splits slot_state.splits)
  obtain fs where ok: "arena_ok a fs" using inv by (auto simp: arena_inv_def)
  note o = ok [unfolded arena_ok_def] and kind = slot_kind_state(2) [OF k(4)]
  have "?k \<notin> set fs" using o kind by (auto simp: vacants_def)
  then have "free_chain ((ar_slots a)[?k := ?s]) (ar_free_head a) fs" "set fs = vacants (ar_slots a) - {?k}"
    using o by (auto intro: free_chain_update)
  then have "arena_ok a' fs"
    using o k kind by (simp add: arena_ok_def a' vacants_update counts_update)
  moreover have "arena_get a' j = ((arena_get a)(i := Some v)) j" for j
    using k by (cases i; cases j) (auto simp: a' arena_get_slot slot_value_def nth_list_update)
  moreover have "j \<in> arena_issued a' \<longleftrightarrow> j \<in> arena_issued a" for j
    using k by (cases j) (auto simp: a' arena_issued_def is_vacant_def nth_list_update Let_def)
  moreover have "arena_get a i \<noteq> None" using k by (simp add: arena_get_slot slot_value_def)
  ultimately show ?thesis by (auto simp: arena_inv_def)
qed

lemma arena_remove_cases:
  assumes "arena_remove a i = Some (v, a')"
  obtains (advance) g where "id_runtime i = ar_runtime a" "id_index i < length (ar_slots a)"
      "slot_generation (ar_slots a ! id_index i) = id_generation i" "slot_state (ar_slots a ! id_index i) = Occupied v"
      "unat g = unat (id_generation i) + 1"
      "a' = a\<lparr>ar_slots := (ar_slots a)[id_index i := \<lparr>slot_generation = g, slot_state = Vacant (ar_free_head a)\<rparr>],
              ar_live_len := ar_live_len a - 1, ar_free_head := Some (id_index i), ar_free_len := ar_free_len a + 1\<rparr>"
  | (retire) "id_runtime i = ar_runtime a" "id_index i < length (ar_slots a)"
      "slot_generation (ar_slots a ! id_index i) = id_generation i" "slot_state (ar_slots a ! id_index i) = Occupied v"
      "a' = a\<lparr>ar_slots := (ar_slots a)[id_index i := (ar_slots a ! id_index i)\<lparr>slot_state := Retired\<rparr>],
              ar_live_len := ar_live_len a - 1, ar_retired_len := ar_retired_len a + 1\<rparr>"
proof (cases "checked_add (id_generation i) 1")
  case None
  then show thesis
    using assms retire by (auto simp: arena_remove_def get_def split: if_splits slot_state.splits)
next
  case (Some g)
  then have "unat g = unat (id_generation i) + 1" using unat_checked_add by fastforce
  then show thesis
    using assms advance Some by (auto simp: arena_remove_def get_def split: if_splits slot_state.splits)
qed

lemma arena_remove_ok:
  assumes ok: "arena_ok a fs" and rem: "arena_remove a i = Some (v, a')"
  shows "\<exists>fs'. arena_ok a' fs'"
  using rem
proof (cases rule: arena_remove_cases)
  case (advance g)
  let ?k = "id_index i"
  let ?s = "\<lparr>slot_generation = g, slot_state = Vacant (ar_free_head a)\<rparr> :: 'a slot"
  note o = ok [unfolded arena_ok_def] and kind = slot_kind_state(2) [OF advance(4)]
  have k: "?k \<notin> set fs" using o kind by (auto simp: vacants_def)
  then have "free_chain ((ar_slots a)[?k := ?s]) (ar_free_head a) fs" using o by (intro free_chain_update) auto
  then have "free_chain ((ar_slots a)[?k := ?s]) (Some ?k) (?k # fs)" using advance(2) by simp
  moreover have "0 < count is_occupied (ar_slots a)" using count_pos [OF advance(2)] kind by blast
  ultimately have "arena_ok a' (?k # fs)"
    using o k kind advance(2,4) by (simp add: arena_ok_def advance(6) vacants_update counts_update)
  then show ?thesis ..
next
  case retire
  let ?k = "id_index i"
  let ?s = "(ar_slots a ! ?k)\<lparr>slot_state := Retired\<rparr>"
  note o = ok [unfolded arena_ok_def] and kind = slot_kind_state(2) [OF retire(4)]
  have k: "?k \<notin> set fs" using o kind by (auto simp: vacants_def)
  then have "free_chain ((ar_slots a)[?k := ?s]) (ar_free_head a) fs" "set fs = vacants (ar_slots a) - {?k}"
    using o by (auto intro: free_chain_update)
  then have "arena_ok a' fs"
    using o k kind retire(2,4) by (simp add: arena_ok_def retire(5) vacants_update counts_update)
  then show ?thesis ..
qed

lemma arena_remove_law:
  assumes inv: "arena_inv a" and rem: "arena_remove a i = Some (v, a')"
  shows "arena_inv a' \<and> arena_get a i = Some v \<and> arena_issued a' = arena_issued a \<and>
    arena_get a' = (arena_get a)(i := None)"
proof -
  have "arena_get a i = Some v \<and> arena_issued a' = arena_issued a \<and> arena_get a' = (arena_get a)(i := None)"
    using rem
  proof (cases rule: arena_remove_cases)
    case (advance g)
    have "arena_get a' j = ((arena_get a)(i := None)) j" for j
      using advance by (cases i; cases j) (auto simp: arena_get_slot slot_value_def nth_list_update)
    moreover have "j \<in> arena_issued a' \<longleftrightarrow> j \<in> arena_issued a" for j
      using advance slot_kind_state(2) [OF advance(4)]
      by (cases j) (auto simp: arena_issued_def nth_list_update Let_def word_less_nat_alt word_unat_eq_iff)
    moreover have "arena_get a i = Some v" using advance by (simp add: arena_get_slot slot_value_def)
    ultimately show ?thesis by auto
  next
    case retire
    have "arena_get a' j = ((arena_get a)(i := None)) j" for j
      using retire by (cases i; cases j) (auto simp: arena_get_slot slot_value_def nth_list_update)
    moreover have "j \<in> arena_issued a' \<longleftrightarrow> j \<in> arena_issued a" for j
      using retire slot_kind_state(2) [OF retire(4)]
      by (cases j) (auto simp: arena_issued_def nth_list_update Let_def)
    moreover have "arena_get a i = Some v" using retire by (simp add: arena_get_slot slot_value_def)
    ultimately show ?thesis by auto
  qed
  then show ?thesis using arena_remove_ok [OF _ rem] inv by (auto simp: arena_inv_def)
qed

interpretation arena_store: generational_store
  arena_inv arena_get arena_issued "\<lambda>a v r. \<exists>alloc. try_insert alloc a v = Some (Inr r)" arena_set arena_remove
proof (unfold_locales, goal_cases)
  case (1 s i v)
  then show ?case by (intro arena_get_issued)
next
  case (2 s v i s')
  then obtain alloc where "try_insert alloc s v = Some (Inr (i, s'))" by (elim exE)
  with 2(1) show ?case by (rule try_insert_law)
next
  case (3 s i v s')
  then show ?case by (rule arena_set_law)
next
  case (4 s i v s')
  then show ?case by (rule arena_remove_law)
next
  case (5 s i v)
  then show ?case by (auto simp: arena_set_def arena_get_def split: option.splits slot_state.splits)
next
  case (6 s i)
  then show ?case by (auto simp: arena_remove_def arena_get_def split: option.splits slot_state.splits)
qed

section \<open>Snapshot restoration\<close>

lemma find_in_free_list_found:
  "free_chain slots cursor (xs @ i # ys) \<Longrightarrow> i \<notin> set xs \<Longrightarrow>
     find_in_free_list slots i previous cursor = Some (Inr (if xs = [] then previous else Some (last xs), Some i))"
proof (induction xs arbitrary: cursor previous)
  case Nil
  then show ?case by (subst find_in_free_list.simps) auto
next
  case (Cons x xs)
  then show ?case by (subst find_in_free_list.simps) (auto simp: get_def)
qed

lemma free_chain_unlink:
  "free_chain slots head (xs @ i # ys) \<Longrightarrow> distinct (xs @ i # ys) \<Longrightarrow> xs \<noteq> [] \<Longrightarrow>
     slot_state (slots ! i) = Vacant nxt \<Longrightarrow>
     free_chain (slots[last xs := (slots ! last xs)\<lparr>slot_state := Vacant nxt\<rparr>]) head (xs @ ys)"
proof (induction xs arbitrary: head)
  case (Cons x xs)
  show ?case
  proof (cases "xs = []")
    case True
    then have "free_chain slots nxt ys" "x \<notin> set ys" using Cons.prems by auto
    then show ?thesis using True Cons.prems by (auto intro: free_chain_update)
  next
    case False
    then have "last xs \<noteq> x" using Cons.prems(2) by auto
    then show ?thesis using False Cons by (auto simp: nth_list_update)
  qed
qed simp

lemma free_chain_vacant: "free_chain slots head fs \<Longrightarrow> i \<in> set fs \<Longrightarrow> i < length slots \<and> is_vacant (slots ! i)"
  by (induction fs arbitrary: head) (auto simp: is_vacant_def)

lemma pad_holes_ok:
  "arena_ok a fs \<Longrightarrow> \<exists>fs'. arena_ok (pad_holes n a) fs'"
proof (induction n arbitrary: a fs)
  case (Suc n)
  let ?s = "\<lparr>slot_generation = 0, slot_state = Vacant (ar_free_head a)\<rparr> :: 'a slot"
  let ?b = "a\<lparr>ar_slots := ar_slots a @ [?s], ar_free_head := Some (length (ar_slots a)), ar_free_len := ar_free_len a + 1\<rparr>"
  note o = Suc.prems [unfolded arena_ok_def]
  have "free_chain (ar_slots a @ [?s]) (ar_free_head a) fs" using o free_chain_append by blast
  moreover have "length (ar_slots a) \<notin> set fs" using o by (auto simp: vacants_def)
  ultimately have "arena_ok ?b (length (ar_slots a) # fs)"
    using o by (simp add: arena_ok_def vacants_append)
  from Suc.IH [OF this] show ?case by simp
qed auto

lemma pad_holes_frame:
  "ar_runtime (pad_holes n a) = ar_runtime a" "length (ar_slots (pad_holes n a)) = length (ar_slots a) + n"
  "arena_get (pad_holes n a) = arena_get a"
proof -
  have "ar_runtime (pad_holes n a) = ar_runtime a \<and> length (ar_slots (pad_holes n a)) = length (ar_slots a) + n \<and>
    arena_get (pad_holes n a) = arena_get a"
  proof (induction n arbitrary: a)
    case (Suc n)
    have "arena_get (a\<lparr>ar_slots := ar_slots a @ [\<lparr>slot_generation = 0, slot_state = Vacant (ar_free_head a)\<rparr>],
        ar_free_head := Some (length (ar_slots a)), ar_free_len := ar_free_len a + 1\<rparr>) j = arena_get a j" for j
      by (auto simp: arena_get_slot slot_value_def nth_append)
    then show ?case using Suc by (auto simp: fun_eq_iff)
  qed simp
  then show "ar_runtime (pad_holes n a) = ar_runtime a" "length (ar_slots (pad_holes n a)) = length (ar_slots a) + n"
    "arena_get (pad_holes n a) = arena_get a" by simp_all
qed


definition at_index :: "nat \<Rightarrow> id \<Rightarrow> bool" where
  "at_index k j \<longleftrightarrow> id_index j = k"

lemma restore_tail:
  assumes ok: "arena_ok a fs" and ge: "length (ar_slots a) \<le> k" and r: "restore_insert alloc a k v = Some (Some (i, a'))"
  shows "arena_inv a' \<and> i = \<lparr>id_runtime = ar_runtime a, id_index = k, id_generation = 0\<rparr> \<and>
    arena_get a' = (\<lambda>j. if j = i then Some v else arena_get a j)"
proof -
  let ?b = "pad_holes (k - length (ar_slots a)) a"
  have i: "i = \<lparr>id_runtime = ar_runtime a, id_index = k, id_generation = 0\<rparr>"
    and a': "a' = ?b\<lparr>ar_slots := ar_slots ?b @ [\<lparr>slot_generation = 0, slot_state = Occupied v\<rparr>],
      ar_live_len := ar_live_len ?b + 1\<rparr>"
    using r ge by (auto simp: restore_insert_def Let_def split: if_splits)
  have len: "length (ar_slots ?b) = k" using ge by (simp add: pad_holes_frame)
  obtain fs' where o: "arena_ok ?b fs'" using pad_holes_ok [OF ok] by blast
  then have "arena_ok a' fs'"
    using free_chain_append [of "ar_slots ?b"] by (auto simp: arena_ok_def a' vacants_append)
  moreover have "arena_get a' j = (if j = i then Some v else arena_get ?b j)" for j
    using len by (cases j) (auto simp: arena_get_slot slot_value_def a' i nth_append pad_holes_frame(1,2))
  ultimately show ?thesis using i by (auto simp: arena_inv_def pad_holes_frame)
qed

lemma restore_hole:
  assumes ok: "arena_ok a fs" and lt: "k < length (ar_slots a)" and vac: "slot_state (ar_slots a ! k) = Vacant nxt"
  shows "\<exists>i a'. restore_insert alloc a k v = Some (Some (i, a')) \<and> arena_inv a' \<and>
    i = \<lparr>id_runtime = ar_runtime a, id_index = k, id_generation = 0\<rparr> \<and>
    arena_get a' = (\<lambda>j. if j = i then Some v else arena_get a j)"
proof -
  note o = ok [unfolded arena_ok_def] and kind = slot_kind_state(1) [OF vac]
  have "k \<in> set fs" using o lt kind by (auto simp: vacants_def)
  then obtain xs ys where fs: "fs = xs @ k # ys" by (meson split_list)
  then have dist: "distinct (xs @ k # ys)" "k \<notin> set xs" "k \<notin> set ys" using o by auto
  have chain: "free_chain (ar_slots a) (ar_free_head a) (xs @ k # ys)" using o fs by simp
  define new where "new = (\<lparr>slot_generation = 0, slot_state = Occupied v\<rparr> :: 'a slot)"
  define i where "i = \<lparr>id_runtime = ar_runtime a, id_index = k, id_generation = 0\<rparr>"
  define b where "b = (if xs = [] then a\<lparr>ar_free_head := nxt\<rparr>
    else a\<lparr>ar_slots := (ar_slots a)[last xs := (ar_slots a ! last xs)\<lparr>slot_state := Vacant nxt\<rparr>]\<rparr>)"
  define a' where "a' = b\<lparr>ar_slots := (ar_slots b)[k := new], ar_free_len := ar_free_len b - 1, ar_live_len := ar_live_len b + 1\<rparr>"
  have lastv: "last xs < length (ar_slots a) \<and> is_vacant (ar_slots a ! last xs) \<and> last xs \<noteq> k" if "xs \<noteq> []"
    using free_chain_vacant [OF chain, of "last xs"] that dist(2) by auto
  have res: "restore_insert alloc a k v = Some (Some (i, a'))"
  proof (cases "xs = []")
    case True
    then show ?thesis
      using lt vac find_in_free_list_found [OF chain dist(2), of None]
      by (simp add: restore_insert_def Let_def i_def a'_def b_def new_def)
  next
    case False
    then obtain m where "slot_state (ar_slots a ! last xs) = Vacant m"
      using lastv by (cases "slot_state (ar_slots a ! last xs)") (auto simp: is_vacant_def)
    then show ?thesis
      using False lt vac find_in_free_list_found [OF chain dist(2), of None]
      by (simp add: restore_insert_def Let_def i_def a'_def b_def new_def)
  qed
  have bchain: "free_chain (ar_slots b) (ar_free_head b) (xs @ ys)"
  proof (cases "xs = []")
    case True
    then show ?thesis using chain vac by (simp add: b_def)
  next
    case False
    then show ?thesis using free_chain_unlink [OF chain dist(1) False vac] by (simp add: b_def)
  qed
  have bslots: "length (ar_slots b) = length (ar_slots a)" "ar_slots b ! k = ar_slots a ! k"
    "vacants (ar_slots b) = vacants (ar_slots a)"
    using lastv by (auto simp: b_def vacants_update vacants_def nth_list_update)
  have bcounts: "count is_occupied (ar_slots b) = count is_occupied (ar_slots a)"
    "count (\<lambda>s. slot_state s = Retired) (ar_slots b) = count (\<lambda>s. slot_state s = Retired) (ar_slots a)"
    using lastv by (auto simp: b_def counts_update is_vacant_def is_occupied_def split: slot_state.splits)
  have "free_chain ((ar_slots b)[k := new]) (ar_free_head b) (xs @ ys)"
    using bchain dist by (intro free_chain_update) auto
  moreover have "set (xs @ ys) = vacants (ar_slots a) - {k}" using o fs dist by auto
  moreover have "ar_free_len b = ar_free_len a" "ar_live_len b = ar_live_len a" "ar_retired_len b = ar_retired_len a"
    by (simp_all add: b_def)
  ultimately have "arena_ok a' (xs @ ys)"
    using o fs dist bslots bcounts kind vac lt
    by (simp add: arena_ok_def a'_def new_def vacants_update counts_update)
  moreover have "arena_get a' j = (if j = i then Some v else arena_get a j)" for j
    using lt kind lastv
    by (cases j) (auto simp: arena_get_slot slot_value_def a'_def b_def i_def new_def is_vacant_def nth_list_update
        split: slot_state.splits)
  ultimately show ?thesis using res i_def by (auto simp: arena_inv_def)
qed

section \<open>Guarantees of the arena\<close>

text \<open>The mutations of a running arena, and with restoration those of its whole life.\<close>

inductive arena_step :: "'v arena \<Rightarrow> 'v arena \<Rightarrow> bool" where
  arena_step_insert: "try_insert alloc a v = Some (Inr (i, b)) \<Longrightarrow> arena_step a b"
| arena_step_set: "arena_set a i v = Some b \<Longrightarrow> arena_step a b"
| arena_step_remove: "arena_remove a i = Some (v, b) \<Longrightarrow> arena_step a b"

lemma arena_step_store: "arena_step a b \<Longrightarrow> arena_store.store_step a b"
  by (cases rule: arena_step.cases) (auto intro: arena_store.store_step.intros)

lemma arena_steps_store: "arena_step\<^sup>*\<^sup>* a b \<Longrightarrow> arena_store.store_step\<^sup>*\<^sup>* a b"
  by (induction rule: rtranclp_induct) (auto dest: arena_step_store)

inductive arena_life :: "'v arena \<Rightarrow> bool" where
  life_new: "arena_life (arena_new runtime)"
| life_step: "arena_life a \<Longrightarrow> arena_step a b \<Longrightarrow> arena_life b"
| life_restore: "arena_life a \<Longrightarrow> restore_insert alloc a k v = Some (Some (i, b)) \<Longrightarrow> arena_life b"

lemma restore_occupied:
  assumes "k < length (ar_slots a)" "\<not> is_vacant (ar_slots a ! k)"
  shows "restore_insert alloc a k v = Some None"
  using assms by (auto simp: restore_insert_def is_vacant_def Let_def split: slot_state.splits)

lemma restore_law:
  assumes inv: "arena_inv a" and r: "restore_insert alloc a k v = Some (Some (i, b))"
  shows "arena_inv b \<and> i = \<lparr>id_runtime = ar_runtime a, id_index = k, id_generation = 0\<rparr> \<and>
    arena_get b = (\<lambda>j. if j = i then Some v else arena_get a j)"
proof -
  obtain fs where ok: "arena_ok a fs" using inv by (auto simp: arena_inv_def)
  consider "length (ar_slots a) \<le> k" | nxt where "k < length (ar_slots a)" "slot_state (ar_slots a ! k) = Vacant nxt"
    | "k < length (ar_slots a)" "\<not> is_vacant (ar_slots a ! k)"
    by (cases "slot_state (ar_slots a ! k)") (fastforce simp: is_vacant_def)+
  then show ?thesis
  proof cases
    case 1
    then show ?thesis by (rule restore_tail [OF ok _ r])
  next
    case 2
    then show ?thesis using restore_hole [OF ok 2, of alloc v] r by auto
  next
    case 3
    then show ?thesis using r restore_occupied by fastforce
  qed
qed

lemma arena_new_inv: "arena_inv (arena_new runtime)"
  unfolding arena_inv_def by (rule exI [of _ "[]"]) (simp add: arena_ok_def arena_new_def vacants_def)

lemma arena_life_inv: "arena_life a \<Longrightarrow> arena_inv a"
  by (induction rule: arena_life.induct)
     (auto simp: arena_new_inv dest: arena_step_store arena_store.step_invar restore_law)

lemma map_filter_append: "List.map_filter f (xs @ ys) = List.map_filter f xs @ List.map_filter f ys"
  by (simp add: List.map_filter_def)

lemma map_filter_snoc:
  "List.map_filter f (xs @ [x]) = List.map_filter f xs @ (case f x of None \<Rightarrow> [] | Some y \<Rightarrow> [y])"
  by (simp add: map_filter_append List.map_filter_def split: option.splits)

lemma iter_entries:
  "length (List.map_filter (slot_entry r) (List.enumerate 0 ss)) = count is_occupied ss \<and>
   sorted_wrt (<) (map (id_index \<circ> fst) (List.map_filter (slot_entry r) (List.enumerate 0 ss))) \<and>
   (\<forall>x \<in> set (List.map_filter (slot_entry r) (List.enumerate 0 ss)). id_index (fst x) < length ss) \<and>
   ((i, v) \<in> set (List.map_filter (slot_entry r) (List.enumerate 0 ss)) \<longleftrightarrow>
      id_runtime i = r \<and> id_index i < length ss \<and> slot_value (ss ! id_index i) (id_generation i) = Some v)"
proof (induction ss rule: rev_induct)
  case Nil
  then show ?case by (simp add: List.map_filter_def)
next
  case (snoc s ss)
  show ?case
  proof (cases "slot_state s")
    case (Occupied w)
    have "(i, v) = (\<lparr>id_runtime = r, id_index = length ss, id_generation = slot_generation s\<rparr>, w) \<longleftrightarrow>
        id_runtime i = r \<and> id_index i = length ss \<and> slot_value s (id_generation i) = Some v"
      using Occupied by (cases i) (auto simp: slot_value_Some)
    then show ?thesis
      using snoc Occupied
      by (auto simp: enumerate_append_eq map_filter_snoc slot_entry_def sorted_wrt_append is_occupied_def nth_append less_Suc_eq)
  qed (use snoc in \<open>auto simp: enumerate_append_eq map_filter_snoc slot_entry_def is_occupied_def nth_append less_Suc_eq slot_value_Some\<close>)
qed

lemma iter_exact:
  "(i, v) \<in> set (arena_iter a) \<longleftrightarrow> arena_get a i = Some v"
  "length (arena_iter a) = count is_occupied (ar_slots a)"
  "sorted_wrt (<) (map (id_index \<circ> fst) (arena_iter a))"
  using iter_entries [of "ar_runtime a" "ar_slots a" i v] by (auto simp: arena_iter_def arena_get_slot)

lemma slot_census:
  "count is_occupied ss + count is_vacant ss + count (\<lambda>s. slot_state s = Retired) ss = length ss"
proof (induction ss)
  case (Cons s ss)
  then show ?case by (cases "slot_state s") (auto simp: is_occupied_def is_vacant_def)
qed simp

lemma count_vacants: "count is_vacant ss = card (vacants ss)"
  by (simp add: count_def vacants_def length_filter_conv_card)


lemma arena_census:
  assumes "arena_inv a"
  shows "ar_live_len a + ar_free_len a + ar_retired_len a = length (ar_slots a)" "ar_live_len a = length (arena_iter a)"
proof -
  obtain fs where ok: "arena_ok a fs" using assms by (auto simp: arena_inv_def)
  then have "ar_free_len a = count is_vacant (ar_slots a)"
    by (metis arena_ok_def count_vacants distinct_card)
  then show "ar_live_len a + ar_free_len a + ar_retired_len a = length (ar_slots a)"
    using ok slot_census [of "ar_slots a"] by (simp add: arena_ok_def)
  show "ar_live_len a = length (arena_iter a)" using ok iter_exact(2) [of a] by (simp add: arena_ok_def)
qed


definition sample_arena :: "nat arena" where
  "sample_arena = snd (projr (the (try_insert (\<lambda>_ _. True) (arena_new 1) 10)))"

definition sample_id :: id where
  "sample_id = \<lparr>id_runtime = 1, id_index = 0, id_generation = 0\<rparr>"

lemma sample_arena_insert: "try_insert (\<lambda>_ _. True) (arena_new 1) (10 :: nat) = Some (Inr (sample_id, sample_arena))"
  by code_simp

lemma sample_arena_life: "arena_life sample_arena"
  by (rule life_step [OF life_new arena_step_insert [OF sample_arena_insert]])


text \<open>
  C27. Stale ids never alias. Once an id is removed, no sequence of insertions, mutations and
  removals makes it valid again, however often its slot is reused: the generation advances with
  every removal, and a slot whose generation is exhausted is retired.
\<close>

theorem stale_ids_stay_dead:
  assumes "arena_inv a" and "arena_remove a i = Some (v, b)" and "arena_step\<^sup>*\<^sup>* b c"
  shows "arena_get c i = None \<and> arena_remove c i = None \<and> arena_set c i w = None"
proof -
  note r = arena_remove_law [OF assms(1,2)]
  have "i \<in> arena_issued b" "arena_get b i = None" using r arena_get_issued [of a i v] by auto
  from arena_store.dead_forever [OF arena_steps_store [OF assms(3)] _ this] r have "arena_get c i = None" by simp
  then show ?thesis using arena_store.remove_None [of c i] arena_store.update_None [of c i w] by simp
qed

theorem stale_ids_stay_dead_witness:
  "arena_get (snd (projr (the (try_insert (\<lambda>_ _. True) (snd (the (arena_remove sample_arena sample_id))) 11)))) sample_id = None"
proof -
  let ?b = "snd (the (arena_remove sample_arena sample_id))"
  let ?c = "snd (projr (the (try_insert (\<lambda>_ _. True) ?b 11)))"
  have "arena_remove sample_arena sample_id = Some (10, ?b)" by code_simp
  moreover have "try_insert (\<lambda>_ _. True) ?b 11 =
      Some (Inr (\<lparr>id_runtime = 1, id_index = 0, id_generation = 1\<rparr>, ?c))" by code_simp
  ultimately show ?thesis
    using stale_ids_stay_dead [OF arena_life_inv [OF sample_arena_life], of sample_id 10 ?b ?c]
    by (blast intro: arena_step_insert)
qed

text \<open>
  C28. The books of an arena always balance, whatever operations, restoration included, it went
  through: live, free and retired slots make up all slots, the live count is the number of entries
  iteration yields, and iteration yields exactly the live ids with their values, in slot order.
\<close>

theorem arena_books_balance:
  assumes "arena_life a"
  shows "ar_live_len a + ar_free_len a + ar_retired_len a = length (ar_slots a) \<and>
    ar_live_len a = length (arena_iter a) \<and> ((i, v) \<in> set (arena_iter a) \<longleftrightarrow> arena_get a i = Some v) \<and>
    sorted_wrt (<) (map (id_index \<circ> fst) (arena_iter a))"
  using arena_census [OF arena_life_inv [OF assms]] iter_exact(1) [of i v a] iter_exact(3) [of a] by simp

theorem arena_books_balance_witness: "ar_live_len sample_arena = length (arena_iter sample_arena)"
  using arena_books_balance [OF sample_arena_life] by blast



text \<open>
  Restoration into a slot that was used before is the one operation that breaks the protection
  of stale ids: it resets the generation of a vacant slot to zero, so an id issued before the
  removal selects the restored record.
\<close>

lemma restore_revives_stale_id:
  "let b = snd (the (arena_remove sample_arena sample_id));
       c = snd (the (the (restore_insert (\<lambda>_ _. True) b 0 7)))
   in arena_get b sample_id = None \<and> arena_get c sample_id = Some 7"
  by code_simp

end
