(* ===== verification/Ordering.thy ===== *)
theory Ordering
  imports Prelude
begin

text \<open>
  \<^verbatim>\<open>std::cmp::Ordering\<close> and the contract of \<^verbatim>\<open>impl Ord\<close>: collections and sorts of the standard
  library rely on a comparison that is a total order consistent with equality.
\<close>

datatype ordering = Less | Equal | Greater

definition reverse_ordering :: "ordering \<Rightarrow> ordering" where
  "reverse_ordering c = (case c of Less \<Rightarrow> Greater | Equal \<Rightarrow> Equal | Greater \<Rightarrow> Less)"

text \<open>\<^verbatim>\<open>Ord::cmp\<close> of the primitive integers, and \<^verbatim>\<open>Ordering::then\<close>, which compares tuples.\<close>

definition cmp :: "'a::linorder \<Rightarrow> 'a \<Rightarrow> ordering" where
  "cmp a b = (if a < b then Less else if a = b then Equal else Greater)"

definition then_cmp :: "ordering \<Rightarrow> ordering \<Rightarrow> ordering" where
  "then_cmp c d = (case c of Equal \<Rightarrow> d | _ \<Rightarrow> c)"

lemma cmp_simps [simp]:
  "cmp a b = Less \<longleftrightarrow> a < b" "cmp a b = Equal \<longleftrightarrow> a = b" "cmp a b = Greater \<longleftrightarrow> b < a"
  by (auto simp: cmp_def)

lemma then_cmp_simps [simp]:
  "then_cmp c d = Less \<longleftrightarrow> c = Less \<or> c = Equal \<and> d = Less"
  "then_cmp c d = Equal \<longleftrightarrow> c = Equal \<and> d = Equal"
  "then_cmp c d = Greater \<longleftrightarrow> c = Greater \<or> c = Equal \<and> d = Greater"
  by (auto simp: then_cmp_def split: ordering.splits)

lemma reverse_ordering_simps [simp]:
  "reverse_ordering c = Less \<longleftrightarrow> c = Greater" "reverse_ordering c = Equal \<longleftrightarrow> c = Equal"
  "reverse_ordering c = Greater \<longleftrightarrow> c = Less"
  by (auto simp: reverse_ordering_def split: ordering.splits)

lemma ordering_eqI: "(c = Less \<longleftrightarrow> d = Less) \<Longrightarrow> (c = Equal \<longleftrightarrow> d = Equal) \<Longrightarrow> c = d"
  by (cases c; cases d) auto

lemma cmp_reverse: "cmp b a = reverse_ordering (cmp a b)"
  by (rule ordering_eqI) auto

section \<open>The contract of a comparison\<close>

locale rust_ord =
  fixes invar :: "'a \<Rightarrow> bool" and compare :: "'a \<Rightarrow> 'a \<Rightarrow> ordering"
  assumes compare_equal: "invar x \<Longrightarrow> invar y \<Longrightarrow> compare x y = Equal \<longleftrightarrow> x = y"
    and compare_reverse: "invar x \<Longrightarrow> invar y \<Longrightarrow> compare y x = reverse_ordering (compare x y)"
    and compare_less_trans: "invar x \<Longrightarrow> invar y \<Longrightarrow> invar z \<Longrightarrow>
      compare x y = Less \<Longrightarrow> compare y z = Less \<Longrightarrow> compare x z = Less"
begin

definition at_most :: "'a \<Rightarrow> 'a \<Rightarrow> bool" where
  "at_most x y \<longleftrightarrow> compare x y \<noteq> Greater"

lemma at_most_refl: "invar x \<Longrightarrow> at_most x x"
  using compare_equal [of x x] by (simp add: at_most_def)

lemma at_most_cases: "invar x \<Longrightarrow> invar y \<Longrightarrow> at_most x y \<longleftrightarrow> compare x y = Less \<or> x = y"
  using compare_equal [of x y] unfolding at_most_def by (metis ordering.exhaust ordering.distinct)

lemma at_most_trans: "invar x \<Longrightarrow> invar y \<Longrightarrow> invar z \<Longrightarrow> at_most x y \<Longrightarrow> at_most y z \<Longrightarrow> at_most x z"
  by (metis at_most_cases compare_less_trans)

lemma at_most_linear: "invar x \<Longrightarrow> invar y \<Longrightarrow> at_most x y \<or> at_most y x"
  using compare_reverse [of x y] by (auto simp: at_most_def)

lemma at_most_antisym: "invar x \<Longrightarrow> invar y \<Longrightarrow> at_most x y \<Longrightarrow> at_most y x \<Longrightarrow> x = y"
  using compare_reverse [of x y] compare_equal [of x y] by (cases "compare x y") (auto simp: at_most_def)

lemma greatest_exists: "xs \<noteq> [] \<Longrightarrow> list_all invar xs \<Longrightarrow> \<exists>m \<in> set xs. \<forall>x \<in> set xs. at_most x m"
proof (induction xs)
  case (Cons y ys)
  show ?case
  proof (cases "ys = []")
    case True
    then show ?thesis using Cons.prems at_most_refl by simp
  next
    case False
    then obtain m where m: "m \<in> set ys" "\<forall>x \<in> set ys. at_most x m" using Cons by auto
    have inv: "invar m" "invar y" "\<forall>x \<in> set ys. invar x" using Cons.prems m(1) by (auto simp: list_all_iff)
    then consider "at_most y m" | "at_most m y" using at_most_linear by blast
    then show ?thesis
    proof cases
      case 2
      then have "\<forall>x \<in> set ys. at_most x y" using at_most_trans m(2) inv by blast
      then show ?thesis using at_most_refl inv by auto
    qed (use m in auto)
  qed
qed simp

end

text \<open>A comparison that compares an injective key in a linear order meets the contract.\<close>

lemma rust_ord_by_key:
  assumes "\<And>x y. invar x \<Longrightarrow> invar y \<Longrightarrow> compare x y = cmp (key x) (key y)"
    and "\<And>x y. invar x \<Longrightarrow> invar y \<Longrightarrow> key x = key y \<longleftrightarrow> x = y"
  shows "rust_ord invar compare"
  by unfold_locales (auto simp: assms intro: cmp_reverse)

end
