(* ===== verification/BigInt.thy ===== *)
theory BigInt
  imports Ordering
begin

text \<open>
  The arbitrary-precision integers of \<^verbatim>\<open>fusor-runtime/src/bigint.rs\<close>: two's-complement values in
  32-bit limbs, least significant first, normalized so that no limb merely repeats the sign. This
  theory holds the representation and every limb operation; \<open>usize\<close> is 64 bits wide, so the
  conversions of 64-bit counts to \<open>usize\<close> always succeed.
\<close>

section \<open>Errors and representation\<close>

text \<open>
  The errors of the source, and \<open>BE_Panic\<close> for an \<^verbatim>\<open>expect\<close> that fails or an index out of range.
\<close>

datatype bigint_error =
    TooLarge
  | ResultTooLarge
  | AllocationFailed
  | NotAnInteger
  | NotFinite
  | InvalidLiteral
  | DivisionByZero
  | NegativeExponent
  | InvalidRadix
  | BE_Panic

definition LIMB_BITS :: nat where
  "LIMB_BITS = 32"

definition MAX_LIMBS :: usize where
  "MAX_LIMBS = (1024 * 1024) div LIMB_BITS"

datatype js_bigint = JsBigInt (limbs: "u32 list")

definition bigint_zero :: js_bigint where
  "bigint_zero = JsBigInt [0]"

definition bigint_is_zero :: "js_bigint \<Rightarrow> bool" where
  "bigint_is_zero b \<longleftrightarrow> length (limbs b) = 1 \<and> limbs b ! 0 = 0"

definition top_limb :: "js_bigint \<Rightarrow> u32" where
  "top_limb b = (if limbs b = [] then 0 else last (limbs b))"

definition is_negative :: "js_bigint \<Rightarrow> bool" where
  "is_negative b \<longleftrightarrow> drop_bit (LIMB_BITS - 1) (top_limb b) = 1"

definition sign_extension :: "js_bigint \<Rightarrow> u32" where
  "sign_extension b = (if is_negative b then - 1 else 0)"

definition limb :: "js_bigint \<Rightarrow> usize \<Rightarrow> u32" where
  "limb b index = (case get (limbs b) index of Some x \<Rightarrow> x | None \<Rightarrow> sign_extension b)"

text \<open>\<^verbatim>\<open>normalize\<close> pops redundant limbs off the end of the vector; the loop sees the reversed list.\<close>

definition redundant_limb :: "u32 \<Rightarrow> u32 \<Rightarrow> bool" where
  "redundant_limb upper nxt \<longleftrightarrow>
     upper = 0 \<and> drop_bit (LIMB_BITS - 1) nxt = 0 \<or> upper = - 1 \<and> drop_bit (LIMB_BITS - 1) nxt = 1"

fun pop_redundant :: "u32 list \<Rightarrow> u32 list" where
  "pop_redundant (upper # nxt # rest) =
     (if redundant_limb upper nxt then pop_redundant (nxt # rest) else upper # nxt # rest)"
| "pop_redundant xs = xs"

definition normalize_limbs :: "u32 list \<Rightarrow> u32 list" where
  "normalize_limbs xs = rev (pop_redundant (rev xs))"

definition from_limbs :: "u32 list \<Rightarrow> (bigint_error, js_bigint) result" where
  "from_limbs xs =
     (let ys = normalize_limbs (if xs = [] then [0] else xs)
      in if length ys > MAX_LIMBS then Inl TooLarge else Inr (JsBigInt ys))"

definition split_u64 :: "u64 \<Rightarrow> u32 \<times> u32" where
  "split_u64 v = (ucast v, ucast (drop_bit LIMB_BITS v))"

definition limb_bit_offset :: "u64 \<Rightarrow> nat" where
  "limb_bit_offset count = unat (count mod 32)"

definition promote_size_error :: "bigint_error \<Rightarrow> bigint_error" where
  "promote_size_error e = (case e of TooLarge \<Rightarrow> ResultTooLarge | other \<Rightarrow> other)"

definition try_reserve_exact :: "allocator \<Rightarrow> usize \<Rightarrow> (bigint_error, unit) result" where
  "try_reserve_exact alloc n = err_if (\<not> alloc 0 n) AllocationFailed"

section \<open>Negation, addition and subtraction\<close>

text \<open>
  The carry loop shared by negation and addition: every round adds the carry to the addends of its
  position, keeps the low limb and carries the high one.
\<close>

primrec carry_limbs :: "u64 \<Rightarrow> u64 list \<Rightarrow> u32 list" where
  "carry_limbs carry [] = []"
| "carry_limbs carry (x # xs) =
     (let total = x + carry in fst (split_u64 total) # carry_limbs (drop_bit LIMB_BITS total) xs)"

definition bigint_neg :: "allocator \<Rightarrow> js_bigint \<Rightarrow> (bigint_error, js_bigint) result" where
  "bigint_neg alloc b =
     and_then (try_reserve_exact alloc (length (limbs b) + 1)) (\<lambda>_.
       from_limbs (carry_limbs 1 (map (\<lambda>index. ucast (NOT (limb b index))) [0..<length (limbs b) + 1])))"

definition bigint_abs :: "allocator \<Rightarrow> js_bigint \<Rightarrow> (bigint_error, js_bigint) result" where
  "bigint_abs alloc b = (if is_negative b then bigint_neg alloc b else Inr b)"

definition add_with_sign :: "allocator \<Rightarrow> js_bigint \<Rightarrow> js_bigint \<Rightarrow> bool \<Rightarrow> (bigint_error, js_bigint) result" where
  "add_with_sign alloc a b subtract =
     (let width = max (length (limbs a)) (length (limbs b)) + 1
      in and_then (try_reserve_exact alloc width) (\<lambda>_.
           from_limbs (carry_limbs (of_bool subtract)
             (map (\<lambda>index. ucast (limb a index) +
                ucast (if subtract then NOT (limb b index) else limb b index)) [0..<width]))))"

definition bigint_add :: "allocator \<Rightarrow> js_bigint \<Rightarrow> js_bigint \<Rightarrow> (bigint_error, js_bigint) result" where
  "bigint_add alloc a b = add_with_sign alloc a b False"

definition bigint_sub :: "allocator \<Rightarrow> js_bigint \<Rightarrow> js_bigint \<Rightarrow> (bigint_error, js_bigint) result" where
  "bigint_sub alloc a b = add_with_sign alloc a b True"

section \<open>Multiplication\<close>

definition magnitude :: "allocator \<Rightarrow> js_bigint \<Rightarrow> (bigint_error, u32 list) result" where
  "magnitude alloc b = and_then (bigint_abs alloc b) (\<lambda>v. Inr (limbs v))"

text \<open>The inner loop over the limbs of the right factor, starting at \<open>position\<close>.\<close>

primrec mul_row :: "u32 \<Rightarrow> u32 list \<Rightarrow> usize \<Rightarrow> u64 \<Rightarrow> u32 list \<Rightarrow> u32 list \<times> u64" where
  "mul_row left_limb [] position carry product = (product, carry)"
| "mul_row left_limb (right_limb # rs) position carry product =
     (let total = ucast (product ! position) + ucast left_limb * ucast right_limb + carry
      in mul_row left_limb rs (position + 1) (drop_bit LIMB_BITS total)
           (product[position := fst (split_u64 total)]))"

text \<open>The loop that pushes the last carry upwards; indexing past the end panics.\<close>

function push_carry :: "u32 list \<Rightarrow> usize \<Rightarrow> u64 \<Rightarrow> (bigint_error, u32 list) result" where
  "push_carry product position carry =
     (if carry = 0 then Inr product
      else if length product \<le> position then Inl BE_Panic
      else let total = ucast (product ! position) + carry
           in push_carry (product[position := fst (split_u64 total)]) (position + 1) (drop_bit LIMB_BITS total))"
  by pat_completeness auto
termination
  by (relation "measure (\<lambda>(product, position, carry). length product - position)") auto

declare push_carry.simps [simp del]

definition mul_step :: "u32 list \<Rightarrow> u32 list \<Rightarrow> nat \<times> u32 \<Rightarrow> (bigint_error, u32 list) result" where
  "mul_step right product entry =
     (case entry of (left_index, left_limb) \<Rightarrow>
        if left_limb = 0 then Inr product
        else (case mul_row left_limb right left_index 0 product of
                (product', carry) \<Rightarrow> push_carry product' (left_index + length right) carry))"

definition multiply_magnitudes :: "u32 list \<Rightarrow> u32 list \<Rightarrow> (bigint_error, u32 list) result" where
  "multiply_magnitudes left right =
     try_fold (mul_step right) (List.enumerate 0 left) (replicate (length left + length right + 1) 0)"

definition bigint_mul :: "allocator \<Rightarrow> js_bigint \<Rightarrow> js_bigint \<Rightarrow> (bigint_error, js_bigint) result" where
  "bigint_mul alloc a b =
     (if bigint_is_zero a \<or> bigint_is_zero b then Inr bigint_zero
      else and_then (magnitude alloc a) (\<lambda>left.
           and_then (magnitude alloc b) (\<lambda>right.
           and_then (multiply_magnitudes left right) (\<lambda>product.
           and_then (from_limbs product) (\<lambda>v.
             if is_negative a \<noteq> is_negative b then bigint_neg alloc v else Inr v)))))"

section \<open>Division\<close>

definition expect_u32 :: "int \<Rightarrow> (bigint_error, u32) result" where
  "expect_u32 x = (if 0 \<le> x \<and> x < 2 ^ 32 then Inr (word_of_int x) else Inl BE_Panic)"

primrec shift_left_one :: "u32 \<Rightarrow> u32 list \<Rightarrow> u32 list" where
  "shift_left_one carry [] = []"
| "shift_left_one carry (x # xs) =
     (push_bit 1 x OR carry) # shift_left_one (drop_bit (LIMB_BITS - 1) x) xs"

definition shift_magnitude_left_one :: "u32 list \<Rightarrow> u32 list" where
  "shift_magnitude_left_one xs = shift_left_one 0 xs"

definition limb_or_zero :: "u32 list \<Rightarrow> nat \<Rightarrow> u32" where
  "limb_or_zero xs index = (case get xs index of Some x \<Rightarrow> x | None \<Rightarrow> 0)"

primrec compare_down :: "(nat \<Rightarrow> u32) \<Rightarrow> (nat \<Rightarrow> u32) \<Rightarrow> nat \<Rightarrow> ordering" where
  "compare_down left right 0 = Equal"
| "compare_down left right (Suc index) =
     (case cmp (left index) (right index) of
        Equal \<Rightarrow> compare_down left right index
      | other \<Rightarrow> other)"

definition compare_magnitudes :: "u32 list \<Rightarrow> u32 list \<Rightarrow> ordering" where
  "compare_magnitudes left right =
     compare_down (limb_or_zero left) (limb_or_zero right) (max (length left) (length right))"

primrec subtract_from :: "u32 list \<Rightarrow> u32 list \<Rightarrow> nat \<Rightarrow> int \<Rightarrow> (bigint_error, u32 list) result" where
  "subtract_from right [] index borrow = Inr []"
| "subtract_from right (x # xs) index borrow =
     (let right_limb = uint (limb_or_zero right index);
          difference = uint x - right_limb - borrow
      in if difference < 0 then
           and_then (expect_u32 (difference + 2 ^ LIMB_BITS)) (\<lambda>y.
           and_then (subtract_from right xs (index + 1) 1) (\<lambda>ys. Inr (y # ys)))
         else
           and_then (expect_u32 difference) (\<lambda>y.
           and_then (subtract_from right xs (index + 1) 0) (\<lambda>ys. Inr (y # ys))))"

definition subtract_magnitude :: "u32 list \<Rightarrow> u32 list \<Rightarrow> (bigint_error, u32 list) result" where
  "subtract_magnitude left right = subtract_from right left 0 0"

text \<open>One round of the long division: shift the next dividend bit in, subtract when possible.\<close>

definition divide_bit ::
  "u32 list \<Rightarrow> u32 list \<Rightarrow> u32 list \<times> u32 list \<Rightarrow> nat \<Rightarrow> (bigint_error, u32 list \<times> u32 list) result" where
  "divide_bit dividend divisor state bit_index =
     (case state of (quot, remainder) \<Rightarrow>
       let at = bit_index div LIMB_BITS;
           offset = bit_index mod LIMB_BITS;
           shifted = shift_magnitude_left_one remainder;
           fed = (if drop_bit offset (dividend ! at) AND 1 = 1 then shifted[0 := shifted ! 0 OR 1] else shifted)
       in if compare_magnitudes fed divisor \<noteq> Less then
            and_then (subtract_magnitude fed divisor) (\<lambda>r.
              Inr (quot[at := quot ! at OR push_bit offset 1], r))
          else Inr (quot, fed))"

definition divide_magnitudes ::
  "allocator \<Rightarrow> u32 list \<Rightarrow> u32 list \<Rightarrow> (bigint_error, u32 list \<times> u32 list) result" where
  "divide_magnitudes alloc dividend divisor =
     and_then (try_reserve_exact alloc (length dividend + 1)) (\<lambda>_.
     and_then (try_reserve_exact alloc (length divisor + length dividend + 1)) (\<lambda>_.
     and_then (try_fold (divide_bit dividend divisor) (rev [0..<length dividend * LIMB_BITS])
                 (replicate (length dividend + 1) 0, replicate (length divisor + length dividend + 1) 0))
       (\<lambda>(quot, remainder). Inr (quot @ [0], remainder @ [0]))))"

definition div_rem ::
  "allocator \<Rightarrow> js_bigint \<Rightarrow> js_bigint \<Rightarrow> (bigint_error, js_bigint \<times> js_bigint) result" where
  "div_rem alloc a b =
     (if bigint_is_zero b then Inl DivisionByZero
      else if bigint_is_zero a then Inr (bigint_zero, bigint_zero)
      else and_then (magnitude alloc a) (\<lambda>dividend.
           and_then (magnitude alloc b) (\<lambda>divisor.
           and_then (divide_magnitudes alloc dividend divisor) (\<lambda>(q, r).
           and_then (from_limbs q) (\<lambda>quot.
           and_then (from_limbs r) (\<lambda>remainder.
           and_then (if is_negative a \<noteq> is_negative b then bigint_neg alloc quot else Inr quot) (\<lambda>quot'.
           and_then (if is_negative a then bigint_neg alloc remainder else Inr remainder) (\<lambda>remainder'.
             Inr (quot', remainder')))))))))"

section \<open>Bitwise operations and shifts\<close>

definition bitwise ::
  "allocator \<Rightarrow> (u32 \<Rightarrow> u32 \<Rightarrow> u32) \<Rightarrow> js_bigint \<Rightarrow> js_bigint \<Rightarrow> (bigint_error, js_bigint) result" where
  "bitwise alloc operation a b =
     (let width = max (length (limbs a)) (length (limbs b))
      in and_then (try_reserve_exact alloc width) (\<lambda>_.
           from_limbs (map (\<lambda>index. operation (limb a index) (limb b index)) [0..<width])))"

definition bigint_bitand :: "allocator \<Rightarrow> js_bigint \<Rightarrow> js_bigint \<Rightarrow> (bigint_error, js_bigint) result" where
  "bigint_bitand alloc a b = bitwise alloc (AND) a b"

definition bigint_bitor :: "allocator \<Rightarrow> js_bigint \<Rightarrow> js_bigint \<Rightarrow> (bigint_error, js_bigint) result" where
  "bigint_bitor alloc a b = bitwise alloc (OR) a b"

definition bigint_bitxor :: "allocator \<Rightarrow> js_bigint \<Rightarrow> js_bigint \<Rightarrow> (bigint_error, js_bigint) result" where
  "bigint_bitxor alloc a b = bitwise alloc (XOR) a b"

definition bigint_not :: "allocator \<Rightarrow> js_bigint \<Rightarrow> (bigint_error, js_bigint) result" where
  "bigint_not alloc b =
     and_then (try_reserve_exact alloc (length (limbs b))) (\<lambda>_. from_limbs (map NOT (limbs b)))"

primrec shl_limbs :: "nat \<Rightarrow> u32 \<Rightarrow> u32 \<Rightarrow> u32 list \<Rightarrow> u32 list" where
  "shl_limbs bit_shift extension carry [] =
     [if bit_shift = 0 then extension else push_bit bit_shift extension OR carry]"
| "shl_limbs bit_shift extension carry (x # xs) =
     (if bit_shift = 0 then x # shl_limbs bit_shift extension carry xs
      else (push_bit bit_shift x OR carry) # shl_limbs bit_shift extension (drop_bit (LIMB_BITS - bit_shift) x) xs)"

definition bigint_shl :: "allocator \<Rightarrow> js_bigint \<Rightarrow> u64 \<Rightarrow> (bigint_error, js_bigint) result" where
  "bigint_shl alloc b count =
     (if bigint_is_zero b then Inr bigint_zero
      else let limb_shift = unat (count div 32);
               bit_shift = limb_bit_offset count
           in if limb_shift > MAX_LIMBS then Inl ResultTooLarge
              else and_then (try_reserve_exact alloc (length (limbs b) + limb_shift + 1)) (\<lambda>_.
                map_err promote_size_error (from_limbs
                  (replicate limb_shift 0 @ shl_limbs bit_shift (sign_extension b) 0 (limbs b)))))"

definition bigint_shr :: "allocator \<Rightarrow> js_bigint \<Rightarrow> u64 \<Rightarrow> (bigint_error, js_bigint) result" where
  "bigint_shr alloc b count =
     (let limb_shift = unat (count div 32)
      in if length (limbs b) \<le> limb_shift then from_limbs [sign_extension b]
         else let bit_shift = limb_bit_offset count;
                  remaining = length (limbs b) - limb_shift
              in and_then (try_reserve_exact alloc remaining) (\<lambda>_.
                   from_limbs (map (\<lambda>index.
                     let current = limb b (limb_shift + index)
                     in if bit_shift = 0 then current
                        else drop_bit bit_shift current OR
                             push_bit (LIMB_BITS - bit_shift) (limb b (limb_shift + index + 1)))
                     [0..<remaining])))"

definition truncate_to_bits :: "allocator \<Rightarrow> js_bigint \<Rightarrow> u64 \<Rightarrow> (bigint_error, js_bigint) result" where
  "truncate_to_bits alloc b bits =
     (let limb_count = (unat bits + 31) div 32
      in if limb_count > MAX_LIMBS then Inl TooLarge
         else and_then (try_reserve_exact alloc (limb_count + 1)) (\<lambda>_.
           let xs = map (limb b) [0..<limb_count];
               used = limb_bit_offset bits;
               ys = (if used \<noteq> 0
                     then xs[length xs - 1 := xs ! (length xs - 1) AND drop_bit (LIMB_BITS - used) (- 1)]
                     else xs)
           in from_limbs (ys @ [0])))"

definition bigint_bit :: "js_bigint \<Rightarrow> u64 \<Rightarrow> bool" where
  "bigint_bit b index \<longleftrightarrow> drop_bit (limb_bit_offset index) (limb b (unat (index div 32))) AND 1 = 1"

definition as_int_n :: "allocator \<Rightarrow> js_bigint \<Rightarrow> u64 \<Rightarrow> (bigint_error, js_bigint) result" where
  "as_int_n alloc b bits =
     (if bits = 0 then Inr bigint_zero
      else and_then (truncate_to_bits alloc b bits) (\<lambda>truncated.
        if bigint_bit truncated (bits - 1) then
          and_then (bigint_shl alloc (JsBigInt [1]) bits) (\<lambda>modulus. bigint_sub alloc truncated modulus)
        else Inr truncated))"

definition as_uint_n :: "allocator \<Rightarrow> js_bigint \<Rightarrow> u64 \<Rightarrow> (bigint_error, js_bigint) result" where
  "as_uint_n alloc b bits = (if bits = 0 then Inr bigint_zero else truncate_to_bits alloc b bits)"

section \<open>Comparison\<close>

definition bigint_compare :: "js_bigint \<Rightarrow> js_bigint \<Rightarrow> ordering" where
  "bigint_compare a b =
     (if is_negative a \<and> \<not> is_negative b then Less
      else if \<not> is_negative a \<and> is_negative b then Greater
      else let n = length (limbs a); m = length (limbs b)
           in case cmp n m of
                Equal \<Rightarrow> compare_down (\<lambda>i. limbs a ! i) (\<lambda>i. limbs b ! i) n
              | c \<Rightarrow> if is_negative a then reverse_ordering c else c)"

section \<open>Machine integers\<close>

definition bigint_from_i32 :: "u32 \<Rightarrow> js_bigint" where
  "bigint_from_i32 v = JsBigInt [v]"

definition bigint_from_i64 :: "u64 \<Rightarrow> js_bigint" where
  "bigint_from_i64 v = JsBigInt (normalize_limbs [fst (split_u64 v), snd (split_u64 v)])"

definition bigint_from_u64 :: "u64 \<Rightarrow> js_bigint" where
  "bigint_from_u64 v = JsBigInt (normalize_limbs [fst (split_u64 v), snd (split_u64 v), 0])"

definition bigint_from_i128 :: "128 word \<Rightarrow> js_bigint" where
  "bigint_from_i128 v =
     JsBigInt (normalize_limbs [ucast v, ucast (drop_bit 32 v), ucast (drop_bit 64 v), ucast (drop_bit 96 v)])"

definition low_u64_twos_complement :: "js_bigint \<Rightarrow> u64" where
  "low_u64_twos_complement b = ucast (limb b 0) OR push_bit LIMB_BITS (ucast (limb b 1))"

definition bigint_to_i64 :: "js_bigint \<Rightarrow> u64 option" where
  "bigint_to_i64 b =
     (if length (limbs b) > 2 then None
      else let v = ucast (limb b 0) OR push_bit LIMB_BITS (ucast (limb b 1))
           in if bigint_from_i64 v = b then Some v else None)"

definition bigint_to_u64 :: "js_bigint \<Rightarrow> u64 option" where
  "bigint_to_u64 b =
     (if is_negative b \<or> length (limbs b) > 3 then None
      else if length (limbs b) = 3 \<and> limb b 2 \<noteq> 0 then None
      else Some (ucast (limb b 0) OR push_bit LIMB_BITS (ucast (limb b 1))))"

definition bigint_to_i128 :: "js_bigint \<Rightarrow> 128 word option" where
  "bigint_to_i128 b =
     (if length (limbs b) > 4 then None
      else let v = ucast (limb b 0) OR push_bit 32 (ucast (limb b 1)) OR
                   push_bit 64 (ucast (limb b 2)) OR push_bit 96 (ucast (limb b 3))
           in if bigint_from_i128 v = b then Some v else None)"

section \<open>Exponentiation\<close>

function pow_loop :: "allocator \<Rightarrow> js_bigint \<Rightarrow> js_bigint \<Rightarrow> u64 \<Rightarrow> (bigint_error, js_bigint) result" where
  "pow_loop alloc result base remaining =
     (if remaining = 0 then Inr result
      else and_then (if remaining AND 1 = 1 then map_err promote_size_error (bigint_mul alloc result base)
                     else Inr result) (\<lambda>result'.
        let remaining' = drop_bit 1 remaining
        in and_then (if 0 < remaining' then map_err promote_size_error (bigint_mul alloc base base)
                     else Inr base) (\<lambda>base'.
             pow_loop alloc result' base' remaining')))"
  by pat_completeness auto
termination
proof (relation "measure (\<lambda>(alloc, result, base, remaining). unat remaining)", goal_cases)
  case (2 alloc result base remaining)
  then have "0 < unat remaining" by (simp add: unat_gt_0)
  then show ?case using 2 by (simp add: drop_bit_eq_div unat_div)
qed simp

declare pow_loop.simps [simp del]

definition bigint_pow :: "allocator \<Rightarrow> js_bigint \<Rightarrow> js_bigint \<Rightarrow> (bigint_error, js_bigint) result" where
  "bigint_pow alloc b exponent =
     (if is_negative exponent then Inl NegativeExponent
      else case bigint_to_u64 exponent of
             None \<Rightarrow> Inl ResultTooLarge
           | Some remaining \<Rightarrow> pow_loop alloc (bigint_from_i32 1) b remaining)"

end
