(* ===== verification/BigInt_Value.thy ===== *)
theory BigInt_Value
  imports BigInt
begin

text \<open>
  The integer a limb vector denotes, read through its bits: bit \<open>n\<close> of the value is bit
  \<open>n mod 32\<close> of limb \<open>n div 32\<close>, with the sign extended upwards.
\<close>

section \<open>Unsigned values\<close>

definition limbs_value :: "u32 list \<Rightarrow> int" where
  "limbs_value xs = horner_sum uint (2 ^ 32) xs"

lemma limbs_value_simps [simp]:
  "limbs_value [] = 0" "limbs_value (x # xs) = uint x + 4294967296 * limbs_value xs"
  by (simp_all add: limbs_value_def)

lemma limbs_value_append [simp]: "limbs_value (xs @ ys) = limbs_value xs + 2 ^ (32 * length xs) * limbs_value ys"
  by (simp add: limbs_value_def horner_sum_append power_mult)

lemma limbs_value_nonneg [simp]: "0 \<le> limbs_value xs"
  by (induction xs) simp_all

lemma limbs_value_replicate [simp]: "limbs_value (replicate n 0) = 0"
  by (induction n) simp_all

lemma bit_uint_add_shift:
  "bit (uint (x :: u32) + 4294967296 * v) n \<longleftrightarrow> (if n < 32 then bit x n else bit v (n - 32))"
proof -
  have "4294967296 * v = push_bit 32 v" by (simp add: push_bit_eq_mult)
  moreover have "take_bit 32 (uint x) = uint x" using uint_lt2p [of x] by (simp add: take_bit_int_eq_self)
  ultimately have "uint x + 4294967296 * v = concat_bit 32 (uint x) v" by (simp add: concat_bit_eq)
  then show ?thesis by (simp add: bit_concat_bit_iff bit_uint_iff)
qed

lemma bit_limbs_value: "bit (limbs_value xs) n \<longleftrightarrow> n < 32 * length xs \<and> bit (xs ! (n div 32)) (n mod 32)"
proof (induction xs arbitrary: n)
  case (Cons x xs)
  show ?case
  proof (cases "n < 32")
    case False
    then have "n div 32 = Suc ((n - 32) div 32)" "n mod 32 = (n - 32) mod 32"
      by (simp_all add: le_div_geq le_mod_geq)
    then show ?thesis using False by (auto simp: bit_uint_add_shift Cons)
  qed (simp add: bit_uint_add_shift)
qed simp

lemma limbs_value_less: "limbs_value xs < 2 ^ (32 * length xs)"
proof -
  have "take_bit (32 * length xs) (limbs_value xs) = limbs_value xs"
    by (rule bit_eqI) (auto simp: bit_simps bit_limbs_value)
  then show ?thesis by (metis take_bit_int_less_exp)
qed

section \<open>Signed values and the invariant\<close>

definition signed_value :: "u32 list \<Rightarrow> int" where
  "signed_value xs = signed_take_bit (32 * length xs - 1) (limbs_value xs)"

definition bigint_value :: "js_bigint \<Rightarrow> int" where
  "bigint_value b = signed_value (limbs b)"

text \<open>Representable values: those that fit the maximal number of limbs with their sign.\<close>

definition fits_limbs :: "nat \<Rightarrow> int \<Rightarrow> bool" where
  "fits_limbs n v \<longleftrightarrow> - (2 ^ (32 * n - 1)) \<le> v \<and> v < 2 ^ (32 * n - 1)"

definition bigint_fits :: "int \<Rightarrow> bool" where
  "bigint_fits v \<longleftrightarrow> fits_limbs MAX_LIMBS v"

definition normalized :: "u32 list \<Rightarrow> bool" where
  "normalized xs \<longleftrightarrow> xs \<noteq> [] \<and> (2 \<le> length xs \<longrightarrow> \<not> redundant_limb (last xs) (xs ! (length xs - 2)))"

definition bigint_ok :: "js_bigint \<Rightarrow> bool" where
  "bigint_ok b \<longleftrightarrow> normalized (limbs b) \<and> length (limbs b) \<le> MAX_LIMBS"

lemma MAX_LIMBS_eq: "MAX_LIMBS = 32768"
  by (simp add: MAX_LIMBS_def LIMB_BITS_def)

lemma drop_bit_31: "drop_bit 31 (x :: u32) = of_bool (bit x 31)"
proof (rule bit_eqI)
  show "bit (drop_bit 31 x) n \<longleftrightarrow> bit (of_bool (bit x 31) :: u32) n" for n
    using bit_imp_le_length [of x "31 + n"] by (cases n) (auto simp: bit_simps)
qed

lemma top_bit_iff: "drop_bit 31 (x :: u32) = 1 \<longleftrightarrow> bit x 31" "drop_bit 31 (x :: u32) = 0 \<longleftrightarrow> \<not> bit x 31"
  by (simp_all add: drop_bit_31)

lemma redundant_limb_iff:
  "redundant_limb upper nxt \<longleftrightarrow> upper = (if bit nxt 31 then - 1 else 0)"
  by (auto simp: redundant_limb_def LIMB_BITS_def top_bit_iff)

lemma is_negative_bit: "xs \<noteq> [] \<Longrightarrow> is_negative (JsBigInt xs) \<longleftrightarrow> bit (last xs) 31"
  by (simp add: is_negative_def top_limb_def LIMB_BITS_def top_bit_iff)

lemma bit_last_limb: "xs \<noteq> [] \<Longrightarrow> bit (limbs_value xs) (32 * length xs - 1) \<longleftrightarrow> bit (last xs) 31"
proof -
  assume "xs \<noteq> []"
  then have "(32 * length xs - 1) div 32 = length xs - 1" "(32 * length xs - 1) mod 32 = 31"
    by (cases xs; simp; presburger)+
  with \<open>xs \<noteq> []\<close> show ?thesis by (auto simp: bit_limbs_value last_conv_nth)
qed

lemma bit_signed_value:
  "xs \<noteq> [] \<Longrightarrow> bit (signed_value xs) n \<longleftrightarrow>
     (if n < 32 * length xs then bit (xs ! (n div 32)) (n mod 32) else bit (last xs) 31)"
proof -
  assume "xs \<noteq> []"
  then have "n < 32 * length xs \<Longrightarrow> min n (32 * length xs - 1) = n"
    "\<not> n < 32 * length xs \<Longrightarrow> min n (32 * length xs - 1) = 32 * length xs - 1" by auto
  then show ?thesis using bit_last_limb [OF \<open>xs \<noteq> []\<close>]
    by (cases "n < 32 * length xs")
      (simp_all add: signed_value_def bit_signed_take_bit_iff bit_limbs_value)
qed

lemma bit_limb:
  "limbs b \<noteq> [] \<Longrightarrow> j < 32 \<Longrightarrow> bit (limb b i) j \<longleftrightarrow>
     (if i < length (limbs b) then bit (limbs b ! i) j else bit (last (limbs b)) 31)"
  by (cases b) (auto simp: limb_def sign_extension_def is_negative_bit get_def)

lemma bit_bigint_value: "limbs b \<noteq> [] \<Longrightarrow> bit (bigint_value b) n \<longleftrightarrow> bit (limb b (n div 32)) (n mod 32)"
  by (auto simp: bigint_value_def bit_signed_value bit_limb less_mult_imp_div_less div_less_iff_less_mult)

section \<open>Normalization\<close>

lemma signed_value_pop:
  assumes "ys \<noteq> []" "redundant_limb upper (last ys)"
  shows "signed_value (ys @ [upper]) = signed_value ys"
proof (rule bit_eqI)
  fix n
  have up: "upper = (if bit (last ys) 31 then - 1 else 0)" using assms(2) by (simp add: redundant_limb_iff)
  have "bit (signed_value (ys @ [upper])) n = (if n < 32 * length ys then bit (ys ! (n div 32)) (n mod 32) else bit (last ys) 31)"
  proof (cases "n < 32 * length ys")
    case True
    then have "n div 32 < length ys" by (simp add: div_less_iff_less_mult)
    with True show ?thesis by (simp add: bit_signed_value nth_append)
  next
    case False
    then show ?thesis using up by (auto simp: bit_signed_value nth_append div_less_iff_less_mult)
  qed
  then show "bit (signed_value (ys @ [upper])) n \<longleftrightarrow> bit (signed_value ys) n"
    using assms(1) by (simp add: bit_signed_value)
qed

lemma pop_redundant_spec:
  "xs \<noteq> [] \<Longrightarrow> pop_redundant xs \<noteq> [] \<and> signed_value (rev (pop_redundant xs)) = signed_value (rev xs) \<and>
     (case pop_redundant xs of upper # nxt # rest \<Rightarrow> \<not> redundant_limb upper nxt | _ \<Rightarrow> True)"
proof (induction xs rule: pop_redundant.induct)
  case (1 upper nxt rest)
  then show ?case using signed_value_pop [of "rev rest @ [nxt]" upper] by simp
qed simp_all

lemma normalize_limbs_spec:
  assumes "xs \<noteq> []"
  shows "normalized (normalize_limbs xs)" "signed_value (normalize_limbs xs) = signed_value xs"
proof -
  note p = pop_redundant_spec [of "rev xs"]
  show "normalized (normalize_limbs xs)"
  proof (cases "pop_redundant (rev xs)")
    case (Cons upper rest)
    then show ?thesis using p assms
      by (cases rest) (auto simp: normalize_limbs_def normalized_def nth_append)
  qed (use p assms in simp)
  show "signed_value (normalize_limbs xs) = signed_value xs" using p assms by (simp add: normalize_limbs_def)
qed

lemma signed_value_fits: "xs \<noteq> [] \<Longrightarrow> fits_limbs (length xs) (signed_value xs)"
  by (simp add: fits_limbs_def signed_value_def)

lemma fits_limbs_iff: "0 < n \<Longrightarrow> fits_limbs n v \<longleftrightarrow> signed_take_bit (32 * n - 1) v = v"
  by (simp add: fits_limbs_def signed_take_bit_int_eq_self_iff)

lemma fits_limbs_mono:
  assumes "m \<le> n" "fits_limbs m v"
  shows "fits_limbs n v"
proof -
  have "(2 :: int) ^ (32 * m - 1) \<le> 2 ^ (32 * n - 1)" using assms(1) by (intro power_increasing) auto
  then show ?thesis using assms(2) unfolding fits_limbs_def by linarith
qed

lemma normalized_not_fits:
  assumes "normalized xs" "2 \<le> length xs"
  shows "\<not> fits_limbs (length xs - 1) (signed_value xs)"
proof
  assume fits: "fits_limbs (length xs - 1) (signed_value xs)"
  obtain k where k: "length xs = Suc (Suc k)" using assms(2) by (metis add_2_eq_Suc le_Suc_ex)
  have "32 * Suc k - 1 = 32 * k + 31" by simp
  with fits k have eq: "signed_take_bit (32 * k + 31) (signed_value xs) = signed_value xs"
    by (metis diff_Suc_1 fits_limbs_iff zero_less_Suc)
  have ne: "xs \<noteq> []" using k by auto
  have "bit (last xs) j \<longleftrightarrow> bit (xs ! (length xs - 2)) 31" if "j < 32" for j
  proof -
    have "bit (signed_value xs) (32 * Suc k + j) \<longleftrightarrow> bit (signed_value xs) (32 * k + 31)"
      by (subst (1) eq [symmetric]) (simp add: bit_signed_take_bit_iff min_def)
    moreover have "(32 * Suc k + j) div 32 = Suc k" "(32 * Suc k + j) mod 32 = j"
      using that by (simp_all only: div_mult_self4 mod_mult_self4 zero_neq_numeral) simp_all
    moreover have "(32 * k + 31) div 32 = k" "(32 * k + 31) mod 32 = 31" by simp_all
    ultimately show ?thesis using ne that k by (simp add: bit_signed_value last_conv_nth)
  qed
  then have "last xs = (if bit (xs ! (length xs - 2)) 31 then - 1 else 0)"
    by (auto intro!: bit_word_eqI)
  then show False using assms by (simp add: normalized_def redundant_limb_iff)
qed

lemma normalized_length_iff:
  assumes "normalized xs" "0 < m"
  shows "length xs \<le> m \<longleftrightarrow> fits_limbs m (signed_value xs)"
proof
  have ne: "xs \<noteq> []" using assms by (auto simp: normalized_def)
  show "length xs \<le> m \<Longrightarrow> fits_limbs m (signed_value xs)" using fits_limbs_mono [OF _ signed_value_fits [OF ne]] by simp
  show "fits_limbs m (signed_value xs) \<Longrightarrow> length xs \<le> m"
    using normalized_not_fits [OF assms(1)] fits_limbs_mono [of m "length xs - 1" "signed_value xs"] assms(2)
    by (cases "2 \<le> length xs"; cases "m \<le> length xs - 1") auto
qed

lemma normalized_unique:
  assumes "normalized xs" "normalized ys" "signed_value xs = signed_value ys"
  shows "xs = ys"
proof -
  have ne: "xs \<noteq> []" "ys \<noteq> []" using assms by (auto simp: normalized_def)
  have "length xs \<le> length ys" "length ys \<le> length xs"
    using assms ne by (simp_all add: normalized_length_iff signed_value_fits flip: assms(3))
      (simp add: assms(3) signed_value_fits)
  then have len: "length xs = length ys" by simp
  show ?thesis
  proof (rule nth_equalityI [OF len])
    fix i assume i: "i < length xs"
    show "xs ! i = ys ! i"
    proof (rule bit_word_eqI)
      fix j assume j: "j < LENGTH(32)"
      have "bit (signed_value xs) (32 * i + j) \<longleftrightarrow> bit (signed_value ys) (32 * i + j)" by (simp add: assms(3))
      then show "bit (xs ! i) j \<longleftrightarrow> bit (ys ! i) j"
        using i j len ne by (simp add: bit_signed_value)
    qed
  qed
qed

section \<open>Outcomes of operations\<close>

text \<open>
  What an operation with mathematical result \<open>v\<close> returns: a normalized value that denotes \<open>v\<close> when
  \<open>need\<close> holds, the error \<open>too_large\<close> exactly when it does not, or an allocation failure, which
  requires an allocator that refuses some request.
\<close>

definition bigint_outcome ::
  "allocator \<Rightarrow> bigint_error \<Rightarrow> bool \<Rightarrow> int \<Rightarrow> (bigint_error, js_bigint) result \<Rightarrow> bool" where
  "bigint_outcome alloc too_large need v r \<longleftrightarrow>
     (case r of
        Inr c \<Rightarrow> need \<and> bigint_ok c \<and> bigint_value c = v
      | Inl e \<Rightarrow> e = too_large \<and> \<not> need \<or> e = AllocationFailed \<and> (\<exists>n. \<not> alloc 0 n))"

lemma bigint_fits_iff_normalized:
  "normalized xs \<Longrightarrow> length xs \<le> MAX_LIMBS \<longleftrightarrow> bigint_fits (signed_value xs)"
  by (simp add: bigint_fits_def normalized_length_iff MAX_LIMBS_eq)

lemma bigint_ok_nonempty: "bigint_ok b \<Longrightarrow> limbs b \<noteq> []"
  by (auto simp: bigint_ok_def normalized_def)

lemma bigint_ok_fits: "bigint_ok b \<Longrightarrow> bigint_fits (bigint_value b)"
  by (simp add: bigint_ok_def bigint_value_def flip: bigint_fits_iff_normalized)

lemma bigint_value_inject: "bigint_ok a \<Longrightarrow> bigint_ok b \<Longrightarrow> bigint_value a = bigint_value b \<longleftrightarrow> a = b"
  by (auto simp: bigint_ok_def bigint_value_def normalized_unique js_bigint.expand)

lemma from_limbs_outcome:
  "xs \<noteq> [] \<Longrightarrow> bigint_outcome alloc TooLarge (bigint_fits (signed_value xs)) (signed_value xs) (from_limbs xs)"
  using normalize_limbs_spec [of xs] bigint_fits_iff_normalized [of "normalize_limbs xs"]
  by (auto simp: bigint_outcome_def from_limbs_def Let_def bigint_ok_def bigint_value_def)

lemma try_reserve_outcome:
  assumes "\<And>u. bigint_outcome alloc e need v (f u)"
  shows "bigint_outcome alloc e need v (and_then (try_reserve_exact alloc n) f)"
  using assms by (auto simp: try_reserve_exact_def bigint_outcome_def err_if_def)

lemma bigint_negative_iff: "bigint_ok b \<Longrightarrow> is_negative b \<longleftrightarrow> bigint_value b < 0"
  using bit_last_limb [of "limbs b"]
  by (cases b) (simp add: bigint_value_def signed_value_def is_negative_bit bigint_ok_def normalized_def)

lemma bigint_zero_ok: "bigint_ok bigint_zero" "bigint_value bigint_zero = 0"
  by (simp_all add: bigint_ok_def bigint_zero_def normalized_def MAX_LIMBS_eq bigint_value_def signed_value_def)

lemma bigint_is_zero_iff: "bigint_ok b \<Longrightarrow> bigint_is_zero b \<longleftrightarrow> bigint_value b = 0"
proof -
  assume ok: "bigint_ok b"
  have "bigint_is_zero b \<longleftrightarrow> b = bigint_zero"
    by (cases b) (auto simp: bigint_is_zero_def bigint_zero_def length_Suc_conv)
  then show ?thesis using bigint_value_inject [OF ok bigint_zero_ok(1)] by (simp add: bigint_zero_ok)
qed

end
