(* ===== verification/BigInt_Ring.thy ===== *)
theory BigInt_Ring
  imports BigInt_Value
begin

text \<open>Negation, addition, subtraction and multiplication compute the integer operations.\<close>

section \<open>Splitting and carrying\<close>

lemma uint_ucast_u64 [simp]: "uint (ucast (x :: u32) :: u64) = uint x"
  by (simp add: unsigned_ucast_eq take_bit_int_eq_self uint_lt2p [of x, THEN less_trans])

lemma uint_u32_less: "uint (x :: u32) < 4294967296"
  using uint_lt2p [of x] by simp

lemma split_low: "uint (fst (split_u64 v)) = uint v mod 4294967296"
  by (simp add: split_u64_def unsigned_ucast_eq take_bit_eq_mod)

lemma uint_high: "uint (drop_bit LIMB_BITS (v :: u64)) = uint v div 4294967296"
  by (simp add: LIMB_BITS_def drop_bit_eq_div uint_div)

lemma uint_add_u64: "uint (x :: u64) + uint y < 2 ^ 64 \<Longrightarrow> uint (x + y) = uint x + uint y"
  using uint_add_lem [of x y] by simp

lemma carry_step: "(s :: int) mod B + B * ((s div B + h) mod n) = (s + B * h) mod (B * n)" if "0 < B" "0 < n"
proof -
  have "(s + B * h) mod (B * n) = B * ((s + B * h) div B mod n) + (s + B * h) mod B"
    using that by (intro zmod_zmult2_eq) simp
  then show ?thesis using that by (simp add: add.commute)
qed

lemma carry_limbs_value:
  "list_all (\<lambda>x. uint x \<le> 2 ^ 33) xs \<Longrightarrow> uint c \<le> 2 ^ 32 \<Longrightarrow>
     limbs_value (carry_limbs c xs) = (uint c + horner_sum uint (2 ^ 32) xs) mod 2 ^ (32 * length xs)"
proof (induction xs arbitrary: c)
  case (Cons x xs)
  let ?t = "x + c"
  have t: "uint ?t = uint x + uint c" using Cons.prems by (intro uint_add_u64) simp
  have "uint ?t div 4294967296 \<le> 3"
    using Cons.prems t zdiv_mono1 [of "uint ?t" "3 * 4294967296" 4294967296] by simp
  then have "uint ?t div 4294967296 \<le> 2 ^ 32" by simp
  then have "limbs_value (carry_limbs (drop_bit LIMB_BITS ?t) xs) =
      (uint ?t div 4294967296 + horner_sum uint (2 ^ 32) xs) mod 2 ^ (32 * length xs)"
    using Cons by (simp add: uint_high)
  then have "limbs_value (carry_limbs c (x # xs)) = uint ?t mod 4294967296 +
      4294967296 * ((uint ?t div 4294967296 + horner_sum uint (2 ^ 32) xs) mod 2 ^ (32 * length xs))"
    by (simp add: Let_def split_low)
  also have "\<dots> = (uint ?t + 4294967296 * horner_sum uint (2 ^ 32) xs) mod (4294967296 * 2 ^ (32 * length xs))"
    by (rule carry_step) simp_all
  also have "uint ?t + 4294967296 * horner_sum uint (2 ^ 32) xs = uint c + horner_sum uint (2 ^ 32) (x # xs)"
    by (simp add: t)
  finally show ?case by (simp add: power_add)
qed simp

lemma length_carry_limbs [simp]: "length (carry_limbs c xs) = length xs"
  by (induction xs arbitrary: c) (simp_all add: Let_def)

lemma extended_value:
  "limbs b \<noteq> [] \<Longrightarrow> limbs_value (map (limb b) [0..<w]) = take_bit (32 * w) (bigint_value b)"
  by (rule bit_eqI) (auto simp: bit_limbs_value bit_take_bit_iff bit_bigint_value div_less_iff_less_mult)

lemma extended_not:
  "limbs b \<noteq> [] \<Longrightarrow> limbs_value (map (\<lambda>i. NOT (limb b i)) [0..<w]) = take_bit (32 * w) (NOT (bigint_value b))"
  by (rule bit_eqI)
    (auto simp: bit_limbs_value bit_take_bit_iff bit_bigint_value bit_not_iff bit_not_int_iff div_less_iff_less_mult)

lemma signed_value_eqI:
  "xs \<noteq> [] \<Longrightarrow> limbs_value xs = take_bit (32 * length xs) v \<Longrightarrow> fits_limbs (length xs) v \<Longrightarrow> signed_value xs = v"
  by (cases xs) (simp_all add: signed_value_def signed_take_bit_take_bit fits_limbs_iff)

lemma horner_ucast: "horner_sum uint 4294967296 (map (\<lambda>i. ucast (f i :: u32) :: u64) is) = limbs_value (map f is)"
  by (induction "is") simp_all

lemma horner_ucast_add:
  "horner_sum uint 4294967296 (map (\<lambda>i. (ucast (f i :: u32) :: u64) + ucast (g i)) is) =
     limbs_value (map f is) + limbs_value (map g is)"
proof (induction "is")
  case (Cons i js)
  have "uint ((ucast (f i) :: u64) + ucast (g i)) = uint (f i) + uint (g i)"
    using uint_u32_less [of "f i"] uint_u32_less [of "g i"] by (subst uint_add_u64) simp_all
  then show ?case using Cons by simp
qed simp

lemma uint_sum_le: "uint ((ucast (x :: u32) :: u64) + ucast (y :: u32)) \<le> 2 ^ 33"
  using uint_u32_less [of x] uint_u32_less [of y] by (subst uint_add_u64) simp_all

lemma carry_one:
  "uint c \<le> 1 \<Longrightarrow> limbs_value (carry_limbs c (map (\<lambda>i. ucast (f i)) is)) =
     (uint c + limbs_value (map f is)) mod 2 ^ (32 * length is)"
  using uint_u32_less [THEN less_imp_le]
  by (subst carry_limbs_value) (auto simp: horner_ucast list_all_iff intro: order.trans [where b = 4294967296])

lemma carry_two:
  "uint c \<le> 1 \<Longrightarrow> limbs_value (carry_limbs c (map (\<lambda>i. ucast (f i) + ucast (g i)) is)) =
     (uint c + (limbs_value (map f is) + limbs_value (map g is))) mod 2 ^ (32 * length is)"
  using uint_sum_le
  by (subst carry_limbs_value) (auto simp: horner_ucast_add list_all_iff)

section \<open>Negation, addition and subtraction\<close>

lemma fits_limbs_double:
  assumes "\<bar>v\<bar> \<le> 2 * 2 ^ (32 * n - 1)" "0 < n"
  shows "fits_limbs (n + 1) v"
proof -
  have "32 * (n + 1) - 1 = Suc (32 * n - 1) + 31" using assms(2) by simp
  then have "(2 :: int) ^ (32 * (n + 1) - 1) = 2 * 2 ^ (32 * n - 1) * 2147483648" by (simp only: power_add power_Suc) simp
  moreover have "(0 :: int) < 2 * 2 ^ (32 * n - 1)" by simp
  ultimately show ?thesis using assms(1) unfolding fits_limbs_def by linarith
qed

lemma fits_limbs_bound: "fits_limbs n v \<Longrightarrow> \<bar>v\<bar> \<le> 2 ^ (32 * n - 1)"
  by (auto simp: fits_limbs_def)

lemma bigint_value_fits: "limbs b \<noteq> [] \<Longrightarrow> fits_limbs (length (limbs b)) (bigint_value b)"
  by (simp add: bigint_value_def signed_value_fits)

lemma neg_outcome:
  assumes "bigint_ok b"
  shows "bigint_outcome alloc TooLarge (bigint_fits (- bigint_value b)) (- bigint_value b) (bigint_neg alloc b)"
proof -
  let ?n = "length (limbs b)"
  let ?xs = "carry_limbs 1 (map (\<lambda>i. ucast (NOT (limb b i))) [0..<?n + 1])"
  have ne: "limbs b \<noteq> []" using assms by (rule bigint_ok_nonempty)
  have len: "length ?xs = ?n + 1" "?xs \<noteq> []" by (simp_all flip: length_0_conv)
  have "limbs_value ?xs = (1 + limbs_value (map (\<lambda>i. NOT (limb b i)) [0..<?n + 1])) mod 2 ^ (32 * (?n + 1))"
    by (subst carry_one) simp_all
  also have "\<dots> = take_bit (32 * (?n + 1)) (1 + NOT (bigint_value b))"
    by (simp only: extended_not [OF ne] take_bit_eq_mod mod_add_right_eq)
  also have "1 + NOT (bigint_value b) = - bigint_value b" by (simp add: not_int_def)
  finally have v: "limbs_value ?xs = take_bit (32 * length ?xs) (- bigint_value b)" by (simp only: len)
  have "fits_limbs (?n + 1) (- bigint_value b)"
    using fits_limbs_bound [OF bigint_value_fits [OF ne]] ne by (intro fits_limbs_double) simp_all
  then have "signed_value ?xs = - bigint_value b" using len v by (intro signed_value_eqI) simp_all
  then show ?thesis
    using from_limbs_outcome [OF len(2), of alloc] unfolding bigint_neg_def by (intro try_reserve_outcome) simp
qed

lemma fits_limbs_sum:
  assumes "fits_limbs n a" "fits_limbs m b" "0 < n" "0 < m"
  shows "fits_limbs (max n m + 1) (a + b)" "fits_limbs (max n m + 1) (a - b)"
  using fits_limbs_bound [OF fits_limbs_mono [OF _ assms(1), of "max n m"]]
    fits_limbs_bound [OF fits_limbs_mono [OF _ assms(2), of "max n m"]] assms(3,4)
  by - (rule fits_limbs_double; simp)+

lemma mod_carry_sum: "(c + (a mod n + b mod n)) mod n = (c + (a + b)) mod (n :: int)"
  by (metis mod_add_eq mod_add_right_eq)

lemma add_with_sign_outcome:
  fixes subtract :: bool
  assumes "bigint_ok a" "bigint_ok b"
  defines "v \<equiv> (if subtract then bigint_value a - bigint_value b else bigint_value a + bigint_value b)"
  shows "bigint_outcome alloc TooLarge (bigint_fits v) v (add_with_sign alloc a b subtract)"
proof -
  let ?w = "max (length (limbs a)) (length (limbs b)) + 1"
  let ?y = "if subtract then NOT (bigint_value b) else bigint_value b"
  let ?xs = "carry_limbs (of_bool subtract) (map (\<lambda>i. ucast (limb a i) +
    ucast (if subtract then NOT (limb b i) else limb b i)) [0..<?w])"
  have ne: "limbs a \<noteq> []" "limbs b \<noteq> []" using assms bigint_ok_nonempty by blast+
  have len: "length ?xs = ?w" "?xs \<noteq> []" by (simp_all flip: length_0_conv)
  have right: "limbs_value (map (\<lambda>i. if subtract then NOT (limb b i) else limb b i) [0..<?w]) = take_bit (32 * ?w) ?y"
    by (cases subtract) (simp_all only: if_True if_False extended_value [OF ne(2)] extended_not [OF ne(2)])
  have "limbs_value ?xs = (uint (of_bool subtract :: u64) + (take_bit (32 * ?w) (bigint_value a) + take_bit (32 * ?w) ?y)) mod 2 ^ (32 * ?w)"
    by (subst carry_two) (simp_all only: right extended_value [OF ne(1)] length_upt, simp_all)
  also have "\<dots> = take_bit (32 * ?w) (uint (of_bool subtract :: u64) + (bigint_value a + ?y))"
    by (simp only: take_bit_eq_mod mod_carry_sum)
  also have "uint (of_bool subtract :: u64) + (bigint_value a + ?y) = v"
    by (simp add: v_def not_int_def)
  finally have "limbs_value ?xs = take_bit (32 * length ?xs) v" by (simp only: len)
  moreover have "fits_limbs ?w v"
    using fits_limbs_sum [OF bigint_value_fits [OF ne(1)] bigint_value_fits [OF ne(2)]] ne by (simp add: v_def)
  ultimately have "signed_value ?xs = v" using len by (intro signed_value_eqI) simp_all
  then show ?thesis
    using from_limbs_outcome [OF len(2), of alloc] unfolding add_with_sign_def Let_def by (intro try_reserve_outcome) simp
qed

lemma abs_outcome:
  assumes "bigint_ok b"
  shows "bigint_outcome alloc TooLarge (bigint_fits \<bar>bigint_value b\<bar>) \<bar>bigint_value b\<bar> (bigint_abs alloc b)"
proof (cases "is_negative b")
  case True
  then have "\<bar>bigint_value b\<bar> = - bigint_value b" using bigint_negative_iff [OF assms] by simp
  then show ?thesis using neg_outcome [OF assms, of alloc] True by (simp add: bigint_abs_def)
next
  case False
  then show ?thesis using assms bigint_negative_iff [OF assms] bigint_ok_fits [OF assms]
    by (simp add: bigint_abs_def bigint_outcome_def)
qed

end
