(* ===== verification/BigInt_Mul.thy ===== *)
theory BigInt_Mul
  imports BigInt_Ring
begin

text \<open>The schoolbook product of limb vectors.\<close>

lemma limbs_value_update:
  "i < length xs \<Longrightarrow> limbs_value (xs[i := y]) = limbs_value xs + 2 ^ (32 * i) * (uint y - uint (xs ! i))"
proof (induction xs arbitrary: i)
  case (Cons x xs)
  show ?case
  proof (cases i)
    case (Suc k)
    then have "limbs_value (xs[k := y]) = limbs_value xs + 2 ^ (32 * k) * (uint y - uint (xs ! k))" using Cons by simp
    then show ?thesis using Suc by (simp add: power_add distrib_left)
  qed simp
qed simp

lemma row_algebra:
  "q = p + s * (f - x) \<Longrightarrow> f + B * h = t \<Longrightarrow> t = x + l * r + c \<Longrightarrow>
     q + s * B * (h + l * v) = p + s * (c + l * (r + B * v))" for s :: int
proof -
  assume q: "q = p + s * (f - x)" and f: "f + B * h = t" and t: "t = x + l * r + c"
  have f': "f = x + l * r + c - B * h" using f t by simp
  show ?thesis unfolding q f' by (simp add: algebra_simps)
qed

lemma unsigned_signed_value:
  assumes "xs \<noteq> []" "limbs_value xs < 2 ^ (32 * length xs - 1)"
  shows "signed_value xs = limbs_value xs"
  using assms order.trans [OF _ limbs_value_nonneg [of xs], of "- (2 ^ (32 * length xs - 1))"]
  by (simp add: signed_value_def signed_take_bit_int_eq_self)

lemma nonneg_limbs_value:
  assumes "limbs b \<noteq> []" "0 \<le> bigint_value b"
  shows "limbs_value (limbs b) = bigint_value b"
proof -
  have "\<not> bit (limbs_value (limbs b)) (32 * length (limbs b) - 1)"
    using assms(2) by (simp add: bigint_value_def signed_value_def)
  moreover have "take_bit (32 * length (limbs b)) (limbs_value (limbs b)) = limbs_value (limbs b)"
    by (simp add: take_bit_int_eq_self limbs_value_less)
  ultimately show ?thesis using assms(1) unfolding bigint_value_def signed_value_def
    by (intro bit_eqI) (auto simp: bit_signed_take_bit_iff bit_limbs_value min_def not_le Suc_le_eq le_Suc_eq le_less)
qed

section \<open>One row\<close>

lemma mul_total:
  "uint (ucast (p :: u32) + ucast (l :: u32) * ucast (r :: u32) + c :: u64) = uint p + uint l * uint r + uint c"
  if "uint c < 4294967296"
proof -
  have "uint l * uint r \<le> 4294967295 * 4294967295"
    using uint_u32_less [of l] uint_u32_less [of r] by (intro mult_mono) simp_all
  then have "uint l * uint r < 2 ^ 64" "uint p + uint l * uint r + uint c < 2 ^ 64"
    "uint p + uint l * uint r < 2 ^ 64"
    using that uint_u32_less [of p] by simp_all
  moreover have "uint (ucast l * ucast r :: u64) = uint l * uint r"
    using uint_mult_lem [of "ucast l :: u64" "ucast r"] calculation by simp
  ultimately show ?thesis by (simp add: uint_add_u64)
qed

lemma mul_total_high:
  assumes "uint c < 4294967296"
  shows "(uint (p :: u32) + uint (l :: u32) * uint (r :: u32) + uint (c :: u64)) div 4294967296 < 4294967296"
proof -
  have "uint l * uint r \<le> 4294967295 * 4294967295"
    using uint_u32_less [of l] uint_u32_less [of r] by (intro mult_mono) simp_all
  then show ?thesis using assms uint_u32_less [of p] by (simp add: div_less_iff_less_mult)
qed

lemma split_recombine: "uint (fst (split_u64 t)) + 4294967296 * uint (drop_bit LIMB_BITS t) = uint t"
  by (simp add: split_low uint_high)

lemma mul_row_value:
  assumes "position + length rs \<le> length p" "uint c < 4294967296" "mul_row l rs position c p = (p', c')"
  shows "length p' = length p \<and> uint c' < 4294967296 \<and>
    limbs_value p' + 2 ^ (32 * (position + length rs)) * uint c' =
      limbs_value p + 2 ^ (32 * position) * (uint c + uint l * limbs_value rs)"
  using assms
proof (induction rs arbitrary: position c p)
  case (Cons r rs)
  let ?t = "ucast (p ! position) + ucast l * ucast r + c :: u64"
  let ?q = "p[position := fst (split_u64 ?t)]" and ?h = "drop_bit LIMB_BITS ?t"
  have t: "uint ?t = uint (p ! position) + uint l * uint r + uint c" using mul_total Cons.prems(2) by blast
  have h: "uint ?h < 4294967296" using mul_total_high [OF Cons.prems(2)] by (simp add: uint_high t)
  have "mul_row l rs (position + 1) ?h ?q = (p', c')" using Cons.prems(3) by (simp add: Let_def)
  from Cons.IH [OF _ h this] Cons.prems(1)
  have ih: "length p' = length p" "uint c' < 4294967296"
    "limbs_value p' + 2 ^ (32 * (position + 1 + length rs)) * uint c' =
      limbs_value ?q + 2 ^ (32 * (position + 1)) * (uint ?h + uint l * limbs_value rs)" by simp_all
  have "limbs_value ?q = limbs_value p + 2 ^ (32 * position) * (uint (fst (split_u64 ?t)) - uint (p ! position))"
    using Cons.prems(1) by (simp add: limbs_value_update)
  from row_algebra [OF this split_recombine t, of "limbs_value rs"]
  have "limbs_value ?q + 2 ^ (32 * (position + 1)) * (uint ?h + uint l * limbs_value rs) =
      limbs_value p + 2 ^ (32 * position) * (uint c + uint l * limbs_value (r # rs))"
    by (simp add: power_add)
  then show ?case using ih by simp
qed simp

lemma push_carry_value:
  assumes "limbs_value p + 2 ^ (32 * position) * uint c < 2 ^ (32 * length p)" "uint c < 4294967296"
  shows "\<exists>p'. push_carry p position c = Inr p' \<and> length p' = length p \<and>
    limbs_value p' = limbs_value p + 2 ^ (32 * position) * uint c"
  using assms
proof (induction p position c rule: push_carry.induct)
  case (1 p position c)
  show ?case
  proof (cases "c = 0")
    case False
    let ?t = "ucast (p ! position) + c :: u64"
    let ?q = "p[position := fst (split_u64 ?t)]" and ?h = "drop_bit LIMB_BITS ?t"
    have "uint c \<noteq> 0" using False by (simp add: uint_0_iff)
    then have c: "1 \<le> uint c" using uint_ge_0 [of c] by linarith
    have "2 ^ (32 * position) * 1 \<le> 2 ^ (32 * position) * uint c" using c by (intro mult_left_mono) simp_all
    then have "(2 :: int) ^ (32 * position) < 2 ^ (32 * length p)" using "1.prems"(1) limbs_value_nonneg [of p] by linarith
    then have pos: "position < length p" by (simp add: power_strict_increasing_iff)
    have t: "uint ?t = uint (p ! position) + uint c"
      using "1.prems"(2) uint_u32_less [of "p ! position"] by (subst uint_add_u64) simp_all
    have h: "uint ?h < 4294967296"
      using "1.prems"(2) uint_u32_less [of "p ! position"] by (simp add: uint_high t div_less_iff_less_mult)
    have "limbs_value ?q = limbs_value p + 2 ^ (32 * position) * (uint (fst (split_u64 ?t)) - uint (p ! position))"
      using pos by (simp add: limbs_value_update)
    from row_algebra [OF this split_recombine, of 0 0 "uint c" 0] t
    have "limbs_value ?q + 2 ^ (32 * (position + 1)) * uint ?h = limbs_value p + 2 ^ (32 * position) * uint c"
      by (simp add: power_add)
    with "1.IH" [OF False _ refl] "1.prems"(1) h pos show ?thesis
      by (simp add: push_carry.simps [of p position c] False Let_def)
  qed (simp add: push_carry.simps [of p position 0])
qed

section \<open>The product\<close>

lemma mul_step_value:
  assumes "i + length right < length p"
    "limbs_value p + 2 ^ (32 * i) * (uint l * limbs_value right) < 2 ^ (32 * length p)"
  shows "\<exists>p'. mul_step right p (i, l) = Inr p' \<and> length p' = length p \<and>
    limbs_value p' = limbs_value p + 2 ^ (32 * i) * (uint l * limbs_value right)"
proof (cases "l = 0")
  case False
  obtain q c where q: "mul_row l right i 0 p = (q, c)" by (cases "mul_row l right i 0 p")
  have r: "length q = length p" "uint c < 4294967296"
    "limbs_value q + 2 ^ (32 * (i + length right)) * uint c = limbs_value p + 2 ^ (32 * i) * (uint l * limbs_value right)"
    using mul_row_value [OF _ _ q] assms(1) by simp_all
  from push_carry_value [of q "i + length right" c] assms(2) r False q show ?thesis
    by (simp add: mul_step_def)
qed (use assms in \<open>simp add: mul_step_def\<close>)

lemma mul_fold_value:
  assumes "i + length left + length right < length p"
    "limbs_value p + 2 ^ (32 * i) * (limbs_value left * limbs_value right) < 2 ^ (32 * length p)"
  shows "\<exists>p'. try_fold (mul_step right) (List.enumerate i left) p = Inr p' \<and> length p' = length p \<and>
    limbs_value p' = limbs_value p + 2 ^ (32 * i) * (limbs_value left * limbs_value right)"
  using assms
proof (induction left arbitrary: i p)
  case (Cons l left)
  let ?r = "limbs_value right"
  have split: "2 ^ (32 * i) * (limbs_value (l # left) * ?r) =
      2 ^ (32 * i) * (uint l * ?r) + 2 ^ (32 * Suc i) * (limbs_value left * ?r)"
    by (simp add: power_add algebra_simps)
  have "0 \<le> 2 ^ (32 * Suc i) * (limbs_value left * ?r)" by simp
  then have "limbs_value p + 2 ^ (32 * i) * (uint l * ?r) < 2 ^ (32 * length p)"
    using Cons.prems(2) unfolding split by linarith
  from mul_step_value [OF _ this] Cons.prems(1) obtain q
    where q: "mul_step right p (i, l) = Inr q" "length q = length p"
      "limbs_value q = limbs_value p + 2 ^ (32 * i) * (uint l * ?r)" by auto
  have "limbs_value q + 2 ^ (32 * Suc i) * (limbs_value left * ?r) < 2 ^ (32 * length q)"
    using Cons.prems(2) unfolding split q(2,3) by linarith
  from Cons.IH [OF _ this] Cons.prems(1) q(2) obtain p'
    where "try_fold (mul_step right) (List.enumerate (Suc i) left) q = Inr p'" "length p' = length p"
      "limbs_value p' = limbs_value q + 2 ^ (32 * Suc i) * (limbs_value left * ?r)" by auto
  with q show ?case unfolding split by simp
qed simp

lemma multiply_magnitudes_value:
  "\<exists>p. multiply_magnitudes left right = Inr p \<and> p \<noteq> [] \<and> signed_value p = limbs_value left * limbs_value right"
proof -
  let ?n = "length left + length right"
  have "limbs_value left * limbs_value right \<le> 2 ^ (32 * length left) * limbs_value right"
    using limbs_value_less [of left] by (intro mult_right_mono) simp_all
  also have "\<dots> < 2 ^ (32 * length left) * 2 ^ (32 * length right)"
    using limbs_value_less [of right] by (intro mult_strict_left_mono) simp_all
  also have "\<dots> = 2 ^ (32 * ?n)" by (simp add: power_add algebra_simps)
  finally have less: "limbs_value left * limbs_value right < 2 ^ (32 * ?n)" .
  have "(2 :: int) ^ (32 * ?n) \<le> 2 ^ (32 * (?n + 1) - 1)" "(2 :: int) ^ (32 * ?n) \<le> 2 ^ (32 * (?n + 1))"
    by (rule power_increasing; simp)+
  with less have b: "limbs_value left * limbs_value right < 2 ^ (32 * (?n + 1) - 1)"
    "limbs_value left * limbs_value right < 2 ^ (32 * (?n + 1))" by linarith+
  from mul_fold_value [of 0 left right "replicate (?n + 1) 0"] b(2)
  obtain p where p: "multiply_magnitudes left right = Inr p" "length p = ?n + 1"
    "limbs_value p = limbs_value left * limbs_value right"
    unfolding multiply_magnitudes_def by (auto simp del: replicate_Suc replicate.simps)
  have ne: "p \<noteq> []" using p(2) by auto
  have "signed_value p = limbs_value p" using b(1) p by (intro unsigned_signed_value ne) simp
  then show ?thesis using p ne by simp
qed

section \<open>Signed multiplication\<close>

definition failed :: "allocator \<Rightarrow> bigint_error \<Rightarrow> bool \<Rightarrow> bigint_error \<Rightarrow> bool" where
  "failed alloc too_large need e \<longleftrightarrow> e = too_large \<and> \<not> need \<or> e = AllocationFailed \<and> (\<exists>n. \<not> alloc 0 n)"

lemma bigint_outcome_cases:
  "bigint_outcome alloc too_large need v r \<longleftrightarrow>
     (\<exists>c. r = Inr c \<and> need \<and> bigint_ok c \<and> bigint_value c = v) \<or> (\<exists>e. r = Inl e \<and> failed alloc too_large need e)"
  by (cases r) (auto simp: bigint_outcome_def failed_def)

lemma bigint_outcome_InrD:
  "bigint_outcome alloc too_large need v (Inr c) \<Longrightarrow> need \<and> bigint_ok c \<and> bigint_value c = v"
  by (simp add: bigint_outcome_def)

lemma bigint_outcome_InlD: "bigint_outcome alloc too_large need v (Inl e) \<Longrightarrow> failed alloc too_large need e"
  by (simp add: bigint_outcome_def failed_def)

lemma fits_abs_mono: "\<bar>x\<bar> \<le> \<bar>y\<bar> \<Longrightarrow> bigint_fits \<bar>y\<bar> \<Longrightarrow> bigint_fits \<bar>x\<bar>"
  by (auto simp: bigint_fits_def fits_limbs_def)

lemma fits_abs: "bigint_fits \<bar>x\<bar> \<Longrightarrow> bigint_fits x \<and> bigint_fits (- x)"
  by (auto simp: bigint_fits_def fits_limbs_def)

lemma magnitude_cases:
  assumes "bigint_ok b"
  shows "(\<exists>m. magnitude alloc b = Inr m \<and> m \<noteq> [] \<and> limbs_value m = \<bar>bigint_value b\<bar> \<and> bigint_fits \<bar>bigint_value b\<bar>) \<or>
    (\<exists>e. magnitude alloc b = Inl e \<and> failed alloc TooLarge (bigint_fits \<bar>bigint_value b\<bar>) e)"
  using abs_outcome [OF assms, of alloc]
  by (auto simp: bigint_outcome_cases magnitude_def bigint_ok_nonempty nonneg_limbs_value)

lemma negate_if_outcome:
  assumes "bigint_ok c" "bigint_value c = \<bar>v\<bar>" "bigint_fits \<bar>v\<bar>" "flip \<Longrightarrow> v \<le> 0" "\<not> flip \<Longrightarrow> 0 \<le> v"
  shows "bigint_outcome alloc TooLarge True v (if flip then bigint_neg alloc c else Inr c)"
  using assms neg_outcome [OF assms(1), of alloc] fits_abs [OF assms(3)]
  by (cases flip) (auto simp: bigint_outcome_def split: sum.splits)

lemma signed_result_outcome:
  assumes "p \<noteq> []" "signed_value p = \<bar>v\<bar>" "flip \<Longrightarrow> v \<le> 0" "\<not> flip \<Longrightarrow> 0 \<le> v"
  shows "bigint_outcome alloc TooLarge (bigint_fits \<bar>v\<bar>) v
    (and_then (from_limbs p) (\<lambda>c. if flip then bigint_neg alloc c else Inr c))"
proof (cases "from_limbs p")
  case (Inl e)
  then show ?thesis using from_limbs_outcome [OF assms(1), of alloc] assms(2) by (auto simp: bigint_outcome_def)
next
  case (Inr c)
  then have c: "bigint_fits \<bar>v\<bar>" "bigint_ok c" "bigint_value c = \<bar>v\<bar>"
    using from_limbs_outcome [OF assms(1), of alloc] assms(2) by (simp_all add: bigint_outcome_def)
  show ?thesis using negate_if_outcome [OF c(2,3,1) assms(3,4), where alloc = alloc] c(1) by (simp add: Inr)
qed

lemma failed_weaken: "failed alloc e need x \<Longrightarrow> (need' \<Longrightarrow> need) \<Longrightarrow> failed alloc e need' x"
  by (auto simp: failed_def)

lemma mul_outcome:
  assumes a: "bigint_ok a" and b: "bigint_ok b"
  defines "v \<equiv> bigint_value a * bigint_value b"
  shows "bigint_outcome alloc TooLarge (bigint_fits \<bar>v\<bar>) v (bigint_mul alloc a b)"
proof (cases "bigint_value a = 0 \<or> bigint_value b = 0")
  case True
  then have "v = 0" by (auto simp: v_def)
  moreover have "bigint_fits 0" using bigint_ok_fits [OF bigint_zero_ok(1)] by (simp add: bigint_zero_ok)
  ultimately show ?thesis using True
    by (simp add: bigint_mul_def bigint_is_zero_iff a b bigint_outcome_def bigint_zero_ok)
next
  case False
  then have nz: "\<not> bigint_is_zero a" "\<not> bigint_is_zero b" by (simp_all add: bigint_is_zero_iff a b)
  have "1 \<le> \<bar>bigint_value a\<bar>" "1 \<le> \<bar>bigint_value b\<bar>" using False by linarith+
  then have le: "\<bar>bigint_value a\<bar> \<le> \<bar>v\<bar>" "\<bar>bigint_value b\<bar> \<le> \<bar>v\<bar>"
    using mult_left_mono [of 1 "\<bar>bigint_value b\<bar>" "\<bar>bigint_value a\<bar>"] mult_right_mono [of 1 "\<bar>bigint_value a\<bar>" "\<bar>bigint_value b\<bar>"]
    by (simp_all add: v_def abs_mult)
  note weaken = failed_weaken [OF _ fits_abs_mono [OF le(1)]] failed_weaken [OF _ fits_abs_mono [OF le(2)]]
  have sign: "is_negative a \<noteq> is_negative b \<Longrightarrow> v \<le> 0" "\<not> (is_negative a \<noteq> is_negative b) \<Longrightarrow> 0 \<le> v"
    by (auto simp: bigint_negative_iff a b v_def mult_le_0_iff zero_le_mult_iff)
  consider e where "magnitude alloc a = Inl e" "failed alloc TooLarge (bigint_fits \<bar>bigint_value a\<bar>) e"
    | m e where "magnitude alloc a = Inr m" "magnitude alloc b = Inl e" "failed alloc TooLarge (bigint_fits \<bar>bigint_value b\<bar>) e"
    | m n where "magnitude alloc a = Inr m" "magnitude alloc b = Inr n" "limbs_value m = \<bar>bigint_value a\<bar>" "limbs_value n = \<bar>bigint_value b\<bar>"
    using magnitude_cases [OF a, of alloc] magnitude_cases [OF b, of alloc] by blast
  then show ?thesis
  proof cases
    case 1
    then show ?thesis using weaken(1) [OF 1(2)] nz by (simp add: bigint_mul_def bigint_outcome_cases)
  next
    case 2
    then show ?thesis using weaken(2) [OF 2(3)] nz by (simp add: bigint_mul_def bigint_outcome_cases)
  next
    case 3
    obtain p where p: "multiply_magnitudes m n = Inr p" "p \<noteq> []" "signed_value p = \<bar>v\<bar>"
      using multiply_magnitudes_value [of m n] 3 by (auto simp: v_def abs_mult)
    then show ?thesis using signed_result_outcome [where flip = "is_negative a \<noteq> is_negative b" and alloc = alloc, OF p(2,3) sign] 3 nz by (simp add: bigint_mul_def)
  qed
qed

end
