(* ===== verification/BigInt_Div.thy ===== *)
theory BigInt_Div
  imports BigInt_Mul "HOL-Library.Signed_Division"
begin

text \<open>The bitwise long division of limb vectors and the truncating division built on it.\<close>

section \<open>Shifting, comparing and subtracting vectors\<close>

lemma shift_limb:
  assumes "c \<in> {0, 1}"
  shows "uint (push_bit 1 x OR c) = (2 * uint x + uint c) mod 4294967296"
    "uint (drop_bit 31 x) = (2 * uint x + uint (c :: u32)) div 4294967296"
proof -
  have c: "c = 0 \<or> c = 1" using assms by simp
  have "uint (x * 2) = take_bit 32 (2 * uint x)" by (simp add: uint_word_ariths take_bit_eq_mod mult.commute)
  then have "uint (push_bit 1 x OR c) = take_bit 32 (2 * uint x) OR uint c" by (simp add: unsigned_or_eq)
  also have "\<dots> = take_bit 32 (2 * uint x OR uint c)" using c by (auto simp: take_bit_or)
  also have "2 * uint x OR uint c = 2 * uint x + uint c" using c by (auto simp: or_one_eq)
  finally show "uint (push_bit 1 x OR c) = (2 * uint x + uint c) mod 4294967296" by (simp add: take_bit_eq_mod)
  have "uint (drop_bit 31 x) = uint x div 2147483648" by (simp add: drop_bit_eq_div uint_div)
  moreover have "(2 * uint x + uint c) div 4294967296 = (2 * uint x + uint c) div 2 div 2147483648"
    by (simp add: zdiv_zmult2_eq [of 2147483648, symmetric])
  ultimately show "uint (drop_bit 31 x) = (2 * uint x + uint c) div 4294967296" using c by auto
qed

lemma shift_left_one_value:
  "c \<in> {0, 1} \<Longrightarrow> limbs_value (shift_left_one c xs) = (2 * limbs_value xs + uint c) mod 2 ^ (32 * length xs)"
proof (induction xs arbitrary: c)
  case (Cons x xs)
  let ?s = "2 * uint x + uint c"
  have "drop_bit 31 x \<in> {0, 1}" by (simp add: drop_bit_31)
  from Cons.IH [OF this] have "limbs_value (shift_left_one (drop_bit 31 x) xs) =
      (?s div 4294967296 + 2 * limbs_value xs) mod 2 ^ (32 * length xs)"
    unfolding shift_limb(2) [OF Cons.prems, of x] by (simp add: add.commute)
  then have "limbs_value (shift_left_one c (x # xs)) =
      ?s mod 4294967296 + 4294967296 * ((?s div 4294967296 + 2 * limbs_value xs) mod 2 ^ (32 * length xs))"
    using shift_limb(1) [OF Cons.prems, of x] by (simp add: LIMB_BITS_def)
  also have "\<dots> = (?s + 4294967296 * (2 * limbs_value xs)) mod (4294967296 * 2 ^ (32 * length xs))"
    by (rule carry_step) simp_all
  also have "?s + 4294967296 * (2 * limbs_value xs) = 2 * limbs_value (x # xs) + uint c" by simp
  finally show ?case by (simp add: power_add)
qed simp

lemma length_shift_left_one [simp]: "length (shift_left_one c xs) = length xs"
  by (induction xs arbitrary: c) simp_all

lemma limb_or_zero_value:
  "length xs \<le> w \<Longrightarrow> limbs_value (map (limb_or_zero xs) [0..<w]) = limbs_value xs"
  by (rule bit_eqI)
    (auto simp: bit_limbs_value limb_or_zero_def get_def div_less_iff_less_mult split: if_splits)

lemma compare_down_value:
  "compare_down f g n =
     (if limbs_value (map f [0..<n]) < limbs_value (map g [0..<n]) then Less
      else if limbs_value (map f [0..<n]) = limbs_value (map g [0..<n]) then Equal else Greater)"
proof (induction n)
  case (Suc n)
  have step: "limbs_value (map f [0..<Suc n]) < limbs_value (map g [0..<Suc n])" if "f n < g n" for f g :: "nat \<Rightarrow> u32"
  proof -
    have "2 ^ (32 * n) * (uint (f n) + 1) \<le> 2 ^ (32 * n) * uint (g n)"
      using that by (intro mult_left_mono) (simp_all add: word_less_def)
    then show ?thesis using limbs_value_less [of "map f [0..<n]"] limbs_value_nonneg [of "map g [0..<n]"]
      by (simp add: distrib_left del: limbs_value_nonneg)
  qed
  consider "f n < g n" | "f n = g n" | "g n < f n" by fastforce
  then show ?case
  proof cases
    case 1
    then show ?thesis using step [of f g] by (simp add: cmp_def)
  next
    case 2
    then show ?thesis using Suc by (simp add: cmp_def)
  next
    case 3
    then show ?thesis using step [of g f] by (auto simp: cmp_def)
  qed
qed simp

lemma compare_magnitudes_value: "compare_magnitudes xs ys \<noteq> Less \<longleftrightarrow> limbs_value ys \<le> limbs_value xs"
  by (simp add: compare_magnitudes_def compare_down_value limb_or_zero_value)

lemma expect_borrow:
  assumes "- 4294967296 \<le> d" "d < 4294967296"
  shows "expect_u32 (if d < 0 then d + 4294967296 else d) = Inr (word_of_int (d mod 4294967296))"
    "d div 4294967296 = - (if d < 0 then 1 else 0)"
proof -
  have "d < 0 \<Longrightarrow> d mod 4294967296 = d + 4294967296"
    using assms mod_pos_pos_trivial [of "d + 4294967296" 4294967296] by simp
  then show "expect_u32 (if d < 0 then d + 4294967296 else d) = Inr (word_of_int (d mod 4294967296))"
    using assms by (cases "d < 0") (simp_all add: expect_u32_def)
  have "d < 0 \<Longrightarrow> d div 4294967296 = - 1"
    using assms div_pos_pos_trivial [of "d + 4294967296" 4294967296] by simp
  then show "d div 4294967296 = - (if d < 0 then 1 else 0)" using assms by (cases "d < 0") simp_all
qed

lemma subtract_from_value:
  "b \<in> {0, 1} \<Longrightarrow> \<exists>ys. subtract_from right xs i b = Inr ys \<and> length ys = length xs \<and>
     limbs_value ys = (limbs_value xs - b - limbs_value (map (limb_or_zero right) [i..<i + length xs])) mod 2 ^ (32 * length xs)"
proof (induction xs arbitrary: i b)
  case (Cons x xs)
  let ?d = "uint x - uint (limb_or_zero right i) - b" and ?R = "limbs_value (map (limb_or_zero right) [Suc i..<Suc i + length xs])"
  define d' where "d' = (if ?d < 0 then 1 else 0 :: int)"
  have b01: "0 \<le> b" "b \<le> 1" using Cons.prems by auto
  have d: "- 4294967296 \<le> ?d" "?d < 4294967296"
    using uint_u32_less [of x] uint_u32_less [of "limb_or_zero right i"] uint_ge_0 [of x] uint_ge_0 [of "limb_or_zero right i"] b01
    by linarith+
  note y = expect_borrow [OF d]
  have m: "uint (word_of_int (?d mod 4294967296) :: u32) = ?d mod 4294967296"
    by (simp add: uint_word_of_int)
  have "d' \<in> {0, 1}" by (simp add: d'_def)
  from Cons.IH [OF this, of "Suc i"] obtain ys where ys: "subtract_from right xs (Suc i) d' = Inr ys" "length ys = length xs"
    "limbs_value ys = (limbs_value xs - d' - ?R) mod 2 ^ (32 * length xs)" by blast
  have run: "subtract_from right (x # xs) i b = Inr (word_of_int (?d mod 4294967296) # ys)"
    using ys(1) y(1) by (cases "?d < 0") (simp_all add: d'_def Let_def LIMB_BITS_def)
  have "?d mod 4294967296 + 4294967296 * ((?d div 4294967296 + (limbs_value xs - ?R)) mod 2 ^ (32 * length xs)) =
      (?d + 4294967296 * (limbs_value xs - ?R)) mod (4294967296 * 2 ^ (32 * length xs))"
    by (rule carry_step) simp_all
  also have "?d div 4294967296 + (limbs_value xs - ?R) = limbs_value xs - d' - ?R" using y(2) by (simp add: d'_def)
  also have "?d + 4294967296 * (limbs_value xs - ?R) =
      limbs_value (x # xs) - b - limbs_value (map (limb_or_zero right) (i # [Suc i..<Suc i + length xs]))"
    by (simp add: algebra_simps)
  also have "i # [Suc i..<Suc i + length xs] = [i..<i + length (x # xs)]" by (simp add: upt_conv_Cons del: upt_Suc)
  finally show ?case unfolding run using ys(2,3) by (simp add: m power_add del: upt_Suc)
qed simp

lemma subtract_magnitude_value:
  assumes "limbs_value right \<le> limbs_value left" "length right \<le> length left"
  shows "\<exists>ys. subtract_magnitude left right = Inr ys \<and> length ys = length left \<and>
    limbs_value ys = limbs_value left - limbs_value right"
proof -
  have "limbs_value left - limbs_value right < 2 ^ (32 * length left)"
    using limbs_value_less [of left] limbs_value_nonneg [of right] by linarith
  then have "(limbs_value left - limbs_value right) mod 2 ^ (32 * length left) = limbs_value left - limbs_value right"
    using assms(1) by (intro mod_pos_pos_trivial) simp_all
  then show ?thesis
    using subtract_from_value [of 0 right left 0] assms(2) by (simp add: subtract_magnitude_def limb_or_zero_value)
qed

section \<open>The long division\<close>

lemma set_limb_bit:
  assumes "k < 32 * length xs"
  shows "limbs_value (xs[k div 32 := xs ! (k div 32) OR push_bit (k mod 32) 1]) = limbs_value xs OR 2 ^ k"
proof (rule bit_eqI)
  fix n
  have "bit (push_bit (k mod 32) 1 :: u32) (n mod 32) \<longleftrightarrow> n mod 32 = k mod 32" by (auto simp: bit_simps)
  moreover have "n = k \<longleftrightarrow> n div 32 = k div 32 \<and> n mod 32 = k mod 32" by (metis div_mult_mod_eq)
  ultimately show "bit (limbs_value (xs[k div 32 := xs ! (k div 32) OR push_bit (k mod 32) 1])) n \<longleftrightarrow>
      bit (limbs_value xs OR 2 ^ k) n"
    using assms by (auto simp: bit_limbs_value bit_or_iff bit_exp_iff nth_list_update div_less_iff_less_mult)
qed

lemma multiple_or_bit: "(2 ^ Suc k * z) OR 2 ^ k = 2 ^ Suc k * z + (2 ^ k :: int)"
proof -
  have "bit (2 ^ Suc k * z) n \<Longrightarrow> \<not> bit (2 ^ k :: int) n" for n
    using bit_push_bit_iff_int [of "Suc k" z n] by (auto simp: push_bit_eq_mult bit_exp_iff mult.commute)
  then show ?thesis by (intro disjunctive_add [symmetric]) blast
qed

text \<open>State of the loop when the bits from \<open>k\<close> upwards are done.\<close>

definition divide_inv :: "u32 list \<Rightarrow> u32 list \<Rightarrow> nat \<Rightarrow> u32 list \<times> u32 list \<Rightarrow> bool" where
  "divide_inv dividend divisor k st \<longleftrightarrow>
     length (fst st) = length dividend + 1 \<and> length (snd st) = length divisor + length dividend + 1 \<and>
     limbs_value (fst st) = 2 ^ k * (limbs_value dividend div 2 ^ k div limbs_value divisor) \<and>
     limbs_value (snd st) = limbs_value dividend div 2 ^ k mod limbs_value divisor"

lemma div_exp_Suc: "(D :: int) div 2 ^ k = 2 * (D div 2 ^ Suc k) + of_bool (bit D k)"
proof -
  have "D div (2 ^ k * 2) = D div 2 ^ k div 2" by (intro zdiv_zmult2_eq) simp
  then have "D div 2 ^ Suc k = D div 2 ^ k div 2" by (simp add: mult.commute)
  moreover have "of_bool (bit D k) = D div 2 ^ k mod 2" by (simp add: bit_iff_odd of_bool_odd_eq_mod_2)
  ultimately show ?thesis by simp
qed

lemma feed_bit:
  assumes "2 * limbs_value r + 1 < 2 ^ (32 * length r)" "r \<noteq> []"
  defines "s \<equiv> shift_magnitude_left_one r"
  shows "length s = length r" "limbs_value (if b then s[0 := s ! 0 OR 1] else s) = 2 * limbs_value r + of_bool b"
proof -
  show len: "length s = length r" by (simp add: s_def shift_magnitude_left_one_def)
  have v: "limbs_value s = 2 * limbs_value r"
    using assms(1) by (simp add: s_def shift_magnitude_left_one_def shift_left_one_value mod_pos_pos_trivial)
  have "limbs_value (s[0 := s ! 0 OR 1]) = limbs_value s OR 1" using set_limb_bit [of 0 s] assms(2) len by simp
  then show "limbs_value (if b then s[0 := s ! 0 OR 1] else s) = 2 * limbs_value r + of_bool b"
    by (simp add: v or_one_eq)
qed

lemma division_step:
  fixes d Q :: int and b :: bool
  assumes "0 < d"
  defines "f \<equiv> 2 * (Q mod d) + of_bool b"
  shows "d \<le> f \<Longrightarrow> (2 * Q + of_bool b) div d = 2 * (Q div d) + 1 \<and> (2 * Q + of_bool b) mod d = f - d"
    "f < d \<Longrightarrow> (2 * Q + of_bool b) div d = 2 * (Q div d) \<and> (2 * Q + of_bool b) mod d = f"
proof -
  have "2 * Q = 2 * (d * (Q div d) + Q mod d)" by simp
  then have "2 * Q = d * (2 * (Q div d)) + 2 * (Q mod d)" by (simp only: distrib_left mult.left_commute)
  then have eq: "2 * Q + of_bool b = d * (2 * (Q div d)) + f" "2 * Q + of_bool b = d * (2 * (Q div d) + 1) + (f - d)"
    by (simp_all add: f_def distrib_left)
  have "Q mod d < d" "0 \<le> Q mod d" using assms(1) by simp_all
  then have f: "0 \<le> f" "f < 2 * d" by (auto simp: f_def split: bool.splits)
  show "d \<le> f \<Longrightarrow> (2 * Q + of_bool b) div d = 2 * (Q div d) + 1 \<and> (2 * Q + of_bool b) mod d = f - d"
    using int_div_pos_eq [OF eq(2)] int_mod_pos_eq [OF eq(2)] f by simp
  show "f < d \<Longrightarrow> (2 * Q + of_bool b) div d = 2 * (Q div d) \<and> (2 * Q + of_bool b) mod d = f"
    using int_div_pos_eq [OF eq(1)] int_mod_pos_eq [OF eq(1)] f by simp
qed

lemma limb_bit_test: "k < 32 * length xs \<Longrightarrow> drop_bit (k mod 32) (xs ! (k div 32)) AND 1 = 1 \<longleftrightarrow> bit (limbs_value xs) k"
  by (simp add: bit_limbs_value and_one_eq mod_2_eq_odd flip: bit_iff_odd_drop_bit)

lemma divide_bit_inv:
  assumes inv: "divide_inv dividend divisor (Suc k) (q, r)" and k: "k < 32 * length dividend" and pos: "0 < limbs_value divisor"
  shows "\<exists>st. divide_bit dividend divisor (q, r) k = Inr st \<and> divide_inv dividend divisor k st"
proof -
  let ?D = "limbs_value dividend" and ?d = "limbs_value divisor" and ?b = "bit (limbs_value dividend) k"
  let ?Q = "?D div 2 ^ Suc k" and ?s = "shift_magnitude_left_one r"
  have len: "length q = length dividend + 1" "length r = length divisor + length dividend + 1"
    and q: "limbs_value q = 2 ^ Suc k * (?Q div ?d)" and r: "limbs_value r = ?Q mod ?d"
    using inv by (simp_all add: divide_inv_def)
  define fed where "fed = (if ?b then ?s[0 := ?s ! 0 OR 1] else ?s)"
  have "2 * limbs_value r + 1 < 2 * ?d" using pos_mod_bound [OF pos, of ?Q] unfolding r by linarith
  also have "\<dots> \<le> 2 ^ Suc (32 * length divisor)" using limbs_value_less [of divisor] by simp
  also have "\<dots> \<le> 2 ^ (32 * length r)" using len by (intro power_increasing) simp_all
  finally have "2 * limbs_value r + 1 < 2 ^ (32 * length r)" .
  moreover have "r \<noteq> []" using len(2) by auto
  ultimately have fed: "length fed = length r" "limbs_value fed = 2 * (?Q mod ?d) + of_bool ?b"
    unfolding fed_def using feed_bit(1) [of r] feed_bit(2) [of r ?b] by (simp_all add: r)
  have run: "divide_bit dividend divisor (q, r) k =
      (if ?d \<le> limbs_value fed then and_then (subtract_magnitude fed divisor)
         (\<lambda>x. Inr (q[k div 32 := q ! (k div 32) OR push_bit (k mod 32) 1], x)) else Inr (q, fed))"
    using limb_bit_test [OF k] by (simp add: divide_bit_def Let_def LIMB_BITS_def compare_magnitudes_value fed_def)
  note R = div_exp_Suc [of ?D k] and step = division_step [OF pos, of ?Q ?b, folded fed(2)]
  show ?thesis
  proof (cases "?d \<le> limbs_value fed")
    case True
    then obtain x where x: "subtract_magnitude fed divisor = Inr x" "length x = length r" "limbs_value x = limbs_value fed - ?d"
      using subtract_magnitude_value [of divisor fed] fed(1) len(2) by auto
    have "limbs_value (q[k div 32 := q ! (k div 32) OR push_bit (k mod 32) 1]) = 2 ^ Suc k * (?Q div ?d) + 2 ^ k"
      using set_limb_bit [of k q] len(1) k by (simp add: q multiple_or_bit del: power_Suc)
    also have "\<dots> = 2 ^ k * (2 * (?Q div ?d) + 1)" by (simp add: algebra_simps)
    finally show ?thesis using x step(1) [OF True] len True by (simp add: run divide_inv_def R del: power_Suc)
  next
    case False
    then show ?thesis using step(2) len fed(1) q by (simp add: run divide_inv_def R mult.left_commute)
  qed
qed

lemma divide_fold:
  assumes "divide_inv dividend divisor n st" "n \<le> 32 * length dividend" "0 < limbs_value divisor"
  shows "\<exists>st'. try_fold (divide_bit dividend divisor) (rev [0..<n]) st = Inr st' \<and> divide_inv dividend divisor 0 st'"
  using assms
proof (induction n arbitrary: st)
  case (Suc n)
  from divide_bit_inv [of dividend divisor n "fst st" "snd st"] Suc.prems
  obtain t where "divide_bit dividend divisor st n = Inr t" "divide_inv dividend divisor n t" by auto
  with Suc show ?case by simp
qed simp

lemma divide_magnitudes_value:
  assumes "0 < limbs_value divisor"
  shows "(\<exists>q r. divide_magnitudes alloc dividend divisor = Inr (q, r) \<and> q \<noteq> [] \<and> r \<noteq> [] \<and>
      signed_value q = limbs_value dividend div limbs_value divisor \<and>
      signed_value r = limbs_value dividend mod limbs_value divisor) \<or>
    (\<exists>n. \<not> alloc 0 n) \<and> divide_magnitudes alloc dividend divisor = Inl AllocationFailed"
proof -
  let ?n = "32 * length dividend"
  have "limbs_value dividend div 2 ^ ?n = 0" by (simp add: limbs_value_less div_pos_pos_trivial)
  then have "divide_inv dividend divisor ?n (replicate (length dividend + 1) 0, replicate (length divisor + length dividend + 1) 0)"
    by (simp add: divide_inv_def)
  from divide_fold [OF this order.refl assms] obtain q r
    where run: "try_fold (divide_bit dividend divisor) (rev [0..<?n])
        (replicate (length dividend + 1) 0, replicate (length divisor + length dividend + 1) 0) = Inr (q, r)"
      and v: "limbs_value q = limbs_value dividend div limbs_value divisor" "limbs_value r = limbs_value dividend mod limbs_value divisor"
    by (auto simp: divide_inv_def)
  have signed: "signed_value (x @ [0]) = limbs_value x" for x
  proof -
    have "limbs_value x < 2 ^ (32 * length (x @ [0 :: u32]) - 1)"
      by (rule less_le_trans [OF limbs_value_less]) (rule power_increasing; simp)
    then show ?thesis using unsigned_signed_value [of "x @ [0]"] by simp
  qed
  show ?thesis using run v unfolding divide_magnitudes_def
    by (auto simp: try_reserve_exact_def err_if_def LIMB_BITS_def mult.commute signed)
qed

section \<open>Truncating division\<close>

lemma sdiv_smod_abs: "\<bar>(x :: int) sdiv y\<bar> = \<bar>x\<bar> div \<bar>y\<bar>" "\<bar>x smod y\<bar> = \<bar>x\<bar> mod \<bar>y\<bar>" if "y \<noteq> 0"
  using that by (cases "x = 0"; auto simp: signed_divide_int_def signed_modulo_int_def abs_mult abs_sgn_eq div_int_pos_iff)+

lemma sdiv_smod_sign:
  fixes x y :: int
  assumes "x \<noteq> 0" "y \<noteq> 0"
  shows "(x < 0) \<noteq> (y < 0) \<Longrightarrow> x sdiv y \<le> 0" "\<not> (x < 0) \<noteq> (y < 0) \<Longrightarrow> 0 \<le> x sdiv y"
    "x < 0 \<Longrightarrow> x smod y \<le> 0" "\<not> x < 0 \<Longrightarrow> 0 \<le> x smod y"
  using assms by (auto simp: signed_divide_int_def signed_modulo_int_def sgn_if div_int_pos_iff)

lemma from_limbs_fits:
  "p \<noteq> [] \<Longrightarrow> bigint_fits (signed_value p) \<Longrightarrow>
     \<exists>c. from_limbs p = Inr c \<and> bigint_ok c \<and> bigint_value c = signed_value p"
  using from_limbs_outcome [of p "\<lambda>_ _. True"] by (auto simp: bigint_outcome_cases failed_def)

definition division_outcome ::
  "allocator \<Rightarrow> int \<Rightarrow> int \<Rightarrow> (bigint_error, js_bigint \<times> js_bigint) result \<Rightarrow> bool" where
  "division_outcome alloc x y r \<longleftrightarrow>
     (case r of
        Inr (q, m) \<Rightarrow> (x = 0 \<or> bigint_fits \<bar>x\<bar> \<and> bigint_fits \<bar>y\<bar>) \<and> bigint_ok q \<and> bigint_ok m \<and>
          bigint_value q = x sdiv y \<and> bigint_value m = x smod y
      | Inl e \<Rightarrow> failed alloc TooLarge (x = 0 \<or> bigint_fits \<bar>x\<bar> \<and> bigint_fits \<bar>y\<bar>) e)"

lemma signed_division:
  assumes "p \<noteq> []" "r \<noteq> []" "x \<noteq> 0" "y \<noteq> 0" "bigint_fits \<bar>x\<bar>" "bigint_fits \<bar>y\<bar>"
    "signed_value p = \<bar>x\<bar> div \<bar>y\<bar>" "signed_value r = \<bar>x\<bar> mod \<bar>y\<bar>"
  shows "division_outcome alloc x y
    (and_then (from_limbs p) (\<lambda>q. and_then (from_limbs r) (\<lambda>m.
       and_then (if (x < 0) \<noteq> (y < 0) then bigint_neg alloc q else Inr q) (\<lambda>q'.
       and_then (if x < 0 then bigint_neg alloc m else Inr m) (\<lambda>m'. Inr (q', m'))))))"
proof -
  have abs: "signed_value p = \<bar>x sdiv y\<bar>" "signed_value r = \<bar>x smod y\<bar>"
    using assms by (simp_all add: sdiv_smod_abs)
  have "\<bar>x sdiv y\<bar> \<le> \<bar>x\<bar>" "\<bar>x smod y\<bar> \<le> \<bar>x\<bar>"
    using assms(4) zdiv_mono2 [of "\<bar>x\<bar>" 1 "\<bar>y\<bar>"] zmod_le_nonneg_dividend [of "\<bar>x\<bar>" "\<bar>y\<bar>"] by (simp_all add: sdiv_smod_abs)
  then have fit: "bigint_fits \<bar>x sdiv y\<bar>" "bigint_fits \<bar>x smod y\<bar>" using fits_abs_mono assms(5) by blast+
  obtain c m where c: "from_limbs p = Inr c" "bigint_ok c" "bigint_value c = \<bar>x sdiv y\<bar>"
    and m: "from_limbs r = Inr m" "bigint_ok m" "bigint_value m = \<bar>x smod y\<bar>"
    using from_limbs_fits [of p] from_limbs_fits [of r] assms(1,2) abs fit by metis
  note sign = sdiv_smod_sign [OF assms(3,4)]
  have "bigint_outcome alloc TooLarge True (x sdiv y) (if (x < 0) \<noteq> (y < 0) then bigint_neg alloc c else Inr c)"
    by (rule negate_if_outcome [OF c(2,3) fit(1)]) (use sign in blast)+
  moreover have "bigint_outcome alloc TooLarge True (x smod y) (if x < 0 then bigint_neg alloc m else Inr m)"
    by (rule negate_if_outcome [OF m(2,3) fit(2)]) (use sign in blast)+
  ultimately show ?thesis using assms(5,6) c(1) m(1)
    by (auto simp: bigint_outcome_cases division_outcome_def failed_def)
qed

lemma div_rem_outcome:
  assumes a: "bigint_ok a" and b: "bigint_ok b" and nz: "bigint_value b \<noteq> 0"
  shows "division_outcome alloc (bigint_value a) (bigint_value b) (div_rem alloc a b)"
proof (cases "bigint_value a = 0")
  case True
  then show ?thesis using nz a b
    by (simp add: div_rem_def bigint_is_zero_iff division_outcome_def bigint_zero_ok signed_divide_int_def signed_modulo_int_def)
next
  case False
  have start: "\<not> bigint_is_zero b" "\<not> bigint_is_zero a" using False nz a b by (simp_all add: bigint_is_zero_iff)
  consider e where "magnitude alloc a = Inl e" "failed alloc TooLarge (bigint_fits \<bar>bigint_value a\<bar>) e"
    | m e where "magnitude alloc a = Inr m" "magnitude alloc b = Inl e" "failed alloc TooLarge (bigint_fits \<bar>bigint_value b\<bar>) e"
    | m n where "magnitude alloc a = Inr m" "magnitude alloc b = Inr n" "limbs_value m = \<bar>bigint_value a\<bar>" "limbs_value n = \<bar>bigint_value b\<bar>"
        "bigint_fits \<bar>bigint_value a\<bar>" "bigint_fits \<bar>bigint_value b\<bar>"
    using magnitude_cases [OF a, of alloc] magnitude_cases [OF b, of alloc] by blast
  then show ?thesis
  proof cases
    case 3
    then have "0 < limbs_value n" using nz by simp
    from divide_magnitudes_value [OF this, of alloc m] show ?thesis
    proof (elim disjE exE conjE)
      fix q r
      assume "divide_magnitudes alloc m n = Inr (q, r)" "q \<noteq> []" "r \<noteq> []"
        "signed_value q = limbs_value m div limbs_value n" "signed_value r = limbs_value m mod limbs_value n"
      then show ?thesis using signed_division [of q r "bigint_value a" "bigint_value b" alloc] 3 start False nz
        by (simp add: div_rem_def bigint_negative_iff a b)
    qed (use 3 start False in \<open>simp add: div_rem_def division_outcome_def failed_def\<close>, blast)
  qed (use start False in \<open>auto simp: div_rem_def division_outcome_def failed_def\<close>)
qed

end
