(* ===== verification/BigInt_Bits.thy ===== *)
theory BigInt_Bits
  imports BigInt_Mul
begin

text \<open>Bitwise operators, shifts and truncation act on the infinite two's-complement expansion.\<close>

section \<open>Bitwise operators\<close>

lemma fits_bits: "0 < n \<Longrightarrow> fits_limbs n v \<longleftrightarrow> (\<forall>i. bit v (min i (32 * n - 1)) = bit v i)"
  by (simp add: fits_limbs_iff bit_eq_iff bit_signed_take_bit_iff min.commute)

lemma uint_drop_bit: "uint (drop_bit n (x :: u32)) = uint x div 2 ^ n"
proof -
  have "uint (drop_bit n x) = drop_bit n (uint x)"
    by (rule bit_eqI) (auto simp: bit_drop_bit_eq bit_uint_iff dest: bit_imp_le_length)
  then show ?thesis by (simp only: drop_bit_eq_div)
qed

lemma value_outcome:
  assumes "xs \<noteq> []" "limbs_value xs = take_bit (32 * length xs) v" "fits_limbs (length xs) v"
  shows "bigint_outcome alloc TooLarge (bigint_fits v) v (from_limbs xs)"
  using from_limbs_outcome [OF assms(1), of alloc] signed_value_eqI [OF assms] by simp

lemma fits_outcome: "bigint_outcome alloc e (bigint_fits v) v r \<Longrightarrow> bigint_fits v \<Longrightarrow> bigint_outcome alloc e True v r"
  by (auto simp: bigint_outcome_cases failed_def)

lemma outcome_bind:
  assumes "bigint_outcome alloc e True v r"
    "\<And>c. bigint_ok c \<Longrightarrow> bigint_value c = v \<Longrightarrow> bigint_outcome alloc e' need w (f c)"
  shows "bigint_outcome alloc e' need w (and_then r f)"
proof (cases r)
  case (Inl x)
  then show ?thesis using bigint_outcome_InlD [of alloc e True v x] assms(1) by (simp add: bigint_outcome_cases failed_def)
next
  case (Inr c)
  then show ?thesis using bigint_outcome_InrD [of alloc e True v c] assms by simp
qed

lemma bigint_ok_fits_limbs:
  "bigint_ok b \<Longrightarrow> length (limbs b) \<le> w \<Longrightarrow> fits_limbs w (bigint_value b)"
  using bigint_value_fits bigint_ok_nonempty fits_limbs_mono by blast

lemma limbs_value_bitsI:
  assumes "\<And>i j. i < w \<Longrightarrow> j < 32 \<Longrightarrow> bit (g i) j \<longleftrightarrow> bit v (32 * i + j)"
  shows "limbs_value (map g [0..<w]) = take_bit (32 * w) v"
proof (rule bit_eqI)
  fix n
  show "bit (limbs_value (map g [0..<w])) n \<longleftrightarrow> bit (take_bit (32 * w) v) n"
    using assms [of "n div 32" "n mod 32"] by (auto simp: bit_limbs_value bit_take_bit_iff div_less_iff_less_mult mult.commute)
qed

lemma bitwise_outcome:
  assumes a: "bigint_ok a" and b: "bigint_ok b"
    and word: "\<And>x y j. j < 32 \<Longrightarrow> bit (operation x y) j \<longleftrightarrow> f (bit x j) (bit y j)"
    and int: "\<And>n. bit v n \<longleftrightarrow> f (bit (bigint_value a) n) (bit (bigint_value b) n)"
  shows "bigint_outcome alloc TooLarge True v (bitwise alloc operation a b)"
proof -
  let ?w = "max (length (limbs a)) (length (limbs b))"
  let ?xs = "map (\<lambda>i. operation (limb a i) (limb b i)) [0..<?w]"
  note ne = bigint_ok_nonempty [OF a] bigint_ok_nonempty [OF b]
  have w: "0 < ?w" "?w \<le> MAX_LIMBS" using ne a b by (auto simp: bigint_ok_def less_max_iff_disj)
  have fit: "fits_limbs ?w (bigint_value a)" "fits_limbs ?w (bigint_value b)"
    using bigint_ok_fits_limbs a b by simp_all
  have "fits_limbs ?w v" unfolding fits_bits [OF w(1)]
  proof
    fix i
    have "bit (bigint_value a) (min i (32 * ?w - 1)) = bit (bigint_value a) i"
      "bit (bigint_value b) (min i (32 * ?w - 1)) = bit (bigint_value b) i"
      using fit unfolding fits_bits [OF w(1)] by blast+
    then show "bit v (min i (32 * ?w - 1)) = bit v i" by (simp only: int)
  qed
  moreover have "limbs_value ?xs = take_bit (32 * ?w) v"
    by (rule bit_eqI) (auto simp: bit_limbs_value bit_take_bit_iff int word bit_bigint_value ne div_less_iff_less_mult mult.commute)
  moreover have "bigint_fits v" using calculation(1) fits_limbs_mono [OF w(2)] by (simp add: bigint_fits_def)
  moreover have "?xs \<noteq> []" using w(1) by (simp add: less_max_iff_disj)
  ultimately show ?thesis unfolding bitwise_def Let_def
    by (intro try_reserve_outcome fits_outcome value_outcome) simp_all
qed

lemma not_outcome:
  assumes "bigint_ok b"
  shows "bigint_outcome alloc TooLarge True (NOT (bigint_value b)) (bigint_not alloc b)"
proof -
  have ne: "limbs b \<noteq> []" using assms by (rule bigint_ok_nonempty)
  have "limbs_value (map NOT (limbs b)) = take_bit (32 * length (limbs b)) (NOT (bigint_value b))"
    by (rule bit_eqI)
      (auto simp: bit_limbs_value bit_take_bit_iff bit_not_iff bit_not_int_iff bit_bigint_value ne limb_def get_def div_less_iff_less_mult)
  moreover have "fits_limbs n (NOT v)" if "fits_limbs n v" for n v using that by (auto simp: fits_limbs_def not_int_def)
  ultimately show ?thesis
    using bigint_value_fits [OF ne] bigint_ok_fits [OF assms] ne unfolding bigint_not_def bigint_fits_def
    by (intro try_reserve_outcome fits_outcome value_outcome) (simp_all add: bigint_fits_def)
qed

section \<open>Left shift\<close>

lemma int_div_less: "0 < m \<Longrightarrow> x < n * m \<Longrightarrow> x div m < (n :: int)"
proof (rule ccontr)
  assume "0 < m" "x < n * m" "\<not> x div m < n"
  then have "n * m \<le> x div m * m" by (intro mult_right_mono) simp_all
  also have "\<dots> \<le> x" using \<open>0 < m\<close> by (simp add: minus_mod_eq_div_mult [symmetric])
  finally show False using \<open>x < n * m\<close> by simp
qed

lemma no_carry: "uint (c :: u32) < 2 ^ bs \<Longrightarrow> bs = 0 \<Longrightarrow> c = 0"
proof -
  assume "uint c < 2 ^ bs" "bs = 0"
  then have "uint c < 1" by simp
  with uint_ge_0 [of c] have "uint c = 0" by linarith
  then show ?thesis by (simp add: uint_0_iff)
qed

lemma shift_limb_gen:
  assumes "bs < 32" "uint (c :: u32) < 2 ^ bs"
  shows "uint (push_bit bs x OR c) = (2 ^ bs * uint x + uint c) mod 4294967296"
    "uint (drop_bit (32 - bs) x) = (2 ^ bs * uint x + uint c) div 4294967296"
    "uint (drop_bit (32 - bs) x) < 2 ^ bs"
proof -
  have tc: "take_bit 32 (uint c) = uint c" "take_bit bs (uint c) = uint c"
    using assms(2) uint_u32_less [of c] by (simp_all add: take_bit_int_eq_self)
  have "push_bit bs (uint x) OR uint c = 2 ^ bs * uint x + uint c"
    using concat_bit_def [of bs "uint c" "uint x"] concat_bit_eq [of bs "uint c" "uint x"] tc(2)
    by (simp add: push_bit_eq_mult or.commute mult.commute)
  then have "take_bit 32 (push_bit bs (uint x)) OR uint c = (2 ^ bs * uint x + uint c) mod 4294967296"
    using take_bit_or [of 32 "push_bit bs (uint x)" "uint c"] tc(1) by (simp add: take_bit_eq_mod)
  then show "uint (push_bit bs x OR c) = (2 ^ bs * uint x + uint c) mod 4294967296"
    by (simp add: unsigned_or_eq unsigned_push_bit_eq)
  have split: "(4294967296 :: int) = 2 ^ bs * 2 ^ (32 - bs)" using assms(1) by (simp flip: power_add)
  have "(2 ^ bs * uint x + uint c) div 2 ^ bs = uint x"
    using assms(2) by (simp add: div_pos_pos_trivial)
  then have "(2 ^ bs * uint x + uint c) div 4294967296 = uint x div 2 ^ (32 - bs)"
    unfolding split by (simp add: zdiv_zmult2_eq)
  then show high: "uint (drop_bit (32 - bs) x) = (2 ^ bs * uint x + uint c) div 4294967296"
    by (simp only: uint_drop_bit)
  have "uint x < 2 ^ bs * 2 ^ (32 - bs)" using uint_u32_less [of x] unfolding split .
  then show "uint (drop_bit (32 - bs) x) < 2 ^ bs"
    unfolding uint_drop_bit by (intro int_div_less) simp_all
qed

lemma drop_bit_32: "drop_bit 32 (x :: u32) = 0"
  by (rule bit_eqI) (auto simp: bit_drop_bit_eq dest: bit_imp_le_length)

lemma shl_limbs_value:
  assumes "bs < 32" "uint c < 2 ^ bs"
  shows "limbs_value (shl_limbs bs ext c xs) =
    (2 ^ bs * (limbs_value xs + 2 ^ (32 * length xs) * uint ext) + uint c) mod 2 ^ (32 * (length xs + 1))"
  using assms
proof (induction xs arbitrary: c)
  case Nil
  then show ?case using shift_limb_gen(1) [OF Nil, of ext] no_carry [OF Nil(2)] by (auto simp: mod_pos_pos_trivial uint_u32_less)
next
  case (Cons x xs)
  let ?s = "2 ^ bs * uint x + uint c" and ?h = "drop_bit (32 - bs) x"
    and ?v = "limbs_value xs + 2 ^ (32 * length xs) * uint ext"
  note sh = shift_limb_gen [OF Cons.prems, of x]
  have "shl_limbs bs ext c (x # xs) = (push_bit bs x OR c) # shl_limbs bs ext ?h xs"
    using no_carry [OF Cons.prems(2)] by (cases "bs = 0") (simp_all add: LIMB_BITS_def drop_bit_32)
  then have "limbs_value (shl_limbs bs ext c (x # xs)) =
      ?s mod 4294967296 + 4294967296 * ((?s div 4294967296 + 2 ^ bs * ?v) mod 2 ^ (32 * (length xs + 1)))"
    using Cons.IH [OF Cons.prems(1) sh(3)] sh(1,2) by (simp add: add.commute)
  also have "\<dots> = (?s + 4294967296 * (2 ^ bs * ?v)) mod (4294967296 * 2 ^ (32 * (length xs + 1)))"
    by (rule carry_step) simp_all
  also have "?s + 4294967296 * (2 ^ bs * ?v) = 2 ^ bs * (limbs_value (x # xs) + 2 ^ (32 * length (x # xs)) * uint ext) + uint c"
    by (simp add: power_add algebra_simps)
  finally show ?case by (simp add: power_add)
qed

lemma length_shl_limbs [simp]: "length (shl_limbs bs ext c xs) = length xs + 1"
  by (induction xs arbitrary: c) auto

lemma count_split: "unat (count :: u64) = 32 * unat (count div 32) + limb_bit_offset count" "limb_bit_offset count < 32"
  by (simp_all add: limb_bit_offset_def unat_div unat_mod)

lemma sign_extended_value:
  assumes "limbs b \<noteq> []"
  shows "limbs_value (limbs b) + 2 ^ (32 * length (limbs b)) * uint (sign_extension b) =
    take_bit (32 * (length (limbs b) + 1)) (bigint_value b)"
proof -
  have "map (limb b) [0..<length (limbs b) + 1] = limbs b @ [sign_extension b]"
    by (auto simp: limb_def get_def intro!: nth_equalityI)
  then show ?thesis using extended_value [OF assms, of "length (limbs b) + 1"] by simp
qed

lemma shl_vector_value:
  assumes "limbs b \<noteq> []"
  shows "limbs_value (replicate n 0 @ shl_limbs (limb_bit_offset count) (sign_extension b) 0 (limbs b)) =
    take_bit (32 * (n + length (limbs b) + 1)) (bigint_value b * 2 ^ (32 * n + limb_bit_offset count))"
proof -
  let ?bs = "limb_bit_offset count" and ?k = "32 * (length (limbs b) + 1)"
  have "limbs_value (shl_limbs ?bs (sign_extension b) 0 (limbs b)) = (2 ^ ?bs * take_bit ?k (bigint_value b)) mod 2 ^ ?k"
    using shl_limbs_value [of ?bs 0 "sign_extension b" "limbs b"] count_split(2) [of count]
    by (simp only: sign_extended_value [OF assms]) simp
  also have "\<dots> = (2 ^ ?bs * bigint_value b) mod 2 ^ ?k" by (simp only: take_bit_eq_mod mod_mult_right_eq)
  finally have "limbs_value (replicate n 0 @ shl_limbs ?bs (sign_extension b) 0 (limbs b)) =
      (2 ^ (32 * n) * (2 ^ ?bs * bigint_value b)) mod (2 ^ (32 * n) * 2 ^ ?k)"
    by (simp only: limbs_value_append limbs_value_replicate length_replicate add_0 mult_mod_right)
  also have "(2 :: int) ^ (32 * n) * 2 ^ ?k = 2 ^ (32 * (n + length (limbs b) + 1))" by (simp flip: power_add)
  finally show ?thesis by (simp add: take_bit_eq_mod power_add algebra_simps)
qed

lemma shl_fits:
  assumes "fits_limbs m v" "0 < m" "bs < 32"
  shows "fits_limbs (n + m + 1) (v * 2 ^ (32 * n + bs))"
proof -
  have "\<bar>v * 2 ^ (32 * n + bs)\<bar> \<le> 2 ^ (32 * m - 1) * 2 ^ (32 * n + bs)"
    using fits_limbs_bound [OF assms(1)] by (simp add: abs_mult)
  also have "\<dots> < 2 ^ (32 * (n + m + 1) - 1)"
    unfolding power_add [symmetric] using assms(2,3) by (intro power_strict_increasing) simp_all
  finally show ?thesis unfolding fits_limbs_def by linarith
qed

lemma too_large_not_fits:
  assumes "v \<noteq> 0" "32 * MAX_LIMBS \<le> n"
  shows "\<not> bigint_fits (v * 2 ^ n)"
proof
  assume "bigint_fits (v * 2 ^ n)"
  then have "\<bar>v * 2 ^ n\<bar> \<le> 2 ^ (32 * MAX_LIMBS - 1)" unfolding bigint_fits_def by (rule fits_limbs_bound)
  moreover have "(2 :: int) ^ (32 * MAX_LIMBS - 1) < 2 ^ n"
    using assms(2) MAX_LIMBS_eq by (intro power_strict_increasing) linarith+
  moreover have "2 ^ n \<le> \<bar>v * 2 ^ n\<bar>" using assms(1) mult_right_mono [of 1 "\<bar>v\<bar>" "2 ^ n"] by (simp add: abs_mult)
  ultimately show False by linarith
qed

lemma promote_outcome:
  "bigint_outcome alloc TooLarge need v r \<Longrightarrow> bigint_outcome alloc ResultTooLarge need v (map_err promote_size_error r)"
  by (cases r) (auto simp: bigint_outcome_def promote_size_error_def split: bigint_error.splits)

lemma shl_outcome:
  fixes count :: u64
  assumes b: "bigint_ok b"
  defines "v \<equiv> bigint_value b * 2 ^ unat count"
  shows "bigint_outcome alloc ResultTooLarge (bigint_fits v) v (bigint_shl alloc b count)"
proof (cases "bigint_value b = 0")
  case True
  then show ?thesis using bigint_ok_fits [OF bigint_zero_ok(1)] b
    by (simp add: bigint_shl_def bigint_is_zero_iff v_def bigint_outcome_def bigint_zero_ok)
next
  case False
  let ?n = "unat (count div 32)" and ?bs = "limb_bit_offset count"
  let ?xs = "replicate ?n 0 @ shl_limbs ?bs (sign_extension b) 0 (limbs b)"
  have ne: "limbs b \<noteq> []" using b by (rule bigint_ok_nonempty)
  have v: "v = bigint_value b * 2 ^ (32 * ?n + ?bs)" using count_split(1) [of count] by (simp only: v_def)
  show ?thesis
  proof (cases "?n > MAX_LIMBS")
    case True
    have "32 * MAX_LIMBS \<le> 32 * ?n + ?bs" using True by simp
    from too_large_not_fits [OF False this] show ?thesis using False True b
      by (simp add: bigint_shl_def Let_def bigint_is_zero_iff bigint_outcome_def flip: v)
  next
    case n: False
    have len: "length ?xs = ?n + length (limbs b) + 1" "?xs \<noteq> []" by (simp_all flip: length_0_conv)
    have "bigint_outcome alloc TooLarge (bigint_fits v) v (from_limbs ?xs)"
      using shl_vector_value [OF ne, of ?n count] shl_fits [OF bigint_value_fits [OF ne] _ count_split(2), of ?n count] ne
      by (intro value_outcome) (simp_all only: len v length_greater_0_conv not_False_eq_True)
    then show ?thesis using False n b
      by (auto simp: bigint_shl_def Let_def bigint_is_zero_iff intro!: try_reserve_outcome promote_outcome)
  qed
qed

section \<open>Right shift\<close>

lemma shr_limb_bit:
  assumes "limbs b \<noteq> []" "j < 32" "bs < 32"
  shows "bit (if bs = 0 then limb b i else drop_bit bs (limb b i) OR push_bit (32 - bs) (limb b (Suc i))) j \<longleftrightarrow>
    bit (bigint_value b) (32 * i + bs + j)"
proof (cases "bs + j < 32")
  case True
  then show ?thesis using assms by (auto simp: bit_bigint_value bit_or_iff bit_drop_bit_eq bit_push_bit_iff add.assoc)
next
  case False
  let ?k = "bs + j - 32"
  have k: "?k < 32" "32 * i + bs + j = 32 * Suc i + ?k" "j - (32 - bs) = ?k" using assms False by simp_all
  have "(32 * Suc i + ?k) div 32 = Suc i" "(32 * Suc i + ?k) mod 32 = ?k"
    using k(1) by (simp_all only: div_mult_self4 mod_mult_self4 zero_neq_numeral) simp_all
  then have "bit (bigint_value b) (32 * i + bs + j) \<longleftrightarrow> bit (limb b (Suc i)) ?k"
    unfolding k(2) by (simp only: bit_bigint_value [OF assms(1)])
  moreover have "\<not> bit (limb b i) (bs + j)" using False by (auto dest: bit_imp_le_length)
  moreover have "0 < bs" "32 - bs \<le> j" using False assms by simp_all
  ultimately show ?thesis using k(3) assms(2) by (simp add: bit_or_iff bit_drop_bit_eq bit_push_bit_iff)
qed

lemma saturated_bit:
  assumes "limbs b \<noteq> []" "32 * length (limbs b) - 1 \<le> i" "32 * length (limbs b) - 1 \<le> j"
  shows "bit (bigint_value b) i = bit (bigint_value b) j"
proof -
  have "bit (bigint_value b) k = bit (bigint_value b) (32 * length (limbs b) - 1)" if "32 * length (limbs b) - 1 \<le> k" for k
    using that bigint_value_fits [OF assms(1)] fits_bits [of "length (limbs b)" "bigint_value b"] assms(1)
    by (metis length_greater_0_conv min.absorb2)
  then show ?thesis using assms(2,3) by metis
qed

lemma shr_fits:
  assumes "limbs b \<noteq> []" "length (limbs b) \<le> n + m" "0 < m"
    and "\<And>i. bit v i \<longleftrightarrow> bit (bigint_value b) (32 * n + bs + i)"
  shows "fits_limbs m v"
  unfolding fits_bits [OF assms(3)]
proof
  fix i
  show "bit v (min i (32 * m - 1)) = bit v i"
    using saturated_bit [OF assms(1), of "32 * n + bs + (32 * m - 1)" "32 * n + bs + i"] assms(2,3)
    by (cases "i \<le> 32 * m - 1") (simp_all add: assms(4) min_def)
qed

lemma shr_outcome:
  fixes count :: u64
  assumes b: "bigint_ok b"
  defines "v \<equiv> bigint_value b div 2 ^ unat count"
  shows "bigint_outcome alloc TooLarge True v (bigint_shr alloc b count)"
proof -
  let ?n = "unat (count div 32)" and ?bs = "limb_bit_offset count" and ?l = "length (limbs b)"
  have ne: "limbs b \<noteq> []" using b by (rule bigint_ok_nonempty)
  have bv: "bit v i \<longleftrightarrow> bit (bigint_value b) (32 * ?n + ?bs + i)" for i
    using count_split(1) [of count] by (simp only: v_def bit_drop_bit_eq flip: drop_bit_eq_div) simp
  have max: "?l \<le> MAX_LIMBS" using b by (simp add: bigint_ok_def)
  show ?thesis
  proof (cases "?l \<le> ?n")
    case True
    have fit: "fits_limbs 1 v" using True by (intro shr_fits [OF ne _ _ bv]) simp_all
    have "bit (sign_extension b) j = bit v j" if "j < 32" for j
    proof -
      have "sign_extension b = limb b ?n" using True by (simp add: limb_def get_def)
      then have "bit (sign_extension b) j = bit (bigint_value b) (32 * ?n + j)" using that by (simp add: bit_bigint_value ne)
      also have "\<dots> = bit v j" unfolding bv using True by (intro saturated_bit ne) simp_all
      finally show ?thesis .
    qed
    then have "limbs_value [sign_extension b] = take_bit (32 * 1) v"
      by (intro bit_eqI) (auto simp: bit_take_bit_iff bit_uint_iff)
    moreover have "bigint_fits v" using fits_limbs_mono [OF _ fit] by (simp add: bigint_fits_def MAX_LIMBS_eq)
    ultimately show ?thesis using True fit
      by (simp add: bigint_shr_def) (intro fits_outcome value_outcome; simp)
  next
    case False
    let ?xs = "map (\<lambda>i. let c = limb b (?n + i) in if ?bs = 0 then c
      else drop_bit ?bs c OR push_bit (LIMB_BITS - ?bs) (limb b (?n + i + 1))) [0..<?l - ?n]"
    have fit: "fits_limbs (?l - ?n) v" using False by (intro shr_fits [OF ne _ _ bv]) simp_all
    have "limbs_value ?xs = take_bit (32 * (?l - ?n)) v"
    proof (rule limbs_value_bitsI)
      fix i j :: nat assume "j < 32"
      moreover have "32 * ?n + ?bs + (32 * i + j) = 32 * (?n + i) + ?bs + j" by simp
      ultimately show "bit (let c = limb b (?n + i) in if ?bs = 0 then c
          else drop_bit ?bs c OR push_bit (LIMB_BITS - ?bs) (limb b (?n + i + 1))) j \<longleftrightarrow> bit v (32 * i + j)"
        using shr_limb_bit [OF ne \<open>j < 32\<close> count_split(2) [of count], of "?n + i"]
        by (simp only: bv Let_def LIMB_BITS_def add_Suc_right One_nat_def add_0_right)
    qed
    moreover have "bigint_fits v" using fits_limbs_mono [OF _ fit, of MAX_LIMBS] max by (simp add: bigint_fits_def)
    ultimately show ?thesis using False fit unfolding bigint_shr_def Let_def
      by (simp only: if_False) (intro try_reserve_outcome fits_outcome value_outcome; simp)
  qed
qed

section \<open>Truncation\<close>

lemma bigint_bit_iff: "limbs b \<noteq> [] \<Longrightarrow> bigint_bit b index \<longleftrightarrow> bit (bigint_value b) (unat index)"
  using count_split [of index]
  by (simp add: bigint_bit_def and_one_eq mod_2_eq_odd bit_bigint_value flip: bit_iff_odd_drop_bit)

lemma block_bound: "u < 32 \<Longrightarrow> (i < 32 * Suc q \<and> (i div 32 = q \<longrightarrow> i mod 32 < u)) = (i < 32 * q + u)" for i :: nat
proof (cases "i div 32 = q")
  case True
  define m where "m = i mod 32"
  have "i = 32 * q + m" "m < 32" using True mult_div_mod_eq [of 32 i] by (simp_all add: m_def)
  then show "u < 32 \<Longrightarrow> ?thesis" by simp
next
  case False
  have "i < 32 * Suc q \<longleftrightarrow> i div 32 < Suc q" "i < 32 * q \<longleftrightarrow> i div 32 < q" by (simp_all add: div_less_iff_less_mult mult.commute)
  moreover have "i < 32 * q + u \<Longrightarrow> i div 32 < Suc q" if "u < 32" using that by (simp add: div_less_iff_less_mult)
  ultimately show "u < 32 \<Longrightarrow> ?thesis" using False by auto
qed

lemma truncated_limbs:
  fixes bits :: u64
  assumes "limbs b \<noteq> []"
  defines "xs \<equiv> map (limb b) [0..<(unat bits + 31) div 32]" and "used \<equiv> limb_bit_offset bits"
  shows "limbs_value (if used \<noteq> 0 then xs[length xs - 1 := xs ! (length xs - 1) AND drop_bit (LIMB_BITS - used) (- 1)] else xs) =
    take_bit (unat bits) (bigint_value b)"
proof (cases "used = 0")
  case True
  then have "32 * ((unat bits + 31) div 32) = unat bits" using count_split(1) [of bits] by (simp add: used_def)
  then show ?thesis using True extended_value [OF assms(1)] by (simp add: xs_def)
next
  case False
  let ?q = "unat (bits div 32)"
  have bits: "unat bits = 32 * ?q + used" "used < 32" using count_split [of bits] by (simp_all add: used_def)
  then have len: "length xs = Suc ?q" using False by (simp add: xs_def)
  have m: "bit (drop_bit (32 - used) (- 1 :: u32)) j \<longleftrightarrow> j < used" if "j < 32" for j
    using bits(2) that by (auto simp: bit_drop_bit_eq bit_mask_iff)
  have "bit (limbs_value (xs[?q := xs ! ?q AND drop_bit (32 - used) (- 1)])) i \<longleftrightarrow>
      i < 32 * Suc ?q \<and> bit (bigint_value b) i \<and> (i div 32 = ?q \<longrightarrow> i mod 32 < used)" for i
    using len m [of "i mod 32"] by (auto simp: bit_limbs_value nth_list_update bit_and_iff xs_def bit_bigint_value assms(1) div_less_iff_less_mult simp del: upt_Suc)
  moreover have "i < 32 * Suc ?q \<and> (i div 32 = ?q \<longrightarrow> i mod 32 < used) \<longleftrightarrow> i < unat bits" for i
    unfolding bits(1) using block_bound [OF bits(2)] .
  ultimately show ?thesis using False len by (intro bit_eqI) (auto simp: bit_take_bit_iff LIMB_BITS_def)
qed

lemma truncate_outcome:
  fixes bits :: u64
  assumes b: "bigint_ok b" and small: "(unat bits + 31) div 32 \<le> MAX_LIMBS"
  defines "v \<equiv> take_bit (unat bits) (bigint_value b)"
  shows "bigint_outcome alloc TooLarge (bigint_fits v) v (truncate_to_bits alloc b bits)"
proof -
  let ?n = "(unat bits + 31) div 32"
  let ?ys = "if limb_bit_offset bits \<noteq> 0
    then (map (limb b) [0..<?n])[length (map (limb b) [0..<?n]) - 1 := map (limb b) [0..<?n] ! (length (map (limb b) [0..<?n]) - 1) AND
      drop_bit (LIMB_BITS - limb_bit_offset bits) (- 1)]
    else map (limb b) [0..<?n]"
  have val: "limbs_value ?ys = v" unfolding v_def by (rule truncated_limbs [OF bigint_ok_nonempty [OF b]])
  have len: "length ?ys = ?n" by simp
  have "v < 2 ^ (32 * ?n)" using limbs_value_less [of ?ys] unfolding val len .
  also have "(2 :: int) ^ (32 * ?n) \<le> 2 ^ (32 * (?n + 1) - 1)" by (rule power_increasing) simp_all
  finally have "limbs_value (?ys @ [0]) < 2 ^ (32 * length (?ys @ [0 :: u32]) - 1)" using len val by simp
  from unsigned_signed_value [OF _ this] have "signed_value (?ys @ [0]) = v" using val by simp
  then show ?thesis using small from_limbs_outcome [of "?ys @ [0]" alloc]
    unfolding truncate_to_bits_def Let_def by (simp only: linorder_not_less [symmetric] if_False) (intro try_reserve_outcome; simp)
qed

lemma as_uint_outcome:
  fixes bits :: u64
  assumes "bigint_ok b" "(unat bits + 31) div 32 \<le> MAX_LIMBS"
  defines "v \<equiv> take_bit (unat bits) (bigint_value b)"
  shows "bigint_outcome alloc TooLarge (bigint_fits v) v (as_uint_n alloc b bits)"
proof (cases "bits = 0")
  case True
  then show ?thesis using bigint_ok_fits [OF bigint_zero_ok(1)]
    by (simp add: as_uint_n_def v_def bigint_outcome_def bigint_zero_ok)
qed (use truncate_outcome [OF assms(1,2), of alloc] in \<open>simp add: as_uint_n_def v_def\<close>)

lemma exp_fits: "n < 32 * MAX_LIMBS - 1 \<Longrightarrow> 0 \<le> v \<Longrightarrow> v \<le> 2 ^ n \<Longrightarrow> bigint_fits v"
proof -
  assume "n < 32 * MAX_LIMBS - 1" "0 \<le> v" "v \<le> 2 ^ n"
  moreover from this(1) have "(2 :: int) ^ n < 2 ^ (32 * MAX_LIMBS - 1)" by (rule power_strict_increasing) simp
  ultimately show ?thesis unfolding bigint_fits_def fits_limbs_def by linarith
qed

lemma one_ok: "bigint_ok (JsBigInt [1])" "bigint_value (JsBigInt [1]) = 1"
  by (simp_all add: bigint_ok_def normalized_def MAX_LIMBS_eq bigint_value_def signed_value_def)

lemma as_int_outcome:
  fixes bits :: u64
  assumes b: "bigint_ok b" and bits: "0 < unat bits" "unat bits < 32 * MAX_LIMBS - 1"
  shows "bigint_outcome alloc TooLarge True (signed_take_bit (unat bits - 1) (bigint_value b)) (as_int_n alloc b bits)"
proof -
  let ?n = "unat bits" and ?t = "take_bit (unat bits) (bigint_value b)"
  have small: "(?n + 31) div 32 \<le> MAX_LIMBS" using bits(2) by (simp add: MAX_LIMBS_eq)
  have pre: "unat (bits - 1) = ?n - 1" using bits(1) by (simp add: unat_minus_one unat_gt_0)
  have t_less: "0 \<le> ?t" "?t < 2 ^ ?n" by simp_all
  have fit: "bigint_fits ?t" "bigint_fits (2 ^ ?n)" using exp_fits [OF bits(2)] t_less by (simp_all add: less_imp_le)
  have trunc: "bigint_outcome alloc TooLarge True ?t (truncate_to_bits alloc b bits)"
    using truncate_outcome [OF b small] fit(1) by (rule fits_outcome)
  have Suc: "?n = Suc (?n - 1)" using bits(1) by simp
  have v: "signed_take_bit (?n - 1) (bigint_value b) = ?t - 2 ^ ?n * of_bool (bit (bigint_value b) (?n - 1))"
    using signed_take_bit_eq_take_bit_minus [of "?n - 1" "bigint_value b"] Suc by simp
  have nz: "bits \<noteq> 0" using bits(1) by auto
  have test: "bigint_bit c (bits - 1) \<longleftrightarrow> bit (bigint_value b) (?n - 1)" if "bigint_ok c" "bigint_value c = ?t" for c
    using that bits(1) by (simp add: bigint_bit_iff bigint_ok_nonempty pre bit_take_bit_iff)
  show ?thesis
  proof (cases "bit (bigint_value b) (?n - 1)")
    case False
    then show ?thesis using trunc test nz v by (auto simp: as_int_n_def bigint_outcome_cases)
  next
    case True
    have "bigint_fits (?t - 2 ^ ?n)" using fit t_less unfolding bigint_fits_def fits_limbs_def by linarith
    then have sub: "bigint_outcome alloc TooLarge True (?t - 2 ^ ?n) (bigint_sub alloc c m)"
      if "bigint_ok c" "bigint_value c = ?t" "bigint_ok m" "bigint_value m = 2 ^ ?n" for c m
      using add_with_sign_outcome [OF that(1,3), of alloc True] that unfolding bigint_sub_def by (auto intro: fits_outcome)
    have shl: "bigint_outcome alloc ResultTooLarge True (2 ^ ?n) (bigint_shl alloc (JsBigInt [1]) bits)"
      using shl_outcome [OF one_ok(1), of alloc bits] fit(2) by (auto simp: one_ok intro: fits_outcome)
    have "bigint_outcome alloc TooLarge True (?t - 2 ^ ?n) (and_then (truncate_to_bits alloc b bits) (\<lambda>c.
        if bigint_bit c (bits - 1) then and_then (bigint_shl alloc (JsBigInt [1]) bits) (bigint_sub alloc c) else Inr c))"
      using True by (intro outcome_bind [OF trunc]) (simp add: test outcome_bind [OF shl] sub)
    then show ?thesis using nz v True by (simp add: as_int_n_def)
  qed
qed

end
