(* ===== verification/BigInt_Convert.thy ===== *)
theory BigInt_Convert
  imports BigInt_Div BigInt_Bits
begin

text \<open>Comparison, conversion from and to machine integers, and exponentiation.\<close>

section \<open>Comparison\<close>

lemma signed_value_offset:
  "xs \<noteq> [] \<Longrightarrow> signed_value xs = limbs_value xs - (if bit (last xs) 31 then 2 ^ (32 * length xs) else 0)"
proof -
  assume ne: "xs \<noteq> []"
  then have "Suc (32 * length xs - 1) = 32 * length xs" by (cases xs) simp_all
  moreover have "take_bit (32 * length xs) (limbs_value xs) = limbs_value xs"
    by (simp add: take_bit_int_eq_self limbs_value_less)
  ultimately show ?thesis
    using signed_take_bit_eq_take_bit_minus [of "32 * length xs - 1" "limbs_value xs"] bit_last_limb [OF ne]
    by (simp add: signed_value_def)
qed

lemma shorter_is_smaller:
  assumes "bigint_ok a" "bigint_ok b" "length (limbs a) < length (limbs b)"
  shows "\<bar>bigint_value a\<bar> \<le> 2 ^ (32 * length (limbs a) - 1)" "\<bar>bigint_value b\<bar> \<ge> 2 ^ (32 * length (limbs a) - 1)"
    "bigint_value b < 0 \<Longrightarrow> bigint_value b < - (2 ^ (32 * length (limbs a) - 1))"
proof -
  have ne: "limbs a \<noteq> []" using assms by (simp add: bigint_ok_nonempty)
  show "\<bar>bigint_value a\<bar> \<le> 2 ^ (32 * length (limbs a) - 1)"
    using fits_limbs_bound [OF bigint_value_fits [OF ne]] .
  have "0 < length (limbs a)" using ne by simp
  then have "2 \<le> length (limbs b)" "length (limbs a) \<le> length (limbs b) - 1" using assms(3) by linarith+
  moreover from this(1) have "\<not> fits_limbs (length (limbs b) - 1) (bigint_value b)"
    using normalized_not_fits [of "limbs b"] assms(2) by (simp add: bigint_ok_def bigint_value_def)
  ultimately have "\<not> fits_limbs (length (limbs a)) (bigint_value b)" using fits_limbs_mono by blast
  then show "\<bar>bigint_value b\<bar> \<ge> 2 ^ (32 * length (limbs a) - 1)"
    "bigint_value b < 0 \<Longrightarrow> bigint_value b < - (2 ^ (32 * length (limbs a) - 1))"
    unfolding fits_limbs_def by linarith+
qed

lemma cmp_diff: "(x :: int) - y = u - v \<Longrightarrow> cmp x y = cmp u v"
  by (rule ordering_eqI) auto

lemma bigint_compare_value:
  assumes a: "bigint_ok a" and b: "bigint_ok b"
  shows "bigint_compare a b = cmp (bigint_value a) (bigint_value b)"
proof (cases "is_negative a = is_negative b")
  case False
  then show ?thesis using bigint_negative_iff [OF a] bigint_negative_iff [OF b]
    by (auto simp: bigint_compare_def cmp_def)
next
  case sign: True
  have ne: "limbs a \<noteq> []" "limbs b \<noteq> []" using a b by (simp_all add: bigint_ok_nonempty)
  have fit: "bigint_value a < 2 ^ (32 * length (limbs a) - 1)" "bigint_value b < 2 ^ (32 * length (limbs b) - 1)"
    "- (2 ^ (32 * length (limbs a) - 1)) \<le> bigint_value a" "- (2 ^ (32 * length (limbs b) - 1)) \<le> bigint_value b"
    using bigint_value_fits [OF ne(1)] bigint_value_fits [OF ne(2)] by (simp_all add: fits_limbs_def)
  note neg = bigint_negative_iff [OF a] bigint_negative_iff [OF b]
  consider "length (limbs a) < length (limbs b)" | "length (limbs b) < length (limbs a)" | "length (limbs a) = length (limbs b)"
    by linarith
  then show ?thesis
  proof cases
    case 1
    then have "cmp (bigint_value a) (bigint_value b) = (if is_negative a then Greater else Less)"
      using shorter_is_smaller [OF a b 1] fit sign neg by (auto simp: cmp_def)
    then show ?thesis using 1 sign by (auto simp: bigint_compare_def Let_def cmp_def reverse_ordering_def)
  next
    case 2
    then have "cmp (bigint_value a) (bigint_value b) = (if is_negative a then Less else Greater)"
      using shorter_is_smaller [OF b a 2] fit sign neg by (auto simp: cmp_def)
    then show ?thesis using 2 sign by (auto simp: bigint_compare_def Let_def cmp_def reverse_ordering_def)
  next
    case 3
    have m: "map ((!) (limbs a)) [0..<length (limbs a)] = limbs a" "map ((!) (limbs b)) [0..<length (limbs a)] = limbs b"
      using 3 map_nth [of "limbs a"] map_nth [of "limbs b"] by simp_all
    have "bit (last (limbs a)) 31 = bit (last (limbs b)) 31"
      using sign is_negative_bit [OF ne(1)] is_negative_bit [OF ne(2)] by (cases a; cases b) simp
    then have "bigint_value a - bigint_value b = limbs_value (limbs a) - limbs_value (limbs b)"
      using 3 ne by (simp add: bigint_value_def signed_value_offset)
    then have "cmp (bigint_value a) (bigint_value b) = cmp (limbs_value (limbs a)) (limbs_value (limbs b))" by (rule cmp_diff)
    moreover have "bigint_compare a b = compare_down ((!) (limbs a)) ((!) (limbs b)) (length (limbs a))"
      using 3 sign by (auto simp: bigint_compare_def Let_def cmp_def)
    ultimately show ?thesis unfolding compare_down_value m by (simp add: cmp_def)
  qed
qed

interpretation bigint_ord: rust_ord bigint_ok bigint_compare
  by (rule rust_ord_by_key [where key = bigint_value]) (simp_all add: bigint_compare_value bigint_value_inject)

section \<open>Machine integers\<close>

lemma normalize_ok:
  assumes "xs \<noteq> []" "length xs \<le> 4"
  shows "bigint_ok (JsBigInt (normalize_limbs xs))" "bigint_value (JsBigInt (normalize_limbs xs)) = signed_value xs"
proof -
  note n = normalize_limbs_spec [OF assms(1)]
  have "fits_limbs MAX_LIMBS (signed_value xs)"
    using fits_limbs_mono [OF _ signed_value_fits [OF assms(1)], of MAX_LIMBS] assms(2) by (simp add: MAX_LIMBS_eq)
  then show "bigint_ok (JsBigInt (normalize_limbs xs))" "bigint_value (JsBigInt (normalize_limbs xs)) = signed_value xs"
    using n bigint_fits_iff_normalized [OF n(1)] by (simp_all add: bigint_ok_def bigint_value_def bigint_fits_def)
qed

lemma split_value: "uint (fst (split_u64 v)) + 4294967296 * uint (snd (split_u64 v)) = uint v"
proof -
  have "uint (snd (split_u64 v)) = uint v div 4294967296"
    using uint_high [of v] int_div_less [of 4294967296 "uint v" "2 ^ 32"] uint_lt2p [of v]
    by (simp add: split_u64_def unsigned_ucast_eq take_bit_int_eq_self pos_imp_zdiv_nonneg_iff)
  then show ?thesis by (simp add: split_low)
qed

lemma from_i32_value: "bigint_ok (bigint_from_i32 v)" "bigint_value (bigint_from_i32 v) = sint v"
  by (simp_all add: bigint_from_i32_def bigint_ok_def normalized_def MAX_LIMBS_eq bigint_value_def signed_value_def sint_uint)

lemma from_i64_value: "bigint_ok (bigint_from_i64 v)" "bigint_value (bigint_from_i64 v) = sint v"
proof -
  have "signed_value [fst (split_u64 v), snd (split_u64 v)] = sint v"
    using split_value [of v] by (simp add: signed_value_def sint_uint)
  then show "bigint_ok (bigint_from_i64 v)" "bigint_value (bigint_from_i64 v) = sint v"
    unfolding bigint_from_i64_def by (simp_all add: normalize_ok)
qed

lemma from_u64_value: "bigint_ok (bigint_from_u64 v)" "bigint_value (bigint_from_u64 v) = uint v"
proof -
  have "uint v < 2 ^ 95" using uint_lt2p [of v] by simp
  then have "signed_value [fst (split_u64 v), snd (split_u64 v), 0] = uint v"
    using split_value [of v] unsigned_signed_value [of "[fst (split_u64 v), snd (split_u64 v), 0]"] by simp
  then show "bigint_ok (bigint_from_u64 v)" "bigint_value (bigint_from_u64 v) = uint v"
    unfolding bigint_from_u64_def by (simp_all add: normalize_ok)
qed

lemma from_i128_value: "bigint_ok (bigint_from_i128 v)" "bigint_value (bigint_from_i128 v) = sint v"
proof -
  let ?xs = "map (\<lambda>i. ucast (drop_bit (32 * i) v)) [0..<4] :: u32 list"
  have xs: "?xs = [ucast v, ucast (drop_bit 32 v), ucast (drop_bit 64 v), ucast (drop_bit 96 v)]"
    by (simp add: upt_rec)
  have "limbs_value ?xs = take_bit (32 * 4) (uint v)"
    by (rule limbs_value_bitsI) (auto simp: bit_ucast_iff bit_drop_bit_eq bit_uint_iff dest: bit_imp_le_length)
  then have "signed_value ?xs = sint v" by (simp add: signed_value_def sint_uint signed_take_bit_take_bit)
  then show "bigint_ok (bigint_from_i128 v)" "bigint_value (bigint_from_i128 v) = sint v"
    unfolding bigint_from_i128_def xs [symmetric] by (simp_all add: normalize_ok)
qed

lemma low_u64_bits:
  assumes "limbs b \<noteq> []"
  shows "uint (low_u64_twos_complement b) = take_bit 64 (bigint_value b)"
proof (rule bit_eqI)
  fix n :: nat
  consider "n < 32" | "32 \<le> n" "n < 64" | "64 \<le> n" by linarith
  then show "bit (uint (low_u64_twos_complement b)) n \<longleftrightarrow> bit (take_bit 64 (bigint_value b)) n"
  proof cases
    case 2
    then have "n div 32 = 1" "n mod 32 = n - 32" by (simp_all add: le_mod_geq le_div_geq)
    moreover have "\<not> bit (limb b 0) n" using 2 by (auto dest: bit_imp_le_length)
    ultimately show ?thesis using 2 assms
      by (auto simp: low_u64_twos_complement_def LIMB_BITS_def bit_uint_iff bit_take_bit_iff bit_or_iff bit_push_bit_iff bit_ucast_iff bit_bigint_value)
  next
    case 3
    then show ?thesis by (auto simp: bit_uint_iff bit_take_bit_iff dest: bit_imp_le_length)
  qed (use assms in \<open>simp add: low_u64_twos_complement_def LIMB_BITS_def bit_uint_iff bit_take_bit_iff bit_or_iff bit_push_bit_iff bit_ucast_iff bit_bigint_value\<close>)
qed

lemma low_u64_value: "limbs b \<noteq> [] \<Longrightarrow> low_u64_twos_complement b = word_of_int (bigint_value b)"
  using low_u64_bits [of b] by (simp add: word_uint_eq_iff uint_word_of_int_eq)

lemma bigint_length_iff: "bigint_ok b \<Longrightarrow> 0 < n \<Longrightarrow> length (limbs b) \<le> n \<longleftrightarrow> fits_limbs n (bigint_value b)"
  by (simp add: bigint_ok_def bigint_value_def normalized_length_iff)

lemma to_i64_value:
  assumes b: "bigint_ok b"
  shows "bigint_to_i64 b = Some v \<longleftrightarrow> bigint_value b = sint v"
proof -
  let ?w = "word_of_int (bigint_value b) :: u64"
  have "length (limbs b) > 2 \<longleftrightarrow> \<not> fits_limbs 2 (bigint_value b)" using bigint_length_iff [OF b, of 2] by auto
  moreover have "fits_limbs 2 (sint (u :: u64))" for u
    using sint_lt [of u] sint_ge [of u] by (simp add: fits_limbs_def)
  moreover have "bigint_from_i64 ?w = b \<longleftrightarrow> sint ?w = bigint_value b"
    using bigint_value_inject [OF from_i64_value(1) b] by (simp add: from_i64_value)
  moreover have "bigint_to_i64 b = (if length (limbs b) > 2 then None else if bigint_from_i64 ?w = b then Some ?w else None)"
    using low_u64_value [OF bigint_ok_nonempty [OF b]] by (simp add: bigint_to_i64_def low_u64_twos_complement_def Let_def)
  ultimately show ?thesis by auto
qed

lemma to_u64_value:
  assumes b: "bigint_ok b"
  shows "bigint_to_u64 b = Some v \<longleftrightarrow> bigint_value b = uint v"
proof -
  let ?x = "bigint_value b"
  have ne: "limbs b \<noteq> []" using b by (rule bigint_ok_nonempty)
  have run: "bigint_to_u64 b = (if ?x < 0 \<or> length (limbs b) > 3 \<or> length (limbs b) = 3 \<and> limb b 2 \<noteq> 0 then None else Some (word_of_int ?x))"
    using low_u64_value [OF ne] bigint_negative_iff [OF b] by (auto simp: bigint_to_u64_def low_u64_twos_complement_def)
  have "0 \<le> ?x \<Longrightarrow> length (limbs b) \<le> 3 \<and> (length (limbs b) = 3 \<longrightarrow> limb b 2 = 0) \<longleftrightarrow> ?x < 2 ^ 64"
  proof (intro iffI)
    assume nn: "0 \<le> ?x" and l: "length (limbs b) \<le> 3 \<and> (length (limbs b) = 3 \<longrightarrow> limb b 2 = 0)"
    have "limb b i = 0" if "2 \<le> i" for i
    proof (cases "i < length (limbs b)")
      case True
      then have "i = 2" "length (limbs b) = 3" using l that by linarith+
      then show ?thesis using l by simp
    next
      case False
      then show ?thesis using nn bigint_negative_iff [OF b] by (simp add: limb_def get_def sign_extension_def)
    qed
    then have "\<not> bit ?x n" if "64 \<le> n" for n
      using that div_le_mono [OF that, of 32] by (simp add: bit_bigint_value ne)
    then have "take_bit 64 ?x = ?x" by (intro bit_eqI) (metis bit_take_bit_iff not_less)
    then show "?x < 2 ^ 64" by (metis take_bit_int_less_exp)
  next
    assume nn: "0 \<le> ?x" and x: "?x < 2 ^ 64"
    have "fits_limbs 3 ?x" using nn x by (simp add: fits_limbs_def)
    moreover have "limb b 2 = 0"
    proof (rule bit_word_eqI)
      fix j assume "j < LENGTH(32)"
      then have "(64 + j) div 32 = 2" "(64 + j) mod 32 = j" by (auto intro: div_nat_eqI mod_nat_eqI)
      moreover have "take_bit 64 ?x = ?x" using nn x by (simp add: take_bit_int_eq_self)
      ultimately show "bit (limb b 2) j = bit (0 :: u32) j"
        using bit_bigint_value [OF ne, of "64 + j"] bit_take_bit_iff [of 64 ?x "64 + j"] by simp
    qed
    ultimately show "length (limbs b) \<le> 3 \<and> (length (limbs b) = 3 \<longrightarrow> limb b 2 = 0)"
      using bigint_length_iff [OF b, of 3] by simp
  qed
  then have "bigint_to_u64 b = (if 0 \<le> ?x \<and> ?x < 2 ^ 64 then Some (word_of_int ?x) else None)"
    unfolding run by auto
  then show ?thesis using uint_lt2p [of v] by (auto simp: uint_word_of_int)
qed

lemma bit_placed_limb: "n < 128 \<Longrightarrow> bit (push_bit k (ucast (x :: u32)) :: 128 word) n \<longleftrightarrow> k \<le> n \<and> bit x (n - k)"
  by (auto simp: bit_push_bit_iff bit_ucast_iff)

lemma low_u128_bits:
  assumes "limbs b \<noteq> []"
  shows "(ucast (limb b 0) OR push_bit 32 (ucast (limb b 1)) OR push_bit 64 (ucast (limb b 2)) OR
    push_bit 96 (ucast (limb b 3)) :: 128 word) = word_of_int (bigint_value b)" (is "?w = _")
proof (rule bit_word_eqI)
  fix n assume n: "n < LENGTH(128)"
  have big: "\<not> bit (limb b i) m" if "32 \<le> m" for i m using that by (auto dest: bit_imp_le_length)
  have w: "bit ?w n \<longleftrightarrow> bit (limb b 0) n \<or> 32 \<le> n \<and> bit (limb b 1) (n - 32) \<or>
      64 \<le> n \<and> bit (limb b 2) (n - 64) \<or> 96 \<le> n \<and> bit (limb b 3) (n - 96)"
    using n bit_placed_limb [of n 0 "limb b 0"] by (simp add: bit_or_iff bit_placed_limb)
  have v: "bit (word_of_int (bigint_value b) :: 128 word) n \<longleftrightarrow> bit (limb b (n div 32)) (n mod 32)"
    using n by (simp add: bit_word_of_int_iff bit_bigint_value assms)
  have split: "n = 32 * (n div 32) + n mod 32" "n mod 32 < 32" by simp_all
  have "n div 32 < 4" using n by (simp add: div_less_iff_less_mult)
  then consider "n div 32 = 0" | "n div 32 = 1" | "n div 32 = 2" | "n div 32 = 3" by linarith
  then show "bit ?w n \<longleftrightarrow> bit (word_of_int (bigint_value b) :: 128 word) n"
  proof cases
    case 1
    then have "n < 32" "n mod 32 = n" by simp_all
    then show ?thesis unfolding w v 1 by simp
  next
    case 2
    with split have "32 \<le> n" "n < 64" "n mod 32 = n - 32" by linarith+
    then show ?thesis unfolding w v 2 by (simp add: big)
  next
    case 3
    with split have "64 \<le> n" "n < 96" "n mod 32 = n - 64" by linarith+
    then show ?thesis unfolding w v 3 by (simp add: big)
  next
    case 4
    with split have "96 \<le> n" "n < 128" "n mod 32 = n - 96" by linarith+
    then show ?thesis unfolding w v 4 by (simp add: big)
  qed
qed

lemma to_i128_value:
  assumes b: "bigint_ok b"
  shows "bigint_to_i128 b = Some v \<longleftrightarrow> bigint_value b = sint v"
proof -
  let ?w = "word_of_int (bigint_value b) :: 128 word"
  have "length (limbs b) > 4 \<longleftrightarrow> \<not> fits_limbs 4 (bigint_value b)" using bigint_length_iff [OF b, of 4] by auto
  moreover have "fits_limbs 4 (sint (u :: 128 word))" for u
    using sint_lt [of u] sint_ge [of u] by (simp add: fits_limbs_def)
  moreover have "bigint_from_i128 ?w = b \<longleftrightarrow> sint ?w = bigint_value b"
    using bigint_value_inject [OF from_i128_value(1) b] by (simp add: from_i128_value)
  moreover have "bigint_to_i128 b = (if length (limbs b) > 4 then None else if bigint_from_i128 ?w = b then Some ?w else None)"
    unfolding bigint_to_i128_def low_u128_bits [OF bigint_ok_nonempty [OF b]] Let_def ..
  ultimately show ?thesis by auto
qed

section \<open>Exponentiation\<close>

lemma pow_split: "X ^ n = (if odd n then X else 1) * (X * X) ^ (n div 2)" for X :: int
proof -
  have "X ^ n = X ^ (2 * (n div 2) + n mod 2)" by simp
  also have "\<dots> = (X * X) ^ (n div 2) * X ^ (n mod 2)" by (simp only: power_add power_mult power2_eq_square)
  finally show ?thesis by (cases "odd n") (simp_all add: odd_iff_mod_2_eq_one mult.commute)
qed

lemma abs_mult_power_ge: "x \<noteq> 0 \<Longrightarrow> \<bar>y :: int\<bar> \<le> \<bar>y * x ^ n\<bar>"
  using mult_left_mono [of 1 "\<bar>x\<bar> ^ n" "\<bar>y\<bar>"] one_le_power [of "\<bar>x\<bar>" n] by (simp add: abs_mult power_abs)

lemma outcome_bind_need:
  assumes "bigint_outcome alloc e need' v r" "need \<Longrightarrow> need'"
    "\<And>c. need' \<Longrightarrow> bigint_ok c \<Longrightarrow> bigint_value c = v \<Longrightarrow> bigint_outcome alloc e need w (f c)"
  shows "bigint_outcome alloc e need w (and_then r f)"
proof (cases r)
  case (Inl x)
  then show ?thesis using failed_weaken [OF bigint_outcome_InlD [of alloc e need' v x]] assms(1,2) by (simp add: bigint_outcome_cases)
next
  case (Inr c)
  then show ?thesis using bigint_outcome_InrD [of alloc e need' v c] assms by simp
qed

lemma mul_promoted:
  "bigint_ok a \<Longrightarrow> bigint_ok b \<Longrightarrow> bigint_outcome alloc ResultTooLarge (bigint_fits \<bar>bigint_value a * bigint_value b\<bar>)
     (bigint_value a * bigint_value b) (map_err promote_size_error (bigint_mul alloc a b))"
  by (intro promote_outcome mul_outcome)

lemma fits_power_factors:
  fixes X R :: int
  assumes fit: "bigint_fits \<bar>R * (X * X) ^ k\<bar>" and "X = 0 \<Longrightarrow> bigint_fits \<bar>R\<bar>" "X = 0 \<or> R \<noteq> 0"
  shows "bigint_fits \<bar>R\<bar>" "0 < k \<Longrightarrow> bigint_fits \<bar>X * X\<bar>"
proof -
  have zero: "bigint_fits 0" using bigint_ok_fits [OF bigint_zero_ok(1)] by (simp add: bigint_zero_ok)
  show "bigint_fits \<bar>R\<bar>"
  proof (cases "X = 0")
    case False
    then have "\<bar>R\<bar> \<le> \<bar>R * (X * X) ^ k\<bar>" by (intro abs_mult_power_ge) simp
    then show ?thesis using fit by (rule fits_abs_mono)
  qed (use assms in blast)
  show "bigint_fits \<bar>X * X\<bar>" if pos: "0 < k"
  proof (cases "X = 0")
    case False
    then have "R \<noteq> 0" using assms(3) by simp
    obtain j where j: "k = Suc j" using pos by (cases k) simp_all
    have "\<bar>X * X\<bar> \<le> \<bar>X * X * (X * X) ^ j\<bar>" using False by (intro abs_mult_power_ge) simp
    also have "\<dots> \<le> \<bar>X * X * (X * X) ^ j * R ^ 1\<bar>" using \<open>R \<noteq> 0\<close> by (rule abs_mult_power_ge)
    also have "X * X * (X * X) ^ j * R ^ 1 = R * (X * X) ^ k"
      unfolding j by (simp only: power_one_right power_Suc mult.commute)
    finally show ?thesis using fit by (rule fits_abs_mono)
  qed (simp add: zero)
qed

lemma pow_loop_outcome:
  assumes "bigint_ok result" "bigint_ok base" "bigint_fits \<bar>bigint_value result\<bar>"
    "bigint_value base = 0 \<or> bigint_value result \<noteq> 0"
  shows "bigint_outcome alloc ResultTooLarge (bigint_fits \<bar>bigint_value result * bigint_value base ^ unat n\<bar>)
    (bigint_value result * bigint_value base ^ unat n) (pow_loop alloc result base n)"
  using assms
proof (induction "unat n" arbitrary: n result base rule: less_induct)
  case less
  let ?R = "bigint_value result" and ?X = "bigint_value base" and ?k = "unat n div 2"
  show ?case
  proof (cases "n = 0")
    case True
    then show ?thesis using less.prems by (simp add: pow_loop.simps [of _ _ _ 0] bigint_outcome_def)
  next
    case False
    define R' where "R' = (if odd (unat n) then ?R * ?X else ?R)"
    have V: "?R * ?X ^ unat n = R' * (?X * ?X) ^ ?k" using pow_split [of ?X "unat n"] by (simp add: R'_def)
    have "unat (n AND 1) = unat n mod 2" by (simp add: and_one_eq unat_mod)
    then have odd: "n AND 1 = 1 \<longleftrightarrow> odd (unat n)" by (simp add: word_unat_eq_iff odd_iff_mod_2_eq_one)
    define m where "m = drop_bit 1 n"
    have h: "unat m = ?k" "0 < m \<longleftrightarrow> 0 < ?k" "?k < unat n"
      using False by (simp_all add: m_def drop_bit_eq_div unat_div unat_gt_0 word_less_nat_alt flip: word_neq_0_conv)
    have nz: "?X = 0 \<or> R' \<noteq> 0" "?X = 0 \<Longrightarrow> bigint_fits \<bar>R'\<bar>"
      using less.prems bigint_ok_fits [OF bigint_zero_ok(1)] by (auto simp: R'_def bigint_zero_ok)
    have first: "bigint_outcome alloc ResultTooLarge (bigint_fits \<bar>R'\<bar>) R'
        (if n AND 1 = 1 then map_err promote_size_error (bigint_mul alloc result base) else Inr result)"
      using mul_promoted [OF less.prems(1,2), of alloc] less.prems by (simp add: odd R'_def bigint_outcome_def)
    have second: "bigint_outcome alloc ResultTooLarge (0 < ?k \<longrightarrow> bigint_fits \<bar>?X * ?X\<bar>) (if 0 < ?k then ?X * ?X else ?X)
        (if 0 < m then map_err promote_size_error (bigint_mul alloc base base) else Inr base)"
      using mul_promoted [OF less.prems(2,2), of alloc] less.prems by (cases "0 < ?k") (simp_all add: h bigint_outcome_def)
    have rest: "bigint_outcome alloc ResultTooLarge (bigint_fits \<bar>R' * (?X * ?X) ^ ?k\<bar>) (R' * (?X * ?X) ^ ?k) (pow_loop alloc c d m)"
      if "bigint_ok c" "bigint_value c = R'" "bigint_fits \<bar>R'\<bar>" "bigint_ok d" "bigint_value d = (if 0 < ?k then ?X * ?X else ?X)" for c d
      using less.hyps [OF _ that(1,4), of m] that nz h by (cases "0 < ?k") auto
    show ?thesis unfolding V pow_loop.simps [of alloc result base n] Let_def m_def [symmetric] using False
      by (simp only: if_False) (intro outcome_bind_need [OF first] outcome_bind_need [OF second] rest; (use fits_power_factors nz in blast)?)
  qed
qed

lemma pow_outcome:
  assumes b: "bigint_ok b" and e: "bigint_ok e"
  shows "is_negative e \<Longrightarrow> bigint_value e < 0 \<and> bigint_pow alloc b e = Inl NegativeExponent"
    "bigint_value e \<ge> 2 ^ 64 \<Longrightarrow> bigint_pow alloc b e = Inl ResultTooLarge"
    "0 \<le> bigint_value e \<Longrightarrow> bigint_value e < 2 ^ 64 \<Longrightarrow>
      bigint_outcome alloc ResultTooLarge (bigint_fits \<bar>bigint_value b ^ nat (bigint_value e)\<bar>)
        (bigint_value b ^ nat (bigint_value e)) (bigint_pow alloc b e)"
proof -
  note neg = bigint_negative_iff [OF e]
  show "is_negative e \<Longrightarrow> bigint_value e < 0 \<and> bigint_pow alloc b e = Inl NegativeExponent"
    using neg by (simp add: bigint_pow_def)
  show "bigint_value e \<ge> 2 ^ 64 \<Longrightarrow> bigint_pow alloc b e = Inl ResultTooLarge"
  proof -
    assume big: "bigint_value e \<ge> 2 ^ 64"
    then have "bigint_to_u64 e \<noteq> Some v" for v using to_u64_value [OF e, of v] uint_lt2p [of v] by simp
    then show ?thesis using big neg by (cases "bigint_to_u64 e") (auto simp: bigint_pow_def)
  qed
  assume x: "0 \<le> bigint_value e" "bigint_value e < 2 ^ 64"
  then have v: "bigint_to_u64 e = Some (word_of_int (bigint_value e))" "unat (word_of_int (bigint_value e) :: u64) = nat (bigint_value e)"
    using to_u64_value [OF e, of "word_of_int (bigint_value e)"] by (simp_all add: uint_word_of_int unat_eq_nat_uint)
  have "bigint_value (bigint_from_i32 1) = 1" by (simp add: from_i32_value)
  then show "bigint_outcome alloc ResultTooLarge (bigint_fits \<bar>bigint_value b ^ nat (bigint_value e)\<bar>)
        (bigint_value b ^ nat (bigint_value e)) (bigint_pow alloc b e)"
    using pow_loop_outcome [OF from_i32_value(1) b, of 1 alloc "word_of_int (bigint_value e)"] x v neg bigint_ok_fits [OF from_i32_value(1), of 1]
    by (simp add: bigint_pow_def)
qed

end
