(* ===== verification/BigInt_Text.thy ===== *)
theory BigInt_Text
  imports BigInt_Convert
begin

text \<open>
  Rendering and parsing of BigInts in a radix, from \<^verbatim>\<open>crates/fusor-runtime/src/bigint.rs\<close>. Text is
  a list of Unicode scalar values; the rendering loop is a partial function because its source is a
  \<^verbatim>\<open>while\<close> loop, and theory \<^verbatim>\<open>BigInt_Literal\<close> shows that it always returns.
\<close>

type_synonym rust_text = "nat list"

section \<open>Characters\<close>

text \<open>\<^verbatim>\<open>char::from_digit(digit, 36)\<close> and \<^verbatim>\<open>char::to_digit(radix)\<close> for radices up to 36.\<close>

definition digit_char :: "u32 \<Rightarrow> nat" where
  "digit_char digit =
     (if unat digit < 10 then 48 + unat digit
      else if unat digit < 36 then 97 + (unat digit - 10)
      else 63)"

definition to_digit :: "nat \<Rightarrow> u32 \<Rightarrow> u32 option" where
  "to_digit c radix =
     (let digit = (if 48 \<le> c \<and> c \<le> 57 then c - 48
                   else if 97 \<le> c \<and> c \<le> 122 then c - 97 + 10
                   else if 65 \<le> c \<and> c \<le> 90 then c - 65 + 10
                   else 36)
      in if digit < unat radix then Some (word_of_nat digit) else None)"

text \<open>\<^verbatim>\<open>char::is_whitespace\<close>: the Unicode property White_Space.\<close>

definition char_is_whitespace :: "nat \<Rightarrow> bool" where
  "char_is_whitespace c \<longleftrightarrow>
     9 \<le> c \<and> c \<le> 13 \<or> c = 32 \<or> c = 133 \<or> c = 160 \<or> c = 5760 \<or> 8192 \<le> c \<and> c \<le> 8202 \<or>
     c = 8232 \<or> c = 8233 \<or> c = 8239 \<or> c = 8287 \<or> c = 12288"

definition is_ecmascript_whitespace :: "nat \<Rightarrow> bool" where
  "is_ecmascript_whitespace c \<longleftrightarrow>
     c = 9 \<or> c = 10 \<or> c = 11 \<or> c = 12 \<or> c = 13 \<or> c = 32 \<or> c = 160 \<or> c = 65279 \<or> char_is_whitespace c"

definition trim_matches :: "(nat \<Rightarrow> bool) \<Rightarrow> rust_text \<Rightarrow> rust_text" where
  "trim_matches P text = rev (dropWhile P (rev (dropWhile P text)))"

definition strip_prefix :: "rust_text \<Rightarrow> rust_text \<Rightarrow> rust_text option" where
  "strip_prefix prefix text =
     (if take (length prefix) text = prefix then Some (drop (length prefix) text) else None)"

primrec find_radix_prefix :: "(rust_text \<times> u32) list \<Rightarrow> rust_text \<Rightarrow> u32 \<times> rust_text" where
  "find_radix_prefix [] text = (10, text)"
| "find_radix_prefix (p # ps) text =
     (case strip_prefix (fst p) text of
        Some rest \<Rightarrow> (snd p, rest)
      | None \<Rightarrow> find_radix_prefix ps text)"

definition detect_radix_prefix :: "rust_text \<Rightarrow> u32 \<times> rust_text" where
  "detect_radix_prefix text =
     find_radix_prefix [([48, 120], 16), ([48, 88], 16), ([48, 111], 8), ([48, 79], 8), ([48, 98], 2), ([48, 66], 2)] text"

section \<open>Rendering\<close>

text \<open>The in-place division visits the limbs from the most significant one down.\<close>

primrec divide_down :: "u64 \<Rightarrow> u64 \<Rightarrow> u32 list \<Rightarrow> (bigint_error, u32 list \<times> u64) result" where
  "divide_down divisor remainder [] = Inr ([], remainder)"
| "divide_down divisor remainder (x # xs) =
     (let current = push_bit LIMB_BITS remainder OR ucast x
      in and_then (expect_u32 (uint (current div divisor))) (\<lambda>q.
         and_then (divide_down divisor (current mod divisor) xs) (\<lambda>(qs, r). Inr (q # qs, r))))"

definition divide_magnitude_by_small :: "u32 list \<Rightarrow> u32 \<Rightarrow> (bigint_error, u32 list \<times> u64) result" where
  "divide_magnitude_by_small xs divisor =
     and_then (divide_down (ucast divisor) 0 (rev xs)) (\<lambda>(qs, r). Inr (rev qs, r))"

fun pop_zeros :: "u32 list \<Rightarrow> u32 list" where
  "pop_zeros (x # y # rest) = (if x = 0 then pop_zeros (y # rest) else x # y # rest)"
| "pop_zeros xs = xs"

definition normalize_magnitude :: "u32 list \<Rightarrow> u32 list" where
  "normalize_magnitude xs = rev (pop_zeros (rev xs))"

partial_function (option) digits_loop ::
  "u32 \<Rightarrow> u32 list \<Rightarrow> rust_text \<Rightarrow> (bigint_error, rust_text) result option" where
  [code]: "digits_loop radix m digits =
     (if list_all (\<lambda>x. x = 0) m then Some (Inr digits)
      else case divide_magnitude_by_small m radix of
             Inl e \<Rightarrow> Some (Inl e)
           | Inr (m', remainder) \<Rightarrow>
               let digit = (if remainder < 2 ^ 32 then ucast remainder else - 1)
               in digits_loop radix (normalize_magnitude m') (digits @ [digit_char digit]))"

definition to_string_radix :: "allocator \<Rightarrow> js_bigint \<Rightarrow> u32 \<Rightarrow> (bigint_error, rust_text) result option" where
  "to_string_radix alloc b radix =
     (if \<not> (2 \<le> radix \<and> radix \<le> 36) then Some (Inl InvalidRadix)
      else if bigint_is_zero b then Some (Inr [48])
      else case magnitude alloc b of
             Inl e \<Rightarrow> Some (Inl e)
           | Inr m \<Rightarrow>
               (case digits_loop radix (normalize_magnitude m) [] of
                  None \<Rightarrow> None
                | Some (Inl e) \<Rightarrow> Some (Inl e)
                | Some (Inr digits) \<Rightarrow>
                    if \<not> alloc 0 (length digits + of_bool (is_negative b)) then Some (Inl AllocationFailed)
                    else Some (Inr ((if is_negative b then [45] else []) @ rev digits))))"

section \<open>Parsing\<close>

text \<open>\<^verbatim>\<open>i32::try_from(value).unwrap_or(default)\<close>.\<close>

definition i32_or :: "u32 \<Rightarrow> u32 \<Rightarrow> u32" where
  "i32_or value_word default_word = (if value_word < 2 ^ 31 then value_word else default_word)"

definition parse_digit :: "allocator \<Rightarrow> u32 \<Rightarrow> js_bigint \<Rightarrow> js_bigint \<Rightarrow> nat \<Rightarrow> (bigint_error, js_bigint) result" where
  "parse_digit alloc radix multiplier v c =
     and_then (ok_or (to_digit c radix) InvalidLiteral) (\<lambda>digit.
     and_then (bigint_mul alloc v multiplier) (\<lambda>scaled.
       bigint_add alloc scaled (bigint_from_i32 (i32_or digit 0))))"

definition split_sign :: "rust_text \<Rightarrow> bool \<times> bool \<times> rust_text" where
  "split_sign trimmed =
     (case strip_prefix [45] trimmed of
        Some rest \<Rightarrow> (True, True, rest)
      | None \<Rightarrow>
          (case strip_prefix [43] trimmed of
             Some rest \<Rightarrow> (False, True, rest)
           | None \<Rightarrow> (False, False, trimmed)))"

definition from_str_radix :: "allocator \<Rightarrow> rust_text \<Rightarrow> u32 \<Rightarrow> (bigint_error, js_bigint) result" where
  "from_str_radix alloc text requested_radix =
     (if \<not> (2 \<le> requested_radix \<and> requested_radix \<le> 36) then Inl InvalidRadix
      else let trimmed = trim_matches is_ecmascript_whitespace text
           in if trimmed = [] then Inr bigint_zero
              else case split_sign trimmed of (negative, explicit_sign, unsigned_text) \<Rightarrow>
                case (if requested_radix = 10 then detect_radix_prefix unsigned_text
                      else (requested_radix, unsigned_text)) of (radix, digits) \<Rightarrow>
                  if explicit_sign \<and> radix \<noteq> requested_radix then Inl InvalidLiteral
                  else if digits = [] then Inl InvalidLiteral
                  else and_then (try_fold (parse_digit alloc radix (bigint_from_i32 (i32_or radix 10))) digits bigint_zero) (\<lambda>v.
                    if negative then bigint_neg alloc v else Inr v))"

end
