(* ===== verification/BigInt_Literal.thy ===== *)
theory BigInt_Literal
  imports BigInt_Text
begin

text \<open>
  The text of a BigInt, against a reference rendering and a reference parser on the integers: the
  renderer produces the digits of the value, the parser reads exactly the literals the reference
  parser reads, and the two are inverse.
\<close>


section \<open>Dividing by a small radix\<close>

lemma small_current:
  assumes "uint r < 36"
  shows "uint (push_bit LIMB_BITS r OR ucast (x :: u32) :: u64) = uint r * 4294967296 + uint x"
proof -
  have "uint (push_bit 32 r OR ucast x :: u64) = take_bit 64 (push_bit 32 (uint r)) OR uint x"
    by (simp only: unsigned_or_eq unsigned_push_bit_eq uint_ucast_u64) simp
  also have "take_bit 64 (push_bit 32 (uint r)) = push_bit 32 (uint r)"
    using assms by (simp add: push_bit_eq_mult take_bit_int_eq_self)
  also have "\<dots> OR uint x = concat_bit 32 (uint x) (uint r)"
    using uint_u32_less [of x] by (simp add: concat_bit_def take_bit_int_eq_self or.commute)
  also have "\<dots> = uint r * 4294967296 + uint x"
    using uint_u32_less [of x] by (simp add: concat_bit_eq take_bit_int_eq_self push_bit_eq_mult)
  finally show ?thesis by (simp add: LIMB_BITS_def)
qed

lemma divide_down_value:
  assumes "2 \<le> uint d" "uint d \<le> 36" "uint r < uint d"
  shows "\<exists>qs r'. divide_down d r xs = Inr (qs, r') \<and> length qs = length xs \<and> uint r' < uint d \<and>
    uint r * 2 ^ (32 * length xs) + limbs_value (rev xs) = uint d * limbs_value (rev qs) + uint r'"
  using assms(3)
proof (induction xs arbitrary: r)
  case (Cons x xs)
  let ?c = "push_bit LIMB_BITS r OR ucast x :: u64"
  have c: "uint ?c = uint r * 4294967296 + uint x" using Cons.prems assms(2) by (intro small_current) simp
  have dm: "uint (?c div d) = uint ?c div uint d" "uint (?c mod d) = uint ?c mod uint d" by (simp_all add: uint_div uint_mod)
  have "uint r * 4294967296 + 4294967296 \<le> uint d * 4294967296"
    using Cons.prems mult_right_mono [of "uint r + 1" "uint d" 4294967296] by simp
  then have "uint ?c div uint d < 4294967296"
    using assms(1) uint_u32_less [of x] by (intro int_div_less) (simp_all add: c mult.commute)
  moreover have "0 \<le> uint ?c div uint d" using assms(1) by (simp add: pos_imp_zdiv_nonneg_iff)
  ultimately obtain q where q: "expect_u32 (uint (?c div d)) = Inr q" "uint q = uint ?c div uint d"
    by (simp add: expect_u32_def dm(1) uint_word_of_int)
  have "uint (?c mod d) < uint d" using assms(1) by (simp add: dm(2))
  from Cons.IH [OF this] obtain qs r' where ih: "divide_down d (?c mod d) xs = Inr (qs, r')" "length qs = length xs" "uint r' < uint d"
    "uint (?c mod d) * 2 ^ (32 * length xs) + limbs_value (rev xs) = uint d * limbs_value (rev qs) + uint r'" by blast
  have "uint r * 2 ^ (32 * length (x # xs)) + limbs_value (rev (x # xs)) = uint ?c * 2 ^ (32 * length xs) + limbs_value (rev xs)"
    by (simp add: c power_add algebra_simps)
  also have "uint ?c = uint d * uint q + uint (?c mod d)" by (simp add: dm(2) q(2))
  also have "(uint d * uint q + uint (?c mod d)) * 2 ^ (32 * length xs) + limbs_value (rev xs) =
      uint d * limbs_value (rev (q # qs)) + uint r'"
    using ih(2,4) by (simp add: algebra_simps)
  finally show ?case using q(1) ih(1,2,3) by (simp add: Let_def)
qed simp

lemma divide_by_small_value:
  assumes "2 \<le> radix" "radix \<le> 36"
  shows "\<exists>m' r. divide_magnitude_by_small m radix = Inr (m', r) \<and>
    limbs_value m' = limbs_value m div uint radix \<and> uint r = limbs_value m mod uint radix"
proof -
  have d: "2 \<le> uint radix" "uint radix \<le> 36" using assms by (simp_all add: word_le_def)
  then obtain qs r where q: "divide_down (ucast radix) 0 (rev m) = Inr (qs, r)" "uint r < uint radix"
    "limbs_value m = uint radix * limbs_value (rev qs) + uint r"
    using divide_down_value [of "ucast radix" 0 "rev m"] by auto
  then have "limbs_value m div uint radix = limbs_value (rev qs)" "limbs_value m mod uint radix = uint r"
    using int_div_pos_eq [OF q(3)] int_mod_pos_eq [OF q(3)] by simp_all
  then show ?thesis using q(1) by (simp add: divide_magnitude_by_small_def)
qed

lemma pop_zeros_value: "limbs_value (rev (pop_zeros xs)) = limbs_value (rev xs)"
  by (induction xs rule: pop_zeros.induct) simp_all

lemma normalize_magnitude_value [simp]: "limbs_value (normalize_magnitude xs) = limbs_value xs"
  by (simp add: normalize_magnitude_def pop_zeros_value)

lemma limbs_value_0_iff: "limbs_value xs = 0 \<longleftrightarrow> list_all (\<lambda>x. x = 0) xs"
  by (induction xs) (simp_all add: add_nonneg_eq_0_iff uint_0_iff)

section \<open>The reference rendering\<close>

text \<open>The digits of \<open>n\<close> in radix \<open>r\<close>, least significant first.\<close>

function radix_digits :: "nat \<Rightarrow> nat \<Rightarrow> nat list" where
  "radix_digits r n = (if n = 0 \<or> r < 2 then [] else n mod r # radix_digits r (n div r))"
  by pat_completeness auto
termination
  by (relation "measure (\<lambda>(r, n). n)") (auto intro: div_less_dividend)

declare radix_digits.simps [simp del]

definition digit_text :: "nat list \<Rightarrow> rust_text" where
  "digit_text ds = rev (map (\<lambda>d. digit_char (word_of_nat d)) ds)"

definition render :: "u32 \<Rightarrow> int \<Rightarrow> rust_text" where
  "render radix v =
     (if v = 0 then [48]
      else (if v < 0 then [45] else []) @
        digit_text (radix_digits (unat radix) (nat \<bar>v\<bar>)))"

lemma digits_loop_value:
  assumes "2 \<le> radix" "radix \<le> 36"
  shows "digits_loop radix m digits =
    Some (Inr (digits @ map (\<lambda>d. digit_char (word_of_nat d)) (radix_digits (unat radix) (nat (limbs_value m)))))"
proof (induction "nat (limbs_value m)" arbitrary: m digits rule: less_induct)
  case less
  let ?r = "uint radix"
  have r: "2 \<le> ?r" "?r \<le> 36" "nat ?r = unat radix" using assms by (simp_all add: word_le_def)
  show ?case
  proof (cases "limbs_value m = 0")
    case True
    then show ?thesis
      by (simp add: digits_loop.simps [of radix m] radix_digits.simps [of _ 0] flip: limbs_value_0_iff)
  next
    case False
    then have pos: "0 < limbs_value m" using limbs_value_nonneg [of m] by linarith
    obtain m' x where d: "divide_magnitude_by_small m radix = Inr (m', x)"
      "limbs_value m' = limbs_value m div ?r" "uint x = limbs_value m mod ?r"
      using divide_by_small_value [OF assms, of m] by auto
    have "uint x < ?r" using d(3) r pos_mod_bound [of ?r "limbs_value m"] by simp
    then have x: "uint x < 36" "x < 2 ^ 32" using r(2) by (simp_all add: word_less_def)
    have x3: "nat (limbs_value m mod ?r) = unat x" by (simp flip: d(3))
    have "limbs_value m div ?r < limbs_value m" using pos r by (intro int_div_less_self) simp_all
    then have "digits_loop radix (normalize_magnitude m') (digits @ [digit_char (ucast x)]) =
        Some (Inr ((digits @ [digit_char (ucast x)]) @ map (\<lambda>d. digit_char (word_of_nat d)) (radix_digits (unat radix) (nat (limbs_value m div ?r)))))"
      using less [of "normalize_magnitude m'"] pos d(2) by simp
    moreover have "digits_loop radix m digits = digits_loop radix (normalize_magnitude m') (digits @ [digit_char (ucast x)])"
      using False d(1) x(2) by (simp add: digits_loop.simps [of radix m] Let_def flip: limbs_value_0_iff)
    moreover have "nat (limbs_value m div ?r) = nat (limbs_value m) div unat radix" "nat (limbs_value m) mod unat radix = unat x"
      using nat_div_distrib [of "limbs_value m" ?r] nat_mod_distrib [of "limbs_value m" ?r] pos x3 by simp_all
    moreover have "(word_of_nat (unat x) :: u32) = ucast x" by (simp add: unsigned_ucast_eq word_unat_eq_iff unat_of_nat)
    moreover have "radix_digits (unat radix) (nat (limbs_value m)) = unat x # radix_digits (unat radix) (nat (limbs_value m) div unat radix)"
      using pos assms(1) calculation(4) by (subst radix_digits.simps) (simp add: word_le_nat_alt)
    ultimately show ?thesis by simp
  qed
qed

lemma to_string_radix_outcome:
  assumes b: "bigint_ok b" and radix: "2 \<le> radix" "radix \<le> 36"
  defines "need \<equiv> bigint_value b = 0 \<or> bigint_fits \<bar>bigint_value b\<bar>"
  shows "case to_string_radix alloc b radix of
      None \<Rightarrow> False
    | Some (Inr text) \<Rightarrow> need \<and> text = render radix (bigint_value b)
    | Some (Inl e) \<Rightarrow> failed alloc TooLarge need e"
proof (cases "bigint_value b = 0")
  case True
  then show ?thesis using b radix by (simp add: to_string_radix_def bigint_is_zero_iff render_def need_def)
next
  case False
  then show ?thesis using b radix magnitude_cases [OF b, of alloc] bigint_negative_iff [OF b]
    by (auto simp: to_string_radix_def bigint_is_zero_iff render_def digit_text_def need_def digits_loop_value failed_def)
qed

section \<open>The reference parser\<close>

definition digits_value :: "u32 \<Rightarrow> int \<Rightarrow> u32 list \<Rightarrow> int" where
  "digits_value radix v ds = foldl (\<lambda>v d. v * uint radix + uint d) v ds"

definition parse_literal :: "rust_text \<Rightarrow> u32 \<Rightarrow> int option" where
  "parse_literal text radix =
     (let trimmed = trim_matches is_ecmascript_whitespace text
      in if trimmed = [] then Some 0
         else case split_sign trimmed of (negative, explicit_sign, unsigned_text) \<Rightarrow>
           case (if radix = 10 then detect_radix_prefix unsigned_text else (radix, unsigned_text)) of (r, digits) \<Rightarrow>
             if explicit_sign \<and> r \<noteq> radix \<or> digits = [] then None
             else map_option (\<lambda>ds. if negative then - digits_value r 0 ds else digits_value r 0 ds)
                    (those (map (\<lambda>c. to_digit c r) digits)))"

lemma digits_value_ge: "2 \<le> radix \<Longrightarrow> 0 \<le> v \<Longrightarrow> v \<le> digits_value radix v ds"
proof (induction ds arbitrary: v)
  case (Cons d ds)
  have "v * 1 \<le> v * uint radix" using Cons.prems by (intro mult_left_mono) (simp_all add: word_le_def)
  then have "v \<le> v * uint radix + uint d" using uint_ge_0 [of d] by linarith
  then show ?case using Cons.IH [of "v * uint radix + uint d"] Cons.prems by (simp add: digits_value_def)
qed (simp add: digits_value_def)

lemma fits_below: "bigint_fits w \<Longrightarrow> 0 \<le> v \<Longrightarrow> v \<le> w \<Longrightarrow> bigint_fits v"
  unfolding bigint_fits_def fits_limbs_def by linarith

lemma small_i32:
  assumes "x \<le> 36"
  shows "bigint_value (bigint_from_i32 (i32_or x d)) = uint x"
proof -
  have "uint x \<le> 36" using assms by (simp add: word_le_def)
  then have "- 2147483648 \<le> uint x" "uint x < 2147483648" using uint_ge_0 [of x] by linarith+
  then show ?thesis by (simp add: i32_or_def word_less_def from_i32_value sint_uint signed_take_bit_int_eq_self)
qed

lemma to_digit_less:
  assumes "to_digit c radix = Some d" "radix \<le> 36"
  shows "d < radix \<and> d \<le> 36"
proof -
  obtain n where n: "n < unat radix" "d = word_of_nat n"
    using assms(1) unfolding to_digit_def Let_def by (metis option.distinct(1) option.inject)
  moreover have "unat radix \<le> 36" using assms(2) by (simp add: word_le_nat_alt)
  ultimately have "unat d = n" by (simp add: unat_of_nat)
  then show ?thesis using n(1) assms(2) by (simp add: word_less_nat_alt word_le_nat_alt)
qed

abbreviation radix_multiplier :: "u32 \<Rightarrow> js_bigint" where
  "radix_multiplier radix \<equiv> bigint_from_i32 (i32_or radix 10)"

lemma parse_digit_outcome:
  assumes "bigint_ok v" "0 \<le> bigint_value v" "2 \<le> radix" "radix \<le> 36" "to_digit c radix = Some d"
  defines "w \<equiv> bigint_value v * uint radix + uint d"
  shows "bigint_outcome alloc TooLarge (bigint_fits w) w (parse_digit alloc radix (radix_multiplier radix) v c)"
proof -
  have r: "bigint_value (radix_multiplier radix) = uint radix" "bigint_value (bigint_from_i32 (i32_or d 0)) = uint d"
    using small_i32 assms(4) to_digit_less [OF assms(5,4)] by blast+
  have nn: "0 \<le> bigint_value v * uint radix" "bigint_value v * uint radix \<le> w" using assms(2) by (simp_all add: w_def)
  have mul: "bigint_outcome alloc TooLarge (bigint_fits (bigint_value v * uint radix)) (bigint_value v * uint radix) (bigint_mul alloc v (radix_multiplier radix))"
    using mul_outcome [OF assms(1) from_i32_value(1), of alloc "i32_or radix 10"] nn(1) by (simp add: r)
  have add: "bigint_outcome alloc TooLarge (bigint_fits w) w (bigint_add alloc s (bigint_from_i32 (i32_or d 0)))"
    if "bigint_ok s" "bigint_value s = bigint_value v * uint radix" for s
    using add_with_sign_outcome [OF that(1) from_i32_value(1), of alloc False "i32_or d 0"] that(2) by (simp add: bigint_add_def r w_def)
  show ?thesis unfolding parse_digit_def assms(5) ok_or_simps and_then_simps
    by (intro outcome_bind_need [OF mul] add) (use fits_below nn in blast)+
qed

lemma parse_fold_outcome:
  assumes "2 \<le> radix" "radix \<le> 36"
  shows "bigint_ok v \<Longrightarrow> 0 \<le> bigint_value v \<Longrightarrow> those (map (\<lambda>c. to_digit c radix) cs) = Some ds \<Longrightarrow>
    bigint_outcome alloc TooLarge (bigint_fits (digits_value radix (bigint_value v) ds)) (digits_value radix (bigint_value v) ds)
      (try_fold (parse_digit alloc radix (radix_multiplier radix)) cs v)"
proof (induction cs arbitrary: v ds)
  case Nil
  then show ?case by (simp add: digits_value_def bigint_outcome_def bigint_ok_fits)
next
  case (Cons c cs)
  then obtain d ds' where d: "to_digit c radix = Some d" "those (map (\<lambda>c. to_digit c radix) cs) = Some ds'" "ds = d # ds'"
    by (auto split: option.splits)
  let ?w = "bigint_value v * uint radix + uint d"
  have w: "0 \<le> ?w" "digits_value radix (bigint_value v) ds = digits_value radix ?w ds'"
    using Cons.prems(2) by (simp_all add: digits_value_def d(3))
  have "bigint_fits (digits_value radix ?w ds') \<Longrightarrow> bigint_fits ?w"
    using fits_below digits_value_ge [OF assms(1) w(1)] w(1) by blast
  moreover have "bigint_outcome alloc TooLarge (bigint_fits (digits_value radix ?w ds')) (digits_value radix ?w ds') (try_fold (parse_digit alloc radix (radix_multiplier radix)) cs u)"
    if "bigint_ok u" "bigint_value u = ?w" for u
    using Cons.IH [OF that(1) _ d(2)] that(2) w(1) by simp
  ultimately show ?case unfolding w(2) try_fold.simps
    by (intro outcome_bind_need [OF parse_digit_outcome [OF Cons.prems(1,2) assms d(1)]]) blast+
qed

lemma parse_fold_invalid:
  assumes "2 \<le> radix" "radix \<le> 36"
  shows "bigint_ok v \<Longrightarrow> 0 \<le> bigint_value v \<Longrightarrow> those (map (\<lambda>c. to_digit c radix) cs) = None \<Longrightarrow>
    \<exists>e. try_fold (parse_digit alloc radix (radix_multiplier radix)) cs v = Inl e \<and> (e = InvalidLiteral \<or> failed alloc TooLarge False e)"
proof (induction cs arbitrary: v)
  case (Cons c cs)
  show ?case
  proof (cases "to_digit c radix")
    case None
    then show ?thesis by (simp add: parse_digit_def)
  next
    case (Some d)
    then have rest: "those (map (\<lambda>c. to_digit c radix) cs) = None" using Cons.prems(3) by (simp split: option.splits)
    note out = parse_digit_outcome [OF Cons.prems(1,2) assms Some, of alloc]
    show ?thesis
    proof (cases "parse_digit alloc radix (radix_multiplier radix) v c")
      case (Inl e)
      then show ?thesis using out by (auto simp: bigint_outcome_def failed_def)
    next
      case (Inr u)
      then have "bigint_ok u" "0 \<le> bigint_value u" using out Cons.prems(2) by (simp_all add: bigint_outcome_def)
      then show ?thesis using Cons.IH [OF _ _ rest] Inr by simp
    qed
  qed
qed simp


section \<open>Parsing is exact\<close>

lemma digits_nonneg: "2 \<le> radix \<Longrightarrow> 0 \<le> digits_value radix 0 ds"
  using digits_value_ge [of radix 0 ds] by simp

lemma fits_minus: "bigint_fits v \<Longrightarrow> 0 \<le> v \<Longrightarrow> bigint_fits (- v)"
  unfolding bigint_fits_def fits_limbs_def by linarith

lemma zero_fits: "bigint_fits 0"
  by (simp add: bigint_fits_def fits_limbs_def)

lemma radix_prefix_range:
  "list_all (\<lambda>p. 2 \<le> snd p \<and> snd p \<le> 36) ps \<Longrightarrow> find_radix_prefix ps text = (r, digits) \<Longrightarrow> 2 \<le> r \<and> r \<le> 36"
  by (induction ps) (auto split: option.splits)

lemma detect_radix_range: "detect_radix_prefix text = (r, digits) \<Longrightarrow> 2 \<le> r \<and> r \<le> 36"
  unfolding detect_radix_prefix_def by (erule radix_prefix_range [rotated]) simp

lemma from_str_radix_valid:
  assumes radix: "2 \<le> radix" "radix \<le> 36" and v: "parse_literal text radix = Some v"
  shows "bigint_outcome alloc TooLarge (bigint_fits \<bar>v\<bar>) v (from_str_radix alloc text radix)"
proof (cases "trim_matches is_ecmascript_whitespace text = []")
  case True
  then show ?thesis using v radix
    by (simp add: parse_literal_def from_str_radix_def bigint_outcome_def bigint_zero_ok zero_fits)
next
  case False
  obtain negative explicit_sign unsigned_text where s:
    "split_sign (trim_matches is_ecmascript_whitespace text) = (negative, explicit_sign, unsigned_text)"
    by (cases "split_sign (trim_matches is_ecmascript_whitespace text)")
  obtain r digits where r: "(if radix = 10 then detect_radix_prefix unsigned_text else (radix, unsigned_text)) = (r, digits)"
    by fastforce
  then have range: "2 \<le> r" "r \<le> 36" using radix detect_radix_range by (auto split: if_splits)
  obtain ds where ds: "those (map (\<lambda>c. to_digit c r) digits) = Some ds" "digits \<noteq> []" "\<not> (explicit_sign \<and> r \<noteq> radix)"
    "v = (if negative then - digits_value r 0 ds else digits_value r 0 ds)"
    using v False unfolding parse_literal_def Let_def s prod.case r by (auto split: if_splits)
  let ?w = "digits_value r 0 ds"
  have w: "0 \<le> ?w" "\<bar>v\<bar> = ?w" using digits_nonneg [OF range(1)] ds(4) by auto
  have body: "from_str_radix alloc text radix = and_then (try_fold (parse_digit alloc r (radix_multiplier r)) digits bigint_zero)
      (\<lambda>u. if negative then bigint_neg alloc u else Inr u)"
    using radix False ds(2,3) unfolding from_str_radix_def Let_def s prod.case r by auto
  have "bigint_outcome alloc TooLarge (bigint_fits ?w) v (if negative then bigint_neg alloc u else Inr u)"
    if "bigint_fits ?w" "bigint_ok u" "bigint_value u = ?w" for u
    using neg_outcome [OF that(2), of alloc] that fits_minus [OF that(1) w(1)] ds(4) by (simp add: bigint_outcome_def)
  then show ?thesis unfolding body w(2)
    using parse_fold_outcome [OF range, of bigint_zero digits ds alloc] ds(1)
    by (intro outcome_bind_need [of alloc TooLarge "bigint_fits ?w" ?w]) (simp_all add: bigint_zero_ok)
qed

lemma from_str_radix_invalid:
  assumes radix: "2 \<le> radix" "radix \<le> 36" and v: "parse_literal text radix = None"
  shows "\<exists>e. from_str_radix alloc text radix = Inl e \<and> (e = InvalidLiteral \<or> failed alloc TooLarge False e)"
proof -
  have ne: "trim_matches is_ecmascript_whitespace text \<noteq> []" using v by (auto simp: parse_literal_def)
  obtain negative explicit_sign unsigned_text where s:
    "split_sign (trim_matches is_ecmascript_whitespace text) = (negative, explicit_sign, unsigned_text)"
    by (cases "split_sign (trim_matches is_ecmascript_whitespace text)")
  obtain r digits where r: "(if radix = 10 then detect_radix_prefix unsigned_text else (radix, unsigned_text)) = (r, digits)"
    by fastforce
  then have range: "2 \<le> r" "r \<le> 36" using radix detect_radix_range by (auto split: if_splits)
  show ?thesis
  proof (cases "explicit_sign \<and> r \<noteq> radix \<or> digits = []")
    case True
    then show ?thesis using radix ne unfolding from_str_radix_def Let_def s prod.case r by auto
  next
    case False
    then have "those (map (\<lambda>c. to_digit c r) digits) = None"
      using v ne unfolding parse_literal_def Let_def s prod.case r by auto
    then obtain e where "try_fold (parse_digit alloc r (radix_multiplier r)) digits bigint_zero = Inl e" "e = InvalidLiteral \<or> failed alloc TooLarge False e"
      using parse_fold_invalid [OF range, of bigint_zero digits alloc] by (auto simp: bigint_zero_ok)
    then show ?thesis using radix ne False unfolding from_str_radix_def Let_def s prod.case r by auto
  qed
qed

section \<open>Rendering parses back\<close>

lemma digit_char_cases: "n < 36 \<Longrightarrow> digit_char (word_of_nat n) = (if n < 10 then 48 + n else 87 + n)"
  by (simp add: digit_char_def unat_of_nat)

lemma to_digit_digit_char:
  assumes "n < unat radix" "unat radix \<le> 36"
  shows "to_digit (digit_char (word_of_nat n)) radix = Some (word_of_nat n)"
proof -
  have "digit_char (word_of_nat n) = (if n < 10 then 48 + n else 87 + n)" using assms by (intro digit_char_cases) simp
  then show ?thesis using assms by (auto simp: to_digit_def Let_def)
qed

lemma those_digit_chars:
  assumes "list_all (\<lambda>d. d < unat radix) ds" "unat radix \<le> 36"
  shows "those (map (\<lambda>c. to_digit c radix) (map (\<lambda>d. digit_char (word_of_nat d)) ds)) = Some (map word_of_nat ds)"
  using assms by (induction ds) (simp_all add: to_digit_digit_char)

lemma radix_digits_less: "2 \<le> r \<Longrightarrow> list_all (\<lambda>d. d < r) (radix_digits r n)"
  by (induction r n rule: radix_digits.induct) (subst radix_digits.simps, simp)

lemma radix_digits_empty: "2 \<le> r \<Longrightarrow> radix_digits r n = [] \<longleftrightarrow> n = 0"
  by (subst radix_digits.simps) simp

lemma radix_digits_value:
  assumes "2 \<le> unat radix" "unat radix \<le> 36"
  shows "digits_value radix 0 (rev (map word_of_nat (radix_digits (unat radix) n))) = int n"
proof (induction n rule: less_induct)
  case (less n)
  show ?case
  proof (cases "n = 0")
    case True
    then show ?thesis by (subst radix_digits.simps) (simp add: digits_value_def)
  next
    case False
    then have "n div unat radix < n" using assms by simp
    moreover have "n mod unat radix < 36" using assms mod_less_divisor [of "unat radix" n] by linarith
    then have "uint (word_of_nat (n mod unat radix) :: u32) = int (n mod unat radix)"
      by (simp add: uint_nat unat_of_nat)
    moreover have "int (n div unat radix) * uint radix + int (n mod unat radix) = int n"
      by (simp add: zdiv_int zmod_int)
    ultimately show ?thesis using less.IH [of "n div unat radix"] False assms
      by (subst radix_digits.simps) (simp add: digits_value_def)
  qed
qed


lemma strip_prefix_SomeD: "strip_prefix p text = Some rest \<Longrightarrow> set p \<subseteq> set text"
  using set_take_subset [of "length p" "text"] by (simp add: strip_prefix_def split: if_splits)

lemma trim_plain: "list_all (\<lambda>c. \<not> P c) text \<Longrightarrow> trim_matches P text = text"
proof -
  have plain: "dropWhile P xs = xs" if "list_all (\<lambda>c. \<not> P c) xs" for xs
    using that by (cases xs) simp_all
  assume "list_all (\<lambda>c. \<not> P c) text"
  then show ?thesis by (simp add: trim_matches_def plain list_all_iff)
qed

lemma digit_text_chars:
  assumes "list_all (\<lambda>d. d < unat radix) ds" "unat radix \<le> 36" "c \<in> set (digit_text ds)"
  shows "48 \<le> c \<and> c \<le> 57 \<or> 97 \<le> c \<and> c \<le> 122 \<and> 10 < unat radix"
proof -
  obtain d where "d < unat radix" "c = digit_char (word_of_nat d)"
    using assms(1,3) by (auto simp: digit_text_def list_all_iff)
  then show ?thesis using assms(2) digit_char_cases [of d] by auto
qed

lemma digit_text_parse:
  assumes "2 \<le> unat radix" "unat radix \<le> 36" "ds = radix_digits (unat radix) n"
  shows "map_option (digits_value radix 0) (those (map (\<lambda>c. to_digit c radix) (digit_text ds))) = Some (int n)"
proof -
  have "list_all (\<lambda>d. d < unat radix) (rev ds)" using radix_digits_less [OF assms(1)] assms(3) by (simp add: list_all_iff)
  from those_digit_chars [OF this assms(2)] show ?thesis
    using radix_digits_value [OF assms(1,2), of n] assms(3) by (simp add: digit_text_def rev_map)
qed

lemma no_radix_prefix:
  assumes "list_all (\<lambda>c. c \<le> 57) text"
  shows "detect_radix_prefix text = (10, text)"
proof -
  have "strip_prefix [48, c] text = None" if "57 < c" for c
  proof (rule ccontr)
    assume "strip_prefix [48, c] text \<noteq> None"
    then have "c \<in> set text" using strip_prefix_SomeD by fastforce
    then show False using assms that by (auto simp: list_all_iff)
  qed
  then show ?thesis by (simp add: detect_radix_prefix_def)
qed

lemma split_sign_simps [simp]:
  "split_sign (45 # text) = (True, True, text)"
  "c \<noteq> 45 \<Longrightarrow> c \<noteq> 43 \<Longrightarrow> split_sign (c # text) = (False, False, c # text)"
  by (simp_all add: split_sign_def strip_prefix_def)

lemma parse_digit_text:
  assumes radix: "2 \<le> radix" "radix \<le> 36" and ds: "ds = radix_digits (unat radix) n" "n \<noteq> 0"
  shows "parse_literal (digit_text ds) radix = Some (int n)"
    "parse_literal (45 # digit_text ds) radix = Some (- int n)"
proof -
  have r: "2 \<le> unat radix" "unat radix \<le> 36" using radix by (simp_all add: word_le_nat_alt)
  let ?t = "digit_text ds"
  have less: "list_all (\<lambda>d. d < unat radix) ds" using radix_digits_less [OF r(1)] ds(1) by simp
  note chars = digit_text_chars [OF less r(2)]
  have plain: "list_all (\<lambda>c. \<not> is_ecmascript_whitespace c) ?t"
    using chars by (fastforce simp: list_all_iff is_ecmascript_whitespace_def char_is_whitespace_def)
  have ws45: "\<not> is_ecmascript_whitespace 45" by (simp add: is_ecmascript_whitespace_def char_is_whitespace_def)
  obtain c cs where t: "?t = c # cs"
    using radix_digits_empty [OF r(1), of n] ds by (cases ?t) (auto simp: digit_text_def)
  then have c: "c \<noteq> 45" "c \<noteq> 43" using chars [of c] by auto
  have pre: "(if radix = 10 then detect_radix_prefix ?t else (radix, ?t)) = (radix, ?t)"
    using chars no_radix_prefix [of ?t] by (fastforce simp: list_all_iff)
  obtain ws where ws: "those (map (\<lambda>c. to_digit c radix) ?t) = Some ws" "digits_value radix 0 ws = int n"
    using digit_text_parse [OF r ds(1)] by auto
  have "?t \<noteq> []" "split_sign ?t = (False, False, ?t)" using c by (simp_all add: t)
  then show "parse_literal ?t radix = Some (int n)"
    using pre ws by (simp add: parse_literal_def Let_def trim_plain [OF plain])
  have "trim_matches is_ecmascript_whitespace (45 # ?t) = 45 # ?t"
    using plain ws45 by (intro trim_plain) simp
  then show "parse_literal (45 # ?t) radix = Some (- int n)"
    using pre ws \<open>?t \<noteq> []\<close> by (simp add: parse_literal_def Let_def)
qed

lemma parse_render:
  assumes radix: "2 \<le> radix" "radix \<le> 36"
  shows "parse_literal (render radix v) radix = Some v"
proof (cases "v = 0")
  case True
  have "to_digit 48 radix = Some 0" using radix by (simp add: to_digit_def Let_def word_le_nat_alt)
  moreover have "detect_radix_prefix [48] = (10, [48])" by (rule no_radix_prefix) simp
  moreover have "trim_matches is_ecmascript_whitespace [48] = [48]"
    by (rule trim_plain) (simp add: is_ecmascript_whitespace_def char_is_whitespace_def)
  ultimately show ?thesis using True
    by (cases "radix = 10") (simp_all add: render_def parse_literal_def Let_def digits_value_def)
next
  case False
  then show ?thesis using parse_digit_text [OF radix refl, of "nat \<bar>v\<bar>"]
    by (cases "v < 0") (simp_all add: render_def)
qed

end
