(* ===== verification/BigInt_Grammar.thy ===== *)
theory BigInt_Grammar
  imports BigInt_Literal
begin

text \<open>
  The grammar of BigInt literals as rules, and that the reference parser reads exactly the texts
  the grammar gives a value, surrounded by whitespace.
\<close>

section \<open>The grammar of literals\<close>

text \<open>
  The literals of a radix, given by rules: the empty literal is zero; digits of the radix, with or
  without a sign; and in radix ten a prefix that selects another radix, without a sign.
\<close>

definition radix_prefixes :: "(nat \<times> u32) set" where
  "radix_prefixes = {(120, 16), (88, 16), (111, 8), (79, 8), (98, 2), (66, 2)}"

definition digits_of :: "u32 \<Rightarrow> rust_text \<Rightarrow> u32 list \<Rightarrow> bool" where
  "digits_of radix cs ds \<longleftrightarrow> cs \<noteq> [] \<and> those (map (\<lambda>c. to_digit c radix) cs) = Some ds"

inductive bigint_literal :: "u32 \<Rightarrow> rust_text \<Rightarrow> int \<Rightarrow> bool" where
  literal_empty: "bigint_literal radix [] 0"
| literal_plain: "digits_of radix cs ds \<Longrightarrow> bigint_literal radix cs (digits_value radix 0 ds)"
| literal_plus: "digits_of radix cs ds \<Longrightarrow> bigint_literal radix (43 # cs) (digits_value radix 0 ds)"
| literal_minus: "digits_of radix cs ds \<Longrightarrow> bigint_literal radix (45 # cs) (- digits_value radix 0 ds)"
| literal_prefixed: "(p, r) \<in> radix_prefixes \<Longrightarrow> digits_of r cs ds \<Longrightarrow>
    bigint_literal 10 (48 # p # cs) (digits_value r 0 ds)"

definition parse_core :: "u32 \<Rightarrow> rust_text \<Rightarrow> int option" where
  "parse_core radix trimmed =
     (if trimmed = [] then Some 0
      else case split_sign trimmed of (negative, explicit_sign, unsigned_text) \<Rightarrow>
        case (if radix = 10 then detect_radix_prefix unsigned_text else (radix, unsigned_text)) of (r, digits) \<Rightarrow>
          if explicit_sign \<and> r \<noteq> radix \<or> digits = [] then None
          else map_option (\<lambda>ds. if negative then - digits_value r 0 ds else digits_value r 0 ds)
                 (those (map (\<lambda>c. to_digit c r) digits)))"

lemma parse_literal_core: "parse_literal t radix = parse_core radix (trim_matches is_ecmascript_whitespace t)"
  by (simp add: parse_literal_def parse_core_def Let_def)

lemma those_all: "those xs = Some ys \<Longrightarrow> x \<in> set xs \<Longrightarrow> x \<noteq> None"
  by (induction xs arbitrary: ys) (auto split: option.splits)

lemma to_digit_char: "to_digit c radix \<noteq> None \<Longrightarrow> 48 \<le> c \<and> c \<le> 57 \<or> 97 \<le> c \<and> c \<le> 122 \<or> 65 \<le> c \<and> c \<le> 90 \<or> 36 < unat radix"
  by (auto simp: to_digit_def Let_def split: if_splits)

lemma to_digit_decimal: "to_digit c 10 \<noteq> None \<Longrightarrow> 48 \<le> c \<and> c \<le> 57"
  by (auto simp: to_digit_def Let_def split: if_splits)

lemma digits_of_chars:
  assumes "digits_of radix cs ds" "radix \<le> 36" "c \<in> set cs"
  shows "48 \<le> c \<and> c \<le> 57 \<or> 97 \<le> c \<and> c \<le> 122 \<or> 65 \<le> c \<and> c \<le> 90"
proof -
  have "to_digit c radix \<noteq> None" using assms those_all [of "map (\<lambda>c. to_digit c radix) cs" ds "to_digit c radix"] by (auto simp: digits_of_def)
  then show ?thesis using to_digit_char [of c radix] assms(2) by (auto simp: word_le_nat_alt)
qed

lemma decimal_chars: "digits_of 10 cs ds \<Longrightarrow> list_all (\<lambda>c. c \<le> 57) cs"
  using those_all [of "map (\<lambda>c. to_digit c 10) cs" ds] to_digit_decimal
  by (fastforce simp: digits_of_def list_all_iff)

lemma detect_prefix_cases:
  "detect_radix_prefix t = (r, cs) \<longleftrightarrow>
     (\<exists>p. (p, r) \<in> radix_prefixes \<and> t = 48 # p # cs) \<or>
     r = 10 \<and> cs = t \<and> \<not> (\<exists>p q rest. (p, q) \<in> radix_prefixes \<and> t = 48 # p # rest)"
proof (cases "\<exists>p rest. t = 48 # p # rest")
  case True
  then obtain p rest where "t = 48 # p # rest" by blast
  then show ?thesis by (auto simp: detect_radix_prefix_def strip_prefix_def radix_prefixes_def)
next
  case False
  then have "strip_prefix [48, c] t = None" for c
    by (cases t; cases "tl t") (auto simp: strip_prefix_def)
  with False show ?thesis by (auto simp: detect_radix_prefix_def)
qed

lemma parse_core_sound:
  assumes radix: "2 \<le> radix" "radix \<le> 36" and v: "parse_core radix core = Some v"
  shows "bigint_literal radix core v"
proof (cases core)
  case Nil
  then show ?thesis using v by (simp add: parse_core_def literal_empty)
next
  case (Cons c cs)
  show ?thesis
  proof (cases "c = 45 \<or> c = 43")
    case True
    then have "digits_of radix cs ds \<Longrightarrow> bigint_literal radix core (if c = 45 then - digits_value radix 0 ds else digits_value radix 0 ds)" for ds
      using literal_plus [of radix cs ds] literal_minus [of radix cs ds] Cons by auto
    then show ?thesis using v True Cons
      by (auto simp: parse_core_def digits_of_def split_sign_def strip_prefix_def detect_prefix_cases radix_prefixes_def split: if_splits prod.splits)
  next
    case False
    then have "split_sign core = (False, False, core)" using Cons by simp
    then obtain r digits ds where r: "(if radix = 10 then detect_radix_prefix core else (radix, core)) = (r, digits)"
      "digits_of r digits ds" "v = digits_value r 0 ds"
      using v Cons by (auto simp: parse_core_def digits_of_def split: if_splits prod.splits)
    then show ?thesis
      by (cases "radix = 10") (auto simp: detect_prefix_cases intro: literal_plain literal_prefixed)
  qed
qed


lemma digits_of_plain_sign:
  assumes "digits_of radix cs ds" "radix \<le> 36"
  shows "split_sign cs = (False, False, cs)"
proof -
  obtain c rest where "cs = c # rest" using assms(1) by (cases cs) (auto simp: digits_of_def)
  moreover from this have "c \<noteq> 45" "c \<noteq> 43" using digits_of_chars [OF assms, of c] by auto
  ultimately show ?thesis by simp
qed

lemma digits_of_no_prefix:
  assumes "digits_of radix cs ds"
  shows "(if radix = 10 then detect_radix_prefix cs else (radix, cs)) = (radix, cs)"
  using assms decimal_chars no_radix_prefix by auto

lemma parse_core_complete:
  assumes "bigint_literal radix core v" "radix \<le> 36"
  shows "parse_core radix core = Some v"
  using assms
proof (induction rule: bigint_literal.induct)
  case (literal_plain radix cs ds)
  then show ?case using digits_of_plain_sign [of radix cs ds] digits_of_no_prefix [of radix cs ds]
    by (simp add: parse_core_def digits_of_def)
next
  case (literal_plus radix cs ds)
  have "split_sign (43 # cs) = (False, True, cs)" by (simp add: split_sign_def strip_prefix_def)
  then show ?case using literal_plus digits_of_no_prefix [of radix cs ds] by (simp add: parse_core_def digits_of_def)
next
  case (literal_minus radix cs ds)
  then show ?case using digits_of_no_prefix [of radix cs ds] by (simp add: parse_core_def digits_of_def)
next
  case (literal_prefixed p r cs ds)
  have "detect_radix_prefix (48 # p # cs) = (r, cs)" using literal_prefixed(1) by (subst detect_prefix_cases) blast
  then show ?case using literal_prefixed(2) by (simp add: parse_core_def digits_of_def)
qed (simp add: parse_core_def)

lemma literal_not_blank:
  assumes "bigint_literal radix core v" "radix \<le> 36"
  shows "list_all (\<lambda>c. \<not> is_ecmascript_whitespace c) core"
proof -
  have plain: "\<not> is_ecmascript_whitespace c"
    if "48 \<le> c \<and> c \<le> 57 \<or> 97 \<le> c \<and> c \<le> 122 \<or> 65 \<le> c \<and> c \<le> 90 \<or> c = 43 \<or> c = 45" for c
    using that by (auto simp: is_ecmascript_whitespace_def char_is_whitespace_def)
  have digits: "list_all (\<lambda>c. \<not> is_ecmascript_whitespace c) cs" if "digits_of r cs ds" "r \<le> 36" for r cs ds
    using digits_of_chars [OF that] plain by (auto simp: list_all_iff)
  show ?thesis using assms
  proof cases
    case (literal_prefixed p r cs ds)
    then have "r \<le> 36" "p \<in> {120, 88, 111, 79, 98, 66}" by (auto simp: radix_prefixes_def)
    then show ?thesis using literal_prefixed digits plain [of 48] plain [of p] by auto
  qed (use assms(2) digits plain [of 43] plain [of 45] in auto)
qed

lemma trim_matches_exact:
  assumes "list_all P before" "list_all P after" "list_all (\<lambda>c. \<not> P c) core"
  shows "trim_matches P (before @ core @ after) = core"
proof -
  have all: "dropWhile P (xs @ ys) = dropWhile P ys" if "list_all P xs" for xs ys
    using that by (induction xs) simp_all
  have none: "dropWhile P (xs @ ys) = xs @ ys" if "list_all (\<lambda>c. \<not> P c) xs" "xs \<noteq> []" for xs ys
    using that by (cases xs) simp_all
  show ?thesis
  proof (cases "core = []")
    case True
    then show ?thesis using assms(1,2) all [of before after] by (auto simp: trim_matches_def list_all_iff dest: set_dropWhileD)
  next
    case False
    then show ?thesis
      using all [OF assms(1), of "core @ after"] none [of core after] none [of "rev core" "[]"] all [of "rev after" "rev core"] assms
      by (simp add: trim_matches_def list_all_iff)
  qed
qed

lemma trim_matches_split:
  "\<exists>before after. t = before @ trim_matches P t @ after \<and> list_all P before \<and> list_all P after"
proof -
  let ?u = "dropWhile P t"
  have "t = takeWhile P t @ ?u" by simp
  moreover have "?u = rev (dropWhile P (rev ?u)) @ rev (takeWhile P (rev ?u))"
    by (metis rev_append rev_rev_ident takeWhile_dropWhile_id)
  moreover have "list_all P (takeWhile P xs)" for xs by (auto simp: list_all_iff dest: set_takeWhileD)
  ultimately show ?thesis unfolding trim_matches_def
    by (metis list_all_rev)
qed

definition denotes :: "u32 \<Rightarrow> rust_text \<Rightarrow> int \<Rightarrow> bool" where
  "denotes radix t v \<longleftrightarrow>
     (\<exists>before core after. t = before @ core @ after \<and> list_all is_ecmascript_whitespace before \<and>
        list_all is_ecmascript_whitespace after \<and> bigint_literal radix core v)"

lemma parse_literal_grammar:
  assumes "2 \<le> radix" "radix \<le> 36"
  shows "parse_literal t radix = Some v \<longleftrightarrow> denotes radix t v"
proof
  assume "parse_literal t radix = Some v"
  then have "bigint_literal radix (trim_matches is_ecmascript_whitespace t) v"
    using parse_core_sound [OF assms] by (simp add: parse_literal_core)
  then show "denotes radix t v" using trim_matches_split [of t is_ecmascript_whitespace] unfolding denotes_def by blast
next
  assume "denotes radix t v"
  then obtain before core after where t: "t = before @ core @ after" "list_all is_ecmascript_whitespace before"
    "list_all is_ecmascript_whitespace after" "bigint_literal radix core v" unfolding denotes_def by blast
  then have "trim_matches is_ecmascript_whitespace t = core"
    using trim_matches_exact literal_not_blank [OF t(4) assms(2)] by blast
  then show "parse_literal t radix = Some v"
    using parse_core_complete [OF t(4) assms(2)] by (simp add: parse_literal_core)
qed

end
