(* ===== verification/Binary64.thy ===== *)
theory Binary64
  imports Complex_Main Prelude
begin

text \<open>
  The binary64 values of Rust's \<^verbatim>\<open>f64\<close>, as their bit patterns, with the parts of the type the
  sources use. The value of a finite pattern is its significand scaled by a power of two.
\<close>

unbundle bit_operations_syntax

type_synonym f64 = u64

definition f64_sign :: "f64 \<Rightarrow> bool" where
  "f64_sign x \<longleftrightarrow> bit x 63"

definition f64_exponent :: "f64 \<Rightarrow> nat" where
  "f64_exponent x = unat (take_bit 11 (drop_bit 52 x))"

definition f64_fraction :: "f64 \<Rightarrow> nat" where
  "f64_fraction x = unat (take_bit 52 x)"

definition f64_significand :: "f64 \<Rightarrow> nat" where
  "f64_significand x = (if f64_exponent x = 0 then f64_fraction x else f64_fraction x + 2 ^ 52)"

definition f64_scale :: "f64 \<Rightarrow> int" where
  "f64_scale x = int (max 1 (f64_exponent x)) - 1075"

definition f64_is_finite :: "f64 \<Rightarrow> bool" where
  "f64_is_finite x \<longleftrightarrow> f64_exponent x \<noteq> 2047"

definition f64_real :: "f64 \<Rightarrow> real" where
  "f64_real x = (if f64_sign x then - 1 else 1) * (real (f64_significand x) * 2 powi f64_scale x)"

definition f64_infinity :: f64 where
  "f64_infinity = push_bit 52 2047"

definition f64_neg_infinity :: f64 where
  "f64_neg_infinity = push_bit 52 4095"

text \<open>
  For finite values: truncation, \<^verbatim>\<open>value.trunc() == value\<close>, \<^verbatim>\<open>value.abs() < bound\<close> for an integral
  bound, and the saturating \<^verbatim>\<open>value as i64\<close>.
\<close>

definition f64_trunc :: "f64 \<Rightarrow> int" where
  "f64_trunc x =
     (let m = (if 0 \<le> f64_scale x then int (f64_significand x) * 2 ^ nat (f64_scale x)
               else int (f64_significand x) div 2 ^ nat (- f64_scale x))
      in if f64_sign x then - m else m)"

definition f64_integral :: "f64 \<Rightarrow> bool" where
  "f64_integral x \<longleftrightarrow> 0 \<le> f64_scale x \<or> f64_significand x mod 2 ^ nat (- f64_scale x) = 0"

definition f64_abs_below :: "f64 \<Rightarrow> nat \<Rightarrow> bool" where
  "f64_abs_below x bound \<longleftrightarrow>
     (if 0 \<le> f64_scale x then f64_significand x * 2 ^ nat (f64_scale x) < bound
      else f64_significand x < bound * 2 ^ nat (- f64_scale x))"

definition f64_as_i64 :: "f64 \<Rightarrow> u64" where
  "f64_as_i64 x = word_of_int (max (- (2 ^ 63)) (min (2 ^ 63 - 1) (f64_trunc x)))"

section \<open>Values\<close>

lemma f64_exponent_less: "f64_exponent x < 2048"
proof -
  have "f64_exponent x = take_bit 11 (unat (drop_bit 52 x))" by (simp add: f64_exponent_def unsigned_take_bit_eq)
  then show ?thesis using take_bit_nat_less_exp [of 11 "unat (drop_bit 52 x)"] by simp
qed

lemma f64_fraction_less: "f64_fraction x < 2 ^ 52"
proof -
  have "f64_fraction x = take_bit 52 (unat x)" by (simp add: f64_fraction_def unsigned_take_bit_eq)
  then show ?thesis using take_bit_nat_less_exp [of 52 "unat x"] by simp
qed

lemma f64_significand_less: "f64_significand x < 2 ^ 53"
  using f64_fraction_less [of x] by (simp add: f64_significand_def)

lemma two_powi_nat: "0 \<le> k \<Longrightarrow> (2 :: real) powi k = 2 ^ nat k"
  by (simp add: power_int_def)

lemma two_powi_neg:
  assumes "k < 0"
  shows "(2 :: real) powi k = 1 / 2 ^ nat (- k)"
proof -
  have "(2 :: real) powi k = inverse 2 ^ nat (- k)" using assms unfolding power_int_def by auto
  also have "\<dots> = 1 / 2 ^ nat (- k)" by (simp add: power_one_over)
  finally show ?thesis .
qed

lemma f64_integral_iff: "f64_integral x \<longleftrightarrow> f64_real x \<in> \<int>"
proof (cases "0 \<le> f64_scale x")
  case True
  then show ?thesis by (simp add: f64_integral_def f64_real_def two_powi_nat)
next
  case False
  let ?m = "f64_significand x" and ?k = "nat (- f64_scale x)"
  have "f64_real x \<in> \<int> \<longleftrightarrow> real ?m / 2 ^ ?k \<in> \<int>" using False by (simp add: f64_real_def two_powi_neg)
  also have "\<dots> \<longleftrightarrow> 2 ^ ?k dvd ?m"
  proof
    assume "2 ^ ?k dvd ?m"
    then show "real ?m / 2 ^ ?k \<in> \<int>" by (auto elim!: dvdE)
  next
    assume "real ?m / 2 ^ ?k \<in> \<int>"
    then obtain z where "real ?m / 2 ^ ?k = of_int z" by (auto elim: Ints_cases)
    then have "real_of_int (int ?m) = of_int (z * 2 ^ ?k)" by (simp add: field_simps)
    then have "int ?m = z * 2 ^ ?k" by (simp only: of_int_eq_iff)
    then have "2 ^ ?k dvd int ?m" by simp
    then show "2 ^ ?k dvd ?m" by (metis int_dvd_int_iff of_nat_numeral of_nat_power)
  qed
  finally show ?thesis using False by (simp add: f64_integral_def mod_eq_0_iff_dvd)
qed

lemma f64_trunc_real:
  assumes "f64_integral x"
  shows "real_of_int (f64_trunc x) = f64_real x"
proof (cases "0 \<le> f64_scale x")
  case True
  then show ?thesis by (simp add: f64_trunc_def f64_real_def two_powi_nat)
next
  case False
  let ?m = "f64_significand x" and ?k = "nat (- f64_scale x)"
  have "2 ^ ?k dvd int ?m" using assms False
    by (metis (no_types) f64_integral_def int_dvd_int_iff mod_eq_0_iff_dvd of_nat_numeral of_nat_power)
  then have "real_of_int (int ?m div 2 ^ ?k) = real ?m / 2 ^ ?k" by (simp add: real_of_int_div)
  then show ?thesis using False by (simp add: f64_trunc_def f64_real_def two_powi_neg)
qed

lemma f64_abs_below_iff: "f64_abs_below x bound \<longleftrightarrow> \<bar>f64_real x\<bar> < real bound"
proof (cases "0 \<le> f64_scale x")
  case True
  then have "\<bar>f64_real x\<bar> = real (f64_significand x * 2 ^ nat (f64_scale x))"
    by (simp add: f64_real_def two_powi_nat abs_mult)
  then show ?thesis using True by (simp only: f64_abs_below_def of_nat_less_iff if_True)
next
  case False
  then have "\<bar>f64_real x\<bar> < real bound \<longleftrightarrow> real (f64_significand x) < real (bound * 2 ^ nat (- f64_scale x))"
    by (simp add: f64_real_def two_powi_neg abs_mult pos_divide_less_eq)
  then show ?thesis using False by (simp only: f64_abs_below_def of_nat_less_iff if_False)
qed

end
