(* ===== verification/BigInt_Float.thy ===== *)
theory BigInt_Float
  imports Binary64 BigInt_Convert
begin

text \<open>
  The binary64 conversions of \<^verbatim>\<open>crates/fusor-runtime/src/bigint.rs\<close>. Bit counts are natural numbers:
  a magnitude has at most 2^20 + 32 bits, far below the range of a \<^verbatim>\<open>u64\<close>.
\<close>

definition from_f64 :: "allocator \<Rightarrow> f64 \<Rightarrow> (bigint_error, js_bigint) result" where
  "from_f64 alloc x =
     (if \<not> f64_is_finite x then Inl NotFinite
      else if \<not> f64_integral x then Inl NotAnInteger
      else if f64_abs_below x 9223372036854775808 then Inr (bigint_from_i64 (f64_as_i64 x))
      else let negative = (drop_bit 63 x = 1);
               biased_exponent = drop_bit 52 x AND 0x7ff;
               significand = (x AND (push_bit 52 1 - 1)) OR push_bit 52 1;
               exponent = sint biased_exponent - 1023 - 52
           in if exponent < 0 then Inl NotAnInteger
              else and_then (bigint_shl alloc (bigint_from_u64 significand) (word_of_int exponent)) (\<lambda>scaled.
                if negative then bigint_neg alloc scaled else Inr scaled))"

definition u32_leading_zeros :: "u32 \<Rightarrow> nat" where
  "u32_leading_zeros w = length (takeWhile (\<lambda>i. \<not> bit w i) (rev [0..<32]))"

definition magnitude_bit_length :: "u32 list \<Rightarrow> nat option" where
  "magnitude_bit_length xs =
     (case find (\<lambda>(i, x). x \<noteq> 0) (rev (List.enumerate 0 xs)) of
        None \<Rightarrow> None
      | Some (i, x) \<Rightarrow> Some (i * LIMB_BITS + (32 - u32_leading_zeros x)))"

definition magnitude_bit :: "u32 list \<Rightarrow> nat \<Rightarrow> u32" where
  "magnitude_bit xs i = drop_bit (i mod LIMB_BITS) (limb_or_zero xs (i div LIMB_BITS)) AND 1"

definition signed_infinity :: "bool \<Rightarrow> f64" where
  "signed_infinity negative = (if negative then f64_neg_infinity else f64_infinity)"

definition window_step :: "u32 list \<Rightarrow> nat \<Rightarrow> nat \<Rightarrow> u64 \<times> bool \<Rightarrow> u64 \<times> bool" where
  "window_step m exponent offset = (\<lambda>(significand, sticky).
     let b = magnitude_bit m (exponent - offset)
     in if offset < 54 then (push_bit 1 significand OR ucast b, sticky)
        else if b = 1 then (significand, True)
        else (significand, sticky))"

definition f64_pack :: "bool \<Rightarrow> nat \<Rightarrow> u64 \<Rightarrow> f64" where
  "f64_pack negative biased_exponent rounded =
     push_bit 63 (of_bool negative) OR push_bit 52 (word_of_nat biased_exponent) OR (rounded AND (push_bit 52 1 - 1))"

definition round_significand :: "bool \<Rightarrow> nat \<Rightarrow> u64 \<Rightarrow> bool \<Rightarrow> f64" where
  "round_significand negative exponent significand sticky =
     (let round_bit = significand AND 1;
          truncated = drop_bit 1 significand;
          rounded = (if round_bit = 1 \<and> (sticky \<or> truncated AND 1 = 1) then truncated + 1 else truncated)
      in if push_bit 53 1 \<le> rounded
         then if exponent + 1 > 1023 then signed_infinity negative
              else f64_pack negative (exponent + 1 + 1023) (drop_bit 1 rounded)
         else f64_pack negative (exponent + 1023) rounded)"

definition to_f64 :: "allocator \<Rightarrow> js_bigint \<Rightarrow> f64" where
  "to_f64 alloc b =
     (if bigint_is_zero b then 0
      else case magnitude alloc b of
        Inl _ \<Rightarrow> signed_infinity (is_negative b)
      | Inr m \<Rightarrow>
          (case magnitude_bit_length m of
             None \<Rightarrow> 0
           | Some bit_length \<Rightarrow>
               let exponent = bit_length - 1
               in if exponent > 1023 then signed_infinity (is_negative b)
                  else case fold (window_step m exponent) [0..<bit_length] (0, False) of (significand, sticky) \<Rightarrow>
                    round_significand (is_negative b) exponent
                      (if bit_length < 54 then push_bit (54 - bit_length) significand else significand) sticky))"

end
