(* ===== verification/BigInt_Rounding.thy ===== *)
theory BigInt_Rounding
  imports BigInt_Float
begin

text \<open>
  The binary64 conversions of BigInts: conversion from a binary64 is exact, and conversion to one
  rounds to the nearest finite value, ties to the even significand, with overflow to infinity from
  half way past the largest finite value on.
\<close>

section \<open>From binary64\<close>

lemma fits_power:
  assumes "\<bar>v\<bar> < 2 ^ n" "n \<le> 32 * MAX_LIMBS - 1"
  shows "bigint_fits v"
proof -
  have "(2 :: int) ^ n \<le> 2 ^ (32 * MAX_LIMBS - 1)" using assms(2) by (intro power_increasing) simp_all
  then show ?thesis using assms(1) unfolding bigint_fits_def fits_limbs_def by linarith
qed

lemma take_and_push: "take_bit n x AND push_bit n y = (0 :: 'a :: len word)"
  by (rule bit_eqI) (auto simp: bit_simps)

lemma f64_fields:
  "sint (drop_bit 52 x AND 0x7ff :: u64) = int (f64_exponent x)"
  "uint ((x AND (push_bit 52 1 - 1)) OR push_bit 52 1 :: u64) = int (f64_fraction x) + 2 ^ 52"
  "drop_bit 63 (x :: u64) = 1 \<longleftrightarrow> f64_sign x"
proof -
  have a: "drop_bit 52 x AND 0x7ff = take_bit 11 (drop_bit 52 x)"
    by (simp add: take_bit_eq_mask mask_numeral)
  have e: "int (f64_exponent x) = uint (take_bit 11 (drop_bit 52 x))" unfolding f64_exponent_def by simp
  have "0 \<le> int (f64_exponent x)" "int (f64_exponent x) < 2048" using f64_exponent_less [of x] by simp_all
  then have "signed_take_bit 63 (int (f64_exponent x)) = int (f64_exponent x)"
    by (intro signed_take_bit_int_eq_self) simp_all
  then show "sint (drop_bit 52 x AND 0x7ff :: u64) = int (f64_exponent x)"
    unfolding a sint_uint by (simp add: e)
  have b: "x AND (push_bit 52 1 - 1) = take_bit 52 x" by (simp add: take_bit_eq_mask mask_numeral)
  have f: "int (f64_fraction x) = uint (take_bit 52 x)" unfolding f64_fraction_def by simp
  have "take_bit 52 x AND push_bit 52 1 = (0 :: u64)" by (rule take_and_push)
  then have "take_bit 52 x OR push_bit 52 1 = take_bit 52 x + (push_bit 52 1 :: u64)"
    by (rule disjunctive_add_eq_or [symmetric])
  moreover have "uint (take_bit 52 x + push_bit 52 1) = uint (take_bit 52 x) + 2 ^ 52"
    using f64_fraction_less [of x] f by (subst uint_add_u64) simp_all
  ultimately show "uint ((x AND (push_bit 52 1 - 1)) OR push_bit 52 1 :: u64) = int (f64_fraction x) + 2 ^ 52"
    unfolding b f by simp
  have "drop_bit 63 x = of_bool (bit x 63)"
  proof (rule bit_word_eqI)
    fix n
    show "bit (drop_bit 63 x) n \<longleftrightarrow> bit (of_bool (bit x 63) :: u64) n"
      using bit_imp_le_length [of x "63 + n"] by (cases n) (auto simp: bit_simps)
  qed
  then show "drop_bit 63 x = 1 \<longleftrightarrow> f64_sign x" by (simp add: f64_sign_def)
qed


lemma f64_trunc_magnitude: "\<bar>f64_trunc x\<bar> < 2 ^ 1024" if "f64_is_finite x"
proof -
  let ?m = "int (f64_significand x)"
  have m: "0 \<le> ?m" "?m < 2 ^ 53" using f64_significand_less [of x] by simp_all
  show ?thesis
  proof (cases "0 \<le> f64_scale x")
    case True
    have "f64_scale x \<le> 971" using that f64_exponent_less [of x] by (simp add: f64_scale_def f64_is_finite_def)
    then have "(2 :: int) ^ nat (f64_scale x) \<le> 2 ^ 971" by (intro power_increasing) simp_all
    then have "?m * 2 ^ nat (f64_scale x) < 2 ^ 53 * 2 ^ 971"
      using m by (intro mult_less_le_imp_less) simp_all
    also have "(2 :: int) ^ 53 * 2 ^ 971 = 2 ^ 1024" by (simp only: power_add [symmetric]) simp
    finally show ?thesis using True m by (simp add: f64_trunc_def Let_def abs_mult)
  next
    case False
    have "?m div 2 ^ nat (- f64_scale x) \<le> ?m" using m zdiv_mono2 [of ?m 1 "2 ^ nat (- f64_scale x)"] by simp
    also have "?m < 2 ^ 53" by (rule m(2))
    also have "(2 :: int) ^ 53 \<le> 2 ^ 1024" by (intro power_increasing) simp_all
    finally show ?thesis using False m by (simp add: f64_trunc_def Let_def pos_imp_zdiv_nonneg_iff)
  qed
qed

lemma f64_large:
  assumes "\<not> f64_abs_below x 9223372036854775808"
  shows "11 \<le> f64_scale x" "f64_exponent x \<noteq> 0"
proof -
  have m: "f64_significand x < 2 ^ 53" by (rule f64_significand_less)
  show "11 \<le> f64_scale x"
  proof (rule ccontr)
    assume less: "\<not> 11 \<le> f64_scale x"
    show False
    proof (cases "0 \<le> f64_scale x")
      case True
      then have "(2 :: nat) ^ nat (f64_scale x) \<le> 2 ^ 10" using less by (intro power_increasing) simp_all
      then have "f64_significand x * 2 ^ nat (f64_scale x) < 2 ^ 53 * 2 ^ 10" using m by (intro mult_less_le_imp_less) simp_all
      then show False using True assms by (simp add: f64_abs_below_def)
    next
      case False
      have "(1 :: nat) \<le> 2 ^ nat (- f64_scale x)" by simp
      then have "2 ^ 53 * 1 \<le> 9223372036854775808 * (2 :: nat) ^ nat (- f64_scale x)" by (intro mult_le_mono) simp_all
      moreover have "9223372036854775808 * 2 ^ nat (- f64_scale x) \<le> f64_significand x"
        using False assms by (simp add: f64_abs_below_def)
      ultimately show False using m by linarith
    qed
  qed
  then show "f64_exponent x \<noteq> 0" by (auto simp: f64_scale_def)
qed

lemma outcome_any: "bigint_outcome alloc e True v r \<Longrightarrow> bigint_outcome alloc e' True v r"
  by (simp add: bigint_outcome_def split: sum.splits)

lemma from_f64_large:
  assumes "f64_is_finite x" "f64_integral x" "\<not> f64_abs_below x 9223372036854775808"
  shows "bigint_outcome alloc ResultTooLarge True (f64_trunc x) (from_f64 alloc x)"
proof -
  note large = f64_large [OF assms(3)]
  let ?e = "f64_scale x" and ?m = "int (f64_significand x)"
  let ?s = "(x AND (push_bit 52 1 - 1)) OR push_bit 52 1"
  have sig: "uint ?s = ?m" using large(2) f64_fields(2) [of x] by (simp add: f64_significand_def)
  have exp: "sint (drop_bit 52 x AND 0x7ff) - 1023 - 52 = ?e"
    using large(2) by (simp add: f64_fields f64_scale_def)
  have "?e < 2048" using f64_exponent_less [of x] by (simp add: f64_scale_def)
  then have count: "unat (word_of_int ?e :: u64) = nat ?e"
    using large(1) by (simp add: unsigned_of_int take_bit_int_eq_self)
  let ?v = "?m * 2 ^ nat ?e"
  have trunc: "f64_trunc x = (if f64_sign x then - ?v else ?v)" using large(1) by (simp add: f64_trunc_def Let_def)
  have v: "\<bar>?v\<bar> < 2 ^ 1024" using f64_trunc_magnitude [OF assms(1)] by (simp add: trunc split: if_splits)
  then have fits: "bigint_fits ?v" "bigint_fits (- ?v)"
    by (intro fits_power [of _ 1024]; simp add: MAX_LIMBS_eq)+
  have shl: "bigint_outcome alloc ResultTooLarge True ?v (bigint_shl alloc (bigint_from_u64 ?s) (word_of_int ?e))"
    using shl_outcome [OF from_u64_value(1), of alloc ?s "word_of_int ?e"] by (simp only: from_u64_value sig count fits(1))
  have body: "from_f64 alloc x = and_then (bigint_shl alloc (bigint_from_u64 ?s) (word_of_int ?e))
      (\<lambda>scaled. if f64_sign x then bigint_neg alloc scaled else Inr scaled)"
    unfolding from_f64_def Let_def exp f64_fields(3) using assms large(1) by simp
  show ?thesis unfolding body
  proof (rule outcome_bind [OF shl])
    fix c
    assume c: "bigint_ok c" "bigint_value c = ?v"
    show "bigint_outcome alloc ResultTooLarge True (f64_trunc x) (if f64_sign x then bigint_neg alloc c else Inr c)"
      using neg_outcome [OF c(1), of alloc] c fits(2) by (simp add: trunc outcome_any bigint_outcome_def split: sum.splits)
  qed
qed

lemma from_f64_small:
  assumes "f64_is_finite x" "f64_integral x" "f64_abs_below x 9223372036854775808"
  shows "\<exists>c. from_f64 alloc x = Inr c \<and> bigint_ok c \<and> bigint_value c = f64_trunc x"
proof -
  have "\<bar>real_of_int (f64_trunc x)\<bar> < 2 ^ 63"
    using assms(3) f64_abs_below_iff [of x] by (simp add: f64_trunc_real [OF assms(2)])
  then have "real_of_int \<bar>f64_trunc x\<bar> < real_of_int (2 ^ 63)" by simp
  then have b: "\<bar>f64_trunc x\<bar> < 2 ^ 63" by (simp only: of_int_less_iff)
  then have "sint (f64_as_i64 x) = f64_trunc x"
    by (simp add: f64_as_i64_def signed_of_int signed_take_bit_int_eq_self)
  then show ?thesis using assms by (simp add: from_f64_def from_i64_value)
qed

section \<open>The bits of a magnitude\<close>

lemma leading_run:
  fixes l :: nat
  assumes "\<exists>i < k. P i" "l = length (takeWhile (\<lambda>i. \<not> P i) (rev [0..<k]))"
  shows "l < k" "P (k - Suc l)" "j < k \<Longrightarrow> k \<le> j + l \<Longrightarrow> \<not> P j"
proof -
  have "l < k \<and> P (k - Suc l) \<and> (\<forall>j < k. k \<le> j + l \<longrightarrow> \<not> P j)"
    using assms
  proof (induction k arbitrary: l)
    case (Suc k)
    show ?case
    proof (cases "P k")
      case False
      define l' where "l' = length (takeWhile (\<lambda>i. \<not> P i) (rev [0..<k]))"
      have l: "l = Suc l'" using Suc.prems(2) False by (simp add: l'_def)
      have "\<exists>i < k. P i" using Suc.prems(1) False by (auto simp: less_Suc_eq)
      from Suc.IH [OF this l'_def] show ?thesis using False by (auto simp: l less_Suc_eq)
    qed (use Suc.prems(2) in auto)
  qed simp
  then show "l < k" "P (k - Suc l)" "j < k \<Longrightarrow> k \<le> j + l \<Longrightarrow> \<not> P j" by blast+
qed

lemma leading_zeros_bound:
  assumes "w \<noteq> (0 :: u32)"
  defines "n \<equiv> 32 - u32_leading_zeros w"
  shows "0 < n" "2 ^ (n - 1) \<le> uint w" "uint w < 2 ^ n"
proof -
  obtain i where "bit w i" using assms(1) by (auto simp: bit_eq_iff)
  then have "\<exists>i < 32. bit w i" using bit_imp_le_length [of w i] by auto
  note run = leading_run [OF this u32_leading_zeros_def]
  have n: "0 < n" "bit w (n - 1)" "\<And>j. n \<le> j \<Longrightarrow> j < 32 \<Longrightarrow> \<not> bit w j"
    using run(1,2) by (simp_all add: n_def) (use run(3) in \<open>auto simp: n_def\<close>)
  show "0 < n" by (rule n(1))
  have "take_bit n (uint w) = uint w"
  proof (rule bit_eqI)
    fix j
    show "bit (take_bit n (uint w)) j \<longleftrightarrow> bit (uint w) j"
      using n(3) [of j] bit_imp_le_length [of w j] by (cases "j < n") (auto simp: bit_take_bit_iff bit_uint_iff)
  qed
  then show "uint w < 2 ^ n" by (metis take_bit_int_less_exp)
  have "bit (uint w) (n - 1)" using n(2) bit_imp_le_length [of w "n - 1"] by (simp add: bit_uint_iff)
  then have "uint w div 2 ^ (n - 1) \<noteq> 0" by (auto simp: bit_iff_odd)
  then show "2 ^ (n - 1) \<le> uint w" using div_pos_pos_trivial [OF uint_ge_0, of w "2 ^ (n - 1)"] by fastforce
qed

lemma magnitude_bit_length_bound:
  "magnitude_bit_length xs = None \<and> limbs_value xs = 0 \<or>
   (\<exists>n. magnitude_bit_length xs = Some n \<and> 0 < n \<and> 2 ^ (n - 1) \<le> limbs_value xs \<and> limbs_value xs < 2 ^ n)"
proof (induction xs rule: rev_induct)
  case (snoc x xs)
  show ?case
  proof (cases "x = 0")
    case True
    then show ?thesis using snoc by (simp add: magnitude_bit_length_def enumerate_append_eq)
  next
    case False
    define n where "n = 32 - u32_leading_zeros x"
    note b = leading_zeros_bound [OF False, folded n_def]
    let ?k = "32 * length xs"
    have "magnitude_bit_length (xs @ [x]) = Some (?k + n)"
      using False by (simp add: magnitude_bit_length_def enumerate_append_eq n_def LIMB_BITS_def)
    moreover have "2 ^ (?k + n - 1) \<le> limbs_value (xs @ [x])"
    proof -
      have "(2 :: int) ^ (?k + n - 1) = 2 ^ ?k * 2 ^ (n - 1)" using b(1) by (cases n) (simp_all add: power_add)
      also have "\<dots> \<le> 2 ^ ?k * uint x" using b(2) by simp
      finally have "(2 :: int) ^ (?k + n - 1) \<le> 2 ^ ?k * uint x" .
      then have "(2 :: int) ^ (?k + n - 1) \<le> limbs_value xs + 2 ^ ?k * uint x" using limbs_value_nonneg [of xs] by linarith
      then show ?thesis by simp
    qed
    moreover have "limbs_value (xs @ [x]) < 2 ^ (?k + n)"
    proof -
      have "2 ^ ?k * (uint x + 1) \<le> 2 ^ ?k * 2 ^ n" using b(3) by simp
      then show ?thesis using limbs_value_less [of xs] by (simp add: power_add algebra_simps)
    qed
    ultimately show ?thesis using b(1) by simp
  qed
qed (simp add: magnitude_bit_length_def)

lemma magnitude_bit_value: "magnitude_bit xs i = of_bool (bit (limbs_value xs) i)"
proof -
  have one: "w AND 1 = of_bool (bit w 0)" for w :: u32 by (simp add: and_one_eq bit_0 odd_iff_mod_2_eq_one)
  have "magnitude_bit xs i = of_bool (bit (limb_or_zero xs (i div 32)) (i mod 32))"
    by (simp add: magnitude_bit_def LIMB_BITS_def one bit_drop_bit_eq)
  moreover have "bit (limb_or_zero xs (i div 32)) (i mod 32) \<longleftrightarrow> bit (limbs_value xs) i"
    by (auto simp: bit_limbs_value limb_or_zero_def get_def div_less_iff_less_mult split: if_splits)
  ultimately show ?thesis by simp
qed


section \<open>The window of leading bits\<close>

lemma shift_in_bit:
  assumes "uint w < 2 ^ 63"
  shows "uint (push_bit 1 w OR of_bool c :: u64) = 2 * uint w + of_bool c"
proof -
  have "take_bit 1 (of_bool c) = (of_bool c :: u64)" by simp
  then have "push_bit 1 w AND (of_bool c :: u64) = 0" using take_and_push [of 1 "of_bool c" w] by (simp only: and.commute)
  then have "push_bit 1 w OR of_bool c = push_bit 1 w + (of_bool c :: u64)" by (rule disjunctive_add_eq_or [symmetric])
  moreover have "push_bit 1 w = w + w" by (simp add: push_bit_eq_mult)
  moreover have "uint (w + w) = uint w + uint w" using assms by (intro uint_add_u64) simp
  moreover have "uint (w + w + of_bool c) = uint (w + w) + of_bool c"
    using assms calculation(3) by (subst uint_add_u64) (auto split: if_splits)
  ultimately show ?thesis by (simp only: mult_2)
qed

lemma div_next_bit: "(V :: int) div 2 ^ n = 2 * (V div 2 ^ Suc n) + of_bool (bit V n)"
proof -
  have "V div (2 ^ n * 2) = V div 2 ^ n div 2" by (rule zdiv_zmult2_eq) simp
  then have "V div 2 ^ Suc n = V div 2 ^ n div 2" by (simp only: power_Suc2)
  moreover have "(of_bool (bit V n) :: int) = V div 2 ^ n mod 2" by (simp add: bit_iff_odd mod_2_eq_odd)
  ultimately show ?thesis by simp
qed

lemma window_step_eq:
  "window_step m e offset (w, sticky) =
     (if offset < 54 then (push_bit 1 w OR of_bool (bit (limbs_value m) (e - offset)), sticky)
      else (w, sticky \<or> bit (limbs_value m) (e - offset)))"
  by (simp add: window_step_def magnitude_bit_value)

lemma window_fold:
  assumes V: "limbs_value m < 2 ^ L" and k: "k \<le> L"
  defines "V \<equiv> limbs_value m"
  shows "\<exists>w. fold (window_step m (L - 1)) [0..<k] (0, False) = (w, \<exists>j. L - k \<le> j \<and> j + 54 < L \<and> bit V j) \<and>
    uint w = V div 2 ^ (L - min k 54)"
  using k
proof (induction k)
  case 0
  then show ?case using V limbs_value_nonneg [of m] by (auto simp: V_def bit_limbs_value)
next
  case (Suc k)
  let ?st = "\<lambda>k. \<exists>j. L - k \<le> j \<and> j + 54 < L \<and> bit V j"
  from Suc obtain w where w: "fold (window_step m (L - 1)) [0..<k] (0, False) = (w, ?st k)" "uint w = V div 2 ^ (L - min k 54)"
    by auto
  have idx: "L - 1 - k = L - Suc k" "Suc (L - Suc k) = L - k" using Suc.prems by simp_all
  have sticky: "?st (Suc k) \<longleftrightarrow> ?st k \<or> (54 \<le> k \<and> bit V (L - Suc k))"
  proof -
    have split: "L - Suc k \<le> j \<longleftrightarrow> L - k \<le> j \<or> j = L - Suc k" for j using Suc.prems by linarith
    have "L - Suc k + 54 < L \<longleftrightarrow> 54 \<le> k" using Suc.prems by linarith
    then show ?thesis unfolding split by blast
  qed
  show ?case
  proof (cases "k < 54")
    case True
    have "V < 2 ^ (L - k) * 2 ^ k" using V Suc.prems by (simp add: V_def flip: power_add)
    then have "uint w < 2 ^ k" using w(2) True by (simp add: min_def int_div_less mult.commute)
    moreover have "(2 :: int) ^ k \<le> 2 ^ 53" using True by (intro power_increasing) simp_all
    ultimately have "uint w < 2 ^ 63" by simp
    then have "uint (push_bit 1 w OR of_bool (bit V (L - Suc k))) = 2 * uint w + of_bool (bit V (L - Suc k))"
      by (rule shift_in_bit)
    also have "uint w = V div 2 ^ Suc (L - Suc k)" using w(2) True by (simp add: idx min_def)
    also have "2 * (V div 2 ^ Suc (L - Suc k)) + of_bool (bit V (L - Suc k)) = V div 2 ^ (L - min (Suc k) 54)"
      using div_next_bit [of V "L - Suc k"] True by (simp add: min_def)
    finally show ?thesis using w(1) True sticky
      by (intro exI [of _ "push_bit 1 w OR of_bool (bit V (L - Suc k))"]) (simp add: window_step_eq V_def [symmetric])
  next
    case False
    then show ?thesis using w sticky by (simp add: window_step_eq V_def [symmetric])
  qed
qed

section \<open>Rounding\<close>

text \<open>The integer nearest to a real, ties to even.\<close>

definition nearest_even :: "real \<Rightarrow> int \<Rightarrow> bool" where
  "nearest_even t r \<longleftrightarrow> \<bar>of_int r - t\<bar> \<le> 1 / 2 \<and> (\<bar>of_int r - t\<bar> = 1 / 2 \<longrightarrow> even r)"

lemma nearest_even_least: "nearest_even t r \<Longrightarrow> \<bar>of_int r - t\<bar> \<le> \<bar>of_int n - t\<bar>"
proof (cases "n = r")
  case False
  assume r: "nearest_even t r"
  have "n \<le> r - 1 \<or> r + 1 \<le> n" using False by linarith
  then have "real_of_int n \<le> real_of_int r - 1 \<or> real_of_int r + 1 \<le> real_of_int n" by linarith
  then show ?thesis using r unfolding nearest_even_def by linarith
qed simp

lemma nearest_even_tie:
  assumes "nearest_even t r" "\<bar>of_int r - t\<bar> = \<bar>of_int n - t\<bar>" "n \<noteq> r"
  shows "even r"
proof -
  have "n \<le> r - 1 \<or> r + 1 \<le> n" using assms(3) by linarith
  then have "real_of_int n \<le> real_of_int r - 1 \<or> real_of_int r + 1 \<le> real_of_int n" by linarith
  then have "\<bar>of_int r - t\<bar> = 1 / 2" using assms(1,2) unfolding nearest_even_def by linarith
  then show ?thesis using assms(1) by (simp add: nearest_even_def)
qed

text \<open>Rounding a doubled value whose floor is \<open>s\<close>, with the discarded part as a sticky flag.\<close>

lemma round_half_even:
  assumes "of_int s \<le> 2 * t" "2 * t < of_int s + 1" "sticky \<longleftrightarrow> 2 * t \<noteq> of_int s"
  shows "nearest_even t (s div 2 + of_bool (odd s \<and> (sticky \<or> odd (s div 2))))"
proof -
  obtain q where q: "s = 2 * q \<or> s = 2 * q + 1" by (metis oddE evenE)
  then show ?thesis
  proof
    assume s: "s = 2 * q"
    then show ?thesis using assms(1,2) by (simp add: nearest_even_def)
  next
    assume s: "s = 2 * q + 1"
    have "nearest_even t (q + 1)" if "sticky"
      using assms that unfolding s nearest_even_def by (simp; linarith)
    moreover have "nearest_even t (if odd q then q + 1 else q)" if "\<not> sticky"
    proof -
      have "t = of_int q + 1 / 2" using assms(3) that s by simp
      then show ?thesis by (simp add: nearest_even_def)
    qed
    ultimately show ?thesis by (cases sticky; cases "odd q") (simp_all add: s)
  qed
qed

lemma low_bits_zero: "(\<exists>j < k. bit (V :: int) j) \<longleftrightarrow> V mod 2 ^ k \<noteq> 0"
  by (auto simp: bit_eq_iff bit_take_bit_iff simp flip: take_bit_eq_mod)

lemma real_div_floor:
  fixes V :: int
  assumes "0 < D"
  defines "r \<equiv> real_of_int V / real_of_int D"
  shows "of_int (V div D) \<le> r" "r < of_int (V div D) + 1" "r \<noteq> of_int (V div D) \<longleftrightarrow> V mod D \<noteq> 0"
proof -
  have f: "\<lfloor>r\<rfloor> = V div D" unfolding r_def by (rule floor_divide_of_int_eq)
  show "of_int (V div D) \<le> r" "r < of_int (V div D) + 1" unfolding f [symmetric] by linarith+
  have "r = of_int (V div D) \<longleftrightarrow> real_of_int V = real_of_int (V div D * D)"
    using assms(1) by (simp add: r_def divide_eq_eq)
  also have "\<dots> \<longleftrightarrow> V = V div D * D" by (simp only: of_int_eq_iff)
  also have "\<dots> \<longleftrightarrow> V mod D = 0" by (metis add.right_neutral add_cancel_right_right div_mult_mod_eq)
  finally show "r \<noteq> of_int (V div D) \<longleftrightarrow> V mod D \<noteq> 0" by simp
qed

lemma window_value:
  assumes V: "2 ^ (L - 1) \<le> limbs_value m" "limbs_value m < 2 ^ L" and L: "0 < L"
    and w: "fold (window_step m (L - 1)) [0..<L] (0, False) = (w, sticky)"
  defines "s \<equiv> (if L < 54 then push_bit (54 - L) w else w)"
  defines "t \<equiv> real_of_int (limbs_value m) * 2 powi (53 - int L)"
  shows "of_int (uint s) \<le> 2 * t \<and> 2 * t < of_int (uint s) + 1 \<and> (sticky \<longleftrightarrow> 2 * t \<noteq> of_int (uint s))"
    "2 ^ 53 \<le> uint s" "uint s < 2 ^ 54"
proof -
  let ?V = "limbs_value m"
  have fold: "uint w = ?V div 2 ^ (L - 54)" "sticky \<longleftrightarrow> (\<exists>j < L - 54. bit ?V j)"
    using window_fold [OF V(2), of L] w by (auto simp: min_def less_diff_conv split: if_splits)
  have t: "2 * t = real_of_int ?V * 2 powi (54 - int L)"
    using power_int_add [of "2 :: real" 1 "53 - int L"] by (simp add: t_def)
  have pow: "2 ^ (L - 1) * (2 :: int) ^ (54 - L) = 2 ^ 53 \<and> 2 ^ L * (2 :: int) ^ (54 - L) = 2 ^ 54" if "L < 54"
    using that L by (simp only: power_add [symmetric]) simp
  have "of_int (uint s) \<le> 2 * t \<and> 2 * t < of_int (uint s) + 1 \<and> (sticky \<longleftrightarrow> 2 * t \<noteq> of_int (uint s)) \<and>
    2 ^ 53 \<le> uint s \<and> uint s < 2 ^ 54"
  proof (cases "L < 54")
    case True
    have "2 ^ (L - 1) * 2 ^ (54 - L) \<le> ?V * 2 ^ (54 - L)" "?V * 2 ^ (54 - L) < 2 ^ L * 2 ^ (54 - L)"
      using V by simp_all
    then have bounds: "2 ^ 53 \<le> ?V * 2 ^ (54 - L)" "?V * 2 ^ (54 - L) < 2 ^ 54" using pow [OF True] by (simp_all only:)
    then have "?V * 2 ^ (54 - L) < 2 ^ 64" by simp
    then have "take_bit 64 (push_bit (54 - L) ?V) = ?V * 2 ^ (54 - L)"
      using limbs_value_nonneg [of m] by (simp add: push_bit_eq_mult take_bit_int_eq_self)
    moreover have "uint (push_bit (54 - L) w) = take_bit 64 (push_bit (54 - L) (uint w))"
      by (subst unsigned_push_bit_eq) simp
    ultimately have s: "uint s = ?V * 2 ^ (54 - L)" using True fold(1) by (simp only: s_def if_True) simp
    then have "2 * t = of_int (uint s)" using True two_powi_nat [of "54 - int L"] by (simp add: t nat_diff_distrib)
    then show ?thesis using True fold(2) bounds by (simp add: s)
  next
    case False
    let ?D = "2 ^ (L - 54) :: int"
    have s: "uint s = ?V div ?D" using False fold(1) by (simp add: s_def)
    have r: "2 * t = real_of_int ?V / real_of_int ?D"
    proof (cases "L = 54")
      case f: False
      then have "(2 :: real) powi (54 - int L) = 1 / 2 ^ (L - 54)" using False two_powi_neg [of "54 - int L"] by (simp add: nat_diff_distrib)
      then show ?thesis by (simp add: t)
    qed (simp add: t)
    have "53 + (L - 54) = L - 1" "54 + (L - 54) = L" using False by simp_all
    then have "2 ^ 53 * ?D = 2 ^ (L - 1)" "2 ^ 54 * ?D = 2 ^ L" by (simp_all only: power_add [symmetric])
    then have "2 ^ 53 * ?D \<le> ?V" "?V < 2 ^ 54 * ?D" using V by simp_all
    then have "2 ^ 53 \<le> ?V div ?D" "?V div ?D < 2 ^ 54"
      using zdiv_mono1 [of "2 ^ 53 * ?D" ?V ?D] int_div_less [of ?D ?V "2 ^ 54"] by simp_all
    then show ?thesis using real_div_floor [of ?D ?V] fold(2) low_bits_zero [of "L - 54" ?V] unfolding s r by simp
  qed
  then show "of_int (uint s) \<le> 2 * t \<and> 2 * t < of_int (uint s) + 1 \<and> (sticky \<longleftrightarrow> 2 * t \<noteq> of_int (uint s))"
    "2 ^ 53 \<le> uint s" "uint s < 2 ^ 54" by simp_all
qed


section \<open>Assembling the result\<close>

lemma bit_of_nat_word: "bit (word_of_nat e :: u64) n \<longleftrightarrow> n < 64 \<and> bit e n"
  by transfer (simp add: bit_take_bit_iff bit_of_nat_iff)

lemma f64_pack_bit:
  "bit (f64_pack negative e r) n \<longleftrightarrow>
     n = 63 \<and> negative \<or> (52 \<le> n \<and> n < 64 \<and> bit e (n - 52)) \<or> n < 52 \<and> bit r n"
proof -
  have "r AND (push_bit 52 1 - 1) = take_bit 52 r" by (simp add: take_bit_eq_mask mask_numeral)
  then show ?thesis unfolding f64_pack_def
    by (auto simp: bit_simps bit_of_nat_word simp del: push_bit_of_1)
qed

lemma f64_pack_fields:
  assumes "e < 2048"
  shows "f64_sign (f64_pack negative e r) \<longleftrightarrow> negative" "f64_exponent (f64_pack negative e r) = e"
    "f64_fraction (f64_pack negative e r) = unat (take_bit 52 r)"
proof -
  have high: "\<not> bit e n" if "11 \<le> n" for n
  proof -
    have "take_bit 11 e = e" using assms by (simp add: take_bit_nat_eq_self)
    then show ?thesis using that by (metis bit_take_bit_iff leD)
  qed
  then show "f64_sign (f64_pack negative e r) \<longleftrightarrow> negative" by (simp add: f64_sign_def f64_pack_bit)
  have "take_bit 11 (drop_bit 52 (f64_pack negative e r)) = word_of_nat e"
  proof (rule bit_word_eqI)
    fix n
    show "bit (take_bit 11 (drop_bit 52 (f64_pack negative e r))) n \<longleftrightarrow> bit (word_of_nat e :: u64) n"
      using high [of n] by (cases "n < 11") (auto simp: bit_take_bit_iff bit_drop_bit_eq f64_pack_bit bit_of_nat_word)
  qed
  then show "f64_exponent (f64_pack negative e r) = e"
    using assms by (simp add: f64_exponent_def unat_of_nat)
  have "take_bit 52 (f64_pack negative e r) = take_bit 52 r"
    by (rule bit_word_eqI) (auto simp: bit_simps f64_pack_bit)
  then show "f64_fraction (f64_pack negative e r) = unat (take_bit 52 r)" by (simp add: f64_fraction_def)
qed


text \<open>A significand of 53 bits, or the carry to the next power of two, packs to its scaled value.\<close>

lemma f64_pack_value:
  fixes negative :: bool
  assumes r: "2 ^ 52 \<le> uint r" "uint r < 2 ^ 53" and e: "0 < e" "e < 2047"
  defines "x \<equiv> f64_pack negative e r"
  shows "f64_is_finite x" "f64_real x = (if negative then - 1 else 1) * (of_int (uint r) * 2 powi (int e - 1075))"
    "even (f64_fraction x) \<longleftrightarrow> even (uint r)"
proof -
  note f = f64_pack_fields [of e negative r]
  have fields: "f64_sign x \<longleftrightarrow> negative" "f64_exponent x = e" "f64_fraction x = unat (take_bit 52 r)"
    unfolding x_def using f e by simp_all
  have "uint (take_bit 52 r) = uint r mod 2 ^ 52" by (simp add: take_bit_eq_mod uint_mod)
  also have "\<dots> = uint r - 2 ^ 52" using r int_mod_pos_eq [of "uint r" "2 ^ 52" 1 "uint r - 2 ^ 52"] by simp
  finally have frac: "int (f64_fraction x) = uint r - 2 ^ 52" unfolding fields(3) by simp
  then have sig: "int (f64_significand x) = uint r" using e(1) fields(2) by (simp add: f64_significand_def)
  have "f64_scale x = int e - 1075" using e(1) fields(2) by (simp add: f64_scale_def max_def)
  moreover have "real (f64_significand x) = of_int (uint r)" using sig by (metis of_int_of_nat_eq)
  ultimately show "f64_real x = (if negative then - 1 else 1) * (of_int (uint r) * 2 powi (int e - 1075))"
    by (simp add: f64_real_def fields(1))
  show "f64_is_finite x" using e(2) fields(2) by (simp add: f64_is_finite_def)
  have "even (f64_fraction x) \<longleftrightarrow> even (int (f64_fraction x))" by simp
  then show "even (f64_fraction x) \<longleftrightarrow> even (uint r)" unfolding frac by simp
qed


lemma round_words:
  fixes s :: u64 and sticky :: bool
  assumes "2 ^ 53 \<le> uint s" "uint s < 2 ^ 54"
  defines "rounded \<equiv> (if s AND 1 = 1 \<and> (sticky \<or> drop_bit 1 s AND 1 = 1) then drop_bit 1 s + 1 else drop_bit 1 s)"
  shows "uint rounded = uint s div 2 + of_bool (odd (uint s) \<and> (sticky \<or> odd (uint s div 2)))"
    "2 ^ 52 \<le> uint rounded" "uint rounded \<le> 2 ^ 53"
proof -
  have half: "uint (drop_bit 1 s) = uint s div 2" by (simp add: drop_bit_eq_div uint_div)
  have odd_iff: "w AND 1 = 1 \<longleftrightarrow> odd (uint w)" for w :: u64
  proof -
    have "odd w \<longleftrightarrow> odd (uint w)" using bit_uint_iff [of w 0] by (simp add: bit_0)
    then show ?thesis by (simp add: and_one_eq odd_iff_mod_2_eq_one)
  qed
  have b: "2 ^ 52 \<le> uint s div 2" "uint s div 2 < 2 ^ 53" using assms(1,2) by simp_all
  have "uint (drop_bit 1 s + 1) = uint (drop_bit 1 s) + 1" using b(2) half by (subst uint_add_u64) simp_all
  then show v: "uint rounded = uint s div 2 + of_bool (odd (uint s) \<and> (sticky \<or> odd (uint s div 2)))"
    unfolding rounded_def odd_iff by (simp add: half [unfolded One_nat_def])
  show "2 ^ 52 \<le> uint rounded" "uint rounded \<le> 2 ^ 53" unfolding v using b by (auto simp: of_bool_def)
qed

lemma round_significand_value:
  fixes s :: u64 and sticky :: bool and E :: nat and negative :: bool
  assumes s: "2 ^ 53 \<le> uint s" "uint s < 2 ^ 54" and E: "E \<le> 1023"
  defines "r \<equiv> uint s div 2 + of_bool (odd (uint s) \<and> (sticky \<or> odd (uint s div 2)))"
    and "x \<equiv> round_significand negative E s sticky"
  shows "2 ^ 52 \<le> r" "r \<le> 2 ^ 53"
    "E = 1023 \<and> r = 2 ^ 53 \<Longrightarrow> x = signed_infinity negative"
    "\<not> (E = 1023 \<and> r = 2 ^ 53) \<Longrightarrow> f64_is_finite x \<and>
       f64_real x = (if negative then - 1 else 1) * (of_int r * 2 powi (int E - 52)) \<and> (even r \<longrightarrow> even (f64_fraction x))"
proof -
  define w where "w = (if s AND 1 = 1 \<and> (sticky \<or> drop_bit 1 s AND 1 = 1) then drop_bit 1 s + 1 else drop_bit 1 s)"
  have w: "uint w = r" "2 ^ 52 \<le> r" "r \<le> 2 ^ 53"
    using round_words [OF s, of sticky] by (simp_all add: w_def r_def)
  then show "2 ^ 52 \<le> r" "r \<le> 2 ^ 53" by simp_all
  have x: "x = (if r = 2 ^ 53 then if E + 1 > 1023 then signed_infinity negative
        else f64_pack negative (E + 1 + 1023) (drop_bit 1 w) else f64_pack negative (E + 1023) w)"
  proof -
    have "push_bit 53 1 \<le> w \<longleftrightarrow> r = 2 ^ 53" using w by (simp add: word_le_def)
    then show ?thesis unfolding x_def round_significand_def Let_def w_def [symmetric] by simp
  qed
  show "x = signed_infinity negative" if "E = 1023 \<and> r = 2 ^ 53" using that x by simp
  show "f64_is_finite x \<and> f64_real x = (if negative then - 1 else 1) * (of_int r * 2 powi (int E - 52)) \<and>
      (even r \<longrightarrow> even (f64_fraction x))" if ok: "\<not> (E = 1023 \<and> r = 2 ^ 53)"
  proof (cases "r = 2 ^ 53")
    case True
    have d: "uint (drop_bit 1 w) = 2 ^ 52" using w(1) True by (simp add: drop_bit_eq_div uint_div)
    have "x = f64_pack negative (E + 1 + 1023) (drop_bit 1 w)" using x True ok E by simp
    moreover have "(2 :: real) powi (int (E + 1 + 1023) - 1075) = 2 * 2 powi (int E - 52)"
      using power_int_add [of "2 :: real" 1 "int E - 52"] by simp
    ultimately show ?thesis using f64_pack_value [of "drop_bit 1 w" "E + 1 + 1023" negative, unfolded d] True ok E by simp
  next
    case False
    have "x = f64_pack negative (E + 1023) w" using x False by simp
    moreover have "int (E + 1023) - 1075 = int E - 52" by simp
    ultimately show ?thesis using f64_pack_value [of w "E + 1023" negative, unfolded w(1)] w False E by simp
  qed
qed

section \<open>To binary64\<close>

text \<open>
  A binary64 is the correct rounding of a real when no finite binary64 is nearer, and when another
  one is as near, its own significand is the even one.
\<close>

definition correctly_rounded :: "real \<Rightarrow> f64 \<Rightarrow> bool" where
  "correctly_rounded v x \<longleftrightarrow> f64_is_finite x \<and>
     (\<forall>y. f64_is_finite y \<longrightarrow> \<bar>f64_real x - v\<bar> \<le> \<bar>f64_real y - v\<bar> \<and>
        (\<bar>f64_real x - v\<bar> = \<bar>f64_real y - v\<bar> \<and> f64_real y \<noteq> f64_real x \<longrightarrow> even (f64_fraction x)))"

lemma powi_diff: "(2 :: real) powi a * 2 powi b = 2 powi (a + b)"
  by (simp add: power_int_add)

text \<open>A finite binary64 at or above a power of two is a multiple of the spacing there.\<close>

lemma f64_multiple:
  assumes "2 powi (k + 52) \<le> \<bar>f64_real y\<bar>"
  shows "\<exists>n :: int. f64_real y = of_int n * 2 powi k"
proof -
  let ?m = "f64_significand y" and ?e = "f64_scale y"
  have abs: "\<bar>f64_real y\<bar> = real ?m * 2 powi ?e" by (simp add: f64_real_def abs_mult)
  have "k \<le> ?e"
  proof (rule ccontr)
    assume "\<not> k \<le> ?e"
    then have "(2 :: real) powi ?e \<le> 2 powi (k - 1)" by (intro power_int_increasing) simp_all
    then have "real ?m * 2 powi ?e \<le> real ?m * 2 powi (k - 1)" by (intro mult_left_mono) simp_all
    also have "real ?m < 2 ^ 53" using f64_significand_less [of y] by (simp flip: of_nat_less_iff)
    then have "real ?m * 2 powi (k - 1) < 2 ^ 53 * 2 powi (k - 1)" by simp
    also have "(2 :: real) ^ 53 * 2 powi (k - 1) = 2 powi (k + 52)"
      using powi_diff [of 53 "k - 1"] by (simp add: algebra_simps)
    finally show False using assms abs by simp
  qed
  then have "(2 :: real) powi ?e = 2 ^ nat (?e - k) * 2 powi k"
    using powi_diff [of "?e - k" k] two_powi_nat [of "?e - k"] by simp
  then have "f64_real y = of_int ((if f64_sign y then - 1 else 1) * int ?m * 2 ^ nat (?e - k)) * 2 powi k"
    by (simp add: f64_real_def)
  then show ?thesis by blast
qed

text \<open>Scaling the nearest integer gives the nearest binary64 in the binade of the value.\<close>

lemma nearest_in_binade:
  fixes V t Y :: real and k :: int and r :: int
  assumes V: "V = t * 2 powi k" and lo: "2 ^ 52 \<le> t" and r: "nearest_even t r"
    and Y: "2 powi (k + 52) \<le> \<bar>Y\<bar> \<Longrightarrow> \<exists>n :: int. Y = of_int n * 2 powi k"
  shows "\<bar>of_int r * 2 powi k - V\<bar> \<le> \<bar>Y - V\<bar>"
    "\<bar>of_int r * 2 powi k - V\<bar> = \<bar>Y - V\<bar> \<Longrightarrow> Y \<noteq> of_int r * 2 powi k \<Longrightarrow> even r"
proof -
  let ?u = "(2 :: real) powi k"
  have u: "0 < ?u" by simp
  have dist: "\<bar>of_int n * ?u - V\<bar> = \<bar>of_int n - t\<bar> * ?u" for n :: int
  proof -
    have "of_int n * ?u - V = (of_int n - t) * ?u" by (simp add: V algebra_simps)
    then show ?thesis by (simp add: abs_mult)
  qed
  have low: "(2 :: real) powi (k + 52) = 2 ^ 52 * ?u" using powi_diff [of 52 k] by (simp add: add.commute)
  have ge: "2 ^ 52 * ?u \<le> V" using lo u unfolding V by (intro mult_right_mono) simp_all
  have "\<bar>of_int r * ?u - V\<bar> \<le> \<bar>Y - V\<bar> \<and>
    (\<bar>of_int r * ?u - V\<bar> = \<bar>Y - V\<bar> \<and> Y \<noteq> of_int r * ?u \<longrightarrow> even r)"
  proof (cases "Y < 2 ^ 52 * ?u")
    case True
    have "\<bar>of_int r * ?u - V\<bar> \<le> \<bar>of_int (2 ^ 52) * ?u - V\<bar>"
      unfolding dist using nearest_even_least [OF r, of "2 ^ 52"] by (intro mult_right_mono) simp_all
    also have "\<dots> = V - 2 ^ 52 * ?u" using ge by simp
    also have "\<dots> < \<bar>Y - V\<bar>" using True ge by linarith
    finally show ?thesis by simp
  next
    case False
    then have "2 powi (k + 52) \<le> \<bar>Y\<bar>" using low by linarith
    then obtain n :: int where n: "Y = of_int n * ?u" using Y by blast
    have "\<bar>of_int r - t\<bar> \<le> \<bar>of_int n - t\<bar>" using nearest_even_least [OF r] .
    moreover have "even r" if "\<bar>of_int r - t\<bar> = \<bar>of_int n - t\<bar>" "n \<noteq> r" using nearest_even_tie [OF r that] .
    ultimately show ?thesis unfolding n dist using u by auto
  qed
  then show "\<bar>of_int r * ?u - V\<bar> \<le> \<bar>Y - V\<bar>"
    "\<bar>of_int r * ?u - V\<bar> = \<bar>Y - V\<bar> \<Longrightarrow> Y \<noteq> of_int r * ?u \<Longrightarrow> even r" by blast+
qed


lemma f64_multiple_minus:
  assumes "2 powi (k + 52) \<le> \<bar>- f64_real y\<bar>"
  shows "\<exists>n :: int. - f64_real y = of_int n * 2 powi k"
proof -
  obtain n :: int where "f64_real y = of_int n * 2 powi k" using f64_multiple [of k y] assms by auto
  then have "- f64_real y = of_int (- n) * 2 powi k" by simp
  then show ?thesis by blast
qed

lemma rounded_correctly:
  assumes V: "real_of_int \<bar>v\<bar> = t * 2 powi k" and lo: "2 ^ 52 \<le> t" and r: "nearest_even t r"
    and x: "f64_is_finite x" "f64_real x = (if v < 0 then - 1 else 1) * (of_int r * 2 powi k)" "even r \<Longrightarrow> even (f64_fraction x)"
  shows "correctly_rounded (of_int v) x"
  unfolding correctly_rounded_def
proof (intro conjI allI impI)
  fix y
  let ?X = "of_int r * 2 powi k :: real" and ?Y = "if v < 0 then - f64_real y else f64_real y"
  have Y: "\<exists>n :: int. ?Y = of_int n * 2 powi k" if "2 powi (k + 52) \<le> \<bar>?Y\<bar>"
    using that f64_multiple [of k y] f64_multiple_minus [of k y] by (cases "v < 0") simp_all
  have flip: "\<bar>f64_real x - of_int v\<bar> = \<bar>?X - of_int \<bar>v\<bar>\<bar>" "\<bar>f64_real y - of_int v\<bar> = \<bar>?Y - of_int \<bar>v\<bar>\<bar>"
    by (cases "v < 0"; simp add: x(2); linarith)+
  show "\<bar>f64_real x - of_int v\<bar> \<le> \<bar>f64_real y - of_int v\<bar>"
    unfolding flip by (rule nearest_in_binade [OF V lo r Y])
  show "even (f64_fraction x)" if "\<bar>f64_real x - of_int v\<bar> = \<bar>f64_real y - of_int v\<bar> \<and> f64_real y \<noteq> f64_real x"
  proof (rule x(3))
    have "?Y \<noteq> ?X" using that by (auto simp: x(2) split: if_splits)
    then show "even r" using that nearest_in_binade(2) [OF V lo r Y] unfolding flip by blast
  qed
qed (rule x(1))

text \<open>The largest magnitude that does not overflow, half way between the largest finite value and the next power of two.\<close>

definition overflow_bound :: int where
  "overflow_bound = 2 ^ 1024 - 2 ^ 970"

lemma overflow_iff:
  assumes V: "2 ^ (L - 1) \<le> V" "V < 2 ^ L" and L: "0 < L" "L \<le> 1024"
    and r: "nearest_even (real_of_int V * 2 powi (53 - int L)) r" "r \<le> 2 ^ 53"
  shows "L - 1 = 1023 \<and> r = 2 ^ 53 \<longleftrightarrow> overflow_bound \<le> V"
proof (cases "L = 1024")
  case True
  let ?t = "real_of_int V * 2 powi (- 971)"
  have t: "nearest_even ?t r" using r(1) True by simp
  have D: "(2 :: real) powi (- 971) = 1 / 2 ^ 971" using two_powi_neg [of "- 971"] by simp
  have "overflow_bound \<le> V \<longleftrightarrow> real_of_int overflow_bound \<le> real_of_int V" by (simp only: of_int_le_iff)
  also have "\<dots> \<longleftrightarrow> (2 ^ 53 - 1 / 2) * 2 ^ 971 \<le> real_of_int V" by (simp add: overflow_bound_def)
  also have "\<dots> \<longleftrightarrow> 2 ^ 53 - 1 / 2 \<le> ?t" unfolding D by (simp add: pos_le_divide_eq)
  also have "\<dots> \<longleftrightarrow> r = 2 ^ 53"
  proof
    assume le: "2 ^ 53 - 1 / 2 \<le> ?t"
    show "r = 2 ^ 53"
    proof (rule ccontr)
      assume "r \<noteq> 2 ^ 53"
      then have "r \<le> 9007199254740991" using r(2) by simp
      then have "real_of_int r \<le> 9007199254740991" by linarith
      moreover have "9007199254740992 - 1 / 2 \<le> ?t" using le by simp
      ultimately have eq: "\<bar>of_int r - ?t\<bar> = 1 / 2" "real_of_int r = 9007199254740991"
        using t unfolding nearest_even_def by linarith+
      then have "r = 9007199254740991" by linarith
      moreover have "even r" using t eq(1) by (simp add: nearest_even_def)
      ultimately show False by simp
    qed
  next
    assume "r = 2 ^ 53"
    then have "real_of_int r = 2 ^ 53" by simp
    then show "2 ^ 53 - 1 / 2 \<le> ?t" using t unfolding nearest_even_def by linarith
  qed
  finally show ?thesis using True by simp
next
  case False
  then have "(2 :: int) ^ L \<le> 2 ^ 1023" using L by (intro power_increasing) simp_all
  then have "V < overflow_bound" using V(2) unfolding overflow_bound_def by simp
  moreover have "L - 1 \<noteq> 1023" using False L by linarith
  ultimately show ?thesis by simp
qed


lemma to_f64_magnitude:
  assumes b: "bigint_ok b" "bigint_value b \<noteq> 0" and m: "magnitude alloc b = Inr m" "limbs_value m = \<bar>bigint_value b\<bar>"
  defines "v \<equiv> bigint_value b"
  shows "if \<bar>v\<bar> < overflow_bound then correctly_rounded (of_int v) (to_f64 alloc b)
    else to_f64 alloc b = signed_infinity (v < 0)"
proof -
  have neg: "is_negative b \<longleftrightarrow> v < 0" using bigint_negative_iff [OF b(1)] by (simp add: v_def)
  have z: "\<not> bigint_is_zero b" using b by (simp add: bigint_is_zero_iff)
  obtain L where L: "magnitude_bit_length m = Some L" "0 < L" "2 ^ (L - 1) \<le> \<bar>v\<bar>" "\<bar>v\<bar> < 2 ^ L"
    using magnitude_bit_length_bound [of m] m(2) b(2) by (auto simp: v_def)
  show ?thesis
  proof (cases "L \<le> 1024")
    case False
    then have "(2 :: int) ^ 1024 \<le> 2 ^ (L - 1)" by (intro power_increasing) simp_all
    then have "overflow_bound \<le> \<bar>v\<bar>" using L(3) unfolding overflow_bound_def by simp
    moreover have "1023 < L - 1" using False by linarith
    ultimately show ?thesis using L(1) m(1) z neg by (simp add: to_f64_def Let_def)
  next
    case True
    obtain w sticky where w: "fold (window_step m (L - 1)) [0..<L] (0, False) = (w, sticky)" by fastforce
    define s where "s = (if L < 54 then push_bit (54 - L) w else w)"
    define t where "t = real_of_int \<bar>v\<bar> * 2 powi (53 - int L)"
    define r where "r = uint s div 2 + of_bool (odd (uint s) \<and> (sticky \<or> odd (uint s div 2)))"
    have win: "of_int (uint s) \<le> 2 * t" "2 * t < of_int (uint s) + 1" "sticky \<longleftrightarrow> 2 * t \<noteq> of_int (uint s)"
      "2 ^ 53 \<le> uint s" "uint s < 2 ^ 54"
      using window_value [OF _ _ L(2) w] L(3,4) m(2) by (simp_all add: s_def t_def v_def)
    have near: "nearest_even t r" unfolding r_def by (rule round_half_even [OF win(1-3)])
    have E: "L - 1 \<le> 1023" using True by simp
    note bound = round_significand_value(2) [OF win(4,5) E, where sticky = sticky, folded r_def]
    note packed = round_significand_value(3,4) [OF win(4,5) E, where sticky = sticky and negative = "v < 0", folded r_def]
    have x: "to_f64 alloc b = round_significand (v < 0) (L - 1) s sticky"
    proof -
      have "\<not> 1023 < L - 1" using E by linarith
      then show ?thesis using L(1) m(1) z neg w by (simp add: to_f64_def Let_def s_def)
    qed
    note over = overflow_iff [OF L(3,4,2) True near [unfolded t_def] bound]
    have scale: "int (L - 1) - 52 = int L - 53" using L(2) by simp
    show ?thesis
    proof (cases "overflow_bound \<le> \<bar>v\<bar>")
      case True
      then show ?thesis using over packed(1) x by simp
    next
      case False
      have "real_of_int \<bar>v\<bar> = t * 2 powi (int L - 53)" unfolding t_def
        using powi_diff [of "53 - int L" "int L - 53"] by (simp add: mult.assoc)
      moreover have "(2 :: real) ^ 53 \<le> 2 * t"
        by (rule order.trans [OF _ win(1)]) (metis win(4) of_int_le_iff of_int_numeral of_int_power)
      then have "2 ^ 52 \<le> t" by simp
      ultimately have "correctly_rounded (of_int v) (to_f64 alloc b)"
        using False over packed(2) unfolding x scale by (intro rounded_correctly [OF _ _ near]) blast+
      then show ?thesis using False by simp
    qed
  qed
qed

lemma to_f64_outcome:
  assumes b: "bigint_ok b" and mem: "\<And>n. alloc 0 n"
  defines "v \<equiv> bigint_value b"
  shows "if \<bar>v\<bar> < overflow_bound then correctly_rounded (of_int v) (to_f64 alloc b)
    else to_f64 alloc b = signed_infinity (v < 0)"
proof (cases "v = 0")
  case True
  have "f64_is_finite 0" "f64_real 0 = 0"
    by (simp_all add: f64_is_finite_def f64_exponent_def f64_real_def f64_significand_def f64_fraction_def)
  moreover have "to_f64 alloc b = 0" using True b by (simp add: to_f64_def bigint_is_zero_iff v_def)
  moreover have "even (f64_fraction 0)" by (simp add: f64_fraction_def)
  ultimately show ?thesis using True by (simp add: correctly_rounded_def overflow_bound_def)
next
  case False
  show ?thesis
  proof (cases "magnitude alloc b")
    case (Inr m)
    then show ?thesis using to_f64_magnitude [OF b _ Inr] False magnitude_cases [OF b, of alloc] by (auto simp: v_def)
  next
    case (Inl e)
    then have "\<not> bigint_fits \<bar>v\<bar>" using magnitude_cases [OF b, of alloc] mem by (auto simp: failed_def v_def)
    then have "\<not> \<bar>v\<bar> < 2 ^ 1024" using fits_power [of "\<bar>v\<bar>" 1024] by (auto simp: MAX_LIMBS_eq)
    then have "\<not> \<bar>v\<bar> < overflow_bound" unfolding overflow_bound_def by simp
    then show ?thesis using Inl False b bigint_negative_iff [OF b] by (simp add: to_f64_def bigint_is_zero_iff v_def)
  qed
qed

end
