(* ===== verification/BigInt_Guarantees.thy ===== *)
theory BigInt_Guarantees
  imports BigInt_Grammar BigInt_Rounding
begin

text \<open>
  What the callers of the BigInt component rely on. Every operation is stated against the integers
  through \<^const>\<open>bigint_outcome\<close>: a result is a canonical limb vector of exactly the specified value,
  an error is the size error exactly when the value does not fit the cap, or a refused reservation.
\<close>

section \<open>Exact partial arithmetic\<close>

text \<open>
  The contract of an exact arithmetic with canonical representations: whenever an operation
  answers, the answer denotes the exact result. The algebraic laws follow for the representations
  themselves, so a client may compare results structurally.
\<close>

locale exact_ring =
  fixes ok :: "'a \<Rightarrow> bool" and value_of :: "'a \<Rightarrow> int"
    and add mul :: "'a \<Rightarrow> 'a \<Rightarrow> ('e, 'a) result"
  assumes canonical: "ok a \<Longrightarrow> ok b \<Longrightarrow> value_of a = value_of b \<longleftrightarrow> a = b"
    and add_exact: "ok a \<Longrightarrow> ok b \<Longrightarrow> add a b = Inr c \<Longrightarrow> ok c \<and> value_of c = value_of a + value_of b"
    and mul_exact: "ok a \<Longrightarrow> ok b \<Longrightarrow> mul a b = Inr c \<Longrightarrow> ok c \<and> value_of c = value_of a * value_of b"
begin

lemma add_commutes: "ok a \<Longrightarrow> ok b \<Longrightarrow> add a b = Inr c \<Longrightarrow> add b a = Inr d \<Longrightarrow> c = d"
  using add_exact [of a b c] add_exact [of b a d] canonical [of c d] by simp

lemma mul_commutes: "ok a \<Longrightarrow> ok b \<Longrightarrow> mul a b = Inr c \<Longrightarrow> mul b a = Inr d \<Longrightarrow> c = d"
  using mul_exact [of a b c] mul_exact [of b a d] canonical [of c d] by simp

lemma bind_add_exact:
  "ok a \<Longrightarrow> ok b \<Longrightarrow> and_then (add a b) f = Inr r \<Longrightarrow> \<exists>c. ok c \<and> value_of c = value_of a + value_of b \<and> f c = Inr r"
  using add_exact [of a b] by (cases "add a b") auto

lemma bind_mul_exact:
  "ok a \<Longrightarrow> ok b \<Longrightarrow> and_then (mul a b) f = Inr r \<Longrightarrow> \<exists>c. ok c \<and> value_of c = value_of a * value_of b \<and> f c = Inr r"
  using mul_exact [of a b] by (cases "mul a b") auto

lemma add_associates:
  assumes "ok a" "ok b" "ok c" "and_then (add a b) (\<lambda>x. add x c) = Inr l" "and_then (add b c) (add a) = Inr r"
  shows "l = r"
proof -
  obtain x y where "ok x" "value_of x = value_of a + value_of b" "add x c = Inr l"
    "ok y" "value_of y = value_of b + value_of c" "add a y = Inr r"
    using bind_add_exact [OF assms(1,2,4)] bind_add_exact [OF assms(2,3,5)] by blast
  then show ?thesis using add_exact [of x c l] add_exact [of a y r] canonical [of l r] assms by simp
qed

lemma mul_associates:
  assumes "ok a" "ok b" "ok c" "and_then (mul a b) (\<lambda>x. mul x c) = Inr l" "and_then (mul b c) (mul a) = Inr r"
  shows "l = r"
proof -
  obtain x y where "ok x" "value_of x = value_of a * value_of b" "mul x c = Inr l"
    "ok y" "value_of y = value_of b * value_of c" "mul a y = Inr r"
    using bind_mul_exact [OF assms(1,2,4)] bind_mul_exact [OF assms(2,3,5)] by blast
  then show ?thesis using mul_exact [of x c l] mul_exact [of a y r] canonical [of l r] assms by simp
qed

lemma mul_distributes:
  assumes "ok a" "ok b" "ok c" "and_then (add b c) (mul a) = Inr l"
    "and_then (mul a b) (\<lambda>x. and_then (mul a c) (add x)) = Inr r"
  shows "l = r"
proof -
  obtain s where s: "ok s" "value_of s = value_of b + value_of c" "mul a s = Inr l"
    using bind_add_exact [OF assms(2-4)] by blast
  obtain x where x: "ok x" "value_of x = value_of a * value_of b" "and_then (mul a c) (add x) = Inr r"
    using bind_mul_exact [OF assms(1,2,5)] by blast
  obtain y where y: "ok y" "value_of y = value_of a * value_of c" "add x y = Inr r"
    using bind_mul_exact [OF assms(1,3) x(3)] by blast
  show ?thesis using s x(1,2) y mul_exact [of a s l] add_exact [of x y r] canonical [of l r] assms(1)
    by (simp add: algebra_simps)
qed

end

interpretation bigint_ring: exact_ring bigint_ok bigint_value "bigint_add alloc" "bigint_mul alloc" for alloc
proof
  fix a b c
  assume ok: "bigint_ok a" "bigint_ok b"
  show "bigint_value a = bigint_value b \<longleftrightarrow> a = b" using ok by (rule bigint_value_inject)
  show "bigint_ok c \<and> bigint_value c = bigint_value a + bigint_value b" if "bigint_add alloc a b = Inr c"
    using add_with_sign_outcome [OF ok, of alloc False] that bigint_outcome_InrD by (fastforce simp: bigint_add_def)
  show "bigint_ok c \<and> bigint_value c = bigint_value a * bigint_value b" if "bigint_mul alloc a b = Inr c"
    using mul_outcome [OF ok, of alloc] that bigint_outcome_InrD by fastforce
qed

text \<open>Values in the range of an \<^verbatim>\<open>i64\<close> fit the cap, and with memory available such a result is returned.\<close>

lemma i64_fits: "- (2 ^ 63) \<le> v \<Longrightarrow> v < 2 ^ 63 \<Longrightarrow> bigint_fits v"
  using bigint_ok_fits [OF from_i64_value(1) [of "word_of_int v"]]
  by (simp add: from_i64_value int_word_sint signed_take_bit_int_eq_self)

lemma outcome_answers:
  "bigint_outcome (\<lambda>_ _. True) e need v r \<Longrightarrow> need \<Longrightarrow> \<exists>c. r = Inr c \<and> bigint_value c = v"
  by (cases r) (auto simp: bigint_outcome_def)

section \<open>Ring operations\<close>

text \<open>
  C7. Addition, subtraction, negation, absolute value and multiplication of BigInts are exact on
  the integers for every sign and width. A result is canonical and denotes exactly the
  mathematical result; the size error is reported exactly when the result of a sum, difference or
  negation does not fit the cap, and for a product exactly when its magnitude does not fit.
\<close>

theorem bigint_ring_exact:
  assumes "bigint_ok a" "bigint_ok b"
  shows "bigint_outcome alloc TooLarge (bigint_fits (bigint_value a + bigint_value b))
      (bigint_value a + bigint_value b) (bigint_add alloc a b) \<and>
    bigint_outcome alloc TooLarge (bigint_fits (bigint_value a - bigint_value b))
      (bigint_value a - bigint_value b) (bigint_sub alloc a b) \<and>
    bigint_outcome alloc TooLarge (bigint_fits (- bigint_value a)) (- bigint_value a) (bigint_neg alloc a) \<and>
    bigint_outcome alloc TooLarge (bigint_fits \<bar>bigint_value a\<bar>) \<bar>bigint_value a\<bar> (bigint_abs alloc a) \<and>
    bigint_outcome alloc TooLarge (bigint_fits \<bar>bigint_value a * bigint_value b\<bar>)
      (bigint_value a * bigint_value b) (bigint_mul alloc a b)"
  using add_with_sign_outcome [OF assms, of alloc False] add_with_sign_outcome [OF assms, of alloc True]
    neg_outcome [OF assms(1), of alloc] abs_outcome [OF assms(1), of alloc] mul_outcome [OF assms, of alloc]
  by (simp add: bigint_add_def bigint_sub_def)

theorem bigint_ring_exact_witness:
  "(\<exists>c. bigint_mul (\<lambda>_ _. True) (bigint_from_i64 6) (bigint_from_i64 (- 4)) = Inr c \<and> bigint_value c = - 24) \<and>
   (\<exists>c. bigint_sub (\<lambda>_ _. True) (bigint_from_i64 6) (bigint_from_i64 (- 4)) = Inr c \<and> bigint_value c = 10)"
  using bigint_ring_exact [OF from_i64_value(1) [of 6] from_i64_value(1) [of "- 4"], of "\<lambda>_ _. True"]
  by (auto simp: from_i64_value i64_fits intro!: outcome_answers)

text \<open>
  Results obey the laws of a commutative ring as representations: two ways of computing the
  same sum of products that both answer give the same limb vector, for commuted, reassociated and
  distributed operands alike.
\<close>

lemma bigint_ring_laws:
  assumes "bigint_ok a" "bigint_ok b" "bigint_ok c"
  shows "(bigint_add alloc a b = Inr l \<and> bigint_add alloc b a = Inr r \<longrightarrow> l = r) \<and>
    (bigint_mul alloc a b = Inr l \<and> bigint_mul alloc b a = Inr r \<longrightarrow> l = r) \<and>
    (and_then (bigint_add alloc a b) (\<lambda>x. bigint_add alloc x c) = Inr l \<and>
       and_then (bigint_add alloc b c) (bigint_add alloc a) = Inr r \<longrightarrow> l = r) \<and>
    (and_then (bigint_mul alloc a b) (\<lambda>x. bigint_mul alloc x c) = Inr l \<and>
       and_then (bigint_mul alloc b c) (bigint_mul alloc a) = Inr r \<longrightarrow> l = r) \<and>
    (and_then (bigint_add alloc b c) (bigint_mul alloc a) = Inr l \<and>
       and_then (bigint_mul alloc a b) (\<lambda>x. and_then (bigint_mul alloc a c) (bigint_add alloc x)) = Inr r \<longrightarrow> l = r)"
  using assms
  by (intro conjI impI; elim conjE)
    (rule bigint_ring.add_commutes bigint_ring.mul_commutes bigint_ring.add_associates
       bigint_ring.mul_associates bigint_ring.mul_distributes; assumption)+

section \<open>Division\<close>

text \<open>
  C18. Division by zero is its own error, before anything is allocated. Otherwise the quotient is
  truncated toward zero and the remainder takes the sign of the dividend, exactly, for every sign
  and width; the size error is reported exactly when a nonzero dividend or the divisor has a
  magnitude that does not fit the cap.
\<close>

theorem bigint_division_exact:
  assumes "bigint_ok a" "bigint_ok b"
  shows "(bigint_value b = 0 \<longrightarrow> div_rem alloc a b = Inl DivisionByZero) \<and>
    (bigint_value b \<noteq> 0 \<longrightarrow> division_outcome alloc (bigint_value a) (bigint_value b) (div_rem alloc a b))"
  using div_rem_outcome [OF assms, of alloc] bigint_is_zero_iff [OF assms(2)] by (simp add: div_rem_def)

theorem bigint_division_exact_witness:
  "division_outcome (\<lambda>_ _. True) (- 7) 2 (div_rem (\<lambda>_ _. True) (bigint_from_i64 (- 7)) (bigint_from_i64 2))"
  using bigint_division_exact [OF from_i64_value(1) [of "- 7"] from_i64_value(1) [of 2], of "\<lambda>_ _. True"]
  by (simp add: from_i64_value)

section \<open>Bits\<close>

text \<open>
  C31. The bitwise operations act on the infinite two's complement expansion: conjunction,
  disjunction, exclusive or and complement of any two BigInts always fit, a left shift multiplies
  by the power of two and reports the result size error exactly when the product does not fit, and
  a right shift is the floor division by the power of two, whatever the shift count.
\<close>

theorem bigint_bits_exact:
  assumes "bigint_ok a" "bigint_ok b"
  shows "bigint_outcome alloc TooLarge True (bigint_value a AND bigint_value b) (bigint_bitand alloc a b) \<and>
    bigint_outcome alloc TooLarge True (bigint_value a OR bigint_value b) (bigint_bitor alloc a b) \<and>
    bigint_outcome alloc TooLarge True (bigint_value a XOR bigint_value b) (bigint_bitxor alloc a b) \<and>
    bigint_outcome alloc TooLarge True (NOT (bigint_value a)) (bigint_not alloc a) \<and>
    bigint_outcome alloc ResultTooLarge (bigint_fits (bigint_value a * 2 ^ unat count))
      (bigint_value a * 2 ^ unat count) (bigint_shl alloc a count) \<and>
    bigint_outcome alloc TooLarge True (bigint_value a div 2 ^ unat count) (bigint_shr alloc a count)"
  unfolding bigint_bitand_def bigint_bitor_def bigint_bitxor_def
  by (intro conjI bitwise_outcome [OF assms] not_outcome [OF assms(1)] shl_outcome [OF assms(1)] shr_outcome [OF assms(1)])
    (simp_all add: bit_simps)

theorem bigint_bits_exact_witness:
  "(\<exists>c. bigint_bitand (\<lambda>_ _. True) (bigint_from_i64 (- 4)) (bigint_from_i64 7) = Inr c \<and> bigint_value c = 4) \<and>
   (\<exists>c. bigint_shr (\<lambda>_ _. True) (bigint_from_i64 (- 4)) 100 = Inr c \<and> bigint_value c = - 1)"
  using bigint_bits_exact [OF from_i64_value(1) [of "- 4"] from_i64_value(1) [of 7], of "\<lambda>_ _. True" 100]
  by (auto simp: from_i64_value intro!: outcome_answers)




section \<open>Order\<close>

text \<open>
  C35. Comparison is the order of the integers, and values are canonical: comparing equal, having
  equal limbs and denoting the same integer are the same thing, and every nonempty finite
  collection of BigInts has a greatest element under the comparison.
\<close>

theorem bigint_order_exact:
  assumes "bigint_ok a" "bigint_ok b"
  shows "bigint_compare a b = cmp (bigint_value a) (bigint_value b) \<and>
    (bigint_compare a b = Equal \<longleftrightarrow> limbs a = limbs b) \<and>
    (bigint_value a = bigint_value b \<longleftrightarrow> limbs a = limbs b) \<and>
    bigint_compare b a = reverse_ordering (bigint_compare a b) \<and>
    (xs \<noteq> [] \<and> list_all bigint_ok xs \<longrightarrow> (\<exists>m\<in>set xs. \<forall>x\<in>set xs. bigint_compare x m \<noteq> Greater))"
proof -
  have "a = b \<longleftrightarrow> limbs a = limbs b" by (cases a; cases b) simp
  then show ?thesis
    using bigint_compare_value [OF assms] bigint_ord.compare_equal [OF assms] bigint_value_inject [OF assms]
      bigint_ord.compare_reverse [OF assms] bigint_ord.greatest_exists [of xs] by (simp add: bigint_ord.at_most_def)
qed

theorem bigint_order_exact_witness:
  "bigint_compare (bigint_from_i64 (- 5)) (bigint_from_i64 3) = Less"
  using bigint_order_exact [OF from_i64_value(1) [of "- 5"] from_i64_value(1) [of 3], of "[]"]
  by (simp add: from_i64_value cmp_def)

section \<open>Exponentiation\<close>

text \<open>
  C33. Exponentiation by squaring is exact: a negative exponent is its own error, an exponent of
  2^64 or more is the result size error, and any other exponent gives exactly the power, with the
  result size error exactly when the magnitude of the power does not fit the cap. No intermediate
  square that overflows the cap makes a power that fits fail.
\<close>

theorem bigint_pow_exact:
  assumes "bigint_ok b" "bigint_ok e"
  shows "(bigint_value e < 0 \<longrightarrow> bigint_pow alloc b e = Inl NegativeExponent) \<and>
    (2 ^ 64 \<le> bigint_value e \<longrightarrow> bigint_pow alloc b e = Inl ResultTooLarge) \<and>
    (0 \<le> bigint_value e \<and> bigint_value e < 2 ^ 64 \<longrightarrow>
       bigint_outcome alloc ResultTooLarge (bigint_fits \<bar>bigint_value b ^ nat (bigint_value e)\<bar>)
         (bigint_value b ^ nat (bigint_value e)) (bigint_pow alloc b e))"
  using pow_outcome [OF assms, of alloc] bigint_negative_iff [OF assms(2)] by simp

theorem bigint_pow_exact_witness:
  "\<exists>c. bigint_pow (\<lambda>_ _. True) (bigint_from_i64 (- 3)) (bigint_from_i64 5) = Inr c \<and> bigint_value c = - 243"
  using bigint_pow_exact [OF from_i64_value(1) [of "- 3"] from_i64_value(1) [of 5], of "\<lambda>_ _. True"]
  by (auto simp: from_i64_value i64_fits intro!: outcome_answers)

section \<open>Machine integers\<close>

lemma sint_u64_range: "(\<forall>i :: u64. v \<noteq> sint i) \<longleftrightarrow> v < - (2 ^ 63) \<or> 2 ^ 63 \<le> v"
proof -
  have "sint (word_of_int v :: u64) = v" if "- (2 ^ 63) \<le> v" "v < 2 ^ 63"
    using that by (simp add: signed_of_int signed_take_bit_int_eq_self)
  moreover have "- (2 ^ 63) \<le> sint i \<and> sint i < 2 ^ 63" for i :: u64
    using sint_greater_eq [of i] sint_less [of i] by simp
  ultimately show ?thesis by (metis linorder_not_less)
qed

lemma uint_u64_range: "(\<forall>u :: u64. v \<noteq> uint u) \<longleftrightarrow> v < 0 \<or> 2 ^ 64 \<le> v"
proof -
  have "uint (word_of_int v :: u64) = v" if "0 \<le> v" "v < 2 ^ 64"
    using that by (simp add: unsigned_of_int take_bit_int_eq_self)
  moreover have "0 \<le> uint u \<and> uint u < 2 ^ 64" for u :: u64
    using uint_bounded [of u] by simp
  ultimately show ?thesis by (metis linorder_not_less)
qed

text \<open>
  Conversions from machine integers are exact and canonical, conversions to them succeed
  exactly on the values in range and return that value, so each pair is a round trip; the wrapping
  conversion returns the low 64 bits of the two's complement expansion.
\<close>

theorem bigint_machine_integers:
  "bigint_to_i64 (bigint_from_i64 i) = Some i \<and> bigint_to_u64 (bigint_from_u64 u) = Some u \<and>
   bigint_to_i128 (bigint_from_i128 w) = Some w \<and> bigint_value (bigint_from_i32 h) = sint h \<and>
   (bigint_ok b \<longrightarrow>
      (bigint_to_i64 b = None \<longleftrightarrow> bigint_value b < - (2 ^ 63) \<or> 2 ^ 63 \<le> bigint_value b) \<and>
      (bigint_to_u64 b = None \<longleftrightarrow> bigint_value b < 0 \<or> 2 ^ 64 \<le> bigint_value b) \<and>
      (bigint_to_i64 b = Some i \<longleftrightarrow> bigint_value b = sint i) \<and>
      (bigint_to_u64 b = Some u \<longleftrightarrow> bigint_value b = uint u) \<and>
      (bigint_to_i128 b = Some w \<longleftrightarrow> bigint_value b = sint w) \<and>
      low_u64_twos_complement b = word_of_int (bigint_value b))"
proof -
  have i64: "bigint_to_i64 b = None \<longleftrightarrow> bigint_value b < - (2 ^ 63) \<or> 2 ^ 63 \<le> bigint_value b" if "bigint_ok b"
  proof -
    have "bigint_to_i64 b = None \<longleftrightarrow> (\<forall>i. bigint_value b \<noteq> sint (i :: u64))"
      using to_i64_value [OF that] by (metis option.exhaust option.distinct(1))
    also have "\<dots> \<longleftrightarrow> bigint_value b < - (2 ^ 63) \<or> 2 ^ 63 \<le> bigint_value b" by (rule sint_u64_range)
    finally show ?thesis .
  qed
  have u64: "bigint_to_u64 b = None \<longleftrightarrow> bigint_value b < 0 \<or> 2 ^ 64 \<le> bigint_value b" if "bigint_ok b"
  proof -
    have "bigint_to_u64 b = None \<longleftrightarrow> (\<forall>u. bigint_value b \<noteq> uint (u :: u64))"
      using to_u64_value [OF that] by (metis option.exhaust option.distinct(1))
    also have "\<dots> \<longleftrightarrow> bigint_value b < 0 \<or> 2 ^ 64 \<le> bigint_value b" by (rule uint_u64_range)
    finally show ?thesis .
  qed
  show ?thesis using i64 u64 to_i64_value to_u64_value to_i128_value low_u64_value bigint_ok_nonempty
    from_i64_value from_u64_value from_i128_value from_i32_value by simp
qed

theorem bigint_machine_integers_witness:
  "bigint_to_u64 (bigint_from_i64 (- 1)) = None \<and> low_u64_twos_complement (bigint_from_i64 (- 1)) = - 1"
  using bigint_machine_integers [of 0 0 0 0 "bigint_from_i64 (- 1)"] by (simp add: from_i64_value)

section \<open>Text\<close>

text \<open>
  C19. Parsing is exact. A radix outside 2 to 36 is an error. Otherwise the text denotes a value by
  the grammar of literals: surrounding whitespace, an optional sign, in radix ten a prefix that
  selects another radix but not together with a sign, then digits of the radix, nothing at all
  being zero. A text that denotes a value denotes one only and parses to exactly that value, or to
  the size error exactly when its magnitude does not fit; any other text is rejected.
\<close>

theorem bigint_parse_exact:
  "(\<not> (2 \<le> radix \<and> radix \<le> 36) \<longrightarrow> from_str_radix alloc literal radix = Inl InvalidRadix) \<and>
   (2 \<le> radix \<and> radix \<le> 36 \<and> denotes radix literal v \<longrightarrow>
      (denotes radix literal w \<longrightarrow> v = w) \<and>
      bigint_outcome alloc TooLarge (bigint_fits \<bar>v\<bar>) v (from_str_radix alloc literal radix)) \<and>
   (2 \<le> radix \<and> radix \<le> 36 \<and> (\<forall>u. \<not> denotes radix literal u) \<longrightarrow>
      (\<exists>e. from_str_radix alloc literal radix = Inl e \<and>
           (e = InvalidLiteral \<or> e = TooLarge \<or> e = AllocationFailed \<and> (\<exists>n. \<not> alloc 0 n))))"
proof -
  have "\<exists>e. from_str_radix alloc literal radix = Inl e \<and>
      (e = InvalidLiteral \<or> e = TooLarge \<or> e = AllocationFailed \<and> (\<exists>n. \<not> alloc 0 n))"
    if "2 \<le> radix" "radix \<le> 36" "\<forall>u. \<not> denotes radix literal u"
  proof -
    have "parse_literal literal radix = None" using that parse_literal_grammar [OF that(1,2)] by (metis option.exhaust)
    then show ?thesis using from_str_radix_invalid [OF that(1,2), of literal alloc] by (auto simp: failed_def)
  qed
  moreover have "v = w" if "2 \<le> radix" "radix \<le> 36" "denotes radix literal v" "denotes radix literal w"
    using that parse_literal_grammar [OF that(1,2), of literal] by (metis option.inject)
  moreover have "bigint_outcome alloc TooLarge (bigint_fits \<bar>v\<bar>) v (from_str_radix alloc literal radix)"
    if "2 \<le> radix" "radix \<le> 36" "denotes radix literal v"
    using from_str_radix_valid [OF that(1,2)] parse_literal_grammar [OF that(1,2)] that(3) by blast
  ultimately show ?thesis by (auto simp: from_str_radix_def)
qed

theorem bigint_parse_exact_witness:
  "\<exists>c. from_str_radix (\<lambda>_ _. True) [32, 48, 120, 49, 70] 10 = Inr c \<and> bigint_value c = 31"
proof -
  have "digits_of 16 [49, 70] [1, 15]" by code_simp
  from literal_prefixed [OF _ this, of 120] have "bigint_literal 10 [48, 120, 49, 70] 31"
    by (simp add: radix_prefixes_def digits_value_def)
  then have "denotes 10 [32, 48, 120, 49, 70] 31" unfolding denotes_def
    by (intro exI [of _ "[32]"] exI [of _ "[48, 120, 49, 70]"] exI [of _ "[]"]) (simp add: is_ecmascript_whitespace_def)
  then show ?thesis using bigint_parse_exact [of 10 "\<lambda>_ _. True" "[32, 48, 120, 49, 70]" 31 31]
    by (auto simp: i64_fits word_le_nat_alt intro!: outcome_answers)
qed

text \<open>
  C32. Rendering always returns, and what it returns parses back. In every radix from 2 to 36 the
  text is the digits of the value with a sign for negative values, it fails only on the size error
  of the magnitude or for want of memory, and parsing the text in the same radix returns the very
  same BigInt, or fails for want of memory.
\<close>

theorem bigint_text_round_trip:
  assumes "bigint_ok b" "2 \<le> radix" "radix \<le> 36"
  shows "case to_string_radix alloc b radix of
      None \<Rightarrow> False
    | Some (Inl e) \<Rightarrow> failed alloc TooLarge (bigint_fits \<bar>bigint_value b\<bar>) e
    | Some (Inr t) \<Rightarrow> t = render radix (bigint_value b) \<and>
        (from_str_radix alloc' t radix = Inr b \<or>
         from_str_radix alloc' t radix = Inl AllocationFailed \<and> (\<exists>n. \<not> alloc' 0 n))"
proof -
  let ?r = "from_str_radix alloc' (render radix (bigint_value b)) radix"
  have reads: "?r = Inr b \<or> ?r = Inl AllocationFailed \<and> (\<exists>n. \<not> alloc' 0 n)" if "bigint_fits \<bar>bigint_value b\<bar>"
    using from_str_radix_valid [OF assms(2,3) parse_render [OF assms(2,3), of "bigint_value b"], of alloc'] that bigint_value_inject [OF _ assms(1)]
    by (cases ?r) (auto simp: bigint_outcome_def)
  show ?thesis using to_string_radix_outcome [OF assms, of alloc] reads zero_fits
    by (fastforce simp: failed_def split: option.splits sum.splits)
qed

theorem bigint_text_round_trip_witness:
  "to_string_radix (\<lambda>_ _. True) (bigint_from_i64 (- 255)) 16 = Some (Inr [45, 102, 102]) \<and>
   from_str_radix (\<lambda>_ _. True) [45, 102, 102] 16 = Inr (bigint_from_i64 (- 255))"
proof -
  have r: "render 16 (- 255) = [45, 102, 102]" by code_simp
  have f: "bigint_fits 255" by (rule i64_fits) simp_all
  show ?thesis using bigint_text_round_trip [OF from_i64_value(1) [of "- 255"], of 16 "\<lambda>_ _. True" "\<lambda>_ _. True"] r f
    by (auto simp: from_i64_value word_le_nat_alt failed_def split: option.splits sum.splits)
qed

section \<open>Binary64\<close>

text \<open>
  C20. The binary64 conversions. With memory available, conversion to binary64 is correctly
  rounded: no finite binary64 is nearer to the value, on a tie the significand is even, and from
  half way past the largest finite value on the result is the infinity of the sign. Conversion from
  binary64 distinguishes non-finite and non-integral values as errors and is exact on every
  integral one, however large.
\<close>

theorem bigint_binary64:
  "(bigint_ok b \<and> (\<forall>n. alloc 0 n) \<longrightarrow>
      (if \<bar>bigint_value b\<bar> < overflow_bound then correctly_rounded (of_int (bigint_value b)) (to_f64 alloc b)
       else to_f64 alloc b = signed_infinity (bigint_value b < 0))) \<and>
   (\<not> f64_is_finite x \<longrightarrow> from_f64 alloc x = Inl NotFinite) \<and>
   (f64_is_finite x \<and> f64_real x \<notin> \<int> \<longrightarrow> from_f64 alloc x = Inl NotAnInteger) \<and>
   (f64_is_finite x \<and> f64_real x = of_int v \<longrightarrow> bigint_outcome alloc ResultTooLarge True v (from_f64 alloc x))"
proof -
  have "bigint_outcome alloc ResultTooLarge True v (from_f64 alloc x)" if "f64_is_finite x" "f64_real x = of_int v"
  proof -
    have i: "f64_integral x" using that(2) by (simp add: f64_integral_iff)
    then have v: "f64_trunc x = v" using f64_trunc_real [OF i] that(2) by simp
    show ?thesis using from_f64_large [OF that(1) i, of alloc] from_f64_small [OF that(1) i, of alloc] unfolding v
      by (cases "f64_abs_below x 9223372036854775808") (auto simp: bigint_outcome_def)
  qed
  then show ?thesis using to_f64_outcome [of b alloc] by (simp add: from_f64_def flip: f64_integral_iff)
qed

theorem bigint_binary64_witness:
  "correctly_rounded 9007199254740993 (to_f64 (\<lambda>_ _. True) (bigint_from_i64 9007199254740993)) \<and>
   (\<exists>c. from_f64 (\<lambda>_ _. True) 0x4008000000000000 = Inr c \<and> bigint_value c = 3)"
proof -
  have "f64_sign 0x4008000000000000 = False" "f64_exponent 0x4008000000000000 = 1024" "f64_fraction 0x4008000000000000 = 2 ^ 51"
    by code_simp+
  then have x: "f64_is_finite 0x4008000000000000" "f64_real 0x4008000000000000 = of_int 3"
    using two_powi_neg [of "- 51"]
    by (simp_all add: f64_is_finite_def f64_real_def f64_significand_def f64_scale_def)
  show ?thesis
    using bigint_binary64 [of "bigint_from_i64 9007199254740993" "\<lambda>_ _. True" "0x4008000000000000" 3] x
    by (auto simp: from_i64_value overflow_bound_def intro!: outcome_answers)
qed

end
