(* ===== verification/Js_Value.thy ===== *)
theory Js_Value
  imports Binary64 BigInt Arena "HOL-Library.Log_Nat"
begin

text \<open>
  Numbers and stored values: the representation and comparison part of \<^verbatim>\<open>number.rs\<close> and the value type
  of \<^verbatim>\<open>value.rs\<close> in \<^verbatim>\<open>crates/fusor-runtime/src\<close>. A string is the list of its code units, which is what
  string equality compares; a symbol is its identity, which is what atom equality compares.
\<close>

section \<open>Binary64 comparison and exact conversions\<close>

definition f64_is_nan :: "f64 \<Rightarrow> bool" where
  "f64_is_nan x \<longleftrightarrow> f64_exponent x = 2047 \<and> f64_fraction x \<noteq> 0"

text \<open>Apart from NaN, binary64 values are ordered like their sign-magnitude patterns, with equal zeros.\<close>

definition f64_key :: "f64 \<Rightarrow> int" where
  "f64_key x = (let m = uint (take_bit 63 x) in if f64_sign x then - m else m)"

definition f64_eq :: "f64 \<Rightarrow> f64 \<Rightarrow> bool" where
  "f64_eq x y \<longleftrightarrow> \<not> f64_is_nan x \<and> \<not> f64_is_nan y \<and> f64_key x = f64_key y"

definition f64_le :: "f64 \<Rightarrow> f64 \<Rightarrow> bool" where
  "f64_le x y \<longleftrightarrow> \<not> f64_is_nan x \<and> \<not> f64_is_nan y \<and> f64_key x \<le> f64_key y"

text \<open>\<^verbatim>\<open>f64::from\<close> of an integer of at most 53 bits, and \<^verbatim>\<open>value as i32\<close> of a value in range.\<close>

definition f64_of_int :: "int \<Rightarrow> f64" where
  "f64_of_int n =
     (if n = 0 then 0
      else let m = nat \<bar>n\<bar>; e = floorlog 2 m - 1
           in word_of_nat (of_bool (n < 0) * 2 ^ 63 + (e + 1023) * 2 ^ 52 + (m * 2 ^ (52 - e) - 2 ^ 52)))"

definition f64_as_i32 :: "f64 \<Rightarrow> u32" where
  "f64_as_i32 x = word_of_int (max (- (2 ^ 31)) (min (2 ^ 31 - 1) (f64_trunc x)))"

section \<open>Numbers\<close>

datatype js_number = NumInt u32 | NumFloat f64

definition number_from_f64 :: "f64 \<Rightarrow> js_number" where
  "number_from_f64 x =
     (if f64_le (f64_of_int (- (2 ^ 31))) x \<and> f64_le x (f64_of_int (2 ^ 31 - 1)) \<and>
         x = f64_of_int (sint (f64_as_i32 x))
      then NumInt (f64_as_i32 x) else NumFloat x)"

definition number_from_i32 :: "u32 \<Rightarrow> js_number" where
  "number_from_i32 v = NumInt v"

definition number_from_u32 :: "u32 \<Rightarrow> js_number" where
  "number_from_u32 v = (if v < 2 ^ 31 then NumInt v else NumFloat (f64_of_int (uint v)))"

primrec as_f64 :: "js_number \<Rightarrow> f64" where
  "as_f64 (NumInt v) = f64_of_int (sint v)"
| "as_f64 (NumFloat x) = x"

definition number_strict_equals :: "js_number \<Rightarrow> js_number \<Rightarrow> bool" where
  "number_strict_equals a b \<longleftrightarrow> f64_eq (as_f64 a) (as_f64 b)"

definition number_same_value :: "js_number \<Rightarrow> js_number \<Rightarrow> bool" where
  "number_same_value a b \<longleftrightarrow>
     (let l = as_f64 a; r = as_f64 b
      in if f64_is_nan l then f64_is_nan r
         else if f64_eq l 0 \<and> f64_eq r 0 then l = r
         else f64_eq l r)"

definition number_same_value_zero :: "js_number \<Rightarrow> js_number \<Rightarrow> bool" where
  "number_same_value_zero a b \<longleftrightarrow>
     (let l = as_f64 a; r = as_f64 b in f64_eq l r \<or> f64_is_nan l \<and> f64_is_nan r)"

section \<open>Stored values\<close>

type_synonym string_units = "u16 list"
type_synonym atom = nat

datatype stored_value =
  SV_Undefined | SV_Null | SV_Boolean bool | SV_Number js_number | SV_BigInt js_bigint
| SV_String string_units | SV_Symbol atom | SV_Function id | SV_Object id

datatype heap_reference = Ref_Function id | Ref_Object id

fun primitive_to_boolean :: "stored_value \<Rightarrow> bool option" where
  "primitive_to_boolean SV_Undefined = Some False"
| "primitive_to_boolean SV_Null = Some False"
| "primitive_to_boolean (SV_Boolean v) = Some v"
| "primitive_to_boolean (SV_Number v) = Some (\<not> f64_eq (as_f64 v) 0 \<and> \<not> f64_is_nan (as_f64 v))"
| "primitive_to_boolean (SV_BigInt v) = Some (\<not> bigint_is_zero v)"
| "primitive_to_boolean (SV_String v) = Some (v \<noteq> [])"
| "primitive_to_boolean (SV_Symbol _) = Some True"
| "primitive_to_boolean (SV_Function _) = None"
| "primitive_to_boolean (SV_Object _) = None"

definition strict_equals :: "stored_value \<Rightarrow> stored_value \<Rightarrow> bool" where
  "strict_equals a b =
     (case a of
        SV_Undefined \<Rightarrow> (case b of SV_Undefined \<Rightarrow> True | _ \<Rightarrow> False)
      | SV_Null \<Rightarrow> (case b of SV_Null \<Rightarrow> True | _ \<Rightarrow> False)
      | SV_Boolean x \<Rightarrow> (case b of SV_Boolean y \<Rightarrow> x = y | _ \<Rightarrow> False)
      | SV_Number x \<Rightarrow> (case b of SV_Number y \<Rightarrow> number_strict_equals x y | _ \<Rightarrow> False)
      | SV_BigInt x \<Rightarrow> (case b of SV_BigInt y \<Rightarrow> x = y | _ \<Rightarrow> False)
      | SV_String x \<Rightarrow> (case b of SV_String y \<Rightarrow> x = y | _ \<Rightarrow> False)
      | SV_Symbol x \<Rightarrow> (case b of SV_Symbol y \<Rightarrow> x = y | _ \<Rightarrow> False)
      | SV_Function x \<Rightarrow> (case b of SV_Function y \<Rightarrow> x = y | _ \<Rightarrow> False)
      | SV_Object x \<Rightarrow> (case b of SV_Object y \<Rightarrow> x = y | _ \<Rightarrow> False))"

definition same_value :: "stored_value \<Rightarrow> stored_value \<Rightarrow> bool" where
  "same_value a b =
     (case a of
        SV_Number x \<Rightarrow> (case b of SV_Number y \<Rightarrow> number_same_value x y | _ \<Rightarrow> strict_equals a b)
      | _ \<Rightarrow> strict_equals a b)"

definition same_value_zero :: "stored_value \<Rightarrow> stored_value \<Rightarrow> bool" where
  "same_value_zero a b =
     (case a of
        SV_Number x \<Rightarrow> (case b of SV_Number y \<Rightarrow> number_same_value_zero x y | _ \<Rightarrow> strict_equals a b)
      | _ \<Rightarrow> strict_equals a b)"

fun stored_heap_reference :: "stored_value \<Rightarrow> heap_reference option" where
  "stored_heap_reference (SV_Function f) = Some (Ref_Function f)"
| "stored_heap_reference (SV_Object x) = Some (Ref_Object x)"
| "stored_heap_reference _ = None"

section \<open>SameValue is the equality of what a value denotes\<close>

text \<open>What a number denotes: its pattern, with one NaN. The representation is not observable.\<close>

definition number_view :: "js_number \<Rightarrow> f64 option" where
  "number_view v = (if f64_is_nan (as_f64 v) then None else Some (as_f64 v))"

lemma f64_key_zero: "f64_key x = 0 \<longleftrightarrow> take_bit 63 x = 0"
  by (simp add: f64_key_def Let_def uint_0_iff)

lemma f64_key_eq_cases: "f64_key x = f64_key y \<longleftrightarrow> x = y \<or> take_bit 63 x = 0 \<and> take_bit 63 y = 0"
proof
  assume key: "f64_key x = f64_key y"
  show "x = y \<or> take_bit 63 x = 0 \<and> take_bit 63 y = 0"
  proof (cases "f64_sign x = f64_sign y")
    case True
    then have low: "take_bit 63 x = take_bit 63 y"
      using key by (simp add: f64_key_def Let_def word_uint_eq_iff split: if_splits)
    have "x = y"
    proof (rule bit_word_eqI)
      fix n
      assume "n < LENGTH(64)"
      then have "n = 63 \<or> n < 63" by auto
      moreover have "bit x n \<longleftrightarrow> bit y n" if "n < 63"
        using low that by (metis bit_take_bit_iff)
      ultimately show "bit x n \<longleftrightarrow> bit y n" using True by (auto simp: f64_sign_def)
    qed
    then show ?thesis by simp
  next
    case False
    then have "uint (take_bit 63 x) = - uint (take_bit 63 y)"
      using key by (auto simp: f64_key_def Let_def split: if_splits)
    then have "uint (take_bit 63 x) = 0" "uint (take_bit 63 y) = 0"
      using uint_ge_0 [of "take_bit 63 x"] uint_ge_0 [of "take_bit 63 y"] by linarith+
    then show ?thesis by (simp add: uint_0_iff)
  qed
next
  assume "x = y \<or> take_bit 63 x = 0 \<and> take_bit 63 y = 0"
  then show "f64_key x = f64_key y" by (auto simp: f64_key_def Let_def)
qed

lemma f64_eq_zero: "f64_eq x 0 \<longleftrightarrow> \<not> f64_is_nan x \<and> take_bit 63 x = 0"
proof -
  have "\<not> f64_is_nan 0" by (simp add: f64_is_nan_def f64_exponent_def)
  moreover have "f64_key 0 = 0" by (simp add: f64_key_def)
  ultimately show ?thesis unfolding f64_eq_def using f64_key_zero [of x] by simp
qed

lemma number_same_value_view: "number_same_value a b \<longleftrightarrow> number_view a = number_view b"
proof -
  let ?l = "as_f64 a" and ?r = "as_f64 b"
  have "f64_eq ?l ?r \<longleftrightarrow> ?l = ?r" if "\<not> f64_is_nan ?l" "\<not> f64_is_nan ?r" "\<not> (f64_eq ?l 0 \<and> f64_eq ?r 0)"
    using that(1,2) that(3) [unfolded f64_eq_zero] f64_key_eq_cases [of ?l ?r] by (auto simp: f64_eq_def)
  then show ?thesis by (auto simp: number_same_value_def number_view_def Let_def f64_eq_def)
qed

fun same_kind_view :: "stored_value \<Rightarrow> stored_value + f64 option" where
  "same_kind_view (SV_Number v) = Inr (number_view v)"
| "same_kind_view v = Inl v"

lemma same_value_view: "same_value a b \<longleftrightarrow> same_kind_view a = same_kind_view b"
  by (cases a; cases b) (simp_all add: same_value_def strict_equals_def number_same_value_view)

lemma same_value_refl [simp]: "same_value a a"
  by (simp add: same_value_view)

lemma same_value_sym: "same_value a b \<longleftrightarrow> same_value b a"
  by (auto simp: same_value_view)

lemma same_value_trans: "same_value a b \<Longrightarrow> same_value b c \<Longrightarrow> same_value a c"
  by (simp add: same_value_view)

text \<open>The integer representation is invisible: storing a binary64 and reading it returns the same pattern.\<close>

lemma number_from_f64_round_trip [simp]: "as_f64 (number_from_f64 x) = x"
  by (simp add: number_from_f64_def)

end
