(* ===== verification/Property.thy ===== *)
theory Property
  imports Prelude
begin

text \<open>
  Property descriptors and layouts, from \<^verbatim>\<open>crates/fusor-runtime/src/property.rs\<close>: the optional fields
  read from a descriptor object, their structural classification, completion with defaults, and the
  attributes of a stored property.
\<close>

text \<open>\<^verbatim>\<open>Option::unwrap_or\<close>.\<close>

fun unwrap_or :: "'a option \<Rightarrow> 'a \<Rightarrow> 'a" where
  "unwrap_or None d = d"
| "unwrap_or (Some v) d = v"

section \<open>Fields and classification\<close>

record 'v descriptor_fields =
  df_value :: "'v option"
  df_writable :: "bool option"
  df_get :: "'v option"
  df_set :: "'v option"
  df_enumerable :: "bool option"
  df_configurable :: "bool option"

definition descriptor_fields_new :: "'v descriptor_fields" where
  "descriptor_fields_new = \<lparr>df_value = None, df_writable = None, df_get = None, df_set = None,
     df_enumerable = None, df_configurable = None\<rparr>"

datatype property_descriptor_kind = Kind_Generic | Kind_Data | Kind_Accessor

datatype property_descriptor_error = MixedDataAndAccessorFields bool bool bool bool

datatype 'v property_descriptor =
  PD_Generic "bool option" "bool option"
| PD_Data "'v option" "bool option" "bool option" "bool option"
| PD_Accessor "'v option" "'v option" "bool option" "bool option"

definition structural_kind :: "'v descriptor_fields \<Rightarrow> (property_descriptor_error, property_descriptor_kind) result" where
  "structural_kind f =
     (let has_value = df_value f \<noteq> None; has_writable = df_writable f \<noteq> None;
          has_get = df_get f \<noteq> None; has_set = df_set f \<noteq> None;
          has_data = (has_value \<or> has_writable); has_accessor = (has_get \<or> has_set)
      in if has_data \<and> has_accessor then Inl (MixedDataAndAccessorFields has_value has_writable has_get has_set)
         else if has_accessor then Inr Kind_Accessor
         else if has_data then Inr Kind_Data
         else Inr Kind_Generic)"

fun into_descriptor_with_kind :: "'v descriptor_fields \<Rightarrow> property_descriptor_kind \<Rightarrow> 'v property_descriptor" where
  "into_descriptor_with_kind f Kind_Generic = PD_Generic (df_enumerable f) (df_configurable f)"
| "into_descriptor_with_kind f Kind_Data =
     PD_Data (df_value f) (df_writable f) (df_enumerable f) (df_configurable f)"
| "into_descriptor_with_kind f Kind_Accessor =
     PD_Accessor (df_get f) (df_set f) (df_enumerable f) (df_configurable f)"

definition try_from_fields :: "'v descriptor_fields \<Rightarrow> (property_descriptor_error, 'v property_descriptor) result" where
  "try_from_fields f = and_then (structural_kind f) (\<lambda>k. Inr (into_descriptor_with_kind f k))"

fun pd_kind :: "'v property_descriptor \<Rightarrow> property_descriptor_kind" where
  "pd_kind (PD_Generic _ _) = Kind_Generic"
| "pd_kind (PD_Data _ _ _ _) = Kind_Data"
| "pd_kind (PD_Accessor _ _ _ _) = Kind_Accessor"

fun pd_value :: "'v property_descriptor \<Rightarrow> 'v option" where
  "pd_value (PD_Data v _ _ _) = v"
| "pd_value _ = None"

fun pd_writable :: "'v property_descriptor \<Rightarrow> bool option" where
  "pd_writable (PD_Data _ w _ _) = w"
| "pd_writable _ = None"

fun pd_getter :: "'v property_descriptor \<Rightarrow> 'v option" where
  "pd_getter (PD_Accessor g _ _ _) = g"
| "pd_getter _ = None"

fun pd_setter :: "'v property_descriptor \<Rightarrow> 'v option" where
  "pd_setter (PD_Accessor _ s _ _) = s"
| "pd_setter _ = None"

fun pd_enumerable :: "'v property_descriptor \<Rightarrow> bool option" where
  "pd_enumerable (PD_Generic e _) = e"
| "pd_enumerable (PD_Data _ _ e _) = e"
| "pd_enumerable (PD_Accessor _ _ e _) = e"

fun pd_configurable :: "'v property_descriptor \<Rightarrow> bool option" where
  "pd_configurable (PD_Generic _ c) = c"
| "pd_configurable (PD_Data _ _ _ c) = c"
| "pd_configurable (PD_Accessor _ _ _ c) = c"

section \<open>Layouts\<close>

datatype property_layout_kind = Layout_Data | Layout_Accessor

datatype property_layout = PL_Data bool bool bool | PL_Accessor bool bool

fun layout_kind :: "property_layout \<Rightarrow> property_layout_kind" where
  "layout_kind (PL_Data _ _ _) = Layout_Data"
| "layout_kind (PL_Accessor _ _) = Layout_Accessor"

fun layout_writable :: "property_layout \<Rightarrow> bool option" where
  "layout_writable (PL_Data w _ _) = Some w"
| "layout_writable (PL_Accessor _ _) = None"

fun is_enumerable :: "property_layout \<Rightarrow> bool" where
  "is_enumerable (PL_Data _ e _) = e"
| "is_enumerable (PL_Accessor e _) = e"

fun is_configurable :: "property_layout \<Rightarrow> bool" where
  "is_configurable (PL_Data _ _ c) = c"
| "is_configurable (PL_Accessor _ c) = c"

fun sealed :: "property_layout \<Rightarrow> property_layout" where
  "sealed (PL_Data w e _) = PL_Data w e False"
| "sealed (PL_Accessor e _) = PL_Accessor e False"

fun frozen :: "property_layout \<Rightarrow> property_layout" where
  "frozen (PL_Data _ e _) = PL_Data False e False"
| "frozen (PL_Accessor e _) = PL_Accessor e False"

section \<open>Completed descriptors\<close>

datatype 'v completed_descriptor =
  CD_Data 'v bool bool bool
| CD_Accessor 'v 'v bool bool

fun complete_for_new_property :: "'v property_descriptor \<Rightarrow> 'v \<Rightarrow> 'v completed_descriptor" where
  "complete_for_new_property (PD_Generic e c) undef =
     CD_Data undef False (unwrap_or e False) (unwrap_or c False)"
| "complete_for_new_property (PD_Data v w e c) undef =
     CD_Data (unwrap_or v undef) (unwrap_or w False) (unwrap_or e False) (unwrap_or c False)"
| "complete_for_new_property (PD_Accessor g s e c) undef =
     CD_Accessor (unwrap_or g undef) (unwrap_or s undef) (unwrap_or e False) (unwrap_or c False)"

fun cd_layout :: "'v completed_descriptor \<Rightarrow> property_layout" where
  "cd_layout (CD_Data _ w e c) = PL_Data w e c"
| "cd_layout (CD_Accessor _ _ e c) = PL_Accessor e c"

fun cd_value :: "'v completed_descriptor \<Rightarrow> 'v option" where
  "cd_value (CD_Data v _ _ _) = Some v"
| "cd_value (CD_Accessor _ _ _ _) = None"

fun cd_getter :: "'v completed_descriptor \<Rightarrow> 'v option" where
  "cd_getter (CD_Accessor g _ _ _) = Some g"
| "cd_getter (CD_Data _ _ _ _) = None"

fun cd_setter :: "'v completed_descriptor \<Rightarrow> 'v option" where
  "cd_setter (CD_Accessor _ s _ _) = Some s"
| "cd_setter (CD_Data _ _ _ _) = None"

section \<open>Classification loses nothing\<close>

text \<open>
  A descriptor is well formed when its class has at least one of its own fields; classification
  yields only such descriptors and keeps every field.
\<close>

fun descriptor_wf :: "'v property_descriptor \<Rightarrow> bool" where
  "descriptor_wf (PD_Generic _ _) = True"
| "descriptor_wf (PD_Data v w _ _) = (v \<noteq> None \<or> w \<noteq> None)"
| "descriptor_wf (PD_Accessor g s _ _) = (g \<noteq> None \<or> s \<noteq> None)"

definition descriptor_fields_of :: "'v property_descriptor \<Rightarrow> 'v descriptor_fields" where
  "descriptor_fields_of d = \<lparr>df_value = pd_value d, df_writable = pd_writable d, df_get = pd_getter d,
     df_set = pd_setter d, df_enumerable = pd_enumerable d, df_configurable = pd_configurable d\<rparr>"

lemma try_from_fields_iff: "try_from_fields f = Inr d \<longleftrightarrow> descriptor_wf d \<and> descriptor_fields_of d = f"
  by (cases d; cases f) (auto simp: try_from_fields_def structural_kind_def Let_def descriptor_fields_of_def split: if_splits)

lemma try_from_fields_mixed:
  "(\<exists>e. try_from_fields f = Inl e) \<longleftrightarrow>
     (df_value f \<noteq> None \<or> df_writable f \<noteq> None) \<and> (df_get f \<noteq> None \<or> df_set f \<noteq> None)"
  by (auto simp: try_from_fields_def structural_kind_def Let_def)

end
