(* ===== verification/Define_Property.thy ===== *)
theory Define_Property
  imports Js_Value Property
begin

text \<open>
  \<^verbatim>\<open>ValidateAndApplyPropertyDescriptor\<close> over property slots, from
  \<^verbatim>\<open>crates/fusor-runtime/src/define_property.rs\<close>, the own properties of \<^verbatim>\<open>object.rs\<close>, and the construction
  of a definition from collected descriptor fields in \<^verbatim>\<open>vm/define_property_intrinsics.rs\<close>. Duplicating
  a stored value shares or copies it and is the identity here; a script error is its message.
\<close>

section \<open>Definitions and own properties\<close>

datatype 'a requested = Absent | Present 'a

fun requested_or :: "'a requested \<Rightarrow> 'a \<Rightarrow> 'a" where
  "requested_or Absent d = d"
| "requested_or (Present v) d = v"

fun is_present :: "'a requested \<Rightarrow> bool" where
  "is_present Absent = False"
| "is_present (Present _) = True"

datatype definition_fields =
  DF_Generic
| DF_Data "stored_value requested" "bool requested"
| DF_Accessor "id option requested" "id option requested"

record property_definition =
  def_fields :: definition_fields
  def_enumerable :: "bool requested"
  def_configurable :: "bool requested"

definition definition_generic :: property_definition where
  "definition_generic = \<lparr>def_fields = DF_Generic, def_enumerable = Absent, def_configurable = Absent\<rparr>"

definition definition_data :: "stored_value requested \<Rightarrow> bool requested \<Rightarrow> property_definition" where
  "definition_data v w = \<lparr>def_fields = DF_Data v w, def_enumerable = Absent, def_configurable = Absent\<rparr>"

definition definition_accessor :: "id option requested \<Rightarrow> id option requested \<Rightarrow> property_definition" where
  "definition_accessor g s = \<lparr>def_fields = DF_Accessor g s, def_enumerable = Absent, def_configurable = Absent\<rparr>"

definition with_enumerable :: "bool requested \<Rightarrow> property_definition \<Rightarrow> property_definition" where
  "with_enumerable e d = d\<lparr>def_enumerable := e\<rparr>"

definition with_configurable :: "bool requested \<Rightarrow> property_definition \<Rightarrow> property_definition" where
  "with_configurable c d = d\<lparr>def_configurable := c\<rparr>"

fun is_accessor_fields :: "definition_fields \<Rightarrow> bool" where
  "is_accessor_fields (DF_Accessor _ _) = True"
| "is_accessor_fields _ = False"

definition is_accessor :: "property_definition \<Rightarrow> bool" where
  "is_accessor d = is_accessor_fields (def_fields d)"

definition has_slot_fields :: "property_definition \<Rightarrow> bool" where
  "has_slot_fields d =
     (case def_fields d of
        DF_Generic \<Rightarrow> False
      | DF_Data v w \<Rightarrow> is_present v \<or> is_present w
      | DF_Accessor g s \<Rightarrow> is_present g \<or> is_present s)"

definition present_data_value :: "property_definition \<Rightarrow> stored_value option" where
  "present_data_value d = (case def_fields d of DF_Data (Present v) _ \<Rightarrow> Some v | _ \<Rightarrow> None)"

definition has_present_data_value :: "property_definition \<Rightarrow> bool" where
  "has_present_data_value d = (case def_fields d of DF_Data (Present v) _ \<Rightarrow> True | _ \<Rightarrow> False)"

definition requested_writable :: "property_definition \<Rightarrow> bool option" where
  "requested_writable d = (case def_fields d of DF_Data _ (Present w) \<Rightarrow> Some w | _ \<Rightarrow> None)"

definition requested_enumerable :: "property_definition \<Rightarrow> bool option" where
  "requested_enumerable d = (case def_enumerable d of Absent \<Rightarrow> None | Present e \<Rightarrow> Some e)"

definition requested_configurable :: "property_definition \<Rightarrow> bool option" where
  "requested_configurable d = (case def_configurable d of Absent \<Rightarrow> None | Present c \<Rightarrow> Some c)"

definition requested_getter :: "property_definition \<Rightarrow> id option option" where
  "requested_getter d = (case def_fields d of DF_Accessor (Present g) _ \<Rightarrow> Some g | _ \<Rightarrow> None)"

definition requested_setter :: "property_definition \<Rightarrow> id option option" where
  "requested_setter d = (case def_fields d of DF_Accessor _ (Present s) \<Rightarrow> Some s | _ \<Rightarrow> None)"

datatype own_property =
  OP_Data property_layout stored_value
| OP_Accessor property_layout "id option" "id option"

fun own_layout :: "own_property \<Rightarrow> property_layout" where
  "own_layout (OP_Data l _) = l"
| "own_layout (OP_Accessor l _ _) = l"

datatype definition_decision = Rejected | Unchanged | Create own_property | Replace own_property

section \<open>The decision\<close>

definition validate_and_apply_new :: "property_definition \<Rightarrow> bool \<Rightarrow> definition_decision" where
  "validate_and_apply_new d extensible =
     (if \<not> extensible then Rejected
      else let enumerable = requested_or (def_enumerable d) False;
               configurable = requested_or (def_configurable d) False
           in case def_fields d of
                DF_Accessor g s \<Rightarrow>
                  Create (OP_Accessor (PL_Accessor enumerable configurable) (requested_or g None) (requested_or s None))
              | DF_Generic \<Rightarrow> Create (OP_Data (PL_Data False enumerable configurable) SV_Undefined)
              | DF_Data v w \<Rightarrow>
                  Create (OP_Data (PL_Data (requested_or w False) enumerable configurable)
                            (case v of Absent \<Rightarrow> SV_Undefined | Present x \<Rightarrow> x)))"

fun non_configurable_slot_fields_are_compatible :: "definition_fields \<Rightarrow> own_property \<Rightarrow> bool" where
  "non_configurable_slot_fields_are_compatible (DF_Accessor g s) (OP_Accessor _ read_hook write_hook) =
     (requested_or g read_hook = read_hook \<and> requested_or s write_hook = write_hook)"
| "non_configurable_slot_fields_are_compatible (DF_Data _ w) (OP_Data l _) =
     (layout_writable l = Some True \<or> \<not> requested_or w False)"
| "non_configurable_slot_fields_are_compatible DF_Generic _ = True"
| "non_configurable_slot_fields_are_compatible (DF_Data _ _) (OP_Accessor _ _ _) = False"
| "non_configurable_slot_fields_are_compatible (DF_Accessor _ _) (OP_Data _ _) = False"

definition decide_data :: "own_property \<Rightarrow> property_layout \<Rightarrow> stored_value \<Rightarrow> definition_decision" where
  "decide_data existing layout v =
     (case existing of
        OP_Data current current_value \<Rightarrow>
          if current = layout \<and> same_value current_value v then Unchanged else Replace (OP_Data layout v)
      | OP_Accessor _ _ _ \<Rightarrow> Replace (OP_Data layout v))"

definition decide_accessor :: "own_property \<Rightarrow> property_layout \<Rightarrow> id option \<Rightarrow> id option \<Rightarrow> definition_decision" where
  "decide_accessor existing layout g s =
     (case existing of
        OP_Accessor current current_getter current_setter \<Rightarrow>
          if current = layout \<and> current_getter = g \<and> current_setter = s then Unchanged
          else Replace (OP_Accessor layout g s)
      | OP_Data _ _ \<Rightarrow> Replace (OP_Accessor layout g s))"

fun apply_fields :: "own_property \<Rightarrow> bool \<Rightarrow> bool \<Rightarrow> definition_fields \<Rightarrow> own_property \<Rightarrow> definition_decision" where
  "apply_fields existing enumerable configurable DF_Generic (OP_Data l v) =
     decide_data existing (PL_Data (layout_writable l = Some True) enumerable configurable) v"
| "apply_fields existing enumerable configurable DF_Generic (OP_Accessor _ g s) =
     decide_accessor existing (PL_Accessor enumerable configurable) g s"
| "apply_fields existing enumerable configurable (DF_Data rv rw) (OP_Data l v) =
     (let writable = requested_or rw (layout_writable l = Some True)
      in case rv of
           Absent \<Rightarrow> decide_data existing (PL_Data writable enumerable configurable) v
         | Present x \<Rightarrow>
             if \<not> is_configurable l \<and> layout_writable l \<noteq> Some True \<and> \<not> same_value x v then Rejected
             else decide_data existing (PL_Data writable enumerable configurable) x)"
| "apply_fields existing enumerable configurable (DF_Data v w) (OP_Accessor _ _ _) =
     Replace (OP_Data (PL_Data (requested_or w False) enumerable configurable)
                (case v of Absent \<Rightarrow> SV_Undefined | Present x \<Rightarrow> x))"
| "apply_fields existing enumerable configurable (DF_Accessor ng ns) (OP_Accessor _ g s) =
     decide_accessor existing (PL_Accessor enumerable configurable) (requested_or ng g) (requested_or ns s)"
| "apply_fields existing enumerable configurable (DF_Accessor g s) (OP_Data _ _) =
     Replace (OP_Accessor (PL_Accessor enumerable configurable) (requested_or g None) (requested_or s None))"

definition validate_and_apply_existing :: "property_definition \<Rightarrow> own_property \<Rightarrow> definition_decision" where
  "validate_and_apply_existing d existing =
     (let current = own_layout existing
      in if \<not> is_configurable current \<and>
            (requested_or (def_configurable d) False \<or>
             (case def_enumerable d of Absent \<Rightarrow> False | Present e \<Rightarrow> e \<noteq> is_enumerable current) \<or>
             has_slot_fields d \<and> \<not> non_configurable_slot_fields_are_compatible (def_fields d) existing)
         then Rejected
         else apply_fields existing
                (requested_or (def_enumerable d) (is_enumerable current))
                (requested_or (def_configurable d) (is_configurable current))
                (def_fields d) existing)"

section \<open>From collected fields\<close>

type_synonym collected_fields = "stored_value descriptor_fields"

datatype descriptor_type_error = MixedDescriptor | InvalidGetter | InvalidSetter

definition requested_flag :: "bool option \<Rightarrow> bool requested" where
  "requested_flag f = (case f of Some b \<Rightarrow> Present b | None \<Rightarrow> Absent)"

definition requested_function :: "bool \<Rightarrow> id option \<Rightarrow> id option requested" where
  "requested_function present f = (if present then Present f else Absent)"

definition accessor_function :: "descriptor_type_error \<Rightarrow> stored_value option \<Rightarrow> (descriptor_type_error, id option) result" where
  "accessor_function role v =
     (case v of
        None \<Rightarrow> Inr None
      | Some SV_Undefined \<Rightarrow> Inr None
      | Some (SV_Function f) \<Rightarrow> Inr (Some f)
      | Some _ \<Rightarrow> Inl role)"

definition validate_collected_fields :: "collected_fields \<Rightarrow> (descriptor_type_error, unit) result" where
  "validate_collected_fields f =
     (let has_accessor = (df_get f \<noteq> None \<or> df_set f \<noteq> None);
          has_data = (df_value f \<noteq> None \<or> df_writable f \<noteq> None)
      in if has_accessor \<and> has_data then Inl MixedDescriptor
         else if has_accessor then
           and_then (accessor_function InvalidGetter (df_get f)) (\<lambda>_.
           and_then (accessor_function InvalidSetter (df_set f)) (\<lambda>_. Inr ()))
         else Inr ())"

definition property_definition_from_fields :: "collected_fields \<Rightarrow> (descriptor_type_error, property_definition) result" where
  "property_definition_from_fields f =
     (let has_accessor = (df_get f \<noteq> None \<or> df_set f \<noteq> None);
          has_data = (df_value f \<noteq> None \<or> df_writable f \<noteq> None)
      in and_then
           (if has_accessor then
              and_then (accessor_function InvalidGetter (df_get f)) (\<lambda>g.
              and_then (accessor_function InvalidSetter (df_set f)) (\<lambda>s.
                Inr (definition_accessor (requested_function (df_get f \<noteq> None) g)
                       (requested_function (df_set f \<noteq> None) s))))
            else if has_data then
              Inr (definition_data (case df_value f of Some v \<Rightarrow> Present v | None \<Rightarrow> Absent)
                     (requested_flag (df_writable f)))
            else Inr definition_generic)
           (\<lambda>d. Inr (with_configurable (requested_flag (df_configurable f))
                       (with_enumerable (requested_flag (df_enumerable f)) d))))"

definition complete_own_property_from_fields :: "collected_fields \<Rightarrow> (descriptor_type_error, own_property) result" where
  "complete_own_property_from_fields f =
     and_then (validate_collected_fields f) (\<lambda>_.
       let enumerable = unwrap_or (df_enumerable f) False; configurable = unwrap_or (df_configurable f) False
       in if df_get f \<noteq> None \<or> df_set f \<noteq> None then
            and_then (accessor_function InvalidGetter (df_get f)) (\<lambda>g.
            and_then (accessor_function InvalidSetter (df_set f)) (\<lambda>s.
              Inr (OP_Accessor (PL_Accessor enumerable configurable) g s)))
          else Inr (OP_Data (PL_Data (unwrap_or (df_writable f) False) enumerable configurable)
                      (unwrap_or (df_value f) SV_Undefined)))"

end
