(* ===== verification/Define_Conformance.thy ===== *)
theory Define_Conformance
  imports Define_Property
begin

text \<open>
  The decision procedure against \<^verbatim>\<open>ValidateAndApplyPropertyDescriptor\<close> as ECMAScript states it: on
  descriptors with optional fields, a property that does not exist is created with defaults, an
  existing one is checked field by field when it is not configurable, and otherwise updated field
  by field.
\<close>

section \<open>The specification\<close>

record es_descriptor =
  es_value :: "stored_value option"
  es_writable :: "bool option"
  es_get :: "id option option"
  es_set :: "id option option"
  es_enumerable :: "bool option"
  es_configurable :: "bool option"

definition es_is_accessor :: "es_descriptor \<Rightarrow> bool" where
  "es_is_accessor D \<longleftrightarrow> es_get D \<noteq> None \<or> es_set D \<noteq> None"

definition es_is_data :: "es_descriptor \<Rightarrow> bool" where
  "es_is_data D \<longleftrightarrow> es_value D \<noteq> None \<or> es_writable D \<noteq> None"

definition es_create :: "es_descriptor \<Rightarrow> own_property" where
  "es_create D =
     (let e = unwrap_or (es_enumerable D) False; c = unwrap_or (es_configurable D) False
      in if es_is_accessor D then OP_Accessor (PL_Accessor e c) (unwrap_or (es_get D) None) (unwrap_or (es_set D) None)
         else OP_Data (PL_Data (unwrap_or (es_writable D) False) e c) (unwrap_or (es_value D) SV_Undefined))"

fun own_is_accessor :: "own_property \<Rightarrow> bool" where
  "own_is_accessor (OP_Accessor _ _ _) = True"
| "own_is_accessor (OP_Data _ _) = False"

definition es_compatible :: "es_descriptor \<Rightarrow> own_property \<Rightarrow> bool" where
  "es_compatible D p \<longleftrightarrow>
     is_configurable (own_layout p) \<or>
     es_configurable D \<noteq> Some True \<and>
     (es_enumerable D = None \<or> es_enumerable D = Some (is_enumerable (own_layout p))) \<and>
     (es_is_accessor D \<or> es_is_data D \<longrightarrow> (es_is_accessor D \<longleftrightarrow> own_is_accessor p)) \<and>
     (case p of
        OP_Accessor _ g s \<Rightarrow> (es_get D = None \<or> es_get D = Some g) \<and> (es_set D = None \<or> es_set D = Some s)
      | OP_Data l v \<Rightarrow> layout_writable l = Some True \<or>
          es_writable D \<noteq> Some True \<and> (case es_value D of None \<Rightarrow> True | Some x \<Rightarrow> same_value x v))"

definition es_apply :: "es_descriptor \<Rightarrow> own_property \<Rightarrow> own_property" where
  "es_apply D p =
     (let e = unwrap_or (es_enumerable D) (is_enumerable (own_layout p));
          c = unwrap_or (es_configurable D) (is_configurable (own_layout p))
      in case p of
           OP_Data l v \<Rightarrow>
             if es_is_accessor D then OP_Accessor (PL_Accessor e c) (unwrap_or (es_get D) None) (unwrap_or (es_set D) None)
             else OP_Data (PL_Data (unwrap_or (es_writable D) (layout_writable l = Some True)) e c) (unwrap_or (es_value D) v)
         | OP_Accessor l g s \<Rightarrow>
             if es_is_data D then OP_Data (PL_Data (unwrap_or (es_writable D) False) e c) (unwrap_or (es_value D) SV_Undefined)
             else OP_Accessor (PL_Accessor e c) (unwrap_or (es_get D) g) (unwrap_or (es_set D) s))"

text \<open>Two properties a script cannot tell apart: the same attributes, and values that are SameValue.\<close>

fun same_property :: "own_property \<Rightarrow> own_property \<Rightarrow> bool" where
  "same_property (OP_Data l v) (OP_Data k w) = (l = k \<and> same_value v w)"
| "same_property (OP_Accessor l g s) (OP_Accessor k h t) = (l = k \<and> g = h \<and> s = t)"
| "same_property _ _ = False"

lemma same_property_refl [simp]: "same_property p p"
  by (cases p) simp_all

lemma same_property_trans: "same_property p q \<Longrightarrow> same_property q r \<Longrightarrow> same_property p r"
  by (cases p; cases q; cases r) (auto intro: same_value_trans)

fun own_property_wf :: "own_property \<Rightarrow> bool" where
  "own_property_wf (OP_Data l _) = (layout_kind l = Layout_Data)"
| "own_property_wf (OP_Accessor l _ _) = (layout_kind l = Layout_Accessor)"

section \<open>Definitions denote descriptors\<close>

fun requested_option :: "'a requested \<Rightarrow> 'a option" where
  "requested_option Absent = None"
| "requested_option (Present v) = Some v"

lemma requested_or_option [simp]: "requested_or r d = unwrap_or (requested_option r) d"
  by (cases r) simp_all

lemma is_present_option [simp]: "is_present r \<longleftrightarrow> requested_option r \<noteq> None"
  by (cases r) simp_all

definition es_of :: "property_definition \<Rightarrow> es_descriptor" where
  "es_of d = \<lparr>
     es_value = (case def_fields d of DF_Data v _ \<Rightarrow> requested_option v | _ \<Rightarrow> None),
     es_writable = (case def_fields d of DF_Data _ w \<Rightarrow> requested_option w | _ \<Rightarrow> None),
     es_get = (case def_fields d of DF_Accessor g _ \<Rightarrow> requested_option g | _ \<Rightarrow> None),
     es_set = (case def_fields d of DF_Accessor _ s \<Rightarrow> requested_option s | _ \<Rightarrow> None),
     es_enumerable = requested_option (def_enumerable d),
     es_configurable = requested_option (def_configurable d)\<rparr>"

text \<open>A definition has a field of its class; definitions built from fields do.\<close>

definition definition_wf :: "property_definition \<Rightarrow> bool" where
  "definition_wf d \<longleftrightarrow> def_fields d = DF_Generic \<or> has_slot_fields d"

lemmas decision_simps = validate_and_apply_existing_def has_slot_fields_def definition_wf_def es_of_def es_compatible_def es_apply_def
  es_is_accessor_def es_is_data_def decide_data_def decide_accessor_def Let_def

lemma existing_data:
  assumes "definition_wf d"
  shows "validate_and_apply_existing d (OP_Data (PL_Data w e c) v) =
    (if \<not> es_compatible (es_of d) (OP_Data (PL_Data w e c) v) then Rejected
     else if same_property (OP_Data (PL_Data w e c) v) (es_apply (es_of d) (OP_Data (PL_Data w e c) v)) then Unchanged
     else Replace (es_apply (es_of d) (OP_Data (PL_Data w e c) v)))"
proof (cases "def_fields d")
  case DF_Generic
  then show ?thesis by (cases "def_enumerable d"; cases "def_configurable d") (auto simp: decision_simps)
next
  case (DF_Data rv rw)
  then show ?thesis using assms
    by (cases rv; cases rw; cases "def_enumerable d"; cases "def_configurable d") (auto simp: decision_simps same_value_sym)
next
  case (DF_Accessor rg rs)
  then show ?thesis using assms
    by (cases rg; cases rs; cases "def_enumerable d"; cases "def_configurable d") (auto simp: decision_simps)
qed

lemma existing_accessor:
  assumes "definition_wf d"
  shows "validate_and_apply_existing d (OP_Accessor (PL_Accessor e c) g s) =
    (if \<not> es_compatible (es_of d) (OP_Accessor (PL_Accessor e c) g s) then Rejected
     else if same_property (OP_Accessor (PL_Accessor e c) g s) (es_apply (es_of d) (OP_Accessor (PL_Accessor e c) g s)) then Unchanged
     else Replace (es_apply (es_of d) (OP_Accessor (PL_Accessor e c) g s)))"
proof (cases "def_fields d")
  case DF_Generic
  then show ?thesis by (cases "def_enumerable d"; cases "def_configurable d") (auto simp: decision_simps)
next
  case (DF_Data rv rw)
  then show ?thesis using assms
    by (cases rv; cases rw; cases "def_enumerable d"; cases "def_configurable d") (auto simp: decision_simps)
next
  case (DF_Accessor rg rs)
  then show ?thesis using assms
    by (cases rg; cases rs; cases "def_enumerable d"; cases "def_configurable d") (auto simp: decision_simps)
qed

lemma existing_decision:
  assumes "definition_wf d" "own_property_wf p"
  shows "validate_and_apply_existing d p =
    (if \<not> es_compatible (es_of d) p then Rejected
     else if same_property p (es_apply (es_of d) p) then Unchanged
     else Replace (es_apply (es_of d) p))"
proof (cases p)
  case (OP_Data l v)
  then obtain w e c where "l = PL_Data w e c" using assms(2) by (cases l) simp_all
  then show ?thesis using existing_data [OF assms(1)] OP_Data by simp
next
  case (OP_Accessor l g s)
  then obtain e c where "l = PL_Accessor e c" using assms(2) by (cases l) simp_all
  then show ?thesis using existing_accessor [OF assms(1)] OP_Accessor by simp
qed

lemma new_decision:
  "definition_wf d \<Longrightarrow> validate_and_apply_new d extensible = (if extensible then Create (es_create (es_of d)) else Rejected)"
  by (cases "def_fields d")
    (auto simp: validate_and_apply_new_def es_create_def decision_simps split: requested.splits)

section \<open>From fields to the decision\<close>

definition callable_or_undefined :: "stored_value option \<Rightarrow> bool" where
  "callable_or_undefined v \<longleftrightarrow> v = None \<or> v = Some SV_Undefined \<or> (\<exists>f. v = Some (SV_Function f))"

definition stored_function :: "stored_value \<Rightarrow> id option" where
  "stored_function v = (case v of SV_Function f \<Rightarrow> Some f | _ \<Rightarrow> None)"

text \<open>The descriptor that collected fields denote, and when \<^verbatim>\<open>ToPropertyDescriptor\<close> accepts them.\<close>

definition es_of_fields :: "collected_fields \<Rightarrow> es_descriptor" where
  "es_of_fields f = \<lparr>es_value = df_value f, es_writable = df_writable f,
     es_get = map_option stored_function (df_get f), es_set = map_option stored_function (df_set f),
     es_enumerable = df_enumerable f, es_configurable = df_configurable f\<rparr>"

definition es_fields_valid :: "collected_fields \<Rightarrow> bool" where
  "es_fields_valid f \<longleftrightarrow>
     \<not> ((df_get f \<noteq> None \<or> df_set f \<noteq> None) \<and> (df_value f \<noteq> None \<or> df_writable f \<noteq> None)) \<and>
     callable_or_undefined (df_get f) \<and> callable_or_undefined (df_set f)"

lemma accessor_function_cases:
  "accessor_function role v = (if callable_or_undefined v then Inr (Option.bind v stored_function) else Inl role)"
  by (cases v) (auto simp: accessor_function_def callable_or_undefined_def stored_function_def split: stored_value.splits)

lemma validate_fields_iff: "validate_collected_fields f = Inr () \<longleftrightarrow> es_fields_valid f"
proof -
  have "callable_or_undefined None" by (simp add: callable_or_undefined_def)
  then show ?thesis
    by (auto simp: validate_collected_fields_def es_fields_valid_def Let_def accessor_function_cases)
qed

lemma requested_flag_option [simp]: "requested_option (requested_flag b) = b"
  by (cases b) (simp_all add: requested_flag_def)

lemma definition_from_fields:
  assumes "es_fields_valid f"
  shows "\<exists>d. property_definition_from_fields f = Inr d \<and> definition_wf d \<and> es_of d = es_of_fields f"
proof (cases "df_get f \<noteq> None \<or> df_set f \<noteq> None")
  case True
  then show ?thesis using assms
    by (cases "df_get f"; cases "df_set f")
      (simp_all add: property_definition_from_fields_def es_fields_valid_def accessor_function_cases definition_wf_def
        has_slot_fields_def es_of_def es_of_fields_def requested_function_def definition_accessor_def
        with_enumerable_def with_configurable_def Let_def)
next
  case False
  then show ?thesis
    by (cases "df_value f"; cases "df_writable f")
      (simp_all add: property_definition_from_fields_def definition_wf_def has_slot_fields_def es_of_def es_of_fields_def
        definition_data_def definition_generic_def with_enumerable_def with_configurable_def Let_def)
qed

text \<open>
  C8. Property definition conforms to ECMAScript. Collected descriptor fields are accepted exactly
  when they do not mix data and accessor fields and their accessors are callable or undefined. The
  definition built from accepted fields decides as \<^verbatim>\<open>ValidateAndApplyPropertyDescriptor\<close> specifies: a
  missing property is created with defaults exactly on an extensible object; on an existing one the
  request is rejected exactly when the specification's field checks fail, replaces the property by
  the specification's result, or is a no-op exactly when that result cannot be told from the
  property it has. A complete property from the same fields is the created one.
\<close>

theorem define_property_conforms:
  "(validate_collected_fields f = Inr () \<longleftrightarrow> es_fields_valid f) \<and>
   (es_fields_valid f \<longrightarrow>
      complete_own_property_from_fields f = Inr (es_create (es_of_fields f)) \<and>
      (\<exists>d. property_definition_from_fields f = Inr d \<and>
         validate_and_apply_new d extensible = (if extensible then Create (es_create (es_of_fields f)) else Rejected) \<and>
         (own_property_wf p \<longrightarrow>
            validate_and_apply_existing d p =
              (if \<not> es_compatible (es_of_fields f) p then Rejected
               else if same_property p (es_apply (es_of_fields f) p) then Unchanged
               else Replace (es_apply (es_of_fields f) p)))))"
proof -
  have "complete_own_property_from_fields f = Inr (es_create (es_of_fields f))" if valid: "es_fields_valid f"
  proof (cases "df_get f \<noteq> None \<or> df_set f \<noteq> None")
    case True
    then show ?thesis using valid validate_fields_iff [of f]
      by (cases "df_get f"; cases "df_set f")
        (simp_all add: complete_own_property_from_fields_def es_fields_valid_def accessor_function_cases es_create_def
          es_of_fields_def es_is_accessor_def Let_def)
  next
    case False
    then show ?thesis using valid validate_fields_iff [of f]
      by (simp add: complete_own_property_from_fields_def es_create_def es_of_fields_def es_is_accessor_def Let_def)
  qed
  moreover have "\<exists>d. property_definition_from_fields f = Inr d \<and>
      validate_and_apply_new d extensible = (if extensible then Create (es_create (es_of_fields f)) else Rejected) \<and>
      (own_property_wf p \<longrightarrow>
         validate_and_apply_existing d p =
           (if \<not> es_compatible (es_of_fields f) p then Rejected
            else if same_property p (es_apply (es_of_fields f) p) then Unchanged
            else Replace (es_apply (es_of_fields f) p)))" if valid: "es_fields_valid f"
  proof -
    obtain d where "property_definition_from_fields f = Inr d" "definition_wf d" "es_of d = es_of_fields f"
      using definition_from_fields [OF valid] by blast
    then show ?thesis using new_decision [of d extensible] existing_decision [of d p] by (intro exI [of _ d]) simp
  qed
  ultimately show ?thesis using validate_fields_iff [of f] by blast
qed

theorem define_property_conforms_witness:
  "\<exists>d. property_definition_from_fields \<lparr>df_value = Some (SV_Boolean True), df_writable = None, df_get = None,
         df_set = None, df_enumerable = None, df_configurable = None\<rparr> = Inr d \<and>
     validate_and_apply_existing d (OP_Data (PL_Data False True False) (SV_Boolean False)) = Rejected"
  using define_property_conforms [of "\<lparr>df_value = Some (SV_Boolean True), df_writable = None, df_get = None,
         df_set = None, df_enumerable = None, df_configurable = None\<rparr>" True "OP_Data (PL_Data False True False) (SV_Boolean False)"]
  by (auto simp: es_fields_valid_def callable_or_undefined_def es_compatible_def es_of_fields_def es_is_accessor_def
      same_value_def strict_equals_def)

end
