(* ===== verification/Object_Record.thy ===== *)
theory Object_Record
  imports Define_Conformance
begin

text \<open>
  The ordinary object record of \<^verbatim>\<open>crates/fusor-runtime/src/object.rs\<close>, with array indices
  (\<^verbatim>\<open>array_index.rs\<close>) and property keys (\<^verbatim>\<open>atom.rs\<close>). A shape is the list of keys with their layouts, in
  creation order, and the slots are aligned with it. Shapes are shared between objects and interned
  by content; interning never changes what a shape contains, so a shape here is its content.
\<close>

section \<open>Keys\<close>

datatype array_index = ArrayIndex (index_get: u32)

text \<open>\<^verbatim>\<open>derive(Ord)\<close> on the newtype compares the integers.\<close>

instantiation array_index :: linorder
begin

definition less_eq_array_index :: "array_index \<Rightarrow> array_index \<Rightarrow> bool" where
  "less_eq_array_index i j \<longleftrightarrow> index_get i \<le> index_get j"

definition less_array_index :: "array_index \<Rightarrow> array_index \<Rightarrow> bool" where
  "less_array_index i j \<longleftrightarrow> index_get i < index_get j"

instance
  by standard (auto simp: less_eq_array_index_def less_array_index_def array_index.expand)

end

definition MAX_ARRAY_INDEX :: u32 where
  "MAX_ARRAY_INDEX = - 2"

definition array_index_new :: "u32 \<Rightarrow> array_index option" where
  "array_index_new v = (if v \<le> MAX_ARRAY_INDEX then Some (ArrayIndex v) else None)"

datatype atom_kind = Atom_String | Atom_Symbol | Atom_GlobalSymbol | Atom_Private

datatype property_key = Key_Index array_index | Key_Atom atom atom_kind

fun as_index :: "property_key \<Rightarrow> array_index option" where
  "as_index (Key_Index i) = Some i"
| "as_index (Key_Atom _ _) = None"

fun as_atom :: "property_key \<Rightarrow> atom option" where
  "as_atom (Key_Index _) = None"
| "as_atom (Key_Atom a _) = Some a"

text \<open>Predefined atoms are numbered by their ordinals; \<^verbatim>\<open>Length\<close> is the fiftieth.\<close>

definition LENGTH_ATOM :: atom where
  "LENGTH_ATOM = 50"

definition length_key :: property_key where
  "length_key = Key_Atom LENGTH_ATOM Atom_String"

fun as_atom_kind :: "property_key \<Rightarrow> atom_kind option" where
  "as_atom_kind (Key_Index _) = None"
| "as_atom_kind (Key_Atom _ k) = Some k"

section \<open>Records\<close>

datatype property_slot = Slot_Data stored_value | Slot_Accessor "id option" "id option"

record shape_property =
  sp_key :: property_key
  sp_layout :: property_layout

record object_record =
  or_prototype :: "heap_reference option"
  or_extensible :: bool
  or_is_html_dda :: bool
  or_shape :: "shape_property list"
  or_slots :: "property_slot list"

fun into_parts :: "own_property \<Rightarrow> property_layout \<times> property_slot" where
  "into_parts (OP_Data l v) = (l, Slot_Data v)"
| "into_parts (OP_Accessor l g s) = (l, Slot_Accessor g s)"

fun slot_property :: "property_layout \<Rightarrow> property_slot \<Rightarrow> own_property" where
  "slot_property l (Slot_Data v) = OP_Data l v"
| "slot_property l (Slot_Accessor g s) = OP_Accessor l g s"

datatype shape_transition =
  Shape_Append shape_property
| Shape_ReplaceLayout nat property_layout
| Shape_Delete nat

definition remove_nth :: "nat \<Rightarrow> 'a list \<Rightarrow> 'a list" where
  "remove_nth i xs = take i xs @ drop (Suc i) xs"

fun shape_apply :: "shape_transition \<Rightarrow> shape_property list \<Rightarrow> shape_property list" where
  "shape_apply (Shape_Append p) shape = shape @ [p]"
| "shape_apply (Shape_ReplaceLayout i l) shape = shape[i := (shape ! i)\<lparr>sp_layout := l\<rparr>]"
| "shape_apply (Shape_Delete i) shape = remove_nth i shape"

definition object_empty :: "heap_reference option \<Rightarrow> object_record" where
  "object_empty prototype = \<lparr>or_prototype = prototype, or_extensible = True, or_is_html_dda = False,
     or_shape = [], or_slots = []\<rparr>"

definition transition_shape :: "shape_transition \<Rightarrow> object_record \<Rightarrow> object_record" where
  "transition_shape t r = r\<lparr>or_shape := shape_apply t (or_shape r)\<rparr>"

definition replace_prototype :: "heap_reference option \<Rightarrow> object_record \<Rightarrow> heap_reference option \<times> object_record" where
  "replace_prototype p r = (or_prototype r, r\<lparr>or_prototype := p\<rparr>)"

definition prevent_extensions :: "object_record \<Rightarrow> object_record" where
  "prevent_extensions r = r\<lparr>or_extensible := False\<rparr>"

text \<open>\<^verbatim>\<open>iter().position\<close>: the first position whose element satisfies the predicate.\<close>

primrec position :: "('a \<Rightarrow> bool) \<Rightarrow> 'a list \<Rightarrow> nat option" where
  "position P [] = None"
| "position P (x # xs) = (if P x then Some 0 else map_option Suc (position P xs))"

definition key_position :: "property_key \<Rightarrow> object_record \<Rightarrow> nat option" where
  "key_position key r = position (\<lambda>p. sp_key p = key) (or_shape r)"

definition own_property :: "object_record \<Rightarrow> property_key \<Rightarrow> own_property option" where
  "own_property r key =
     (case key_position key r of
        None \<Rightarrow> None
      | Some i \<Rightarrow> Some (slot_property (sp_layout (or_shape r ! i)) (or_slots r ! i)))"

datatype property_deletion = Missing | NotConfigurable | Deleted

definition delete_own_property :: "property_key \<Rightarrow> object_record \<Rightarrow> property_deletion \<times> object_record" where
  "delete_own_property key r =
     (case key_position key r of
        None \<Rightarrow> (Missing, r)
      | Some i \<Rightarrow>
          if \<not> is_configurable (sp_layout (or_shape r ! i)) then (NotConfigurable, r)
          else (Deleted, (transition_shape (Shape_Delete i) r)\<lparr>or_slots := remove_nth i (or_slots r)\<rparr>))"

definition replace_existing_data :: "property_key \<Rightarrow> stored_value \<Rightarrow> object_record \<Rightarrow> bool \<times> object_record" where
  "replace_existing_data key v r =
     (case key_position key r of
        None \<Rightarrow> (False, r)
      | Some i \<Rightarrow>
          (case or_slots r ! i of
             Slot_Data _ \<Rightarrow> (True, r\<lparr>or_slots := (or_slots r)[i := Slot_Data v]\<rparr>)
           | Slot_Accessor _ _ \<Rightarrow> (False, r)))"

definition replace_existing_property :: "property_key \<Rightarrow> own_property \<Rightarrow> object_record \<Rightarrow> (own_property \<times> object_record) option" where
  "replace_existing_property key replacement r =
     (case key_position key r of
        None \<Rightarrow> None
      | Some i \<Rightarrow>
          let previous = slot_property (sp_layout (or_shape r ! i)) (or_slots r ! i)
          in case into_parts replacement of (layout, slot) \<Rightarrow>
               Some (previous, (transition_shape (Shape_ReplaceLayout i layout) r)\<lparr>or_slots := (or_slots r)[i := slot]\<rparr>))"

definition replace_existing_data_layout :: "property_key \<Rightarrow> property_layout \<Rightarrow> object_record \<Rightarrow> (property_layout \<times> object_record) option" where
  "replace_existing_data_layout key layout r =
     (case key_position key r of
        None \<Rightarrow> None
      | Some i \<Rightarrow>
          (case or_slots r ! i of
             Slot_Data _ \<Rightarrow> Some (sp_layout (or_shape r ! i), transition_shape (Shape_ReplaceLayout i layout) r)
           | Slot_Accessor _ _ \<Rightarrow> None))"

definition try_reserve_data :: "allocator \<Rightarrow> usize \<Rightarrow> object_record \<Rightarrow> bool" where
  "try_reserve_data alloc additional r \<longleftrightarrow> alloc (length (or_slots r)) additional \<and> alloc (length (or_shape r)) additional"

text \<open>\<^verbatim>\<open>append_data\<close> and \<^verbatim>\<open>append_accessor\<close> differ in the slot they push; \<open>None\<close> is the failed reservation.\<close>

definition append_slot ::
  "allocator \<Rightarrow> property_key \<Rightarrow> property_layout \<Rightarrow> property_slot \<Rightarrow> object_record \<Rightarrow> object_record option" where
  "append_slot alloc key layout slot r =
     (if try_reserve_data alloc 1 r
      then Some ((transition_shape (Shape_Append \<lparr>sp_key = key, sp_layout = layout\<rparr>) r)\<lparr>or_slots := or_slots r @ [slot]\<rparr>)
      else None)"

definition append_data ::
  "allocator \<Rightarrow> property_key \<Rightarrow> property_layout \<Rightarrow> stored_value \<Rightarrow> object_record \<Rightarrow> object_record option" where
  "append_data alloc key layout v r = append_slot alloc key layout (Slot_Data v) r"

definition append_accessor ::
  "allocator \<Rightarrow> property_key \<Rightarrow> property_layout \<Rightarrow> id option \<Rightarrow> id option \<Rightarrow> object_record \<Rightarrow> object_record option" where
  "append_accessor alloc key layout g s r = append_slot alloc key layout (Slot_Accessor g s) r"

definition property_count :: "object_record \<Rightarrow> usize" where
  "property_count r = length (or_slots r)"

definition has_indexed_property :: "object_record \<Rightarrow> bool" where
  "has_indexed_property r = list_ex (\<lambda>p. as_index (sp_key p) \<noteq> None) (or_shape r)"

definition pop_last_data :: "property_key \<Rightarrow> object_record \<Rightarrow> (stored_value \<times> object_record) option" where
  "pop_last_data key r =
     (if or_shape r = [] \<or> sp_key (last (or_shape r)) \<noteq> key \<or> or_slots r = [] then None
      else case last (or_slots r) of
             Slot_Data v \<Rightarrow> Some (v, r\<lparr>or_shape := butlast (or_shape r), or_slots := butlast (or_slots r)\<rparr>)
           | Slot_Accessor _ _ \<Rightarrow> None)"

text \<open>Dense elements become indexed properties; holes are skipped.\<close>

definition dense_shape_property :: "nat \<Rightarrow> shape_property" where
  "dense_shape_property offset = \<lparr>sp_key = Key_Index (ArrayIndex (word_of_nat offset)), sp_layout = PL_Data True True True\<rparr>"

fun append_element :: "object_record \<Rightarrow> nat \<times> stored_value option \<Rightarrow> object_record" where
  "append_element r (_, None) = r"
| "append_element r (offset, Some v) =
     r\<lparr>or_shape := or_shape r @ [dense_shape_property offset], or_slots := or_slots r @ [Slot_Data v]\<rparr>"

definition append_dense_storage_as_sparse :: "stored_value option list \<Rightarrow> object_record \<Rightarrow> object_record" where
  "append_dense_storage_as_sparse elements r = foldl append_element r (List.enumerate 0 elements)"

section \<open>Truncation\<close>

record array_truncation =
  tr_final_length :: u32
  tr_blocked_index :: "array_index option"
  tr_removed :: usize

definition max_index :: "array_index list \<Rightarrow> array_index option" where
  "max_index is = (case is of [] \<Rightarrow> None | i # js \<Rightarrow> Some (fold max js i))"

definition blocking_index :: "u32 \<Rightarrow> shape_property \<Rightarrow> array_index option" where
  "blocking_index requested_length p =
     (case as_index (sp_key p) of
        None \<Rightarrow> None
      | Some i \<Rightarrow> if requested_length \<le> index_get i \<and> \<not> is_configurable (sp_layout p) then Some i else None)"

definition swap :: "nat \<Rightarrow> nat \<Rightarrow> 'a list \<Rightarrow> 'a list" where
  "swap i j xs = xs[i := xs ! j, j := xs ! i]"

definition index_at_least :: "u32 \<Rightarrow> property_key \<Rightarrow> bool" where
  "index_at_least n key = (case as_index key of None \<Rightarrow> False | Some i \<Rightarrow> n \<le> index_get i)"

definition compact_step ::
  "u32 \<Rightarrow> shape_property list \<times> property_slot list \<times> usize \<Rightarrow> usize \<Rightarrow> shape_property list \<times> property_slot list \<times> usize" where
  "compact_step final_length st current =
     (case st of (shape, slots, retained) \<Rightarrow>
        if index_at_least final_length (sp_key (shape ! current)) then st
        else if retained \<noteq> current then (swap retained current shape, swap retained current slots, retained + 1)
        else (shape, slots, retained + 1))"

definition truncate_array_indices :: "u32 \<Rightarrow> object_record \<Rightarrow> array_truncation \<times> object_record" where
  "truncate_array_indices requested_length r =
     (let blocked = max_index (List.map_filter (blocking_index requested_length) (or_shape r));
          final_length = (case blocked of None \<Rightarrow> requested_length | Some i \<Rightarrow> saturating_add (index_get i) 1);
          original_length = length (or_shape r)
      in case foldl (compact_step final_length) (or_shape r, or_slots r, 0) [0..<original_length] of
           (shape, slots, retained) \<Rightarrow>
             (\<lparr>tr_final_length = final_length, tr_blocked_index = blocked, tr_removed = original_length - retained\<rparr>,
              r\<lparr>or_shape := take retained shape, or_slots := take retained slots\<rparr>))"

end
