(* ===== verification/Array_Object.thy ===== *)
theory Array_Object
  imports Object_Record
begin

text \<open>
  Array exotic objects of \<^verbatim>\<open>crates/fusor-runtime/src/object.rs\<close>: the element storage (\<^verbatim>\<open>ArrayState\<close>),
  heap objects as far as their properties need them, and the ordered snapshot of own keys. An array
  keeps default data elements in a vector with holes while it can and moves them into the shape of
  its record otherwise.
\<close>

section \<open>Element storage\<close>

definition MAX_DENSE_ARRAY_GAP :: usize where
  "MAX_DENSE_ARRAY_GAP = 1024"

datatype array_storage = Dense "stored_value option list" usize | Sparse

record array_state =
  as_length :: u32
  as_storage :: array_storage

definition array_state_new :: "u32 \<Rightarrow> array_state" where
  "array_state_new n = \<lparr>as_length = n, as_storage = Dense [] 0\<rparr>"

definition array_state_sparse :: "u32 \<Rightarrow> array_state" where
  "array_state_sparse n = \<lparr>as_length = n, as_storage = Sparse\<rparr>"

definition array_state_dense :: "u32 \<Rightarrow> stored_value list \<Rightarrow> array_state" where
  "array_state_dense n elements = \<lparr>as_length = n, as_storage = Dense (map Some elements) (length elements)\<rparr>"

definition is_dense :: "array_state \<Rightarrow> bool" where
  "is_dense a = (case as_storage a of Dense _ _ \<Rightarrow> True | Sparse \<Rightarrow> False)"

definition is_sparse :: "array_state \<Rightarrow> bool" where
  "is_sparse a = (case as_storage a of Dense _ _ \<Rightarrow> False | Sparse \<Rightarrow> True)"

definition dense_property_count :: "array_state \<Rightarrow> usize" where
  "dense_property_count a = (case as_storage a of Dense _ present \<Rightarrow> present | Sparse \<Rightarrow> 0)"

definition element_index :: "nat \<times> stored_value option \<Rightarrow> array_index option" where
  "element_index x =
     (case snd x of
        None \<Rightarrow> None
      | Some _ \<Rightarrow> (case u32_try_from (fst x) of None \<Rightarrow> None | Some w \<Rightarrow> array_index_new w))"

definition dense_indices :: "array_state \<Rightarrow> array_index list" where
  "dense_indices a =
     (case as_storage a of
        Dense elements _ \<Rightarrow> List.map_filter element_index (List.enumerate 0 elements)
      | Sparse \<Rightarrow> [])"

definition dense_value :: "array_index \<Rightarrow> array_state \<Rightarrow> stored_value option" where
  "dense_value i a =
     (case as_storage a of
        Dense elements _ \<Rightarrow> (case get elements (unat (index_get i)) of None \<Rightarrow> None | Some e \<Rightarrow> e)
      | Sparse \<Rightarrow> None)"

definition can_store_dense :: "array_index \<Rightarrow> array_state \<Rightarrow> bool" where
  "can_store_dense i a =
     (case as_storage a of
        Dense elements _ \<Rightarrow> unat (index_get i) \<le> length elements + MAX_DENSE_ARRAY_GAP
      | Sparse \<Rightarrow> False)"

text \<open>The failed reservation of the source is \<open>Inl ()\<close>.\<close>

definition try_restore_dense :: "allocator \<Rightarrow> array_index \<Rightarrow> array_state \<Rightarrow> (unit, bool \<times> array_state) result" where
  "try_restore_dense alloc i a =
     (case as_storage a of
        Dense _ _ \<Rightarrow> Inr (False, a)
      | Sparse \<Rightarrow>
          let capacity = unat (index_get i) + 1
          in if MAX_DENSE_ARRAY_GAP < capacity then Inr (False, a)
             else if \<not> alloc 0 capacity then Inl ()
             else Inr (True, a\<lparr>as_storage := Dense (replicate capacity None) 0\<rparr>))"

text \<open>
  The source declares \<^verbatim>\<open>try_store_dense\<close> on sparse storage unreachable; the model keeps that branch
  as \<open>None\<close>.
\<close>

definition try_store_dense ::
  "allocator \<Rightarrow> array_index \<Rightarrow> stored_value \<Rightarrow> array_state \<Rightarrow> (unit, bool \<times> array_state) result option" where
  "try_store_dense alloc i v a =
     (case as_storage a of
        Sparse \<Rightarrow> None
      | Dense elements present \<Rightarrow>
          let index = unat (index_get i); additional = index + 1 - length elements
          in if length elements \<le> index \<and> \<not> alloc (length elements) additional then Some (Inl ())
             else let elements' = elements @ replicate additional None;
                      created = (elements' ! index = None)
                  in Some (Inr (created,
                       a\<lparr>as_storage := Dense (elements'[index := Some v]) (if created then present + 1 else present)\<rparr>)))"

definition delete_dense :: "array_index \<Rightarrow> array_state \<Rightarrow> bool \<times> array_state" where
  "delete_dense i a =
     (case as_storage a of
        Sparse \<Rightarrow> (False, a)
      | Dense elements present \<Rightarrow>
          (case get elements (unat (index_get i)) of
             None \<Rightarrow> (False, a)
           | Some None \<Rightarrow> (False, a)
           | Some (Some _) \<Rightarrow>
               (True, a\<lparr>as_storage := Dense (elements[unat (index_get i) := None]) (present - 1)\<rparr>)))"

definition truncate_dense :: "u32 \<Rightarrow> array_state \<Rightarrow> usize \<times> array_state" where
  "truncate_dense n a =
     (case as_storage a of
        Sparse \<Rightarrow> (0, a)
      | Dense elements present \<Rightarrow>
          if length elements \<le> unat n then (0, a)
          else let removed = length (filter (\<lambda>e. e \<noteq> None) (drop (unat n) elements))
               in (removed, a\<lparr>as_storage := Dense (take (unat n) elements) (present - removed)\<rparr>))"

definition take_dense_elements :: "array_state \<Rightarrow> stored_value option list option \<times> array_state" where
  "take_dense_elements a =
     (case as_storage a of
        Dense elements _ \<Rightarrow> (Some elements, a\<lparr>as_storage := Sparse\<rparr>)
      | Sparse \<Rightarrow> (None, a\<lparr>as_storage := Sparse\<rparr>))"

section \<open>Heap objects\<close>

text \<open>
  A heap object is its record and its kind. Of the kinds, arrays and arguments objects keep state of
  their own that own properties depend on here; an arguments object maps indices to the binding
  cells of parameters. \<open>Kind_Ordinary\<close> stands for the kinds whose own properties are those of the record.
\<close>

datatype heap_object_kind = Kind_Ordinary | Kind_Array array_state | Kind_Arguments "id option list"

record heap_object =
  ho_record :: object_record
  ho_kind :: heap_object_kind

definition ho_array_state :: "heap_object \<Rightarrow> array_state option" where
  "ho_array_state h = (case ho_kind h of Kind_Array a \<Rightarrow> Some a | _ \<Rightarrow> None)"

definition is_arguments :: "heap_object \<Rightarrow> bool" where
  "is_arguments h = (case ho_kind h of Kind_Arguments _ \<Rightarrow> True | _ \<Rightarrow> False)"

definition arguments_cell :: "u32 \<Rightarrow> heap_object \<Rightarrow> id option" where
  "arguments_cell index h =
     (case ho_kind h of
        Kind_Arguments m \<Rightarrow> (case get m (unat index) of None \<Rightarrow> None | Some c \<Rightarrow> c)
      | _ \<Rightarrow> None)"

definition detach_arguments_cell :: "u32 \<Rightarrow> heap_object \<Rightarrow> id option \<times> heap_object" where
  "detach_arguments_cell index h =
     (case ho_kind h of
        Kind_Arguments m \<Rightarrow>
          (case get m (unat index) of
             None \<Rightarrow> (None, h)
           | Some c \<Rightarrow> (c, h\<lparr>ho_kind := Kind_Arguments (m[unat index := None])\<rparr>))
      | _ \<Rightarrow> (None, h))"

definition object_property_count :: "heap_object \<Rightarrow> usize" where
  "object_property_count h =
     property_count (ho_record h) + (case ho_array_state h of None \<Rightarrow> 0 | Some a \<Rightarrow> dense_property_count a)"

definition array_own_property :: "heap_object \<Rightarrow> property_key \<Rightarrow> own_property option" where
  "array_own_property h key =
     (case as_index key of
        None \<Rightarrow> Object_Record.own_property (ho_record h) key
      | Some i \<Rightarrow>
          (case ho_array_state h of
             None \<Rightarrow> None
           | Some a \<Rightarrow>
               (case dense_value i a of
                  Some v \<Rightarrow> Some (OP_Data (PL_Data True True True) v)
                | None \<Rightarrow> Object_Record.own_property (ho_record h) key)))"

definition transition_array_to_sparse :: "allocator \<Rightarrow> heap_object \<Rightarrow> (unit, bool \<times> heap_object) result" where
  "transition_array_to_sparse alloc h =
     (case ho_array_state h of
        None \<Rightarrow> Inr (False, h)
      | Some a \<Rightarrow>
          if \<not> is_dense a then Inr (False, h)
          else if \<not> try_reserve_data alloc (dense_property_count a) (ho_record h) then Inl ()
          else (case take_dense_elements a of
                  (Some elements, a') \<Rightarrow>
                    Inr (True, \<lparr>ho_record = append_dense_storage_as_sparse elements (ho_record h), ho_kind = Kind_Array a'\<rparr>)
                | (None, a') \<Rightarrow> Inr (True, h\<lparr>ho_kind := Kind_Array a'\<rparr>)))"

text \<open>\<open>None\<close> is a panic of the source (\<^verbatim>\<open>expect\<close> on the array state, or the unreachable store).\<close>

definition try_restore_dense_and_store ::
  "allocator \<Rightarrow> array_index \<Rightarrow> stored_value \<Rightarrow> heap_object \<Rightarrow> (unit, bool \<times> heap_object) result option" where
  "try_restore_dense_and_store alloc i v h =
     (let needs_restore = (case ho_array_state h of None \<Rightarrow> False | Some a \<Rightarrow> \<not> can_store_dense i a);
          store = (\<lambda>a. map_option (map_sum (\<lambda>e. e) (\<lambda>(created, a'). (created, h\<lparr>ho_kind := Kind_Array a'\<rparr>)))
                         (try_store_dense alloc i v a))
      in case ho_array_state h of
           None \<Rightarrow> None
         | Some a \<Rightarrow>
             if needs_restore then
               (case try_restore_dense alloc i a of
                  Inl e \<Rightarrow> Some (Inl e)
                | Inr (False, a') \<Rightarrow> Some (Inr (False, h\<lparr>ho_kind := Kind_Array a'\<rparr>))
                | Inr (True, a') \<Rightarrow> store a')
             else store a)"

section \<open>Own keys\<close>

record key_phases =
  kp_indices :: bool
  kp_strings :: bool
  kp_symbols :: bool

definition STRING_KEYS :: key_phases where
  "STRING_KEYS = \<lparr>kp_indices = True, kp_strings = True, kp_symbols = False\<rparr>"

definition SYMBOL_KEYS :: key_phases where
  "SYMBOL_KEYS = \<lparr>kp_indices = False, kp_strings = False, kp_symbols = True\<rparr>"

definition ALL_KEYS :: key_phases where
  "ALL_KEYS = \<lparr>kp_indices = True, kp_strings = True, kp_symbols = True\<rparr>"

datatype atom_key_phase = Phase_String | Phase_Symbol

record for_in_candidate =
  fc_key :: property_key
  fc_enumerable :: bool

record for_in_snapshot =
  fs_candidates :: "for_in_candidate list"
  fs_sort_work :: u64

definition shape_candidate :: "shape_property \<Rightarrow> for_in_candidate" where
  "shape_candidate p = \<lparr>fc_key = sp_key p, fc_enumerable = is_enumerable (sp_layout p)\<rparr>"

definition atom_phase_matches :: "atom_key_phase \<Rightarrow> shape_property \<Rightarrow> bool" where
  "atom_phase_matches phase p =
     (case as_atom_kind (sp_key p) of
        None \<Rightarrow> False
      | Some kind \<Rightarrow>
          (case phase of
             Phase_String \<Rightarrow> kind = Atom_String
           | Phase_Symbol \<Rightarrow> kind = Atom_Symbol \<or> kind = Atom_GlobalSymbol))"

definition push_atom_keys :: "atom_key_phase \<Rightarrow> object_record \<Rightarrow> for_in_candidate list \<Rightarrow> for_in_candidate list" where
  "push_atom_keys phase r candidates = candidates @ map shape_candidate (filter (atom_phase_matches phase) (or_shape r))"

text \<open>\<^verbatim>\<open>leading_zeros\<close> and \<^verbatim>\<open>saturating_mul\<close> of \<^verbatim>\<open>u64\<close>.\<close>

definition u64_leading_zeros :: "u64 \<Rightarrow> nat" where
  "u64_leading_zeros w = length (takeWhile (\<lambda>i. \<not> bit w i) (rev [0..<64]))"

definition saturating_mul :: "u64 \<Rightarrow> u64 \<Rightarrow> u64" where
  "saturating_mul a b = (if unat a * unat b < 2 ^ 64 then a * b else - 1)"

definition usize_to_u64 :: "usize \<Rightarrow> u64" where
  "usize_to_u64 n = (if n < 2 ^ 64 then word_of_nat n else - 1)"

definition conservative_sort_work :: "usize \<Rightarrow> u64" where
  "conservative_sort_work n =
     (let entries = usize_to_u64 n
      in if entries \<le> 1 then 0
         else let levels = word_of_nat (64 - u64_leading_zeros (entries - 1))
              in saturating_mul (saturating_mul entries levels) 2)"

definition key_in_phases :: "u32 \<Rightarrow> key_phases \<Rightarrow> shape_property \<Rightarrow> bool" where
  "key_in_phases virtual_indices phases p =
     (case as_index (sp_key p) of
        Some index \<Rightarrow> kp_indices phases \<and> virtual_indices \<le> index_get index
      | None \<Rightarrow>
          (case as_atom_kind (sp_key p) of
             None \<Rightarrow> False
           | Some Atom_String \<Rightarrow> kp_strings phases
           | Some Atom_Symbol \<Rightarrow> kp_symbols phases
           | Some Atom_GlobalSymbol \<Rightarrow> kp_symbols phases
           | Some Atom_Private \<Rightarrow> False))"

definition virtual_index_count :: "u32 option \<Rightarrow> key_phases \<Rightarrow> u32" where
  "virtual_index_count string_length phases = (if kp_indices phases then unwrap_or string_length 0 else 0)"

definition own_key_candidate_count_with_array :: "object_record \<Rightarrow> u32 option \<Rightarrow> key_phases \<Rightarrow> array_state option \<Rightarrow> usize" where
  "own_key_candidate_count_with_array r string_length phases array =
     (let virtual_indices = virtual_index_count string_length phases;
          dense = (if kp_indices phases then (case array of None \<Rightarrow> 0 | Some a \<Rightarrow> dense_property_count a) else 0)
      in unat virtual_indices + dense + length (filter (key_in_phases virtual_indices phases) (or_shape r)))"

definition own_index_property :: "u32 \<Rightarrow> shape_property \<Rightarrow> bool" where
  "own_index_property virtual_indices p =
     (case as_index (sp_key p) of None \<Rightarrow> False | Some index \<Rightarrow> virtual_indices \<le> index_get index)"

text \<open>
  \<^verbatim>\<open>sort_unstable_by_key\<close> is a sort by the index; the order it leaves between equal keys is not
  specified, and the candidates of an object have distinct keys.
\<close>

definition index_candidates :: "object_record \<Rightarrow> u32 \<Rightarrow> array_state option \<Rightarrow> for_in_candidate list" where
  "index_candidates r virtual_indices array =
     map (\<lambda>i. \<lparr>fc_key = Key_Index (ArrayIndex (word_of_nat i)), fc_enumerable = True\<rparr>) [0..<unat virtual_indices] @
     (case array of None \<Rightarrow> [] | Some a \<Rightarrow> map (\<lambda>i. \<lparr>fc_key = Key_Index i, fc_enumerable = True\<rparr>) (dense_indices a)) @
     map shape_candidate (filter (own_index_property virtual_indices) (or_shape r))"

definition candidate_index :: "for_in_candidate \<Rightarrow> array_index" where
  "candidate_index c = the (as_index (fc_key c))"

definition try_own_key_snapshot_with_array ::
  "allocator \<Rightarrow> object_record \<Rightarrow> u32 option \<Rightarrow> key_phases \<Rightarrow> array_state option \<Rightarrow> for_in_snapshot option" where
  "try_own_key_snapshot_with_array alloc r string_length phases array =
     (let virtual_indices = virtual_index_count string_length phases
      in if \<not> alloc 0 (own_key_candidate_count_with_array r string_length phases array) then None
         else let indices = (if kp_indices phases then index_candidates r virtual_indices array else []);
                  sort_work = (if kp_indices phases then conservative_sort_work (length indices) else 0);
                  sorted_indices = sort_key candidate_index indices;
                  strings = (if kp_strings phases then push_atom_keys Phase_String r sorted_indices else sorted_indices);
                  symbols = (if kp_symbols phases then push_atom_keys Phase_Symbol r strings else strings)
              in Some \<lparr>fs_candidates = symbols, fs_sort_work = sort_work\<rparr>)"

definition try_own_key_snapshot :: "allocator \<Rightarrow> object_record \<Rightarrow> u32 option \<Rightarrow> key_phases \<Rightarrow> for_in_snapshot option" where
  "try_own_key_snapshot alloc r string_length phases = try_own_key_snapshot_with_array alloc r string_length phases None"

definition try_array_own_key_snapshot :: "allocator \<Rightarrow> object_record \<Rightarrow> array_state \<Rightarrow> key_phases \<Rightarrow> for_in_snapshot option" where
  "try_array_own_key_snapshot alloc r array phases = try_own_key_snapshot_with_array alloc r None phases (Some array)"

end
