(* ===== verification/Object_Heap.thy ===== *)
theory Object_Heap
  imports Array_Object
begin

text \<open>
  The property operations of a runtime on its heap: \<^verbatim>\<open>runtime/heap.rs\<close>, \<^verbatim>\<open>runtime/arrays.rs\<close> and
  \<^verbatim>\<open>[[DefineOwnProperty]]\<close> of \<^verbatim>\<open>vm/properties.rs\<close> in \<^verbatim>\<open>crates/fusor-runtime/src\<close>. Objects, functions and
  binding cells live in generational arenas. An operation returns its result and the heap it
  leaves, also when it fails: a failing operation may have changed the heap before.
\<close>

section \<open>State and errors\<close>

datatype runtime_resource = Res_ObjectProperties | Res_HeapObjects

datatype engine_fault =
  StaleHeapEdge string id
| RuntimeInvariant string

datatype execution_error =
  EE_LimitExceeded runtime_resource u64 u64
| EE_AllocationFailed runtime_resource usize
| EE_InstructionLimitExceeded u64 u64
| EE_Fault engine_fault
| EE_Panic

datatype binding_value = Cell_Uninitialized | Cell_Value stored_value

record binding_cell =
  bc_value :: binding_value
  bc_forward :: "id option"

text \<open>
  The heap carries the property count of the runtime with its limit and the instruction budget of
  the running script. Of a function the heap shows its object record.
\<close>

record heap =
  hp_objects :: "heap_object arena"
  hp_functions :: "object_record arena"
  hp_cells :: "binding_cell arena"
  hp_max_object_properties :: u64
  hp_object_properties :: u64
  hp_collection_pending :: bool
  hp_instruction_limit :: u64
  hp_executed_instructions :: u64

type_synonym 'a heap_op = "heap \<Rightarrow> (execution_error, 'a) result \<times> heap"

definition hreturn :: "'a \<Rightarrow> 'a heap_op" where
  "hreturn x s = (Inr x, s)"

definition hfail :: "execution_error \<Rightarrow> 'a heap_op" where
  "hfail e s = (Inl e, s)"

definition hbind :: "'a heap_op \<Rightarrow> ('a \<Rightarrow> 'b heap_op) \<Rightarrow> 'b heap_op" where
  "hbind m f s = (case m s of (Inl e, s') \<Rightarrow> (Inl e, s') | (Inr x, s') \<Rightarrow> f x s')"

definition hmodify :: "(heap \<Rightarrow> heap) \<Rightarrow> unit heap_op" where
  "hmodify f s = (Inr (), f s)"

definition hread :: "(heap \<Rightarrow> 'a) \<Rightarrow> 'a heap_op" where
  "hread f s = (Inr (f s), s)"

definition invariant_violation :: "string \<Rightarrow> 'a heap_op" where
  "invariant_violation msg = hfail (EE_Fault (RuntimeInvariant msg))"

definition mark_collection_pending :: "unit heap_op" where
  "mark_collection_pending = hmodify (\<lambda>s. s\<lparr>hp_collection_pending := True\<rparr>)"

section \<open>Records on the heap\<close>

definition stale_heap_reference :: "heap_reference \<Rightarrow> engine_fault" where
  "stale_heap_reference reference =
     (case reference of Ref_Function f \<Rightarrow> StaleHeapEdge ''function'' f | Ref_Object x \<Rightarrow> StaleHeapEdge ''object'' x)"

definition heap_object_at :: "string \<Rightarrow> id \<Rightarrow> heap_object heap_op" where
  "heap_object_at e x s =
     (case arena_get (hp_objects s) x of
        None \<Rightarrow> (Inl (EE_Fault (StaleHeapEdge e x)), s)
      | Some h \<Rightarrow> (Inr h, s))"

text \<open>A write through \<^verbatim>\<open>get_mut(object).expect(...)\<close>.\<close>

definition put_heap_object :: "id \<Rightarrow> heap_object \<Rightarrow> unit heap_op" where
  "put_heap_object x h s =
     (case arena_set (hp_objects s) x h of
        None \<Rightarrow> (Inl EE_Panic, s)
      | Some a \<Rightarrow> (Inr (), s\<lparr>hp_objects := a\<rparr>))"

definition heap_record :: "heap_reference \<Rightarrow> object_record heap_op" where
  "heap_record reference s =
     (case reference of
        Ref_Function f \<Rightarrow>
          (case arena_get (hp_functions s) f of
             None \<Rightarrow> (Inl (EE_Fault (stale_heap_reference reference)), s)
           | Some r \<Rightarrow> (Inr r, s))
      | Ref_Object x \<Rightarrow>
          (case arena_get (hp_objects s) x of
             None \<Rightarrow> (Inl (EE_Fault (stale_heap_reference reference)), s)
           | Some h \<Rightarrow> (Inr (ho_record h), s)))"

text \<open>A write through \<^verbatim>\<open>object_record_mut(reference)?\<close>.\<close>

definition put_heap_record :: "heap_reference \<Rightarrow> object_record \<Rightarrow> unit heap_op" where
  "put_heap_record reference r s =
     (case reference of
        Ref_Function f \<Rightarrow>
          (case arena_set (hp_functions s) f r of
             None \<Rightarrow> (Inl (EE_Fault (stale_heap_reference reference)), s)
           | Some a \<Rightarrow> (Inr (), s\<lparr>hp_functions := a\<rparr>))
      | Ref_Object x \<Rightarrow>
          (case arena_get (hp_objects s) x of
             None \<Rightarrow> (Inl (EE_Fault (stale_heap_reference reference)), s)
           | Some h \<Rightarrow> put_heap_object x (h\<lparr>ho_record := r\<rparr>) s))"

definition check_property_limit :: "unit heap_op" where
  "check_property_limit s =
     (let observed = saturating_add (hp_object_properties s) 1
      in if observed \<le> hp_max_object_properties s then (Inr (), s)
         else (Inl (EE_LimitExceeded Res_ObjectProperties (hp_max_object_properties s) observed), s))"

definition append_data_property ::
  "allocator \<Rightarrow> heap_reference \<Rightarrow> property_key \<Rightarrow> property_layout \<Rightarrow> stored_value \<Rightarrow> unit heap_op" where
  "append_data_property alloc reference key layout v =
     hbind check_property_limit (\<lambda>_.
     hbind (heap_record reference) (\<lambda>r.
       case append_data alloc key layout v r of
         None \<Rightarrow> hfail (EE_AllocationFailed Res_ObjectProperties 1)
       | Some r' \<Rightarrow>
           hbind (put_heap_record reference r') (\<lambda>_.
             hmodify (\<lambda>s. s\<lparr>hp_object_properties := hp_object_properties s + 1, hp_collection_pending := True\<rparr>))))"

definition require_live_function :: "id option \<Rightarrow> unit heap_op" where
  "require_live_function f s =
     (case f of
        None \<Rightarrow> (Inr (), s)
      | Some x \<Rightarrow>
          if arena_contains (hp_functions s) x then (Inr (), s)
          else (Inl (EE_Fault (stale_heap_reference (Ref_Function x))), s))"

definition append_accessor_property ::
  "allocator \<Rightarrow> heap_reference \<Rightarrow> property_key \<Rightarrow> property_layout \<Rightarrow> id option \<Rightarrow> id option \<Rightarrow> unit heap_op" where
  "append_accessor_property alloc reference key layout getter setter =
     (if layout_kind layout \<noteq> Layout_Accessor then invariant_violation ''accessor insertion received a data-property layout''
      else hbind (heap_record reference) (\<lambda>r.
        if Object_Record.own_property r key \<noteq> None
        then invariant_violation ''accessor insertion targeted an existing own property''
        else
          hbind (require_live_function getter) (\<lambda>_.
          hbind (require_live_function setter) (\<lambda>_.
          hbind check_property_limit (\<lambda>_.
            case append_accessor alloc key layout getter setter r of
              None \<Rightarrow> hfail (EE_AllocationFailed Res_ObjectProperties 1)
            | Some r' \<Rightarrow>
                hbind (put_heap_record reference r') (\<lambda>_.
                  hmodify (\<lambda>s. s\<lparr>hp_object_properties := hp_object_properties s + 1, hp_collection_pending := True\<rparr>)))))))"

definition append_own_property :: "allocator \<Rightarrow> heap_reference \<Rightarrow> property_key \<Rightarrow> own_property \<Rightarrow> unit heap_op" where
  "append_own_property alloc reference key property =
     (case property of
        OP_Data layout v \<Rightarrow> append_data_property alloc reference key layout v
      | OP_Accessor layout getter setter \<Rightarrow> append_accessor_property alloc reference key layout getter setter)"

section \<open>Mapped arguments\<close>

definition mapped_arguments_cell :: "id \<Rightarrow> property_key \<Rightarrow> id option heap_op" where
  "mapped_arguments_cell x key =
     (case as_index key of
        None \<Rightarrow> hreturn None
      | Some i \<Rightarrow> hbind (heap_object_at ''object'' x) (\<lambda>h. hreturn (arguments_cell (index_get i) h)))"

definition mapped_arguments_value :: "id \<Rightarrow> property_key \<Rightarrow> stored_value option heap_op" where
  "mapped_arguments_value x key =
     hbind (mapped_arguments_cell x key) (\<lambda>cell.
       case cell of
         None \<Rightarrow> hreturn None
       | Some c \<Rightarrow>
           hbind (hread (\<lambda>s. arena_get (hp_cells s) c)) (\<lambda>found.
             case found of
               None \<Rightarrow> hfail (EE_Fault (StaleHeapEdge ''mapped arguments binding cell'' c))
             | Some b \<Rightarrow>
                 (case bc_value b of
                    Cell_Value v \<Rightarrow> hreturn (Some v)
                  | Cell_Uninitialized \<Rightarrow> invariant_violation ''mapped arguments binding is initialized'')))"

definition replace_mapped_arguments_cell_value :: "id \<Rightarrow> stored_value \<Rightarrow> unit heap_op" where
  "replace_mapped_arguments_cell_value c v s =
     (case arena_get (hp_cells s) c of
        None \<Rightarrow> (Inl (EE_Fault (StaleHeapEdge ''mapped arguments binding cell'' c)), s)
      | Some b \<Rightarrow>
          (case arena_set (hp_cells s) c (b\<lparr>bc_value := Cell_Value v\<rparr>) of
             None \<Rightarrow> (Inl EE_Panic, s)
           | Some a \<Rightarrow> (Inr (), s\<lparr>hp_cells := a, hp_collection_pending := True\<rparr>)))"

definition detach_mapped_arguments_property :: "id \<Rightarrow> property_key \<Rightarrow> id option heap_op" where
  "detach_mapped_arguments_property x key =
     (case as_index key of
        None \<Rightarrow> hreturn None
      | Some i \<Rightarrow>
          hbind (heap_object_at ''object'' x) (\<lambda>h.
            case detach_arguments_cell (index_get i) h of
              (detached, h') \<Rightarrow>
                hbind (put_heap_object x h') (\<lambda>_.
                hbind (if detached \<noteq> None then mark_collection_pending else hreturn ()) (\<lambda>_.
                  hreturn detached))))"

definition synchronize_mapped_arguments_property :: "id \<Rightarrow> property_key \<Rightarrow> unit heap_op" where
  "synchronize_mapped_arguments_property x key =
     hbind (mapped_arguments_value x key) (\<lambda>found.
       case found of
         None \<Rightarrow> hreturn ()
       | Some v \<Rightarrow>
           hbind (heap_object_at ''object'' x) (\<lambda>h.
             case replace_existing_data key v (ho_record h) of
               (False, _) \<Rightarrow> invariant_violation ''mapped arguments property remains present data''
             | (True, r) \<Rightarrow>
                 hbind (put_heap_object x (h\<lparr>ho_record := r\<rparr>)) (\<lambda>_. mark_collection_pending)))"

section \<open>Arrays\<close>

definition is_array_object :: "id \<Rightarrow> bool heap_op" where
  "is_array_object x = hbind (heap_object_at ''object'' x) (\<lambda>h. hreturn (ho_array_state h \<noteq> None))"

definition heap_array_own_property :: "id \<Rightarrow> property_key \<Rightarrow> own_property option heap_op" where
  "heap_array_own_property x key =
     hbind (heap_object_at ''object'' x) (\<lambda>h.
       if ho_array_state h = None then invariant_violation ''array own-property lookup received a non-array object''
       else hreturn (array_own_property h key))"

datatype array_property_location = Loc_Absent | Loc_Dense | Loc_Sparse

record array_facts =
  af_length :: u32
  af_existing :: array_property_location
  af_extensible :: bool
  af_length_writable :: bool

datatype array_define_outcome = Define_Complete | Define_ReadOnlyLength | Define_NonExtensible

datatype array_length_write_outcome =
  Length_Complete | Length_ReadOnly | Length_BlockedByNonConfigurable array_index u32

definition default_dense_data_value :: "own_property \<Rightarrow> stored_value option" where
  "default_dense_data_value property =
     (case property of
        OP_Data layout v \<Rightarrow> if layout = PL_Data True True True then Some v else None
      | OP_Accessor _ _ _ \<Rightarrow> None)"

definition array_definition_facts_of :: "heap_object \<Rightarrow> property_key \<Rightarrow> array_facts heap_op" where
  "array_definition_facts_of h key =
     (case ho_array_state h of
        None \<Rightarrow> invariant_violation ''array property definition received a non-array object''
      | Some a \<Rightarrow>
          (case Object_Record.own_property (ho_record h) length_key of
             None \<Rightarrow> invariant_violation ''array object has no own length property''
           | Some length_property \<Rightarrow>
               hreturn \<lparr>af_length = as_length a,
                 af_existing =
                   (if (case as_index key of None \<Rightarrow> False | Some i \<Rightarrow> dense_value i a \<noteq> None) then Loc_Dense
                    else if array_own_property h key \<noteq> None then Loc_Sparse else Loc_Absent),
                 af_extensible = or_extensible (ho_record h),
                 af_length_writable = (layout_writable (own_layout length_property) = Some True)\<rparr>))"

definition array_definition_facts :: "id \<Rightarrow> property_key \<Rightarrow> array_facts heap_op" where
  "array_definition_facts x key = hbind (heap_object_at ''array object'' x) (\<lambda>h. array_definition_facts_of h key)"

text \<open>The live array at its id; the source expects it to remain present.\<close>

definition live_array :: "id \<Rightarrow> heap_object heap_op" where
  "live_array x s = (case arena_get (hp_objects s) x of None \<Rightarrow> (Inl EE_Panic, s) | Some h \<Rightarrow> (Inr h, s))"

definition commit_array_store ::
  "id \<Rightarrow> (unit, bool \<times> heap_object) result option \<Rightarrow> bool heap_op" where
  "commit_array_store x stored =
     (case stored of
        None \<Rightarrow> hfail EE_Panic
      | Some (Inl _) \<Rightarrow> hfail (EE_AllocationFailed Res_ObjectProperties 1)
      | Some (Inr (created, h)) \<Rightarrow> hbind (put_heap_object x h) (\<lambda>_. hreturn created))"

definition heap_transition_array_to_sparse :: "allocator \<Rightarrow> id \<Rightarrow> unit heap_op" where
  "heap_transition_array_to_sparse alloc x =
     hbind (live_array x) (\<lambda>h.
       hbind (commit_array_store x (Some (transition_array_to_sparse alloc h))) (\<lambda>_. hreturn ()))"

definition store_dense_element ::
  "allocator \<Rightarrow> array_index \<Rightarrow> stored_value \<Rightarrow> heap_object \<Rightarrow> (unit, bool \<times> heap_object) result option" where
  "store_dense_element alloc i v h =
     (case ho_array_state h of
        None \<Rightarrow> None
      | Some a \<Rightarrow>
          map_option (map_sum (\<lambda>e. e) (\<lambda>(created, a'). (created, h\<lparr>ho_kind := Kind_Array a'\<rparr>)))
            (try_store_dense alloc i v a))"

definition restore_array_property :: "id \<Rightarrow> property_key \<Rightarrow> own_property \<Rightarrow> unit heap_op" where
  "restore_array_property x key property =
     hbind (live_array x) (\<lambda>h.
       case replace_existing_property key property (ho_record h) of
         None \<Rightarrow> invariant_violation ''located array property disappeared before its definition''
       | Some (_, r) \<Rightarrow>
           hbind (put_heap_object x (h\<lparr>ho_record := r\<rparr>)) (\<lambda>_. mark_collection_pending))"

definition replace_existing_array_property ::
  "allocator \<Rightarrow> id \<Rightarrow> property_key \<Rightarrow> own_property \<Rightarrow> bool \<Rightarrow> unit heap_op" where
  "replace_existing_array_property alloc x key property dense_exists =
     (if dense_exists then
        (case default_dense_data_value property of
           Some v \<Rightarrow>
             (case as_index key of
                None \<Rightarrow> hfail EE_Panic
              | Some i \<Rightarrow>
                  hbind (live_array x) (\<lambda>h.
                  hbind (commit_array_store x (store_dense_element alloc i v h)) (\<lambda>_. mark_collection_pending)))
         | None \<Rightarrow>
             hbind (heap_transition_array_to_sparse alloc x) (\<lambda>_. restore_array_property x key property))
      else restore_array_property x key property)"

definition try_store_new_dense_array_property ::
  "allocator \<Rightarrow> id \<Rightarrow> property_key \<Rightarrow> own_property \<Rightarrow> bool heap_op" where
  "try_store_new_dense_array_property alloc x key property =
     (case (as_index key, default_dense_data_value property) of
        (Some i, Some v) \<Rightarrow>
          hbind (hread (\<lambda>s. arena_get (hp_objects s) x)) (\<lambda>found.
            case found of
              None \<Rightarrow> hreturn False
            | Some h \<Rightarrow>
                (case ho_array_state h of
                   None \<Rightarrow> hreturn False
                 | Some a \<Rightarrow>
                     let restorable = (\<not> can_store_dense i a \<and> is_sparse a \<and> \<not> has_indexed_property (ho_record h))
                     in if \<not> can_store_dense i a \<and> \<not> restorable then hreturn False
                        else hbind (commit_array_store x (try_restore_dense_and_store alloc i v h)) (\<lambda>_. hreturn True)))
      | _ \<Rightarrow> hreturn False)"

definition update_array_length :: "id \<Rightarrow> u32 \<Rightarrow> unit heap_op" where
  "update_array_length x n =
     hbind (heap_object_at ''array object'' x) (\<lambda>h.
       case replace_existing_data length_key (SV_Number (number_from_f64 (f64_of_int (uint n)))) (ho_record h) of
         (False, _) \<Rightarrow> invariant_violation ''array object lost its own data length property''
       | (True, r) \<Rightarrow>
           hbind (put_heap_object x (h\<lparr>ho_record := r\<rparr>)) (\<lambda>_.
             case ho_array_state h of
               None \<Rightarrow> invariant_violation ''array length update received a non-array object''
             | Some a \<Rightarrow> put_heap_object x (h\<lparr>ho_record := r, ho_kind := Kind_Array (a\<lparr>as_length := n\<rparr>)\<rparr>)))"

definition extend_array_length :: "id \<Rightarrow> u32 option \<Rightarrow> unit heap_op" where
  "extend_array_length x extended = (case extended of None \<Rightarrow> hreturn () | Some n \<Rightarrow> update_array_length x n)"

definition define_array_own_property ::
  "allocator \<Rightarrow> id \<Rightarrow> property_key \<Rightarrow> own_property \<Rightarrow> array_define_outcome heap_op" where
  "define_array_own_property alloc x key property =
     (if as_atom key = Some LENGTH_ATOM
      then invariant_violation ''array length definition bypassed numeric length validation''
      else hbind (array_definition_facts x key) (\<lambda>facts.
        let extended = (case as_index key of
                          None \<Rightarrow> None
                        | Some i \<Rightarrow> if af_length facts \<le> index_get i then Some (saturating_add (index_get i) 1) else None)
        in if extended \<noteq> None \<and> \<not> af_length_writable facts then hreturn Define_ReadOnlyLength
           else if af_existing facts \<noteq> Loc_Absent then
             hbind (replace_existing_array_property alloc x key property (af_existing facts = Loc_Dense)) (\<lambda>_.
             hbind (extend_array_length x extended) (\<lambda>_. hreturn Define_Complete))
           else if \<not> af_extensible facts then hreturn Define_NonExtensible
           else
             hbind check_property_limit (\<lambda>_.
             hbind (try_store_new_dense_array_property alloc x key property) (\<lambda>stored.
               if stored then
                 hbind (extend_array_length x extended) (\<lambda>_.
                 hbind (hmodify (\<lambda>s. s\<lparr>hp_object_properties := saturating_add (hp_object_properties s) 1,
                                       hp_collection_pending := True\<rparr>)) (\<lambda>_. hreturn Define_Complete))
               else
                 hbind (if as_index key \<noteq> None then heap_transition_array_to_sparse alloc x else hreturn ()) (\<lambda>_.
                 hbind (append_own_property alloc (Ref_Object x) key property) (\<lambda>_.
                 hbind (extend_array_length x extended) (\<lambda>_.
                 hbind mark_collection_pending (\<lambda>_. hreturn Define_Complete))))))))"

definition define_array_data_property ::
  "allocator \<Rightarrow> id \<Rightarrow> property_key \<Rightarrow> property_layout \<Rightarrow> stored_value \<Rightarrow> array_define_outcome heap_op" where
  "define_array_data_property alloc x key layout v =
     (if layout_kind layout \<noteq> Layout_Data then invariant_violation ''array data-property definition received an accessor layout''
      else define_array_own_property alloc x key (OP_Data layout v))"

definition release_properties :: "usize \<Rightarrow> unit heap_op" where
  "release_properties removed =
     hmodify (\<lambda>s. s\<lparr>hp_object_properties := saturating_sub (hp_object_properties s) (usize_to_u64 removed)\<rparr>)"

definition set_array_length :: "id \<Rightarrow> u32 \<Rightarrow> array_length_write_outcome heap_op" where
  "set_array_length x requested_length =
     hbind (heap_object_at ''array object'' x) (\<lambda>h.
       case ho_array_state h of
         None \<Rightarrow> invariant_violation ''array length write received a non-array object''
       | Some a \<Rightarrow>
           (case Object_Record.own_property (ho_record h) length_key of
              None \<Rightarrow> invariant_violation ''array object has no own length property''
            | Some p \<Rightarrow>
                if layout_writable (own_layout p) \<noteq> Some True then hreturn Length_ReadOnly
                else if as_length a \<le> requested_length then
                  hbind (update_array_length x requested_length) (\<lambda>_.
                  hbind mark_collection_pending (\<lambda>_. hreturn Length_Complete))
                else if is_dense a then
                  (case truncate_dense requested_length a of
                     (removed, a') \<Rightarrow>
                       hbind (put_heap_object x (h\<lparr>ho_kind := Kind_Array a'\<rparr>)) (\<lambda>_.
                       hbind (release_properties removed) (\<lambda>_.
                       hbind (update_array_length x requested_length) (\<lambda>_.
                       hbind mark_collection_pending (\<lambda>_. hreturn Length_Complete)))))
                else
                  (case truncate_array_indices requested_length (ho_record h) of
                     (truncation, r) \<Rightarrow>
                       hbind (put_heap_object x (h\<lparr>ho_record := r\<rparr>)) (\<lambda>_.
                       hbind (release_properties (tr_removed truncation)) (\<lambda>_.
                       hbind (update_array_length x (tr_final_length truncation)) (\<lambda>_.
                       hbind mark_collection_pending (\<lambda>_.
                         hreturn (case tr_blocked_index truncation of
                                    Some i \<Rightarrow> Length_BlockedByNonConfigurable i (tr_final_length truncation)
                                  | None \<Rightarrow> Length_Complete))))))))"

definition set_array_length_writable :: "id \<Rightarrow> bool \<Rightarrow> unit heap_op" where
  "set_array_length_writable x writable =
     hbind (heap_object_at ''array object'' x) (\<lambda>h.
       if ho_array_state h = None then invariant_violation ''array length layout update received a non-array object''
       else case replace_existing_data_layout length_key (PL_Data writable False False) (ho_record h) of
              None \<Rightarrow> invariant_violation ''array object lost its own data length layout''
            | Some (_, r) \<Rightarrow>
                hbind (put_heap_object x (h\<lparr>ho_record := r\<rparr>)) (\<lambda>_. mark_collection_pending))"

section \<open>Deletion\<close>

definition delete_dense_element :: "heap_reference \<Rightarrow> property_key \<Rightarrow> bool heap_op" where
  "delete_dense_element target key =
     (case (target, as_index key) of
        (Ref_Object x, Some i) \<Rightarrow>
          hbind (heap_object_at ''object'' x) (\<lambda>h.
            case ho_array_state h of
              None \<Rightarrow> hreturn False
            | Some a \<Rightarrow>
                (case delete_dense i a of
                   (deleted, a') \<Rightarrow> hbind (put_heap_object x (h\<lparr>ho_kind := Kind_Array a'\<rparr>)) (\<lambda>_. hreturn deleted)))
      | _ \<Rightarrow> hreturn False)"

definition heap_delete_own_property :: "heap_reference \<Rightarrow> property_key \<Rightarrow> property_deletion heap_op" where
  "heap_delete_own_property target key =
     hbind (delete_dense_element target key) (\<lambda>dense_deleted.
     hbind (if dense_deleted then hreturn Deleted
            else hbind (heap_record target) (\<lambda>r.
              case delete_own_property key r of
                (deletion, r') \<Rightarrow> hbind (put_heap_record target r') (\<lambda>_. hreturn deletion))) (\<lambda>deletion.
       if deletion = Deleted then
         hbind (case target of
                  Ref_Object x \<Rightarrow> hbind (detach_mapped_arguments_property x key) (\<lambda>_. hreturn ())
                | Ref_Function _ \<Rightarrow> hreturn ()) (\<lambda>_.
         hbind (hmodify (\<lambda>s. s\<lparr>hp_object_properties := saturating_sub (hp_object_properties s) 1,
                               hp_collection_pending := True\<rparr>)) (\<lambda>_. hreturn deletion))
       else hreturn deletion))"

end
