(* ===== verification/Object_Entries.thy ===== *)
theory Object_Entries
  imports Array_Object
begin

text \<open>
  An object record as an ordered association list of its own properties, and what the operations on
  shape and slots do to it.
\<close>

section \<open>Entries of a well-formed record\<close>

fun slot_fits :: "property_layout \<Rightarrow> property_slot \<Rightarrow> bool" where
  "slot_fits l (Slot_Data _) = (layout_kind l = Layout_Data)"
| "slot_fits l (Slot_Accessor _ _) = (layout_kind l = Layout_Accessor)"

text \<open>An array index never is the length sentinel.\<close>

definition key_valid :: "property_key \<Rightarrow> bool" where
  "key_valid key = (case as_index key of None \<Rightarrow> True | Some i \<Rightarrow> index_get i \<le> MAX_ARRAY_INDEX)"

definition record_wf :: "object_record \<Rightarrow> bool" where
  "record_wf r \<longleftrightarrow>
     list_all2 (\<lambda>p s. slot_fits (sp_layout p) s) (or_shape r) (or_slots r) \<and> distinct (map sp_key (or_shape r)) \<and>
     list_all key_valid (map sp_key (or_shape r))"

definition entry :: "shape_property \<Rightarrow> property_slot \<Rightarrow> property_key \<times> Define_Property.own_property" where
  "entry p s = (sp_key p, slot_property (sp_layout p) s)"

definition entries :: "object_record \<Rightarrow> (property_key \<times> Define_Property.own_property) list" where
  "entries r = map2 entry (or_shape r) (or_slots r)"

definition own_keys :: "object_record \<Rightarrow> property_key list" where
  "own_keys r = map sp_key (or_shape r)"

lemma record_wf_length: "record_wf r \<Longrightarrow> length (or_slots r) = length (or_shape r)"
  by (auto simp: record_wf_def dest: list_all2_lengthD)

lemma length_entries: "record_wf r \<Longrightarrow> length (entries r) = length (or_shape r)"
  by (simp add: entries_def record_wf_length)

lemma map_fst_entries: "record_wf r \<Longrightarrow> map fst (entries r) = own_keys r"
  by (rule nth_equalityI) (auto simp: entries_def own_keys_def record_wf_length entry_def)

lemma distinct_own_keys: "record_wf r \<Longrightarrow> distinct (own_keys r)"
  by (simp add: record_wf_def own_keys_def)

lemma entries_nth:
  "record_wf r \<Longrightarrow> i < length (or_shape r) \<Longrightarrow>
     entries r ! i = (sp_key (or_shape r ! i), slot_property (sp_layout (or_shape r ! i)) (or_slots r ! i))"
  by (simp add: entries_def record_wf_length entry_def)

lemma position_Some: "position P xs = Some i \<Longrightarrow> i < length xs \<and> P (xs ! i) \<and> (\<forall>j<i. \<not> P (xs ! j))"
  by (induction xs arbitrary: i) (auto split: if_splits simp: nth_Cons' less_Suc_eq_0_disj)

lemma position_None: "position P xs = None \<longleftrightarrow> (\<forall>x \<in> set xs. \<not> P x)"
  by (induction xs) auto

lemma key_position_None: "key_position key r = None \<longleftrightarrow> key \<notin> set (own_keys r)"
  by (auto simp: key_position_def own_keys_def position_None)

lemma key_position_Some:
  assumes "record_wf r"
  shows "key_position key r = Some i \<longleftrightarrow> i < length (or_shape r) \<and> sp_key (or_shape r ! i) = key"
proof
  assume "key_position key r = Some i"
  then show "i < length (or_shape r) \<and> sp_key (or_shape r ! i) = key"
    unfolding key_position_def using position_Some by fastforce
next
  assume i: "i < length (or_shape r) \<and> sp_key (or_shape r ! i) = key"
  then have "key_position key r \<noteq> None" unfolding key_position_None own_keys_def by fastforce
  then obtain j where j: "key_position key r = Some j" by blast
  then have "j < length (or_shape r)" "sp_key (or_shape r ! j) = key"
    unfolding key_position_def using position_Some by fastforce+
  then have "j = i" using i assms
    by (metis length_map nth_eq_iff_index_eq nth_map record_wf_def)
  then show "key_position key r = Some i" using j by simp
qed

lemma own_property_map_of:
  assumes "record_wf r"
  shows "Object_Record.own_property r key = map_of (entries r) key"
proof (cases "key_position key r")
  case None
  then have "key \<notin> fst ` set (entries r)"
    using assms by (metis key_position_None list.set_map map_fst_entries)
  then show ?thesis using None by (simp add: Object_Record.own_property_def) (metis map_of_eq_None_iff)
next
  case (Some i)
  then have i: "i < length (or_shape r)" "sp_key (or_shape r ! i) = key"
    using key_position_Some [OF assms] by simp_all
  have "distinct (map fst (entries r))" using assms by (simp add: map_fst_entries distinct_own_keys)
  moreover have "(key, slot_property (sp_layout (or_shape r ! i)) (or_slots r ! i)) \<in> set (entries r)"
    using entries_nth [OF assms i(1)] i by (metis assms length_entries nth_mem)
  ultimately show ?thesis using Some by (simp add: Object_Record.own_property_def)
qed

lemma own_property_dom: "record_wf r \<Longrightarrow> Object_Record.own_property r key \<noteq> None \<longleftrightarrow> key \<in> set (own_keys r)"
  by (simp add: own_property_map_of map_of_eq_None_iff flip: map_fst_entries)

lemma slot_property_wf: "slot_fits l s \<Longrightarrow> own_property_wf (slot_property l s)"
  by (cases s) simp_all

lemma own_property_well_formed:
  assumes "record_wf r" "Object_Record.own_property r key = Some p"
  shows "own_property_wf p"
proof -
  obtain i where i: "i < length (or_shape r)" "p = slot_property (sp_layout (or_shape r ! i)) (or_slots r ! i)"
    using assms(2) key_position_Some [OF assms(1)] by (auto simp: Object_Record.own_property_def split: option.splits)
  moreover have "slot_fits (sp_layout (or_shape r ! i)) (or_slots r ! i)"
    using assms(1) i(1) by (auto simp: record_wf_def list_all2_conv_all_nth)
  ultimately show ?thesis by (simp add: slot_property_wf)
qed

section \<open>What the operations do to the entries\<close>

lemma into_parts_slot [simp]: "into_parts p = (l, s) \<Longrightarrow> slot_property l s = p"
  by (cases p) auto

lemma into_parts_fits: "into_parts p = (l, s) \<Longrightarrow> own_property_wf p \<Longrightarrow> slot_fits l s"
  by (cases p) auto

lemma object_empty_wf [simp]: "record_wf (object_empty p)" "entries (object_empty p) = []"
  by (simp_all add: record_wf_def entries_def object_empty_def)

lemma append_slot_entries:
  assumes "record_wf r" "append_slot alloc key l s r = Some r'" "slot_fits l s" "key \<notin> set (own_keys r)" "key_valid key"
  shows "record_wf r' \<and> entries r' = entries r @ [(key, slot_property l s)] \<and>
    or_extensible r' = or_extensible r \<and> or_prototype r' = or_prototype r"
  using assms record_wf_length [OF assms(1)]
  by (auto simp: append_slot_def transition_shape_def record_wf_def entries_def own_keys_def entry_def
      list_all2_appendI split: if_splits)

lemma append_slot_None: "append_slot alloc key l s r = None \<longleftrightarrow> \<not> try_reserve_data alloc 1 r"
  by (simp add: append_slot_def)

lemma replace_entries:
  assumes "record_wf r" "i < length (or_shape r)" "slot_fits l s"
  defines "r' \<equiv> (transition_shape (Shape_ReplaceLayout i l) r)\<lparr>or_slots := (or_slots r)[i := s]\<rparr>"
  shows "record_wf r' \<and> entries r' = (entries r)[i := (sp_key (or_shape r ! i), slot_property l s)] \<and> own_keys r' = own_keys r"
proof -
  have keys: "map sp_key (or_shape r') = map sp_key (or_shape r)"
    using assms(2) by (intro nth_equalityI) (auto simp: r'_def transition_shape_def nth_list_update)
  have "record_wf r'" using assms(1-3) keys
    by (auto simp: record_wf_def r'_def transition_shape_def list_all2_conv_all_nth nth_list_update)
  moreover have "entries r' = (entries r)[i := (sp_key (or_shape r ! i), slot_property l s)]"
    by (rule nth_equalityI) (use assms(1,2) record_wf_length in
      \<open>auto simp: entries_def r'_def transition_shape_def nth_list_update entry_def\<close>)
  ultimately show ?thesis using keys by (simp add: own_keys_def)
qed

lemma map_of_list_update:
  assumes "distinct (map fst xs)" "i < length xs" "fst (xs ! i) = k"
  shows "map_of (xs[i := (k, v)]) = (map_of xs)(k \<mapsto> v)"
proof
  fix key
  have d: "distinct (map fst (xs[i := (k, v)]))"
  proof -
    have "map fst (xs[i := (k, v)]) = map fst xs"
      using assms(2,3) by (intro nth_equalityI) (auto simp: nth_list_update)
    then show ?thesis using assms(1) by simp
  qed
  show "map_of (xs[i := (k, v)]) key = ((map_of xs)(k \<mapsto> v)) key"
  proof (cases "key = k")
    case True
    have "(k, v) \<in> set (xs[i := (k, v)])" using assms(2) by (rule set_update_memI)
    then show ?thesis using d True by simp
  next
    case False
    have "(key, w) \<in> set (xs[i := (k, v)]) \<longleftrightarrow> (key, w) \<in> set xs" for w
      using False assms(2,3) by (auto simp: in_set_conv_nth nth_list_update) (metis fst_conv)+
    then show ?thesis using d assms(1) False
      by (metis (no_types, lifting) fun_upd_other map_of_eq_Some_iff not_Some_eq option.exhaust)
  qed
qed

lemma replace_existing_property_Some:
  assumes wf: "record_wf r" "own_property_wf p" and r: "replace_existing_property key p r = Some (previous, r')"
  shows "record_wf r' \<and> Object_Record.own_property r key = Some previous \<and>
    Object_Record.own_property r' = (Object_Record.own_property r)(key \<mapsto> p) \<and> own_keys r' = own_keys r \<and>
    or_extensible r' = or_extensible r \<and> or_prototype r' = or_prototype r"
proof -
  obtain i l s where i: "key_position key r = Some i" and parts: "into_parts p = (l, s)"
    and r': "r' = (transition_shape (Shape_ReplaceLayout i l) r)\<lparr>or_slots := (or_slots r)[i := s]\<rparr>"
    and prev: "previous = slot_property (sp_layout (or_shape r ! i)) (or_slots r ! i)"
    using r by (auto simp: replace_existing_property_def Let_def split: option.splits prod.splits)
  have i': "i < length (or_shape r)" "sp_key (or_shape r ! i) = key" using i key_position_Some [OF wf(1)] by simp_all
  note e = replace_entries [OF wf(1) i'(1) into_parts_fits [OF parts wf(2)], folded r']
  have "map_of ((entries r)[i := (key, p)]) = (map_of (entries r))(key \<mapsto> p)"
    using wf(1) i' entries_nth [OF wf(1) i'(1)]
    by (intro map_of_list_update) (simp_all add: map_fst_entries distinct_own_keys length_entries)
  then have "Object_Record.own_property r' = (Object_Record.own_property r)(key \<mapsto> p)"
    using e parts i'(2) wf(1) by (auto simp: fun_eq_iff own_property_map_of)
  then show ?thesis using e i prev r' by (simp add: Object_Record.own_property_def transition_shape_def)
qed

lemma replace_existing_property_None:
  "replace_existing_property key p r = None \<longleftrightarrow> key \<notin> set (own_keys r)"
  by (auto simp: replace_existing_property_def Let_def key_position_None [symmetric] split: option.splits prod.splits)

lemma own_property_slot:
  "key_position key r = Some i \<Longrightarrow>
     Object_Record.own_property r key = Some (slot_property (sp_layout (or_shape r ! i)) (or_slots r ! i))"
  by (simp add: Object_Record.own_property_def)

lemma replace_existing_data_as_property:
  assumes wf: "record_wf r" and p: "Object_Record.own_property r key = Some (OP_Data l w)"
  shows "\<exists>r'. replace_existing_data key v r = (True, r') \<and> record_wf r' \<and>
    Object_Record.own_property r' = (Object_Record.own_property r)(key \<mapsto> OP_Data l v) \<and> own_keys r' = own_keys r \<and>
    or_extensible r' = or_extensible r \<and> or_prototype r' = or_prototype r"
proof -
  obtain i where i: "key_position key r = Some i" and sl: "slot_property (sp_layout (or_shape r ! i)) (or_slots r ! i) = OP_Data l w"
    using p by (auto simp: Object_Record.own_property_def split: option.splits)
  then have s: "or_slots r ! i = Slot_Data w" "sp_layout (or_shape r ! i) = l" by (cases "or_slots r ! i"; simp)+
  have i': "i < length (or_shape r)" "sp_key (or_shape r ! i) = key" using i key_position_Some [OF wf] by simp_all
  let ?r = "r\<lparr>or_slots := (or_slots r)[i := Slot_Data v]\<rparr>"
  have "replace_existing_property key (OP_Data l v) r = Some (OP_Data l w, ?r)"
  proof -
    have "(or_shape r)[i := (or_shape r ! i)\<lparr>sp_layout := l\<rparr>] = or_shape r" using s(2) by (simp add: list_update_same_conv i'(1))
    then show ?thesis using i s by (simp add: replace_existing_property_def transition_shape_def Let_def)
  qed
  from replace_existing_property_Some [OF wf _ this] own_property_well_formed [OF wf p]
  have "record_wf ?r \<and> Object_Record.own_property ?r = (Object_Record.own_property r)(key \<mapsto> OP_Data l v) \<and> own_keys ?r = own_keys r"
    by simp
  then show ?thesis using i s by (simp add: replace_existing_data_def)
qed

lemma remove_nth_filter:
  assumes "distinct (map f xs)" "i < length xs"
  shows "remove_nth i xs = filter (\<lambda>x. f x \<noteq> f (xs ! i)) xs"
proof -
  have split: "xs = take i xs @ xs ! i # drop (Suc i) xs" using assms(2) by (simp add: id_take_nth_drop)
  have d: "distinct (map f (take i xs @ xs ! i # drop (Suc i) xs))" using assms(1) split by simp
  have "filter (\<lambda>x. f x \<noteq> f (xs ! i)) (take i xs) = take i xs"
    "filter (\<lambda>x. f x \<noteq> f (xs ! i)) (drop (Suc i) xs) = drop (Suc i) xs"
    using d by (auto simp: filter_id_conv) (metis imageI)+
  moreover have "filter (\<lambda>x. f x \<noteq> f (xs ! i)) xs =
    filter (\<lambda>x. f x \<noteq> f (xs ! i)) (take i xs @ xs ! i # drop (Suc i) xs)" by (subst split) simp
  ultimately show ?thesis by (simp add: remove_nth_def)
qed

lemma map2_remove_nth:
  "length xs = length ys \<Longrightarrow> map2 f (remove_nth i xs) (remove_nth i ys) = remove_nth i (map2 f xs ys)"
  by (simp add: remove_nth_def zip_append take_zip drop_zip take_map drop_map)

lemma list_all2_remove_nth: "list_all2 P xs ys \<Longrightarrow> list_all2 P (remove_nth i xs) (remove_nth i ys)"
  unfolding remove_nth_def by (intro list_all2_appendI list_all2_takeI list_all2_dropI)

lemma remove_nth_entries:
  assumes "record_wf r" "i < length (or_shape r)"
  defines "r' \<equiv> (transition_shape (Shape_Delete i) r)\<lparr>or_slots := remove_nth i (or_slots r)\<rparr>"
  shows "record_wf r' \<and> entries r' = filter (\<lambda>x. fst x \<noteq> sp_key (or_shape r ! i)) (entries r)"
proof -
  have shape: "remove_nth i (or_shape r) = filter (\<lambda>p. sp_key p \<noteq> sp_key (or_shape r ! i)) (or_shape r)"
    using assms(1,2) by (intro remove_nth_filter) (simp_all add: record_wf_def)
  have "record_wf r'" using assms(1)
    by (simp add: record_wf_def r'_def transition_shape_def list_all2_remove_nth)
      (auto simp: shape distinct_map_filter list_all_iff)
  moreover have "entries r' = remove_nth i (entries r)" using assms(1)
    by (simp add: entries_def r'_def transition_shape_def map2_remove_nth record_wf_length)
  moreover have "remove_nth i (entries r) = filter (\<lambda>x. fst x \<noteq> fst (entries r ! i)) (entries r)"
    using assms(1,2) by (intro remove_nth_filter) (simp_all add: map_fst_entries distinct_own_keys length_entries)
  ultimately show ?thesis using entries_nth [OF assms(1,2)] by simp
qed

lemma map_of_filter_key: "map_of (filter (\<lambda>x. P (fst x)) xs) k = (if P k then map_of xs k else None)"
  by (induction xs) auto

lemma delete_own_property_cases:
  assumes "record_wf r"
  shows "delete_own_property key r =
      (case Object_Record.own_property r key of
         None \<Rightarrow> (Missing, r)
       | Some p \<Rightarrow> if is_configurable (own_layout p) then (Deleted, snd (delete_own_property key r)) else (NotConfigurable, r)) \<and>
    record_wf (snd (delete_own_property key r)) \<and>
    (fst (delete_own_property key r) = Deleted \<longrightarrow>
       entries (snd (delete_own_property key r)) = filter (\<lambda>x. fst x \<noteq> key) (entries r)) \<and>
    or_extensible (snd (delete_own_property key r)) = or_extensible r \<and>
    or_prototype (snd (delete_own_property key r)) = or_prototype r"
proof (cases "key_position key r")
  case None
  then show ?thesis using assms by (simp add: delete_own_property_def Object_Record.own_property_def)
next
  case (Some i)
  then have i: "i < length (or_shape r)" "sp_key (or_shape r ! i) = key" using key_position_Some [OF assms] by simp_all
  have "own_layout (slot_property l s) = l" for l s by (cases s) simp_all
  then show ?thesis using Some assms remove_nth_entries [OF assms i(1)] i(2)
    by (simp add: delete_own_property_def own_property_slot transition_shape_def)
qed

section \<open>Truncation keeps exactly the other keys\<close>

lemma swap_nth:
  "i < length xs \<Longrightarrow> j < length xs \<Longrightarrow> swap i j xs ! k = (if k = j then xs ! i else if k = i then xs ! j else xs ! k)"
  by (simp add: swap_def nth_list_update)

lemma length_swap [simp]: "length (swap i j xs) = length xs"
  by (simp add: swap_def)

text \<open>The positions kept so far are in front, in order; what was not visited yet is in place.\<close>

definition compacted :: "nat set \<Rightarrow> nat \<Rightarrow> 'a list \<Rightarrow> 'a list \<Rightarrow> nat \<Rightarrow> bool" where
  "compacted K k orig xs n \<longleftrightarrow>
     length xs = length orig \<and> n \<le> k \<and> take n xs = nths (take k orig) K \<and> drop k xs = drop k orig"

lemma compacted_init: "compacted K 0 xs xs 0"
  by (simp add: compacted_def)

lemma nths_snoc: "k < length xs \<Longrightarrow> nths (take (Suc k) xs) K = nths (take k xs) K @ (if k \<in> K then [xs ! k] else [])"
  by (simp add: take_Suc_conv_app_nth nths_append nths_singleton)

lemma compacted_skip: "compacted K k orig xs n \<Longrightarrow> k < length orig \<Longrightarrow> k \<notin> K \<Longrightarrow> compacted K (Suc k) orig xs n"
  by (auto simp: compacted_def nths_snoc) (metis drop_drop plus_1_eq_Suc add.commute)

lemma compacted_keep:
  assumes c: "compacted K k orig xs n" and k: "k < length orig" "k \<in> K"
  shows "compacted K (Suc k) orig (swap n k xs) (Suc n)"
proof -
  have len: "length xs = length orig" and n: "n \<le> k" and front: "take n xs = nths (take k orig) K"
    and rest: "drop k xs = drop k orig" using c by (simp_all add: compacted_def)
  have "xs ! j = orig ! j" if "k \<le> j" "j < length orig" for j
    using that rest len by (metis le_add_diff_inverse nth_drop order.trans less_imp_le_nat)
  then have at: "xs ! k = orig ! k" using k by simp
  have "take (Suc n) (swap n k xs) = take n xs @ [xs ! k]"
    using n k len by (intro nth_equalityI) (auto simp: swap_nth nth_append, metis le_antisym less_Suc_eq_le)
  moreover have "drop (Suc k) (swap n k xs) = drop (Suc k) orig"
  proof -
    have "drop (Suc k) (swap n k xs) = drop (Suc k) xs"
      using n k len by (intro nth_equalityI) (auto simp: swap_nth)
    also have "\<dots> = drop (Suc k) orig" using rest by (metis drop_drop plus_1_eq_Suc add.commute)
    finally show ?thesis .
  qed
  ultimately show ?thesis using n k len front at by (simp add: compacted_def nths_snoc)
qed

lemma swap_same [simp]: "swap i i xs = xs"
  by (simp add: swap_def)

lemma compact_fold:
  fixes n :: u32 and shape :: "shape_property list"
  assumes len: "length slots = length shape" and k: "k \<le> length shape"
  defines "K \<equiv> {i. i < length shape \<and> \<not> index_at_least n (sp_key (shape ! i))}"
  shows "\<exists>shape' slots' m. foldl (compact_step n) (shape, slots, 0) [0..<k] = (shape', slots', m) \<and>
    compacted K k shape shape' m \<and> compacted K k slots slots' m"
  using k
proof (induction k)
  case 0
  then show ?case by (simp add: compacted_init)
next
  case (Suc k)
  then obtain shape' slots' m where st: "foldl (compact_step n) (shape, slots, 0) [0..<k] = (shape', slots', m)"
    and c: "compacted K k shape shape' m" "compacted K k slots slots' m" by auto
  have k: "k < length shape" using Suc by simp
  have "drop k shape' = drop k shape" "length shape' = length shape" using c by (simp_all add: compacted_def)
  then have at: "shape' ! k = shape ! k" using k by (metis Cons_nth_drop_Suc list.inject)
  show ?case
  proof (cases "k \<in> K")
    case True
    then have "compact_step n (shape', slots', m) k = (swap m k shape', swap m k slots', Suc m)"
      using at by (simp add: compact_step_def K_def)
    then show ?thesis using st compacted_keep [OF c(1) k True] compacted_keep [OF c(2) _ True] k len by simp
  next
    case False
    then have "compact_step n (shape', slots', m) k = (shape', slots', m)"
      using at k by (simp add: compact_step_def K_def)
    then show ?thesis using st compacted_skip [OF c(1) k False] compacted_skip [OF c(2) _ False] k len by simp
  qed
qed

lemma zip_nths: "length xs = length ys \<Longrightarrow> zip (nths xs K) (nths ys K) = nths (zip xs ys) K"
  by (induction xs ys arbitrary: K rule: list_induct2) (simp_all add: nths_Cons)

lemma list_all2_nths: "list_all2 P xs ys \<Longrightarrow> list_all2 P (nths xs K) (nths ys K)"
  by (induction xs ys arbitrary: K rule: list_all2_induct) (simp_all add: nths_Cons)

lemma max_index_Some:
  "max_index is = Some i \<longleftrightarrow> is \<noteq> [] \<and> i = Max (set is)"
  by (cases "is") (auto simp: max_index_def Max.set_eq_fold simp del: list.set)

lemma truncate_entries:
  assumes wf: "record_wf r" and t: "truncate_array_indices n r = (tr, r')"
  shows "record_wf r' \<and> entries r' = filter (\<lambda>x. \<not> index_at_least (tr_final_length tr) (fst x)) (entries r) \<and>
    tr_removed tr = length (filter (\<lambda>x. index_at_least (tr_final_length tr) (fst x)) (entries r)) \<and>
    or_extensible r' = or_extensible r \<and> or_prototype r' = or_prototype r"
proof -
  define fl where "fl = tr_final_length tr"
  let ?K = "{i. i < length (or_shape r) \<and> \<not> index_at_least fl (sp_key (or_shape r ! i))}"
  obtain shape slots m where f: "foldl (compact_step fl) (or_shape r, or_slots r, 0) [0..<length (or_shape r)] = (shape, slots, m)"
    and c: "compacted ?K (length (or_shape r)) (or_shape r) shape m" "compacted ?K (length (or_shape r)) (or_slots r) slots m"
    using compact_fold [OF record_wf_length [OF wf], of "length (or_shape r)" fl] by auto
  have r': "r' = r\<lparr>or_shape := take m shape, or_slots := take m slots\<rparr>" "tr_removed tr = length (or_shape r) - m"
    using t f by (auto simp: truncate_array_indices_def Let_def fl_def split: prod.splits)
  have front: "take m shape = nths (or_shape r) ?K" "take m slots = nths (or_slots r) ?K" "m \<le> length shape"
    using c record_wf_length [OF wf] by (simp_all add: compacted_def)
  have filt: "nths (or_shape r) ?K = filter (\<lambda>p. \<not> index_at_least fl (sp_key p)) (or_shape r)"
    by (rule filter_eq_nths [symmetric])
  have "record_wf r'" using wf by (simp add: record_wf_def r' front list_all2_nths)
      (auto simp: filt distinct_map_filter list_all_iff)
  moreover have e: "entries r' = filter (\<lambda>x. \<not> index_at_least fl (fst x)) (entries r)"
  proof -
    have "entries r' = nths (entries r) ?K"
      using wf by (simp add: entries_def r' front zip_nths record_wf_length nths_map)
    also have "?K = {i. i < length (entries r) \<and> \<not> index_at_least fl (fst (entries r ! i))}"
      using entries_nth [OF wf] by (auto simp: length_entries [OF wf])
    finally show ?thesis by (simp add: filter_eq_nths)
  qed
  moreover have "tr_removed tr = length (filter (\<lambda>x. index_at_least fl (fst x)) (entries r))"
  proof -
    have "m = length (take m shape)" using front(3) by simp
    also have "\<dots> = length (entries r')" using \<open>record_wf r'\<close> by (simp add: length_entries r'(1))
    finally have "m = length (filter (\<lambda>x. \<not> index_at_least fl (fst x)) (entries r))" using e by simp
    moreover have "length (or_shape r) = length (filter (\<lambda>x. index_at_least fl (fst x)) (entries r)) +
      length (filter (\<lambda>x. \<not> index_at_least fl (fst x)) (entries r))"
      by (simp add: sum_length_filter_compl length_entries [OF wf])
    ultimately show ?thesis using r'(2) by simp
  qed
  ultimately show ?thesis by (simp add: fl_def r'(1))
qed

lemma index_bound: "key_valid (Key_Index i) \<longleftrightarrow> unat (index_get i) < 4294967295"
  by (auto simp: key_valid_def MAX_ARRAY_INDEX_def word_le_nat_alt)

lemma as_index_Some [simp]: "as_index key = Some i \<longleftrightarrow> key = Key_Index i"
  by (cases key) auto

lemma set_map_filter_iff: "y \<in> set (List.map_filter f xs) \<longleftrightarrow> (\<exists>x \<in> set xs. f x = Some y)"
  by (force simp: List.map_filter_def)

lemma saturating_add_index: "unat (w :: u32) < 4294967295 \<Longrightarrow> saturating_add w 1 = w + 1"
  by (simp add: saturating_add_def checked_add_def)

text \<open>The indices that stop a truncation: present, not below the requested length, not configurable.\<close>

definition blockers :: "(property_key \<rightharpoonup> Define_Property.own_property) \<Rightarrow> u32 \<Rightarrow> array_index set" where
  "blockers own n = {i. \<exists>p. own (Key_Index i) = Some p \<and> n \<le> index_get i \<and> \<not> is_configurable (own_layout p)}"

lemma own_layout_slot [simp]: "own_layout (slot_property l s) = l"
  by (cases s) simp_all

lemma blocking_indices:
  assumes "record_wf r"
  shows "set (List.map_filter (blocking_index n) (or_shape r)) = blockers (Object_Record.own_property r) n"
proof -
  have "i \<in> set (List.map_filter (blocking_index n) (or_shape r)) \<longleftrightarrow>
    (\<exists>p \<in> set (or_shape r). sp_key p = Key_Index i \<and> n \<le> index_get i \<and> \<not> is_configurable (sp_layout p))" for i
    unfolding set_map_filter_iff by (intro bex_cong refl) (auto simp: blocking_index_def split: option.splits if_splits)
  moreover have own: "Object_Record.own_property r (Key_Index i) = Some p \<longleftrightarrow>
    (\<exists>j < length (or_shape r). sp_key (or_shape r ! j) = Key_Index i \<and> p = slot_property (sp_layout (or_shape r ! j)) (or_slots r ! j))" for i p
  proof (cases "key_position (Key_Index i) r")
    case None
    then have "\<forall>j < length (or_shape r). sp_key (or_shape r ! j) \<noteq> Key_Index i"
      unfolding key_position_None own_keys_def by (metis in_set_conv_nth length_map nth_map)
    then show ?thesis using None by (auto simp: Object_Record.own_property_def)
  next
    case (Some k)
    then have "j < length (or_shape r) \<and> sp_key (or_shape r ! j) = Key_Index i \<longleftrightarrow> j = k" for j
      using key_position_Some [OF assms, of "Key_Index i" j] by auto
    then have "(\<exists>j < length (or_shape r). sp_key (or_shape r ! j) = Key_Index i \<and> p = slot_property (sp_layout (or_shape r ! j)) (or_slots r ! j))
      \<longleftrightarrow> p = slot_property (sp_layout (or_shape r ! k)) (or_slots r ! k)" by (simp add: conj_assoc [symmetric] del: conj_assoc)
    then show ?thesis using own_property_slot [OF Some] by auto
  qed
  moreover have "i \<in> blockers (Object_Record.own_property r) n \<longleftrightarrow>
    (\<exists>j < length (or_shape r). sp_key (or_shape r ! j) = Key_Index i \<and> n \<le> index_get i \<and> \<not> is_configurable (sp_layout (or_shape r ! j)))" for i
    unfolding blockers_def mem_Collect_eq own by (metis own_layout_slot)
  moreover have "(\<exists>p \<in> set (or_shape r). Q p) \<longleftrightarrow> (\<exists>j < length (or_shape r). Q (or_shape r ! j))" for Q
    by (metis in_set_conv_nth)
  ultimately show ?thesis by (intro set_eqI) simp
qed

lemma finite_blockers: "record_wf r \<Longrightarrow> finite (blockers (Object_Record.own_property r) n)"
  by (metis List.finite_set blocking_indices)

lemma truncate_length:
  assumes wf: "record_wf r" and t: "truncate_array_indices n r = (tr, r')"
  defines "B \<equiv> blockers (Object_Record.own_property r) n"
  shows "tr_blocked_index tr = (if B = {} then None else Some (Max B)) \<and>
    tr_final_length tr = (if B = {} then n else index_get (Max B) + 1) \<and> n \<le> tr_final_length tr"
proof -
  let ?is = "List.map_filter (blocking_index n) (or_shape r)"
  have set: "set ?is = B" using blocking_indices [OF wf] by (simp add: B_def)
  have blocked: "tr_blocked_index tr = max_index ?is"
    "tr_final_length tr = (case max_index ?is of None \<Rightarrow> n | Some i \<Rightarrow> saturating_add (index_get i) 1)"
    using t by (auto simp: truncate_array_indices_def Let_def split: prod.splits)
  show ?thesis
  proof (cases "B = {}")
    case True
    then have "?is = []" using set by simp
    then show ?thesis using True blocked by (simp add: max_index_def)
  next
    case False
    then have m: "max_index ?is = Some (Max B)" using set by (auto simp: max_index_Some)
    have "Max B \<in> B" using False finite_blockers [OF wf] by (simp add: B_def)
    then obtain p where p: "Object_Record.own_property r (Key_Index (Max B)) = Some p" "n \<le> index_get (Max B)"
      by (auto simp: B_def blockers_def)
    then have "Key_Index (Max B) \<in> set (own_keys r)" using own_property_dom [OF wf] by auto
    then have "key_valid (Key_Index (Max B))" using wf by (auto simp: record_wf_def own_keys_def list_all_iff)
    then have v: "unat (index_get (Max B)) < 4294967295" by (simp add: index_bound)
    then have "saturating_add (index_get (Max B)) 1 = index_get (Max B) + 1" by (rule saturating_add_index)
    moreover have "n \<le> index_get (Max B) + 1" using p(2) v by (simp add: word_le_nat_alt unat_word_ariths)
    ultimately show ?thesis using False blocked m by simp
  qed
qed

section \<open>Dense elements as entries\<close>

lemma has_indexed_property_own:
  assumes "record_wf r"
  shows "has_indexed_property r \<longleftrightarrow> (\<exists>i. Object_Record.own_property r (Key_Index i) \<noteq> None)"
proof -
  have "has_indexed_property r \<longleftrightarrow> (\<exists>p \<in> set (or_shape r). \<exists>i. sp_key p = Key_Index i)"
    by (auto simp: has_indexed_property_def list_ex_iff)
  also have "\<dots> \<longleftrightarrow> (\<exists>i. Key_Index i \<in> set (own_keys r))" unfolding own_keys_def set_map image_iff by metis
  finally show ?thesis using own_property_dom [OF assms] by simp
qed

definition default_property :: "stored_value \<Rightarrow> Define_Property.own_property" where
  "default_property v = OP_Data (PL_Data True True True) v"

definition dense_entries :: "stored_value option list \<Rightarrow> (property_key \<times> Define_Property.own_property) list" where
  "dense_entries elements =
     map (\<lambda>x. (Key_Index (ArrayIndex (word_of_nat (fst x))), default_property (the (snd x))))
       (filter (\<lambda>x. snd x \<noteq> None) (List.enumerate 0 elements))"

lemma dense_entries_snoc:
  "dense_entries (elements @ [e]) =
     dense_entries elements @ (case e of None \<Rightarrow> [] | Some v \<Rightarrow> [(Key_Index (ArrayIndex (word_of_nat (length elements))), default_property v)])"
  by (cases e) (simp_all add: dense_entries_def enumerate_append_eq)

lemma dense_entries_set:
  "(key, p) \<in> set (dense_entries elements) \<longleftrightarrow>
     (\<exists>k v. k < length elements \<and> elements ! k = Some v \<and> key = Key_Index (ArrayIndex (word_of_nat k)) \<and> p = default_property v)"
proof -
  have "(key, p) \<in> set (dense_entries elements) \<longleftrightarrow>
    (\<exists>x. x \<in> set (List.enumerate 0 elements) \<and> snd x \<noteq> None \<and>
       key = Key_Index (ArrayIndex (word_of_nat (fst x))) \<and> p = default_property (the (snd x)))"
    unfolding dense_entries_def set_map set_filter image_iff by blast
  also have "\<dots> \<longleftrightarrow> (\<exists>k v. k < length elements \<and> elements ! k = Some v \<and> key = Key_Index (ArrayIndex (word_of_nat k)) \<and> p = default_property v)"
    by (auto simp: in_set_enumerate_eq)
  finally show ?thesis .
qed

lemma word_of_nat_u32_inj: "j < 2 ^ 32 \<Longrightarrow> k < 2 ^ 32 \<Longrightarrow> (word_of_nat j :: u32) = word_of_nat k \<longleftrightarrow> j = k"
  by (metis unat_word_of_nat_u32)

lemma distinct_dense_entries:
  "length elements \<le> 4294967295 \<Longrightarrow> distinct (map fst (dense_entries elements))"
proof (induction elements rule: rev_induct)
  case (snoc e es)
  have "Key_Index (ArrayIndex (word_of_nat (length es))) \<notin> fst ` set (dense_entries es)"
    using snoc.prems by (auto simp: dense_entries_set word_of_nat_u32_inj)
  then show ?case using snoc by (cases e) (auto simp: dense_entries_snoc)
qed (simp add: dense_entries_def)

lemma dense_entries_lookup:
  assumes "length elements \<le> 4294967295"
  shows "map_of (dense_entries elements) key =
    (case as_index key of
       None \<Rightarrow> None
     | Some i \<Rightarrow> (case get elements (unat (index_get i)) of Some (Some v) \<Rightarrow> Some (default_property v) | _ \<Rightarrow> None))"
proof -
  have "map_of (dense_entries elements) key = Some p \<longleftrightarrow> (key, p) \<in> set (dense_entries elements)" for p
    using distinct_dense_entries [OF assms] by simp
  moreover have "(key, p) \<in> set (dense_entries elements) \<longleftrightarrow>
    (\<exists>i v. key = Key_Index i \<and> get elements (unat (index_get i)) = Some (Some v) \<and> p = default_property v)" for p
  proof -
    have "unat (word_of_nat k :: u32) = k" if "k < length elements" for k
      using that assms by (intro unat_word_of_nat_u32) simp
    then show ?thesis unfolding dense_entries_set get_eq_Some
      by (metis array_index.exhaust_sel array_index.sel word_of_nat_unat_u32)
  qed
  ultimately have "map_of (dense_entries elements) key = Some p \<longleftrightarrow>
    (\<exists>i v. key = Key_Index i \<and> get elements (unat (index_get i)) = Some (Some v) \<and> p = default_property v)" for p by simp
  then show ?thesis
    by (cases key; cases "map_of (dense_entries elements) key") (force split: option.splits)+
qed

lemma append_dense_entries:
  assumes wf: "record_wf r" and none: "\<not> has_indexed_property r" and len: "length elements \<le> 4294967295"
  shows "record_wf (append_dense_storage_as_sparse elements r) \<and>
    entries (append_dense_storage_as_sparse elements r) = entries r @ dense_entries elements \<and>
    or_extensible (append_dense_storage_as_sparse elements r) = or_extensible r \<and>
    or_prototype (append_dense_storage_as_sparse elements r) = or_prototype r"
  using len
proof (induction elements rule: rev_induct)
  case Nil
  then show ?case using wf by (simp add: append_dense_storage_as_sparse_def dense_entries_def)
next
  case (snoc e es)
  let ?r = "append_dense_storage_as_sparse es r"
  have IH: "record_wf ?r" "entries ?r = entries r @ dense_entries es" "or_extensible ?r = or_extensible r"
    "or_prototype ?r = or_prototype r" using snoc by simp_all
  have step: "append_dense_storage_as_sparse (es @ [e]) r = append_element ?r (length es, e)"
    by (simp add: append_dense_storage_as_sparse_def enumerate_append_eq)
  show ?case
  proof (cases e)
    case None
    then show ?thesis using IH step by (simp add: dense_entries_snoc)
  next
    case (Some v)
    let ?k = "Key_Index (ArrayIndex (word_of_nat (length es)))"
    have "?k \<notin> set (own_keys r)"
    proof
      assume "?k \<in> set (own_keys r)"
      then obtain p where "p \<in> set (or_shape r)" "sp_key p = ?k" by (auto simp: own_keys_def)
      then have "has_indexed_property r" by (force simp: has_indexed_property_def list_ex_iff)
      then show False using none by simp
    qed
    moreover have "?k \<notin> fst ` set (dense_entries es)"
      using snoc.prems by (auto simp: dense_entries_set word_of_nat_u32_inj)
    ultimately have "?k \<notin> set (own_keys ?r)"
      using map_fst_entries [OF IH(1)] map_fst_entries [OF wf] IH(2) by (metis Un_iff list.set_map map_append set_append)
    moreover have "key_valid ?k" unfolding index_bound
      using snoc.prems by (simp add: unat_word_of_nat_u32)
    ultimately have "record_wf r' \<and> entries r' = entries ?r @ [(?k, default_property v)] \<and>
      or_extensible r' = or_extensible ?r \<and> or_prototype r' = or_prototype ?r"
      if "append_slot (\<lambda>_ _. True) ?k (PL_Data True True True) (Slot_Data v) ?r = Some r'" for r'
      using append_slot_entries [OF IH(1) that] by (simp add: default_property_def)
    then show ?thesis using Some IH step
      by (simp add: append_slot_def try_reserve_data_def transition_shape_def dense_shape_property_def dense_entries_snoc)
  qed
qed

end
