(* ===== verification/Array_Elements.thy ===== *)
theory Array_Elements
  imports Object_Entries
begin

text \<open>
  The elements of an array, whichever storage holds them: an array refines the map from keys to own
  properties, and every storage operation is an update of that map.
\<close>

section \<open>Invariant and abstraction\<close>

abbreviation record_own :: "object_record \<Rightarrow> property_key \<Rightarrow> Define_Property.own_property option" where
  "record_own \<equiv> Object_Record.own_property"

definition array_object :: "array_state \<Rightarrow> object_record \<Rightarrow> heap_object" where
  "array_object a r = \<lparr>ho_record = r, ho_kind = Kind_Array a\<rparr>"

definition array_own :: "array_state \<Rightarrow> object_record \<Rightarrow> property_key \<Rightarrow> Define_Property.own_property option" where
  "array_own a r = array_own_property (array_object a r)"

definition present_count :: "stored_value option list \<Rightarrow> nat" where
  "present_count elements = length (filter (\<lambda>e. e \<noteq> None) elements)"

text \<open>
  Indices are below the bound \<open>N\<close>, elements and indexed properties never coexist, and the count of
  present elements is exact.
\<close>

definition array_inv :: "nat \<Rightarrow> array_state \<Rightarrow> object_record \<Rightarrow> bool" where
  "array_inv N a r \<longleftrightarrow>
     record_wf r \<and> N \<le> 4294967295 \<and> (\<forall>i. record_own r (Key_Index i) \<noteq> None \<longrightarrow> unat (index_get i) < N) \<and>
     (case as_storage a of
        Sparse \<Rightarrow> True
      | Dense elements present \<Rightarrow>
          \<not> has_indexed_property r \<and> length elements \<le> N \<and> present = present_count elements)"

definition length_value :: "u32 \<Rightarrow> stored_value" where
  "length_value n = SV_Number (number_from_f64 (f64_of_int (uint n)))"

definition length_property :: "bool \<Rightarrow> u32 \<Rightarrow> Define_Property.own_property" where
  "length_property writable n = OP_Data (PL_Data writable False False) (length_value n)"

lemma ho_array_state_object [simp]: "ho_array_state (array_object a r) = Some a" "ho_record (array_object a r) = r"
  "ho_kind (array_object a r) = Kind_Array a"
  by (simp_all add: ho_array_state_def array_object_def)

lemma array_object_fold: "\<lparr>ho_record = r, ho_kind = Kind_Array a\<rparr> = array_object a r"
  by (simp add: array_object_def)

lemma array_object_update [simp]:
  "(array_object a r)\<lparr>ho_kind := Kind_Array a'\<rparr> = array_object a' r"
  "(array_object a r)\<lparr>ho_record := r'\<rparr> = array_object a r'"
  by (simp_all add: array_object_def)

lemma u32_le_max [simp]: "unat (w :: u32) \<le> 4294967295"
  using unat_u32_bound [of w] by linarith

lemma array_own_atom [simp]: "array_own a r (Key_Atom x k) = record_own r (Key_Atom x k)"
  by (simp add: array_own_def array_own_property_def)

lemma array_own_length [simp]: "array_own a r length_key = record_own r length_key"
  by (simp add: length_key_def)

lemma array_own_index:
  assumes "record_wf r"
  shows "array_own a r (Key_Index i) =
    (case dense_value i a of Some v \<Rightarrow> Some (default_property v) | None \<Rightarrow> record_own r (Key_Index i))"
  by (simp add: array_own_def array_own_property_def default_property_def split: option.splits)

lemma array_own_sparse: "as_storage a = Sparse \<Longrightarrow> array_own a r = record_own r"
proof
  fix key
  assume "as_storage a = Sparse"
  then show "array_own a r key = record_own r key"
    by (cases key) (simp_all add: array_own_def array_own_property_def dense_value_def)
qed

lemma array_own_dense:
  assumes "array_inv N a r" "as_storage a = Dense elements present"
  shows "array_own a r key = (record_own r ++ map_of (dense_entries elements)) key"
proof (cases key)
  case (Key_Index i)
  have len: "length elements \<le> 4294967295" and wf: "record_wf r" and none: "\<not> has_indexed_property r"
    using assms by (auto simp: array_inv_def)
  have "record_own r (Key_Index i) = None" using none has_indexed_property_own [OF wf] by auto
  then show ?thesis using Key_Index array_own_index [OF wf] assms(2)
    by (auto simp: dense_value_def map_add_def dense_entries_lookup [OF len] split: option.splits)
next
  case (Key_Atom x k)
  have len: "length elements \<le> 4294967295" using assms by (auto simp: array_inv_def)
  then show ?thesis using Key_Atom by (simp add: map_add_def dense_entries_lookup)
qed

lemma record_no_index: "record_wf r \<Longrightarrow> \<not> has_indexed_property r \<Longrightarrow> record_own r (Key_Index i) = None"
  using has_indexed_property_own by auto

lemma array_inv_mono: "array_inv N a r \<Longrightarrow> N \<le> M \<Longrightarrow> M \<le> 4294967295 \<Longrightarrow> array_inv M a r"
  unfolding array_inv_def by (auto split: array_storage.splits)

lemma array_inv_wf: "array_inv N a r \<Longrightarrow> record_wf r"
  by (simp add: array_inv_def)

lemma array_own_below:
  assumes "array_inv N a r" "array_own a r (Key_Index i) \<noteq> None"
  shows "unat (index_get i) < N"
  using assms array_own_index [OF array_inv_wf [OF assms(1)], of a i]
  by (auto simp: array_inv_def dense_value_def split: option.splits array_storage.splits)

lemma array_own_well_formed: "array_inv N a r \<Longrightarrow> array_own a r key = Some p \<Longrightarrow> own_property_wf p"
  using own_property_well_formed [of r key p]
  by (auto simp: array_inv_def array_own_def array_own_property_def split: option.splits)

definition array_count :: "array_state \<Rightarrow> object_record \<Rightarrow> nat" where
  "array_count a r = object_property_count (array_object a r)"

lemma array_count_eq: "record_wf r \<Longrightarrow> array_count a r = length (entries r) + dense_property_count a"
  by (simp add: array_count_def object_property_count_def property_count_def length_entries record_wf_length)

section \<open>Length\<close>

lemma array_update_length:
  assumes inv: "array_inv N a r" and slot: "record_own r length_key = Some (length_property w m)" and N: "N \<le> unat n"
  shows "\<exists>r'. replace_existing_data length_key (length_value n) r = (True, r') \<and>
    array_inv (unat n) (a\<lparr>as_length := n\<rparr>) r' \<and> record_own r' length_key = Some (length_property w n) \<and>
    array_own (a\<lparr>as_length := n\<rparr>) r' = (array_own a r)(length_key \<mapsto> length_property w n) \<and>
    array_count (a\<lparr>as_length := n\<rparr>) r' = array_count a r \<and>
    or_extensible r' = or_extensible r \<and> or_prototype r' = or_prototype r"
proof -
  have wf: "record_wf r" using inv by (simp add: array_inv_def)
  obtain r' where r': "replace_existing_data length_key (length_value n) r = (True, r')" "record_wf r'"
    "record_own r' = (record_own r)(length_key \<mapsto> length_property w n)" "own_keys r' = own_keys r"
    "or_extensible r' = or_extensible r" "or_prototype r' = or_prototype r"
    using replace_existing_data_as_property [OF wf, of length_key _ _ "length_value n"] slot
    by (auto simp: length_property_def)
  have idx: "record_own r' (Key_Index i) = record_own r (Key_Index i)" for i
    using r'(3) by (simp add: length_key_def)
  have inv': "array_inv (unat n) (a\<lparr>as_length := n\<rparr>) r'"
    using inv N r'(2) idx has_indexed_property_own [OF wf] has_indexed_property_own [OF r'(2)]
      unat_u32_bound [of n] by (auto simp: array_inv_def split: array_storage.splits)
  have "array_own (a\<lparr>as_length := n\<rparr>) r' key = ((array_own a r)(length_key \<mapsto> length_property w n)) key" for key
  proof (cases key)
    case (Key_Index i)
    then show ?thesis using array_own_index [OF wf] array_own_index [OF r'(2)] idx
      by (simp add: length_key_def dense_value_def split: option.splits)
  next
    case (Key_Atom x k)
    then show ?thesis using r'(3) by simp
  qed
  moreover have "array_count (a\<lparr>as_length := n\<rparr>) r' = array_count a r"
    using r'(2,4) wf by (simp add: array_count_eq dense_property_count_def length_entries) (metis length_map own_keys_def)
  ultimately show ?thesis using r' inv' by (intro exI [of _ r']) (auto simp: fun_eq_iff)
qed

section \<open>Storage\<close>

lemma length_dense_entries: "length (dense_entries elements) = present_count elements"
proof -
  have "length (filter (\<lambda>x. snd x \<noteq> None) (List.enumerate n elements)) = length (filter (\<lambda>e. e \<noteq> None) elements)" for n
    by (induction elements arbitrary: n) auto
  then show ?thesis by (simp add: dense_entries_def present_count_def)
qed

lemma array_transition:
  assumes inv: "array_inv N a r" and t: "transition_array_to_sparse alloc (array_object a r) = Inr (b, h)"
  shows "\<exists>r'. h = array_object (a\<lparr>as_storage := Sparse\<rparr>) r' \<and> array_inv N (a\<lparr>as_storage := Sparse\<rparr>) r' \<and>
    record_own r' = array_own a r \<and> array_count (a\<lparr>as_storage := Sparse\<rparr>) r' = array_count a r \<and>
    or_extensible r' = or_extensible r \<and> or_prototype r' = or_prototype r"
proof (cases "as_storage a")
  case Sparse
  then have same: "a\<lparr>as_storage := Sparse\<rparr> = a" by (cases a) simp
  have "h = array_object a r" using t Sparse by (simp add: transition_array_to_sparse_def is_dense_def)
  then show ?thesis unfolding same using inv Sparse by (intro exI [of _ r]) (simp add: array_own_sparse)
next
  case (Dense elements present)
  let ?r = "append_dense_storage_as_sparse elements r"
  have h: "h = array_object (a\<lparr>as_storage := Sparse\<rparr>) ?r"
    using t Dense by (auto simp: transition_array_to_sparse_def is_dense_def take_dense_elements_def array_object_fold split: if_splits)
  have wf: "record_wf r" and none: "\<not> has_indexed_property r" and len: "length elements \<le> N" "N \<le> 4294967295"
    and p: "present = present_count elements" using inv Dense by (auto simp: array_inv_def)
  note e = append_dense_entries [OF wf none order.trans [OF len]]
  have own: "record_own ?r key = array_own a r key" for key
  proof -
    have "record_own ?r key = map_of (entries r @ dense_entries elements) key"
      using e by (simp add: own_property_map_of)
    also have "\<dots> = (map_of (dense_entries elements) ++ map_of (entries r)) key" by simp
    also have "\<dots> = (map_of (entries r) ++ map_of (dense_entries elements)) key"
    proof (cases key)
      case (Key_Index i)
      then show ?thesis using record_no_index [OF wf none] own_property_map_of [OF wf]
        by (simp add: map_add_def split: option.splits)
    next
      case (Key_Atom x k)
      then show ?thesis using dense_entries_lookup [OF order.trans [OF len], of key] by (simp add: map_add_def split: option.splits)
    qed
    finally show ?thesis using array_own_dense [OF inv Dense] 
      by (simp add: map_add_def own_property_map_of [OF wf] split: option.splits)
  qed
  have below: "\<forall>i. record_own ?r (Key_Index i) \<noteq> None \<longrightarrow> unat (index_get i) < N"
    unfolding own using array_own_below [OF inv] by blast
  then have "array_inv N (a\<lparr>as_storage := Sparse\<rparr>) ?r" using e len by (simp add: array_inv_def)
  moreover have "array_count (a\<lparr>as_storage := Sparse\<rparr>) ?r = array_count a r"
    using e wf p Dense by (simp add: array_count_eq dense_property_count_def length_dense_entries)
  ultimately show ?thesis using h own e by (intro exI [of _ ?r]) auto
qed

lemma present_count_update:
  assumes "i < length elements"
  shows "present_count (elements[i := e]) + (if elements ! i = None then 0 else 1) =
    present_count elements + (if e = None then 0 else 1)"
proof -
  have "elements = take i elements @ elements ! i # drop (Suc i) elements" using assms by (simp add: id_take_nth_drop)
  then have "present_count elements = present_count (take i elements @ elements ! i # drop (Suc i) elements)" by simp
  then show ?thesis using assms by (simp add: present_count_def upd_conv_take_nth_drop)
qed

lemma present_count_append [simp]: "present_count (xs @ replicate n None) = present_count xs"
  by (simp add: present_count_def)

lemma array_store_dense:
  assumes inv: "array_inv N a r" and d: "as_storage a = Dense elements present" and v: "key_valid (Key_Index i)"
    and s: "try_store_dense alloc i v a = Some (Inr (created, a'))"
  shows "array_inv (max N (Suc (unat (index_get i)))) a' r \<and> as_length a' = as_length a \<and> is_dense a' \<and>
    array_own a' r = (array_own a r)(Key_Index i \<mapsto> default_property v) \<and>
    (created \<longleftrightarrow> array_own a r (Key_Index i) = None) \<and>
    array_count a' r = array_count a r + (if created then 1 else 0)"
proof -
  let ?k = "unat (index_get i)"
  let ?e = "elements @ replicate (?k + 1 - length elements) None"
  have a': "a' = a\<lparr>as_storage := Dense (?e[?k := Some v]) (if created then present + 1 else present)\<rparr>"
    and c: "created \<longleftrightarrow> ?e ! ?k = None"
    using s d by (auto simp: try_store_dense_def Let_def split: if_splits)
  have wf: "record_wf r" and none: "\<not> has_indexed_property r" and len: "length elements \<le> N" "N \<le> 4294967295"
    and p: "present = present_count elements" using inv d by (auto simp: array_inv_def)
  have k: "?k < length ?e" "length ?e = max (length elements) (Suc ?k)" by auto
  have b: "?k < 4294967295" using v by (simp add: index_bound)
  have count: "(if created then present + 1 else present) = present_count (?e[?k := Some v])"
    using present_count_update [OF k(1), of "Some v"] c p by (auto split: if_splits)
  have inv': "array_inv (max N (Suc ?k)) a' r"
    using inv d count k(2) b len by (auto simp: array_inv_def a')
  have dv: "dense_value j a' = (if j = i then Some v else dense_value j a)" for j
  proof (cases "j = i")
    case False
    then have "unat (index_get j) \<noteq> ?k" by (metis array_index.expand word_unat_eq_iff)
    then show ?thesis using d False
      by (auto simp: dense_value_def a' get_def nth_list_update nth_append split: if_splits)
  next
    case True
    then show ?thesis by (auto simp: dense_value_def a' get_def nth_list_update split: option.splits)
  qed
  have own: "array_own a' r key = ((array_own a r)(Key_Index i \<mapsto> default_property v)) key" for key
    by (cases key) (simp_all add: array_own_index [OF wf] dv)
  moreover have "created \<longleftrightarrow> array_own a r (Key_Index i) = None"
    using c d record_no_index [OF wf none] by (auto simp: array_own_index [OF wf] dense_value_def get_def nth_append split: option.splits if_splits)
  moreover have "array_count a' r = array_count a r + (if created then 1 else 0)"
    using d by (simp add: array_count_eq [OF wf] dense_property_count_def a')
  ultimately show ?thesis using inv' by (auto simp: a' is_dense_def fun_eq_iff)
qed

lemma array_restore_dense:
  assumes inv: "array_inv N a r" and none: "\<not> has_indexed_property r" and v: "key_valid (Key_Index i)"
    and s: "try_restore_dense alloc i a = Inr (True, a')"
  shows "array_inv (max N (Suc (unat (index_get i)))) a' r \<and> as_length a' = as_length a \<and> is_dense a' \<and>
    array_own a' r = array_own a r \<and> array_count a' r = array_count a r"
proof -
  let ?k = "unat (index_get i)"
  have sp: "as_storage a = Sparse" and a': "a' = a\<lparr>as_storage := Dense (replicate (Suc ?k) None) 0\<rparr>"
    using s by (auto simp: try_restore_dense_def Let_def split: array_storage.splits if_splits)
  have wf: "record_wf r" using inv by (simp add: array_inv_def)
  have dv: "dense_value j a' = None" "dense_value j a = None" for j
    by (auto simp: dense_value_def a' sp get_def simp del: replicate.simps split: option.splits)
  have "array_own a' r key = array_own a r key" for key
    by (cases key) (simp_all add: array_own_index [OF wf] dv)
  moreover have "array_inv (max N (Suc ?k)) a' r"
    using inv none v [unfolded index_bound] by (auto simp: array_inv_def a' present_count_def)
  ultimately show ?thesis
    by (auto simp: array_count_eq [OF wf] dense_property_count_def sp a' is_dense_def)
qed

lemma array_truncate_dense:
  assumes inv: "array_inv N a r" and d: "is_dense a" and t: "truncate_dense n a = (removed, a')"
  shows "array_inv (unat n) a' r \<and> as_length a' = as_length a \<and>
    array_own a' r = (\<lambda>key. if index_at_least n key then None else array_own a r key) \<and>
    array_count a r = array_count a' r + removed"
proof -
  obtain elements present where e: "as_storage a = Dense elements present"
    using d by (auto simp: is_dense_def split: array_storage.splits)
  have wf: "record_wf r" and none: "\<not> has_indexed_property r" and p: "present = present_count elements"
    using inv e by (auto simp: array_inv_def)
  have split: "present_count elements = present_count (take (unat n) elements) + present_count (drop (unat n) elements)"
    unfolding present_count_def by (metis append_take_drop_id filter_append length_append)
  have a': "a' = a\<lparr>as_storage := Dense (take (unat n) elements) (present_count (take (unat n) elements))\<rparr>"
    and r: "removed = present_count (drop (unat n) elements)"
  proof -
    have "removed = present_count (drop (unat n) elements) \<and>
      a' = a\<lparr>as_storage := Dense (take (unat n) elements) (present_count (take (unat n) elements))\<rparr>"
    proof (cases "length elements \<le> unat n")
      case True
      moreover have "a\<lparr>as_storage := Dense elements present\<rparr> = a" using e by (cases a) simp
      ultimately show ?thesis using t e p by (simp add: truncate_dense_def present_count_def)
    next
      case False
      then have "removed = present_count (drop (unat n) elements)"
        "a' = a\<lparr>as_storage := Dense (take (unat n) elements) (present - removed)\<rparr>"
        using t e by (auto simp: truncate_dense_def Let_def present_count_def)
      then show ?thesis using p split by simp
    qed
    then show "a' = a\<lparr>as_storage := Dense (take (unat n) elements) (present_count (take (unat n) elements))\<rparr>"
      "removed = present_count (drop (unat n) elements)" by simp_all
  qed
  have dv: "dense_value j a' = (if n \<le> index_get j then None else dense_value j a)" for j
    using e by (auto simp: dense_value_def a' get_def word_le_nat_alt)
  have "array_own a' r key = (if index_at_least n key then None else array_own a r key)" for key
    by (cases key) (simp_all add: array_own_index [OF wf] dv index_at_least_def record_no_index [OF wf none])
  moreover have "array_inv (unat n) a' r"
    using inv e none record_no_index [OF wf none] unat_u32_bound [of n] by (auto simp: array_inv_def a')
  moreover have "array_count a r = array_count a' r + removed"
    using e p split r by (simp add: array_count_eq [OF wf] dense_property_count_def a')
  ultimately show ?thesis by (simp add: a' fun_eq_iff)
qed

lemma array_truncate_sparse:
  assumes inv: "array_inv N a r" and s: "\<not> is_dense a" and t: "truncate_array_indices n r = (tr, r')"
  shows "array_inv (unat (tr_final_length tr)) a r' \<and>
    array_own a r' = (\<lambda>key. if index_at_least (tr_final_length tr) key then None else array_own a r key) \<and>
    array_count a r = array_count a r' + tr_removed tr \<and>
    or_extensible r' = or_extensible r \<and> or_prototype r' = or_prototype r"
proof -
  have sp: "as_storage a = Sparse" using s by (simp add: is_dense_def split: array_storage.splits)
  have wf: "record_wf r" using inv by (simp add: array_inv_def)
  let ?f = "tr_final_length tr"
  note e = truncate_entries [OF wf t]
  have own: "record_own r' key = (if index_at_least ?f key then None else record_own r key)" for key
    using e map_of_filter_key [of "\<lambda>k. \<not> index_at_least ?f k" "entries r" key] by (simp add: own_property_map_of wf)
  have "array_inv (unat ?f) a r'" using e own unat_u32_bound [of ?f]
    by (auto simp: array_inv_def sp index_at_least_def word_le_nat_alt split: if_splits)
  moreover have "length (entries r) = length (filter (\<lambda>x. \<not> index_at_least ?f (fst x)) (entries r)) +
    length (filter (\<lambda>x. index_at_least ?f (fst x)) (entries r))"
    by (simp add: sum_length_filter_compl add.commute)
  ultimately show ?thesis using e own by (simp add: array_own_sparse [OF sp] array_count_eq wf fun_eq_iff)
qed

section \<open>Elements in the shape\<close>

lemma array_inv_sparse_update:
  assumes inv: "array_inv N a r" and wf: "record_wf r'" and own: "record_own r' = (record_own r)(key \<mapsto> p)"
    and free: "as_storage a = Sparse \<or> as_index key = None"
    and b: "\<forall>i. key = Key_Index i \<longrightarrow> unat (index_get i) < M" "N \<le> M" "M \<le> 4294967295"
  shows "array_inv M a r' \<and> array_own a r' = (array_own a r)(key \<mapsto> p)"
proof -
  have wf0: "record_wf r" using inv by (simp add: array_inv_def)
  have none: "as_storage a \<noteq> Sparse \<Longrightarrow> has_indexed_property r' = has_indexed_property r"
    using free own by (auto simp: has_indexed_property_own wf wf0)
  have "array_own a r' k = ((array_own a r)(key \<mapsto> p)) k" for k
  proof (cases "as_storage a = Sparse")
    case False
    then show ?thesis using free own
      by (cases k; cases key) (simp_all add: array_own_index wf wf0 split: option.splits)
  qed (simp add: array_own_sparse own)
  moreover have "array_inv M a r'"
    using inv wf own b none by (auto simp: array_inv_def split: array_storage.splits if_splits)
  ultimately show ?thesis by auto
qed

end
