(* ===== verification/Array_Exotic.thy ===== *)
theory Array_Exotic
  imports Object_Heap Array_Elements Arena_Store
begin

text \<open>
  Definition of array elements and writes of the array length, against the exotic array of
  ECMAScript: a map from keys to own properties whose \<^verbatim>\<open>length\<close> is above every index.
\<close>

section \<open>Running operations on one array\<close>

lemmas heap_op_defs = hbind_def hreturn_def hfail_def hmodify_def hread_def invariant_violation_def mark_collection_pending_def

definition holds_array :: "heap \<Rightarrow> id \<Rightarrow> array_state \<Rightarrow> object_record \<Rightarrow> bool" where
  "holds_array s x a r \<longleftrightarrow> arena_inv (hp_objects s) \<and> arena_get (hp_objects s) x = Some (array_object a r)"

definition upd :: "id \<Rightarrow> array_state \<Rightarrow> object_record \<Rightarrow> heap \<Rightarrow> heap" where
  "upd x a r s = s\<lparr>hp_objects := the (arena_set (hp_objects s) x (array_object a r))\<rparr>"

lemma arena_set_live:
  assumes "arena_get a i = Some u"
  shows "arena_set a i v = Some (a\<lparr>ar_slots := (ar_slots a)[id_index i := (ar_slots a ! id_index i)\<lparr>slot_state := Occupied v\<rparr>]\<rparr>)"
    and "id_index i < length (ar_slots a)" "slot_state (ar_slots a ! id_index i) = Occupied u"
  using assms by (auto simp: arena_get_slot slot_value_def arena_set_def get_def split: if_splits slot_state.splits)

lemma arena_set_set: "arena_get a i = Some u \<Longrightarrow> arena_get b i = Some v \<Longrightarrow> arena_set a i v = Some b \<Longrightarrow> arena_set b i w = arena_set a i w"
  using arena_set_live [of a i u] arena_set_live [of b i v] by auto

lemma arena_set_same: "arena_get a i = Some u \<Longrightarrow> arena_set a i u = Some a"
proof -
  assume live: "arena_get a i = Some u"
  have "(ar_slots a ! id_index i)\<lparr>slot_state := Occupied u\<rparr> = ar_slots a ! id_index i"
    using arena_set_live(3) [OF live] by (cases "ar_slots a ! id_index i") simp
  then show ?thesis using arena_set_live(1) [OF live, of u] by simp
qed

lemma holds_upd:
  assumes "holds_array s x a r"
  shows "put_heap_object x (array_object a' r') s = (Inr (), upd x a' r' s)"
    "holds_array (upd x a' r' s) x a' r'"
    "upd x a'' r'' (upd x a' r' s) = upd x a'' r'' s"
    "y \<noteq> x \<Longrightarrow> arena_get (hp_objects (upd x a' r' s)) y = arena_get (hp_objects s) y"
proof -
  obtain b where b: "arena_set (hp_objects s) x (array_object a' r') = Some b"
    using assms arena_set_live(1) [of "hp_objects s" x "array_object a r"] by (simp add: holds_array_def)
  have inv: "arena_inv (hp_objects s)" using assms by (simp add: holds_array_def)
  show "put_heap_object x (array_object a' r') s = (Inr (), upd x a' r' s)"
    "holds_array (upd x a' r' s) x a' r'"
    "y \<noteq> x \<Longrightarrow> arena_get (hp_objects (upd x a' r' s)) y = arena_get (hp_objects s) y"
    using b arena_set_law [OF inv b] by (simp_all add: put_heap_object_def upd_def holds_array_def)
  show "upd x a'' r'' (upd x a' r' s) = upd x a'' r'' s"
    using assms b arena_set_set [OF _ _ b] arena_set_law [OF inv b] by (simp add: upd_def holds_array_def)
qed

lemma holds_array_ops:
  assumes "holds_array s x a r"
  shows "heap_object_at e x s = (Inr (array_object a r), s)" "live_array x s = (Inr (array_object a r), s)"
    "arena_get (hp_objects s) x = Some (array_object a r)" "heap_record (Ref_Object x) s = (Inr r, s)"
    "put_heap_record (Ref_Object x) r' s = (Inr (), upd x a r' s)"
  using assms holds_upd(1) [OF assms]
  by (simp_all add: heap_object_at_def live_array_def holds_array_def heap_record_def put_heap_record_def)

lemma upd_frame [simp]:
  "hp_object_properties (upd x a r s) = hp_object_properties s"
  "hp_max_object_properties (upd x a r s) = hp_max_object_properties s"
  "hp_functions (upd x a r s) = hp_functions s" "hp_cells (upd x a r s) = hp_cells s"
  by (simp_all add: upd_def)

lemma upd_scalar [simp]:
  "upd x a r (s\<lparr>hp_collection_pending := b\<rparr>) = (upd x a r s)\<lparr>hp_collection_pending := b\<rparr>"
  "upd x a r (s\<lparr>hp_object_properties := n\<rparr>) = (upd x a r s)\<lparr>hp_object_properties := n\<rparr>"
  by (simp_all add: upd_def)

lemma holds_scalar [simp]:
  "holds_array (s\<lparr>hp_collection_pending := b\<rparr>) x a r = holds_array s x a r"
  "holds_array (s\<lparr>hp_object_properties := n\<rparr>) x a r = holds_array s x a r"
  by (simp_all add: holds_array_def)

section \<open>The array a script sees\<close>

text \<open>A well-formed array with its length and whether the length can be written.\<close>

definition array_wf :: "array_state \<Rightarrow> object_record \<Rightarrow> bool \<Rightarrow> bool" where
  "array_wf a r w \<longleftrightarrow>
     array_inv (unat (as_length a)) a r \<and> record_own r length_key = Some (length_property w (as_length a))"

definition extended_length :: "u32 \<Rightarrow> property_key \<Rightarrow> u32 option" where
  "extended_length n key =
     (case as_index key of None \<Rightarrow> None | Some i \<Rightarrow> if n \<le> index_get i then Some (index_get i + 1) else None)"

definition es_extend :: "bool \<Rightarrow> u32 \<Rightarrow> property_key \<Rightarrow> (property_key \<rightharpoonup> Define_Property.own_property) \<Rightarrow> (property_key \<rightharpoonup> Define_Property.own_property)" where
  "es_extend w n key own =
     (case extended_length n key of None \<Rightarrow> own | Some m \<Rightarrow> own(length_key \<mapsto> length_property w m))"

text \<open>The definition of an element on the exotic array, after validation.\<close>

definition es_array_define ::
  "(property_key \<rightharpoonup> Define_Property.own_property) \<Rightarrow> bool \<Rightarrow> bool \<Rightarrow> u32 \<Rightarrow> property_key \<Rightarrow> Define_Property.own_property \<Rightarrow>
     array_define_outcome \<times> (property_key \<rightharpoonup> Define_Property.own_property)" where
  "es_array_define own extensible w n key p =
     (if extended_length n key \<noteq> None \<and> \<not> w then (Define_ReadOnlyLength, own)
      else if own key = None \<and> \<not> extensible then (Define_NonExtensible, own)
      else (Define_Complete, es_extend w n key (own(key \<mapsto> p))))"

text \<open>
  A definition that \<^verbatim>\<open>try_store_new_dense_array_property\<close> loses: a default element at or above the gap on
  an array whose storage is sparse while its record has no indexed property.
\<close>

definition loses_element :: "array_state \<Rightarrow> object_record \<Rightarrow> property_key \<Rightarrow> Define_Property.own_property \<Rightarrow> bool" where
  "loses_element a r key p \<longleftrightarrow>
     (case as_index key of
        None \<Rightarrow> False
      | Some i \<Rightarrow>
          is_sparse a \<and> \<not> has_indexed_property r \<and> default_dense_data_value p \<noteq> None \<and>
          MAX_DENSE_ARRAY_GAP \<le> unat (index_get i))"

lemma update_array_length_run:
  assumes h: "holds_array s x a r" and inv: "array_inv N a r"
    and slot: "record_own r length_key = Some (length_property w m)" and N: "N \<le> unat n"
  shows "\<exists>r'. update_array_length x n s = (Inr (), upd x (a\<lparr>as_length := n\<rparr>) r' s) \<and> array_wf (a\<lparr>as_length := n\<rparr>) r' w \<and>
    array_own (a\<lparr>as_length := n\<rparr>) r' = (array_own a r)(length_key \<mapsto> length_property w n) \<and>
    array_count (a\<lparr>as_length := n\<rparr>) r' = array_count a r \<and>
    or_extensible r' = or_extensible r \<and> or_prototype r' = or_prototype r"
proof -
  obtain r' where r': "replace_existing_data length_key (length_value n) r = (True, r')"
    "array_inv (unat n) (a\<lparr>as_length := n\<rparr>) r'" "record_own r' length_key = Some (length_property w n)"
    "array_own (a\<lparr>as_length := n\<rparr>) r' = (array_own a r)(length_key \<mapsto> length_property w n)"
    "array_count (a\<lparr>as_length := n\<rparr>) r' = array_count a r" "or_extensible r' = or_extensible r" "or_prototype r' = or_prototype r"
    using array_update_length [OF inv slot N] by blast
  have "update_array_length x n s = (Inr (), upd x (a\<lparr>as_length := n\<rparr>) r' s)"
    using r'(1) [unfolded length_value_def] holds_upd [OF h] holds_upd(1) [OF holds_upd(2) [OF h]]
    by (simp add: update_array_length_def hbind_def holds_array_ops [OF h])
  then show ?thesis using r' by (intro exI [of _ r']) (simp add: array_wf_def)
qed

lemma extended_length_key:
  assumes "key_valid key"
  shows "(case as_index key of None \<Rightarrow> None | Some i \<Rightarrow> if n \<le> index_get i then Some (saturating_add (index_get i) 1) else None) =
    extended_length n key"
  using assms by (cases key) (auto simp: extended_length_def index_bound saturating_add_index)

lemma extend_array_length_run:
  assumes h: "holds_array s x a r" and inv: "array_inv (case extended_length (as_length a) key of None \<Rightarrow> unat (as_length a) | Some m \<Rightarrow> unat m) a r"
    and slot: "record_own r length_key = Some (length_property w (as_length a))"
  shows "\<exists>a' r'. extend_array_length x (extended_length (as_length a) key) s = (Inr (), upd x a' r' s) \<and> array_wf a' r' w \<and>
    array_own a' r' = es_extend w (as_length a) key (array_own a r) \<and> array_count a' r' = array_count a r \<and>
    or_extensible r' = or_extensible r \<and> or_prototype r' = or_prototype r"
proof (cases "extended_length (as_length a) key")
  case None
  have "upd x a r s = s" using h arena_set_same [of "hp_objects s"] by (simp add: holds_array_def upd_def)
  then show ?thesis using None assms
    by (intro exI [of _ a] exI [of _ r]) (simp add: extend_array_length_def hreturn_def array_wf_def es_extend_def)
next
  case (Some m)
  then show ?thesis using update_array_length_run [OF h _ slot, of "unat m" m] inv
    by (auto simp: extend_array_length_def es_extend_def)
qed

section \<open>Definition of an element\<close>

lemma transition_run:
  assumes h: "holds_array s x a r" and inv: "array_inv N a r"
  shows "heap_transition_array_to_sparse alloc x s = (Inl (EE_AllocationFailed Res_ObjectProperties 1), s) \<or>
    (\<exists>r'. heap_transition_array_to_sparse alloc x s = (Inr (), upd x (a\<lparr>as_storage := Sparse\<rparr>) r' s) \<and>
       array_inv N (a\<lparr>as_storage := Sparse\<rparr>) r' \<and> record_own r' = array_own a r \<and>
       array_count (a\<lparr>as_storage := Sparse\<rparr>) r' = array_count a r \<and>
       or_extensible r' = or_extensible r \<and> or_prototype r' = or_prototype r)"
proof (cases "transition_array_to_sparse alloc (array_object a r)")
  case (Inl u)
  then show ?thesis by (simp add: heap_transition_array_to_sparse_def hbind_def commit_array_store_def hfail_def holds_array_ops [OF h])
next
  case (Inr y)
  obtain b h' where t: "transition_array_to_sparse alloc (array_object a r) = Inr (b, h')" using Inr by (cases y) auto
  then show ?thesis using array_transition [OF inv t] holds_upd(1) [OF h]
    by (auto simp: heap_transition_array_to_sparse_def hbind_def commit_array_store_def hreturn_def holds_array_ops [OF h])
qed

lemma restore_run:
  assumes h: "holds_array s x a r" and inv: "array_inv N a r" and p: "own_property_wf p"
    and key: "record_own r key \<noteq> None" and free: "as_storage a = Sparse \<or> as_index key = None"
  shows "\<exists>r'. restore_array_property x key p s = (Inr (), (upd x a r' s)\<lparr>hp_collection_pending := True\<rparr>) \<and>
    array_inv N a r' \<and> array_own a r' = (array_own a r)(key \<mapsto> p) \<and> array_count a r' = array_count a r \<and>
    record_own r' = (record_own r)(key \<mapsto> p) \<and>
    or_extensible r' = or_extensible r \<and> or_prototype r' = or_prototype r"
proof -
  have wf: "record_wf r" using inv by (simp add: array_inv_def)
  obtain previous r' where rep: "replace_existing_property key p r = Some (previous, r')"
    using key own_property_dom [OF wf] replace_existing_property_None [of key p r] by fastforce
  note e = replace_existing_property_Some [OF wf p rep]
  have "\<forall>i. key = Key_Index i \<longrightarrow> unat (index_get i) < N" using inv key by (auto simp: array_inv_def)
  then have "array_inv N a r' \<and> array_own a r' = (array_own a r)(key \<mapsto> p)"
    using array_inv_sparse_update [OF inv _ _ free, of r' p N] e inv by (auto simp: array_inv_def)
  moreover have "array_count a r' = array_count a r"
    using e wf by (simp add: array_count_eq length_entries) (metis length_map own_keys_def)
  ultimately show ?thesis using e rep
    by (intro exI [of _ r'])
      (simp add: restore_array_property_def hbind_def holds_array_ops [OF h] holds_upd(1) [OF h] mark_collection_pending_def hmodify_def)
qed

text \<open>Replacing an element that exists.\<close>

lemma replace_run:
  assumes h: "holds_array s x a r" and inv: "array_inv N a r" and p: "own_property_wf p" and v: "key_valid key"
    and key: "array_own a r key \<noteq> None" and atom: "key \<noteq> length_key"
    and d: "dense \<longleftrightarrow> (case as_index key of None \<Rightarrow> False | Some i \<Rightarrow> dense_value i a \<noteq> None)"
  shows "replace_existing_array_property alloc x key p dense s = (Inl (EE_AllocationFailed Res_ObjectProperties 1), s) \<or>
    (\<exists>a' r'. replace_existing_array_property alloc x key p dense s =
         (Inr (), (upd x a' r' s)\<lparr>hp_collection_pending := True\<rparr>) \<and>
       array_inv N a' r' \<and> as_length a' = as_length a \<and> record_own r' length_key = record_own r length_key \<and>
       array_own a' r' = (array_own a r)(key \<mapsto> p) \<and> array_count a' r' = array_count a r \<and>
       or_extensible r' = or_extensible r \<and> or_prototype r' = or_prototype r)"
proof -
  have wf: "record_wf r" using inv by (simp add: array_inv_def)
  consider (default) i u where "key = Key_Index i" "dense" "default_dense_data_value p = Some u"
    | (other) i where "key = Key_Index i" "dense" "default_dense_data_value p = None"
    | (shape) "\<not> dense" using d by (auto split: option.splits)
  then show ?thesis
  proof cases
    case default
    then obtain elements present where st: "as_storage a = Dense elements present"
      using d by (auto simp: dense_value_def split: array_storage.splits)
    have p': "p = default_property u" using default(3)
      by (auto simp: default_dense_data_value_def default_property_def split: Define_Property.own_property.splits if_splits)
    have here: "unat (index_get i) < length elements" using d default st by (auto simp: dense_value_def split: option.splits)
    then obtain created a' where store: "try_store_dense alloc i u a = Some (Inr (created, a'))"
      using st by (auto simp: try_store_dense_def Let_def)
    note e = array_store_dense [OF inv st v [unfolded default(1)] store]
    have "Suc (unat (index_get i)) \<le> N" using array_own_below [OF inv] key default(1) by (simp add: Suc_leI)
    then have "array_inv N a' r" using e by (simp add: max_absorb1)
    then show ?thesis using e key default p' store holds_upd(1) [OF h]
      by (intro disjI2 exI [of _ a'] exI [of _ r])
        (auto simp: replace_existing_array_property_def hbind_def holds_array_ops [OF h] store_dense_element_def
          commit_array_store_def hreturn_def mark_collection_pending_def hmodify_def)
  next
    case other
    have free: "as_storage (a\<lparr>as_storage := Sparse\<rparr>) = Sparse \<or> as_index key = None" by simp
    consider "heap_transition_array_to_sparse alloc x s = (Inl (EE_AllocationFailed Res_ObjectProperties 1), s)"
      | r1 where "heap_transition_array_to_sparse alloc x s = (Inr (), upd x (a\<lparr>as_storage := Sparse\<rparr>) r1 s)"
        "array_inv N (a\<lparr>as_storage := Sparse\<rparr>) r1" "record_own r1 = array_own a r"
        "array_count (a\<lparr>as_storage := Sparse\<rparr>) r1 = array_count a r"
        "or_extensible r1 = or_extensible r" "or_prototype r1 = or_prototype r"
      using transition_run [OF h inv, of alloc] by blast
    then show ?thesis
    proof cases
      case 1
      then show ?thesis using other by (simp add: replace_existing_array_property_def hbind_def)
    next
      case 2
      have own1: "array_own (a\<lparr>as_storage := Sparse\<rparr>) r1 = array_own a r" using 2(3) by (simp add: array_own_sparse)
      from restore_run [OF holds_upd(2) [OF h] 2(2) p _ free] 2(3) key
      obtain r2 where "restore_array_property x key p (upd x (a\<lparr>as_storage := Sparse\<rparr>) r1 s) =
          (Inr (), (upd x (a\<lparr>as_storage := Sparse\<rparr>) r2 (upd x (a\<lparr>as_storage := Sparse\<rparr>) r1 s))\<lparr>hp_collection_pending := True\<rparr>)"
        "array_inv N (a\<lparr>as_storage := Sparse\<rparr>) r2"
        "array_own (a\<lparr>as_storage := Sparse\<rparr>) r2 = (array_own (a\<lparr>as_storage := Sparse\<rparr>) r1)(key \<mapsto> p)"
        "array_count (a\<lparr>as_storage := Sparse\<rparr>) r2 = array_count (a\<lparr>as_storage := Sparse\<rparr>) r1"
        "record_own r2 = (record_own r1)(key \<mapsto> p)" "or_extensible r2 = or_extensible r1" "or_prototype r2 = or_prototype r1"
        by auto
      then show ?thesis using 2 other own1 atom
        by (intro disjI2 exI [of _ "a\<lparr>as_storage := Sparse\<rparr>"] exI [of _ r2])
          (simp add: replace_existing_array_property_def hbind_def holds_upd(3) [OF h])
    qed
  next
    case shape
    have dv: "as_index key = Some i \<Longrightarrow> dense_value i a = None" for i using shape d by auto
    have rk: "record_own r key \<noteq> None"
      using key dv by (cases key) (auto simp: array_own_index [OF wf])
    have free: "as_storage a = Sparse \<or> as_index key = None"
      using rk record_no_index [OF wf] inv by (cases key) (auto simp: array_inv_def split: array_storage.splits)
    from restore_run [OF h inv p rk free] obtain r' where
      "restore_array_property x key p s = (Inr (), (upd x a r' s)\<lparr>hp_collection_pending := True\<rparr>)"
      "array_inv N a r'" "array_own a r' = (array_own a r)(key \<mapsto> p)" "array_count a r' = array_count a r"
      "record_own r' = (record_own r)(key \<mapsto> p)" "or_extensible r' = or_extensible r" "or_prototype r' = or_prototype r" by blast
    then show ?thesis using shape atom
      by (intro disjI2 exI [of _ a] exI [of _ r']) (simp add: replace_existing_array_property_def)
  qed
qed

text \<open>Appending a property the record does not have.\<close>

definition append_error :: "heap \<Rightarrow> Define_Property.own_property \<Rightarrow> execution_error \<Rightarrow> bool" where
  "append_error s p e \<longleftrightarrow>
     e = EE_AllocationFailed Res_ObjectProperties 1 \<or>
     (hp_max_object_properties s < saturating_add (hp_object_properties s) 1 \<and>
      e = EE_LimitExceeded Res_ObjectProperties (hp_max_object_properties s) (saturating_add (hp_object_properties s) 1)) \<or>
     (\<exists>l g st f. p = OP_Accessor l g st \<and> (g = Some f \<or> st = Some f) \<and> \<not> arena_contains (hp_functions s) f \<and>
        e = EE_Fault (stale_heap_reference (Ref_Function f)))"

lemma append_data_run:
  assumes h: "holds_array s x a r"
  shows "(\<exists>e. append_data_property alloc (Ref_Object x) key l v s = (Inl e, s) \<and> append_error s p e) \<or>
    (\<exists>r'. append_slot alloc key l (Slot_Data v) r = Some r' \<and>
       saturating_add (hp_object_properties s) 1 \<le> hp_max_object_properties s \<and>
       append_data_property alloc (Ref_Object x) key l v s =
         (Inr (), (upd x a r' s)\<lparr>hp_object_properties := hp_object_properties s + 1, hp_collection_pending := True\<rparr>))"
  by (cases "append_slot alloc key l (Slot_Data v) r"; cases "saturating_add (hp_object_properties s) 1 \<le> hp_max_object_properties s")
    (auto simp: append_data_property_def append_data_def hbind_def check_property_limit_def hfail_def hmodify_def Let_def
      append_error_def holds_array_ops [OF h] not_le)

lemma append_accessor_run:
  assumes h: "holds_array s x a r" and none: "record_own r key = None" and l: "layout_kind l = Layout_Accessor"
  shows "(\<exists>e. append_accessor_property alloc (Ref_Object x) key l g st s = (Inl e, s) \<and> append_error s (OP_Accessor l g st) e) \<or>
    (\<exists>r'. append_slot alloc key l (Slot_Accessor g st) r = Some r' \<and>
       saturating_add (hp_object_properties s) 1 \<le> hp_max_object_properties s \<and>
       append_accessor_property alloc (Ref_Object x) key l g st s =
         (Inr (), (upd x a r' s)\<lparr>hp_object_properties := hp_object_properties s + 1, hp_collection_pending := True\<rparr>))"
proof -
  consider (dead) f where "g = Some f \<or> st = Some f" "\<not> arena_contains (hp_functions s) f"
    | (live) "\<forall>f. g = Some f \<or> st = Some f \<longrightarrow> arena_contains (hp_functions s) f" by blast
  then show ?thesis
  proof cases
    case dead
    then have "\<exists>e. append_accessor_property alloc (Ref_Object x) key l g st s = (Inl e, s) \<and> append_error s (OP_Accessor l g st) e"
      using none l by (cases g; cases st)
        (auto simp: append_accessor_property_def hbind_def require_live_function_def holds_array_ops [OF h] append_error_def)
    then show ?thesis ..
  next
    case live
    then have "require_live_function g s = (Inr (), s)" "require_live_function st s = (Inr (), s)"
      by (auto simp: require_live_function_def split: option.splits)
    then show ?thesis using none l
      by (cases "append_slot alloc key l (Slot_Accessor g st) r";
          cases "saturating_add (hp_object_properties s) 1 \<le> hp_max_object_properties s")
        (auto simp: append_accessor_property_def append_accessor_def hbind_def check_property_limit_def hfail_def hmodify_def Let_def
          append_error_def holds_array_ops [OF h] not_le)
  qed
qed

lemma append_own_run:
  assumes h: "holds_array s x a r" and none: "record_own r key = None" and p: "own_property_wf p"
  shows "(\<exists>e. append_own_property alloc (Ref_Object x) key p s = (Inl e, s) \<and> append_error s p e) \<or>
    (\<exists>l slot r'. into_parts p = (l, slot) \<and> append_slot alloc key l slot r = Some r' \<and>
       saturating_add (hp_object_properties s) 1 \<le> hp_max_object_properties s \<and>
       append_own_property alloc (Ref_Object x) key p s =
         (Inr (), (upd x a r' s)\<lparr>hp_object_properties := hp_object_properties s + 1, hp_collection_pending := True\<rparr>))"
proof (cases p)
  case (OP_Data l v)
  then show ?thesis using append_data_run [OF h, of alloc key l v p] by (auto simp: append_own_property_def)
next
  case (OP_Accessor l g st)
  then show ?thesis using append_accessor_run [OF h none, of l alloc g st] p by (auto simp: append_own_property_def)
qed

lemma array_append:
  assumes inv: "array_inv N a r" and none: "record_own r key = None" and p: "own_property_wf p" and v: "key_valid key"
    and free: "as_storage a = Sparse \<or> as_index key = None"
    and s: "into_parts p = (l, slot)" "append_slot alloc key l slot r = Some r'"
    and M: "\<forall>i. key = Key_Index i \<longrightarrow> unat (index_get i) < M" "N \<le> M" "M \<le> 4294967295"
  shows "array_inv M a r' \<and> array_own a r' = (array_own a r)(key \<mapsto> p) \<and> record_own r' = (record_own r)(key \<mapsto> p) \<and>
    array_count a r' = Suc (array_count a r) \<and> or_extensible r' = or_extensible r \<and> or_prototype r' = or_prototype r"
proof -
  have wf: "record_wf r" using inv by (simp add: array_inv_def)
  have notin: "key \<notin> set (own_keys r)" using none own_property_dom [OF wf, of key] by simp
  note e = append_slot_entries [OF wf s(2) into_parts_fits [OF s(1) p] notin v]
  have "map_of (entries r @ [(key, p)]) k = ((map_of (entries r))(key \<mapsto> p)) k" for k
    using none own_property_map_of [OF wf] by (auto simp: map_add_def split: option.splits)
  then have own: "record_own r' = (record_own r)(key \<mapsto> p)"
    using e s(1) wf by (auto simp: fun_eq_iff own_property_map_of)
  show ?thesis using array_inv_sparse_update [OF inv _ own free M] e wf own by (simp add: array_count_eq)
qed

text \<open>The attempt to store a new element in the vector.\<close>

lemma default_dense_Some: "default_dense_data_value p = Some u \<longleftrightarrow> p = default_property u"
  by (auto simp: default_dense_data_value_def default_property_def split: Define_Property.own_property.splits)

lemma store_new_run:
  assumes h: "holds_array s x a r" and inv: "array_inv N a r" and v: "key_valid key" and none: "array_own a r key = None"
  shows "try_store_new_dense_array_property alloc x key p s = (Inl (EE_AllocationFailed Res_ObjectProperties 1), s) \<or>
    (try_store_new_dense_array_property alloc x key p s = (Inr False, s) \<and> \<not> loses_element a r key p) \<or>
    (try_store_new_dense_array_property alloc x key p s = (Inr True, s) \<and> loses_element a r key p) \<or>
    (\<exists>i a'. key = Key_Index i \<and> try_store_new_dense_array_property alloc x key p s = (Inr True, upd x a' r s) \<and>
       \<not> loses_element a r key p \<and> array_inv (max N (Suc (unat (index_get i)))) a' r \<and> as_length a' = as_length a \<and>
       array_own a' r = (array_own a r)(key \<mapsto> p) \<and> array_count a' r = Suc (array_count a r))"
proof -
  have wf: "record_wf r" using inv by (simp add: array_inv_def)
  consider (no) "as_index key = None \<or> default_dense_data_value p = None"
    | (stay) i where "key = Key_Index i" "\<not> can_store_dense i a" "\<not> (is_sparse a \<and> \<not> has_indexed_property r)"
    | (dense) i u where "key = Key_Index i" "p = default_property u" "can_store_dense i a"
    | (restore) i u where "key = Key_Index i" "p = default_property u" "\<not> can_store_dense i a" "is_sparse a" "\<not> has_indexed_property r"
    by (cases key; cases "default_dense_data_value p") (auto simp: default_dense_Some)
  then show ?thesis
  proof cases
    case no
    then show ?thesis
      by (cases "as_index key"; cases "default_dense_data_value p")
        (auto simp: try_store_new_dense_array_property_def hreturn_def loses_element_def split: option.splits)
  next
    case stay
    then show ?thesis
      by (cases "default_dense_data_value p")
        (auto simp: try_store_new_dense_array_property_def hbind_def hread_def hreturn_def holds_array_ops [OF h] loses_element_def)
  next
    case dense
    then obtain elements present where st: "as_storage a = Dense elements present"
      by (auto simp: can_store_dense_def split: array_storage.splits)
    have lose: "\<not> loses_element a r key p" using st dense(1) by (simp add: loses_element_def is_sparse_def)
    have u: "default_dense_data_value p = Some u" using dense(2) by (simp add: default_dense_Some)
    have "try_store_dense alloc i u a \<noteq> None" using st by (simp add: try_store_dense_def Let_def)
    then obtain res where res: "try_store_dense alloc i u a = Some res" by blast
    show ?thesis
    proof (cases res)
      case (Inl e)
      then show ?thesis using res dense u
        by (auto simp: try_store_new_dense_array_property_def hbind_def hread_def hfail_def holds_array_ops [OF h]
            try_restore_dense_and_store_def commit_array_store_def)
    next
      case (Inr y)
      obtain created a' where y: "y = (created, a')" by (cases y)
      note e = array_store_dense [OF inv st v [unfolded dense(1)] res [unfolded Inr y]]
      have "try_store_new_dense_array_property alloc x key p s = (Inr True, upd x a' r s)"
        using res Inr y dense u holds_upd(1) [OF h]
        by (simp add: try_store_new_dense_array_property_def hbind_def hread_def hreturn_def holds_array_ops [OF h]
            try_restore_dense_and_store_def commit_array_store_def)
      then show ?thesis using e none lose dense(1,2) by auto
    qed
  next
    case restore
    then have st: "as_storage a = Sparse" by (simp add: is_sparse_def split: array_storage.splits)
    have u: "default_dense_data_value p = Some u" using restore(2) by (simp add: default_dense_Some)
    let ?k = "unat (index_get i)"
    consider (lost) "MAX_DENSE_ARRAY_GAP \<le> ?k" | (fail) "?k < MAX_DENSE_ARRAY_GAP" "\<not> alloc 0 (?k + 1)"
      | (ok) "?k < MAX_DENSE_ARRAY_GAP" "alloc 0 (?k + 1)" by linarith
    then show ?thesis
    proof cases
      case lost
      then have t: "try_restore_dense alloc i a = Inr (False, a)" using st by (simp add: try_restore_dense_def)
      have "upd x a r s = s" using h arena_set_same [of "hp_objects s"] by (simp add: holds_array_def upd_def)
      then have "try_store_new_dense_array_property alloc x key p s = (Inr True, s)"
        using restore u t holds_upd(1) [OF h, of a r]
        by (simp add: try_store_new_dense_array_property_def hbind_def hread_def hreturn_def holds_array_ops [OF h]
            try_restore_dense_and_store_def commit_array_store_def)
      then show ?thesis using lost restore u by (simp add: loses_element_def)
    next
      case fail
      then show ?thesis using restore u st
        by (simp add: try_store_new_dense_array_property_def hbind_def hread_def hfail_def holds_array_ops [OF h]
            try_restore_dense_and_store_def commit_array_store_def try_restore_dense_def)
    next
      case ok
      let ?a = "a\<lparr>as_storage := Dense (replicate (?k + 1) None) 0\<rparr>"
      have t: "try_restore_dense alloc i a = Inr (True, ?a)" using st ok by (simp add: try_restore_dense_def)
      note e1 = array_restore_dense [OF inv restore(5) v [unfolded restore(1)] t]
      obtain created a' where store: "try_store_dense alloc i u ?a = Some (Inr (created, a'))"
        by (auto simp: try_store_dense_def Let_def)
      note e = array_store_dense [OF conjunct1 [OF e1] _ v [unfolded restore(1)] store]
      have "try_store_new_dense_array_property alloc x key p s = (Inr True, upd x a' r s)"
        using restore u t store holds_upd(1) [OF h]
        by (simp add: try_store_new_dense_array_property_def hbind_def hread_def hreturn_def holds_array_ops [OF h]
            try_restore_dense_and_store_def commit_array_store_def)
      moreover have "\<not> loses_element a r key p" using ok restore(1) by (simp add: loses_element_def)
      ultimately show ?thesis using e e1 none restore(1,2) by (auto simp del: replicate.simps)
    qed
  qed
qed

text \<open>The facts the definition reads.\<close>

lemma definition_facts_run:
  assumes h: "holds_array s x a r" and wf: "array_wf a r w"
  shows "array_definition_facts x key s =
    (Inr \<lparr>af_length = as_length a,
       af_existing = (if (case as_index key of None \<Rightarrow> False | Some i \<Rightarrow> dense_value i a \<noteq> None) then Loc_Dense
                      else if array_own a r key \<noteq> None then Loc_Sparse else Loc_Absent),
       af_extensible = or_extensible r, af_length_writable = w\<rparr>, s)"
  using wf by (simp add: array_definition_facts_def hbind_def array_definition_facts_of_def hreturn_def
      holds_array_ops [OF h] array_wf_def length_property_def array_own_def [symmetric])

text \<open>Which properties a definition changes, with the lost element as the exception.\<close>

definition array_define_view ::
  "array_state \<Rightarrow> object_record \<Rightarrow> bool \<Rightarrow> property_key \<Rightarrow> Define_Property.own_property \<Rightarrow>
     array_define_outcome \<times> (property_key \<rightharpoonup> Define_Property.own_property)" where
  "array_define_view a r w key p =
     (if loses_element a r key p \<and> fst (es_array_define (array_own a r) (or_extensible r) w (as_length a) key p) = Define_Complete
      then (Define_Complete, es_extend w (as_length a) key (array_own a r))
      else es_array_define (array_own a r) (or_extensible r) w (as_length a) key p)"

definition array_define_ok ::
  "id \<Rightarrow> bool \<Rightarrow> array_state \<Rightarrow> object_record \<Rightarrow> property_key \<Rightarrow> Define_Property.own_property \<Rightarrow> heap \<Rightarrow>
     (execution_error, array_define_outcome) result \<Rightarrow> heap \<Rightarrow> array_state \<Rightarrow> object_record \<Rightarrow> bool" where
  "array_define_ok x w a r key p s res s' a' r' \<longleftrightarrow>
     holds_array s' x a' r' \<and> array_wf a' r' w \<and> or_extensible r' = or_extensible r \<and> or_prototype r' = or_prototype r \<and>
     (\<forall>y. y \<noteq> x \<longrightarrow> arena_get (hp_objects s') y = arena_get (hp_objects s) y) \<and>
     hp_functions s' = hp_functions s \<and> hp_cells s' = hp_cells s \<and>
     (case res of
        Inl e \<Rightarrow> append_error s p e \<and> array_own a' r' = array_own a r \<and> array_count a' r' = array_count a r \<and>
          hp_object_properties s' = hp_object_properties s
      | Inr outcome \<Rightarrow> (outcome, array_own a' r') = array_define_view a r w key p \<and>
          (\<not> loses_element a r key p \<and> hp_object_properties s \<noteq> - 1 \<longrightarrow>
             unat (hp_object_properties s') + array_count a r = unat (hp_object_properties s) + array_count a' r'))"

lemma upd_id: "holds_array s x a r \<Longrightarrow> upd x a r s = s"
  using arena_set_same [of "hp_objects s"] by (simp add: holds_array_def upd_def)

lemma define_ok_frame:
  assumes "holds_array s x a r" "s' = (upd x a' r' s)\<lparr>hp_object_properties := n, hp_collection_pending := b\<rparr>"
  shows "holds_array s' x a' r'" "\<forall>y. y \<noteq> x \<longrightarrow> arena_get (hp_objects s') y = arena_get (hp_objects s) y"
    "hp_functions s' = hp_functions s" "hp_cells s' = hp_cells s" "hp_object_properties s' = n"
  using assms holds_upd(2,4) [OF assms(1)] by simp_all

lemma saturating_add_u64:
  assumes "n \<noteq> (- 1 :: u64)"
  shows "saturating_add n 1 = n + 1" "unat (n + 1) = Suc (unat n)"
proof -
  have "unat n \<noteq> unat (- 1 :: u64)" using assms by (simp add: word_unat_eq_iff)
  then have "unat n \<noteq> 18446744073709551615" by (simp add: unsigned_minus_1_eq_mask mask_eq_exp_minus_1)
  moreover have "unat n < 2 ^ LENGTH(64)" by (rule unsigned_less)
  ultimately have "unat n < 18446744073709551615" by simp
  then show "saturating_add n 1 = n + 1" "unat (n + 1) = Suc (unat n)"
    by (simp_all add: saturating_add_def checked_add_def unat_word_ariths)
qed

lemma extended_bound:
  assumes "key_valid (Key_Index i)"
  shows "max (unat n) (Suc (unat (index_get i))) = (case extended_length n (Key_Index i) of None \<Rightarrow> unat n | Some m \<Rightarrow> unat m)"
  using assms by (auto simp: extended_length_def index_bound word_le_nat_alt unat_word_ariths)

lemma extended_atom [simp]: "extended_length n (Key_Atom x k) = None"
  by (simp add: extended_length_def)

lemma extended_bounds:
  assumes "key_valid key"
  shows "unat n \<le> (case extended_length n key of None \<Rightarrow> unat n | Some m \<Rightarrow> unat m)"
    and "(case extended_length n key of None \<Rightarrow> unat n | Some m \<Rightarrow> unat m) \<le> 4294967295"
    and "\<forall>i. key = Key_Index i \<longrightarrow> unat (index_get i) < (case extended_length n key of None \<Rightarrow> unat n | Some m \<Rightarrow> unat m)"
proof -
  have "unat n \<le> E \<and> E \<le> 4294967295 \<and> (\<forall>i. key = Key_Index i \<longrightarrow> unat (index_get i) < E)"
    if "E = (case extended_length n key of None \<Rightarrow> unat n | Some m \<Rightarrow> unat m)" for E
    using that assms extended_bound [of _ n, symmetric] by (cases key) (auto simp: index_bound)
  then show "unat n \<le> (case extended_length n key of None \<Rightarrow> unat n | Some m \<Rightarrow> unat m)"
    "(case extended_length n key of None \<Rightarrow> unat n | Some m \<Rightarrow> unat m) \<le> 4294967295"
    "\<forall>i. key = Key_Index i \<longrightarrow> unat (index_get i) < (case extended_length n key of None \<Rightarrow> unat n | Some m \<Rightarrow> unat m)"
    by auto
qed

lemma define_existing:
  assumes h: "holds_array s x a r" and wf: "array_wf a r w" and v: "key_valid key" and atom: "as_atom key \<noteq> Some LENGTH_ATOM"
    and p: "own_property_wf p" and key: "array_own a r key \<noteq> None"
    and run: "define_array_own_property alloc x key p s = (res, s')"
  shows "\<exists>a' r'. array_define_ok x w a r key p s res s' a' r'"
proof -
  let ?dense = "case as_index key of None \<Rightarrow> False | Some i \<Rightarrow> dense_value i a \<noteq> None"
  have inv: "array_inv (unat (as_length a)) a r" and slot: "record_own r length_key = Some (length_property w (as_length a))"
    using wf by (simp_all add: array_wf_def)
  have lk: "key \<noteq> length_key" using atom by (auto simp: length_key_def)
  have ext: "extended_length (as_length a) key = None"
  proof (cases key)
    case (Key_Index i)
    then have "unat (index_get i) < unat (as_length a)" using array_own_below [OF inv] key by simp
    then show ?thesis using Key_Index by (simp add: extended_length_def word_le_nat_alt)
  qed simp
  have lose: "\<not> loses_element a r key p"
  proof
    assume l: "loses_element a r key p"
    then obtain i where "key = Key_Index i" "as_storage a = Sparse" "\<not> has_indexed_property r"
      by (auto simp: loses_element_def is_sparse_def split: option.splits array_storage.splits)
    then show False using key record_no_index [OF array_inv_wf [OF inv]] by (simp add: array_own_sparse)
  qed
  have view: "array_define_view a r w key p = (Define_Complete, (array_own a r)(key \<mapsto> p))"
    using lose ext key by (auto simp: array_define_view_def es_array_define_def es_extend_def)
  have d: "define_array_own_property alloc x key p s =
    hbind (replace_existing_array_property alloc x key p ?dense) (\<lambda>_. hreturn Define_Complete) s"
    using atom ext key extended_length_key [OF v]
    by (auto simp: define_array_own_property_def hbind_def definition_facts_run [OF h wf] extend_array_length_def hreturn_def Let_def
        split: prod.splits sum.splits)
  from replace_run [OF h inv p v key lk refl, of alloc]
  show ?thesis
  proof (elim disjE exE conjE)
    assume "replace_existing_array_property alloc x key p ?dense s = (Inl (EE_AllocationFailed Res_ObjectProperties 1), s)"
    then have "res = Inl (EE_AllocationFailed Res_ObjectProperties 1)" "s' = s" using run d by (simp_all add: hbind_def)
    then show ?thesis using h wf by (intro exI [of _ a] exI [of _ r]) (simp add: array_define_ok_def append_error_def)
  next
    fix a' r'
    assume e: "replace_existing_array_property alloc x key p ?dense s = (Inr (), (upd x a' r' s)\<lparr>hp_collection_pending := True\<rparr>)"
      "array_inv (unat (as_length a)) a' r'" "as_length a' = as_length a" "record_own r' length_key = record_own r length_key"
      "array_own a' r' = (array_own a r)(key \<mapsto> p)" "array_count a' r' = array_count a r"
      "or_extensible r' = or_extensible r" "or_prototype r' = or_prototype r"
    have s': "res = Inr Define_Complete" "s' = (upd x a' r' s)\<lparr>hp_collection_pending := True\<rparr>"
      using run d e(1) by (simp_all add: hbind_def hreturn_def)
    have "array_wf a' r' w" using e slot by (simp add: array_wf_def)
    then show ?thesis using e s' view holds_upd [OF h]
      by (intro exI [of _ a'] exI [of _ r']) (simp add: array_define_ok_def)
  qed
qed

text \<open>The steps after the element was placed: the length, then the bookkeeping.\<close>

lemma finish_new:
  assumes h: "holds_array s x a r" and wf: "array_wf a r w" and h': "holds_array s1 x a1 r1"
    and s1: "s1 = (upd x a1 r1 s)\<lparr>hp_object_properties := n, hp_collection_pending := b\<rparr>"
    and inv: "array_inv (case extended_length (as_length a) key of None \<Rightarrow> unat (as_length a) | Some m \<Rightarrow> unat m) a1 r1"
    and len: "as_length a1 = as_length a" and slot: "record_own r1 length_key = Some (length_property w (as_length a))"
    and own: "(Define_Complete, es_extend w (as_length a) key (array_own a1 r1)) = array_define_view a r w key p"
    and same: "or_extensible r1 = or_extensible r" "or_prototype r1 = or_prototype r"
    and count: "\<not> loses_element a r key p \<and> hp_object_properties s \<noteq> - 1 \<longrightarrow>
      unat m + array_count a r = unat (hp_object_properties s) + array_count a1 r1"
  shows "\<exists>s2. extend_array_length x (extended_length (as_length a) key) s1 = (Inr (), s2) \<and> hp_object_properties s2 = n \<and>
    (\<forall>c. \<exists>a' r'. array_define_ok x w a r key p s (Inr Define_Complete)
       (s2\<lparr>hp_object_properties := m, hp_collection_pending := c\<rparr>) a' r')"
proof -
  obtain a2 r2 where e: "extend_array_length x (extended_length (as_length a) key) s1 = (Inr (), upd x a2 r2 s1)" "array_wf a2 r2 w"
    "array_own a2 r2 = es_extend w (as_length a) key (array_own a1 r1)" "array_count a2 r2 = array_count a1 r1"
    "or_extensible r2 = or_extensible r1" "or_prototype r2 = or_prototype r1"
    using extend_array_length_run [OF h', unfolded len, OF inv slot] by blast
  have s2: "upd x a2 r2 s1 = (upd x a2 r2 s)\<lparr>hp_object_properties := n, hp_collection_pending := b\<rparr>"
    using s1 holds_upd(3) [OF h] by simp
  have "array_define_ok x w a r key p s (Inr Define_Complete)
      ((upd x a2 r2 s1)\<lparr>hp_object_properties := m, hp_collection_pending := c\<rparr>) a2 r2" for c
    using e own same count s2 holds_upd [OF h] by (simp add: array_define_ok_def)
  then show ?thesis using e(1) s2 by auto
qed

text \<open>Before an element is appended to the shape, the elements of the vector move there.\<close>

lemma prepare_run:
  fixes alloc :: allocator
  assumes h: "holds_array s x a r" and inv: "array_inv N a r" and key: "array_own a r key = None"
  defines "prepare \<equiv> if as_index key \<noteq> None then heap_transition_array_to_sparse alloc x else hreturn ()"
  shows "prepare s = (Inl (EE_AllocationFailed Res_ObjectProperties 1), s) \<or>
    (\<exists>a1 r1. prepare s = (Inr (), upd x a1 r1 s) \<and> (as_index key \<noteq> None \<longrightarrow> as_storage a1 = Sparse) \<and> array_inv N a1 r1 \<and>
       as_length a1 = as_length a \<and> record_own r1 length_key = record_own r length_key \<and> record_own r1 key = None \<and>
       array_own a1 r1 = array_own a r \<and> array_count a1 r1 = array_count a r \<and>
       or_extensible r1 = or_extensible r \<and> or_prototype r1 = or_prototype r)"
proof (cases key)
  case (Key_Index i)
  then have prep: "prepare = heap_transition_array_to_sparse alloc x" by (simp add: prepare_def)
  from transition_run [OF h inv, of alloc] show ?thesis
  proof (elim disjE exE conjE)
    fix r' assume e: "heap_transition_array_to_sparse alloc x s = (Inr (), upd x (a\<lparr>as_storage := Sparse\<rparr>) r' s)"
      "array_inv N (a\<lparr>as_storage := Sparse\<rparr>) r'" "record_own r' = array_own a r"
      "array_count (a\<lparr>as_storage := Sparse\<rparr>) r' = array_count a r"
      "or_extensible r' = or_extensible r" "or_prototype r' = or_prototype r"
    then show ?thesis unfolding prep using key
      by (intro disjI2 exI [of _ "a\<lparr>as_storage := Sparse\<rparr>"] exI [of _ r']) (simp add: array_own_sparse)
  qed (simp add: prep)
next
  case (Key_Atom y k)
  then have "prepare s = (Inr (), upd x a r s)" using upd_id [OF h] by (simp add: prepare_def hreturn_def)
  then show ?thesis using Key_Atom inv key by (intro disjI2 exI [of _ a] exI [of _ r]) simp
qed

lemma define_new:
  assumes h: "holds_array s x a r" and wf: "array_wf a r w" and v: "key_valid key" and atom: "as_atom key \<noteq> Some LENGTH_ATOM"
    and p: "own_property_wf p" and key: "array_own a r key = None" and ext: "or_extensible r"
    and w: "extended_length (as_length a) key \<noteq> None \<longrightarrow> w"
    and run: "define_array_own_property alloc x key p s = (res, s')"
  shows "\<exists>a' r'. array_define_ok x w a r key p s res s' a' r'"
proof -
  let ?N = "unat (as_length a)" and ?ext = "extended_length (as_length a) key"
  let ?E = "case ?ext of None \<Rightarrow> ?N | Some m \<Rightarrow> unat m"
  let ?bookkeep = "hmodify (\<lambda>s. s\<lparr>hp_object_properties := saturating_add (hp_object_properties s) 1, hp_collection_pending := True\<rparr>)"
  let ?prepare = "if as_index key \<noteq> None then heap_transition_array_to_sparse alloc x else hreturn ()"
  have inv: "array_inv ?N a r" and slot: "record_own r length_key = Some (length_property w (as_length a))"
    using wf by (simp_all add: array_wf_def)
  have lk: "key \<noteq> length_key" using atom by (auto simp: length_key_def)
  have nd: "\<not> (case as_index key of None \<Rightarrow> False | Some i \<Rightarrow> dense_value i a \<noteq> None)"
    using key array_own_index [OF array_inv_wf [OF inv]] by (cases key) (auto split: option.splits)
  have full: "es_array_define (array_own a r) (or_extensible r) w (as_length a) key p =
    (Define_Complete, es_extend w (as_length a) key ((array_own a r)(key \<mapsto> p)))"
    using ext w by (auto simp: es_array_define_def)
  have view: "array_define_view a r w key p =
    (Define_Complete, es_extend w (as_length a) key (if loses_element a r key p then array_own a r else (array_own a r)(key \<mapsto> p)))"
    unfolding array_define_view_def full by simp
  have E: "?N \<le> ?E" "?E \<le> 4294967295" "\<forall>i. key = Key_Index i \<longrightarrow> unat (index_get i) < ?E"
    by (rule extended_bounds [OF v])+
  have failed: ?thesis if "res = Inl e" "s' = s" "append_error s p e" for e
    using that h wf by (intro exI [of _ a] exI [of _ r]) (simp add: array_define_ok_def)
  have d: "define_array_own_property alloc x key p s =
    hbind check_property_limit (\<lambda>_. hbind (try_store_new_dense_array_property alloc x key p) (\<lambda>stored.
      if stored then hbind (extend_array_length x ?ext) (\<lambda>_. hbind ?bookkeep (\<lambda>_. hreturn Define_Complete))
      else hbind ?prepare (\<lambda>_. hbind (append_own_property alloc (Ref_Object x) key p) (\<lambda>_.
             hbind (extend_array_length x ?ext) (\<lambda>_. hbind mark_collection_pending (\<lambda>_. hreturn Define_Complete)))))) s"
    using atom key ext w nd extended_length_key [OF v]
    by (cases "?ext") (simp_all add: define_array_own_property_def hbind_def [where m = "array_definition_facts x key"]
        definition_facts_run [OF h wf] Let_def cong: if_cong)
  show ?thesis
  proof (cases "saturating_add (hp_object_properties s) 1 \<le> hp_max_object_properties s")
    case False
    then have "append_error s p (EE_LimitExceeded Res_ObjectProperties (hp_max_object_properties s) (saturating_add (hp_object_properties s) 1))"
      by (simp add: append_error_def not_le)
    then show ?thesis using run d False by (intro failed) (auto simp: hbind_def check_property_limit_def Let_def)
  next
    case True
    note run' = run [unfolded d, unfolded hbind_def [where m = check_property_limit], unfolded check_property_limit_def, simplified True Let_def]
    from store_new_run [OF h inv v key, of alloc p] show ?thesis
    proof (elim disjE exE conjE)
      assume "try_store_new_dense_array_property alloc x key p s = (Inl (EE_AllocationFailed Res_ObjectProperties 1), s)"
      then show ?thesis using run'
        by (intro failed [of "EE_AllocationFailed Res_ObjectProperties 1"]) (auto simp: hbind_def append_error_def)
    next
      assume st: "try_store_new_dense_array_property alloc x key p s = (Inr True, s)" "loses_element a r key p"
      have "s = (upd x a r s)\<lparr>hp_object_properties := hp_object_properties s, hp_collection_pending := hp_collection_pending s\<rparr>"
        using upd_id [OF h] by simp
      from finish_new [OF h wf h this array_inv_mono [OF inv E(1,2)] refl slot _ refl refl, of p "saturating_add (hp_object_properties s) 1"] st(2) view
      obtain s2 where "extend_array_length x ?ext s = (Inr (), s2)" "hp_object_properties s2 = hp_object_properties s"
        "\<forall>c. \<exists>a' r'. array_define_ok x w a r key p s (Inr Define_Complete)
           (s2\<lparr>hp_object_properties := saturating_add (hp_object_properties s) 1, hp_collection_pending := c\<rparr>) a' r'" by auto
      then show ?thesis using run' st(1) by (auto simp: hbind_def hmodify_def hreturn_def)
    next
      fix i a1
      assume st: "key = Key_Index i" "try_store_new_dense_array_property alloc x key p s = (Inr True, upd x a1 r s)"
        "\<not> loses_element a r key p" "array_inv (max ?N (Suc (unat (index_get i)))) a1 r" "as_length a1 = as_length a"
        "array_own a1 r = (array_own a r)(key \<mapsto> p)" "array_count a1 r = Suc (array_count a r)"
      have s1: "upd x a1 r s = (upd x a1 r s)\<lparr>hp_object_properties := hp_object_properties s, hp_collection_pending := hp_collection_pending (upd x a1 r s)\<rparr>"
        by (simp add: upd_def)
      have inv1: "array_inv ?E a1 r" using st(1,4) v extended_bound by simp
      have cnt: "hp_object_properties s \<noteq> - 1 \<longrightarrow>
        unat (saturating_add (hp_object_properties s) 1) + array_count a r = unat (hp_object_properties s) + array_count a1 r"
        using st(7) saturating_add_u64 by auto
      from finish_new [OF h wf holds_upd(2) [OF h] s1 inv1 st(5) slot _ refl refl, of p "saturating_add (hp_object_properties s) 1"] st(3,6) view cnt
      obtain s2 where "extend_array_length x ?ext (upd x a1 r s) = (Inr (), s2)" "hp_object_properties s2 = hp_object_properties s"
        "\<forall>c. \<exists>a' r'. array_define_ok x w a r key p s (Inr Define_Complete)
           (s2\<lparr>hp_object_properties := saturating_add (hp_object_properties s) 1, hp_collection_pending := c\<rparr>) a' r'" by auto
      then show ?thesis using run' st(2) by (auto simp: hbind_def hmodify_def hreturn_def)
    next
      assume st: "try_store_new_dense_array_property alloc x key p s = (Inr False, s)" "\<not> loses_element a r key p"
      from prepare_run [OF h inv key, of alloc] show ?thesis
      proof (elim disjE exE conjE)
        assume "?prepare s = (Inl (EE_AllocationFailed Res_ObjectProperties 1), s)"
        then show ?thesis using run' st(1)
          by (intro failed [of "EE_AllocationFailed Res_ObjectProperties 1"]) (auto simp: hbind_def append_error_def)
      next
        fix a1 r1
        assume pr: "?prepare s = (Inr (), upd x a1 r1 s)" "as_index key \<noteq> None \<longrightarrow> as_storage a1 = Sparse" "array_inv ?N a1 r1"
          "as_length a1 = as_length a" "record_own r1 length_key = record_own r length_key" "record_own r1 key = None"
          "array_own a1 r1 = array_own a r" "array_count a1 r1 = array_count a r" "or_extensible r1 = or_extensible r" "or_prototype r1 = or_prototype r"
        let ?s1 = "upd x a1 r1 s"
        note h1 = holds_upd(2) [OF h, of a1 r1]
        have run1: "hbind (append_own_property alloc (Ref_Object x) key p) (\<lambda>_.
             hbind (extend_array_length x ?ext) (\<lambda>_. hbind mark_collection_pending (\<lambda>_. hreturn Define_Complete))) ?s1 = (res, s')"
          using run' st(1) pr(1) by (simp add: hbind_def)
        from append_own_run [OF h1 pr(6) p, of alloc] show ?thesis
        proof (elim disjE exE conjE)
          fix e assume "append_own_property alloc (Ref_Object x) key p ?s1 = (Inl e, ?s1)" "append_error ?s1 p e"
          moreover have "append_error s p e" using calculation(2) by (simp add: append_error_def)
          moreover have "array_wf a1 r1 w" using pr slot by (simp add: array_wf_def)
          ultimately show ?thesis using run1 pr h1 holds_upd(4) [OF h]
            by (intro exI [of _ a1] exI [of _ r1]) (auto simp: array_define_ok_def hbind_def)
        next
          fix l sl r2
          assume ap: "into_parts p = (l, sl)" "append_slot alloc key l sl r1 = Some r2"
            "append_own_property alloc (Ref_Object x) key p ?s1 =
               (Inr (), (upd x a1 r2 ?s1)\<lparr>hp_object_properties := hp_object_properties ?s1 + 1, hp_collection_pending := True\<rparr>)"
          have free: "as_storage a1 = Sparse \<or> as_index key = None" using pr(2) by blast
          note e = array_append [OF pr(3,6) p v free ap(1,2) E(3,1,2)]
          let ?s2 = "(upd x a1 r2 s)\<lparr>hp_object_properties := hp_object_properties s + 1, hp_collection_pending := True\<rparr>"
          have ap3: "append_own_property alloc (Ref_Object x) key p ?s1 = (Inr (), ?s2)" using ap(3) holds_upd(3) [OF h] by simp
          have h2: "holds_array ?s2 x a1 r2" using holds_upd(2) [OF h] by simp
          have slot2: "record_own r2 length_key = Some (length_property w (as_length a))" using e pr slot lk by simp
          have own2: "(Define_Complete, es_extend w (as_length a) key (array_own a1 r2)) = array_define_view a r w key p"
            using view st(2) e pr(7) by simp
          have same2: "or_extensible r2 = or_extensible r" "or_prototype r2 = or_prototype r" using e pr(9,10) by simp_all
          have cnt: "\<not> loses_element a r key p \<and> hp_object_properties s \<noteq> - 1 \<longrightarrow>
            unat (hp_object_properties s + 1) + array_count a r = unat (hp_object_properties s) + array_count a1 r2"
            using e pr(8) saturating_add_u64(2) by simp
          obtain s3 where s3: "extend_array_length x ?ext ?s2 = (Inr (), s3)" "hp_object_properties s3 = hp_object_properties s + 1"
            "\<forall>c. \<exists>a' r'. array_define_ok x w a r key p s (Inr Define_Complete)
               (s3\<lparr>hp_object_properties := hp_object_properties s + 1, hp_collection_pending := c\<rparr>) a' r'"
            using finish_new [OF h wf h2 refl conjunct1 [OF e] pr(4) slot2 own2 same2 cnt] by blast
          have "s3\<lparr>hp_object_properties := hp_object_properties s + 1, hp_collection_pending := True\<rparr> =
            s3\<lparr>hp_collection_pending := True\<rparr>" using s3(2) by (cases s3) simp
          moreover have "res = Inr Define_Complete" "s' = s3\<lparr>hp_collection_pending := True\<rparr>"
            using run1 unfolding hbind_def ap3 by (simp_all add: s3(1) mark_collection_pending_def hmodify_def hreturn_def)
          ultimately show ?thesis using s3(3) by metis
        qed
      qed
    qed
  qed
qed

lemma define_array_run:
  assumes h: "holds_array s x a r" and wf: "array_wf a r w" and v: "key_valid key" and atom: "as_atom key \<noteq> Some LENGTH_ATOM"
    and p: "own_property_wf p" and run: "define_array_own_property alloc x key p s = (res, s')"
  shows "\<exists>a' r'. array_define_ok x w a r key p s res s' a' r'"
proof -
  let ?ext = "extended_length (as_length a) key"
  have inv: "array_inv (unat (as_length a)) a r" using wf by (simp add: array_wf_def)
  consider (readonly) "?ext \<noteq> None" "\<not> w" | (closed) "?ext \<noteq> None \<longrightarrow> w" "array_own a r key = None" "\<not> or_extensible r"
    | (new) "?ext \<noteq> None \<longrightarrow> w" "array_own a r key = None" "or_extensible r" | (old) "array_own a r key \<noteq> None" by blast
  then show ?thesis
  proof cases
    case readonly
    then have "res = Inr Define_ReadOnlyLength \<and> s' = s" using run atom extended_length_key [OF v, of "as_length a"]
      by (auto simp: define_array_own_property_def hbind_def [where m = "array_definition_facts x key"]
          definition_facts_run [OF h wf] hreturn_def Let_def cong: option.case_cong if_cong)
    moreover have "array_define_view a r w key p = (Define_ReadOnlyLength, array_own a r)"
      using readonly by (auto simp: array_define_view_def es_array_define_def)
    ultimately show ?thesis using h wf by (intro exI [of _ a] exI [of _ r]) (simp add: array_define_ok_def)
  next
    case closed
    have nd: "\<not> (case as_index key of None \<Rightarrow> False | Some i \<Rightarrow> dense_value i a \<noteq> None)"
      using closed(2) array_own_index [OF array_inv_wf [OF inv]] by (cases key) (auto split: option.splits)
    then have "res = Inr Define_NonExtensible \<and> s' = s" using run atom closed extended_length_key [OF v, of "as_length a"]
      by (cases ?ext) (auto simp: define_array_own_property_def hbind_def [where m = "array_definition_facts x key"]
          definition_facts_run [OF h wf] hreturn_def Let_def cong: option.case_cong if_cong)
    moreover have "array_define_view a r w key p = (Define_NonExtensible, array_own a r)"
      using closed by (auto simp: array_define_view_def es_array_define_def)
    ultimately show ?thesis using h wf by (intro exI [of _ a] exI [of _ r]) (simp add: array_define_ok_def)
  next
    case new
    then show ?thesis using define_new [OF h wf v atom p _ _ _ run] by blast
  next
    case old
    then show ?thesis using define_existing [OF h wf v atom p _ run] by blast
  qed
qed

section \<open>Writes of the length\<close>

text \<open>\<^verbatim>\<open>ArraySetLength\<close> on the exotic array: a truncation stops above the greatest index it may not delete.\<close>

definition es_set_length ::
  "(property_key \<rightharpoonup> Define_Property.own_property) \<Rightarrow> bool \<Rightarrow> u32 \<Rightarrow> u32 \<Rightarrow>
     array_length_write_outcome \<times> (property_key \<rightharpoonup> Define_Property.own_property)" where
  "es_set_length own w current n =
     (if \<not> w then (Length_ReadOnly, own)
      else if current \<le> n then (Length_Complete, own(length_key \<mapsto> length_property w n))
      else let B = blockers own n;
               final = (if B = {} then n else index_get (Max B) + 1)
           in (if B = {} then Length_Complete else Length_BlockedByNonConfigurable (Max B) final,
               (\<lambda>key. if index_at_least final key then None else own key)(length_key \<mapsto> length_property w final)))"

lemma index_at_least_length [simp]: "\<not> index_at_least n length_key"
  by (simp add: index_at_least_def length_key_def)

lemma dense_no_blockers:
  assumes "array_inv N a r" "is_dense a"
  shows "blockers (array_own a r) n = {}"
proof -
  obtain elements present where st: "as_storage a = Dense elements present"
    using assms(2) by (auto simp: is_dense_def split: array_storage.splits)
  have "array_own a r (Key_Index i) = Some p \<Longrightarrow> is_configurable (own_layout p)" for i p
    using assms(1) st record_no_index [OF array_inv_wf [OF assms(1)]]
    by (auto simp: array_own_index [OF array_inv_wf [OF assms(1)]] array_inv_def default_property_def split: option.splits)
  then show ?thesis by (auto simp: blockers_def)
qed

lemma release_exact:
  assumes "removed \<le> unat n"
  shows "unat (saturating_sub n (usize_to_u64 removed)) = unat n - removed"
proof -
  have "unat n < 2 ^ LENGTH(64)" by (rule unsigned_less)
  then have r: "removed < 2 ^ 64" using assms by simp
  then have u: "unat (usize_to_u64 removed) = removed" by (simp add: usize_to_u64_def unsigned_of_nat take_bit_nat_eq_self)
  then have "usize_to_u64 removed \<le> n" using assms by (simp add: word_le_nat_alt)
  then show ?thesis using u by (simp add: saturating_sub_def unat_sub)
qed

definition array_length_ok ::
  "id \<Rightarrow> bool \<Rightarrow> array_state \<Rightarrow> object_record \<Rightarrow> heap \<Rightarrow> heap \<Rightarrow> array_state \<Rightarrow> object_record \<Rightarrow> bool" where
  "array_length_ok x w a r s s' a' r' \<longleftrightarrow>
     holds_array s' x a' r' \<and> array_wf a' r' w \<and> or_extensible r' = or_extensible r \<and> or_prototype r' = or_prototype r \<and>
     (\<forall>y. y \<noteq> x \<longrightarrow> arena_get (hp_objects s') y = arena_get (hp_objects s) y) \<and>
     hp_functions s' = hp_functions s \<and> hp_cells s' = hp_cells s \<and>
     (array_count a r \<le> unat (hp_object_properties s) \<longrightarrow>
        unat (hp_object_properties s') + array_count a r = unat (hp_object_properties s) + array_count a' r')"

text \<open>The common end of a truncation: elements are gone, then the count and the length follow.\<close>

lemma truncated_run:
  assumes h: "holds_array s x a r" and wf: "array_wf a r w" and inv: "array_inv (unat n) a1 r1"
    and slot: "record_own r1 length_key = Some (length_property w m)"
    and count: "array_count a r = array_count a1 r1 + removed"
    and same: "or_extensible r1 = or_extensible r" "or_prototype r1 = or_prototype r"
    and run: "hbind (put_heap_object x (array_object a1 r1)) (\<lambda>_. hbind (release_properties removed) (\<lambda>_.
      hbind (update_array_length x n) (\<lambda>_. hbind mark_collection_pending (\<lambda>_. hreturn y)))) s = (res, s')"
  shows "res = Inr y \<and> (\<exists>a' r'. array_length_ok x w a r s s' a' r' \<and>
    array_own a' r' = (array_own a1 r1)(length_key \<mapsto> length_property w n))"
proof -
  let ?c = "saturating_sub (hp_object_properties s) (usize_to_u64 removed)"
  let ?s1 = "(upd x a1 r1 s)\<lparr>hp_object_properties := ?c\<rparr>"
  have h1: "holds_array ?s1 x a1 r1" using holds_upd(2) [OF h] by simp
  obtain r2 where e: "update_array_length x n ?s1 = (Inr (), upd x (a1\<lparr>as_length := n\<rparr>) r2 ?s1)" "array_wf (a1\<lparr>as_length := n\<rparr>) r2 w"
    "array_own (a1\<lparr>as_length := n\<rparr>) r2 = (array_own a1 r1)(length_key \<mapsto> length_property w n)"
    "array_count (a1\<lparr>as_length := n\<rparr>) r2 = array_count a1 r1" "or_extensible r2 = or_extensible r1" "or_prototype r2 = or_prototype r1"
    using update_array_length_run [OF h1 inv slot, of n] by blast
  have r: "res = Inr y" "s' = (upd x (a1\<lparr>as_length := n\<rparr>) r2 ?s1)\<lparr>hp_collection_pending := True\<rparr>"
    using run e(1) by (simp_all add: hbind_def holds_upd(1) [OF h] release_properties_def hmodify_def mark_collection_pending_def hreturn_def)
  have s': "s' = (upd x (a1\<lparr>as_length := n\<rparr>) r2 s)\<lparr>hp_object_properties := ?c, hp_collection_pending := True\<rparr>"
    using r(2) holds_upd(3) [OF h] by simp
  have "array_length_ok x w a r s s' (a1\<lparr>as_length := n\<rparr>) r2"
    using e same holds_upd [OF h] count release_exact [of removed "hp_object_properties s"]
    by (auto simp: array_length_ok_def s')
  then show ?thesis using r(1) e(3) by blast
qed

lemma set_length_run:
  assumes h: "holds_array s x a r" and wf: "array_wf a r w" and run: "set_array_length x n s = (res, s')"
  shows "\<exists>a' r' outcome. res = Inr outcome \<and> array_length_ok x w a r s s' a' r' \<and>
    (outcome, array_own a' r') = es_set_length (array_own a r) w (as_length a) n"
proof -
  have inv: "array_inv (unat (as_length a)) a r" and slot: "record_own r length_key = Some (length_property w (as_length a))"
    using wf by (simp_all add: array_wf_def)
  note lw = length_property_def
  consider (readonly) "\<not> w" | (grow) "w" "as_length a \<le> n" | (dense) "w" "\<not> as_length a \<le> n" "is_dense a"
    | (sparse) "w" "\<not> as_length a \<le> n" "\<not> is_dense a" by blast
  then show ?thesis
  proof cases
    case readonly
    then have "res = Inr Length_ReadOnly \<and> s' = s" using run slot
      by (auto simp: set_array_length_def hbind_def holds_array_ops [OF h] hreturn_def lw)
    then show ?thesis using readonly h wf
      by (intro exI [of _ a] exI [of _ r]) (simp add: array_length_ok_def es_set_length_def)
  next
    case grow
    obtain r' where e: "update_array_length x n s = (Inr (), upd x (a\<lparr>as_length := n\<rparr>) r' s)" "array_wf (a\<lparr>as_length := n\<rparr>) r' w"
      "array_own (a\<lparr>as_length := n\<rparr>) r' = (array_own a r)(length_key \<mapsto> length_property w n)"
      "array_count (a\<lparr>as_length := n\<rparr>) r' = array_count a r" "or_extensible r' = or_extensible r" "or_prototype r' = or_prototype r"
      using update_array_length_run [OF h inv slot, of n] grow(2) by (auto simp: word_le_nat_alt)
    have "res = Inr Length_Complete \<and> s' = (upd x (a\<lparr>as_length := n\<rparr>) r' s)\<lparr>hp_collection_pending := True\<rparr>" using run slot grow e(1)
      by (auto simp: set_array_length_def hbind_def holds_array_ops [OF h] hreturn_def lw mark_collection_pending_def hmodify_def)
    then show ?thesis using grow e holds_upd [OF h]
      by (intro exI [of _ "a\<lparr>as_length := n\<rparr>"] exI [of _ r']) (simp add: array_length_ok_def es_set_length_def)
  next
    case dense
    obtain removed a1 where t: "truncate_dense n a = (removed, a1)" by (cases "truncate_dense n a")
    note e = array_truncate_dense [OF inv dense(3) t]
    have run': "hbind (put_heap_object x (array_object a1 r)) (\<lambda>_. hbind (release_properties removed) (\<lambda>_.
      hbind (update_array_length x n) (\<lambda>_. hbind mark_collection_pending (\<lambda>_. hreturn Length_Complete)))) s = (res, s')"
      using run slot dense t by (simp add: set_array_length_def hbind_def [where m = "heap_object_at _ _"] holds_array_ops [OF h] lw)
    from truncated_run [OF h wf conjunct1 [OF e] slot _ refl refl run'] e
    obtain a' r' where "res = Inr Length_Complete" "array_length_ok x w a r s s' a' r'"
      "array_own a' r' = (array_own a1 r)(length_key \<mapsto> length_property w n)" by blast
    then show ?thesis using e dense dense_no_blockers [OF inv dense(3), of n]
      by (intro exI [of _ a'] exI [of _ r']) (simp add: es_set_length_def Let_def)
  next
    case sparse
    have sp: "as_storage a = Sparse" using sparse(3) by (simp add: is_dense_def split: array_storage.splits)
    obtain tr r1 where t: "truncate_array_indices n r = (tr, r1)" by (cases "truncate_array_indices n r")
    note e = array_truncate_sparse [OF inv sparse(3) t] and l = truncate_length [OF array_inv_wf [OF inv] t]
    let ?out = "case tr_blocked_index tr of Some i \<Rightarrow> Length_BlockedByNonConfigurable i (tr_final_length tr) | None \<Rightarrow> Length_Complete"
    have slot1: "record_own r1 length_key = Some (length_property w (as_length a))"
      using e slot by (metis (no_types, lifting) array_own_length index_at_least_length)
    have run': "hbind (put_heap_object x (array_object a r1)) (\<lambda>_. hbind (release_properties (tr_removed tr)) (\<lambda>_.
      hbind (update_array_length x (tr_final_length tr)) (\<lambda>_. hbind mark_collection_pending (\<lambda>_. hreturn ?out)))) s = (res, s')"
      using run slot sparse t by (simp add: set_array_length_def hbind_def [where m = "heap_object_at _ _"] holds_array_ops [OF h] lw)
    from truncated_run [OF h wf conjunct1 [OF e] slot1 _ _ _ run'] e
    obtain a' r' where "res = Inr ?out" "array_length_ok x w a r s s' a' r'"
      "array_own a' r' = (array_own a r1)(length_key \<mapsto> length_property w (tr_final_length tr))" by blast
    then show ?thesis using e l sparse
      by (intro exI [of _ a'] exI [of _ r']) (auto simp: es_set_length_def Let_def array_own_sparse [OF sp])
  qed
qed

section \<open>Deletion\<close>

definition es_delete ::
  "(property_key \<rightharpoonup> Define_Property.own_property) \<Rightarrow> property_key \<Rightarrow> property_deletion \<times> (property_key \<rightharpoonup> Define_Property.own_property)" where
  "es_delete own key =
     (case own key of
        None \<Rightarrow> (Missing, own)
      | Some p \<Rightarrow> if is_configurable (own_layout p) then (Deleted, own(key := None)) else (NotConfigurable, own))"

lemma delete_dense_cases:
  assumes inv: "array_inv N a r"
  shows "(delete_dense i a = (False, a) \<and> dense_value i a = None) \<or>
    (\<exists>a' v. delete_dense i a = (True, a') \<and> array_inv N a' r \<and> as_length a' = as_length a \<and>
       array_own a r (Key_Index i) = Some (default_property v) \<and> array_own a' r = (array_own a r)(Key_Index i := None) \<and>
       array_count a r = Suc (array_count a' r))"
proof (cases "dense_value i a")
  case None
  then have "delete_dense i a = (False, a)"
    by (auto simp: delete_dense_def dense_value_def get_def split: array_storage.splits option.splits if_splits)
  then show ?thesis using None by simp
next
  case (Some v)
  let ?k = "unat (index_get i)"
  obtain elements present where st: "as_storage a = Dense elements present" and k: "?k < length elements" "elements ! ?k = Some v"
    using Some by (auto simp: dense_value_def split: array_storage.splits option.splits)
  have wf: "record_wf r" and none: "\<not> has_indexed_property r" and p: "present = present_count elements"
    using inv st by (auto simp: array_inv_def)
  define a1 where "a1 = a\<lparr>as_storage := Dense (elements[?k := None]) (present - 1)\<rparr>"
  have d: "delete_dense i a = (True, a1)" using st k by (simp add: delete_dense_def get_def a1_def)
  have c: "present_count (elements[?k := None]) + 1 = present" using present_count_update [OF k(1), of None] k(2) p by simp
  have dv: "dense_value j a1 = (if j = i then None else dense_value j a)" for j
  proof (cases "j = i")
    case False
    then have "unat (index_get j) \<noteq> ?k" by (metis array_index.expand word_unat_eq_iff)
    then show ?thesis using False st by (simp add: dense_value_def get_def a1_def)
  qed (use k in \<open>simp add: dense_value_def get_def a1_def\<close>)
  have "array_own a1 r key = ((array_own a r)(Key_Index i := None)) key" for key
    by (cases key) (simp_all add: array_own_index [OF wf] dv record_no_index [OF wf none])
  moreover have "array_inv N a1 r" using inv st c by (auto simp: array_inv_def a1_def)
  moreover have "array_count a r = Suc (array_count a1 r)"
    using st c by (simp add: array_count_eq [OF wf] dense_property_count_def a1_def)
  ultimately show ?thesis using d Some by (intro disjI2 exI [of _ a1] exI [of _ v]) (auto simp: array_own_index [OF wf] a1_def)
qed

lemma filter_key_once: "distinct (map fst xs) \<Longrightarrow> (k, v) \<in> set xs \<Longrightarrow> length (filter (\<lambda>x. fst x = k) xs) = 1"
proof (induction xs)
  case (Cons x xs)
  have "fst x = k \<Longrightarrow> filter (\<lambda>x. fst x = k) xs = []" using Cons.prems(1)
    by (auto simp: filter_empty_conv) (metis fst_conv image_eqI)
  then show ?case using Cons by (cases "fst x = k") auto
qed simp

lemma detach_array_run:
  "holds_array s x a r \<Longrightarrow> detach_mapped_arguments_property x key s = (Inr None, s)"
  using upd_id holds_upd(1)
  by (auto simp: detach_mapped_arguments_property_def hbind_def hreturn_def holds_array_ops detach_arguments_cell_def split: option.splits)

lemma deleted_run:
  assumes h: "holds_array s x a r" and wf: "array_wf a' r' w" and own: "array_own a' r' = (array_own a r)(key := None)"
    and same: "or_extensible r' = or_extensible r" "or_prototype r' = or_prototype r" and count: "array_count a r = Suc (array_count a' r')"
  shows "array_length_ok x w a r s ((upd x a' r' s)\<lparr>hp_object_properties := saturating_sub (hp_object_properties s) 1, hp_collection_pending := True\<rparr>) a' r'"
proof -
  have "1 \<le> unat (hp_object_properties s) \<Longrightarrow> unat (saturating_sub (hp_object_properties s) 1) = unat (hp_object_properties s) - 1"
    using release_exact [of 1 "hp_object_properties s"] by (simp add: usize_to_u64_def)
  then show ?thesis using assms holds_upd [OF h] by (auto simp: array_length_ok_def)
qed

lemma array_length_atom: "array_wf a r w \<Longrightarrow> array_own a r length_key = Some (length_property w (as_length a))"
  by (simp add: array_wf_def)

lemma delete_array_run:
  assumes h: "holds_array s x a r" and wf: "array_wf a r w" and run: "heap_delete_own_property (Ref_Object x) key s = (res, s')"
  shows "\<exists>a' r' outcome. res = Inr outcome \<and> array_length_ok x w a r s s' a' r' \<and> (outcome, array_own a' r') = es_delete (array_own a r) key"
proof -
  have inv: "array_inv (unat (as_length a)) a r" and slot: "record_own r length_key = Some (length_property w (as_length a))"
    using wf by (simp_all add: array_wf_def)
  have rwf: "record_wf r" using inv by (simp add: array_inv_def)
  consider (dense) i a1 v where "key = Key_Index i" "delete_dense i a = (True, a1)" "array_inv (unat (as_length a)) a1 r"
      "as_length a1 = as_length a" "array_own a r key = Some (default_property v)" "array_own a1 r = (array_own a r)(key := None)"
      "array_count a r = Suc (array_count a1 r)"
    | (shape) "delete_dense_element (Ref_Object x) key s = (Inr False, s)" "array_own a r key = record_own r key"
  proof (cases key)
    case (Key_Index i)
    from delete_dense_cases [OF inv, of i] show thesis
    proof (elim disjE exE conjE)
      assume e: "delete_dense i a = (False, a)" "dense_value i a = None"
      then have "delete_dense_element (Ref_Object x) key s = (Inr False, s)"
        using Key_Index holds_upd(1) [OF h, of a r] upd_id [OF h]
        by (simp add: delete_dense_element_def hbind_def hreturn_def holds_array_ops [OF h])
      then show thesis using e Key_Index shape by (simp add: array_own_index [OF rwf])
    qed (use Key_Index dense in blast)
  next
    case (Key_Atom y k)
    then show thesis using shape by (simp add: delete_dense_element_def hreturn_def)
  qed
  then show ?thesis
  proof cases
    case dense
    have "delete_dense_element (Ref_Object x) key s = (Inr True, upd x a1 r s)"
      using dense holds_upd(1) [OF h, of a1 r] by (simp add: delete_dense_element_def hbind_def hreturn_def holds_array_ops [OF h])
    then have "res = Inr Deleted \<and> s' = (upd x a1 r s)\<lparr>hp_object_properties := saturating_sub (hp_object_properties s) 1, hp_collection_pending := True\<rparr>"
      using run detach_array_run [OF holds_upd(2) [OF h, of a1 r], of key]
      by (auto simp: heap_delete_own_property_def hbind_def hreturn_def hmodify_def)
    moreover have "array_wf a1 r w" using dense slot by (simp add: array_wf_def)
    ultimately show ?thesis using deleted_run [OF h _ dense(6) refl refl dense(7)] dense(5,6)
      by (intro exI [of _ a1] exI [of _ r]) (auto simp: es_delete_def default_property_def)
  next
    case shape
    obtain d r1 where del: "delete_own_property key r = (d, r1)" by (cases "delete_own_property key r")
    note e = delete_own_property_cases [OF rwf, of key, unfolded del fst_conv snd_conv]
    have run1: "hbind (hbind (heap_record (Ref_Object x)) (\<lambda>r. case delete_own_property key r of
        (deletion, r') \<Rightarrow> hbind (put_heap_record (Ref_Object x) r') (\<lambda>_. hreturn deletion))) (\<lambda>deletion.
          if deletion = Deleted then
            hbind (hbind (detach_mapped_arguments_property x key) (\<lambda>_. hreturn ())) (\<lambda>_.
            hbind (hmodify (\<lambda>s. s\<lparr>hp_object_properties := saturating_sub (hp_object_properties s) 1,
                               hp_collection_pending := True\<rparr>)) (\<lambda>_. hreturn deletion))
          else hreturn deletion) s = (res, s')"
      using run shape(1) by (simp add: heap_delete_own_property_def hbind_def [where m = "delete_dense_element _ _"] cong: if_cong)
    have run2: "(if d = Deleted then (Inr d, (upd x a r1 s)\<lparr>hp_object_properties := saturating_sub (hp_object_properties s) 1,
        hp_collection_pending := True\<rparr>) else (Inr d, upd x a r1 s)) = (res, s')"
      using run1 detach_array_run [OF holds_upd(2) [OF h, of a r1], of key]
      by (auto simp: hbind_def hreturn_def hmodify_def holds_array_ops [OF h] del split: if_splits)
    show ?thesis
    proof (cases "d = Deleted")
      case False
      then have same: "r1 = r" and d: "(d, array_own a r) = es_delete (array_own a r) key"
        using e shape(2) by (auto simp: es_delete_def split: option.splits if_splits)
      have "res = Inr d" "s' = s" using run2 False upd_id [OF h] same by auto
      then show ?thesis using h wf d by (intro exI [of _ a] exI [of _ r]) (simp add: array_length_ok_def)
    next
      case True
      obtain p where p: "record_own r key = Some p" "is_configurable (own_layout p)"
        using e True by (auto split: option.splits if_splits)
      have lk: "key \<noteq> length_key" using p slot by (auto simp: length_property_def)
      have entries: "entries r1 = filter (\<lambda>x. fst x \<noteq> key) (entries r)" and rwf1: "record_wf r1" using e True by simp_all
      have own: "record_own r1 = (record_own r)(key := None)"
        using map_of_filter_key [of "\<lambda>k. k \<noteq> key" "entries r"] by (auto simp: fun_eq_iff own_property_map_of rwf rwf1 entries)
      have dv: "key = Key_Index i \<Longrightarrow> dense_value i a = None" for i
        using p shape(2) delete_dense_cases [OF inv, of i] shape(1) holds_upd [OF h]
        by (auto simp: delete_dense_element_def hbind_def hreturn_def holds_array_ops [OF h])
      have aown: "array_own a r1 k = ((array_own a r)(key := None)) k" for k
        using own dv by (cases k; cases key) (auto simp: array_own_index rwf rwf1 split: option.splits)
      then have aown_eq: "array_own a r1 = (array_own a r)(key := None)" by auto
      have "array_inv (unat (as_length a)) a r1"
        using inv own rwf1 has_indexed_property_own [OF rwf] has_indexed_property_own [OF rwf1]
        by (auto simp: array_inv_def split: array_storage.splits if_splits)
      then have wf1: "array_wf a r1 w" using own lk slot by (simp add: array_wf_def)
      have "length (filter (\<lambda>x. fst x = key) (entries r)) = 1"
      proof -
        have "distinct (map fst (entries r))" using rwf by (simp add: map_fst_entries distinct_own_keys)
        moreover have "(key, p) \<in> set (entries r)" using p(1) by (simp add: own_property_map_of rwf map_of_SomeD)
        ultimately show ?thesis by (rule filter_key_once)
      qed
      then have "array_count a r = Suc (array_count a r1)"
        using sum_length_filter_compl [of "\<lambda>x. fst x = key" "entries r"] by (simp add: array_count_eq rwf rwf1 entries)
      then have "array_length_ok x w a r s s' a r1"
        using deleted_run [OF h wf1 aown_eq] e run2 True by auto
      then show ?thesis using run2 True p shape(2) aown
        by (intro exI [of _ a] exI [of _ r1]) (auto simp: es_delete_def fun_eq_iff)
    qed
  qed
qed

end
