(* ===== verification/Define_Own.thy ===== *)
theory Define_Own
  imports Object_Heap
begin

text \<open>
  \<^verbatim>\<open>[[DefineOwnProperty]]\<close> and its relatives on the heap: \<^verbatim>\<open>define_own_property\<close> and \<^verbatim>\<open>heap_own_property\<close> of
  \<^verbatim>\<open>vm/properties.rs\<close>, \<^verbatim>\<open>ArraySetLength\<close> of \<^verbatim>\<open>vm/conversions.rs\<close> after the conversion of the length, and
  \<^verbatim>\<open>OrdinaryPreventExtensions\<close> of \<^verbatim>\<open>runtime/heap.rs\<close>. Module namespaces, typed arrays, string wrappers and proxies
  answer before the code modelled here and are not among the objects of the model.
\<close>

section \<open>Work\<close>

text \<open>
  The capacity of the element vector is not determined by its contents; it is the parameter
  \<open>capacity\<close>.
\<close>

definition dense_store_work :: "usize \<Rightarrow> array_index \<Rightarrow> array_state \<Rightarrow> u64 option" where
  "dense_store_work capacity i a =
     (case as_storage a of
        Sparse \<Rightarrow> None
      | Dense elements _ \<Rightarrow>
          if \<not> can_store_dense i a then None
          else let index = unat (index_get i);
                   additional = index + 1 - length elements;
                   relocation = (if capacity < index + 1 then length elements else 0)
               in Some (saturating_add (usize_to_u64 (additional + relocation)) 1))"

definition preview_array_define_data_property_work :: "usize \<Rightarrow> id \<Rightarrow> property_key \<Rightarrow> u64 heap_op" where
  "preview_array_define_data_property_work capacity x key =
     hbind (heap_object_at ''array object'' x) (\<lambda>h.
       case ho_array_state h of
         None \<Rightarrow> invariant_violation ''array definition work preview received a non-array object''
       | Some a \<Rightarrow>
           (case (case as_index key of None \<Rightarrow> None | Some i \<Rightarrow> dense_store_work capacity i a) of
              Some work \<Rightarrow> hreturn work
            | None \<Rightarrow> hreturn (saturating_add (saturating_mul (usize_to_u64 (object_property_count h)) 4) 4)))"

definition preview_array_length_write_work :: "id \<Rightarrow> u64 heap_op" where
  "preview_array_length_write_work x =
     hbind (heap_object_at ''array object'' x) (\<lambda>h.
       if ho_array_state h = None then invariant_violation ''array length work preview received a non-array object''
       else hreturn (saturating_add (saturating_mul (usize_to_u64 (object_property_count h)) 4) 4))"

definition charge_instructions :: "u64 \<Rightarrow> unit heap_op" where
  "charge_instructions additional s =
     (if saturating_sub (hp_instruction_limit s) (hp_executed_instructions s) < additional
      then (Inl (EE_InstructionLimitExceeded (hp_instruction_limit s) (hp_instruction_limit s)),
            s\<lparr>hp_executed_instructions := hp_instruction_limit s\<rparr>)
      else (Inr (), s\<lparr>hp_executed_instructions := saturating_add (hp_executed_instructions s) additional\<rparr>))"

section \<open>Own properties\<close>

definition heap_own_property :: "heap_reference \<Rightarrow> property_key \<Rightarrow> Define_Property.own_property option heap_op" where
  "heap_own_property reference key =
     hbind (case reference of
              Ref_Object x \<Rightarrow>
                hbind (is_array_object x) (\<lambda>is_array.
                  if is_array then heap_array_own_property x key
                  else hbind (heap_record reference) (\<lambda>r. hreturn (Object_Record.own_property r key)))
            | Ref_Function _ \<Rightarrow> hbind (heap_record reference) (\<lambda>r. hreturn (Object_Record.own_property r key))) (\<lambda>found.
       case found of
         None \<Rightarrow> hreturn None
       | Some property \<Rightarrow>
           (case reference of
              Ref_Function _ \<Rightarrow> hreturn (Some property)
            | Ref_Object x \<Rightarrow>
                hbind (mapped_arguments_value x key) (\<lambda>mapped.
                  case mapped of
                    None \<Rightarrow> hreturn (Some property)
                  | Some v \<Rightarrow>
                      (case property of
                         OP_Data layout _ \<Rightarrow> hreturn (Some (OP_Data layout v))
                       | OP_Accessor _ _ _ \<Rightarrow> invariant_violation ''mapped arguments property remains a data property''))))"

datatype property_failure = Fail_ReadOnly | Fail_NotConfigurable | Fail_NonExtensible

datatype property_definition_outcome = Definition_Complete | Definition_Failed property_failure

definition array_property_definition_outcome :: "array_define_outcome \<Rightarrow> property_definition_outcome" where
  "array_property_definition_outcome outcome =
     (case outcome of
        Define_Complete \<Rightarrow> Definition_Complete
      | Define_ReadOnlyLength \<Rightarrow> Definition_Failed Fail_ReadOnly
      | Define_NonExtensible \<Rightarrow> Definition_Failed Fail_NonExtensible)"

definition apply_mapped_arguments_definition ::
  "(id \<times> id) option \<Rightarrow> property_key \<Rightarrow> property_definition \<Rightarrow> unit heap_op" where
  "apply_mapped_arguments_definition mapped key d =
     (case mapped of
        None \<Rightarrow> hreturn ()
      | Some (x, cell) \<Rightarrow>
          if is_accessor d then hbind (detach_mapped_arguments_property x key) (\<lambda>_. hreturn ())
          else
            hbind (case present_data_value d of
                     Some v \<Rightarrow> replace_mapped_arguments_cell_value cell v
                   | None \<Rightarrow> hreturn ()) (\<lambda>_.
              if requested_writable d = Some False
              then hbind (detach_mapped_arguments_property x key) (\<lambda>_. hreturn ())
              else hreturn ()))"

definition mapped_object :: "heap_reference \<Rightarrow> property_key \<Rightarrow> (id \<times> id) option heap_op" where
  "mapped_object reference key =
     (case reference of
        Ref_Object x \<Rightarrow> hbind (mapped_arguments_cell x key) (\<lambda>cell. hreturn (map_option (\<lambda>c. (x, c)) cell))
      | Ref_Function _ \<Rightarrow> hreturn None)"

definition is_array_reference :: "heap_reference \<Rightarrow> bool heap_op" where
  "is_array_reference reference = (case reference of Ref_Object x \<Rightarrow> is_array_object x | Ref_Function _ \<Rightarrow> hreturn False)"

text \<open>The route of an indexed definition on an array, with the work it is charged.\<close>

definition define_array_element ::
  "allocator \<Rightarrow> usize \<Rightarrow> id \<Rightarrow> property_key \<Rightarrow> Define_Property.own_property \<Rightarrow> property_definition_outcome heap_op" where
  "define_array_element alloc capacity x key property =
     hbind (preview_array_define_data_property_work capacity x key) (\<lambda>work.
     hbind (charge_instructions work) (\<lambda>_.
     hbind (define_array_own_property alloc x key property) (\<lambda>outcome.
       hreturn (array_property_definition_outcome outcome))))"

definition commit_replace ::
  "allocator \<Rightarrow> usize \<Rightarrow> heap_reference \<Rightarrow> property_key \<Rightarrow> property_definition \<Rightarrow> (id \<times> id) option \<Rightarrow>
     Define_Property.own_property \<Rightarrow> property_definition_outcome heap_op" where
  "commit_replace alloc capacity reference key d mapped property =
     hbind (is_array_reference reference) (\<lambda>is_array.
       case reference of
         Ref_Object x \<Rightarrow>
           if is_array \<and> as_index key \<noteq> None then define_array_element alloc capacity x key property
           else
             hbind (heap_record reference) (\<lambda>r.
               case replace_existing_property key property r of
                 None \<Rightarrow> invariant_violation ''located own property disappeared before its definition''
               | Some (_, r') \<Rightarrow>
                   hbind (put_heap_record reference r') (\<lambda>_.
                   hbind mark_collection_pending (\<lambda>_.
                   hbind (apply_mapped_arguments_definition mapped key d) (\<lambda>_. hreturn Definition_Complete))))
       | Ref_Function _ \<Rightarrow>
           hbind (heap_record reference) (\<lambda>r.
             case replace_existing_property key property r of
               None \<Rightarrow> invariant_violation ''located own property disappeared before its definition''
             | Some (_, r') \<Rightarrow>
                 hbind (put_heap_record reference r') (\<lambda>_.
                 hbind mark_collection_pending (\<lambda>_.
                 hbind (apply_mapped_arguments_definition mapped key d) (\<lambda>_. hreturn Definition_Complete)))))"

definition commit_create ::
  "allocator \<Rightarrow> usize \<Rightarrow> heap_reference \<Rightarrow> property_key \<Rightarrow> property_definition \<Rightarrow> (id \<times> id) option \<Rightarrow>
     Define_Property.own_property \<Rightarrow> property_definition_outcome heap_op" where
  "commit_create alloc capacity reference key d mapped property =
     hbind (is_array_reference reference) (\<lambda>is_array.
       let append = hbind (append_own_property alloc reference key property) (\<lambda>_.
             hbind (apply_mapped_arguments_definition mapped key d) (\<lambda>_. hreturn Definition_Complete))
       in case reference of
            Ref_Object x \<Rightarrow>
              if is_array \<and> as_index key \<noteq> None then define_array_element alloc capacity x key property else append
          | Ref_Function _ \<Rightarrow> append)"

definition heap_define_own_property ::
  "allocator \<Rightarrow> usize \<Rightarrow> heap_reference \<Rightarrow> property_key \<Rightarrow> property_definition \<Rightarrow> property_definition_outcome heap_op" where
  "heap_define_own_property alloc capacity reference key d =
     hbind (mapped_object reference key) (\<lambda>mapped.
     hbind (is_array_reference reference) (\<lambda>is_array.
       if is_array \<and> as_atom key = Some LENGTH_ATOM \<and> has_present_data_value d
       then hreturn (Definition_Failed Fail_NotConfigurable)
       else
         hbind (case mapped of
                  Some (x, _) \<Rightarrow>
                    if requested_writable d = Some False \<and> present_data_value d = None
                    then synchronize_mapped_arguments_property x key
                    else hreturn ()
                | None \<Rightarrow> hreturn ()) (\<lambda>_.
         hbind (heap_own_property reference key) (\<lambda>existing.
         hbind (heap_record reference) (\<lambda>r.
           case (case existing of
                   Some e \<Rightarrow> validate_and_apply_existing d e
                 | None \<Rightarrow> validate_and_apply_new d (or_extensible r)) of
             Unchanged \<Rightarrow>
               hbind (apply_mapped_arguments_definition mapped key d) (\<lambda>_. hreturn Definition_Complete)
           | Rejected \<Rightarrow>
               hreturn (Definition_Failed (if existing \<noteq> None then Fail_NotConfigurable else Fail_NonExtensible))
           | Replace property \<Rightarrow> commit_replace alloc capacity reference key d mapped property
           | Create property \<Rightarrow> commit_create alloc capacity reference key d mapped property)))))"

section \<open>Length definitions\<close>

record array_length_definition =
  ld_writable :: "bool option"
  ld_enumerable :: "bool option"
  ld_configurable :: "bool option"

text \<open>The boolean is whether the definition succeeded; the caller turns it into its own completion.\<close>

definition finish_array_length_definition :: "id \<Rightarrow> u32 \<Rightarrow> array_length_definition \<Rightarrow> bool heap_op" where
  "finish_array_length_definition x n requested =
     hbind (heap_array_own_property x length_key) (\<lambda>found.
       case found of
         None \<Rightarrow> invariant_violation ''ArraySetLength target has no own length property''
       | Some existing \<Rightarrow>
           let current_writable = (layout_writable (own_layout existing) = Some True);
               d = with_configurable (requested_flag (ld_configurable requested))
                     (with_enumerable (requested_flag (ld_enumerable requested))
                       (definition_data (Present (SV_Number (number_from_u32 n))) (requested_flag (ld_writable requested))));
               finish = (\<lambda>final_writable.
                 hbind (heap_object_at ''object'' x) (\<lambda>h.
                   case ho_array_state h of
                     None \<Rightarrow> invariant_violation ''ArraySetLength target lost its Array state''
                   | Some a \<Rightarrow>
                       hbind (if as_length a = n then hreturn Length_Complete
                              else hbind (preview_array_length_write_work x) (\<lambda>work.
                                   hbind (charge_instructions work) (\<lambda>_. set_array_length x n))) (\<lambda>outcome.
                       hbind (if current_writable \<and> \<not> final_writable then set_array_length_writable x False else hreturn ()) (\<lambda>_.
                         case outcome of
                           Length_Complete \<Rightarrow> hreturn True
                         | Length_BlockedByNonConfigurable _ _ \<Rightarrow> hreturn False
                         | Length_ReadOnly \<Rightarrow>
                             invariant_violation ''validated ArraySetLength definition reached a read-only mutation''))))
           in case validate_and_apply_existing d existing of
                Rejected \<Rightarrow> hreturn False
              | Unchanged \<Rightarrow> finish (layout_writable (own_layout existing) = Some True)
              | Replace (OP_Data layout _) \<Rightarrow> finish (layout_writable layout = Some True)
              | Replace (OP_Accessor _ _ _) \<Rightarrow>
                  invariant_violation ''ArraySetLength validation changed the length property's kind or presence''
              | Create _ \<Rightarrow>
                  invariant_violation ''ArraySetLength validation changed the length property's kind or presence'')"

section \<open>Extensibility\<close>

definition heap_prevent_extensions :: "heap_reference \<Rightarrow> unit heap_op" where
  "heap_prevent_extensions target =
     hbind (heap_record target) (\<lambda>r. put_heap_record target (prevent_extensions r))"

end
