(* ===== verification/Array_Invariants.thy ===== *)
theory Array_Invariants
  imports Array_Exotic Define_Own
begin

text \<open>
  The essential invariants of ECMAScript on arrays: whatever a script does to an array, a property that
  is not configurable stays and keeps its attributes, a value that is not writable stays the same, and
  an array that is not extensible gains no property.
\<close>

section \<open>What must stay\<close>

fun property_kept :: "Define_Property.own_property \<Rightarrow> Define_Property.own_property \<Rightarrow> bool" where
  "property_kept (OP_Data l v) (OP_Data k u) \<longleftrightarrow>
     \<not> is_configurable k \<and> is_enumerable k = is_enumerable l \<and>
     (layout_writable l \<noteq> Some True \<longrightarrow> layout_writable k \<noteq> Some True \<and> same_value v u)"
| "property_kept (OP_Accessor l g s) (OP_Accessor k h t) \<longleftrightarrow>
     \<not> is_configurable k \<and> is_enumerable k = is_enumerable l \<and> g = h \<and> s = t"
| "property_kept _ _ \<longleftrightarrow> False"

definition evolves ::
  "(property_key \<rightharpoonup> Define_Property.own_property) \<Rightarrow> bool \<Rightarrow> (property_key \<rightharpoonup> Define_Property.own_property) \<Rightarrow> bool \<Rightarrow> bool" where
  "evolves own e own' e' \<longleftrightarrow>
     (\<forall>key p. own key = Some p \<and> \<not> is_configurable (own_layout p) \<longrightarrow> (\<exists>q. own' key = Some q \<and> property_kept p q)) \<and>
     (\<not> e \<longrightarrow> \<not> e' \<and> dom own' \<subseteq> dom own)"

lemma property_kept_refl: "\<not> is_configurable (own_layout p) \<Longrightarrow> property_kept p p"
  by (cases p) simp_all

lemma property_kept_not_configurable: "property_kept p q \<Longrightarrow> \<not> is_configurable (own_layout q)"
  by (cases p; cases q) simp_all

lemma property_kept_trans: "property_kept p q \<Longrightarrow> property_kept q r \<Longrightarrow> property_kept p r"
  by (cases p; cases q; cases r) (auto intro: same_value_trans)

lemma evolves_refl: "evolves own e own e"
  by (auto simp: evolves_def intro: property_kept_refl)

lemma evolves_trans:
  assumes "evolves own e own1 e1" "evolves own1 e1 own2 e2"
  shows "evolves own e own2 e2"
proof -
  have "\<exists>q. own2 key = Some q \<and> property_kept p q" if own: "own key = Some p" "\<not> is_configurable (own_layout p)" for key p
  proof -
    obtain q where q: "own1 key = Some q" "property_kept p q" using assms(1) own unfolding evolves_def by blast
    then obtain t where "own2 key = Some t" "property_kept q t"
      using assms(2) property_kept_not_configurable [OF q(2)] unfolding evolves_def by blast
    then show ?thesis using q property_kept_trans by blast
  qed
  moreover have "\<not> e \<longrightarrow> \<not> e2 \<and> dom own2 \<subseteq> dom own" using assms unfolding evolves_def by blast
  ultimately show ?thesis unfolding evolves_def by blast
qed

lemma evolves_update:
  assumes "own key = None \<Longrightarrow> e" "\<And>q. own key = Some q \<Longrightarrow> \<not> is_configurable (own_layout q) \<Longrightarrow> property_kept q p"
  shows "evolves own e (own(key \<mapsto> p)) e"
  using assms by (auto simp: evolves_def domIff intro: property_kept_refl)

lemma compatible_kept:
  assumes "own_property_wf p" "\<not> is_configurable (own_layout p)" "es_compatible D p" "\<not> (es_is_accessor D \<and> es_is_data D)"
  shows "property_kept p (es_apply D p)"
proof (cases p)
  case (OP_Data l v)
  then obtain w e c where l: "l = PL_Data w e c" using assms(1) by (cases l) simp_all
  then show ?thesis using OP_Data assms
    by (cases "es_value D"; cases "es_writable D"; cases "es_enumerable D"; cases "es_configurable D")
      (auto simp: es_compatible_def es_apply_def Let_def es_is_accessor_def es_is_data_def same_value_sym)
next
  case (OP_Accessor l g s)
  then obtain e c where l: "l = PL_Accessor e c" using assms(1) by (cases l) simp_all
  then show ?thesis using OP_Accessor assms
    by (cases "es_get D"; cases "es_set D"; cases "es_enumerable D"; cases "es_configurable D")
      (auto simp: es_compatible_def es_apply_def Let_def es_is_accessor_def es_is_data_def)
qed

lemma es_apply_wf: "own_property_wf (es_apply D p)" "own_property_wf (es_create D)"
  by (auto simp: es_apply_def es_create_def Let_def split: Define_Property.own_property.splits)

section \<open>The specifications evolve\<close>

lemma length_kept: "property_kept (length_property True m) (length_property True n)"
  by (simp add: length_property_def)

lemma evolves_extend:
  assumes "own length_key = Some (length_property w n)" "extended_length n key \<noteq> None \<longrightarrow> w"
  shows "evolves own e (es_extend w n key own) e"
proof (cases "extended_length n key")
  case None
  then show ?thesis by (simp add: es_extend_def evolves_refl)
next
  case (Some m)
  then show ?thesis using assms by (auto simp: es_extend_def length_kept intro!: evolves_update)
qed

lemma evolves_array_define:
  assumes len: "own length_key = Some (length_property w n)" and lk: "key \<noteq> length_key"
    and kept: "\<And>q. own key = Some q \<Longrightarrow> \<not> is_configurable (own_layout q) \<Longrightarrow> property_kept q p"
  shows "evolves own e (snd (es_array_define own e w n key p)) e"
proof -
  consider (ro) "extended_length n key \<noteq> None \<and> \<not> w" | (ne) "\<not> (extended_length n key \<noteq> None \<and> \<not> w)" "own key = None \<and> \<not> e"
    | (ok) "\<not> (extended_length n key \<noteq> None \<and> \<not> w)" "own key = None \<longrightarrow> e" by blast
  then show ?thesis
  proof cases
    case ok
    have "evolves own e (own(key \<mapsto> p)) e" using ok(2) kept by (intro evolves_update) auto
    moreover have "evolves (own(key \<mapsto> p)) e (es_extend w n key (own(key \<mapsto> p))) e"
      using len lk ok(1) by (intro evolves_extend) auto
    ultimately have "evolves own e (es_extend w n key (own(key \<mapsto> p))) e" by (rule evolves_trans)
    moreover have "snd (es_array_define own e w n key p) = es_extend w n key (own(key \<mapsto> p))"
      using ok by (auto simp: es_array_define_def)
    ultimately show ?thesis by simp
  qed (auto simp: es_array_define_def evolves_refl)
qed

lemma evolves_define_view:
  assumes len: "array_own a r length_key = Some (length_property w (as_length a))" and lk: "key \<noteq> length_key"
    and kept: "\<And>q. array_own a r key = Some q \<Longrightarrow> \<not> is_configurable (own_layout q) \<Longrightarrow> property_kept q p"
  shows "evolves (array_own a r) (or_extensible r) (snd (array_define_view a r w key p)) (or_extensible r)"
proof (cases "loses_element a r key p \<and> fst (es_array_define (array_own a r) (or_extensible r) w (as_length a) key p) = Define_Complete")
  case True
  then have "extended_length (as_length a) key \<noteq> None \<longrightarrow> w" by (auto simp: es_array_define_def split: if_splits)
  then show ?thesis using True evolves_extend [of "array_own a r", OF len] by (simp add: array_define_view_def)
next
  case False
  then show ?thesis using evolves_array_define [of "array_own a r", OF len lk kept] by (auto simp: array_define_view_def)
qed

lemma evolves_set_length:
  assumes len: "own length_key = Some (length_property w m)" and fin: "finite (blockers own n)"
    and below: "\<And>i q. own (Key_Index i) = Some q \<Longrightarrow> unat (index_get i) < 4294967295"
  shows "evolves own e (snd (es_set_length own w m n)) e"
proof -
  let ?B = "blockers own n" and ?F = "if blockers own n = {} then n else index_get (Max (blockers own n)) + 1"
  let ?own = "\<lambda>key. if index_at_least ?F key then None else own key"
  have keep: "\<not> index_at_least ?F key" if own: "own key = Some p" "\<not> is_configurable (own_layout p)" for key p
  proof (cases key)
    case (Key_Index i)
    show ?thesis
    proof (cases "n \<le> index_get i")
      case True
      then have i: "i \<in> ?B" using own Key_Index by (auto simp: blockers_def)
      then have le: "index_get i \<le> index_get (Max ?B)" using fin by (metis Max_ge less_eq_array_index_def)
      have "Max ?B \<in> ?B" using i fin by (metis Max_in empty_iff)
      then have "unat (index_get (Max ?B)) < 4294967295" using below by (auto simp: blockers_def)
      then have "index_get i < index_get (Max ?B) + 1" using le by (simp add: word_le_nat_alt word_less_nat_alt unat_word_ariths)
      then show ?thesis using i Key_Index by (auto simp: index_at_least_def)
    next
      case False
      have "n \<le> ?F"
      proof (cases "?B = {}")
        case False
        then have "Max ?B \<in> ?B" using fin by simp
        then have "n \<le> index_get (Max ?B)" "unat (index_get (Max ?B)) < 4294967295" using below by (auto simp: blockers_def)
        then show ?thesis using False by (simp add: word_le_nat_alt unat_word_ariths)
      qed simp
      then show ?thesis using False Key_Index by (auto simp: index_at_least_def)
    qed
  qed (simp add: index_at_least_def)
  consider "\<not> w" | "w" "m \<le> n" | "w" "\<not> m \<le> n" by blast
  then show ?thesis
  proof cases
    case 1
    then show ?thesis by (simp add: es_set_length_def evolves_refl)
  next
    case 2
    then show ?thesis using len by (auto simp: es_set_length_def length_kept intro!: evolves_update)
  next
    case 3
    have "evolves own e ?own e" using keep by (auto simp: evolves_def dom_def intro: property_kept_refl)
    moreover have "evolves ?own e (?own(length_key \<mapsto> length_property w ?F)) e"
      using len 3(1) by (intro evolves_update) (auto simp: length_kept)
    ultimately have "evolves own e (?own(length_key \<mapsto> length_property w ?F)) e" by (rule evolves_trans)
    then show ?thesis using 3 by (simp add: es_set_length_def Let_def)
  qed
qed

lemma evolves_delete: "evolves own e (snd (es_delete own key)) e"
  by (auto simp: es_delete_def evolves_def dom_def intro: property_kept_refl split: option.splits)

section \<open>Steps on the heap\<close>

lemma hbind_hreturn [simp]: "hbind (hreturn y) f = f y"
  by (simp add: hbind_def hreturn_def fun_eq_iff)

lemma charge_holds [simp]:
  "holds_array (s\<lparr>hp_executed_instructions := n\<rparr>) x a r = holds_array s x a r"
  by (simp add: holds_array_def)

lemma array_reference_run:
  assumes "holds_array s x a r"
  shows "mapped_object (Ref_Object x) key s = (Inr None, s)" "is_array_reference (Ref_Object x) s = (Inr True, s)"
    "mapped_arguments_value x key s = (Inr None, s)" "is_array_object x s = (Inr True, s)"
    "heap_array_own_property x key s = (Inr (array_own a r key), s)"
    "heap_own_property (Ref_Object x) key s = (Inr (array_own a r key), s)"
proof -
  have cell: "mapped_arguments_cell x key s = (Inr None, s)"
    by (cases "as_index key") (simp_all add: mapped_arguments_cell_def hbind_def hreturn_def holds_array_ops [OF assms] arguments_cell_def)
  then show "mapped_object (Ref_Object x) key s = (Inr None, s)" and m: "mapped_arguments_value x key s = (Inr None, s)"
    by (simp_all add: mapped_object_def mapped_arguments_value_def hbind_def hreturn_def)
  show ar: "is_array_object x s = (Inr True, s)" and "is_array_reference (Ref_Object x) s = (Inr True, s)"
    by (simp_all add: is_array_reference_def is_array_object_def hbind_def hreturn_def holds_array_ops [OF assms])
  show own: "heap_array_own_property x key s = (Inr (array_own a r key), s)"
    by (simp add: heap_array_own_property_def hbind_def hreturn_def holds_array_ops [OF assms] array_own_def)
  show "heap_own_property (Ref_Object x) key s = (Inr (array_own a r key), s)"
    using m ar own by (cases "array_own a r key") (simp_all add: heap_own_property_def hbind_def hreturn_def)
qed

text \<open>The array before and after a step.\<close>

definition array_evolves :: "id \<Rightarrow> array_state \<Rightarrow> object_record \<Rightarrow> heap \<Rightarrow> bool" where
  "array_evolves x a r s' \<longleftrightarrow>
     (\<exists>a' r' w'. holds_array s' x a' r' \<and> array_wf a' r' w' \<and>
        evolves (array_own a r) (or_extensible r) (array_own a' r') (or_extensible r'))"

lemma array_evolves_same: "holds_array s x a r \<Longrightarrow> array_wf a r w \<Longrightarrow> array_evolves x a r s"
  unfolding array_evolves_def using evolves_refl by blast

lemma define_ok_evolves:
  assumes wf: "array_wf a r w" and lk: "key \<noteq> length_key"
    and kept: "\<And>q. array_own a r key = Some q \<Longrightarrow> \<not> is_configurable (own_layout q) \<Longrightarrow> property_kept q p"
    and ok: "array_define_ok x w a r key p s res s' a' r'"
  shows "array_evolves x a r s'"
proof -
  have view: "evolves (array_own a r) (or_extensible r) (snd (array_define_view a r w key p)) (or_extensible r)"
    using evolves_define_view [OF array_length_atom [OF wf] lk kept] by blast
  have "evolves (array_own a r) (or_extensible r) (array_own a' r') (or_extensible r')"
  proof (cases res)
    case (Inl e)
    then show ?thesis using ok by (simp add: array_define_ok_def evolves_refl)
  next
    case (Inr out)
    then have "array_own a' r' = snd (array_define_view a r w key p)" "or_extensible r' = or_extensible r"
      using ok by (auto simp: array_define_ok_def dest: arg_cong [of _ _ snd])
    then show ?thesis using view by simp
  qed
  moreover have "holds_array s' x a' r'" "array_wf a' r' w" using ok by (simp_all add: array_define_ok_def)
  ultimately show ?thesis unfolding array_evolves_def by blast
qed

lemma define_element_evolves:
  assumes h: "holds_array s x a r" and wf: "array_wf a r w" and v: "key_valid key" and atom: "as_atom key \<noteq> Some LENGTH_ATOM"
    and p: "own_property_wf p"
    and kept: "\<And>q. array_own a r key = Some q \<Longrightarrow> \<not> is_configurable (own_layout q) \<Longrightarrow> property_kept q p"
    and run: "define_array_element alloc capacity x key p s = (res, s')"
  shows "array_evolves x a r s'"
proof -
  have "\<exists>work. preview_array_define_data_property_work capacity x key s = (Inr work, s)"
    by (auto simp: preview_array_define_data_property_work_def hbind_def hreturn_def holds_array_ops [OF h] split: option.split)
  then obtain work where work: "preview_array_define_data_property_work capacity x key s = (Inr work, s)" ..
  have lk: "key \<noteq> length_key" using atom by (auto simp: length_key_def)
  obtain e where e: "charge_instructions work s = (Inl e, s') \<and> (\<exists>n. s' = s\<lparr>hp_executed_instructions := n\<rparr>) \<or>
    (\<exists>n res1. charge_instructions work s = (Inr (), s\<lparr>hp_executed_instructions := n\<rparr>) \<and>
       define_array_own_property alloc x key p (s\<lparr>hp_executed_instructions := n\<rparr>) = (res1, s'))"
    using run work by (auto simp: define_array_element_def hbind_def charge_instructions_def hreturn_def
        split: if_splits prod.splits sum.splits)
  then show ?thesis
  proof (elim disjE exE conjE)
    fix n assume "s' = s\<lparr>hp_executed_instructions := n\<rparr>"
    then show ?thesis using array_evolves_same [of s' x a r w] h wf by simp
  next
    fix n res1
    assume d: "define_array_own_property alloc x key p (s\<lparr>hp_executed_instructions := n\<rparr>) = (res1, s')"
    have "holds_array (s\<lparr>hp_executed_instructions := n\<rparr>) x a r" using h by simp
    from define_array_run [OF this wf v atom p d] show ?thesis using define_ok_evolves [OF wf lk kept] by blast
  qed
qed

lemma write_evolves:
  assumes h: "holds_array s x a r" and wf: "array_wf a r w" and v: "key_valid key" and l: "layout_kind l = Layout_Data"
    and kept: "\<And>q. array_own a r key = Some q \<Longrightarrow> \<not> is_configurable (own_layout q) \<Longrightarrow> property_kept q (OP_Data l u)"
    and run: "define_array_data_property alloc x key l u s = (res, s')"
  shows "array_evolves x a r s'"
proof (cases "as_atom key = Some LENGTH_ATOM")
  case True
  then have "s' = s" using run l by (auto simp: define_array_data_property_def define_array_own_property_def invariant_violation_def hfail_def)
  then show ?thesis using array_evolves_same [OF h wf] by simp
next
  case False
  then have "key \<noteq> length_key" by (auto simp: length_key_def)
  then show ?thesis
    using define_array_run [OF h wf v False, of "OP_Data l u" alloc res s'] run l define_ok_evolves [OF wf _ kept]
    by (auto simp: define_array_data_property_def)
qed

text \<open>Definitions of the properties that live in the record: names, symbols and the length.\<close>

lemma length_definition_shape:
  assumes "\<not> has_present_data_value d" "es_compatible (es_of d) (length_property w n)"
  shows "\<exists>w'. es_apply (es_of d) (length_property w n) = length_property w' n"
proof -
  have "es_value (es_of d) = None"
    using assms(1) by (auto simp: es_of_def has_present_data_value_def split: definition_fields.splits requested.splits)
  moreover have "\<not> es_is_accessor (es_of d)" using assms(2)
    by (auto simp: es_compatible_def length_property_def)
  moreover have "es_configurable (es_of d) \<noteq> Some True" "es_enumerable (es_of d) = None \<or> es_enumerable (es_of d) = Some False"
    using assms(2) by (simp_all add: es_compatible_def length_property_def)
  ultimately show ?thesis
    by (cases "es_configurable (es_of d)"; cases "es_writable (es_of d)") (auto simp: es_apply_def length_property_def Let_def)
qed

lemma es_of_unmixed: "\<not> (es_is_accessor (es_of d) \<and> es_is_data (es_of d))"
  by (cases "def_fields d") (simp_all add: es_of_def es_is_accessor_def es_is_data_def)

lemma record_replace_evolves:
  assumes h: "holds_array s x a r" and wf: "array_wf a r w" and key: "array_own a r key = Some q" "as_index key = None"
    and p: "own_property_wf p" and kept: "\<not> is_configurable (own_layout q) \<Longrightarrow> property_kept q p"
    and len: "key = length_key \<Longrightarrow> \<exists>w'. p = length_property w' (as_length a)"
    and rep: "replace_existing_property key p r = Some (old, r')"
  shows "array_evolves x a r ((upd x a r' s)\<lparr>hp_collection_pending := True\<rparr>)"
proof -
  have inv: "array_inv (unat (as_length a)) a r" and slot: "record_own r length_key = Some (length_property w (as_length a))"
    using wf by (simp_all add: array_wf_def)
  note e = replace_existing_property_Some [OF array_inv_wf [OF inv] p rep]
  have "\<forall>i. key = Key_Index i \<longrightarrow> unat (index_get i) < unat (as_length a)" using key(2) by auto
  then have up: "array_inv (unat (as_length a)) a r' \<and> array_own a r' = (array_own a r)(key \<mapsto> p)"
    using array_inv_sparse_update [OF inv, of r' key p "unat (as_length a)"] e key by simp
  have "\<exists>w'. record_own r' length_key = Some (length_property w' (as_length a))" using e slot len by (cases "key = length_key") auto
  then obtain w' where "array_wf a r' w'" using up by (auto simp: array_wf_def)
  moreover have "evolves (array_own a r) (or_extensible r) (array_own a r') (or_extensible r')"
    using up e key kept by (auto intro: evolves_update)
  ultimately show ?thesis using holds_upd(2) [OF h, of a r'] unfolding array_evolves_def by auto
qed

lemma record_append_evolves:
  assumes h: "holds_array s x a r" and wf: "array_wf a r w" and key: "array_own a r key = None" "as_index key = None"
    and v: "key_valid key" and p: "own_property_wf p" and ext: "or_extensible r"
    and run: "append_own_property alloc (Ref_Object x) key p s = (res, s')"
  shows "array_evolves x a r s'"
proof -
  have inv: "array_inv (unat (as_length a)) a r" and slot: "record_own r length_key = Some (length_property w (as_length a))"
    using wf by (simp_all add: array_wf_def)
  have none: "record_own r key = None" using key by (cases key) simp_all
  from append_own_run [OF h none p, of alloc] show ?thesis
  proof (elim disjE exE conjE)
    fix e assume "append_own_property alloc (Ref_Object x) key p s = (Inl e, s)"
    then show ?thesis using run array_evolves_same [OF h wf] by simp
  next
    fix l sl r' assume ap: "into_parts p = (l, sl)" "append_slot alloc key l sl r = Some r'"
      "append_own_property alloc (Ref_Object x) key p s =
         (Inr (), (upd x a r' s)\<lparr>hp_object_properties := hp_object_properties s + 1, hp_collection_pending := True\<rparr>)"
    have "\<forall>i. key = Key_Index i \<longrightarrow> unat (index_get i) < unat (as_length a)" using key(2) by auto
    note e = array_append [OF inv none p v disjI2 [OF key(2)] ap(1,2) this order_refl u32_le_max]
    have "array_wf a r' w" using e slot key by (auto simp: array_wf_def)
    moreover have "evolves (array_own a r) (or_extensible r) (array_own a r') (or_extensible r')"
      using e key ext by (auto intro: evolves_update)
    moreover have "holds_array s' x a r'" using run ap(3) holds_upd(2) [OF h, of a r'] by auto
    ultimately show ?thesis unfolding array_evolves_def by blast
  qed
qed

lemma define_evolves:
  assumes h: "holds_array s x a r" and wf: "array_wf a r w" and v: "key_valid key" and d: "definition_wf d"
    and run: "heap_define_own_property alloc capacity (Ref_Object x) key d s = (res, s')"
  shows "array_evolves x a r s'"
proof (cases "as_atom key = Some LENGTH_ATOM \<and> has_present_data_value d")
  case True
  then have "s' = s" using run by (simp add: heap_define_own_property_def hbind_def array_reference_run [OF h] hreturn_def)
  then show ?thesis using array_evolves_same [OF h wf] by simp
next
  case False
  let ?decision = "case array_own a r key of Some e \<Rightarrow> validate_and_apply_existing d e | None \<Rightarrow> validate_and_apply_new d (or_extensible r)"
  have inv: "array_inv (unat (as_length a)) a r" and slot: "record_own r length_key = Some (length_property w (as_length a))"
    using wf by (simp_all add: array_wf_def)
  have run1: "(case ?decision of
      Unchanged \<Rightarrow> hreturn Definition_Complete
    | Rejected \<Rightarrow> hreturn (Definition_Failed (if array_own a r key \<noteq> None then Fail_NotConfigurable else Fail_NonExtensible))
    | Replace p \<Rightarrow> commit_replace alloc capacity (Ref_Object x) key d None p
    | Create p \<Rightarrow> commit_create alloc capacity (Ref_Object x) key d None p) s = (res, s')"
    using run False by (auto simp: heap_define_own_property_def hbind_def array_reference_run [OF h] hreturn_def
        holds_array_ops [OF h] apply_mapped_arguments_definition_def split: definition_decision.splits)
  have atom: "as_index key \<noteq> None \<Longrightarrow> as_atom key \<noteq> Some LENGTH_ATOM" by (cases key) simp_all
  show ?thesis
  proof (cases ?decision)
    case (Create p)
    then have p: "array_own a r key = None" "or_extensible r" "p = es_create (es_of d)"
      using new_decision [OF d] existing_decision [OF d] array_own_well_formed [OF inv]
      by (auto split: option.splits if_splits)
    show ?thesis
    proof (cases "as_index key")
      case None
      then have "hbind (append_own_property alloc (Ref_Object x) key p) (\<lambda>_. hreturn Definition_Complete) s = (res, s')"
        using run1 Create
        by (simp add: commit_create_def hbind_def [where m = "is_array_reference _"] array_reference_run [OF h]
            apply_mapped_arguments_definition_def)
      then obtain res1 where "append_own_property alloc (Ref_Object x) key p s = (res1, s')"
        by (auto simp: hbind_def hreturn_def split: prod.splits sum.splits)
      then show ?thesis using record_append_evolves [OF h wf p(1) None v _ p(2)] p(3) es_apply_wf(2) by blast
    next
      case (Some i)
      then show ?thesis using run1 Create p es_apply_wf define_element_evolves [OF h wf v atom, of p alloc capacity res s']
        by (auto simp: commit_create_def hbind_def array_reference_run [OF h])
    qed
  next
    case (Replace p)
    then obtain q where q: "array_own a r key = Some q" "es_compatible (es_of d) q" "p = es_apply (es_of d) q"
      using new_decision [OF d] existing_decision [OF d] array_own_well_formed [OF inv]
      by (auto split: option.splits if_splits)
    have qwf: "own_property_wf q" using array_own_well_formed [OF inv q(1)] .
    have kept: "\<not> is_configurable (own_layout q) \<Longrightarrow> property_kept q p"
      using compatible_kept [OF qwf _ q(2) es_of_unmixed] q(3) by simp
    show ?thesis
    proof (cases "as_index key")
      case None
      then have rk: "record_own r key = Some q" using q(1) by (cases key) simp_all
      obtain old r' where rep: "replace_existing_property key p r = Some (old, r')"
        using rk own_property_dom [OF array_inv_wf [OF inv], of key] replace_existing_property_None [of key p r] by fastforce
      have len: "\<exists>w'. p = length_property w' (as_length a)" if "key = length_key"
        using that False slot rk q length_definition_shape [of d w "as_length a"] by (auto simp: length_key_def)
      have "s' = (upd x a r' s)\<lparr>hp_collection_pending := True\<rparr>"
        using run1 Replace None rep
        by (auto simp: commit_replace_def hbind_def array_reference_run [OF h] holds_array_ops [OF h] hreturn_def
            apply_mapped_arguments_definition_def mark_collection_pending_def hmodify_def)
      then show ?thesis using record_replace_evolves [OF h wf q(1) None _ kept len rep] q(3) es_apply_wf by simp
    next
      case (Some i)
      then show ?thesis using run1 Replace kept q es_apply_wf define_element_evolves [OF h wf v atom, of p alloc capacity res s']
        by (auto simp: commit_replace_def hbind_def array_reference_run [OF h])
    qed
  qed (use run1 array_evolves_same [OF h wf] in \<open>auto simp: hreturn_def\<close>)
qed

section \<open>Length definitions and steps\<close>

lemma length_ok_evolves:
  assumes ok: "array_length_ok x w a r s s' a' r'"
    and own: "evolves (array_own a r) (or_extensible r) (array_own a' r') (or_extensible r)"
  shows "array_evolves x a r s'"
proof -
  have "holds_array s' x a' r'" "array_wf a' r' w" "or_extensible r' = or_extensible r" using ok by (simp_all add: array_length_ok_def)
  then show ?thesis using own unfolding array_evolves_def by (intro exI [of _ a'] exI [of _ r'] exI [of _ w]) simp
qed

lemma array_finite_blockers:
  assumes "array_wf a r w"
  shows "finite (blockers (array_own a r) n)" "array_own a r (Key_Index i) = Some q \<Longrightarrow> unat (index_get i) < 4294967295"
proof -
  have inv: "array_inv (unat (as_length a)) a r" using assms by (simp add: array_wf_def)
  have "index_get ` blockers (array_own a r) n \<subseteq> UNIV" by simp
  then have "finite (index_get ` blockers (array_own a r) n)" by (rule finite_subset) simp
  then show "finite (blockers (array_own a r) n)" by (rule finite_imageD) (simp add: inj_on_def array_index.expand)
  assume "array_own a r (Key_Index i) = Some q"
  then have "unat (index_get i) < unat (as_length a)" using array_own_below [OF inv] by simp
  then show "unat (index_get i) < 4294967295" using u32_le_max [of "as_length a"] by linarith
qed

lemma set_length_evolves:
  assumes h: "holds_array s x a r" and wf: "array_wf a r w" and run: "set_array_length x n s = (res, s')"
  shows "array_evolves x a r s'" "\<exists>a' r'. holds_array s' x a' r' \<and> array_wf a' r' w"
proof -
  obtain a' r' outcome where e: "res = Inr outcome" "array_length_ok x w a r s s' a' r'"
    "(outcome, array_own a' r') = es_set_length (array_own a r) w (as_length a) n"
    using set_length_run [OF h wf run] by blast
  have "array_own a' r' = snd (es_set_length (array_own a r) w (as_length a) n)" using e(3) by (metis snd_conv)
  then show "array_evolves x a r s'"
    using length_ok_evolves [OF e(2)]
      evolves_set_length [of "array_own a r" w "as_length a" n, OF array_length_atom [OF wf] array_finite_blockers(1) [OF wf] array_finite_blockers(2) [OF wf]]
    by simp
  show "\<exists>a' r'. holds_array s' x a' r' \<and> array_wf a' r' w" using e(2) by (auto simp: array_length_ok_def)
qed

lemma array_evolves_trans: "array_evolves x a r s1 \<Longrightarrow> (\<And>a1 r1 w1. holds_array s1 x a1 r1 \<Longrightarrow> array_wf a1 r1 w1 \<Longrightarrow> array_evolves x a1 r1 s2) \<Longrightarrow> array_evolves x a r s2"
  unfolding array_evolves_def using evolves_trans by meson

lemma length_writable_evolves:
  assumes h: "holds_array s x a r" and wf: "array_wf a r w" and run: "set_array_length_writable x False s = (res, s')"
  shows "array_evolves x a r s'"
proof -
  have inv: "array_inv (unat (as_length a)) a r" and slot: "record_own r length_key = Some (length_property w (as_length a))"
    using wf by (simp_all add: array_wf_def)
  obtain i where i: "key_position length_key r = Some i"
    "slot_property (sp_layout (or_shape r ! i)) (or_slots r ! i) = length_property w (as_length a)"
    using slot by (auto simp: Object_Record.own_property_def split: option.splits)
  then have sl: "or_slots r ! i = Slot_Data (length_value (as_length a))"
    by (cases "or_slots r ! i") (simp_all add: length_property_def)
  let ?r = "transition_shape (Shape_ReplaceLayout i (PL_Data False False False)) r"
  have i': "i < length (or_slots r)"
    using i(1) key_position_Some [OF array_inv_wf [OF inv]] record_wf_length [OF array_inv_wf [OF inv]] by simp
  have "?r\<lparr>or_slots := (or_slots r)[i := Slot_Data (length_value (as_length a))]\<rparr> = ?r"
    using sl i' by (simp add: transition_shape_def list_update_same_conv)
  then have rep: "replace_existing_property length_key (length_property False (as_length a)) r = Some (length_property w (as_length a), ?r)"
    using i by (simp add: replace_existing_property_def length_property_def)
  have "s' = (upd x a ?r s)\<lparr>hp_collection_pending := True\<rparr>"
    using run i sl by (auto simp: set_array_length_writable_def hbind_def holds_array_ops [OF h] replace_existing_data_layout_def
        holds_upd(1) [OF h] mark_collection_pending_def hmodify_def)
  then show ?thesis
    using record_replace_evolves [OF h wf, of length_key, OF _ _ _ _ _ rep] slot by (auto simp: length_key_def length_property_def)
qed

text \<open>Operations under which every array evolves compose.\<close>

definition op_evolves :: "id \<Rightarrow> 'b heap_op \<Rightarrow> bool" where
  "op_evolves x m \<longleftrightarrow>
     (\<forall>s a r w res s'. holds_array s x a r \<longrightarrow> array_wf a r w \<longrightarrow> m s = (res, s') \<longrightarrow> array_evolves x a r s')"

lemma op_evolves_bind: "op_evolves x m \<Longrightarrow> (\<And>y. op_evolves x (f y)) \<Longrightarrow> op_evolves x (hbind m f)"
proof -
  assume m: "op_evolves x m" and f: "\<And>y. op_evolves x (f y)"
  have "array_evolves x a r s'" if h: "holds_array s x a r" and wf: "array_wf a r w" and run: "hbind m f s = (res, s')" for s a r w res s'
  proof (cases "m s")
    case (Pair out s1)
    have s1: "array_evolves x a r s1" using m h wf Pair unfolding op_evolves_def by blast
    show ?thesis
    proof (cases out)
      case (Inl e)
      then show ?thesis using run Pair s1 by (simp add: hbind_def)
    next
      case (Inr y)
      then have "f y s1 = (res, s')" using run Pair by (simp add: hbind_def)
      then show ?thesis using array_evolves_trans [OF s1] f [of y] unfolding op_evolves_def by blast
    qed
  qed
  then show ?thesis unfolding op_evolves_def by blast
qed

lemma op_evolves_still: "(\<And>s. \<exists>n. snd (m s) = s \<or> snd (m s) = s\<lparr>hp_executed_instructions := n\<rparr>) \<Longrightarrow> op_evolves x m"
  unfolding op_evolves_def by (metis array_evolves_same charge_holds snd_conv)

lemma op_evolves_basic [intro]:
  "op_evolves x (hreturn y)" "op_evolves x (hfail e)" "op_evolves x (invariant_violation msg)" "op_evolves x (heap_object_at ed z)"
  "op_evolves x (charge_instructions work)" "op_evolves x (heap_array_own_property z key)" "op_evolves x (preview_array_length_write_work z)"
  by (rule op_evolves_still; simp add: hreturn_def hfail_def invariant_violation_def heap_object_at_def charge_instructions_def
      heap_array_own_property_def preview_array_length_write_work_def hbind_def split: option.splits; blast)+

lemma op_evolves_length [intro]: "op_evolves x (set_array_length x n)" "op_evolves x (set_array_length_writable x False)"
  unfolding op_evolves_def by (intro allI impI, erule set_length_evolves(1) length_writable_evolves, assumption+)+

lemma op_evolves_length_definition: "op_evolves x (finish_array_length_definition x n requested)"
  unfolding finish_array_length_definition_def Let_def
  by (intro op_evolves_bind op_evolves_basic op_evolves_length conjI allI impI |
      simp split del: if_split split: option.split definition_decision.split Define_Property.own_property.split array_length_write_outcome.split if_split)+

text \<open>
  What a script can do to the array \<open>x\<close>: define, delete, set or define its length, write elements and
  prevent extensions. Writes are guarded as in \<^verbatim>\<open>write_property\<close>: an existing data property must be
  writable, and a new one is created only on an extensible array.
\<close>

inductive array_step :: "id \<Rightarrow> heap \<Rightarrow> heap \<Rightarrow> bool" for x where
  step_define: "key_valid key \<Longrightarrow> definition_wf d \<Longrightarrow>
    heap_define_own_property alloc capacity (Ref_Object x) key d s = (res, s') \<Longrightarrow> array_step x s s'"
| step_delete: "heap_delete_own_property (Ref_Object x) key s = (deletion, s') \<Longrightarrow> array_step x s s'"
| step_length: "set_array_length x n s = (outcome, s') \<Longrightarrow> array_step x s s'"
| step_length_definition: "finish_array_length_definition x n requested s = (accepted, s') \<Longrightarrow> array_step x s s'"
| step_overwrite: "key_valid key \<Longrightarrow> arena_get (hp_objects s) x = Some h \<Longrightarrow>
    array_own_property h key = Some (OP_Data l u) \<Longrightarrow> layout_writable l = Some True \<Longrightarrow>
    define_array_data_property alloc x key l v s = (written, s') \<Longrightarrow> array_step x s s'"
| step_create: "key_valid key \<Longrightarrow> arena_get (hp_objects s) x = Some h \<Longrightarrow> array_own_property h key = None \<Longrightarrow>
    define_array_data_property alloc x key (PL_Data True True True) v s = (written, s') \<Longrightarrow> array_step x s s'"
| step_prevent: "heap_prevent_extensions (Ref_Object x) s = (prevented, s') \<Longrightarrow> array_step x s s'"

lemma array_step_evolves:
  assumes "array_step x s s'" "holds_array s x a r" "array_wf a r w"
  shows "array_evolves x a r s'"
  using assms
proof (induction rule: array_step.induct)
  case (step_define key d alloc capacity s res s')
  then show ?case using define_evolves by blast
next
  case (step_delete key s deletion s')
  then obtain a' r' where "array_length_ok x w a r s s' a' r'" "array_own a' r' = snd (es_delete (array_own a r) key)"
    using delete_array_run by (metis snd_conv)
  then show ?case using length_ok_evolves evolves_delete by metis
next
  case (step_length n s outcome s')
  then show ?case using set_length_evolves(1) by blast
next
  case (step_length_definition n requested s accepted s')
  then show ?case using op_evolves_length_definition unfolding op_evolves_def by blast
next
  case (step_overwrite key s h l u alloc v written s')
  then have own: "array_own a r key = Some (OP_Data l u)" by (simp add: holds_array_def array_own_def)
  have "layout_kind l = Layout_Data" using step_overwrite.hyps(4) by (cases l) simp_all
  then show ?case using write_evolves [OF step_overwrite.prems step_overwrite.hyps(1) _ _ step_overwrite.hyps(5)] own
      step_overwrite.hyps(4) by auto
next
  case (step_create key s h alloc v written s')
  then have "array_own a r key = None" by (simp add: holds_array_def array_own_def)
  then show ?case using write_evolves [OF step_create.prems step_create.hyps(1) _ _ step_create.hyps(4)] by simp
next
  case (step_prevent s prevented s')
  then have s': "s' = upd x a (prevent_extensions r) s"
    by (simp add: heap_prevent_extensions_def hbind_def holds_array_ops)
  have own: "record_own (prevent_extensions r) = record_own r" "record_wf (prevent_extensions r) = record_wf r"
    "has_indexed_property (prevent_extensions r) = has_indexed_property r"
    by (auto simp: prevent_extensions_def Object_Record.own_property_def key_position_def record_wf_def has_indexed_property_def fun_eq_iff split: option.splits)
  have "array_own a (prevent_extensions r) = array_own a r"
    using own(1) by (auto simp: array_own_def array_own_property_def fun_eq_iff split: option.splits)
  moreover have "array_wf a (prevent_extensions r) w"
    using step_prevent.prems(2) own by (simp add: array_wf_def array_inv_def split: array_storage.splits)
  moreover have "evolves (array_own a r) (or_extensible r) (array_own a r) (or_extensible (prevent_extensions r))"
    using evolves_refl [of "array_own a r" "or_extensible r"] by (auto simp: evolves_def prevent_extensions_def)
  ultimately show ?case using holds_upd(2) [OF step_prevent.prems(1)] s' unfolding array_evolves_def by metis
qed

section \<open>The contract of an object under any sequence of operations\<close>

text \<open>
  A state shows an object; an operation leaves the state showing an object that the first may have
  evolved to. Whatever the operations are, their sequences then keep the essential invariants.
\<close>

locale essential_object =
  fixes shows_object :: "'s \<Rightarrow> 'o \<Rightarrow> bool"
    and own :: "'o \<Rightarrow> property_key \<rightharpoonup> Define_Property.own_property"
    and extensible :: "'o \<Rightarrow> bool"
    and operation :: "'s \<Rightarrow> 's \<Rightarrow> bool"
  assumes operation_evolves: "operation s s' \<Longrightarrow> shows_object s ob \<Longrightarrow>
    \<exists>ob'. shows_object s' ob' \<and> evolves (own ob) (extensible ob) (own ob') (extensible ob')"
begin

lemma operations_evolve:
  assumes "operation\<^sup>*\<^sup>* s s'" "shows_object s ob"
  shows "\<exists>ob'. shows_object s' ob' \<and> evolves (own ob) (extensible ob) (own ob') (extensible ob')"
  using assms
proof (induction rule: rtranclp_induct)
  case base
  then show ?case using evolves_refl by blast
next
  case (step s1 s2)
  then show ?case using operation_evolves evolves_trans by meson
qed

lemma essential_invariants:
  assumes "operation\<^sup>*\<^sup>* s s'" "shows_object s ob"
  shows "\<exists>ob'. shows_object s' ob' \<and>
    (\<forall>key p. own ob key = Some p \<and> \<not> is_configurable (own_layout p) \<longrightarrow> (\<exists>q. own ob' key = Some q \<and> property_kept p q)) \<and>
    (\<not> extensible ob \<longrightarrow> \<not> extensible ob' \<and> dom (own ob') \<subseteq> dom (own ob))"
  using operations_evolve [OF assms] unfolding evolves_def .

end

definition shows_array :: "id \<Rightarrow> heap \<Rightarrow> array_state \<times> object_record \<Rightarrow> bool" where
  "shows_array x s = (\<lambda>(a, r). holds_array s x a r \<and> (\<exists>w. array_wf a r w))"

interpretation array_object: essential_object "shows_array x" "\<lambda>(a, r). array_own a r" "\<lambda>(a, r). or_extensible r" "array_step x" for x
proof (unfold_locales, clarsimp simp: shows_array_def)
  show "\<exists>a' r'. holds_array s' x a' r' \<and> (\<exists>w. array_wf a' r' w) \<and>
      evolves (array_own a r) (or_extensible r) (array_own a' r') (or_extensible r')"
    if "array_step x s s'" "holds_array s x a r" "array_wf a r w" for s s' a r w
    using array_step_evolves [OF that] unfolding array_evolves_def by blast
qed

end
