(* ===== verification/Array_Guarantees.thy ===== *)
theory Array_Guarantees
  imports Array_Invariants
begin

text \<open>The guarantees of arrays on the heap.\<close>

section \<open>A sample heap\<close>

definition sample_record :: object_record where
  "sample_record = \<lparr>or_prototype = None, or_extensible = True, or_is_html_dda = False,
     or_shape = [\<lparr>sp_key = length_key, sp_layout = PL_Data True False False\<rparr>,
                 \<lparr>sp_key = Key_Index (ArrayIndex 0), sp_layout = PL_Data False True False\<rparr>],
     or_slots = [Slot_Data (length_value 1), Slot_Data (SV_Boolean True)]\<rparr>"

definition sample_object_id :: id where
  "sample_object_id = \<lparr>id_runtime = 1, id_index = 0, id_generation = 0\<rparr>"

definition heap_of :: "array_state \<Rightarrow> object_record \<Rightarrow> heap" where
  "heap_of a r = \<lparr>
     hp_objects = snd (projr (the (try_insert (\<lambda>_ _. True) (arena_new 1) (array_object a r)))),
     hp_functions = arena_new 1, hp_cells = arena_new 1, hp_max_object_properties = 1000,
     hp_object_properties = 2, hp_collection_pending = False, hp_instruction_limit = 1000, hp_executed_instructions = 0\<rparr>"

lemma heap_of_insert:
  "try_insert (\<lambda>_ _. True) (arena_new 1) (array_object a r) = Some (Inr (sample_object_id, hp_objects (heap_of a r)))"
  by (simp add: heap_of_def try_insert_def arena_new_def sample_object_id_def)

lemma heap_of_holds: "holds_array (heap_of a r) sample_object_id a r"
proof -
  have "arena_inv (hp_objects (heap_of a r))"
    by (rule arena_life_inv [OF life_step [OF life_new arena_step_insert [OF heap_of_insert]]])
  moreover have "arena_get (hp_objects (heap_of a r)) sample_object_id = Some (array_object a r)"
    by (simp add: heap_of_def try_insert_def arena_new_def sample_object_id_def arena_get_def get_def)
  ultimately show ?thesis by (simp add: holds_array_def)
qed

lemma sample_own:
  "record_own sample_record key =
     (if key = length_key then Some (length_property True 1)
      else if key = Key_Index (ArrayIndex 0) then Some (OP_Data (PL_Data False True False) (SV_Boolean True)) else None)"
  by (auto simp: Object_Record.own_property_def key_position_def sample_record_def length_property_def length_key_def)

lemma sample_array_wf: "array_wf (array_state_sparse 1) sample_record True"
proof -
  have "record_wf sample_record"
    by (simp add: record_wf_def sample_record_def length_key_def key_valid_def MAX_ARRAY_INDEX_def)
  moreover have "i = ArrayIndex 0" if "record_own sample_record (Key_Index i) \<noteq> None" for i
    using that by (auto simp: sample_own length_key_def split: if_splits)
  then have "\<forall>i. record_own sample_record (Key_Index i) \<noteq> None \<longrightarrow> unat (index_get i) < 1" by force
  ultimately show ?thesis
    using sample_own [of length_key] by (simp add: array_wf_def array_inv_def array_state_sparse_def)
qed

text \<open>
  C14. Essential invariants of arrays. Whatever sequence of definitions, deletions, length writes,
  length definitions, element writes and extension preventions is applied to an array, it stays
  well formed: its length is above every index and equals the \<^verbatim>\<open>length\<close> property. A property that is not
  configurable stays with its kind, enumerability and accessor functions; once it is not writable
  its value stays the same and it stays read-only. An array that is not extensible stays so and gains
  no property.
\<close>

theorem array_essential_invariants:
  assumes "(array_step x)\<^sup>*\<^sup>* s s'" "holds_array s x a r" "array_wf a r w"
  shows "\<exists>a' r' w'. holds_array s' x a' r' \<and> array_wf a' r' w' \<and>
    (\<forall>key p. array_own a r key = Some p \<and> \<not> is_configurable (own_layout p) \<longrightarrow>
       (\<exists>q. array_own a' r' key = Some q \<and> property_kept p q)) \<and>
    (\<not> or_extensible r \<longrightarrow> \<not> or_extensible r' \<and> dom (array_own a' r') \<subseteq> dom (array_own a r))"
proof -
  have "shows_array x s (a, r)" using assms(2,3) by (auto simp: shows_array_def)
  from array_object.essential_invariants [OF assms(1) this] show ?thesis
    unfolding split_paired_Ex shows_array_def prod.case by blast
qed

theorem array_essential_invariants_witness:
  "\<exists>a' r' w' q. holds_array (snd (heap_delete_own_property (Ref_Object sample_object_id) (Key_Index (ArrayIndex 0))
       (heap_of (array_state_sparse 1) sample_record))) sample_object_id a' r' \<and> array_wf a' r' w' \<and>
     array_own a' r' (Key_Index (ArrayIndex 0)) = Some q \<and> property_kept (OP_Data (PL_Data False True False) (SV_Boolean True)) q"
proof -
  let ?s = "heap_of (array_state_sparse 1) sample_record"
  let ?s' = "snd (heap_delete_own_property (Ref_Object sample_object_id) (Key_Index (ArrayIndex 0)) ?s)"
  have "array_step sample_object_id ?s ?s'" by (rule step_delete [OF prod.collapse [symmetric]])
  then have "(array_step sample_object_id)\<^sup>*\<^sup>* ?s ?s'" by simp
  moreover have "array_own (array_state_sparse 1) sample_record (Key_Index (ArrayIndex 0)) = Some (OP_Data (PL_Data False True False) (SV_Boolean True))"
    by (simp add: array_own_sparse array_state_sparse_def sample_own length_key_def)
  ultimately show ?thesis
    using array_essential_invariants [OF _ heap_of_holds sample_array_wf, of ?s'] by fastforce
qed

text \<open>
  C5. Array element operations refine the exotic array of ECMAScript, whether the elements are in the
  vector or in the shape. Defining an element answers and updates the map of own properties as the
  specification's definition does, extends the length when the index is above it, and fails only for
  exhausted resources or dead accessor functions, in which case no property changes. A length write
  always answers as \<^verbatim>\<open>ArraySetLength\<close>: it keeps the elements below the greatest one it may not delete. A
  deletion removes exactly a configurable property. No other object changes, and the runtime's
  property count follows. The one exception is stated by \<open>loses_element\<close>: a default element at or above the
  gap is dropped, although reported as defined, when the storage is sparse and no indexed property is left.
\<close>

theorem array_exotic_exact:
  assumes "holds_array s x a r" "array_wf a r w"
  shows "(key_valid key \<and> as_atom key \<noteq> Some LENGTH_ATOM \<and> own_property_wf p \<longrightarrow>
      (\<exists>a' r'. array_define_ok x w a r key p s (fst (define_array_own_property alloc x key p s))
         (snd (define_array_own_property alloc x key p s)) a' r')) \<and>
    (\<exists>a' r' outcome. fst (set_array_length x n s) = Inr outcome \<and>
       array_length_ok x w a r s (snd (set_array_length x n s)) a' r' \<and>
       (outcome, array_own a' r') = es_set_length (array_own a r) w (as_length a) n) \<and>
    (\<exists>a' r' outcome. fst (heap_delete_own_property (Ref_Object x) key s) = Inr outcome \<and>
       array_length_ok x w a r s (snd (heap_delete_own_property (Ref_Object x) key s)) a' r' \<and>
       (outcome, array_own a' r') = es_delete (array_own a r) key)"
  using define_array_run [OF assms, of key p alloc] set_length_run [OF assms, of n] delete_array_run [OF assms, of key]
  by (metis prod.collapse)

theorem array_exotic_exact_witness:
  "fst (set_array_length sample_object_id 0 (heap_of (array_state_sparse 1) sample_record)) =
     Inr (Length_BlockedByNonConfigurable (ArrayIndex 0) 1)"
proof -
  let ?s = "heap_of (array_state_sparse 1) sample_record"
  have own: "array_own (array_state_sparse 1) sample_record = record_own sample_record"
    by (simp add: array_own_sparse array_state_sparse_def)
  have "blockers (record_own sample_record) 0 = {ArrayIndex 0}"
    by (auto simp: blockers_def sample_own length_key_def split: if_splits)
  then have "fst (es_set_length (array_own (array_state_sparse 1) sample_record) True (as_length (array_state_sparse 1)) 0) =
    Length_BlockedByNonConfigurable (ArrayIndex 0) 1"
    unfolding own by (simp add: es_set_length_def array_state_sparse_def)
  moreover obtain outcome a' r' where "fst (set_array_length sample_object_id 0 ?s) = Inr outcome"
    "(outcome, array_own a' r') = es_set_length (array_own (array_state_sparse 1) sample_record) True (as_length (array_state_sparse 1)) 0"
    using array_exotic_exact [OF heap_of_holds sample_array_wf, of undefined undefined undefined 0] by blast
  ultimately show ?thesis by (metis fst_conv)
qed

section \<open>The lost element\<close>

text \<open>
  An array has sparse storage and no indexed property after its last element was deleted or its length
  set to zero. Defining a default element at index 1024 or above then reports success and extends the
  length, and the element is missing.
\<close>

definition empty_array_record :: object_record where
  "empty_array_record = \<lparr>or_prototype = None, or_extensible = True, or_is_html_dda = False,
     or_shape = [\<lparr>sp_key = length_key, sp_layout = PL_Data True False False\<rparr>], or_slots = [Slot_Data (length_value 0)]\<rparr>"

lemma lost_element:
  assumes h: "holds_array s x a r" and wf: "array_wf a r True" and sparse: "is_sparse a" "\<not> has_indexed_property r"
    and v: "key_valid (Key_Index i)" "MAX_DENSE_ARRAY_GAP \<le> unat (index_get i)" and ext: "or_extensible r"
    and room: "saturating_add (hp_object_properties s) 1 \<le> hp_max_object_properties s"
  shows "\<exists>a' r'. fst (define_array_own_property alloc x (Key_Index i) (default_property u) s) = Inr Define_Complete \<and>
    holds_array (snd (define_array_own_property alloc x (Key_Index i) (default_property u) s)) x a' r' \<and>
    array_own a' r' (Key_Index i) = None"
proof -
  let ?key = "Key_Index i" and ?ext = "extended_length (as_length a) (Key_Index i)"
  have inv: "array_inv (unat (as_length a)) a r" and slot: "record_own r length_key = Some (length_property True (as_length a))"
    using wf by (simp_all add: array_wf_def)
  have st: "as_storage a = Sparse" using sparse(1) by (simp add: is_sparse_def split: array_storage.splits)
  have none: "array_own a r ?key = None" using record_no_index [OF array_inv_wf [OF inv] sparse(2)] by (simp add: array_own_sparse [OF st])
  have lose: "loses_element a r ?key (default_property u)"
    using sparse v by (simp add: loses_element_def default_dense_data_value_def default_property_def)
  have store: "try_store_new_dense_array_property alloc x ?key (default_property u) s = (Inr True, s)"
    using v sparse st upd_id [OF h] holds_upd(1) [OF h, of a r]
    by (simp add: try_store_new_dense_array_property_def default_property_def default_dense_data_value_def hbind_def hread_def hreturn_def
        holds_array_ops [OF h] try_restore_dense_and_store_def commit_array_store_def try_restore_dense_def can_store_dense_def)
  obtain a1 r1 where e: "extend_array_length x ?ext s = (Inr (), upd x a1 r1 s)"
    using extend_array_length_run [OF h array_inv_mono [OF inv extended_bounds(1,2) [OF v(1)]] slot] by blast
  have d: "dense_value i a = None" using st by (simp add: dense_value_def)
  have res: "fst (define_array_own_property alloc x ?key (default_property u) s) = Inr Define_Complete"
    using none ext store e room d extended_length_key [OF v(1), of "as_length a"]
    by (cases ?ext) (simp_all add: define_array_own_property_def hbind_def definition_facts_run [OF h wf] Let_def check_property_limit_def
        hmodify_def hreturn_def cong: if_cong)
  obtain a' r' where ok: "array_define_ok x True a r ?key (default_property u) s (Inr Define_Complete)
      (snd (define_array_own_property alloc x ?key (default_property u) s)) a' r'"
    using define_array_run [OF h wf v(1) _ _ prod.collapse [symmetric], of "default_property u" alloc] res
    by (auto simp: default_property_def)
  have "array_own a' r' = es_extend True (as_length a) ?key (array_own a r)"
    using ok lose ext by (auto simp: array_define_ok_def array_define_view_def es_array_define_def split: if_splits)
  then have "array_own a' r' ?key = None" using none by (simp add: es_extend_def length_key_def split: option.splits)
  then show ?thesis using res ok by (auto simp: array_define_ok_def)
qed

lemma lost_element_concrete:
  "\<exists>a' r'. fst (define_array_own_property (\<lambda>_ _. True) sample_object_id (Key_Index (ArrayIndex 5000)) (default_property SV_Null)
        (heap_of (array_state_sparse 0) empty_array_record)) = Inr Define_Complete \<and>
     holds_array (snd (define_array_own_property (\<lambda>_ _. True) sample_object_id (Key_Index (ArrayIndex 5000)) (default_property SV_Null)
        (heap_of (array_state_sparse 0) empty_array_record))) sample_object_id a' r' \<and>
     array_own a' r' (Key_Index (ArrayIndex 5000)) = None"
proof (rule lost_element [OF heap_of_holds])
  have rwf: "record_wf empty_array_record" by (simp add: record_wf_def empty_array_record_def length_key_def key_valid_def)
  show none: "\<not> has_indexed_property empty_array_record" by (simp add: has_indexed_property_def empty_array_record_def length_key_def)
  have "record_own empty_array_record length_key = Some (length_property True 0)"
    by (simp add: Object_Record.own_property_def key_position_def empty_array_record_def length_property_def)
  then show "array_wf (array_state_sparse 0) empty_array_record True"
    using rwf record_no_index [OF rwf none] by (simp add: array_wf_def array_inv_def array_state_sparse_def)
qed (simp_all add: is_sparse_def array_state_sparse_def index_bound MAX_DENSE_ARRAY_GAP_def empty_array_record_def heap_of_def
    saturating_add_def checked_add_def)

end
