(* ===== verification/Own_Keys.thy ===== *)
theory Own_Keys
  imports Array_Elements
begin

text \<open>
  The order of \<^verbatim>\<open>[[OwnPropertyKeys]]\<close>: indices ascending, then strings, then symbols in the order of
  creation, over the elements of arrays, the virtual indices of string wrappers and the record.
\<close>

section \<open>The properties a snapshot covers\<close>

definition snapshot_own :: "object_record \<Rightarrow> array_state option \<Rightarrow> property_key \<Rightarrow> Define_Property.own_property option" where
  "snapshot_own r array = (case array of None \<Rightarrow> record_own r | Some a \<Rightarrow> array_own a r)"

definition snapshot_wf :: "object_record \<Rightarrow> u32 option \<Rightarrow> array_state option \<Rightarrow> bool" where
  "snapshot_wf r string_length array \<longleftrightarrow>
     record_wf r \<and> (case array of None \<Rightarrow> True | Some a \<Rightarrow> string_length = None \<and> (\<exists>N. array_inv N a r))"

definition indices_of :: "for_in_candidate list \<Rightarrow> array_index list" where
  "indices_of cs = map candidate_index cs"

lemma as_atom_kind_index [simp]: "as_atom_kind key = None \<longleftrightarrow> (\<exists>i. key = Key_Index i)"
  by (cases key) auto

lemma map_filter_if:
  "(\<And>x. x \<in> set xs \<Longrightarrow> f x = (if P x then Some (g x) else None)) \<Longrightarrow> List.map_filter f xs = map g (filter P xs)"
  by (induction xs) (simp_all add: List.map_filter_def)

lemma dense_indices_entries:
  assumes "as_storage a = Dense elements present" "length elements \<le> 4294967295"
  shows "map Key_Index (dense_indices a) = map fst (dense_entries elements)"
proof -
  have "element_index x = (if snd x = None then None else Some (ArrayIndex (word_of_nat (fst x))))"
    if "x \<in> set (List.enumerate 0 elements)" for x
  proof -
    have "fst x < length elements" using that by (auto simp: in_set_enumerate_eq)
    then have "fst x < 4294967295" using assms(2) by simp
    then show ?thesis
      by (auto simp: element_index_def u32_try_from_def array_index_new_def MAX_ARRAY_INDEX_def word_le_nat_alt
          unat_word_of_nat_u32 split: option.splits)
  qed
  then have "List.map_filter element_index (List.enumerate 0 elements) =
    map (\<lambda>x. ArrayIndex (word_of_nat (fst x))) (filter (\<lambda>x. snd x \<noteq> None) (List.enumerate 0 elements))"
    by (intro map_filter_if) auto
  then show ?thesis using assms(1) by (simp add: dense_indices_def dense_entries_def)
qed

lemma dense_indices_exact:
  assumes "array_inv N a r"
  shows "distinct (dense_indices a)" "set (dense_indices a) = {i. dense_value i a \<noteq> None}"
    "length (dense_indices a) = dense_property_count a" "dense_indices a \<noteq> [] \<Longrightarrow> \<not> has_indexed_property r"
proof -
  have "distinct (dense_indices a) \<and> set (dense_indices a) = {i. dense_value i a \<noteq> None} \<and>
    length (dense_indices a) = dense_property_count a \<and> (dense_indices a \<noteq> [] \<longrightarrow> \<not> has_indexed_property r)"
  proof (cases "as_storage a")
    case Sparse
    then show ?thesis by (simp add: dense_indices_def dense_value_def dense_property_count_def)
  next
    case (Dense elements present)
    have len: "length elements \<le> 4294967295" and p: "present = present_count elements" and none: "\<not> has_indexed_property r"
      using assms Dense by (auto simp: array_inv_def)
    note eq = dense_indices_entries [OF Dense len]
    have "distinct (map Key_Index (dense_indices a))" unfolding eq by (rule distinct_dense_entries [OF len])
    moreover have "i \<in> set (dense_indices a) \<longleftrightarrow> dense_value i a \<noteq> None" for i
    proof -
      have "i \<in> set (dense_indices a) \<longleftrightarrow> Key_Index i \<in> set (map Key_Index (dense_indices a))" by auto
      also have "\<dots> \<longleftrightarrow> map_of (dense_entries elements) (Key_Index i) \<noteq> None" unfolding eq by (simp add: map_of_eq_None_iff)
      finally show ?thesis using Dense by (auto simp: dense_entries_lookup [OF len] dense_value_def split: option.splits)
    qed
    moreover have "length (dense_indices a) = present_count elements"
      using arg_cong [OF eq, of length] by (simp add: length_dense_entries)
    ultimately show ?thesis using Dense p none by (auto simp: distinct_map dense_property_count_def)
  qed
  then show "distinct (dense_indices a)" "set (dense_indices a) = {i. dense_value i a \<noteq> None}"
    "length (dense_indices a) = dense_property_count a" "dense_indices a \<noteq> [] \<Longrightarrow> \<not> has_indexed_property r" by blast+
qed

section \<open>Index candidates\<close>

lemma index_candidates_keys: "c \<in> set (index_candidates r n array) \<Longrightarrow> fc_key c = Key_Index (candidate_index c)"
  by (auto simp: index_candidates_def shape_candidate_def own_index_property_def candidate_index_def split: option.splits)

definition shape_indices :: "object_record \<Rightarrow> u32 \<Rightarrow> array_index list" where
  "shape_indices r n = map (\<lambda>p. the (as_index (sp_key p))) (filter (own_index_property n) (or_shape r))"

lemma index_candidates_indices:
  "indices_of (index_candidates r n array) =
     map (\<lambda>i. ArrayIndex (word_of_nat i)) [0..<unat n] @ (case array of None \<Rightarrow> [] | Some a \<Rightarrow> dense_indices a) @ shape_indices r n"
  by (simp add: indices_of_def index_candidates_def candidate_index_def shape_candidate_def shape_indices_def o_def split: option.split)

lemma shape_indices_exact:
  assumes "record_wf r"
  shows "distinct (shape_indices r n)" "set (shape_indices r n) = {i. record_own r (Key_Index i) \<noteq> None \<and> n \<le> index_get i}"
proof -
  have eq: "map Key_Index (shape_indices r n) = filter (index_at_least n) (own_keys r)"
    by (auto simp: shape_indices_def own_keys_def filter_map o_def own_index_property_def index_at_least_def
        intro!: map_cong filter_cong split: option.splits)
  then have "distinct (map Key_Index (shape_indices r n))" using distinct_own_keys [OF assms] by simp
  then show "distinct (shape_indices r n)" by (simp add: distinct_map)
  have "i \<in> set (shape_indices r n) \<longleftrightarrow> Key_Index i \<in> set (map Key_Index (shape_indices r n))" for i by auto
  then show "set (shape_indices r n) = {i. record_own r (Key_Index i) \<noteq> None \<and> n \<le> index_get i}"
    unfolding eq using own_property_dom [OF assms] by (auto simp: index_at_least_def)
qed

lemma virtual_indices:
  "distinct (map (\<lambda>i. ArrayIndex (word_of_nat i)) [0..<unat (n :: u32)])"
  "set (map (\<lambda>i. ArrayIndex (word_of_nat i)) [0..<unat n]) = {i. index_get i < n}"
proof -
  have b: "k < unat n \<Longrightarrow> unat (word_of_nat k :: u32) = k" for k
    by (rule unat_word_of_nat_u32) (simp, erule less_trans, rule unat_u32_bound)
  show "distinct (map (\<lambda>i. ArrayIndex (word_of_nat i)) [0..<unat n])"
    by (auto simp: distinct_map inj_on_def) (metis b)
  have "index_get i < n \<longleftrightarrow> (\<exists>k < unat n. i = ArrayIndex (word_of_nat k))" for i
    by (cases i) (auto simp: word_less_nat_alt b intro!: exI [of _ "unat (index_get i)"])
  then show "set (map (\<lambda>i. ArrayIndex (word_of_nat i)) [0..<unat n]) = {i. index_get i < n}" by (auto simp: image_iff)
qed

lemma index_candidates_exact:
  assumes wf: "snapshot_wf r sl array" and n: "array \<noteq> None \<longrightarrow> n = 0"
  shows "distinct (indices_of (index_candidates r n array))"
    and "set (indices_of (index_candidates r n array)) = {i. index_get i < n \<or> snapshot_own r array (Key_Index i) \<noteq> None}"
proof -
  have rwf: "record_wf r" using wf by (simp add: snapshot_wf_def)
  have "distinct (indices_of (index_candidates r n array)) \<and>
    set (indices_of (index_candidates r n array)) = {i. index_get i < n \<or> snapshot_own r array (Key_Index i) \<noteq> None}"
  proof (cases array)
    case None
    then show ?thesis using virtual_indices [of n] shape_indices_exact [OF rwf, of n]
      by (auto simp: index_candidates_indices snapshot_own_def)
  next
    case (Some a)
    obtain N where inv: "array_inv N a r" using wf Some by (auto simp: snapshot_wf_def)
    note d = dense_indices_exact [OF inv]
    have "set (dense_indices a) \<inter> set (shape_indices r n) = {}"
      using d(4) record_no_index [OF rwf] by (cases "dense_indices a = []") (auto simp: shape_indices_exact [OF rwf])
    moreover have "array_own a r (Key_Index i) \<noteq> None \<longleftrightarrow> dense_value i a \<noteq> None \<or> record_own r (Key_Index i) \<noteq> None" for i
      by (auto simp: array_own_index [OF rwf] split: option.splits)
    ultimately show ?thesis using d shape_indices_exact [OF rwf, of 0] Some n
      by (auto simp: index_candidates_indices snapshot_own_def)
  qed
  then show "distinct (indices_of (index_candidates r n array))"
    "set (indices_of (index_candidates r n array)) = {i. index_get i < n \<or> snapshot_own r array (Key_Index i) \<noteq> None}" by blast+
qed

section \<open>The snapshot\<close>

definition is_string_key :: "property_key \<Rightarrow> bool" where
  "is_string_key key \<longleftrightarrow> as_atom_kind key = Some Atom_String"

definition is_symbol_key :: "property_key \<Rightarrow> bool" where
  "is_symbol_key key \<longleftrightarrow> as_atom_kind key = Some Atom_Symbol \<or> as_atom_kind key = Some Atom_GlobalSymbol"

lemma atom_phase_keys:
  "map fc_key (map shape_candidate (filter (atom_phase_matches Phase_String) (or_shape r))) = filter is_string_key (own_keys r)"
  "map fc_key (map shape_candidate (filter (atom_phase_matches Phase_Symbol) (or_shape r))) = filter is_symbol_key (own_keys r)"
proof -
  have "atom_phase_matches Phase_String = (\<lambda>p. is_string_key (sp_key p))" "atom_phase_matches Phase_Symbol = (\<lambda>p. is_symbol_key (sp_key p))"
    by (auto simp: fun_eq_iff atom_phase_matches_def is_string_key_def is_symbol_key_def split: option.split)
  then show "map fc_key (map shape_candidate (filter (atom_phase_matches Phase_String) (or_shape r))) = filter is_string_key (own_keys r)"
    "map fc_key (map shape_candidate (filter (atom_phase_matches Phase_Symbol) (or_shape r))) = filter is_symbol_key (own_keys r)"
    by (simp_all add: own_keys_def filter_map o_def shape_candidate_def)
qed

lemma strict_sorted_distinct: "sorted xs \<Longrightarrow> distinct xs \<Longrightarrow> sorted_wrt (<) xs" for xs :: "'a::linorder list"
  by (simp add: strict_sorted_iff)

lemma sorted_indices:
  assumes "distinct (indices_of cs)"
  shows "sorted_wrt (<) (indices_of (sort_key candidate_index cs))" "set (indices_of (sort_key candidate_index cs)) = set (indices_of cs)"
proof -
  have "distinct (indices_of (sort_key candidate_index cs))"
    using assms by (simp add: indices_of_def distinct_map)
  then show "sorted_wrt (<) (indices_of (sort_key candidate_index cs))"
    unfolding indices_of_def by (intro strict_sorted_distinct sorted_sort_key)
  show "set (indices_of (sort_key candidate_index cs)) = set (indices_of cs)" by (simp add: indices_of_def)
qed

definition key_enumerable :: "object_record \<Rightarrow> array_state option \<Rightarrow> u32 \<Rightarrow> property_key \<Rightarrow> bool" where
  "key_enumerable r array n key \<longleftrightarrow>
     (case as_index key of Some i \<Rightarrow> index_get i < n | None \<Rightarrow> False) \<or>
     (case snapshot_own r array key of None \<Rightarrow> False | Some p \<Rightarrow> is_enumerable (own_layout p))"

lemma shape_candidate_enumerable:
  assumes wf: "snapshot_wf r sl array" and p: "p \<in> set (or_shape r)" and i: "\<forall>i. sp_key p = Key_Index i \<longrightarrow> n \<le> index_get i"
  shows "fc_enumerable (shape_candidate p) = key_enumerable r array n (sp_key p)"
proof -
  have rwf: "record_wf r" using wf by (simp add: snapshot_wf_def)
  obtain k where k: "k < length (or_shape r)" "or_shape r ! k = p" using p by (auto simp: in_set_conv_nth)
  then have own: "record_own r (sp_key p) = Some (slot_property (sp_layout p) (or_slots r ! k))"
    using key_position_Some [OF rwf, of "sp_key p" k] by (simp add: own_property_slot)
  have "snapshot_own r array (sp_key p) = record_own r (sp_key p)"
  proof (cases array)
    case (Some a)
    then obtain N where inv: "array_inv N a r" using wf by (auto simp: snapshot_wf_def)
    have "dense_value j a = None" if "sp_key p = Key_Index j" for j
    proof -
      have "record_own r (Key_Index j) \<noteq> None" using own that by simp
      then have "has_indexed_property r" using record_no_index [OF rwf, of j] by (cases "has_indexed_property r") simp_all
      then show ?thesis using inv by (auto simp: array_inv_def dense_value_def split: array_storage.splits)
    qed
    then show ?thesis using Some by (cases "sp_key p") (simp_all add: snapshot_own_def array_own_index [OF rwf])
  qed (simp add: snapshot_own_def)
  then show ?thesis using own i by (auto simp: key_enumerable_def shape_candidate_def not_less [symmetric] split: option.splits)
qed

lemma index_candidate_enumerable:
  assumes wf: "snapshot_wf r sl array" and n: "array \<noteq> None \<longrightarrow> n = 0" and c: "c \<in> set (index_candidates r n array)"
  shows "fc_enumerable c = key_enumerable r array n (fc_key c)"
proof -
  consider (virt) i where "i < unat n" "c = \<lparr>fc_key = Key_Index (ArrayIndex (word_of_nat i)), fc_enumerable = True\<rparr>"
    | (dense) a i where "array = Some a" "i \<in> set (dense_indices a)" "c = \<lparr>fc_key = Key_Index i, fc_enumerable = True\<rparr>"
    | (shape) p where "p \<in> set (or_shape r)" "own_index_property n p" "c = shape_candidate p"
    using c by (auto simp: index_candidates_def split: option.splits)
  then show ?thesis
  proof cases
    case virt
    then have "ArrayIndex (word_of_nat i) \<in> set (map (\<lambda>i. ArrayIndex (word_of_nat i)) [0..<unat n])" by simp
    then have "(word_of_nat i :: u32) < n" unfolding virtual_indices(2) by simp
    then show ?thesis using virt by (simp add: key_enumerable_def)
  next
    case dense
    obtain N where inv: "array_inv N a r" using wf dense(1) by (auto simp: snapshot_wf_def)
    then obtain v where "dense_value i a = Some v" using dense(2) dense_indices_exact(2) [OF inv] by auto
    then have "array_own a r (Key_Index i) = Some (default_property v)" by (simp add: array_own_index [OF array_inv_wf [OF inv]])
    then show ?thesis using dense by (simp add: key_enumerable_def snapshot_own_def default_property_def)
  next
    case shape
    have "\<forall>i. sp_key p = Key_Index i \<longrightarrow> n \<le> index_get i" using shape(2) by (auto simp: own_index_property_def)
    then show ?thesis using shape_candidate_enumerable [OF wf shape(1)] shape(3) by (simp add: shape_candidate_def)
  qed
qed

lemma atom_candidate_enumerable:
  assumes wf: "snapshot_wf r sl array" and c: "c \<in> shape_candidate ` set (filter (atom_phase_matches phase) (or_shape r))"
  shows "fc_enumerable c = key_enumerable r array n (fc_key c)"
proof -
  obtain p where p: "p \<in> set (or_shape r)" "atom_phase_matches phase p" "c = shape_candidate p" using c by auto
  then have "\<forall>i. sp_key p = Key_Index i \<longrightarrow> n \<le> index_get i" by (auto simp: atom_phase_matches_def)
  then show ?thesis using shape_candidate_enumerable [OF wf p(1)] p(3) by (simp add: shape_candidate_def)
qed

lemma candidate_count:
  "length (filter (key_in_phases n phases) (or_shape r)) =
     (if kp_indices phases then length (filter (own_index_property n) (or_shape r)) else 0) +
     (if kp_strings phases then length (filter (atom_phase_matches Phase_String) (or_shape r)) else 0) +
     (if kp_symbols phases then length (filter (atom_phase_matches Phase_Symbol) (or_shape r)) else 0)"
proof (induction "or_shape r" arbitrary: r)
  case (Cons p ps)
  have "length (filter (key_in_phases n phases) ps) =
     (if kp_indices phases then length (filter (own_index_property n) ps) else 0) +
     (if kp_strings phases then length (filter (atom_phase_matches Phase_String) ps) else 0) +
     (if kp_symbols phases then length (filter (atom_phase_matches Phase_Symbol) ps) else 0)"
    using Cons.hyps(1) [of "r\<lparr>or_shape := ps\<rparr>"] by simp
  moreover have "or_shape r = p # ps" using Cons.hyps(2) by simp
  ultimately show ?case
    by (cases "sp_key p"; cases "as_atom_kind (sp_key p)")
      (auto simp: key_in_phases_def own_index_property_def atom_phase_matches_def split: atom_kind.splits)
qed simp

text \<open>
  C30. Own keys come in the order of \<^verbatim>\<open>[[OwnPropertyKeys]]\<close>. A snapshot that is allocated lists, phase by phase,
  the indices in strictly ascending order, then the string keys and then the symbol keys in the order
  of creation, each once. The indices are exactly the virtual ones of a string wrapper and those the
  object has a property for, in the vector or in the shape; private names are never listed. Every
  candidate carries the enumerability of its property, and the reserved capacity is the exact count.
\<close>

theorem own_keys_ordered:
  assumes "snapshot_wf r string_length array"
    and "try_own_key_snapshot_with_array alloc r string_length phases array = Some snapshot"
  shows "(\<exists>indices. sorted_wrt (<) indices \<and>
      map fc_key (fs_candidates snapshot) =
        map Key_Index indices @
        (if kp_strings phases then filter is_string_key (own_keys r) else []) @
        (if kp_symbols phases then filter is_symbol_key (own_keys r) else []) \<and>
      set indices =
        (if kp_indices phases
         then {i. index_get i < unwrap_or string_length 0 \<or> snapshot_own r array (Key_Index i) \<noteq> None} else {})) \<and>
    (\<forall>c \<in> set (fs_candidates snapshot).
       fc_enumerable c = key_enumerable r array (virtual_index_count string_length phases) (fc_key c)) \<and>
    length (fs_candidates snapshot) = own_key_candidate_count_with_array r string_length phases array"
proof -
  let ?n = "virtual_index_count string_length phases"
  let ?cs = "if kp_indices phases then index_candidates r ?n array else []"
  let ?str = "if kp_strings phases then map shape_candidate (filter (atom_phase_matches Phase_String) (or_shape r)) else []"
  let ?sym = "if kp_symbols phases then map shape_candidate (filter (atom_phase_matches Phase_Symbol) (or_shape r)) else []"
  have snap: "fs_candidates snapshot = sort_key candidate_index ?cs @ ?str @ ?sym"
    using assms(2) by (auto simp: try_own_key_snapshot_with_array_def Let_def push_atom_keys_def split: if_splits)
  have n: "array \<noteq> None \<longrightarrow> ?n = 0" using assms(1) by (auto simp: snapshot_wf_def virtual_index_count_def split: option.splits)
  note exact = index_candidates_exact [OF assms(1) n]
  have dist: "distinct (indices_of ?cs)" using exact(1) by (simp add: indices_of_def)
  note sorted = sorted_indices [OF dist]
  have keys: "map fc_key (sort_key candidate_index ?cs) = map Key_Index (indices_of (sort_key candidate_index ?cs))"
    using index_candidates_keys by (auto simp: indices_of_def o_def intro!: map_cong)
  have set: "set (indices_of ?cs) = (if kp_indices phases
      then {i. index_get i < unwrap_or string_length 0 \<or> snapshot_own r array (Key_Index i) \<noteq> None} else {})"
    using exact(2) by (cases "kp_indices phases") (simp_all add: virtual_index_count_def indices_of_def)
  have all: "map fc_key (fs_candidates snapshot) = map Key_Index (indices_of (sort_key candidate_index ?cs)) @
      (if kp_strings phases then filter is_string_key (own_keys r) else []) @
      (if kp_symbols phases then filter is_symbol_key (own_keys r) else [])"
    unfolding snap map_append keys by (simp only: if_distrib [of "map fc_key"] atom_phase_keys list.map(1))
  have enum: "fc_enumerable c = key_enumerable r array ?n (fc_key c)" if "c \<in> set (fs_candidates snapshot)" for c
    using that index_candidate_enumerable [OF assms(1) n, of c] atom_candidate_enumerable [OF assms(1), of c] unfolding snap
    by (auto split: if_splits)
  have count: "length (fs_candidates snapshot) = own_key_candidate_count_with_array r string_length phases array"
  proof -
    have "length (index_candidates r ?n array) = unat ?n + (case array of None \<Rightarrow> 0 | Some a \<Rightarrow> dense_property_count a) +
      length (filter (own_index_property ?n) (or_shape r))"
      using assms(1) dense_indices_exact(3) by (auto simp: index_candidates_def snapshot_wf_def split: option.splits)
    then show ?thesis unfolding snap
      by (simp add: own_key_candidate_count_with_array_def Let_def candidate_count) (simp add: virtual_index_count_def)
  qed
  show ?thesis
  proof (intro conjI exI ballI)
    show "sorted_wrt (<) (indices_of (sort_key candidate_index ?cs))" by (rule sorted(1))
  qed (use all set sorted(2) enum count in simp_all)
qed

definition mixed_record :: object_record where
  "mixed_record = \<lparr>or_prototype = None, or_extensible = True, or_is_html_dda = False,
     or_shape = [\<lparr>sp_key = Key_Atom 901 Atom_Symbol, sp_layout = PL_Data True True True\<rparr>,
       \<lparr>sp_key = Key_Index (ArrayIndex 7), sp_layout = PL_Data True True True\<rparr>,
       \<lparr>sp_key = Key_Atom 900 Atom_String, sp_layout = PL_Data True False True\<rparr>,
       \<lparr>sp_key = Key_Atom 902 Atom_Private, sp_layout = PL_Data True False True\<rparr>],
     or_slots = [Slot_Data (SV_Boolean True), Slot_Data SV_Null, Slot_Data (SV_Boolean False), Slot_Data SV_Null]\<rparr>"

theorem own_keys_ordered_witness:
  "\<exists>snapshot. try_own_key_snapshot (\<lambda>_ _. True) mixed_record (Some 1) ALL_KEYS = Some snapshot \<and>
     length (fs_candidates snapshot) = 4 \<and>
     (\<exists>indices. sorted_wrt (<) indices \<and> set indices = {ArrayIndex 0, ArrayIndex 7} \<and>
        map fc_key (fs_candidates snapshot) =
          map Key_Index indices @ [Key_Atom 900 Atom_String, Key_Atom 901 Atom_Symbol])"
proof -
  have wf: "snapshot_wf mixed_record (Some 1) None"
    by (simp add: snapshot_wf_def record_wf_def mixed_record_def key_valid_def MAX_ARRAY_INDEX_def)
  obtain snapshot where snap: "try_own_key_snapshot_with_array (\<lambda>_ _. True) mixed_record (Some 1) ALL_KEYS None = Some snapshot"
    by (simp add: try_own_key_snapshot_with_array_def Let_def)
  have own: "snapshot_own mixed_record None (Key_Index i) \<noteq> None \<longleftrightarrow> i = ArrayIndex 7" for i
    by (auto simp: snapshot_own_def Object_Record.own_property_def key_position_def mixed_record_def)
  have set: "{i. index_get i < 1 \<or> i = ArrayIndex 7} = {ArrayIndex 0, ArrayIndex 7}"
    by (auto simp: word_less_1 array_index.expand)
  have count: "own_key_candidate_count_with_array mixed_record (Some 1) ALL_KEYS None = 4"
    by (simp add: own_key_candidate_count_with_array_def ALL_KEYS_def mixed_record_def key_in_phases_def virtual_index_count_def)
  have atoms: "filter is_string_key (own_keys mixed_record) = [Key_Atom 900 Atom_String]"
    "filter is_symbol_key (own_keys mixed_record) = [Key_Atom 901 Atom_Symbol]"
    by (simp_all add: mixed_record_def own_keys_def is_string_key_def is_symbol_key_def)
  have range: "{i. index_get i < unwrap_or (Some 1) 0 \<or> snapshot_own mixed_record None (Key_Index i) \<noteq> None} = {ArrayIndex 0, ArrayIndex 7}"
    unfolding own using set by simp
  note ordered = own_keys_ordered [OF wf snap, unfolded atoms range count]
  have "kp_indices ALL_KEYS" "kp_strings ALL_KEYS" "kp_symbols ALL_KEYS" by (simp_all add: ALL_KEYS_def)
  then show ?thesis using ordered snap unfolding try_own_key_snapshot_def by (simp only: if_True append.simps) blast
qed

end
