(* ===== verification/Regexp_Program.thy ===== *)
theory Regexp_Program
  imports Prelude
begin

text \<open>
  Regular expression programs and the tests of one input position: \<^verbatim>\<open>program.rs\<close>, \<^verbatim>\<open>flags.rs\<close>,
  \<^verbatim>\<open>properties.rs\<close>, \<^verbatim>\<open>emoji.rs\<close> and the leaf functions of \<^verbatim>\<open>executor.rs\<close>. The tables of the Unicode
  libraries are the fields of \<open>unicode_data\<close>, an argument of every definition that consults them.
  Positions are UTF-16 code-unit offsets; an access outside the input is the panic it is in the source.
\<close>

section \<open>Flags and modes\<close>

record match_mode =
  mm_ignore_case :: bool
  mm_multiline :: bool
  mm_dot_all :: bool
  mm_unicode :: bool
  mm_unicode_sets :: bool

record regexp_flags =
  rf_has_indices :: bool
  rf_global :: bool
  rf_ignore_case :: bool
  rf_multiline :: bool
  rf_dot_all :: bool
  rf_unicode :: bool
  rf_unicode_sets :: bool
  rf_sticky :: bool

definition unicode_mode :: "regexp_flags \<Rightarrow> bool" where
  "unicode_mode flags \<longleftrightarrow> rf_unicode flags \<or> rf_unicode_sets flags"

definition initial_mode :: "regexp_flags \<Rightarrow> match_mode" where
  "initial_mode flags =
     \<lparr>mm_ignore_case = rf_ignore_case flags, mm_multiline = rf_multiline flags, mm_dot_all = rf_dot_all flags,
      mm_unicode = unicode_mode flags, mm_unicode_sets = rf_unicode_sets flags\<rparr>"

section \<open>Unicode data\<close>

text \<open>
  What the matcher asks of the Unicode libraries: the simple case mappings of a scalar value, membership
  in the code-point set a property was compiled to, the set of basic emoji strings, the emoji modifier
  bases, and the emoji index, which answers with the canonical spelling of an emoji.
\<close>

record unicode_data =
  ud_simple_fold :: "u32 \<Rightarrow> u32"
  ud_simple_lowercase :: "u32 \<Rightarrow> u32"
  ud_simple_uppercase :: "u32 \<Rightarrow> u32"
  ud_simple_titlecase :: "u32 \<Rightarrow> u32"
  ud_set_contains :: "nat \<Rightarrow> u32 \<Rightarrow> bool"
  ud_basic_emoji :: "u32 list \<Rightarrow> bool"
  ud_emoji_modifier_base :: "u32 \<Rightarrow> bool"
  ud_emojis_get :: "u32 list \<Rightarrow> u32 list option"

text \<open>\<^verbatim>\<open>char::from_u32\<close>: scalar values exclude surrogates and end at \<^verbatim>\<open>0x10ffff\<close>.\<close>

definition is_scalar :: "u32 \<Rightarrow> bool" where
  "is_scalar value \<longleftrightarrow> value < 0xd800 \<or> 0xe000 \<le> value \<and> value \<le> 0x10ffff"

definition canonicalize :: "unicode_data \<Rightarrow> u32 \<Rightarrow> match_mode \<Rightarrow> u32" where
  "canonicalize ud value mode =
     (if \<not> mm_ignore_case mode then value
      else if \<not> is_scalar value then value
      else if mm_unicode mode then ud_simple_fold ud value
      else let upper = ud_simple_uppercase ud value
           in if 0x80 \<le> value \<and> upper < 0x80 then value else upper)"

definition is_digit :: "u32 \<Rightarrow> bool" where
  "is_digit value \<longleftrightarrow> 0x30 \<le> value \<and> value \<le> 0x39"

definition is_word :: "unicode_data \<Rightarrow> u32 \<Rightarrow> match_mode \<Rightarrow> bool" where
  "is_word ud value mode =
     (let canonical = canonicalize ud value mode
      in is_digit canonical \<or> 0x41 \<le> canonical \<and> canonical \<le> 0x5a \<or> canonical = 0x5f \<or>
         0x61 \<le> canonical \<and> canonical \<le> 0x7a)"

definition is_space :: "u32 \<Rightarrow> bool" where
  "is_space value \<longleftrightarrow>
     0x0009 \<le> value \<and> value \<le> 0x000d \<or> value = 0x0020 \<or> value = 0x00a0 \<or> value = 0x1680 \<or>
     0x2000 \<le> value \<and> value \<le> 0x200a \<or> value = 0x2028 \<or> value = 0x2029 \<or> value = 0x202f \<or>
     value = 0x205f \<or> value = 0x3000 \<or> value = 0xfeff"

definition is_line_terminator :: "u32 \<Rightarrow> bool" where
  "is_line_terminator value \<longleftrightarrow> value = 0x000a \<or> value = 0x000d \<or> value = 0x2028 \<or> value = 0x2029"

section \<open>Properties of strings and code points\<close>

definition RGI_FLAG_SEQUENCE :: "u8 list" where
  "RGI_FLAG_SEQUENCE =
     [0x0c, 0x00, 0x09, 0x00, 0x04, 0x01, 0x02, 0x06, 0x03, 0x03, 0x01, 0x02, 0x01, 0x03, 0x07, 0x0d,
      0x18, 0x00, 0x09, 0x00, 0x00, 0x89, 0x08, 0x00, 0x00, 0x81, 0x88, 0x83, 0x8c, 0x10, 0x00, 0x01,
      0x07, 0x08, 0x29, 0x10, 0x28, 0x00, 0x80, 0x8a, 0x00, 0x0a, 0x00, 0x0e, 0x15, 0x18, 0x83, 0x89,
      0x06, 0x00, 0x81, 0x8d, 0x00, 0x12, 0x08, 0x00, 0x03, 0x00, 0x24, 0x00, 0x05, 0x21, 0x00, 0x00,
      0x29, 0x90, 0x00, 0x02, 0x00, 0x08, 0x09, 0x00, 0x08, 0x18, 0x8b, 0x80, 0x8c, 0x02, 0x19, 0x1a,
      0x11, 0x00, 0x00, 0x80, 0x9c, 0x80, 0x88, 0x02, 0x00, 0x00, 0x02, 0x20, 0x88, 0x0a, 0x00, 0x03,
      0x01, 0x02, 0x05, 0x08, 0x00, 0x01, 0x09, 0x20, 0x21, 0x18, 0x22, 0x00, 0x00, 0x00, 0x00, 0x18,
      0x28, 0x89, 0x80, 0x8b, 0x80, 0x90, 0x80, 0x92, 0x80, 0x8d, 0x05, 0x80, 0x8a, 0x80, 0x88, 0x80]"

text \<open>
  One record of the run-length table, as the end of the run it adds and, for a byte that packs two
  runs, the end of the first; the rest of the table; \<^verbatim>\<open>None\<close> when the table ends inside a record.
\<close>

fun next_run :: "u8 list \<Rightarrow> u32 \<Rightarrow> (u32 option \<times> u32 \<times> u8 list) option" where
  "next_run [] code_point = None"
| "next_run (byte # rest) code_point =
     (if byte < 0x40
      then let middle = code_point + ucast (drop_bit 3 byte) + 1
           in Some (Some middle, middle + ucast (byte AND 7) + 1, rest)
      else if 0x80 \<le> byte then Some (None, code_point + ucast (byte - 0x80) + 1, rest)
      else if byte < 0x60
      then (case rest of
              [] \<Rightarrow> None
            | low # rest' \<Rightarrow>
                Some (None, code_point + (push_bit 8 (ucast (byte - 0x40)) OR ucast low) + 1, rest'))
      else (case rest of
              high # low # rest' \<Rightarrow>
                Some (None, code_point +
                  (push_bit 16 (ucast (byte - 0x60)) OR push_bit 8 (ucast high) OR ucast low) + 1, rest')
            | _ \<Rightarrow> None))"

lemma next_run_shorter: "next_run table code_point = Some (m, e, rest) \<Longrightarrow> length rest < length table"
  by (cases table) (auto simp: Let_def split: if_splits list.splits)

function compressed_loop :: "u8 list \<Rightarrow> u32 \<Rightarrow> bool \<Rightarrow> u32 \<Rightarrow> bool" where
  "compressed_loop table code_point included value =
     (case next_run table code_point of
        None \<Rightarrow> False
      | Some (None, run_end, rest) \<Rightarrow>
          if included \<and> code_point \<le> value \<and> value < run_end then True
          else if value < run_end \<and> included then False
          else compressed_loop rest run_end (\<not> included) value
      | Some (Some middle, run_end, rest) \<Rightarrow>
          if included \<and> code_point \<le> value \<and> value < middle then True
          else if \<not> included \<and> middle \<le> value \<and> value < run_end then True
          else if value < run_end \<and> \<not> included then False
          else compressed_loop rest run_end included value)"
  by pat_completeness auto
termination
  by (relation "measure (length \<circ> fst)") (auto dest: next_run_shorter)

definition compressed_property_contains :: "u8 list \<Rightarrow> u32 \<Rightarrow> bool" where
  "compressed_property_contains table value = compressed_loop table 0 False value"

definition is_valid_flag :: "u32 \<Rightarrow> u32 \<Rightarrow> bool" where
  "is_valid_flag first second =
     (if \<not> (0x1f1e6 \<le> first \<and> first \<le> 0x1f1ff) \<or> \<not> (0x1f1e6 \<le> second \<and> second \<le> 0x1f1ff) then False
      else compressed_property_contains RGI_FLAG_SEQUENCE ((first - 0x1f1e6) * 26 + second - 0x1f1e6))"

text \<open>The tag characters spell a subdivision name; \<open>of_char\<close> gives the code points of the literals.\<close>

definition code_points :: "string \<Rightarrow> u32 list" where
  "code_points s = map of_char s"

definition is_valid_tag_sequence :: "u32 list \<Rightarrow> bool" where
  "is_valid_tag_sequence sequence =
     (case sequence of
        [] \<Rightarrow> False
      | base # tagged \<Rightarrow>
          base = 0x1f3f4 \<and> tagged \<noteq> [] \<and> last tagged = 0xe007f \<and>
          list_all (\<lambda>tag. 0xe0000 \<le> tag \<and> is_scalar (tag - 0xe0000)) (butlast tagged) \<and>
          map (\<lambda>tag. tag - 0xe0000) (butlast tagged) \<in> {code_points ''gbeng'', code_points ''gbsct'', code_points ''gbwls''})"

definition is_rgi_emoji :: "unicode_data \<Rightarrow> u32 list \<Rightarrow> bool" where
  "is_rgi_emoji ud sequence \<longleftrightarrow> list_all is_scalar sequence \<and> ud_emojis_get ud sequence = Some sequence"

definition emoji_matches :: "unicode_data \<Rightarrow> string \<Rightarrow> u32 list \<Rightarrow> bool" where
  "emoji_matches ud name sequence =
     (if name = ''Basic_Emoji'' then list_all is_scalar sequence \<and> ud_basic_emoji ud sequence
      else if name = ''Emoji_Keycap_Sequence'' then
        (case sequence of
           [first, variant, keycap] \<Rightarrow>
             variant = 0xfe0f \<and> keycap = 0x20e3 \<and>
             (first = 0x23 \<or> first = 0x2a \<or> 0x30 \<le> first \<and> first \<le> 0x39)
         | _ \<Rightarrow> False)
      else if name = ''RGI_Emoji_Modifier_Sequence'' then
        (case sequence of
           [base, modifier] \<Rightarrow> 0x1f3fb \<le> modifier \<and> modifier \<le> 0x1f3ff \<and> ud_emoji_modifier_base ud base
         | _ \<Rightarrow> False)
      else if name = ''RGI_Emoji_Flag_Sequence'' then
        (case sequence of [first, second] \<Rightarrow> is_valid_flag first second | _ \<Rightarrow> False)
      else if name = ''RGI_Emoji_Tag_Sequence'' then is_valid_tag_sequence sequence
      else if name = ''RGI_Emoji_ZWJ_Sequence'' then 0x200d \<in> set sequence \<and> is_rgi_emoji ud sequence
      else if name = ''RGI_Emoji'' then is_rgi_emoji ud sequence
      else False)"

text \<open>The matchers backed by a code-point set or map of the library carry the number of that set.\<close>

datatype unicode_property_matcher =
  Matcher_Any | Matcher_Ascii | Matcher_Data nat | Matcher_EmojiString string | Matcher_Never

record unicode_property =
  up_negative :: bool
  up_strings :: bool
  up_matcher :: unicode_property_matcher

definition base_matches :: "unicode_data \<Rightarrow> unicode_property \<Rightarrow> u32 \<Rightarrow> bool" where
  "base_matches ud property code_point =
     (case up_matcher property of
        Matcher_Any \<Rightarrow> code_point \<le> 0x10ffff
      | Matcher_Ascii \<Rightarrow> code_point \<le> 0x7f
      | Matcher_Data d \<Rightarrow> ud_set_contains ud d code_point
      | Matcher_EmojiString _ \<Rightarrow> False
      | Matcher_Never \<Rightarrow> False)"

definition case_equivalents :: "unicode_data \<Rightarrow> u32 \<Rightarrow> u32 list" where
  "case_equivalents ud code_point =
     (if \<not> is_scalar code_point then replicate 5 code_point
      else [code_point, ud_simple_fold ud code_point, ud_simple_lowercase ud code_point,
            ud_simple_uppercase ud code_point, ud_simple_titlecase ud code_point])"

definition property_matches :: "unicode_data \<Rightarrow> unicode_property \<Rightarrow> u32 \<Rightarrow> match_mode \<Rightarrow> bool" where
  "property_matches ud property code_point mode =
     (if \<not> mm_ignore_case mode then base_matches ud property code_point \<noteq> up_negative property
      else let equivalents = case_equivalents ud code_point;
               any_inside = list_ex (base_matches ud property) equivalents
           in if \<not> up_negative property then any_inside
              else if mm_unicode_sets mode then \<not> any_inside
              else list_ex (\<lambda>equivalent. \<not> base_matches ud property equivalent) equivalents)"

definition matches_sequence :: "unicode_data \<Rightarrow> unicode_property \<Rightarrow> u32 list \<Rightarrow> match_mode \<Rightarrow> bool" where
  "matches_sequence ud property sequence mode =
     (case up_matcher property of
        Matcher_EmojiString name \<Rightarrow> \<not> up_negative property \<and> emoji_matches ud name sequence
      | _ \<Rightarrow> (case sequence of [code_point] \<Rightarrow> property_matches ud property code_point mode | _ \<Rightarrow> False))"

section \<open>Programs\<close>

datatype boundary_kind = Boundary_Start | Boundary_End | Boundary_Word | Boundary_NotWord

datatype direction = Forward | Backward

datatype lookaround_kind = Ahead | NegativeAhead | Behind | NegativeBehind

fun is_negative :: "lookaround_kind \<Rightarrow> bool" where
  "is_negative Ahead = False"
| "is_negative NegativeAhead = True"
| "is_negative Behind = False"
| "is_negative NegativeBehind = True"

fun lookaround_direction :: "lookaround_kind \<Rightarrow> direction" where
  "lookaround_direction Ahead = Forward"
| "lookaround_direction NegativeAhead = Forward"
| "lookaround_direction Behind = Backward"
| "lookaround_direction NegativeBehind = Backward"

datatype class_kind = Class_Union | Class_Intersection | Class_Subtraction

text \<open>A character class is its negation, kind, items, strings and whether it has string properties.\<close>

datatype character_class =
  CharacterClass (cc_negative: bool) (cc_kind: class_kind) (cc_items: "class_item list")
    (cc_strings: "u32 list list") (cc_has_string_properties: bool)
and class_item =
  Item_Range u32 u32 | Item_Digit bool | Item_Space bool | Item_Word bool
| Item_Property unicode_property | Item_Nested character_class | Item_String "u32 list"

datatype instruction =
  I_Character u32 match_mode
| I_Dot match_mode
| I_CharacterClass character_class match_mode
| I_Boundary boundary_kind match_mode
| I_SaveStart usize
| I_SaveEnd usize
| I_BackReference "usize list" match_mode
| I_Lookaround lookaround_kind usize usize
| I_LookaroundAccept lookaround_kind
| I_Split usize usize
| I_Jump usize
| I_Repeat usize u64 "u64 option" bool usize usize usize usize
| I_RepeatEnd usize usize
| I_Match

record program =
  pg_instructions :: "instruction list"
  pg_capture_count :: usize
  pg_capture_names :: "string option list"
  pg_repeat_count :: usize
  pg_flags :: regexp_flags

section \<open>Decoding\<close>

datatype exec_error = StepLimit | BacktrackLimit | Exec_Panic

definition is_high_surrogate :: "u16 \<Rightarrow> bool" where
  "is_high_surrogate u \<longleftrightarrow> 0xd800 \<le> u \<and> u \<le> 0xdbff"

definition is_low_surrogate :: "u16 \<Rightarrow> bool" where
  "is_low_surrogate u \<longleftrightarrow> 0xdc00 \<le> u \<and> u \<le> 0xdfff"

definition combine_surrogates :: "u16 \<Rightarrow> u16 \<Rightarrow> u32" where
  "combine_surrogates first second =
     0x10000 + push_bit 10 (ucast first - 0xd800) + (ucast second - 0xdc00)"

definition decode_at :: "u16 list \<Rightarrow> usize \<Rightarrow> bool \<Rightarrow> (u32 \<times> usize) option" where
  "decode_at input position unicode =
     (case get input position of
        None \<Rightarrow> None
      | Some first \<Rightarrow>
          (case get input (position + 1) of
             None \<Rightarrow> Some (ucast first, position + 1)
           | Some second \<Rightarrow>
               if unicode \<and> is_high_surrogate first \<and> is_low_surrogate second
               then Some (combine_surrogates first second, position + 2)
               else Some (ucast first, position + 1)))"

definition decode_before :: "u16 list \<Rightarrow> usize \<Rightarrow> bool \<Rightarrow> (exec_error, (u32 \<times> usize) option) result" where
  "decode_before input position unicode =
     (if position = 0 then Inr None
      else let last_position = position - 1
           in case get input last_position of
                None \<Rightarrow> Inl Exec_Panic
              | Some final \<Rightarrow>
                  if unicode \<and> is_low_surrogate final \<and> 0 < last_position \<and>
                     is_high_surrogate (input ! (last_position - 1))
                  then Inr (Some (combine_surrogates (input ! (last_position - 1)) final, last_position - 1))
                  else Inr (Some (ucast final, last_position)))"

definition decode_in_direction ::
  "u16 list \<Rightarrow> usize \<Rightarrow> bool \<Rightarrow> direction \<Rightarrow> (exec_error, (u32 \<times> usize) option) result" where
  "decode_in_direction input position unicode dir =
     (case dir of Forward \<Rightarrow> Inr (decode_at input position unicode) | Backward \<Rightarrow> decode_before input position unicode)"

definition advance_index :: "u16 list \<Rightarrow> usize \<Rightarrow> bool \<Rightarrow> usize" where
  "advance_index input position unicode =
     (case decode_at input position unicode of None \<Rightarrow> length input | Some (_, following) \<Rightarrow> following)"

lemma decode_at_next:
  "decode_at input position unicode = Some (c, n) \<Longrightarrow> position < n \<and> n \<le> length input"
  by (auto simp: decode_at_def split: option.splits if_splits)

lemma decode_before_next:
  "decode_before input position unicode = Inr (Some (c, n)) \<Longrightarrow> n < position \<and> position \<le> length input"
  by (cases position) (auto simp: decode_before_def Let_def split: option.splits if_splits)

lemma decode_before_no_panic:
  "position \<le> length input \<Longrightarrow> \<exists>r. decode_before input position unicode = Inr r"
  by (auto simp: decode_before_def Let_def split: option.splits)

section \<open>Assertions and back references\<close>

definition decoded_satisfies :: "(u32 \<Rightarrow> bool) \<Rightarrow> (u32 \<times> usize) option \<Rightarrow> bool" where
  "decoded_satisfies P decoded = (case decoded of None \<Rightarrow> False | Some (value, _) \<Rightarrow> P value)"

definition boundary_matches ::
  "unicode_data \<Rightarrow> boundary_kind \<Rightarrow> u16 list \<Rightarrow> usize \<Rightarrow> match_mode \<Rightarrow> (exec_error, bool) result" where
  "boundary_matches ud kind input position mode =
     (case kind of
        Boundary_Start \<Rightarrow>
          if position = 0 then Inr True
          else if \<not> mm_multiline mode then Inr False
          else and_then (decode_before input position (mm_unicode mode)) (\<lambda>previous.
                 Inr (decoded_satisfies is_line_terminator previous))
      | Boundary_End \<Rightarrow>
          Inr (position = length input \<or>
               mm_multiline mode \<and> decoded_satisfies is_line_terminator (decode_at input position (mm_unicode mode)))
      | _ \<Rightarrow>
          and_then (decode_before input position (mm_unicode mode)) (\<lambda>previous_value.
            let previous = decoded_satisfies (\<lambda>value. is_word ud value mode) previous_value;
                following = decoded_satisfies (\<lambda>value. is_word ud value mode) (decode_at input position (mm_unicode mode));
                boundary = (previous \<noteq> following)
            in Inr (if kind = Boundary_Word then boundary else \<not> boundary)))"

function back_reference_backward ::
  "unicode_data \<Rightarrow> u16 list \<Rightarrow> match_mode \<Rightarrow> usize \<Rightarrow> usize \<Rightarrow> usize \<Rightarrow> (exec_error, usize option) result" where
  "back_reference_backward ud input mode range_start capture_position position =
     (if capture_position \<le> range_start then Inr (Some position)
      else case decode_before input capture_position (mm_unicode mode) of
             Inl e \<Rightarrow> Inl e
           | Inr None \<Rightarrow> Inr None
           | Inr (Some (expected, next_capture)) \<Rightarrow>
               if next_capture < range_start then Inr None
               else (case decode_before input position (mm_unicode mode) of
                       Inl e \<Rightarrow> Inl e
                     | Inr None \<Rightarrow> Inr None
                     | Inr (Some (actual, next_position)) \<Rightarrow>
                         if canonicalize ud expected mode \<noteq> canonicalize ud actual mode then Inr None
                         else back_reference_backward ud input mode range_start next_capture next_position))"
  by pat_completeness auto
termination
  by (relation "measure (\<lambda>(_, _, _, _, capture_position, _). capture_position)") (auto dest: decode_before_next)

function back_reference_forward ::
  "unicode_data \<Rightarrow> u16 list \<Rightarrow> match_mode \<Rightarrow> usize \<Rightarrow> usize \<Rightarrow> usize \<Rightarrow> usize option" where
  "back_reference_forward ud input mode range_end capture_position position =
     (if range_end \<le> capture_position then Some position
      else case decode_at input capture_position (mm_unicode mode) of
             None \<Rightarrow> None
           | Some (expected, next_capture) \<Rightarrow>
               if range_end < next_capture then None
               else (case decode_at input position (mm_unicode mode) of
                       None \<Rightarrow> None
                     | Some (actual, next_position) \<Rightarrow>
                         if canonicalize ud expected mode \<noteq> canonicalize ud actual mode then None
                         else back_reference_forward ud input mode range_end next_capture next_position))"
  by pat_completeness auto
termination
  by (relation "measure (\<lambda>(_, _, _, range_end, capture_position, _). range_end - capture_position)")
    (auto dest: decode_at_next)

declare back_reference_backward.simps [simp del] back_reference_forward.simps [simp del]

definition match_back_reference ::
  "unicode_data \<Rightarrow> u16 list \<Rightarrow> usize \<Rightarrow> usize \<times> usize \<Rightarrow> match_mode \<Rightarrow> direction \<Rightarrow> (exec_error, usize option) result" where
  "match_back_reference ud input position span mode dir =
     (case dir of
        Backward \<Rightarrow> back_reference_backward ud input mode (fst span) (snd span) position
      | Forward \<Rightarrow> Inr (back_reference_forward ud input mode (snd span) (fst span) position))"

section \<open>Character classes\<close>

definition sequences_equal :: "unicode_data \<Rightarrow> u32 list \<Rightarrow> u32 list \<Rightarrow> match_mode \<Rightarrow> bool" where
  "sequences_equal ud left right mode \<longleftrightarrow>
     length left = length right \<and>
     list_all (\<lambda>(l, r). canonicalize ud l mode = canonicalize ud r mode) (zip left right)"

definition single :: "(u32 \<Rightarrow> bool) \<Rightarrow> u32 list \<Rightarrow> bool" where
  "single P value = (case value of [v] \<Rightarrow> P v | _ \<Rightarrow> False)"

fun class_contains_sequence :: "unicode_data \<Rightarrow> character_class \<Rightarrow> u32 list \<Rightarrow> match_mode \<Rightarrow> bool"
  and class_item_matches :: "unicode_data \<Rightarrow> class_item \<Rightarrow> u32 list \<Rightarrow> match_mode \<Rightarrow> bool" where
  "class_contains_sequence ud (CharacterClass negative kind items strings has_string_properties) value mode =
     ((case kind of
         Class_Union \<Rightarrow> list_ex (\<lambda>item. class_item_matches ud item value mode) items
       | Class_Intersection \<Rightarrow> list_all (\<lambda>item. class_item_matches ud item value mode) items
       | Class_Subtraction \<Rightarrow>
           (case items of
              [] \<Rightarrow> False
            | first # rest \<Rightarrow>
                class_item_matches ud first value mode \<and> \<not> list_ex (\<lambda>item. class_item_matches ud item value mode) rest)) \<noteq>
      negative)"
| "class_item_matches ud (Item_Range first final) value mode =
     single (\<lambda>v. let canonical = canonicalize ud v mode;
                      low = canonicalize ud first mode;
                      high = canonicalize ud final mode
                  in min low high \<le> canonical \<and> canonical \<le> max low high) value"
| "class_item_matches ud (Item_Digit negative) value mode = single (\<lambda>v. is_digit v \<noteq> negative) value"
| "class_item_matches ud (Item_Space negative) value mode = single (\<lambda>v. is_space v \<noteq> negative) value"
| "class_item_matches ud (Item_Word negative) value mode = single (\<lambda>v. is_word ud v mode \<noteq> negative) value"
| "class_item_matches ud (Item_Property property) value mode = matches_sequence ud property value mode"
| "class_item_matches ud (Item_Nested class) value mode = class_contains_sequence ud class value mode"
| "class_item_matches ud (Item_String expected) value mode = sequences_equal ud expected value mode"

definition class_matches :: "unicode_data \<Rightarrow> character_class \<Rightarrow> u32 \<Rightarrow> match_mode \<Rightarrow> bool" where
  "class_matches ud class value mode = class_contains_sequence ud class [value] mode"

primrec match_string_from ::
  "unicode_data \<Rightarrow> u16 list \<Rightarrow> match_mode \<Rightarrow> direction \<Rightarrow> u32 list \<Rightarrow> usize \<Rightarrow> (exec_error, usize option) result" where
  "match_string_from ud input mode dir [] position = Inr (Some position)"
| "match_string_from ud input mode dir (expected # rest) position =
     and_then (decode_in_direction input position (mm_unicode mode) dir) (\<lambda>decoded.
       case decoded of
         None \<Rightarrow> Inr None
       | Some (actual, following) \<Rightarrow>
           if canonicalize ud expected mode \<noteq> canonicalize ud actual mode then Inr None
           else match_string_from ud input mode dir rest following)"

definition match_class_string ::
  "unicode_data \<Rightarrow> u16 list \<Rightarrow> usize \<Rightarrow> u32 list \<Rightarrow> match_mode \<Rightarrow> direction \<Rightarrow> (exec_error, usize option) result" where
  "match_class_string ud input position value mode dir =
     (case dir of
        Forward \<Rightarrow> match_string_from ud input mode dir value position
      | Backward \<Rightarrow> match_string_from ud input mode dir (rev value) position)"

primrec prefixes_from ::
  "u16 list \<Rightarrow> bool \<Rightarrow> direction \<Rightarrow> nat \<Rightarrow> u32 list \<Rightarrow> usize \<Rightarrow> (exec_error, (u32 list \<times> usize) list) result" where
  "prefixes_from input unicode dir 0 value cursor = Inr []"
| "prefixes_from input unicode dir (Suc n) value cursor =
     and_then (decode_in_direction input cursor unicode dir) (\<lambda>decoded.
       case decoded of
         None \<Rightarrow> Inr []
       | Some (code_point, following) \<Rightarrow>
           let value' = (case dir of Forward \<Rightarrow> value @ [code_point] | Backward \<Rightarrow> code_point # value)
           in and_then (prefixes_from input unicode dir n value' following) (\<lambda>rest.
                Inr ((value', following) # rest)))"

definition directional_prefixes ::
  "u16 list \<Rightarrow> usize \<Rightarrow> bool \<Rightarrow> direction \<Rightarrow> nat \<Rightarrow> (exec_error, (u32 list \<times> usize) list) result" where
  "directional_prefixes input position unicode dir maximum = prefixes_from input unicode dir maximum [] position"

definition push_new :: "'a list \<Rightarrow> 'a \<Rightarrow> 'a list" where
  "push_new xs x = (if x \<in> set xs then xs else xs @ [x])"

definition string_position ::
  "unicode_data \<Rightarrow> character_class \<Rightarrow> u16 list \<Rightarrow> usize \<Rightarrow> match_mode \<Rightarrow> direction \<Rightarrow> usize list \<Rightarrow> u32 list \<Rightarrow>
     (exec_error, usize list) result" where
  "string_position ud class input position mode dir positions str =
     (if length str = 1 \<or> \<not> class_contains_sequence ud class str mode then Inr positions
      else and_then (match_class_string ud input position str mode dir) (\<lambda>matched.
             Inr (case matched of None \<Rightarrow> positions | Some following \<Rightarrow> push_new positions following)))"

definition prefix_position ::
  "unicode_data \<Rightarrow> character_class \<Rightarrow> match_mode \<Rightarrow> usize list \<Rightarrow> u32 list \<times> usize \<Rightarrow> usize list" where
  "prefix_position ud class mode positions prefix =
     (if 1 < length (fst prefix) \<and> class_contains_sequence ud class (fst prefix) mode
      then push_new positions (snd prefix) else positions)"

definition class_match_positions ::
  "unicode_data \<Rightarrow> character_class \<Rightarrow> u16 list \<Rightarrow> usize \<Rightarrow> match_mode \<Rightarrow> direction \<Rightarrow> (exec_error, usize list) result" where
  "class_match_positions ud class input position mode dir =
     and_then (try_fold (string_position ud class input position mode dir) (cc_strings class) []) (\<lambda>from_strings.
     and_then (if cc_has_string_properties class
               then and_then (directional_prefixes input position (mm_unicode mode) dir 16) (\<lambda>dynamic.
                      Inr (foldl (prefix_position ud class mode) from_strings (rev dynamic)))
               else Inr from_strings) (\<lambda>positions.
     and_then (decode_in_direction input position (mm_unicode mode) dir) (\<lambda>decoded.
       Inr (case decoded of
              None \<Rightarrow> positions
            | Some (value, following) \<Rightarrow>
                if class_matches ud class value mode then push_new positions following else positions))))"

end
