(* ===== verification/Regexp_Executor.thy ===== *)
theory Regexp_Executor
  imports Regexp_Program
begin

text \<open>
  The backtracking executor of regular expression programs: \<^verbatim>\<open>executor.rs\<close>. One definition per
  function, the dispatcher over the instructions as one iteration of its loop, and the loop over
  candidate positions. The backtracking vector is a list whose head is its last element.
\<close>

section \<open>State\<close>

record capture_slot =
  cs_start :: "usize option"
  cs_end :: "usize option"

definition capture_default :: capture_slot where
  "capture_default = \<lparr>cs_start = None, cs_end = None\<rparr>"

definition capture_range :: "capture_slot \<Rightarrow> (usize \<times> usize) option" where
  "capture_range c = (case (cs_start c, cs_end c) of (Some a, Some b) \<Rightarrow> Some (a, b) | _ \<Rightarrow> None)"

record repeat_state =
  rp_active :: bool
  rp_count :: u64
  rp_iteration_start :: "usize option"
  rp_optional_attempted :: bool

definition repeat_default :: repeat_state where
  "repeat_default = \<lparr>rp_active = False, rp_count = 0, rp_iteration_start = None, rp_optional_attempted = False\<rparr>"

record terminal_commitment =
  tm_slot :: usize
  tm_body :: usize
  tm_exit :: usize

record exec_state =
  ms_pc :: usize
  ms_position :: usize
  ms_captures :: "capture_slot list"
  ms_repeats :: "repeat_state list"
  ms_terminal :: "terminal_commitment option"
  ms_direction :: direction

datatype backtrack_entry =
  Alternative exec_state
| Lookaround_Frame exec_state lookaround_kind

record exec_limits =
  el_max_steps :: u64
  el_max_backtrack_states :: usize

record regexp_match =
  rm_captures :: "(usize \<times> usize) option list"

datatype exec_outcome =
  Continue exec_state "backtrack_entry list"
| Finished "regexp_match option"

section \<open>Backtracking\<close>

definition consume_step :: "u64 \<Rightarrow> u64 \<Rightarrow> (exec_error, u64) result" where
  "consume_step steps limit = (if limit \<le> steps then Inl StepLimit else Inr (steps + 1))"

definition push_alternative ::
  "usize \<Rightarrow> backtrack_entry list \<Rightarrow> exec_state \<Rightarrow> (exec_error, backtrack_entry list) result" where
  "push_alternative limit backtrack s =
     (if limit \<le> length backtrack then Inl BacktrackLimit else Inr (Alternative s # backtrack))"

definition push_lookaround ::
  "usize \<Rightarrow> backtrack_entry list \<Rightarrow> exec_state \<Rightarrow> lookaround_kind \<Rightarrow> (exec_error, backtrack_entry list) result" where
  "push_lookaround limit backtrack outer kind =
     (if limit \<le> length backtrack then Inl BacktrackLimit else Inr (Lookaround_Frame outer kind # backtrack))"

fun restore :: "backtrack_entry list \<Rightarrow> (exec_state \<times> backtrack_entry list) option" where
  "restore [] = None"
| "restore (Alternative s # rest) = Some (s, rest)"
| "restore (Lookaround_Frame outer kind # rest) = (if is_negative kind then Some (outer, rest) else restore rest)"

fun pop_lookaround :: "backtrack_entry list \<Rightarrow> (exec_state \<times> backtrack_entry list) option" where
  "pop_lookaround [] = None"
| "pop_lookaround (Alternative _ # rest) = pop_lookaround rest"
| "pop_lookaround (Lookaround_Frame outer _ # rest) = Some (outer, rest)"

text \<open>The state a failed token of a committed repeat continues with.\<close>

definition recover_terminal_repeat :: "exec_state \<Rightarrow> exec_state option" where
  "recover_terminal_repeat s =
     (case ms_terminal s of
        None \<Rightarrow> None
      | Some terminal \<Rightarrow>
          if ms_pc s = tm_body terminal
          then map_option (\<lambda>r. s\<lparr>ms_repeats := (ms_repeats s)[tm_slot terminal := r\<lparr>rp_active := False\<rparr>],
                 ms_terminal := None, ms_pc := tm_exit terminal\<rparr>) (get (ms_repeats s) (tm_slot terminal))
          else None)"

definition recover_or_restore_terminal_repeat ::
  "exec_state \<Rightarrow> backtrack_entry list \<Rightarrow> (exec_state \<times> backtrack_entry list) option" where
  "recover_or_restore_terminal_repeat s backtrack =
     (case recover_terminal_repeat s of Some s' \<Rightarrow> Some (s', backtrack) | None \<Rightarrow> restore backtrack)"

definition clear_terminal_repeat :: "usize \<Rightarrow> exec_state \<Rightarrow> exec_state" where
  "clear_terminal_repeat slot s =
     (case ms_terminal s of
        Some terminal \<Rightarrow> if tm_slot terminal = slot then s\<lparr>ms_terminal := None\<rparr> else s
      | None \<Rightarrow> s)"

definition is_token :: "instruction option \<Rightarrow> bool" where
  "is_token ins = (case ins of
     Some (I_Character _ _) \<Rightarrow> True | Some (I_Dot _) \<Rightarrow> True | Some (I_CharacterClass _ _) \<Rightarrow> True | _ \<Rightarrow> False)"

definition terminal_repeat ::
  "program \<Rightarrow> usize \<Rightarrow> usize \<Rightarrow> usize \<Rightarrow> usize \<Rightarrow> usize \<Rightarrow> terminal_commitment option" where
  "terminal_repeat p slot body exit capture_start capture_end =
     (if capture_start \<noteq> capture_end \<or> \<not> is_token (get (pg_instructions p) body) \<or>
         \<not> (case get (pg_instructions p) (body + 1) of Some (I_RepeatEnd _ _) \<Rightarrow> True | _ \<Rightarrow> False) then None
      else case get (pg_instructions p) exit of
             Some (I_Boundary Boundary_End mode) \<Rightarrow>
               if mm_multiline mode \<or> get (pg_instructions p) (exit + 1) \<noteq> Some (I_SaveEnd 0) \<or>
                  get (pg_instructions p) (exit + 2) \<noteq> Some I_Match then None
               else Some \<lparr>tm_slot = slot, tm_body = body, tm_exit = exit\<rparr>
           | _ \<Rightarrow> None)"

definition start_iteration ::
  "usize \<Rightarrow> usize \<Rightarrow> usize \<Rightarrow> usize \<Rightarrow> exec_state \<Rightarrow> (exec_error, exec_state) result" where
  "start_iteration slot body capture_start capture_end s =
     (if capture_start < capture_end \<and> length (ms_captures s) < capture_end then Inl Exec_Panic
      else let captures = (if capture_start < capture_end
                 then take capture_start (ms_captures s) @ replicate (capture_end - capture_start) capture_default @
                      drop capture_end (ms_captures s)
                 else ms_captures s)
           in case get (ms_repeats s) slot of
                None \<Rightarrow> Inl Exec_Panic
              | Some r \<Rightarrow>
                  Inr (s\<lparr>ms_captures := captures,
                         ms_repeats := (ms_repeats s)[slot := r\<lparr>rp_iteration_start := Some (ms_position s)\<rparr>],
                         ms_pc := body\<rparr>))"

section \<open>Instructions\<close>

definition resume :: "(exec_state \<times> backtrack_entry list) option \<Rightarrow> exec_outcome" where
  "resume restored = (case restored of None \<Rightarrow> Finished None | Some (s, backtrack) \<Rightarrow> Continue s backtrack)"

definition exec_token ::
  "(exec_error, usize list) result \<Rightarrow> usize \<Rightarrow> exec_state \<Rightarrow> backtrack_entry list \<Rightarrow> (exec_error, exec_outcome) result" where
  "exec_token found limit s backtrack =
     and_then found (\<lambda>positions.
       case positions of
         [] \<Rightarrow> Inr (resume (recover_or_restore_terminal_repeat s backtrack))
       | following # alternatives \<Rightarrow>
           and_then (try_fold (\<lambda>b alternative.
               push_alternative limit b (s\<lparr>ms_pc := ms_pc s + 1, ms_position := alternative\<rparr>)) (rev alternatives) backtrack) (\<lambda>b.
             Inr (Continue (s\<lparr>ms_position := following, ms_pc := ms_pc s + 1\<rparr>) b)))"

text \<open>The position after one code point that satisfies a test, as the list of positions of a token.\<close>

definition token_position ::
  "(u32 \<Rightarrow> bool) \<Rightarrow> u16 list \<Rightarrow> usize \<Rightarrow> bool \<Rightarrow> direction \<Rightarrow> (exec_error, usize list) result" where
  "token_position P input position unicode dir =
     and_then (decode_in_direction input position unicode dir) (\<lambda>decoded.
       Inr (case decoded of Some (actual, following) \<Rightarrow> if P actual then [following] else [] | None \<Rightarrow> []))"

definition exec_save_start :: "usize \<Rightarrow> exec_state \<Rightarrow> (exec_error, exec_state) result" where
  "exec_save_start index s =
     (case get (ms_captures s) index of
        None \<Rightarrow> Inl Exec_Panic
      | Some c \<Rightarrow>
          Inr (s\<lparr>ms_captures := (ms_captures s)[index :=
                   \<lparr>cs_start = Some (ms_position s), cs_end = (if ms_direction s = Forward then None else cs_end c)\<rparr>],
                 ms_pc := ms_pc s + 1\<rparr>))"

definition exec_save_end :: "usize \<Rightarrow> exec_state \<Rightarrow> (exec_error, exec_state) result" where
  "exec_save_end index s =
     (case get (ms_captures s) index of
        None \<Rightarrow> Inl Exec_Panic
      | Some c \<Rightarrow>
          Inr (s\<lparr>ms_captures := (ms_captures s)[index :=
                   \<lparr>cs_start = (if ms_direction s = Backward then None
                               else case cs_start c of None \<Rightarrow> Some (ms_position s) | Some a \<Rightarrow> Some a),
                    cs_end = Some (ms_position s)\<rparr>],
                 ms_pc := ms_pc s + 1\<rparr>))"

primrec find_capture :: "capture_slot list \<Rightarrow> usize list \<Rightarrow> (usize \<times> usize) option" where
  "find_capture captures [] = None"
| "find_capture captures (index # indices) =
     (case Option.bind (get captures index) capture_range of
        Some span \<Rightarrow> Some span
      | None \<Rightarrow> find_capture captures indices)"

definition exit_repeat :: "usize \<Rightarrow> usize \<Rightarrow> exec_state \<Rightarrow> exec_state" where
  "exit_repeat slot exit s =
     s\<lparr>ms_repeats := (ms_repeats s)[slot := (ms_repeats s ! slot)\<lparr>rp_active := False\<rparr>], ms_pc := exit\<rparr>"

definition exec_repeat ::
  "program \<Rightarrow> usize \<Rightarrow> usize \<Rightarrow> u64 \<Rightarrow> u64 option \<Rightarrow> bool \<Rightarrow> usize \<Rightarrow> usize \<Rightarrow> usize \<Rightarrow> usize \<Rightarrow>
     exec_state \<Rightarrow> backtrack_entry list \<Rightarrow> (exec_error, exec_outcome) result" where
  "exec_repeat p limit slot minimum maximum greedy body exit capture_start capture_end s0 backtrack =
     (case get (ms_repeats s0) slot of
        None \<Rightarrow> Inl Exec_Panic
      | Some found \<Rightarrow>
          let s = (if rp_active found then s0
                   else s0\<lparr>ms_repeats := (ms_repeats s0)[slot :=
                     \<lparr>rp_active = True, rp_count = 0, rp_iteration_start = None, rp_optional_attempted = False\<rparr>]\<rparr>);
              repeated = ms_repeats s ! slot;
              made_no_progress = (0 < rp_count repeated \<and> rp_iteration_start repeated = Some (ms_position s));
              reached_max = (case maximum of None \<Rightarrow> False | Some m \<Rightarrow> m \<le> rp_count repeated)
          in if minimum \<le> rp_count repeated \<and> made_no_progress then
               if rp_optional_attempted repeated then Inr (resume (restore backtrack))
               else Inr (Continue (clear_terminal_repeat slot (exit_repeat slot exit s)) backtrack)
             else if reached_max then Inr (Continue (clear_terminal_repeat slot (exit_repeat slot exit s)) backtrack)
             else if rp_count repeated < minimum then
               and_then (start_iteration slot body capture_start capture_end s) (\<lambda>s'. Inr (Continue s' backtrack))
             else
               and_then (start_iteration slot body capture_start capture_end
                   (s\<lparr>ms_repeats := (ms_repeats s)[slot := repeated\<lparr>rp_optional_attempted := True\<rparr>]\<rparr>)) (\<lambda>body_state.
                 let exit_state = exit_repeat slot exit s
                 in if greedy then
                      (case terminal_repeat p slot body exit capture_start capture_end of
                         Some terminal \<Rightarrow> Inr (Continue (body_state\<lparr>ms_terminal := Some terminal\<rparr>) backtrack)
                       | None \<Rightarrow>
                           and_then (push_alternative limit backtrack exit_state) (\<lambda>b. Inr (Continue body_state b)))
                    else and_then (push_alternative limit backtrack body_state) (\<lambda>b. Inr (Continue exit_state b))))"

definition exec_instruction ::
  "unicode_data \<Rightarrow> program \<Rightarrow> u16 list \<Rightarrow> usize \<Rightarrow> instruction \<Rightarrow> exec_state \<Rightarrow> backtrack_entry list \<Rightarrow>
     (exec_error, exec_outcome) result" where
  "exec_instruction ud p input limit ins s backtrack =
     (case ins of
        I_Character value mode \<Rightarrow>
          exec_token (token_position (\<lambda>actual. canonicalize ud actual mode = canonicalize ud value mode)
            input (ms_position s) (mm_unicode mode) (ms_direction s)) limit s backtrack
      | I_Dot mode \<Rightarrow>
          exec_token (token_position (\<lambda>actual. mm_dot_all mode \<or> \<not> is_line_terminator actual)
            input (ms_position s) (mm_unicode mode) (ms_direction s)) limit s backtrack
      | I_CharacterClass class mode \<Rightarrow>
          exec_token (class_match_positions ud class input (ms_position s) mode (ms_direction s)) limit s backtrack
      | I_Boundary kind mode \<Rightarrow>
          and_then (boundary_matches ud kind input (ms_position s) mode) (\<lambda>holds.
            Inr (if holds then Continue (s\<lparr>ms_pc := ms_pc s + 1\<rparr>) backtrack else resume (restore backtrack)))
      | I_SaveStart index \<Rightarrow> and_then (exec_save_start index s) (\<lambda>s'. Inr (Continue s' backtrack))
      | I_SaveEnd index \<Rightarrow> and_then (exec_save_end index s) (\<lambda>s'. Inr (Continue s' backtrack))
      | I_BackReference captures mode \<Rightarrow>
          (case find_capture (ms_captures s) captures of
             None \<Rightarrow> Inr (Continue (s\<lparr>ms_pc := ms_pc s + 1\<rparr>) backtrack)
           | Some span \<Rightarrow>
               and_then (match_back_reference ud input (ms_position s) span mode (ms_direction s)) (\<lambda>matched.
                 Inr (case matched of
                        None \<Rightarrow> resume (restore backtrack)
                      | Some following \<Rightarrow> Continue (s\<lparr>ms_position := following, ms_pc := ms_pc s + 1\<rparr>) backtrack)))
      | I_Split first second \<Rightarrow>
          and_then (push_alternative limit backtrack (s\<lparr>ms_pc := second\<rparr>)) (\<lambda>b. Inr (Continue (s\<lparr>ms_pc := first\<rparr>) b))
      | I_Lookaround kind body exit \<Rightarrow>
          and_then (push_lookaround limit backtrack (s\<lparr>ms_pc := exit\<rparr>) kind) (\<lambda>b.
            Inr (Continue (s\<lparr>ms_pc := body, ms_direction := lookaround_direction kind\<rparr>) b))
      | I_LookaroundAccept kind \<Rightarrow>
          (case pop_lookaround backtrack of
             None \<Rightarrow> Inr (Finished None)
           | Some (outer, rest) \<Rightarrow>
               Inr (if is_negative kind then resume (restore rest)
                    else Continue (outer\<lparr>ms_captures := ms_captures s\<rparr>) rest))
      | I_Jump target \<Rightarrow> Inr (Continue (s\<lparr>ms_pc := target\<rparr>) backtrack)
      | I_Repeat slot minimum maximum greedy body exit capture_start capture_end \<Rightarrow>
          exec_repeat p limit slot minimum maximum greedy body exit capture_start capture_end s backtrack
      | I_RepeatEnd slot head \<Rightarrow>
          (case get (ms_repeats s) slot of
             None \<Rightarrow> Inl Exec_Panic
           | Some r \<Rightarrow>
               Inr (Continue (s\<lparr>ms_repeats := (ms_repeats s)[slot := r\<lparr>rp_count := saturating_add (rp_count r) 1\<rparr>],
                 ms_pc := head\<rparr>) backtrack))
      | I_Match \<Rightarrow> Inr (Finished (Some \<lparr>rm_captures = map capture_range (ms_captures s)\<rparr>)))"

section \<open>Loops\<close>

lemma step_measure: "\<not> limit \<le> steps \<Longrightarrow> unat (steps + 1) = unat steps + 1 \<and> unat steps < unat limit" for limit :: u64
proof -
  assume "\<not> limit \<le> steps"
  then have less: "unat steps < unat limit" by (simp add: word_less_nat_alt not_le)
  then have "unat steps + 1 < 2 ^ 64" using unsigned_less [of limit, where ?'a = nat] by simp
  then show ?thesis using less by (simp add: unat_word_ariths)
qed

function run_loop ::
  "unicode_data \<Rightarrow> program \<Rightarrow> u16 list \<Rightarrow> exec_limits \<Rightarrow> u64 \<Rightarrow> exec_state \<Rightarrow> backtrack_entry list \<Rightarrow>
     (exec_error, regexp_match option) result \<times> u64" where
  "run_loop ud p input limits steps s backtrack =
     (if el_max_steps limits \<le> steps then (Inl StepLimit, steps)
      else case get (pg_instructions p) (ms_pc s) of
             None \<Rightarrow> (Inr None, steps + 1)
           | Some ins \<Rightarrow>
               (case exec_instruction ud p input (el_max_backtrack_states limits) ins s backtrack of
                  Inl e \<Rightarrow> (Inl e, steps + 1)
                | Inr (Finished m) \<Rightarrow> (Inr m, steps + 1)
                | Inr (Continue s' backtrack') \<Rightarrow> run_loop ud p input limits (steps + 1) s' backtrack'))"
  by pat_completeness auto
termination
  by (relation "measure (\<lambda>(_, _, _, limits, steps, _, _). unat (el_max_steps limits) - unat steps)")
    (auto dest!: step_measure)

declare run_loop.simps [simp del]

definition initial_state :: "program \<Rightarrow> usize \<Rightarrow> exec_state" where
  "initial_state p candidate =
     \<lparr>ms_pc = 0, ms_position = candidate, ms_captures = replicate (pg_capture_count p) capture_default,
      ms_repeats = replicate (pg_repeat_count p) repeat_default, ms_terminal = None, ms_direction = Forward\<rparr>"

definition run_candidate ::
  "unicode_data \<Rightarrow> program \<Rightarrow> u16 list \<Rightarrow> usize \<Rightarrow> exec_limits \<Rightarrow> u64 \<Rightarrow> (exec_error, regexp_match option) result \<times> u64" where
  "run_candidate ud p input candidate limits steps =
     run_loop ud p input limits steps (initial_state p candidate) []"

lemma advance_index_next:
  "position < length input \<Longrightarrow> position < advance_index input position unicode \<and> advance_index input position unicode \<le> length input"
  by (auto simp: advance_index_def decode_at_def split: option.splits if_splits)

lemma advance_index_le: "advance_index input position unicode \<le> length input"
  by (auto simp: advance_index_def dest: decode_at_next split: option.splits)

function execute_loop ::
  "unicode_data \<Rightarrow> program \<Rightarrow> u16 list \<Rightarrow> exec_limits \<Rightarrow> u64 \<Rightarrow> usize \<Rightarrow> (exec_error, regexp_match option) result \<times> u64" where
  "execute_loop ud p input limits steps candidate =
     (case consume_step steps (el_max_steps limits) of
        Inl e \<Rightarrow> (Inl e, steps)
      | Inr steps' \<Rightarrow>
          (case run_candidate ud p input candidate limits steps' of
             (Inl e, n) \<Rightarrow> (Inl e, n)
           | (Inr (Some m), n) \<Rightarrow> (Inr (Some m), n)
           | (Inr None, n) \<Rightarrow>
               if rf_sticky (pg_flags p) \<or> candidate = length input then (Inr None, n)
               else execute_loop ud p input limits n (advance_index input candidate (unicode_mode (pg_flags p)))))"
  by pat_completeness auto
termination
proof (relation "measure (\<lambda>(_, _, input, _, _, candidate).
    if candidate \<le> length input then length input - candidate else length input + 1)", goal_cases)
  case (2 ud p input limits steps candidate steps' r n r')
  then have "candidate \<noteq> length input" by simp
  then show ?case
    using advance_index_le [of input candidate "unicode_mode (pg_flags p)"]
      advance_index_next [of candidate input "unicode_mode (pg_flags p)"] by (cases "candidate < length input") auto
qed simp

declare execute_loop.simps [simp del]

definition regexp_execute ::
  "unicode_data \<Rightarrow> program \<Rightarrow> u16 list \<Rightarrow> usize \<Rightarrow> exec_limits \<Rightarrow> u64 \<Rightarrow> (exec_error, regexp_match option) result \<times> u64" where
  "regexp_execute ud p input start_index limits steps =
     (if length input < start_index then (Inr None, steps) else execute_loop ud p input limits steps start_index)"

definition execute_counted ::
  "unicode_data \<Rightarrow> program \<Rightarrow> u16 list \<Rightarrow> usize \<Rightarrow> exec_limits \<Rightarrow> (exec_error, regexp_match option) result \<times> u64" where
  "execute_counted ud p input start_index limits = regexp_execute ud p input start_index limits 0"

end
