(* ===== verification/Regexp_Search.thy ===== *)
theory Regexp_Search
  imports Regexp_Executor
begin

text \<open>
  What a search means: matching without a backtracking stack. An instruction offers an ordered list
  of alternatives; the first that does not fail decides, and an assertion is a search of its own
  whose position is given up. The executor's loop is shown to compute this search exactly.
\<close>

section \<open>Search\<close>

datatype search_node =
  Dead
| Stop "regexp_match option"
| Accepting lookaround_kind
| Choices exec_state "exec_state list"
| Assertion lookaround_kind exec_state exec_state

text \<open>
  The flag selects whether repeats that end the pattern commit as the executor does, or keep the
  alternative of leaving the repeat before every iteration.
\<close>

definition token_node :: "(exec_error, usize list) result \<Rightarrow> exec_state \<Rightarrow> (exec_error, search_node) result" where
  "token_node found s =
     and_then found (\<lambda>positions.
       Inr (case positions of
              [] \<Rightarrow> (case recover_terminal_repeat s of None \<Rightarrow> Dead | Some s' \<Rightarrow> Choices s' [])
            | position # alternatives \<Rightarrow>
                let after = (\<lambda>n. s\<lparr>ms_position := n, ms_pc := ms_pc s + 1\<rparr>)
                in Choices (after position) (map after alternatives)))"

definition enter_repeat :: "usize \<Rightarrow> exec_state \<Rightarrow> exec_state" where
  "enter_repeat slot s =
     (if rp_active (ms_repeats s ! slot) then s
      else s\<lparr>ms_repeats := (ms_repeats s)[slot :=
        \<lparr>rp_active = True, rp_count = 0, rp_iteration_start = None, rp_optional_attempted = False\<rparr>]\<rparr>)"

definition repeat_node ::
  "bool \<Rightarrow> program \<Rightarrow> usize \<Rightarrow> u64 \<Rightarrow> u64 option \<Rightarrow> bool \<Rightarrow> usize \<Rightarrow> usize \<Rightarrow> usize \<Rightarrow> usize \<Rightarrow> exec_state \<Rightarrow>
     (exec_error, search_node) result" where
  "repeat_node commit p slot minimum maximum greedy body exit capture_start capture_end s0 =
     (if length (ms_repeats s0) \<le> slot then Inl Exec_Panic
      else
        let s = enter_repeat slot s0;
            repeated = ms_repeats s ! slot;
            leave = Choices (clear_terminal_repeat slot (exit_repeat slot exit s)) [];
            iterate = start_iteration slot body capture_start capture_end
        in if minimum \<le> rp_count repeated \<and> 0 < rp_count repeated \<and> rp_iteration_start repeated = Some (ms_position s)
           then Inr (if rp_optional_attempted repeated then Dead else leave)
           else if (case maximum of None \<Rightarrow> False | Some m \<Rightarrow> m \<le> rp_count repeated) then Inr leave
           else if rp_count repeated < minimum then and_then (iterate s) (\<lambda>s'. Inr (Choices s' []))
           else
             and_then (iterate (s\<lparr>ms_repeats := (ms_repeats s)[slot := repeated\<lparr>rp_optional_attempted := True\<rparr>]\<rparr>)) (\<lambda>again.
               let out = exit_repeat slot exit s
               in Inr (if \<not> greedy then Choices out [again]
                       else case (if commit then terminal_repeat p slot body exit capture_start capture_end else None) of
                              Some terminal \<Rightarrow> Choices (again\<lparr>ms_terminal := Some terminal\<rparr>) []
                            | None \<Rightarrow> Choices again [out])))"

definition instruction_node ::
  "bool \<Rightarrow> unicode_data \<Rightarrow> program \<Rightarrow> u16 list \<Rightarrow> instruction \<Rightarrow> exec_state \<Rightarrow> (exec_error, search_node) result" where
  "instruction_node commit ud p input ins s =
     (case ins of
        I_Character value mode \<Rightarrow>
          token_node (token_position (\<lambda>actual. canonicalize ud actual mode = canonicalize ud value mode)
            input (ms_position s) (mm_unicode mode) (ms_direction s)) s
      | I_Dot mode \<Rightarrow>
          token_node (token_position (\<lambda>actual. mm_dot_all mode \<or> \<not> is_line_terminator actual)
            input (ms_position s) (mm_unicode mode) (ms_direction s)) s
      | I_CharacterClass class mode \<Rightarrow>
          token_node (class_match_positions ud class input (ms_position s) mode (ms_direction s)) s
      | I_Boundary kind mode \<Rightarrow>
          and_then (boundary_matches ud kind input (ms_position s) mode) (\<lambda>holds.
            Inr (if holds then Choices (s\<lparr>ms_pc := ms_pc s + 1\<rparr>) [] else Dead))
      | I_SaveStart index \<Rightarrow> and_then (exec_save_start index s) (\<lambda>s'. Inr (Choices s' []))
      | I_SaveEnd index \<Rightarrow> and_then (exec_save_end index s) (\<lambda>s'. Inr (Choices s' []))
      | I_BackReference captures mode \<Rightarrow>
          (case find_capture (ms_captures s) captures of
             None \<Rightarrow> Inr (Choices (s\<lparr>ms_pc := ms_pc s + 1\<rparr>) [])
           | Some span \<Rightarrow>
               and_then (match_back_reference ud input (ms_position s) span mode (ms_direction s)) (\<lambda>matched.
                 Inr (case matched of
                        None \<Rightarrow> Dead
                      | Some following \<Rightarrow> Choices (s\<lparr>ms_position := following, ms_pc := ms_pc s + 1\<rparr>) [])))
      | I_Split first second \<Rightarrow> Inr (Choices (s\<lparr>ms_pc := first\<rparr>) [s\<lparr>ms_pc := second\<rparr>])
      | I_Lookaround kind body exit \<Rightarrow>
          Inr (Assertion kind (s\<lparr>ms_pc := body, ms_direction := lookaround_direction kind\<rparr>) (s\<lparr>ms_pc := exit\<rparr>))
      | I_LookaroundAccept kind \<Rightarrow> Inr (Accepting kind)
      | I_Jump target \<Rightarrow> Inr (Choices (s\<lparr>ms_pc := target\<rparr>) [])
      | I_Repeat slot minimum maximum greedy body exit capture_start capture_end \<Rightarrow>
          repeat_node commit p slot minimum maximum greedy body exit capture_start capture_end s
      | I_RepeatEnd slot head \<Rightarrow>
          (case get (ms_repeats s) slot of
             None \<Rightarrow> Inl Exec_Panic
           | Some r \<Rightarrow>
               Inr (Choices (s\<lparr>ms_repeats := (ms_repeats s)[slot := r\<lparr>rp_count := saturating_add (rp_count r) 1\<rparr>],
                 ms_pc := head\<rparr>) []))
      | I_Match \<Rightarrow> Inr (Stop (Some \<lparr>rm_captures = map capture_range (ms_captures s)\<rparr>)))"

definition node_at ::
  "bool \<Rightarrow> unicode_data \<Rightarrow> program \<Rightarrow> u16 list \<Rightarrow> exec_state \<Rightarrow> (exec_error, search_node) result" where
  "node_at commit ud p input s =
     (case get (pg_instructions p) (ms_pc s) of
        None \<Rightarrow> Inr (Stop None)
      | Some ins \<Rightarrow> instruction_node commit ud p input ins s)"

datatype search_result =
  Fails
| Ends "regexp_match option"
| Accepts lookaround_kind exec_state

inductive search :: "bool \<Rightarrow> unicode_data \<Rightarrow> program \<Rightarrow> u16 list \<Rightarrow> exec_state \<Rightarrow> search_result \<Rightarrow> bool"
  and tries :: "bool \<Rightarrow> unicode_data \<Rightarrow> program \<Rightarrow> u16 list \<Rightarrow> exec_state list \<Rightarrow> search_result \<Rightarrow> bool"
  for commit :: bool and ud :: unicode_data and p :: program and input :: "u16 list" where
  search_dead: "node_at commit ud p input s = Inr Dead \<Longrightarrow> search commit ud p input s Fails"
| search_stop: "node_at commit ud p input s = Inr (Stop m) \<Longrightarrow> search commit ud p input s (Ends m)"
| search_accept: "node_at commit ud p input s = Inr (Accepting k) \<Longrightarrow> search commit ud p input s (Accepts k s)"
| search_choices: "node_at commit ud p input s = Inr (Choices t ts) \<Longrightarrow> tries commit ud p input (t # ts) r \<Longrightarrow>
    search commit ud p input s r"
| search_refuted: "node_at commit ud p input s = Inr (Assertion k inner outer) \<Longrightarrow> search commit ud p input inner Fails \<Longrightarrow>
    \<not> is_negative k \<Longrightarrow> search commit ud p input s Fails"
| search_negated: "node_at commit ud p input s = Inr (Assertion k inner outer) \<Longrightarrow> search commit ud p input inner Fails \<Longrightarrow>
    is_negative k \<Longrightarrow> search commit ud p input outer r \<Longrightarrow> search commit ud p input s r"
| search_inner_end: "node_at commit ud p input s = Inr (Assertion k inner outer) \<Longrightarrow> search commit ud p input inner (Ends m) \<Longrightarrow>
    search commit ud p input s (Ends m)"
| search_excluded: "node_at commit ud p input s = Inr (Assertion k inner outer) \<Longrightarrow>
    search commit ud p input inner (Accepts k' t) \<Longrightarrow> is_negative k' \<Longrightarrow> search commit ud p input s Fails"
| search_asserted: "node_at commit ud p input s = Inr (Assertion k inner outer) \<Longrightarrow>
    search commit ud p input inner (Accepts k' t) \<Longrightarrow> \<not> is_negative k' \<Longrightarrow>
    search commit ud p input (outer\<lparr>ms_captures := ms_captures t\<rparr>) r \<Longrightarrow> search commit ud p input s r"
| tries_none: "tries commit ud p input [] Fails"
| tries_next: "search commit ud p input s Fails \<Longrightarrow> tries commit ud p input ss r \<Longrightarrow> tries commit ud p input (s # ss) r"
| tries_found: "search commit ud p input s r \<Longrightarrow> r \<noteq> Fails \<Longrightarrow> tries commit ud p input (s # ss) r"

inductive_cases search_cases: "search commit ud p input s r"
inductive_simps tries_Nil [simp]: "tries commit ud p input [] r"
inductive_simps tries_Cons: "tries commit ud p input (s # ss) r"

lemma search_at_dead: "node_at commit ud p input s = Inr Dead \<Longrightarrow> search commit ud p input s r \<longleftrightarrow> r = Fails"
  by (rule iffI, erule search_cases) (simp_all add: search_dead)

lemma search_at_stop: "node_at commit ud p input s = Inr (Stop m) \<Longrightarrow> search commit ud p input s r \<longleftrightarrow> r = Ends m"
  by (rule iffI, erule search_cases) (simp_all add: search_stop)

lemma search_at_accept: "node_at commit ud p input s = Inr (Accepting k) \<Longrightarrow> search commit ud p input s r \<longleftrightarrow> r = Accepts k s"
  by (rule iffI, erule search_cases) (simp_all add: search_accept)

lemma search_at_choices:
  "node_at commit ud p input s = Inr (Choices t ts) \<Longrightarrow> search commit ud p input s r \<longleftrightarrow> tries commit ud p input (t # ts) r"
  by (rule iffI, erule search_cases) (simp_all add: search_choices)

lemma search_at_assertion:
  assumes n: "node_at commit ud p input s = Inr (Assertion k inner outer)"
  shows "search commit ud p input s r \<longleftrightarrow>
       search commit ud p input inner Fails \<and> (if is_negative k then search commit ud p input outer r else r = Fails) \<or>
       (\<exists>m. search commit ud p input inner (Ends m) \<and> r = Ends m) \<or>
       (\<exists>k' t. search commit ud p input inner (Accepts k' t) \<and>
          (if is_negative k' then r = Fails else search commit ud p input (outer\<lparr>ms_captures := ms_captures t\<rparr>) r))"
    (is "?l \<longleftrightarrow> ?a \<or> ?b \<or> ?c")
proof
  assume ?l
  then show "?a \<or> ?b \<or> ?c"
  proof cases
    case (search_asserted k2 inner2 outer2 k' t)
    then have "search commit ud p input inner (Accepts k' t)" "\<not> is_negative k'"
      "search commit ud p input (outer\<lparr>ms_captures := ms_captures t\<rparr>) r" using n by simp_all
    then have ?c by (intro exI [of _ k'] exI [of _ t]) simp
    then show ?thesis by simp
  next
    case (search_excluded k2 inner2 outer2 k' t)
    then have "search commit ud p input inner (Accepts k' t)" "is_negative k'" "r = Fails" using n by simp_all
    then have ?c by (intro exI [of _ k'] exI [of _ t]) simp
    then show ?thesis by simp
  qed (use n in simp_all)
next
  assume "?a \<or> ?b \<or> ?c"
  then consider (a) ?a | (b) m where "search commit ud p input inner (Ends m)" "r = Ends m"
    | (c) k' t where "search commit ud p input inner (Accepts k' t)"
      "if is_negative k' then r = Fails else search commit ud p input (outer\<lparr>ms_captures := ms_captures t\<rparr>) r" by blast
  then show ?l
  proof cases
    case a
    then show ?thesis using search_refuted [OF n] search_negated [OF n] by (cases "is_negative k") simp_all
  next
    case b
    then show ?thesis using search_inner_end [OF n] by simp
  next
    case c
    then show ?thesis using search_excluded [OF n c(1)] search_asserted [OF n c(1)] by (cases "is_negative k'") simp_all
  qed
qed

lemmas search_at = search_at_dead search_at_stop search_at_accept search_at_choices search_at_assertion

text \<open>A search has at most one result.\<close>

lemma assertion_result:
  assumes n: "node_at commit ud p input s = Inr (Assertion k inner outer)"
    and inner: "search commit ud p input inner r0" and unique: "\<forall>q. search commit ud p input inner q \<longrightarrow> q = r0"
  shows "search commit ud p input s r \<longleftrightarrow>
    (case r0 of
       Fails \<Rightarrow> if is_negative k then search commit ud p input outer r else r = Fails
     | Ends m \<Rightarrow> r = Ends m
     | Accepts k' t \<Rightarrow> if is_negative k' then r = Fails else search commit ud p input (outer\<lparr>ms_captures := ms_captures t\<rparr>) r)"
proof -
  have "search commit ud p input inner q \<longleftrightarrow> q = r0" for q using inner unique by blast
  then show ?thesis unfolding search_at_assertion [OF n] by (cases r0) simp_all
qed

lemma search_tries_unique:
  "search commit ud p input s r \<Longrightarrow> \<forall>r'. search commit ud p input s r' \<longrightarrow> r' = r"
  "tries commit ud p input ss q \<Longrightarrow> \<forall>q'. tries commit ud p input ss q' \<longrightarrow> q' = q"
proof (induction rule: search_tries.inducts)
  case (search_choices s t ts r)
  then show ?case unfolding search_at_choices [OF search_choices(1)] by blast
next
  case (search_refuted s k inner outer)
  show ?case using \<open>\<not> is_negative k\<close> unfolding assertion_result [OF search_refuted(1,2,3)] by simp
next
  case (search_negated s k inner outer r)
  have "search commit ud p input s r' \<longleftrightarrow> search commit ud p input outer r'" for r'
    using \<open>is_negative k\<close> by (simp add: assertion_result [OF search_negated(1,2,3)])
  then show ?case using search_negated by blast
next
  case (search_inner_end s k inner outer m)
  show ?case unfolding assertion_result [OF search_inner_end(1,2,3)] by simp
next
  case (search_excluded s k inner outer k' t)
  show ?case using \<open>is_negative k'\<close> unfolding assertion_result [OF search_excluded(1,2,3)] by simp
next
  case (search_asserted s k inner outer k' t r)
  have "search commit ud p input s r' \<longleftrightarrow> search commit ud p input (outer\<lparr>ms_captures := ms_captures t\<rparr>) r'" for r'
    using \<open>\<not> is_negative k'\<close> by (simp add: assertion_result [OF search_asserted(1,2,3)])
  then show ?case using search_asserted by blast
next
  case (tries_next s ss r)
  then show ?case unfolding tries_Cons by blast
next
  case (tries_found s r ss)
  then show ?case unfolding tries_Cons by blast
qed (simp_all add: search_at_dead search_at_stop search_at_accept)

lemma search_unique: "search commit ud p input s r \<Longrightarrow> search commit ud p input s r' \<Longrightarrow> r' = r"
  using search_tries_unique(1) by blast

end
