(* ===== verification/Regexp_Refinement.thy ===== *)
theory Regexp_Refinement
  imports Regexp_Search
begin

text \<open>
  The executor refines the search: one iteration of its loop performs the node of the current state
  on the backtracking stack, a run that returns answers what the search answers, and a search that
  has a result is found by every run with enough steps and stack.
\<close>

section \<open>One iteration\<close>

fun perform :: "exec_state \<Rightarrow> search_node \<Rightarrow> backtrack_entry list \<Rightarrow> exec_outcome" where
  "perform s Dead backtrack = resume (restore backtrack)"
| "perform s (Stop m) backtrack = Finished m"
| "perform s (Accepting k) backtrack =
     (case pop_lookaround backtrack of
        None \<Rightarrow> Finished None
      | Some (outer, rest) \<Rightarrow>
          if is_negative k then resume (restore rest) else Continue (outer\<lparr>ms_captures := ms_captures s\<rparr>) rest)"
| "perform s (Choices t ts) backtrack = Continue t (map Alternative ts @ backtrack)"
| "perform s (Assertion k inner outer) backtrack = Continue inner (Lookaround_Frame outer k # backtrack)"

fun pushed :: "search_node \<Rightarrow> nat" where
  "pushed (Choices t ts) = length ts"
| "pushed (Assertion k inner outer) = 1"
| "pushed _ = 0"

definition node_fits :: "usize \<Rightarrow> search_node \<Rightarrow> backtrack_entry list \<Rightarrow> bool" where
  "node_fits limit nd backtrack \<longleftrightarrow> pushed nd = 0 \<or> length backtrack + pushed nd \<le> limit"

lemma node_fits_mono: "node_fits limit nd backtrack \<Longrightarrow> limit \<le> limit' \<Longrightarrow> node_fits limit' nd backtrack"
  by (auto simp: node_fits_def)

definition perform_within :: "usize \<Rightarrow> exec_state \<Rightarrow> backtrack_entry list \<Rightarrow> search_node \<Rightarrow> (exec_error, exec_outcome) result" where
  "perform_within limit s backtrack nd =
     (if node_fits limit nd backtrack then Inr (perform s nd backtrack) else Inl BacktrackLimit)"

lemma perform_within_simps [simp]:
  "perform_within limit s backtrack Dead = Inr (resume (restore backtrack))"
  "perform_within limit s backtrack (Choices t []) = Inr (Continue t backtrack)"
  "perform_within limit s backtrack (Choices t [u]) =
     (if limit \<le> length backtrack then Inl BacktrackLimit else Inr (Continue t (Alternative u # backtrack)))"
  by (auto simp: perform_within_def node_fits_def)

lemma and_then_assoc: "and_then (and_then r f) g = and_then r (\<lambda>x. and_then (f x) g)"
  by (cases r) simp_all

lemma push_then:
  "and_then (push_alternative limit backtrack u) f =
     (if limit \<le> length backtrack then Inl BacktrackLimit else f (Alternative u # backtrack))"
  by (simp add: push_alternative_def)

lemma push_alternatives:
  "try_fold (\<lambda>b n. push_alternative limit b (f n)) ns backtrack =
     (if ns = [] \<or> length backtrack + length ns \<le> limit then Inr (rev (map (Alternative \<circ> f) ns) @ backtrack)
      else Inl BacktrackLimit)"
  by (induction ns arbitrary: backtrack) (auto simp: push_alternative_def)

lemma exec_token_node:
  "exec_token found limit s backtrack = and_then (token_node found s) (perform_within limit s backtrack)"
proof (cases found)
  case (Inr positions)
  then show ?thesis
    by (cases positions)
      (auto simp: exec_token_def token_node_def perform_within_def node_fits_def recover_or_restore_terminal_repeat_def
         resume_def push_alternatives rev_map Let_def split: option.splits)
qed (simp add: exec_token_def token_node_def)

lemma exec_repeat_node:
  "exec_repeat p limit slot minimum maximum greedy body exit capture_start capture_end s backtrack =
     and_then (repeat_node True p slot minimum maximum greedy body exit capture_start capture_end s)
       (perform_within limit s backtrack)"
proof (cases "slot < length (ms_repeats s)")
  case True
  let ?s = "enter_repeat slot s"
  have enter: "(if rp_active (ms_repeats s ! slot) then s else s\<lparr>ms_repeats := (ms_repeats s)[slot :=
     \<lparr>rp_active = True, rp_count = 0, rp_iteration_start = None, rp_optional_attempted = False\<rparr>]\<rparr>) = ?s"
    by (simp add: enter_repeat_def)
  have found: "get (ms_repeats s) slot = Some (ms_repeats s ! slot)" using True by simp
  show ?thesis
    unfolding exec_repeat_def found option.case enter repeat_node_def Let_def
    using True
    by (cases greedy; cases maximum; cases "terminal_repeat p slot body exit capture_start capture_end")
      (simp_all add: and_then_assoc push_then)
next
  case False
  then have none: "get (ms_repeats s) slot = None" by simp
  show ?thesis unfolding exec_repeat_def none using False by (simp add: repeat_node_def)
qed

lemma exec_instruction_node:
  "exec_instruction ud p input limit ins s backtrack =
     and_then (instruction_node True ud p input ins s) (perform_within limit s backtrack)"
  by (cases ins)
    (auto simp: exec_instruction_def instruction_node_def exec_token_node exec_repeat_node perform_within_def node_fits_def
       push_alternative_def push_lookaround_def and_then_def split: sum.splits option.splits)

lemma run_loop_node:
  "run_loop ud p input limits steps s backtrack =
     (if el_max_steps limits \<le> steps then (Inl StepLimit, steps)
      else case and_then (node_at True ud p input s) (perform_within (el_max_backtrack_states limits) s backtrack) of
             Inl e \<Rightarrow> (Inl e, steps + 1)
           | Inr (Finished m) \<Rightarrow> (Inr m, steps + 1)
           | Inr (Continue s' backtrack') \<Rightarrow> run_loop ud p input limits (steps + 1) s' backtrack')"
  by (subst run_loop.simps)
    (simp add: node_at_def exec_instruction_node perform_within_def node_fits_def split: option.split)

section \<open>Runs\<close>

text \<open>A run from a state and a stack that returns, with its number of iterations.\<close>

inductive runs :: "unicode_data \<Rightarrow> program \<Rightarrow> u16 list \<Rightarrow> usize \<Rightarrow> exec_state \<Rightarrow> backtrack_entry list \<Rightarrow> regexp_match option \<Rightarrow> nat \<Rightarrow> bool"
  for ud :: unicode_data and p :: program and input :: "u16 list" and limit :: usize where
  runs_finish: "node_at True ud p input s = Inr nd \<Longrightarrow> node_fits limit nd backtrack \<Longrightarrow>
    perform s nd backtrack = Finished m \<Longrightarrow> runs ud p input limit s backtrack m 1"
| runs_step: "node_at True ud p input s = Inr nd \<Longrightarrow> node_fits limit nd backtrack \<Longrightarrow>
    perform s nd backtrack = Continue s' backtrack' \<Longrightarrow> runs ud p input limit s' backtrack' m n \<Longrightarrow>
    runs ud p input limit s backtrack m (Suc n)"

lemma run_loop_runs:
  "run_loop ud p input limits steps s backtrack = (Inr m, steps') \<Longrightarrow>
     runs ud p input (el_max_backtrack_states limits) s backtrack m (unat steps' - unat steps) \<and> unat steps < unat steps'"
proof (induction ud p input limits steps s backtrack rule: run_loop.induct)
  case (1 ud p input limits steps s backtrack)
  have less: "\<not> el_max_steps limits \<le> steps" using "1.prems" by (subst (asm) run_loop.simps) (auto split: if_splits)
  note succ = step_measure [OF less]
  obtain nd where nd: "node_at True ud p input s = Inr nd" "node_fits (el_max_backtrack_states limits) nd backtrack"
    using "1.prems" less by (subst (asm) run_loop_node) (auto simp: and_then_def perform_within_def split: sum.splits if_splits)
  show ?case
  proof (cases "perform s nd backtrack")
    case (Finished m')
    then have "m' = m" "steps' = steps + 1"
      using "1.prems" less nd by (auto simp: run_loop_node [of _ _ _ _ steps] perform_within_def)
    then show ?thesis using runs_finish [OF nd, of m] Finished succ by simp
  next
    case (Continue s' backtrack')
    then have rec: "run_loop ud p input limits (steps + 1) s' backtrack' = (Inr m, steps')"
      using "1.prems" less nd by (simp add: run_loop_node [of _ _ _ _ steps] perform_within_def)
    obtain ins where ins: "get (pg_instructions p) (ms_pc s) = Some ins"
      using nd Continue by (cases "get (pg_instructions p) (ms_pc s)") (auto simp: node_at_def)
    have "instruction_node True ud p input ins s = Inr nd" using nd(1) unfolding node_at_def ins by simp
    then have "exec_instruction ud p input (el_max_backtrack_states limits) ins s backtrack = Inr (Continue s' backtrack')"
      using nd(2) Continue unfolding exec_instruction_node perform_within_def by simp
    from "1.IH" [OF less ins this refl rec] have
      "runs ud p input (el_max_backtrack_states limits) s' backtrack' m (unat steps' - unat (steps + 1))"
      "unat (steps + 1) < unat steps'" by simp_all
    then show ?thesis using runs_step [OF nd Continue] succ by (metis Suc_diff_Suc Suc_eq_plus1 Suc_lessD)
  qed
qed

lemma runs_run_loop:
  "runs ud p input (el_max_backtrack_states limits) s backtrack m n \<Longrightarrow> unat steps + n \<le> unat (el_max_steps limits) \<Longrightarrow>
     run_loop ud p input limits steps s backtrack = (Inr m, steps + word_of_nat n)"
proof (induction arbitrary: steps rule: runs.induct)
  case (runs_finish s nd backtrack m)
  then have "\<not> el_max_steps limits \<le> steps" by (simp add: word_le_nat_alt)
  then show ?case using runs_finish by (simp add: run_loop_node [of _ _ _ _ steps] perform_within_def)
next
  case (runs_step s nd backtrack s' backtrack' m n)
  then have less: "\<not> el_max_steps limits \<le> steps" by (simp add: word_le_nat_alt)
  then have "unat (steps + 1) + n \<le> unat (el_max_steps limits)" using step_measure [OF less] runs_step.prems by simp
  from runs_step.IH [OF this] show ?case
    using less runs_step.hyps by (simp add: run_loop_node [of _ _ _ _ steps] perform_within_def)
qed

section \<open>Every answer is the search's\<close>

text \<open>What a result means for the rest of the stack: a failure takes the last alternative.\<close>

inductive unwinds :: "unicode_data \<Rightarrow> program \<Rightarrow> u16 list \<Rightarrow> search_result \<Rightarrow> backtrack_entry list \<Rightarrow> regexp_match option \<Rightarrow> bool"
  for ud :: unicode_data and p :: program and input :: "u16 list" where
  unwinds_end: "unwinds ud p input (Ends m) backtrack m"
| unwinds_fail: "restore backtrack = None \<Longrightarrow> unwinds ud p input Fails backtrack None"
| unwinds_retry: "restore backtrack = Some (s, rest) \<Longrightarrow> search True ud p input s r \<Longrightarrow> unwinds ud p input r rest m \<Longrightarrow>
    unwinds ud p input Fails backtrack m"
| unwinds_stray: "pop_lookaround backtrack = None \<Longrightarrow> unwinds ud p input (Accepts k t) backtrack None"
| unwinds_exclude: "pop_lookaround backtrack = Some (outer, rest) \<Longrightarrow> is_negative k \<Longrightarrow> unwinds ud p input Fails rest m \<Longrightarrow>
    unwinds ud p input (Accepts k t) backtrack m"
| unwinds_assert: "pop_lookaround backtrack = Some (outer, rest) \<Longrightarrow> \<not> is_negative k \<Longrightarrow>
    search True ud p input (outer\<lparr>ms_captures := ms_captures t\<rparr>) r \<Longrightarrow> unwinds ud p input r rest m \<Longrightarrow>
    unwinds ud p input (Accepts k t) backtrack m"

inductive_cases unwinds_failE: "unwinds ud p input Fails backtrack m"
inductive_cases unwinds_acceptE: "unwinds ud p input (Accepts k t) backtrack m"

lemma pop_lookaround_alternatives [simp]: "pop_lookaround (map Alternative ts @ backtrack) = pop_lookaround backtrack"
  by (induction ts) simp_all

lemma unwinds_skip_alternatives:
  "unwinds ud p input (Accepts k t) (map Alternative ts @ backtrack) m \<Longrightarrow> unwinds ud p input (Accepts k t) backtrack m"
  by (erule unwinds_acceptE) (simp_all add: unwinds_stray unwinds_exclude unwinds_assert)

lemma unwinds_tries:
  "search True ud p input t r \<Longrightarrow> unwinds ud p input r (map Alternative ts @ backtrack) m \<Longrightarrow>
     \<exists>q. tries True ud p input (t # ts) q \<and> unwinds ud p input q backtrack m"
proof (induction ts arbitrary: t r)
  case Nil
  then have "tries True ud p input [t] r" by (cases r) (simp_all add: tries_Cons)
  then show ?case using Nil by auto
next
  case (Cons u ts)
  show ?case
  proof (cases r)
    case Fails
    then obtain q where "search True ud p input u q" "unwinds ud p input q (map Alternative ts @ backtrack) m"
      using Cons.prems by (auto elim: unwinds_failE)
    from Cons.IH [OF this] show ?thesis using Cons.prems(1) Fails by (auto intro: tries_next)
  next
    case (Ends m')
    then show ?thesis using Cons.prems unwinds.cases [OF Cons.prems(2)] by (auto intro!: exI [of _ r] tries_found unwinds_end)
  next
    case (Accepts k t')
    then have "unwinds ud p input r backtrack m" using Cons.prems(2) unwinds_skip_alternatives [of _ _ _ k t' "u # ts"] by simp
    then show ?thesis using Cons.prems(1) Accepts by (auto intro: tries_found)
  qed
qed

lemma unwinds_assertion:
  assumes n: "node_at True ud p input s = Inr (Assertion k inner outer)"
    and inner: "search True ud p input inner r" "unwinds ud p input r (Lookaround_Frame outer k # backtrack) m"
  shows "\<exists>q. search True ud p input s q \<and> unwinds ud p input q backtrack m"
proof (cases r)
  case Fails
  show ?thesis
  proof (cases "is_negative k")
    case True
    then obtain q where "search True ud p input outer q" "unwinds ud p input q backtrack m"
      using inner(2) Fails by (auto elim: unwinds_failE)
    then show ?thesis using search_negated [OF n] inner(1) Fails True by blast
  next
    case False
    then have "unwinds ud p input Fails backtrack m"
      using inner(2) Fails by (auto elim!: unwinds_failE intro: unwinds_fail unwinds_retry)
    then show ?thesis using search_refuted [OF n] inner(1) Fails False by blast
  qed
next
  case (Ends m')
  then have "m' = m" using inner(2) by (auto elim: unwinds.cases)
  then show ?thesis using search_inner_end [OF n] inner(1) Ends unwinds_end by blast
next
  case (Accepts k' t)
  show ?thesis
  proof (cases "is_negative k'")
    case True
    then have "unwinds ud p input Fails backtrack m" using inner(2) Accepts by (auto elim: unwinds_acceptE)
    then show ?thesis using search_excluded [OF n] inner(1) Accepts True by blast
  next
    case False
    then obtain q where "search True ud p input (outer\<lparr>ms_captures := ms_captures t\<rparr>) q" "unwinds ud p input q backtrack m"
      using inner(2) Accepts by (auto elim: unwinds_acceptE)
    then show ?thesis using search_asserted [OF n] inner(1) Accepts False by blast
  qed
qed

lemma runs_search:
  "runs ud p input limit s backtrack m n \<Longrightarrow> \<exists>r. search True ud p input s r \<and> unwinds ud p input r backtrack m"
proof (induction rule: runs.induct)
  case (runs_finish s nd backtrack m)
  show ?case
  proof (cases nd)
    case Dead
    then have "unwinds ud p input Fails backtrack m"
      using runs_finish by (auto simp: resume_def intro: unwinds_fail split: option.splits)
    then show ?thesis using runs_finish(1) Dead by (auto intro: search_dead)
  next
    case (Stop m')
    then show ?thesis using runs_finish by (auto intro: search_stop unwinds_end)
  next
    case (Accepting k)
    have "unwinds ud p input (Accepts k s) backtrack m"
    proof (cases "pop_lookaround backtrack")
      case None
      then show ?thesis using runs_finish Accepting by (auto intro: unwinds_stray)
    next
      case (Some found)
      then obtain outer rest where f: "pop_lookaround backtrack = Some (outer, rest)" by (cases found) auto
      then have "is_negative k" "restore rest = None" "m = None"
        using runs_finish(3) Accepting by (auto simp: resume_def split: option.splits if_splits)
      then show ?thesis using f by (auto intro: unwinds_exclude unwinds_fail)
    qed
    then show ?thesis using runs_finish(1) Accepting by (auto intro: search_accept)
  qed (use runs_finish in auto)
next
  case (runs_step s nd backtrack s' backtrack' m n)
  then obtain r where r: "search True ud p input s' r" "unwinds ud p input r backtrack' m" by blast
  show ?case
  proof (cases nd)
    case Dead
    then have "unwinds ud p input Fails backtrack m"
      using runs_step(3) r by (auto simp: resume_def intro: unwinds_retry split: option.splits)
    then show ?thesis using runs_step(1) Dead by (auto intro: search_dead)
  next
    case (Accepting k)
    then obtain outer rest where f: "pop_lookaround backtrack = Some (outer, rest)"
      using runs_step(3) by (auto split: option.splits)
    have "unwinds ud p input (Accepts k s) backtrack m"
    proof (cases "is_negative k")
      case True
      then have "restore rest = Some (s', backtrack')"
        using runs_step(3) Accepting f by (auto simp: resume_def split: option.splits)
      then show ?thesis using unwinds_exclude [OF f True] unwinds_retry r by blast
    next
      case False
      then show ?thesis using runs_step(3) Accepting f r unwinds_assert [OF f False] by auto
    qed
    then show ?thesis using runs_step(1) Accepting by (auto intro: search_accept)
  next
    case (Choices t ts)
    then have "\<exists>q. tries True ud p input (t # ts) q \<and> unwinds ud p input q backtrack m"
      using runs_step(3) r by (intro unwinds_tries) simp_all
    then show ?thesis using runs_step(1) Choices by (auto intro: search_choices)
  next
    case (Assertion k inner outer)
    then show ?thesis using runs_step(1,3) r by (intro unwinds_assertion) auto
  qed (use runs_step in auto)
qed

text \<open>The answer of a whole search is the match it ends with.\<close>

fun answer :: "search_result \<Rightarrow> regexp_match option" where
  "answer (Ends m) = m"
| "answer Fails = None"
| "answer (Accepts _ _) = None"

lemma unwinds_answer: "unwinds ud p input r [] m \<longleftrightarrow> m = answer r"
  by (subst unwinds.simps) (cases r; simp)

section \<open>Every search is found\<close>

fun after :: "search_result \<Rightarrow> backtrack_entry list \<Rightarrow> exec_outcome" where
  "after Fails backtrack = resume (restore backtrack)"
| "after (Ends m) backtrack = Finished m"
| "after (Accepts k t) backtrack = perform t (Accepting k) backtrack"

definition outcome_runs ::
  "unicode_data \<Rightarrow> program \<Rightarrow> u16 list \<Rightarrow> usize \<Rightarrow> exec_outcome \<Rightarrow> regexp_match option \<Rightarrow> nat \<Rightarrow> bool" where
  "outcome_runs ud p input limit outcome m n =
     (case outcome of Finished m' \<Rightarrow> m' = m \<and> n = 0 | Continue s backtrack \<Rightarrow> runs ud p input limit s backtrack m n)"

definition outcome_reaches ::
  "unicode_data \<Rightarrow> program \<Rightarrow> u16 list \<Rightarrow> (backtrack_entry list \<Rightarrow> exec_outcome) \<Rightarrow> search_result \<Rightarrow> nat \<Rightarrow> nat \<Rightarrow> bool" where
  "outcome_reaches ud p input start r n0 h \<longleftrightarrow>
     (\<forall>limit backtrack m n. length backtrack + h \<le> limit \<longrightarrow> outcome_runs ud p input limit (after r backtrack) m n \<longrightarrow>
        outcome_runs ud p input limit (start backtrack) m (n0 + n))"

lemma outcome_reachesD:
  "outcome_reaches ud p input start r n0 h \<Longrightarrow> length backtrack + h \<le> limit \<Longrightarrow>
     outcome_runs ud p input limit (after r backtrack) m n \<Longrightarrow> outcome_runs ud p input limit (start backtrack) m (n0 + n)"
  by (simp add: outcome_reaches_def)

lemma outcome_runs_perform:
  assumes "node_at True ud p input s = Inr nd" "node_fits limit nd backtrack"
    "outcome_runs ud p input limit (perform s nd backtrack) m n"
  shows "outcome_runs ud p input limit (Continue s backtrack) m (Suc n)"
  using assms runs_finish [OF assms(1,2)] runs_step [OF assms(1,2)]
  by (auto simp: outcome_runs_def split: exec_outcome.splits)

lemma reaches_node:
  assumes n: "node_at True ud p input s = Inr nd"
    and sub: "\<And>limit backtrack m n. length backtrack + h \<le> limit \<Longrightarrow> outcome_runs ud p input limit (after r backtrack) m n \<Longrightarrow>
      outcome_runs ud p input limit (perform s nd backtrack) m (n0 + n)"
  shows "outcome_reaches ud p input (Continue s) r (Suc n0) (h + pushed nd)"
  unfolding outcome_reaches_def
proof (intro allI impI)
  fix limit backtrack m n'
  assume fit: "length backtrack + (h + pushed nd) \<le> limit" and run: "outcome_runs ud p input limit (after r backtrack) m n'"
  have "node_fits limit nd backtrack" using fit by (simp add: node_fits_def)
  from outcome_runs_perform [OF n this sub [OF _ run]] show "outcome_runs ud p input limit (Continue s backtrack) m (Suc n0 + n')"
    using fit by simp
qed

abbreviation start_tries :: "exec_state list \<Rightarrow> backtrack_entry list \<Rightarrow> exec_outcome" where
  "start_tries ss backtrack \<equiv> resume (restore (map Alternative ss @ backtrack))"

lemma after_skip_alternatives: "r \<noteq> Fails \<Longrightarrow> after r (map Alternative ts @ backtrack) = after r backtrack"
  by (cases r) simp_all

lemma search_reaches:
  "search commit ud p input s r \<Longrightarrow> commit \<Longrightarrow> \<exists>n0 h. outcome_reaches ud p input (Continue s) r n0 h"
  "tries commit ud p input ss q \<Longrightarrow> commit \<Longrightarrow> \<exists>n0 h. outcome_reaches ud p input (start_tries ss) q n0 h"
proof (induction rule: search_tries.inducts)
  case (search_dead s)
  have "outcome_reaches ud p input (Continue s) Fails (Suc 0) (0 + pushed Dead)"
    by (rule reaches_node) (use search_dead in simp_all)
  then show ?case by blast
next
  case (search_stop s m)
  have "outcome_reaches ud p input (Continue s) (Ends m) (Suc 0) (0 + pushed (Stop m))"
    by (rule reaches_node) (use search_stop in simp_all)
  then show ?case by blast
next
  case (search_accept s k)
  have "outcome_reaches ud p input (Continue s) (Accepts k s) (Suc 0) (0 + pushed (Accepting k))"
    by (rule reaches_node) (use search_accept in simp_all)
  then show ?case by blast
next
  case (search_choices s t ts r)
  then obtain n0 h where sub: "outcome_reaches ud p input (start_tries (t # ts)) r n0 h" by blast
  have "outcome_reaches ud p input (Continue s) r (Suc n0) (h + pushed (Choices t ts))"
    by (rule reaches_node) (use search_choices outcome_reachesD [OF sub] in \<open>simp_all add: resume_def\<close>)
  then show ?case by blast
next
  case (search_refuted s k inner outer)
  then obtain n0 h where sub: "outcome_reaches ud p input (Continue inner) Fails n0 h" by blast
  have "outcome_reaches ud p input (Continue s) Fails (Suc n0) ((Suc h) + pushed (Assertion k inner outer))"
    by (rule reaches_node)
      (use search_refuted outcome_reachesD [OF sub, of "Lookaround_Frame outer k # _"] in simp_all)
  then show ?case by blast
next
  case (search_negated s k inner outer r)
  then obtain n1 h1 n2 h2 where sub: "outcome_reaches ud p input (Continue inner) Fails n1 h1"
    "outcome_reaches ud p input (Continue outer) r n2 h2" by blast
  have "outcome_reaches ud p input (Continue s) r (Suc (n1 + n2)) ((Suc (h1 + h2)) + pushed (Assertion k inner outer))"
    by (rule reaches_node)
      (use search_negated outcome_reachesD [OF sub(1), of "Lookaround_Frame outer k # _"] outcome_reachesD [OF sub(2)] in
        \<open>simp_all add: resume_def add.assoc\<close>)
  then show ?case by blast
next
  case (search_inner_end s k inner outer m)
  then obtain n0 h where sub: "outcome_reaches ud p input (Continue inner) (Ends m) n0 h" by blast
  have "outcome_reaches ud p input (Continue s) (Ends m) (Suc n0) ((Suc h) + pushed (Assertion k inner outer))"
    by (rule reaches_node)
      (use search_inner_end outcome_reachesD [OF sub, of "Lookaround_Frame outer k # _"] in simp_all)
  then show ?case by blast
next
  case (search_excluded s k inner outer k' t)
  then obtain n0 h where sub: "outcome_reaches ud p input (Continue inner) (Accepts k' t) n0 h" by blast
  have "outcome_reaches ud p input (Continue s) Fails (Suc n0) ((Suc h) + pushed (Assertion k inner outer))"
    by (rule reaches_node)
      (use search_excluded outcome_reachesD [OF sub, of "Lookaround_Frame outer k # _"] in simp_all)
  then show ?case by blast
next
  case (search_asserted s k inner outer k' t r)
  then obtain n1 h1 n2 h2 where sub: "outcome_reaches ud p input (Continue inner) (Accepts k' t) n1 h1"
    "outcome_reaches ud p input (Continue (outer\<lparr>ms_captures := ms_captures t\<rparr>)) r n2 h2" by blast
  have "outcome_reaches ud p input (Continue s) r (Suc (n1 + n2)) ((Suc (h1 + h2)) + pushed (Assertion k inner outer))"
    by (rule reaches_node)
      (use search_asserted outcome_reachesD [OF sub(1), of "Lookaround_Frame outer k # _"] outcome_reachesD [OF sub(2)] in
        \<open>simp_all add: add.assoc\<close>)
  then show ?case by blast
next
  case tries_none
  have "outcome_reaches ud p input (start_tries []) Fails 0 0" by (simp add: outcome_reaches_def)
  then show ?case by blast
next
  case (tries_next s ss r)
  then obtain n1 h1 n2 h2 where sub: "outcome_reaches ud p input (Continue s) Fails n1 h1"
    "outcome_reaches ud p input (start_tries ss) r n2 h2" by blast
  have "outcome_reaches ud p input (start_tries (s # ss)) r (n1 + n2) (length ss + h1 + h2)"
    unfolding outcome_reaches_def
    using outcome_reachesD [OF sub(1), of "map Alternative ss @ _"] outcome_reachesD [OF sub(2)]
    by (simp add: resume_def [of "Some _"] add.assoc)
  then show ?case by blast
next
  case (tries_found s r ss)
  then obtain n0 h where sub: "outcome_reaches ud p input (Continue s) r n0 h" by blast
  have "outcome_reaches ud p input (start_tries (s # ss)) r n0 (length ss + h)"
    unfolding outcome_reaches_def
    using outcome_reachesD [OF sub, of "map Alternative ss @ _"] after_skip_alternatives [OF \<open>r \<noteq> Fails\<close>]
    by (simp add: resume_def [of "Some _"] add.assoc)
  then show ?case by blast
qed

end
