(* ===== verification/Regexp_Safety.thy ===== *)
theory Regexp_Safety
  imports Regexp_Refinement
begin

text \<open>
  Bounds of the executor: for a program whose instructions name existing captures and repeats, every
  state stays inside the input, no index is out of range, and the step counter never passes its limit.
\<close>

section \<open>Well-formed programs and states\<close>

definition instruction_ok :: "program \<Rightarrow> instruction \<Rightarrow> bool" where
  "instruction_ok p ins =
     (case ins of
        I_SaveStart index \<Rightarrow> index < pg_capture_count p
      | I_SaveEnd index \<Rightarrow> index < pg_capture_count p
      | I_Repeat slot minimum maximum greedy body exit capture_start capture_end \<Rightarrow>
          slot < pg_repeat_count p \<and> (capture_start < capture_end \<longrightarrow> capture_end \<le> pg_capture_count p)
      | I_RepeatEnd slot head \<Rightarrow> slot < pg_repeat_count p
      | _ \<Rightarrow> True)"

definition program_ok :: "program \<Rightarrow> bool" where
  "program_ok p \<longleftrightarrow> list_all (instruction_ok p) (pg_instructions p)"

definition offset_ok :: "usize \<Rightarrow> usize option \<Rightarrow> bool" where
  "offset_ok n offset = (case offset of None \<Rightarrow> True | Some i \<Rightarrow> i \<le> n)"

lemma offset_ok_simps [simp]: "offset_ok n None" "offset_ok n (Some i) \<longleftrightarrow> i \<le> n"
  by (simp_all add: offset_ok_def)

definition capture_ok :: "usize \<Rightarrow> capture_slot \<Rightarrow> bool" where
  "capture_ok n c \<longleftrightarrow> offset_ok n (cs_start c) \<and> offset_ok n (cs_end c)"

lemma capture_default_ok [simp]: "capture_ok n capture_default"
  by (simp add: capture_ok_def capture_default_def)

definition state_ok :: "program \<Rightarrow> u16 list \<Rightarrow> exec_state \<Rightarrow> bool" where
  "state_ok p input s \<longleftrightarrow>
     ms_position s \<le> length input \<and> length (ms_captures s) = pg_capture_count p \<and>
     length (ms_repeats s) = pg_repeat_count p \<and> list_all (capture_ok (length input)) (ms_captures s)"

definition match_ok :: "program \<Rightarrow> u16 list \<Rightarrow> regexp_match \<Rightarrow> bool" where
  "match_ok p input m \<longleftrightarrow>
     length (rm_captures m) = pg_capture_count p \<and>
     list_all (\<lambda>c. case c of None \<Rightarrow> True | Some (a, b) \<Rightarrow> a \<le> length input \<and> b \<le> length input) (rm_captures m)"

fun node_ok :: "program \<Rightarrow> u16 list \<Rightarrow> search_node \<Rightarrow> bool" where
  "node_ok p input (Stop m) = (case m of None \<Rightarrow> True | Some m \<Rightarrow> match_ok p input m)"
| "node_ok p input (Choices t ts) = list_all (state_ok p input) (t # ts)"
| "node_ok p input (Assertion k inner outer) = (state_ok p input inner \<and> state_ok p input outer)"
| "node_ok p input _ = True"

section \<open>Positions\<close>

lemma decode_in_direction_ok:
  assumes "position \<le> length input"
  shows "\<exists>r. decode_in_direction input position unicode dir = Inr r \<and> (\<forall>c n. r = Some (c, n) \<longrightarrow> n \<le> length input)"
proof (cases dir)
  case Forward
  then show ?thesis by (auto simp: decode_in_direction_def dest: decode_at_next)
next
  case Backward
  then show ?thesis
    using decode_before_no_panic [OF assms, of unicode] decode_before_next [of input position unicode]
    by (fastforce simp: decode_in_direction_def)
qed

lemma token_position_ok:
  assumes "position \<le> length input"
  shows "\<exists>ns. token_position P input position unicode dir = Inr ns \<and> list_all (\<lambda>n. n \<le> length input) ns"
proof -
  obtain r where "decode_in_direction input position unicode dir = Inr r" "\<forall>c n. r = Some (c, n) \<longrightarrow> n \<le> length input"
    using decode_in_direction_ok [OF assms] by blast
  then show ?thesis by (cases r) (auto simp: token_position_def)
qed

lemma match_string_from_ok:
  "position \<le> length input \<Longrightarrow> \<exists>r. match_string_from ud input mode dir cs position = Inr r \<and> offset_ok (length input) r"
proof (induction cs arbitrary: position)
  case (Cons c cs)
  obtain r where r: "decode_in_direction input position (mm_unicode mode) dir = Inr r" "\<forall>c n. r = Some (c, n) \<longrightarrow> n \<le> length input"
    using decode_in_direction_ok [OF Cons.prems] by blast
  show ?case
  proof (cases r)
    case (Some found)
    then obtain a n where "r = Some (a, n)" by (cases found) auto
    then show ?thesis using r Cons.IH [of n] by simp
  qed (simp add: r)
qed simp

lemma match_class_string_ok:
  "position \<le> length input \<Longrightarrow> \<exists>r. match_class_string ud input position cs mode dir = Inr r \<and> offset_ok (length input) r"
  by (cases dir) (simp_all add: match_class_string_def match_string_from_ok)

lemma prefixes_from_ok:
  "cursor \<le> length input \<Longrightarrow> \<exists>ps. prefixes_from input unicode dir k v cursor = Inr ps \<and> list_all (\<lambda>x. snd x \<le> length input) ps"
proof (induction k arbitrary: v cursor)
  case (Suc k)
  obtain r where r: "decode_in_direction input cursor unicode dir = Inr r" "\<forall>c n. r = Some (c, n) \<longrightarrow> n \<le> length input"
    using decode_in_direction_ok [OF Suc.prems] by blast
  show ?case
  proof (cases r)
    case (Some found)
    then obtain a n where f: "r = Some (a, n)" by (cases found) auto
    let ?v = "case dir of Forward \<Rightarrow> v @ [a] | Backward \<Rightarrow> a # v"
    obtain ps where "prefixes_from input unicode dir k ?v n = Inr ps" "list_all (\<lambda>x. snd x \<le> length input) ps"
      using Suc.IH [of n ?v] r(2) f by blast
    then show ?thesis using r f by (simp add: Let_def)
  qed (simp add: r)
qed simp

lemma push_new_ok: "list_all P ns \<Longrightarrow> P n \<Longrightarrow> list_all P (push_new ns n)"
  by (simp add: push_new_def)

lemma string_positions_ok:
  assumes "position \<le> length input"
  shows "list_all (\<lambda>n. n \<le> length input) ns \<Longrightarrow>
    \<exists>ns'. try_fold (string_position ud class input position mode dir) strs ns = Inr ns' \<and> list_all (\<lambda>n. n \<le> length input) ns'"
proof (induction strs arbitrary: ns)
  case (Cons str strs)
  obtain r where r: "match_class_string ud input position str mode dir = Inr r" "offset_ok (length input) r"
    using match_class_string_ok [OF assms] by blast
  have "\<exists>ns1. string_position ud class input position mode dir ns str = Inr ns1 \<and> list_all (\<lambda>n. n \<le> length input) ns1"
    using r Cons.prems by (cases r) (auto simp: string_position_def intro: push_new_ok)
  then show ?case using Cons.IH by auto
qed simp

lemma prefix_positions_ok:
  "list_all (\<lambda>x. snd x \<le> n) ps \<Longrightarrow> list_all (\<lambda>k. k \<le> n) ns \<Longrightarrow>
     list_all (\<lambda>k. k \<le> n) (foldl (prefix_position ud class mode) ns ps)"
  by (induction ps arbitrary: ns) (simp_all add: prefix_position_def push_new_ok)

lemma class_match_positions_ok:
  assumes "position \<le> length input"
  shows "\<exists>ns. class_match_positions ud class input position mode dir = Inr ns \<and> list_all (\<lambda>n. n \<le> length input) ns"
proof -
  obtain ns1 where 1: "try_fold (string_position ud class input position mode dir) (cc_strings class) [] = Inr ns1"
    "list_all (\<lambda>n. n \<le> length input) ns1"
    using string_positions_ok [OF assms, of "[]" ud "class" mode dir "cc_strings class"]
    by auto
  obtain ps where ps: "directional_prefixes input position (mm_unicode mode) dir 16 = Inr ps" "list_all (\<lambda>x. snd x \<le> length input) ps"
    using prefixes_from_ok [OF assms] unfolding directional_prefixes_def by blast
  let ?ns2 = "if cc_has_string_properties class then foldl (prefix_position ud class mode) ns1 (rev ps) else ns1"
  have 2: "list_all (\<lambda>n. n \<le> length input) ?ns2" using 1 ps prefix_positions_ok [of "length input" "rev ps"] by simp
  obtain r where r: "decode_in_direction input position (mm_unicode mode) dir = Inr r" "\<forall>c n. r = Some (c, n) \<longrightarrow> n \<le> length input"
    using decode_in_direction_ok [OF assms] by blast
  show ?thesis using 1 2 ps r by (cases r) (auto simp: class_match_positions_def intro: push_new_ok)
qed

lemma back_reference_backward_ok:
  "capture_position \<le> length input \<Longrightarrow> position \<le> length input \<Longrightarrow>
     \<exists>r. back_reference_backward ud input mode a capture_position position = Inr r \<and> offset_ok (length input) r"
proof (induction ud input mode a capture_position position rule: back_reference_backward.induct)
  case (1 ud input mode a c n)
  obtain r1 r2 where r: "decode_before input c (mm_unicode mode) = Inr r1" "decode_before input n (mm_unicode mode) = Inr r2"
    using decode_before_no_panic "1.prems" by metis
  show ?case
  proof (cases "c \<le> a \<or> r1 = None \<or> r2 = None")
    case True
    then show ?thesis using r "1.prems" by (subst back_reference_backward.simps) (auto split: option.splits)
  next
    case False
    then obtain e c' f n' where e: "r1 = Some (e, c')" "r2 = Some (f, n')" by auto
    have "c' \<le> length input" "n' \<le> length input"
      using decode_before_next [of input c] decode_before_next [of input n] r e "1.prems" by fastforce+
    then show ?thesis using "1.IH" [OF _ r(1) e(1) refl _ r(2) e(2) refl] r e False
      by (subst back_reference_backward.simps) auto
  qed
qed

lemma back_reference_forward_ok:
  "position \<le> length input \<Longrightarrow> offset_ok (length input) (back_reference_forward ud input mode b capture_position position)"
proof (induction ud input mode b capture_position position rule: back_reference_forward.induct)
  case (1 ud input mode b c n)
  show ?case
  proof (cases "b \<le> c \<or> decode_at input c (mm_unicode mode) = None \<or> decode_at input n (mm_unicode mode) = None")
    case True
    then show ?thesis using "1.prems" by (subst back_reference_forward.simps) (auto split: option.splits)
  next
    case False
    then obtain e c' f n' where e: "decode_at input c (mm_unicode mode) = Some (e, c')"
      "decode_at input n (mm_unicode mode) = Some (f, n')" by auto
    then show ?thesis using "1.IH" [OF _ e(1) refl _ e(2) refl] decode_at_next [OF e(2)] False
      by (subst back_reference_forward.simps) auto
  qed
qed

lemma match_back_reference_ok:
  assumes "position \<le> length input" "snd span \<le> length input"
  shows "\<exists>r. match_back_reference ud input position span mode dir = Inr r \<and> offset_ok (length input) r"
  using assms back_reference_backward_ok back_reference_forward_ok by (cases dir) (simp_all add: match_back_reference_def)

lemma boundary_matches_ok: "position \<le> length input \<Longrightarrow> \<exists>b. boundary_matches ud kind input position mode = Inr b"
  using decode_before_no_panic [of position input "mm_unicode mode"]
  by (cases kind) (auto simp: boundary_matches_def Let_def)

section \<open>Nodes\<close>

lemma state_ok_update:
  "state_ok p input s \<Longrightarrow> n \<le> length input \<Longrightarrow> state_ok p input (s\<lparr>ms_position := n, ms_pc := k\<rparr>)"
  "state_ok p input s \<Longrightarrow> state_ok p input (s\<lparr>ms_pc := k\<rparr>)"
  "state_ok p input s \<Longrightarrow> state_ok p input (s\<lparr>ms_pc := k, ms_direction := d\<rparr>)"
  "state_ok p input s \<Longrightarrow> length rs = pg_repeat_count p \<Longrightarrow> state_ok p input (s\<lparr>ms_repeats := rs\<rparr>)"
  "state_ok p input s \<Longrightarrow> length rs = pg_repeat_count p \<Longrightarrow> state_ok p input (s\<lparr>ms_repeats := rs, ms_pc := k\<rparr>)"
  "state_ok p input s \<Longrightarrow> state_ok p input (s\<lparr>ms_terminal := tm\<rparr>)"
  "state_ok p input s \<Longrightarrow> state_ok p input t \<Longrightarrow> state_ok p input (s\<lparr>ms_captures := ms_captures t\<rparr>)"
  by (simp_all add: state_ok_def)

lemma token_node_ok:
  assumes s: "state_ok p input s" and ns: "found = Inr ns" "list_all (\<lambda>n. n \<le> length input) ns"
  shows "\<exists>nd. token_node found s = Inr nd \<and> node_ok p input nd"
proof (cases ns)
  case Nil
  have "state_ok p input s'" if "recover_terminal_repeat s = Some s'" for s'
    using that s by (auto simp: recover_terminal_repeat_def state_ok_def split: option.splits if_splits)
  then show ?thesis using Nil ns by (cases "recover_terminal_repeat s") (simp_all add: token_node_def)
next
  case (Cons n rest)
  then show ?thesis using ns s by (auto simp: token_node_def Let_def list_all_iff state_ok_update)
qed

lemma list_all_capture_update:
  "list_all (capture_ok n) cs \<Longrightarrow> capture_ok n c \<Longrightarrow> list_all (capture_ok n) (cs[i := c])"
  by (auto simp: list_all_iff dest!: set_update_subset_insert [THEN subsetD])

lemma save_ok:
  assumes s: "state_ok p input s" and i: "index < pg_capture_count p"
  shows "\<exists>s'. exec_save_start index s = Inr s' \<and> state_ok p input s'"
    and "\<exists>s'. exec_save_end index s = Inr s' \<and> state_ok p input s'"
proof -
  let ?c = "ms_captures s ! index"
  have c: "get (ms_captures s) index = Some ?c" "capture_ok (length input) ?c"
    using s i by (auto simp: state_ok_def list_all_length)
  show "\<exists>s'. exec_save_start index s = Inr s' \<and> state_ok p input s'"
    unfolding exec_save_start_def c option.case using s c(2)
    by (auto simp: state_ok_def capture_ok_def intro!: list_all_capture_update)
  show "\<exists>s'. exec_save_end index s = Inr s' \<and> state_ok p input s'"
    unfolding exec_save_end_def c option.case using s c(2)
    by (auto simp: state_ok_def capture_ok_def intro!: list_all_capture_update split: option.splits)
qed

lemma find_capture_ok:
  "list_all (capture_ok n) captures \<Longrightarrow> find_capture captures indices = Some span \<Longrightarrow> fst span \<le> n \<and> snd span \<le> n"
proof (induction indices)
  case (Cons i indices)
  then show ?case
    by (auto simp: capture_range_def capture_ok_def list_all_length split: option.splits bind_splits)
qed simp

lemma start_iteration_ok:
  assumes s: "state_ok p input s" and "slot < pg_repeat_count p" "capture_start < capture_end \<longrightarrow> capture_end \<le> pg_capture_count p"
  shows "\<exists>s'. start_iteration slot body capture_start capture_end s = Inr s' \<and> state_ok p input s'"
  using assms
  by (auto simp: start_iteration_def state_ok_def Let_def get_def list_all_iff dest: in_set_takeD in_set_dropD)

lemma repeat_node_ok:
  assumes s: "state_ok p input s" and slot: "slot < pg_repeat_count p" and cs: "capture_start < capture_end \<longrightarrow> capture_end \<le> pg_capture_count p"
  shows "\<exists>nd. repeat_node commit p slot minimum maximum greedy body exit capture_start capture_end s = Inr nd \<and> node_ok p input nd"
proof -
  let ?s = "enter_repeat slot s"
  have enter: "state_ok p input ?s" using s by (auto simp: enter_repeat_def state_ok_update state_ok_def)
  have out: "state_ok p input (exit_repeat slot exit ?s)"
    using enter by (simp add: exit_repeat_def state_ok_update state_ok_def)
  then have left: "state_ok p input (clear_terminal_repeat slot (exit_repeat slot exit ?s))"
    by (auto simp: clear_terminal_repeat_def state_ok_update split: option.splits)
  obtain s1 where s1: "start_iteration slot body capture_start capture_end ?s = Inr s1" "state_ok p input s1"
    using start_iteration_ok [OF enter slot cs] by blast
  let ?o = "?s\<lparr>ms_repeats := (ms_repeats ?s)[slot := (ms_repeats ?s ! slot)\<lparr>rp_optional_attempted := True\<rparr>]\<rparr>"
  have "state_ok p input ?o" using enter by (simp add: state_ok_def)
  from start_iteration_ok [OF this slot cs] obtain s2
    where s2: "start_iteration slot body capture_start capture_end ?o = Inr s2" "state_ok p input s2" by blast
  have "slot < length (ms_repeats s)" using s slot by (simp add: state_ok_def)
  then show ?thesis
    using s1 s2 out left unfolding repeat_node_def Let_def
    by (auto simp: state_ok_update split: option.splits)
qed

lemma node_at_ok:
  assumes p: "program_ok p" and s: "state_ok p input s"
  shows "\<exists>nd. node_at commit ud p input s = Inr nd \<and> node_ok p input nd"
proof (cases "get (pg_instructions p) (ms_pc s)")
  case None
  then show ?thesis by (simp add: node_at_def None del: get_eq_None)
next
  case (Some ins)
  then have ok: "instruction_ok p ins" using p by (auto simp: program_ok_def list_all_length)
  have pos: "ms_position s \<le> length input" using s by (simp add: state_ok_def)
  have "\<exists>nd. instruction_node commit ud p input ins s = Inr nd \<and> node_ok p input nd"
  proof (cases ins)
    case (I_Character v mode)
    then show ?thesis using token_position_ok [OF pos] token_node_ok [OF s] by (simp add: instruction_node_def) metis
  next
    case (I_Dot mode)
    then show ?thesis using token_position_ok [OF pos] token_node_ok [OF s] by (simp add: instruction_node_def) metis
  next
    case (I_CharacterClass cls mode)
    then show ?thesis using class_match_positions_ok [OF pos] token_node_ok [OF s] by (simp add: instruction_node_def) metis
  next
    case (I_Boundary kind mode)
    obtain b where "boundary_matches ud kind input (ms_position s) mode = Inr b" using boundary_matches_ok [OF pos] by blast
    then show ?thesis using I_Boundary s by (cases b) (simp_all add: instruction_node_def state_ok_update)
  next
    case (I_BackReference captures mode)
    show ?thesis
    proof (cases "find_capture (ms_captures s) captures")
      case (Some span)
      then have "snd span \<le> length input" using s find_capture_ok [of "length input" "ms_captures s"] by (simp add: state_ok_def)
      then obtain r where r: "match_back_reference ud input (ms_position s) span mode (ms_direction s) = Inr r" "offset_ok (length input) r"
        using match_back_reference_ok [OF pos] by blast
      then show ?thesis using Some I_BackReference s by (cases r) (simp_all add: instruction_node_def state_ok_update)
    qed (use I_BackReference s in \<open>simp add: instruction_node_def state_ok_update\<close>)
  next
    case (I_SaveStart i)
    then show ?thesis using save_ok(1) [OF s, of i] ok by (fastforce simp: instruction_node_def instruction_ok_def)
  next
    case (I_SaveEnd i)
    then show ?thesis using save_ok(2) [OF s, of i] ok by (fastforce simp: instruction_node_def instruction_ok_def)
  next
    case (I_Repeat slot minimum maximum greedy body exit capture_start capture_end)
    then show ?thesis using repeat_node_ok [OF s] ok by (simp add: instruction_node_def instruction_ok_def)
  next
    case (I_RepeatEnd slot head)
    then have "slot < length (ms_repeats s)" using ok s by (simp add: instruction_ok_def state_ok_def)
    then show ?thesis using I_RepeatEnd s by (simp add: instruction_node_def get_def state_ok_def)
  next
    case I_Match
    have "match_ok p input \<lparr>rm_captures = map capture_range (ms_captures s)\<rparr>"
      using s by (auto simp: match_ok_def state_ok_def list_all_iff capture_range_def capture_ok_def split: option.splits)
    then show ?thesis using I_Match by (simp add: instruction_node_def)
  qed (use s in \<open>simp_all add: instruction_node_def state_ok_update\<close>)
  then show ?thesis unfolding node_at_def Some by simp
qed

section \<open>Runs\<close>

fun entry_ok :: "program \<Rightarrow> u16 list \<Rightarrow> backtrack_entry \<Rightarrow> bool" where
  "entry_ok p input (Alternative s) = state_ok p input s"
| "entry_ok p input (Lookaround_Frame outer k) = state_ok p input outer"

fun outcome_ok :: "program \<Rightarrow> u16 list \<Rightarrow> exec_outcome \<Rightarrow> bool" where
  "outcome_ok p input (Continue s backtrack) = (state_ok p input s \<and> list_all (entry_ok p input) backtrack)"
| "outcome_ok p input (Finished m) = (case m of None \<Rightarrow> True | Some m \<Rightarrow> match_ok p input m)"

lemma resume_ok: "list_all (entry_ok p input) backtrack \<Longrightarrow> outcome_ok p input (resume (restore backtrack))"
  by (induction backtrack rule: restore.induct) (auto simp: resume_def split: option.splits)

lemma pop_lookaround_ok:
  "list_all (entry_ok p input) backtrack \<Longrightarrow> pop_lookaround backtrack = Some (outer, rest) \<Longrightarrow>
     state_ok p input outer \<and> list_all (entry_ok p input) rest"
  by (induction backtrack rule: pop_lookaround.induct) auto

lemma perform_ok:
  assumes "node_ok p input nd" "state_ok p input s" "list_all (entry_ok p input) backtrack"
  shows "outcome_ok p input (perform s nd backtrack)"
proof (cases nd)
  case (Accepting k)
  show ?thesis
  proof (cases "pop_lookaround backtrack")
    case (Some found)
    then obtain outer rest where f: "pop_lookaround backtrack = Some (outer, rest)" by (cases found) auto
    then show ?thesis using pop_lookaround_ok [OF assms(3) f] assms(2) Accepting resume_ok by (simp add: state_ok_update)
  qed (simp add: Accepting)
qed (use assms in \<open>auto simp: resume_ok list_all_iff\<close>)

lemma run_loop_ok:
  assumes "program_ok p"
  shows "state_ok p input s \<Longrightarrow> list_all (entry_ok p input) backtrack \<Longrightarrow> steps \<le> el_max_steps limits \<Longrightarrow>
    (case run_loop ud p input limits steps s backtrack of (r, n) \<Rightarrow>
       n \<le> el_max_steps limits \<and> r \<noteq> Inl Exec_Panic \<and> (\<forall>m. r = Inr (Some m) \<longrightarrow> match_ok p input m))"
  using assms
proof (induction ud p input limits steps s backtrack rule: run_loop.induct)
  case (1 ud p input limits steps s backtrack)
  obtain nd where nd: "node_at True ud p input s = Inr nd" "node_ok p input nd" using node_at_ok "1.prems" by blast
  show ?case
  proof (cases "el_max_steps limits \<le> steps")
    case False
    then have succ: "steps + 1 \<le> el_max_steps limits" using step_measure by (simp add: word_le_nat_alt)
    have ok: "outcome_ok p input (perform s nd backtrack)" using perform_ok nd(2) "1.prems" by blast
    show ?thesis
    proof (cases "node_fits (el_max_backtrack_states limits) nd backtrack")
      case fits: True
      show ?thesis
      proof (cases "perform s nd backtrack")
        case (Continue s' backtrack')
        obtain ins where ins: "get (pg_instructions p) (ms_pc s) = Some ins"
          using nd Continue by (cases "get (pg_instructions p) (ms_pc s)") (auto simp: node_at_def)
        have "instruction_node True ud p input ins s = Inr nd" using nd(1) unfolding node_at_def ins by simp
        then have ex: "exec_instruction ud p input (el_max_backtrack_states limits) ins s backtrack = Inr (Continue s' backtrack')"
          using fits Continue unfolding exec_instruction_node perform_within_def by simp
        have "state_ok p input s'" "list_all (entry_ok p input) backtrack'" using ok Continue by simp_all
        from "1.IH" [OF False ins ex refl this succ "1.prems"(4)] show ?thesis
          using False nd fits Continue by (simp add: run_loop_node [of _ _ _ _ steps] perform_within_def)
      next
        case (Finished m)
        then show ?thesis using False nd fits ok succ
          by (auto simp: run_loop_node [of _ _ _ _ steps] perform_within_def split: option.splits)
      qed
    next
      case False
      then show ?thesis using \<open>\<not> el_max_steps limits \<le> steps\<close> nd succ
        by (simp add: run_loop_node [of _ _ _ _ steps] perform_within_def)
    qed
  qed (use "1.prems" in \<open>simp add: run_loop_node [of _ _ _ _ steps]\<close>)
qed

lemma initial_state_ok: "candidate \<le> length input \<Longrightarrow> state_ok p input (initial_state p candidate)"
  by (simp add: state_ok_def initial_state_def list_all_iff)

lemma execute_loop_ok:
  "program_ok p \<Longrightarrow> candidate \<le> length input \<Longrightarrow> steps \<le> el_max_steps limits \<Longrightarrow>
    (case execute_loop ud p input limits steps candidate of (r, n) \<Rightarrow>
       n \<le> el_max_steps limits \<and> r \<noteq> Inl Exec_Panic \<and> (\<forall>m. r = Inr (Some m) \<longrightarrow> match_ok p input m))"
proof (induction ud p input limits steps candidate rule: execute_loop.induct)
  case (1 ud p input limits steps candidate)
  show ?case
  proof (cases "el_max_steps limits \<le> steps")
    case False
    then have consume: "consume_step steps (el_max_steps limits) = Inr (steps + 1)" by (simp add: consume_step_def)
    have succ: "steps + 1 \<le> el_max_steps limits" using step_measure [OF False] by (simp add: word_le_nat_alt)
    obtain r n where run: "run_candidate ud p input candidate limits (steps + 1) = (r, n)" by force
    have ok: "n \<le> el_max_steps limits" "r \<noteq> Inl Exec_Panic" "\<forall>m. r = Inr (Some m) \<longrightarrow> match_ok p input m"
      using run_loop_ok [OF "1.prems"(1) initial_state_ok [OF "1.prems"(2)] _ succ, of "[]" ud] run by (simp_all add: run_candidate_def)
    show ?thesis
    proof (cases "r = Inr None \<and> \<not> (rf_sticky (pg_flags p) \<or> candidate = length input)")
      case True
      then show ?thesis using "1.IH" [OF consume run [symmetric, unfolded True]] ok "1.prems" advance_index_le run consume
        by (subst execute_loop.simps) (auto split: option.splits)
    next
      case stop: False
      then show ?thesis using ok run consume
        by (subst execute_loop.simps) (auto split: sum.splits option.splits)
    qed
  qed (use "1.prems" in \<open>subst execute_loop.simps, simp add: consume_step_def\<close>)
qed

end
