(* ===== verification/Regexp_Terminal.thy ===== *)
theory Regexp_Terminal
  imports Regexp_Safety
begin

text \<open>
  Repeats at the end of a pattern. A greedy repeat of one token before the end anchor discards the
  alternative of leaving before every iteration; the search with and without these alternatives has
  the same result, provided the token consumes input.
\<close>

section \<open>Tokens that consume input\<close>

text \<open>A class can match the empty string only through one of its strings.\<close>

definition class_consumes :: "character_class \<Rightarrow> bool" where
  "class_consumes class \<longleftrightarrow> [] \<notin> set (cc_strings class)"

fun token_consumes :: "instruction \<Rightarrow> bool" where
  "token_consumes (I_Character _ _) = True"
| "token_consumes (I_Dot _) = True"
| "token_consumes (I_CharacterClass class _) = class_consumes class"
| "token_consumes _ = False"

fun token_positions ::
  "unicode_data \<Rightarrow> u16 list \<Rightarrow> instruction \<Rightarrow> usize \<Rightarrow> direction \<Rightarrow> (exec_error, usize list) result" where
  "token_positions ud input (I_Character v mode) position dir =
     token_position (\<lambda>actual. canonicalize ud actual mode = canonicalize ud v mode) input position (mm_unicode mode) dir"
| "token_positions ud input (I_Dot mode) position dir =
     token_position (\<lambda>actual. mm_dot_all mode \<or> \<not> is_line_terminator actual) input position (mm_unicode mode) dir"
| "token_positions ud input (I_CharacterClass class mode) position dir =
     class_match_positions ud class input position mode dir"
| "token_positions ud input _ position dir = Inr []"

lemma instruction_node_token:
  "token_consumes ins \<Longrightarrow> instruction_node commit ud p input ins s = token_node (token_positions ud input ins (ms_position s) (ms_direction s)) s"
  by (cases ins) (simp_all add: instruction_node_def)

lemma match_string_from_forward:
  "match_string_from ud input mode Forward cs position = Inr (Some n) \<Longrightarrow> position + length cs \<le> n"
proof (induction cs arbitrary: position)
  case (Cons c cs)
  then obtain a k where "decode_at input position (mm_unicode mode) = Some (a, k)" "match_string_from ud input mode Forward cs k = Inr (Some n)"
    by (auto simp: decode_in_direction_def split: option.splits if_splits)
  then show ?case using Cons.IH [of k] decode_at_next [of input position] by fastforce
qed simp

lemma prefixes_from_forward:
  "prefixes_from input unicode Forward k v cursor = Inr ps \<Longrightarrow> list_all (\<lambda>x. cursor < snd x) ps"
proof (induction k arbitrary: v cursor ps)
  case (Suc k)
  show ?case
  proof (cases "decode_at input cursor unicode")
    case None
    then show ?thesis using Suc.prems by (simp add: decode_in_direction_def)
  next
    case (Some found)
    then obtain a n where f: "decode_at input cursor unicode = Some (a, n)" by (cases found) auto
    then obtain rest where rest: "prefixes_from input unicode Forward k (v @ [a]) n = Inr rest" "ps = (v @ [a], n) # rest"
      using Suc.prems by (auto simp: decode_in_direction_def Let_def)
    then show ?thesis using Suc.IH [OF rest(1)] decode_at_next [OF f] by (auto simp: list_all_iff)
  qed
qed simp

lemma string_positions_forward:
  "try_fold (string_position ud class input position mode Forward) strs ns = Inr ns' \<Longrightarrow> [] \<notin> set strs \<Longrightarrow>
     list_all (\<lambda>n. position < n) ns \<Longrightarrow> list_all (\<lambda>n. position < n) ns'"
proof (induction strs arbitrary: ns)
  case (Cons str strs)
  then obtain ns1 where ns1: "string_position ud class input position mode Forward ns str = Inr ns1"
    "try_fold (string_position ud class input position mode Forward) strs ns1 = Inr ns'" by auto
  have "list_all (\<lambda>n. position < n) ns1"
  proof (cases "length str = 1 \<or> \<not> class_contains_sequence ud class str mode")
    case True
    then show ?thesis using ns1(1) Cons.prems(3) by (simp add: string_position_def)
  next
    case False
    then obtain r where r: "match_string_from ud input mode Forward str position = Inr r"
      "ns1 = (case r of None \<Rightarrow> ns | Some n \<Rightarrow> push_new ns n)"
      using ns1(1) by (auto simp: string_position_def match_class_string_def)
    have "position < n" if "r = Some n" for n
      using match_string_from_forward [of ud input mode str position n] r(1) that Cons.prems(2) by (cases str) auto
    then show ?thesis using r(2) Cons.prems(3) by (cases r) (auto intro: push_new_ok)
  qed
  then show ?case using Cons.IH [OF ns1(2)] Cons.prems(2) by simp
qed simp

lemma prefix_positions_forward:
  "list_all (\<lambda>x. position < snd x) ps \<Longrightarrow> list_all (\<lambda>n. position < n) ns \<Longrightarrow>
     list_all (\<lambda>n. position < n) (foldl (prefix_position ud class mode) ns ps)"
  by (induction ps arbitrary: ns) (simp_all add: prefix_position_def push_new_ok)

lemma class_positions_forward:
  assumes "class_consumes class" "class_match_positions ud class input position mode Forward = Inr ns"
  shows "list_all (\<lambda>n. position < n) ns"
proof -
  obtain ns1 where 1: "try_fold (string_position ud class input position mode Forward) (cc_strings class) [] = Inr ns1"
    using assms(2) by (auto simp: class_match_positions_def)
  have ok1: "list_all (\<lambda>n. position < n) ns1"
    using string_positions_forward [OF 1] assms(1) by (simp add: class_consumes_def)
  obtain ns2 where 2: "list_all (\<lambda>n. position < n) ns2"
    "ns = (case decode_at input position (mm_unicode mode) of None \<Rightarrow> ns2
       | Some (v, n) \<Rightarrow> if class_matches ud class v mode then push_new ns2 n else ns2)"
  proof (cases "cc_has_string_properties class")
    case True
    then obtain ps where ps: "prefixes_from input (mm_unicode mode) Forward 16 [] position = Inr ps"
      using assms(2) 1 by (auto simp: class_match_positions_def directional_prefixes_def)
    let ?ns = "foldl (prefix_position ud class mode) ns1 (rev ps)"
    have "list_all (\<lambda>n. position < n) ?ns"
      using prefix_positions_forward [OF _ ok1] prefixes_from_forward [OF ps] by simp
    moreover have "ns = (case decode_at input position (mm_unicode mode) of None \<Rightarrow> ?ns
       | Some (v, n) \<Rightarrow> if class_matches ud class v mode then push_new ?ns n else ?ns)"
      using assms(2) 1 ps True by (simp add: class_match_positions_def directional_prefixes_def decode_in_direction_def)
    ultimately show ?thesis using that by blast
  next
    case False
    then show ?thesis using that [OF ok1] assms(2) 1 by (simp add: class_match_positions_def decode_in_direction_def)
  qed
  then show ?thesis by (auto dest: decode_at_next intro: push_new_ok split: option.splits)
qed

lemma token_positions_forward:
  assumes "token_consumes ins" "position \<le> length input"
  shows "\<exists>ns. token_positions ud input ins position Forward = Inr ns \<and> list_all (\<lambda>n. position < n \<and> n \<le> length input) ns"
proof -
  have single: "\<exists>ns. token_position P input position unicode Forward = Inr ns \<and> list_all (\<lambda>n. position < n \<and> n \<le> length input) ns" for P unicode
    by (auto simp: token_position_def decode_in_direction_def dest: decode_at_next split: option.splits)
  show ?thesis
  proof (cases ins)
    case (I_CharacterClass cls mode)
    obtain ns where ns: "class_match_positions ud cls input position mode Forward = Inr ns" "list_all (\<lambda>n. n \<le> length input) ns"
      using class_match_positions_ok [OF assms(2)] by blast
    then show ?thesis using class_positions_forward [OF _ ns(1)] assms(1) I_CharacterClass by (auto simp: list_all_iff)
  qed (use assms single in simp_all)
qed

section \<open>Leaving a committed repeat\<close>

text \<open>The shape of a repeat the executor commits to, with the token it repeats.\<close>

definition committed_repeat ::
  "program \<Rightarrow> usize \<Rightarrow> usize \<Rightarrow> u64 \<Rightarrow> u64 option \<Rightarrow> usize \<Rightarrow> usize \<Rightarrow> usize \<Rightarrow> instruction \<Rightarrow> bool" where
  "committed_repeat p head slot minimum maximum body exit capture token \<longleftrightarrow>
     get (pg_instructions p) head = Some (I_Repeat slot minimum maximum True body exit capture capture) \<and>
     terminal_repeat p slot body exit capture capture \<noteq> None \<and>
     get (pg_instructions p) body = Some token \<and> token_consumes token \<and>
     get (pg_instructions p) (body + 1) = Some (I_RepeatEnd slot head)"

lemma committed_repeat_exit:
  assumes "committed_repeat p head slot minimum maximum body exit capture token"
  shows "terminal_repeat p slot body exit capture capture = Some \<lparr>tm_slot = slot, tm_body = body, tm_exit = exit\<rparr>"
    "\<exists>mode. get (pg_instructions p) exit = Some (I_Boundary Boundary_End mode) \<and> \<not> mm_multiline mode"
    "get (pg_instructions p) (exit + 1) = Some (I_SaveEnd 0)" "get (pg_instructions p) (exit + 2) = Some I_Match"
  using assms unfolding committed_repeat_def terminal_repeat_def
  by (auto split: if_splits option.splits instruction.splits boundary_kind.splits)

definition exit_result :: "u16 list \<Rightarrow> capture_slot list \<Rightarrow> usize \<Rightarrow> search_result" where
  "exit_result input captures position =
     (if position \<noteq> length input then Fails
      else Ends (Some \<lparr>rm_captures = map capture_range (captures[0 :=
        \<lparr>cs_start = (case cs_start (captures ! 0) of None \<Rightarrow> Some position | Some a \<Rightarrow> Some a), cs_end = Some position\<rparr>])\<rparr>))"

lemma tries_single [simp]: "tries commit ud p input [s] r \<longleftrightarrow> search commit ud p input s r"
  by (cases r) (auto simp: tries_Cons)

lemma node_at_get:
  "get (pg_instructions p) (ms_pc s) = Some ins \<Longrightarrow> node_at commit ud p input s = instruction_node commit ud p input ins s"
  by (simp add: node_at_def del: get_eq_Some)

lemma exit_search:
  assumes c: "committed_repeat p head slot minimum maximum body exit capture token" and p: "program_ok p"
    and u: "state_ok p input u" "ms_pc u = exit" "ms_direction u = Forward"
  shows "search commit ud p input u (exit_result input (ms_captures u) (ms_position u))"
proof -
  obtain mode where mode: "get (pg_instructions p) exit = Some (I_Boundary Boundary_End mode)" "\<not> mm_multiline mode"
    using committed_repeat_exit(2) [OF c] by blast
  let ?u1 = "u\<lparr>ms_pc := exit + 1\<rparr>"
  have n0: "node_at commit ud p input u = Inr (if ms_position u = length input then Choices ?u1 [] else Dead)"
    unfolding node_at_def u(2) mode(1) using mode(2) u(2) by (simp add: instruction_node_def boundary_matches_def)
  show ?thesis
  proof (cases "ms_position u = length input")
    case True
    have "instruction_ok p (I_SaveEnd 0)"
      using p committed_repeat_exit(3) [OF c] by (auto simp: program_ok_def list_all_length)
    then have zero: "0 < length (ms_captures u)" using u(1) by (simp add: instruction_ok_def state_ok_def)
    let ?c = "\<lparr>cs_start = (case cs_start (ms_captures u ! 0) of None \<Rightarrow> Some (ms_position u) | Some a \<Rightarrow> Some a),
      cs_end = Some (ms_position u)\<rparr>"
    let ?u2 = "u\<lparr>ms_captures := (ms_captures u)[0 := ?c], ms_pc := exit + 2\<rparr>"
    have get0: "get (ms_captures u) 0 = Some (ms_captures u ! 0)" using zero by (simp add: get_def)
    have n1: "node_at commit ud p input ?u1 = Inr (Choices ?u2 [])"
      using node_at_get [of p ?u1 _ commit ud input] committed_repeat_exit(3) [OF c] u(3)
      by (simp add: instruction_node_def exec_save_end_def get0 del: get_eq_Some cong: option.case_cong)
    have n2: "node_at commit ud p input ?u2 = Inr (Stop (Some \<lparr>rm_captures = map capture_range ((ms_captures u)[0 := ?c])\<rparr>))"
      using node_at_get [of p ?u2 _ commit ud input] committed_repeat_exit(4) [OF c] by (simp add: instruction_node_def del: get_eq_Some)
    have "search commit ud p input ?u2 (exit_result input (ms_captures u) (ms_position u))"
    proof -
      have "exit_result input (ms_captures u) (ms_position u) =
          Ends (Some \<lparr>rm_captures = map capture_range ((ms_captures u)[0 := ?c])\<rparr>)"
        unfolding exit_result_def by (rule if_not_P) (use True in simp)
      then show ?thesis using search_stop [OF n2] by simp
    qed
    then have "search commit ud p input ?u1 (exit_result input (ms_captures u) (ms_position u))"
      using search_at_choices [OF n1] by simp
    then show ?thesis using search_at_choices [of commit ud p input u ?u1 "[]"] n0 True by simp
  next
    case False
    then show ?thesis using n0 search_dead by (simp add: exit_result_def)
  qed
qed

section \<open>Equivalence\<close>

definition agree :: "unicode_data \<Rightarrow> program \<Rightarrow> u16 list \<Rightarrow> exec_state \<Rightarrow> exec_state \<Rightarrow> bool" where
  "agree ud p input s t \<longleftrightarrow> (\<exists>r. search False ud p input s r \<and> search True ud p input t r)"

lemma agree_tries:
  "list_all2 (agree ud p input) ss ts \<Longrightarrow> \<exists>r. tries False ud p input ss r \<and> tries True ud p input ts r"
proof (induction rule: list_all2_induct)
  case (Cons s ss t ts)
  then obtain r q where r: "search False ud p input s r" "search True ud p input t r"
    and q: "tries False ud p input ss q" "tries True ud p input ts q" by (auto simp: agree_def)
  show ?case
  proof (cases "r = Fails")
    case True
    then show ?thesis using r q tries_next by blast
  next
    case False
    then show ?thesis using r tries_found by blast
  qed
qed simp

lemma agree_step:
  assumes "node_at False ud p input s = Inr (Choices s1 ss)" "node_at True ud p input t = Inr (Choices t1 ts)"
    "list_all2 (agree ud p input) (s1 # ss) (t1 # ts)"
  shows "agree ud p input s t"
  using agree_tries [OF assms(3)] search_at_choices [OF assms(1)] search_at_choices [OF assms(2)]
  by (auto simp: agree_def)

lemma saturating_add_ge: "m \<le> c \<Longrightarrow> m \<le> saturating_add c 1" for m c :: u64
proof (cases "unat c + 1 < 2 ^ 64")
  case True
  then have "unat (c + 1) = unat c + 1" by (simp add: unat_word_ariths)
  then show "m \<le> c \<Longrightarrow> m \<le> saturating_add c 1" using True by (simp add: saturating_add_def checked_add_def word_le_nat_alt)
qed (simp add: saturating_add_def checked_add_def)

text \<open>The states before an iteration, with and without the commitment.\<close>

definition may_commit :: "usize \<Rightarrow> u64 \<Rightarrow> usize \<Rightarrow> usize \<Rightarrow> exec_state \<Rightarrow> terminal_commitment option \<Rightarrow> bool" where
  "may_commit slot minimum body exit s T \<longleftrightarrow>
     T = None \<or> T = Some \<lparr>tm_slot = slot, tm_body = body, tm_exit = exit\<rparr> \<and>
     rp_active (ms_repeats s ! slot) \<and> minimum \<le> rp_count (ms_repeats s ! slot)"

definition at_state :: "program \<Rightarrow> u16 list \<Rightarrow> usize \<Rightarrow> exec_state \<Rightarrow> bool" where
  "at_state p input pc s \<longleftrightarrow> state_ok p input s \<and> ms_pc s = pc \<and> ms_direction s = Forward \<and> ms_terminal s = None"

lemma repeat_end_agree:
  assumes c: "committed_repeat p head slot minimum maximum body exit capture token" and p: "program_ok p"
    and s: "at_state p input (body + 1) s" "may_commit slot minimum body exit s T"
    and heads: "\<And>t. at_state p input head t \<Longrightarrow> ms_position t = ms_position s \<Longrightarrow> may_commit slot minimum body exit t T \<Longrightarrow>
      agree ud p input t (t\<lparr>ms_terminal := T\<rparr>)"
  shows "agree ud p input s (s\<lparr>ms_terminal := T\<rparr>)"
proof -
  let ?r = "ms_repeats s ! slot"
  let ?t = "s\<lparr>ms_repeats := (ms_repeats s)[slot := ?r\<lparr>rp_count := saturating_add (rp_count ?r) 1\<rparr>], ms_pc := head\<rparr>"
  have ins: "get (pg_instructions p) (body + 1) = Some (I_RepeatEnd slot head)" using c by (simp add: committed_repeat_def)
  then have "slot < pg_repeat_count p" using p by (auto simp: program_ok_def list_all_length instruction_ok_def)
  then have slot: "slot < length (ms_repeats s)" using s(1) by (simp add: at_state_def state_ok_def)
  have node: "node_at commit ud p input (s\<lparr>ms_terminal := T'\<rparr>) = Inr (Choices (?t\<lparr>ms_terminal := T'\<rparr>) [])" for commit T'
    using s(1) slot ins by (simp add: node_at_def at_state_def instruction_node_def get_def split: if_splits)
  have "at_state p input head ?t" using s(1) by (simp add: at_state_def state_ok_def)
  moreover have "may_commit slot minimum body exit ?t T"
    using s(2) slot saturating_add_ge by (auto simp: may_commit_def)
  ultimately have "agree ud p input ?t (?t\<lparr>ms_terminal := T\<rparr>)" by (intro heads) simp_all
  moreover have "s\<lparr>ms_terminal := None\<rparr> = s" "?t\<lparr>ms_terminal := None\<rparr> = ?t" using s(1) by (simp_all add: at_state_def)
  ultimately show ?thesis using agree_step [OF node [of False None] node [of True T]] by simp
qed

lemma body_agree:
  assumes c: "committed_repeat p head slot minimum maximum body exit capture token" and p: "program_ok p"
    and s: "at_state p input body s" "may_commit slot minimum body exit s T"
    and heads: "\<And>t. at_state p input head t \<Longrightarrow> ms_position s < ms_position t \<Longrightarrow> may_commit slot minimum body exit t T \<Longrightarrow>
      agree ud p input t (t\<lparr>ms_terminal := T\<rparr>)"
  obtains (empty) "search False ud p input s Fails"
      "search True ud p input (s\<lparr>ms_terminal := T\<rparr>)
         (if T = None then Fails else exit_result input (ms_captures s) (ms_position s))"
    | (matched) "ms_position s < length input" "agree ud p input s (s\<lparr>ms_terminal := T\<rparr>)"
proof -
  have ins: "get (pg_instructions p) body = Some token" and tok: "token_consumes token" using c by (simp_all add: committed_repeat_def)
  have st: "state_ok p input s" "ms_pc s = body" "ms_direction s = Forward" "ms_terminal s = None" using s(1) by (simp_all add: at_state_def)
  obtain ns where ns: "token_positions ud input token (ms_position s) Forward = Inr ns"
    "list_all (\<lambda>n. ms_position s < n \<and> n \<le> length input) ns"
    using token_positions_forward [OF tok, of "ms_position s" input ud] st(1) by (auto simp: state_ok_def)
  have node: "node_at commit ud p input (s\<lparr>ms_terminal := T'\<rparr>) = token_node (Inr ns) (s\<lparr>ms_terminal := T'\<rparr>)" for commit T'
    using node_at_get [of p "s\<lparr>ms_terminal := T'\<rparr>" token commit ud input] ins st ns(1)
      instruction_node_token [OF tok, of commit ud p input "s\<lparr>ms_terminal := T'\<rparr>"] by simp
  have same: "s\<lparr>ms_terminal := None\<rparr> = s" using st(4) by simp
  show thesis
  proof (cases ns)
    case Nil
    have dead: "node_at commit ud p input s = Inr Dead" for commit
      using node [of commit None, unfolded same] Nil st(4) by (simp add: token_node_def recover_terminal_repeat_def)
    have "search True ud p input (s\<lparr>ms_terminal := T\<rparr>) (exit_result input (ms_captures s) (ms_position s))" if "T \<noteq> None"
    proof -
      have T: "T = Some \<lparr>tm_slot = slot, tm_body = body, tm_exit = exit\<rparr>" using that s(2) by (auto simp: may_commit_def)
      have "get (pg_instructions p) head = Some (I_Repeat slot minimum maximum True body exit capture capture)"
        using c by (simp add: committed_repeat_def)
      then have "slot < pg_repeat_count p" using p by (auto simp: program_ok_def list_all_length instruction_ok_def)
      then have slot: "get (ms_repeats s) slot = Some (ms_repeats s ! slot)" using st(1) by (simp add: state_ok_def get_def)
      let ?u = "s\<lparr>ms_repeats := (ms_repeats s)[slot := (ms_repeats s ! slot)\<lparr>rp_active := False\<rparr>], ms_pc := exit\<rparr>"
      have "recover_terminal_repeat (s\<lparr>ms_terminal := T\<rparr>) = Some ?u"
        unfolding recover_terminal_repeat_def using T st slot by simp
      then have n: "node_at True ud p input (s\<lparr>ms_terminal := T\<rparr>) = Inr (Choices ?u [])"
        using node [of True T] Nil by (simp add: token_node_def)
      have "state_ok p input ?u" using st(1) by (simp add: state_ok_def)
      then show ?thesis using exit_search [OF c p, of input ?u True ud] st search_at_choices [OF n] by simp
    qed
    then show thesis using empty search_dead [OF dead] same by (cases T) auto
  next
    case (Cons n rest)
    let ?after = "\<lambda>n. s\<lparr>ms_position := n, ms_pc := body + 1\<rparr>"
    have node': "node_at commit ud p input (s\<lparr>ms_terminal := T'\<rparr>) =
        Inr (Choices (?after n\<lparr>ms_terminal := T'\<rparr>) (map (\<lambda>n. ?after n\<lparr>ms_terminal := T'\<rparr>) rest))" for commit T'
      using node [of commit T'] Cons st(2) by (simp add: token_node_def Let_def)
    have "agree ud p input (?after k) (?after k\<lparr>ms_terminal := T\<rparr>)" if "k \<in> set ns" for k
    proof (rule repeat_end_agree [OF c p])
      have k: "ms_position s < k" "k \<le> length input" using ns(2) that by (auto simp: list_all_iff)
      show "at_state p input (body + 1) (?after k)" using st k by (simp add: at_state_def state_ok_update)
      show "may_commit slot minimum body exit (?after k) T" using s(2) by (simp add: may_commit_def)
      show "agree ud p input t (t\<lparr>ms_terminal := T\<rparr>)"
        if "at_state p input head t" "ms_position t = ms_position (?after k)" "may_commit slot minimum body exit t T" for t
        using heads [OF that(1) _ that(3)] that(2) k by simp
    qed
    then have all: "list_all2 (agree ud p input) (map ?after ns) (map (\<lambda>k. ?after k\<lparr>ms_terminal := T\<rparr>) ns)"
      by (simp add: list_all2_conv_all_nth)
    have none: "?after k\<lparr>ms_terminal := None\<rparr> = ?after k" for k using st(4) by simp
    have "agree ud p input s (s\<lparr>ms_terminal := T\<rparr>)"
      using agree_step [OF node' [of False None] node' [of True T]] all Cons unfolding none same by simp
    moreover have "ms_position s < length input" using ns(2) Cons by simp
    ultimately show thesis using matched by blast
  qed
qed

lemma head_node:
  assumes c: "committed_repeat p head slot minimum maximum body exit capture token"
    and s: "at_state p input head s" "slot < length (ms_repeats s)"
  shows "node_at commit ud p input (s\<lparr>ms_terminal := T\<rparr>) =
    repeat_node commit p slot minimum maximum True body exit capture capture (s\<lparr>ms_terminal := T\<rparr>)"
  using node_at_get [of p "s\<lparr>ms_terminal := T\<rparr>" _ commit ud input] c s(1)
  by (simp add: committed_repeat_def at_state_def instruction_node_def)

lemma enter_repeat_terminal: "enter_repeat slot (s\<lparr>ms_terminal := T\<rparr>) = (enter_repeat slot s)\<lparr>ms_terminal := T\<rparr>"
  by (simp add: enter_repeat_def)

lemma exit_repeat_terminal: "exit_repeat slot exit (s\<lparr>ms_terminal := T\<rparr>) = (exit_repeat slot exit s)\<lparr>ms_terminal := T\<rparr>"
  by (simp add: exit_repeat_def)

text \<open>The node of a repeat whose captures are not reset, one case per way the source decides.\<close>

definition again_state :: "usize \<Rightarrow> usize \<Rightarrow> bool \<Rightarrow> exec_state \<Rightarrow> exec_state" where
  "again_state slot body optional e =
     e\<lparr>ms_repeats := (ms_repeats e)[slot := (ms_repeats e ! slot)\<lparr>rp_iteration_start := Some (ms_position e),
         rp_optional_attempted := rp_optional_attempted (ms_repeats e ! slot) \<or> optional\<rparr>], ms_pc := body\<rparr>"

lemma update_order:
  "r\<lparr>rp_optional_attempted := b, rp_iteration_start := x\<rparr> = r\<lparr>rp_iteration_start := x, rp_optional_attempted := b\<rparr>"
  "e\<lparr>ms_terminal := T, ms_repeats := rs, ms_pc := k\<rparr> = e\<lparr>ms_repeats := rs, ms_pc := k, ms_terminal := T\<rparr>"
  by (cases r, simp) (cases e, simp)

lemma repeat_node_cases:
  assumes slot: "slot < length (ms_repeats s)"
  defines "e \<equiv> enter_repeat slot s"
  obtains (stuck) "\<And>commit T. repeat_node commit p slot minimum maximum True body exit capture capture (s\<lparr>ms_terminal := T\<rparr>) = Inr Dead"
    | (leave) "\<And>commit T. repeat_node commit p slot minimum maximum True body exit capture capture (s\<lparr>ms_terminal := T\<rparr>) =
        Inr (Choices (clear_terminal_repeat slot ((exit_repeat slot exit e)\<lparr>ms_terminal := T\<rparr>)) [])"
    | (mandatory) "rp_count (ms_repeats e ! slot) < minimum"
        "\<And>commit T. repeat_node commit p slot minimum maximum True body exit capture capture (s\<lparr>ms_terminal := T\<rparr>) =
        Inr (Choices ((again_state slot body False e)\<lparr>ms_terminal := T\<rparr>) [])"
    | (optional) "minimum \<le> rp_count (ms_repeats e ! slot)"
        "\<And>commit T. repeat_node commit p slot minimum maximum True body exit capture capture (s\<lparr>ms_terminal := T\<rparr>) =
        Inr (let again = (again_state slot body True e)\<lparr>ms_terminal := T\<rparr>; out = (exit_repeat slot exit e)\<lparr>ms_terminal := T\<rparr>
             in case (if commit then terminal_repeat p slot body exit capture capture else None) of
                  Some terminal \<Rightarrow> Choices (again\<lparr>ms_terminal := Some terminal\<rparr>) []
                | None \<Rightarrow> Choices again [out])"
proof -
  let ?r = "ms_repeats e ! slot"
  have len: "slot < length (ms_repeats e)" using slot by (simp add: e_def enter_repeat_def)
  have start: "start_iteration slot body capture capture (e\<lparr>ms_terminal := T\<rparr>) = Inr ((again_state slot body False e)\<lparr>ms_terminal := T\<rparr>)" for T
    using len by (simp add: start_iteration_def get_def again_state_def)
  have start': "start_iteration slot body capture capture
      (e\<lparr>ms_terminal := T, ms_repeats := (ms_repeats e)[slot := ?r\<lparr>rp_optional_attempted := True\<rparr>]\<rparr>) =
      Inr ((again_state slot body True e)\<lparr>ms_terminal := T\<rparr>)" for T
    using len by (simp add: start_iteration_def get_def again_state_def update_order)
  note unfold = repeat_node_def enter_repeat_terminal exit_repeat_terminal Let_def e_def [symmetric]
  show thesis
  proof (cases "minimum \<le> rp_count ?r \<and> 0 < rp_count ?r \<and> rp_iteration_start ?r = Some (ms_position e)")
    case True
    show thesis
    proof (cases "rp_optional_attempted ?r")
      case attempted: True
      show thesis by (rule stuck) (use True attempted slot in \<open>simp add: unfold cong: option.case_cong\<close>)
    next
      case fresh: False
      show thesis by (rule leave) (use True fresh slot in \<open>simp add: unfold cong: option.case_cong\<close>)
    qed
  next
    case no_progress: False
    show thesis
    proof (cases "case maximum of None \<Rightarrow> False | Some m \<Rightarrow> m \<le> rp_count ?r")
      case True
      show thesis by (rule leave) (use True no_progress slot in \<open>simp add: unfold cong: option.case_cong\<close>)
    next
      case below: False
      show thesis
      proof (cases "rp_count ?r < minimum")
        case True
        show thesis by (rule mandatory [OF True]) (use True below no_progress slot start in \<open>auto simp: unfold cong: option.case_cong\<close>)
      next
        case False
        then have "minimum \<le> rp_count ?r" by simp
        then show thesis by (rule optional) (use False below no_progress slot start' in \<open>auto simp: unfold cong: option.case_cong\<close>)
      qed
    qed
  qed
qed

lemma terminal_repeat_agree:
  assumes c: "committed_repeat p head slot minimum maximum body exit capture token" and p: "program_ok p"
  shows "at_state p input head s \<Longrightarrow> may_commit slot minimum body exit s T \<Longrightarrow> agree ud p input s (s\<lparr>ms_terminal := T\<rparr>)"
proof (induction "length input - ms_position s" arbitrary: s T rule: less_induct)
  case less
  note s = less.prems(1)
  have st: "state_ok p input s" "ms_direction s = Forward" "ms_terminal s = None" using s by (simp_all add: at_state_def)
  have "get (pg_instructions p) head = Some (I_Repeat slot minimum maximum True body exit capture capture)"
    using c by (simp add: committed_repeat_def)
  then have "slot < pg_repeat_count p" using p by (auto simp: program_ok_def list_all_length instruction_ok_def)
  then have slot: "slot < length (ms_repeats s)" using st(1) by (simp add: state_ok_def)
  let ?e = "enter_repeat slot s" and ?t = "Some \<lparr>tm_slot = slot, tm_body = body, tm_exit = exit\<rparr>"
  let ?out = "exit_repeat slot exit ?e"
  have same: "s\<lparr>ms_terminal := None\<rparr> = s" using st(3) by simp
  note node = head_node [OF c s slot]
  have e: "state_ok p input ?e" "ms_direction ?e = Forward" "ms_terminal ?e = None" "ms_position ?e = ms_position s"
    "ms_captures ?e = ms_captures s" using st by (auto simp: enter_repeat_def state_ok_def)
  have out: "state_ok p input ?out" "ms_pc ?out = exit" "ms_direction ?out = Forward" "ms_terminal ?out = None"
    "ms_captures ?out = ms_captures s" "ms_position ?out = ms_position s"
    using e by (simp_all add: exit_repeat_def state_ok_def)
  note exit_out = exit_search [OF c p out(1,2,3), unfolded out(5,6)]
  have again: "at_state p input body (again_state slot body b ?e)" "ms_position (again_state slot body b ?e) = ms_position s"
    "ms_captures (again_state slot body b ?e) = ms_captures s" "ms_terminal (again_state slot body b ?e) = None" for b
    using e by (simp_all add: again_state_def at_state_def state_ok_def)
  have heads: "agree ud p input t (t\<lparr>ms_terminal := T'\<rparr>)"
    if "at_state p input head t" "ms_position s < ms_position t" "may_commit slot minimum body exit t T'" for t T'
    using that less.hyps [of t T'] by (auto simp: at_state_def state_ok_def)
  from slot show ?case
  proof (cases rule: repeat_node_cases [of slot s p minimum maximum body exit capture])
    case stuck
    have "node_at commit ud p input (s\<lparr>ms_terminal := T'\<rparr>) = Inr Dead" for commit T' using node stuck by simp
    from search_dead [OF this] show ?thesis using same by (metis agree_def)
  next
    case leave
    have "clear_terminal_repeat slot (?out\<lparr>ms_terminal := T'\<rparr>) = ?out" if "T' = None \<or> T' = ?t" for T'
      using that out(4) by (auto simp: clear_terminal_repeat_def)
    then have n: "node_at commit ud p input (s\<lparr>ms_terminal := T'\<rparr>) = Inr (Choices ?out [])" if "T' = None \<or> T' = ?t" for commit T'
      using node [of commit ud T'] leave [of commit T'] that by simp
    have "agree ud p input ?out ?out" using exit_out unfolding agree_def by blast
    then show ?thesis using agree_step [OF n [of None False] n [of T True]] less.prems(2) same by (auto simp: may_commit_def)
  next
    case mandatory
    then have T: "T = None" using less.prems(2) by (auto simp: may_commit_def enter_repeat_def)
    have none: "(again_state slot body False ?e)\<lparr>ms_terminal := None\<rparr> = again_state slot body False ?e" using again(4) by simp
    have n: "node_at commit ud p input s = Inr (Choices (again_state slot body False ?e) [])" for commit
      using node [of commit ud None, unfolded same] mandatory(2) [of commit None, unfolded same] none by simp
    have "agree ud p input (again_state slot body False ?e) (again_state slot body False ?e)"
    proof (rule body_agree [OF c p again(1), of False None ud, unfolded none])
      show "may_commit slot minimum body exit (again_state slot body False ?e) None" by (simp add: may_commit_def)
    qed (use heads again(2) in \<open>auto simp: agree_def\<close>)
    then show ?thesis using agree_step [OF n n] T same by simp
  next
    case optional
    let ?a = "again_state slot body True ?e"
    have none: "?a\<lparr>ms_terminal := None\<rparr> = ?a" "?out\<lparr>ms_terminal := None\<rparr> = ?out" using again(4) out(4) by simp_all
    have plain: "node_at False ud p input s = Inr (Choices ?a [?out])"
      using node [of False ud None, unfolded same] optional(2) [of False None, unfolded same] none by (simp add: Let_def)
    have code: "node_at True ud p input (s\<lparr>ms_terminal := T\<rparr>) = Inr (Choices (?a\<lparr>ms_terminal := ?t\<rparr>) [])"
      using node [of True ud T] optional(2) [of True T] committed_repeat_exit(1) [OF c] by (simp add: Let_def)
    have active: "rp_active (ms_repeats ?e ! slot)" using slot by (simp add: enter_repeat_def)
    have len: "slot < length (ms_repeats ?e)" using slot by (simp add: enter_repeat_def)
    have commit: "may_commit slot minimum body exit ?a ?t"
      using active optional(1) len by (simp add: may_commit_def again_state_def)
    show ?thesis
    proof (rule body_agree [OF c p again(1) commit, of ud])
      show "agree ud p input t (t\<lparr>ms_terminal := ?t\<rparr>)"
        if "at_state p input head t" "ms_position ?a < ms_position t" "may_commit slot minimum body exit t ?t" for t
        using heads that again(2) by simp
    next
      assume a: "search False ud p input ?a Fails"
        "search True ud p input (?a\<lparr>ms_terminal := ?t\<rparr>) (if ?t = None then Fails else exit_result input (ms_captures ?a) (ms_position ?a))"
      have "tries False ud p input [?a, ?out] (exit_result input (ms_captures s) (ms_position s))"
        using a(1) exit_out [of False ud] tries_next by simp
      then show ?thesis using a(2) search_at_choices [OF plain] search_at_choices [OF code] again(2,3) unfolding agree_def by auto
    next
      assume a: "ms_position ?a < length input" "agree ud p input ?a (?a\<lparr>ms_terminal := ?t\<rparr>)"
      then obtain r where r: "search False ud p input ?a r" "search True ud p input (?a\<lparr>ms_terminal := ?t\<rparr>) r" by (auto simp: agree_def)
      have "search False ud p input ?out Fails" using exit_out [of False ud] a(1) again(2) by (simp add: exit_result_def)
      then have "tries False ud p input [?a, ?out] r" using r(1) tries_next tries_found by (cases "r = Fails") auto
      then show ?thesis using r(2) search_at_choices [OF plain] search_at_choices [OF code] unfolding agree_def by auto
    qed
  qed
qed

end
