(* ===== verification/Regexp_Guarantees.thy ===== *)
theory Regexp_Guarantees
  imports Regexp_Terminal
begin

text \<open>
  Guarantees of the regular expression executor: what an execution answers, that it answers when its
  limits allow, that it stays inside its input and limits, and that repeats at the end of a pattern
  may commit.
\<close>

section \<open>Candidates\<close>

text \<open>
  The match of the first candidate position that has one; candidates advance by code units, in Unicode
  mode by code points, up to the end of the input, and a sticky expression has only the first.
\<close>

inductive first_match :: "unicode_data \<Rightarrow> program \<Rightarrow> u16 list \<Rightarrow> usize \<Rightarrow> regexp_match option \<Rightarrow> bool"
  for ud :: unicode_data and p :: program and input :: "u16 list" where
  first_found: "search True ud p input (initial_state p candidate) r \<Longrightarrow> answer r = Some m \<Longrightarrow>
    first_match ud p input candidate (Some m)"
| first_none: "search True ud p input (initial_state p candidate) r \<Longrightarrow> answer r = None \<Longrightarrow>
    rf_sticky (pg_flags p) \<or> candidate = length input \<Longrightarrow> first_match ud p input candidate None"
| first_later: "search True ud p input (initial_state p candidate) r \<Longrightarrow> answer r = None \<Longrightarrow>
    \<not> (rf_sticky (pg_flags p) \<or> candidate = length input) \<Longrightarrow>
    first_match ud p input (advance_index input candidate (unicode_mode (pg_flags p))) result \<Longrightarrow>
    first_match ud p input candidate result"

inductive_cases first_matchE: "first_match ud p input candidate result"

lemma first_match_at:
  assumes "search True ud p input (initial_state p candidate) r"
  shows "first_match ud p input candidate result \<longleftrightarrow>
    (case answer r of
       Some m \<Rightarrow> result = Some m
     | None \<Rightarrow> if rf_sticky (pg_flags p) \<or> candidate = length input then result = None
               else first_match ud p input (advance_index input candidate (unicode_mode (pg_flags p))) result)"
    (is "?l \<longleftrightarrow> ?r")
proof
  assume ?l
  then show ?r
  proof cases
    case (first_found q m)
    then show ?thesis using search_unique [OF assms, of q] by simp
  next
    case (first_none q)
    then show ?thesis using search_unique [OF assms, of q] by simp
  next
    case (first_later q)
    then show ?thesis using search_unique [OF assms, of q] by simp
  qed
next
  assume ?r
  then show ?l using assms by (auto intro: first_match.intros split: option.splits if_splits)
qed

lemma first_match_unique:
  "first_match ud p input candidate result \<Longrightarrow> \<forall>result'. first_match ud p input candidate result' \<longrightarrow> result' = result"
proof (induction rule: first_match.induct)
  case (first_later candidate r result)
  then have "first_match ud p input candidate q \<longleftrightarrow>
      first_match ud p input (advance_index input candidate (unicode_mode (pg_flags p))) q" for q
    using first_match_at [OF first_later.hyps(1), of q] by simp
  then show ?case using first_later.IH by blast
qed (simp_all add: first_match_at)

lemma run_candidate_search:
  assumes "run_candidate ud p input candidate limits steps = (Inr m, n)"
  shows "\<exists>r. search True ud p input (initial_state p candidate) r \<and> answer r = m"
  using run_loop_runs [OF assms [unfolded run_candidate_def]] runs_search [of ud p input _ "initial_state p candidate" "[]" m]
  by (auto simp: unwinds_answer)


lemma execute_loop_first_match:
  "execute_loop ud p input limits steps candidate = (Inr result, n) \<Longrightarrow> first_match ud p input candidate result"
proof (induction ud p input limits steps candidate arbitrary: n rule: execute_loop.induct)
  case (1 ud p input limits steps candidate)
  obtain steps' where consume: "consume_step steps (el_max_steps limits) = Inr steps'"
    using "1.prems" by (subst (asm) execute_loop.simps) (auto split: sum.splits)
  obtain q k where run: "run_candidate ud p input candidate limits steps' = (q, k)" by force
  have "\<exists>m. q = Inr m" using "1.prems" consume run by (subst (asm) execute_loop.simps) (auto split: sum.splits)
  then obtain m where q: "q = Inr m" by blast
  obtain r where r: "search True ud p input (initial_state p candidate) r" "answer r = m"
    using run_candidate_search run q by blast
  show ?case
  proof (cases m)
    case None
    show ?thesis
    proof (cases "rf_sticky (pg_flags p) \<or> candidate = length input")
      case True
      then show ?thesis using "1.prems" consume run q None r by (subst (asm) execute_loop.simps) (auto intro: first_none)
    next
      case False
      then have "execute_loop ud p input limits k (advance_index input candidate (unicode_mode (pg_flags p))) = (Inr result, n)"
        using "1.prems" consume run q None by (subst (asm) execute_loop.simps) auto
      from "1.IH" [OF consume run [symmetric, unfolded q None] refl refl False this] show ?thesis
        using r None False by (auto intro: first_later)
    qed
  next
    case (Some m')
    then have "result = Some m'" using "1.prems" consume run q by (subst (asm) execute_loop.simps) auto
    then show ?thesis using first_found [OF r(1)] r(2) Some by simp
  qed
qed




section \<open>Sample programs\<close>

text \<open>ASCII case mappings and no other Unicode data are enough for the samples.\<close>

definition ascii_uppercase :: "u32 \<Rightarrow> u32" where
  "ascii_uppercase v = (if 0x61 \<le> v \<and> v \<le> 0x7a then v - 0x20 else v)"

definition ascii_data :: unicode_data where
  "ascii_data = \<lparr>ud_simple_fold = ascii_uppercase, ud_simple_lowercase = (\<lambda>v. v), ud_simple_uppercase = ascii_uppercase,
     ud_simple_titlecase = ascii_uppercase, ud_set_contains = (\<lambda>_ _. False), ud_basic_emoji = (\<lambda>_. False),
     ud_emoji_modifier_base = (\<lambda>_. False), ud_emojis_get = (\<lambda>_. None)\<rparr>"

definition sample_flags :: regexp_flags where
  "sample_flags = \<lparr>rf_has_indices = False, rf_global = False, rf_ignore_case = False, rf_multiline = False, rf_dot_all = False,
     rf_unicode = False, rf_unicode_sets = False, rf_sticky = False\<rparr>"

definition sample_program :: "instruction list \<Rightarrow> program" where
  "sample_program body = \<lparr>pg_instructions = body, pg_capture_count = 1, pg_capture_names = [None], pg_repeat_count = 1,
     pg_flags = sample_flags\<rparr>"

abbreviation sample_mode :: match_mode where
  "sample_mode \<equiv> initial_mode sample_flags"

definition sample_limits :: exec_limits where
  "sample_limits = \<lparr>el_max_steps = 1000, el_max_backtrack_states = 100\<rparr>"

text \<open>\<^verbatim>\<open>a*$\<close> as the compiler emits it, run on \<^verbatim>\<open>a\<close>.\<close>

definition run_of_a :: program where
  "run_of_a = sample_program
     [I_SaveStart 0, I_Repeat 0 0 None True 2 4 0 0, I_Character 0x61 sample_mode, I_RepeatEnd 0 1,
      I_Boundary Boundary_End sample_mode, I_SaveEnd 0, I_Match]"

lemma run_of_a_ok: "program_ok run_of_a"
  by code_simp

lemma run_of_a_runs:
  "execute_counted ascii_data run_of_a [0x61] 0 sample_limits = (Inr (Some \<lparr>rm_captures = [Some (0, 1)]\<rparr>), 10)"
  by code_simp


section \<open>Guarantees\<close>

text \<open>
  C4. Exactness of an execution. Whatever the executor answers within its limits, a match or none, is
  the answer of the search without a backtracking stack at the first candidate position that has a
  match: alternatives in order, assertions as searches of their own that give up their position and
  keep their captures only when positive. No other answer is possible for that input and start.
\<close>

theorem regexp_execution_exact:
  assumes "execute_counted ud p input start_index limits = (Inr result, steps)"
  shows "if start_index \<le> length input
    then first_match ud p input start_index result \<and> (\<forall>other. other = result \<or> \<not> first_match ud p input start_index other)
    else result = None"
proof (cases "start_index \<le> length input")
  case True
  then have "first_match ud p input start_index result"
    using assms execute_loop_first_match by (simp add: execute_counted_def regexp_execute_def)
  then show ?thesis using True first_match_unique by auto
qed (use assms in \<open>simp add: execute_counted_def regexp_execute_def\<close>)

theorem regexp_execution_exact_witness:
  "first_match ascii_data run_of_a [0x61] 0 (Some \<lparr>rm_captures = [Some (0, 1)]\<rparr>)"
  using regexp_execution_exact [OF run_of_a_runs] by simp



text \<open>
  C25. Executions stay in bounds. For a program that names only captures and repeats it has, no access
  leaves the input, the captures or the repeats, whatever the pattern, the input and the Unicode data;
  the steps never pass their limit; and a match has one entry per capture, each inside the input.
\<close>

theorem regexp_execution_safe:
  assumes "program_ok p" and "execute_counted ud p input start_index limits = (outcome, steps)"
  shows "outcome \<noteq> Inl Exec_Panic \<and> steps \<le> el_max_steps limits \<and>
    (\<forall>m. outcome \<noteq> Inr (Some m) \<or> match_ok p input m)"
  using assms execute_loop_ok [of p start_index input 0 limits ud]
  by (auto simp: execute_counted_def regexp_execute_def split: if_splits)

theorem regexp_execution_safe_witness: "match_ok run_of_a [0x61] \<lparr>rm_captures = [Some (0, 1)]\<rparr> \<and> (10 :: u64) \<le> 1000"
  using regexp_execution_safe [OF run_of_a_ok run_of_a_runs] by (simp add: sample_limits_def)

text \<open>
  C13. Repeats at the end of a pattern may commit. At a greedy repeat of one token that consumes input,
  before the end anchor, the search that discards the alternatives of leaving early and the search
  that keeps them have the same result, from every forward state inside the input.
\<close>

theorem terminal_repeat_exact:
  assumes "committed_repeat p head slot minimum maximum body exit capture token" and "program_ok p"
    and "state_ok p input s" and "ms_pc s = head" and "ms_direction s = Forward" and "ms_terminal s = None"
  shows "\<exists>result. \<forall>r. (search True ud p input s r \<longleftrightarrow> r = result) \<and> (search False ud p input s r \<longleftrightarrow> r = result)"
proof -
  have "agree ud p input s (s\<lparr>ms_terminal := None\<rparr>)"
    using assms by (intro terminal_repeat_agree [OF assms(1,2)]) (simp_all add: at_state_def may_commit_def)
  moreover have "s\<lparr>ms_terminal := None\<rparr> = s" using assms(6) by simp
  ultimately obtain r where "search False ud p input s r" "search True ud p input s r" by (auto simp: agree_def)
  then show ?thesis using search_unique by blast
qed

theorem terminal_repeat_exact_witness:
  "\<exists>result. \<forall>r. (search True ascii_data run_of_a [0x61] ((initial_state run_of_a 0)\<lparr>ms_pc := 1\<rparr>) r \<longleftrightarrow> r = result) \<and>
     (search False ascii_data run_of_a [0x61] ((initial_state run_of_a 0)\<lparr>ms_pc := 1\<rparr>) r \<longleftrightarrow> r = result)"
proof -
  have "committed_repeat run_of_a 1 0 0 None 2 4 0 (I_Character 0x61 sample_mode)"
    by (simp add: committed_repeat_def run_of_a_def sample_program_def terminal_repeat_def get_def is_token_def
        initial_mode_def sample_flags_def)
  moreover have "state_ok run_of_a [0x61] ((initial_state run_of_a 0)\<lparr>ms_pc := 1\<rparr>)"
    using initial_state_ok [of 0 "[0x61]" run_of_a] by (simp add: state_ok_update)
  ultimately show ?thesis
    using terminal_repeat_exact [OF _ run_of_a_ok, of 1 0 0 None 2 4 0 "I_Character 0x61 sample_mode" "[0x61]"
        "(initial_state run_of_a 0)\<lparr>ms_pc := 1\<rparr>" ascii_data]
    by (simp add: initial_state_def)
qed

section \<open>Where the executor leaves ECMAScript\<close>

text \<open>
  A range under \<^verbatim>\<open>i\<close> compares canonical end points: \<^verbatim>\<open>[A-z]\<close> does not match the underscore it contains.
\<close>

lemma ignored_case_range:
  "class_item_matches ascii_data (Item_Range 0x41 0x7a) [0x5f] (sample_mode\<lparr>mm_ignore_case := True\<rparr>) = False"
  "class_item_matches ascii_data (Item_Range 0x41 0x7a) [0x5f] sample_mode = True"
  by code_simp+

text \<open>
  The empty string of a class is tried before its single characters: \<^verbatim>\<open>[\q{a|}]\<close> prefers the empty match at \<^verbatim>\<open>a\<close>.
\<close>

definition a_or_empty :: character_class where
  "a_or_empty = CharacterClass False Class_Union [Item_Nested (CharacterClass False Class_Union
     [Item_String [0x61], Item_String []] [[0x61], []] False)] [[0x61], []] False"

lemma empty_string_first: "class_match_positions ascii_data a_or_empty [0x61] 0 sample_mode Forward = Inr [0, 1]"
  by code_simp

text \<open>A committed repeat of a class with the empty string fails at the end: \<^verbatim>\<open>[\q{a|}]*$\<close> does not match the empty input.\<close>

lemma committed_empty_string:
  "fst (execute_counted ascii_data (sample_program
     [I_SaveStart 0, I_Repeat 0 0 None True 2 4 0 0, I_CharacterClass a_or_empty sample_mode, I_RepeatEnd 0 1,
      I_Boundary Boundary_End sample_mode, I_SaveEnd 0, I_Match]) [] 0 sample_limits) = Inr None"
  by code_simp

text \<open>
  An empty mandatory iteration leaves the repeat: \<^verbatim>\<open>(?:|a)+\<close> matches the empty string of \<^verbatim>\<open>a\<close>, where the optional
  iteration that consumes it comes first.
\<close>

lemma empty_mandatory_iteration:
  "fst (execute_counted ascii_data (sample_program
     [I_SaveStart 0, I_Repeat 0 1 None True 2 6 0 0, I_Split 3 4, I_Jump 5, I_Character 0x61 sample_mode, I_RepeatEnd 0 1,
      I_SaveEnd 0, I_Match]) [0x61] 0 sample_limits) = Inr (Some \<lparr>rm_captures = [Some (0, 0)]\<rparr>)"
  by code_simp

end
