(* ===== verification/Regexp_Source.thy ===== *)
theory Regexp_Source
  imports Regexp_Program "HOL-Library.Multiset" "HOL-Library.Sublist"
begin

text \<open>
  The text a regular expression is compiled from: its flags (\<^verbatim>\<open>flags.rs\<close>) and the pattern source the parser
  reads, built from UTF-16 code units (\<^verbatim>\<open>lib.rs\<close>). Flags are characters; a source is the list of its
  scalar values.
\<close>

datatype compile_error = InvalidFlags | Syntax string | ResourceLimit string | Unsupported string

section \<open>Flags\<close>

definition flags_default :: regexp_flags where
  "flags_default = \<lparr>rf_has_indices = False, rf_global = False, rf_ignore_case = False, rf_multiline = False,
     rf_dot_all = False, rf_unicode = False, rf_unicode_sets = False, rf_sticky = False\<rparr>"

definition parse_flag :: "regexp_flags \<Rightarrow> char \<Rightarrow> (compile_error, regexp_flags) result" where
  "parse_flag flags c =
     (let set_once = (\<lambda>present updated. if present then Inl InvalidFlags else Inr updated)
      in if c = CHR ''d'' then set_once (rf_has_indices flags) (flags\<lparr>rf_has_indices := True\<rparr>)
         else if c = CHR ''g'' then set_once (rf_global flags) (flags\<lparr>rf_global := True\<rparr>)
         else if c = CHR ''i'' then set_once (rf_ignore_case flags) (flags\<lparr>rf_ignore_case := True\<rparr>)
         else if c = CHR ''m'' then set_once (rf_multiline flags) (flags\<lparr>rf_multiline := True\<rparr>)
         else if c = CHR ''s'' then set_once (rf_dot_all flags) (flags\<lparr>rf_dot_all := True\<rparr>)
         else if c = CHR ''u'' then set_once (rf_unicode flags) (flags\<lparr>rf_unicode := True\<rparr>)
         else if c = CHR ''v'' then set_once (rf_unicode_sets flags) (flags\<lparr>rf_unicode_sets := True\<rparr>)
         else if c = CHR ''y'' then set_once (rf_sticky flags) (flags\<lparr>rf_sticky := True\<rparr>)
         else Inl InvalidFlags)"

definition flags_parse :: "string \<Rightarrow> (compile_error, regexp_flags) result" where
  "flags_parse source =
     and_then (try_fold parse_flag source flags_default) (\<lambda>flags.
       if rf_unicode flags \<and> rf_unicode_sets flags then Inl InvalidFlags else Inr flags)"

definition canonical_source :: "regexp_flags \<Rightarrow> string" where
  "canonical_source flags =
     map snd (filter fst
       [(rf_has_indices flags, CHR ''d''), (rf_global flags, CHR ''g''), (rf_ignore_case flags, CHR ''i''),
        (rf_multiline flags, CHR ''m''), (rf_dot_all flags, CHR ''s''), (rf_unicode flags, CHR ''u''),
        (rf_unicode_sets flags, CHR ''v''), (rf_sticky flags, CHR ''y'')])"

text \<open>\<^verbatim>\<open>u8::try_from\<close> and \<^verbatim>\<open>is_ascii\<close> accept the units below 128.\<close>

definition ascii_flags :: "allocator \<Rightarrow> u16 list \<Rightarrow> (compile_error, string) result" where
  "ascii_flags alloc flags =
     and_then (err_if (\<not> alloc 0 (length flags)) (ResourceLimit ''flag source allocation'')) (\<lambda>_.
       try_map (\<lambda>u. if u < 128 then Inr (char_of (unat u)) else Inl InvalidFlags) flags)"

section \<open>Pattern source\<close>

definition len_utf8 :: "u32 \<Rightarrow> nat" where
  "len_utf8 c = (if c < 0x80 then 1 else if c < 0x800 then 2 else if c < 0x10000 then 3 else 4)"

definition is_surrogate :: "u16 \<Rightarrow> bool" where
  "is_surrogate u \<longleftrightarrow> 0xd800 \<le> u \<and> u \<le> 0xdfff"

definition BACKSLASH :: u32 where
  "BACKSLASH = 0x5c"

definition hex_digit :: "u16 \<Rightarrow> u32" where
  "hex_digit d = (if d < 10 then 0x30 + ucast d else 0x37 + ucast d)"

definition push_unicode_escape :: "u32 list \<Rightarrow> u16 \<Rightarrow> u32 list" where
  "push_unicode_escape source u =
     source @ [BACKSLASH, 0x75] @ map (\<lambda>shift. hex_digit (drop_bit shift u AND 0xf)) [12, 8, 4, 0]"

definition identity_escape :: compile_error where
  "identity_escape = Syntax ''invalid identity escape in Unicode mode''"

text \<open>The surrogate pair at the head of the remaining units, if Unicode mode reads one.\<close>

definition leading_pair :: "bool \<Rightarrow> u16 list \<Rightarrow> (u32 \<times> u16 list) option" where
  "leading_pair unicode units =
     (case units of
        first # second # rest \<Rightarrow>
          if unicode \<and> is_high_surrogate first \<and> is_low_surrogate second
          then Some (combine_surrogates first second, rest) else None
      | _ \<Rightarrow> None)"

lemma leading_pair_shorter: "leading_pair unicode units = Some (c, rest) \<Longrightarrow> length rest < length units"
  by (auto simp: leading_pair_def split: list.splits if_splits)

function source_loop :: "bool \<Rightarrow> u16 list \<Rightarrow> usize \<Rightarrow> u32 list \<Rightarrow> (compile_error, u32 list) result" where
  "source_loop unicode units slash_run source =
     (case leading_pair unicode units of
        Some (c, rest) \<Rightarrow> source_loop unicode rest 0 (source @ [c])
      | None \<Rightarrow>
          (case units of
             [] \<Rightarrow> Inr source
           | first # rest \<Rightarrow>
               if is_surrogate first then
                 if slash_run mod 2 = 1 then
                   if unicode then Inl identity_escape
                   else source_loop unicode rest 0 (push_unicode_escape (butlast source) first)
                 else source_loop unicode rest 0 (push_unicode_escape source first)
               else source_loop unicode rest (if first = 0x5c then slash_run + 1 else 0) (source @ [ucast first])))"
  by pat_completeness auto
termination
  by (relation "measure (\<lambda>(_, units, _, _). length units)") (auto dest: leading_pair_shorter)

definition add_bytes :: "usize \<Rightarrow> usize \<Rightarrow> (compile_error, usize) result" where
  "add_bytes bytes additional = (if bytes + additional < 2 ^ 64 then Inr (bytes + additional) else Inl (ResourceLimit ''source length''))"

function bytes_loop :: "bool \<Rightarrow> u16 list \<Rightarrow> usize \<Rightarrow> usize \<Rightarrow> (compile_error, usize) result" where
  "bytes_loop unicode units slash_run bytes =
     (case leading_pair unicode units of
        Some (_, rest) \<Rightarrow>
          (case add_bytes bytes 4 of Inl e \<Rightarrow> Inl e | Inr bytes' \<Rightarrow> bytes_loop unicode rest 0 bytes')
      | None \<Rightarrow>
          (case units of
             [] \<Rightarrow> Inr bytes
           | first # rest \<Rightarrow>
               if is_surrogate first then
                 if unicode \<and> slash_run mod 2 = 1 then Inl identity_escape
                 else (case add_bytes bytes (if slash_run mod 2 = 1 then 5 else 6) of
                         Inl e \<Rightarrow> Inl e | Inr bytes' \<Rightarrow> bytes_loop unicode rest 0 bytes')
               else
                 (case add_bytes bytes (len_utf8 (ucast first)) of
                    Inl e \<Rightarrow> Inl e
                  | Inr bytes' \<Rightarrow> bytes_loop unicode rest (if first = 0x5c then slash_run + 1 else 0) bytes')))"
  by pat_completeness auto
termination
  by (relation "measure (\<lambda>(_, units, _, _). length units)") (auto dest: leading_pair_shorter)

declare source_loop.simps [simp del] bytes_loop.simps [simp del]

definition parser_pattern_source_bytes :: "u16 list \<Rightarrow> bool \<Rightarrow> (compile_error, usize) result" where
  "parser_pattern_source_bytes pattern unicode = bytes_loop unicode pattern 0 0"

definition parser_pattern_source :: "allocator \<Rightarrow> u16 list \<Rightarrow> bool \<Rightarrow> usize \<Rightarrow> (compile_error, u32 list) result" where
  "parser_pattern_source alloc pattern unicode max_pattern_bytes =
     and_then (parser_pattern_source_bytes pattern unicode) (\<lambda>output_bytes.
     and_then (err_if (max_pattern_bytes < output_bytes) (ResourceLimit ''source length'')) (\<lambda>_.
     and_then (err_if (\<not> alloc 0 output_bytes) (ResourceLimit ''source allocation'')) (\<lambda>_.
       source_loop unicode pattern 0 [])))"

section \<open>Lemmas on flags\<close>

lemma set_canonical_source:
  "c \<in> set (canonical_source f) \<longleftrightarrow>
     c = CHR ''d'' \<and> rf_has_indices f \<or> c = CHR ''g'' \<and> rf_global f \<or> c = CHR ''i'' \<and> rf_ignore_case f \<or>
     c = CHR ''m'' \<and> rf_multiline f \<or> c = CHR ''s'' \<and> rf_dot_all f \<or> c = CHR ''u'' \<and> rf_unicode f \<or>
     c = CHR ''v'' \<and> rf_unicode_sets f \<or> c = CHR ''y'' \<and> rf_sticky f"
  by (auto simp: canonical_source_def)

lemma distinct_canonical_source: "distinct (canonical_source f)"
  by (simp add: canonical_source_def)

lemma canonical_source_inject:
  assumes "set (canonical_source f) = set (canonical_source g)"
  shows "f = g"
proof -
  have "c \<in> set (canonical_source f) \<longleftrightarrow> c \<in> set (canonical_source g)" for c
    using assms by simp
  note member = this [unfolded set_canonical_source]
  show ?thesis
    using member [of "CHR ''d''"] member [of "CHR ''g''"] member [of "CHR ''i''"] member [of "CHR ''m''"]
      member [of "CHR ''s''"] member [of "CHR ''u''"] member [of "CHR ''v''"] member [of "CHR ''y''"]
    by (cases f; cases g) simp
qed

lemma canonical_source_default [simp]: "canonical_source flags_default = []"
  by (simp add: canonical_source_def flags_default_def)

lemma flag_set [simp]:
  "CHR ''d'' \<in> set (canonical_source f) \<longleftrightarrow> rf_has_indices f"
  "CHR ''g'' \<in> set (canonical_source f) \<longleftrightarrow> rf_global f"
  "CHR ''i'' \<in> set (canonical_source f) \<longleftrightarrow> rf_ignore_case f"
  "CHR ''m'' \<in> set (canonical_source f) \<longleftrightarrow> rf_multiline f"
  "CHR ''s'' \<in> set (canonical_source f) \<longleftrightarrow> rf_dot_all f"
  "CHR ''u'' \<in> set (canonical_source f) \<longleftrightarrow> rf_unicode f"
  "CHR ''v'' \<in> set (canonical_source f) \<longleftrightarrow> rf_unicode_sets f"
  "CHR ''y'' \<in> set (canonical_source f) \<longleftrightarrow> rf_sticky f"
  by (simp_all add: set_canonical_source)

lemma insert_by_member: "a \<in> A \<Longrightarrow> (\<And>c. c \<noteq> a \<Longrightarrow> c \<in> A \<longleftrightarrow> c \<in> B) \<Longrightarrow> A = insert a B"
  by (rule set_eqI) (metis insert_iff)

lemma set_flag [simp]:
  "set (canonical_source (f\<lparr>rf_has_indices := True\<rparr>)) = insert (CHR ''d'') (set (canonical_source f))"
  "set (canonical_source (f\<lparr>rf_global := True\<rparr>)) = insert (CHR ''g'') (set (canonical_source f))"
  "set (canonical_source (f\<lparr>rf_ignore_case := True\<rparr>)) = insert (CHR ''i'') (set (canonical_source f))"
  "set (canonical_source (f\<lparr>rf_multiline := True\<rparr>)) = insert (CHR ''m'') (set (canonical_source f))"
  "set (canonical_source (f\<lparr>rf_dot_all := True\<rparr>)) = insert (CHR ''s'') (set (canonical_source f))"
  "set (canonical_source (f\<lparr>rf_unicode := True\<rparr>)) = insert (CHR ''u'') (set (canonical_source f))"
  "set (canonical_source (f\<lparr>rf_unicode_sets := True\<rparr>)) = insert (CHR ''v'') (set (canonical_source f))"
  "set (canonical_source (f\<lparr>rf_sticky := True\<rparr>)) = insert (CHR ''y'') (set (canonical_source f))"
  by ((rule insert_by_member; simp add: set_canonical_source)+)

lemma parse_flag_sound:
  "parse_flag f c = Inr g \<Longrightarrow>
     c \<notin> set (canonical_source f) \<and> set (canonical_source g) = insert c (set (canonical_source f))"
  by (auto simp: parse_flag_def Let_def split: if_splits)

lemma parse_flag_complete:
  assumes "c \<notin> set (canonical_source f)" "c \<in> set (canonical_source g)"
  shows "\<exists>f'. parse_flag f c = Inr f'"
  using assms by (auto simp: parse_flag_def Let_def set_canonical_source)

lemma try_fold_parse_flag:
  "try_fold parse_flag s f = Inr g \<longleftrightarrow>
     distinct s \<and> set s \<inter> set (canonical_source f) = {} \<and>
     set (canonical_source g) = set s \<union> set (canonical_source f)"
proof (induction s arbitrary: f)
  case Nil
  then show ?case
    by (auto dest: canonical_source_inject)
next
  case (Cons c s)
  show ?case
  proof (cases "parse_flag f c")
    case (Inl e)
    then show ?thesis
      using parse_flag_complete [of c f g] by auto
  next
    case (Inr f')
    then show ?thesis
      using parse_flag_sound [OF Inr] by (auto simp: Cons.IH)
  qed
qed

lemma flags_parse_error: "flags_parse s = Inl e \<Longrightarrow> e = InvalidFlags"
proof -
  have "try_fold parse_flag s f = Inl e \<Longrightarrow> e = InvalidFlags" for f
  proof (induction s arbitrary: f)
    case (Cons c s)
    then show ?case
      by (cases "parse_flag f c") (auto simp: parse_flag_def Let_def split: if_splits)
  qed simp
  then show "flags_parse s = Inl e \<Longrightarrow> e = InvalidFlags"
    by (cases "try_fold parse_flag s flags_default") (auto simp: flags_parse_def split: if_splits)
qed

lemma flags_parse_iff:
  "flags_parse s = Inr f \<longleftrightarrow>
     distinct s \<and> set s = set (canonical_source f) \<and> \<not> (rf_unicode f \<and> rf_unicode_sets f)"
proof (cases "try_fold parse_flag s flags_default")
  case (Inl e)
  have "\<not> (distinct s \<and> set s = set (canonical_source f))"
    using try_fold_parse_flag [of s flags_default f] Inl by auto
  then show ?thesis
    by (auto simp: flags_parse_def Inl)
next
  case (Inr g)
  then have g: "distinct s" "set (canonical_source g) = set s"
    using try_fold_parse_flag [of s flags_default g] by auto
  then show ?thesis
    using canonical_source_inject [of g f] by (auto simp: flags_parse_def Inr)
qed

interpretation flag_code: encoding "\<lambda>f. \<not> (rf_unicode f \<and> rf_unicode_sets f)" canonical_source flags_parse
  by unfold_locales (simp add: flags_parse_iff distinct_canonical_source)

text \<open>
  The flags a regular expression is created with are read exactly: a source is accepted when it lists
  distinct flags and not both Unicode modes, its record has precisely the listed flags set, and the source
  canonicalised from the record has the same characters, so that reading it back gives the same record; every
  other source is an invalid-flags error.
\<close>

theorem regexp_flags_exact:
  "(flags_parse s = Inr f \<longleftrightarrow>
      distinct s \<and> mset s = mset (canonical_source f) \<and> \<not> (rf_unicode f \<and> rf_unicode_sets f)) \<and>
   (flags_parse (canonical_source f) = Inr f \<longleftrightarrow> \<not> (rf_unicode f \<and> rf_unicode_sets f)) \<and>
   subseq (canonical_source f) ''dgimsuvy'' \<and>
   (flags_parse s = Inl e \<longleftrightarrow> e = InvalidFlags \<and> (\<nexists>g. flags_parse s = Inr g))"
proof (intro conjI)
  show "flags_parse s = Inr f \<longleftrightarrow>
      distinct s \<and> mset s = mset (canonical_source f) \<and> \<not> (rf_unicode f \<and> rf_unicode_sets f)"
    using distinct_canonical_source [of f]
    by (auto simp: flags_parse_iff set_eq_iff_mset_eq_distinct dest: mset_eq_setD)
  show "flags_parse (canonical_source f) = Inr f \<longleftrightarrow> \<not> (rf_unicode f \<and> rf_unicode_sets f)"
    using flag_code.decode_encode [of f] flags_parse_iff [of "canonical_source f" f] by blast
  show "subseq (canonical_source f) ''dgimsuvy''"
    by (simp add: canonical_source_def)
  show "flags_parse s = Inl e \<longleftrightarrow> e = InvalidFlags \<and> (\<nexists>g. flags_parse s = Inr g)"
    using flags_parse_error [of s] by (cases "flags_parse s") auto
qed

section \<open>Lemmas on the pattern source\<close>

definition source_bytes :: "u32 list \<Rightarrow> nat" where
  "source_bytes source = sum_list (map len_utf8 source)"

lemma source_bytes_append [simp]: "source_bytes (a @ b) = source_bytes a + source_bytes b"
  by (simp add: source_bytes_def)

lemma source_bytes_simps [simp]: "source_bytes [] = 0" "source_bytes (c # s) = len_utf8 c + source_bytes s"
  by (simp_all add: source_bytes_def)

lemma hex_digit_bytes: "len_utf8 (hex_digit (x AND 0xf)) = 1"
proof -
  have "x AND 0xf \<le> 0xf"
    by (rule word_and_le1)
  then have "unat (x AND 0xf) \<le> 15"
    by (simp add: word_le_nat_alt)
  then show ?thesis
    by (auto simp: len_utf8_def hex_digit_def word_less_nat_alt unat_word_ariths unsigned_ucast_eq take_bit_nat_def)
qed

lemma BACKSLASH_bytes [simp]: "len_utf8 BACKSLASH = 1"
  by (simp add: len_utf8_def BACKSLASH_def)

lemma escape_bytes [simp]: "source_bytes (push_unicode_escape source u) = source_bytes source + 6"
  by (simp add: push_unicode_escape_def hex_digit_bytes) (simp add: len_utf8_def BACKSLASH_def)

text \<open>A source whose last characters are the current run of backslashes.\<close>

definition slash_tail :: "usize \<Rightarrow> u32 list \<Rightarrow> bool" where
  "slash_tail k source \<longleftrightarrow> (\<exists>p. source = p @ replicate k BACKSLASH)"

lemma slash_tail_0 [simp]: "slash_tail 0 source"
  by (simp add: slash_tail_def)

lemma slash_tail_unit:
  "slash_tail k source \<Longrightarrow> slash_tail (if u = 0x5c then k + 1 else 0) (source @ [ucast (u :: u16)])"
  by (auto simp: slash_tail_def BACKSLASH_def replicate_append_same [symmetric])

lemma slash_tail_pop:
  assumes "slash_tail k source" "0 < k"
  obtains p where "source = p @ [BACKSLASH]" "butlast source = p"
  using assms by (cases k) (auto simp: slash_tail_def replicate_append_same [symmetric])

lemma hex_digit_scalar: "is_scalar (hex_digit (x AND 0xf))"
  using hex_digit_bytes [of x] by (auto simp: len_utf8_def is_scalar_def word_less_nat_alt split: if_splits)

lemma scalar_escape [simp]: "list_all is_scalar (push_unicode_escape source u) \<longleftrightarrow> list_all is_scalar source"
  by (simp add: push_unicode_escape_def hex_digit_scalar) (simp add: is_scalar_def BACKSLASH_def)

lemma scalar_unit: "\<not> is_surrogate u \<Longrightarrow> is_scalar (ucast u)"
  using less_le_trans [OF unat_u16_bound, of 1114112 u]
  by (auto simp: is_surrogate_def is_scalar_def word_less_nat_alt word_le_nat_alt unsigned_ucast_eq take_bit_nat_def)

lemma unat_surrogate_offset:
  "n \<le> unat u \<Longrightarrow> n < 65536 \<Longrightarrow> unat (ucast (u :: u16) - of_nat n :: u32) = unat u - n"
  using unsigned_less [where ?'a = nat, of u]
  by (subst unat_sub) (auto simp: word_le_nat_alt unsigned_ucast_eq take_bit_nat_def unat_of_nat)

lemma unat_supplementary:
  "unat h < 1024 \<Longrightarrow> unat l < 1024 \<Longrightarrow>
     unat (0x10000 + push_bit 10 h + l :: u32) = 0x10000 + unat h * 1024 + unat l"
  by (simp add: push_bit_eq_mult unat_word_ariths)

lemma unat_combine_surrogates:
  assumes "is_high_surrogate first" "is_low_surrogate second"
  shows "unat (combine_surrogates first second) = 0x10000 + (unat first - 0xd800) * 1024 + (unat second - 0xdc00)"
proof -
  have b: "0xd800 \<le> unat first" "unat first \<le> 0xdbff" "0xdc00 \<le> unat second" "unat second \<le> 0xdfff"
    using assms by (simp_all add: is_high_surrogate_def is_low_surrogate_def word_le_nat_alt)
  then show ?thesis
    using unat_surrogate_offset [of "0xd800" first] unat_surrogate_offset [of "0xdc00" second]
    unfolding combine_surrogates_def by (subst unat_supplementary) simp_all
qed

lemma scalar_pair: "leading_pair unicode units = Some (c, rest) \<Longrightarrow> is_scalar c \<and> len_utf8 c = 4"
proof -
  assume "leading_pair unicode units = Some (c, rest)"
  then obtain first second where pair: "is_high_surrogate first" "is_low_surrogate second"
    and c: "c = combine_surrogates first second"
    by (auto simp: leading_pair_def split: list.splits if_splits)
  have "0xd800 \<le> unat first" "unat first \<le> 0xdbff" "0xdc00 \<le> unat second" "unat second \<le> 0xdfff"
    using pair by (simp_all add: is_high_surrogate_def is_low_surrogate_def word_le_nat_alt)
  then have "0x10000 \<le> unat c" "unat c < 0x110000"
    unfolding c unat_combine_surrogates [OF pair] by simp_all
  then show ?thesis
    by (auto simp: is_scalar_def len_utf8_def word_less_nat_alt word_le_nat_alt)
qed

definition loop_agrees :: "(compile_error, usize) result \<Rightarrow> (compile_error, u32 list) result \<Rightarrow> bool" where
  "loop_agrees counted built \<longleftrightarrow>
     (case counted of
        Inr n \<Rightarrow> (\<exists>source. built = Inr source \<and> source_bytes source = n \<and> list_all is_scalar source)
      | Inl e \<Rightarrow> e = identity_escape \<and> built = Inl e \<or> e = ResourceLimit ''source length'')"

lemma loop_agrees_add:
  assumes "\<And>bytes'. bytes' = bytes + additional \<Longrightarrow> loop_agrees (counted bytes') built"
  shows "loop_agrees (case add_bytes bytes additional of Inl e \<Rightarrow> Inl e | Inr bytes' \<Rightarrow> counted bytes') built"
  using assms by (auto simp: add_bytes_def loop_agrees_def)

lemma loops_agree:
  assumes "slash_tail k source" "bytes = source_bytes source" "list_all is_scalar source"
  shows "loop_agrees (bytes_loop unicode units k bytes) (source_loop unicode units k source)"
  using assms
proof (induction unicode units k source arbitrary: bytes rule: source_loop.induct)
  case (1 unicode units k source)
  show ?case
  proof (cases "leading_pair unicode units")
    case (Some cr)
    obtain c rest where cr: "cr = (c, rest)"
      by (cases cr) auto
    have "is_scalar c" "len_utf8 c = 4"
      using scalar_pair Some cr by auto
    then have "loop_agrees (bytes_loop unicode rest 0 (bytes + 4)) (source_loop unicode rest 0 (source @ [c]))"
      using "1.IH"(4) [OF Some cr [symmetric]] "1.prems" by simp
    then show ?thesis
      by (subst bytes_loop.simps, subst source_loop.simps) (auto simp: Some cr intro: loop_agrees_add)
  next
    case None
    show ?thesis
    proof (cases units)
      case Nil
      then show ?thesis
        using 1 None by (subst bytes_loop.simps, subst source_loop.simps) (auto simp: loop_agrees_def)
    next
      case (Cons u rest)
      note IH = "1.IH"(1-3) [OF None Cons]
      note step = bytes_loop.simps [of unicode units k bytes] source_loop.simps [of unicode units k source]
      show ?thesis
      proof (cases "is_surrogate u")
        case True
        show ?thesis
        proof (cases "k mod 2 = 1")
          case odd: True
          then have "0 < k"
            by (cases k) auto
          with "1.prems" obtain p where p: "source = p @ [BACKSLASH]" "butlast source = p"
            by (auto elim: slash_tail_pop)
          show ?thesis
          proof (cases unicode)
            case True
            then show ?thesis
              unfolding step using None Cons odd \<open>is_surrogate u\<close> by (simp add: loop_agrees_def)
          next
            case False
            have "bytes + 5 = source_bytes (push_unicode_escape (butlast source) u)" "list_all is_scalar (butlast source)"
              using "1.prems" p by simp_all
            then have "loop_agrees (bytes_loop unicode rest 0 (bytes + 5))
                (source_loop unicode rest 0 (push_unicode_escape (butlast source) u))"
              by (intro IH(1) [OF True odd False]) simp_all
            then show ?thesis
              unfolding step using None Cons odd True False by (auto intro: loop_agrees_add)
          qed
        next
          case even: False
          have "loop_agrees (bytes_loop unicode rest 0 (bytes + 6))
              (source_loop unicode rest 0 (push_unicode_escape source u))"
            using IH(2) [OF True even] "1.prems" by simp
          then show ?thesis
            unfolding step using None Cons even True by (auto intro: loop_agrees_add)
        qed
      next
        case False
        have "loop_agrees (bytes_loop unicode rest (if u = 0x5c then k + 1 else 0) (bytes + len_utf8 (ucast u)))
            (source_loop unicode rest (if u = 0x5c then k + 1 else 0) (source @ [ucast u]))"
          using "1.prems" scalar_unit [OF False] by (intro IH(3) [OF False] slash_tail_unit) simp_all
        then show ?thesis
          unfolding step using None Cons False by (auto intro: loop_agrees_add)
      qed
    qed
  qed
qed

text \<open>
  The pattern source handed to the parser is measured exactly before it is built: whatever pattern and
  limits, a source that is returned consists of Unicode scalar values, has precisely the number of UTF-8 bytes
  that was counted and reserved, and that number is within the limit; the only errors are the identity escape
  of a lone surrogate in Unicode mode, which building the source would meet too, a source over the limit, and a
  refused reservation.
\<close>

theorem pattern_source_measured:
  "case parser_pattern_source alloc pattern unicode limit of
     Inr source \<Rightarrow>
       parser_pattern_source_bytes pattern unicode = Inr (source_bytes source) \<and> source_bytes source \<le> limit \<and>
       alloc 0 (source_bytes source) \<and> list_all is_scalar source
   | Inl e \<Rightarrow>
       e = identity_escape \<and> source_loop unicode pattern 0 [] = Inl e \<or>
       e = ResourceLimit ''source length'' \<and>
         (parser_pattern_source_bytes pattern unicode = Inl e \<or>
          (\<exists>n > limit. parser_pattern_source_bytes pattern unicode = Inr n)) \<or>
       e = ResourceLimit ''source allocation'' \<and>
         (\<exists>n. parser_pattern_source_bytes pattern unicode = Inr n \<and> \<not> alloc 0 n)"
proof -
  have agree: "loop_agrees (parser_pattern_source_bytes pattern unicode) (source_loop unicode pattern 0 [])"
    unfolding parser_pattern_source_bytes_def by (rule loops_agree) simp_all
  show ?thesis
  proof (cases "parser_pattern_source_bytes pattern unicode")
    case (Inl e)
    then show ?thesis
      using agree by (auto simp: parser_pattern_source_def loop_agrees_def)
  next
    case (Inr n)
    then show ?thesis
      using agree by (auto simp: parser_pattern_source_def loop_agrees_def err_if_def)
  qed
qed

end
