(* ===== verification/Js_String.thy ===== *)
theory Js_String
  imports Prelude
begin

text \<open>
  The immutable strings of \<^verbatim>\<open>crates/fusor-runtime/src/string.rs\<close>: Latin-1 and UTF-16 leaves, ropes with
  cached length, depth and width, concatenation with the Fibonacci-bucket rebalancing of deep ropes,
  the iterator over code units with its fixed stack, slices, comparison and the byte encodings. A panic,
  be it of an index or of an \<^verbatim>\<open>expect\<close>, is the error \<open>String_Panic\<close>.
\<close>

section \<open>Representation\<close>

datatype string_error =
  TooLong u64 u32
| String_AllocationFailed usize
| InvalidRange u32 u32 u32
| String_Panic

datatype js_string =
  Latin1 "u8 list"
| Utf16 "u16 list"
| Rope js_string js_string u32 u8 bool

definition MAX_STRING_CODE_UNITS :: u32 where
  "MAX_STRING_CODE_UNITS = 1073741823"

definition ROPE_SHORT_LEN :: u32 where
  "ROPE_SHORT_LEN = 512"

definition ROPE_SHORT_LEFT_LEN :: u32 where
  "ROPE_SHORT_LEFT_LEN = 8192"

definition ROPE_MAX_DEPTH :: u8 where
  "ROPE_MAX_DEPTH = 60"

definition ROPE_ITER_STACK_CAPACITY :: usize where
  "ROPE_ITER_STACK_CAPACITY = unat ROPE_MAX_DEPTH + 1"

definition ROPE_BUCKET_LENGTHS :: "u32 list" where
  "ROPE_BUCKET_LENGTHS =
     [1, 2, 3, 5, 8, 13, 21, 34, 55, 89, 144, 233, 377, 610, 987, 1597, 2584, 4181, 6765, 10946, 17711, 28657,
      46368, 75025, 121393, 196418, 317811, 514229, 832040, 1346269, 2178309, 3524578, 5702887, 9227465,
      14930352, 24157817, 39088169, 63245986, 102334155, 165580141, 267914296, 433494437, 701408733, 1134903170]"

definition MAX_INITIAL_RESERVE :: usize where
  "MAX_INITIAL_RESERVE = 4096"

text \<open>A leaf holds at most \<open>MAX_STRING_CODE_UNITS\<close> units, so that its length fits its 32 bits.\<close>

fun js_len :: "js_string \<Rightarrow> u32" where
  "js_len (Latin1 units) = word_of_nat (length units)"
| "js_len (Utf16 units) = word_of_nat (length units)"
| "js_len (Rope _ _ len _ _) = len"

fun js_depth :: "js_string \<Rightarrow> u8" where
  "js_depth (Latin1 _) = 0"
| "js_depth (Utf16 _) = 0"
| "js_depth (Rope _ _ _ depth _) = depth"

fun is_wide :: "js_string \<Rightarrow> bool" where
  "is_wide (Latin1 _) = False"
| "is_wide (Utf16 _) = True"
| "is_wide (Rope _ _ _ _ wide) = wide"

fun is_leaf :: "js_string \<Rightarrow> bool" where
  "is_leaf (Latin1 _) = True"
| "is_leaf (Utf16 _) = True"
| "is_leaf (Rope _ _ _ _ _) = False"

definition js_empty :: js_string where
  "js_empty = Latin1 []"

definition js_is_empty :: "js_string \<Rightarrow> bool" where
  "js_is_empty s \<longleftrightarrow> js_len s = 0"

definition is_latin1 :: "js_string \<Rightarrow> bool" where
  "is_latin1 s \<longleftrightarrow> \<not> is_wide s"

section \<open>The iterator over code units\<close>

datatype leaf_cursor = Cursor_Latin1 "u8 list" usize | Cursor_Utf16 "u16 list" usize

text \<open>The occupied part of the stack array is a list with its top first.\<close>

record code_units_iter =
  cu_stack :: "js_string list"
  cu_leaf :: "leaf_cursor option"
  cu_remaining :: usize

definition code_units_new :: "js_string \<Rightarrow> code_units_iter" where
  "code_units_new s = \<lparr>cu_stack = [s], cu_leaf = None, cu_remaining = unat (js_len s)\<rparr>"

fun cursor_unit :: "leaf_cursor \<Rightarrow> u16 option" where
  "cursor_unit (Cursor_Latin1 units index) = map_option ucast (get units index)"
| "cursor_unit (Cursor_Utf16 units index) = get units index"

fun cursor_advance :: "leaf_cursor \<Rightarrow> leaf_cursor" where
  "cursor_advance (Cursor_Latin1 units index) = Cursor_Latin1 units (index + 1)"
| "cursor_advance (Cursor_Utf16 units index) = Cursor_Utf16 units (index + 1)"

text \<open>The inner loop: down the left children to a leaf, stacking the right ones.\<close>

fun descend :: "js_string list \<Rightarrow> js_string \<Rightarrow> (string_error, js_string list \<times> leaf_cursor) result" where
  "descend stack (Latin1 units) = Inr (stack, Cursor_Latin1 units 0)"
| "descend stack (Utf16 units) = Inr (stack, Cursor_Utf16 units 0)"
| "descend stack (Rope left right _ _ _) =
     (if ROPE_ITER_STACK_CAPACITY \<le> length stack then Inl String_Panic else descend (right # stack) left)"

fun node_count :: "js_string \<Rightarrow> nat" where
  "node_count (Rope left right _ _ _) = node_count left + node_count right + 1"
| "node_count _ = 1"

lemma descend_count:
  "descend stack s = Inr (stack', cursor) \<Longrightarrow> sum_list (map node_count stack') < sum_list (map node_count stack) + node_count s"
  by (induction stack s rule: descend.induct) (fastforce split: if_splits)+

function code_units_next :: "code_units_iter \<Rightarrow> (string_error, (u16 \<times> code_units_iter) option) result" where
  "code_units_next it =
     (case Option.bind (cu_leaf it) cursor_unit of
        Some unit \<Rightarrow>
          if cu_remaining it = 0 then Inl String_Panic
          else Inr (Some (unit, it\<lparr>cu_leaf := map_option cursor_advance (cu_leaf it), cu_remaining := cu_remaining it - 1\<rparr>))
      | None \<Rightarrow>
          (case cu_stack it of
             [] \<Rightarrow> Inr None
           | node # stack \<Rightarrow>
               (case descend stack node of
                  Inl e \<Rightarrow> Inl e
                | Inr (stack', cursor) \<Rightarrow> code_units_next (it\<lparr>cu_stack := stack', cu_leaf := Some cursor\<rparr>))))"
  by pat_completeness auto
termination
  by (relation "measure (\<lambda>it. sum_list (map node_count (cu_stack it)))") (auto dest: descend_count)

declare code_units_next.simps [simp del]

text \<open>
  What a consumer of at most \<open>n\<close> units receives, in order; a panic ends the stream with its error.
\<close>

primrec unit_stream :: "nat \<Rightarrow> code_units_iter \<Rightarrow> (string_error, u16) result list" where
  "unit_stream 0 it = []"
| "unit_stream (Suc n) it =
     (case code_units_next it of
        Inl e \<Rightarrow> [Inl e]
      | Inr None \<Rightarrow> []
      | Inr (Some (unit, it')) \<Rightarrow> Inr unit # unit_stream n it')"

text \<open>A consumer that runs to the end asks once more after the last unit.\<close>

definition code_units :: "js_string \<Rightarrow> (string_error, u16) result list" where
  "code_units s = unit_stream (unat (js_len s) + 1) (code_units_new s)"

section \<open>Construction\<close>

definition string_reserve :: "allocator \<Rightarrow> usize \<Rightarrow> usize \<Rightarrow> (string_error, unit) result" where
  "string_reserve alloc len additional = err_if (\<not> alloc len additional) (String_AllocationFailed additional)"

definition try_push :: "allocator \<Rightarrow> 'a list \<Rightarrow> 'a \<Rightarrow> (string_error, 'a list) result" where
  "try_push alloc values v = (if alloc (length values) 1 then Inr (values @ [v]) else Inl (String_AllocationFailed 1))"

fun units_loop :: "allocator \<Rightarrow> u8 list \<Rightarrow> u16 list option \<Rightarrow> (string_error, u16) result list \<Rightarrow> (string_error, js_string) result" where
  "units_loop alloc latin1 utf16 [] = Inr (case utf16 of Some wide \<Rightarrow> Utf16 wide | None \<Rightarrow> Latin1 latin1)"
| "units_loop alloc latin1 utf16 (Inl e # items) = Inl e"
| "units_loop alloc latin1 utf16 (Inr unit # items) =
     (if (case utf16 of Some wide \<Rightarrow> length wide | None \<Rightarrow> length latin1) = unat MAX_STRING_CODE_UNITS
      then Inl (TooLong (ucast MAX_STRING_CODE_UNITS + 1) MAX_STRING_CODE_UNITS)
      else case utf16 of
             Some wide \<Rightarrow>
               (case try_push alloc wide unit of
                  Inl e \<Rightarrow> Inl e | Inr wide' \<Rightarrow> units_loop alloc latin1 (Some wide') items)
           | None \<Rightarrow>
               if unit < 256 then
                 (case try_push alloc latin1 (ucast unit) of
                    Inl e \<Rightarrow> Inl e | Inr latin1' \<Rightarrow> units_loop alloc latin1' None items)
               else
                 (case string_reserve alloc 0 (length latin1 + 1) of
                    Inl e \<Rightarrow> Inl e
                  | Inr _ \<Rightarrow> units_loop alloc [] (Some (map ucast latin1 @ [unit])) items))"

definition from_code_units ::
  "allocator \<Rightarrow> usize \<Rightarrow> (string_error, u16) result list \<Rightarrow> (string_error, js_string) result" where
  "from_code_units alloc lower_bound items =
     (if unat MAX_STRING_CODE_UNITS < lower_bound then Inl (TooLong (word_of_nat lower_bound) MAX_STRING_CODE_UNITS)
      else and_then (string_reserve alloc 0 (min lower_bound MAX_INITIAL_RESERVE)) (\<lambda>_.
             units_loop alloc [] None items))"

definition check_length :: "usize \<Rightarrow> (string_error, u32) result" where
  "check_length len =
     (if unat MAX_STRING_CODE_UNITS < len then Inl (TooLong (word_of_nat len) MAX_STRING_CODE_UNITS)
      else Inr (word_of_nat len))"

definition from_latin1 :: "allocator \<Rightarrow> u8 list \<Rightarrow> (string_error, js_string) result" where
  "from_latin1 alloc units =
     and_then (check_length (length units)) (\<lambda>_.
       if units = [] then Inr js_empty
       else and_then (string_reserve alloc 0 (length units)) (\<lambda>_. Inr (Latin1 units)))"

section \<open>Access\<close>

fun unit_at :: "js_string \<Rightarrow> u32 \<Rightarrow> (string_error, u16) result" where
  "unit_at (Latin1 units) index = (case get units (unat index) of Some u \<Rightarrow> Inr (ucast u) | None \<Rightarrow> Inl String_Panic)"
| "unit_at (Utf16 units) index = (case get units (unat index) of Some u \<Rightarrow> Inr u | None \<Rightarrow> Inl String_Panic)"
| "unit_at (Rope left right _ _ _) index =
     (if index < js_len left then unit_at left index else unit_at right (index - js_len left))"

definition code_unit_at :: "js_string \<Rightarrow> u32 \<Rightarrow> (string_error, u16 option) result" where
  "code_unit_at s index =
     (if js_len s \<le> index then Inr None else and_then (unit_at s index) (\<lambda>u. Inr (Some u)))"

text \<open>
  \<^verbatim>\<open>skip\<close> and \<^verbatim>\<open>take\<close> pull the units before the end of the range and no more, and only when the first unit is
  asked for; the bound of the iterator is exact.
\<close>

definition skip_units :: "nat \<Rightarrow> (string_error, u16) result list \<Rightarrow> (string_error, u16) result list" where
  "skip_units n items = (if list_ex isl (take n items) then [Inl String_Panic] else drop n items)"

definition js_slice :: "allocator \<Rightarrow> js_string \<Rightarrow> u32 \<Rightarrow> u32 \<Rightarrow> (string_error, js_string) result" where
  "js_slice alloc s range_start range_end =
     (if range_end < range_start \<or> js_len s < range_end then Inl (InvalidRange range_start range_end (js_len s))
      else if range_start = 0 \<and> range_end = js_len s then Inr s
      else from_code_units alloc (unat range_end - unat range_start)
             (skip_units (unat range_start) (unit_stream (unat range_end) (code_units_new s))))"

section \<open>Ropes\<close>

definition checked_sum :: "u32 \<Rightarrow> u32 \<Rightarrow> (string_error, u32) result" where
  "checked_sum left right =
     (let requested = (ucast left + ucast right :: u64)
      in if ucast MAX_STRING_CODE_UNITS < requested then Inl (TooLong requested MAX_STRING_CODE_UNITS)
         else Inr (ucast requested))"

definition new_rope_node :: "js_string \<Rightarrow> js_string \<Rightarrow> (string_error, js_string) result" where
  "new_rope_node left right =
     and_then (checked_sum (js_len left) (js_len right)) (\<lambda>len.
       Inr (Rope left right len (saturating_add (max (js_depth left) (js_depth right)) 1) (is_wide left \<or> is_wide right)))"

text \<open>
  The buckets below the one a leaf belongs to, joined from the lowest up; the source indexes the table one past the
  current bucket.
\<close>

function collect_lower ::
  "u32 \<Rightarrow> js_string option list \<Rightarrow> js_string option \<Rightarrow> usize \<Rightarrow>
     (string_error, js_string option list \<times> js_string option \<times> usize) result" where
  "collect_lower len buckets aggregate index =
     (case get ROPE_BUCKET_LENGTHS (index + 1) of
        None \<Rightarrow> Inl String_Panic
      | Some bound \<Rightarrow>
          if bound \<le> len then
            (case buckets ! index of
               None \<Rightarrow> collect_lower len buckets aggregate (index + 1)
             | Some bucket \<Rightarrow>
                 (case aggregate of
                    None \<Rightarrow> collect_lower len (buckets[index := None]) (Some bucket) (index + 1)
                  | Some right \<Rightarrow>
                      (case new_rope_node bucket right of
                         Inl e \<Rightarrow> Inl e
                       | Inr node \<Rightarrow> collect_lower len (buckets[index := None]) (Some node) (index + 1))))
          else Inr (buckets, aggregate, index))"
  by pat_completeness auto
termination
  by (relation "measure (\<lambda>(_, _, _, index). length ROPE_BUCKET_LENGTHS - index)") auto

function place_bucket :: "js_string option list \<Rightarrow> js_string \<Rightarrow> usize \<Rightarrow> (string_error, js_string option list) result" where
  "place_bucket buckets aggregate index =
     (case get buckets index of
        None \<Rightarrow> Inl (TooLong (ucast MAX_STRING_CODE_UNITS + 1) MAX_STRING_CODE_UNITS)
      | Some None \<Rightarrow> Inr (buckets[index := Some aggregate])
      | Some (Some left) \<Rightarrow>
          (case new_rope_node left aggregate of
             Inl e \<Rightarrow> Inl e
           | Inr node \<Rightarrow> place_bucket (buckets[index := None]) node (index + 1)))"
  by pat_completeness auto
termination
  by (relation "measure (\<lambda>(buckets, _, index). length buckets - index)") auto

declare collect_lower.simps [simp del] place_bucket.simps [simp del]

definition rebalance_leaf :: "js_string \<Rightarrow> js_string option list \<Rightarrow> (string_error, js_string option list) result" where
  "rebalance_leaf leaf buckets =
     and_then (collect_lower (js_len leaf) buckets None 0) (\<lambda>(buckets', collected, index).
     and_then (case collected of None \<Rightarrow> Inr leaf | Some left \<Rightarrow> new_rope_node left leaf) (\<lambda>aggregate.
       place_bucket buckets' aggregate index))"

text \<open>The stack of \<^verbatim>\<open>rebalance\<close> is a list with its top first.\<close>

function rebalance_loop ::
  "allocator \<Rightarrow> js_string list \<Rightarrow> js_string option list \<Rightarrow> (string_error, js_string option list) result" where
  "rebalance_loop alloc [] buckets = Inr buckets"
| "rebalance_loop alloc (node # stack) buckets =
     (case node of
        Rope left right _ _ _ \<Rightarrow>
          if \<not> alloc (length stack) 1 \<or> \<not> alloc (length stack + 1) 1 then Inl (String_AllocationFailed 1)
          else rebalance_loop alloc (left # right # stack) buckets
      | _ \<Rightarrow>
          if js_is_empty node then rebalance_loop alloc stack buckets
          else (case rebalance_leaf node buckets of
                  Inl e \<Rightarrow> Inl e
                | Inr buckets' \<Rightarrow> rebalance_loop alloc stack buckets'))"
  by pat_completeness auto
termination
  by (relation "measure (\<lambda>(_, stack, _). sum_list (map node_count stack))") auto

declare rebalance_loop.simps(2) [simp del]

primrec join_buckets :: "js_string option list \<Rightarrow> js_string option \<Rightarrow> (string_error, js_string option) result" where
  "join_buckets [] joined = Inr joined"
| "join_buckets (bucket # buckets) joined =
     (case bucket of
        None \<Rightarrow> join_buckets buckets joined
      | Some left \<Rightarrow>
          (case joined of
             None \<Rightarrow> join_buckets buckets (Some left)
           | Some right \<Rightarrow>
               (case new_rope_node left right of
                  Inl e \<Rightarrow> Inl e
                | Inr node \<Rightarrow> join_buckets buckets (Some node))))"

definition rebalance :: "allocator \<Rightarrow> js_string \<Rightarrow> js_string \<Rightarrow> (string_error, js_string) result" where
  "rebalance alloc left right =
     and_then (string_reserve alloc 0 (unat ROPE_MAX_DEPTH + 2)) (\<lambda>_.
     and_then (rebalance_loop alloc [left, right] (replicate (length ROPE_BUCKET_LENGTHS) None)) (\<lambda>buckets.
     and_then (join_buckets buckets None) (\<lambda>joined.
       Inr (case joined of None \<Rightarrow> js_empty | Some s \<Rightarrow> s))))"

definition new_rope :: "allocator \<Rightarrow> js_string \<Rightarrow> js_string \<Rightarrow> (string_error, js_string) result" where
  "new_rope alloc left right =
     and_then (checked_sum (js_len left) (js_len right)) (\<lambda>len.
       let depth = saturating_add (max (js_depth left) (js_depth right)) 1
       in if ROPE_MAX_DEPTH < depth then rebalance alloc left right
          else Inr (Rope left right len depth (is_wide left \<or> is_wide right)))"

text \<open>The bound of two chained iterators saturates, which the sum of two valid lengths never does.\<close>

definition copy_concat :: "allocator \<Rightarrow> js_string \<Rightarrow> js_string \<Rightarrow> (string_error, js_string) result" where
  "copy_concat alloc left right =
     from_code_units alloc (unat (js_len left) + unat (js_len right)) (code_units left @ code_units right)"

definition js_concat :: "allocator \<Rightarrow> js_string \<Rightarrow> js_string \<Rightarrow> (string_error, js_string) result" where
  "js_concat alloc self other =
     and_then (checked_sum (js_len self) (js_len other)) (\<lambda>_.
       if js_is_empty self then Inr other
       else if js_is_empty other then Inr self
       else if is_leaf other \<and> js_len other \<le> ROPE_SHORT_LEN then
         if is_leaf self \<and> js_len self \<le> ROPE_SHORT_LEFT_LEN then copy_concat alloc self other
         else (case self of
                 Rope left right _ _ _ \<Rightarrow>
                   if is_leaf right \<and> js_len right \<le> ROPE_SHORT_LEN
                   then and_then (copy_concat alloc right other) (new_rope alloc left)
                   else new_rope alloc self other
               | _ \<Rightarrow> new_rope alloc self other)
       else if is_leaf self then
         (case other of
            Rope left right _ _ _ \<Rightarrow>
              if is_leaf left \<and> js_len left \<le> ROPE_SHORT_LEN
              then and_then (copy_concat alloc self left) (\<lambda>merged_left. new_rope alloc merged_left right)
              else new_rope alloc self other
          | _ \<Rightarrow> new_rope alloc self other)
       else new_rope alloc self other)"

section \<open>Comparison and bytes\<close>

text \<open>
  Equality compares lengths first and then the units of both iterators in step, unless both handles share their
  node: \<open>shared\<close> is the answer of \<^verbatim>\<open>Arc::ptr_eq\<close>.
\<close>

fun streams_equal :: "(string_error, u16) result list \<Rightarrow> (string_error, u16) result list \<Rightarrow> (string_error, bool) result" where
  "streams_equal [] [] = Inr True"
| "streams_equal (Inl e # _) _ = Inl e"
| "streams_equal _ (Inl e # _) = Inl e"
| "streams_equal (Inr a # as) (Inr b # bs) = (if a = b then streams_equal as bs else Inr False)"
| "streams_equal _ _ = Inr False"

definition js_eq :: "bool \<Rightarrow> js_string \<Rightarrow> js_string \<Rightarrow> (string_error, bool) result" where
  "js_eq shared left right =
     (if shared then Inr True
      else if js_len left = js_len right then streams_equal (code_units left) (code_units right) else Inr False)"

definition utf8_byte :: "u32 \<Rightarrow> (string_error, u8) result" where
  "utf8_byte value = (if value < 256 then Inr (ucast value) else Inl String_Panic)"

definition encode_utf8_code_point :: "u8 list \<Rightarrow> u32 \<Rightarrow> (string_error, u8 list) result" where
  "encode_utf8_code_point output c =
     (let head = (\<lambda>shift mark. and_then (utf8_byte (drop_bit shift c)) (\<lambda>b. Inr (b OR mark)));
          tail = (\<lambda>shift. and_then (utf8_byte (drop_bit shift c AND 0x3f)) (\<lambda>b. Inr (b OR 0x80)));
          extend = (\<lambda>bytes. and_then (try_map id bytes) (\<lambda>bs. Inr (output @ bs)))
      in if c < 0x80 then extend [utf8_byte c]
         else if c < 0x800 then extend [head 6 0xc0, tail 0]
         else if c < 0x10000 then extend [head 12 0xe0, tail 6, tail 0]
         else extend [head 18 0xf0, tail 12, tail 6, tail 0])"

definition is_high_surrogate :: "u16 \<Rightarrow> bool" where
  "is_high_surrogate unit \<longleftrightarrow> 0xd800 \<le> unit \<and> unit \<le> 0xdbff"

definition is_low_surrogate :: "u16 \<Rightarrow> bool" where
  "is_low_surrogate unit \<longleftrightarrow> 0xdc00 \<le> unit \<and> unit \<le> 0xdfff"

definition surrogate_pair :: "u16 \<Rightarrow> u16 \<Rightarrow> u32" where
  "surrogate_pair high low = 0x10000 + push_bit 10 (ucast high - 0xd800) + (ucast low - 0xdc00)"

fun utf8_loop :: "bool \<Rightarrow> (string_error, u16) result list \<Rightarrow> u8 list \<Rightarrow> (string_error, u8 list) result" where
  "utf8_loop cesu8 [] output = Inr output"
| "utf8_loop cesu8 (Inl e # items) output = Inl e"
| "utf8_loop cesu8 [Inr unit] output = encode_utf8_code_point output (ucast unit)"
| "utf8_loop cesu8 (Inr unit # Inl e # items) output =
     (if \<not> cesu8 \<and> is_high_surrogate unit then Inl e
      else and_then (encode_utf8_code_point output (ucast unit)) (\<lambda>_. Inl e))"
| "utf8_loop cesu8 (Inr unit # Inr low # items) output =
     (if \<not> cesu8 \<and> is_high_surrogate unit \<and> is_low_surrogate low
      then and_then (encode_utf8_code_point output (surrogate_pair unit low)) (utf8_loop cesu8 items)
      else and_then (encode_utf8_code_point output (ucast unit)) (utf8_loop cesu8 (Inr low # items)))"

definition to_quickjs_utf8_bytes :: "allocator \<Rightarrow> bool \<Rightarrow> js_string \<Rightarrow> (string_error, u8 list) result" where
  "to_quickjs_utf8_bytes alloc cesu8 s =
     and_then (string_reserve alloc 0 (unat (js_len s) * 3)) (\<lambda>_. utf8_loop cesu8 (code_units s) [])"

definition to_wtf8_bytes :: "allocator \<Rightarrow> js_string \<Rightarrow> (string_error, u8 list) result" where
  "to_wtf8_bytes alloc = to_quickjs_utf8_bytes alloc False"

definition to_cesu8_bytes :: "allocator \<Rightarrow> js_string \<Rightarrow> (string_error, u8 list) result" where
  "to_cesu8_bytes alloc = to_quickjs_utf8_bytes alloc True"

end
