(* ===== verification/Js_Rope.thy ===== *)
theory Js_Rope
  imports Js_String
begin

text \<open>
  Strings against the sequence of their code units: the iterator yields it, concatenation appends it, and
  rebalancing keeps it within the depth its buckets allow.
\<close>

section \<open>What a string denotes\<close>

fun units :: "js_string \<Rightarrow> u16 list" where
  "units (Latin1 us) = map ucast us"
| "units (Utf16 us) = us"
| "units (Rope left right _ _ _) = units left @ units right"

abbreviation max_units :: nat where
  "max_units \<equiv> 1073741823"

fun string_wf :: "js_string \<Rightarrow> bool" where
  "string_wf (Latin1 us) \<longleftrightarrow> length us \<le> max_units"
| "string_wf (Utf16 us) \<longleftrightarrow> length us \<le> max_units \<and> (\<exists>u\<in>set us. 256 \<le> u)"
| "string_wf (Rope left right len depth wide) \<longleftrightarrow>
     string_wf left \<and> string_wf right \<and> unat len = unat (js_len left) + unat (js_len right) \<and> unat len \<le> max_units \<and>
     unat depth = max (unat (js_depth left)) (unat (js_depth right)) + 1 \<and> wide = (is_wide left \<or> is_wide right)"

lemma unat_MAX [simp]: "unat MAX_STRING_CODE_UNITS = max_units"
  by (simp add: MAX_STRING_CODE_UNITS_def)

lemma wf_len: "string_wf s \<Longrightarrow> unat (js_len s) = length (units s) \<and> length (units s) \<le> max_units"
  by (induction s) (simp_all add: unat_of_nat)

lemmas js_len_units = wf_len [THEN conjunct1]
lemmas units_bounded = wf_len [THEN conjunct2]

lemma wf_wide: "string_wf s \<Longrightarrow> is_wide s \<longleftrightarrow> (\<exists>u\<in>set (units s). 256 \<le> u)"
proof (induction s)
  case (Latin1 us)
  have "\<not> 256 \<le> (ucast u :: u16)" for u :: u8
    using less_le_trans [OF unat_u8_bound, of 65536 u]
    by (simp add: word_le_nat_alt unsigned_ucast_eq take_bit_nat_def not_le)
  then show ?case by auto
qed auto

lemma js_is_empty_units: "string_wf s \<Longrightarrow> js_is_empty s \<longleftrightarrow> units s = []"
  using js_len_units [of s] by (auto simp: js_is_empty_def word_unat_eq_iff)

lemma leaf_depth: "is_leaf s \<Longrightarrow> js_depth s = 0"
  by (cases s) simp_all

section \<open>Iteration\<close>

text \<open>The number of stack entries a traversal needs at once.\<close>

fun pending :: "js_string \<Rightarrow> nat" where
  "pending (Rope left right _ _ _) = max (pending left + 1) (pending right)"
| "pending _ = 0"

lemma pending_depth: "string_wf s \<Longrightarrow> pending s \<le> unat (js_depth s)"
  by (induction s) auto

fun stack_fits :: "js_string list \<Rightarrow> bool" where
  "stack_fits [] \<longleftrightarrow> True"
| "stack_fits (s # stack) \<longleftrightarrow> (pending s = 0 \<or> pending s + length stack \<le> ROPE_ITER_STACK_CAPACITY) \<and> stack_fits stack"

fun cursor_rest :: "leaf_cursor \<Rightarrow> u16 list" where
  "cursor_rest (Cursor_Latin1 us i) = map ucast (drop i us)"
| "cursor_rest (Cursor_Utf16 us i) = drop i us"

definition iter_rest :: "code_units_iter \<Rightarrow> u16 list" where
  "iter_rest it = (case cu_leaf it of None \<Rightarrow> [] | Some c \<Rightarrow> cursor_rest c) @ concat (map units (cu_stack it))"

lemma cursor_unit_rest: "cursor_unit c = (case cursor_rest c of [] \<Rightarrow> None | u # _ \<Rightarrow> Some u)"
  by (cases c) (auto simp: get_def drop_map Cons_nth_drop_Suc [symmetric] split: list.splits)

lemma cursor_advance_rest: "cursor_rest (cursor_advance c) = tl (cursor_rest c)"
  by (cases c) (simp_all add: drop_Suc tl_drop flip: map_tl)

lemma descend_cases:
  "case descend stack s of
     Inl e \<Rightarrow> e = String_Panic \<and> \<not> stack_fits (s # stack)
   | Inr (stack', c) \<Rightarrow> cursor_rest c @ concat (map units stack') = units s @ concat (map units stack) \<and>
       (stack_fits stack' \<longleftrightarrow> stack_fits (s # stack))"
  by (induction stack s rule: descend.induct) (auto split: sum.splits prod.splits if_splits)

definition iter_ok :: "code_units_iter \<Rightarrow> bool" where
  "iter_ok it \<longleftrightarrow> cu_remaining it = length (iter_rest it)"

lemma code_units_next_cases:
  assumes "iter_ok it"
  shows "case code_units_next it of
     Inl e \<Rightarrow> e = String_Panic \<and> \<not> stack_fits (cu_stack it)
   | Inr None \<Rightarrow> iter_rest it = [] \<and> stack_fits (cu_stack it)
   | Inr (Some (u, it')) \<Rightarrow> iter_rest it = u # iter_rest it' \<and> iter_ok it' \<and>
       (stack_fits (cu_stack it') \<longleftrightarrow> stack_fits (cu_stack it))"
  using assms
proof (induction it rule: code_units_next.induct)
  case (1 it)
  show ?case
  proof (cases "Option.bind (cu_leaf it) cursor_unit")
    case (Some u)
    then obtain c where c: "cu_leaf it = Some c" "cursor_unit c = Some u"
      by (cases "cu_leaf it") auto
    then obtain us where "cursor_rest c = u # us"
      by (auto simp: cursor_unit_rest split: list.splits)
    then show ?thesis
      using c 1(2) by (subst code_units_next.simps) (auto simp: iter_ok_def iter_rest_def cursor_advance_rest)
  next
    case None
    then have rest: "iter_rest it = concat (map units (cu_stack it))"
      by (cases "cu_leaf it") (auto simp: iter_rest_def cursor_unit_rest split: list.splits)
    show ?thesis
    proof (cases "cu_stack it")
      case Nil
      then show ?thesis
        using None rest by (subst code_units_next.simps) simp
    next
      case (Cons s stack)
      show ?thesis
      proof (cases "descend stack s")
        case (Inl e)
        then show ?thesis
          using None Cons descend_cases [where stack = stack and s = s] by (subst code_units_next.simps) simp
      next
        case (Inr sc)
        obtain stack' c where sc: "sc = (stack', c)" by (cases sc)
        let ?it = "it\<lparr>cu_stack := stack', cu_leaf := Some c\<rparr>"
        have d: "iter_rest ?it = iter_rest it" "stack_fits (cu_stack ?it) \<longleftrightarrow> stack_fits (cu_stack it)"
          using descend_cases [where stack = stack and s = s] Inr sc Cons rest by (simp_all add: iter_rest_def)
        then have "iter_ok ?it"
          using 1(2) by (simp add: iter_ok_def)
        from 1(1) [OF None Cons Inr sc [symmetric] this] show ?thesis
          using None Cons Inr sc unfolding d by (subst code_units_next.simps) simp
      qed
    qed
  qed
qed

lemma unit_stream_cases:
  assumes "iter_ok it"
  shows "if stack_fits (cu_stack it) then unit_stream n it = map Inr (take n (iter_rest it))
    else if length (iter_rest it) < n
    then \<exists>k \<le> length (iter_rest it). unit_stream n it = map Inr (take k (iter_rest it)) @ [Inl String_Panic]
    else True"
  using assms
proof (induction n arbitrary: it)
  case (Suc n)
  note cases = code_units_next_cases [OF Suc.prems]
  show ?case
  proof (cases "code_units_next it")
    case (Inl e)
    then show ?thesis
      using cases by (auto intro!: exI [of _ 0])
  next
    case (Inr r)
    show ?thesis
    proof (cases r)
      case None
      then show ?thesis
        using cases Inr by simp
    next
      case (Some ui)
      obtain u it' where ui: "ui = (u, it')" by (cases ui)
      have rest: "iter_rest it = u # iter_rest it'" "iter_ok it'" "stack_fits (cu_stack it') \<longleftrightarrow> stack_fits (cu_stack it)"
        using cases Inr Some ui by simp_all
      have stream: "unit_stream (Suc n) it = Inr u # unit_stream n it'"
        using Inr Some ui by simp
      show ?thesis
        using Suc.IH [OF rest(2)] unfolding rest stream
        by (auto split: if_splits)
    qed
  qed
qed simp

lemma code_units_exact:
  assumes "string_wf s"
  shows "if pending s \<le> ROPE_ITER_STACK_CAPACITY then code_units s = map Inr (units s)
    else \<exists>k \<le> length (units s). code_units s = map Inr (take k (units s)) @ [Inl String_Panic]"
proof -
  have it: "iter_rest (code_units_new s) = units s" "iter_ok (code_units_new s)"
    "stack_fits (cu_stack (code_units_new s)) \<longleftrightarrow> pending s \<le> ROPE_ITER_STACK_CAPACITY"
    using js_len_units [OF assms] by (auto simp: code_units_new_def iter_ok_def iter_rest_def)
  show ?thesis
    using unit_stream_cases [OF it(2), of "unat (js_len s) + 1"] js_len_units [OF assms]
    unfolding code_units_def it by (auto split: if_splits)
qed

lemma code_units_shallow: "string_wf s \<Longrightarrow> pending s \<le> ROPE_ITER_STACK_CAPACITY \<Longrightarrow> code_units s = map Inr (units s)"
  using code_units_exact [of s] by simp

lemma code_units_leaf: "string_wf s \<Longrightarrow> is_leaf s \<Longrightarrow> code_units s = map Inr (units s)"
  using code_units_shallow [of s] by (cases s) simp_all

lemma unit_at_units: "string_wf s \<Longrightarrow> unat i < length (units s) \<Longrightarrow> unit_at s i = Inr (units s ! unat i)"
proof (induction s arbitrary: i)
  case (Rope left right len depth wide)
  have len: "unat (js_len left) = length (units left)"
    using Rope.prems js_len_units by simp
  show ?case
  proof (cases "i < js_len left")
    case True
    then show ?thesis
      using Rope len by (simp add: word_less_nat_alt nth_append)
  next
    case False
    then have le: "js_len left \<le> i" by simp
    then have "unat (i - js_len left) = unat i - length (units left)"
      using len by (simp add: unat_sub)
    then show ?thesis
      using Rope len False le by (simp add: word_less_nat_alt word_le_nat_alt nth_append)
  qed
qed (auto simp: get_def)

lemma code_unit_at_exact:
  "string_wf s \<Longrightarrow> code_unit_at s i = Inr (get (units s) (unat i))"
  using js_len_units [of s] unit_at_units [of s i] by (simp add: code_unit_at_def get_def word_le_nat_alt)

section \<open>Construction\<close>

definition refused :: "allocator \<Rightarrow> string_error \<Rightarrow> bool" where
  "refused alloc e \<longleftrightarrow> (\<exists>len n. e = String_AllocationFailed n \<and> \<not> alloc len n)"

lemma refused_reserve: "string_reserve alloc len n = Inl e \<Longrightarrow> refused alloc e"
  by (auto simp: string_reserve_def refused_def err_if_def split: if_splits)

text \<open>What building a leaf from given units can answer.\<close>

definition leaf_outcome :: "allocator \<Rightarrow> u16 list \<Rightarrow> (string_error, js_string) result \<Rightarrow> bool" where
  "leaf_outcome alloc us r \<longleftrightarrow>
     (case r of
        Inr s \<Rightarrow> is_leaf s \<and> string_wf s \<and> units s = us
      | Inl e \<Rightarrow> refused alloc e \<or> max_units < length us \<and> (\<exists>n. e = TooLong n MAX_STRING_CODE_UNITS))"

lemma ucast_latin1: "unit < 256 \<Longrightarrow> (ucast (ucast (unit :: u16) :: u8) :: u16) = unit"
proof -
  assume "unit < 256"
  then have "unat (take_bit 8 unit) = unat unit"
    by (simp add: unsigned_take_bit_eq take_bit_nat_def word_less_nat_alt)
  then show ?thesis
    by (simp add: word_unat_eq_iff unsigned_ucast_eq unsigned_take_bit_eq)
qed

lemma units_loop_outcome:
  assumes "case utf16 of None \<Rightarrow> length latin1 \<le> max_units | Some wide \<Rightarrow> length wide \<le> max_units \<and> (\<exists>u\<in>set wide. 256 \<le> u)"
  shows "leaf_outcome alloc ((case utf16 of None \<Rightarrow> map ucast latin1 | Some wide \<Rightarrow> wide) @ us) (units_loop alloc latin1 utf16 (map Inr us))"
  using assms
proof (induction us arbitrary: latin1 utf16)
  case Nil
  then show ?case by (auto simp: leaf_outcome_def split: option.splits)
next
  case (Cons u us)
  show ?case
  proof (cases "(case utf16 of Some wide \<Rightarrow> length wide | None \<Rightarrow> length latin1) = max_units")
    case True
    then show ?thesis by (auto simp: leaf_outcome_def split: option.splits)
  next
    case False
    show ?thesis
    proof (cases utf16)
      case (Some wide)
      then show ?thesis
        using False Cons.prems Cons.IH [of latin1 "Some (wide @ [u])"]
        by (auto simp: try_push_def leaf_outcome_def refused_def)
    next
      case None
      show ?thesis
      proof (cases "u < 256")
        case True
        then show ?thesis
          using False Cons.prems None Cons.IH [of "latin1 @ [ucast u]" None]
          by (auto simp: try_push_def leaf_outcome_def refused_def ucast_latin1)
      next
        case wide: False
        have "leaf_outcome alloc (map ucast latin1 @ u # us) (units_loop alloc [] (Some (map ucast latin1 @ [u])) (map Inr us))"
          using False Cons.prems None wide Cons.IH [of "[]" "Some (map ucast latin1 @ [u])"] by (auto simp: not_less)
        then show ?thesis
          using False None wide by (auto simp: leaf_outcome_def dest: refused_reserve split: sum.splits)
      qed
    qed
  qed
qed

lemma from_code_units_outcome: "leaf_outcome alloc us (from_code_units alloc (length us) (map Inr us))"
  using units_loop_outcome [of "[]" None alloc us]
  by (cases "string_reserve alloc 0 (min (length us) MAX_INITIAL_RESERVE)")
    (auto simp: from_code_units_def leaf_outcome_def dest: refused_reserve)

lemma copy_concat_outcome:
  assumes "string_wf a" "is_leaf a" "string_wf b" "is_leaf b"
  shows "leaf_outcome alloc (units a @ units b) (copy_concat alloc a b)"
  using from_code_units_outcome [of alloc "units a @ units b"] js_len_units assms
  by (simp add: copy_concat_def code_units_leaf)

section \<open>Nodes\<close>

lemma checked_sum_eq:
  "checked_sum a b =
     (if unat a + unat b \<le> max_units then Inr (a + b) else Inl (TooLong (word_of_nat (unat a + unat b)) MAX_STRING_CODE_UNITS))"
proof -
  have small: "unat a + unat b < 18446744073709551616"
    using unat_u32_bound [of a] unat_u32_bound [of b] by linarith
  have "unat (ucast x :: u64) = unat x" for x :: u32
    using less_trans [OF unat_u32_bound, of 18446744073709551616 x] by (simp add: unsigned_ucast_eq take_bit_nat_def)
  then have val: "unat (ucast a + ucast b :: u64) = unat a + unat b"
    using small by (simp add: unat_word_ariths)
  then have sum: "(ucast a + ucast b :: u64) = word_of_nat (unat a + unat b)"
    by simp
  have max: "unat (ucast MAX_STRING_CODE_UNITS :: u64) = max_units"
    by (simp add: MAX_STRING_CODE_UNITS_def)
  have "(ucast (ucast a + ucast b :: u64) :: u32) = a + b" if "unat a + unat b \<le> max_units"
  proof -
    have "unat (ucast (ucast a + ucast b :: u64) :: u32) = unat a + unat b"
      unfolding unsigned_ucast_eq val using that by (simp add: take_bit_nat_def)
    then show ?thesis
      using that by (simp add: word_unat_eq_iff unat_word_ariths)
  qed
  then show ?thesis
    unfolding checked_sum_def Let_def word_less_nat_alt val max by auto
qed

lemma unat_next_depth:
  "unat (saturating_add (max a b) 1) = min 255 (max (unat a) (unat b) + 1)" for a b :: u8
proof -
  have "unat (max a b) = max (unat a) (unat b)"
    by (simp add: max_def word_le_nat_alt)
  then show ?thesis
    by (auto simp: saturating_add_def checked_add_def unat_word_ariths unsigned_minus_1_eq_mask mask_eq_exp_minus_1 split: if_splits)
qed

lemma new_rope_node_ok:
  assumes "string_wf a" "string_wf b" "length (units a) + length (units b) \<le> max_units"
    "unat (js_depth a) < 255" "unat (js_depth b) < 255"
  obtains s where "new_rope_node a b = Inr s" "string_wf s" "units s = units a @ units b"
    "unat (js_depth s) = max (unat (js_depth a)) (unat (js_depth b)) + 1"
proof -
  have len: "unat (js_len a) + unat (js_len b) \<le> max_units" "unat (js_len a + js_len b) = unat (js_len a) + unat (js_len b)"
    using assms js_len_units by (simp_all add: unat_word_ariths)
  have depth: "unat (saturating_add (max (js_depth a) (js_depth b)) 1) = max (unat (js_depth a)) (unat (js_depth b)) + 1"
    using assms(4,5) by (simp add: unat_next_depth)
  show ?thesis
    by (rule that [of "Rope a b (js_len a + js_len b) (saturating_add (max (js_depth a) (js_depth b)) 1) (is_wide a \<or> is_wide b)"])
      (use assms len depth in \<open>simp_all add: new_rope_node_def checked_sum_eq\<close>)
qed

section \<open>Buckets\<close>

definition bucket_length :: "nat \<Rightarrow> nat" where
  "bucket_length i = unat (ROPE_BUCKET_LENGTHS ! i)"

lemma bucket_count [simp]: "length ROPE_BUCKET_LENGTHS = 44"
  by (simp add: ROPE_BUCKET_LENGTHS_def)

lemma bucket_length_bounds: "bucket_length 0 = 1" "bucket_length 43 = 1134903170"
  by (simp_all add: bucket_length_def ROPE_BUCKET_LENGTHS_def)

lemma bucket_length_double: "i < 43 \<Longrightarrow> bucket_length (Suc i) \<le> 2 * bucket_length i"
proof -
  assume i: "i < 43"
  have "list_all2 (\<lambda>a b. unat b \<le> 2 * unat a) (butlast ROPE_BUCKET_LENGTHS) (tl ROPE_BUCKET_LENGTHS)"
    by (simp add: ROPE_BUCKET_LENGTHS_def)
  then show ?thesis
    using i by (auto simp: list_all2_conv_all_nth bucket_length_def nth_tl nth_butlast)
qed

lemma bucket_below_last: "i < 44 \<Longrightarrow> bucket_length i \<le> n \<Longrightarrow> n \<le> max_units \<Longrightarrow> i < 43"
  using bucket_length_bounds(2) by (cases "i = 43") auto

definition opt_units :: "js_string option \<Rightarrow> u16 list" where
  "opt_units b = (case b of None \<Rightarrow> [] | Some s \<Rightarrow> units s)"

lemma opt_units_simps [simp]: "opt_units None = []" "opt_units (Some s) = units s"
  by (simp_all add: opt_units_def)

definition contents :: "js_string option list \<Rightarrow> u16 list" where
  "contents buckets = concat (map opt_units (rev buckets))"

definition buckets_ok :: "js_string option list \<Rightarrow> bool" where
  "buckets_ok buckets \<longleftrightarrow> length buckets = 44 \<and>
     (\<forall>i<44. \<forall>s. buckets ! i = Some s \<longrightarrow>
        string_wf s \<and> bucket_length i \<le> length (units s) \<and> unat (js_depth s) \<le> 2 * i)"

definition clear_below :: "js_string option list \<Rightarrow> nat \<Rightarrow> bool" where
  "clear_below buckets i \<longleftrightarrow> (\<forall>j<i. buckets ! j = None)"

lemma contents_split:
  assumes "clear_below buckets i" "i < length buckets"
  shows "contents buckets = contents (drop (Suc i) buckets) @ opt_units (buckets ! i)"
proof -
  have "concat (map opt_units (rev (take i buckets))) = []"
    using assms by (auto simp: clear_below_def in_set_conv_nth)
  moreover have "buckets = take i buckets @ buckets ! i # drop (Suc i) buckets"
    using assms(2) by (rule id_take_nth_drop)
  ultimately show ?thesis
    unfolding contents_def by (metis (no_types, lifting) append_Nil2 append_assoc concat.simps concat_append list.simps(8,9) map_append rev.simps(2) rev_append)
qed

lemma contents_update:
  assumes "clear_below buckets i" "i < length buckets"
  shows "contents (buckets[i := b]) = contents (drop (Suc i) buckets) @ opt_units b"
proof -
  have "clear_below (buckets[i := b]) i"
    using assms by (simp add: clear_below_def)
  then show ?thesis
    using contents_split [of "buckets[i := b]" i] assms(2) by simp
qed

lemma clear_below_Suc: "clear_below buckets i \<Longrightarrow> i < length buckets \<Longrightarrow> clear_below (buckets[i := None]) (Suc i)"
  by (auto simp: clear_below_def less_Suc_eq)

lemma buckets_ok_clear: "buckets_ok buckets \<Longrightarrow> i < 44 \<Longrightarrow> buckets_ok (buckets[i := None])"
  by (auto simp: buckets_ok_def nth_list_update)

lemma buckets_okD:
  "buckets_ok buckets \<Longrightarrow> i < 44 \<Longrightarrow> buckets ! i = Some s \<Longrightarrow>
     string_wf s \<and> bucket_length i \<le> length (units s) \<and> unat (js_depth s) \<le> 2 * i"
  by (simp add: buckets_ok_def)

section \<open>Rebalancing\<close>

text \<open>What has been collected below a bucket is one level shallower than the bucket may be.\<close>

definition aggregate_ok :: "js_string option \<Rightarrow> nat \<Rightarrow> bool" where
  "aggregate_ok aggregate i \<longleftrightarrow> (case aggregate of None \<Rightarrow> True | Some a \<Rightarrow> string_wf a \<and> unat (js_depth a) < 2 * i)"

lemma aggregate_ok_mono: "aggregate_ok aggregate i \<Longrightarrow> i \<le> j \<Longrightarrow> aggregate_ok aggregate j"
  by (auto simp: aggregate_ok_def split: option.splits)

lemma aggregate_join:
  assumes "string_wf a" "unat (js_depth a) \<le> 2 * i" "aggregate_ok aggregate i"
    "length (units a) + length (opt_units aggregate) \<le> max_units" "i < 44"
  obtains s where "(case aggregate of None \<Rightarrow> Inr a | Some right \<Rightarrow> new_rope_node a right) = Inr s"
    "aggregate_ok (Some s) (Suc i)" "units s = units a @ opt_units aggregate"
proof (cases aggregate)
  case None
  then show ?thesis
    using that [of a] assms by (simp add: aggregate_ok_def)
next
  case (Some right)
  then obtain s where "new_rope_node a right = Inr s" "string_wf s" "units s = units a @ units right"
    "unat (js_depth s) = max (unat (js_depth a)) (unat (js_depth right)) + 1"
    using new_rope_node_ok [of a right] assms by (auto simp: aggregate_ok_def)
  then show ?thesis
    using that [of s] assms Some by (simp add: aggregate_ok_def)
qed

lemma collect_lower_steps:
  assumes "Suc i < 44"
  shows "\<not> ROPE_BUCKET_LENGTHS ! Suc i \<le> len \<Longrightarrow> collect_lower len buckets aggregate i = Inr (buckets, aggregate, i)"
    and "ROPE_BUCKET_LENGTHS ! Suc i \<le> len \<Longrightarrow> buckets ! i = None \<Longrightarrow>
      collect_lower len buckets aggregate i = collect_lower len buckets aggregate (Suc i)"
    and "ROPE_BUCKET_LENGTHS ! Suc i \<le> len \<Longrightarrow> buckets ! i = Some b \<Longrightarrow>
      (case aggregate of None \<Rightarrow> Inr b | Some right \<Rightarrow> new_rope_node b right) = Inr s \<Longrightarrow>
      collect_lower len buckets aggregate i = collect_lower len (buckets[i := None]) (Some s) (Suc i)"
proof -
  have got: "get ROPE_BUCKET_LENGTHS (i + 1) = Some (ROPE_BUCKET_LENGTHS ! Suc i)"
    using assms by simp
  note step = collect_lower.simps [of len buckets aggregate i, unfolded got option.case]
  show "\<not> ROPE_BUCKET_LENGTHS ! Suc i \<le> len \<Longrightarrow> collect_lower len buckets aggregate i = Inr (buckets, aggregate, i)"
    "ROPE_BUCKET_LENGTHS ! Suc i \<le> len \<Longrightarrow> buckets ! i = None \<Longrightarrow>
      collect_lower len buckets aggregate i = collect_lower len buckets aggregate (Suc i)"
    by (simp_all add: step)
  show "ROPE_BUCKET_LENGTHS ! Suc i \<le> len \<Longrightarrow> buckets ! i = Some b \<Longrightarrow>
      (case aggregate of None \<Rightarrow> Inr b | Some right \<Rightarrow> new_rope_node b right) = Inr s \<Longrightarrow>
      collect_lower len buckets aggregate i = collect_lower len (buckets[i := None]) (Some s) (Suc i)"
    unfolding step by (cases aggregate) simp_all
qed

lemma collect_lower_ok:
  assumes "buckets_ok buckets" "clear_below buckets i" "i < 44" "aggregate_ok aggregate i"
    "length (contents buckets) + length (opt_units aggregate) \<le> max_units"
    "bucket_length i \<le> unat len" "unat len \<le> max_units"
  shows "\<exists>buckets' aggregate' i'. collect_lower len buckets aggregate i = Inr (buckets', aggregate', i') \<and>
    buckets_ok buckets' \<and> clear_below buckets' i' \<and> i' < 44 \<and> aggregate_ok aggregate' i' \<and>
    contents buckets' @ opt_units aggregate' = contents buckets @ opt_units aggregate \<and> bucket_length i' \<le> unat len"
  using assms
proof (induction "44 - i" arbitrary: i buckets aggregate rule: less_induct)
  case less
  note prems = less.prems
  have i: "Suc i < 44"
    using bucket_below_last [of i "unat len"] prems by simp
  have lb: "length buckets = 44"
    using prems(1) by (simp add: buckets_ok_def)
  show ?case
  proof (cases "ROPE_BUCKET_LENGTHS ! Suc i \<le> len")
    case False
    then show ?thesis
      using collect_lower_steps(1) [OF i] prems by auto
  next
    case True
    then have len: "bucket_length (Suc i) \<le> unat len"
      by (simp add: bucket_length_def word_le_nat_alt)
    show ?thesis
    proof (cases "buckets ! i")
      case None
      have "clear_below buckets (Suc i)"
        using prems(2) None by (auto simp: clear_below_def less_Suc_eq)
      then show ?thesis
        unfolding collect_lower_steps(2) [OF i True None]
        using less.hyps [of "Suc i" buckets aggregate] prems i len aggregate_ok_mono [of aggregate i "Suc i"] by simp
    next
      case (Some b)
      have b: "string_wf b" "unat (js_depth b) \<le> 2 * i"
        using buckets_okD [OF prems(1,3) Some] by auto
      have split: "contents buckets = contents (buckets[i := None]) @ units b"
        using contents_split [OF prems(2)] contents_update [OF prems(2), of None] prems(3) lb Some by simp
      have "length (units b) + length (opt_units aggregate) \<le> max_units"
        using prems(5) unfolding split by simp
      then obtain s where s: "(case aggregate of None \<Rightarrow> Inr b | Some right \<Rightarrow> new_rope_node b right) = Inr s"
        "aggregate_ok (Some s) (Suc i)" "units s = units b @ opt_units aggregate"
        using aggregate_join [OF b prems(4) _ prems(3)] by blast
      have same: "contents (buckets[i := None]) @ opt_units (Some s) = contents buckets @ opt_units aggregate"
        unfolding split using s(3) by simp
      show ?thesis
        unfolding collect_lower_steps(3) [OF i True Some s(1)] same [symmetric]
        using prems i len s(2) arg_cong [OF same, of length] clear_below_Suc [OF prems(2)] buckets_ok_clear [OF prems(1,3)] lb
        by (intro less.hyps) simp_all
    qed
  qed
qed

lemma place_bucket_steps:
  assumes "i < length buckets"
  shows "buckets ! i = None \<Longrightarrow> place_bucket buckets a i = Inr (buckets[i := Some a])"
    and "buckets ! i = Some b \<Longrightarrow> new_rope_node b a = Inr s \<Longrightarrow>
      place_bucket buckets a i = place_bucket (buckets[i := None]) s (Suc i)"
  using assms by (subst place_bucket.simps, simp add: get_def)+

lemma place_bucket_ok:
  assumes "buckets_ok buckets" "clear_below buckets i" "i < 44" "string_wf a" "bucket_length i \<le> length (units a)"
    "unat (js_depth a) \<le> 2 * i" "length (contents buckets) + length (units a) \<le> max_units"
  shows "\<exists>buckets'. place_bucket buckets a i = Inr buckets' \<and> buckets_ok buckets' \<and> contents buckets' = contents buckets @ units a"
  using assms
proof (induction "44 - i" arbitrary: i buckets a rule: less_induct)
  case less
  note prems = less.prems
  have i: "Suc i < 44"
    using bucket_below_last [of i "length (units a)"] prems by simp
  have lb: "length buckets = 44"
    using prems(1) by (simp add: buckets_ok_def)
  have split: "contents buckets = contents (buckets[i := None]) @ opt_units (buckets ! i)"
    using contents_split [OF prems(2)] contents_update [OF prems(2), of None] prems(3) lb by simp
  show ?case
  proof (cases "buckets ! i")
    case None
    have "buckets_ok (buckets[i := Some a])"
      using prems by (auto simp: buckets_ok_def nth_list_update)
    moreover have "contents (buckets[i := Some a]) = contents buckets @ units a"
      using contents_update [OF prems(2)] contents_split [OF prems(2)] prems(3) lb None by simp
    ultimately show ?thesis
      using place_bucket_steps(1) [of i buckets a] None prems(3) lb by simp
  next
    case (Some b)
    have b: "string_wf b" "unat (js_depth b) \<le> 2 * i" "bucket_length i \<le> length (units b)"
      using buckets_okD [OF prems(1,3) Some] by auto
    have sum: "length (units b) + length (units a) \<le> max_units"
      using prems(7) Some unfolding split by simp
    obtain s where s: "new_rope_node b a = Inr s" "string_wf s" "units s = units b @ units a"
      "unat (js_depth s) = max (unat (js_depth b)) (unat (js_depth a)) + 1"
      using new_rope_node_ok [OF b(1) prems(4) sum] b(2) prems(3,6) by auto
    have deep: "unat (js_depth s) \<le> 2 * Suc i" "bucket_length (Suc i) \<le> length (units s)"
      using s b(2,3) prems(5,6) bucket_length_double [of i] i by simp_all
    have same: "contents (buckets[i := None]) @ units s = contents buckets @ units a"
      unfolding split using s(3) Some by simp
    show ?thesis
      unfolding place_bucket_steps(2) [OF _ Some s(1), unfolded lb, OF prems(3)] same [symmetric]
      using prems i deep s(2) arg_cong [OF same, of length] clear_below_Suc [OF prems(2)] buckets_ok_clear [OF prems(1,3)] lb
      by (intro less.hyps) simp_all
  qed
qed

lemma rebalance_leaf_ok:
  assumes "buckets_ok buckets" "string_wf leaf" "is_leaf leaf" "units leaf \<noteq> []"
    "length (contents buckets) + length (units leaf) \<le> max_units"
  shows "\<exists>buckets'. rebalance_leaf leaf buckets = Inr buckets' \<and> buckets_ok buckets' \<and>
    contents buckets' = contents buckets @ units leaf"
proof -
  have len: "unat (js_len leaf) = length (units leaf)" "bucket_length 0 \<le> length (units leaf)" "length (units leaf) \<le> max_units"
    using js_len_units [OF assms(2)] units_bounded [OF assms(2)] assms(4) bucket_length_bounds by (auto simp: Suc_le_eq)
  obtain buckets' aggregate i where c: "collect_lower (js_len leaf) buckets None 0 = Inr (buckets', aggregate, i)"
    "buckets_ok buckets'" "clear_below buckets' i" "i < 44" "aggregate_ok aggregate i"
    "contents buckets' @ opt_units aggregate = contents buckets" "bucket_length i \<le> length (units leaf)"
    using collect_lower_ok [of buckets 0 None "js_len leaf"] assms(1,5) len by (auto simp: clear_below_def aggregate_ok_def)
  have sum: "length (contents buckets') + length (opt_units aggregate) + length (units leaf) \<le> max_units"
    using assms(5) unfolding c(6) [symmetric] by simp
  obtain a where a: "(case aggregate of None \<Rightarrow> Inr leaf | Some left \<Rightarrow> new_rope_node left leaf) = Inr a" "string_wf a"
    "units a = opt_units aggregate @ units leaf" "unat (js_depth a) \<le> 2 * i"
  proof (cases aggregate)
    case None
    then show ?thesis
      using that [of leaf] assms(2) leaf_depth [OF assms(3)] by simp
  next
    case (Some left)
    then obtain s where "new_rope_node left leaf = Inr s" "string_wf s" "units s = units left @ units leaf"
      "unat (js_depth s) = max (unat (js_depth left)) (unat (js_depth leaf)) + 1"
      using new_rope_node_ok [of left leaf] c(4,5) assms(2) sum leaf_depth [OF assms(3)] by (auto simp: aggregate_ok_def)
    then show ?thesis
      using that [of s] Some c(5) leaf_depth [OF assms(3)] by (simp add: aggregate_ok_def)
  qed
  have "\<exists>buckets''. place_bucket buckets' a i = Inr buckets'' \<and> buckets_ok buckets'' \<and> contents buckets'' = contents buckets' @ units a"
    using place_bucket_ok [OF c(2-4) a(2) _ a(4)] c(7) sum a(3) by simp
  then show ?thesis
    using c(1,6) a(1,3) by (auto simp: rebalance_leaf_def)
qed

lemma rebalance_loop_leaf:
  "is_leaf s \<Longrightarrow> rebalance_loop alloc (s # stack) buckets =
     (if js_is_empty s then rebalance_loop alloc stack buckets
      else case rebalance_leaf s buckets of Inl e \<Rightarrow> Inl e | Inr buckets' \<Rightarrow> rebalance_loop alloc stack buckets')"
  by (cases s) (simp_all add: rebalance_loop.simps(2))

lemma node_count_pos: "0 < node_count s"
  by (cases s) simp_all

definition loop_outcome :: "allocator \<Rightarrow> u16 list \<Rightarrow> (string_error, js_string option list) result \<Rightarrow> bool" where
  "loop_outcome alloc us r \<longleftrightarrow>
     (case r of Inl e \<Rightarrow> refused alloc e | Inr buckets \<Rightarrow> buckets_ok buckets \<and> contents buckets = us)"

lemma rebalance_loop_outcome:
  assumes "buckets_ok buckets" "list_all string_wf stack" "length (contents buckets) + length (concat (map units stack)) \<le> max_units"
  shows "loop_outcome alloc (contents buckets @ concat (map units stack)) (rebalance_loop alloc stack buckets)"
  using assms
proof (induction "sum_list (map node_count stack)" arbitrary: stack buckets rule: less_induct)
  case less
  show ?case
  proof (cases stack)
    case Nil
    then show ?thesis using less.prems by (simp add: loop_outcome_def)
  next
    case (Cons s rest)
    have wf: "string_wf s" "list_all string_wf rest"
      and sum: "length (contents buckets) + (length (units s) + length (concat (map units rest))) \<le> max_units"
      using less.prems(2,3) Cons by simp_all
    have smaller: "sum_list (map node_count rest) < sum_list (map node_count stack)"
      using Cons node_count_pos [of s] by simp
    show ?thesis
    proof (cases "is_leaf s")
      case leaf: True
      show ?thesis
      proof (cases "units s = []")
        case True
        then show ?thesis
          using less.hyps [OF smaller less.prems(1) wf(2)] sum rebalance_loop_leaf [OF leaf] js_is_empty_units [OF wf(1)] Cons by simp
      next
        case False
        then obtain buckets' where b: "rebalance_leaf s buckets = Inr buckets'" "buckets_ok buckets'"
          "contents buckets' = contents buckets @ units s"
          using rebalance_leaf_ok [OF less.prems(1) wf(1) leaf] sum by auto
        then show ?thesis
          using less.hyps [OF smaller b(2) wf(2)] sum rebalance_loop_leaf [OF leaf] js_is_empty_units [OF wf(1)] Cons False by simp
      qed
    next
      case False
      then obtain l r len d w where s: "s = Rope l r len d w"
        by (cases s) auto
      then show ?thesis
        using less.hyps [of "l # r # rest" buckets] less.prems(1) wf sum Cons
        by (auto simp: rebalance_loop.simps(2) loop_outcome_def refused_def)
    qed
  qed
qed

lemma join_buckets_ok:
  assumes "\<And>j s. j < length buckets \<Longrightarrow> buckets ! j = Some s \<Longrightarrow> string_wf s \<and> unat (js_depth s) \<le> 2 * (i + j)"
    "aggregate_ok joined i" "length (contents buckets) + length (opt_units joined) \<le> max_units" "i + length buckets \<le> 44"
  shows "\<exists>joined'. join_buckets buckets joined = Inr joined' \<and> aggregate_ok joined' (i + length buckets) \<and>
    opt_units joined' = contents buckets @ opt_units joined"
  using assms
proof (induction buckets arbitrary: joined i)
  case Nil
  then show ?case by (simp add: contents_def)
next
  case (Cons b buckets)
  have IH: "\<exists>joined''. join_buckets buckets joined' = Inr joined'' \<and> aggregate_ok joined'' (i + length (b # buckets)) \<and>
      opt_units joined'' = contents (b # buckets) @ opt_units joined"
    if "aggregate_ok joined' (Suc i)" "opt_units joined' = opt_units b @ opt_units joined" for joined'
    using Cons.IH [of "Suc i" joined'] Cons.prems(1) [of "Suc j" for j] Cons.prems(3,4) that
    by (fastforce simp: contents_def)
  show ?case
  proof (cases b)
    case None
    then show ?thesis
      using IH [of joined] aggregate_ok_mono [OF Cons.prems(2), of "Suc i"] by simp
  next
    case (Some a)
    have a: "string_wf a" "unat (js_depth a) \<le> 2 * i"
      using Cons.prems(1) [of 0 a] Some by simp_all
    have sum: "length (units a) + length (opt_units joined) \<le> max_units" "i < 44"
      using Cons.prems(3,4) Some by (simp_all add: contents_def)
    from aggregate_join [OF a Cons.prems(2) sum] obtain s
      where "(case joined of None \<Rightarrow> Inr a | Some right \<Rightarrow> new_rope_node a right) = Inr s"
        "aggregate_ok (Some s) (Suc i)" "units s = units a @ opt_units joined" .
    then show ?thesis
      using IH [of "Some s"] Some by (cases joined) simp_all
  qed
qed

text \<open>The last bucket is longer than any string, which leaves the depth of the one below it and one more level.\<close>

lemma rebalance_outcome:
  assumes "string_wf a" "string_wf b" "length (units a) + length (units b) \<le> max_units"
  shows "case rebalance alloc a b of
      Inl e \<Rightarrow> refused alloc e
    | Inr s \<Rightarrow> string_wf s \<and> units s = units a @ units b \<and> unat (js_depth s) \<le> 85"
proof -
  let ?none = "replicate 44 None :: js_string option list"
  have none: "buckets_ok ?none" "contents ?none = []"
    by (simp_all add: buckets_ok_def contents_def)
  have loop: "loop_outcome alloc (units a @ units b) (rebalance_loop alloc [a, b] ?none)"
    using rebalance_loop_outcome [OF none(1), of "[a, b]" alloc] assms none(2) by simp
  have join: "\<exists>joined. join_buckets buckets None = Inr joined \<and> aggregate_ok joined 43 \<and> opt_units joined = units a @ units b"
    if ok: "buckets_ok buckets" "contents buckets = units a @ units b" for buckets
  proof -
    have last: "buckets ! 43 = None"
    proof (rule ccontr)
      assume "buckets ! 43 \<noteq> None"
      then obtain s where s: "buckets ! 43 = Some s" by auto
      then show False
        using buckets_okD [OF ok(1) _ s] units_bounded [of s] bucket_length_bounds(2) by simp
    qed
    have len: "length buckets = 44"
      using ok(1) by (simp add: buckets_ok_def)
    then have buckets: "buckets = take 43 buckets @ [None]"
      using last take_Suc_conv_app_nth [of 43 buckets] by simp
    have "join_buckets (xs @ [None]) joined = join_buckets xs joined" for xs joined
      by (induction xs arbitrary: joined) (auto split: option.splits sum.splits)
    then have "join_buckets buckets None = join_buckets (take 43 buckets) None"
      by (subst buckets) simp
    moreover have "contents (take 43 buckets) = contents buckets"
      by (subst (2) buckets) (simp add: contents_def)
    moreover have "string_wf s \<and> unat (js_depth s) \<le> 2 * (0 + j)" if "j < length (take 43 buckets)" "take 43 buckets ! j = Some s" for j s
      using that buckets_okD [OF ok(1), of j s] len by simp
    ultimately show ?thesis
      using join_buckets_ok [of "take 43 buckets" 0 None] ok(2) assms(3) len by (simp add: aggregate_ok_def)
  qed
  show ?thesis
  proof (cases "string_reserve alloc 0 (unat ROPE_MAX_DEPTH + 2)")
    case (Inl e)
    then show ?thesis by (simp add: rebalance_def refused_reserve)
  next
    case (Inr u)
    show ?thesis
    proof (cases "rebalance_loop alloc [a, b] ?none")
      case (Inl e)
      then show ?thesis using loop Inr by (simp add: rebalance_def loop_outcome_def)
    next
      case (Inr buckets)
      then obtain joined where j: "join_buckets buckets None = Inr joined" "aggregate_ok joined 43" "opt_units joined = units a @ units b"
        using join loop by (auto simp: loop_outcome_def)
      then show ?thesis
        using Inr \<open>string_reserve alloc 0 (unat ROPE_MAX_DEPTH + 2) = Inr u\<close>
        by (cases joined) (auto simp: rebalance_def aggregate_ok_def js_empty_def)
    qed
  qed
qed

section \<open>Concatenation\<close>

text \<open>What joining two strings can answer.\<close>

definition concat_outcome :: "allocator \<Rightarrow> js_string \<Rightarrow> js_string \<Rightarrow> (string_error, js_string) result \<Rightarrow> bool" where
  "concat_outcome alloc a b r \<longleftrightarrow>
     (case r of
        Inr s \<Rightarrow> string_wf s \<and> units s = units a @ units b \<and> unat (js_depth s) \<le> max 85 (max (unat (js_depth a)) (unat (js_depth b)))
      | Inl e \<Rightarrow> refused alloc e)"

lemma new_rope_outcome:
  assumes "string_wf a" "string_wf b" "length (units a) + length (units b) \<le> max_units"
  shows "concat_outcome alloc a b (new_rope alloc a b)"
proof -
  have sum: "checked_sum (js_len a) (js_len b) = Inr (js_len a + js_len b)"
    using assms js_len_units by (simp add: checked_sum_eq)
  let ?depth = "saturating_add (max (js_depth a) (js_depth b)) 1"
  show ?thesis
  proof (cases "ROPE_MAX_DEPTH < ?depth")
    case True
    then show ?thesis
      using rebalance_outcome [OF assms, of alloc] sum
      by (auto simp: new_rope_def Let_def concat_outcome_def split: sum.splits)
  next
    case False
    then have "unat ?depth \<le> 60"
      by (simp add: ROPE_MAX_DEPTH_def word_le_nat_alt not_less)
    then have "unat (js_depth a) < 255" "unat (js_depth b) < 255"
      by (auto simp: unat_next_depth)
    then obtain s where s: "new_rope_node a b = Inr s" "string_wf s" "units s = units a @ units b"
      "unat (js_depth s) = max (unat (js_depth a)) (unat (js_depth b)) + 1"
      using new_rope_node_ok [OF assms] by blast
    have "new_rope alloc a b = Inr s"
      using s(1) False sum by (simp add: new_rope_def new_rope_node_def)
    moreover have "unat (js_depth s) \<le> 60"
      using \<open>unat ?depth \<le> 60\<close> s(4) by (auto simp: unat_next_depth min_def split: if_splits)
    ultimately show ?thesis
      using s(2,3) by (simp add: concat_outcome_def)
  qed
qed

lemma concat_outcome_merged:
  assumes "concat_outcome alloc a' b' r" "units a' @ units b' = units a @ units b"
    "unat (js_depth a') \<le> max 85 (max (unat (js_depth a)) (unat (js_depth b)))"
    "unat (js_depth b') \<le> max 85 (max (unat (js_depth a)) (unat (js_depth b)))"
  shows "concat_outcome alloc a b r"
  using assms by (auto simp: concat_outcome_def split: sum.splits)

text \<open>Merging two short leaves and putting the result in a rope.\<close>

lemma merged_outcome:
  assumes leaves: "string_wf p" "is_leaf p" "string_wf q" "is_leaf q" and short: "length (units p) + length (units q) \<le> max_units"
    and rest: "\<And>m. string_wf m \<Longrightarrow> is_leaf m \<Longrightarrow> units m = units p @ units q \<Longrightarrow> concat_outcome alloc a b (f m)"
  shows "concat_outcome alloc a b (and_then (copy_concat alloc p q) f)"
proof (cases "copy_concat alloc p q")
  case (Inl e)
  then show ?thesis
    using copy_concat_outcome [OF leaves, of alloc] short by (auto simp: leaf_outcome_def concat_outcome_def)
next
  case (Inr m)
  then show ?thesis
    using copy_concat_outcome [OF leaves, of alloc] rest [of m] by (simp add: leaf_outcome_def)
qed

lemma js_concat_outcome:
  assumes wf: "string_wf a" "string_wf b" and sum: "length (units a) + length (units b) \<le> max_units"
  shows "concat_outcome alloc a b (js_concat alloc a b)"
proof -
  have ok: "checked_sum (js_len a) (js_len b) = Inr (js_len a + js_len b)"
    using wf sum js_len_units by (simp add: checked_sum_eq)
  have plain: "concat_outcome alloc a b (new_rope alloc a b)"
    by (rule new_rope_outcome [OF wf sum])
  have copied: "concat_outcome alloc a b (copy_concat alloc a b)" if "is_leaf a" "is_leaf b"
    using merged_outcome [OF wf(1) that(1) wf(2) that(2) sum, of alloc a b Inr] leaf_depth
    by (cases "copy_concat alloc a b") (auto simp: concat_outcome_def)
  have right: "concat_outcome alloc a b (and_then (copy_concat alloc r b) (new_rope alloc l))"
    if a: "a = Rope l r len d w" and leaves: "is_leaf r" "is_leaf b" for l r len d w
  proof (rule merged_outcome)
    show "concat_outcome alloc a b (new_rope alloc l m)" if m: "string_wf m" "is_leaf m" "units m = units r @ units b" for m
      using concat_outcome_merged [OF new_rope_outcome [of l m alloc], of a b] a wf sum m leaf_depth [OF m(2)] by simp
  qed (use a wf sum leaves in simp_all)
  have left: "concat_outcome alloc a b (and_then (copy_concat alloc a l) (\<lambda>m. new_rope alloc m r))"
    if b: "b = Rope l r len d w" and leaves: "is_leaf l" "is_leaf a" for l r len d w
  proof (rule merged_outcome)
    show "concat_outcome alloc a b (new_rope alloc m r)" if m: "string_wf m" "is_leaf m" "units m = units a @ units l" for m
      using concat_outcome_merged [OF new_rope_outcome [of m r alloc], of a b] b wf sum m leaf_depth [OF m(2)] by simp
  qed (use b wf sum leaves in simp_all)
  have empty: "js_is_empty a \<Longrightarrow> concat_outcome alloc a b (Inr b)" "js_is_empty b \<Longrightarrow> concat_outcome alloc a b (Inr a)"
    using js_is_empty_units wf by (simp_all add: concat_outcome_def)
  show ?thesis
    unfolding js_concat_def ok and_then_simps
    using plain copied right left empty by (auto split: js_string.split)
qed

end
