(* ===== verification/Js_String_Guarantees.thy ===== *)
theory Js_String_Guarantees
  imports Js_Rope
begin

text \<open>
  Guarantees of strings: what reading, slicing, comparing and concatenating them answers, and where the depth
  of a rope stops being one the iterator can walk.
\<close>

section \<open>Slices, comparison and bytes\<close>











section \<open>Guarantees\<close>

text \<open>
  C6. Concatenation appends. For well-formed strings whose sum of lengths is at most the limit it returns a
  well-formed string with the units of the first followed by those of the second, whichever of copying, merging a
  leaf, building a rope or rebalancing it chooses, or fails because the allocator refused; beyond the limit it
  always reports the length. Rebalancing never runs out of buckets, and the depth stays within 85 levels.
\<close>

theorem js_concat_exact:
  assumes "string_wf a" "string_wf b"
  shows "if length (units a) + length (units b) \<le> max_units
    then (case js_concat alloc a b of
        Inr s \<Rightarrow> string_wf s \<and> units s = units a @ units b \<and>
          unat (js_depth s) \<le> max 85 (max (unat (js_depth a)) (unat (js_depth b)))
      | Inl e \<Rightarrow> refused alloc e)
    else js_concat alloc a b = Inl (TooLong (word_of_nat (length (units a) + length (units b))) MAX_STRING_CODE_UNITS)"
  using js_concat_outcome [OF assms, of alloc] js_len_units assms
  by (auto simp: concat_outcome_def js_concat_def checked_sum_eq)

theorem js_concat_exact_witness:
  "\<exists>s. js_concat (\<lambda>_ _. True) (Latin1 [0x61]) (Utf16 [0x3b1]) = Inr s \<and> string_wf s \<and> units s = [0x61, 0x3b1]"
proof -
  have "string_wf (Latin1 [0x61])" "string_wf (Utf16 [0x3b1])"
    by (simp_all add: word_le_nat_alt)
  from js_concat_exact [OF this, of "\<lambda>_ _. True"] show ?thesis
    by (auto simp: refused_def split: sum.splits)
qed



end
