(* ===== verification/Js_Rope_Depth.thy ===== *)
theory Js_Rope_Depth
  imports Js_String_Guarantees
begin

text \<open>
  Rebalancing does not keep the depth limit. Leaves whose lengths alternate between the bounds of successive
  buckets and single units are joined into a rope that grows by two levels per bucket; a rope of
  well-formed operands within the limit is rebalanced to one whose traversal overflows the stack of the iterator.
\<close>

section \<open>Ropes of zero units\<close>

definition zeros :: "nat \<Rightarrow> js_string" where
  "zeros n = Latin1 (replicate n 0)"

definition node :: "js_string \<Rightarrow> js_string \<Rightarrow> js_string" where
  "node a b = Rope a b (js_len a + js_len b) (saturating_add (max (js_depth a) (js_depth b)) 1) (is_wide a \<or> is_wide b)"

lemma zeros_simps [simp]: "length (units (zeros n)) = n" "is_leaf (zeros n)" "js_depth (zeros n) = 0" "pending (zeros n) = 0"
  by (simp_all add: zeros_def)

lemma zeros_wf: "n \<le> max_units \<Longrightarrow> string_wf (zeros n)"
  by (simp add: zeros_def)

lemma units_node [simp]: "units (node a b) = units a @ units b"
  by (simp add: node_def)

lemma pending_node [simp]: "pending (node a b) = max (pending a + 1) (pending b)"
  by (simp add: node_def)

lemma not_leaf_node [simp]: "\<not> is_leaf (node a b)"
  by (simp add: node_def)

lemma new_rope_node_eq:
  "string_wf a \<Longrightarrow> string_wf b \<Longrightarrow> length (units a) + length (units b) \<le> max_units \<Longrightarrow> new_rope_node a b = Inr (node a b)"
  using js_len_units [of a] js_len_units [of b] by (simp add: new_rope_node_def node_def checked_sum_eq)

lemma node_ok:
  assumes "string_wf a" "string_wf b" "length (units a) + length (units b) \<le> max_units"
    "unat (js_depth a) < 255" "unat (js_depth b) < 255"
  shows "string_wf (node a b)" "unat (js_depth (node a b)) = max (unat (js_depth a)) (unat (js_depth b)) + 1"
  using new_rope_node_ok [OF assms] new_rope_node_eq [OF assms(1-3)] by auto

section \<open>The chain\<close>

primrec chain :: "nat \<Rightarrow> js_string" where
  "chain 0 = zeros (bucket_length 1)"
| "chain (Suc n) = node (node (chain n) (zeros 1)) (zeros (bucket_length (n + 2)))"

primrec chain_leaves :: "nat \<Rightarrow> js_string list" where
  "chain_leaves 0 = [zeros (bucket_length 1)]"
| "chain_leaves (Suc n) = chain_leaves n @ [zeros 1, zeros (bucket_length (n + 2))]"

primrec chain_length :: "nat \<Rightarrow> nat" where
  "chain_length 0 = bucket_length 1"
| "chain_length (Suc n) = chain_length n + 1 + bucket_length (n + 2)"

lemma bucket_length_fib: "i < 42 \<Longrightarrow> bucket_length (i + 2) = bucket_length (i + 1) + bucket_length i"
proof -
  assume i: "i < 42"
  have "map unat (drop 2 ROPE_BUCKET_LENGTHS) = map2 (\<lambda>a b. unat a + unat b) (butlast (tl ROPE_BUCKET_LENGTHS)) ROPE_BUCKET_LENGTHS"
    by (simp add: ROPE_BUCKET_LENGTHS_def)
  from arg_cong [OF this, of "\<lambda>xs. xs ! i"] show ?thesis
    using i by (simp add: bucket_length_def nth_tl nth_butlast)
qed

lemma bucket_length_small: "bucket_length (Suc 0) = 2" "bucket_length 2 = 3" "bucket_length 3 = 5" "bucket_length 35 = 24157817"
  by (simp_all add: bucket_length_def ROPE_BUCKET_LENGTHS_def)

lemma chain_length_bound: "n + 3 < 44 \<Longrightarrow> chain_length n \<le> bucket_length (n + 3) + n"
proof (induction n)
  case (Suc n)
  then show ?case
    using bucket_length_fib [of "n + 2"] by (simp add: eval_nat_numeral)
qed (simp add: bucket_length_small)

lemma chain_length_limit: "chain_length 32 \<le> max_units"
  using chain_length_bound [of 32] by (simp add: bucket_length_small)

lemma chain_length_mono: "m \<le> n \<Longrightarrow> chain_length m \<le> chain_length n"
  by (rule lift_Suc_mono_le [where f = chain_length]) simp_all

lemma chain_length_le: "n \<le> 32 \<Longrightarrow> chain_length n \<le> max_units"
  using chain_length_mono chain_length_limit by (meson le_trans)

lemma chain_ok:
  "n \<le> 32 \<Longrightarrow> string_wf (chain n) \<and> length (units (chain n)) = chain_length n \<and> unat (js_depth (chain n)) = 2 * n \<and> pending (chain n) = 2 * n"
proof (induction n)
  case 0
  then show ?case by (simp add: zeros_wf bucket_length_small)
next
  case (Suc n)
  then have IH: "string_wf (chain n)" "length (units (chain n)) = chain_length n" "unat (js_depth (chain n)) = 2 * n"
    "pending (chain n) = 2 * n"
    by simp_all
  have len: "chain_length n + 1 + bucket_length (n + 2) \<le> max_units"
    using chain_length_le [OF Suc.prems] by simp
  let ?inner = "node (chain n) (zeros 1)"
  have inner: "string_wf ?inner" "unat (js_depth ?inner) = 2 * n + 1"
    using node_ok [OF IH(1) zeros_wf [of 1]] IH len Suc.prems by simp_all
  have "string_wf (chain (Suc n))" "unat (js_depth (chain (Suc n))) = 2 * n + 2"
    using node_ok [OF inner(1) zeros_wf [of "bucket_length (n + 2)"]] inner IH len Suc.prems by simp_all
  then show ?case using IH by simp
qed

section \<open>Rebalancing the leaves of a chain\<close>

definition only_bucket :: "nat \<Rightarrow> js_string \<Rightarrow> js_string option list" where
  "only_bucket i s = (replicate 44 None)[i := Some s]"

lemma clear_replicate: "(replicate n None)[i := None] = replicate n None"
  by (cases "i < n") (simp_all add: list_update_same_conv list_update_beyond)

lemma bucket_length_mono: "i \<le> j \<Longrightarrow> j < 44 \<Longrightarrow> bucket_length i \<le> bucket_length j"
proof (induction j)
  case (Suc j)
  have "bucket_length j \<le> bucket_length (Suc j)"
    using bucket_length_fib [of "j - 1"] Suc.prems(2) bucket_length_bounds bucket_length_small by (cases j) simp_all
  then show ?case using Suc by (auto simp: le_Suc_eq)
qed simp

lemma collect_lower_skip:
  assumes "i \<le> m" "m < 44" "bucket_length m \<le> unat len" "\<And>k. i \<le> k \<Longrightarrow> k < m \<Longrightarrow> buckets ! k = None"
  shows "collect_lower len buckets aggregate i = collect_lower len buckets aggregate m"
  using assms
proof (induction "m - i" arbitrary: i)
  case (Suc d)
  then have i: "i < m" "Suc i < 44" by simp_all
  then have "ROPE_BUCKET_LENGTHS ! Suc i \<le> len"
    using bucket_length_mono [of "Suc i" m] Suc.prems by (simp add: bucket_length_def word_le_nat_alt)
  then show ?case
    using collect_lower_steps(2) [OF i(2)] Suc.hyps(1) [of "Suc i"] Suc.hyps(2) Suc.prems i by simp
qed simp

lemma zeros_len: "n \<le> max_units \<Longrightarrow> unat (js_len (zeros n)) = n"
  using js_len_units [OF zeros_wf] by simp

lemma bucket_length_strict: "i < 43 \<Longrightarrow> bucket_length i < bucket_length (Suc i)"
  using bucket_length_fib [of "i - 1"] bucket_length_mono [of 0 "i - 1"] bucket_length_bounds bucket_length_small by (cases i) simp_all

lemma collect_lower_at:
  assumes "m < 43" "unat len = bucket_length m"
  shows "collect_lower len buckets aggregate m = Inr (buckets, aggregate, m)"
proof -
  have "\<not> ROPE_BUCKET_LENGTHS ! Suc m \<le> len"
    using bucket_length_strict [OF assms(1)] assms by (simp add: bucket_length_def word_le_nat_alt)
  then show ?thesis
    using collect_lower_steps(1) [of m] assms(1) by simp
qed

text \<open>A single unit goes to the first bucket; the next leaf gathers it and the chain into its own bucket.\<close>

lemma rebalance_unit:
  assumes "0 < i" "i < 44"
  shows "rebalance_leaf (zeros 1) (only_bucket i s) = Inr ((only_bucket i s)[0 := Some (zeros 1)])"
proof -
  have "collect_lower (js_len (zeros 1)) (only_bucket i s) None 0 = Inr (only_bucket i s, None, 0)"
    by (rule collect_lower_at) (simp_all add: zeros_len bucket_length_bounds)
  then show ?thesis
    using assms place_bucket_steps(1) [of 0 "only_bucket i s" "zeros 1"] by (simp add: rebalance_leaf_def only_bucket_def)
qed

lemma rebalance_next:
  assumes i: "0 < i" "i < 42" and s: "string_wf s" "length (units s) + 1 + bucket_length (i + 1) \<le> max_units"
    "unat (js_depth s) < 250"
  shows "rebalance_leaf (zeros (bucket_length (i + 1))) ((only_bucket i s)[0 := Some (zeros 1)]) =
    Inr (only_bucket (i + 1) (node (node s (zeros 1)) (zeros (bucket_length (i + 1)))))"
proof -
  let ?len = "js_len (zeros (bucket_length (i + 1)))" and ?bs = "(only_bucket i s)[0 := Some (zeros 1)]"
  have len: "unat ?len = bucket_length (i + 1)"
    using s(2) by (intro zeros_len) simp
  have tab: "ROPE_BUCKET_LENGTHS ! Suc k \<le> ?len" if "k \<le> i" for k
    using bucket_length_mono [of "Suc k" "i + 1"] i that len by (simp add: bucket_length_def word_le_nat_alt)
  have "collect_lower ?len ?bs None 0 = collect_lower ?len (only_bucket i s) (Some (zeros 1)) 1"
    using collect_lower_steps(3) [of 0 ?len ?bs "zeros 1" None "zeros 1"] tab [of 0] i
    by (simp add: only_bucket_def list_update_swap [of i 0] clear_replicate)
  also have "\<dots> = collect_lower ?len (only_bucket i s) (Some (zeros 1)) i"
    using i bucket_length_mono [of i "i + 1"] len by (intro collect_lower_skip) (simp_all add: only_bucket_def)
  also have "\<dots> = collect_lower ?len (replicate 44 None) (Some (node s (zeros 1))) (i + 1)"
    using collect_lower_steps(3) [of i ?len "only_bucket i s" s "Some (zeros 1)" "node s (zeros 1)"] tab [of i] i s
      new_rope_node_eq [OF s(1) zeros_wf [of 1]] by (simp add: only_bucket_def clear_replicate)
  also have "\<dots> = Inr (replicate 44 None, Some (node s (zeros 1)), i + 1)"
    using i len by (intro collect_lower_at) simp_all
  finally have c: "collect_lower ?len ?bs None 0 = Inr (replicate 44 None, Some (node s (zeros 1)), i + 1)" .
  have inner: "string_wf (node s (zeros 1))"
    using node_ok(1) [OF s(1) zeros_wf [of 1]] s by simp
  have "new_rope_node (node s (zeros 1)) (zeros (bucket_length (i + 1))) = Inr (node (node s (zeros 1)) (zeros (bucket_length (i + 1))))"
    using s(2) by (intro new_rope_node_eq inner zeros_wf) simp_all
  then show ?thesis
    using c place_bucket_steps(1) [of "i + 1" "replicate 44 None"] i by (simp add: rebalance_leaf_def only_bucket_def)
qed

lemma rebalance_chain:
  "n \<le> 32 \<Longrightarrow> rebalance_loop (\<lambda>_ _. True) (chain_leaves n @ rest) (replicate 44 None) =
     rebalance_loop (\<lambda>_ _. True) rest (only_bucket (n + 1) (chain n))"
proof (induction n arbitrary: rest)
  case 0
  have "collect_lower (js_len (zeros 2)) (replicate 44 None) None 0 = collect_lower (js_len (zeros 2)) (replicate 44 None) None 1"
    by (rule collect_lower_skip) (simp_all add: zeros_len bucket_length_small)
  also have "\<dots> = Inr (replicate 44 None, None, 1)"
    by (rule collect_lower_at) (simp_all add: zeros_len bucket_length_small)
  finally have "rebalance_leaf (zeros 2) (replicate 44 None) = Inr (only_bucket 1 (zeros 2))"
    using place_bucket_steps(1) [of 1 "replicate 44 None"] by (simp add: rebalance_leaf_def only_bucket_def)
  then show ?case
    by (simp add: rebalance_loop_leaf bucket_length_small js_is_empty_def word_unat_eq_iff zeros_len)
next
  case (Suc n)
  have ok: "string_wf (chain n)" "length (units (chain n)) + 1 + bucket_length (n + 2) \<le> max_units" "unat (js_depth (chain n)) < 250"
    using chain_ok [of n] chain_length_le [OF Suc.prems] Suc.prems by simp_all
  have len: "js_len (zeros 1) \<noteq> 0" "js_len (zeros (bucket_length (n + 2))) \<noteq> 0"
    using zeros_len [of 1] zeros_len [of "bucket_length (n + 2)"] ok(2) bucket_length_mono [of 0 "n + 2"] bucket_length_bounds Suc.prems
    by (auto simp: word_unat_eq_iff)
  show ?case
    using Suc.IH [of "[zeros 1, zeros (bucket_length (n + 2))] @ rest"] rebalance_unit [of "n + 1" "chain n"]
      rebalance_next [of "n + 1" "chain n"] ok len Suc.prems
    by (simp add: rebalance_loop_leaf js_is_empty_def)
qed

section \<open>Operands within the limit\<close>

definition skew :: "js_string list \<Rightarrow> js_string" where
  "skew leaves = foldl node (hd leaves) (tl leaves)"

lemma rebalance_skew:
  "rebalance_loop (\<lambda>_ _. True) (foldl node s leaves # stack) buckets = rebalance_loop (\<lambda>_ _. True) (s # leaves @ stack) buckets"
  by (induction leaves arbitrary: stack rule: rev_induct) (simp_all add: node_def rebalance_loop.simps(2))

lemma skew_ok:
  assumes "string_wf s" "is_leaf s" "list_all (\<lambda>t. string_wf t \<and> is_leaf t) leaves"
    "length (units s) + length (concat (map units leaves)) \<le> max_units" "length leaves < 255"
  shows "string_wf (foldl node s leaves) \<and> units (foldl node s leaves) = units s @ concat (map units leaves) \<and>
    unat (js_depth (foldl node s leaves)) = length leaves"
  using assms(3-)
proof (induction leaves rule: rev_induct)
  case Nil
  then show ?case using assms(1,2) leaf_depth by simp
next
  case (snoc t leaves)
  then have IH: "string_wf (foldl node s leaves)" "units (foldl node s leaves) = units s @ concat (map units leaves)"
    "unat (js_depth (foldl node s leaves)) = length leaves" and t: "string_wf t" "is_leaf t"
    by simp_all
  then show ?case
    using node_ok [OF IH(1) t(1)] leaf_depth [OF t(2)] snoc.prems(2,3) by simp
qed

lemma join_none: "join_buckets (replicate n None) joined = Inr joined"
  by (induction n) simp_all

lemma join_only: "i < 44 \<Longrightarrow> join_buckets (only_bucket i s) None = Inr (Some s)"
proof -
  assume "i < 44"
  then have "only_bucket i s = replicate i None @ Some s # replicate (43 - i) None"
    by (auto simp: only_bucket_def nth_list_update nth_append nth_Cons intro!: nth_equalityI split: nat.splits)
  moreover have "join_buckets (replicate n None @ xs) None = join_buckets xs None" for n xs
    by (induction n) simp_all
  ultimately show ?thesis by (simp add: join_none)
qed

lemma chain_leaves_ok:
  "n \<le> 32 \<Longrightarrow> (\<exists>leaves. chain_leaves n = zeros 2 # leaves) \<and> length (chain_leaves n) = 2 * n + 1 \<and>
     list_all (\<lambda>t. string_wf t \<and> is_leaf t) (chain_leaves n) \<and> length (concat (map units (chain_leaves n))) = chain_length n"
proof (induction n)
  case 0
  then show ?case by (simp add: bucket_length_small zeros_wf)
next
  case (Suc n)
  then show ?case
    using chain_length_le [OF Suc.prems] by (auto simp: zeros_wf)
qed

lemma chain_leaves_32:
  "chain_leaves 32 = chain_leaves 30 @ [zeros 1, zeros (bucket_length 32), zeros 1, zeros (bucket_length 33)]"
  "chain_length 32 = chain_length 30 + 2 + bucket_length 32 + bucket_length 33"
  using chain_leaves.simps(2) [of 31] chain_leaves.simps(2) [of 30] chain_length.simps(2) [of 31] chain_length.simps(2) [of 30] by simp_all

definition deep_left :: js_string where
  "deep_left = skew (chain_leaves 30)"

definition deep_right :: js_string where
  "deep_right = skew [zeros 1, zeros (bucket_length 32), zeros 1, zeros (bucket_length 33)]"

lemma deep_left_ok:
  "string_wf deep_left" "unat (js_depth deep_left) = 60" "length (units deep_left) = chain_length 30"
  "rebalance_loop (\<lambda>_ _. True) (deep_left # stack) buckets = rebalance_loop (\<lambda>_ _. True) (chain_leaves 30 @ stack) buckets"
proof -
  obtain leaves where leaves: "chain_leaves 30 = zeros 2 # leaves"
    using chain_leaves_ok [of 30] by auto
  then have d: "deep_left = foldl node (zeros 2) leaves"
    by (simp add: deep_left_def skew_def)
  have "length leaves = 60" "list_all (\<lambda>t. string_wf t \<and> is_leaf t) leaves" "2 + length (concat (map units leaves)) = chain_length 30"
    using chain_leaves_ok [of 30] leaves by simp_all
  then show "string_wf deep_left" "unat (js_depth deep_left) = 60" "length (units deep_left) = chain_length 30"
    using skew_ok [of "zeros 2" leaves] zeros_wf [of 2] chain_length_le [of 30] unfolding d by simp_all
  show "rebalance_loop (\<lambda>_ _. True) (deep_left # stack) buckets = rebalance_loop (\<lambda>_ _. True) (chain_leaves 30 @ stack) buckets"
    unfolding d leaves rebalance_skew by simp
qed

lemma deep_right_ok:
  "string_wf deep_right" "unat (js_depth deep_right) = 3" "length (units deep_right) = 2 + bucket_length 32 + bucket_length 33"
  "rebalance_loop (\<lambda>_ _. True) (deep_right # stack) buckets =
     rebalance_loop (\<lambda>_ _. True) ([zeros 1, zeros (bucket_length 32), zeros 1, zeros (bucket_length 33)] @ stack) buckets"
proof -
  let ?leaves = "[zeros (bucket_length 32), zeros 1, zeros (bucket_length 33)]"
  have d: "deep_right = foldl node (zeros 1) ?leaves"
    by (simp add: deep_right_def skew_def)
  show "string_wf deep_right" "unat (js_depth deep_right) = 3" "length (units deep_right) = 2 + bucket_length 32 + bucket_length 33"
    using skew_ok [of "zeros 1" ?leaves] chain_length_limit chain_leaves_32(2) unfolding d by (simp_all add: zeros_wf)
  show "rebalance_loop (\<lambda>_ _. True) (deep_right # stack) buckets =
     rebalance_loop (\<lambda>_ _. True) ([zeros 1, zeros (bucket_length 32), zeros 1, zeros (bucket_length 33)] @ stack) buckets"
    unfolding d rebalance_skew by simp
qed

lemma deep_rebalance: "rebalance (\<lambda>_ _. True) deep_left deep_right = Inr (chain 32)"
proof -
  have "rebalance_loop (\<lambda>_ _. True) [deep_left, deep_right] (replicate 44 None) =
      rebalance_loop (\<lambda>_ _. True) (chain_leaves 30 @ [deep_right]) (replicate 44 None)"
    by (rule deep_left_ok)
  also have "\<dots> = rebalance_loop (\<lambda>_ _. True) [deep_right] (only_bucket 31 (chain 30))"
    using rebalance_chain [of 30 "[deep_right]"] by simp
  also have "\<dots> = rebalance_loop (\<lambda>_ _. True) [zeros 1, zeros (bucket_length 32), zeros 1, zeros (bucket_length 33)] (only_bucket 31 (chain 30))"
    using deep_right_ok(4) by simp
  also have "\<dots> = rebalance_loop (\<lambda>_ _. True) (chain_leaves 32 @ []) (replicate 44 None)"
    using rebalance_chain [of 30 "[zeros 1, zeros (bucket_length 32), zeros 1, zeros (bucket_length 33)]"] by (simp add: chain_leaves_32)
  also have "\<dots> = Inr (only_bucket 33 (chain 32))"
    using rebalance_chain [of 32 "[]"] by simp
  finally show ?thesis
    using join_only [of 33 "chain 32"] by (simp add: rebalance_def string_reserve_def)
qed

text \<open>
  Two well-formed strings within the depth limit whose concatenation is a rope of depth 64, on which the iterator
  panics.
\<close>

lemma rebalanced_too_deep:
  "string_wf deep_left \<and> string_wf deep_right \<and> unat (js_depth deep_left) \<le> 60 \<and> unat (js_depth deep_right) \<le> 60 \<and>
   (\<exists>s. js_concat (\<lambda>_ _. True) deep_left deep_right = Inr s \<and> unat (js_depth s) = 64 \<and>
      (\<exists>k. code_units s = map Inr (take k (units s)) @ [Inl String_Panic]))"
proof -
  have ropes: "\<not> is_leaf deep_left" "\<not> is_leaf deep_right"
    using deep_left_ok(2) deep_right_ok(2) leaf_depth by force+
  have sum: "unat (js_len deep_left) + unat (js_len deep_right) \<le> max_units"
    using js_len_units [OF deep_left_ok(1)] js_len_units [OF deep_right_ok(1)] deep_left_ok(3) deep_right_ok(3)
      chain_leaves_32(2) chain_length_limit by simp
  have filled: "\<not> js_is_empty deep_left" "\<not> js_is_empty deep_right"
    using js_is_empty_units [OF deep_left_ok(1)] js_is_empty_units [OF deep_right_ok(1)] deep_left_ok(3) deep_right_ok(3)
      chain_length_mono [of 0 30] by (auto simp: bucket_length_small)
  have "ROPE_MAX_DEPTH < saturating_add (max (js_depth deep_left) (js_depth deep_right)) 1"
    unfolding word_less_nat_alt unat_next_depth deep_left_ok(2) deep_right_ok(2) by (simp add: ROPE_MAX_DEPTH_def)
  then have "js_concat (\<lambda>_ _. True) deep_left deep_right = Inr (chain 32)"
    using ropes sum filled deep_rebalance by (simp add: js_concat_def new_rope_def checked_sum_eq Let_def)
  then show ?thesis
    using deep_left_ok deep_right_ok chain_ok [of 32] code_units_exact [of "chain 32"]
    by (auto simp: ROPE_ITER_STACK_CAPACITY_def ROPE_MAX_DEPTH_def)
qed

end
