(* ===== verification/Index_Key.thy ===== *)
theory Index_Key
  imports Object_Record Js_Rope
begin

text \<open>
  Array indices as they are spelled in property keys (\<^verbatim>\<open>crates/fusor-runtime/src/array_index.rs\<close>): the parser that
  recognises canonical decimal strings and the printer. The parser accepts exactly what the printer writes.
\<close>

section \<open>Reading and writing indices\<close>

definition is_ascii_digit :: "u16 \<Rightarrow> bool" where
  "is_ascii_digit unit \<longleftrightarrow> 0x30 \<le> unit \<and> unit \<le> 0x39"

definition checked_mul :: "u32 \<Rightarrow> u32 \<Rightarrow> u32 option" where
  "checked_mul a b = (if unat a * unat b < 2 ^ 32 then Some (a * b) else None)"

fun index_digits :: "js_string \<Rightarrow> u32 list \<Rightarrow> u32 \<Rightarrow> (string_error, u32 option) result" where
  "index_digits key [] value = Inr (Some value)"
| "index_digits key (index # indices) value =
     and_then (code_unit_at key index) (\<lambda>unit.
       case unit of
         None \<Rightarrow> Inr None
       | Some u \<Rightarrow>
           if \<not> is_ascii_digit u then Inr None
           else (case Option.bind (checked_mul value 10) (\<lambda>scaled. checked_add scaled (ucast (u - 0x30))) of
                   None \<Rightarrow> Inr None
                 | Some value' \<Rightarrow> index_digits key indices value'))"

definition parse_property_key :: "js_string \<Rightarrow> (string_error, array_index option) result" where
  "parse_property_key key =
     (let len = js_len key
      in if len = 0 \<or> 10 < len then Inr None
         else and_then (code_unit_at key 0) (\<lambda>unit.
                case unit of
                  None \<Rightarrow> Inr None
                | Some first \<Rightarrow>
                    if first = 0x30 then Inr (if len = 1 then Some (ArrayIndex 0) else None)
                    else if \<not> is_ascii_digit first then Inr None
                    else and_then (index_digits key (map word_of_nat [1..<unat len]) (ucast (first - 0x30))) (\<lambda>value.
                           Inr (Option.bind value array_index_new))))"

definition decimal_digit :: "u32 \<Rightarrow> u8" where
  "decimal_digit value = 0x30 + ucast (value mod 10)"

text \<open>The digits from the last to the first, each in front of the ones before.\<close>

function decimal_digits :: "u32 \<Rightarrow> u8 list \<Rightarrow> u8 list" where
  "decimal_digits value digits =
     (let digits' = decimal_digit value # digits
      in if value div 10 = 0 then digits' else decimal_digits (value div 10) digits')"
  by pat_completeness auto
termination
  by (relation "measure (\<lambda>(value, _). unat value)") (auto simp: word_unat_eq_iff unat_div div_eq_0_iff)

declare decimal_digits.simps [simp del]

definition to_js_string :: "allocator \<Rightarrow> array_index \<Rightarrow> (string_error, js_string) result" where
  "to_js_string alloc index = from_latin1 alloc (decimal_digits (index_get index) [])"

section \<open>Decimal notation\<close>

text \<open>The canonical digits of a number, and the number of any sequence of digits.\<close>

fun nat_digits :: "nat \<Rightarrow> nat list" where
  "nat_digits n = (if n < 10 then [n] else nat_digits (n div 10) @ [n mod 10])"

declare nat_digits.simps [simp del]

definition horner :: "nat \<Rightarrow> nat list \<Rightarrow> nat" where
  "horner = foldl (\<lambda>v d. 10 * v + d)"

lemma horner_simps [simp]: "horner v [] = v" "horner v (d # ds) = horner (10 * v + d) ds"
  "horner v (ds @ [d]) = 10 * horner v ds + d"
  by (simp_all add: horner_def)

lemma horner_ge: "v \<le> horner v ds"
proof (induction ds arbitrary: v)
  case (Cons d ds)
  from Cons [of "10 * v + d"] show ?case by simp
qed simp

lemma nat_digits_small: "d \<in> set (nat_digits n) \<Longrightarrow> d < 10"
proof (induction n rule: nat_digits.induct)
  case (1 n)
  then show ?case by (subst (asm) (2) nat_digits.simps) (auto split: if_splits)
qed

lemma nat_digits_horner: "horner 0 (nat_digits n) = n"
proof (induction n rule: nat_digits.induct)
  case (1 n)
  then show ?case by (subst nat_digits.simps) auto
qed

lemma nat_digits_nonempty [simp]: "nat_digits n \<noteq> []"
  by (subst nat_digits.simps) simp

lemma hd_nat_digits: "0 < n \<Longrightarrow> 0 < hd (nat_digits n)"
proof (induction n rule: nat_digits.induct)
  case (1 n)
  then show ?case by (subst nat_digits.simps) (auto simp: div_greater_zero_iff)
qed

lemma length_nat_digits: "n < 10 ^ Suc k \<Longrightarrow> length (nat_digits n) \<le> Suc k"
proof (induction k arbitrary: n)
  case 0
  then show ?case by (subst nat_digits.simps) simp
next
  case (Suc k)
  then have "n div 10 < 10 ^ Suc k" by (simp add: div_less_iff_less_mult mult.commute)
  from Suc.IH [OF this] show ?case by (subst nat_digits.simps) simp
qed

lemma nat_digits_unique:
  assumes "ds \<noteq> []" "\<forall>d\<in>set ds. d < 10" "0 < hd ds \<or> length ds = 1"
  shows "nat_digits (horner 0 ds) = ds"
  using assms
proof (induction ds rule: rev_induct)
  case (snoc d ds)
  show ?case
  proof (cases "ds = []")
    case True
    then show ?thesis using snoc by (simp add: nat_digits.simps)
  next
    case False
    then have ih: "nat_digits (horner 0 ds) = ds" and pos: "0 < hd ds"
      using snoc by auto
    have "0 < horner 0 ds"
      using False pos horner_ge [of "hd ds" "tl ds"] by (cases ds) auto
    then show ?thesis
      using ih snoc by (subst nat_digits.simps) auto
  qed
qed simp

section \<open>Parsing reads exactly what printing writes\<close>

definition digit_unit :: "nat \<Rightarrow> u16" where
  "digit_unit d = word_of_nat (48 + d)"

definition index_text :: "array_index \<Rightarrow> u16 list" where
  "index_text index = map digit_unit (nat_digits (unat (index_get index)))"

definition valid_index :: "array_index \<Rightarrow> bool" where
  "valid_index index \<longleftrightarrow> index_get index \<le> MAX_ARRAY_INDEX"

lemma unat_digit_unit: "d < 10 \<Longrightarrow> unat (digit_unit d) = 48 + d"
  unfolding digit_unit_def unat_of_nat by simp

lemma digit_unit_ok: "d < 10 \<Longrightarrow> is_ascii_digit (digit_unit d) \<and> unat (digit_unit d - 0x30) = d"
  using unat_digit_unit by (simp add: is_ascii_digit_def word_le_nat_alt unat_sub)

lemma is_ascii_digit_iff: "is_ascii_digit u \<longleftrightarrow> u = digit_unit (unat (u - 0x30)) \<and> unat (u - 0x30) < 10"
proof
  assume u: "is_ascii_digit u"
  then have "unat (u - 0x30) = unat u - 48" "48 \<le> unat u" "unat u \<le> 57"
    by (auto simp: is_ascii_digit_def word_le_nat_alt unat_sub)
  then show "u = digit_unit (unat (u - 0x30)) \<and> unat (u - 0x30) < 10"
    by (simp add: digit_unit_def)
next
  assume "u = digit_unit (unat (u - 0x30)) \<and> unat (u - 0x30) < 10"
  then show "is_ascii_digit u" using digit_unit_ok by metis
qed

abbreviation digits_of :: "u16 list \<Rightarrow> nat list" where
  "digits_of us \<equiv> map (\<lambda>u. unat (u - 0x30)) us"

lemma digit_step:
  "Option.bind (checked_mul v 10) (\<lambda>scaled. checked_add scaled (ucast (u - 0x30))) =
     (if 10 * unat v + unat (u - 0x30) < 2 ^ 32 then Some (word_of_nat (10 * unat v + unat (u - 0x30))) else None)"
    for v :: u32 and u :: u16
proof -
  have "unat (v * 10) = unat v * 10" if "unat v * 10 < 4294967296"
    using that by (simp add: unat_word_ariths)
  then show ?thesis
    by (auto simp: checked_mul_def checked_add_def word_unat_eq_iff unat_word_ariths unat_of_nat)
qed

lemma index_digits_exact:
  assumes "string_wf key" "k \<le> length (units key)"
  shows "index_digits key (map word_of_nat [k..<length (units key)]) v =
    Inr (let us = drop k (units key); n = horner (unat v) (digits_of us)
         in if list_all is_ascii_digit us \<and> n < 2 ^ 32 then Some (word_of_nat n) else None)"
  using assms(2)
proof (induction "length (units key) - k" arbitrary: k v)
  case 0
  then show ?case by simp
next
  case (Suc m)
  then have k: "k < length (units key)" by simp
  let ?u = "units key ! k" and ?us = "drop (Suc k) (units key)"
  have split: "[k..<length (units key)] = k # [Suc k..<length (units key)]" "drop k (units key) = ?u # ?us"
    using k by (simp_all add: upt_rec Cons_nth_drop_Suc)
  have step: "code_unit_at key (word_of_nat k) = Inr (Some ?u)"
    using code_unit_at_exact [OF assms(1), of "word_of_nat k"] k units_bounded [OF assms(1)] by (simp add: unat_of_nat)
  have big: "horner (unat v) (unat (?u - 0x30) # digits_of ?us) < 2 ^ 32 \<Longrightarrow> 10 * unat v + unat (?u - 0x30) < 2 ^ 32"
    using horner_ge [of "10 * unat v + unat (?u - 0x30)" "digits_of ?us"] by simp
  have rest: "index_digits key (map word_of_nat [Suc k..<length (units key)]) w =
      Inr (let us = drop (Suc k) (units key); n = horner (unat w) (digits_of us)
           in if list_all is_ascii_digit us \<and> n < 2 ^ 32 then Some (word_of_nat n) else None)" for w
    using Suc k by simp
  show ?case
  proof (cases "10 * unat v + unat (?u - 0x30) < 2 ^ 32")
    case True
    define w :: u32 where "w = word_of_nat (10 * unat v + unat (?u - 0x30))"
    have "unat w = 10 * unat v + unat (?u - 0x30)"
      using True unfolding w_def unat_of_nat by simp
    moreover have "Option.bind (checked_mul v 10) (\<lambda>scaled. checked_add scaled (ucast (?u - 0x30))) = Some w"
      unfolding digit_step w_def using True by simp
    ultimately show ?thesis
      using step rest [of w] by (simp add: split Let_def)
  next
    case False
    then show ?thesis
      using step big by (auto simp: split digit_step Let_def)
  qed
qed

lemma digits_of_text: "digits_of (map digit_unit (nat_digits n)) = nat_digits n"
  using nat_digits_small digit_unit_ok by (auto intro!: map_idI)

lemma canonical_text:
  assumes "us \<noteq> []"
  shows "us = map digit_unit (nat_digits n) \<longleftrightarrow>
    list_all is_ascii_digit us \<and> (hd us \<noteq> 0x30 \<or> length us = 1) \<and> horner 0 (digits_of us) = n"
proof
  assume us: "us = map digit_unit (nat_digits n)"
  have "hd us = digit_unit (hd (nat_digits n))" using us by (simp add: hd_map)
  moreover have "digit_unit d \<noteq> 0x30" if "0 < d" "d < 10" for d
    using unat_digit_unit [OF that(2)] that(1) by (auto simp: word_unat_eq_iff)
  moreover have "nat_digits 0 = [0]" by (simp add: nat_digits.simps)
  ultimately have "hd us \<noteq> 0x30 \<or> length us = 1"
    using hd_nat_digits [of n] nat_digits_small [of "hd (nat_digits n)" n] us by (cases "n = 0") auto
  then show "list_all is_ascii_digit us \<and> (hd us \<noteq> 0x30 \<or> length us = 1) \<and> horner 0 (digits_of us) = n"
    using us nat_digits_small digit_unit_ok digits_of_text nat_digits_horner by (auto simp: list_all_iff)
next
  assume us: "list_all is_ascii_digit us \<and> (hd us \<noteq> 0x30 \<or> length us = 1) \<and> horner 0 (digits_of us) = n"
  then have each: "u = digit_unit (unat (u - 0x30)) \<and> unat (u - 0x30) < 10" if "u \<in> set us" for u
    using that by (auto simp: list_all_iff is_ascii_digit_iff)
  have "0 < hd (digits_of us) \<or> length us = 1"
    using us assms by (auto simp: hd_map unat_gt_0)
  then have "nat_digits n = digits_of us"
    using nat_digits_unique [of "digits_of us"] each us assms by auto
  then show "us = map digit_unit (nat_digits n)"
    using each by (simp add: map_idI)
qed

lemma index_text_inject: "index_text i = index_text j \<longleftrightarrow> i = j"
proof
  assume "index_text i = index_text j"
  then have "digits_of (index_text i) = digits_of (index_text j)" by simp
  then have "nat_digits (unat (index_get i)) = nat_digits (unat (index_get j))"
    unfolding index_text_def digits_of_text .
  then have "unat (index_get i) = unat (index_get j)"
    by (metis nat_digits_horner)
  then have "index_get i = index_get j" by (simp add: word_unat_eq_iff)
  then show "i = j" by (rule array_index.expand)
qed simp

lemma parse_property_key_exact:
  assumes "string_wf key"
  shows "\<exists>r. parse_property_key key = Inr r \<and> (\<forall>index. r = Some index \<longleftrightarrow> valid_index index \<and> units key = index_text index)"
proof -
  let ?us = "units key" and ?r = "parse_property_key key"
  have len: "unat (js_len key) = length ?us" using js_len_units [OF assms] .
  have spelled: "0 < length (index_text index)" "length (index_text index) \<le> 10" for index
    using length_nat_digits [of "unat (index_get index)" 9] less_trans [OF unat_u32_bound, of "10 ^ 10" "index_get index"]
    by (auto simp: index_text_def)
  show ?thesis
  proof (cases "?us = [] \<or> 10 < length ?us")
    case True
    then have "?r = Inr None"
      using len by (auto simp: parse_property_key_def word_less_nat_alt word_unat_eq_iff)
    moreover have "?us \<noteq> index_text index" for index
      using True spelled [of index] by auto
    ultimately show ?thesis by simp
  next
    case False
    then obtain u us where us: "?us = u # us" by (cases ?us) auto
    have first: "code_unit_at key 0 = Inr (Some u)"
      using code_unit_at_exact [OF assms, of 0] us by simp
    have small: "js_len key \<noteq> 0" "\<not> 10 < js_len key" "js_len key = 1 \<longleftrightarrow> us = []"
      using False len us by (auto simp: word_less_nat_alt word_unat_eq_iff)
    have canonical: "?us = index_text index \<longleftrightarrow>
        list_all is_ascii_digit ?us \<and> (u \<noteq> 0x30 \<or> us = []) \<and> horner 0 (digits_of ?us) = unat (index_get index)" for index
      unfolding index_text_def using canonical_text [of ?us] us by simp
    consider "u = 0x30" | "u \<noteq> 0x30" "\<not> is_ascii_digit u" | "u \<noteq> 0x30" "is_ascii_digit u" by blast
    then show ?thesis
    proof cases
      case 1
      have "is_ascii_digit 0x30" by (simp add: is_ascii_digit_def)
      then have "?us = index_text index \<longleftrightarrow> us = [] \<and> index = ArrayIndex 0" for index
        using canonical [of index] us 1 by (cases index) (auto simp: word_unat_eq_iff)
      moreover have "?r = Inr (if us = [] then Some (ArrayIndex 0) else None)"
        using first small 1 by (simp add: parse_property_key_def Let_def)
      ultimately show ?thesis by (auto simp: valid_index_def)
    next
      case 2
      then have "?r = Inr None"
        using first small by (simp add: parse_property_key_def Let_def)
      moreover have "?us \<noteq> index_text index" for index
        unfolding canonical using 2 us by simp
      ultimately show ?thesis by simp
    next
      case 3
      define n where "n = horner 0 (digits_of ?us)"
      have "unat (ucast (u - 0x30) :: u32) = unat (u - 0x30)" by simp
      then have "index_digits key (map word_of_nat [1..<unat (js_len key)]) (ucast (u - 0x30)) =
          Inr (if list_all is_ascii_digit us \<and> n < 2 ^ 32 then Some (word_of_nat n) else None)"
        using index_digits_exact [OF assms, of 1 "ucast (u - 0x30)"] us len by (simp add: n_def Let_def)
      then have "?r = Inr (if list_all is_ascii_digit us \<and> n < 2 ^ 32 then array_index_new (word_of_nat n) else None)"
        using first small 3 by (simp add: parse_property_key_def Let_def)
      moreover have "?us = index_text index \<longleftrightarrow> list_all is_ascii_digit us \<and> n = unat (index_get index)" for index
        unfolding canonical n_def using 3 us by simp
      moreover have "unat (word_of_nat n :: u32) = n" if "n < 2 ^ 32"
        using that by (rule unat_word_of_nat_u32)
      ultimately show ?thesis
        using less_le_trans [OF unat_u32_bound]
        by (auto simp: array_index_new_def valid_index_def array_index.expand word_unat_eq_iff split: if_splits)
    qed
  qed
qed

lemma decimal_digits_exact:
  "decimal_digits v ds = map (\<lambda>d. word_of_nat (48 + d)) (nat_digits (unat v)) @ ds"
proof (induction "unat v" arbitrary: v ds rule: less_induct)
  case less
  have digit: "decimal_digit v = word_of_nat (48 + unat v mod 10)"
    by (simp add: decimal_digit_def word_unat_eq_iff unat_word_ariths unat_mod unat_of_nat unsigned_ucast_eq take_bit_nat_def)
  have quotient: "unat (v div 10) = unat v div 10" by (simp add: unat_div)
  show ?case
  proof (cases "unat v < 10")
    case True
    then have "v div 10 = 0" using quotient by (simp add: word_unat_eq_iff)
    then show ?thesis
      using True digit by (subst decimal_digits.simps, subst nat_digits.simps) simp
  next
    case False
    then have "v div 10 \<noteq> 0" "unat (v div 10) < unat v"
      using quotient by (auto simp: word_unat_eq_iff)
    then show ?thesis
      using less [of "v div 10"] False digit quotient
      by (subst decimal_digits.simps, subst nat_digits.simps) (simp add: Let_def)
  qed
qed

lemma to_js_string_exact:
  "case to_js_string alloc index of
     Inl e \<Rightarrow> refused alloc e
   | Inr s \<Rightarrow> string_wf s \<and> units s = index_text index"
proof -
  let ?ds = "decimal_digits (index_get index) []"
  have len: "length ?ds \<le> 10" "?ds \<noteq> []"
    using length_nat_digits [of "unat (index_get index)" 9] less_trans [OF unat_u32_bound, of "10 ^ 10" "index_get index"]
    by (simp_all add: decimal_digits_exact)
  have "(ucast (word_of_nat (48 + d) :: u8) :: u16) = word_of_nat (48 + d)" if "d < 10" for d
    using that unfolding word_unat_eq_iff unsigned_ucast_eq unat_of_nat by (simp add: take_bit_nat_def)
  then have "map ucast ?ds = index_text index"
    using nat_digits_small by (auto simp: decimal_digits_exact index_text_def digit_unit_def)
  then have "string_wf (Latin1 ?ds) \<and> units (Latin1 ?ds) = index_text index"
    using len by simp
  then show ?thesis
    using len by (cases "string_reserve alloc 0 (length ?ds)")
      (auto simp: to_js_string_def from_latin1_def check_length_def dest: refused_reserve)
qed

end
