(* ===== verification/Atom_Table.thy ===== *)
theory Atom_Table
  imports Index_Key Ordering
begin

text \<open>
  The atom table of \<^verbatim>\<open>crates/fusor-runtime/src/atom.rs\<close> with the predefined atoms of
  \<^verbatim>\<open>predefined_atoms.rs\<close>. The allocations behind the reference-counted handles are the entries of a list: an entry carries its number of owners, its address is its
  position and is never reused, and a weak reference is an address. Creating a clone of a handle and dropping one are
  operations of their own. Descriptions are sequences of code units: the table stores compact leaves and reads a
  string it is given through its iterator, whose panic on a rope that is too deep is the subject of \<open>Js_Rope_Depth\<close>. The hash of a content comes from a randomly
  keyed hasher of the standard library: it is a parameter, a function of the namespace and the units.
\<close>

section \<open>Predefined atoms\<close>

datatype predefined_kind = Predefined_String | Predefined_Private | Predefined_Symbol

definition PREDEFINED_ATOM_SPECS :: "(string \<times> predefined_kind) list" where
  "PREDEFINED_ATOM_SPECS =
     [(''null'', Predefined_String), (''false'', Predefined_String), (''true'', Predefined_String),
      (''if'', Predefined_String), (''else'', Predefined_String), (''return'', Predefined_String),
      (''var'', Predefined_String), (''this'', Predefined_String), (''delete'', Predefined_String),
      (''void'', Predefined_String), (''typeof'', Predefined_String), (''new'', Predefined_String),
      (''in'', Predefined_String), (''instanceof'', Predefined_String), (''do'', Predefined_String),
      (''while'', Predefined_String), (''for'', Predefined_String), (''break'', Predefined_String),
      (''continue'', Predefined_String), (''switch'', Predefined_String), (''case'', Predefined_String),
      (''default'', Predefined_String), (''throw'', Predefined_String), (''try'', Predefined_String),
      (''catch'', Predefined_String), (''finally'', Predefined_String), (''function'', Predefined_String),
      (''debugger'', Predefined_String), (''with'', Predefined_String), (''class'', Predefined_String),
      (''const'', Predefined_String), (''enum'', Predefined_String), (''export'', Predefined_String),
      (''extends'', Predefined_String), (''import'', Predefined_String), (''super'', Predefined_String),
      (''implements'', Predefined_String), (''interface'', Predefined_String), (''let'', Predefined_String),
      (''package'', Predefined_String), (''private'', Predefined_String), (''protected'', Predefined_String),
      (''public'', Predefined_String), (''static'', Predefined_String), (''yield'', Predefined_String),
      (''await'', Predefined_String), ('''', Predefined_String), (''keys'', Predefined_String),
      (''size'', Predefined_String), (''length'', Predefined_String), (''fileName'', Predefined_String),
      (''lineNumber'', Predefined_String), (''columnNumber'', Predefined_String), (''message'', Predefined_String),
      (''cause'', Predefined_String), (''errors'', Predefined_String), (''stack'', Predefined_String),
      (''name'', Predefined_String), (''toString'', Predefined_String), (''toLocaleString'', Predefined_String),
      (''valueOf'', Predefined_String), (''eval'', Predefined_String), (''prototype'', Predefined_String),
      (''constructor'', Predefined_String), (''configurable'', Predefined_String), (''writable'', Predefined_String),
      (''enumerable'', Predefined_String), (''value'', Predefined_String), (''get'', Predefined_String),
      (''set'', Predefined_String), (''of'', Predefined_String), (''__proto__'', Predefined_String),
      (''undefined'', Predefined_String), (''number'', Predefined_String), (''boolean'', Predefined_String),
      (''string'', Predefined_String), (''object'', Predefined_String), (''symbol'', Predefined_String),
      (''integer'', Predefined_String), (''unknown'', Predefined_String), (''arguments'', Predefined_String),
      (''callee'', Predefined_String), (''caller'', Predefined_String), (''<eval>'', Predefined_String),
      (''<ret>'', Predefined_String), (''<var>'', Predefined_String), (''<arg_var>'', Predefined_String),
      (''<with>'', Predefined_String), (''lastIndex'', Predefined_String), (''target'', Predefined_String),
      (''index'', Predefined_String), (''input'', Predefined_String), (''defineProperties'', Predefined_String),
      (''apply'', Predefined_String), (''join'', Predefined_String), (''concat'', Predefined_String),
      (''split'', Predefined_String), (''construct'', Predefined_String), (''getPrototypeOf'', Predefined_String),
      (''setPrototypeOf'', Predefined_String), (''isExtensible'', Predefined_String),
      (''preventExtensions'', Predefined_String), (''has'', Predefined_String),
      (''deleteProperty'', Predefined_String), (''defineProperty'', Predefined_String),
      (''getOwnPropertyDescriptor'', Predefined_String), (''ownKeys'', Predefined_String),
      (''add'', Predefined_String), (''done'', Predefined_String), (''next'', Predefined_String),
      (''values'', Predefined_String), (''source'', Predefined_String), (''flags'', Predefined_String),
      (''global'', Predefined_String), (''unicode'', Predefined_String), (''raw'', Predefined_String),
      (''rawJSON'', Predefined_String), (''new.target'', Predefined_String),
      (''this.active_func'', Predefined_String), (''<home_object>'', Predefined_String),
      (''<computed_field>'', Predefined_String), (''<static_computed_field>'', Predefined_String),
      (''<class_fields_init>'', Predefined_String), (''<brand>'', Predefined_String),
      (''#constructor'', Predefined_String), (''as'', Predefined_String), (''from'', Predefined_String),
      (''meta'', Predefined_String), (''*default*'', Predefined_String), (''*'', Predefined_String),
      (''Module'', Predefined_String), (''then'', Predefined_String), (''resolve'', Predefined_String),
      (''reject'', Predefined_String), (''promise'', Predefined_String), (''proxy'', Predefined_String),
      (''revoke'', Predefined_String), (''async'', Predefined_String), (''exec'', Predefined_String),
      (''groups'', Predefined_String), (''indices'', Predefined_String), (''status'', Predefined_String),
      (''reason'', Predefined_String), (''globalThis'', Predefined_String), (''bigint'', Predefined_String),
      (''-0'', Predefined_String), (''Infinity'', Predefined_String), (''-Infinity'', Predefined_String),
      (''NaN'', Predefined_String), (''hasIndices'', Predefined_String), (''ignoreCase'', Predefined_String),
      (''multiline'', Predefined_String), (''dotAll'', Predefined_String), (''sticky'', Predefined_String),
      (''unicodeSets'', Predefined_String), (''not-equal'', Predefined_String), (''timed-out'', Predefined_String),
      (''ok'', Predefined_String), (''toISOString'', Predefined_String), (''alphabet'', Predefined_String),
      (''lastChunkHandling'', Predefined_String), (''omitPadding'', Predefined_String),
      (''toJSON'', Predefined_String), (''maxByteLength'', Predefined_String), (''Object'', Predefined_String),
      (''Array'', Predefined_String), (''Error'', Predefined_String), (''Number'', Predefined_String),
      (''String'', Predefined_String), (''Boolean'', Predefined_String), (''Symbol'', Predefined_String),
      (''Arguments'', Predefined_String), (''Math'', Predefined_String), (''JSON'', Predefined_String),
      (''Date'', Predefined_String), (''Function'', Predefined_String), (''GeneratorFunction'', Predefined_String),
      (''ForInIterator'', Predefined_String), (''RegExp'', Predefined_String), (''ArrayBuffer'', Predefined_String),
      (''SharedArrayBuffer'', Predefined_String), (''Uint8ClampedArray'', Predefined_String),
      (''Int8Array'', Predefined_String), (''Uint8Array'', Predefined_String), (''Int16Array'', Predefined_String),
      (''Uint16Array'', Predefined_String), (''Int32Array'', Predefined_String),
      (''Uint32Array'', Predefined_String), (''BigInt64Array'', Predefined_String),
      (''BigUint64Array'', Predefined_String), (''Float16Array'', Predefined_String),
      (''Float32Array'', Predefined_String), (''Float64Array'', Predefined_String),
      (''DataView'', Predefined_String), (''BigInt'', Predefined_String), (''WeakRef'', Predefined_String),
      (''FinalizationRegistry'', Predefined_String), (''Map'', Predefined_String), (''Set'', Predefined_String),
      (''WeakMap'', Predefined_String), (''WeakSet'', Predefined_String), (''Iterator'', Predefined_String),
      (''Iterator Helper'', Predefined_String), (''Iterator Concat'', Predefined_String),
      (''Iterator Wrap'', Predefined_String), (''Map Iterator'', Predefined_String),
      (''Set Iterator'', Predefined_String), (''Array Iterator'', Predefined_String),
      (''String Iterator'', Predefined_String), (''RegExp String Iterator'', Predefined_String),
      (''Generator'', Predefined_String), (''Proxy'', Predefined_String), (''Promise'', Predefined_String),
      (''PromiseResolveFunction'', Predefined_String), (''PromiseRejectFunction'', Predefined_String),
      (''AsyncFunction'', Predefined_String), (''AsyncFunctionResolve'', Predefined_String),
      (''AsyncFunctionReject'', Predefined_String), (''AsyncGeneratorFunction'', Predefined_String),
      (''AsyncGenerator'', Predefined_String), (''EvalError'', Predefined_String),
      (''RangeError'', Predefined_String), (''ReferenceError'', Predefined_String),
      (''SyntaxError'', Predefined_String), (''TypeError'', Predefined_String), (''URIError'', Predefined_String),
      (''InternalError'', Predefined_String), (''AggregateError'', Predefined_String),
      (''<brand>'', Predefined_Private), (''Symbol.toPrimitive'', Predefined_Symbol),
      (''Symbol.iterator'', Predefined_Symbol), (''Symbol.match'', Predefined_Symbol),
      (''Symbol.matchAll'', Predefined_Symbol), (''Symbol.replace'', Predefined_Symbol),
      (''Symbol.search'', Predefined_Symbol), (''Symbol.split'', Predefined_Symbol),
      (''Symbol.toStringTag'', Predefined_Symbol), (''Symbol.isConcatSpreadable'', Predefined_Symbol),
      (''Symbol.hasInstance'', Predefined_Symbol), (''Symbol.species'', Predefined_Symbol),
      (''Symbol.unscopables'', Predefined_Symbol), (''Symbol.asyncIterator'', Predefined_Symbol),
      (''Symbol.dispose'', Predefined_Symbol), (''IntlLegacyConstructedSymbol'', Predefined_Symbol)]"

definition MAX_ATOM_ENTRIES :: u32 where
  "MAX_ATOM_ENTRIES = 1073741823"

definition PREDEFINED_ATOM_COUNT :: u32 where
  "PREDEFINED_ATOM_COUNT = 244"

definition PREDEFINED_DESCRIPTION_CODE_UNITS :: u64 where
  "PREDEFINED_DESCRIPTION_CODE_UNITS = 2119"

definition PREDEFINED_INTERNER_SLOTS :: u32 where
  "PREDEFINED_INTERNER_SLOTS = 228"

section \<open>State\<close>

type_synonym description = "u16 list"

datatype intern_namespace = Namespace_String | Namespace_GlobalSymbol

fun namespace_kind :: "intern_namespace \<Rightarrow> atom_kind" where
  "namespace_kind Namespace_String = Atom_String"
| "namespace_kind Namespace_GlobalSymbol = Atom_GlobalSymbol"

type_synonym content_hasher = "intern_namespace \<Rightarrow> description \<Rightarrow> u64"

record bucket_key =
  bk_namespace :: intern_namespace
  bk_content_hash :: u64

record atom_entry =
  ae_kind :: atom_kind
  ae_description :: "description option"
  ae_predefined :: "nat option"
  ae_strong :: nat

record atom_limits =
  al_max_live_atoms :: u32
  al_max_live_description_code_units :: u64
  al_max_interner_slots :: u32

record atom_usage =
  au_live_atoms :: u32
  au_live_description_code_units :: u64
  au_interner_slots :: u32

text \<open>
  The hash map of buckets is an association list; nothing depends on its order. A handle is the
  table state that owns it and its address there.
\<close>

record atom_table =
  at_state :: nat
  at_entries :: "atom_entry list"
  at_usage :: atom_usage
  at_limits :: atom_limits
  at_buckets :: "(bucket_key \<times> nat list) list"
  at_predefined :: "nat list"

record atom_handle =
  ah_owner :: nat
  ah_address :: nat

datatype allocation_target = Target_PredefinedAtoms | Target_InternerBuckets | Target_InternerBucket

datatype atom_error =
  InvalidMaxLiveAtoms u32 u32
| LiveAtomLimit u32 u32 u32
| DescriptionCodeUnitLimit u64 u64 u64
| InternerSlotLimit u32 u32 u32
| Atom_AllocationFailed allocation_target usize
| Atom_String_Error string_error
| OrphanedAtom
| ForeignAtom
| ExpectedSymbol atom_kind
| PrivateNameIsNotPropertyKey

datatype reclaim_scope = Reclaim_None | Reclaim_TargetBucket | Reclaim_AllBuckets

record reclaim_plan =
  rc_scope :: reclaim_scope
  rc_total_dead :: u32
  rc_target_dead :: u32

definition reclaim_none :: reclaim_plan where
  "reclaim_none = \<lparr>rc_scope = Reclaim_None, rc_total_dead = 0, rc_target_dead = 0\<rparr>"

section \<open>Handles\<close>

definition strong_count :: "atom_table \<Rightarrow> nat \<Rightarrow> nat" where
  "strong_count t i = (case get (at_entries t) i of None \<Rightarrow> 0 | Some e \<Rightarrow> ae_strong e)"

definition handle :: "atom_table \<Rightarrow> nat \<Rightarrow> atom_handle" where
  "handle t i = \<lparr>ah_owner = at_state t, ah_address = i\<rparr>"

text \<open>\<^verbatim>\<open>Arc::clone\<close>, and what a successful \<^verbatim>\<open>Weak::upgrade\<close> does.\<close>

definition atom_clone :: "nat \<Rightarrow> atom_table \<Rightarrow> atom_table" where
  "atom_clone i t = t\<lparr>at_entries := (at_entries t)[i := (at_entries t ! i)\<lparr>ae_strong := ae_strong (at_entries t ! i) + 1\<rparr>]\<rparr>"

definition description_code_units :: "atom_entry \<Rightarrow> u64" where
  "description_code_units e = (case ae_description e of None \<Rightarrow> 0 | Some d \<Rightarrow> word_of_nat (length d))"

text \<open>Dropping the last owner runs \<^verbatim>\<open>Drop for AtomEntry\<close>, which settles the usage of the owning table.\<close>

definition entry_drop :: "atom_entry \<Rightarrow> atom_usage \<Rightarrow> atom_usage" where
  "entry_drop e usage = usage\<lparr>
     au_live_atoms := saturating_sub (au_live_atoms usage) 1,
     au_live_description_code_units := saturating_sub (au_live_description_code_units usage) (description_code_units e)\<rparr>"

definition atom_drop :: "nat \<Rightarrow> atom_table \<Rightarrow> atom_table" where
  "atom_drop i t =
     (let e = at_entries t ! i;
          t' = t\<lparr>at_entries := (at_entries t)[i := e\<lparr>ae_strong := ae_strong e - 1\<rparr>]\<rparr>
      in if ae_strong e = 1 then t'\<lparr>at_usage := entry_drop e (at_usage t)\<rparr> else t')"

section \<open>Buckets\<close>

definition dead_slots :: "atom_table \<Rightarrow> nat list \<Rightarrow> u32" where
  "dead_slots t bucket = foldl (\<lambda>count i. saturating_add count (if strong_count t i = 0 then 1 else 0)) 0 bucket"

definition prune_dead_slots :: "atom_table \<Rightarrow> nat list \<Rightarrow> nat list \<times> u32" where
  "prune_dead_slots t bucket =
     (let kept = filter (\<lambda>i. strong_count t i \<noteq> 0) bucket
      in (kept, case u32_try_from (length bucket - length kept) of None \<Rightarrow> - 1 | Some n \<Rightarrow> n))"

text \<open>\<^verbatim>\<open>retain\<close> over all buckets, with the number of slots removed.\<close>

primrec retain_live ::
  "atom_table \<Rightarrow> (bucket_key \<times> nat list) list \<Rightarrow> u32 \<Rightarrow> (bucket_key \<times> nat list) list \<times> u32" where
  "retain_live t [] removed = ([], removed)"
| "retain_live t (entry # buckets) removed =
     (let (kept, dead) = prune_dead_slots t (snd entry);
          (rest, total) = retain_live t buckets (saturating_add removed dead)
      in (if kept = [] then rest else (fst entry, kept) # rest, total))"

definition decrease_interner_slots :: "u32 \<Rightarrow> atom_table \<Rightarrow> atom_table" where
  "decrease_interner_slots removed t =
     (if removed = 0 then t
      else t\<lparr>at_usage := (at_usage t)\<lparr>au_interner_slots := saturating_sub (au_interner_slots (at_usage t)) removed\<rparr>\<rparr>)"

definition collect_dead :: "atom_table \<Rightarrow> u32 \<times> atom_table" where
  "collect_dead t =
     (let (buckets, removed) = retain_live t (at_buckets t) 0
      in (removed, decrease_interner_slots removed (t\<lparr>at_buckets := buckets\<rparr>)))"

section \<open>Accounting\<close>

definition checked_usage_after_reclaim :: "u32 \<Rightarrow> u32 \<Rightarrow> u32 \<Rightarrow> u32 \<Rightarrow> atom_table \<Rightarrow> (atom_error, atom_usage) result" where
  "checked_usage_after_reclaim atoms additional_units slots reclaimed t =
     (let current = at_usage t;
          limits = at_limits t;
          live_error = LiveAtomLimit (au_live_atoms current) atoms (al_max_live_atoms limits);
          units_error = DescriptionCodeUnitLimit (au_live_description_code_units current) (ucast additional_units)
            (al_max_live_description_code_units limits);
          slots_error = InternerSlotLimit (au_interner_slots current) slots (al_max_interner_slots limits)
      in and_then (ok_or (checked_add (au_live_atoms current) atoms) live_error) (\<lambda>live_atoms.
         and_then (err_if (al_max_live_atoms limits < live_atoms) live_error) (\<lambda>_.
         and_then (ok_or (checked_add (au_live_description_code_units current) (ucast additional_units)) units_error) (\<lambda>live_units.
         and_then (err_if (al_max_live_description_code_units limits < live_units) units_error) (\<lambda>_.
         and_then (ok_or (checked_add (saturating_sub (au_interner_slots current) reclaimed) slots) slots_error) (\<lambda>interner_slots.
         and_then (err_if (al_max_interner_slots limits < interner_slots) slots_error) (\<lambda>_.
           Inr \<lparr>au_live_atoms = live_atoms, au_live_description_code_units = live_units, au_interner_slots = interner_slots\<rparr>)))))))"

definition checked_usage_after :: "u32 \<Rightarrow> u32 \<Rightarrow> u32 \<Rightarrow> atom_table \<Rightarrow> (atom_error, atom_usage) result" where
  "checked_usage_after atoms additional_units slots t = checked_usage_after_reclaim atoms additional_units slots 0 t"

definition validate_limits :: "atom_limits \<Rightarrow> (atom_error, unit) result" where
  "validate_limits limits =
     err_if (MAX_ATOM_ENTRIES < al_max_live_atoms limits) (InvalidMaxLiveAtoms (al_max_live_atoms limits) MAX_ATOM_ENTRIES)"

definition validate_startup_limits :: "atom_limits \<Rightarrow> (atom_error, unit) result" where
  "validate_startup_limits limits =
     and_then (err_if (al_max_live_atoms limits < PREDEFINED_ATOM_COUNT)
       (LiveAtomLimit 0 PREDEFINED_ATOM_COUNT (al_max_live_atoms limits))) (\<lambda>_.
     and_then (err_if (al_max_live_description_code_units limits < PREDEFINED_DESCRIPTION_CODE_UNITS)
       (DescriptionCodeUnitLimit 0 PREDEFINED_DESCRIPTION_CODE_UNITS (al_max_live_description_code_units limits))) (\<lambda>_.
       err_if (al_max_interner_slots limits < PREDEFINED_INTERNER_SLOTS)
         (InternerSlotLimit 0 PREDEFINED_INTERNER_SLOTS (al_max_interner_slots limits))))"

section \<open>Creation\<close>

text \<open>The copy into a compact leaf, of which the table keeps the units.\<close>

definition compact_description :: "allocator \<Rightarrow> description \<Rightarrow> (atom_error, description) result" where
  "compact_description alloc d =
     map_err Atom_String_Error (and_then (from_code_units alloc (length d) (map Inr d)) (\<lambda>s. Inr (units s)))"

definition push_entry :: "atom_kind \<Rightarrow> description option \<Rightarrow> nat option \<Rightarrow> atom_table \<Rightarrow> atom_handle \<times> atom_table" where
  "push_entry kind d predefined t =
     (handle t (length (at_entries t)),
      t\<lparr>at_entries := at_entries t @ [\<lparr>ae_kind = kind, ae_description = d, ae_predefined = predefined, ae_strong = 1\<rparr>]\<rparr>)"

definition create_entry ::
  "atom_kind \<Rightarrow> description option \<Rightarrow> nat option \<Rightarrow> atom_usage \<Rightarrow> atom_table \<Rightarrow> atom_handle \<times> atom_table" where
  "create_entry kind d predefined next_usage t =
     (let (atom, t') = push_entry kind d predefined t in (atom, t'\<lparr>at_usage := next_usage\<rparr>))"

definition description_len :: "description option \<Rightarrow> u32" where
  "description_len desc = (case desc of None \<Rightarrow> 0 | Some d \<Rightarrow> word_of_nat (length d))"

type_synonym 'a atom_op = "atom_table \<Rightarrow> (atom_error, 'a) result \<times> atom_table"

definition insert_unique :: "allocator \<Rightarrow> atom_kind \<Rightarrow> description option \<Rightarrow> nat option \<Rightarrow> atom_handle atom_op" where
  "insert_unique alloc kind d predefined t =
     (case checked_usage_after 1 (description_len d) 0 t of
        Inl e \<Rightarrow> (Inl e, t)
      | Inr next_usage \<Rightarrow>
          (case (case d of None \<Rightarrow> Inr None | Some text \<Rightarrow> and_then (compact_description alloc text) (\<lambda>c. Inr (Some c))) of
             Inl e \<Rightarrow> (Inl e, t)
           | Inr copy \<Rightarrow> (let (atom, t') = create_entry kind copy predefined next_usage t in (Inr atom, t'))))"

definition publish_unique :: "atom_kind \<Rightarrow> description option \<Rightarrow> nat option \<Rightarrow> atom_handle atom_op" where
  "publish_unique kind d predefined t =
     (case checked_usage_after 1 (description_len d) 0 t of
        Inl e \<Rightarrow> (Inl e, t)
      | Inr next_usage \<Rightarrow> (let (atom, t') = create_entry kind d predefined next_usage t in (Inr atom, t')))"

definition new_unique_symbol :: "allocator \<Rightarrow> description option \<Rightarrow> atom_handle atom_op" where
  "new_unique_symbol alloc d = insert_unique alloc Atom_Symbol d None"

definition new_private_name :: "allocator \<Rightarrow> description \<Rightarrow> atom_handle atom_op" where
  "new_private_name alloc d = insert_unique alloc Atom_Private (Some d) None"

section \<open>Interning\<close>

primrec find_in_bucket :: "atom_table \<Rightarrow> atom_kind \<Rightarrow> description \<Rightarrow> nat list \<Rightarrow> nat option" where
  "find_in_bucket t kind d [] = None"
| "find_in_bucket t kind d (i # bucket) =
     (if strong_count t i \<noteq> 0 \<and> ae_kind (at_entries t ! i) = kind \<and> ae_description (at_entries t ! i) = Some d
      then Some i else find_in_bucket t kind d bucket)"

definition find_interned :: "bucket_key \<Rightarrow> description \<Rightarrow> atom_table \<Rightarrow> nat option" where
  "find_interned key d t =
     Option.bind (map_of (at_buckets t) key) (find_in_bucket t (namespace_kind (bk_namespace key)) d)"

definition plan_reclaim :: "bucket_key \<Rightarrow> atom_table \<Rightarrow> reclaim_plan" where
  "plan_reclaim key t =
     (let target_dead = (case map_of (at_buckets t) key of None \<Rightarrow> 0 | Some bucket \<Rightarrow> dead_slots t bucket);
          slots_after_target = saturating_sub (au_interner_slots (at_usage t)) target_dead
      in if slots_after_target < al_max_interner_slots (at_limits t)
         then if target_dead = 0 then reclaim_none
              else \<lparr>rc_scope = Reclaim_TargetBucket, rc_total_dead = target_dead, rc_target_dead = target_dead\<rparr>
         else \<lparr>rc_scope = Reclaim_AllBuckets,
                rc_total_dead = foldl (\<lambda>total entry. saturating_add total (dead_slots t (snd entry))) 0 (at_buckets t),
                rc_target_dead = target_dead\<rparr>)"

text \<open>The reservations a new slot needs; nothing is changed before they succeed.\<close>

definition reserve_slot :: "allocator \<Rightarrow> bucket_key \<Rightarrow> reclaim_plan \<Rightarrow> atom_table \<Rightarrow> (atom_error, unit) result" where
  "reserve_slot alloc key reclaim t =
     (case map_of (at_buckets t) key of
        Some bucket \<Rightarrow>
          err_if (rc_target_dead reclaim = 0 \<and> \<not> alloc (length bucket) 1) (Atom_AllocationFailed Target_InternerBucket 1)
      | None \<Rightarrow>
          and_then (err_if (\<not> alloc (length (at_buckets t)) 1) (Atom_AllocationFailed Target_InternerBuckets 1)) (\<lambda>_.
            err_if (\<not> alloc 0 1) (Atom_AllocationFailed Target_InternerBucket 1)))"

definition remove_bucket :: "bucket_key \<Rightarrow> (bucket_key \<times> nat list) list \<Rightarrow> (bucket_key \<times> nat list) list" where
  "remove_bucket key buckets = filter (\<lambda>entry. fst entry \<noteq> key) buckets"

definition publish_interned_prepared ::
  "allocator \<Rightarrow> bucket_key \<Rightarrow> description \<Rightarrow> nat option \<Rightarrow> reclaim_plan \<Rightarrow> atom_usage \<Rightarrow> atom_handle atom_op" where
  "publish_interned_prepared alloc key d predefined reclaim next_usage t =
     (case reserve_slot alloc key reclaim t of
        Inl e \<Rightarrow> (Inl e, t)
      | Inr _ \<Rightarrow>
          let bucket = (case map_of (at_buckets t) key of None \<Rightarrow> [] | Some b \<Rightarrow> b);
              others = remove_bucket key (at_buckets t);
              pruned = (if rc_scope reclaim = Reclaim_None then bucket else fst (prune_dead_slots t bucket));
              others' = (if rc_scope reclaim = Reclaim_AllBuckets then fst (retain_live t others 0) else others);
              (atom, t') = push_entry (namespace_kind (bk_namespace key)) (Some d) predefined t
          in (Inr atom, t'\<lparr>at_buckets := (key, pruned @ [ah_address atom]) # others', at_usage := next_usage\<rparr>))"

definition publish_interned ::
  "allocator \<Rightarrow> intern_namespace \<Rightarrow> description \<Rightarrow> nat option \<Rightarrow> u64 \<Rightarrow> atom_handle atom_op" where
  "publish_interned alloc ns d predefined content_hash t =
     (case checked_usage_after 1 (word_of_nat (length d)) 1 t of
        Inl e \<Rightarrow> (Inl e, t)
      | Inr next_usage \<Rightarrow>
          publish_interned_prepared alloc \<lparr>bk_namespace = ns, bk_content_hash = content_hash\<rparr> d predefined reclaim_none next_usage t)"

definition intern_description :: "content_hasher \<Rightarrow> allocator \<Rightarrow> intern_namespace \<Rightarrow> description \<Rightarrow> atom_handle atom_op" where
  "intern_description hash alloc ns d t =
     (let key = \<lparr>bk_namespace = ns, bk_content_hash = hash ns d\<rparr>
      in case find_interned key d t of
           Some i \<Rightarrow> (Inr (handle t i), atom_clone i t)
         | None \<Rightarrow>
             let reclaim = plan_reclaim key t
             in case checked_usage_after_reclaim 1 (word_of_nat (length d)) 1 (rc_total_dead reclaim) t of
                  Inl e \<Rightarrow> (Inl e, t)
                | Inr next_usage \<Rightarrow>
                    (case compact_description alloc d of
                       Inl e \<Rightarrow> (Inl e, t)
                     | Inr copy \<Rightarrow> publish_interned_prepared alloc key copy None reclaim next_usage t))"

definition intern_string :: "content_hasher \<Rightarrow> allocator \<Rightarrow> description \<Rightarrow> atom_handle atom_op" where
  "intern_string hash alloc = intern_description hash alloc Namespace_String"

definition intern_global_symbol :: "content_hasher \<Rightarrow> allocator \<Rightarrow> description \<Rightarrow> atom_handle atom_op" where
  "intern_global_symbol hash alloc = intern_description hash alloc Namespace_GlobalSymbol"

text \<open>
  The handle is dropped first; the slot of an identity nobody owns any more is then swapped with the last
  one of its bucket and removed.
\<close>

definition swap_remove :: "nat \<Rightarrow> 'a list \<Rightarrow> 'a list" where
  "swap_remove index xs = (if index + 1 = length xs then butlast xs else butlast (xs[index := last xs]))"

primrec dead_position :: "atom_table \<Rightarrow> nat \<Rightarrow> nat list \<Rightarrow> nat option" where
  "dead_position t address [] = None"
| "dead_position t address (i # bucket) =
     (if i = address \<and> strong_count t i = 0 then Some 0 else map_option Suc (dead_position t address bucket))"

definition rollback_interned_string :: "content_hasher \<Rightarrow> nat \<Rightarrow> atom_table \<Rightarrow> atom_table" where
  "rollback_interned_string hash i t =
     (let e = at_entries t ! i;
          key = \<lparr>bk_namespace = Namespace_String, bk_content_hash = hash Namespace_String (the (ae_description e))\<rparr>;
          t' = atom_drop i t
      in if ae_predefined e \<noteq> None then t'
         else case map_of (at_buckets t') key of
                None \<Rightarrow> t'
              | Some bucket \<Rightarrow>
                  (case dead_position t' i bucket of
                     None \<Rightarrow> t'
                   | Some index \<Rightarrow>
                       let bucket' = swap_remove index bucket
                       in decrease_interner_slots 1 (t'\<lparr>at_buckets :=
                            (if bucket' = [] then remove_bucket key (at_buckets t')
                             else (key, bucket') # remove_bucket key (at_buckets t'))\<rparr>)))"

section \<open>Construction\<close>

definition text_units :: "string \<Rightarrow> description" where
  "text_units s = map (\<lambda>c. word_of_nat (of_char c)) s"

definition insert_predefined ::
  "content_hasher \<Rightarrow> allocator \<Rightarrow> nat \<Rightarrow> predefined_kind \<Rightarrow> description \<Rightarrow> atom_handle atom_op" where
  "insert_predefined hash alloc index kind d =
     (case kind of
        Predefined_String \<Rightarrow> publish_interned alloc Namespace_String d (Some index) (hash Namespace_String d)
      | Predefined_Private \<Rightarrow> publish_unique Atom_Private (Some d) (Some index)
      | Predefined_Symbol \<Rightarrow> publish_unique Atom_Symbol (Some d) (Some index))"

fun install_predefined ::
  "content_hasher \<Rightarrow> allocator \<Rightarrow> nat \<Rightarrow> (string \<times> predefined_kind) list \<Rightarrow> atom_table \<Rightarrow> (atom_error, atom_table) result" where
  "install_predefined hash alloc index [] t = Inr t"
| "install_predefined hash alloc index ((content, kind) # specs) t =
     (case compact_description alloc (text_units content) of
        Inl e \<Rightarrow> Inl e
      | Inr d \<Rightarrow>
          (case insert_predefined hash alloc index kind d t of
             (Inl e, _) \<Rightarrow> Inl e
           | (Inr atom, t') \<Rightarrow>
               install_predefined hash alloc (index + 1) specs (t'\<lparr>at_predefined := at_predefined t' @ [ah_address atom]\<rparr>)))"

definition atom_table_new :: "content_hasher \<Rightarrow> allocator \<Rightarrow> nat \<Rightarrow> atom_limits \<Rightarrow> (atom_error, atom_table) result" where
  "atom_table_new hash alloc state limits =
     and_then (validate_limits limits) (\<lambda>_.
     and_then (validate_startup_limits limits) (\<lambda>_.
     and_then (err_if (\<not> alloc 0 228) (Atom_AllocationFailed Target_InternerBuckets 228)) (\<lambda>_.
     and_then (err_if (\<not> alloc 0 244) (Atom_AllocationFailed Target_PredefinedAtoms 244)) (\<lambda>_.
       install_predefined hash alloc 0 PREDEFINED_ATOM_SPECS
         \<lparr>at_state = state, at_entries = [],
          at_usage = \<lparr>au_live_atoms = 0, au_live_description_code_units = 0, au_interner_slots = 0\<rparr>,
          at_limits = limits, at_buckets = [], at_predefined = []\<rparr>))))"

section \<open>Keys\<close>

text \<open>Whether the state of another table is still alive is an argument.\<close>

definition validate_atom :: "(nat \<Rightarrow> bool) \<Rightarrow> atom_handle \<Rightarrow> atom_table \<Rightarrow> (atom_error, unit) result" where
  "validate_atom alive atom t =
     (if ah_owner atom = at_state t then Inr () else if alive (ah_owner atom) then Inl ForeignAtom else Inl OrphanedAtom)"

definition property_key_from_symbol :: "(nat \<Rightarrow> bool) \<Rightarrow> atom_handle \<Rightarrow> property_key atom_op" where
  "property_key_from_symbol alive atom t =
     (case validate_atom alive atom t of
        Inl e \<Rightarrow> (Inl e, t)
      | Inr _ \<Rightarrow>
          (case ae_kind (at_entries t ! ah_address atom) of
             Atom_String \<Rightarrow> (Inl (ExpectedSymbol Atom_String), t)
           | Atom_Private \<Rightarrow> (Inl PrivateNameIsNotPropertyKey, t)
           | kind \<Rightarrow> (Inr (Key_Atom (ah_address atom) kind), atom_clone (ah_address atom) t)))"

definition property_key_from_string :: "content_hasher \<Rightarrow> allocator \<Rightarrow> js_string \<Rightarrow> property_key atom_op" where
  "property_key_from_string hash alloc s t =
     (case parse_property_key s of
        Inl e \<Rightarrow> (Inl (Atom_String_Error e), t)
      | Inr (Some index) \<Rightarrow> (Inr (Key_Index index), t)
      | Inr None \<Rightarrow>
          (case intern_string hash alloc (units s) t of
             (Inl e, t') \<Rightarrow> (Inl e, t')
           | (Inr atom, t') \<Rightarrow> (Inr (Key_Atom (ah_address atom) Atom_String), t')))"

section \<open>Snapshots\<close>

fun kind_order :: "atom_kind \<Rightarrow> u8" where
  "kind_order Atom_String = 0"
| "kind_order Atom_GlobalSymbol = 1"
| "kind_order Atom_Symbol = 2"
| "kind_order Atom_Private = 2"

fun compare_code_units :: "description \<Rightarrow> description \<Rightarrow> ordering" where
  "compare_code_units (a # left) (b # right) = (if a = b then compare_code_units left right else cmp a b)"
| "compare_code_units [] (_ # _) = Less"
| "compare_code_units (_ # _) [] = Greater"
| "compare_code_units [] [] = Equal"

definition compare_atoms :: "atom_kind \<times> description \<Rightarrow> atom_kind \<times> description \<Rightarrow> ordering" where
  "compare_atoms a b = then_cmp (cmp (kind_order (fst a)) (kind_order (fst b))) (compare_code_units (snd a) (snd b))"

definition snapshot_slot :: "atom_table \<Rightarrow> nat \<Rightarrow> (atom_kind \<times> description) option" where
  "snapshot_slot t i =
     (let e = at_entries t ! i
      in if strong_count t i = 0 \<or> ae_predefined e \<noteq> None \<or> \<not> (ae_kind e = Atom_String \<or> ae_kind e = Atom_GlobalSymbol) then None
         else map_option (Pair (ae_kind e)) (ae_description e))"

text \<open>The standard library's sort is stable; insertion keeps equal elements in order.\<close>

fun insert_atom :: "atom_kind \<times> description \<Rightarrow> (atom_kind \<times> description) list \<Rightarrow> (atom_kind \<times> description) list" where
  "insert_atom a [] = [a]"
| "insert_atom a (b # atoms) = (if compare_atoms a b = Greater then b # insert_atom a atoms else a # b # atoms)"

definition snapshot_atoms :: "atom_table \<Rightarrow> (atom_kind \<times> description) list" where
  "snapshot_atoms t = foldr insert_atom (List.map_filter (snapshot_slot t) (concat (map snd (at_buckets t)))) []"

text \<open>The handle of a restored atom is dropped at the end of its statement.\<close>

fun restore_atoms :: "content_hasher \<Rightarrow> allocator \<Rightarrow> (atom_kind \<times> description) list \<Rightarrow> unit atom_op" where
  "restore_atoms hash alloc [] t = (Inr (), t)"
| "restore_atoms hash alloc ((kind, d) # atoms) t =
     (let ns = (case kind of Atom_String \<Rightarrow> Some Namespace_String | Atom_GlobalSymbol \<Rightarrow> Some Namespace_GlobalSymbol | _ \<Rightarrow> None)
      in case ns of
           None \<Rightarrow> restore_atoms hash alloc atoms t
         | Some n \<Rightarrow>
             (case intern_description hash alloc n d t of
                (Inl e, t') \<Rightarrow> (Inl e, t')
              | (Inr atom, t') \<Rightarrow> restore_atoms hash alloc atoms (atom_drop (ah_address atom) t')))"

end
