(* ===== verification/Atom_Books.thy ===== *)
theory Atom_Books
  imports Atom_Table "HOL-Library.Multiset"
begin

text \<open>
  The invariant of the atom table: buckets file every slot under the hash of its content, live contents are
  unique and filed, the usage counts exactly the live entries and the slots, and every reference count is the number
  of handles held outside plus those of the table itself.
\<close>

section \<open>Contents and buckets\<close>

text \<open>What an interned entry stands for; unique symbols and private names have no content.\<close>

definition entry_content :: "atom_entry \<Rightarrow> (intern_namespace \<times> description) option" where
  "entry_content e =
     (case ae_kind e of
        Atom_String \<Rightarrow> map_option (Pair Namespace_String) (ae_description e)
      | Atom_GlobalSymbol \<Rightarrow> map_option (Pair Namespace_GlobalSymbol) (ae_description e)
      | _ \<Rightarrow> None)"

definition content :: "atom_table \<Rightarrow> nat \<Rightarrow> (intern_namespace \<times> description) option" where
  "content t i = Option.bind (get (at_entries t) i) entry_content"

definition live :: "atom_table \<Rightarrow> nat \<Rightarrow> bool" where
  "live t i \<longleftrightarrow> strong_count t i \<noteq> 0"

definition content_key :: "content_hasher \<Rightarrow> intern_namespace \<times> description \<Rightarrow> bucket_key" where
  "content_key hash c = \<lparr>bk_namespace = fst c, bk_content_hash = hash (fst c) (snd c)\<rparr>"

type_synonym buckets = "(bucket_key \<times> nat list) list"

definition slots :: "buckets \<Rightarrow> nat list" where
  "slots bs = concat (map snd bs)"

definition filed :: "content_hasher \<Rightarrow> (nat \<Rightarrow> (intern_namespace \<times> description) option) \<Rightarrow> buckets \<Rightarrow> bool" where
  "filed hash f bs \<longleftrightarrow> distinct (map fst bs) \<and>
     (\<forall>(key, bucket) \<in> set bs. distinct bucket \<and> (\<forall>i\<in>set bucket. \<exists>c. f i = Some c \<and> content_key hash c = key))"

lemma slots_simps [simp]: "slots [] = []" "slots ((key, bucket) # bs) = bucket @ slots bs"
  by (simp_all add: slots_def)

lemma filed_simps [simp]:
  "filed hash f []"
  "filed hash f ((key, bucket) # bs) \<longleftrightarrow> key \<notin> fst ` set bs \<and> distinct bucket \<and>
     (\<forall>i\<in>set bucket. \<exists>c. f i = Some c \<and> content_key hash c = key) \<and> filed hash f bs"
  by (auto simp: filed_def)

lemma slot_filed:
  assumes "filed hash f bs" "i \<in> set (slots bs)"
  shows "\<exists>c. f i = Some c \<and> content_key hash c \<in> fst ` set bs"
proof -
  obtain key bucket where entry: "(key, bucket) \<in> set bs" "i \<in> set bucket"
    using assms(2) by (auto simp: slots_def)
  then obtain c where "f i = Some c" "content_key hash c = key"
    using assms(1) by (fastforce simp: filed_def)
  then show ?thesis
    using entry(1) by force
qed

lemma distinct_slots: "filed hash f bs \<Longrightarrow> distinct (slots bs)"
proof (induction bs)
  case (Cons entry bs)
  obtain key bucket where entry: "entry = (key, bucket)" by (cases entry)
  have "i \<notin> set (slots bs)" if i: "i \<in> set bucket" for i
  proof
    assume "i \<in> set (slots bs)"
    moreover obtain c where "f i = Some c" "content_key hash c = key"
      using Cons.prems entry i by auto
    ultimately show False
      using Cons.prems entry slot_filed [of hash f bs i] by auto
  qed
  then show ?case
    using Cons entry by auto
qed simp

lemma filed_lookup:
  "filed hash f bs \<Longrightarrow> f i = Some c \<Longrightarrow>
     i \<in> set (slots bs) \<longleftrightarrow> (\<exists>bucket. map_of bs (content_key hash c) = Some bucket \<and> i \<in> set bucket)"
proof (induction bs)
  case (Cons entry bs)
  then show ?case
    using slot_filed [of hash f bs i] by (cases entry) (auto simp: rev_image_eqI)
qed simp

lemma filed_cong: "filed hash f bs \<Longrightarrow> (\<And>i c. f i = Some c \<Longrightarrow> g i = Some c) \<Longrightarrow> filed hash g bs"
  by (induction bs) fastforce+

definition prune :: "(nat \<Rightarrow> bool) \<Rightarrow> buckets \<Rightarrow> buckets" where
  "prune P bs = filter (\<lambda>entry. snd entry \<noteq> []) (map (apsnd (filter P)) bs)"

lemma prune_simps [simp]:
  "prune P [] = []"
  "prune P ((key, bucket) # bs) = (if filter P bucket = [] then prune P bs else (key, filter P bucket) # prune P bs)"
  by (simp_all add: prune_def)

lemma slots_prune [simp]: "slots (prune P bs) = filter P (slots bs)"
  by (induction bs) (auto simp: slots_def prune_def)

lemma keys_prune: "fst ` set (prune P bs) \<subseteq> fst ` set bs"
  unfolding prune_def by (force simp: image_iff)

lemma filed_prune: "filed hash f bs \<Longrightarrow> filed hash f (prune P bs)"
proof (induction bs)
  case (Cons entry bs)
  then show ?case
    using keys_prune [of P bs] by (cases entry) auto
qed simp

lemma filed_remove: "filed hash f bs \<Longrightarrow> filed hash f (remove_bucket key bs)"
  by (induction bs) (auto simp: remove_bucket_def)

lemma remove_absent: "key \<notin> fst ` set bs \<Longrightarrow> remove_bucket key bs = bs"
  by (induction bs) (auto simp: remove_bucket_def)

lemma remove_key: "key \<notin> fst ` set (remove_bucket key bs)"
  by (auto simp: remove_bucket_def)

definition bucket_of :: "bucket_key \<Rightarrow> buckets \<Rightarrow> nat list" where
  "bucket_of key bs = (case map_of bs key of None \<Rightarrow> [] | Some bucket \<Rightarrow> bucket)"

lemma mset_slots_remove:
  "distinct (map fst bs) \<Longrightarrow> mset (slots bs) = mset (bucket_of key bs) + mset (slots (remove_bucket key bs))"
proof (induction bs)
  case (Cons entry bs)
  obtain k b where entry: "entry = (k, b)" by (cases entry)
  show ?case
  proof (cases "k = key")
    case True
    then show ?thesis
      using Cons.prems entry remove_absent [of key bs] by (simp add: bucket_of_def remove_bucket_def)
  next
    case False
    then show ?thesis
      using Cons entry by (simp add: bucket_of_def remove_bucket_def)
  qed
qed (simp add: bucket_of_def remove_bucket_def)

lemma filed_keys: "filed hash f bs \<Longrightarrow> distinct (map fst bs)"
  by (simp add: filed_def)

lemma filed_bucket:
  "filed hash f bs \<Longrightarrow> distinct (bucket_of key bs) \<and> (\<forall>i\<in>set (bucket_of key bs). \<exists>c. f i = Some c \<and> content_key hash c = key)"
  by (auto simp: bucket_of_def filed_def split: option.splits dest!: map_of_SomeD)

lemma slots_remove_parts:
  assumes "filed hash f bs"
  shows "set (slots bs) = set (bucket_of key bs) \<union> set (slots (remove_bucket key bs))"
    "length (filter P (slots bs)) = length (filter P (bucket_of key bs)) + length (filter P (slots (remove_bucket key bs)))"
proof -
  note m = mset_slots_remove [OF filed_keys [OF assms], of key]
  from arg_cong [OF m, of set_mset] show "set (slots bs) = set (bucket_of key bs) \<union> set (slots (remove_bucket key bs))"
    by simp
  from arg_cong [OF m, of "\<lambda>m. size (filter_mset P m)"]
  show "length (filter P (slots bs)) = length (filter P (bucket_of key bs)) + length (filter P (slots (remove_bucket key bs)))"
    by (simp flip: mset_filter)
qed

section \<open>Exact counts\<close>

lemma saturating_add_room:
  fixes n k :: u32
  assumes "unat k \<le> m" "unat n + (m + l) < 2 ^ 32"
  shows "unat (saturating_add n k) = unat n + unat k" "unat (saturating_add n k) + l < 2 ^ 32"
proof -
  have "unat n + unat k < 2 ^ LENGTH(32)" using assms by simp
  from unat_saturating_add [OF this] show "unat (saturating_add n k) = unat n + unat k" .
  then show "unat (saturating_add n k) + l < 2 ^ 32" using assms by simp
qed

abbreviation dead_count :: "atom_table \<Rightarrow> nat list \<Rightarrow> nat" where
  "dead_count t is \<equiv> length (filter (\<lambda>i. \<not> live t i) is)"

lemma dead_slots_from:
  "unat n + length bucket < 2 ^ 32 \<Longrightarrow>
     unat (foldl (\<lambda>count i. saturating_add count (if strong_count t i = 0 then 1 else 0)) (n :: u32) bucket) =
     unat n + dead_count t bucket"
proof (induction bucket arbitrary: n)
  case (Cons i bucket)
  then have "unat (saturating_add n 1) = unat n + 1" "unat (saturating_add n 0) = unat n"
    using unat_saturating_add [of n 1] unat_saturating_add [of n 0] by simp_all
  then show ?case
    using Cons by (auto simp: live_def)
qed simp

lemma dead_slots_exact: "length bucket < 2 ^ 32 \<Longrightarrow> unat (dead_slots t bucket) = dead_count t bucket"
  using dead_slots_from [of 0 bucket t] by (simp add: dead_slots_def)

lemma dead_total_from:
  "unat n + length (slots bs) < 2 ^ 32 \<Longrightarrow>
     unat (foldl (\<lambda>total entry. saturating_add total (dead_slots t (snd entry))) (n :: u32) bs) = unat n + dead_count t (slots bs)"
proof (induction bs arbitrary: n)
  case (Cons entry bs)
  obtain key bucket where entry: "entry = (key, bucket)" by (cases entry)
  then have "unat (dead_slots t bucket) = dead_count t bucket"
    using Cons.prems by (intro dead_slots_exact) simp
  moreover have "unat (dead_slots t bucket) \<le> length bucket"
    using calculation by simp
  note saturating_add_room [OF this, of n "length (slots bs)"]
  ultimately show ?case
    using Cons entry by simp
qed simp

lemma prune_dead_slots_exact:
  "length bucket < 2 ^ 32 \<Longrightarrow> \<exists>n. prune_dead_slots t bucket = (filter (live t) bucket, n) \<and> unat n = dead_count t bucket"
proof -
  assume b: "length bucket < 2 ^ 32"
  have "length bucket - length (filter (live t) bucket) = dead_count t bucket"
    using sum_length_filter_compl [of "live t" bucket] by simp
  moreover have "filter (\<lambda>i. strong_count t i \<noteq> 0) bucket = filter (live t) bucket"
    unfolding live_def ..
  moreover have "dead_count t bucket < 2 ^ 32"
    using b length_filter_le [of "\<lambda>i. \<not> live t i" bucket] by linarith
  ultimately show ?thesis
    unfolding prune_dead_slots_def u32_try_from_def Let_def by (simp add: unat_word_of_nat_u32)
qed

lemma retain_live_exact:
  "unat n + length (slots bs) < 2 ^ 32 \<Longrightarrow>
     \<exists>m. retain_live t bs n = (prune (live t) bs, m) \<and> unat m = unat n + dead_count t (slots bs)"
proof (induction bs arbitrary: n)
  case (Cons entry bs)
  obtain key bucket where entry: "entry = (key, bucket)" by (cases entry)
  then obtain k where k: "prune_dead_slots t bucket = (filter (live t) bucket, k)" "unat k = dead_count t bucket"
    using prune_dead_slots_exact [of bucket t] Cons.prems by auto
  then have "unat k \<le> length bucket" by simp
  note saturating_add_room [OF this, of n "length (slots bs)"]
  then show ?case
    using Cons.IH [of "saturating_add n k"] Cons.prems entry k by (auto simp: Let_def)
qed simp

section \<open>Usage\<close>

definition entry_units :: "atom_entry \<Rightarrow> nat" where
  "entry_units e = (case ae_description e of None \<Rightarrow> 0 | Some d \<Rightarrow> length d)"

definition live_entries :: "atom_table \<Rightarrow> atom_entry list" where
  "live_entries t = filter (\<lambda>e. ae_strong e \<noteq> 0) (at_entries t)"

definition live_units :: "atom_table \<Rightarrow> nat" where
  "live_units t = sum_list (map entry_units (live_entries t))"

definition usage_within :: "atom_limits \<Rightarrow> atom_usage \<Rightarrow> bool" where
  "usage_within limits usage \<longleftrightarrow>
     au_live_atoms usage \<le> al_max_live_atoms limits \<and>
     au_live_description_code_units usage \<le> al_max_live_description_code_units limits \<and>
     au_interner_slots usage \<le> al_max_interner_slots limits"

definition usage_exact :: "atom_table \<Rightarrow> bool" where
  "usage_exact t \<longleftrightarrow>
     unat (au_live_atoms (at_usage t)) = length (live_entries t) \<and>
     unat (au_live_description_code_units (at_usage t)) = live_units t \<and>
     unat (au_interner_slots (at_usage t)) = length (slots (at_buckets t)) \<and>
     usage_within (at_limits t) (at_usage t) \<and> (\<forall>e\<in>set (at_entries t). entry_units e \<le> max_units)"

text \<open>The checks in natural numbers: a sum that wraps is above every limit.\<close>

lemma checked_limit:
  fixes a b limit :: "'a::len word"
  shows "(case checked_add a b of None \<Rightarrow> Inl e | Some c \<Rightarrow> if limit < c then Inl e else f c) =
    (if unat limit < unat a + unat b then Inl e else f (a + b))"
proof (cases "unat a + unat b < 2 ^ LENGTH('a)")
  case True
  then have "unat (a + b) = unat a + unat b" by (simp add: unat_word_ariths)
  then show ?thesis using True by (simp add: checked_add_def word_less_nat_alt)
next
  case False
  moreover have "unat limit < 2 ^ LENGTH('a)" by (rule unsigned_less)
  ultimately have "unat limit < unat a + unat b" by linarith
  then show ?thesis using False by (simp add: checked_add_def)
qed

lemma unat_ucast_u32_u64: "unat (ucast (n :: u32) :: u64) = unat n"
  unfolding unsigned_ucast_eq take_bit_nat_def by (rule mod_less, rule less_trans [OF unat_u32_bound]) simp

lemma checked_usage_eq:
  "checked_usage_after_reclaim atoms n s reclaimed t =
     (let current = at_usage t; limits = at_limits t
      in if unat (al_max_live_atoms limits) < unat (au_live_atoms current) + unat atoms
         then Inl (LiveAtomLimit (au_live_atoms current) atoms (al_max_live_atoms limits))
         else if unat (al_max_live_description_code_units limits) < unat (au_live_description_code_units current) + unat n
         then Inl (DescriptionCodeUnitLimit (au_live_description_code_units current) (ucast n) (al_max_live_description_code_units limits))
         else if unat (al_max_interner_slots limits) < (unat (au_interner_slots current) - unat reclaimed) + unat s
         then Inl (InternerSlotLimit (au_interner_slots current) s (al_max_interner_slots limits))
         else Inr \<lparr>au_live_atoms = au_live_atoms current + atoms,
            au_live_description_code_units = au_live_description_code_units current + ucast n,
            au_interner_slots = saturating_sub (au_interner_slots current) reclaimed + s\<rparr>)"
proof -
  have combine: "and_then (ok_or v e) (\<lambda>c. and_then (err_if (limit < c) e) (\<lambda>_. f c)) =
      (case v of None \<Rightarrow> Inl e | Some c \<Rightarrow> if limit < c then Inl e else f c)" for v :: "'x::len word option" and limit e f
    by (cases v) (auto simp: err_if_def)
  have wide: "unat (ucast n :: u64) = unat n"
    by (rule unat_ucast_u32_u64)
  show ?thesis
    unfolding checked_usage_after_reclaim_def Let_def combine checked_limit wide by (simp add: unat_saturating_sub)
qed

end
