(* ===== verification/Atom_Invariant.thy ===== *)
theory Atom_Invariant
  imports Atom_Books
begin

text \<open>
  The invariant of the atom table and its preservation by every operation: creation, interning, cloning and
  dropping handles, collection of dead slots and rollback.
\<close>

section \<open>The invariant\<close>

definition interned_once :: "atom_table \<Rightarrow> bool" where
  "interned_once t \<longleftrightarrow>
     (\<forall>i c. live t i \<and> content t i = Some c \<longrightarrow> i \<in> set (slots (at_buckets t))) \<and>
     (\<forall>i j c. live t i \<and> live t j \<and> content t i = Some c \<and> content t j = Some c \<longrightarrow> i = j)"

text \<open>Every owner of an entry is a handle outside the table or the table's own handle of a predefined atom.\<close>

definition owned :: "atom_table \<Rightarrow> nat multiset \<Rightarrow> bool" where
  "owned t held \<longleftrightarrow> (\<forall>i. strong_count t i = count held i + count (mset (at_predefined t)) i)"

definition books :: "content_hasher \<Rightarrow> atom_table \<Rightarrow> nat multiset \<Rightarrow> bool" where
  "books hash t held \<longleftrightarrow>
     filed hash (content t) (at_buckets t) \<and> interned_once t \<and> usage_exact t \<and> owned t held"

text \<open>What no operation changes: limits, owner and the data of entries other than their reference counts.\<close>

definition keeps :: "atom_table \<Rightarrow> atom_table \<Rightarrow> bool" where
  "keeps t t' \<longleftrightarrow> at_state t' = at_state t \<and> at_limits t' = at_limits t \<and> at_predefined t' = at_predefined t \<and>
     (\<exists>new. map (ae_strong_update (\<lambda>_. 0)) (at_entries t') = map (ae_strong_update (\<lambda>_. 0)) (at_entries t) @ new)"

lemma keeps_refl [simp]: "keeps t t"
  by (simp add: keeps_def)

lemma keeps_trans: "keeps t t' \<Longrightarrow> keeps t' t'' \<Longrightarrow> keeps t t''"
  by (auto simp: keeps_def)

lemma live_bound: "live t i \<Longrightarrow> i < length (at_entries t)"
  by (auto simp: live_def strong_count_def get_def split: if_splits)

lemma content_bound: "content t i = Some c \<Longrightarrow> i < length (at_entries t)"
  by (auto simp: content_def get_def split: if_splits)

lemma held_live: "owned t held \<Longrightarrow> i \<in># held \<Longrightarrow> live t i"
  by (auto simp: owned_def live_def)

section \<open>Reference counts\<close>

definition set_strong :: "nat \<Rightarrow> nat \<Rightarrow> atom_table \<Rightarrow> atom_table" where
  "set_strong i n t = t\<lparr>at_entries := (at_entries t)[i := (at_entries t ! i)\<lparr>ae_strong := n\<rparr>]\<rparr>"

lemma set_strong_simps [simp]:
  "at_buckets (set_strong i n t) = at_buckets t" "at_usage (set_strong i n t) = at_usage t"
  "at_limits (set_strong i n t) = at_limits t" "at_predefined (set_strong i n t) = at_predefined t"
  "at_state (set_strong i n t) = at_state t" "length (at_entries (set_strong i n t)) = length (at_entries t)"
  by (simp_all add: set_strong_def)

lemma content_set_strong [simp]: "content (set_strong i n t) = content t"
proof
  fix j
  have "entry_content (e\<lparr>ae_strong := n\<rparr>) = entry_content e" for e
    by (simp add: entry_content_def split: atom_kind.split)
  then have "entry_content (at_entries (set_strong i n t) ! j) = entry_content (at_entries t ! j)" if "j < length (at_entries t)"
    using that by (cases "i = j") (simp_all add: set_strong_def)
  then show "content (set_strong i n t) j = content t j"
    by (simp add: content_def get_def)
qed

lemma strong_set_strong:
  "i < length (at_entries t) \<Longrightarrow> strong_count (set_strong i n t) j = (if j = i then n else strong_count t j)"
  by (auto simp: strong_count_def set_strong_def get_def nth_list_update)

lemma keeps_set_strong [simp]: "keeps t (set_strong i n t)"
proof -
  have "map (ae_strong_update (\<lambda>_. 0)) (at_entries (set_strong i n t)) = map (ae_strong_update (\<lambda>_. 0)) (at_entries t)"
  proof (rule nth_equalityI)
    fix j assume "j < length (map (ae_strong_update (\<lambda>_. 0)) (at_entries (set_strong i n t)))"
    then show "map (ae_strong_update (\<lambda>_. 0)) (at_entries (set_strong i n t)) ! j = map (ae_strong_update (\<lambda>_. 0)) (at_entries t) ! j"
      by (cases "i = j") (simp_all add: set_strong_def)
  qed simp
  then show ?thesis by (simp add: keeps_def)
qed

lemma units_set_strong: "map entry_units (at_entries (set_strong i n t)) = map entry_units (at_entries t)"
proof (rule nth_equalityI)
  fix j assume "j < length (map entry_units (at_entries (set_strong i n t)))"
  then show "map entry_units (at_entries (set_strong i n t)) ! j = map entry_units (at_entries t) ! j"
    by (cases "i = j") (simp_all add: set_strong_def entry_units_def)
qed simp

lemma bounded_set_strong:
  "(\<forall>e\<in>set (at_entries (set_strong i n t)). entry_units e \<le> m) \<longleftrightarrow> (\<forall>e\<in>set (at_entries t). entry_units e \<le> m)"
  using arg_cong [OF units_set_strong [of i n t], of "list_all (\<lambda>u. u \<le> m)"] by (simp add: list_all_iff)

lemma live_entries_set_strong:
  assumes "i < length (at_entries t)"
  shows "length (live_entries (set_strong i n t)) + (if live t i then 1 else 0) = length (live_entries t) + (if n = 0 then 0 else 1)"
    "live_units (set_strong i n t) + (if live t i then entry_units (at_entries t ! i) else 0) =
     live_units t + (if n = 0 then 0 else entry_units (at_entries t ! i))"
proof -
  let ?e = "at_entries t ! i"
  have split: "at_entries t = take i (at_entries t) @ ?e # drop (Suc i) (at_entries t)"
    using assms by (rule id_take_nth_drop)
  have upd: "at_entries (set_strong i n t) = take i (at_entries t) @ ?e\<lparr>ae_strong := n\<rparr> # drop (Suc i) (at_entries t)"
    using assms by (simp add: set_strong_def upd_conv_take_nth_drop)
  have live: "live t i \<longleftrightarrow> ae_strong ?e \<noteq> 0"
    using assms by (simp add: live_def strong_count_def get_def)
  show "length (live_entries (set_strong i n t)) + (if live t i then 1 else 0) = length (live_entries t) + (if n = 0 then 0 else 1)"
    unfolding live_entries_def live upd by (subst (2) split) simp
  have "entry_units (?e\<lparr>ae_strong := n\<rparr>) = entry_units ?e" by (simp add: entry_units_def)
  then show "live_units (set_strong i n t) + (if live t i then entry_units ?e else 0) =
      live_units t + (if n = 0 then 0 else entry_units ?e)"
    unfolding live_units_def live_entries_def live upd by (subst (3) split) simp
qed

lemma atom_clone_eq: "i < length (at_entries t) \<Longrightarrow> atom_clone i t = set_strong i (Suc (strong_count t i)) t"
  by (simp add: atom_clone_def set_strong_def strong_count_def get_def)

lemma usage_exactD:
  assumes "usage_exact t"
  shows "unat (au_live_atoms (at_usage t)) = length (live_entries t)"
    "unat (au_live_description_code_units (at_usage t)) = live_units t"
    "unat (au_interner_slots (at_usage t)) = length (slots (at_buckets t))"
    "length (slots (at_buckets t)) < 2 ^ 32" "usage_within (at_limits t) (at_usage t)"
    "e \<in> set (at_entries t) \<Longrightarrow> entry_units e \<le> max_units"
  using assms unat_u32_bound [of "au_interner_slots (at_usage t)"] unfolding usage_exact_def by (auto simp del: unat_u32_bound)

lemma books_clone:
  assumes "books hash t held" "live t i"
  shows "books hash (atom_clone i t) (add_mset i held)" "keeps t (atom_clone i t)" "at_buckets (atom_clone i t) = at_buckets t"
proof -
  note i = live_bound [OF assms(2)]
  let ?t = "set_strong i (Suc (strong_count t i)) t"
  have live: "live ?t j \<longleftrightarrow> live t j" for j
    using assms(2) strong_set_strong [OF i] by (auto simp: live_def)
  have "interned_once ?t"
    using assms(1) by (auto simp: books_def interned_once_def live)
  moreover have "usage_exact ?t"
    using assms live_entries_set_strong [OF i, of "Suc (strong_count t i)"]
    by (simp add: books_def usage_exact_def bounded_set_strong)
  moreover have "owned ?t (add_mset i held)"
    using assms(1) strong_set_strong [OF i] by (simp add: books_def owned_def)
  ultimately show "books hash (atom_clone i t) (add_mset i held)" "keeps t (atom_clone i t)"
    "at_buckets (atom_clone i t) = at_buckets t"
    using assms(1) unfolding atom_clone_eq [OF i] by (simp_all add: books_def)
qed

lemma atom_drop_eq:
  "i < length (at_entries t) \<Longrightarrow> atom_drop i t =
     (if strong_count t i = 1 then set_strong i 0 t\<lparr>at_usage := entry_drop (at_entries t ! i) (at_usage t)\<rparr>
      else set_strong i (strong_count t i - 1) t)"
  by (simp add: atom_drop_def set_strong_def strong_count_def get_def Let_def)

lemma table_usage_simps [simp]:
  "content (t\<lparr>at_usage := u\<rparr>) = content t" "live (t\<lparr>at_usage := u\<rparr>) = live t" "live_entries (t\<lparr>at_usage := u\<rparr>) = live_entries t"
  "live_units (t\<lparr>at_usage := u\<rparr>) = live_units t" "strong_count (t\<lparr>at_usage := u\<rparr>) = strong_count t"
  "keeps s (t\<lparr>at_usage := u\<rparr>) = keeps s t" "owned (t\<lparr>at_usage := u\<rparr>) = owned t"
  by (simp_all add: fun_eq_iff content_def live_def live_entries_def live_units_def strong_count_def keeps_def owned_def)

lemma description_code_units_exact: "entry_units e \<le> max_units \<Longrightarrow> unat (description_code_units e) = entry_units e"
  by (auto simp: description_code_units_def entry_units_def unat_of_nat split: option.splits)

lemma books_drop:
  assumes "books hash t held" "i \<in># held"
  shows "books hash (atom_drop i t) (held - {#i#})" "keeps t (atom_drop i t)" "at_buckets (atom_drop i t) = at_buckets t"
    "strong_count (atom_drop i t) i = strong_count t i - 1"
proof -
  have held: "owned t held" and usage: "usage_exact t" using assms(1) by (simp_all add: books_def)
  note i = live_bound [OF held_live [OF held assms(2)]]
  let ?n = "strong_count t i - 1" and ?e = "at_entries t ! i"
  let ?t = "set_strong i ?n t"
  have pos: "0 < strong_count t i" using held_live [OF held assms(2)] by (simp add: live_def)
  have live: "live ?t j \<Longrightarrow> live t j" for j
    using pos strong_set_strong [OF i, of ?n j] by (auto simp: live_def split: if_splits)
  have once: "interned_once ?t"
    using assms(1) live by (auto simp: books_def interned_once_def)
  have owned: "owned ?t (held - {#i#})"
    using held strong_set_strong [OF i] assms(2) by (simp add: owned_def)
  note counts = live_entries_set_strong [OF i, of ?n]
  have bound: "entry_units ?e \<le> max_units" using usage_exactD(6) [OF usage] i by simp
  show strong: "strong_count (atom_drop i t) i = ?n"
    using strong_set_strong [OF i] by (simp add: atom_drop_eq [OF i])
  show "keeps t (atom_drop i t)" "at_buckets (atom_drop i t) = at_buckets t"
    by (simp_all add: atom_drop_eq [OF i])
  show "books hash (atom_drop i t) (held - {#i#})"
  proof (cases "strong_count t i = 1")
    case True
    then have n: "?n = 0" and alive: "live t i" by (simp_all add: live_def)
    have "usage_exact (?t\<lparr>at_usage := entry_drop ?e (at_usage t)\<rparr>)"
      using usage counts n alive description_code_units_exact [OF bound]
      by (auto simp: usage_exact_def bounded_set_strong entry_drop_def unat_saturating_sub usage_within_def word_le_nat_alt)
    then show ?thesis
      using assms(1) True once owned n unfolding atom_drop_eq [OF i] by (simp add: books_def interned_once_def)
  next
    case False
    then have "?n \<noteq> 0" using pos by simp
    then have "usage_exact ?t"
      using usage counts pos by (simp add: usage_exact_def bounded_set_strong live_def)
    then show ?thesis
      using assms(1) False once owned unfolding atom_drop_eq [OF i] by (simp add: books_def)
  qed
qed

section \<open>Buckets\<close>

lemma table_bucket_simps [simp]:
  "content (t\<lparr>at_buckets := bs\<rparr>) = content t" "live (t\<lparr>at_buckets := bs\<rparr>) = live t"
  "live_entries (t\<lparr>at_buckets := bs\<rparr>) = live_entries t" "live_units (t\<lparr>at_buckets := bs\<rparr>) = live_units t"
  "keeps s (t\<lparr>at_buckets := bs\<rparr>) = keeps s t" "owned (t\<lparr>at_buckets := bs\<rparr>) = owned t"
  by (simp_all add: fun_eq_iff content_def live_def live_entries_def live_units_def strong_count_def keeps_def owned_def)

lemma books_rebucket:
  assumes "books hash t held" "filed hash (content t) bs"
    and "\<And>i. live t i \<Longrightarrow> i \<in> set (slots (at_buckets t)) \<Longrightarrow> i \<in> set (slots bs)"
    and "length (slots bs) + unat removed = length (slots (at_buckets t))"
  shows "books hash (decrease_interner_slots removed (t\<lparr>at_buckets := bs\<rparr>)) held"
    "keeps t (decrease_interner_slots removed (t\<lparr>at_buckets := bs\<rparr>))"
proof -
  let ?n = "saturating_sub (au_interner_slots (at_usage t)) removed"
  have "decrease_interner_slots removed (t\<lparr>at_buckets := bs\<rparr>) =
      t\<lparr>at_buckets := bs, at_usage := (at_usage t)\<lparr>au_interner_slots := ?n\<rparr>\<rparr>"
    by (auto simp: decrease_interner_slots_def saturating_sub_def)
  moreover have "unat ?n = length (slots bs)"
    using assms(1,4) by (simp add: books_def usage_exact_def unat_saturating_sub)
  moreover from this have "?n \<le> au_interner_slots (at_usage t)"
    using assms(1,4) by (simp add: books_def usage_exact_def word_le_nat_alt)
  ultimately show "books hash (decrease_interner_slots removed (t\<lparr>at_buckets := bs\<rparr>)) held"
    "keeps t (decrease_interner_slots removed (t\<lparr>at_buckets := bs\<rparr>))"
    using assms by (auto simp: books_def interned_once_def usage_exact_def usage_within_def)
qed

lemma length_live_dead: "length (filter (live t) is) + dead_count t is = length is"
  using sum_length_filter_compl [of "live t" "is"] by simp

lemma books_collect:
  assumes "books hash t held"
  shows "books hash (snd (collect_dead t)) held" "keeps t (snd (collect_dead t))"
    "unat (fst (collect_dead t)) = dead_count t (slots (at_buckets t))"
    "slots (at_buckets (snd (collect_dead t))) = filter (live t) (slots (at_buckets t))"
proof -
  let ?bs = "at_buckets t"
  have "usage_exact t" "filed hash (content t) ?bs" using assms by (simp_all add: books_def)
  moreover from this obtain m where m: "retain_live t ?bs 0 = (prune (live t) ?bs, m)" "unat m = dead_count t (slots ?bs)"
    using retain_live_exact [of 0 ?bs t] usage_exactD(4) [of t] by auto
  ultimately have "books hash (decrease_interner_slots m (t\<lparr>at_buckets := prune (live t) ?bs\<rparr>)) held \<and>
      keeps t (decrease_interner_slots m (t\<lparr>at_buckets := prune (live t) ?bs\<rparr>))"
    using assms length_live_dead [of t "slots ?bs"] by (intro conjI; intro books_rebucket) (auto intro: filed_prune)
  then show "books hash (snd (collect_dead t)) held" "keeps t (snd (collect_dead t))"
    "unat (fst (collect_dead t)) = dead_count t (slots ?bs)"
    "slots (at_buckets (snd (collect_dead t))) = filter (live t) (slots ?bs)"
    using m by (simp_all add: collect_dead_def decrease_interner_slots_def)
qed

section \<open>Creation\<close>

definition add_entry :: "atom_entry \<Rightarrow> buckets \<Rightarrow> atom_usage \<Rightarrow> atom_table \<Rightarrow> atom_table" where
  "add_entry e bs u t = t\<lparr>at_entries := at_entries t @ [e], at_buckets := bs, at_usage := u\<rparr>"

lemma add_entry_simps [simp]:
  "at_buckets (add_entry e bs u t) = bs" "at_usage (add_entry e bs u t) = u" "at_limits (add_entry e bs u t) = at_limits t"
  "at_predefined (add_entry e bs u t) = at_predefined t" "at_entries (add_entry e bs u t) = at_entries t @ [e]"
  "at_state (add_entry e bs u t) = at_state t"
  "content (add_entry e bs u t) i = (if i = length (at_entries t) then entry_content e else content t i)"
  "strong_count (add_entry e bs u t) i = (if i = length (at_entries t) then ae_strong e else strong_count t i)"
  "keeps t (add_entry e bs u t)"
  by (auto simp: add_entry_def content_def strong_count_def keeps_def get_def nth_append split: if_splits)

lemma books_add:
  fixes t :: atom_table
  defines "new \<equiv> length (at_entries t)"
  assumes "books hash t held" "ae_strong e = 1" "entry_units e \<le> max_units"
    and "filed hash ((content t)(new := entry_content e)) bs"
    and "\<And>i. live t i \<Longrightarrow> i \<in> set (slots (at_buckets t)) \<Longrightarrow> i \<in> set (slots bs)"
    and "entry_content e \<noteq> None \<Longrightarrow> new \<in> set (slots bs) \<and> (\<forall>i. live t i \<longrightarrow> content t i \<noteq> entry_content e)"
    and "unat (au_live_atoms u) = length (live_entries t) + 1" "unat (au_live_description_code_units u) = live_units t + entry_units e"
    and "unat (au_interner_slots u) = length (slots bs)" "usage_within (at_limits t) u"
  shows "books hash (add_entry e bs u t) (add_mset new held)"
proof -
  let ?t = "add_entry e bs u t"
  have content: "content ?t = (content t)(new := entry_content e)"
    by (rule ext) (simp add: new_def)
  have live: "live ?t i \<longleftrightarrow> i = new \<or> live t i" for i
    using assms(3) by (simp add: live_def new_def)
  have none: "strong_count t new = 0" "\<not> live t new"
    by (simp_all add: strong_count_def live_def get_def new_def)
  have "interned_once ?t"
    using assms(2,6,7) none unfolding interned_once_def live content books_def by (auto split: if_splits)
  moreover have "usage_exact ?t"
    using assms(2-4,8-11) by (auto simp: books_def usage_exact_def live_entries_def live_units_def)
  moreover have "owned ?t (add_mset new held)"
    using assms(2,3) none by (auto simp: books_def owned_def new_def)
  ultimately show ?thesis
    using assms(5) content by (simp add: books_def)
qed

end
