(* ===== verification/Atom_Interning.thy ===== *)
theory Atom_Interning
  imports Atom_Invariant
begin

text \<open>
  Creation of atoms: what unique and interned creation answer, with the limits counted exactly and dead slots
  reclaimed only as far as they stand in the way.
\<close>

section \<open>Limits and refusals\<close>

definition live_slots :: "atom_table \<Rightarrow> nat" where
  "live_slots t = length (filter (live t) (slots (at_buckets t)))"

text \<open>The error of creating one more atom with \<open>n\<close> code units and \<open>s\<close> interner slots, in the order of the checks.\<close>

definition exceeded :: "atom_table \<Rightarrow> nat \<Rightarrow> u32 \<Rightarrow> atom_error option" where
  "exceeded t n s =
     (let usage = at_usage t; limits = at_limits t
      in if unat (al_max_live_atoms limits) < length (live_entries t) + 1
         then Some (LiveAtomLimit (au_live_atoms usage) 1 (al_max_live_atoms limits))
         else if unat (al_max_live_description_code_units limits) < live_units t + n
         then Some (DescriptionCodeUnitLimit (au_live_description_code_units usage) (word_of_nat n)
                (al_max_live_description_code_units limits))
         else if unat (al_max_interner_slots limits) < live_slots t + unat s
         then Some (InternerSlotLimit (au_interner_slots usage) s (al_max_interner_slots limits))
         else None)"

definition atom_refused :: "allocator \<Rightarrow> atom_error \<Rightarrow> bool" where
  "atom_refused alloc e \<longleftrightarrow>
     (\<exists>se. e = Atom_String_Error se \<and> refused alloc se) \<or>
     (\<exists>target len n. e = Atom_AllocationFailed target n \<and> \<not> alloc len n)"

abbreviation new_entry :: "atom_kind \<Rightarrow> description option \<Rightarrow> nat option \<Rightarrow> atom_entry" where
  "new_entry kind d predefined \<equiv> \<lparr>ae_kind = kind, ae_description = d, ae_predefined = predefined, ae_strong = 1\<rparr>"

definition creates ::
  "content_hasher \<Rightarrow> allocator \<Rightarrow> atom_entry \<Rightarrow> u32 \<Rightarrow> atom_table \<Rightarrow> nat multiset \<Rightarrow>
     (atom_error, atom_handle) result \<times> atom_table \<Rightarrow> bool" where
  "creates hash alloc e s t held outcome \<longleftrightarrow>
     (case exceeded t (entry_units e) s of
        Some err \<Rightarrow> outcome = (Inl err, t)
      | None \<Rightarrow>
          (\<exists>err. outcome = (Inl err, t) \<and> atom_refused alloc err) \<or>
          (\<exists>t'. outcome = (Inr (handle t (length (at_entries t))), t') \<and> at_entries t' = at_entries t @ [e] \<and>
             books hash t' (add_mset (length (at_entries t)) held) \<and> keeps t t'))"

lemma sum_within:
  fixes a b m :: "'a::len word"
  assumes "\<not> unat m < unat a + unat b"
  shows "unat (a + b) = unat a + unat b \<and> a + b \<le> m"
proof -
  have "unat a + unat b < 2 ^ LENGTH('a)"
    using assms unsigned_less [of m] by (meson le_less_trans not_less)
  then have "unat (a + b) = unat a + unat b" by (simp add: unat_word_ariths)
  with assms show ?thesis by (simp add: word_le_nat_alt)
qed

text \<open>The checks against the exact counts; \<open>reclaimed\<close> dead slots make room when the slots run out.\<close>

lemma checked_usage_exact:
  assumes "usage_exact t" "n \<le> max_units" "unat reclaimed \<le> dead_count t (slots (at_buckets t))" "unat s \<le> 1"
    and "unat (al_max_interner_slots (at_limits t)) < length (slots (at_buckets t)) - unat reclaimed + unat s \<Longrightarrow>
      unat (al_max_interner_slots (at_limits t)) < live_slots t + unat s"
  shows "case exceeded t n s of
      Some e \<Rightarrow> checked_usage_after_reclaim 1 (word_of_nat n) s reclaimed t = Inl e
    | None \<Rightarrow> \<exists>u. checked_usage_after_reclaim 1 (word_of_nat n) s reclaimed t = Inr u \<and> usage_within (at_limits t) u \<and>
        unat (au_live_atoms u) = length (live_entries t) + 1 \<and> unat (au_live_description_code_units u) = live_units t + n \<and>
        unat (au_interner_slots u) = length (slots (at_buckets t)) - unat reclaimed + unat s"
proof -
  note counts = usage_exactD [OF assms(1)]
  let ?limits = "at_limits t" and ?usage = "at_usage t"
  have n: "unat (word_of_nat n :: u32) = n" using assms(2) by (simp add: unat_of_nat)
  have wide: "(ucast (word_of_nat n :: u32) :: u64) = word_of_nat n"
    using assms(2) by (simp add: word_unat_eq_iff unat_ucast_u32_u64 unat_of_nat)
  have "live_slots t \<le> length (slots (at_buckets t)) - unat reclaimed"
    using assms(3) length_live_dead [of t "slots (at_buckets t)"] unfolding live_slots_def by linarith
  then have slots: "unat (al_max_interner_slots ?limits) < unat (au_interner_slots ?usage) - unat reclaimed + unat s \<longleftrightarrow>
      unat (al_max_interner_slots ?limits) < live_slots t + unat s"
    using assms(5) counts(3) by auto
  have one: "unat (1 :: u32) = 1" by simp
  note sums = sum_within [of "al_max_live_atoms ?limits" "au_live_atoms ?usage" 1]
    sum_within [of "al_max_live_description_code_units ?limits" "au_live_description_code_units ?usage" "ucast (word_of_nat n :: u32)"]
    sum_within [of "al_max_interner_slots ?limits" "saturating_sub (au_interner_slots ?usage) reclaimed" s]
  show ?thesis
    using sums unfolding exceeded_def checked_usage_eq Let_def unat_saturating_sub unat_ucast_u32_u64 slots n counts(1,2) one
    by (auto simp: usage_within_def counts(3) wide)
qed

lemma compact_description_outcome:
  assumes "length d \<le> max_units"
  shows "compact_description alloc d = Inr d \<or> (\<exists>e. compact_description alloc d = Inl e \<and> atom_refused alloc e)"
  using from_code_units_outcome [of alloc d] assms
  by (auto simp: compact_description_def leaf_outcome_def atom_refused_def split: sum.splits)

section \<open>Unique atoms\<close>

lemma create_entry_eq:
  "create_entry kind d predefined u t = (handle t (length (at_entries t)), add_entry (new_entry kind d predefined) (at_buckets t) u t)"
  by (simp add: create_entry_def push_entry_def add_entry_def)

lemma description_len_exact:
  "description_len d = word_of_nat (entry_units (new_entry kind d predefined))"
  by (simp add: description_len_def entry_units_def split: option.splits)

lemma unique_created:
  assumes "books hash t held" "entry_content (new_entry kind d predefined) = None" "entry_units (new_entry kind d predefined) \<le> max_units"
    and "checked_usage_after 1 (description_len d) 0 t = Inr u" "exceeded t (entry_units (new_entry kind d predefined)) 0 = None"
  shows "creates hash alloc (new_entry kind d predefined) 0 t held
    (let (atom, t') = create_entry kind d predefined u t in (Inr atom, t'))"
proof -
  let ?e = "new_entry kind d predefined" and ?new = "length (at_entries t)"
  have usage: "usage_exact t" and filed: "filed hash (content t) (at_buckets t)" using assms(1) by (simp_all add: books_def)
  have "unat (al_max_interner_slots (at_limits t)) < length (slots (at_buckets t)) \<Longrightarrow> False"
    using usage_exactD(3,5) [OF usage] by (simp add: usage_within_def word_le_nat_alt)
  then have u: "usage_within (at_limits t) u" "unat (au_live_atoms u) = length (live_entries t) + 1"
      "unat (au_live_description_code_units u) = live_units t + entry_units ?e"
      "unat (au_interner_slots u) = length (slots (at_buckets t))"
    using checked_usage_exact [OF usage assms(3), of 0 0] assms(4,5)
    unfolding checked_usage_after_def description_len_exact [of d kind predefined] by auto
  have "content t ?new = None" using content_bound [of t ?new] by (cases "content t ?new") auto
  then have "(content t)(?new := entry_content ?e) = content t" using assms(2) by auto
  then have "books hash (add_entry ?e (at_buckets t) u t) (add_mset ?new held)"
    using assms(1,2,3) filed u by (intro books_add) simp_all
  then show ?thesis
    using assms(5) by (simp add: creates_def create_entry_eq)
qed

lemma usage_check_cases:
  assumes "books hash t held" "n \<le> max_units"
  shows "case exceeded t n 0 of
      Some e \<Rightarrow> checked_usage_after 1 (word_of_nat n) 0 t = Inl e
    | None \<Rightarrow> \<exists>u. checked_usage_after 1 (word_of_nat n) 0 t = Inr u"
proof -
  have usage: "usage_exact t" using assms(1) by (simp add: books_def)
  then have "\<not> unat (al_max_interner_slots (at_limits t)) < length (slots (at_buckets t))"
    using usage_exactD(3,5) [OF usage] by (simp add: usage_within_def word_le_nat_alt)
  then show ?thesis
    using checked_usage_exact [OF usage assms(2), of 0 0] by (auto simp: checked_usage_after_def split: option.splits)
qed

lemma publish_unique_creates:
  assumes "books hash t held" "entry_content (new_entry kind d predefined) = None" "entry_units (new_entry kind d predefined) \<le> max_units"
  shows "creates hash alloc (new_entry kind d predefined) 0 t held (publish_unique kind d predefined t)"
proof -
  let ?n = "entry_units (new_entry kind d predefined)"
  have len: "description_len d = word_of_nat ?n" by (rule description_len_exact)
  show ?thesis
  proof (cases "exceeded t ?n 0")
    case None
    then obtain u where u: "checked_usage_after 1 (description_len d) 0 t = Inr u"
      using usage_check_cases [OF assms(1,3)] len by auto
    from unique_created [OF assms u None] show ?thesis by (simp add: publish_unique_def u)
  next
    case (Some e)
    then show ?thesis
      using usage_check_cases [OF assms(1,3)] by (simp add: publish_unique_def creates_def len)
  qed
qed

lemma insert_unique_creates:
  assumes "books hash t held" "entry_content (new_entry kind d predefined) = None" "entry_units (new_entry kind d predefined) \<le> max_units"
  shows "creates hash alloc (new_entry kind d predefined) 0 t held (insert_unique alloc kind d predefined t)"
proof -
  let ?copy = "case d of None \<Rightarrow> Inr None | Some c \<Rightarrow> and_then (compact_description alloc c) (\<lambda>c. Inr (Some c))"
  let ?n = "entry_units (new_entry kind d predefined)"
  have copy: "?copy = Inr d \<or> (\<exists>e. ?copy = Inl e \<and> atom_refused alloc e)"
    using compact_description_outcome [of "the d" alloc] assms(3) by (cases d) (auto simp: entry_units_def)
  show ?thesis
  proof (cases "exceeded t ?n 0")
    case None
    then obtain u where u: "checked_usage_after 1 (description_len d) 0 t = Inr u"
      using usage_check_cases [OF assms(1,3)] description_len_exact [of d kind predefined] by auto
    from copy show ?thesis
    proof
      assume "?copy = Inr d"
      then show ?thesis
        using unique_created [OF assms u None, of alloc] by (simp add: insert_unique_def u)
    next
      assume "\<exists>e. ?copy = Inl e \<and> atom_refused alloc e"
      then show ?thesis
        using None by (auto simp: insert_unique_def u creates_def)
    qed
  next
    case (Some e)
    then show ?thesis
      using usage_check_cases [OF assms(1,3)] by (simp add: insert_unique_def creates_def description_len_exact [of d kind predefined])
  qed
qed

section \<open>Lookup\<close>

lemma live_content_iff:
  "live t i \<Longrightarrow> content t i = Some (ns, d) \<longleftrightarrow>
     ae_kind (at_entries t ! i) = namespace_kind ns \<and> ae_description (at_entries t ! i) = Some d"
  using live_bound [of t i]
  by (cases ns) (auto simp: content_def entry_content_def get_def split: atom_kind.splits)

lemma find_in_bucket_exact:
  "case find_in_bucket t (namespace_kind ns) d bucket of
     Some i \<Rightarrow> i \<in> set bucket \<and> live t i \<and> content t i = Some (ns, d)
   | None \<Rightarrow> \<forall>i\<in>set bucket. \<not> (live t i \<and> content t i = Some (ns, d))"
proof (induction bucket)
  case (Cons i bucket)
  have "strong_count t i \<noteq> 0 \<and> ae_kind (at_entries t ! i) = namespace_kind ns \<and> ae_description (at_entries t ! i) = Some d \<longleftrightarrow>
      live t i \<and> content t i = Some (ns, d)"
    using live_content_iff [of t i ns d] by (auto simp: live_def)
  then show ?case
    using Cons by (auto split: option.splits)
qed simp

lemma find_interned_exact:
  assumes "books hash t held"
  shows "find_interned (content_key hash (ns, d)) d t = Some i \<longleftrightarrow> live t i \<and> content t i = Some (ns, d)"
proof -
  let ?key = "content_key hash (ns, d)" and ?bs = "at_buckets t"
  have filed: "filed hash (content t) ?bs" and once: "interned_once t" using assms by (simp_all add: books_def)
  have lookup: "find_interned ?key d t = Option.bind (map_of ?bs ?key) (find_in_bucket t (namespace_kind ns) d)"
    by (simp add: find_interned_def content_key_def)
  have found: "live t j \<and> content t j = Some (ns, d)" if "find_interned ?key d t = Some j" for j
    using that find_in_bucket_exact [where t = t and ns = ns and d = d and bucket = "the (map_of ?bs ?key)"] by (auto simp: lookup bind_eq_Some_conv)
  have "find_interned ?key d t = Some i" if i: "live t i" "content t i = Some (ns, d)"
  proof -
    have "i \<in> set (slots ?bs)" using once i by (auto simp: interned_once_def)
    then obtain bucket where bucket: "map_of ?bs ?key = Some bucket" "i \<in> set bucket"
      using filed_lookup [OF filed i(2)] by auto
    then obtain j where j: "find_interned ?key d t = Some j"
      using find_in_bucket_exact [where t = t and ns = ns and d = d and bucket = bucket] i by (auto simp: lookup split: option.splits)
    then have "j = i" using found [OF j] i once by (auto simp: interned_once_def)
    then show ?thesis using j by simp
  qed
  then show ?thesis using found by blast
qed

section \<open>Interning\<close>

text \<open>The buckets after a commit that keeps the slots satisfying \<open>P\<close> in the target bucket and \<open>Q\<close> elsewhere.\<close>

lemma books_publish:
  fixes t :: atom_table
  defines "new \<equiv> length (at_entries t)"
  assumes "books hash t held" "length d \<le> max_units" "\<And>i. live t i \<Longrightarrow> content t i \<noteq> Some (ns, d)"
    and "\<And>i. live t i \<Longrightarrow> P i" "filed hash (content t) others'" "fst ` set others' \<subseteq> fst ` set (remove_bucket (content_key hash (ns, d)) (at_buckets t))"
    and "\<And>i. live t i \<Longrightarrow> i \<in> set (slots (remove_bucket (content_key hash (ns, d)) (at_buckets t))) \<Longrightarrow> i \<in> set (slots others')"
    and "bs = (content_key hash (ns, d), filter P (bucket_of (content_key hash (ns, d)) (at_buckets t)) @ [new]) # others'"
    and "usage_within (at_limits t) u" "unat (au_live_atoms u) = length (live_entries t) + 1"
    and "unat (au_live_description_code_units u) = live_units t + length d" "unat (au_interner_slots u) = length (slots bs)"
  shows "books hash (add_entry (new_entry (namespace_kind ns) (Some d) predefined) bs u t) (add_mset new held)"
proof -
  let ?key = "content_key hash (ns, d)" and ?e = "new_entry (namespace_kind ns) (Some d) predefined"
  let ?f = "(content t)(new := Some (ns, d))"
  have content: "entry_content ?e = Some (ns, d)" by (cases ns) (simp_all add: entry_content_def)
  have filed: "filed hash (content t) (at_buckets t)" using assms(2) by (simp add: books_def)
  have none: "content t new = None" using content_bound [of t new] new_def by (cases "content t new") auto
  have bucket: "distinct (bucket_of ?key (at_buckets t))" "new \<notin> set (bucket_of ?key (at_buckets t))"
    "\<And>i. i \<in> set (bucket_of ?key (at_buckets t)) \<Longrightarrow> \<exists>c. content t i = Some c \<and> content_key hash c = ?key"
    using filed_bucket [OF filed, of ?key] none by auto
  have "filed hash ?f others'"
    by (rule filed_cong [OF assms(6)]) (use none in auto)
  moreover have "?key \<notin> fst ` set others'"
    using assms(7) remove_key [of ?key "at_buckets t"] by blast
  moreover have "\<exists>c. ?f i = Some c \<and> content_key hash c = ?key" if "i \<in> set (filter P (bucket_of ?key (at_buckets t)) @ [new])" for i
    using that bucket(2) bucket(3) [of i] by (cases "i = new") auto
  ultimately have "filed hash ?f bs"
    using bucket(1,2) unfolding assms(9) by simp
  moreover have "i \<in> set (slots bs)" if "live t i" "i \<in> set (slots (at_buckets t))" for i
    using that assms(5,8) slots_remove_parts(1) [OF filed, of ?key] unfolding assms(9) by auto
  ultimately show ?thesis
    unfolding new_def using assms(2-4,9-13) content by (intro books_add) (auto simp: entry_units_def new_def)
qed

lemma plan_reclaim_cases:
  assumes "books hash t held"
  shows "let plan = plan_reclaim key t; bs = at_buckets t; bucket = bucket_of key bs
    in unat (rc_target_dead plan) = dead_count t bucket \<and>
       (case rc_scope plan of
          Reclaim_None \<Rightarrow> rc_total_dead plan = 0 \<and> length (slots bs) < unat (al_max_interner_slots (at_limits t))
        | Reclaim_TargetBucket \<Rightarrow> unat (rc_total_dead plan) = dead_count t bucket \<and>
            length (slots bs) - dead_count t bucket < unat (al_max_interner_slots (at_limits t))
        | Reclaim_AllBuckets \<Rightarrow> unat (rc_total_dead plan) = dead_count t (slots bs))"
proof -
  let ?bs = "at_buckets t" and ?bucket = "bucket_of key (at_buckets t)"
  have usage: "usage_exact t" and filed: "filed hash (content t) ?bs" using assms by (simp_all add: books_def)
  note slots = usage_exactD(3,4) [OF usage]
  have "length ?bucket \<le> length (slots ?bs)"
    using slots_remove_parts(2) [OF filed, of "\<lambda>_. True" key] by simp
  then have short: "length ?bucket < 2 ^ 32" using slots(2) by (rule le_less_trans)
  have target: "(case map_of ?bs key of None \<Rightarrow> 0 | Some bucket \<Rightarrow> dead_slots t bucket) = dead_slots t ?bucket"
    by (simp add: bucket_of_def dead_slots_def split: option.splits)
  note dead = dead_slots_exact [OF short, of t]
  have total: "unat (foldl (\<lambda>total entry. saturating_add total (dead_slots t (snd entry))) 0 ?bs) = dead_count t (slots ?bs)"
    using dead_total_from [of 0 ?bs t] slots(2) by simp
  show ?thesis
    using dead total slots(1)
    unfolding plan_reclaim_def target Let_def
    by (auto simp: reclaim_none_def word_less_nat_alt unat_saturating_sub)
qed

lemma fst_prune_dead_slots: "fst (prune_dead_slots t bucket) = filter (live t) bucket"
  unfolding prune_dead_slots_def live_def by (simp add: Let_def)

lemma fst_retain_live: "fst (retain_live t bs n) = prune (live t) bs"
  by (induction bs arbitrary: n) (auto simp: Let_def case_prod_beta fst_prune_dead_slots)

definition kept_slots :: "atom_table \<Rightarrow> reclaim_scope \<Rightarrow> bucket_key \<Rightarrow> buckets" where
  "kept_slots t scope key =
     (let others = remove_bucket key (at_buckets t); bucket = bucket_of key (at_buckets t); new = length (at_entries t)
      in case scope of
           Reclaim_None \<Rightarrow> (key, bucket @ [new]) # others
         | Reclaim_TargetBucket \<Rightarrow> (key, filter (live t) bucket @ [new]) # others
         | Reclaim_AllBuckets \<Rightarrow> (key, filter (live t) bucket @ [new]) # prune (live t) others)"

lemma publish_prepared_cases:
  "(\<exists>e. publish_interned_prepared alloc key d predefined plan u t = (Inl e, t) \<and> atom_refused alloc e) \<or>
   publish_interned_prepared alloc key d predefined plan u t =
     (Inr (handle t (length (at_entries t))),
      add_entry (new_entry (namespace_kind (bk_namespace key)) (Some d) predefined) (kept_slots t (rc_scope plan) key) u t)"
proof (cases "reserve_slot alloc key plan t")
  case (Inl e)
  then have "atom_refused alloc e"
    by (auto simp: reserve_slot_def atom_refused_def err_if_def split: option.splits if_splits)
  then show ?thesis
    using Inl by (simp add: publish_interned_prepared_def)
next
  case (Inr v)
  then show ?thesis
    by (simp add: publish_interned_prepared_def Let_def push_entry_def handle_def add_entry_def kept_slots_def
        fst_prune_dead_slots fst_retain_live split: reclaim_scope.split) (simp add: bucket_of_def)
qed

lemma length_kept_slots:
  assumes "books hash t held"
  shows "length (slots (kept_slots t scope key)) = length (slots (at_buckets t)) + 1 -
    (case scope of Reclaim_None \<Rightarrow> 0 | Reclaim_TargetBucket \<Rightarrow> dead_count t (bucket_of key (at_buckets t))
       | Reclaim_AllBuckets \<Rightarrow> dead_count t (slots (at_buckets t)))"
proof -
  have filed: "filed hash (content t) (at_buckets t)" using assms by (simp add: books_def)
  let ?others = "slots (remove_bucket key (at_buckets t))" and ?bucket = "bucket_of key (at_buckets t)"
  have "length (slots (at_buckets t)) = length ?bucket + length ?others"
    "dead_count t (slots (at_buckets t)) = dead_count t ?bucket + dead_count t ?others"
    using slots_remove_parts(2) [OF filed, of "\<lambda>_. True" key] slots_remove_parts(2) [OF filed, of "\<lambda>i. \<not> live t i" key]
    by simp_all
  moreover have "length (filter (live t) ?bucket) + dead_count t ?bucket = length ?bucket"
    "length (filter (live t) ?others) + dead_count t ?others = length ?others"
    by (rule length_live_dead)+
  ultimately show ?thesis
    by (cases scope) (simp_all add: kept_slots_def Let_def)
qed

lemma publish_prepared_creates:
  assumes "books hash t held" "length d \<le> max_units" "\<And>i. live t i \<Longrightarrow> content t i \<noteq> Some (ns, d)"
    and "exceeded t (length d) 1 = None" "usage_within (at_limits t) u" "unat (au_live_atoms u) = length (live_entries t) + 1"
    and "unat (au_live_description_code_units u) = live_units t + length d"
    and "unat (au_interner_slots u) = length (slots (kept_slots t (rc_scope plan) (content_key hash (ns, d))))"
  shows "creates hash alloc (new_entry (namespace_kind ns) (Some d) predefined) 1 t held
    (publish_interned_prepared alloc (content_key hash (ns, d)) d predefined plan u t)"
proof -
  let ?key = "content_key hash (ns, d)" and ?e = "new_entry (namespace_kind ns) (Some d) predefined"
  let ?bs = "kept_slots t (rc_scope plan) ?key" and ?new = "length (at_entries t)"
  have filed: "filed hash (content t) (remove_bucket ?key (at_buckets t))"
    using assms(1) filed_remove by (auto simp: books_def)
  have kept: "\<exists>P others'. ?bs = (?key, filter P (bucket_of ?key (at_buckets t)) @ [?new]) # others' \<and> (\<forall>i. live t i \<longrightarrow> P i) \<and>
      others' \<in> {remove_bucket ?key (at_buckets t), prune (live t) (remove_bucket ?key (at_buckets t))}"
    by (cases "rc_scope plan") (auto simp: kept_slots_def Let_def intro: exI [of _ "\<lambda>_. True"])
  then have "books hash (add_entry ?e ?bs u t) (add_mset ?new held)"
    using assms filed filed_prune [OF filed, of "live t"] keys_prune [of "live t" "remove_bucket ?key (at_buckets t)"]
    by (elim exE conjE insertE emptyE) (rule books_publish; simp; blast)+
  then show ?thesis
    using publish_prepared_cases [of alloc ?key d predefined plan u t] assms(4)
    by (auto simp: creates_def entry_units_def content_key_def)
qed

lemma reclaimed_room:
  fixes key :: bucket_key and t :: atom_table
  assumes "books hash t held"
  defines "plan \<equiv> plan_reclaim key t" and "bs \<equiv> at_buckets t"
  shows "unat (rc_total_dead plan) \<le> dead_count t (slots bs)"
    "length (slots bs) - unat (rc_total_dead plan) + 1 = length (slots (kept_slots t (rc_scope plan) key))"
    "unat (al_max_interner_slots (at_limits t)) < length (slots bs) - unat (rc_total_dead plan) + 1 \<Longrightarrow>
     unat (al_max_interner_slots (at_limits t)) < live_slots t + 1"
proof -
  have filed: "filed hash (content t) bs" using assms(1) by (simp add: books_def bs_def)
  have dead: "dead_count t (bucket_of key bs) \<le> dead_count t (slots bs)"
    using slots_remove_parts(2) [OF filed, of "\<lambda>i. \<not> live t i" key] by simp
  note all = length_live_dead [of t "slots bs"]
  note plan_cases = plan_reclaim_cases [OF assms(1), of key, folded plan_def, unfolded Let_def, folded bs_def]
  note kept = length_kept_slots [OF assms(1), of "rc_scope plan" key, folded bs_def]
  show "unat (rc_total_dead plan) \<le> dead_count t (slots bs)"
    using plan_cases dead by (cases "rc_scope plan") simp_all
  then show "length (slots bs) - unat (rc_total_dead plan) + 1 = length (slots (kept_slots t (rc_scope plan) key))"
    using plan_cases kept all by (cases "rc_scope plan") simp_all
  show "unat (al_max_interner_slots (at_limits t)) < length (slots bs) - unat (rc_total_dead plan) + 1 \<Longrightarrow>
     unat (al_max_interner_slots (at_limits t)) < live_slots t + 1"
    using plan_cases all unfolding live_slots_def bs_def [symmetric] by (cases "rc_scope plan") simp_all
qed

lemma intern_found:
  assumes "books hash t held" "live t i" "content t i = Some (ns, d)"
  shows "intern_description hash alloc ns d t = (Inr (handle t i), atom_clone i t)"
  using find_interned_exact [OF assms(1), of ns d i] assms(2,3)
  by (simp add: intern_description_def content_key_def)

lemma intern_creates:
  assumes "books hash t held" "length d \<le> max_units" "\<And>i. live t i \<Longrightarrow> content t i \<noteq> Some (ns, d)"
  shows "creates hash alloc (new_entry (namespace_kind ns) (Some d) None) 1 t held (intern_description hash alloc ns d t)"
proof -
  let ?key = "content_key hash (ns, d)" and ?n = "length d"
  let ?plan = "plan_reclaim ?key t"
  have usage: "usage_exact t" using assms(1) by (simp add: books_def)
  have key: "\<lparr>bk_namespace = ns, bk_content_hash = hash ns d\<rparr> = ?key" by (simp add: content_key_def)
  have "find_interned ?key d t = None"
    using find_interned_exact [OF assms(1), of ns d] assms(3) by (cases "find_interned ?key d t") auto
  then have run: "intern_description hash alloc ns d t =
      (case checked_usage_after_reclaim 1 (word_of_nat ?n) 1 (rc_total_dead ?plan) t of
         Inl e \<Rightarrow> (Inl e, t)
       | Inr u \<Rightarrow> (case compact_description alloc d of
           Inl e \<Rightarrow> (Inl e, t) | Inr copy \<Rightarrow> publish_interned_prepared alloc ?key copy None ?plan u t))"
    unfolding intern_description_def Let_def key by simp
  note room = reclaimed_room [OF assms(1), of ?key]
  note check = checked_usage_exact [OF usage assms(2) room(1), of 1, simplified, OF room(3) [simplified]]
  show ?thesis
  proof (cases "exceeded t ?n 1")
    case None
    then obtain u where u: "checked_usage_after_reclaim 1 (word_of_nat ?n) 1 (rc_total_dead ?plan) t = Inr u"
      "usage_within (at_limits t) u" "unat (au_live_atoms u) = length (live_entries t) + 1"
      "unat (au_live_description_code_units u) = live_units t + ?n"
      "unat (au_interner_slots u) = length (slots (kept_slots t (rc_scope ?plan) ?key))"
      using check room(2) by auto
    from compact_description_outcome [OF assms(2), of alloc] show ?thesis
    proof
      assume "compact_description alloc d = Inr d"
      then show ?thesis
        using publish_prepared_creates [OF assms None u(2-5)] run u(1) by simp
    next
      assume "\<exists>e. compact_description alloc d = Inl e \<and> atom_refused alloc e"
      then show ?thesis
        unfolding run u(1) using None by (auto simp: creates_def entry_units_def)
    qed
  next
    case (Some e)
    then show ?thesis
      unfolding run using check by (simp add: creates_def entry_units_def)
  qed
qed

end
