(* ===== verification/Atom_Life.thy ===== *)
theory Atom_Life
  imports Atom_Interning
begin

text \<open>
  The life of an atom table: the installation of the predefined atoms, rollback and restoration, and every sequence
  of operations on the table and on the handles it gave out.
\<close>

section \<open>Rollback and restoration\<close>

lemma dead_position_Some:
  "dead_position t address bucket = Some index \<Longrightarrow> index < length bucket \<and> bucket ! index = address \<and> \<not> live t address"
  by (induction bucket arbitrary: index) (auto simp: live_def split: if_splits)

lemma mset_butlast: "xs \<noteq> [] \<Longrightarrow> mset xs = add_mset (last xs) (mset (butlast xs))"
  by (induction xs) auto

lemma mset_swap_remove:
  assumes "index < length xs"
  shows "mset xs = add_mset (xs ! index) (mset (swap_remove index xs))"
proof (cases "index + 1 = length xs")
  case True
  then have "xs \<noteq> []" "index = length xs - 1" by auto
  then have "xs ! index = last xs" "xs \<noteq> []" by (simp_all add: last_conv_nth)
  then show ?thesis using True mset_butlast [of xs] by (simp add: swap_remove_def)
next
  case False
  let ?ys = "xs[index := last xs]"
  have "last ?ys = last xs" "?ys \<noteq> []"
    using False assms last_list_update [of xs index "last xs"] by (cases "xs = []"; auto)+
  then have "mset ?ys = add_mset (last xs) (mset (butlast ?ys))"
    using mset_butlast [of ?ys] by simp
  moreover have "mset ?ys = add_mset (last xs) (mset xs - {#xs ! index#})"
    using assms by (rule mset_update)
  ultimately have "mset (butlast ?ys) = mset xs - {#xs ! index#}" by simp
  then show ?thesis using False assms by (simp add: swap_remove_def)
qed

lemma books_rollback:
  assumes "books hash t held" "i \<in># held" "content t i = Some (Namespace_String, d)"
  shows "books hash (rollback_interned_string hash i t) (held - {#i#}) \<and> keeps t (rollback_interned_string hash i t)"
proof -
  let ?t = "atom_drop i t" and ?key = "content_key hash (Namespace_String, d)"
  have "live t i" using assms(1,2) held_live by (auto simp: books_def)
  then have "ae_description (at_entries t ! i) = Some d"
    using live_content_iff assms(3) by blast
  then have key: "\<lparr>bk_namespace = Namespace_String, bk_content_hash = hash Namespace_String (the (ae_description (at_entries t ! i)))\<rparr> = ?key"
    by (simp add: content_key_def)
  note dropped = books_drop [OF assms(1,2)]
  show ?thesis
  proof (cases "\<exists>bucket index. ae_predefined (at_entries t ! i) = None \<and> map_of (at_buckets ?t) ?key = Some bucket \<and> dead_position ?t i bucket = Some index")
    case False
    then have "rollback_interned_string hash i t = ?t"
      unfolding rollback_interned_string_def Let_def key by (auto split: option.splits)
    then show ?thesis using dropped by simp
  next
    case True
    then obtain bucket index where b: "ae_predefined (at_entries t ! i) = None" "map_of (at_buckets ?t) ?key = Some bucket"
      "dead_position ?t i bucket = Some index" by blast
    let ?bucket = "swap_remove index bucket" and ?others = "remove_bucket ?key (at_buckets ?t)"
    let ?bs = "if ?bucket = [] then ?others else (?key, ?bucket) # ?others"
    note dead = dead_position_Some [OF b(3)]
    have filed: "filed hash (content ?t) (at_buckets ?t)" using dropped(1) by (simp add: books_def)
    have bucket: "bucket_of ?key (at_buckets ?t) = bucket" using b(2) by (simp add: bucket_of_def)
    have mset: "mset bucket = add_mset i (mset ?bucket)" using mset_swap_remove [of index bucket] dead by simp
    have parts: "set bucket = insert i (set ?bucket)" "length bucket = Suc (length ?bucket)"
      using arg_cong [OF mset, of set_mset] arg_cong [OF mset, of size] by simp_all
    have "distinct bucket" "\<forall>j\<in>set bucket. \<exists>c. content ?t j = Some c \<and> content_key hash c = ?key"
      using filed_bucket [OF filed, of ?key] bucket by simp_all
    then have "distinct ?bucket" "\<forall>j\<in>set ?bucket. \<exists>c. content ?t j = Some c \<and> content_key hash c = ?key"
      using mset_eq_imp_distinct_iff [of bucket "i # ?bucket"] mset parts by simp_all
    then have "filed hash (content ?t) ?bs"
      using filed_remove [OF filed, of ?key] remove_key [of ?key "at_buckets ?t"] by simp
    moreover have "slots ?bs = ?bucket @ slots ?others" by simp
    moreover have "length (slots ?bs) + unat (1 :: u32) = length (slots (at_buckets ?t))"
      using slots_remove_parts(2) [OF filed, of "\<lambda>_. True" ?key] parts bucket by simp
    ultimately have "books hash (decrease_interner_slots 1 (?t\<lparr>at_buckets := ?bs\<rparr>)) (held - {#i#}) \<and>
        keeps ?t (decrease_interner_slots 1 (?t\<lparr>at_buckets := ?bs\<rparr>))"
      using slots_remove_parts(1) [OF filed, of ?key] parts bucket dead
      by (intro conjI; intro books_rebucket [OF dropped(1)]) auto
    moreover have "rollback_interned_string hash i t = decrease_interner_slots 1 (?t\<lparr>at_buckets := ?bs\<rparr>)"
      unfolding rollback_interned_string_def Let_def key using b by simp
    ultimately show ?thesis using keeps_trans [OF dropped(2)] by simp
  qed
qed

lemma creates_books:
  "books hash t held \<Longrightarrow> creates hash alloc e s t held (outcome, t') \<Longrightarrow>
     (case outcome of Inl err \<Rightarrow> t' = t | Inr atom \<Rightarrow> books hash t' (add_mset (ah_address atom) held)) \<and> keeps t t'"
  by (auto simp: creates_def handle_def split: option.splits)

lemma intern_books:
  assumes "books hash t held" "length d \<le> max_units" "intern_description hash alloc ns d t = (outcome, t')"
  shows "(case outcome of Inl err \<Rightarrow> t' = t | Inr atom \<Rightarrow> books hash t' (add_mset (ah_address atom) held)) \<and> keeps t t'"
proof (cases "\<exists>i. live t i \<and> content t i = Some (ns, d)")
  case True
  then obtain i where i: "live t i" "content t i = Some (ns, d)" by blast
  then have "outcome = Inr (handle t i)" "t' = atom_clone i t"
    using intern_found [OF assms(1) i, of alloc] assms(3) by simp_all
  then show ?thesis using books_clone [OF assms(1) i(1)] by (simp add: handle_def)
next
  case False
  then have "content t i \<noteq> Some (ns, d)" if "live t i" for i using that by blast
  from intern_creates [OF assms(1,2) this, of alloc] show ?thesis
    unfolding assms(3) by (rule creates_books [OF assms(1)])
qed

lemma books_restore:
  assumes "books hash t held" "\<forall>a\<in>set atoms. length (snd a) \<le> max_units" "restore_atoms hash alloc atoms t = (outcome, t')"
  shows "books hash t' held \<and> keeps t t'"
  using assms
proof (induction atoms arbitrary: t)
  case (Cons a atoms)
  obtain kind d where a: "a = (kind, d)" by (cases a)
  let ?ns = "case kind of Atom_String \<Rightarrow> Some Namespace_String | Atom_GlobalSymbol \<Rightarrow> Some Namespace_GlobalSymbol | _ \<Rightarrow> None"
  show ?case
  proof (cases ?ns)
    case None
    then show ?thesis using Cons a by simp
  next
    case (Some ns)
    obtain r t1 where run: "intern_description hash alloc ns d t = (r, t1)" by (cases "intern_description hash alloc ns d t")
    have step: "(case r of Inl err \<Rightarrow> t1 = t | Inr atom \<Rightarrow> books hash t1 (add_mset (ah_address atom) held)) \<and> keeps t t1"
      using intern_books [OF Cons.prems(1) _ run] Cons.prems(2) a by simp
    show ?thesis
    proof (cases r)
      case (Inl e)
      then show ?thesis using Cons.prems a Some run step by simp
    next
      case (Inr atom)
      let ?i = "ah_address atom"
      have books: "books hash t1 (add_mset ?i held)" using step Inr by simp
      note dropped = books_drop [OF books, of ?i, simplified]
      have "restore_atoms hash alloc atoms (atom_drop ?i t1) = (outcome, t')"
        using Cons.prems(3) a Some run Inr by simp
      from Cons.IH [OF dropped(1) _ this] have "books hash t' held" "keeps (atom_drop ?i t1) t'"
        using Cons.prems(2) by simp_all
      then show ?thesis
        using keeps_trans [OF keeps_trans [OF conjunct2 [OF step] dropped(2)]] by simp
    qed
  qed
qed simp

section \<open>The predefined atoms\<close>

text \<open>The live slots are the live entries that have a content.\<close>

lemma live_slots_exact:
  assumes "books hash t held"
  shows "live_slots t = length (filter (\<lambda>e. entry_content e \<noteq> None) (live_entries t))"
proof -
  let ?P = "\<lambda>e. ae_strong e \<noteq> 0 \<and> entry_content e \<noteq> None"
  have filed: "filed hash (content t) (at_buckets t)" and once: "interned_once t" using assms by (simp_all add: books_def)
  have iff: "i < length (at_entries t) \<and> ?P (at_entries t ! i) \<longleftrightarrow> live t i \<and> content t i \<noteq> None" for i
    by (auto simp: live_def strong_count_def content_def get_def)
  have "set (filter (live t) (slots (at_buckets t))) = {i. i < length (at_entries t) \<and> ?P (at_entries t ! i)}"
    unfolding iff using once by (auto simp: interned_once_def dest: slot_filed [OF filed])
  moreover have "distinct (filter (live t) (slots (at_buckets t)))"
    using distinct_slots [OF filed] by simp
  ultimately have "live_slots t = card {i. i < length (at_entries t) \<and> ?P (at_entries t ! i)}"
    unfolding live_slots_def by (metis distinct_card)
  then show ?thesis
    by (simp add: length_filter_conv_card live_entries_def conj_commute)
qed

lemma slots_all_live:
  assumes "books hash t held" "\<forall>e\<in>set (at_entries t). ae_strong e \<noteq> 0"
  shows "live_slots t = length (slots (at_buckets t))"
proof -
  have "live t i" if i: "i \<in> set (slots (at_buckets t))" for i
  proof -
    obtain c where "content t i = Some c"
      using slot_filed [of hash "content t" "at_buckets t" i] i assms(1) by (auto simp: books_def)
    then have "i < length (at_entries t)" by (rule content_bound)
    then show ?thesis using assms(2) by (simp add: live_def strong_count_def get_def)
  qed
  then show ?thesis by (simp add: live_slots_def)
qed

fun spec_kind :: "predefined_kind \<Rightarrow> atom_kind" where
  "spec_kind Predefined_String = Atom_String"
| "spec_kind Predefined_Private = Atom_Private"
| "spec_kind Predefined_Symbol = Atom_Symbol"

abbreviation spec_entry :: "nat \<Rightarrow> string \<times> predefined_kind \<Rightarrow> atom_entry" where
  "spec_entry n spec \<equiv> new_entry (spec_kind (snd spec)) (Some (text_units (fst spec))) (Some n)"

definition spec_entries :: "(string \<times> predefined_kind) list \<Rightarrow> atom_entry list" where
  "spec_entries specs = map (\<lambda>n. spec_entry n (specs ! n)) [0..<length specs]"

definition string_texts :: "(string \<times> predefined_kind) list \<Rightarrow> string list" where
  "string_texts specs = map fst (filter (\<lambda>spec. snd spec = Predefined_String) specs)"

lemma string_texts_mem: "x \<in> set (string_texts specs) \<longleftrightarrow> (x, Predefined_String) \<in> set specs"
  by (induction specs) (auto simp: string_texts_def)

lemma spec_entries_snoc: "spec_entries (specs @ [spec]) = spec_entries specs @ [spec_entry (length specs) spec]"
  by (simp add: spec_entries_def nth_append)

lemma spec_entries_counts:
  "length (spec_entries specs) = length specs"
  "filter (\<lambda>e. ae_strong e \<noteq> 0) (spec_entries specs) = spec_entries specs"
  "sum_list (map entry_units (spec_entries specs)) = sum_list (map (length \<circ> fst) specs)"
  "length (filter (\<lambda>e. entry_content e \<noteq> None) (spec_entries specs)) = length (string_texts specs)"
proof -
  show "length (spec_entries specs) = length specs" by (simp add: spec_entries_def)
  show "filter (\<lambda>e. ae_strong e \<noteq> 0) (spec_entries specs) = spec_entries specs"
    by (simp add: spec_entries_def filter_map comp_def)
  show "sum_list (map entry_units (spec_entries specs)) = sum_list (map (length \<circ> fst) specs)"
    by (induction specs rule: rev_induct) (simp_all add: spec_entries_snoc entry_units_def text_units_def, simp add: spec_entries_def)
  show "length (filter (\<lambda>e. entry_content e \<noteq> None) (spec_entries specs)) = length (string_texts specs)"
  proof (induction specs rule: rev_induct)
    case (snoc spec specs)
    then show ?case
      by (cases "snd spec") (simp_all add: spec_entries_snoc string_texts_def entry_content_def)
  qed (simp add: spec_entries_def string_texts_def)
qed

lemma inj_text_units: "text_units a = text_units b \<Longrightarrow> a = b"
proof (induction a arbitrary: b)
  case (Cons c a)
  have "c = c'" if "(word_of_nat (of_char c) :: u16) = word_of_nat (of_char c')" for c c'
  proof -
    have "of_char x < (2 ^ 16 :: nat)" for x
    proof -
      have "of_char x mod 256 < (256 :: nat)" by (rule mod_less_divisor) simp
      then show ?thesis unfolding of_char_mod_256 by (rule less_trans) simp
    qed
    then have "(of_char c :: nat) = of_char c'"
      using arg_cong [OF that, of unat] by (simp add: unat_of_nat)
    then show ?thesis by simp
  qed
  then show ?case using Cons by (cases b) (auto simp: text_units_def)
qed (simp add: text_units_def)

lemma books_adopt:
  assumes "books hash t (add_mset i held)"
  shows "books hash (t\<lparr>at_predefined := at_predefined t @ [i]\<rparr>) held"
proof -
  let ?t = "t\<lparr>at_predefined := at_predefined t @ [i]\<rparr>"
  have "content ?t = content t" "live ?t = live t" "live_entries ?t = live_entries t" "live_units ?t = live_units t"
    "strong_count ?t = strong_count t"
    by (simp_all add: fun_eq_iff content_def live_def live_entries_def live_units_def strong_count_def)
  then show ?thesis
    using assms by (auto simp: books_def interned_once_def usage_exact_def owned_def)
qed

lemma publish_interned_creates:
  assumes "books hash t held" "length d \<le> max_units" "\<And>i. live t i \<Longrightarrow> content t i \<noteq> Some (ns, d)"
    and "live_slots t = length (slots (at_buckets t))"
  shows "creates hash alloc (new_entry (namespace_kind ns) (Some d) predefined) 1 t held
    (publish_interned alloc ns d predefined (hash ns d) t)"
proof -
  let ?key = "content_key hash (ns, d)"
  have usage: "usage_exact t" using assms(1) by (simp add: books_def)
  have run: "publish_interned alloc ns d predefined (hash ns d) t =
      (case checked_usage_after_reclaim 1 (word_of_nat (length d)) 1 0 t of
         Inl e \<Rightarrow> (Inl e, t) | Inr u \<Rightarrow> publish_interned_prepared alloc ?key d predefined reclaim_none u t)"
    unfolding publish_interned_def checked_usage_after_def content_key_def fst_conv snd_conv by (rule refl)
  note check = checked_usage_exact [OF usage assms(2), of 0 1, simplified, folded assms(4)]
  show ?thesis
  proof (cases "exceeded t (length d) 1")
    case None
    then obtain u where u: "checked_usage_after_reclaim 1 (word_of_nat (length d)) 1 0 t = Inr u"
      "usage_within (at_limits t) u" "unat (au_live_atoms u) = length (live_entries t) + 1"
      "unat (au_live_description_code_units u) = live_units t + length d"
      "unat (au_interner_slots u) = length (slots (at_buckets t)) + 1"
      using check assms(4) by auto
    moreover have "length (slots (kept_slots t (rc_scope reclaim_none) ?key)) = length (slots (at_buckets t)) + 1"
      using length_kept_slots [OF assms(1), of Reclaim_None ?key] by (simp add: reclaim_none_def)
    ultimately show ?thesis
      unfolding run using publish_prepared_creates [OF assms(1-3) None, of u reclaim_none alloc predefined] by simp
  next
    case (Some e)
    then show ?thesis
      unfolding run using check by (simp add: creates_def entry_units_def)
  qed
qed

definition specs_fit :: "atom_limits \<Rightarrow> (string \<times> predefined_kind) list \<Rightarrow> bool" where
  "specs_fit limits specs \<longleftrightarrow>
     length specs \<le> unat (al_max_live_atoms limits) \<and>
     sum_list (map (length \<circ> fst) specs) \<le> unat (al_max_live_description_code_units limits) \<and>
     length (string_texts specs) \<le> unat (al_max_interner_slots limits)"

lemma insert_predefined_creates:
  fixes alloc :: allocator
  assumes "books hash t {#}" "at_entries t = spec_entries installed" "distinct (string_texts (installed @ [spec]))"
    and "length (fst spec) \<le> max_units" "specs_fit (at_limits t) (installed @ [spec])"
  defines "outcome \<equiv> insert_predefined hash alloc (length installed) (snd spec) (text_units (fst spec)) t"
  shows "(\<exists>e. outcome = (Inl e, t) \<and> atom_refused alloc e) \<or>
    (\<exists>t'. outcome = (Inr (handle t (length installed)), t') \<and> at_entries t' = spec_entries (installed @ [spec]) \<and>
       books hash t' {#length installed#} \<and> keeps t t')"
proof -
  let ?d = "text_units (fst spec)" and ?s = "if snd spec = Predefined_String then 1 else 0"
  let ?e = "spec_entry (length installed) spec"
  note counts = spec_entries_counts [of "installed"]
  have live_all: "live_entries t = spec_entries installed"
    using counts(2) assms(2) by (simp add: live_entries_def)
  have slots: "live_slots t = length (string_texts installed)"
    using live_slots_exact [OF assms(1)] counts(4) live_all by simp
  have len: "length ?d = length (fst spec)" by (simp add: text_units_def)
  have "exceeded t (length ?d) ?s = None"
    using assms(5) counts live_all slots len
    by (auto simp: exceeded_def specs_fit_def Let_def live_units_def string_texts_def)
  moreover have "creates hash alloc ?e ?s t {#} outcome"
  proof (cases "snd spec = Predefined_String")
    case True
    have "content t i \<noteq> Some (Namespace_String, ?d)" for i
    proof
      assume "content t i = Some (Namespace_String, ?d)"
      then have "i < length installed" "entry_content (spec_entry i (installed ! i)) = Some (Namespace_String, ?d)"
        using content_bound [of t i] assms(2) counts(1) by (auto simp: content_def get_def spec_entries_def)
      then have "snd (installed ! i) = Predefined_String" "fst (installed ! i) = fst spec"
        by (cases "snd (installed ! i)"; auto simp: entry_content_def dest: inj_text_units)+
      then have "installed ! i = (fst spec, Predefined_String)" by (simp add: prod_eq_iff)
      then have "(fst spec, Predefined_String) \<in> set installed" using nth_mem [OF \<open>i < length installed\<close>] by simp
      then have "fst spec \<in> set (string_texts installed)" by (simp add: string_texts_mem)
      then show False using assms(3) True by (simp add: string_texts_def)
    qed
    moreover have "live_slots t = length (slots (at_buckets t))"
      using slots_all_live [OF assms(1)] assms(2) by (auto simp: spec_entries_def)
    ultimately show ?thesis
      using publish_interned_creates [OF assms(1), of ?d Namespace_String alloc "Some (length installed)"] len assms(4) True
      by (simp add: outcome_def insert_predefined_def)
  next
    case False
    then show ?thesis
      using publish_unique_creates [OF assms(1), of "spec_kind (snd spec)" "Some ?d" "Some (length installed)" alloc] len assms(4)
      by (cases "snd spec") (simp_all add: outcome_def insert_predefined_def entry_content_def entry_units_def)
  qed
  ultimately show ?thesis
    using assms(2) counts(1) by (simp add: creates_def entry_units_def spec_entries_snoc)
qed

lemma specs_fit_prefix: "specs_fit limits (specs @ rest) \<Longrightarrow> specs_fit limits specs"
  by (simp add: specs_fit_def string_texts_def)

lemma install_predefined_exact:
  assumes "books hash t {#}" "at_entries t = spec_entries installed" "at_predefined t = [0..<length installed]"
    and "distinct (string_texts (installed @ specs))" "\<forall>spec\<in>set specs. length (fst spec) \<le> max_units"
    and "specs_fit (at_limits t) (installed @ specs)"
  shows "case install_predefined hash alloc (length installed) specs t of
      Inl e \<Rightarrow> atom_refused alloc e
    | Inr t' \<Rightarrow> books hash t' {#} \<and> at_entries t' = spec_entries (installed @ specs) \<and>
        at_predefined t' = [0..<length (installed @ specs)] \<and> at_limits t' = at_limits t \<and> at_state t' = at_state t"
  using assms
proof (induction specs arbitrary: installed t)
  case (Cons spec specs)
  obtain content kind where spec: "spec = (content, kind)" by (cases spec)
  let ?d = "text_units content" and ?n = "length installed"
  have len: "length ?d \<le> max_units" using Cons.prems(5) spec by (simp add: text_units_def)
  have fits: "specs_fit (at_limits t) (installed @ [spec])"
    using Cons.prems(6) specs_fit_prefix [of _ "installed @ [spec]" specs] by simp
  have dist: "distinct (string_texts (installed @ [spec]))"
    using Cons.prems(4) by (auto simp: string_texts_def)
  note created = insert_predefined_creates [OF Cons.prems(1,2) dist _ fits, of alloc]
  from compact_description_outcome [OF len, of alloc] show ?case
  proof
    assume copy: "compact_description alloc ?d = Inr ?d"
    from created Cons.prems(5) spec consider
      e where "insert_predefined hash alloc ?n kind ?d t = (Inl e, t)" "atom_refused alloc e"
    | t1 where "insert_predefined hash alloc ?n kind ?d t = (Inr (handle t ?n), t1)"
        "at_entries t1 = spec_entries (installed @ [spec])" "books hash t1 {#?n#}" "keeps t t1"
      by auto
    then show ?thesis
    proof cases
      case 1
      then show ?thesis using copy spec by simp
    next
      case 2
      let ?t = "t1\<lparr>at_predefined := at_predefined t1 @ [?n]\<rparr>"
      have "books hash ?t {#}" using books_adopt [of hash t1 ?n "{#}"] 2(3) by simp
      moreover have "at_predefined ?t = [0..<length (installed @ [spec])]" "at_limits ?t = at_limits t" "at_state ?t = at_state t"
        using 2(4) Cons.prems(3) by (simp_all add: keeps_def)
      moreover have "install_predefined hash alloc ?n (spec # specs) t = install_predefined hash alloc (length (installed @ [spec])) specs ?t"
        using copy 2(1) spec by (simp add: handle_def)
      moreover have "distinct (string_texts ((installed @ [spec]) @ specs))" "specs_fit (at_limits ?t) ((installed @ [spec]) @ specs)"
        "\<forall>spec\<in>set specs. length (fst spec) \<le> max_units" "at_entries ?t = spec_entries (installed @ [spec])"
        using Cons.prems(4-6) calculation(3) 2(2) by simp_all
      ultimately show ?thesis
        using Cons.IH [of ?t "installed @ [spec]"] unfolding append_assoc append.simps by (simp split: sum.splits)
    qed
  next
    assume "\<exists>e. compact_description alloc ?d = Inl e \<and> atom_refused alloc e"
    then show ?thesis using spec by auto
  qed
qed simp

text \<open>
  The constants of the startup check are those of the table. Contents are compared through a code that is
  injective on them.
\<close>

primrec text_code :: "int \<Rightarrow> string \<Rightarrow> int" where
  "text_code n [] = n"
| "text_code n (c # s) = text_code (4 * n + of_char c) s"

lemma predefined_codes: "successively (<) (sort (map (text_code 1) (string_texts PREDEFINED_ATOM_SPECS)))"
  by code_simp

lemma predefined_distinct: "distinct (string_texts PREDEFINED_ATOM_SPECS)"
proof -
  let ?codes = "map (text_code 1) (string_texts PREDEFINED_ATOM_SPECS)"
  have "sorted_wrt (<) (sort ?codes)"
    using predefined_codes by (simp add: successively_iff_sorted_wrt_strong)
  then have "distinct (sort ?codes)"
    by (simp only: strict_sorted_iff)
  then show ?thesis by (simp add: distinct_map)
qed

lemma predefined_counts:
  "length PREDEFINED_ATOM_SPECS = 244" "sum_list (map (length \<circ> fst) PREDEFINED_ATOM_SPECS) = 2119"
  "length (string_texts PREDEFINED_ATOM_SPECS) = 228" "list_all (\<lambda>spec. length (fst spec) \<le> 32) PREDEFINED_ATOM_SPECS"
  by code_simp+

lemma atom_table_new_exact:
  "if unat (al_max_live_atoms limits) \<le> max_units \<and> specs_fit limits PREDEFINED_ATOM_SPECS
   then (case atom_table_new hash alloc state limits of
       Inl e \<Rightarrow> atom_refused alloc e
     | Inr t \<Rightarrow> books hash t {#} \<and> at_entries t = spec_entries PREDEFINED_ATOM_SPECS \<and>
         at_predefined t = [0..<244] \<and> at_limits t = limits \<and> at_state t = state)
   else (\<exists>e. atom_table_new hash alloc state limits = Inl e)"
proof -
  let ?t = "\<lparr>at_state = state, at_entries = [],
    at_usage = \<lparr>au_live_atoms = 0, au_live_description_code_units = 0, au_interner_slots = 0\<rparr>,
    at_limits = limits, at_buckets = [], at_predefined = []\<rparr>"
  have fit: "specs_fit limits PREDEFINED_ATOM_SPECS \<longleftrightarrow> \<not> al_max_live_atoms limits < PREDEFINED_ATOM_COUNT \<and>
      \<not> al_max_live_description_code_units limits < PREDEFINED_DESCRIPTION_CODE_UNITS \<and>
      \<not> al_max_interner_slots limits < PREDEFINED_INTERNER_SLOTS"
    unfolding specs_fit_def predefined_counts(1-3)
    by (simp add: word_less_nat_alt PREDEFINED_ATOM_COUNT_def PREDEFINED_DESCRIPTION_CODE_UNITS_def PREDEFINED_INTERNER_SLOTS_def not_less)
  have "books hash ?t {#}"
    by (simp add: books_def interned_once_def usage_exact_def owned_def live_entries_def live_units_def usage_within_def
        content_def live_def strong_count_def get_def)
  moreover have "\<forall>spec\<in>set PREDEFINED_ATOM_SPECS. length (fst spec) \<le> max_units"
    using predefined_counts(4) by (fastforce simp: list_all_iff)
  ultimately have "specs_fit limits PREDEFINED_ATOM_SPECS \<Longrightarrow>
      case install_predefined hash alloc 0 PREDEFINED_ATOM_SPECS ?t of
        Inl e \<Rightarrow> atom_refused alloc e
      | Inr t \<Rightarrow> books hash t {#} \<and> at_entries t = spec_entries PREDEFINED_ATOM_SPECS \<and> at_predefined t = [0..<244] \<and>
          at_limits t = limits \<and> at_state t = state"
    using install_predefined_exact [of hash ?t "[]" PREDEFINED_ATOM_SPECS alloc] predefined_distinct
    by (simp add: spec_entries_def predefined_counts(1) split: sum.splits)
  moreover have "unat (al_max_live_atoms limits) \<le> max_units \<longleftrightarrow> \<not> MAX_ATOM_ENTRIES < al_max_live_atoms limits"
    by (simp add: MAX_ATOM_ENTRIES_def word_less_nat_alt not_less)
  ultimately show ?thesis
    unfolding atom_table_new_def validate_limits_def validate_startup_limits_def fit
    by (auto simp: err_if_def atom_refused_def)
qed

end
