(* ===== verification/Atom_Guarantees.thy ===== *)
theory Atom_Guarantees
  imports Atom_Life
begin

text \<open>
  Guarantees of the atom table: exact accounting in every reachable table, exact interning, property keys that
  are equal exactly when their spellings are, and the round trip of array indices through their spelling.
\<close>

section \<open>Runs\<close>

fun key_atoms :: "property_key \<Rightarrow> nat multiset" where
  "key_atoms (Key_Index _) = {#}"
| "key_atoms (Key_Atom i _) = {#i#}"

text \<open>
  One operation on a table and the multiset of handles held outside it. Only held handles are cloned, dropped,
  converted or rolled back; a failed operation changes nothing and is no step.
\<close>

inductive atom_step :: "content_hasher \<Rightarrow> atom_table \<times> nat multiset \<Rightarrow> atom_table \<times> nat multiset \<Rightarrow> bool"
  for hash :: content_hasher where
  step_intern: "length d \<le> max_units \<Longrightarrow> intern_description hash alloc ns d t = (Inr atom, t') \<Longrightarrow>
    atom_step hash (t, held) (t', add_mset (ah_address atom) held)"
| step_symbol: "(case d of None \<Rightarrow> True | Some u \<Rightarrow> length u \<le> max_units) \<Longrightarrow> new_unique_symbol alloc d t = (Inr atom, t') \<Longrightarrow>
    atom_step hash (t, held) (t', add_mset (ah_address atom) held)"
| step_private: "length d \<le> max_units \<Longrightarrow> new_private_name alloc d t = (Inr atom, t') \<Longrightarrow>
    atom_step hash (t, held) (t', add_mset (ah_address atom) held)"
| step_predefined: "n < length (at_predefined t) \<Longrightarrow>
    atom_step hash (t, held) (atom_clone (at_predefined t ! n) t, add_mset (at_predefined t ! n) held)"
| step_clone: "i \<in># held \<Longrightarrow> atom_step hash (t, held) (atom_clone i t, add_mset i held)"
| step_drop: "i \<in># held \<Longrightarrow> atom_step hash (t, held) (atom_drop i t, held - {#i#})"
| step_rollback: "i \<in># held \<Longrightarrow> content t i = Some (Namespace_String, d) \<Longrightarrow>
    atom_step hash (t, held) (rollback_interned_string hash i t, held - {#i#})"
| step_collect: "atom_step hash (t, held) (snd (collect_dead t), held)"
| step_key: "string_wf s \<Longrightarrow> property_key_from_string hash alloc s t = (Inr key, t') \<Longrightarrow>
    atom_step hash (t, held) (t', held + key_atoms key)"
| step_symbol_key: "ah_address atom \<in># held \<Longrightarrow> property_key_from_symbol alive atom t = (Inr key, t') \<Longrightarrow>
    atom_step hash (t, held) (t', held + key_atoms key)"
| step_restore: "\<forall>a\<in>set atoms. length (snd a) \<le> max_units \<Longrightarrow> restore_atoms hash alloc atoms t = (outcome, t') \<Longrightarrow>
    atom_step hash (t, held) (t', held)"

definition atom_run :: "content_hasher \<Rightarrow> atom_table \<Rightarrow> nat multiset \<Rightarrow> bool" where
  "atom_run hash t held \<longleftrightarrow>
     (\<exists>alloc state limits t0. atom_table_new hash alloc state limits = Inr t0 \<and> (atom_step hash)\<^sup>*\<^sup>* (t0, {#}) (t, held))"

lemma string_key_cases:
  assumes "string_wf s" "property_key_from_string hash alloc s t = (r, t')"
  obtains (index) k where "valid_index k" "units s = index_text k" "r = Inr (Key_Index k)" "t' = t"
  | (atom) r' where "\<nexists>k. valid_index k \<and> units s = index_text k" "intern_description hash alloc Namespace_String (units s) t = (r', t')"
      "r = (case r' of Inl e \<Rightarrow> Inl e | Inr atom \<Rightarrow> Inr (Key_Atom (ah_address atom) Atom_String))"
proof -
  obtain p where p: "parse_property_key s = Inr p" "\<And>k. p = Some k \<longleftrightarrow> valid_index k \<and> units s = index_text k"
    using parse_property_key_exact [OF assms(1)] by blast
  show thesis
  proof (cases p)
    case (Some k)
    then have "property_key_from_string hash alloc s t = (Inr (Key_Index k), t)"
      using p(1) by (simp add: property_key_from_string_def)
    moreover have "valid_index k \<and> units s = index_text k" using p(2) Some by blast
    ultimately show thesis using index [of k] assms(2) by auto
  next
    case None
    then show thesis
      using atom p assms(2) by (auto simp: property_key_from_string_def intern_string_def split: prod.splits sum.splits)
  qed
qed

lemma unique_symbol_books:
  assumes "books hash t held" "case d of None \<Rightarrow> True | Some u \<Rightarrow> length u \<le> max_units"
  shows "creates hash alloc (new_entry Atom_Symbol d None) 0 t held (new_unique_symbol alloc d t)"
  unfolding new_unique_symbol_def using assms
  by (intro insert_unique_creates) (auto simp: entry_content_def entry_units_def split: option.splits)

lemma private_name_books:
  assumes "books hash t held" "length d \<le> max_units"
  shows "creates hash alloc (new_entry Atom_Private (Some d) None) 0 t held (new_private_name alloc d t)"
  unfolding new_private_name_def using assms
  by (intro insert_unique_creates) (auto simp: entry_content_def entry_units_def)

lemma predefined_live: "books hash t held \<Longrightarrow> n < length (at_predefined t) \<Longrightarrow> live t (at_predefined t ! n)"
  by (simp add: books_def owned_def live_def)

lemma atom_step_books:
  assumes "atom_step hash (t, held) (t', held')" "books hash t held"
  shows "books hash t' held' \<and> keeps t t'"
  using assms(1)
proof (cases rule: atom_step.cases)
  case (step_intern d alloc ns atom)
  then show ?thesis using intern_books [OF assms(2)] by fastforce
next
  case (step_symbol d alloc atom)
  then show ?thesis using creates_books [OF assms(2) unique_symbol_books [OF assms(2), of d alloc, unfolded step_symbol]] by simp
next
  case (step_private d alloc atom)
  then show ?thesis using creates_books [OF assms(2) private_name_books [OF assms(2), of d alloc, unfolded step_private]] by simp
next
  case (step_predefined n)
  then show ?thesis using books_clone [OF assms(2) predefined_live [OF assms(2)]] by simp
next
  case (step_clone i)
  then show ?thesis using books_clone [OF assms(2)] held_live assms(2) by (auto simp: books_def)
next
  case (step_drop i)
  then show ?thesis using books_drop [OF assms(2)] by simp
next
  case (step_rollback i d)
  then show ?thesis using books_rollback [OF assms(2)] by simp
next
  case step_collect
  then show ?thesis using books_collect [OF assms(2)] by simp
next
  case (step_key s alloc key)
  from step_key(2,3) show ?thesis
  proof (cases rule: string_key_cases)
    case (index k)
    then show ?thesis using assms(2) step_key by simp
  next
    case (atom r')
    then obtain a where a: "r' = Inr a" "key = Key_Atom (ah_address a) Atom_String" by (cases r') auto
    have "length (units s) \<le> max_units" using units_bounded [OF step_key(2)] .
    from intern_books [OF assms(2) this] atom a step_key(1) show ?thesis by fastforce
  qed
next
  case (step_symbol_key atom alive key)
  let ?i = "ah_address atom"
  have "live t ?i" using held_live assms(2) step_symbol_key(2) by (auto simp: books_def)
  moreover have "t' = atom_clone ?i t" "key_atoms key = {#?i#}"
    using step_symbol_key(3) by (auto simp: property_key_from_symbol_def split: sum.splits atom_kind.splits)
  ultimately show ?thesis using books_clone [OF assms(2)] step_symbol_key(1) by simp
next
  case (step_restore atoms alloc outcome)
  then show ?thesis using books_restore [OF assms(2)] by simp
qed

lemma atom_steps_books:
  "(atom_step hash)\<^sup>*\<^sup>* (t, held) (t', held') \<Longrightarrow> books hash t held \<Longrightarrow> books hash t' held' \<and> keeps t t'"
proof (induction "(t', held')" arbitrary: t' held' rule: rtranclp_induct)
  case (step s)
  obtain t1 held1 where s: "s = (t1, held1)" by (cases s)
  then have "books hash t1 held1" "keeps t t1" using step by auto
  then show ?case using atom_step_books [of hash t1 held1 t' held'] step(2) s keeps_trans by blast
qed simp

lemma atom_run_books:
  assumes "atom_run hash t held"
  obtains t0 where "books hash t held" "keeps t0 t" "at_entries t0 = spec_entries PREDEFINED_ATOM_SPECS" "at_predefined t = [0..<244]"
proof -
  obtain alloc state limits t0 where t0: "atom_table_new hash alloc state limits = Inr t0"
    "(atom_step hash)\<^sup>*\<^sup>* (t0, {#}) (t, held)"
    using assms by (auto simp: atom_run_def)
  then have start: "books hash t0 {#}" "at_entries t0 = spec_entries PREDEFINED_ATOM_SPECS" "at_predefined t0 = [0..<244]"
    using atom_table_new_exact [where limits = limits and hash = hash and alloc = alloc and state = state] by (auto split: if_splits)
  from atom_steps_books [OF t0(2) start(1)] have "books hash t held" "keeps t0 t" by simp_all
  then show thesis
    using that [of t0] start by (simp add: keeps_def)
qed

lemma keeps_content:
  assumes "keeps t t'" "content t i = Some c"
  shows "content t' i = Some c"
proof -
  let ?z = "ae_strong_update (\<lambda>_. 0)"
  note i = content_bound [OF assms(2)]
  obtain new where "map ?z (at_entries t') = map ?z (at_entries t) @ new" using assms(1) by (auto simp: keeps_def)
  then have "map ?z (at_entries t') ! i = map ?z (at_entries t) ! i" "i < length (map ?z (at_entries t'))"
    using i by (simp_all add: nth_append)
  then have "?z (at_entries t' ! i) = ?z (at_entries t ! i)" "i < length (at_entries t')"
    using i by simp_all
  moreover have "entry_content e = entry_content (?z e)" for e
    by (simp add: entry_content_def split: atom_kind.split)
  ultimately show ?thesis
    using assms(2) i by (simp add: content_def get_def) metis
qed

section \<open>The contract of an interner\<close>

text \<open>
  What clients of an interner rely on: an interned content is returned with an identity that carries it, live contents
  keep their identities, and no two identities carry the same content.
\<close>

locale interner =
  fixes valid :: "'c \<Rightarrow> bool" and inv :: "'s \<Rightarrow> bool" and content_of :: "'s \<Rightarrow> 'i \<Rightarrow> 'c option"
    and intern :: "'c \<Rightarrow> 's \<Rightarrow> ('e, 'i) result \<times> 's"
  assumes intern_inv: "valid c \<Longrightarrow> inv s \<Longrightarrow> intern c s = (Inr i, s') \<Longrightarrow> inv s'"
    and intern_content: "valid c \<Longrightarrow> inv s \<Longrightarrow> intern c s = (Inr i, s') \<Longrightarrow> content_of s' i = Some c"
    and intern_keeps: "valid c \<Longrightarrow> inv s \<Longrightarrow> intern c s = (Inr i, s') \<Longrightarrow> content_of s j = Some d \<Longrightarrow> content_of s' j = Some d"
    and content_unique: "inv s \<Longrightarrow> content_of s i = Some c \<Longrightarrow> content_of s j = Some c \<Longrightarrow> i = j"
begin

lemma intern_again:
  "valid c \<Longrightarrow> inv s \<Longrightarrow> content_of s i = Some c \<Longrightarrow> intern c s = (Inr j, s') \<Longrightarrow> j = i"
  using intern_inv intern_content intern_keeps content_unique by metis

lemma intern_same_iff:
  "valid d \<Longrightarrow> inv s \<Longrightarrow> content_of s i = Some c \<Longrightarrow> intern d s = (Inr j, s') \<Longrightarrow> i = j \<longleftrightarrow> c = d"
  using intern_again intern_content intern_keeps by (metis option.inject)

end

definition live_content :: "atom_table \<Rightarrow> nat \<Rightarrow> (intern_namespace \<times> description) option" where
  "live_content t i = (if live t i then content t i else None)"

definition intern_address ::
  "content_hasher \<Rightarrow> allocator \<Rightarrow> intern_namespace \<times> description \<Rightarrow> atom_table \<Rightarrow> (atom_error, nat) result \<times> atom_table" where
  "intern_address hash alloc c t = map_prod (map_sum id ah_address) id (intern_description hash alloc (fst c) (snd c) t)"

lemma intern_result:
  assumes "books hash t held" "length d \<le> max_units" "intern_description hash alloc ns d t = (Inr atom, t')"
  shows "content t' (ah_address atom) = Some (ns, d)"
proof (cases "\<exists>i. live t i \<and> content t i = Some (ns, d)")
  case True
  then obtain i where i: "live t i" "content t i = Some (ns, d)" by blast
  then have "atom = handle t i" "t' = atom_clone i t"
    using intern_found [OF assms(1) i, of alloc] assms(3) by simp_all
  then show ?thesis using keeps_content [OF books_clone(2) [OF assms(1) i(1)] i(2)] by (simp add: handle_def)
next
  case False
  then have "content t i \<noteq> Some (ns, d)" if "live t i" for i using that by blast
  from intern_creates [OF assms(1,2) this, of alloc] have "ah_address atom = length (at_entries t)"
    "at_entries t' = at_entries t @ [new_entry (namespace_kind ns) (Some d) None]"
    unfolding assms(3) by (auto simp: creates_def handle_def split: option.splits)
  then show ?thesis
    by (cases ns) (simp_all add: content_def get_def entry_content_def nth_append)
qed

lemma intern_keeps_live:
  assumes "books hash t held" "length d \<le> max_units" "intern_description hash alloc ns d t = (Inr atom, t')" "live t i"
  shows "live t' i"
proof (cases "\<exists>j. live t j \<and> content t j = Some (ns, d)")
  case True
  then obtain j where j: "live t j" "content t j = Some (ns, d)" by blast
  then have "t' = atom_clone j t"
    using intern_found [OF assms(1) j, of alloc] assms(3) by simp
  then show ?thesis
    using assms(4) strong_set_strong [OF live_bound [OF j(1)]] atom_clone_eq [OF live_bound [OF j(1)]] by (simp add: live_def)
next
  case False
  then have "content t i \<noteq> Some (ns, d)" if "live t i" for i using that by blast
  from intern_creates [OF assms(1,2) this, of alloc]
  have "at_entries t' = at_entries t @ [new_entry (namespace_kind ns) (Some d) None]"
    unfolding assms(3) by (auto simp: creates_def split: option.splits)
  then show ?thesis
    using assms(4) live_bound [OF assms(4)] by (simp add: live_def strong_count_def get_def nth_append)
qed

interpretation atoms: interner "\<lambda>c. length (snd c) \<le> max_units" "\<lambda>t. \<exists>held. books hash t held" live_content "intern_address hash alloc"
  for hash alloc
proof unfold_locales
  fix c :: "intern_namespace \<times> description" and t i t' assume c: "length (snd c) \<le> max_units" and inv: "\<exists>held. books hash t held"
    and run: "intern_address hash alloc c t = (Inr i, t')"
  then obtain held atom where atom: "books hash t held" "intern_description hash alloc (fst c) (snd c) t = (Inr atom, t')" "i = ah_address atom"
    by (cases "intern_description hash alloc (fst c) (snd c) t") (auto simp: intern_address_def map_sum_def split: sum.splits)
  have books: "books hash t' (add_mset i held)" and keeps: "keeps t t'"
    using intern_books [OF atom(1) c atom(2)] atom(3) by simp_all
  then show "\<exists>held. books hash t' held" by blast
  have "live t' i" using held_live books by (auto simp: books_def)
  then show "live_content t' i = Some c"
    using intern_result [OF atom(1) c atom(2)] atom(3) by (simp add: live_content_def)
  show "live_content t' j = Some d" if "live_content t j = Some d" for j d
    using that keeps_content [OF keeps] intern_keeps_live [OF atom(1) c atom(2)] by (auto simp: live_content_def split: if_splits)
next
  fix t i j and c :: "intern_namespace \<times> description"
  assume "\<exists>held. books hash t held" "live_content t i = Some c" "live_content t j = Some c"
  then show "i = j"
    by (auto simp: books_def interned_once_def live_content_def split: if_splits)
qed

section \<open>A sample table\<close>

definition sample_limits :: atom_limits where
  "sample_limits = \<lparr>al_max_live_atoms = 1000, al_max_live_description_code_units = 10000, al_max_interner_slots = 1000\<rparr>"

definition sample_name :: js_string where
  "sample_name = Latin1 [0x6c, 0x65, 0x6e, 0x67, 0x74, 0x68]"

lemma sample_start: "\<exists>t. atom_run (\<lambda>_ _. 0) t {#} \<and> at_entries t = spec_entries PREDEFINED_ATOM_SPECS"
proof -
  have "specs_fit sample_limits PREDEFINED_ATOM_SPECS" "unat (al_max_live_atoms sample_limits) \<le> max_units"
    unfolding specs_fit_def predefined_counts(1-3) by (simp_all add: sample_limits_def)
  then have "case atom_table_new (\<lambda>_ _. 0) (\<lambda>_ _. True) 0 sample_limits of
      Inl e \<Rightarrow> atom_refused (\<lambda>_ _. True) e | Inr t \<Rightarrow> at_entries t = spec_entries PREDEFINED_ATOM_SPECS"
    using atom_table_new_exact [where limits = sample_limits and hash = "\<lambda>_ _. 0" and alloc = "\<lambda>_ _. True" and state = 0] by (simp split: sum.splits)
  then obtain t where "atom_table_new (\<lambda>_ _. 0) (\<lambda>_ _. True) 0 sample_limits = Inr t" "at_entries t = spec_entries PREDEFINED_ATOM_SPECS"
    by (auto simp: atom_refused_def refused_def split: sum.splits)
  then show ?thesis unfolding atom_run_def by (metis rtranclp.rtrancl_refl)
qed

lemma sample_spec: "PREDEFINED_ATOM_SPECS ! 49 = (''length'', Predefined_String)"
  by code_simp

lemma sample_content:
  assumes "at_entries t = spec_entries PREDEFINED_ATOM_SPECS"
  shows "live t 49 \<and> content t 49 = Some (Namespace_String, units sample_name)"
proof -
  have "at_entries t ! 49 = spec_entry 49 (''length'', Predefined_String)" "49 < length (at_entries t)"
    using assms sample_spec predefined_counts(1) by (simp_all add: spec_entries_def)
  moreover have "text_units ''length'' = units sample_name"
    by (simp add: text_units_def sample_name_def)
  ultimately show ?thesis
    by (simp add: live_def strong_count_def content_def get_def entry_content_def)
qed

lemma sample_no_index: "string_wf sample_name" "parse_property_key sample_name = Inr None"
  by (simp_all add: sample_name_def parse_property_key_def code_unit_at_def is_ascii_digit_def get_def)

section \<open>Guarantees\<close>

text \<open>
  C29. The books of an atom table balance after every sequence of operations from its creation: interning, unique
  symbols, private names, clones, drops, collection, rollback, key conversion and restoration. The usage counts exactly the
  live entries, their code units and the interner slots, each within its limit. An entry has as many owners as there are
  handles outside, plus one for each of the 244 predefined atoms, which therefore never die, and no two live
  interned entries have the same content.
\<close>

theorem atom_books_balance:
  assumes "atom_run hash t held"
  shows "unat (au_live_atoms (at_usage t)) = length (live_entries t) \<and>
    unat (au_live_description_code_units (at_usage t)) = live_units t \<and>
    unat (au_interner_slots (at_usage t)) = length (slots (at_buckets t)) \<and> usage_within (at_limits t) (at_usage t) \<and>
    (\<forall>i. strong_count t i = count held i + (if i < 244 then 1 else 0)) \<and>
    (\<forall>i j c. live t i \<and> live t j \<and> content t i = Some c \<and> content t j = Some c \<longrightarrow> i = j) \<and>
    (let (removed, t') = collect_dead t
     in unat removed = length (slots (at_buckets t)) - unat (au_interner_slots (at_usage t')) \<and>
        unat (au_interner_slots (at_usage t')) = length (filter (\<lambda>e. entry_content e \<noteq> None) (live_entries t)))"
proof -
  obtain t0 where books: "books hash t held" and pre: "at_predefined t = [0..<244]"
    using atom_run_books [OF assms] by metis
  have "count (mset [0..<244]) i = (if i < 244 then 1 else 0)" for i :: nat
    using distinct_count_atmost_1 [of "[0..<244]"] by simp
  moreover have "collect_dead t = (fst (collect_dead t), snd (collect_dead t))" by simp
  moreover have "usage_exact (snd (collect_dead t))" using books_collect(1) [OF books] by (simp add: books_def)
  moreover note books_collect(3,4) [OF books] live_slots_exact [OF books] length_live_dead [of t "slots (at_buckets t)"]
  ultimately show ?thesis
    using books pre by (auto simp: books_def owned_def interned_once_def usage_exact_def live_slots_def case_prod_beta)
qed

theorem atom_books_balance_witness: "\<exists>t. atom_run (\<lambda>_ _. 0) t {#} \<and> usage_within (at_limits t) (at_usage t) \<and> strong_count t 0 = 1"
proof -
  obtain t where "atom_run (\<lambda>_ _. 0) t {#}" using sample_start by blast
  with atom_books_balance [OF this] show ?thesis by auto
qed

text \<open>
  C11. Interning is exact in every reachable table. A live entry of the content is returned and gains an owner. Otherwise
  the first exceeded limit is reported, where only live entries count against the slots, or the allocator refused and nothing
  changed, or a fresh entry with one owner is added and nothing else. Unique symbols and private names are always fresh.
\<close>

theorem atom_creation_exact:
  assumes "atom_run hash t held" "length d \<le> max_units"
  shows "(\<forall>i. live t i \<and> content t i = Some (ns, d) \<longrightarrow>
        intern_description hash alloc ns d t = (Inr (handle t i), atom_clone i t)) \<and>
    ((\<nexists>i. live t i \<and> content t i = Some (ns, d)) \<longrightarrow>
        creates hash alloc (new_entry (namespace_kind ns) (Some d) None) 1 t held (intern_description hash alloc ns d t)) \<and>
    creates hash alloc (new_entry Atom_Symbol (Some d) None) 0 t held (new_unique_symbol alloc (Some d) t) \<and>
    creates hash alloc (new_entry Atom_Symbol None None) 0 t held (new_unique_symbol alloc None t) \<and>
    creates hash alloc (new_entry Atom_Private (Some d) None) 0 t held (new_private_name alloc d t) \<and>
    live_slots t = length (filter (\<lambda>e. entry_content e \<noteq> None) (live_entries t))"
proof -
  obtain t0 where books: "books hash t held" using atom_run_books [OF assms(1)] by metis
  show ?thesis
    using intern_found [OF books] intern_creates [OF books assms(2), of ns alloc] unique_symbol_books [OF books]
      private_name_books [OF books assms(2)] live_slots_exact [OF books] assms(2)
    by auto
qed

theorem atom_creation_exact_witness:
  "\<exists>t. intern_description (\<lambda>_ _. 0) (\<lambda>_ _. True) Namespace_String (units sample_name) t = (Inr (handle t 49), atom_clone 49 t)"
proof -
  obtain t where t: "atom_run (\<lambda>_ _. 0) t {#}" "at_entries t = spec_entries PREDEFINED_ATOM_SPECS" using sample_start by blast
  have "length (units sample_name) \<le> max_units" by (simp add: sample_name_def)
  from atom_creation_exact [OF t(1) this, of Namespace_String "\<lambda>_ _. True"] sample_content [OF t(2)] show ?thesis by blast
qed

text \<open>
  C10. Property keys are equal exactly when their spellings are: a key made from a string and kept, whatever happens to the
  table in between, equals a key made from another string if and only if the two strings have the same code
  units, be they array indices or interned names.
\<close>

theorem property_keys_canonical:
  assumes "atom_run hash t held" "string_wf a" "string_wf b" "property_key_from_string hash alloc a t = (Inr key_a, t1)"
    and "(atom_step hash)\<^sup>*\<^sup>* (t1, held + key_atoms key_a) (t2, held2)" "key_atoms key_a \<subseteq># held2"
    and "property_key_from_string hash alloc' b t2 = (Inr key_b, t3)"
  shows "key_a = key_b \<longleftrightarrow> units a = units b"
proof -
  obtain t0 where books: "books hash t held" using atom_run_books [OF assms(1)] by metis
  have "books hash t1 (held + key_atoms key_a)"
    using atom_step_books [OF step_key [OF assms(2,4)] books] by blast
  from atom_steps_books [OF assms(5) this] have books2: "books hash t2 held2" and keeps: "keeps t1 t2" by simp_all
  from assms(3,7) show ?thesis
  proof (cases rule: string_key_cases)
    case b: (index k)
    from assms(2,4) show ?thesis
      by (cases rule: string_key_cases) (use b in \<open>auto simp: index_text_inject split: sum.splits\<close>)
  next
    case b: (atom r')
    then obtain y where y: "r' = Inr y" "key_b = Key_Atom (ah_address y) Atom_String" by (cases r') auto
    have len_b: "length (units b) \<le> max_units" using units_bounded [OF assms(3)] .
    from assms(2,4) show ?thesis
    proof (cases rule: string_key_cases)
      case (index k)
      then show ?thesis using b(1) y by auto
    next
      case (atom r)
      then obtain x where x: "r = Inr x" "key_a = Key_Atom (ah_address x) Atom_String" by (cases r) auto
      have "content t1 (ah_address x) = Some (Namespace_String, units a)"
        using intern_result [OF books units_bounded [OF assms(2)]] atom(2) x(1) by blast
      moreover have "live t2 (ah_address x)"
        using held_live [of t2 held2] books2 assms(6) x(2) by (simp add: books_def)
      ultimately have present: "live_content t2 (ah_address x) = Some (Namespace_String, units a)"
        using keeps_content [OF keeps] by (simp add: live_content_def)
      have run: "intern_address hash alloc' (Namespace_String, units b) t2 = (Inr (ah_address y), t3)"
        using b(2) y(1) by (simp add: intern_address_def)
      from atoms.intern_same_iff [OF _ _ present run] books2 len_b
      have "ah_address x = ah_address y \<longleftrightarrow> (Namespace_String, units a) = (Namespace_String, units b)" by auto
      then show ?thesis using x(2) y(2) by simp
    qed
  qed
qed

theorem property_keys_canonical_witness:
  "\<exists>t t1 t2. property_key_from_string (\<lambda>_ _. 0) (\<lambda>_ _. True) sample_name t = (Inr (Key_Atom 49 Atom_String), t1) \<and>
     property_key_from_string (\<lambda>_ _. 0) (\<lambda>_ _. True) sample_name t1 = (Inr (Key_Atom 49 Atom_String), t2)"
proof -
  let ?hash = "\<lambda>_ _. 0" and ?alloc = "\<lambda>_ _. True"
  obtain t where t: "atom_run ?hash t {#}" "at_entries t = spec_entries PREDEFINED_ATOM_SPECS" using sample_start by blast
  then have books: "books ?hash t {#}" using atom_run_books [OF t(1)] by metis
  note here = sample_content [OF t(2)]
  have key: "property_key_from_string ?hash ?alloc sample_name u = (Inr (Key_Atom 49 Atom_String), atom_clone 49 u)"
    if "books ?hash u held" "live u 49 \<and> content u 49 = Some (Namespace_String, units sample_name)" for u held
    using intern_found [of ?hash u held 49] that sample_no_index(2)
    by (simp add: property_key_from_string_def intern_string_def handle_def)
  let ?t1 = "atom_clone 49 t"
  note cloned = books_clone [OF books conjunct1 [OF here]]
  have "live ?t1 49 \<and> content ?t1 49 = Some (Namespace_String, units sample_name)"
    using keeps_content [OF cloned(2)] held_live [of ?t1 "{#49#}" 49] cloned(1) here by (simp add: books_def)
  note second = key [OF cloned(1) this]
  have "Key_Atom 49 Atom_String = Key_Atom 49 Atom_String \<longleftrightarrow> units sample_name = units sample_name"
    by (rule property_keys_canonical [OF t(1) sample_no_index(1) sample_no_index(1) key [OF books here] _ _ second, where ?held2.0 = "{#49#}"]) simp_all
  then show ?thesis using key [OF books here] second by blast
qed

text \<open>
  C38. Creation of a table either fails, exactly when a limit is above the maximum or below what the predefined atoms need or
  the allocator refuses, or returns a table that holds the 244 predefined atoms in order, each with one owner, whose usage is
  the three documented constants.
\<close>

theorem atom_table_startup:
  "if unat (al_max_live_atoms limits) \<le> max_units \<and> 244 \<le> unat (al_max_live_atoms limits) \<and>
      2119 \<le> unat (al_max_live_description_code_units limits) \<and> 228 \<le> unat (al_max_interner_slots limits)
   then (case atom_table_new hash alloc state limits of
       Inl e \<Rightarrow> atom_refused alloc e
     | Inr t \<Rightarrow> books hash t {#} \<and> at_entries t = spec_entries PREDEFINED_ATOM_SPECS \<and> at_predefined t = [0..<244] \<and>
         unat (au_live_atoms (at_usage t)) = 244 \<and> unat (au_live_description_code_units (at_usage t)) = 2119 \<and>
         unat (au_interner_slots (at_usage t)) = 228)
   else (\<exists>e. atom_table_new hash alloc state limits = Inl e)"
proof -
  have fit: "specs_fit limits PREDEFINED_ATOM_SPECS \<longleftrightarrow> 244 \<le> unat (al_max_live_atoms limits) \<and>
      2119 \<le> unat (al_max_live_description_code_units limits) \<and> 228 \<le> unat (al_max_interner_slots limits)"
    unfolding specs_fit_def predefined_counts(1-3) ..
  have "unat (au_live_atoms (at_usage t)) = 244 \<and> unat (au_live_description_code_units (at_usage t)) = 2119 \<and>
      unat (au_interner_slots (at_usage t)) = 228"
    if books: "books hash t {#}" and entries: "at_entries t = spec_entries PREDEFINED_ATOM_SPECS" for t
  proof -
    note counts = spec_entries_counts [of PREDEFINED_ATOM_SPECS]
    have "live_entries t = spec_entries PREDEFINED_ATOM_SPECS" using counts(2) entries by (simp add: live_entries_def)
    moreover have "live_slots t = length (slots (at_buckets t))"
      using slots_all_live [OF books] entries by (auto simp: spec_entries_def)
    ultimately show ?thesis
      using books live_slots_exact [OF books] counts predefined_counts(1-3) by (simp add: books_def usage_exact_def live_units_def)
  qed
  then show ?thesis
    using atom_table_new_exact [where limits = limits and hash = hash and alloc = alloc and state = state] fit
    by (auto split: if_splits sum.splits)
qed

text \<open>
  C39. Array indices round-trip through their spelling. The parser never fails and accepts exactly the decimal digits of a
  valid index without leading zeros; printing an index gives these digits, or the allocator refused, and reading them back
  gives the index.
\<close>

theorem index_key_round_trip:
  assumes "string_wf key"
  shows "(\<exists>r. parse_property_key key = Inr r \<and> (\<forall>index. r = Some index \<longleftrightarrow> valid_index index \<and> units key = index_text index)) \<and>
    (case to_js_string alloc index of
       Inl e \<Rightarrow> refused alloc e
     | Inr s \<Rightarrow> string_wf s \<and> units s = index_text index \<and> (valid_index index \<longrightarrow> parse_property_key s = Inr (Some index)))"
proof -
  have "parse_property_key s = Inr (Some index)" if "string_wf s" "units s = index_text index" "valid_index index" for s
    using parse_property_key_exact [OF that(1)] that(2,3) by auto
  then show ?thesis
    using parse_property_key_exact [OF assms] to_js_string_exact [of alloc index] by (auto split: sum.splits)
qed

theorem index_key_round_trip_witness:
  "\<exists>s. to_js_string (\<lambda>_ _. True) (ArrayIndex 4294967294) = Inr s \<and> parse_property_key s = Inr (Some (ArrayIndex 4294967294))"
proof -
  have "string_wf (Latin1 [])" "valid_index (ArrayIndex 4294967294)"
    by (simp_all add: valid_index_def MAX_ARRAY_INDEX_def)
  with index_key_round_trip [of "Latin1 []" "\<lambda>_ _. True" "ArrayIndex 4294967294"] show ?thesis
    by (auto simp: refused_def split: sum.splits)
qed

text \<open>
  Restoration installs nothing that lasts: every restored handle is dropped at once, so that each entry has the owners it had
  before.
\<close>

lemma restore_installs_nothing:
  assumes "atom_run hash t held" "\<forall>a\<in>set atoms. length (snd a) \<le> max_units" "restore_atoms hash alloc atoms t = (outcome, t')"
  shows "strong_count t' = strong_count t"
proof -
  obtain t0 where books: "books hash t held" using atom_run_books [OF assms(1)] by metis
  from books_restore [OF this assms(2,3)] show ?thesis
    using books by (auto simp: books_def owned_def keeps_def fun_eq_iff)
qed

end
